(* ===== verification/JsPrelude.thy ===== *)
theory JsPrelude
  imports Main "HOL-Library.Sublist"
begin

text \<open>
  Prelude of the development: the JavaScript values, arrays and keyed containers that the
  component theories share.

  A value the code reads from a JSON payload is a \<open>jsval\<close>; a plain object is the list of its
  own properties in insertion order, and an absent property reads as \<open>JUndef\<close>, as in JavaScript.
  Numbers are integers: the modelled code computes with ids, counters and millisecond clocks
  only. A \<open>Map\<close> (or a plain object used as a dictionary) is an association list in insertion
  order, \<open>omap\<close>, whose laws are stated once as the locale \<open>keyed_store\<close>.
\<close>

named_theorems js_defs "definitions of the small JavaScript operations"

section \<open>Values\<close>

datatype jsval =
    JUndef
  | JNull
  | JBool bool
  | JNum int
  | JStr string
  | JArr "jsval list"
  | JObj "(string \<times> jsval) list"
  | JRef nat

type_synonym jobj = "(string \<times> jsval) list"

text \<open>JavaScript truthiness: \<open>undefined\<close>, \<open>null\<close>, \<open>false\<close>, \<open>0\<close> and the empty string are falsy.\<close>

fun truthy :: "jsval \<Rightarrow> bool" where
  "truthy JUndef = False"
| "truthy JNull = False"
| "truthy (JBool b) = b"
| "truthy (JNum n) = (n \<noteq> 0)"
| "truthy (JStr s) = (s \<noteq> [])"
| "truthy (JArr xs) = True"
| "truthy (JObj ps) = True"
| "truthy (JRef r) = True"

text \<open>
  \<open>ToNumber\<close> on the values that the modelled comparisons meet; \<open>None\<close> is \<open>NaN\<close>. A comparison
  with \<open>NaN\<close> is false.
\<close>

fun to_number :: "jsval \<Rightarrow> int option" where
  "to_number (JNum n) = Some n"
| "to_number JNull = Some 0"
| "to_number (JBool b) = Some (if b then 1 else 0)"
| "to_number _ = None"

definition js_less :: "jsval \<Rightarrow> jsval \<Rightarrow> bool" where
  "js_less a b = (case (to_number a, to_number b) of (Some x, Some y) \<Rightarrow> x < y | _ \<Rightarrow> False)"

definition js_ge :: "jsval \<Rightarrow> jsval \<Rightarrow> bool" where
  "js_ge a b = (case (to_number a, to_number b) of (Some x, Some y) \<Rightarrow> y \<le> x | _ \<Rightarrow> False)"

declare js_less_def [js_defs] js_ge_def [js_defs]

lemma js_less_num [simp]: "js_less (JNum a) (JNum b) = (a < b)"
  by (simp add: js_less_def)

lemma js_less_null [simp]: "js_less JNull (JNum b) = (0 < b)"
  by (simp add: js_less_def)

lemma js_less_undef [simp]: "\<not> js_less JUndef b" "\<not> js_less a JUndef"
  by (auto simp: js_less_def split: option.splits)

lemma js_ge_num [simp]: "js_ge (JNum a) (JNum b) = (b \<le> a)"
  by (simp add: js_ge_def)

lemma js_ge_undef [simp]: "\<not> js_ge JUndef b" "\<not> js_ge a JUndef"
  by (auto simp: js_ge_def split: option.splits)

text \<open>An id or counter that the code tests by truthiness only: an absent one reads as 0.\<close>

fun num_of :: "jsval \<Rightarrow> int" where
  "num_of (JNum n) = n"
| "num_of _ = 0"

section \<open>Errors\<close>

text \<open>What a call can throw: the class of the error and its message.\<close>

datatype js_error =
    TypeError string
  | Error string

type_synonym 'a result = "js_error + 'a"

fun bind_result :: "'a result \<Rightarrow> ('a \<Rightarrow> 'b result) \<Rightarrow> 'b result" where
  "bind_result (Inl e) f = Inl e"
| "bind_result (Inr a) f = f a"

lemma bind_result_Inr: "bind_result m f = Inr b \<longleftrightarrow> (\<exists>a. m = Inr a \<and> f a = Inr b)"
  by (cases m) auto

section \<open>Keyed containers\<close>

type_synonym ('k, 'v) omap = "('k \<times> 'v) list"

abbreviation om_get :: "('k, 'v) omap \<Rightarrow> 'k \<Rightarrow> 'v option" where
  "om_get \<equiv> map_of"

fun om_set :: "'k \<Rightarrow> 'v \<Rightarrow> ('k, 'v) omap \<Rightarrow> ('k, 'v) omap" where
  "om_set k v [] = [(k, v)]"
| "om_set k v ((a, b) # m) = (if a = k then (a, v) # m else (a, b) # om_set k v m)"

definition om_delete :: "'k \<Rightarrow> ('k, 'v) omap \<Rightarrow> ('k, 'v) omap" where
  "om_delete k m = filter (\<lambda>p. fst p \<noteq> k) m"

abbreviation om_keys :: "('k, 'v) omap \<Rightarrow> 'k list" where
  "om_keys \<equiv> map fst"

abbreviation om_values :: "('k, 'v) omap \<Rightarrow> 'v list" where
  "om_values \<equiv> map snd"

abbreviation om_wf :: "('k, 'v) omap \<Rightarrow> bool" where
  "om_wf m \<equiv> distinct (om_keys m)"

lemma om_get_set [simp]: "om_get (om_set k v m) = (om_get m)(k \<mapsto> v)"
  by (induction k v m rule: om_set.induct) (auto simp: fun_eq_iff)

lemma om_get_delete [simp]: "om_get (om_delete k m) = (om_get m)(k := None)"
  by (induction m) (auto simp: om_delete_def fun_eq_iff)

lemma om_keys_set: "om_keys (om_set k v m) = (if k \<in> set (om_keys m) then om_keys m else om_keys m @ [k])"
  by (induction k v m rule: om_set.induct) auto

lemma om_keys_delete: "om_keys (om_delete k m) = filter (\<lambda>a. a \<noteq> k) (om_keys m)"
  by (induction m) (auto simp: om_delete_def)

lemma om_wf_set [simp, intro]: "om_wf m \<Longrightarrow> om_wf (om_set k v m)"
  by (simp add: om_keys_set)

lemma om_wf_delete [simp, intro]: "om_wf m \<Longrightarrow> om_wf (om_delete k m)"
  by (simp add: om_keys_delete)

lemma om_has_iff: "(k \<in> set (om_keys m)) = (om_get m k \<noteq> None)"
  by (simp add: map_of_eq_None_iff)

lemma om_delete_absent: "om_get m k = None \<Longrightarrow> om_delete k m = m"
  by (induction m) (auto simp: om_delete_def split: if_splits)

lemma om_set_fresh: "om_get m k = None \<Longrightarrow> om_set k v m = m @ [(k, v)]"
  by (induction k v m rule: om_set.induct) (auto split: if_splits)

lemma om_values_mem: "om_wf m \<Longrightarrow> v \<in> set (om_values m) \<longleftrightarrow> (\<exists>k. om_get m k = Some v)"
  by (force simp: map_of_eq_Some_iff)

text \<open>
  The laws that the components rely on, for any container with insertion, deletion and lookup.
\<close>

locale keyed_store =
  fixes get :: "'m \<Rightarrow> 'k \<Rightarrow> 'v option"
    and put :: "'k \<Rightarrow> 'v \<Rightarrow> 'm \<Rightarrow> 'm"
    and del :: "'k \<Rightarrow> 'm \<Rightarrow> 'm"
    and keys :: "'m \<Rightarrow> 'k list"
    and wf :: "'m \<Rightarrow> bool"
  assumes get_put: "get (put k v m) = (get m)(k \<mapsto> v)"
    and get_del: "get (del k m) = (get m)(k := None)"
    and keys_get: "wf m \<Longrightarrow> k \<in> set (keys m) \<longleftrightarrow> get m k \<noteq> None"
    and wf_put: "wf m \<Longrightarrow> wf (put k v m)"
    and wf_del: "wf m \<Longrightarrow> wf (del k m)"
begin

definition put_all :: "('k \<times> 'v) list \<Rightarrow> 'm \<Rightarrow> 'm" where
  "put_all kvs m = fold (\<lambda>(k, v). put k v) kvs m"

definition del_all :: "'k list \<Rightarrow> 'm \<Rightarrow> 'm" where
  "del_all ks m = fold del ks m"

lemma get_put_same: "get (put k v m) k = Some v"
  by (simp add: get_put)

lemma get_put_other: "k' \<noteq> k \<Longrightarrow> get (put k v m) k' = get m k'"
  by (simp add: get_put)

lemma get_del_all: "get (del_all ks m) k = (if k \<in> set ks then None else get m k)"
proof -
  have "get (fold del ks m) k = (if k \<in> set ks then None else get m k)"
    by (induction ks arbitrary: m) (auto simp: get_del)
  then show ?thesis by (simp add: del_all_def)
qed

lemma wf_del_all: "wf m \<Longrightarrow> wf (del_all ks m)"
proof -
  assume "wf m"
  then have "wf (fold del ks m)"
    by (induction ks arbitrary: m) (auto intro: wf_del)
  then show ?thesis by (simp add: del_all_def)
qed

lemma wf_put_all: "wf m \<Longrightarrow> wf (put_all kvs m)"
proof -
  assume "wf m"
  then have "wf (fold (\<lambda>(k, v). put k v) kvs m)"
    by (induction kvs arbitrary: m) (auto intro: wf_put)
  then show ?thesis by (simp add: put_all_def)
qed

lemma keys_put: "wf m \<Longrightarrow> set (keys (put k v m)) = insert k (set (keys m))"
  by (auto simp: keys_get wf_put get_put split: if_splits)

lemma keys_del: "wf m \<Longrightarrow> set (keys (del k m)) = set (keys m) - {k}"
  by (auto simp: keys_get wf_del get_del split: if_splits)

end

interpretation om: keyed_store om_get om_set om_delete om_keys om_wf
  by unfold_locales (simp_all only: om_get_set om_get_delete om_has_iff om_wf_set om_wf_delete simp_thms)

section \<open>Objects\<close>

text \<open>Reading, writing and deleting an own property. An absent property reads as \<open>undefined\<close>.\<close>

definition pget :: "jobj \<Rightarrow> string \<Rightarrow> jsval" where
  "pget ob k = (case om_get ob k of None \<Rightarrow> JUndef | Some v \<Rightarrow> v)"

lemma pget_set [simp]: "pget (om_set k v ob) k' = (if k' = k then v else pget ob k')"
  by (simp add: pget_def)

lemma pget_delete [simp]: "pget (om_delete k ob) k' = (if k' = k then JUndef else pget ob k')"
  by (simp add: pget_def)

lemma pget_Nil [simp]: "pget [] k = JUndef"
  by (simp add: pget_def)

lemma pget_Cons: "pget ((k, v) # ob) k' = (if k' = k then v else pget ob k')"
  by (simp add: pget_def)

text \<open>\<open>setProperties\<close> and \<open>Object.assign\<close>: the source's own properties, in order.\<close>

definition assign :: "jobj \<Rightarrow> jobj \<Rightarrow> jobj" where
  "assign ob src = fold (\<lambda>(k, v) acc. om_set k v acc) src ob"

lemma assign_Nil [simp]: "assign ob [] = ob"
  by (simp add: assign_def)

lemma assign_Cons [simp]: "assign ob ((k, v) # src) = assign (om_set k v ob) src"
  by (simp add: assign_def)

lemma om_get_assign: "om_wf src \<Longrightarrow>
    om_get (assign ob src) k = (case om_get src k of None \<Rightarrow> om_get ob k | Some v \<Rightarrow> Some v)"
proof (induction src arbitrary: ob)
  case (Cons p src)
  obtain a b where p: "p = (a, b)" by force
  with Cons.prems have "om_get src a = None" and "om_wf src"
    by (auto simp: map_of_eq_None_iff)
  then show ?case using p by (simp add: Cons.IH split: option.splits)
qed simp

lemma om_wf_assign [simp, intro]: "om_wf ob \<Longrightarrow> om_wf (assign ob src)"
  by (induction src arbitrary: ob) auto

section \<open>Arrays\<close>

text \<open>\<open>indexOf\<close>, with \<open>-1\<close> for a missing element.\<close>

fun index_of :: "'a list \<Rightarrow> 'a \<Rightarrow> int" where
  "index_of [] x = -1"
| "index_of (y # ys) x = (if y = x then 0 else let i = index_of ys x in if i = -1 then -1 else i + 1)"

lemma index_of_ge: "index_of xs x \<ge> -1"
  by (induction xs x rule: index_of.induct) (auto simp: Let_def)

lemma index_of_missing [simp]: "index_of xs x = -1 \<longleftrightarrow> x \<notin> set xs"
proof (induction xs x rule: index_of.induct)
  case (2 y ys x)
  then show ?case using index_of_ge [of ys x] by (auto simp: Let_def)
qed simp

lemma index_of_append: "x \<notin> set pre \<Longrightarrow> index_of (pre @ x # post) x = int (length pre)"
  by (induction pre) auto

lemma index_of_nth:
  assumes "x \<in> set xs"
  shows "0 \<le> index_of xs x \<and> nat (index_of xs x) < length xs \<and> xs ! nat (index_of xs x) = x"
proof -
  from split_list_first [OF assms] obtain pre post
    where "xs = pre @ x # post" "x \<notin> set pre" by blast
  then show ?thesis by (simp add: index_of_append)
qed

text \<open>
  \<open>slice(start, end)\<close>: a negative bound counts from the end, bounds are clipped to the array.
\<close>

definition clip_bound :: "nat \<Rightarrow> int \<Rightarrow> nat" where
  "clip_bound n i = (if i < 0 then nat (max 0 (int n + i)) else min n (nat i))"

definition js_slice :: "int \<Rightarrow> int \<Rightarrow> 'a list \<Rightarrow> 'a list" where
  "js_slice i j xs = (let n = length xs; a = clip_bound n i; b = clip_bound n j
     in take (b - a) (drop a xs))"

definition js_slice_from :: "int \<Rightarrow> 'a list \<Rightarrow> 'a list" where
  "js_slice_from i xs = drop (clip_bound (length xs) i) xs"

lemma js_slice_nat: "js_slice (int i) (int j) xs = take (j - i) (drop i xs)"
  by (cases "j \<le> length xs"; cases "i \<le> length xs")
    (auto simp: js_slice_def clip_bound_def Let_def min_def)

lemma js_slice_parts:
  "js_slice 0 (int k) xs @ js_slice_from (int k) xs = xs"
  using js_slice_nat [of 0 k xs] by (simp add: js_slice_from_def clip_bound_def min_def)

lemma sublist_js_slice: "sublist (js_slice i j xs) xs"
  unfolding js_slice_def Let_def
  by (rule sublist_order.order.trans [OF sublist_take sublist_drop])

text \<open>\<open>at(-1)\<close> and \<open>[0]\<close>, undefined on an empty array.\<close>

definition last_opt :: "'a list \<Rightarrow> 'a option" where
  "last_opt xs = (if xs = [] then None else Some (last xs))"

definition first_opt :: "'a list \<Rightarrow> 'a option" where
  "first_opt xs = (case xs of [] \<Rightarrow> None | x # _ \<Rightarrow> Some x)"

definition nth_opt :: "'a list \<Rightarrow> int \<Rightarrow> 'a option" where
  "nth_opt xs i = (if 0 \<le> i \<and> nat i < length xs then Some (xs ! nat i) else None)"

text \<open>\<open>splice(i, 0, ...ys)\<close> inserts, \<open>splice(i, 1)\<close> removes one element.\<close>

definition splice_in :: "nat \<Rightarrow> 'a list \<Rightarrow> 'a list \<Rightarrow> 'a list" where
  "splice_in i ys xs = take i xs @ ys @ drop i xs"

definition splice_out :: "nat \<Rightarrow> 'a list \<Rightarrow> 'a list" where
  "splice_out i xs = take i xs @ drop (Suc i) xs"

text \<open>The idiom \<open>if (!xs.includes(x)) xs.push(x)\<close>.\<close>

definition push_new :: "'a \<Rightarrow> 'a list \<Rightarrow> 'a list" where
  "push_new x xs = (if x \<in> set xs then xs else xs @ [x])"

lemma push_new_distinct [simp, intro]: "distinct xs \<Longrightarrow> distinct (push_new x xs)"
  by (simp add: push_new_def)

lemma push_new_set [simp]: "set (push_new x xs) = insert x (set xs)"
  by (auto simp: push_new_def)

lemma set_splice_in [simp]: "set (splice_in i ys xs) = set xs \<union> set ys"
proof -
  have "set xs = set (take i xs) \<union> set (drop i xs)"
    by (metis append_take_drop_id set_append)
  then show ?thesis by (auto simp: splice_in_def)
qed

lemma distinct_splice_in:
  "distinct xs \<Longrightarrow> distinct ys \<Longrightarrow> set xs \<inter> set ys = {} \<Longrightarrow> distinct (splice_in i ys xs)"
  unfolding splice_in_def
  using set_take_disj_set_drop_if_distinct [of xs i i]
  by (auto dest: in_set_takeD in_set_dropD)

section \<open>Joining strings\<close>

fun join :: "string \<Rightarrow> string list \<Rightarrow> string" where
  "join sep [] = []"
| "join sep [x] = x"
| "join sep (x # y # xs) = x @ sep @ join sep (y # xs)"

end
