(* ===== verification/ArrayTools.thy ===== *)
theory ArrayTools
  imports JsPrelude
begin

text \<open>
  The array helpers of \<open>frontend/discourse/app/lib/array-tools.js\<close>: adding values that are not
  there yet, removing values in place, and dropping duplicates. An argument that may fail to be
  an array is an \<open>option\<close>, with \<open>None\<close> for a value \<open>Array.isArray\<close> rejects.

  The removal loop is kept as the loop of the code (an index that runs down, with an in-place
  \<open>splice\<close>); \<open>remove_value_filter\<close> shows that it is the filter its documentation promises. The laws
  that the other components use are the locale \<open>array_remover\<close>.
\<close>

section \<open>Adding\<close>

text \<open>\<open>selector\<close> is \<open>None\<close> when the caller gives none; items are then compared themselves.\<close>

definition addUniqueValueToArray :: "'a list \<Rightarrow> 'a \<Rightarrow> ('a \<Rightarrow> 'k) option \<Rightarrow> 'a list" where
  "addUniqueValueToArray target value selector =
     (let exists = (case selector of
          Some f \<Rightarrow> list_ex (\<lambda>item. f item = f value) target
        | None \<Rightarrow> value \<in> set target)
      in if exists then target else target @ [value])"

fun add_unique_loop :: "('a \<Rightarrow> 'k) option \<Rightarrow> 'a list \<Rightarrow> 'a list \<Rightarrow> 'a list" where
  "add_unique_loop selector target [] = target"
| "add_unique_loop selector target (v # vs) =
     add_unique_loop selector (addUniqueValueToArray target v selector) vs"

definition addUniqueValuesToArray ::
    "'a list option \<Rightarrow> 'a list option \<Rightarrow> ('a \<Rightarrow> 'k) option \<Rightarrow> 'a list result" where
  "addUniqueValuesToArray target values selector =
     (case target of
        None \<Rightarrow> Inl (TypeError ''addUniqueValuesToArray: 'target' must be an array'')
      | Some t \<Rightarrow> (case values of
          None \<Rightarrow> Inl (TypeError ''addUniqueValuesToArray: 'values' must be an array'')
        | Some vs \<Rightarrow> Inr (add_unique_loop selector t vs)))"

section \<open>Removing\<close>

text \<open>\<open>while (--loc >= 0) if (target[loc] === value) target.splice(loc, 1)\<close>.\<close>

fun remove_loop :: "nat \<Rightarrow> 'a \<Rightarrow> 'a list \<Rightarrow> 'a list" where
  "remove_loop 0 v xs = xs"
| "remove_loop (Suc loc) v xs =
     remove_loop loc v (if xs ! loc = v then splice_out loc xs else xs)"

definition remove_value :: "'a list \<Rightarrow> 'a \<Rightarrow> 'a list" where
  "remove_value target v = remove_loop (length target) v target"

definition removeValueFromArray :: "'a list option \<Rightarrow> 'a \<Rightarrow> 'a list result" where
  "removeValueFromArray target v =
     (case target of
        None \<Rightarrow> Inl (TypeError ''removeValueFromArray: 'target' must be an array'')
      | Some t \<Rightarrow> Inr (remove_value t v))"

text \<open>The outer loop runs over \<open>values\<close> from its last element to its first.\<close>

definition removeValuesFromArray :: "'a list \<Rightarrow> 'a list \<Rightarrow> 'a list" where
  "removeValuesFromArray target values = foldl remove_value target (rev values)"

lemma remove_loop_split:
  "remove_loop (length pre) v (pre @ post) = filter (\<lambda>x. x \<noteq> v) pre @ post"
proof (induction pre arbitrary: post rule: rev_induct)
  case (snoc x pre)
  have "remove_loop (length (pre @ [x])) v ((pre @ [x]) @ post) =
        remove_loop (length pre) v (pre @ (if x = v then post else x # post))"
    by (simp add: splice_out_def nth_append)
  then show ?case by (simp add: snoc.IH)
qed simp

lemma remove_value_filter [simp]: "remove_value xs v = filter (\<lambda>x. x \<noteq> v) xs"
  using remove_loop_split [of xs v "[]"] by (simp add: remove_value_def)

text \<open>
  The contract of an in-place remover: afterwards the value is gone, every other element is
  there in its old order.
\<close>

locale array_remover =
  fixes remove :: "'a list \<Rightarrow> 'a \<Rightarrow> 'a list"
  assumes remove_filter: "remove xs v = filter (\<lambda>x. x \<noteq> v) xs"
begin

lemma remove_all: "foldl remove xs vs = filter (\<lambda>x. x \<notin> set vs) xs"
  by (induction vs arbitrary: xs) (auto simp: remove_filter intro: filter_cong)

lemma remove_subseq: "subseq (remove xs v) xs"
  by (simp add: remove_filter)

lemma remove_distinct: "distinct xs \<Longrightarrow> distinct (remove xs v)"
  by (simp add: remove_filter)

lemma remove_gone: "v \<notin> set (remove xs v)"
  by (simp add: remove_filter)

lemma remove_idem: "v \<notin> set xs \<Longrightarrow> remove xs v = xs"
  by (auto simp: remove_filter filter_id_conv)

end

interpretation rv: array_remover remove_value
  by unfold_locales simp

lemma removeValuesFromArray_filter [simp]:
  "removeValuesFromArray xs vs = filter (\<lambda>x. x \<notin> set vs) xs"
  by (simp add: removeValuesFromArray_def rv.remove_all)

section \<open>Unique items\<close>

text \<open>
  \<open>buildSelector\<close>: the selector argument by its \<open>typeof\<close>. Reading a property of an item and
  Ember's \<open>get\<close> on a dotted path are the parameters \<open>item_at\<close> and \<open>get_path\<close>.
\<close>

datatype ('a, 'k) selector =
    SelUndefined
  | SelNumber int
  | SelString string
  | SelFunction "'a \<Rightarrow> 'k"
  | SelOther string

definition buildSelector ::
    "(jsval \<Rightarrow> 'a \<Rightarrow> 'k) \<Rightarrow> (string \<Rightarrow> 'a \<Rightarrow> 'k) \<Rightarrow> ('a, 'k) selector \<Rightarrow> ('a \<Rightarrow> 'k) result" where
  "buildSelector item_at get_path selector =
     (case selector of
        SelNumber n \<Rightarrow> Inr (item_at (JNum n))
      | SelString s \<Rightarrow> Inr (if CHR ''.'' \<in> set s then get_path s else item_at (JStr s))
      | SelFunction f \<Rightarrow> Inr f
      | SelUndefined \<Rightarrow> Inl (Error (''uniqueItemsFromArray: the `selector` argument must be a string/number key '' @
          ''or a function, got undefined instead''))
      | SelOther t \<Rightarrow> Inl (Error (''uniqueItemsFromArray: the `selector` argument must be a string/number key '' @
          ''or a function, got '' @ t @ '' instead'')))"

fun dedupe_loop :: "('a \<Rightarrow> 'k) \<Rightarrow> 'k list \<Rightarrow> 'a list \<Rightarrow> 'a list" where
  "dedupe_loop f unique_keys [] = []"
| "dedupe_loop f unique_keys (item # items) =
     (if f item \<in> set unique_keys then dedupe_loop f unique_keys items
      else item # dedupe_loop f (f item # unique_keys) items)"

definition dedupeBy :: "'a list \<Rightarrow> ('a \<Rightarrow> 'k) \<Rightarrow> 'a list" where
  "dedupeBy array selectorFn = dedupe_loop selectorFn [] array"

text \<open>
  \<open>[...new Set(array)]\<close> keeps the first occurrence of every element, as \<open>dedupeBy\<close> with the
  identity. The array argument is \<open>None\<close> (with its \<open>typeof\<close>) when it is no array.
\<close>

definition uniqueItemsFromArray ::
    "(jsval \<Rightarrow> 'a \<Rightarrow> 'k) \<Rightarrow> (string \<Rightarrow> 'a \<Rightarrow> 'k) \<Rightarrow> (string + 'a list) \<Rightarrow> ('a, 'k) selector \<Rightarrow> 'a list result" where
  "uniqueItemsFromArray item_at get_path array selector =
     (case array of
        Inl t \<Rightarrow> Inl (Error (''uniqueItemsFromArray expects an array as first argument, got '' @ t @ '' instead''))
      | Inr xs \<Rightarrow> (case selector of
          SelUndefined \<Rightarrow> Inr (dedupe_loop (\<lambda>x. x) [] xs)
        | _ \<Rightarrow> bind_result (buildSelector item_at get_path selector) (\<lambda>f. Inr (dedupeBy xs f))))"

lemma dedupe_loop_keys: "set (map f (dedupe_loop f seen xs)) = f ` set xs - set seen"
  by (induction f seen xs rule: dedupe_loop.induct) auto

lemma dedupe_loop_distinct: "distinct (map f (dedupe_loop f seen xs))"
proof (induction f seen xs rule: dedupe_loop.induct)
  case (2 f seen item items)
  then show ?case
    using dedupe_loop_keys [of f "f item # seen" items] by auto
qed simp

lemma dedupe_loop_subseq: "subseq (dedupe_loop f seen xs) xs"
  by (induction f seen xs rule: dedupe_loop.induct) auto

lemma dedupe_loop_id:
  "distinct (map f xs) \<Longrightarrow> set (map f xs) \<inter> set seen = {} \<Longrightarrow> dedupe_loop f seen xs = xs"
  by (induction f seen xs rule: dedupe_loop.induct) auto

text \<open>The element kept for a key is the first one that has it.\<close>

lemma dedupe_loop_first:
  "f x \<notin> set seen \<Longrightarrow> find (\<lambda>y. f y = f x) (dedupe_loop f seen xs) = find (\<lambda>y. f y = f x) xs"
  by (induction f seen xs rule: dedupe_loop.induct) auto

section \<open>Properties\<close>

lemma add_unique_value_distinct:
  "distinct (map f t) \<Longrightarrow> distinct (map f (addUniqueValueToArray t v (Some f)))"
  by (auto simp: addUniqueValueToArray_def list_ex_iff Let_def)

lemma add_unique_value_keys:
  "f ` set (addUniqueValueToArray t v (Some f)) = insert (f v) (f ` set t)"
  by (auto simp: addUniqueValueToArray_def list_ex_iff Let_def image_iff) metis+

lemma add_unique_loop_distinct:
  "distinct (map f t) \<Longrightarrow> distinct (map f (add_unique_loop (Some f) t vs))"
  by (induction vs arbitrary: t) (auto intro: add_unique_value_distinct)

lemma add_unique_loop_keys:
  "f ` set (add_unique_loop (Some f) t vs) = f ` set t \<union> f ` set vs"
  by (induction vs arbitrary: t) (auto simp: add_unique_value_keys)

lemma add_unique_loop_prefix: "prefix t (add_unique_loop sel t vs)"
proof (induction sel t vs rule: add_unique_loop.induct)
  case (2 sel t v vs)
  have "prefix t (addUniqueValueToArray t v sel)"
    by (auto simp: addUniqueValueToArray_def Let_def split: option.splits)
  with 2 show ?case by (auto intro: prefix_order.order_trans)
qed simp

text \<open>
  The in-place removal loop of \<open>removeValuesFromArray\<close> is a filter: exactly the elements
  that are not among the values stay, in their order.
\<close>

theorem remove_values_spec:
  "removeValuesFromArray target values = filter (\<lambda>x. x \<notin> set values) target \<and>
   removeValueFromArray (Some target) v = Inr (filter (\<lambda>x. x \<noteq> v) target) \<and>
   (\<exists>e. removeValueFromArray None v = Inl (TypeError e))"
  by (simp add: removeValueFromArray_def)

text \<open>
  \<open>uniqueItemsFromArray\<close> with a function selector returns a subsequence of the array with
  pairwise different keys that has every key of the array, each represented by its first item.
\<close>

theorem unique_items_spec:
  assumes "uniqueItemsFromArray item_at get_path (Inr xs) (SelFunction f) = Inr ys"
  shows "subseq ys xs \<and> distinct (map f ys) \<and> f ` set ys = f ` set xs \<and>
    (\<forall>k. find (\<lambda>y. f y = k) ys = find (\<lambda>x. f x = k) xs)"
proof -
  have ys: "ys = dedupe_loop f [] xs"
    using assms by (simp add: uniqueItemsFromArray_def buildSelector_def dedupeBy_def)
  have first: "find (\<lambda>y. f y = k) ys = find (\<lambda>x. f x = k) xs" for k
  proof (cases "k \<in> f ` set xs")
    case True
    then show ?thesis using dedupe_loop_first [of f _ "[]" xs] by (auto simp: ys)
  next
    case False
    moreover have "k \<notin> f ` set ys"
      using False dedupe_loop_keys [of f "[]" xs] by (simp add: ys)
    ultimately show ?thesis
      by (metis (mono_tags, lifting) find_None_iff2 image_eqI)
  qed
  with ys show ?thesis
    using dedupe_loop_subseq dedupe_loop_distinct dedupe_loop_keys [of f "[]" xs] by auto
qed

theorem unique_items_spec_witness:
  "subseq [(1::int, ''a''), (2, ''b'')] [(1, ''a''), (1, ''c''), (2, ''b'')] \<and>
   find (\<lambda>y. fst y = 1) [(1::int, ''a''), (2, ''b'')] = Some (1, ''a'')"
proof -
  have "uniqueItemsFromArray (\<lambda>_ _. 0) (\<lambda>_ _. 0) (Inr [(1::int, ''a''), (1, ''c''), (2, ''b'')])
      (SelFunction fst) = Inr [(1, ''a''), (2, ''b'')]"
    by (simp add: uniqueItemsFromArray_def buildSelector_def dedupeBy_def)
  from unique_items_spec [OF this] show ?thesis by simp
qed

end
