(* ===== verification/ObjectTools.thy ===== *)
theory ObjectTools
  imports JsPrelude
begin

text \<open>
  The object helpers of \<open>frontend/discourse/app/lib/object.js\<close>: \<open>isObject\<close>, \<open>deepMerge\<close> and
  \<open>deepEqual\<close>, on JSON values. An array counts as an object there, with its indices as property
  names (\<open>show_nat\<close>). \<open>===\<close> on objects is identity; \<open>deepEqual\<close> of a value with itself is true
  anyway, so structural equality stands for it here. References (\<open>JRef\<close>) do not occur in JSON.

  The decimal representation \<open>show_int\<close> of numbers in template strings is here as well.
\<close>

section \<open>Numbers as strings\<close>

definition digit :: "nat \<Rightarrow> char" where
  "digit n = ''0123456789'' ! n"

fun show_nat :: "nat \<Rightarrow> string" where
  "show_nat n = (if n < 10 then [digit n] else show_nat (n div 10) @ [digit (n mod 10)])"

declare show_nat.simps [simp del]

definition show_int :: "int \<Rightarrow> string" where
  "show_int i = (if i < 0 then CHR ''-'' # show_nat (nat (- i)) else show_nat (nat i))"

definition digit_value :: "char \<Rightarrow> nat" where
  "digit_value c = nat (index_of ''0123456789'' c)"

lemma ten_cases: "n < 10 \<Longrightarrow> n = 0 \<or> n = 1 \<or> n = 2 \<or> n = 3 \<or> n = 4 \<or> n = 5 \<or> n = 6 \<or> n = 7 \<or> n = 8 \<or> n = (9::nat)"
  by presburger

lemma digit_value_digit: "n < 10 \<Longrightarrow> digit_value (digit n) = n"
  using ten_cases [of n] by (auto simp: digit_value_def digit_def Let_def)

lemma digit_minus: "n < 10 \<Longrightarrow> digit n \<noteq> CHR ''-''"
  using ten_cases [of n] by (auto simp: digit_def)

definition read_nat :: "string \<Rightarrow> nat" where
  "read_nat cs = foldl (\<lambda>n c. n * 10 + digit_value c) 0 cs"

lemma read_show: "read_nat (show_nat n) = n"
proof (induction n rule: show_nat.induct)
  case (1 n)
  show ?case
  proof (cases "n < 10")
    case True
    then show ?thesis by (subst show_nat.simps) (simp add: read_nat_def digit_value_digit)
  next
    case False
    then have "read_nat (show_nat (n div 10)) = n div 10" using 1 by simp
    with False show ?thesis
      by (subst show_nat.simps) (simp add: read_nat_def digit_value_digit)
  qed
qed

lemma show_nat_minus: "CHR ''-'' \<notin> set (show_nat n)"
proof (induction n rule: show_nat.induct)
  case (1 n)
  have "digit n \<noteq> CHR ''-''" if "n < 10" using that by (rule digit_minus)
  moreover have "digit (n mod 10) \<noteq> CHR ''-''" by (rule digit_minus) simp
  ultimately show ?case using 1 by (subst show_nat.simps) auto
qed

lemma show_nat_inj [simp]: "show_nat m = show_nat n \<longleftrightarrow> m = n"
  by (metis read_show)

lemma show_int_inj [simp]: "show_int i = show_int j \<longleftrightarrow> i = j"
proof -
  have "show_nat m \<noteq> CHR ''-'' # xs" "CHR ''-'' # xs \<noteq> show_nat m" for m xs
    using show_nat_minus [of m] by (metis list.set_intros(1))+
  then show ?thesis by (auto simp: show_int_def)
qed

section \<open>Merging\<close>

fun isObject :: "jsval \<Rightarrow> bool" where
  "isObject (JArr _) = True"
| "isObject (JObj _) = True"
| "isObject (JRef _) = True"
| "isObject _ = False"

fun index_props :: "nat \<Rightarrow> jsval list \<Rightarrow> jobj" where
  "index_props i [] = []"
| "index_props i (x # xs) = (show_nat i, x) # index_props (Suc i) xs"

text \<open>The own enumerable properties, as \<open>Object.keys\<close> and the spread \<open>{...v}\<close> see them.\<close>

fun as_props :: "jsval \<Rightarrow> jobj" where
  "as_props (JObj ps) = ps"
| "as_props (JArr xs) = index_props 0 xs"
| "as_props _ = []"

text \<open>
  \<open>deepMergeInner\<close>: \<open>merge_value\<close> is the new value of one key, \<open>merge_props\<close> the loop over the keys
  of an object, \<open>merge_elems\<close> the loop over the indices of an array.
\<close>

fun merge_value :: "jsval \<Rightarrow> jsval \<Rightarrow> jsval"
  and merge_props :: "jobj \<Rightarrow> jobj \<Rightarrow> jobj"
  and merge_elems :: "nat \<Rightarrow> jobj \<Rightarrow> jsval list \<Rightarrow> jobj" where
  "merge_value t (JArr ys) =
     (case t of
        JArr xs \<Rightarrow> JArr (xs @ ys)
      | _ \<Rightarrow> if isObject t then JObj (merge_elems 0 (as_props t) ys) else JArr ys)"
| "merge_value t (JObj ps) = (if isObject t then JObj (merge_props (as_props t) ps) else JObj ps)"
| "merge_value t (JRef r) = (if isObject t then JObj (as_props t) else JRef r)"
| "merge_value t v = v"
| "merge_props t [] = t"
| "merge_props t ((k, v) # ps) = merge_props (om_set k (merge_value (pget t k) v) t) ps"
| "merge_elems i t [] = t"
| "merge_elems i t (v # vs) =
     merge_elems (Suc i) (om_set (show_nat i) (merge_value (pget t (show_nat i)) v) t) vs"

text \<open>
  \<open>deepMerge(...objects)\<close>: the loop over the sources ends at the first falsy one.
\<close>

fun merge_sources :: "jobj \<Rightarrow> jsval list \<Rightarrow> jobj" where
  "merge_sources t [] = t"
| "merge_sources t (src # rest) =
     (if truthy src then merge_sources (merge_props t (as_props src)) rest else t)"

text \<open>A falsy target has no properties to write: the first key of a source throws.\<close>

fun no_keys :: "jsval list \<Rightarrow> bool" where
  "no_keys [] = True"
| "no_keys (src # rest) = (truthy src \<longrightarrow> as_props src = [] \<and> no_keys rest)"

definition deepMerge :: "jsval list \<Rightarrow> jsval result" where
  "deepMerge objects =
     (if list_ex (\<lambda>ob. truthy ob \<and> \<not> isObject ob) objects
      then Inl (Error ''deepMerge: all values should be of type \"object\"'')
      else case objects of
        [] \<Rightarrow> Inr JUndef
      | t # sources \<Rightarrow>
          (if isObject t then Inr (JObj (merge_sources (as_props t) sources))
           else if no_keys sources then Inr t
           else Inl (TypeError ''Cannot read properties of undefined'')))"

lemma om_get_merge_props: "om_wf src \<Longrightarrow>
    om_get (merge_props t src) k =
      (case om_get src k of None \<Rightarrow> om_get t k | Some v \<Rightarrow> Some (merge_value (pget t k) v))"
proof (induction src arbitrary: t)
  case (Cons p src)
  obtain a b where p: "p = (a, b)" by force
  with Cons.prems have "om_get src a = None" and "om_wf src" by (auto simp: map_of_eq_None_iff)
  then show ?case using p by (auto simp: Cons.IH split: option.splits)
qed simp

lemma merge_props_wf: "om_wf t \<Longrightarrow> om_wf (merge_props t src)"
proof (induction src arbitrary: t)
  case (Cons p src)
  obtain a b where "p = (a, b)" by force
  with Cons show ?case by (simp add: om_wf_set)
qed simp

section \<open>Comparing\<close>

fun deepEqual :: "jsval \<Rightarrow> jsval \<Rightarrow> bool"
  and equal_props :: "jobj \<Rightarrow> jsval \<Rightarrow> bool"
  and equal_elems :: "nat \<Rightarrow> jsval list \<Rightarrow> jsval \<Rightarrow> bool" where
  "deepEqual (JObj ps) v =
     (JObj ps = v \<or> isObject v \<and> length ps = length (as_props v) \<and> equal_props ps v)"
| "deepEqual (JArr xs) v =
     (JArr xs = v \<or> isObject v \<and> length xs = length (as_props v) \<and> equal_elems 0 xs v)"
| "deepEqual (JRef r) v = (JRef r = v \<or> isObject v \<and> as_props v = [])"
| "deepEqual u v = (u = v)"
| "equal_props [] v = True"
| "equal_props ((k, u) # ps) v = (deepEqual u (pget (as_props v) k) \<and> equal_props ps v)"
| "equal_elems i [] v = True"
| "equal_elems i (u # us) v = (deepEqual u (pget (as_props v) (show_nat i)) \<and> equal_elems (Suc i) us v)"

text \<open>JSON values: property names are unique and no value is \<open>undefined\<close>.\<close>

fun json_ok :: "jsval \<Rightarrow> bool"
  and props_ok :: "jobj \<Rightarrow> bool"
  and elems_ok :: "jsval list \<Rightarrow> bool" where
  "json_ok JUndef = False"
| "json_ok (JObj ps) = (om_wf ps \<and> props_ok ps)"
| "json_ok (JArr xs) = elems_ok xs"
| "json_ok (JRef r) = False"
| "json_ok v = True"
| "props_ok [] = True"
| "props_ok ((k, v) # ps) = (json_ok v \<and> props_ok ps)"
| "elems_ok [] = True"
| "elems_ok (v # vs) = (json_ok v \<and> elems_ok vs)"

lemma props_ok_get: "props_ok ps \<Longrightarrow> om_get ps k = Some v \<Longrightarrow> json_ok v"
  by (induction ps) (auto split: if_splits)

lemma equal_props_all: "om_wf ps \<Longrightarrow>
    equal_props ps v \<longleftrightarrow> (\<forall>k u. om_get ps k = Some u \<longrightarrow> deepEqual u (pget (as_props v) k))"
proof (induction ps)
  case (Cons p ps)
  obtain a b where p: "p = (a, b)" by force
  with Cons.prems have "om_get ps a = None" and "om_wf ps" by (auto simp: map_of_eq_None_iff)
  then show ?case using Cons.IH p by (auto split: if_splits)
qed simp

lemma deepEqual_undef [simp]: "json_ok u \<Longrightarrow> \<not> deepEqual u JUndef"
  by (cases u) simp_all

lemma deepEqual_refl [simp]: "deepEqual v v"
  by (cases v) simp_all

lemma om_dom_card: "om_wf m \<Longrightarrow> card (dom (om_get m)) = length m"
  using distinct_card [of "om_keys m"] by (simp add: dom_map_of_conv_image_fst)

lemma deepEqual_rel:
  assumes "json_ok (JObj a)" and "json_ok (JObj b)"
  shows "deepEqual (JObj a) (JObj b) \<longleftrightarrow>
    (\<forall>k. rel_option deepEqual (om_get a k) (om_get b k))"
proof (cases "a = b")
  case False
  have wf: "om_wf a" "om_wf b" "props_ok a" "props_ok b" using assms by simp_all
  let ?same = "\<forall>k. rel_option deepEqual (om_get a k) (om_get b k)"
  have "deepEqual (JObj a) (JObj b) \<longleftrightarrow> length a = length b \<and>
      (\<forall>k u. om_get a k = Some u \<longrightarrow> deepEqual u (pget b k))"
    using False by (simp add: equal_props_all [OF wf(1)])
  also have "\<dots> \<longleftrightarrow> ?same"
  proof
    assume eq: "length a = length b \<and> (\<forall>k u. om_get a k = Some u \<longrightarrow> deepEqual u (pget b k))"
    have sub: "dom (om_get a) \<subseteq> dom (om_get b)"
    proof
      fix k assume "k \<in> dom (om_get a)"
      then obtain u where u: "om_get a k = Some u" by blast
      then have "json_ok u" "deepEqual u (pget b k)" using eq props_ok_get [OF wf(3)] by blast+
      then show "k \<in> dom (om_get b)" by (cases "om_get b k") (auto simp: pget_def)
    qed
    have "dom (om_get a) = dom (om_get b)"
      using eq om_dom_card [OF wf(1)] om_dom_card [OF wf(2)]
      by (intro card_subset_eq [OF finite_dom_map_of sub]) simp
    then show ?same
    proof (intro allI)
      fix k
      have "om_get a k = None \<longleftrightarrow> om_get b k = None"
        using \<open>dom (om_get a) = dom (om_get b)\<close> by (metis domIff)
      moreover have "deepEqual u v" if "om_get a k = Some u" "om_get b k = Some v" for u v
      proof -
        have "deepEqual u (pget b k)" using eq that(1) by blast
        then show ?thesis using that(2) by (simp add: pget_def)
      qed
      ultimately show "rel_option deepEqual (om_get a k) (om_get b k)"
        by (cases "om_get a k"; cases "om_get b k") auto
    qed
  next
    assume same: ?same
    then have "dom (om_get a) = dom (om_get b)"
      by (auto simp: dom_def option_rel_Some1 option_rel_Some2 set_eq_iff) (metis option.rel_distinct(1) option.exhaust option.rel_distinct(2))+
    then have "length a = length b" using om_dom_card [OF wf(1)] om_dom_card [OF wf(2)] by simp
    moreover have "deepEqual u (pget b k)" if "om_get a k = Some u" for k u
      using same that by (cases "om_get b k") (auto simp: pget_def dest: spec [of _ k])
    ultimately show "length a = length b \<and> (\<forall>k u. om_get a k = Some u \<longrightarrow> deepEqual u (pget b k))" by blast
  qed
  finally show ?thesis using False by simp
next
  case True
  have "rel_option deepEqual x x" for x by (cases x) simp_all
  then show ?thesis using True by simp
qed

text \<open>
  On objects of JSON values \<open>deepEqual\<close> is equality of objects: the same property names with
  deeply equal values, in whatever order, and nothing else.
\<close>

theorem deepEqual_objects:
  assumes "json_ok (JObj a)" and "json_ok (JObj b)"
  shows "deepEqual (JObj a) (JObj b) \<longleftrightarrow>
    (\<forall>k. rel_option deepEqual (om_get a k) (om_get b k))"
  by (rule deepEqual_rel [OF assms])

theorem deepEqual_objects_witness:
  "deepEqual (JObj [(''a'', JNum 1), (''b'', JArr [JNum 2])]) (JObj [(''b'', JArr [JNum 2]), (''a'', JNum 1)])"
  using deepEqual_objects [of "[(''a'', JNum 1), (''b'', JArr [JNum 2])]" "[(''b'', JArr [JNum 2]), (''a'', JNum 1)]"]
  by simp

text \<open>
  \<open>deepMerge\<close> of two objects has the second's value for a key only the second has, the first's
  for a key only the first has, the concatenation of two arrays, the merge of two objects and
  otherwise the second's value. A falsy argument ends the merge: the objects after it are ignored.
\<close>

theorem deepMerge_spec:
  assumes "om_wf a" and "om_wf b"
  shows "(\<exists>m. deepMerge [JObj a, JObj b] = Inr (JObj m) \<and> om_wf m \<and>
      (\<forall>k. om_get m k = (case om_get b k of None \<Rightarrow> om_get a k | Some v \<Rightarrow> Some (merge_value (pget a k) v)))) \<and>
    deepMerge (JObj a # JNull # rest) = (if list_ex (\<lambda>ob. truthy ob \<and> \<not> isObject ob) rest
      then deepMerge rest else Inr (JObj a))"
proof -
  have "deepMerge [JObj a, JObj b] = Inr (JObj (merge_props a b))"
    by (simp add: deepMerge_def)
  moreover have "deepMerge (JObj a # JNull # rest) =
      (if list_ex (\<lambda>ob. truthy ob \<and> \<not> isObject ob) rest then deepMerge rest else Inr (JObj a))"
    by (simp add: deepMerge_def)
  ultimately show ?thesis
    using merge_props_wf [OF assms(1)] om_get_merge_props [OF assms(2)] by simp
qed

theorem deepMerge_spec_witness:
  "deepMerge [JObj [(''a'', JNum 1)], JNull, JObj [(''b'', JNum 2)]] = Inr (JObj [(''a'', JNum 1)])"
  using deepMerge_spec [of "[(''a'', JNum 1)]" "[]" "[JObj [(''b'', JNum 2)]]"] by simp

end
