(* ===== verification/Store.thy ===== *)
theory Store
  imports ObjectTools
begin

text \<open>
  The record store of \<open>frontend/discourse/app/services/store.js\<close>: the identity map from a type
  and an id to the one record object of that type and id, and the operations that build, look
  up, refresh and forget records.

  Record objects are mutable and shared, so the store carries a heap: a record is a reference,
  the heap gives its properties. The identity map is a dictionary of dictionaries in insertion
  order. The adapter's primary key and the model classes' \<open>munge\<close> are fields of the store
  (\<open>primaryKey\<close>, \<open>munge\<close>). \<open>hydrate\<close> is the code's path for a payload without the
  \<open>__rest_serializer\<close> marker; embedded resources of marked payloads are not modelled.
  The identity map is a plain object of plain objects, so an id is filed under its property key
  (\<open>prop_key\<close>): a number and its decimal string are one key. Names of \<open>Object.prototype\<close> are not
  found, as the code asks \<open>hasOwnProperty\<close>; the key \<open>__proto__\<close> is not treated specially.
\<close>

type_synonym ref = nat

text \<open>The name of the property that a value used as an index denotes.\<close>

fun prop_key :: "jsval \<Rightarrow> string" where
  "prop_key JUndef = ''undefined''"
| "prop_key JNull = ''null''"
| "prop_key (JBool b) = (if b then ''true'' else ''false'')"
| "prop_key (JNum n) = show_int n"
| "prop_key (JStr s) = s"
| "prop_key (JArr vs) = join '','' (map (\<lambda>v. if v = JUndef \<or> v = JNull then [] else prop_key v) vs)"
| "prop_key (JObj ob) = ''[object Object]''"
| "prop_key (JRef r) = ''[object Object]''"

record store =
  heap :: "ref \<Rightarrow> jobj"
  next_ref :: ref
  id_map :: "(string, (string, ref) omap) omap"
  plurals :: "(string, string) omap"
  primaryKey :: "string \<Rightarrow> string"
  munge :: "string \<Rightarrow> jobj \<Rightarrow> jobj"

definition initial_plurals :: "(string, string) omap" where
  "initial_plurals =
     [(''category'', ''categories''),
      (''post-reply'', ''post-replies''),
      (''post-reply-history'', ''post_reply_histories''),
      (''reviewable_history'', ''reviewable_histories''),
      (''claimed_by'', ''claimed_bies'')]"

definition pluralize :: "store \<Rightarrow> string \<Rightarrow> string" where
  "pluralize s thing = (case om_get (plurals s) thing of
      Some p \<Rightarrow> if p \<noteq> [] then p else thing @ ''s''
    | None \<Rightarrow> thing @ ''s'')"

definition addPluralization :: "string \<Rightarrow> string \<Rightarrow> store \<Rightarrow> store" where
  "addPluralization thing plural s = s\<lparr>plurals := om_set thing plural (plurals s)\<rparr>"

section \<open>The identity map\<close>

definition flushMap :: "store \<Rightarrow> store" where
  "flushMap s = s\<lparr>id_map := []\<rparr>"

definition by_type :: "store \<Rightarrow> string \<Rightarrow> (string, ref) omap" where
  "by_type s type = (case om_get (id_map s) type of None \<Rightarrow> [] | Some m \<Rightarrow> m)"

definition storeMap :: "string \<Rightarrow> jsval \<Rightarrow> ref \<Rightarrow> store \<Rightarrow> store" where
  "storeMap type i r s =
     (if \<not> truthy i then s
      else s\<lparr>id_map := om_set type (om_set (prop_key i) r (by_type s type)) (id_map s)\<rparr>)"

definition fromMap :: "store \<Rightarrow> string \<Rightarrow> jsval \<Rightarrow> ref option" where
  "fromMap s type i = om_get (by_type s type) (prop_key i)"

definition removeMap :: "string \<Rightarrow> jsval \<Rightarrow> store \<Rightarrow> store" where
  "removeMap type i s =
     (if om_get (by_type s type) (prop_key i) = None then s
      else s\<lparr>id_map := om_set type (om_delete (prop_key i) (by_type s type)) (id_map s)\<rparr>)"

definition findAndRemoveMap :: "string \<Rightarrow> jsval \<Rightarrow> store \<Rightarrow> ref option \<times> store" where
  "findAndRemoveMap type i s =
     (case om_get (by_type s type) (prop_key i) of
        None \<Rightarrow> (None, s)
      | Some r \<Rightarrow> (Some r, s\<lparr>id_map := om_set type (om_delete (prop_key i) (by_type s type)) (id_map s)\<rparr>))"

section \<open>Building and hydrating records\<close>

text \<open>\<open>record.setProperties(...)\<close> and \<open>record.set(k, v)\<close> on the heap.\<close>

definition set_props :: "ref \<Rightarrow> jobj \<Rightarrow> store \<Rightarrow> store" where
  "set_props r ps s = s\<lparr>heap := (heap s)(r := assign (heap s r) ps)\<rparr>"

definition set_prop :: "ref \<Rightarrow> string \<Rightarrow> jsval \<Rightarrow> store \<Rightarrow> store" where
  "set_prop r k v s = s\<lparr>heap := (heap s)(r := om_set k v (heap s r))\<rparr>"

definition rprop :: "store \<Rightarrow> ref \<Rightarrow> string \<Rightarrow> jsval" where
  "rprop s r k = pget (heap s r) k"

text \<open>
  \<open>_build\<close>: the payload is stamped with its type and state, munged by the model class and
  becomes the properties of a new record, which enters the identity map under its id.
\<close>

definition build :: "string \<Rightarrow> jobj \<Rightarrow> store \<Rightarrow> ref \<times> store" where
  "build type ob s =
     (let pk = primaryKey s type;
          ob1 = om_set ''__type'' (JStr type) ob;
          ob2 = om_set ''__state''
                  (JStr (if truthy (pget ob1 pk) then ''created'' else ''new'')) ob1;
          r = next_ref s;
          s1 = s\<lparr>heap := (heap s)(r := assign [] (munge s type ob2)), next_ref := Suc r\<rparr>
      in (r, storeMap type (pget ob2 pk) r s1))"

text \<open>
  \<open>_hydrate\<close>: a payload whose id is known updates the existing record with the properties that
  changed; an unknown one is built. Both errors are those of the code.
\<close>

definition changed_props :: "jobj \<Rightarrow> jobj \<Rightarrow> jobj" where
  "changed_props existing updated = filter (\<lambda>(k, v). pget existing k \<noteq> v) updated"

definition hydrate_payload :: "string \<Rightarrow> jobj \<Rightarrow> store \<Rightarrow> ref \<times> store" where
  "hydrate_payload type ob s =
     (let pk = primaryKey s type
      in case fromMap s type (pget ob pk) of
           Some existing \<Rightarrow>
             (let updated = munge s type (om_delete pk ob);
                  changed = changed_props (heap s existing) updated
              in (existing, set_props existing changed s))
         | None \<Rightarrow> build type ob s)"

definition hydrate :: "string \<Rightarrow> jobj option \<Rightarrow> store \<Rightarrow> (ref \<times> store) result" where
  "hydrate type payload s =
     (case payload of
        None \<Rightarrow> Inl (Error (''Can't hydrate '' @ type @ '' of `null`''))
      | Some ob \<Rightarrow>
         (if \<not> truthy (pget ob (primaryKey s type))
          then Inl (Error (''Can't hydrate '' @ type @ '' without primaryKey: `'' @
                 primaryKey s type @ ''`''))
          else Inr (hydrate_payload type ob s)))"

text \<open>\<open>createRecord\<close> checks the id first, so its call of \<open>_hydrate\<close> never throws.\<close>

definition createRecord :: "string \<Rightarrow> jobj \<Rightarrow> store \<Rightarrow> ref \<times> store" where
  "createRecord type attrs s =
     (if truthy (pget attrs (primaryKey s type)) then hydrate_payload type attrs s
      else build type attrs s)"

text \<open>\<open>destroyRecord\<close> of a record that was never saved makes no request.\<close>

definition forget_record :: "string \<Rightarrow> ref \<Rightarrow> store \<Rightarrow> store" where
  "forget_record type r s = removeMap type (rprop s r (primaryKey s type)) s"

text \<open>
  \<open>_updateStale\<close>: the hydrated content, with the cached record in place of each item the stale
  result already holds. The lookup reads the literal property \<open>primaryKey\<close> of the stale items,
  and the copy loop writes each property of the stale item back to itself.
\<close>

definition updateStale :: "store \<Rightarrow> ref list option \<Rightarrow> ref list \<Rightarrow> string \<Rightarrow> ref list" where
  "updateStale s stale hydrated pk =
     (case stale of
        None \<Rightarrow> hydrated
      | Some content \<Rightarrow>
          map (\<lambda>item. case find (\<lambda>i. rprop s i ''primaryKey'' = rprop s item pk) content of
                 Some stale_item \<Rightarrow> stale_item
               | None \<Rightarrow> item) hydrated)"

section \<open>Lemmas\<close>

lemma by_type_storeMap [simp]:
  "by_type (storeMap type i r s) type' =
     (if truthy i \<and> type' = type then om_set (prop_key i) r (by_type s type) else by_type s type')"
  by (simp add: storeMap_def by_type_def)

lemma fromMap_storeMap [simp]:
  "fromMap (storeMap type i r s) type' i' =
     (if truthy i \<and> type' = type \<and> prop_key i' = prop_key i then Some r else fromMap s type' i')"
  by (auto simp: fromMap_def)

lemma fromMap_removeMap [simp]:
  "fromMap (removeMap type i s) type' i' =
     (if type' = type \<and> prop_key i' = prop_key i then None else fromMap s type' i')"
  by (auto simp: fromMap_def removeMap_def by_type_def)

lemma storeMap_frame [simp]:
  "heap (storeMap t i r s) = heap s" "next_ref (storeMap t i r s) = next_ref s"
  "primaryKey (storeMap t i r s) = primaryKey s" "munge (storeMap t i r s) = munge s"
  by (simp_all add: storeMap_def)

lemma set_props_frame [simp]:
  "next_ref (set_props r ps s) = next_ref s" "id_map (set_props r ps s) = id_map s"
  "primaryKey (set_props r ps s) = primaryKey s" "munge (set_props r ps s) = munge s"
  "fromMap (set_props r ps s) = fromMap s" "by_type (set_props r ps s) = by_type s"
  by (simp_all add: set_props_def fromMap_def by_type_def fun_eq_iff)

lemma set_prop_frame [simp]:
  "next_ref (set_prop r k v s) = next_ref s" "id_map (set_prop r k v s) = id_map s"
  "primaryKey (set_prop r k v s) = primaryKey s" "munge (set_prop r k v s) = munge s"
  "fromMap (set_prop r k v s) = fromMap s" "by_type (set_prop r k v s) = by_type s"
  by (simp_all add: set_prop_def fromMap_def by_type_def fun_eq_iff)

lemma rprop_set_prop [simp]:
  "rprop (set_prop r k v s) r' k' = (if r' = r \<and> k' = k then v else rprop s r' k')"
  by (simp add: rprop_def set_prop_def)

lemma rprop_storeMap [simp]: "rprop (storeMap t i r s) r' k = rprop s r' k"
  by (simp add: rprop_def)

lemma pget_assign: "om_wf src \<Longrightarrow>
    pget (assign ob src) k = (if om_get src k = None then pget ob k else pget src k)"
  by (cases "om_get src k"; cases "om_get ob k")
    (simp_all only: pget_def om_get_assign option.simps if_True if_False simp_thms)

lemma om_get_filter_props: "om_wf ps \<Longrightarrow>
    om_get (filter (\<lambda>(k, v). P k v) ps) k = (case om_get ps k of
       Some v \<Rightarrow> if P k v then Some v else None | None \<Rightarrow> None)"
proof (induction ps)
  case (Cons p ps)
  obtain a b where p: "p = (a, b)" by force
  with Cons.prems have none: "om_get ps a = None" and wf: "om_wf ps"
    by (auto simp: map_of_eq_None_iff)
  show ?case
    using Cons.IH [OF wf] p none by (auto split: option.splits)
qed simp

lemma om_wf_filter: "om_wf ps \<Longrightarrow> om_wf (filter P ps)"
  by (induction ps) auto

lemma pget_changed:
  assumes "om_wf updated"
  shows "pget (assign ob (changed_props ob updated)) k =
    (if om_get updated k = None then pget ob k else pget updated k)"
proof -
  have wf: "om_wf (changed_props ob updated)"
    using assms by (simp add: changed_props_def om_wf_filter)
  show ?thesis
    unfolding pget_assign [OF wf]
    using om_get_filter_props [OF assms, of "\<lambda>k v. pget ob k \<noteq> v" k]
    by (auto simp: changed_props_def pget_def split: option.splits if_splits)
qed

text \<open>
  What the clients of the store may assume of it: a lookup after a creation finds the created
  record, and a creation leaves the records of other ids where they are.
\<close>

locale record_source =
  fixes create :: "'o \<Rightarrow> 's \<Rightarrow> ref \<times> 's"
    and lookup :: "'s \<Rightarrow> 'i \<Rightarrow> ref option"
    and ident :: "'s \<Rightarrow> 'o \<Rightarrow> 'i"
    and known :: "'s \<Rightarrow> 'o \<Rightarrow> bool"
    and fresh :: "'s \<Rightarrow> ref \<Rightarrow> bool"
  assumes create_lookup: "known s ob \<Longrightarrow> create ob s = (r, s') \<Longrightarrow> lookup s' (ident s ob) = Some r"
    and create_reuse: "known s ob \<Longrightarrow> lookup s (ident s ob) = Some r \<Longrightarrow> fst (create ob s) = r"
    and create_new: "lookup s (ident s ob) = None \<Longrightarrow> fresh s (fst (create ob s))"
    and create_other: "known s ob \<Longrightarrow> i \<noteq> ident s ob \<Longrightarrow> create ob s = (r, s') \<Longrightarrow> lookup s' i = lookup s i"
    and ident_stable: "create ob' s = (r, s') \<Longrightarrow> ident s' ob = ident s ob \<and> known s' ob = known s ob"
begin

lemma create_twice:
  assumes "known s ob" and "ident s ob' = ident s ob" and "known s ob'"
    and "create ob s = (r, s')"
  shows "fst (create ob' s') = r"
proof -
  have "lookup s' (ident s' ob') = Some r"
    using create_lookup [OF assms(1,4)] ident_stable [OF assms(4), of ob'] assms(2) by simp
  then show ?thesis
    using create_reuse ident_stable [OF assms(4), of ob'] assms(3) by blast
qed

lemma create_keeps_others:
  assumes "known s ob" and "create ob s = (r, s')" and "lookup s i = Some q" and "i \<noteq> ident s ob"
  shows "lookup s' i = Some q"
  using create_other [OF assms(1,4,2)] assms(3) by simp

end

lemma build_frame:
  assumes "build type ob s = (r, s')"
  shows "r = next_ref s" "next_ref s' = Suc (next_ref s)" "primaryKey s' = primaryKey s"
    "munge s' = munge s" "r' \<noteq> r \<Longrightarrow> heap s' r' = heap s r'"
  using assms by (auto simp: build_def Let_def)

lemma fromMap_build: "build type ob s = (r, s') \<Longrightarrow> primaryKey s type \<noteq> ''__type'' \<Longrightarrow>
    primaryKey s type \<noteq> ''__state'' \<Longrightarrow>
    fromMap s' type' i = (if truthy (pget ob (primaryKey s type)) \<and> type' = type \<and>
      prop_key i = prop_key (pget ob (primaryKey s type)) then Some r else fromMap s type' i)"
  by (auto simp: build_def Let_def fromMap_def by_type_def storeMap_def)

lemma by_type_build: "build type ob s = (r, s') \<Longrightarrow> primaryKey s type \<noteq> ''__type'' \<Longrightarrow>
    primaryKey s type \<noteq> ''__state'' \<Longrightarrow>
    om_get (by_type s' type') k = (if truthy (pget ob (primaryKey s type)) \<and> type' = type \<and>
      k = prop_key (pget ob (primaryKey s type)) then Some r else om_get (by_type s type') k)"
  by (auto simp: build_def Let_def by_type_def storeMap_def)

lemma createRecord_frame:
  assumes "createRecord type ob s = (r, s')"
  shows "primaryKey s' = primaryKey s \<and> munge s' = munge s \<and> next_ref s \<le> next_ref s'"
  using assms
  by (auto simp: createRecord_def hydrate_payload_def Let_def build_def split: if_splits option.splits)

interpretation cr: record_source "createRecord type" "\<lambda>s k. om_get (by_type s type) k"
    "\<lambda>s ob. prop_key (pget ob (primaryKey s type))"
    "\<lambda>s ob. truthy (pget ob (primaryKey s type)) \<and> primaryKey s type \<noteq> ''__type'' \<and>
        primaryKey s type \<noteq> ''__state''"
    "\<lambda>s r. r = next_ref s"
proof (unfold_locales, goal_cases)
  case (1 s ob r s')
  then show ?case
    by (auto simp: createRecord_def hydrate_payload_def Let_def fromMap_def by_type_build split: option.splits)
next
  case (2 s ob r)
  then show ?case by (simp add: createRecord_def fromMap_def hydrate_payload_def Let_def)
next
  case (3 s ob)
  then show ?case
    by (simp add: createRecord_def fromMap_def hydrate_payload_def build_def Let_def)
next
  case (4 s ob i r s')
  then show ?case
    by (auto simp: createRecord_def hydrate_payload_def Let_def fromMap_def by_type_build split: option.splits)
next
  case (5 ob' s r s' ob)
  then show ?case using createRecord_frame [OF 5] by simp
qed

section \<open>Invariant\<close>

text \<open>
  The identity map is consistent: a mapped record is allocated and its id has the key it is filed
  under.
\<close>

definition store_ok :: "store \<Rightarrow> bool" where
  "store_ok s \<longleftrightarrow> (\<forall>type i r. fromMap s type i = Some r \<longrightarrow>
      truthy (rprop s r (primaryKey s type)) \<and> r < next_ref s \<and>
      prop_key (rprop s r (primaryKey s type)) = prop_key i \<and> rprop s r ''__type'' = JStr type)"

lemma store_ok_flush: "store_ok (flushMap s)"
  by (simp add: store_ok_def flushMap_def fromMap_def by_type_def)

text \<open>
  What the store relies on of a model class's \<open>munge\<close>: it returns an object (distinct property
  names) and neither adds nor changes the primary key, the type and the state of the payload.
\<close>

definition munge_ok :: "store \<Rightarrow> bool" where
  "munge_ok s \<longleftrightarrow> (\<forall>type ob. om_wf ob \<longrightarrow> om_wf (munge s type ob) \<and>
      (\<forall>k \<in> {primaryKey s type, ''__type'', ''__state''}. om_get (munge s type ob) k = om_get ob k))"

lemma munge_okD:
  assumes "munge_ok s" and "om_wf ob"
  shows "om_wf (munge s type ob)"
    and "k \<in> {primaryKey s type, ''__type'', ''__state''} \<Longrightarrow> om_get (munge s type ob) k = om_get ob k"
  using assms unfolding munge_ok_def by blast+

definition plain_payload :: "store \<Rightarrow> string \<Rightarrow> jobj \<Rightarrow> bool" where
  "plain_payload s type ob \<longleftrightarrow> om_wf ob \<and> om_get ob ''__type'' = None \<and> om_get ob ''__state'' = None \<and>
     primaryKey s type \<noteq> ''__type'' \<and> primaryKey s type \<noteq> ''__state''"

lemma build_props:
  assumes "munge_ok s" and "plain_payload s type ob" and "build type ob s = (r, s')"
  shows "rprop s' r (primaryKey s type) = pget ob (primaryKey s type)"
    and "rprop s' r ''__type'' = JStr type"
proof -
  let ?ob1 = "om_set ''__type'' (JStr type) ob"
  let ?ob2 = "om_set ''__state'' (JStr (if truthy (pget ?ob1 (primaryKey s type))
      then ''created'' else ''new'')) ?ob1"
  have wf: "om_wf ?ob2" using assms(2) by (simp add: plain_payload_def)
  have hp: "heap s' r = assign [] (munge s type ?ob2)"
    using assms(3) by (auto simp: build_def Let_def)
  note wfm = munge_okD(1) [OF assms(1) wf, of type]
  have get: "pget (heap s' r) k = pget ?ob2 k" if "k \<in> {primaryKey s type, ''__type'', ''__state''}" for k
  proof -
    have "om_get (heap s' r) k = om_get (munge s type ?ob2) k"
      unfolding hp om_get_assign [OF wfm] by (cases "om_get (munge s type ?ob2) k") simp_all
    also have "\<dots> = om_get ?ob2 k" by (rule munge_okD(2) [OF assms(1) wf that])
    finally show ?thesis unfolding pget_def by (rule arg_cong)
  qed
  show "rprop s' r (primaryKey s type) = pget ob (primaryKey s type)"
    using get [of "primaryKey s type"] assms(2) by (simp add: rprop_def plain_payload_def)
  show "rprop s' r ''__type'' = JStr type"
    using get [of "''__type''"] by (simp add: rprop_def)
qed

lemma hydrate_existing_props:
  assumes "munge_ok s" and "plain_payload s type ob"
    and "fromMap s type (pget ob (primaryKey s type)) = Some r"
    and "k \<in> {primaryKey s type, ''__type''}"
  shows "rprop (snd (hydrate_payload type ob s)) r k = rprop s r k"
proof -
  let ?u = "munge s type (om_delete (primaryKey s type) ob)"
  have wf: "om_wf (om_delete (primaryKey s type) ob)"
    using assms(2) by (auto simp: plain_payload_def)
  have "om_get ?u k = om_get (om_delete (primaryKey s type) ob) k"
    using assms(4) by (intro munge_okD(2) [OF assms(1) wf]) auto
  also have "\<dots> = None"
    using assms(2,4) by (auto simp: plain_payload_def)
  finally have "pget (assign (heap s r) (changed_props (heap s r) ?u)) k = pget (heap s r) k"
    using pget_changed [OF munge_okD(1) [OF assms(1) wf], of "heap s r" type k] by simp
  then show ?thesis
    using assms(3) by (simp add: hydrate_payload_def Let_def rprop_def set_props_def)
qed

lemma store_ok_build:
  assumes "store_ok s" and "munge_ok s" and "plain_payload s type ob" and "build type ob s = (r, s')"
  shows "store_ok s'"
  unfolding store_ok_def
proof (intro allI impI)
  fix t i q
  assume q: "fromMap s' t i = Some q"
  have pk: "primaryKey s type \<noteq> ''__type''" "primaryKey s type \<noteq> ''__state''"
    using assms(3) by (auto simp: plain_payload_def)
  note frame = build_frame [OF assms(4)]
  show "truthy (rprop s' q (primaryKey s' t)) \<and> q < next_ref s' \<and>
    prop_key (rprop s' q (primaryKey s' t)) = prop_key i \<and> rprop s' q ''__type'' = JStr t"
  proof (cases "truthy (pget ob (primaryKey s type)) \<and> t = type \<and> prop_key i = prop_key (pget ob (primaryKey s type))")
    case True
    then show ?thesis
      using q build_props [OF assms(2-4)] frame
      by (simp add: fromMap_build [OF assms(4) pk])
  next
    case False
    then have "fromMap s t i = Some q"
      using q by (simp add: fromMap_build [OF assms(4) pk] del: not_None_eq split: if_splits)
    moreover from this have "truthy (rprop s q (primaryKey s t))" "q < next_ref s"
        "prop_key (rprop s q (primaryKey s t)) = prop_key i" "rprop s q ''__type'' = JStr t"
      using assms(1) by (auto simp: store_ok_def)
    ultimately show ?thesis
      using frame(1-4) frame(5) [of q] by (simp add: rprop_def)
  qed
qed

lemma store_ok_hydrate_payload:
  assumes "store_ok s" and "munge_ok s" and "plain_payload s type ob"
  shows "store_ok (snd (hydrate_payload type ob s))"
proof (cases "fromMap s type (pget ob (primaryKey s type))")
  case None
  then show ?thesis
    using store_ok_build [OF assms, of "fst (build type ob s)" "snd (build type ob s)"]
    by (simp add: hydrate_payload_def Let_def)
next
  case (Some r)
  let ?s' = "snd (hydrate_payload type ob s)"
  let ?u = "munge s type (om_delete (primaryKey s type) ob)"
  have s': "?s' = set_props r (changed_props (heap s r) ?u) s"
    using Some by (simp add: hydrate_payload_def Let_def)
  have rt: "rprop s r ''__type'' = JStr type"
    using assms(1) Some unfolding store_ok_def by blast
  show ?thesis
    unfolding store_ok_def
  proof (intro allI impI)
    fix t i q
    assume "fromMap ?s' t i = Some q"
    then have "fromMap s t i = Some q" by (simp add: s')
    then have old: "truthy (rprop s q (primaryKey s t))" "q < next_ref s"
        "prop_key (rprop s q (primaryKey s t)) = prop_key i"
        "rprop s q ''__type'' = JStr t"
      using assms(1) by (auto simp: store_ok_def)
    have "rprop ?s' q k = rprop s q k" if "k \<in> {primaryKey s t, ''__type''}" for k
    proof (cases "q = r")
      case True
      then have "t = type" using rt old(4) by simp
      with that True show ?thesis
        using hydrate_existing_props [OF assms(2,3) Some] by blast
    qed (simp add: s' rprop_def set_props_def)
    then show "truthy (rprop ?s' q (primaryKey ?s' t)) \<and> q < next_ref ?s' \<and>
      prop_key (rprop ?s' q (primaryKey ?s' t)) = prop_key i \<and> rprop ?s' q ''__type'' = JStr t"
      using old by (simp add: s')
  qed
qed

lemma store_ok_createRecord:
  assumes "store_ok s" and "munge_ok s" and "plain_payload s type ob"
  shows "store_ok (snd (createRecord type ob s))"
  using store_ok_hydrate_payload [OF assms]
    store_ok_build [OF assms, of "fst (build type ob s)" "snd (build type ob s)"]
  by (simp add: createRecord_def)

lemma createRecord_types: "createRecord type ob s = (r, s') \<Longrightarrow> t \<noteq> type \<Longrightarrow> by_type s' t = by_type s t"
  by (auto simp: createRecord_def hydrate_payload_def build_def storeMap_def set_props_def by_type_def Let_def
      split: if_splits option.splits)

lemma lookup_created:
  assumes "createRecord type ob s = (r, s')" and "truthy (pget ob (primaryKey s type))"
    and "primaryKey s type \<noteq> ''__type''" and "primaryKey s type \<noteq> ''__state''"
  shows "fromMap s' type (pget ob (primaryKey s type)) = Some r"
  using cr.create_lookup [OF _ assms(1)] assms(2-4) by (simp add: fromMap_def)

section \<open>Properties\<close>

text \<open>
  C12. The store keeps one record per type and id: creating records from two payloads whose ids
  have the same property key (7 and \<open>"7"\<close> have) gives the same object, filed under that key, and
  the records of every other key and of every other type stay the ones they were.
\<close>

theorem createRecord_identity:
  assumes "createRecord type ob s = (r, s1)" and "createRecord type ob' s1 = (r', s2)"
    and "truthy (pget ob (primaryKey s type))" and "truthy (pget ob' (primaryKey s type))"
    and "prop_key (pget ob' (primaryKey s type)) = prop_key (pget ob (primaryKey s type))"
    and "plain_payload s type ob"
  shows "r' = r \<and>
    (\<forall>t i. fromMap s2 t i =
       (if t = type \<and> prop_key i = prop_key (pget ob (primaryKey s type)) then Some r else fromMap s t i))"
proof -
  let ?k = "prop_key (pget ob (primaryKey s type))"
  have pk: "primaryKey s type \<noteq> ''__type''" "primaryKey s type \<noteq> ''__state''"
    using assms(6) by (auto simp: plain_payload_def)
  have same: "primaryKey s1 = primaryKey s" using createRecord_frame [OF assms(1)] by simp
  have r: "r' = r"
    using cr.create_twice [OF _ _ _ assms(1), of ob'] assms pk by simp
  have "om_get (by_type s2 type) ?k = Some r'"
    using cr.create_lookup [OF _ assms(2)] assms(4,5) pk same by simp
  moreover have "om_get (by_type s2 type) k = om_get (by_type s type) k" if "k \<noteq> ?k" for k
    using cr.create_other [OF _ that assms(1)] cr.create_other [OF _ _ assms(2), of k]
      assms(3-5) pk same that by simp
  moreover have "by_type s2 t = by_type s t" if "t \<noteq> type" for t
    using createRecord_types [OF assms(1) that] createRecord_types [OF assms(2) that] by simp
  ultimately show ?thesis unfolding fromMap_def using r by metis
qed

text \<open>
  The identity map stays consistent: after \<open>createRecord\<close>, every filed record is allocated
  and still has the id and the type it is filed under, whether the payload built a record or
  refreshed one.
\<close>

theorem createRecord_store_ok:
  assumes "store_ok s" and "munge_ok s" and "plain_payload s type ob"
  shows "store_ok (snd (createRecord type ob s)) \<and>
    (truthy (pget ob (primaryKey s type)) \<longrightarrow>
       fromMap (snd (createRecord type ob s)) type (pget ob (primaryKey s type)) =
         Some (fst (createRecord type ob s)))"
proof -
  have "fromMap (snd (createRecord type ob s)) type (pget ob (primaryKey s type)) =
         Some (fst (createRecord type ob s))" if "truthy (pget ob (primaryKey s type))"
    using that assms(3) by (intro lookup_created) (auto simp: plain_payload_def)
  with store_ok_createRecord [OF assms] show ?thesis by blast
qed

text \<open>
  \<open>_updateStale\<close> looks a stale item up under the literal property name \<open>primaryKey\<close>: when no
  cached record has a property of that name and every fetched record has an id, the cached
  records are never reused and the fetched content is returned as it is.
\<close>

theorem updateStale_never_reuses:
  assumes "\<forall>i \<in> set stale. rprop s i ''primaryKey'' = JUndef"
    and "\<forall>item \<in> set hydrated. truthy (rprop s item pk)"
  shows "updateStale s (Some stale) hydrated pk = hydrated"
proof -
  have "find (\<lambda>i. rprop s i ''primaryKey'' = rprop s item pk) stale = None"
    if "item \<in> set hydrated" for item
    using that assms by (force simp: find_None_iff)
  then show ?thesis
    by (simp add: updateStale_def cong: map_cong)
qed

definition demo_store :: store where
  "demo_store = \<lparr>heap = (\<lambda>_. []), next_ref = 0, id_map = [], plurals = initial_plurals,
     primaryKey = (\<lambda>_. ''id''), munge = (\<lambda>_ ob. ob)\<rparr>"

lemma demo_store_ok [simp]: "store_ok demo_store" "munge_ok demo_store"
  by (auto simp: demo_store_def store_ok_def munge_ok_def fromMap_def by_type_def)

lemma demo_store_pk [simp]: "primaryKey demo_store type = ''id''"
  by (simp add: demo_store_def)

theorem createRecord_identity_witness:
  "fst (createRecord ''post'' [(''id'', JStr ''7''), (''cooked'', JStr ''b'')]
     (snd (createRecord ''post'' [(''id'', JNum 7)] demo_store))) = 0"
proof -
  let ?a = "[(''id'', JNum 7)]" and ?b = "[(''id'', JStr ''7''), (''cooked'', JStr ''b'')]"
  obtain s1 where s1: "createRecord ''post'' ?a demo_store = (0, s1)"
    by (simp add: createRecord_def hydrate_payload_def Let_def build_def demo_store_def pget_Cons
        fromMap_def by_type_def)
  obtain r' s2 where s2: "createRecord ''post'' ?b s1 = (r', s2)" by force
  have seven: "show_int 7 = ''7''" by code_simp
  have "r' = 0"
    using createRecord_identity [OF s1 s2] seven
    by (simp add: demo_store_def pget_Cons plain_payload_def)
  then show ?thesis by (simp add: s1 s2)
qed

theorem createRecord_store_ok_witness:
  "store_ok (snd (createRecord ''post'' [(''id'', JNum 7)] demo_store))"
  using createRecord_store_ok [of demo_store "''post''" "[(''id'', JNum 7)]"]
  by (simp add: plain_payload_def demo_store_pk)

theorem updateStale_never_reuses_witness:
  "updateStale (demo_store\<lparr>heap := (\<lambda>r. [(''id'', JNum (int r + 1))])\<rparr>) (Some [0]) [0, 1] ''id'' = [0, 1]"
  by (rule updateStale_never_reuses) (auto simp: rprop_def pget_Cons)

end
