(* ===== verification/PostStream.thy ===== *)
theory PostStream
  imports ArrayTools Store
begin

text \<open>
  The post stream of a topic page, \<open>frontend/discourse/app/models/post-stream.js\<close> (class
  \<open>PostStream\<close>): the ids of the topic's posts (\<open>stream\<close>), the window of posts that are loaded
  (\<open>posts\<close>) and the identity map of the posts seen so far (\<open>imap\<close>, the field \<open>_identityMap\<close>),
  with the synchronous operations that load, stage, commit, undo and remove posts.

  Posts are mutable shared objects: \<open>posts\<close> and \<open>imap\<close> hold references into the heap of the
  record store (\<open>Store.heap\<close>), so an update through one holder is seen by the other. An id or a
  number of 0 stands for an absent one: the code tests ids and numbers by truthiness only, and
  the server numbers from 1. A \<open>null\<close> entry of \<open>_identityMap\<close> is an absent one: the code reads
  the map by truthiness only. The topic is the record \<open>topic\<close>; \<open>t_ref\<close> is its identity.

  \<open>_loadingPostIds\<close> is an array that several requests may share: \<open>batches\<close> holds the arrays made so
  far and \<open>loadingPostIds\<close> is the position of the current one. \<open>ignored_users\<close> is the current user's
  list, \<open>last_edit_click\<close> the module variable \<open>_lastEditNotificationClick\<close>, and \<open>shown_revisions\<close>
  records the events \<open>post:show-revision\<close> that were scheduled.
\<close>

section \<open>State\<close>

record topic =
  t_ref :: ref
  t_id :: int
  t_chunk_size :: nat
  t_highest_post_number :: int
  t_posts_count :: int
  t_last_posted_at :: jsval
  t_last_poster :: jsval
  t_suggested :: "(jsval \<times> jsval) option"
  t_user_badges :: jobj
  t_errorLoading :: bool
  t_errorTitle :: jsval
  t_errorHtml :: jsval
  t_errorMessage :: jsval
  t_noRetry :: bool

record gaps =
  g_before :: "(int, int list) omap"
  g_after :: "(int, int list) omap"

record pstream =
  st :: store
  topic :: topic
  stream :: "int list"
  posts :: "ref list"
  imap :: "(int, ref) omap"
  filter_name :: "string option"
  userFilters :: "string list"
  filterRepliesToPostNumber :: int
  filterUpwardsPostID :: int
  isMegaTopic :: bool
  lastId :: int
  lastAppended :: "ref option"
  loaded :: bool
  loadingAbove :: bool
  loadingBelow :: bool
  loadingFilter :: bool
  loadingLastPost :: bool
  loadingNearPost :: "int option"
  stagingPost :: bool
  appendingPlaceholders :: int
  timelineLookup :: "(int \<times> int) list"
  gapsOf :: "gaps option"
  batches :: "int list list"
  loadingPostIds :: "nat option"
  ignored_users :: "string list"
  last_edit_click :: "(int \<times> int \<times> int) option"
  shown_revisions :: "(int \<times> int) list"
  own_highest_post_number :: "int option"
  plugin_props :: "string list"
  user_record :: "jsval \<Rightarrow> jsval"

text \<open>The fields of a post that the stream reads.\<close>

definition pid :: "store \<Rightarrow> ref \<Rightarrow> int" where
  "pid h r = num_of (rprop h r ''id'')"

definition pnumber :: "store \<Rightarrow> ref \<Rightarrow> int" where
  "pnumber h r = num_of (rprop h r ''post_number'')"

abbreviation post_id :: "pstream \<Rightarrow> ref \<Rightarrow> int" where
  "post_id s \<equiv> pid (st s)"

abbreviation post_number :: "pstream \<Rightarrow> ref \<Rightarrow> int" where
  "post_number s \<equiv> pnumber (st s)"

section \<open>Derived state\<close>

definition loading :: "pstream \<Rightarrow> bool" where
  "loading s \<longleftrightarrow> loadingAbove s \<or> loadingBelow s \<or> loadingFilter s \<or> stagingPost s"

definition notLoading :: "pstream \<Rightarrow> bool" where
  "notLoading s = (\<not> loading s)"

definition filteredPostsCount :: "pstream \<Rightarrow> int" where
  "filteredPostsCount s =
     (if isMegaTopic s then t_highest_post_number (topic s) else int (length (stream s)))"

definition hasPosts :: "pstream \<Rightarrow> bool" where
  "hasPosts s \<longleftrightarrow> length (posts s) > 0"

definition hasLoadedData :: "pstream \<Rightarrow> bool" where
  "hasLoadedData s \<longleftrightarrow> hasPosts s \<and> filteredPostsCount s > 0"

definition firstPostPresent :: "pstream \<Rightarrow> bool" where
  "firstPostPresent s \<longleftrightarrow>
     (if \<not> hasLoadedData s then False
      else find (\<lambda>r. post_number s r = 1) (posts s) \<noteq> None)"

definition firstPostId :: "pstream \<Rightarrow> int option" where
  "firstPostId s = first_opt (stream s)"

definition lastPostId :: "pstream \<Rightarrow> int option" where
  "lastPostId s = (if isMegaTopic s then Some (lastId s) else last_opt (stream s))"

definition loadedAllPosts :: "pstream \<Rightarrow> bool" where
  "loadedAllPosts s \<longleftrightarrow>
     (if \<not> hasLoadedData s then False
      else if lastPostId s = Some (-1) then True
      else find (\<lambda>r. Some (post_id s r) = lastPostId s) (posts s) \<noteq> None)"

definition firstPostNotLoaded :: "pstream \<Rightarrow> bool" where
  "firstPostNotLoaded s = (\<not> firstPostPresent s)"

definition lastPostNotLoaded :: "pstream \<Rightarrow> bool" where
  "lastPostNotLoaded s = (\<not> loadedAllPosts s)"

definition canAppendMore :: "pstream \<Rightarrow> bool" where
  "canAppendMore s \<longleftrightarrow> notLoading s \<and> hasPosts s \<and> lastPostNotLoaded s"

definition canPrependMore :: "pstream \<Rightarrow> bool" where
  "canPrependMore s \<longleftrightarrow> notLoading s \<and> hasPosts s \<and> firstPostNotLoaded s"

definition summary :: "pstream \<Rightarrow> bool" where
  "summary s \<longleftrightarrow> filter_name s = Some ''summary''"

text \<open>\<open>postsWithPlaceholders\<close>: \<open>None\<close> is the placeholder object.\<close>

definition postsWithPlaceholders :: "pstream \<Rightarrow> ref option list" where
  "postsWithPlaceholders s = map Some (posts s) @ replicate (nat (appendingPlaceholders s)) None"

text \<open>
  The query parameters of the current filters. The getter builds a new object on every read.
\<close>

definition streamFilters :: "pstream \<Rightarrow> jobj" where
  "streamFilters s =
     (case filter_name s of None \<Rightarrow> []
        | Some f \<Rightarrow> if f \<noteq> [] then [(''filter'', JStr f)] else []) @
     (if userFilters s \<noteq> [] then [(''username_filters'', JStr (join '','' (userFilters s)))] else []) @
     (if filterRepliesToPostNumber s \<noteq> 0
      then [(''replies_to_post_number'', JNum (filterRepliesToPostNumber s))] else []) @
     (if filterUpwardsPostID s \<noteq> 0
      then [(''filter_upwards_post_id'', JNum (filterUpwardsPostID s))] else [])"

definition hasNoFilters :: "pstream \<Rightarrow> bool" where
  "hasNoFilters s \<longleftrightarrow>
     pget (streamFilters s) ''filter'' \<noteq> JStr ''summary'' \<and>
     \<not> truthy (pget (streamFilters s) ''username_filters'')"

definition indexOf :: "pstream \<Rightarrow> ref \<Rightarrow> int" where
  "indexOf s r = index_of (stream s) (post_id s r)"

text \<open>The ids just above and just below the loaded posts, at most a chunk of them.\<close>

definition previousWindow :: "pstream \<Rightarrow> int list" where
  "previousWindow s =
     (case first_opt (posts s) of
        None \<Rightarrow> []
      | Some first \<Rightarrow>
          (let firstIndex = indexOf s first
           in if firstIndex = -1 then []
              else let start = firstIndex - int (t_chunk_size (topic s));
                       startIndex = (if start < 0 then 0 else start)
                   in js_slice startIndex firstIndex (stream s)))"

definition nextWindow :: "pstream \<Rightarrow> int list" where
  "nextWindow s =
     (case last_opt (posts s) of
        None \<Rightarrow> []
      | Some l \<Rightarrow>
          (let lastIndex = indexOf s l
           in if lastIndex = -1 then []
              else if (case own_highest_post_number s of None \<Rightarrow> False | Some h \<Rightarrow> lastIndex + 1 \<ge> h)
              then []
              else js_slice (lastIndex + 1) (lastIndex + int (t_chunk_size (topic s)) + 1) (stream s)))"

section \<open>Filters\<close>

text \<open>
  \<open>cancelFilter\<close> resets the filters. Its first statement sets a property of a fresh
  \<open>streamFilters\<close> object, which nothing reads.
\<close>

definition cancelFilter :: "pstream \<Rightarrow> pstream" where
  "cancelFilter s = s\<lparr>userFilters := [], filterRepliesToPostNumber := 0,
     filterUpwardsPostID := 0, filter_name := None\<rparr>"

text \<open>
  \<open>gapExpanded\<close> marks the fresh object that \<open>streamFilters\<close> returns, so the state stays as it is.
\<close>

definition gapExpanded :: "pstream \<Rightarrow> pstream" where
  "gapExpanded s = s"

section \<open>The identity map of the stream\<close>

text \<open>
  \<open>trackedPropertiesForPostUpdate\<close> of \<open>models/post.js\<close>: the properties that
  \<open>updateFromPost\<close> copies besides the own properties of the other post.
\<close>

definition trackedPropertiesForPostUpdate :: "string list" where
  "trackedPropertiesForPostUpdate =
    [''action_code'', ''action_code_path'', ''action_code_who'', ''actions_summary'', ''admin'',
     ''badges_granted'', ''bookmarked'', ''can_delete'', ''can_edit'', ''can_permanently_delete'',
     ''can_recover'', ''can_see_hidden_post'', ''can_view_edit_history'', ''cooked'',
     ''cooked_hidden'', ''created_at'', ''deleted_at'', ''deleted_by'', ''excerpt'',
     ''expandedExcerpt'', ''group_moderator'', ''hasGap'', ''hidden'', ''id'',
     ''is_auto_generated'', ''last_wiki_edit'', ''likeAction'', ''link_counts'', ''locked'',
     ''moderator'', ''name'', ''notice'', ''notice_created_by_user'', ''post_number'',
     ''post_type'', ''primary_group_name'', ''quoted'', ''read'', ''readers_count'',
     ''reply_count'', ''reply_to_user'', ''staff'', ''staged'', ''title_is_group'', ''topic'',
     ''topic_id'', ''trust_level'', ''updated_at'', ''user_deleted'', ''user_id'',
     ''user_suspended'', ''user_title'', ''username'', ''version'', ''via_email'', ''wiki'',
     ''yours'', ''user_custom_fields'', ''post_localizations'', ''is_localized'', ''language'',
     ''localization_outdated'']"

text \<open>
  \<open>updateFromPost\<close>: each property of the other post that differs is copied, a falsy value as
  \<open>null\<close>; \<open>reply_to_user\<close> is kept when it is the same user, \<open>topic\<close> is not overwritten by
  nothing. Equality of nested values is structural here: copying an equal value changes nothing.
\<close>

definition nullify :: "jsval \<Rightarrow> jsval" where
  "nullify v = (if truthy v then v else JNull)"

fun username_of :: "jsval \<Rightarrow> jsval" where
  "username_of (JObj ps) = pget ps ''username''"
| "username_of _ = JUndef"

definition update_key :: "jobj \<Rightarrow> string \<Rightarrow> jobj \<Rightarrow> jobj" where
  "update_key other key this =
     (let v = nullify (pget other key);
          oldv = nullify (pget this key)
      in if oldv \<noteq> v
         then let skip = (if key = ''reply_to_user'' \<and> truthy v \<and> truthy oldv
                          then username_of v = username_of oldv
                          else key = ''topic'' \<and> \<not> truthy v \<and> truthy oldv)
              in if skip then this else om_set key v this
         else this)"

definition updateFromPost :: "string list \<Rightarrow> jobj \<Rightarrow> jobj \<Rightarrow> jobj" where
  "updateFromPost plugin other this =
     fold (update_key other) (om_keys other @ trackedPropertiesForPostUpdate @ plugin) this"

text \<open>
  \<open>storePost\<close>: raises the topic's highest post number, refreshes the post already known under the
  id and answers it, or files the new one. \<open>None\<close> is a missing post.
\<close>

definition raise_highest :: "ref \<Rightarrow> pstream \<Rightarrow> pstream" where
  "raise_highest r s =
     (let n = post_number s r
      in if n \<noteq> 0 \<and> n > t_highest_post_number (topic s)
         then s\<lparr>topic := (topic s)\<lparr>t_highest_post_number := n,
                t_last_posted_at := rprop (st s) r ''created_at''\<rparr>\<rparr>
         else s)"

definition on_store :: "(store \<Rightarrow> store) \<Rightarrow> pstream \<Rightarrow> pstream" where
  "on_store f s = s\<lparr>st := f (st s)\<rparr>"

definition storePost :: "ref option \<Rightarrow> pstream \<Rightarrow> ref option \<times> pstream" where
  "storePost post s =
     (case post of
        None \<Rightarrow> (None, s)
      | Some r \<Rightarrow>
          (let postId = post_id s r
           in if postId = 0 then (Some r, s)
              else let s1 = raise_highest r s
                   in case om_get (imap s) postId of
                        Some existing \<Rightarrow>
                          (Some existing,
                           on_store (\<lambda>h. h\<lparr>heap := (heap h)(existing :=
                             updateFromPost (plugin_props s) (heap h r) (heap h existing))\<rparr>) s1)
                      | None \<Rightarrow>
                          (let s2 = on_store (set_prop r ''topic'' (JRef (t_ref (topic s)))) s1
                           in (Some r, s2\<lparr>imap := om_set postId r (imap s)\<rparr>))))"

text \<open>\<open>_initUserModels\<close>: the mentioned users become user records (\<open>user_record\<close>).\<close>

definition initUserModels :: "ref \<Rightarrow> pstream \<Rightarrow> pstream" where
  "initUserModels r s =
     (case rprop (st s) r ''mentioned_users'' of
        JArr us \<Rightarrow> on_store (set_prop r ''mentioned_users'' (JArr (map (user_record s) us))) s
      | _ \<Rightarrow> s)"

definition appendPost :: "ref \<Rightarrow> pstream \<Rightarrow> pstream" where
  "appendPost r s =
     (let (stored, s1) = storePost (Some r) (initUserModels r s)
      in case stored of
           None \<Rightarrow> s1
         | Some q \<Rightarrow>
             (let s2 = s1\<lparr>posts := push_new q (posts s1)\<rparr>
              in if post_id s2 q \<noteq> -1 then s2\<lparr>lastAppended := Some q\<rparr> else s2))"

definition prependPost :: "ref \<Rightarrow> pstream \<Rightarrow> pstream" where
  "prependPost r s =
     (let (stored, s1) = storePost (Some r) (initUserModels r s)
      in case stored of
           None \<Rightarrow> s1
         | Some q \<Rightarrow> if q \<in> set (posts s1) then s1 else s1\<lparr>posts := q # posts s1\<rparr>)"

text \<open>\<open>this.store.createRecord("post", p)\<close> for a payload of the server.\<close>

definition create_post :: "jobj \<Rightarrow> pstream \<Rightarrow> ref \<times> pstream" where
  "create_post ob s = (let (r, h) = createRecord ''post'' ob (st s) in (r, s\<lparr>st := h\<rparr>))"

definition append_payload :: "jobj \<Rightarrow> pstream \<Rightarrow> pstream" where
  "append_payload ob s = (let (r, s1) = create_post ob s in appendPost r s1)"

definition store_payload :: "jobj \<Rightarrow> pstream \<Rightarrow> pstream" where
  "store_payload ob s = (let (r, s1) = create_post ob s in snd (storePost (Some r) s1))"

section \<open>Staging, committing and undoing a post\<close>

definition push_id :: "int \<Rightarrow> pstream \<Rightarrow> pstream" where
  "push_id i s = s\<lparr>stream := push_new i (stream s)\<rparr>"

definition on_topic :: "(topic \<Rightarrow> topic) \<Rightarrow> pstream \<Rightarrow> pstream" where
  "on_topic f s = s\<lparr>topic := f (topic s)\<rparr>"

definition append_at_end :: "ref \<Rightarrow> pstream \<Rightarrow> pstream" where
  "append_at_end r s = (let s1 = appendPost r s in push_id (post_id s1 r) s1)"

definition stagePost :: "ref \<Rightarrow> jsval \<Rightarrow> jsval \<Rightarrow> pstream \<Rightarrow> string \<times> pstream" where
  "stagePost post user now s =
     (if stagingPost s then (''alreadyStaging'', s)
      else
        let s1 = on_topic (\<lambda>t. t\<lparr>t_posts_count := t_posts_count t + 1, t_last_posted_at := now,
                     t_last_poster := user,
                     t_highest_post_number := t_highest_post_number t + 1\<rparr>)
                   (s\<lparr>stagingPost := True\<rparr>);
            s2 = on_store (set_props post
                     [(''post_number'', JNum (t_highest_post_number (topic s1))),
                      (''topic'', JRef (t_ref (topic s1))), (''created_at'', now),
                      (''id'', JNum (-1))]) s1
        in if loadedAllPosts s2 then (''staged'', append_at_end post s2) else (''offScreen'', s2))"

definition commitPost :: "ref \<Rightarrow> pstream \<Rightarrow> pstream" where
  "commitPost post s =
     (let s1 = (if t_id (topic s) = num_of (rprop (st s) post ''topic_id'')
                then if loadedAllPosts s then append_at_end post s else s
                else s)
      in s1\<lparr>stream := remove_value (stream s1) (-1), imap := om_delete (-1) (imap s1),
            stagingPost := False\<rparr>)"

definition undoPost :: "ref \<Rightarrow> pstream \<Rightarrow> pstream" where
  "undoPost post s =
     (let s1 = s\<lparr>stream := remove_value (stream s) (-1), posts := remove_value (posts s) post,
                 imap := om_delete (-1) (imap s), stagingPost := False\<rparr>
      in on_topic (\<lambda>t. t\<lparr>t_highest_post_number := t_highest_post_number t - 1,
             t_posts_count := t_posts_count t - 1\<rparr>) s1)"

section \<open>Removing posts\<close>

text \<open>
  \<open>removePosts\<close>: an entry that is \<open>undefined\<close> makes \<open>posts.map((p) => p.id)\<close> throw before
  anything is removed.
\<close>

definition removePosts :: "ref option list \<Rightarrow> pstream \<Rightarrow> pstream result" where
  "removePosts ps s =
     (if ps = [] then Inr s
      else if None \<in> set ps
      then Inl (TypeError ''Cannot read properties of undefined (reading 'id')'')
      else let rs = map the ps;
               postIds = map (post_id s) rs
           in Inr (s\<lparr>stream := removeValuesFromArray (stream s) postIds,
                     posts := removeValuesFromArray (posts s) rs,
                     imap := fold om_delete postIds (imap s)\<rparr>))"

definition removeAllPosts :: "pstream \<Rightarrow> pstream result" where
  "removeAllPosts s = removePosts (map Some (om_values (imap s))) s"

definition findLoadedPost :: "pstream \<Rightarrow> int \<Rightarrow> ref option" where
  "findLoadedPost s i = om_get (imap s) i"

definition triggerDestroyedPost :: "int \<Rightarrow> pstream \<Rightarrow> pstream result" where
  "triggerDestroyedPost i s = removePosts [om_get (imap s) i] s"

section \<open>Loading a topic\<close>

record stream_json =
  j_posts :: "jobj list"
  j_stream :: "int list option"
  j_gaps :: "gaps option"
  j_isMegaTopic :: "bool option"
  j_lastId :: "int option"

definition or_else :: "'a option \<Rightarrow> 'a \<Rightarrow> 'a" where
  "or_else x d = (case x of None \<Rightarrow> d | Some a \<Rightarrow> a)"

definition updateFromJson :: "stream_json option \<Rightarrow> pstream \<Rightarrow> pstream" where
  "updateFromJson data s =
     (let s1 = s\<lparr>posts := [], gapsOf := None\<rparr>
      in case data of
           None \<Rightarrow> s1
         | Some j \<Rightarrow>
             (let s2 = fold append_payload (j_posts j) s1
              in s2\<lparr>gapsOf := Some (or_else (j_gaps j) \<lparr>g_before = [], g_after = []\<rparr>),
                    stream := or_else (j_stream j) (stream s2),
                    isMegaTopic := or_else (j_isMegaTopic j) (isMegaTopic s2),
                    lastId := or_else (j_lastId j) (lastId s2)\<rparr>))"

end
