(* ===== verification/PostStreamInv.thy ===== *)
theory PostStreamInv
  imports PostStream
begin

text \<open>
  The invariant of the post stream and its preservation by the synchronous operations of
  \<open>PostStream\<close>: every loaded post is filed in the identity map under its own id, no post is loaded
  twice, and the record store below stays consistent. The client's view of the record store is
  the locale \<open>record_source\<close> of \<open>Store\<close>.
\<close>

section \<open>Copying properties\<close>

lemma update_key_other: "k \<noteq> key \<Longrightarrow> pget (update_key other key this) k = pget this k"
  by (simp add: update_key_def Let_def)

lemma update_key_same:
  "nullify (pget other k) = nullify (pget this k) \<Longrightarrow> pget (update_key other key this) k = pget this k"
  by (cases "k = key") (simp_all add: update_key_other, simp add: update_key_def)

lemma updateFromPost_same:
  assumes "nullify (pget other k) = nullify (pget this k)"
  shows "pget (updateFromPost plugin other this) k = pget this k"
proof -
  have "pget (fold (update_key other) ks this) k = pget this k" for ks
    using assms by (induction ks arbitrary: this) (auto simp: update_key_same)
  then show ?thesis unfolding updateFromPost_def .
qed

lemma updateFromPost_self: "updateFromPost plugin ob ob = ob"
proof -
  have "fold (update_key ob) ks ob = ob" for ks
    by (induction ks) (auto simp: update_key_def)
  then show ?thesis unfolding updateFromPost_def .
qed

text \<open>A copied property ends up equal to the other post's value, a falsy one as \<open>null\<close>.\<close>

lemma updateFromPost_copied:
  assumes "k \<in> set trackedPropertiesForPostUpdate \<or> k \<in> set (om_keys other)"
    and "k \<noteq> ''reply_to_user''" and "k \<noteq> ''topic''"
  shows "nullify (pget (updateFromPost plugin other this) k) = nullify (pget other k)"
proof -
  have keep: "nullify (pget (fold (update_key other) ks ob) k) = nullify (pget other k)"
    if "nullify (pget ob k) = nullify (pget other k)" for ks ob
    using that by (induction ks arbitrary: ob) (auto simp: update_key_same)
  have hit: "nullify (pget (update_key other k ob) k) = nullify (pget other k)" for ob
    using assms(2,3) by (auto simp: update_key_def Let_def nullify_def)
  have "nullify (pget (fold (update_key other) ks ob) k) = nullify (pget other k)"
    if "k \<in> set ks" for ks ob
    using that
  proof (induction ks arbitrary: ob)
    case (Cons a ks)
    then show ?case using keep [OF hit] by (cases "a = k") auto
  qed simp
  moreover have "k \<in> set (om_keys other @ trackedPropertiesForPostUpdate @ plugin)"
    using assms(1) by auto
  ultimately show ?thesis unfolding updateFromPost_def by blast
qed

section \<open>The invariant\<close>

definition post_ok :: "store \<Rightarrow> ref \<Rightarrow> bool" where
  "post_ok h r \<longleftrightarrow> r < next_ref h \<and> rprop h r ''__type'' = JStr ''post''"

text \<open>The filed posts have numbers as ids, as the server sends them (\<open>post_payload\<close>).\<close>

definition number_ids :: "store \<Rightarrow> bool" where
  "number_ids h \<longleftrightarrow> (\<forall>i r. fromMap h ''post'' i = Some r \<longrightarrow> (\<exists>n. rprop h r ''id'' = JNum n))"

definition base_ok :: "store \<Rightarrow> bool" where
  "base_ok h \<longleftrightarrow> store_ok h \<and> munge_ok h \<and> primaryKey h ''post'' = ''id'' \<and> number_ids h"

definition filed_ok :: "store \<Rightarrow> (int, ref) omap \<Rightarrow> bool" where
  "filed_ok h im \<longleftrightarrow> om_wf im \<and>
     (\<forall>i r. om_get im i = Some r \<longrightarrow> i \<noteq> 0 \<and> pid h r = i \<and> post_ok h r)"

definition loaded_ok :: "store \<Rightarrow> ref list \<Rightarrow> (int, ref) omap \<Rightarrow> bool" where
  "loaded_ok h ps im \<longleftrightarrow> distinct ps \<and> (\<forall>r \<in> set ps. om_get im (pid h r) = Some r)"

definition stream_inv :: "pstream \<Rightarrow> bool" where
  "stream_inv s \<longleftrightarrow> base_ok (st s) \<and> filed_ok (st s) (imap s) \<and> loaded_ok (st s) (posts s) (imap s)"

lemma filed_okD:
  assumes "filed_ok h im" and "om_get im i = Some r"
  shows "i \<noteq> 0" "pid h r = i" "post_ok h r"
  using assms unfolding filed_ok_def by blast+

lemma stream_invD:
  assumes "stream_inv s"
  shows "base_ok (st s)" "filed_ok (st s) (imap s)" "distinct (posts s)"
    "r \<in> set (posts s) \<Longrightarrow> om_get (imap s) (post_id s r) = Some r"
  using assms unfolding stream_inv_def loaded_ok_def by simp_all

lemma loaded_ids_distinct: "loaded_ok h ps im \<Longrightarrow> distinct (map (pid h) ps)"
  unfolding distinct_map
proof
  assume ok: "loaded_ok h ps im"
  then show "distinct ps" by (simp add: loaded_ok_def)
  show "inj_on (pid h) (set ps)"
  proof (rule inj_onI)
    fix x y assume "x \<in> set ps" "y \<in> set ps" and eq: "pid h x = pid h y"
    then have "om_get im (pid h x) = Some x" "om_get im (pid h y) = Some y"
      using ok unfolding loaded_ok_def by blast+
    with eq show "x = y" by (metis option.inject)
  qed
qed

lemma num_of_nonzero: "num_of v = i \<Longrightarrow> i \<noteq> 0 \<Longrightarrow> v = JNum i"
  by (cases v) auto

text \<open>
  A change of the heap that keeps the ids and types of posts, and everything else of other
  records.
\<close>

definition keeps_record :: "store \<Rightarrow> store \<Rightarrow> ref \<Rightarrow> bool" where
  "keeps_record h h' q \<longleftrightarrow> heap h' q = heap h q \<or>
     (rprop h q ''__type'' = JStr ''post'' \<and> rprop h' q ''__type'' = JStr ''post'' \<and>
      rprop h' q ''id'' = rprop h q ''id'')"

definition heap_frame :: "store \<Rightarrow> store \<Rightarrow> bool" where
  "heap_frame h h' \<longleftrightarrow> id_map h' = id_map h \<and> next_ref h' = next_ref h \<and>
     primaryKey h' = primaryKey h \<and> munge h' = munge h \<and> (\<forall>q. keeps_record h h' q)"

lemma keeps_record_props:
  assumes "keeps_record h h' q"
  shows "rprop h' q ''id'' = rprop h q ''id''" "rprop h' q ''__type'' = rprop h q ''__type''"
  using assms by (auto simp: keeps_record_def rprop_def)

lemma keeps_record_trans:
  assumes "keeps_record h h' q" and "keeps_record h' h'' q"
  shows "keeps_record h h'' q"
  using assms keeps_record_props [OF assms(1)]
  by (auto simp: keeps_record_def rprop_def)

lemma heap_frame_refl [simp]: "heap_frame h h"
  by (simp add: heap_frame_def keeps_record_def)

lemma heap_frame_trans:
  assumes "heap_frame h h'" and "heap_frame h' h''"
  shows "heap_frame h h''"
proof -
  have "keeps_record h h'' q" for q
    using assms keeps_record_trans [of h h' q h''] by (simp add: heap_frame_def)
  then show ?thesis using assms by (simp add: heap_frame_def)
qed

lemma heap_frame_keeps:
  assumes "heap_frame h h'"
  shows "rprop h' q ''id'' = rprop h q ''id''" "rprop h' q ''__type'' = rprop h q ''__type''"
    "pid h' = pid h" "post_ok h' = post_ok h"
proof -
  have k: "keeps_record h h' q" for q using assms by (simp add: heap_frame_def)
  show "rprop h' q ''id'' = rprop h q ''id''" "rprop h' q ''__type'' = rprop h q ''__type''"
    using keeps_record_props [OF k] by simp_all
  show "pid h' = pid h" "post_ok h' = post_ok h"
    using keeps_record_props [OF k] assms by (auto simp: pid_def post_ok_def heap_frame_def)
qed

lemma heap_frame_set:
  assumes "post_ok h r" and "k \<noteq> ''id''" and "k \<noteq> ''__type''"
  shows "heap_frame h (set_prop r k v h)"
  using assms by (auto simp: heap_frame_def keeps_record_def set_prop_def rprop_def post_ok_def)

lemma base_ok_frame:
  assumes "base_ok h" and "heap_frame h h'"
  shows "base_ok h'"
proof -
  have eq: "id_map h' = id_map h" "next_ref h' = next_ref h" "primaryKey h' = primaryKey h"
    "munge h' = munge h"
    using assms(2) by (auto simp: heap_frame_def)
  have "truthy (rprop h' r (primaryKey h type)) \<and> prop_key (rprop h' r (primaryKey h type)) = prop_key i \<and>
      rprop h' r ''__type'' = JStr type \<and> r < next_ref h"
    if f: "fromMap h type i = Some r" for type i r
  proof -
    have old: "truthy (rprop h r (primaryKey h type))" "r < next_ref h"
      "prop_key (rprop h r (primaryKey h type)) = prop_key i"
      "rprop h r ''__type'' = JStr type"
      using assms(1) f by (auto simp: base_ok_def store_ok_def)
    show ?thesis
    proof (cases "heap h' r = heap h r")
      case True
      then show ?thesis using old by (simp add: rprop_def)
    next
      case False
      then have "type = ''post''"
        using assms(2) old(4) by (auto simp: heap_frame_def keeps_record_def)
      then show ?thesis
        using old assms(1) heap_frame_keeps(1,2) [OF assms(2)] by (simp add: base_ok_def)
    qed
  qed
  then have "store_ok h'"
    using eq by (simp add: store_ok_def fromMap_def by_type_def)
  moreover have "munge_ok h'" using assms(1) eq by (simp add: base_ok_def munge_ok_def)
  moreover have "fromMap h' = fromMap h" using eq by (simp add: fromMap_def by_type_def fun_eq_iff)
  then have "number_ids h'"
    using assms(1) heap_frame_keeps(1) [OF assms(2)] by (simp add: base_ok_def number_ids_def)
  ultimately show ?thesis using assms(1) eq by (simp add: base_ok_def)
qed

text \<open>An operation that changes the heap within the frame and leaves the stream's lists alone.\<close>

definition quiet :: "pstream \<Rightarrow> pstream \<Rightarrow> bool" where
  "quiet s s' \<longleftrightarrow> heap_frame (st s) (st s') \<and> posts s' = posts s \<and> imap s' = imap s \<and> stream s' = stream s"

lemma quiet_ids:
  assumes "quiet s s'"
  shows "post_id s' = post_id s" "post_ok (st s') = post_ok (st s)"
  using heap_frame_keeps(3,4) [of "st s" "st s'"] assms by (simp_all add: quiet_def)

lemma filed_ok_frame: "heap_frame h h' \<Longrightarrow> filed_ok h' = filed_ok h"
  by (simp add: filed_ok_def heap_frame_keeps fun_eq_iff)

lemma loaded_ok_frame: "heap_frame h h' \<Longrightarrow> loaded_ok h' = loaded_ok h"
  by (simp add: loaded_ok_def heap_frame_keeps fun_eq_iff)

lemma quiet_inv:
  assumes "quiet s s'" and "stream_inv s"
  shows "stream_inv s'"
proof -
  have f: "heap_frame (st s) (st s')" using assms(1) by (simp add: quiet_def)
  show ?thesis
    using assms base_ok_frame [OF _ f] filed_ok_frame [OF f] loaded_ok_frame [OF f]
    by (simp add: stream_inv_def quiet_def)
qed

lemma st_raise [simp]: "st (raise_highest r s) = st s" "plugin_props (raise_highest r s) = plugin_props s"
  "imap (raise_highest r s) = imap s" "posts (raise_highest r s) = posts s"
  "stream (raise_highest r s) = stream s" "topic (raise_highest r s\<lparr>imap := m\<rparr>) = topic (raise_highest r s)"
  by (simp_all add: raise_highest_def Let_def)

lemma quiet_init:
  assumes "post_ok (st s) r"
  shows "quiet s (initUserModels r s)"
proof -
  have "quiet s (on_store (set_prop r ''mentioned_users'' v) s)" for v
    using heap_frame_set [OF assms, of "''mentioned_users''" v]
    by (simp add: quiet_def on_store_def)
  moreover have "quiet s s" by (simp add: quiet_def)
  ultimately show ?thesis
    by (cases "rprop (st s) r ''mentioned_users''") (simp_all add: initUserModels_def)
qed

section \<open>Storing a post\<close>

text \<open>
  The record that ends up loaded for the id of \<open>r\<close>: the one already filed, else \<open>r\<close> itself.
\<close>

definition filed_as :: "pstream \<Rightarrow> ref \<Rightarrow> ref" where
  "filed_as s r = (case om_get (imap s) (post_id s r) of Some e \<Rightarrow> e | None \<Rightarrow> r)"

lemma filed_as_props:
  assumes "filed_ok (st s) (imap s)" and "post_ok (st s) r"
  shows "post_id s (filed_as s r) = post_id s r" "post_ok (st s) (filed_as s r)"
  using assms(2) filed_okD [OF assms(1)]
  by (auto simp: filed_as_def split: option.split)

lemma copy_frame:
  assumes "post_ok h r" and "post_ok h e" and "pid h r = pid h e" and "pid h e \<noteq> 0"
  shows "heap_frame h (h\<lparr>heap := (heap h)(e := updateFromPost plugin (heap h r) (heap h e))\<rparr>)"
proof -
  have "pget (heap h r) ''id'' = pget (heap h e) ''id''"
    using assms(3,4) num_of_nonzero [of "pget (heap h r) ''id''", OF refl]
      num_of_nonzero [of "pget (heap h e) ''id''", OF refl]
    by (simp add: pid_def rprop_def)
  moreover have "pget (heap h r) ''__type'' = pget (heap h e) ''__type''"
    using assms(1,2) by (simp add: post_ok_def rprop_def)
  ultimately show ?thesis
    using assms(2) by (simp add: heap_frame_def keeps_record_def rprop_def post_ok_def updateFromPost_same)
qed

lemma storePost_spec:
  assumes inv: "stream_inv s" and ok: "post_ok (st s) r" and ident: "post_id s r \<noteq> 0"
  obtains s' where "storePost (Some r) s = (Some (filed_as s r), s')" "stream_inv s'"
    "heap_frame (st s) (st s')"
    "om_get (imap s') = (om_get (imap s))(post_id s r \<mapsto> filed_as s r)"
    "posts s' = posts s" "stream s' = stream s"
proof (cases "om_get (imap s) (post_id s r)")
  case (Some e)
  note e = filed_okD [OF stream_invD(2) [OF inv] Some]
  let ?s' = "on_store (\<lambda>h. h\<lparr>heap := (heap h)(e :=
      updateFromPost (plugin_props s) (heap h r) (heap h e))\<rparr>) (raise_highest r s)"
  have fe: "filed_as s r = e" using Some by (simp add: filed_as_def)
  have frame: "heap_frame (st s) (st ?s')"
    using copy_frame [OF ok e(3)] e(2) ident by (simp add: on_store_def)
  then have q: "quiet s ?s'" by (simp add: quiet_def on_store_def)
  have upd: "(om_get (imap s))(post_id s r \<mapsto> e) = om_get (imap s)"
    using Some by (simp add: fun_upd_idem)
  show ?thesis
    by (rule that [of ?s'])
      (use ident Some q frame quiet_inv [OF q inv] in
        \<open>simp_all add: storePost_def Let_def quiet_def fe upd\<close>)
next
  case None
  let ?s2 = "on_store (set_prop r ''topic'' (JRef (t_ref (topic s)))) (raise_highest r s)"
  let ?s' = "?s2\<lparr>imap := om_set (post_id s r) r (imap s)\<rparr>"
  have fr: "filed_as s r = r" using None by (simp add: filed_as_def)
  have frame: "heap_frame (st s) (st ?s2)"
    using heap_frame_set [OF ok, of "''topic''"] by (simp add: on_store_def)
  have "filed_ok (st s) (om_set (post_id s r) r (imap s))"
    using stream_invD(2) [OF inv] ok ident by (simp add: filed_ok_def)
  moreover have "loaded_ok (st s) (posts s) (om_set (post_id s r) r (imap s))"
    using stream_invD(3,4) [OF inv] None by (force simp: loaded_ok_def)
  ultimately have "stream_inv ?s'"
    using base_ok_frame [OF stream_invD(1) [OF inv] frame]
      filed_ok_frame [OF frame] loaded_ok_frame [OF frame]
    by (simp add: stream_inv_def on_store_def)
  then show ?thesis
    by (intro that [of ?s'])
      (use ident None frame in \<open>simp_all add: storePost_def Let_def fr on_store_def\<close>)
qed

lemma stored_spec:
  assumes inv: "stream_inv s" and ok: "post_ok (st s) r" and ident: "post_id s r \<noteq> 0"
  obtains s' where "storePost (Some r) (initUserModels r s) = (Some (filed_as s r), s')" "stream_inv s'"
    "heap_frame (st s) (st s')"
    "om_get (imap s') = (om_get (imap s))(post_id s r \<mapsto> filed_as s r)"
    "posts s' = posts s" "stream s' = stream s"
proof -
  let ?s0 = "initUserModels r s"
  have q0: "quiet s ?s0" by (rule quiet_init [OF ok])
  note ids0 = quiet_ids [OF q0]
  have fa: "filed_as ?s0 r = filed_as s r"
    using q0 ids0 by (simp add: filed_as_def quiet_def)
  have pre: "stream_inv ?s0" "post_ok (st ?s0) r" "post_id ?s0 r \<noteq> 0"
    using quiet_inv [OF q0 inv] ok ident ids0 by simp_all
  obtain s' where s': "storePost (Some r) ?s0 = (Some (filed_as ?s0 r), s')" "stream_inv s'"
    "heap_frame (st ?s0) (st s')"
    "om_get (imap s') = (om_get (imap ?s0))(post_id ?s0 r \<mapsto> filed_as ?s0 r)"
    "posts s' = posts ?s0" "stream s' = stream ?s0"
    by (rule storePost_spec [OF pre])
  have "heap_frame (st s) (st s')"
    using q0 s'(3) by (auto simp: quiet_def intro: heap_frame_trans)
  then show ?thesis
    using that [of s'] s' q0 fa ids0 by (simp add: quiet_def)
qed

lemma loaded_inv:
  assumes "stream_inv s" and "om_get (imap s) (post_id s q) = Some q"
    and "set ps' = insert q (set (posts s))" and "distinct ps'"
  shows "stream_inv (s\<lparr>posts := ps'\<rparr>)"
  using assms by (simp add: stream_inv_def loaded_ok_def)

lemma appendPost_spec:
  assumes inv: "stream_inv s" and ok: "post_ok (st s) r" and ident: "post_id s r \<noteq> 0"
  shows "stream_inv (appendPost r s)" "heap_frame (st s) (st (appendPost r s))"
    "stream (appendPost r s) = stream s"
    "posts (appendPost r s) = push_new (filed_as s r) (posts s)"
    "om_get (imap (appendPost r s)) = (om_get (imap s))(post_id s r \<mapsto> filed_as s r)"
proof -
  obtain s1 where sp: "storePost (Some r) (initUserModels r s) = (Some (filed_as s r), s1)"
    and f: "stream_inv s1" "heap_frame (st s) (st s1)"
      "om_get (imap s1) = (om_get (imap s))(post_id s r \<mapsto> filed_as s r)"
      "posts s1 = posts s" "stream s1 = stream s"
    by (rule stored_spec [OF assms])
  let ?q = "filed_as s r"
  let ?s2 = "s1\<lparr>posts := push_new ?q (posts s1)\<rparr>"
  have qid: "post_id s1 ?q = post_id s r"
    using filed_as_props(1) [OF stream_invD(2) [OF inv] ok] heap_frame_keeps(3) [OF f(2)] by simp
  have i2: "stream_inv ?s2"
    using stream_invD(3) [OF f(1)] by (intro loaded_inv [OF f(1)]) (auto simp: f(3) qid)
  have ap: "appendPost r s = ?s2 \<or> appendPost r s = ?s2\<lparr>lastAppended := Some ?q\<rparr>"
    by (simp add: appendPost_def sp Let_def)
  then have eqs: "st (appendPost r s) = st s1" "stream (appendPost r s) = stream s1"
    "posts (appendPost r s) = push_new ?q (posts s1)" "imap (appendPost r s) = imap s1"
    by auto
  show "stream_inv (appendPost r s)"
    using i2 by (simp add: stream_inv_def eqs)
  show "heap_frame (st s) (st (appendPost r s))" "stream (appendPost r s) = stream s"
    "posts (appendPost r s) = push_new ?q (posts s)"
    "om_get (imap (appendPost r s)) = (om_get (imap s))(post_id s r \<mapsto> ?q)"
    unfolding eqs f(3-5) using f(2) by simp_all
qed

lemma prependPost_spec:
  assumes inv: "stream_inv s" and ok: "post_ok (st s) r" and ident: "post_id s r \<noteq> 0"
  shows "stream_inv (prependPost r s)" "heap_frame (st s) (st (prependPost r s))"
    "stream (prependPost r s) = stream s"
    "posts (prependPost r s) = (if filed_as s r \<in> set (posts s) then posts s else filed_as s r # posts s)"
    "om_get (imap (prependPost r s)) = (om_get (imap s))(post_id s r \<mapsto> filed_as s r)"
proof -
  obtain s1 where sp: "storePost (Some r) (initUserModels r s) = (Some (filed_as s r), s1)"
    and f: "stream_inv s1" "heap_frame (st s) (st s1)"
      "om_get (imap s1) = (om_get (imap s))(post_id s r \<mapsto> filed_as s r)"
      "posts s1 = posts s" "stream s1 = stream s"
    by (rule stored_spec [OF assms])
  let ?q = "filed_as s r"
  have qid: "post_id s1 ?q = post_id s r"
    using filed_as_props(1) [OF stream_invD(2) [OF inv] ok] heap_frame_keeps(3) [OF f(2)] by simp
  have pp: "prependPost r s =
      (if ?q \<in> set (posts s) then s1 else s1\<lparr>posts := ?q # posts s\<rparr>)"
    by (simp add: prependPost_def sp f)
  show "stream_inv (prependPost r s)"
    using stream_invD(3) [OF f(1)] f(1) loaded_inv [OF f(1), of ?q "?q # posts s"]
    by (simp add: pp f(3-5) qid)
  show "heap_frame (st s) (st (prependPost r s))" "stream (prependPost r s) = stream s"
    "posts (prependPost r s) = (if ?q \<in> set (posts s) then posts s else ?q # posts s)"
    "om_get (imap (prependPost r s)) = (om_get (imap s))(post_id s r \<mapsto> ?q)"
    using f by (simp_all add: pp del: fun_upd_apply)
qed

section \<open>Creating posts from payloads\<close>

text \<open>
  A payload of the server: an object with a positive id and without the store's own markers.
\<close>

definition post_payload :: "jobj \<Rightarrow> bool" where
  "post_payload ob \<longleftrightarrow> om_wf ob \<and> om_get ob ''__type'' = None \<and> om_get ob ''__state'' = None \<and>
     num_of (pget ob ''id'') > 0"

abbreviation payload_id :: "jobj \<Rightarrow> int" where
  "payload_id ob \<equiv> num_of (pget ob ''id'')"

lemma post_payload_plain: "base_ok h \<Longrightarrow> post_payload ob \<Longrightarrow> plain_payload h ''post'' ob"
  by (simp add: post_payload_def plain_payload_def base_ok_def)

lemma num_pos_JNum: "num_of v > 0 \<Longrightarrow> v = JNum (num_of v)"
  by (cases v) auto

text \<open>Old records keep their ids and types when the store creates or refreshes a record.\<close>

definition grows :: "store \<Rightarrow> store \<Rightarrow> bool" where
  "grows h h' \<longleftrightarrow> (\<forall>q. q < next_ref h \<longrightarrow> pid h' q = pid h q \<and> post_ok h' q = post_ok h q)"

lemma heap_frame_grows: "heap_frame h h' \<Longrightarrow> grows h h'"
  by (simp add: grows_def heap_frame_keeps)

lemma grows_inv:
  assumes "stream_inv s" and "grows (st s) h" and "base_ok h"
  shows "stream_inv (s\<lparr>st := h\<rparr>)"
proof -
  have old: "pid h r = i \<and> post_ok h r \<and> i \<noteq> 0 \<and> pid (st s) r = i"
    if f: "om_get (imap s) i = Some r" for i r
    using filed_okD [OF stream_invD(2) [OF assms(1)] f] assms(2)
    by (auto simp: grows_def post_ok_def)
  have "filed_ok h (imap s)"
    using stream_invD(2) [OF assms(1)] old by (auto simp: filed_ok_def)
  moreover have "loaded_ok h (posts s) (imap s)"
    using stream_invD(3,4) [OF assms(1)] old by (metis loaded_ok_def)
  ultimately show ?thesis using assms(3) by (simp add: stream_inv_def)
qed

lemma createRecord_post:
  assumes b: "base_ok h" and pl: "post_payload ob" and c: "createRecord ''post'' ob h = (r, h')"
  shows "base_ok h'" "grows h h'" "post_ok h' r" "pid h' r = payload_id ob" "next_ref h \<le> next_ref h'"
proof -
  have pk: "primaryKey h ''post'' = ''id''" and so: "store_ok h" and mo: "munge_ok h"
    using b by (auto simp: base_ok_def)
  note plain = post_payload_plain [OF b pl]
  have pos: "payload_id ob > 0" using pl by (simp add: post_payload_def)
  note idv = num_pos_JNum [OF pos]
  have tr: "truthy (pget ob ''id'')" using idv pos by (metis truthy.simps(4) less_irrefl)
  have hp: "hydrate_payload ''post'' ob h = (r, h')"
    using c tr pk by (simp add: createRecord_def)
  have fr: "primaryKey h' = primaryKey h" "munge h' = munge h" "next_ref h \<le> next_ref h'"
    using createRecord_frame [OF c] by auto
  have so': "store_ok h'" using store_ok_createRecord [OF so mo plain] c by simp
  have fm: "fromMap h' ''post'' (pget ob ''id'') = Some r"
    using lookup_created [OF c] tr pk by simp
  have num: "number_ids h'"
  proof (cases "fromMap h ''post'' (pget ob ''id'')")
    case None
    then have bu: "build ''post'' ob h = (r, h')" using hp pk by (simp add: hydrate_payload_def)
    have "rprop h' r ''id'' = pget ob ''id''" using build_props(1) [OF mo plain bu] pk by simp
    then have new: "rprop h' r ''id'' = JNum (payload_id ob)" using idv by simp
    show ?thesis
      unfolding number_ids_def
    proof (intro allI impI)
      fix i q assume q: "fromMap h' ''post'' i = Some q"
      show "\<exists>n. rprop h' q ''id'' = JNum n"
      proof (cases "q = r")
        case False
        then have "fromMap h ''post'' i = Some q"
          using q fromMap_build [OF bu, of "''post''" i] pk by (simp split: if_splits)
        then show ?thesis
          using b build_frame(5) [OF bu False] by (simp add: base_ok_def number_ids_def rprop_def)
      qed (use new in simp)
    qed
  next
    case (Some e)
    have "rprop h' q ''id'' = rprop h q ''id''" for q
      using hydrate_existing_props [OF mo plain, of e "''id''"] Some hp pk
      by (cases "q = e") (auto simp: hydrate_payload_def Let_def rprop_def set_props_def)
    moreover have "fromMap h' = fromMap h" using Some hp pk by (auto simp: hydrate_payload_def Let_def)
    ultimately show ?thesis using b by (simp add: number_ids_def base_ok_def)
  qed
  show "base_ok h'"
    using so' fr mo pk num by (simp add: base_ok_def munge_ok_def)
  have "r < next_ref h'" "prop_key (rprop h' r ''id'') = prop_key (pget ob ''id'')" "rprop h' r ''__type'' = JStr ''post''"
    using so' fm fr pk unfolding store_ok_def by metis+
  moreover have key: "prop_key (pget ob ''id'') = show_int (payload_id ob)"
    by (rule trans [OF arg_cong [OF idv, of prop_key] prop_key.simps(4)])
  moreover obtain n where "rprop h' r ''id'' = JNum n" using num fm by (auto simp: number_ids_def)
  ultimately show "post_ok h' r" "pid h' r = payload_id ob"
    using key by (simp_all add: post_ok_def pid_def)
  show "next_ref h \<le> next_ref h'" by (rule fr(3))
  show "grows h h'"
  proof (cases "fromMap h ''post'' (pget ob ''id'')")
    case None
    then have "build ''post'' ob h = (r, h')" using hp pk by (simp add: hydrate_payload_def)
    note bf = build_frame [OF this]
    show ?thesis
      using bf(1,2) bf(5) by (simp add: grows_def pid_def post_ok_def rprop_def)
  next
    case (Some e)
    let ?ps = "changed_props (heap h e) (munge h ''post'' (om_delete ''id'' ob))"
    have e: "r = e" "h' = set_props e ?ps h"
      using hp pk Some by (auto simp: hydrate_payload_def Let_def)
    have ty: "rprop h e ''__type'' = JStr ''post''"
      using so Some unfolding store_ok_def by blast
    have "rprop h' e c = rprop h e c" if "c \<in> {''id'', ''__type''}" for c
      using hydrate_existing_props [OF mo plain, of e c] Some that hp pk by simp
    then have "keeps_record h h' q" for q
      using ty by (cases "q = e") (simp_all add: keeps_record_def e(2) rprop_def set_props_def)
    then have "heap_frame h h'"
      by (simp add: heap_frame_def e(2))
    then show ?thesis by (rule heap_frame_grows)
  qed
qed

lemma create_post_spec:
  assumes inv: "stream_inv s" and pl: "post_payload ob"
  obtains r s1 where "create_post ob s = (r, s1)" "stream_inv s1" "post_ok (st s1) r"
    "post_id s1 r = payload_id ob" "post_id s1 r \<noteq> 0" "grows (st s) (st s1)" "next_ref (st s) \<le> next_ref (st s1)"
    "posts s1 = posts s" "imap s1 = imap s" "stream s1 = stream s" "s1 = s\<lparr>st := st s1\<rparr>"
proof -
  obtain r h where c: "createRecord ''post'' ob (st s) = (r, h)" by force
  note cp = createRecord_post [OF stream_invD(1) [OF inv] pl c]
  have "payload_id ob \<noteq> 0" using pl by (simp add: post_payload_def)
  then show ?thesis
    using that [of r "s\<lparr>st := h\<rparr>"] grows_inv [OF inv cp(2,1)] cp c by (simp add: create_post_def)
qed

end
