(* ===== verification/PostStaging.thy ===== *)
theory PostStaging
  imports PostStreamInv
begin

text \<open>
  Staging a new post: \<open>stagePost\<close>, then the save of the composer, then \<open>commitPost\<close> or
  \<open>undoPost\<close> (\<open>models/post-stream.js\<close>, called by \<open>models/composer.js\<close>). The lemmas show that
  undoing restores the stream, that committing replaces the staged id by the saved one, and what
  happens when the saved post arrives over the message bus before the commit.
\<close>

section \<open>A draft post\<close>

text \<open>
  A draft is a record of type post that has no id yet, so it is neither loaded nor filed.
\<close>

definition draft :: "pstream \<Rightarrow> ref \<Rightarrow> bool" where
  "draft s r \<longleftrightarrow> post_ok (st s) r \<and> \<not> truthy (rprop (st s) r ''id'')"

lemma falsy_num: "\<not> truthy v \<Longrightarrow> num_of v = 0"
  by (cases v) auto

lemma draft_unfiled:
  assumes "stream_inv s" and "draft s r"
  shows "r \<notin> set (posts s)" "om_get (imap s) i \<noteq> Some r" "fromMap (st s) t k \<noteq> Some r"
proof -
  have zero: "post_id s r = 0" using assms(2) by (simp add: draft_def pid_def falsy_num)
  show im: "om_get (imap s) i \<noteq> Some r" for i
    using filed_okD [OF stream_invD(2) [OF assms(1)], of i r] zero by auto
  show "r \<notin> set (posts s)"
    using stream_invD(4) [OF assms(1), of r] im by blast
  show "fromMap (st s) t k \<noteq> Some r"
  proof
    assume f: "fromMap (st s) t k = Some r"
    have ok: "truthy (rprop (st s) r (primaryKey (st s) t))" "rprop (st s) r ''__type'' = JStr t"
      using stream_invD(1) [OF assms(1)] f by (auto simp: base_ok_def store_ok_def)
    then have "t = ''post''" using assms(2) by (simp add: draft_def post_ok_def)
    then have "primaryKey (st s) t = ''id''"
      using stream_invD(1) [OF assms(1)] by (simp add: base_ok_def)
    then show False using ok(1) assms(2) by (simp add: draft_def)
  qed
qed

text \<open>Writing properties of a record that is not filed keeps the invariant.\<close>

lemma rprop_set_props_other [simp]: "q \<noteq> r \<Longrightarrow> rprop (set_props r ps h) q k = rprop h q k"
  by (simp add: rprop_def set_props_def)

lemma pid_set_props_other [simp]:
  "q \<noteq> r \<Longrightarrow> pid (set_props r ps h) q = pid h q" "q \<noteq> r \<Longrightarrow> post_ok (set_props r ps h) q = post_ok h q"
  by (simp_all add: pid_def post_ok_def)

lemma base_ok_unfiled:
  assumes "base_ok h" and fm: "\<And>t k. fromMap h t k \<noteq> Some r"
  shows "base_ok (set_props r ps h)"
proof -
  have "rprop (set_props r ps h) q c = rprop h q c" if "fromMap h t k = Some q" for t k q c
    using that fm [of t k] by (cases "q = r") auto
  then have "store_ok (set_props r ps h)" "number_ids (set_props r ps h)"
    using assms(1) unfolding base_ok_def store_ok_def number_ids_def by (simp_all add: set_props_frame)
  then show ?thesis using assms(1) by (simp add: base_ok_def munge_ok_def)
qed

lemma unfiled_write_inv:
  assumes inv: "stream_inv s" and "r \<notin> set (posts s)" and im: "\<And>i. om_get (imap s) i \<noteq> Some r"
    and fm: "\<And>t k. fromMap (st s) t k \<noteq> Some r"
  shows "stream_inv (on_store (set_props r ps) s)"
proof -
  let ?h = "set_props r ps (st s)"
  have "base_ok ?h" by (rule base_ok_unfiled [OF stream_invD(1) [OF inv] fm])
  moreover have "filed_ok ?h (imap s)"
    unfolding filed_ok_def
  proof (intro conjI allI impI)
    show "om_wf (imap s)" using stream_invD(2) [OF inv] by (simp add: filed_ok_def)
    fix i q assume q: "om_get (imap s) i = Some q"
    then have "q \<noteq> r" using im by blast
    then show "i \<noteq> 0" "pid ?h q = i" "post_ok ?h q"
      using filed_okD [OF stream_invD(2) [OF inv] q] by (simp_all add: pid_def post_ok_def)
  qed
  moreover have "loaded_ok ?h (posts s) (imap s)"
    unfolding loaded_ok_def
  proof (intro conjI ballI)
    show "distinct (posts s)" by (rule stream_invD(3) [OF inv])
    fix q assume "q \<in> set (posts s)"
    moreover from this have "q \<noteq> r" using assms(2) by blast
    ultimately show "om_get (imap s) (pid ?h q) = Some q"
      using stream_invD(4) [OF inv, of q] by (simp add: pid_def)
  qed
  ultimately show ?thesis by (simp add: stream_inv_def on_store_def)
qed

section \<open>The staged state\<close>

definition staging_props :: "pstream \<Rightarrow> jsval \<Rightarrow> jobj" where
  "staging_props s now =
     [(''post_number'', JNum (t_highest_post_number (topic s) + 1)),
      (''topic'', JRef (t_ref (topic s))), (''created_at'', now), (''id'', JNum (-1))]"

definition staged_topic :: "pstream \<Rightarrow> jsval \<Rightarrow> jsval \<Rightarrow> pstream" where
  "staged_topic s user now = on_topic (\<lambda>t. t\<lparr>t_posts_count := t_posts_count t + 1,
     t_last_posted_at := now, t_last_poster := user,
     t_highest_post_number := t_highest_post_number t + 1\<rparr>) (s\<lparr>stagingPost := True\<rparr>)"

definition before_append :: "ref \<Rightarrow> jsval \<Rightarrow> jsval \<Rightarrow> pstream \<Rightarrow> pstream" where
  "before_append post user now s = on_store (set_props post (staging_props s now)) (staged_topic s user now)"

lemma stagePost_unfold:
  "stagePost post user now s =
     (if stagingPost s then (''alreadyStaging'', s)
      else if loadedAllPosts (before_append post user now s)
      then (''staged'', append_at_end post (before_append post user now s))
      else (''offScreen'', before_append post user now s))"
  by (simp add: stagePost_def before_append_def staged_topic_def staging_props_def on_topic_def Let_def)

lemma staged_topic_fields [simp]:
  "st (staged_topic s u n) = st s" "posts (staged_topic s u n) = posts s" "imap (staged_topic s u n) = imap s"
  "stream (staged_topic s u n) = stream s" "stagingPost (staged_topic s u n)"
  "topic (staged_topic s u n) = (topic s)\<lparr>t_posts_count := t_posts_count (topic s) + 1,
     t_last_posted_at := n, t_last_poster := u, t_highest_post_number := t_highest_post_number (topic s) + 1\<rparr>"
  by (simp_all add: staged_topic_def on_topic_def)

lemma before_append_fields [simp]:
  "posts (before_append p u n s) = posts s" "imap (before_append p u n s) = imap s"
  "stream (before_append p u n s) = stream s" "stagingPost (before_append p u n s)"
  "topic (before_append p u n s) = topic (staged_topic s u n)"
  "st (before_append p u n s) = set_props p (staging_props s n) (st s)"
  by (simp_all add: before_append_def on_store_def)

lemma staged_props:
  "rprop (set_props p (staging_props s n) h) p ''id'' = JNum (-1)"
  "rprop (set_props p (staging_props s n) h) p ''__type'' = rprop h p ''__type''"
  "rprop (set_props p (staging_props s n) h) p ''post_number'' = JNum (t_highest_post_number (topic s) + 1)"
  by (simp_all add: rprop_def set_props_def staging_props_def)

lemma before_append_inv:
  assumes "stream_inv s" and "draft s p"
  shows "stream_inv (before_append p u n s)" "post_ok (st (before_append p u n s)) p"
    "post_id (before_append p u n s) p = -1"
proof -
  have "stream_inv (staged_topic s u n)" using assms(1) by (simp add: stream_inv_def)
  then show "stream_inv (before_append p u n s)"
    unfolding before_append_def using draft_unfiled [OF assms] by (intro unfiled_write_inv) simp_all
  show "post_ok (st (before_append p u n s)) p" "post_id (before_append p u n s) p = -1"
    using assms(2) by (simp_all add: draft_def post_ok_def pid_def staged_props)
qed

text \<open>
  Appending the staged post does not touch the topic: its number is the highest one already.
\<close>

lemma topic_on_store [simp]: "topic (on_store f s) = topic s"
  by (simp add: on_store_def)

lemma initUserModels_fields [simp]:
  "topic (initUserModels r s) = topic s" "stagingPost (initUserModels r s) = stagingPost s"
  "post_number (initUserModels r s) q = post_number s q"
  "rprop (st (initUserModels r s)) q ''topic_id'' = rprop (st s) q ''topic_id''"
  by (simp_all add: initUserModels_def on_store_def pnumber_def split: jsval.split)

lemma appendPost_topic:
  assumes "post_number s r \<le> t_highest_post_number (topic s) \<or> post_number s r = 0"
  shows "topic (appendPost r s) = topic s" "stagingPost (appendPost r s) = stagingPost s"
proof -
  have "raise_highest r (initUserModels r s) = initUserModels r s"
    using assms by (auto simp: raise_highest_def Let_def)
  then show "topic (appendPost r s) = topic s" "stagingPost (appendPost r s) = stagingPost s"
    by (auto simp: appendPost_def storePost_def Let_def on_store_def split: option.split)
qed

text \<open>The state after staging, whichever branch was taken.\<close>

definition staged_end :: "pstream \<Rightarrow> ref \<Rightarrow> jsval \<Rightarrow> jsval \<Rightarrow> bool" where
  "staged_end s p u n = loadedAllPosts (before_append p u n s)"

lemma stagePost_state:
  assumes inv: "stream_inv s" and d: "draft s p" and free: "om_get (imap s) (-1) = None" "-1 \<notin> set (stream s)"
    and idle: "\<not> stagingPost s" and s1_def: "s1 = snd (stagePost p u n s)"
  shows "stream_inv s1" "stagingPost s1" "topic s1 = topic (staged_topic s u n)"
    "stream s1 = stream s @ (if staged_end s p u n then [-1] else [])"
    "posts s1 = posts s @ (if staged_end s p u n then [p] else [])"
    "om_get (imap s1) = (om_get (imap s))(-1 := (if staged_end s p u n then Some p else None))"
    "post_ok (st s1) p" "post_id s1 p = -1"
    "heap_frame (set_props p (staging_props s n) (st s)) (st s1)"
proof -
  let ?b = "before_append p u n s"
  note b = before_append_inv [OF inv d, of u n]
  have fa: "filed_as ?b p = p" using b(3) free(1) by (simp add: filed_as_def)
  have num: "post_number ?b p \<le> t_highest_post_number (topic ?b) \<or> post_number ?b p = 0"
    by (simp add: pnumber_def staged_props)
  have nz: "post_id ?b p \<noteq> 0" using b(3) by simp
  note ap = appendPost_spec [OF b(1,2) nz]
  have pidap: "post_id (appendPost p ?b) p = -1"
    using heap_frame_keeps(3) [OF ap(2)] b(3) by simp
  have idem: "(om_get (imap s))(-1 := None) = om_get (imap s)"
    using free(1) by (simp add: fun_upd_idem)
  show "stream_inv s1" "stagingPost s1" "topic s1 = topic (staged_topic s u n)"
    "stream s1 = stream s @ (if staged_end s p u n then [-1] else [])"
    "posts s1 = posts s @ (if staged_end s p u n then [p] else [])"
    "om_get (imap s1) = (om_get (imap s))(-1 := (if staged_end s p u n then Some p else None))"
    "post_ok (st s1) p" "post_id s1 p = -1"
    "heap_frame (set_props p (staging_props s n) (st s)) (st s1)"
    using idle ap b free draft_unfiled(1) [OF inv d] appendPost_topic [OF num] pidap
      heap_frame_keeps(4) [OF ap(2)]
    by (cases "staged_end s p u n";
        simp add: s1_def stagePost_unfold staged_end_def append_at_end_def push_id_def Let_def
          push_new_def stream_inv_def fa idem)+
qed

section \<open>Undo\<close>

lemma undoPost_fields [simp]:
  "st (undoPost p s) = st s" "stream (undoPost p s) = filter (\<lambda>i. i \<noteq> -1) (stream s)"
  "posts (undoPost p s) = filter (\<lambda>q. q \<noteq> p) (posts s)" "imap (undoPost p s) = om_delete (-1) (imap s)"
  "stagingPost (undoPost p s) = False"
  "topic (undoPost p s) = (topic s)\<lparr>t_highest_post_number := t_highest_post_number (topic s) - 1,
     t_posts_count := t_posts_count (topic s) - 1\<rparr>"
  by (simp_all add: undoPost_def on_topic_def)

lemma filter_neq_id: "x \<notin> set xs \<Longrightarrow> filter (\<lambda>y. y \<noteq> x) xs = xs"
  by (auto simp: filter_id_conv)

lemma filed_ok_delete: "filed_ok h im \<Longrightarrow> filed_ok h (om_delete i im)"
  by (auto simp: filed_ok_def)

lemma undo_inv:
  assumes "stream_inv s" and "\<And>r. om_get (imap s) (-1) = Some r \<Longrightarrow> r = p"
  shows "stream_inv (undoPost p s)"
proof -
  have "loaded_ok (st s) (filter (\<lambda>q. q \<noteq> p) (posts s)) (om_delete (-1) (imap s))"
    using stream_invD(3,4) [OF assms(1)] assms(2) by (fastforce simp: loaded_ok_def)
  then show ?thesis
    using stream_invD(1,2) [OF assms(1)] by (simp add: stream_inv_def filed_ok_delete)
qed

lemma undone_state:
  assumes inv: "stream_inv s" and d: "draft s p"
    and free: "om_get (imap s) (-1) = None" "-1 \<notin> set (stream s)" and idle: "\<not> stagingPost s"
    and s2_def: "s2 = undoPost p (snd (stagePost p user now s))"
  shows "stream s2 = stream s \<and> posts s2 = posts s \<and> om_get (imap s2) = om_get (imap s) \<and>
    \<not> stagingPost s2 \<and> t_highest_post_number (topic s2) = t_highest_post_number (topic s) \<and>
    t_posts_count (topic s2) = t_posts_count (topic s) \<and> stream_inv s2"
proof -
  note s1 = stagePost_state [OF inv d free idle refl, where u = user and n = now]
  have "stream_inv s2"
    unfolding s2_def using s1(6) by (intro undo_inv [OF s1(1)]) (auto split: if_splits)
  moreover have "om_get (imap s2) = om_get (imap s)"
    using s1(6) free(1) by (auto simp: s2_def fun_upd_idem)
  moreover have "stream s2 = stream s" "posts s2 = posts s"
    using s1(4,5) free(2) draft_unfiled(1) [OF inv d] by (auto simp: s2_def filter_neq_id)
  ultimately show ?thesis
    using s1(3) by (simp add: s2_def)
qed

text \<open>
  C5. \<open>undoPost\<close> takes back what \<open>stagePost\<close> did: the stream, the loaded posts, the identity map,
  the topic's highest post number and its post count are again what they were, no post is being
  staged, and the invariant holds.
\<close>

theorem undo_stage_roundtrip:
  assumes inv: "stream_inv s" and d: "draft s p"
    and free: "om_get (imap s) (-1) = None" "-1 \<notin> set (stream s)" and idle: "\<not> stagingPost s"
    and s2_def: "s2 = undoPost p (snd (stagePost p user now s))"
  shows "stream s2 = stream s \<and> posts s2 = posts s \<and> om_get (imap s2) = om_get (imap s) \<and>
    \<not> stagingPost s2 \<and> t_highest_post_number (topic s2) = t_highest_post_number (topic s) \<and>
    t_posts_count (topic s2) = t_posts_count (topic s) \<and> stream_inv s2"
  using undone_state [OF assms] .

section \<open>Commit\<close>

lemma appendPost_fresh:
  assumes ok: "post_ok (st s) p" and k: "post_id s p = k" "k \<noteq> 0" "om_get (imap s) k = None"
  shows "heap_frame (st s) (st (appendPost p s))" "posts (appendPost p s) = push_new p (posts s)"
    "imap (appendPost p s) = om_set k p (imap s)" "stream (appendPost p s) = stream s"
proof -
  let ?s0 = "initUserModels p s"
  have q0: "quiet s ?s0" by (rule quiet_init [OF ok])
  note ids0 = quiet_ids [OF q0]
  let ?s1 = "(on_store (set_prop p ''topic'' (JRef (t_ref (topic s)))) (raise_highest p ?s0))
      \<lparr>imap := om_set k p (imap s)\<rparr>"
  have im0: "imap ?s0 = imap s" "posts ?s0 = posts s" "stream ?s0 = stream s"
    using q0 by (simp_all add: quiet_def)
  have sp: "storePost (Some p) ?s0 = (Some p, ?s1)"
    using k ids0 im0 by (simp add: storePost_def Let_def)
  have frame: "heap_frame (st s) (st ?s1)"
    using heap_frame_trans [of "st s" "st ?s0"] q0 heap_frame_set [of "st ?s0" p "''topic''"] ok ids0
    by (simp add: quiet_def on_store_def)
  have "appendPost p s = ?s1\<lparr>posts := push_new p (posts s)\<rparr> \<or>
      appendPost p s = ?s1\<lparr>posts := push_new p (posts s), lastAppended := Some p\<rparr>"
    using im0 by (simp add: appendPost_def sp Let_def on_store_def)
  then have eqs: "st (appendPost p s) = st ?s1" "stream (appendPost p s) = stream s"
      "posts (appendPost p s) = push_new p (posts s)" "imap (appendPost p s) = om_set k p (imap s)"
    using im0 by (auto simp: on_store_def)
  show "heap_frame (st s) (st (appendPost p s))" "posts (appendPost p s) = push_new p (posts s)"
    "imap (appendPost p s) = om_set k p (imap s)" "stream (appendPost p s) = stream s"
    using frame eqs by simp_all
qed

text \<open>
  The save of the staged post: \<open>RestModel._saveNew\<close> (\<open>models/rest.js\<close>) writes the munged
  response into the record and marks it as created. A response without a payload, as for a queued post,
  is \<open>answer_saved\<close> of the composer.
\<close>

definition saveNew_finish :: "ref \<Rightarrow> jobj \<Rightarrow> pstream \<Rightarrow> pstream" where
  "saveNew_finish p payload s =
     on_store (\<lambda>h. set_prop p ''__state'' (JStr ''created'')
                 (set_props p (munge h ''post'' payload) h)) s"

lemma set_prop_as_props: "set_prop r k v h = set_props r [(k, v)] h"
  by (simp add: set_prop_def set_props_def)

lemma saveNew_fields [simp]:
  "posts (saveNew_finish p pl s) = posts s" "imap (saveNew_finish p pl s) = imap s"
  "stream (saveNew_finish p pl s) = stream s" "topic (saveNew_finish p pl s) = topic s"
  "isMegaTopic (saveNew_finish p pl s) = isMegaTopic s"
  by (simp_all add: saveNew_finish_def on_store_def)

lemma saveNew_st: "st (saveNew_finish p pl s) = set_prop p ''__state'' (JStr ''created'')
    (set_props p (munge (st s) ''post'' pl) (st s))"
  by (simp add: saveNew_finish_def on_store_def)

definition saved_payload :: "pstream \<Rightarrow> int \<Rightarrow> jobj \<Rightarrow> bool" where
  "saved_payload s k pl \<longleftrightarrow> om_wf pl \<and> om_get pl ''id'' = Some (JNum k) \<and> om_get pl ''__type'' = None \<and>
     om_get (munge (st s) ''post'' pl) ''topic_id'' = Some (JNum (t_id (topic s)))"

lemma saveNew_props:
  assumes "base_ok (st s)" and pl: "saved_payload s k pl"
  shows "rprop (st (saveNew_finish p pl s)) p ''id'' = JNum k"
    "rprop (st (saveNew_finish p pl s)) p ''__type'' = rprop (st s) p ''__type''"
    "rprop (st (saveNew_finish p pl s)) p ''topic_id'' = JNum (t_id (topic s))"
    "q \<noteq> p \<Longrightarrow> rprop (st (saveNew_finish p pl s)) q c = rprop (st s) q c"
proof -
  let ?m = "munge (st s) ''post'' pl"
  have mo: "munge_ok (st s)" and pk: "primaryKey (st s) ''post'' = ''id''"
    using assms(1) by (auto simp: base_ok_def)
  have wf: "om_wf ?m" using munge_okD(1) [OF mo] pl by (simp add: saved_payload_def)
  have get: "om_get ?m ''id'' = Some (JNum k)" "om_get ?m ''__type'' = None"
      "om_get ?m ''topic_id'' = Some (JNum (t_id (topic s)))"
    using munge_okD(2) [OF mo, of pl _ "''post''"] pl pk by (auto simp: saved_payload_def)
  have p: "rprop (st (saveNew_finish p pl s)) p c =
      (if c = ''__state'' then JStr ''created'' else pget (assign (heap (st s) p) ?m) c)" for c
    by (simp add: saveNew_st) (simp add: rprop_def set_props_def)
  show "rprop (st (saveNew_finish p pl s)) p ''id'' = JNum k"
    "rprop (st (saveNew_finish p pl s)) p ''__type'' = rprop (st s) p ''__type''"
    "rprop (st (saveNew_finish p pl s)) p ''topic_id'' = JNum (t_id (topic s))"
    unfolding p using get by (simp_all add: pget_assign [OF wf] rprop_def) (simp_all add: pget_def)
  show "rprop (st (saveNew_finish p pl s)) q c = rprop (st s) q c" if "q \<noteq> p"
    using that by (simp add: saveNew_st)
qed

lemma assign_append: "assign ob (xs @ ys) = assign (assign ob xs) ys"
  by (simp add: assign_def)

lemma set_props_append: "set_props r ys (set_props r xs h) = set_props r (xs @ ys) h"
  by (simp add: set_props_def assign_append)

text \<open>What the commit needs of a save: properties were written into the post, its id among them.\<close>

definition saved_as :: "pstream \<Rightarrow> ref \<Rightarrow> int \<Rightarrow> pstream \<Rightarrow> bool" where
  "saved_as s p k s2 \<longleftrightarrow> (\<exists>ps. s2 = on_store (set_props p ps) s) \<and> rprop (st s2) p ''id'' = JNum k \<and>
     rprop (st s2) p ''__type'' = rprop (st s) p ''__type'' \<and>
     rprop (st s2) p ''topic_id'' = JNum (t_id (topic s))"

lemma saved_asD:
  assumes "saved_as s p k s2"
  shows "rprop (st s2) p ''id'' = JNum k" "rprop (st s2) p ''__type'' = rprop (st s) p ''__type''"
    "rprop (st s2) p ''topic_id'' = JNum (t_id (topic s))" "next_ref (st s2) = next_ref (st s)"
    "posts s2 = posts s" "imap s2 = imap s" "stream s2 = stream s" "topic s2 = topic s"
    "isMegaTopic s2 = isMegaTopic s" "\<exists>ps. st s2 = set_props p ps (st s)"
    "q \<noteq> p \<Longrightarrow> pid (st s2) q = pid (st s) q \<and> post_ok (st s2) q = post_ok (st s) q"
  using assms by (auto simp: saved_as_def on_store_def)

lemma saved_as_write:
  assumes saved: "saved_as s p k s2" and "c \<notin> {''id'', ''__type'', ''topic_id''}"
  shows "saved_as s p k (on_store (set_prop p c v) s2)"
proof -
  obtain ps where "s2 = on_store (set_props p ps) s" using saved by (auto simp: saved_as_def)
  then have "\<exists>ps'. on_store (set_prop p c v) s2 = on_store (set_props p ps') s"
    by (intro exI [of _ "ps @ [(c, v)]"]) (simp add: on_store_def set_prop_as_props set_props_append)
  moreover have "rprop (st (on_store (set_prop p c v) s2)) p k' = rprop (st s2) p k'" if "c \<noteq> k'" for k'
    using that by (simp add: on_store_def)
  ultimately show ?thesis
    using saved_asD(1-3) [OF saved] assms(2) unfolding saved_as_def by simp
qed

lemma saveNew_saved:
  assumes "base_ok (st s)" and "saved_payload s k pl"
  shows "saved_as s p k (saveNew_finish p pl s)"
proof -
  have "\<exists>ps. saveNew_finish p pl s = on_store (set_props p ps) s"
    by (intro exI [of _ "munge (st s) ''post'' pl @ [(''__state'', JStr ''created'')]"])
      (simp add: saveNew_finish_def on_store_def set_prop_as_props set_props_append)
  then show ?thesis using saveNew_props(1-3) [OF assms] unfolding saved_as_def by simp
qed

lemma loadedAll_staged:
  assumes "\<not> isMegaTopic s" and "stream s = xs @ [-1]" and "posts s \<noteq> []"
  shows "loadedAllPosts s"
  using assms by (simp add: loadedAllPosts_def hasLoadedData_def hasPosts_def filteredPostsCount_def
      lastPostId_def last_opt_def)

lemma appendPost_isMega [simp]: "isMegaTopic (appendPost r s) = isMegaTopic s"
  by (auto simp: appendPost_def storePost_def Let_def on_store_def raise_highest_def initUserModels_def
      split: option.split jsval.split)

lemma stagePost_isMega [simp]: "isMegaTopic (snd (stagePost p u n s)) = isMegaTopic s"
  by (simp add: stagePost_def append_at_end_def push_id_def on_store_def on_topic_def Let_def)

lemma staged_end_msg: "stagePost p u n s = (''staged'', s1) \<Longrightarrow> staged_end s p u n \<and> \<not> stagingPost s"
  by (auto simp: stagePost_unfold staged_end_def split: if_splits)

lemma commit_state:
  assumes inv: "stream_inv s" and d: "draft s p" and mega: "\<not> isMegaTopic s"
    and free: "om_get (imap s) (-1) = None" "-1 \<notin> set (stream s)"
    and staged: "stagePost p user now s = (''staged'', s1)"
    and saved: "saved_as s1 p k s2" and k: "k > 0" "om_get (imap s) k = None" "k \<notin> set (stream s)"
    and s3_def: "s3 = commitPost p s2"
  shows "stream s3 = stream s @ [k]" "posts s3 = posts s @ [p]" "post_id s3 p = k" "post_ok (st s3) p"
    "imap s3 = om_delete (-1) (om_set k p (imap s1))" "om_get (imap s3) = (om_get (imap s))(k \<mapsto> p)"
    "\<not> stagingPost s3" "heap_frame (st s2) (st s3)"
proof -
  have e: "staged_end s p user now" and idle: "\<not> stagingPost s"
    using staged_end_msg [OF staged] by auto
  note s1 = stagePost_state [OF inv d free idle refl, where u = user and n = now, unfolded staged snd_conv]
  note sv = saved_asD [OF saved]
  have ok2: "post_ok (st s2) p"
    using s1(7) sv(2) by (simp add: post_ok_def sv(4))
  have id2: "post_id s2 p = k" using sv(1) by (simp add: pid_def)
  have im2: "om_get (imap s2) k = None" using s1(6) k(1,2) by (simp add: sv(5-9))
  have all: "loadedAllPosts s2"
    using stagePost_isMega [of p user now s] mega s1(4,5) e
    by (intro loadedAll_staged [where xs = "stream s"]) (simp_all add: staged sv(5-9))
  note ap = appendPost_fresh [OF ok2 id2 _ im2]
  have knz: "k \<noteq> 0" "k \<noteq> -1" using k(1) by auto
  have id3: "post_id (appendPost p s2) p = k"
    using heap_frame_keeps(3) [OF ap(1)] knz id2 by simp
  have c: "st s3 = st (appendPost p s2)" "stream s3 = stream s @ [k]" "posts s3 = posts s @ [p]"
      "imap s3 = om_delete (-1) (om_set k p (imap s1))" "stagingPost s3 = False"
    using ap knz id3 all sv(3) s1(4,5) e k(3) free(2)
    by (simp_all add: s3_def commitPost_def append_at_end_def push_id_def Let_def push_new_def
        filter_neq_id sv(5-9))
  have im3: "om_get (imap s3) = (om_get (imap s))(k \<mapsto> p)"
    using c(4) s1(6) free(1) knz(2) by (auto simp: fun_eq_iff)
  show "stream s3 = stream s @ [k]" "posts s3 = posts s @ [p]" "\<not> stagingPost s3"
    "imap s3 = om_delete (-1) (om_set k p (imap s1))" using c by simp_all
  show "om_get (imap s3) = (om_get (imap s))(k \<mapsto> p)" by (rule im3)
  show "heap_frame (st s2) (st s3)" using ap(1) knz by (simp add: c(1))
  show "post_id s3 p = k" "post_ok (st s3) p"
    using id3 ok2 heap_frame_keeps(4) [OF ap(1)] knz by (simp_all add: c(1))
qed

lemma commit_inv:
  assumes inv: "stream_inv s" and d: "draft s p" and mega: "\<not> isMegaTopic s"
    and free: "om_get (imap s) (-1) = None" "-1 \<notin> set (stream s)"
    and staged: "stagePost p user now s = (''staged'', s1)"
    and saved: "saved_as s1 p k s2" and k: "k > 0" "om_get (imap s) k = None" "k \<notin> set (stream s)"
    and s3_def: "s3 = commitPost p s2"
  shows "stream_inv s3"
proof -
  note c = commit_state [OF assms]
  have e: "staged_end s p user now" and idle: "\<not> stagingPost s"
    using staged_end_msg [OF staged] by auto
  note s1 = stagePost_state [OF inv d free idle refl, where u = user and n = now, unfolded staged snd_conv]
  note sv = saved_asD [OF saved]
  have unfiled: "fromMap (st s1) t i \<noteq> Some p" for t i
    using draft_unfiled(3) [OF inv d, of t i] s1(9)
    by (simp add: heap_frame_def fromMap_def by_type_def set_props_def)
  have "base_ok (st s2)"
    using base_ok_unfiled [OF stream_invD(1) [OF s1(1)] unfiled] sv(10) by metis
  then have base: "base_ok (st s3)" by (rule base_ok_frame [OF _ c(8)])
  have other: "post_id s3 q = post_id s q \<and> post_ok (st s3) q = post_ok (st s) q" if "q \<noteq> p" for q
    using that heap_frame_keeps(3,4) [OF c(8)] heap_frame_keeps(3,4) [OF s1(9)] sv(11) [OF that]
    by simp
  have np: "q \<noteq> p" if "om_get (imap s) i = Some q" for i q
    using that draft_unfiled(2) [OF inv d, of i] by blast
  have "om_wf (imap s3)"
    using stream_invD(2) [OF s1(1)] by (auto simp: c(5) filed_ok_def)
  then have "filed_ok (st s3) (imap s3)"
    using filed_okD [OF stream_invD(2) [OF inv]] np other c(3,4) k(1)
    by (simp add: filed_ok_def c(6))
  moreover have "loaded_ok (st s3) (posts s3) (imap s3)"
    unfolding loaded_ok_def c(2)
  proof (intro conjI ballI)
    show "distinct (posts s @ [p])"
      using stream_invD(3) [OF inv] draft_unfiled(1) [OF inv d] by simp
    fix q assume "q \<in> set (posts s @ [p])"
    then consider "q = p" | "q \<in> set (posts s)" "q \<noteq> p" by auto
    then show "om_get (imap s3) (post_id s3 q) = Some q"
    proof cases
      case 2
      then have "om_get (imap s) (post_id s q) = Some q" using stream_invD(4) [OF inv] by blast
      then show ?thesis using other [OF 2(2)] k(2) by (auto simp: c(6))
    qed (simp add: c(6,3))
  qed
  ultimately show ?thesis
    using base by (simp add: stream_inv_def)
qed

text \<open>
  C2. Committing a staged post: after the post is staged at the end of the stream and its save
  answers with the id \<open>k\<close>, \<open>commitPost\<close> leaves \<open>k\<close> where the staged id was, the post loaded once
  and filed under \<open>k\<close>, no staged id anywhere, and the invariant holds again.
\<close>

theorem commit_after_stage:
  assumes inv: "stream_inv s" and d: "draft s p" and mega: "\<not> isMegaTopic s"
    and free: "om_get (imap s) (-1) = None" "-1 \<notin> set (stream s)"
    and staged: "stagePost p user now s = (''staged'', s1)"
    and pl: "saved_payload s1 k pl" and k: "k > 0" "om_get (imap s) k = None" "k \<notin> set (stream s)"
    and s3_def: "s3 = commitPost p (saveNew_finish p pl s1)"
  shows "stream s3 = stream s @ [k] \<and> posts s3 = posts s @ [p] \<and> post_id s3 p = k \<and>
    om_get (imap s3) = (om_get (imap s))(k \<mapsto> p) \<and> \<not> stagingPost s3 \<and> stream_inv s3"
proof -
  have "stream_inv s1"
    using stagePost_state(1) [OF inv d free, of s1 user now] staged_end_msg [OF staged] by (simp add: staged)
  note saved = saveNew_saved [OF stream_invD(1) [OF this] pl]
  show ?thesis
    using commit_state [OF inv d mega free staged saved k s3_def]
      commit_inv [OF inv d mega free staged saved k s3_def] by simp
qed

text \<open>
  When the saved post is already filed under another record (it arrived over the message
  bus while the staged post was being saved), \<open>commitPost\<close> keeps both records loaded: the id is
  shown twice.
\<close>

theorem commit_after_bus_duplicates:
  assumes "p \<in> set (posts s)" and "q \<in> set (posts s)" and "p \<noteq> q"
    and "post_id s p = k" and "post_id s q = k" and "k \<noteq> 0" and "om_get (imap s) k = Some q"
    and "post_ok (st s) p" and "post_ok (st s) q" and "base_ok (st s)"
    and s'_def: "s' = commitPost p s"
  shows "p \<in> set (posts s') \<and> q \<in> set (posts s') \<and> post_id s' p = k \<and> post_id s' q = k"
proof -
  let ?s0 = "initUserModels p s"
  have q0: "quiet s ?s0" by (rule quiet_init [OF assms(8)])
  note ids0 = quiet_ids [OF q0]
  have im0: "imap ?s0 = imap s" "posts ?s0 = posts s"
    using q0 by (simp_all add: quiet_def)
  let ?f = "\<lambda>h. h\<lparr>heap := (heap h)(q := updateFromPost (plugin_props ?s0) (heap h p) (heap h q))\<rparr>"
  have frame: "heap_frame (st ?s0) (?f (st ?s0))"
    using assms ids0 by (intro copy_frame) simp_all
  let ?s1 = "on_store ?f (raise_highest p ?s0)"
  have sp: "storePost (Some p) ?s0 = (Some q, ?s1)"
    using assms ids0 im0 by (simp add: storePost_def Let_def)
  have "st (appendPost p s) = ?f (st ?s0)" "posts (appendPost p s) = posts s"
    using assms(2) im0 by (simp_all add: appendPost_def sp Let_def on_store_def push_new_def)
  then have "posts (appendPost p s) = posts s" "post_id (appendPost p s) = post_id s"
    using heap_frame_keeps(3) [OF frame] ids0 by simp_all
  then have "posts s' = posts s" "post_id s' = post_id s"
    by (simp_all add: s'_def commitPost_def append_at_end_def push_id_def Let_def)
  then show ?thesis using assms by simp
qed

section \<open>A concrete run\<close>

definition demo_topic :: topic where
  "demo_topic = \<lparr>t_ref = 1000, t_id = 5, t_chunk_size = 2, t_highest_post_number = 1, t_posts_count = 1,
     t_last_posted_at = JNull, t_last_poster = JNull, t_suggested = None, t_user_badges = [],
     t_errorLoading = False, t_errorTitle = JNull, t_errorHtml = JNull, t_errorMessage = JNull,
     t_noRetry = False\<rparr>"

definition empty_stream :: "int list \<Rightarrow> pstream" where
  "empty_stream ids = \<lparr>st = demo_store, topic = demo_topic, stream = ids, posts = [], imap = [],
     filter_name = None, userFilters = [], filterRepliesToPostNumber = 0, filterUpwardsPostID = 0,
     isMegaTopic = False, lastId = 0, lastAppended = None, loaded = True, loadingAbove = False,
     loadingBelow = False, loadingFilter = False, loadingLastPost = False, loadingNearPost = None,
     stagingPost = False, appendingPlaceholders = 0, timelineLookup = [], gapsOf = None,
     batches = [], loadingPostIds = None, ignored_users = [], last_edit_click = None,
     shown_revisions = [], own_highest_post_number = None, plugin_props = [], user_record = (\<lambda>u. u)\<rparr>"

definition demo_payload :: "int \<Rightarrow> int \<Rightarrow> jobj" where
  "demo_payload i n = [(''id'', JNum i), (''post_number'', JNum n), (''topic_id'', JNum 5)]"

definition demo_loaded :: pstream where
  "demo_loaded = append_payload (demo_payload 10 1) (empty_stream [10])"

text \<open>The composer creates its draft without an id: \<open>store.createRecord("post", ...)\<close>.\<close>

definition demo_staging :: "ref \<times> pstream" where
  "demo_staging = create_post [(''raw'', JStr ''hi'')] demo_loaded"

lemmas demo_defs = demo_staging_def demo_loaded_def append_payload_def create_post_def
  createRecord_def hydrate_payload_def build_def demo_store_def empty_stream_def demo_payload_def
  fromMap_def by_type_def storeMap_def appendPost_def storePost_def initUserModels_def
  raise_highest_def on_store_def set_prop_def rprop_def pid_def pnumber_def push_new_def Let_def
  pget_def demo_topic_def

lemma empty_stream_inv: "stream_inv (empty_stream ids)"
  using demo_store_ok
  by (simp add: stream_inv_def empty_stream_def base_ok_def filed_ok_def loaded_ok_def number_ids_def)
    (simp add: demo_store_def fromMap_def by_type_def)

lemma create_draft:
  assumes inv: "stream_inv s" and plain: "plain_payload (st s) ''post'' ob" and no: "\<not> truthy (pget ob ''id'')"
    and c: "create_post ob s = (r, s1)"
  shows "stream_inv s1" "draft s1 r" "posts s1 = posts s" "imap s1 = imap s" "stream s1 = stream s"
    "topic s1 = topic s" "stagingPost s1 = stagingPost s" "isMegaTopic s1 = isMegaTopic s"
proof -
  have pk: "primaryKey (st s) ''post'' = ''id''" and so: "store_ok (st s)" and mo: "munge_ok (st s)"
    using stream_invD(1) [OF inv] by (auto simp: base_ok_def)
  obtain h where b: "build ''post'' ob (st s) = (r, h)" and s1: "s1 = s\<lparr>st := h\<rparr>"
    using c no pk by (auto simp: create_post_def createRecord_def split: prod.splits)
  note bf = build_frame [OF b] and bp = build_props [OF mo plain b]
  have num: "number_ids h"
  proof -
    have "number_ids (st s)" "store_ok (st s)" using stream_invD(1) [OF inv] by (auto simp: base_ok_def)
    moreover have "fromMap h = fromMap (st s)" using fromMap_build [OF b] no pk by (simp add: fun_eq_iff)
    ultimately show ?thesis using bf(1,5) unfolding number_ids_def store_ok_def rprop_def by (metis less_irrefl)
  qed
  have "base_ok h"
    using store_ok_build [OF so mo plain b] mo pk bf(3,4) num by (simp add: base_ok_def munge_ok_def)
  moreover have "grows (st s) h"
    using bf(1,2,5) by (simp add: grows_def pid_def post_ok_def rprop_def)
  ultimately show "stream_inv s1" using grows_inv [OF inv] s1 by simp
  show "draft s1 r" using bp bf(1,2) no pk by (simp add: draft_def s1 post_ok_def)
  show "posts s1 = posts s" "imap s1 = imap s" "stream s1 = stream s"
    "topic s1 = topic s" "stagingPost s1 = stagingPost s" "isMegaTopic s1 = isMegaTopic s"
    by (simp_all add: s1)
qed

lemma append_payload_spec:
  assumes inv: "stream_inv s" and pl: "post_payload ob"
  obtains q where "stream_inv (append_payload ob s)" "stream (append_payload ob s) = stream s"
    "posts (append_payload ob s) = push_new q (posts s)"
    "post_id (append_payload ob s) q = payload_id ob"
    "om_get (imap (append_payload ob s)) = (om_get (imap s))(payload_id ob \<mapsto> q)"
    "\<And>r. r < next_ref (st s) \<Longrightarrow> post_id (append_payload ob s) r = post_id s r"
    "next_ref (st s) \<le> next_ref (st (append_payload ob s))"
proof -
  obtain r s1 where c: "create_post ob s = (r, s1)" "stream_inv s1" "post_ok (st s1) r"
    "post_id s1 r = payload_id ob" "post_id s1 r \<noteq> 0" "grows (st s) (st s1)"
    "next_ref (st s) \<le> next_ref (st s1)"
    "posts s1 = posts s" "imap s1 = imap s" "stream s1 = stream s"
    by (rule create_post_spec [OF assms])
  note ap = appendPost_spec [OF c(2,3,5)]
  have ids: "post_id (appendPost r s1) = post_id s1" by (rule heap_frame_keeps(3) [OF ap(2)])
  have "post_id s1 (filed_as s1 r) = payload_id ob"
    using filed_as_props(1) [OF stream_invD(2) [OF c(2)] c(3)] c(4) by simp
  then show ?thesis
    using that [of "filed_as s1 r"] ap c ids
    by (simp add: append_payload_def grows_def heap_frame_def)
qed

lemma demo_payload_ok [simp]: "i > 0 \<Longrightarrow> post_payload (demo_payload i n)"
  by (simp add: post_payload_def demo_payload_def pget_def)

lemma demo_loaded_inv: "stream_inv demo_loaded"
  unfolding demo_loaded_def
  using append_payload_spec [OF empty_stream_inv, of "demo_payload 10 1"] by (metis demo_payload_ok zero_less_numeral)

lemma demo_staging_eval:
  "fst demo_staging = 1" "posts (snd demo_staging) = [0]" "stream (snd demo_staging) = [10]"
  "om_get (imap (snd demo_staging)) = [10 \<mapsto> 0]" "\<not> stagingPost (snd demo_staging)"
  "\<not> isMegaTopic (snd demo_staging)"
  by (simp_all add: demo_defs)

lemma demo_draft:
  "stream_inv (snd demo_staging)" "draft (snd demo_staging) 1"
proof -
  have c: "create_post [(''raw'', JStr ''hi'')] demo_loaded = (1, snd demo_staging)"
    using demo_staging_eval(1) by (simp add: demo_staging_def prod_eq_iff)
  have p: "plain_payload (st demo_loaded) ''post'' [(''raw'', JStr ''hi'')]"
    using stream_invD(1) [OF demo_loaded_inv] by (simp add: plain_payload_def base_ok_def)
  show "stream_inv (snd demo_staging)" "draft (snd demo_staging) 1"
    using create_draft(1,2) [OF demo_loaded_inv p _ c] by (simp_all add: pget_def)
qed

theorem undo_stage_roundtrip_witness:
  "posts (undoPost 1 (snd (stagePost 1 JNull (JNum 77) (snd demo_staging)))) = [0]"
  using undo_stage_roundtrip [OF demo_draft _ _ _ refl, of JNull "JNum 77"]
  by (simp add: demo_staging_eval)

definition demo_staged :: pstream where
  "demo_staged = snd (stagePost 1 JNull (JNum 77) (snd demo_staging))"

lemma demo_staged_msg: "stagePost 1 JNull (JNum 77) (snd demo_staging) = (''staged'', demo_staged)"
proof -
  have "fst (stagePost 1 JNull (JNum 77) (snd demo_staging)) = ''staged''"
    by (simp add: stagePost_def loadedAllPosts_def hasLoadedData_def hasPosts_def filteredPostsCount_def
        lastPostId_def last_opt_def on_topic_def set_props_def demo_defs)
  then show ?thesis by (simp add: demo_staged_def prod_eq_iff)
qed

lemma demo_saved: "saved_payload demo_staged 11 (demo_payload 11 2)"
  by (simp add: saved_payload_def demo_staged_def stagePost_def append_at_end_def push_id_def on_topic_def
      set_props_def demo_defs)

theorem commit_after_stage_witness:
  "stream (commitPost 1 (saveNew_finish 1 (demo_payload 11 2) demo_staged)) = [10, 11]"
  using commit_after_stage [OF demo_draft _ _ _ demo_staged_msg demo_saved _ _ _ refl]
  by (simp add: demo_staging_eval)

definition demo_race :: pstream where
  "demo_race = saveNew_finish 1 (demo_payload 11 2) (append_payload (demo_payload 11 2) demo_staged)"

lemma demo_race_eval:
  "posts demo_race = [0, 1, 2]" "post_id demo_race 1 = 11" "post_id demo_race 2 = 11"
  "om_get (imap demo_race) 11 = Some 2" "post_ok (st demo_race) 1" "post_ok (st demo_race) 2"
  by (simp_all add: demo_race_def demo_staged_def stagePost_def append_at_end_def push_id_def on_topic_def
      set_props_def saveNew_finish_def post_ok_def loadedAllPosts_def hasLoadedData_def hasPosts_def filteredPostsCount_def
        lastPostId_def last_opt_def demo_defs)

lemma demo_staged_inv: "stream_inv demo_staged" "fromMap (st demo_staged) t i \<noteq> Some 1"
proof -
  note s1 = stagePost_state [OF demo_draft _ _ _ refl, where u = JNull and n = "JNum 77",
      folded demo_staged_def]
  show "stream_inv demo_staged"
    by (rule s1(1)) (simp_all add: demo_staging_eval)
  have "heap_frame (set_props 1 (staging_props (snd demo_staging) (JNum 77)) (st (snd demo_staging)))
      (st demo_staged)"
    by (rule s1(9)) (simp_all add: demo_staging_eval)
  then show "fromMap (st demo_staged) t i \<noteq> Some 1"
    using draft_unfiled(3) [OF demo_draft, of t i]
    by (simp add: heap_frame_def fromMap_def by_type_def set_props_def)
qed

theorem commit_after_bus_duplicates_witness:
  "1 \<in> set (posts (commitPost 1 demo_race)) \<and> 2 \<in> set (posts (commitPost 1 demo_race)) \<and>
   post_id (commitPost 1 demo_race) 1 = 11 \<and> post_id (commitPost 1 demo_race) 2 = 11"
proof -
  let ?b = "append_payload (demo_payload 11 2) demo_staged"
  have b: "stream_inv ?b"
    using append_payload_spec [OF demo_staged_inv(1), of "demo_payload 11 2"]
    by (metis demo_payload_ok zero_less_numeral)
  have "fromMap (st ?b) t i \<noteq> Some 1" for t i
    by (simp add: demo_staged_def stagePost_def append_at_end_def push_id_def on_topic_def
        set_props_def loadedAllPosts_def hasLoadedData_def hasPosts_def filteredPostsCount_def
        lastPostId_def last_opt_def demo_defs)
  then have "base_ok (st demo_race)"
    unfolding demo_race_def saveNew_st set_prop_as_props
    by (intro base_ok_unfiled stream_invD(1) [OF b]) simp_all
  then show ?thesis
    using commit_after_bus_duplicates [of 1 demo_race 2 11, OF _ _ _ _ _ _ _ _ _ _ refl]
    by (simp add: demo_race_eval del: One_nat_def)
qed

end
