(* ===== verification/PostQueries.thy ===== *)
theory PostQueries
  imports PostStaging
begin

text \<open>
  The queries of \<open>models/post-stream.js\<close> that find a post, a post number or a date for a place
  in the topic, with the lemmas that say what they find, and the removal of posts. The gap-aware
  search \<open>findPostIdForPostNumber\<close> is compared with the list of slots it walks over, the binary
  search \<open>closestDaysAgoFor\<close> with the sorted table it searches.
\<close>

section \<open>Closest posts\<close>

definition postForPostNumber :: "pstream \<Rightarrow> int \<Rightarrow> ref option" where
  "postForPostNumber s n = (if \<not> hasPosts s then None else find (\<lambda>p. post_number s p = n) (posts s))"

definition closer_post :: "pstream \<Rightarrow> int \<Rightarrow> ref \<Rightarrow> ref option \<Rightarrow> ref option" where
  "closer_post s n p closest =
     (case closest of
        None \<Rightarrow> Some p
      | Some c \<Rightarrow> if \<bar>n - post_number s p\<bar> < \<bar>post_number s c - n\<bar> then Some p else Some c)"

definition closestPostForPostNumber :: "pstream \<Rightarrow> int \<Rightarrow> ref option" where
  "closestPostForPostNumber s n =
     (if \<not> hasPosts s then None else fold (closer_post s n) (posts s) None)"

text \<open>\<open>closest\<close> is \<open>None\<close> for the initial \<open>null\<close>; a number of 0 is falsy too.\<close>

definition closer_number :: "pstream \<Rightarrow> int \<Rightarrow> ref \<Rightarrow> int option \<Rightarrow> int option" where
  "closer_number s n p closest =
     (if closest = Some n then closest
      else let c = (case closest of None \<Rightarrow> post_number s p
                      | Some c \<Rightarrow> if c = 0 then post_number s p else c)
           in if \<bar>n - post_number s p\<bar> < \<bar>c - n\<bar> then Some (post_number s p) else Some c)"

definition closestPostNumberFor :: "pstream \<Rightarrow> int \<Rightarrow> int option" where
  "closestPostNumberFor s n =
     (if \<not> hasPosts s then None else fold (closer_number s n) (posts s) None)"

definition progressIndexOfPostId :: "pstream \<Rightarrow> ref \<Rightarrow> int" where
  "progressIndexOfPostId s p =
     (if isMegaTopic s then post_number s p else index_of (stream s) (post_id s p) + 1)"

lemma fold_closer_post:
  assumes "fold (closer_post s n) ps c = r" and "c = Some q"
  obtains p where "r = Some p" "p \<in> insert q (set ps)"
    "\<And>x. x \<in> insert q (set ps) \<Longrightarrow> \<bar>n - post_number s p\<bar> \<le> \<bar>n - post_number s x\<bar>"
  using assms
proof (induction ps arbitrary: c q thesis)
  case (Cons a ps)
  obtain q' where q': "closer_post s n a c = Some q'" "q' = a \<or> q' = q"
    "\<bar>n - post_number s q'\<bar> \<le> \<bar>n - post_number s a\<bar>" "\<bar>n - post_number s q'\<bar> \<le> \<bar>n - post_number s q\<bar>"
    using Cons.prems(3) by (cases "\<bar>n - post_number s a\<bar> < \<bar>post_number s q - n\<bar>")
      (auto simp: closer_post_def)
  have f: "fold (closer_post s n) ps (closer_post s n a c) = r" using Cons.prems(2) by simp
  obtain p where p: "r = Some p" "p \<in> insert q' (set ps)"
    "\<And>x. x \<in> insert q' (set ps) \<Longrightarrow> \<bar>n - post_number s p\<bar> \<le> \<bar>n - post_number s x\<bar>"
    using Cons.IH [OF _ f q'(1)] by blast
  show ?case
  proof (rule Cons.prems(1) [OF p(1)])
    show "p \<in> insert q (set (a # ps))" using p(2) q'(2) by auto
    show "\<bar>n - post_number s p\<bar> \<le> \<bar>n - post_number s x\<bar>" if "x \<in> insert q (set (a # ps))" for x
      using that p(3) [of x] p(3) [of q'] q'(3,4) by auto
  qed
qed auto

lemma fold_closer_number:
  assumes "\<forall>p \<in> set ps. post_number s p \<noteq> 0" and "post_number s q \<noteq> 0"
  shows "fold (closer_number s n) ps (Some (post_number s q)) =
    map_option (post_number s) (fold (closer_post s n) ps (Some q))"
  using assms
proof (induction ps arbitrary: q)
  case (Cons a ps)
  have "closer_number s n a (Some (post_number s q)) = Some (post_number s q) \<and>
        closer_post s n a (Some q) = Some q \<or>
        closer_number s n a (Some (post_number s q)) = Some (post_number s a) \<and>
        closer_post s n a (Some q) = Some a"
    using Cons.prems(2) by (auto simp: closer_number_def closer_post_def Let_def)
  then show ?case using Cons by auto
qed simp

text \<open>
  \<open>closestPostForPostNumber\<close> answers a loaded post no other loaded post is closer than, a post
  with exactly the number when there is one, and nothing only when no post is loaded; for posts
  numbered from 1, \<open>closestPostNumberFor\<close> answers that post's number.
\<close>

theorem closest_post_spec:
  "(closestPostForPostNumber s n = None \<longleftrightarrow> posts s = []) \<and>
   (\<forall>p. closestPostForPostNumber s n = Some p \<longrightarrow> p \<in> set (posts s) \<and>
      (\<forall>q \<in> set (posts s). \<bar>n - post_number s p\<bar> \<le> \<bar>n - post_number s q\<bar>) \<and>
      (postForPostNumber s n \<noteq> None \<longrightarrow> post_number s p = n)) \<and>
   ((\<forall>p \<in> set (posts s). post_number s p \<noteq> 0) \<longrightarrow>
      closestPostNumberFor s n = map_option (post_number s) (closestPostForPostNumber s n))"
proof (cases "posts s")
  case Nil
  then show ?thesis
    by (simp add: closestPostForPostNumber_def closestPostNumberFor_def hasPosts_def)
next
  case (Cons a ps)
  have hp: "hasPosts s" using Cons by (simp add: hasPosts_def)
  have c: "closestPostForPostNumber s n = fold (closer_post s n) ps (Some a)"
    using Cons hp by (simp add: closestPostForPostNumber_def closer_post_def)
  obtain p where p: "closestPostForPostNumber s n = Some p" "p \<in> set (posts s)"
    "\<And>x. x \<in> set (posts s) \<Longrightarrow> \<bar>n - post_number s p\<bar> \<le> \<bar>n - post_number s x\<bar>"
    using fold_closer_post [OF c [symmetric] refl] Cons by auto
  have exact: "post_number s p = n" if f: "postForPostNumber s n \<noteq> None"
  proof -
    obtain x where "x \<in> set (posts s)" "post_number s x = n"
      using f hp by (auto simp: postForPostNumber_def find_None_iff)
    then show ?thesis using p(3) [of x] by simp
  qed
  have num: "closestPostNumberFor s n = map_option (post_number s) (closestPostForPostNumber s n)"
    if "\<forall>p \<in> set (posts s). post_number s p \<noteq> 0"
    using that fold_closer_number [of ps s a n] hp
    by (simp add: closestPostNumberFor_def c Cons closer_number_def Let_def)
  show ?thesis using p exact num Cons by simp
qed

theorem closest_post_spec_witness:
  "\<exists>p \<in> set (posts demo_loaded). closestPostForPostNumber demo_loaded 7 = Some p"
proof -
  have "posts demo_loaded \<noteq> []" by (simp add: demo_defs)
  then show ?thesis using closest_post_spec [of demo_loaded 7] by auto
qed

section \<open>Days ago\<close>

text \<open>
  The binary search of \<open>closestDaysAgoFor\<close> over the pairs (post number, days ago). A bound that
  runs off the table reads \<open>undefined\<close>, so the other bound's entry is taken.
\<close>

function days_search :: "(int \<times> int) list \<Rightarrow> int \<Rightarrow> int \<Rightarrow> int \<Rightarrow> int option" where
  "days_search tab n low high =
     (if low \<le> high then
        let mid = low + (high - low) div 2;
            midValue = fst (tab ! nat mid)
        in if midValue > n then days_search tab n low (mid - 1)
           else if midValue < n then days_search tab n (mid + 1) high
           else Some (snd (tab ! nat mid))
      else (case nth_opt tab high of
              Some v \<Rightarrow> Some (snd v)
            | None \<Rightarrow> map_option snd (nth_opt tab low)))"
  by pat_completeness auto
termination
  by (relation "measure (\<lambda>(tab, n, low, high). nat (high - low + 1))") (auto simp: Let_def)

declare days_search.simps [simp del]

definition closestDaysAgoFor :: "pstream \<Rightarrow> int \<Rightarrow> int option" where
  "closestDaysAgoFor s n =
     days_search (timelineLookup s) n 0 (int (length (timelineLookup s)) - 1)"

text \<open>The last entry at or before the number, else the first entry.\<close>

definition days_ref :: "(int \<times> int) list \<Rightarrow> int \<Rightarrow> int option" where
  "days_ref tab n = map_option snd
     (case last_opt (filter (\<lambda>e. fst e \<le> n) tab) of Some e \<Rightarrow> Some e | None \<Rightarrow> first_opt tab)"

abbreviation key_sorted :: "(int \<times> int) list \<Rightarrow> bool" where
  "key_sorted tab \<equiv> sorted_wrt (\<lambda>a b. fst a < fst b) tab"

lemma key_sorted_nth:
  "key_sorted tab \<Longrightarrow> i < j \<Longrightarrow> j < length tab \<Longrightarrow> fst (tab ! i) < fst (tab ! j)"
  using sorted_wrt_nth_less by fastforce

lemma filter_split:
  assumes "k \<le> length xs" and "\<And>i. i < k \<Longrightarrow> P (xs ! i)" and "\<And>i. k \<le> i \<Longrightarrow> i < length xs \<Longrightarrow> \<not> P (xs ! i)"
  shows "filter P xs = take k xs"
proof -
  have "filter P (take k xs @ drop k xs) = take k xs"
    unfolding filter_append using assms
    by (subst filter_True, force simp: in_set_conv_nth)
      (subst filter_False, auto simp: in_set_conv_nth)
  then show ?thesis by simp
qed

lemma days_ref_split:
  assumes "k \<le> length tab" and "\<And>i. i < k \<Longrightarrow> fst (tab ! i) \<le> n"
    and "\<And>i. k \<le> i \<Longrightarrow> i < length tab \<Longrightarrow> \<not> fst (tab ! i) \<le> n"
  shows "days_ref tab n = map_option snd (if k = 0 then first_opt tab else Some (tab ! (k - 1)))"
proof -
  have "filter (\<lambda>e. fst e \<le> n) tab = take k tab"
    by (rule filter_split) (use assms in auto)
  then show ?thesis
    using assms(1)
    by (cases "k = 0"; cases "tab = []")
      (simp_all add: days_ref_def last_opt_def last_conv_nth min_def prod_eq_iff)
qed

lemma days_search_correct:
  assumes "key_sorted tab" and "0 \<le> low" and "high < int (length tab)" and "low \<le> high + 1"
    and "\<And>i. i < nat low \<Longrightarrow> fst (tab ! i) < n"
    and "\<And>i. high < int i \<Longrightarrow> i < length tab \<Longrightarrow> n < fst (tab ! i)"
  shows "days_search tab n low high = days_ref tab n"
  using assms
proof (induction tab n low high rule: days_search.induct)
  case (1 tab n low high)
  let ?mid = "low + (high - low) div 2"
  show ?case
  proof (cases "low \<le> high")
    case True
    then have mid: "low \<le> ?mid" "?mid \<le> high" "0 \<le> ?mid" "nat ?mid < length tab"
      using "1.prems"(2,3) by auto
    note step = days_search.simps [of tab n low high]
    consider (lt) "n < fst (tab ! nat ?mid)" | (gt) "fst (tab ! nat ?mid) < n" | (eq) "fst (tab ! nat ?mid) = n"
      by linarith
    then show ?thesis
    proof cases
      case lt
      have up: "n < fst (tab ! i)" if "?mid - 1 < int i" "i < length tab" for i
        using that lt key_sorted_nth [OF "1.prems"(1), of "nat ?mid" i] mid(3)
        by (cases "i = nat ?mid") force+
      have "days_search tab n low (?mid - 1) = days_ref tab n"
        using True lt mid "1.prems" up by (intro "1.IH"(1)) auto
      then show ?thesis using True lt by (simp add: step Let_def)
    next
      case gt
      have ng: "\<not> n < fst (tab ! nat ?mid)" using gt by simp
      have down: "fst (tab ! i) < n" if "i < nat (?mid + 1)" for i
        using that gt key_sorted_nth [OF "1.prems"(1), of i "nat ?mid"] mid(3,4)
        by (cases "i = nat ?mid") force+
      have "days_search tab n (?mid + 1) high = days_ref tab n"
        using "1.prems" mid down by (intro "1.IH"(2) [OF True refl refl ng gt]) auto
      then show ?thesis using True gt by (simp add: step Let_def)
    next
      case eq
      have "days_ref tab n = map_option snd (if Suc (nat ?mid) = 0 then first_opt tab
          else Some (tab ! (Suc (nat ?mid) - 1)))"
      proof (rule days_ref_split)
        show "fst (tab ! i) \<le> n" if "i < Suc (nat ?mid)" for i
          using that eq key_sorted_nth [OF "1.prems"(1), of i "nat ?mid"] mid(4)
          by (cases "i = nat ?mid") auto
        show "\<not> fst (tab ! i) \<le> n" if "Suc (nat ?mid) \<le> i" "i < length tab" for i
          using that eq key_sorted_nth [OF "1.prems"(1), of "nat ?mid" i] by simp
      qed (use mid(4) in simp)
      then show ?thesis using True eq by (simp add: step Let_def)
    qed
  next
    case False
    then have low: "low = high + 1" using "1.prems"(4) by simp
    have above: "\<not> fst (tab ! i) \<le> n" if "nat low \<le> i" "i < length tab" for i
      using that "1.prems"(2) "1.prems"(6) [of i] low by (simp add: not_le)
    have "days_ref tab n = map_option snd (if nat low = 0 then first_opt tab else Some (tab ! (nat low - 1)))"
      using "1.prems"(2,3,5) low above by (intro days_ref_split) (simp_all add: less_imp_le)
    moreover have "days_search tab n low high =
        (case nth_opt tab high of Some v \<Rightarrow> Some (snd v) | None \<Rightarrow> map_option snd (nth_opt tab low))"
      using False by (subst days_search.simps) simp
    moreover have "nat low - 1 = nat high" "nat low = 0 \<longleftrightarrow> high < 0"
      using low "1.prems"(2) by auto
    ultimately show ?thesis
      using low "1.prems"(2,3) by (cases tab) (auto simp: nth_opt_def first_opt_def)
  qed
qed

text \<open>
  On a timeline sorted by post number, the binary search of \<open>closestDaysAgoFor\<close> answers the
  days of the last entry at or before the post number, and of the first entry when the post comes
  before all of them; it answers nothing only for an empty timeline.
\<close>

theorem closestDaysAgoFor_spec:
  assumes "key_sorted (timelineLookup s)"
  shows "closestDaysAgoFor s n = days_ref (timelineLookup s) n \<and>
    (closestDaysAgoFor s n = None \<longleftrightarrow> timelineLookup s = [])"
proof -
  have "closestDaysAgoFor s n = days_ref (timelineLookup s) n"
    unfolding closestDaysAgoFor_def
    using assms by (intro days_search_correct) auto
  moreover have "days_ref tab n = None \<longleftrightarrow> tab = []" for tab
    by (auto simp: days_ref_def first_opt_def last_opt_def split: option.splits list.splits)
  ultimately show ?thesis by simp
qed

theorem closestDaysAgoFor_spec_witness:
  "closestDaysAgoFor (empty_stream []\<lparr>timelineLookup := [(1, 300), (5, 200), (9, 10)]\<rparr>) 7 = Some 200"
  using closestDaysAgoFor_spec [of "empty_stream []\<lparr>timelineLookup := [(1, 300), (5, 200), (9, 10)]\<rparr>" 7]
  by (simp add: days_ref_def last_opt_def)

section \<open>Posts and gaps\<close>

text \<open>
  \<open>findPostIdForPostNumber\<close>: \<open>gap_walk\<close> is the inner loop over the gap before a post, which either
  answers (the sum, \<open>slot\<close>, reached the number) or goes on with it.
\<close>

fun gap_walk :: "int \<Rightarrow> int \<Rightarrow> nat \<Rightarrow> int + int" where
  "gap_walk n slot 0 = Inl slot"
| "gap_walk n slot (Suc k) = (if slot = n then Inr slot else gap_walk n (slot + 1) k)"

fun id_walk :: "(int, int list) omap option \<Rightarrow> int \<Rightarrow> int \<Rightarrow> int list \<Rightarrow> int option" where
  "id_walk before n slot [] = None"
| "id_walk before n slot (i # is) =
     (case (case before of None \<Rightarrow> Inl slot
              | Some b \<Rightarrow> (case om_get b i of None \<Rightarrow> Inl slot
                          | Some ids \<Rightarrow> gap_walk n slot (length ids))) of
        Inr _ \<Rightarrow> Some i
      | Inl slot' \<Rightarrow> if slot' = n then Some i else id_walk before n (slot' + 1) is)"

definition findPostIdForPostNumber :: "pstream \<Rightarrow> int \<Rightarrow> int option" where
  "findPostIdForPostNumber s n =
     id_walk (map_option g_before (gapsOf s)) n 1 (stream s)"

text \<open>The slots of the topic: a post takes one slot and one for each hidden post before it.\<close>

definition hidden_before :: "pstream \<Rightarrow> int \<Rightarrow> int list" where
  "hidden_before s i = (case gapsOf s of None \<Rightarrow> [] | Some g \<Rightarrow>
     (case om_get (g_before g) i of None \<Rightarrow> [] | Some ids \<Rightarrow> ids))"

definition post_slots :: "pstream \<Rightarrow> int list" where
  "post_slots s = concat (map (\<lambda>i. replicate (length (hidden_before s i) + 1) i) (stream s))"

lemma gap_walk_spec:
  "gap_walk n slot k = (if slot \<le> n \<and> n < slot + int k then Inr n else Inl (slot + int k))"
  by (induction n slot k rule: gap_walk.induct) auto

lemma nth_opt_append:
  "nth_opt (xs @ ys) i = (if i < int (length xs) then nth_opt xs i else nth_opt ys (i - int (length xs)))"
  by (auto simp: nth_opt_def nth_append nat_less_iff nat_diff_distrib)

lemma nth_opt_replicate: "nth_opt (replicate k x) i = (if 0 \<le> i \<and> i < int k then Some x else None)"
  by (auto simp: nth_opt_def nat_less_iff)

lemma id_walk_spec:
  "id_walk (map_option g_before (gapsOf s)) n slot is =
     nth_opt (concat (map (\<lambda>i. replicate (length (hidden_before s i) + 1) i) is)) (n - slot)"
proof (induction "is" arbitrary: slot)
  case Nil
  then show ?case by (simp add: nth_opt_def)
next
  case (Cons i "is")
  let ?k = "length (hidden_before s i)"
  have "(case map_option g_before (gapsOf s) of None \<Rightarrow> Inl slot
           | Some b \<Rightarrow> (case om_get b i of None \<Rightarrow> Inl slot | Some ids \<Rightarrow> gap_walk n slot (length ids)))
        = gap_walk n slot ?k"
    by (auto simp: hidden_before_def split: option.split)
  then have "id_walk (map_option g_before (gapsOf s)) n slot (i # is) =
      (if slot \<le> n \<and> n < slot + int ?k then Some i
       else if slot + int ?k = n then Some i
       else id_walk (map_option g_before (gapsOf s)) n (slot + int ?k + 1) is)"
    by (simp add: gap_walk_spec)
  then show ?case
    by (simp del: replicate_Suc add: Cons.IH nth_opt_append nth_opt_replicate)
      (simp add: nth_opt_def algebra_simps)
qed

text \<open>
  \<open>findPostIdForPostNumber\<close> finds the post in whose slots the number falls: the \<open>n\<close>-th slot
  (counting from 1) of the stream with its gaps expanded, and nothing outside the slots.
\<close>

theorem findPostId_slots:
  "findPostIdForPostNumber s n = nth_opt (post_slots s) (n - 1)"
  using id_walk_spec [of s n 1 "stream s"]
  by (simp add: findPostIdForPostNumber_def post_slots_def)

section \<open>Removing posts\<close>

lemma get_del_fold: "om_get (fold om_delete ks m) k = (if k \<in> set ks then None else om_get m k)"
  using om.get_del_all [of ks m k] by (simp add: om.del_all_def)

lemma wf_del_fold: "om_wf m \<Longrightarrow> om_wf (fold om_delete ks m)"
  using om.wf_del_all [of m ks] by (simp add: om.del_all_def)

text \<open>Removing posts that are filed under their ids keeps the invariant.\<close>

lemma removePosts_spec:
  assumes inv: "stream_inv s" and filed: "\<And>r. r \<in> set rs \<Longrightarrow> om_get (imap s) (post_id s r) = Some r"
    and ne: "rs \<noteq> []"
  obtains s' where "removePosts (map Some rs) s = Inr s'" "stream_inv s'"
    "stream s' = filter (\<lambda>i. i \<notin> post_id s ` set rs) (stream s)"
    "posts s' = filter (\<lambda>r. r \<notin> set rs) (posts s)"
    "om_get (imap s') = (\<lambda>i. if i \<in> post_id s ` set rs then None else om_get (imap s) i)"
    "st s' = st s" "topic s' = topic s"
proof -
  let ?im = "fold om_delete (map (post_id s) rs) (imap s)"
  let ?s' = "s\<lparr>stream := filter (\<lambda>i. i \<notin> post_id s ` set rs) (stream s),
      posts := filter (\<lambda>r. r \<notin> set rs) (posts s), imap := ?im\<rparr>"
  have get: "om_get ?im i = (if i \<in> post_id s ` set rs then None else om_get (imap s) i)" for i
    by (simp add: get_del_fold)
  have "filed_ok (st s) ?im"
    using stream_invD(2) [OF inv] wf_del_fold [of "imap s"] unfolding filed_ok_def get by auto
  moreover have "loaded_ok (st s) (filter (\<lambda>r. r \<notin> set rs) (posts s)) ?im"
    unfolding loaded_ok_def get
  proof (intro conjI ballI)
    show "distinct (filter (\<lambda>r. r \<notin> set rs) (posts s))" using stream_invD(3) [OF inv] by simp
    fix q assume "q \<in> set (filter (\<lambda>r. r \<notin> set rs) (posts s))"
    then have q: "q \<in> set (posts s)" "q \<notin> set rs" by auto
    have "post_id s q \<notin> post_id s ` set rs"
      using filed stream_invD(4) [OF inv q(1)] q(2) by (metis imageE option.inject)
    then show "(if post_id s q \<in> post_id s ` set rs then None else om_get (imap s) (post_id s q)) = Some q"
      using stream_invD(4) [OF inv q(1)] by simp
  qed
  ultimately have "stream_inv ?s'"
    using stream_invD(1) [OF inv] by (simp add: stream_inv_def)
  then show ?thesis
    using that [of ?s'] ne get by (simp add: removePosts_def Let_def fun_eq_iff image_image comp_def)
qed

lemma removePosts_undefined:
  "removePosts [None] s = Inl (TypeError ''Cannot read properties of undefined (reading 'id')'')"
  by (simp add: removePosts_def)

text \<open>
  A post destroyed on the server: when it is loaded, it leaves the stream, the loaded posts and
  the identity map, everything else stays and the invariant holds. When it is not in the identity
  map, \<open>triggerDestroyedPost\<close> throws and its id stays in the stream.
\<close>

theorem destroyed_post:
  assumes "stream_inv s"
  shows "case findLoadedPost s i of
      None \<Rightarrow> \<exists>msg. triggerDestroyedPost i s = Inl (TypeError msg)
    | Some r \<Rightarrow> \<exists>s'. triggerDestroyedPost i s = Inr s' \<and> stream_inv s' \<and>
        stream s' = filter (\<lambda>k. k \<noteq> i) (stream s) \<and> posts s' = filter (\<lambda>q. q \<noteq> r) (posts s) \<and>
        om_get (imap s') = (om_get (imap s))(i := None)"
proof (cases "om_get (imap s) i")
  case None
  then show ?thesis by (simp add: findLoadedPost_def triggerDestroyedPost_def removePosts_undefined)
next
  case (Some r)
  note r = filed_okD [OF stream_invD(2) [OF assms] Some]
  obtain s' where s': "removePosts (map Some [r]) s = Inr s'" "stream_inv s'"
    "stream s' = filter (\<lambda>i. i \<notin> post_id s ` set [r]) (stream s)"
    "posts s' = filter (\<lambda>q. q \<notin> set [r]) (posts s)"
    "om_get (imap s') = (\<lambda>i. if i \<in> post_id s ` set [r] then None else om_get (imap s) i)"
    using removePosts_spec [OF assms, of "[r]"] Some r(2) by auto
  then show ?thesis
    using Some r(2) by (auto simp: findLoadedPost_def triggerDestroyedPost_def fun_eq_iff)
qed

theorem destroyed_post_witness:
  "\<exists>s'. triggerDestroyedPost 10 demo_loaded = Inr s' \<and> stream_inv s' \<and>
     stream s' = [] \<and> posts s' = []"
proof -
  have "findLoadedPost demo_loaded 10 = Some 0" "stream demo_loaded = [10]" "posts demo_loaded = [0]"
    by (simp_all add: findLoadedPost_def demo_defs)
  then show ?thesis using destroyed_post [OF demo_loaded_inv, of 10] by auto
qed

section \<open>Loading a topic\<close>

lemma append_payload_ids:
  assumes inv: "stream_inv s" and pl: "post_payload ob"
  shows "stream_inv (append_payload ob s)" "stream (append_payload ob s) = stream s"
    "map (post_id (append_payload ob s)) (posts (append_payload ob s)) =
       push_new (payload_id ob) (map (post_id s) (posts s))"
proof -
  let ?s' = "append_payload ob s"
  obtain q where a: "stream_inv ?s'" "stream ?s' = stream s" "posts ?s' = push_new q (posts s)"
    "post_id ?s' q = payload_id ob"
    "om_get (imap ?s') = (om_get (imap s))(payload_id ob \<mapsto> q)"
    "\<And>r. r < next_ref (st s) \<Longrightarrow> post_id ?s' r = post_id s r"
    "next_ref (st s) \<le> next_ref (st ?s')"
    by (rule append_payload_spec [OF assms], rule that) blast+
  have old: "post_id ?s' r = post_id s r" if "r \<in> set (posts s)" for r
    using filed_okD(3) [OF stream_invD(2) [OF inv] stream_invD(4) [OF inv that]] a(6)
    by (simp add: post_ok_def)
  then have m: "map (post_id ?s') (posts s) = map (post_id s) (posts s)" by simp
  have "payload_id ob \<in> post_id s ` set (posts s) \<longleftrightarrow> q \<in> set (posts s)"
  proof
    assume "payload_id ob \<in> post_id s ` set (posts s)"
    then obtain r where r: "r \<in> set (posts s)" "payload_id ob = post_id ?s' r" using old by auto
    then have "om_get (imap ?s') (payload_id ob) = Some r"
      using stream_invD(4) [OF a(1), of r] a(3) by simp
    then show "q \<in> set (posts s)" using a(5) r(1) by simp
  next
    assume "q \<in> set (posts s)"
    then show "payload_id ob \<in> post_id s ` set (posts s)" using old a(4) by force
  qed
  then show "map (post_id ?s') (posts ?s') = push_new (payload_id ob) (map (post_id s) (posts s))"
    using a(3,4) m by (simp add: push_new_def)
  show "stream_inv ?s'" "stream ?s' = stream s" using a by simp_all
qed

lemma fold_append_payload:
  assumes "stream_inv s" and "\<forall>ob \<in> set obs. post_payload ob"
  shows "stream_inv (fold append_payload obs s) \<and> stream (fold append_payload obs s) = stream s \<and>
    map (post_id (fold append_payload obs s)) (posts (fold append_payload obs s)) =
      fold push_new (map payload_id obs) (map (post_id s) (posts s))"
  using assms
proof (induction obs arbitrary: s)
  case (Cons ob obs)
  then have pl: "post_payload ob" by simp
  show ?case
    using Cons.IH [OF append_payload_ids(1) [OF Cons.prems(1) pl]]
      append_payload_ids(2,3) [OF Cons.prems(1) pl] Cons.prems(2) by simp
qed simp

lemma dedupe_seen_cong: "set a = set b \<Longrightarrow> dedupe_loop f a xs = dedupe_loop f b xs"
proof (induction f a xs arbitrary: b rule: dedupe_loop.induct)
  case (2 f a x xs)
  then show ?case by (cases "f x \<in> set a") (auto intro!: "2.IH"(2))
qed simp

lemma fold_push_new: "fold push_new xs acc = acc @ dedupe_loop (\<lambda>x. x) acc xs"
proof (induction xs arbitrary: acc)
  case (Cons x xs)
  have "dedupe_loop (\<lambda>x. x) (acc @ [x]) xs = dedupe_loop (\<lambda>x. x) (x # acc) xs"
    by (rule dedupe_seen_cong) auto
  then show ?case using Cons by (auto simp: push_new_def)
qed simp

text \<open>
  C31. Loading a topic: \<open>updateFromJson\<close> shows exactly the posts of the payload, in the payload's
  order and each id once, takes over the payload's stream, and establishes the invariant whatever
  was loaded before.
\<close>

theorem updateFromJson_loads:
  assumes "stream_inv s" and "\<forall>ob \<in> set (j_posts j). post_payload ob"
    and s'_def: "s' = updateFromJson (Some j) s"
  shows "stream_inv s' \<and>
    map (post_id s') (posts s') = dedupeBy (map payload_id (j_posts j)) (\<lambda>x. x) \<and>
    stream s' = or_else (j_stream j) (stream s)"
proof -
  let ?s1 = "s\<lparr>posts := [], gapsOf := None\<rparr>"
  let ?s2 = "fold append_payload (j_posts j) ?s1"
  have "stream_inv ?s1" using assms(1) by (simp add: stream_inv_def loaded_ok_def)
  from fold_append_payload [OF this assms(2)]
  have f: "stream_inv ?s2" "stream ?s2 = stream s"
    "map (post_id ?s2) (posts ?s2) = dedupe_loop (\<lambda>x. x) [] (map payload_id (j_posts j))"
    by (simp_all add: fold_push_new)
  then show ?thesis
    by (simp add: s'_def updateFromJson_def Let_def stream_inv_def dedupeBy_def)
qed

theorem updateFromJson_loads_witness:
  "map (post_id (updateFromJson (Some \<lparr>j_posts = [demo_payload 4 1, demo_payload 9 2, demo_payload 4 1],
       j_stream = Some [4, 9], j_gaps = None, j_isMegaTopic = None, j_lastId = None\<rparr>) demo_loaded))
     (posts (updateFromJson (Some \<lparr>j_posts = [demo_payload 4 1, demo_payload 9 2, demo_payload 4 1],
       j_stream = Some [4, 9], j_gaps = None, j_isMegaTopic = None, j_lastId = None\<rparr>) demo_loaded)) = [4, 9]"
proof -
  let ?j = "\<lparr>j_posts = [demo_payload 4 1, demo_payload 9 2, demo_payload 4 1],
       j_stream = Some [4, 9], j_gaps = None, j_isMegaTopic = None, j_lastId = None\<rparr>"
  have "\<forall>ob \<in> set (j_posts ?j). post_payload ob" by simp
  from updateFromJson_loads [OF demo_loaded_inv this refl]
  show ?thesis by (simp add: dedupeBy_def demo_payload_def pget_def)
qed

end
