(* ===== verification/PostLoading.thy ===== *)
theory PostLoading
  imports PostQueries
begin

text \<open>
  The operations of \<open>models/post-stream.js\<close> that ask the server. Each \<open>async\<close> method is split at its
  \<open>await\<close>: the start changes the state and names the request that is now under way (\<open>pending\<close>),
  the finish takes the server's answer and the state of that later moment. What runs between the
  two is up to the scheduler; \<open>PostProtocol\<close> interleaves them.

  \<open>answer\<close> is what \<open>ajax\<close> gives for \<open>/t/:id/posts.json\<close>: the parsed response, or a failure. The
  code reloads the page on a 403 (\<open>Refused\<close>) and drops every other failure; both leave the state
  as it is. The messages to \<open>pmTopicTrackingState\<close> and the scrolling are not modelled.
\<close>

section \<open>Answers of the server\<close>

record posts_json =
  r_posts :: "jobj list option"
  r_suggested :: "(jsval \<times> jsval) option"
  r_user_badges :: "jobj option"

datatype answer =
    Answer posts_json
  | Refused
  | Failed

definition setSuggestedTopics :: "posts_json \<Rightarrow> pstream \<Rightarrow> pstream" where
  "setSuggestedTopics res s =
     (case r_suggested res of
        None \<Rightarrow> s
      | Some sg \<Rightarrow> on_topic (\<lambda>t. t\<lparr>t_suggested := Some sg\<rparr>) s)"

definition add_badges :: "posts_json \<Rightarrow> pstream \<Rightarrow> pstream" where
  "add_badges res s =
     (case r_user_badges res of
        None \<Rightarrow> s
      | Some b \<Rightarrow> on_topic (\<lambda>t. t\<lparr>t_user_badges := assign (t_user_badges t) b\<rparr>) s)"

definition loadIntoIdentityMap :: "int list \<Rightarrow> answer \<Rightarrow> pstream \<Rightarrow> pstream" where
  "loadIntoIdentityMap postIds ans s =
     (if postIds = [] then s
      else case ans of
        Answer res \<Rightarrow> fold store_payload (or_else (r_posts res) []) (add_badges res (setSuggestedTopics res s))
      | Refused \<Rightarrow> s
      | Failed \<Rightarrow> s)"

text \<open>
  \<open>findPostsByIds\<close>: the ids to ask for are fixed when it is called; the posts are read from the
  identity map when the answer has been stored.
\<close>

definition unloaded_ids :: "pstream \<Rightarrow> int list \<Rightarrow> int list" where
  "unloaded_ids s ids = filter (\<lambda>i. om_get (imap s) i = None) ids"

definition posts_by_ids :: "pstream \<Rightarrow> int list \<Rightarrow> ref list" where
  "posts_by_ids s ids = List.map_filter (om_get (imap s)) ids"

definition findPostsByIds :: "int list \<Rightarrow> int list \<Rightarrow> answer \<Rightarrow> pstream \<Rightarrow> ref list \<times> pstream" where
  "findPostsByIds ids unloaded ans s =
     (let s1 = loadIntoIdentityMap unloaded ans s in (posts_by_ids s1 ids, s1))"

text \<open>
  \<open>fetchNextWindow\<close>: every post of the answer is stored, and the stored record handed to the
  callback.
\<close>

definition fetched :: "(ref \<Rightarrow> pstream \<Rightarrow> pstream) \<Rightarrow> jobj \<Rightarrow> pstream \<Rightarrow> pstream" where
  "fetched callback ob s =
     (let (r, s1) = create_post ob s;
          (stored, s2) = storePost (Some r) s1
      in case stored of None \<Rightarrow> s2 | Some q \<Rightarrow> callback q s2)"

definition fetchNextWindow :: "(ref \<Rightarrow> pstream \<Rightarrow> pstream) \<Rightarrow> answer \<Rightarrow> pstream \<Rightarrow> pstream" where
  "fetchNextWindow callback ans s =
     (case ans of
        Answer res \<Rightarrow> fold (fetched callback) (or_else (r_posts res) []) (setSuggestedTopics res s)
      | Refused \<Rightarrow> s
      | Failed \<Rightarrow> s)"

section \<open>Loading more posts at either end\<close>

datatype pending =
    PAppend "int list" "int list"
  | PAppendMega
  | PPrepend "int list" "int list"
  | PPrependMega
  | PNewPosts nat "int list"
  | PGapBefore ref int "int list" "int list" nat "int list"
  | PGapAfter int "pending option"

definition appendMore_start :: "pstream \<Rightarrow> pending option \<times> pstream" where
  "appendMore_start s =
     (if \<not> canAppendMore s then (None, s)
      else if isMegaTopic s
      then (Some PAppendMega, s\<lparr>loadingBelow := True,
              appendingPlaceholders := appendingPlaceholders s + (int (t_chunk_size (topic s)) - 1)\<rparr>)
      else let postIds = nextWindow s
           in if postIds = [] then (None, s)
              else (Some (PAppend postIds (unloaded_ids s postIds)),
                    s\<lparr>loadingBelow := True,
                      appendingPlaceholders := appendingPlaceholders s + int (length postIds)\<rparr>))"

definition prependMore_start :: "pstream \<Rightarrow> pending option \<times> pstream" where
  "prependMore_start s =
     (if \<not> canPrependMore s then (None, s)
      else if isMegaTopic s then (Some PPrependMega, s\<lparr>loadingAbove := True\<rparr>)
      else let postIds = previousWindow s
           in if postIds = [] then (None, s)
              else (Some (PPrepend (rev postIds) (unloaded_ids s (rev postIds))),
                    s\<lparr>loadingAbove := True\<rparr>))"

definition finish_append :: "int list \<Rightarrow> int list \<Rightarrow> answer \<Rightarrow> pstream \<Rightarrow> pstream" where
  "finish_append ids unloaded ans s =
     (let (rs, s1) = findPostsByIds ids unloaded ans s;
          s2 = fold appendPost rs s1
      in s2\<lparr>appendingPlaceholders := appendingPlaceholders s2 - int (length ids), loadingBelow := False\<rparr>)"

definition finish_append_mega :: "answer \<Rightarrow> pstream \<Rightarrow> pstream" where
  "finish_append_mega ans s =
     (let s2 = fetchNextWindow appendPost ans s
      in s2\<lparr>appendingPlaceholders := appendingPlaceholders s2 - (int (t_chunk_size (topic s2)) - 1),
            loadingBelow := False\<rparr>)"

definition finish_prepend :: "int list \<Rightarrow> int list \<Rightarrow> answer \<Rightarrow> pstream \<Rightarrow> pstream" where
  "finish_prepend ids unloaded ans s =
     (let (rs, s1) = findPostsByIds ids unloaded ans s;
          s2 = fold prependPost rs s1
      in s2\<lparr>loadingAbove := False\<rparr>)"

definition finish_prepend_mega :: "answer \<Rightarrow> pstream \<Rightarrow> pstream" where
  "finish_prepend_mega ans s = (fetchNextWindow prependPost ans s)\<lparr>loadingAbove := False\<rparr>"

section \<open>Gaps\<close>

text \<open>
  \<open>fillGapBefore\<close>: the head of the gap enters the stream at once; the posts follow when they are
  loaded, in front of \<open>post\<close>.
\<close>

definition fillGapBefore_start :: "ref \<Rightarrow> int list \<Rightarrow> pstream \<Rightarrow> pending option \<times> pstream" where
  "fillGapBefore_start post gap s =
     (let postId = post_id s post;
          index = index_of (stream s) postId
      in if index = -1 then (None, s)
         else let postIndex = index_of (posts s) post;
                  headGap = js_slice 0 (int (t_chunk_size (topic s))) gap;
                  tailGap = js_slice_from (int (t_chunk_size (topic s))) gap;
                  s1 = s\<lparr>stream := splice_in (nat index) headGap (stream s)\<rparr>
              in if postIndex = -1 then (None, s1)
                 else (Some (PGapBefore post postId headGap tailGap (nat postIndex) (unloaded_ids s1 headGap)), s1))"

definition gap_insert :: "ref \<Rightarrow> nat \<times> pstream \<Rightarrow> nat \<times> pstream" where
  "gap_insert r acc =
     (let (postIndex, s) = acc;
          (stored, s1) = storePost (Some r) (initUserModels r s)
      in case stored of
           None \<Rightarrow> (postIndex, s1)
         | Some q \<Rightarrow> if q \<in> set (posts s1) then (postIndex, s1)
                      else (Suc postIndex, s1\<lparr>posts := splice_in postIndex [q] (posts s1)\<rparr>))"

definition finish_gap_before ::
    "ref \<Rightarrow> int \<Rightarrow> int list \<Rightarrow> int list \<Rightarrow> nat \<Rightarrow> int list \<Rightarrow> answer \<Rightarrow> pstream \<Rightarrow> js_error option \<times> pstream" where
  "finish_gap_before post postId headGap tailGap postIndex unloaded ans s =
     (let (rs, s1) = findPostsByIds headGap unloaded ans s;
          s2 = snd (fold gap_insert rs (postIndex, s1))
      in case gapsOf s2 of
           None \<Rightarrow> (Some (TypeError ''Cannot read properties of null (reading 'before')''), s2)
         | Some g \<Rightarrow>
             (let b = (if length tailGap > 0 then om_set postId tailGap (g_before g)
                       else om_delete postId (g_before g));
                  s3 = on_store (set_prop post ''hasGap'' (JBool False)) (s2\<lparr>gapsOf := Some (g\<lparr>g_before := b\<rparr>)\<rparr>)
              in (None, gapExpanded s3)))"

text \<open>\<open>fillGapAfter\<close> puts the whole gap at the end of the stream and loads the next window.\<close>

definition fillGapAfter_start :: "ref \<Rightarrow> int list \<Rightarrow> pstream \<Rightarrow> pending option \<times> pstream" where
  "fillGapAfter_start post gap s =
     (let postId = post_id s post
      in if index_of (stream s) postId = -1 then (None, s)
         else let (p, s1) = appendMore_start (s\<lparr>stream := stream s @ gap\<rparr>)
              in (Some (PGapAfter postId p), s1))"

definition gap_after_done :: "int \<Rightarrow> pstream \<Rightarrow> js_error option \<times> pstream" where
  "gap_after_done postId s =
     (case gapsOf s of
        None \<Rightarrow> (Some (TypeError ''Cannot read properties of null (reading 'after')''), s)
      | Some g \<Rightarrow> (None, gapExpanded (s\<lparr>gapsOf := Some (g\<lparr>g_after := om_delete postId (g_after g)\<rparr>)\<rparr>)))"

section \<open>New posts\<close>

definition add_to_batch :: "nat \<Rightarrow> int list \<Rightarrow> pstream \<Rightarrow> pstream" where
  "add_to_batch b ids s = s\<lparr>batches := (batches s)[b := fold push_new ids (batches s ! b)]\<rparr>"

definition current_batch :: "pstream \<Rightarrow> nat \<times> pstream" where
  "current_batch s =
     (case loadingPostIds s of
        Some b \<Rightarrow> (b, s)
      | None \<Rightarrow> (length (batches s), s\<lparr>batches := batches s @ [[]],
                    loadingPostIds := Some (length (batches s))\<rparr>))"

definition triggerNewPosts_start :: "int list \<Rightarrow> pstream \<Rightarrow> pending option \<times> pstream" where
  "triggerNewPosts_start postIds s =
     (if postIds = [] then (None, s)
      else if \<not> hasNoFilters s then (None, s)
      else let (b, s1) = current_batch s;
               missing = filter (\<lambda>i. i \<noteq> 0 \<and> i \<notin> set (stream s1)) postIds
           in if missing = [] then (None, s1)
              else if loadedAllPosts s1
              then let s2 = (add_to_batch b missing s1)\<lparr>loadingLastPost := True\<rparr>
                   in (Some (PNewPosts b (unloaded_ids s2 (batches s2 ! b))), s2)
              else (None, s1\<lparr>stream := fold push_new missing (stream s1)\<rparr>))"

definition new_post :: "ref \<Rightarrow> pstream \<Rightarrow> pstream" where
  "new_post r s =
     (if \<exists>u \<in> set (ignored_users s). rprop (st s) r ''username'' = JStr u
      then s\<lparr>stream := remove_value (stream s) (post_id s r)\<rparr>
      else appendPost r (push_id (post_id s r) s))"

definition finish_new_posts :: "nat \<Rightarrow> int list \<Rightarrow> answer \<Rightarrow> pstream \<Rightarrow> pstream" where
  "finish_new_posts b unloaded ans s =
     (let (rs, s1) = findPostsByIds (batches s ! b) unloaded ans s;
          s2 = fold new_post rs (s1\<lparr>loadingPostIds := None\<rparr>)
      in s2\<lparr>loadingLastPost := False\<rparr>)"

section \<open>All finishes\<close>

fun finish :: "pending \<Rightarrow> answer \<Rightarrow> pstream \<Rightarrow> js_error option \<times> pstream" where
  "finish (PAppend ids un) ans s = (None, finish_append ids un ans s)"
| "finish PAppendMega ans s = (None, finish_append_mega ans s)"
| "finish (PPrepend ids un) ans s = (None, finish_prepend ids un ans s)"
| "finish PPrependMega ans s = (None, finish_prepend_mega ans s)"
| "finish (PNewPosts b un) ans s = (None, finish_new_posts b un ans s)"
| "finish (PGapBefore post i hg tg k un) ans s = finish_gap_before post i hg tg k un ans s"
| "finish (PGapAfter i None) ans s = gap_after_done i s"
| "finish (PGapAfter i (Some p)) ans s = gap_after_done i (snd (finish p ans s))"

section \<open>What storing a payload keeps\<close>

lemma store_payload_spec:
  assumes inv: "stream_inv s" and pl: "post_payload ob"
  shows "stream_inv (store_payload ob s)"
    "posts (store_payload ob s) = posts s" "stream (store_payload ob s) = stream s"
    "om_get (imap (store_payload ob s)) (payload_id ob) \<noteq> None"
    "om_get (imap s) i = Some r \<Longrightarrow> om_get (imap (store_payload ob s)) i = Some r"
    "grows (st s) (st (store_payload ob s))"
    "next_ref (st s) \<le> next_ref (st (store_payload ob s))"
proof -
  obtain r s1 where c: "create_post ob s = (r, s1)" "stream_inv s1" "post_ok (st s1) r"
    "post_id s1 r = payload_id ob" "post_id s1 r \<noteq> 0" "grows (st s) (st s1)"
    "next_ref (st s) \<le> next_ref (st s1)"
    "posts s1 = posts s" "imap s1 = imap s" "stream s1 = stream s" "s1 = s\<lparr>st := st s1\<rparr>"
    by (rule create_post_spec [OF assms])
  obtain s2 where sp: "storePost (Some r) s1 = (Some (filed_as s1 r), s2)" "stream_inv s2"
    "heap_frame (st s1) (st s2)"
    "om_get (imap s2) = (om_get (imap s1))(post_id s1 r \<mapsto> filed_as s1 r)"
    "posts s2 = posts s1" "stream s2 = stream s1"
    by (rule storePost_spec [OF c(2,3,5)])
  have eq: "store_payload ob s = s2" by (simp add: store_payload_def c(1) sp(1))
  show "stream_inv (store_payload ob s)" "posts (store_payload ob s) = posts s"
    "stream (store_payload ob s) = stream s"
    "om_get (imap (store_payload ob s)) (payload_id ob) \<noteq> None"
    using sp c by (simp_all add: eq)
  show "om_get (imap s) i = Some r \<Longrightarrow> om_get (imap (store_payload ob s)) i = Some r" for i r
    using sp(4) c(9) by (auto simp: eq filed_as_def)
  show "grows (st s) (st (store_payload ob s))"
    using heap_frame_keeps(3,4) [OF sp(3)] c(6) by (simp add: eq grows_def)
  show "next_ref (st s) \<le> next_ref (st (store_payload ob s))"
    using sp(3) c(7) by (simp add: eq heap_frame_def)
qed

text \<open>What a later state keeps of an earlier one while posts are only added to the identity map.\<close>

definition extends :: "pstream \<Rightarrow> pstream \<Rightarrow> bool" where
  "extends s s' \<longleftrightarrow> stream_inv s' \<and> posts s' = posts s \<and> stream s' = stream s \<and>
     om_get (imap s) \<subseteq>\<^sub>m om_get (imap s') \<and>
     grows (st s) (st s') \<and> next_ref (st s) \<le> next_ref (st s')"

lemma grows_refl [simp]: "grows h h"
  by (simp add: grows_def)

lemma grows_trans: "grows h h' \<Longrightarrow> grows h' h'' \<Longrightarrow> next_ref h \<le> next_ref h' \<Longrightarrow> grows h h''"
  by (simp add: grows_def)

lemma extends_refl: "stream_inv s \<Longrightarrow> extends s s"
  by (simp add: extends_def)

lemma extends_trans: "extends s s' \<Longrightarrow> extends s' s'' \<Longrightarrow> extends s s''"
  by (auto simp: extends_def intro: map_le_trans grows_trans)

lemma extends_store_payload:
  "stream_inv s \<Longrightarrow> post_payload ob \<Longrightarrow> extends s (store_payload ob s)"
  using store_payload_spec [of s ob] by (auto simp: extends_def map_le_def)

lemma fold_store_payload:
  assumes "stream_inv s" and "\<forall>ob \<in> set obs. post_payload ob"
  shows "extends s (fold store_payload obs s) \<and>
    (\<forall>ob \<in> set obs. om_get (imap (fold store_payload obs s)) (payload_id ob) \<noteq> None)"
  using assms
proof (induction obs arbitrary: s)
  case (Cons ob obs)
  let ?s1 = "store_payload ob s" and ?s2 = "fold store_payload (ob # obs) s"
  have e1: "extends s ?s1" using extends_store_payload Cons.prems by simp
  then have ih: "extends ?s1 ?s2"
    "\<forall>ob \<in> set obs. om_get (imap ?s2) (payload_id ob) \<noteq> None"
    using Cons.IH [of ?s1] Cons.prems by (simp_all add: extends_def)
  obtain q where "om_get (imap ?s1) (payload_id ob) = Some q"
    using store_payload_spec(4) [of s ob] Cons.prems by auto
  then have "om_get (imap ?s2) (payload_id ob) \<noteq> None"
    using ih(1) by (force simp: extends_def map_le_def)
  then show ?case using extends_trans [OF e1 ih(1)] ih(2) by simp
qed (simp add: extends_refl)

lemma topic_change_inv:
  "stream_inv (on_topic f s) = stream_inv s" "extends s (on_topic f s') = extends s s'"
  by (auto simp: stream_inv_def on_topic_def extends_def)

lemma extends_answer_head:
  "stream_inv s \<Longrightarrow> extends s (add_badges res (setSuggestedTopics res s))"
  by (simp add: add_badges_def setSuggestedTopics_def topic_change_inv extends_refl split: option.split)

definition good_answer :: "answer \<Rightarrow> bool" where
  "good_answer ans \<longleftrightarrow> (case ans of Answer res \<Rightarrow> \<forall>ob \<in> set (or_else (r_posts res) []). post_payload ob | _ \<Rightarrow> True)"

definition answers :: "int list \<Rightarrow> answer \<Rightarrow> bool" where
  "answers ids ans \<longleftrightarrow> ids = [] \<or> (\<exists>res. ans = Answer res \<and>
     set ids \<subseteq> payload_id ` set (or_else (r_posts res) []))"

lemma loadIntoIdentityMap_spec:
  assumes "stream_inv s" and "good_answer ans"
  shows "extends s (loadIntoIdentityMap ids ans s)"
    "answers ids ans \<Longrightarrow> i \<in> set ids \<Longrightarrow> om_get (imap (loadIntoIdentityMap ids ans s)) i \<noteq> None"
proof -
  have "extends s (loadIntoIdentityMap ids ans s) \<and>
    (answers ids ans \<longrightarrow> i \<in> set ids \<longrightarrow> om_get (imap (loadIntoIdentityMap ids ans s)) i \<noteq> None)"
  proof (cases "ids = []")
    case True
    then show ?thesis using assms(1) by (simp add: loadIntoIdentityMap_def extends_refl)
  next
    case False
    show ?thesis
    proof (cases ans)
      case (Answer res)
      let ?h = "add_badges res (setSuggestedTopics res s)"
      have h: "extends s ?h" by (rule extends_answer_head [OF assms(1)])
      then have inv: "stream_inv ?h" by (simp add: extends_def)
      have pls: "\<forall>ob \<in> set (or_else (r_posts res) []). post_payload ob"
        using assms(2) Answer by (simp add: good_answer_def)
      from fold_store_payload [OF inv pls] h show ?thesis
        using False Answer extends_trans by (force simp: loadIntoIdentityMap_def answers_def)
    qed (use assms(1) False in \<open>simp_all add: loadIntoIdentityMap_def extends_refl answers_def\<close>)
  qed
  then show "extends s (loadIntoIdentityMap ids ans s)"
    "answers ids ans \<Longrightarrow> i \<in> set ids \<Longrightarrow> om_get (imap (loadIntoIdentityMap ids ans s)) i \<noteq> None"
    by blast+
qed

lemma posts_by_ids_spec:
  assumes "stream_inv s"
  shows "r \<in> set (posts_by_ids s ids) \<Longrightarrow> om_get (imap s) (post_id s r) = Some r \<and> post_ok (st s) r \<and> post_id s r \<noteq> 0 \<and> post_id s r \<in> set ids"
    and "\<forall>i \<in> set ids. om_get (imap s) i \<noteq> None \<Longrightarrow> map (post_id s) (posts_by_ids s ids) = ids"
proof -
  show "om_get (imap s) (post_id s r) = Some r \<and> post_ok (st s) r \<and> post_id s r \<noteq> 0 \<and> post_id s r \<in> set ids"
    if "r \<in> set (posts_by_ids s ids)"
    using that filed_okD [OF stream_invD(2) [OF assms]]
    by (auto simp: posts_by_ids_def List.map_filter_def)
  show "map (post_id s) (posts_by_ids s ids) = ids" if "\<forall>i \<in> set ids. om_get (imap s) i \<noteq> None"
    using that filed_okD(2) [OF stream_invD(2) [OF assms]]
    by (induction ids) (auto simp: posts_by_ids_def List.map_filter_simps)
qed

section \<open>Appending and prepending filed posts\<close>

lemma append_filed:
  assumes inv: "stream_inv s" and r: "om_get (imap s) (post_id s r) = Some r" "post_ok (st s) r" "post_id s r \<noteq> 0"
  shows "stream_inv (appendPost r s)" "posts (appendPost r s) = push_new r (posts s)"
    "stream (appendPost r s) = stream s" "om_get (imap (appendPost r s)) = om_get (imap s)"
    "post_id (appendPost r s) = post_id s" "post_ok (st (appendPost r s)) = post_ok (st s)"
proof -
  note ap = appendPost_spec [OF inv r(2,3)]
  have "filed_as s r = r" using r(1) by (simp add: filed_as_def)
  then show "stream_inv (appendPost r s)" "posts (appendPost r s) = push_new r (posts s)"
    "stream (appendPost r s) = stream s" "om_get (imap (appendPost r s)) = om_get (imap s)"
    using ap r(1) by (simp_all add: fun_upd_idem)
  show "post_id (appendPost r s) = post_id s" "post_ok (st (appendPost r s)) = post_ok (st s)"
    by (rule heap_frame_keeps(3,4) [OF ap(2)])+
qed

lemma prepend_filed:
  assumes inv: "stream_inv s" and r: "om_get (imap s) (post_id s r) = Some r" "post_ok (st s) r" "post_id s r \<noteq> 0"
  shows "stream_inv (prependPost r s)"
    "posts (prependPost r s) = (if r \<in> set (posts s) then posts s else r # posts s)"
    "stream (prependPost r s) = stream s" "om_get (imap (prependPost r s)) = om_get (imap s)"
    "post_id (prependPost r s) = post_id s" "post_ok (st (prependPost r s)) = post_ok (st s)"
proof -
  note ap = prependPost_spec [OF inv r(2,3)]
  have "filed_as s r = r" using r(1) by (simp add: filed_as_def)
  then show "stream_inv (prependPost r s)"
    "posts (prependPost r s) = (if r \<in> set (posts s) then posts s else r # posts s)"
    "stream (prependPost r s) = stream s" "om_get (imap (prependPost r s)) = om_get (imap s)"
    using ap r(1) by (simp_all add: fun_upd_idem)
  show "post_id (prependPost r s) = post_id s" "post_ok (st (prependPost r s)) = post_ok (st s)"
    by (rule heap_frame_keeps(3,4) [OF ap(2)])+
qed

definition all_filed :: "pstream \<Rightarrow> ref list \<Rightarrow> bool" where
  "all_filed s rs \<longleftrightarrow> (\<forall>r \<in> set rs. om_get (imap s) (post_id s r) = Some r \<and> post_ok (st s) r \<and> post_id s r \<noteq> 0)"

lemma fold_append_filed:
  assumes "stream_inv s" and "all_filed s rs"
  shows "stream_inv (fold appendPost rs s) \<and> posts (fold appendPost rs s) = fold push_new rs (posts s) \<and>
    stream (fold appendPost rs s) = stream s \<and> post_id (fold appendPost rs s) = post_id s"
  using assms
proof (induction rs arbitrary: s)
  case (Cons r rs)
  then have r: "om_get (imap s) (post_id s r) = Some r" "post_ok (st s) r" "post_id s r \<noteq> 0"
    by (simp_all add: all_filed_def)
  note a = append_filed [OF Cons.prems(1) r]
  have "all_filed (appendPost r s) rs"
    using Cons.prems(2) a by (simp add: all_filed_def)
  from Cons.IH [OF a(1) this] a show ?case by simp
qed simp

lemma fold_prepend_filed:
  assumes "stream_inv s" and "all_filed s rs" and "distinct rs" and "set rs \<inter> set (posts s) = {}"
  shows "stream_inv (fold prependPost rs s) \<and> posts (fold prependPost rs s) = rev rs @ posts s \<and>
    stream (fold prependPost rs s) = stream s \<and> post_id (fold prependPost rs s) = post_id s"
  using assms
proof (induction rs arbitrary: s)
  case (Cons r rs)
  then have r: "om_get (imap s) (post_id s r) = Some r" "post_ok (st s) r" "post_id s r \<noteq> 0"
    by (simp_all add: all_filed_def)
  note a = prepend_filed [OF Cons.prems(1) r]
  have "all_filed (prependPost r s) rs"
    using Cons.prems(2) a by (simp add: all_filed_def)
  moreover have "set rs \<inter> set (posts (prependPost r s)) = {}"
    using Cons.prems(3,4) a(2) by auto
  ultimately show ?case
    using Cons.IH [OF a(1)] Cons.prems(3,4) a by simp
qed simp

end
