(* ===== verification/PostWindow.thy ===== *)
theory PostWindow
  imports PostLoading
begin

text \<open>
  What loading more posts does to the window: the loaded posts are a contiguous piece of the
  stream, and \<open>appendMore\<close> and \<open>prependMore\<close> extend that piece by the next chunk of ids at its
  end or its front, whichever of these posts the client already had in its identity map.
\<close>

section \<open>Fields that loading leaves alone\<close>

definition flags where
  "flags s = (appendingPlaceholders s, loadingBelow s, loadingAbove s, loadingFilter s, stagingPost s,
     isMegaTopic s, t_chunk_size (topic s), own_highest_post_number s, loadingLastPost s,
     loadingPostIds s, batches s, gapsOf s)"

lemma fold_keeps: "(\<And>x s. f (g x s) = f s) \<Longrightarrow> f (fold g xs s) = f s"
  by (induction xs arbitrary: s) simp_all

lemma flags_storePost: "flags (snd (storePost r s)) = flags s"
  by (simp add: flags_def storePost_def on_store_def raise_highest_def Let_def split: option.split)

lemma flags_init: "flags (initUserModels r s) = flags s"
  by (simp add: flags_def initUserModels_def on_store_def split: jsval.split)

lemma flags_append [simp]: "flags (appendPost r s) = flags s"
proof -
  obtain q s1 where sp: "storePost (Some r) (initUserModels r s) = (q, s1)" by force
  then have "flags s1 = flags s" using flags_storePost [of "Some r" "initUserModels r s"] flags_init by simp
  then show ?thesis by (simp add: appendPost_def sp Let_def flags_def split: option.split)
qed

lemma flags_prepend [simp]: "flags (prependPost r s) = flags s"
proof -
  obtain q s1 where sp: "storePost (Some r) (initUserModels r s) = (q, s1)" by force
  then have "flags s1 = flags s" using flags_storePost [of "Some r" "initUserModels r s"] flags_init by simp
  then show ?thesis by (simp add: prependPost_def sp Let_def flags_def split: option.split)
qed

lemma flags_create [simp]: "flags (snd (create_post ob s)) = flags s"
  by (simp add: create_post_def flags_def split: prod.split)

lemma flags_store_payload [simp]: "flags (store_payload ob s) = flags s"
  using flags_create [of ob s] flags_storePost by (simp add: store_payload_def case_prod_beta)

lemma flags_head [simp]: "flags (add_badges res s) = flags s" "flags (setSuggestedTopics res s) = flags s"
  by (simp_all add: add_badges_def setSuggestedTopics_def flags_def on_topic_def split: option.split)

lemma flags_load [simp]: "flags (loadIntoIdentityMap ids ans s) = flags s"
  by (simp add: loadIntoIdentityMap_def fold_keeps split: answer.split)

lemma flags_find: "findPostsByIds ids un ans s = (rs, s') \<Longrightarrow> flags s' = flags s"
  by (auto simp: findPostsByIds_def Let_def)

lemma flags_fetched:
  assumes "\<And>r s. flags (cb r s) = flags s"
  shows "flags (fetched cb ob s) = flags s"
proof -
  obtain r s1 where c: "create_post ob s = (r, s1)" by force
  obtain q s2 where sp: "storePost (Some r) s1 = (q, s2)" by force
  have "flags s1 = flags s" using flags_create [of ob s] c by simp
  moreover have "flags s2 = flags s1" using flags_storePost [of "Some r" s1] sp by simp
  ultimately show ?thesis using assms by (simp add: fetched_def c sp split: option.split)
qed

lemma flags_fetch:
  assumes "\<And>r s. flags (cb r s) = flags s"
  shows "flags (fetchNextWindow cb ans s) = flags s"
  using fold_keeps [of flags "fetched cb"] flags_fetched [of cb, OF assms]
  by (simp add: fetchNextWindow_def split: answer.split)

section \<open>The window\<close>

definition window :: "pstream \<Rightarrow> int list \<Rightarrow> int list \<Rightarrow> bool" where
  "window s upper lower \<longleftrightarrow> stream s = upper @ map (post_id s) (posts s) @ lower \<and>
     distinct (stream s) \<and> posts s \<noteq> []"

lemma windowD:
  assumes "window s upper lower"
  shows "distinct upper" "distinct lower" "set upper \<inter> post_id s ` set (posts s) = {}"
    "set lower \<inter> post_id s ` set (posts s) = {}"
proof -
  have "distinct (upper @ map (post_id s) (posts s) @ lower)" using assms by (metis window_def)
  then show "distinct upper" "distinct lower" "set upper \<inter> post_id s ` set (posts s) = {}"
    "set lower \<inter> post_id s ` set (posts s) = {}"
    by (simp_all add: Int_Un_distrib Int_commute)
qed

lemma nextWindow_window:
  assumes "window s upper lower" and "own_highest_post_number s = None"
  shows "nextWindow s = take (t_chunk_size (topic s)) lower"
proof -
  let ?ids = "map (post_id s) (posts s)"
  let ?k = "length upper + length (posts s)"
  have l: "last_opt (posts s) = Some (last (posts s))"
    using assms(1) by (simp add: window_def last_opt_def)
  have sp: "stream s = (upper @ butlast ?ids) @ last ?ids # lower"
    using assms(1) append_butlast_last_id [of ?ids] unfolding window_def
    by (metis append.assoc append_Cons append_Nil map_is_Nil_conv)
  have ne: "posts s \<noteq> []" using assms(1) by (simp add: window_def)
  have "index_of (stream s) (last ?ids) = int (length (upper @ butlast ?ids))"
    using assms(1) unfolding sp window_def by (intro index_of_append) auto
  moreover have "last ?ids = post_id s (last (posts s))" using ne by (simp add: last_map)
  ultimately have idx: "indexOf s (last (posts s)) = int ?k - 1"
    using ne by (cases "posts s" rule: rev_cases) (simp_all add: indexOf_def)
  have pos: "int ?k - 1 \<noteq> -1" using ne by (cases "posts s") simp_all
  have "js_slice (int ?k) (int (?k + t_chunk_size (topic s))) (stream s) =
      take (t_chunk_size (topic s)) lower"
    unfolding js_slice_nat using assms(1) by (simp add: window_def)
  then show ?thesis
    using l pos assms(2) by (simp add: nextWindow_def Let_def idx add.commute add.left_commute)
qed

lemma previousWindow_window:
  assumes "window s upper lower"
  shows "previousWindow s = drop (length upper - t_chunk_size (topic s)) upper"
proof -
  obtain p ps where ps: "posts s = p # ps" using assms by (cases "posts s") (auto simp: window_def)
  have str: "stream s = upper @ post_id s p # map (post_id s) ps @ lower"
    using assms ps by (simp add: window_def)
  have idx: "indexOf s p = int (length upper)"
    using assms str by (simp add: indexOf_def window_def index_of_append)
  let ?c = "t_chunk_size (topic s)"
  have "(if int (length upper) - int ?c < 0 then 0 else int (length upper) - int ?c) = int (length upper - ?c)"
    by auto
  moreover have "js_slice (int (length upper - ?c)) (int (length upper)) (stream s) = drop (length upper - ?c) upper"
    unfolding js_slice_nat str by simp
  ultimately show ?thesis
    using ps idx by (simp add: previousWindow_def first_opt_def Let_def)
qed

lemma fold_push_new_fresh:
  "distinct rs \<Longrightarrow> set rs \<inter> set xs = {} \<Longrightarrow> fold push_new rs xs = xs @ rs"
  by (induction rs arbitrary: xs) (auto simp: push_new_def)

text \<open>The posts that a successful \<open>findPostsByIds\<close> hands over, for ids that are not loaded.\<close>

lemma findPosts_fresh:
  assumes inv: "stream_inv s" and good: "good_answer ans" and un: "un = unloaded_ids s ids"
    and ans: "answers un ans" and dis: "distinct ids" "set ids \<inter> post_id s ` set (posts s) = {}"
  obtains rs s' where "findPostsByIds ids un ans s = (rs, s')" "extends s s'" "all_filed s' rs"
    "map (post_id s') rs = ids" "distinct rs" "set rs \<inter> set (posts s') = {}" "flags s' = flags s"
    "map (post_id s') (posts s') = map (post_id s) (posts s)"
proof -
  let ?s' = "loadIntoIdentityMap un ans s"
  let ?rs = "posts_by_ids ?s' ids"
  have ext: "extends s ?s'" by (rule loadIntoIdentityMap_spec(1) [OF inv good])
  then have inv': "stream_inv ?s'" and ps: "posts ?s' = posts s" by (simp_all add: extends_def)
  have "om_get (imap ?s') i \<noteq> None" if "i \<in> set ids" for i
  proof (cases "om_get (imap s) i")
    case None
    then have "i \<in> set un" using that un by (simp add: unloaded_ids_def)
    then show ?thesis using loadIntoIdentityMap_spec(2) [OF inv good ans] by blast
  next
    case (Some r)
    then show ?thesis using ext by (force simp: extends_def map_le_def)
  qed
  then have ids: "map (post_id ?s') ?rs = ids" using posts_by_ids_spec(2) [OF inv'] by blast
  have filed: "all_filed ?s' ?rs" using posts_by_ids_spec(1) [OF inv'] by (simp add: all_filed_def)
  have "distinct ?rs" using ids dis(1) by (metis distinct_map)
  have keep: "post_id ?s' q = post_id s q" if "q \<in> set (posts s)" for q
    using filed_okD(3) [OF stream_invD(2) [OF inv] stream_invD(4) [OF inv that]] ext
    by (simp add: extends_def post_ok_def grows_def)
  have "q \<notin> set (posts s)" if "q \<in> set ?rs" for q
  proof
    assume "q \<in> set (posts s)"
    then have "post_id ?s' q \<in> post_id s ` set (posts s)" using keep by simp
    moreover have "post_id ?s' q \<in> set ids" using that ids by (metis image_eqI set_map)
    ultimately show False using dis(2) by blast
  qed
  then show ?thesis
    using that [of ?rs ?s'] ext filed ids \<open>distinct ?rs\<close> ps keep
    by (auto simp: findPostsByIds_def Let_def)
qed

text \<open>
  C1. \<open>appendMore\<close> in a topic whose loaded posts are a contiguous piece of the stream: when the
  request is answered with the posts asked for, the posts of the next ids of the stream (at most a
  chunk) are added at the end, the loaded posts are again a contiguous piece, the stream and the
  number of placeholders are what they were and nothing is loading below.
\<close>

theorem appendMore_window:
  assumes inv: "stream_inv s" and w: "window s upper lower"
    and normal: "\<not> isMegaTopic s" "own_highest_post_number s = None"
    and start: "appendMore_start s = (Some (PAppend ids un), s1)"
    and ans: "good_answer ans" "answers un ans"
    and s2_def: "s2 = snd (finish (PAppend ids un) ans s1)"
  shows "ids = take (t_chunk_size (topic s)) lower \<and> stream s2 = stream s \<and>
    map (post_id s2) (posts s2) = map (post_id s) (posts s) @ ids \<and>
    window s2 upper (drop (t_chunk_size (topic s)) lower) \<and>
    appendingPlaceholders s2 = appendingPlaceholders s \<and> \<not> loadingBelow s2 \<and> stream_inv s2"
proof -
  let ?c = "t_chunk_size (topic s)"
  have can: "canAppendMore s" and ids: "ids = take ?c lower" "un = unloaded_ids s ids"
    and s1: "s1 = s\<lparr>loadingBelow := True, appendingPlaceholders := appendingPlaceholders s + int (length ids)\<rparr>"
    using start normal unfolding appendMore_start_def Let_def nextWindow_window [OF w normal(2)]
    by (auto split: if_splits)
  have same: "stream_inv s1" "posts s1 = posts s" "stream s1 = stream s" "post_id s1 = post_id s"
      "un = unloaded_ids s1 ids"
    using inv s1 ids(2) by (simp_all add: stream_inv_def unloaded_ids_def)
  have "set ids \<subseteq> set lower" using ids(1) by (auto dest: in_set_takeD)
  then have d: "distinct ids" "set ids \<inter> post_id s1 ` set (posts s1) = {}"
    using windowD(2,4) [OF w] ids(1) same by auto
  obtain rs s' where f: "findPostsByIds ids un ans s1 = (rs, s')" "extends s1 s'" "all_filed s' rs"
    "map (post_id s') rs = ids" "distinct rs" "set rs \<inter> set (posts s') = {}" "flags s' = flags s1"
    "map (post_id s') (posts s') = map (post_id s1) (posts s1)"
    by (rule findPosts_fresh [OF same(1) ans(1) same(5) ans(2) d])
  let ?t = "fold appendPost rs s'"
  have t: "stream_inv ?t" "posts ?t = posts s' @ rs" "stream ?t = stream s'" "post_id ?t = post_id s'"
    using fold_append_filed [of s' rs] f fold_push_new_fresh [OF f(5,6)] by (simp_all add: extends_def)
  have "flags ?t = flags s1" using fold_keeps [of flags appendPost] f(7) by simp
  then have ph: "appendingPlaceholders ?t = appendingPlaceholders s + int (length ids)"
    using s1 by (simp add: flags_def)
  have s2: "s2 = ?t\<lparr>appendingPlaceholders := appendingPlaceholders ?t - int (length ids), loadingBelow := False\<rparr>"
    by (simp add: s2_def finish_append_def f(1) Let_def)
  have ps: "map (post_id s2) (posts s2) = map (post_id s) (posts s) @ ids"
    using s2 t f(4,8) same by simp
  have st: "stream s2 = stream s" using s2 t(3) f(2) same by (simp add: extends_def)
  have ne: "posts s2 \<noteq> []" using w s2 t(2) f(2) same(2) by (simp add: window_def extends_def)
  have "stream s2 = upper @ map (post_id s2) (posts s2) @ drop ?c lower"
    using w ps st ids(1) by (simp add: window_def)
  then have "window s2 upper (drop ?c lower)" using w st ne by (metis window_def)
  then show ?thesis using ids(1) ps st ph s2 t(1) by (simp add: stream_inv_def)
qed

text \<open>
  C19. \<open>prependMore\<close> in the same situation: the ids before the loaded posts (at most a chunk of
  them) are loaded in front, in stream order, and the loaded posts stay a contiguous piece of the
  unchanged stream.
\<close>

theorem prependMore_window:
  assumes inv: "stream_inv s" and w: "window s upper lower" and normal: "\<not> isMegaTopic s"
    and start: "prependMore_start s = (Some (PPrepend ids un), s1)"
    and ans: "good_answer ans" "answers un ans"
    and s2_def: "s2 = snd (finish (PPrepend ids un) ans s1)"
  shows "rev ids = drop (length upper - t_chunk_size (topic s)) upper \<and> stream s2 = stream s \<and>
    map (post_id s2) (posts s2) = rev ids @ map (post_id s) (posts s) \<and>
    window s2 (take (length upper - t_chunk_size (topic s)) upper) lower \<and>
    \<not> loadingAbove s2 \<and> stream_inv s2"
proof -
  let ?k = "length upper - t_chunk_size (topic s)"
  have ids: "ids = rev (drop ?k upper)" "un = unloaded_ids s ids" and s1: "s1 = s\<lparr>loadingAbove := True\<rparr>"
    using start normal previousWindow_window [OF w]
    by (auto simp: prependMore_start_def Let_def split: if_splits)
  have same: "stream_inv s1" "posts s1 = posts s" "stream s1 = stream s" "post_id s1 = post_id s"
      "un = unloaded_ids s1 ids"
    using inv s1 ids(2) by (simp_all add: stream_inv_def unloaded_ids_def)
  have "set ids \<subseteq> set upper" using ids(1) by (auto dest: in_set_dropD)
  then have d: "distinct ids" "set ids \<inter> post_id s1 ` set (posts s1) = {}"
    using windowD(1,3) [OF w] ids(1) same by auto
  obtain rs s' where f: "findPostsByIds ids un ans s1 = (rs, s')" "extends s1 s'" "all_filed s' rs"
    "map (post_id s') rs = ids" "distinct rs" "set rs \<inter> set (posts s') = {}" "flags s' = flags s1"
    "map (post_id s') (posts s') = map (post_id s1) (posts s1)"
    by (rule findPosts_fresh [OF same(1) ans(1) same(5) ans(2) d])
  let ?t = "fold prependPost rs s'"
  have t: "stream_inv ?t" "posts ?t = rev rs @ posts s'" "stream ?t = stream s'" "post_id ?t = post_id s'"
    using fold_prepend_filed [of s' rs] f by (simp_all add: extends_def)
  have s2: "s2 = ?t\<lparr>loadingAbove := False\<rparr>"
    by (simp add: s2_def finish_prepend_def f(1) Let_def)
  have ps: "map (post_id s2) (posts s2) = rev ids @ map (post_id s) (posts s)"
    using s2 t f(4,8) same by (simp add: rev_map [symmetric])
  have st: "stream s2 = stream s" using s2 t(3) f(2) same by (simp add: extends_def)
  have ne: "posts s2 \<noteq> []" using w s2 t(2) f(2) same(2) by (simp add: window_def extends_def)
  have "stream s2 = take ?k upper @ map (post_id s2) (posts s2) @ lower"
    using w ps st ids(1) by (simp add: window_def)
  then have "window s2 (take ?k upper) lower" using w st ne by (metis window_def)
  then show ?thesis using ids(1) ps st s2 t(1) by (simp add: stream_inv_def)
qed

text \<open>A topic of three posts of which one is loaded, and the server's answer.\<close>

definition demo_first :: pstream where
  "demo_first = append_payload (demo_payload 10 1) (empty_stream [10, 11, 12])"

definition demo_last :: pstream where
  "demo_last = append_payload (demo_payload 12 3) (empty_stream [10, 11, 12])"

definition demo_answer :: "int list \<Rightarrow> answer" where
  "demo_answer ids = Answer \<lparr>r_posts = Some (map (\<lambda>i. demo_payload i (i - 9)) ids),
     r_suggested = None, r_user_badges = None\<rparr>"

lemma demo_answer_ok: "\<forall>i \<in> set ids. i > 0 \<Longrightarrow> good_answer (demo_answer ids)" "answers ids (demo_answer ids)"
  by (auto simp: good_answer_def demo_answer_def or_else_def answers_def image_image comp_def)
    (auto simp: demo_payload_def pget_def)

lemma demo_ends_inv: "stream_inv demo_first" "stream_inv demo_last"
  unfolding demo_first_def demo_last_def
  using append_payload_ids(1) [OF empty_stream_inv, of "demo_payload 10 1"]
    append_payload_ids(1) [OF empty_stream_inv, of "demo_payload 12 3"] by simp_all

lemmas can_more_defs = canAppendMore_def canPrependMore_def notLoading_def loading_def hasPosts_def
  lastPostNotLoaded_def loadedAllPosts_def hasLoadedData_def filteredPostsCount_def lastPostId_def
  last_opt_def firstPostNotLoaded_def firstPostPresent_def

lemma demo_ends:
  "window demo_first [] [11, 12]" "window demo_last [10, 11] []"
  "\<not> isMegaTopic demo_first" "\<not> isMegaTopic demo_last"
  "own_highest_post_number demo_first = None" "own_highest_post_number demo_last = None"
  "t_chunk_size (topic demo_first) = 2" "t_chunk_size (topic demo_last) = 2"
  "canAppendMore demo_first" "canPrependMore demo_last"
  "unloaded_ids demo_first [11, 12] = [11, 12]" "unloaded_ids demo_last [11, 10] = [11, 10]"
  "map (post_id demo_first) (posts demo_first) = [10]" "map (post_id demo_last) (posts demo_last) = [12]"
  by (simp_all add: demo_first_def demo_last_def window_def can_more_defs unloaded_ids_def demo_defs)

theorem appendMore_window_witness:
  "map (post_id (snd (finish (PAppend [11, 12] [11, 12]) (demo_answer [11, 12]) (snd (appendMore_start demo_first)))))
     (posts (snd (finish (PAppend [11, 12] [11, 12]) (demo_answer [11, 12]) (snd (appendMore_start demo_first)))))
   = [10, 11, 12]"
proof -
  have "nextWindow demo_first = [11, 12]"
    using nextWindow_window [OF demo_ends(1,5)] by (simp add: demo_ends)
  then have "appendMore_start demo_first = (Some (PAppend [11, 12] [11, 12]), snd (appendMore_start demo_first))"
    by (simp add: appendMore_start_def demo_ends Let_def)
  from appendMore_window [OF demo_ends_inv(1) demo_ends(1,3,5) this demo_answer_ok refl]
  show ?thesis by (simp add: demo_ends)
qed

theorem prependMore_window_witness:
  "map (post_id (snd (finish (PPrepend [11, 10] [11, 10]) (demo_answer [11, 10]) (snd (prependMore_start demo_last)))))
     (posts (snd (finish (PPrepend [11, 10] [11, 10]) (demo_answer [11, 10]) (snd (prependMore_start demo_last)))))
   = [10, 11, 12]"
proof -
  have "previousWindow demo_last = [10, 11]"
    using previousWindow_window [OF demo_ends(2)] by (simp add: demo_ends)
  then have "prependMore_start demo_last = (Some (PPrepend [11, 10] [11, 10]), snd (prependMore_start demo_last))"
    by (simp add: prependMore_start_def demo_ends Let_def)
  from prependMore_window [OF demo_ends_inv(2) demo_ends(2,4) this demo_answer_ok refl]
  show ?thesis by (simp add: demo_ends)
qed

end
