(* ===== verification/PostRefresh.thy ===== *)
theory PostRefresh
  imports PostWindow
begin

text \<open>
  Loading and reloading the topic (\<open>refresh\<close>, \<open>errorLoading\<close> and the filters of
  \<open>models/post-stream.js\<close>) and the operations that react to a change of a single post. As in
  \<open>PostLoading\<close>, a method that waits for the server is a start and a finish. \<open>loadTopicView\<close> (of
  \<open>models/topic.js\<close>) is the answer handed to the finish. Jumping to a post and highlighting it are
  not modelled, nor are the handlers that plugins put around \<open>errorLoading\<close>.
\<close>

section \<open>Refreshing\<close>

text \<open>The options of \<open>refresh\<close>; \<open>o_params\<close> are the other query parameters.\<close>

record refresh_opts =
  o_nearPost :: "int option"
  o_cancelFilter :: bool
  o_forceLoad :: bool
  o_refreshInPlace :: bool
  o_params :: jobj

definition no_opts :: refresh_opts where
  "no_opts = \<lparr>o_nearPost = None, o_cancelFilter = False, o_forceLoad = False,
     o_refreshInPlace = False, o_params = []\<rparr>"

text \<open>
  \<open>_checkIfShouldShowRevisions\<close>: a remembered click is consumed, and shows the revision when its
  post is loaded in this topic.
\<close>

definition checkRevisions :: "pstream \<Rightarrow> pstream" where
  "checkRevisions s =
     (case last_edit_click s of
        None \<Rightarrow> s
      | Some (topicId, postNumber, revision) \<Rightarrow>
          (let s1 = s\<lparr>last_edit_click := None\<rparr>
           in if topicId = t_id (topic s) \<and> postNumber \<in> set (map (post_number s) (posts s))
              then s1\<lparr>shown_revisions := shown_revisions s @ [(postNumber, revision)]\<rparr>
              else s1))"

text \<open>
  The request of a refresh is \<open>Some\<close> query, \<open>None\<close> when the post is loaded already. The options
  and the filters are flat objects, so merging them assigns the filters over the options.
\<close>

definition refresh_params :: "refresh_opts \<Rightarrow> jobj" where
  "refresh_params opts =
     (case o_nearPost opts of None \<Rightarrow> [] | Some n \<Rightarrow> [(''nearPost'', JNum n)]) @
     (if o_forceLoad opts then [(''forceLoad'', JBool True)] else []) @
     (if o_refreshInPlace opts then [(''refreshInPlace'', JBool True)] else []) @ o_params opts"

definition refresh_start :: "refresh_opts \<Rightarrow> pstream \<Rightarrow> jobj option \<times> pstream" where
  "refresh_start opts s =
     (let s1 = (if o_cancelFilter opts then cancelFilter s else s);
          postWeWant = find (\<lambda>p. post_number s1 p = or_else (o_nearPost opts) 0) (posts s1)
      in if \<not> o_forceLoad opts \<and> postWeWant \<noteq> None then (None, checkRevisions s1)
         else let s2 = (if o_forceLoad opts then s1\<lparr>loaded := False\<rparr> else s1);
                  s3 = (if \<not> o_refreshInPlace opts then s2\<lparr>loadingFilter := True\<rparr> else s2);
                  s4 = s3\<lparr>loadingNearPost := o_nearPost opts\<rparr>
              in (Some (assign (refresh_params opts) (streamFilters s4)), s4))"

record topic_view =
  v_post_stream :: "stream_json option"
  v_timeline_lookup :: "(int \<times> int) list"

text \<open>
  A failed request: without a response, or with a status and the response's extras. The finish also
  tells whether the promise of the refresh is rejected.
\<close>

datatype load_error =
    NoXHR
  | Xhr int "(jsval \<times> jsval) option"

definition errorLoading :: "jsval \<Rightarrow> load_error \<Rightarrow> pstream \<Rightarrow> pstream" where
  "errorLoading server_error err s =
     (let s1 = on_topic (\<lambda>t. t\<lparr>t_errorLoading := True\<rparr>) (s\<lparr>loadingFilter := False\<rparr>)
      in case err of
           NoXHR \<Rightarrow> s1
         | Xhr status (Some (title, html)) \<Rightarrow>
             (if truthy html
              then on_topic (\<lambda>t. t\<lparr>t_errorTitle := title, t_errorHtml := html\<rparr>) s1
              else on_topic (\<lambda>t. t\<lparr>t_errorMessage := server_error, t_noRetry := (status = 403)\<rparr>) s1)
         | Xhr status None \<Rightarrow>
             on_topic (\<lambda>t. t\<lparr>t_errorMessage := server_error, t_noRetry := (status = 403)\<rparr>) s1)"

definition refresh_finish :: "jsval \<Rightarrow> load_error + topic_view \<Rightarrow> pstream \<Rightarrow> bool \<times> pstream" where
  "refresh_finish server_error ans s = (case ans of
      Inl err \<Rightarrow> (True, (errorLoading server_error err s)\<lparr>loadingNearPost := None\<rparr>)
    | Inr v \<Rightarrow>
        (let s1 = updateFromJson (v_post_stream v) s;
             s2 = checkRevisions (s1\<lparr>loadingFilter := False, timelineLookup := v_timeline_lookup v,
                    loaded := True\<rparr>);
             s3 = on_topic (\<lambda>t. t\<lparr>t_errorLoading := False, t_errorTitle := JNull, t_errorHtml := JNull,
                    t_errorMessage := JNull, t_noRetry := False\<rparr>) s2
         in (False, s3\<lparr>loadingNearPost := None\<rparr>)))"

section \<open>Filters\<close>

definition showTopReplies :: "pstream \<Rightarrow> jobj option \<times> pstream" where
  "showTopReplies s = refresh_start no_opts ((cancelFilter s)\<lparr>filter_name := Some ''summary''\<rparr>)"

definition filterParticipant :: "string \<Rightarrow> pstream \<Rightarrow> jobj option \<times> pstream" where
  "filterParticipant username s =
     (let s1 = cancelFilter s
      in refresh_start no_opts (s1\<lparr>userFilters := push_new username (userFilters s1)\<rparr>))"

definition filterReplies :: "int \<Rightarrow> pstream \<Rightarrow> jobj option \<times> pstream" where
  "filterReplies postNumber s =
     refresh_start (no_opts\<lparr>o_refreshInPlace := True\<rparr>)
       ((cancelFilter s)\<lparr>filterRepliesToPostNumber := postNumber\<rparr>)"

definition filterUpwards :: "int \<Rightarrow> pstream \<Rightarrow> jobj option \<times> pstream" where
  "filterUpwards postId s =
     refresh_start (no_opts\<lparr>o_refreshInPlace := True\<rparr>) ((cancelFilter s)\<lparr>filterUpwardsPostID := postId\<rparr>)"

section \<open>Changes of a single post\<close>

text \<open>
  The answer of \<open>/posts/:id\<close> is the payload of the post, \<open>None\<close> for a failure. A finish of an
  operation that fails leaves the state as it is and its promise is rejected.
\<close>

definition loadPost_finish :: "ref option \<Rightarrow> jobj option \<Rightarrow> pstream \<Rightarrow> pstream" where
  "loadPost_finish existing ans s =
     (case ans of
        None \<Rightarrow> s
      | Some ob \<Rightarrow> store_payload (case existing of
           None \<Rightarrow> ob
         | Some e \<Rightarrow> om_set ''cooked'' (rprop (st s) e ''cooked'') ob) s)"

definition triggerChangedPost_start :: "int \<Rightarrow> jsval \<Rightarrow> pstream \<Rightarrow> ref option" where
  "triggerChangedPost_start postId updatedAt s =
     (if postId = 0 then None
      else case om_get (imap s) postId of
        None \<Rightarrow> None
      | Some e \<Rightarrow> if rprop (st s) e ''updated_at'' \<noteq> updatedAt then Some e else None)"

definition triggerChangedPost_finish :: "bool \<Rightarrow> ref \<Rightarrow> jobj option \<Rightarrow> pstream \<Rightarrow> pstream" where
  "triggerChangedPost_finish preserveCooked existing ans s =
     loadPost_finish (if preserveCooked then Some existing else None) ans s"

definition triggerDeletedPost_start :: "int \<Rightarrow> pstream \<Rightarrow> ref option" where
  "triggerDeletedPost_start postId s =
     (case om_get (imap s) postId of
        None \<Rightarrow> None
      | Some e \<Rightarrow> if truthy (rprop (st s) e ''deleted_at'') then None else Some e)"

definition triggerDeletedPost_finish :: "ref \<Rightarrow> jobj option \<Rightarrow> pstream \<Rightarrow> pstream result" where
  "triggerDeletedPost_finish existing ans s =
     (case ans of
        Some ob \<Rightarrow> Inr (store_payload ob s)
      | None \<Rightarrow> removePosts [Some existing] s)"

text \<open>
  A recovered post that is not in the identity map is stored and zipped into the stream and into
  the loaded posts by its id. \<open>post\<close> is the record that \<open>createRecord\<close> gave.
\<close>

definition zip_id :: "int \<Rightarrow> pstream \<Rightarrow> pstream" where
  "zip_id i s = s\<lparr>stream := splice_in (length (filter (\<lambda>k. k < i) (stream s))) [i] (stream s)\<rparr>"

definition triggerRecoveredPost_finish :: "jobj \<Rightarrow> pstream \<Rightarrow> js_error option \<times> pending option \<times> pstream" where
  "triggerRecoveredPost_finish ob s =
     (let (post, s1) = create_post ob s;
          s2 = snd (storePost (Some post) s1);
          s3 = zip_id (payload_id ob) s2;
          index = length (filter (\<lambda>q. post_id s3 q < payload_id ob) (posts s3))
      in if index < length (posts s3)
         then (None, None, s3\<lparr>posts := splice_in index [post] (posts s3)\<rparr>)
         else case last_opt (posts s3) of
           None \<Rightarrow> (Some (TypeError ''Cannot read properties of undefined (reading 'post_number')''), None, s3)
         | Some l \<Rightarrow>
             (if post_number s3 post < post_number s3 l + 5
              then let (p, s4) = appendMore_start s3 in (None, p, s4)
              else (None, None, s3)))"

definition triggerReadPost :: "int \<Rightarrow> int \<Rightarrow> pstream \<Rightarrow> pstream" where
  "triggerReadPost postId readersCount s =
     (case findLoadedPost s postId of
        None \<Rightarrow> s
      | Some r \<Rightarrow>
          (if js_less (rprop (st s) r ''readers_count'') (JNum readersCount)
           then snd (storePost (Some r) (on_store (set_prop r ''readers_count'' (JNum readersCount)) s))
           else s))"

definition triggerChangedTopicStats :: "pstream \<Rightarrow> int option" where
  "triggerChangedTopicStats s =
     (if firstPostNotLoaded s then None
      else map_option (post_id s) (find (\<lambda>p. post_number s p = 1) (posts s)))"

section \<open>Excerpts\<close>

text \<open>
  \<open>backfillExcerpts\<close>: the ids to ask for are those within 20 places of the position that have no
  excerpt yet. The loop of the code deletes from the end, which is the filter \<open>missing_excerpts\<close>
  takes in one pass.
\<close>

fun drop_known :: "(int \<Rightarrow> bool) \<Rightarrow> nat \<Rightarrow> int list \<Rightarrow> int list" where
  "drop_known known 0 ids = ids"
| "drop_known known (Suc i) ids =
     drop_known known i (if known (ids ! i) then splice_out i ids else ids)"

definition missing_excerpts :: "(int \<Rightarrow> bool) \<Rightarrow> pstream \<Rightarrow> int \<Rightarrow> int list" where
  "missing_excerpts known s streamPosition =
     (let postIds = js_slice (max (streamPosition - 20) 0) (streamPosition + 20) (stream s)
      in drop_known known (length postIds) postIds)"

section \<open>Lemmas\<close>

lemma drop_known_split:
  "drop_known known (length pre) (pre @ post) = filter (\<lambda>i. \<not> known i) pre @ post"
proof (induction pre arbitrary: post rule: rev_induct)
  case (snoc x pre)
  have "drop_known known (length (pre @ [x])) ((pre @ [x]) @ post) =
        drop_known known (length pre) (pre @ (if known x then post else x # post))"
    by (simp add: splice_out_def nth_append)
  then show ?case by (simp add: snoc.IH)
qed simp

lemma missing_excerpts_filter:
  "missing_excerpts known s i =
     filter (\<lambda>k. \<not> known k) (js_slice (max (i - 20) 0) (i + 20) (stream s))"
  using drop_known_split [of known "js_slice (max (i - 20) 0) (i + 20) (stream s)" "[]"]
  by (simp add: missing_excerpts_def Let_def)

lemma splice_sorted:
  fixes i :: int
  assumes "sorted xs"
  shows "splice_in (length (filter (\<lambda>k. k < i) xs)) [i] xs = insort i xs"
  using assms
proof (induction xs)
  case (Cons x xs)
  show ?case
  proof (cases "x < i")
    case False
    with Cons.prems have "filter (\<lambda>k. k < i) xs = []" by (auto simp: filter_empty_conv)
    with False show ?thesis by (simp add: splice_in_def)
  qed (use Cons in \<open>simp add: splice_in_def\<close>)
qed (simp add: splice_in_def)

lemma appendMore_start_stream: "appendMore_start s = (p, s') \<Longrightarrow> stream s' = stream s \<and> st s' = st s"
  by (auto simp: appendMore_start_def Let_def split: if_splits)

lemma recovered_stream:
  assumes "stream_inv s" and "post_payload ob" and "triggerRecoveredPost_finish ob s = (e, p, s')"
  shows "stream s' = splice_in (length (filter (\<lambda>k. k < payload_id ob) (stream s))) [payload_id ob] (stream s)"
proof -
  obtain post s1 where c: "create_post ob s = (post, s1)" by force
  let ?s3 = "zip_id (payload_id ob) (snd (storePost (Some post) s1))"
  have "stream ?s3 = splice_in (length (filter (\<lambda>k. k < payload_id ob) (stream s))) [payload_id ob] (stream s)"
    using store_payload_spec(3) [OF assms(1,2)] c by (simp add: zip_id_def store_payload_def)
  moreover have "stream s' = stream ?s3"
    using assms(3) appendMore_start_stream
    by (auto simp: triggerRecoveredPost_finish_def c Let_def split: if_splits option.splits prod.splits)
  ultimately show ?thesis by simp
qed

text \<open>
  \<open>triggerRecoveredPost\<close> puts the recovered id into its place of an ascending stream: the
  stream is again ascending and has the id once more than before. So an id that is still in the
  stream (its post was merely not loaded) is there twice afterwards.
\<close>

theorem recovered_in_order:
  assumes "stream_inv s" and "post_payload ob" and "sorted (stream s)"
    and fin: "triggerRecoveredPost_finish ob s = (e, p, s')"
  shows "stream s' = insort (payload_id ob) (stream s) \<and> sorted (stream s') \<and>
    count_list (stream s') (payload_id ob) = Suc (count_list (stream s) (payload_id ob)) \<and>
    (payload_id ob \<in> set (stream s) \<longrightarrow> \<not> distinct (stream s'))"
proof -
  have st: "stream s' = insort (payload_id ob) (stream s)"
    using recovered_stream [OF assms(1,2) fin] splice_sorted [OF assms(3)] by simp
  have cnt: "count_list (insort i xs) (i :: int) = Suc (count_list xs i)" for i xs
    by (induction xs) auto
  have "\<not> distinct (stream s')" if "payload_id ob \<in> set (stream s)"
    using that st by (simp add: distinct_insort)
  then show ?thesis using st assms(3) cnt by (simp add: sorted_insort)
qed

theorem recovered_in_order_witness:
  "sorted (stream (snd (snd (triggerRecoveredPost_finish (demo_payload 11 2) demo_first)))) \<and>
   \<not> distinct (stream (snd (snd (triggerRecoveredPost_finish (demo_payload 11 2) demo_first))))"
proof -
  have str: "stream demo_first = [10, 11, 12]" "payload_id (demo_payload 11 2) = 11"
    by (simp_all add: demo_first_def demo_defs)
  show ?thesis
    using recovered_in_order [OF demo_ends_inv(1), of "demo_payload 11 2"
        "fst (triggerRecoveredPost_finish (demo_payload 11 2) demo_first)"
        "fst (snd (triggerRecoveredPost_finish (demo_payload 11 2) demo_first))"
        "snd (snd (triggerRecoveredPost_finish (demo_payload 11 2) demo_first))"] str
    by simp
qed

end
