(* ===== verification/PostProtocol.thy ===== *)
theory PostProtocol
  imports PostRefresh
begin

text \<open>
  The asynchronous operations of the post stream interleaved: the state and the requests under way
  (\<open>pending\<close>) step by calls and by answers, in any order. The invariant says that whatever the
  order, no post is loaded twice, the placeholders are exactly those of the requests under way and
  the loading flags tell whether one is.
\<close>

section \<open>Evolving states\<close>

definition meters where
  "meters s = (appendingPlaceholders s, loadingBelow s, loadingAbove s, t_chunk_size (topic s))"












lemma stream_only_inv [simp]: "stream_inv (s\<lparr>stream := xs\<rparr>) = stream_inv s"
  by (simp add: stream_inv_def)

lemma push_id_fields [simp]:
  "st (push_id i s) = st s" "imap (push_id i s) = imap s" "stream_inv (push_id i s) = stream_inv s"
  "meters (push_id i s) = meters s"
  by (simp_all add: push_id_def meters_def)


section \<open>The finishes\<close>





section \<open>Requests under way\<close>











section \<open>The calls\<close>

definition with_pending :: "pending option \<Rightarrow> pending list \<Rightarrow> pending list" where
  "with_pending p ps = (case p of None \<Rightarrow> ps | Some q \<Rightarrow> q # ps)"












lemma checkRevisions_fields [simp]:
  "st (checkRevisions s) = st s" "posts (checkRevisions s) = posts s" "imap (checkRevisions s) = imap s"
  "stream (checkRevisions s) = stream s" "topic (checkRevisions s) = topic s"
  "appendingPlaceholders (checkRevisions s) = appendingPlaceholders s"
  "loadingBelow (checkRevisions s) = loadingBelow s" "loadingAbove (checkRevisions s) = loadingAbove s"
  by (simp_all add: checkRevisions_def Let_def split: option.split)



section \<open>The step relation\<close>

text \<open>
  A call of one of the operations, or an answer to one of the requests under way. The answers carry
  posts as the server sends them (\<open>good_answer\<close>). A single post that answers \<open>loadPost\<close>,
  \<open>triggerChangedPost\<close> or \<open>triggerDeletedPost\<close> is the step \<open>changed\<close>, a failed
  \<open>triggerDeletedPost\<close> the step \<open>deleted\<close>. The answer to \<open>triggerRecoveredPost\<close> is a step while
  the post is still not filed, as it was when the request was made: a post that was loaded in the
  meantime is inserted a second time, see \<open>recovered_meanwhile\<close>. The posts one writes oneself
  (\<open>stagePost\<close>, \<open>commitPost\<close>, \<open>undoPost\<close>) are not steps: they are the subject of the theory
  PostStaging, whose \<open>commit_after_bus_duplicates\<close> shows that committing a post that came over the
  bus already loads it twice.
\<close>

inductive pstep :: "pstream \<times> pending list \<Rightarrow> pstream \<times> pending list \<Rightarrow> bool" where
  call_append: "appendMore_start s = (p, s') \<Longrightarrow> pstep (s, ps) (s', with_pending p ps)"
| call_prepend: "prependMore_start s = (p, s') \<Longrightarrow> pstep (s, ps) (s', with_pending p ps)"
| call_gap_before: "post \<in> set (posts s) \<Longrightarrow> fillGapBefore_start post gap s = (p, s') \<Longrightarrow>
    pstep (s, ps) (s', with_pending p ps)"
| call_gap_after: "fillGapAfter_start post gap s = (p, s') \<Longrightarrow> pstep (s, ps) (s', with_pending p ps)"
| call_new_posts: "triggerNewPosts_start ids s = (p, s') \<Longrightarrow> pstep (s, ps) (s', with_pending p ps)"
| call_refresh: "refresh_start opts s = (req, s') \<Longrightarrow> pstep (s, ps) (s', ps)"
| refreshed: "\<forall>v j. ans = Inr v \<longrightarrow> v_post_stream v = Some j \<longrightarrow> (\<forall>ob \<in> set (j_posts j). post_payload ob) \<Longrightarrow>
    refresh_finish se ans s = (rejected, s') \<Longrightarrow> pstep (s, ps) (s', ps)"
| changed: "post_payload ob \<Longrightarrow> pstep (s, ps) (store_payload ob s, ps)"
| recovered: "post_payload ob \<Longrightarrow> om_get (imap s) (payload_id ob) = None \<Longrightarrow>
    triggerRecoveredPost_finish ob s = (e, p, s') \<Longrightarrow> pstep (s, ps) (s', with_pending p ps)"
| deleted: "om_get (imap s) i = Some r \<Longrightarrow> triggerDeletedPost_finish r None s = Inr s' \<Longrightarrow> pstep (s, ps) (s', ps)"
| destroyed: "triggerDestroyedPost i s = Inr s' \<Longrightarrow> pstep (s, ps) (s', ps)"
| answered: "good_answer ans \<Longrightarrow> finish p ans s = (err, s') \<Longrightarrow> pstep (s, xs @ p # ys) (s', xs @ ys)"

inductive_cases pstepE: "pstep (s, ps) c"



lemma not_distinct_splice_in: "x \<in> set xs \<Longrightarrow> \<not> distinct (splice_in k [x] xs)"
  by (metis append_take_drop_id distinct.simps(2) distinct_append disjoint_iff in_set_conv_decomp
      list.set_intros(1) set_append splice_in_def Un_iff append.simps)

text \<open>
  A post that is loaded by the time the answer of \<open>triggerRecoveredPost\<close> comes is inserted again:
  two loaded posts have its id.
\<close>

theorem recovered_meanwhile:
  assumes inv: "stream_inv s" and pl: "post_payload ob" and loaded: "q \<in> set (posts s)" "post_id s q = payload_id ob"
    and fin: "triggerRecoveredPost_finish ob s = (e, p, s')"
  shows "\<not> distinct (map (post_id s') (posts s'))"
proof -
  obtain r s1 where c: "create_post ob s = (r, s1)" "stream_inv s1" "post_ok (st s1) r"
    "post_id s1 r = payload_id ob" "post_id s1 r \<noteq> 0" "grows (st s) (st s1)"
    "next_ref (st s) \<le> next_ref (st s1)"
    "posts s1 = posts s" "imap s1 = imap s" "stream s1 = stream s" "s1 = s\<lparr>st := st s1\<rparr>"
    by (rule create_post_spec [OF inv pl])
  obtain s2 where sp: "storePost (Some r) s1 = (Some (filed_as s1 r), s2)" "stream_inv s2"
    "heap_frame (st s1) (st s2)"
    "om_get (imap s2) = (om_get (imap s1))(post_id s1 r \<mapsto> filed_as s1 r)"
    "posts s2 = posts s1" "stream s2 = stream s1"
    by (rule storePost_spec [OF c(2,3,5)])
  let ?s3 = "zip_id (payload_id ob) s2"
  let ?k = "length (filter (\<lambda>q. post_id ?s3 q < payload_id ob) (posts ?s3))"
  have f: "om_get (imap s) (payload_id ob) = Some q" "q \<in> set (posts s)"
    using loaded stream_invD(4) [OF inv loaded(1)] by simp_all
  have idq: "post_id s1 q = payload_id ob"
    using filed_okD(2) [OF stream_invD(2) [OF c(2)]] f(1) c(9) by simp
  have ps: "posts ?s3 = posts s" "st ?s3 = st s2" by (simp_all add: zip_id_def sp(5) c(8))
  have ids: "post_id s2 = post_id s1" by (rule heap_frame_keeps(3) [OF sp(3)])
  have lt: "?k < length (posts ?s3)"
  proof -
    have "q \<in> set (posts s)" "\<not> post_id s2 q < payload_id ob" using f(2) idq ids by simp_all
    then show ?thesis using ps by (simp add: length_filter_less)
  qed
  then have s': "s' = ?s3\<lparr>posts := splice_in ?k [r] (posts ?s3)\<rparr>"
    using fin sp(1) by (auto simp: triggerRecoveredPost_finish_def c(1) Let_def)
  let ?ids = "map (post_id s2) (posts s)"
  have "map (post_id s') (posts s') = splice_in ?k [payload_id ob] ?ids"
    using s' ps ids c(4) by (simp add: splice_in_def take_map drop_map)
  moreover have "payload_id ob \<in> set ?ids" using f(2) idq ids by force
  ultimately show ?thesis
    using not_distinct_splice_in by metis
qed

theorem recovered_meanwhile_witness:
  "\<not> distinct (let s = snd (snd (triggerRecoveredPost_finish (demo_payload 10 1) demo_loaded))
     in map (post_id s) (posts s))"
proof -
  have l: "0 \<in> set (posts demo_loaded)" "post_id demo_loaded 0 = payload_id (demo_payload 10 1)"
    by (simp_all add: demo_defs)
  show ?thesis
    using recovered_meanwhile [OF demo_loaded_inv demo_payload_ok l,
        of "fst (triggerRecoveredPost_finish (demo_payload 10 1) demo_loaded)"
          "fst (snd (triggerRecoveredPost_finish (demo_payload 10 1) demo_loaded))"]
    by (simp add: Let_def)
qed








end
