(* ===== verification/NumObject.thy ===== *)
theory NumObject
  imports JsPrelude
begin

text \<open>
  Plain objects whose keys are array indices or other natural numbers. JavaScript enumerates such
  keys in ascending order, whatever the order of insertion, so the object is the association list
  that is sorted by key. \<open>Object.keys(o).lastObject\<close> is then the largest key.
\<close>

type_synonym 'v num_object = "(nat \<times> 'v) list"

fun nm_set :: "nat \<Rightarrow> 'v \<Rightarrow> 'v num_object \<Rightarrow> 'v num_object" where
  "nm_set k v [] = [(k, v)]"
| "nm_set k v ((a, b) # m) =
     (if a = k then (k, v) # m
      else if k < a then (k, v) # (a, b) # m
      else (a, b) # nm_set k v m)"

abbreviation nm_wf :: "'v num_object \<Rightarrow> bool" where
  "nm_wf m \<equiv> sorted_wrt (<) (om_keys m)"

lemma nm_get_set [simp]: "om_get (nm_set k v m) = (om_get m)(k \<mapsto> v)"
  by (induction k v m rule: nm_set.induct) (auto simp: fun_eq_iff)

lemma nm_keys_set [simp]: "set (om_keys (nm_set k v m)) = insert k (set (om_keys m))"
  by (induction k v m rule: nm_set.induct) auto

lemma nm_wf_set [simp, intro]: "nm_wf m \<Longrightarrow> nm_wf (nm_set k v m)"
proof (induction k v m rule: nm_set.induct)
  case (2 k v a b m)
  have "set (om_keys (nm_set k v m)) = insert k (set (om_keys m))" by (rule nm_keys_set)
  with 2 show ?case by force
qed simp

lemma nm_wf_delete: "nm_wf m \<Longrightarrow> nm_wf (om_delete k m)"
  by (simp add: om_keys_delete sorted_wrt_filter)

lemma nm_wf_distinct: "nm_wf m \<Longrightarrow> om_wf m"
  by (simp add: strict_sorted_iff)

interpretation nm: keyed_store om_get nm_set om_delete om_keys nm_wf
  by unfold_locales (simp_all only: nm_get_set om_get_delete om_has_iff nm_wf_set nm_wf_delete simp_thms)

lemma nm_last_greatest:
  assumes "nm_wf m" and "k \<in> set (om_keys m)"
  shows "k \<le> last (om_keys m)"
proof -
  obtain ks where "om_keys m = ks @ [last (om_keys m)]"
    using assms(2) by (metis append_butlast_last_id empty_iff empty_set)
  then show ?thesis using assms
    by (metis Un_iff insert_iff list.simps(15) order.order_iff_strict set_append sorted_wrt_append empty_iff empty_set)
qed

text \<open>\<open>{ ...a, ...b }\<close> has the entries of \<open>b\<close> over those of \<open>a\<close>.\<close>

definition nm_spread :: "'v num_object \<Rightarrow> 'v num_object \<Rightarrow> 'v num_object" where
  "nm_spread a b = fold (\<lambda>(k, v). nm_set k v) b a"

lemma nm_get_spread: "om_wf b \<Longrightarrow>
    om_get (nm_spread a b) k = (case om_get b k of None \<Rightarrow> om_get a k | Some v \<Rightarrow> Some v)"
proof (induction b arbitrary: a)
  case (Cons e b)
  obtain x v where e: "e = (x, v)" by force
  then have "om_get b x = None" using Cons.prems by (simp add: map_of_eq_None_iff)
  then show ?case using Cons by (auto simp: e nm_spread_def split: option.split)
qed (simp add: nm_spread_def)

lemma nm_wf_spread: "nm_wf a \<Longrightarrow> nm_wf (nm_spread a b)"
  by (induction b arbitrary: a) (auto simp: nm_spread_def)

end
