(* ===== verification/Category.thy ===== *)
theory Category
  imports ObjectTools
begin

text \<open>
  The category tree of \<open>frontend/discourse/app/models/category.js\<close> and the lookups of
  \<open>models/site.js\<close> behind it: finding categories by id and by slug path, the slug of a category,
  its subcategories, descendants and ancestors, and the order in which categories are listed.

  A parent id of 0 is a missing one (the code tests it by truthiness). The site's category list is
  the argument \<open>cats\<close>; \<open>list\<close> is \<open>Category.list()\<close>, the same categories in display order.
  \<open>encode\<close> and \<open>decode\<close> stand for \<open>encodeURI\<close> and \<open>decodeURI\<close> where slugs are encoded, and are the
  identity otherwise.
\<close>

section \<open>Lookups\<close>

record category =
  c_id :: int
  c_slug :: string
  c_parent_category_id :: int

type_synonym cats = "category list"

text \<open>\<open>new Map(entries)\<close> keeps the last entry of a key.\<close>

definition findById :: "cats \<Rightarrow> int \<Rightarrow> category option" where
  "findById cats i = (if i = 0 then None else find (\<lambda>c. c_id c = i) (rev cats))"

definition findByIds :: "cats \<Rightarrow> int list \<Rightarrow> category list" where
  "findByIds cats ids = List.map_filter (findById cats) ids"

definition parentCategory :: "cats \<Rightarrow> category \<Rightarrow> category option" where
  "parentCategory cats c =
     (if c_parent_category_id c \<noteq> 0 then findById cats (c_parent_category_id c) else None)"

definition subcategories :: "cats \<Rightarrow> category \<Rightarrow> category list" where
  "subcategories cats c = filter (\<lambda>d. c_parent_category_id d = c_id c) cats"

text \<open>
  The loop of \<open>descendants\<close> runs over a list that it extends; \<open>todo\<close> is the part not visited yet.
  On a cycle of parents it would not end, so it takes fuel.
\<close>

fun visit :: "cats \<Rightarrow> nat \<Rightarrow> category list \<Rightarrow> category list option" where
  "visit cats fuel [] = Some []"
| "visit cats 0 (c # todo) = None"
| "visit cats (Suc fuel) (c # todo) =
     map_option (\<lambda>rest. c # rest) (visit cats fuel (todo @ subcategories cats c))"

definition descendants :: "cats \<Rightarrow> nat \<Rightarrow> category \<Rightarrow> category list option" where
  "descendants cats fuel c = visit cats fuel [c]"

text \<open>\<open>predecessors\<close> and \<open>level\<close> follow the parents; on a cycle they would not end either.\<close>

fun predecessors :: "cats \<Rightarrow> nat \<Rightarrow> category \<Rightarrow> category list option" where
  "predecessors cats 0 c = None"
| "predecessors cats (Suc fuel) c =
     (case parentCategory cats c of
        None \<Rightarrow> Some []
      | Some p \<Rightarrow> map_option (\<lambda>ps. p # ps) (predecessors cats fuel p))"

section \<open>Slugs\<close>

definition whitespace :: "char \<Rightarrow> bool" where
  "whitespace ch \<longleftrightarrow> ch \<in> set [CHR '' '', CHR 0x09, CHR 0x0A, CHR 0x0B, CHR 0x0C, CHR 0x0D]"

definition own_slug :: "category \<Rightarrow> string" where
  "own_slug c = (if list_all whitespace (c_slug c)
     then show_int (c_id c) @ ''-category'' else c_slug c)"

fun slugFor :: "cats \<Rightarrow> category \<Rightarrow> string \<Rightarrow> nat \<Rightarrow> string" where
  "slugFor cats c separator 0 = own_slug c"
| "slugFor cats c separator (Suc depth) =
     (case parentCategory cats c of
        Some p \<Rightarrow> (if depth > 0 then slugFor cats p separator depth @ separator else [])
      | None \<Rightarrow> []) @ own_slug c"

definition findBySlugAndParent :: "cats \<Rightarrow> cats \<Rightarrow> (string \<Rightarrow> string) \<Rightarrow> string \<Rightarrow> category option \<Rightarrow> category option" where
  "findBySlugAndParent cats list encode slug parent =
     find (\<lambda>c. c_slug c = encode slug \<and> parentCategory cats c = parent) list"

fun slug_path_loop ::
    "cats \<Rightarrow> cats \<Rightarrow> (string \<Rightarrow> string) \<Rightarrow> string list \<Rightarrow> category option \<Rightarrow> category option" where
  "slug_path_loop cats list encode [] category = category"
| "slug_path_loop cats list encode (slug # slugs) category =
     (case findBySlugAndParent cats list encode slug category of
        None \<Rightarrow> None
      | Some c \<Rightarrow> slug_path_loop cats list encode slugs (Some c))"

definition findBySlugPath :: "cats \<Rightarrow> cats \<Rightarrow> (string \<Rightarrow> string) \<Rightarrow> string list \<Rightarrow> category option" where
  "findBySlugPath cats list encode slugPath = slug_path_loop cats list encode slugPath None"

fun split_on :: "char \<Rightarrow> string \<Rightarrow> string list" where
  "split_on sep [] = [[]]"
| "split_on sep (ch # cs) =
     (if ch = sep then [] # split_on sep cs
      else case split_on sep cs of [] \<Rightarrow> [[ch]] | w # ws \<Rightarrow> (ch # w) # ws)"

definition is_digit :: "char \<Rightarrow> bool" where
  "is_digit ch \<longleftrightarrow> ch \<in> set ''0123456789''"

text \<open>\<open>parseInt(s, 10)\<close>: leading blanks, a sign, then digits; \<open>None\<close> stands for \<open>NaN\<close>.\<close>

definition read_int :: "string \<Rightarrow> int option" where
  "read_int s =
     (let t = dropWhile whitespace s;
          (sign, u) = (case t of ch # cs \<Rightarrow>
              if ch = CHR ''-'' then (-1, cs) else if ch = CHR ''+'' then (1, cs) else (1, t)
            | [] \<Rightarrow> (1, t));
          ds = takeWhile is_digit u
      in if ds = [] then None else Some (sign * int (read_nat ds)))"

definition findBySlugPathWithID ::
    "cats \<Rightarrow> cats \<Rightarrow> (string \<Rightarrow> string) \<Rightarrow> (string \<Rightarrow> string) \<Rightarrow> string \<Rightarrow> category option" where
  "findBySlugPathWithID cats list encode decode slugPathWithID =
     (let parts = map decode (filter (\<lambda>p. p \<noteq> []) (split_on (CHR ''/'') slugPathWithID))
      in if parts \<noteq> [] \<and> last parts \<noteq> [] \<and> list_all is_digit (last parts)
         then findById cats (int (read_nat (last parts)))
         else case findBySlugPath cats list encode parts of
           Some c \<Rightarrow> Some c
         | None \<Rightarrow>
             (if parts \<noteq> [] \<and> takeWhile is_digit (last parts) \<noteq> [] \<and>
                 take (length ''-category'') (dropWhile is_digit (last parts)) = ''-category''
              then findById cats (int (read_nat (takeWhile is_digit (last parts))))
              else None))"

definition findSingleBySlug :: "cats \<Rightarrow> cats \<Rightarrow> (string \<Rightarrow> string) \<Rightarrow> string \<Rightarrow> category option" where
  "findSingleBySlug cats list encode slug = find (\<lambda>c. slugFor cats c ''/'' 3 = encode slug) list"

definition findBySlug :: "cats \<Rightarrow> cats \<Rightarrow> (string \<Rightarrow> string) \<Rightarrow> string \<Rightarrow> string option \<Rightarrow> category option" where
  "findBySlug cats list encode slug parentSlug =
     (let by_id = (\<lambda>found. case found of
            Some c \<Rightarrow> Some c
          | None \<Rightarrow> find (\<lambda>c. Some (c_id c) = read_int slug) list)
      in case parentSlug of
           Some ps \<Rightarrow>
             (case findSingleBySlug cats list encode ps of
                None \<Rightarrow> by_id None
              | Some parent \<Rightarrow>
                  (if slug = ''none'' then Some parent
                   else by_id (find (\<lambda>item. parentCategory cats item = Some parent \<and>
                          slugFor cats item ''/'' 3 = encode ps @ ''/'' @ encode slug) list)))
         | None \<Rightarrow>
             (case findSingleBySlug cats list encode slug of
                None \<Rightarrow> by_id None
              | Some c \<Rightarrow> if parentCategory cats c \<noteq> None then None else Some c))"

section \<open>Listing\<close>

text \<open>
  \<open>sortCategories\<close> groups the categories by parent and lists every group member before its own
  group, from the group without a parent. The recursion of the code ends when no category is its
  own ancestor; \<open>fuel\<close> bounds its depth.
\<close>

definition group_of :: "cats \<Rightarrow> int \<Rightarrow> category list" where
  "group_of cats parent =
     filter (\<lambda>c. (if c_parent_category_id c = 0 then -1 else c_parent_category_id c) = parent) cats"

fun list_group :: "cats \<Rightarrow> nat \<Rightarrow> int \<Rightarrow> category list option" where
  "list_group cats fuel parent =
     (case group_of cats parent of
        [] \<Rightarrow> Some []
      | cs \<Rightarrow> (case fuel of
           0 \<Rightarrow> None
         | Suc f \<Rightarrow> map_option concat (those (map (\<lambda>c. map_option (\<lambda>sub. c # sub) (list_group cats f (c_id c))) cs))))"

declare list_group.simps [simp del]

definition sortCategories :: "cats \<Rightarrow> nat \<Rightarrow> category list option" where
  "sortCategories cats fuel = list_group cats fuel (-1)"

section \<open>The slug path finds the category\<close>

text \<open>
  What the site guarantees of its categories: the ids are distinct and not 0, and no two categories
  with the same parent have the same slug.
\<close>

definition tree_ok :: "cats \<Rightarrow> bool" where
  "tree_ok cats \<longleftrightarrow> distinct (map c_id cats) \<and> (\<forall>c \<in> set cats. c_id c \<noteq> 0 \<and> c_id c \<noteq> -1) \<and>
     (\<forall>c \<in> set cats. \<forall>d \<in> set cats. c_slug c = c_slug d \<and> parentCategory cats c = parentCategory cats d \<longrightarrow> c = d)"

lemma tree_okD:
  assumes "tree_ok cats"
  shows "distinct (map c_id cats)" "c \<in> set cats \<Longrightarrow> c_id c \<noteq> 0 \<and> c_id c \<noteq> -1"
    "c \<in> set cats \<Longrightarrow> d \<in> set cats \<Longrightarrow> c_slug c = c_slug d \<Longrightarrow>
       parentCategory cats c = parentCategory cats d \<Longrightarrow> c = d"
  using assms unfolding tree_ok_def by blast+

lemma find_Some_mem: "find P xs = Some c \<Longrightarrow> c \<in> set xs \<and> P c"
  by (induction xs) (auto split: if_splits)

lemma find_unique:
  assumes "c \<in> set xs" and "P c" and "\<And>d. d \<in> set xs \<Longrightarrow> P d \<Longrightarrow> d = c"
  shows "find P xs = Some c"
proof (cases "find P xs")
  case None
  then show ?thesis using assms(1,2) by (simp add: find_None_iff)
next
  case (Some d)
  then show ?thesis using find_Some_mem [OF Some] assms(3) by blast
qed

lemma findById_mem: "findById cats i = Some c \<Longrightarrow> c \<in> set cats \<and> c_id c = i"
  using find_Some_mem [of _ "rev cats"] by (auto simp: findById_def split: if_splits)

lemma findById_own:
  assumes "tree_ok cats" and "c \<in> set cats"
  shows "findById cats (c_id c) = Some c"
proof -
  have inj: "inj_on c_id (set cats)" using tree_okD(1) [OF assms(1)] by (simp add: distinct_map)
  have "find (\<lambda>d. c_id d = c_id c) (rev cats) = Some c"
  proof (rule find_unique)
    show "d = c" if "d \<in> set (rev cats)" "c_id d = c_id c" for d
      using inj_onD [OF inj that(2)] that(1) assms(2) by simp
  qed (use assms(2) in simp_all)
  then show ?thesis using tree_okD(2) [OF assms] by (simp add: findById_def)
qed

lemma parent_mem: "parentCategory cats c = Some p \<Longrightarrow> p \<in> set cats"
  using findById_mem by (auto simp: parentCategory_def split: if_splits)

lemma slug_path_append:
  "slug_path_loop cats list encode (xs @ [x]) c =
     (if xs = [] then findBySlugAndParent cats list encode x c
      else case slug_path_loop cats list encode xs c of
        None \<Rightarrow> None
      | Some d \<Rightarrow> findBySlugAndParent cats list encode x (Some d))"
proof (induction xs arbitrary: c)
  case Nil
  then show ?case by (simp split: option.split)
next
  case (Cons y ys)
  then show ?case by (cases ys) (auto split: option.split)
qed

lemma find_by_slug_and_parent:
  assumes "tree_ok cats" and "set list = set cats" and "c \<in> set cats"
  shows "findBySlugAndParent cats list (\<lambda>s. s) (c_slug c) (parentCategory cats c) = Some c"
  unfolding findBySlugAndParent_def
  using assms tree_okD(3) [OF assms(1)] by (intro find_unique) auto

text \<open>
  Slug paths round trip: for a category of a tree without slug clashes among siblings, looking
  up the path of slugs from its topmost ancestor down to itself finds that category.
\<close>

theorem slug_path_roundtrip:
  assumes "tree_ok cats" and "set list = set cats" and "c \<in> set cats"
    and "predecessors cats fuel c = Some ps"
  shows "findBySlugPath cats list (\<lambda>s. s) (map c_slug (rev (c # ps))) = Some c"
  using assms(3,4)
proof (induction fuel arbitrary: c ps)
  case (Suc fuel)
  show ?case
  proof (cases "parentCategory cats c")
    case None
    then show ?thesis
      using Suc.prems find_by_slug_and_parent [OF assms(1,2) Suc.prems(1)]
      by (simp add: findBySlugPath_def)
  next
    case (Some p)
    then obtain qs where qs: "predecessors cats fuel p = Some qs" "ps = p # qs"
      using Suc.prems(2) by auto
    have "findBySlugPath cats list (\<lambda>s. s) (map c_slug (rev (p # qs))) = Some p"
      using Suc.IH [OF parent_mem [OF Some] qs(1)] .
    then show ?thesis
      using find_by_slug_and_parent [OF assms(1,2) Suc.prems(1)] Some
        slug_path_append [of cats list "\<lambda>s. s" "map c_slug (rev ps)" "c_slug c" None]
      by (simp add: findBySlugPath_def qs(2))
  qed
qed simp

definition demo_cats :: cats where
  "demo_cats = [\<lparr>c_id = 3, c_slug = ''b'', c_parent_category_id = 5\<rparr>,
     \<lparr>c_id = 5, c_slug = ''a'', c_parent_category_id = 0\<rparr>,
     \<lparr>c_id = 7, c_slug = ''b'', c_parent_category_id = 0\<rparr>,
     \<lparr>c_id = 8, c_slug = ''x'', c_parent_category_id = 99\<rparr>]"

lemma demo_cats_ok: "tree_ok demo_cats"
  by (simp add: tree_ok_def demo_cats_def parentCategory_def findById_def)

theorem slug_path_roundtrip_witness:
  "findBySlugPath demo_cats demo_cats (\<lambda>s. s) [''a'', ''b''] = Some \<lparr>c_id = 3, c_slug = ''b'', c_parent_category_id = 5\<rparr>"
  using slug_path_roundtrip [OF demo_cats_ok refl, of "\<lparr>c_id = 3, c_slug = ''b'', c_parent_category_id = 5\<rparr>" 3
      "[\<lparr>c_id = 5, c_slug = ''a'', c_parent_category_id = 0\<rparr>]"]
  by (simp add: demo_cats_def parentCategory_def findById_def numeral_3_eq_3)

section \<open>The listing\<close>

lemma those_map: "those (map f xs) = Some ys \<Longrightarrow> length ys = length xs \<and> (\<forall>i < length xs. f (xs ! i) = Some (ys ! i))"
proof (induction xs arbitrary: ys)
  case (Cons x xs)
  then obtain y zs where "f x = Some y" "those (map f xs) = Some zs" "ys = y # zs"
    by (auto split: option.splits)
  then show ?case using Cons.IH [of zs] by (auto simp: nth_Cons split: nat.split)
qed simp

lemma those_mem:
  assumes "those (map f xs) = Some ys" and "y \<in> set ys"
  obtains x where "x \<in> set xs" "f x = Some y"
  using those_map [OF assms(1)] assms(2) by (metis in_set_conv_nth)

lemma those_mem_back:
  assumes "those (map f xs) = Some ys" and "x \<in> set xs"
  obtains y where "y \<in> set ys" "f x = Some y"
  using those_map [OF assms(1)] assms(2) by (metis in_set_conv_nth)

lemma those_None: "those (map f xs) = None \<longleftrightarrow> (\<exists>x \<in> set xs. f x = None)"
  by (induction xs) (auto split: option.splits)

text \<open>The key under which \<open>sortCategories\<close> groups a category.\<close>

definition parent_key :: "category \<Rightarrow> int" where
  "parent_key c = (if c_parent_category_id c = 0 then -1 else c_parent_category_id c)"

lemma group_of_mem: "c \<in> set (group_of cats p) \<longleftrightarrow> c \<in> set cats \<and> parent_key c = p"
  by (auto simp: group_of_def parent_key_def)

lemma list_group_parts:
  assumes "list_group cats (Suc f) p = Some xs"
  obtains ys where "those (map (\<lambda>c. map_option (\<lambda>sub. c # sub) (list_group cats f (c_id c))) (group_of cats p)) = Some ys"
    "xs = concat ys"
  using assms by (cases "group_of cats p") (auto simp: list_group.simps [of cats "Suc f"])

lemma list_group_0: "list_group cats 0 p = Some xs \<Longrightarrow> xs = [] \<and> group_of cats p = []"
  by (cases "group_of cats p") (simp_all add: list_group.simps [of cats 0])

lemma concat_split:
  "concat ys = pre @ c # post \<Longrightarrow> \<exists>zs \<in> set ys. \<exists>pre' post'. zs = pre' @ c # post' \<and> suffix pre' pre"
proof (induction ys arbitrary: pre)
  case (Cons y ys)
  then have "y @ concat ys = pre @ c # post" by simp
  then obtain us where "y = pre @ us \<and> us @ concat ys = c # post \<or> y @ us = pre \<and> concat ys = us @ c # post"
    unfolding append_eq_append_conv2 by blast
  then show ?case
  proof (elim disjE conjE)
    assume us: "y = pre @ us" "us @ concat ys = c # post"
    show ?thesis
    proof (cases us)
      case Nil
      then obtain zs post' where "zs \<in> set ys" "zs = [] @ c # post'"
        using us Cons.IH [of "[]"] by auto
      moreover have "suffix [] pre" by (simp add: suffix_def)
      ultimately show ?thesis by (metis list.set_intros(2))
    next
      case (Cons u vs)
      then show ?thesis using us by auto
    qed
  next
    assume us: "y @ us = pre" "concat ys = us @ c # post"
    then obtain zs pre' post' where "zs \<in> set ys" "zs = pre' @ c # post'" "suffix pre' us"
      using Cons.IH [of us] by auto
    moreover from this us(1) have "suffix pre' pre" by (auto simp: suffix_def)
    ultimately show ?thesis by (metis list.set_intros(2))
  qed
qed simp

text \<open>Every listed category belongs to the group or comes after its parent.\<close>

lemma list_group_sound:
  assumes "list_group cats f p = Some xs" and "xs = pre @ c # post"
  shows "c \<in> set cats \<and> (parent_key c = p \<or> (\<exists>d \<in> set pre. c_id d = parent_key c))"
  using assms
proof (induction f arbitrary: p xs pre post)
  case 0
  then show ?case using list_group_0 by force
next
  case (Suc f)
  let ?f = "\<lambda>c. map_option (\<lambda>sub. c # sub) (list_group cats f (c_id c))"
  obtain ys where ys: "those (map ?f (group_of cats p)) = Some ys" "xs = concat ys"
    by (rule list_group_parts [OF Suc.prems(1)])
  obtain zs pre' post' where zs: "zs \<in> set ys" and z: "zs = pre' @ c # post'" "suffix pre' pre"
    using concat_split [of ys pre c post] ys(2) Suc.prems(2) by auto
  obtain d sub where d: "d \<in> set (group_of cats p)" "list_group cats f (c_id d) = Some sub" "zs = d # sub"
    by (rule those_mem [OF ys(1) zs]) (use that in auto)
  show ?case
  proof (cases pre')
    case Nil
    then show ?thesis using z(1) d(1,3) by (simp add: group_of_mem)
  next
    case (Cons a rest)
    then have "sub = rest @ c # post'" "a = d" using z(1) d(3) by auto
    with Suc.IH [OF d(2)] have "c \<in> set cats \<and> (parent_key c = c_id d \<or> (\<exists>e \<in> set rest. c_id e = parent_key c))"
      by blast
    then show ?thesis using z(2) Cons \<open>a = d\<close> by (auto simp: suffix_def)
  qed
qed

lemma list_group_complete:
  assumes "list_group cats f p = Some xs"
  shows "set (group_of cats p) \<subseteq> set xs" and "d \<in> set xs \<Longrightarrow> set (group_of cats (c_id d)) \<subseteq> set xs"
proof -
  have *: "set (group_of cats p) \<subseteq> set xs \<and> (\<forall>d \<in> set xs. set (group_of cats (c_id d)) \<subseteq> set xs)"
    using assms
  proof (induction f arbitrary: p xs)
    case 0
    then show ?case using list_group_0 by force
  next
    case (Suc f)
    let ?f = "\<lambda>c. map_option (\<lambda>sub. c # sub) (list_group cats f (c_id c))"
    obtain ys where ys: "those (map ?f (group_of cats p)) = Some ys" "xs = concat ys"
      by (rule list_group_parts [OF Suc.prems])
    have first: "c \<in> set xs" if c: "c \<in> set (group_of cats p)" for c
    proof -
      obtain y where "y \<in> set ys" "?f c = Some y" by (rule those_mem_back [OF ys(1) c])
      then show ?thesis using ys(2) by force
    qed
    have "set (group_of cats (c_id d)) \<subseteq> set xs" if dx: "d \<in> set xs" for d
    proof -
      obtain y where y: "y \<in> set ys" "d \<in> set y" using dx unfolding ys(2) by auto
      obtain c sub where c: "list_group cats f (c_id c) = Some sub" "y = c # sub"
        by (rule those_mem [OF ys(1) y(1)]) (use that in auto)
      have "set (group_of cats (c_id d)) \<subseteq> set sub"
        using Suc.IH [OF c(1)] y(2) c(2) by auto
      then have "set (group_of cats (c_id d)) \<subseteq> set y" using c(2) by auto
      then show ?thesis using y(1) unfolding ys(2) by auto
    qed
    with first show ?case by blast
  qed
  then show "set (group_of cats p) \<subseteq> set xs" and "d \<in> set xs \<Longrightarrow> set (group_of cats (c_id d)) \<subseteq> set xs"
    by blast+
qed

lemma list_group_ends:
  assumes "\<And>c d. c \<in> set cats \<Longrightarrow> d \<in> set cats \<Longrightarrow> parent_key d = c_id c \<Longrightarrow> rank d < (rank c :: nat)"
    and "\<And>c. c \<in> set (group_of cats p) \<Longrightarrow> rank c < f"
  shows "list_group cats f p \<noteq> None"
  using assms(2)
proof (induction f arbitrary: p)
  case 0
  then show ?case by (cases "group_of cats p") (auto simp: list_group.simps [of cats 0])
next
  case (Suc f)
  have "list_group cats f (c_id c) \<noteq> None" if "c \<in> set (group_of cats p)" for c
  proof (rule Suc.IH)
    fix d assume "d \<in> set (group_of cats (c_id c))"
    then show "rank d < f"
      using assms(1) [of c d] Suc.prems [OF that] that by (fastforce simp: group_of_mem)
  qed
  then have "those (map (\<lambda>c. map_option (\<lambda>sub. c # sub) (list_group cats f (c_id c))) (group_of cats p)) \<noteq> None"
    unfolding those_None by simp
  then show ?case by (cases "group_of cats p") (auto simp: list_group.simps [of cats "Suc f"])
qed

text \<open>
  \<open>sortCategories\<close> lists a category only if it has no parent or its parent is listed before it,
  and lists every such category; so a category whose parent is not among the categories is left
  out. The listing ends when \<open>rank\<close> gives every category less than its parent and \<open>fuel\<close> exceeds
  the ranks.
\<close>

theorem sortCategories_order:
  assumes "\<And>c d. c \<in> set cats \<Longrightarrow> d \<in> set cats \<Longrightarrow> parent_key d = c_id c \<Longrightarrow> rank d < (rank c :: nat)"
    and "\<And>c. c \<in> set cats \<Longrightarrow> rank c < fuel"
  shows "\<exists>xs. sortCategories cats fuel = Some xs \<and> set xs \<subseteq> set cats \<and>
    (\<forall>pre c post. xs = pre @ c # post \<longrightarrow>
       c_parent_category_id c = 0 \<or> c_parent_category_id c = -1 \<or> (\<exists>d \<in> set pre. c_id d = c_parent_category_id c)) \<and>
    (\<forall>c \<in> set cats. c_parent_category_id c = 0 \<or> c_parent_category_id c \<in> c_id ` set xs \<longrightarrow> c \<in> set xs)"
proof -
  have "list_group cats fuel (-1) \<noteq> None"
    by (rule list_group_ends [where rank = rank]) (use assms in \<open>auto simp: group_of_mem\<close>)
  then obtain xs where xs: "list_group cats fuel (-1) = Some xs" by blast
  have sound: "c \<in> set cats \<and> (parent_key c = -1 \<or> (\<exists>d \<in> set pre. c_id d = parent_key c))"
    if "xs = pre @ c # post" for pre c post
    using list_group_sound [OF xs that] .
  have "set xs \<subseteq> set cats"
    using sound by (meson split_list subsetI)
  moreover have "c \<in> set xs" if c: "c \<in> set cats" "c_parent_category_id c = 0 \<or> c_parent_category_id c \<in> c_id ` set xs" for c
  proof (cases "c_parent_category_id c = 0")
    case True
    then have "c \<in> set (group_of cats (-1))" using c(1) by (simp add: group_of_mem parent_key_def)
    then show ?thesis using list_group_complete(1) [OF xs] by blast
  next
    case False
    then obtain d where "d \<in> set xs" "c \<in> set (group_of cats (c_id d))"
      using c by (auto simp: group_of_mem parent_key_def)
    then show ?thesis using list_group_complete(2) [OF xs] by blast
  qed
  moreover have "c_parent_category_id c = 0 \<or> c_parent_category_id c = -1 \<or>
      (\<exists>d \<in> set pre. c_id d = c_parent_category_id c)" if "xs = pre @ c # post" for pre c post
    using sound [OF that] by (auto simp: parent_key_def split: if_splits)
  moreover have "sortCategories cats fuel = Some xs" using xs by (simp add: sortCategories_def)
  ultimately show ?thesis by blast
qed

theorem sortCategories_order_witness:
  "\<exists>xs. sortCategories demo_cats 2 = Some xs \<and> set xs \<subseteq> set demo_cats"
proof -
  have "\<exists>xs. sortCategories demo_cats 2 = Some xs \<and> set xs \<subseteq> set demo_cats \<and>
    (\<forall>pre c post. xs = pre @ c # post \<longrightarrow>
       c_parent_category_id c = 0 \<or> c_parent_category_id c = -1 \<or> (\<exists>d \<in> set pre. c_id d = c_parent_category_id c)) \<and>
    (\<forall>c \<in> set demo_cats. c_parent_category_id c = 0 \<or> c_parent_category_id c \<in> c_id ` set xs \<longrightarrow> c \<in> set xs)"
    by (rule sortCategories_order [where rank = "\<lambda>c. if c_id c = 5 then 1 else 0"])
      (auto simp: demo_cats_def parent_key_def)
  then show ?thesis by blast
qed

end
