(* ===== verification/BrowserStore.thy ===== *)
theory BrowserStore
  imports ArrayTools Category
begin

text \<open>
  Key-value stores of the browser: the namespaced view of \<open>localStorage\<close> of
  \<open>frontend/discourse/app/lib/key-value-store.js\<close>, the same of \<open>sessionStorage\<close> in
  \<open>app/services/session-store.js\<close>, and the read-once store of preloaded data,
  \<open>app/lib/preload-store.js\<close>.

  The storage is a map from strings to strings whose keys are numbered in insertion order
  (\<open>key(i)\<close>); it is \<open>None\<close> where the browser gives no access to it. \<open>JSON.parse\<close> and
  \<open>JSON.stringify\<close> are the arguments \<open>parse\<close> (\<open>None\<close> where it throws) and \<open>stringify\<close>.
\<close>

section \<open>Local storage\<close>

type_synonym storage = "(string, string) omap option"

definition kv_remove :: "string \<Rightarrow> string \<Rightarrow> storage \<Rightarrow> storage" where
  "kv_remove ctx key st = map_option (om_delete (ctx @ key)) st"

definition kv_set :: "string \<Rightarrow> string \<Rightarrow> string \<Rightarrow> storage \<Rightarrow> storage" where
  "kv_set ctx key v st = map_option (om_set (ctx @ key) v) st"

definition kv_get :: "string \<Rightarrow> string \<Rightarrow> storage \<Rightarrow> string option" where
  "kv_get ctx key st = (case st of None \<Rightarrow> None | Some m \<Rightarrow> om_get m (ctx @ key))"

definition kv_getInt :: "string \<Rightarrow> string \<Rightarrow> int \<Rightarrow> storage \<Rightarrow> int" where
  "kv_getInt ctx key def st =
     (case st of
        None \<Rightarrow> def
      | Some m \<Rightarrow>
          (case kv_get ctx key st of
             None \<Rightarrow> def
           | Some text \<Rightarrow> (case read_int text of None \<Rightarrow> def | Some i \<Rightarrow> i)))"

definition kv_setObject :: "(jsval \<Rightarrow> string) \<Rightarrow> string \<Rightarrow> string \<Rightarrow> jsval \<Rightarrow> storage \<Rightarrow> storage" where
  "kv_setObject stringify ctx key v st = kv_set ctx key (stringify v) st"

definition kv_getObject :: "(string \<Rightarrow> jsval option) \<Rightarrow> string \<Rightarrow> string \<Rightarrow> storage \<Rightarrow> jsval" where
  "kv_getObject parse ctx key st =
     (case st of
        None \<Rightarrow> JNull
      | Some m \<Rightarrow>
          (case om_get m (ctx @ key) of
             None \<Rightarrow> JUndef
           | Some text \<Rightarrow> (case parse text of None \<Rightarrow> JUndef | Some v \<Rightarrow> v)))"

text \<open>What the predicate of \<open>removeKeys\<close> sees of a stored text.\<close>

definition parsed :: "(string \<Rightarrow> jsval option) \<Rightarrow> string \<Rightarrow> jsval" where
  "parsed parse text = (case parse text of None \<Rightarrow> JStr text | Some v \<Rightarrow> v)"

text \<open>The loop of \<open>removeKeys\<close> runs from the last key to the first.\<close>

fun remove_keys_loop ::
    "(string \<Rightarrow> jsval option) \<Rightarrow> string \<Rightarrow> (string \<Rightarrow> jsval \<Rightarrow> bool) \<Rightarrow> nat \<Rightarrow>
     (string, string) omap \<Rightarrow> (string, string) omap" where
  "remove_keys_loop parse ctx p 0 m = m"
| "remove_keys_loop parse ctx p (Suc i) m =
     remove_keys_loop parse ctx p i
       (let k = om_keys m ! i;
            v = (case om_get m k of None \<Rightarrow> JUndef | Some text \<Rightarrow> parsed parse text)
        in if take (length ctx) k = ctx \<and> p k v then om_delete k m else m)"

definition kv_removeKeys ::
    "(string \<Rightarrow> jsval option) \<Rightarrow> string \<Rightarrow> (string \<Rightarrow> jsval \<Rightarrow> bool) \<Rightarrow> storage \<Rightarrow> storage" where
  "kv_removeKeys parse ctx p st = map_option (\<lambda>m. remove_keys_loop parse ctx p (length m) m) st"

definition kv_abandonLocal :: "(string \<Rightarrow> jsval option) \<Rightarrow> string \<Rightarrow> storage \<Rightarrow> storage" where
  "kv_abandonLocal parse ctx st = kv_removeKeys parse ctx (\<lambda>k v. True) st"

section \<open>Session storage\<close>

text \<open>
  The class of \<open>session-store.js\<close> repeats the operations above on \<open>sessionStorage\<close>; a missing key
  reads as \<open>null\<close>, and a text that does not parse is returned as it is.
\<close>

definition ss_getObject :: "(string \<Rightarrow> jsval option) \<Rightarrow> string \<Rightarrow> string \<Rightarrow> storage \<Rightarrow> jsval" where
  "ss_getObject parse ctx key st =
     (case st of
        None \<Rightarrow> JNull
      | Some m \<Rightarrow>
          (case om_get m (ctx @ key) of
             None \<Rightarrow> JNull
           | Some text \<Rightarrow> parsed parse text))"

definition ss_remove :: "string \<Rightarrow> string \<Rightarrow> storage \<Rightarrow> storage" where
  "ss_remove ctx key st = (case st of None \<Rightarrow> None | Some m \<Rightarrow> Some (om_delete (ctx @ key) m))"

definition ss_get :: "string \<Rightarrow> string \<Rightarrow> storage \<Rightarrow> string option" where
  "ss_get ctx key st = (case st of None \<Rightarrow> None | Some m \<Rightarrow> om_get m (ctx @ key))"

definition ss_set :: "string \<Rightarrow> string \<Rightarrow> string \<Rightarrow> storage \<Rightarrow> storage" where
  "ss_set ctx key v st = (case st of None \<Rightarrow> None | Some m \<Rightarrow> Some (om_set (ctx @ key) v m))"

definition ss_setObject :: "(jsval \<Rightarrow> string) \<Rightarrow> string \<Rightarrow> string \<Rightarrow> jsval \<Rightarrow> storage \<Rightarrow> storage" where
  "ss_setObject stringify ctx key v st = ss_set ctx key (stringify v) st"

definition ss_getInt :: "string \<Rightarrow> string \<Rightarrow> int \<Rightarrow> storage \<Rightarrow> int" where
  "ss_getInt ctx key def st =
     (if st = None then def
      else case ss_get ctx key st of
        None \<Rightarrow> def
      | Some text \<Rightarrow> (case read_int text of None \<Rightarrow> def | Some i \<Rightarrow> i))"

fun ss_remove_loop ::
    "(string \<Rightarrow> jsval option) \<Rightarrow> string \<Rightarrow> (string \<Rightarrow> jsval \<Rightarrow> bool) \<Rightarrow> nat \<Rightarrow>
     (string, string) omap \<Rightarrow> (string, string) omap" where
  "ss_remove_loop parse ctx p 0 m = m"
| "ss_remove_loop parse ctx p (Suc i) m =
     ss_remove_loop parse ctx p i
       (let k = om_keys m ! i;
            v = (case om_get m k of None \<Rightarrow> JNull | Some text \<Rightarrow> parsed parse text)
        in if take (length ctx) k = ctx \<and> p k v then om_delete k m else m)"

definition ss_removeKeys ::
    "(string \<Rightarrow> jsval option) \<Rightarrow> string \<Rightarrow> (string \<Rightarrow> jsval \<Rightarrow> bool) \<Rightarrow> storage \<Rightarrow> storage" where
  "ss_removeKeys parse ctx p st = map_option (\<lambda>m. ss_remove_loop parse ctx p (length m) m) st"

section \<open>Preloaded data\<close>

text \<open>
  The preload store hands a key out once; a missing key is asked of the finder, whose outcome is
  the argument.
\<close>

definition preload_store :: "string \<Rightarrow> jsval \<Rightarrow> (string, jsval) omap \<Rightarrow> (string, jsval) omap" where
  "preload_store key v m = om_set key v m"

definition getAndRemove :: "string \<Rightarrow> jsval option \<Rightarrow> (string, jsval) omap \<Rightarrow> jsval \<times> (string, jsval) omap" where
  "getAndRemove key finder m =
     (case om_get m key of
        Some v \<Rightarrow> (v, om_delete key m)
      | None \<Rightarrow> (case finder of Some v \<Rightarrow> (v, m) | None \<Rightarrow> (JNull, m)))"

definition preload_remove :: "string \<Rightarrow> (string, jsval) omap \<Rightarrow> (string, jsval) omap" where
  "preload_remove key m = om_delete key m"

section \<open>Removing keys\<close>

text \<open>Both loops are a filter over the entries: what the loop deletes lies behind what it visits next.\<close>

lemma delete_last_visited:
  assumes "om_wf (pre @ (k, v) # post)"
  shows "om_delete k (pre @ (k, v) # post) = pre @ post"
proof -
  have "\<forall>e \<in> set pre. fst e \<noteq> k" "\<forall>e \<in> set post. fst e \<noteq> k" using assms by auto
  then show ?thesis by (simp add: om_delete_def)
qed

definition kept :: "(string \<Rightarrow> jsval option) \<Rightarrow> string \<Rightarrow> (string \<Rightarrow> jsval \<Rightarrow> bool) \<Rightarrow> string \<times> string \<Rightarrow> bool" where
  "kept parse ctx p e \<longleftrightarrow> \<not> (prefix ctx (fst e) \<and> p (fst e) (parsed parse (snd e)))"

lemma take_prefix: "take (length ctx) k = ctx \<longleftrightarrow> prefix ctx k"
  by (metis append_eq_conv_conj prefix_def)

lemma remove_keys_loop_filter:
  "om_wf (pre @ post) \<Longrightarrow>
   remove_keys_loop parse ctx p (length pre) (pre @ post) = filter (kept parse ctx p) pre @ post"
proof (induction pre arbitrary: post rule: rev_induct)
  case (snoc e pre)
  obtain k v where e: "e = (k, v)" by force
  have wf: "om_wf (pre @ (k, v) # post)" using snoc.prems e by simp
  have get: "om_get (pre @ (k, v) # post) k = Some v"
    using map_of_eq_Some_iff [OF wf] by simp
  have "om_wf (pre @ post)" using wf by auto
  then show ?case
    using snoc.IH [of post] snoc.IH [of "(k, v) # post"] wf get
    by (simp add: e nth_append kept_def take_prefix delete_last_visited)
qed simp

lemma ss_loop_same: "i \<le> length m \<Longrightarrow> om_wf m \<Longrightarrow>
    ss_remove_loop parse ctx p i m = remove_keys_loop parse ctx p i m"
proof (induction i arbitrary: m)
  case (Suc i)
  have "om_keys m ! i \<in> set (om_keys m)" using Suc.prems(1) by (intro nth_mem) simp
  then have "om_get m (om_keys m ! i) \<noteq> None" by (rule om_has_iff [THEN iffD1])
  then obtain v where "om_get m (om_keys m ! i) = Some v" by blast
  moreover have "length m - 1 \<le> length (om_delete (om_keys m ! i) m)"
  proof -
    have "length (om_keys (om_delete (om_keys m ! i) m)) = length (remove1 (om_keys m ! i) (om_keys m))"
      using Suc.prems(2) by (simp add: om_keys_delete distinct_remove1_removeAll removeAll_filter_not_eq)
        (metis (mono_tags, lifting) filter_cong)
    then show ?thesis by (simp add: length_remove1)
  qed
  ultimately show ?case using Suc.prems by (simp add: Suc.IH Let_def)
qed simp

text \<open>
  \<open>removeKeys\<close> deletes exactly the keys that begin with the store's prefix and satisfy the
  predicate, the latter applied to the parsed value or to the text itself, and leaves every other
  key with its value and place; so a store whose prefix begins with another store's prefix is
  emptied by the other's \<open>abandonLocal\<close>. The session store agrees.
\<close>

theorem removeKeys_filter:
  assumes "om_wf m"
  shows "kv_removeKeys parse ctx p (Some m) =
      Some (filter (\<lambda>(k, text). \<not> (prefix ctx k \<and> p k (case parse text of None \<Rightarrow> JStr text | Some v \<Rightarrow> v))) m) \<and>
    ss_removeKeys parse ctx p (Some m) = kv_removeKeys parse ctx p (Some m) \<and>
    kv_get (ctx @ sub) key (kv_abandonLocal parse ctx (Some m)) = None"
proof -
  have loop: "remove_keys_loop parse ctx q (length m) m = filter (kept parse ctx q) m" for q
    using remove_keys_loop_filter [of m "[]" parse ctx q] assms by simp
  have kept: "kept parse ctx p = (\<lambda>(k, text). \<not> (prefix ctx k \<and> p k (case parse text of None \<Rightarrow> JStr text | Some v \<Rightarrow> v)))"
    by (rule ext) (simp add: kept_def parsed_def split_beta split: option.split)
  have "om_get (filter (kept parse ctx (\<lambda>k v. True)) m) (ctx @ sub @ key) = None"
    by (auto simp: map_of_eq_None_iff kept_def)
  then show ?thesis
    using loop [of p] loop [of "\<lambda>k v. True"] ss_loop_same [OF le_refl assms]
    by (simp add: kv_removeKeys_def ss_removeKeys_def kv_abandonLocal_def kv_get_def kept)
qed

theorem removeKeys_filter_witness:
  "kv_removeKeys (\<lambda>s. None) ''d_'' (\<lambda>k v. v = JStr ''1'') (Some [(''d_a'', ''1''), (''x'', ''1''), (''d_b'', ''2'')]) =
     Some [(''x'', ''1''), (''d_b'', ''2'')]"
  using removeKeys_filter [of "[(''d_a'', ''1''), (''x'', ''1''), (''d_b'', ''2'')]" "\<lambda>s. None" "''d_''" "\<lambda>k v. v = JStr ''1''"]
  by simp

end
