(* ===== verification/TopicTracking.thy ===== *)
theory TopicTracking
  imports ArrayTools Category
begin

text \<open>
  The topic tracking state of \<open>frontend/discourse/app/models/topic-tracking-state.js\<close>: what the
  client knows of the topics that are new or unread for the user, updated by message bus payloads
  and by the topic lists it loads, and the counts and incoming-topic notices derived from it.

  \<open>states\<close> is the \<open>Map\<close> from keys such as \<open>t12\<close> to a topic's state, a plain object. The clock is an
  argument (\<open>now\<close>, in milliseconds). \<open>state_changes\<close> counts the rounds of the registered callbacks
  (\<open>_afterStateChange\<close>). A subtraction with a missing number reads as \<open>undefined\<close> where JavaScript has
  \<open>NaN\<close>: both are falsy, unequal to \<open>null\<close> and compare as false. Subscriptions and the redirect on
  a destroyed topic are not modelled.
\<close>

section \<open>State\<close>

record user =
  muted_topics :: "(jsval \<times> int) list"
  unmuted_topics :: "(jsval \<times> int) list"
  muted_category_ids :: "jsval list option"
  indirectly_muted_category_ids :: "jsval list"
  muted_tags :: "jsval list option"
  new_new_view_enabled :: bool

record settings =
  remove_muted_tags_from_latest :: string
  mute_all_categories_by_default :: bool
  desktop_category_page_style :: string
  desktopView :: bool

record tracking =
  states :: "(string, jobj) omap"
  messageCount :: nat
  incomingCount :: nat
  newIncoming :: "jsval list option"
  filterCategory :: "category option"
  filterTag :: "jsval option"
  track_filter :: string
  trackedTopicLimit :: nat
  state_changes :: nat
  currentUser :: "user option"
  siteSettings :: settings
  categories :: cats

section \<open>Classifying a topic\<close>

definition TRACKING :: jsval where
  "TRACKING = JNum 2"

definition isUnseen :: "jobj \<Rightarrow> bool" where
  "isUnseen t \<longleftrightarrow> \<not> truthy (pget t ''is_seen'')"

definition isNew :: "jobj \<Rightarrow> bool" where
  "isNew t \<longleftrightarrow> pget t ''last_read_post_number'' = JNull \<and>
     ((pget t ''notification_level'' \<noteq> JNum 0 \<and> \<not> truthy (pget t ''notification_level'')) \<or>
      js_ge (pget t ''notification_level'') TRACKING) \<and>
     truthy (pget t ''created_in_new_period'') \<and> isUnseen t"

definition isUnread :: "jobj \<Rightarrow> bool" where
  "isUnread t \<longleftrightarrow> pget t ''last_read_post_number'' \<noteq> JNull \<and>
     js_less (pget t ''last_read_post_number'') (pget t ''highest_post_number'') \<and>
     js_ge (pget t ''notification_level'') TRACKING"

definition isNewOrUnread :: "jobj \<Rightarrow> bool" where
  "isNewOrUnread t \<longleftrightarrow> isUnread t \<or> isNew t"

fun elements :: "jsval \<Rightarrow> jsval list" where
  "elements (JArr xs) = xs"
| "elements _ = []"

definition hasMutedTags :: "jsval \<Rightarrow> jsval list option \<Rightarrow> settings \<Rightarrow> bool" where
  "hasMutedTags topicTags mutedTags ss =
     (case mutedTags of
        None \<Rightarrow> False
      | Some muted \<Rightarrow>
          (if \<not> truthy topicTags then False
           else (remove_muted_tags_from_latest ss = ''always'' \<and>
                   list_ex (\<lambda>t. t \<in> set muted) (elements topicTags)) \<or>
                (remove_muted_tags_from_latest ss = ''only_muted'' \<and>
                   list_all (\<lambda>t. t \<in> set muted) (elements topicTags))))"

section \<open>Keys and states\<close>

fun as_string :: "jsval \<Rightarrow> string" where
  "as_string JUndef = ''undefined''"
| "as_string JNull = ''null''"
| "as_string (JBool b) = (if b then ''true'' else ''false'')"
| "as_string (JNum n) = show_int n"
| "as_string (JStr s) = s"
| "as_string _ = ''[object Object]''"

fun stateKey :: "jsval \<Rightarrow> string" where
  "stateKey (JNum n) = CHR ''t'' # show_int n"
| "stateKey (JStr s) = (if CHR ''t'' \<in> set s then s else ''tundefined'')"
| "stateKey (JObj ps) = CHR ''t'' # as_string (pget ps ''topic_id'')"
| "stateKey _ = ''tundefined''"

definition findState :: "tracking \<Rightarrow> jsval \<Rightarrow> jobj option" where
  "findState s topic = om_get (states s) (stateKey topic)"

definition afterStateChange :: "tracking \<Rightarrow> tracking" where
  "afterStateChange s = s\<lparr>state_changes := state_changes s + 1\<rparr>"

definition countMessage :: "tracking \<Rightarrow> tracking" where
  "countMessage s = s\<lparr>messageCount := messageCount s + 1\<rparr>"

definition modifyStateProp :: "jsval \<Rightarrow> string \<Rightarrow> jsval \<Rightarrow> tracking \<Rightarrow> tracking" where
  "modifyStateProp topic k v s =
     (case findState s topic of
        None \<Rightarrow> s
      | Some state \<Rightarrow>
          afterStateChange (s\<lparr>states := om_set (stateKey topic) (om_set k v state) (states s)\<rparr>))"

text \<open>
  \<open>JSON.stringify\<close> drops properties that are \<open>undefined\<close> and writes the others in order; two texts
  are equal when what is left is.
\<close>

fun json_value :: "jsval \<Rightarrow> jsval"
  and json_props :: "jobj \<Rightarrow> jobj"
  and json_elems :: "jsval list \<Rightarrow> jsval list" where
  "json_value (JObj ps) = JObj (json_props ps)"
| "json_value (JArr xs) = JArr (json_elems xs)"
| "json_value v = v"
| "json_props [] = []"
| "json_props ((k, v) # ps) = (if v = JUndef then json_props ps else (k, json_value v) # json_props ps)"
| "json_elems [] = []"
| "json_elems (v # vs) = (if v = JUndef then JNull else json_value v) # json_elems vs"

definition same_json :: "jobj \<Rightarrow> jobj \<Rightarrow> bool" where
  "same_json a b \<longleftrightarrow> json_props a = json_props b"

definition setState :: "jsval \<Rightarrow> jobj \<Rightarrow> bool \<Rightarrow> tracking \<Rightarrow> bool \<times> tracking" where
  "setState topic data skipAfterStateChange s =
     (let changed = (case findState s topic of None \<Rightarrow> True | Some old \<Rightarrow> \<not> same_json old data)
      in if changed
         then let s1 = s\<lparr>states := om_set (stateKey topic) data (states s)\<rparr>
              in (True, if skipAfterStateChange then s1 else afterStateChange s1)
         else (False, s))"

definition modifyState :: "jsval \<Rightarrow> jobj \<Rightarrow> tracking \<Rightarrow> tracking" where
  "modifyState topic data s = snd (setState topic data False s)"

text \<open>\<open>loadStates\<close> runs \<open>data.every(...)\<close>, which ends at the first topic that \<open>_setState\<close> refuses.\<close>

fun load_loop :: "jobj list \<Rightarrow> tracking \<Rightarrow> bool \<times> tracking" where
  "load_loop [] s = (True, s)"
| "load_loop (t # ts) s =
     (let (ok, s1) = setState (JObj t) t True s
      in if ok then load_loop ts s1 else (False, s1))"

definition loadStates :: "jobj list \<Rightarrow> tracking \<Rightarrow> tracking" where
  "loadStates data s =
     (if data = [] then s
      else let (modified, s1) = load_loop data s
           in if modified then afterStateChange s1 else s1)"

definition removeTopic :: "jsval \<Rightarrow> tracking \<Rightarrow> tracking" where
  "removeTopic topic s =
     (if om_get (states s) (stateKey topic) \<noteq> None
      then afterStateChange (s\<lparr>states := om_delete (stateKey topic) (states s)\<rparr>) else s)"

definition removeTopics :: "jsval list \<Rightarrow> tracking \<Rightarrow> tracking" where
  "removeTopics topicIds s = afterStateChange (countMessage (fold removeTopic topicIds s))"

definition maxStateSizeReached :: "tracking \<Rightarrow> bool" where
  "maxStateSizeReached s \<longleftrightarrow> length (states s) \<ge> trackedTopicLimit s"

section \<open>Muted topics\<close>

definition mutedTopics :: "tracking \<Rightarrow> (jsval \<times> int) list" where
  "mutedTopics s = (case currentUser s of None \<Rightarrow> [] | Some u \<Rightarrow> muted_topics u)"

definition unmutedTopics :: "tracking \<Rightarrow> (jsval \<times> int) list" where
  "unmutedTopics s = (case currentUser s of None \<Rightarrow> [] | Some u \<Rightarrow> unmuted_topics u)"

definition on_user :: "(user \<Rightarrow> user) \<Rightarrow> tracking \<Rightarrow> tracking" where
  "on_user f s = s\<lparr>currentUser := map_option f (currentUser s)\<rparr>"

definition trackMutedOrUnmutedTopic :: "int \<Rightarrow> jobj \<Rightarrow> tracking \<Rightarrow> tracking" where
  "trackMutedOrUnmutedTopic now data s =
     (let entry = (pget data ''topic_id'', now)
      in if pget data ''message_type'' = JStr ''muted''
         then on_user (\<lambda>u. u\<lparr>muted_topics := mutedTopics s @ [entry]\<rparr>) s
         else on_user (\<lambda>u. u\<lparr>unmuted_topics := unmutedTopics s @ [entry]\<rparr>) s)"

definition pruneOldMutedAndUnmutedTopics :: "int \<Rightarrow> tracking \<Rightarrow> tracking" where
  "pruneOldMutedAndUnmutedTopics now s =
     (let fresh = filter (\<lambda>m. now - snd m < 60000)
      in on_user (\<lambda>u. u\<lparr>muted_topics := fresh (mutedTopics s), unmuted_topics := fresh (unmutedTopics s)\<rparr>) s)"

definition isMutedTopic :: "tracking \<Rightarrow> jsval \<Rightarrow> bool" where
  "isMutedTopic s topicId \<longleftrightarrow> find (\<lambda>t. fst t = topicId) (mutedTopics s) \<noteq> None"

definition isUnmutedTopic :: "tracking \<Rightarrow> jsval \<Rightarrow> bool" where
  "isUnmutedTopic s topicId \<longleftrightarrow> find (\<lambda>t. fst t = topicId) (unmutedTopics s) \<noteq> None"

section \<open>Seen posts\<close>

definition updateSeen :: "jsval \<Rightarrow> jsval \<Rightarrow> tracking \<Rightarrow> tracking" where
  "updateSeen topicId highestSeen s =
     (if \<not> truthy topicId \<or> \<not> truthy highestSeen then s
      else case findState s topicId of
        None \<Rightarrow> s
      | Some state \<Rightarrow>
          (let lr = pget state ''last_read_post_number''
           in if \<not> truthy lr \<or> js_less lr highestSeen
              then countMessage (modifyStateProp topicId ''last_read_post_number'' highestSeen s)
              else s))"

definition dismissNewTopics :: "jsval list \<Rightarrow> tracking \<Rightarrow> tracking" where
  "dismissNewTopics topicIds s =
     countMessage (fold (\<lambda>i. modifyStateProp i ''is_seen'' (JBool True)) topicIds s)"

definition dismiss_post :: "jsval \<Rightarrow> tracking \<Rightarrow> tracking" where
  "dismiss_post i s =
     (case findState s i of
        None \<Rightarrow> s
      | Some state \<Rightarrow> modifyStateProp i ''last_read_post_number'' (pget state ''highest_post_number'') s)"

definition dismissNewPosts :: "jsval list \<Rightarrow> tracking \<Rightarrow> tracking" where
  "dismissNewPosts topicIds s = countMessage (fold dismiss_post topicIds s)"

section \<open>Incoming topics\<close>

definition addIncoming :: "jsval \<Rightarrow> tracking \<Rightarrow> tracking" where
  "addIncoming topicId s = s\<lparr>newIncoming := map_option (push_new topicId) (newIncoming s)\<rparr>"

definition other_category :: "tracking \<Rightarrow> jobj \<Rightarrow> bool" where
  "other_category s data =
     (case filterCategory s of
        None \<Rightarrow> False
      | Some fc \<Rightarrow>
          (let categoryId = (case pget data ''payload'' of JObj p \<Rightarrow> pget p ''category_id'' | v \<Rightarrow> v)
           in if categoryId = JNum (c_id fc) then False
              else case findById (categories s) (num_of categoryId) of
                None \<Rightarrow> True
              | Some c \<Rightarrow> map_option c_id (parentCategory (categories s) c) \<noteq> Some (c_id fc)))"

definition payload_of :: "jobj \<Rightarrow> jobj" where
  "payload_of data = (case pget data ''payload'' of JObj p \<Rightarrow> p | _ \<Rightarrow> [])"

definition notifyIncoming :: "jobj \<Rightarrow> tracking \<Rightarrow> tracking" where
  "notifyIncoming data s =
     (if newIncoming s = None then s
      else if other_category s data then s
      else if (case filterTag s of None \<Rightarrow> False
                 | Some tag \<Rightarrow> tag \<notin> set (elements (pget (payload_of data) ''tags''))) then s
      else
        let flt = track_filter s;
            mt = pget data ''message_type'';
            topic = pget data ''topic_id'';
            s1 = (if flt \<in> {''all'', ''latest'', ''new'', ''unseen''} \<and> mt = JStr ''new_topic''
                  then addIncoming topic s else s);
            unread_here = flt \<in> {''all'', ''unread'', ''unseen''} \<or>
              (flt = ''new'' \<and> (case currentUser s of None \<Rightarrow> False | Some u \<Rightarrow> new_new_view_enabled u));
            caught_up = (case findState s1 (JObj data) of None \<Rightarrow> True
              | Some old \<Rightarrow> pget old ''highest_post_number'' = pget old ''last_read_post_number'');
            s2 = (if unread_here \<and> mt = JStr ''unread'' \<and> caught_up then addIncoming topic s1 else s1);
            s3 = (if flt = ''latest'' \<and> mt = JStr ''latest'' then addIncoming topic s2 else s2);
            style = desktop_category_page_style (siteSettings s);
            s4 = (if flt = ''categories'' \<and> mt = JStr ''latest'' \<and> desktopView (siteSettings s) \<and>
                    (style = ''categories_and_latest_topics'' \<or>
                     style = ''categories_and_latest_topics_created_date'')
                  then addIncoming topic s3 else s3)
        in s4\<lparr>incomingCount := (case newIncoming s4 of None \<Rightarrow> 0 | Some xs \<Rightarrow> length xs)\<rparr>)"

definition resetTracking :: "tracking \<Rightarrow> tracking" where
  "resetTracking s = s\<lparr>newIncoming := Some [], incomingCount := 0\<rparr>"

definition clearIncoming :: "jsval list \<Rightarrow> tracking \<Rightarrow> tracking result" where
  "clearIncoming topicIds s =
     (case newIncoming s of
        None \<Rightarrow> Inl (TypeError ''Cannot read properties of undefined (reading 'filter')'')
      | Some xs \<Rightarrow>
          (let ys = filter (\<lambda>t. t \<notin> set topicIds) xs
           in Inr (s\<lparr>newIncoming := Some ys, incomingCount := length ys\<rparr>)))"

definition hasIncoming :: "tracking \<Rightarrow> bool" where
  "hasIncoming s \<longleftrightarrow> incomingCount s > 0"

text \<open>
  \<open>trackIncoming\<close>: the filter is a list name or the path of a list. The expression \<open>/\/(\d*)\//\<close> finds
  the first piece between two slashes that has only digits; without one, reading its group throws
  after \<open>newIncoming\<close> has been reset.
\<close>

definition digits_piece :: "string list \<Rightarrow> string option" where
  "digits_piece pieces = find (list_all is_digit) (butlast (tl pieces))"

definition set_filters :: "category option \<Rightarrow> jsval option \<Rightarrow> string \<Rightarrow> tracking \<Rightarrow> tracking" where
  "set_filters c tag f s = s\<lparr>newIncoming := Some [], filterCategory := c, filterTag := tag,
     track_filter := f, incomingCount := 0\<rparr>"

definition trackIncoming :: "string \<Rightarrow> tracking \<Rightarrow> js_error option \<times> tracking" where
  "trackIncoming flt s =
     (let pieces = split_on (CHR ''/'') flt
      in if prefix ''c/'' flt \<or> prefix ''tags/c/'' flt
         then case digits_piece pieces of
           None \<Rightarrow> (Some (TypeError ''Cannot read properties of null (reading '1')''),
                    s\<lparr>newIncoming := Some []\<rparr>)
         | Some d \<Rightarrow>
             (let category = (if d = [] then None else findById (categories s) (int (read_nat d)));
                  tag = (if prefix ''tags/c/'' flt
                         then map_option JStr (nth_opt pieces (index_of pieces d + 1)) else None);
                  f = (if length pieces \<ge> 4 then last pieces else flt)
              in (None, set_filters category tag f s))
         else if prefix ''tag/'' flt
         then (None, set_filters None (map_option JStr (nth_opt pieces 1)) (last pieces) s)
         else (None, set_filters None None flt s))"

section \<open>Topic lists\<close>

record topic_list =
  l_topics :: "jobj list"
  more_topics_url :: jsval

text \<open>
  \<open>updateTopics\<close>: the topics of a cached list that differ from their state are brought up to date.
\<close>

definition update_topic :: "tracking \<Rightarrow> jobj \<Rightarrow> jobj" where
  "update_topic s topic =
     (case findState s (pget topic ''id'') of
        None \<Rightarrow> topic
      | Some state \<Rightarrow>
          (let lr = pget state ''last_read_post_number''
           in if pget topic ''last_read_post_number'' \<noteq> lr \<or> pget topic ''is_seen'' \<noteq> pget state ''is_seen''
              then let unread = (if truthy lr then num_of (pget topic ''posts_count'') - num_of lr else 0)
                   in assign topic
                     [(''highest_post_number'', pget state ''highest_post_number''),
                      (''last_read_post_number'', lr),
                      (''unread_posts'', JNum (max unread 0)),
                      (''is_seen'', pget state ''is_seen''),
                      (''unseen'', JBool (\<not> truthy lr \<and> isUnseen state))]
              else topic))"

definition updateTopics :: "tracking \<Rightarrow> jobj list \<Rightarrow> jobj list" where
  "updateTopics s topics = map (update_topic s) topics"

text \<open>
  \<open>_fixDelayedServerState\<close>: the loop runs from the last topic to the first, so that \<open>splice\<close> does not
  shift what is still to be visited. \<open>read_here\<close> is its condition.
\<close>

definition read_here :: "tracking \<Rightarrow> jobj \<Rightarrow> bool" where
  "read_here s topic \<longleftrightarrow>
     (case findState s (pget topic ''id'') of
        None \<Rightarrow> False
      | Some state \<Rightarrow> js_less (JNum 0) (pget state ''last_read_post_number'') \<and>
          (pget topic ''last_read_post_number'' = JNum 0 \<or>
           \<not> (case currentUser s of None \<Rightarrow> False | Some u \<Rightarrow> new_new_view_enabled u)))"

fun fix_loop :: "tracking \<Rightarrow> string \<Rightarrow> nat \<Rightarrow> jobj list \<Rightarrow> jobj list" where
  "fix_loop s flt 0 topics = topics"
| "fix_loop s flt (Suc index) topics =
     fix_loop s flt index
       (let topic = topics ! index
        in if read_here s topic
           then if flt = ''new'' then splice_out index topics
                else topics[index := om_set ''prevent_sync'' (JBool True) (om_set ''unseen'' (JBool False) topic)]
           else topics)"

definition fixDelayedServerState :: "tracking \<Rightarrow> string \<Rightarrow> jobj list \<Rightarrow> jobj list" where
  "fixDelayedServerState s flt topics = fix_loop s flt (length topics) topics"

definition js_minus :: "jsval \<Rightarrow> jsval \<Rightarrow> jsval" where
  "js_minus a b = (case (to_number a, to_number b) of
      (Some x, Some y) \<Rightarrow> JNum (x - y) | _ \<Rightarrow> JUndef)"

text \<open>\<open>copy_if\<close> is the idiom \<open>if (topic.a) newState.b = topic.a\<close>.\<close>

definition copy_if :: "jsval \<Rightarrow> string \<Rightarrow> jsval \<Rightarrow> jobj \<Rightarrow> jobj" where
  "copy_if test k v ob = (if truthy test then om_set k v ob else ob)"

definition category_prop :: "jsval \<Rightarrow> jsval" where
  "category_prop v = (case v of JObj ps \<Rightarrow> pget ps ''id'' | _ \<Rightarrow> JUndef)"

definition list_state :: "jsval \<Rightarrow> jobj \<Rightarrow> jobj \<Rightarrow> jobj" where
  "list_state lastRead topic state =
     copy_if (pget topic ''tags'') ''tags'' (pget topic ''tags'')
       (copy_if (pget topic ''category'') ''category_id'' (category_prop (pget topic ''category''))
         (copy_if (pget topic ''highest_post_number'') ''highest_post_number'' (pget topic ''highest_post_number'')
           (copy_if (pget topic ''notification_level'') ''notification_level'' (pget topic ''notification_level'')
             (om_set ''topic_id'' (pget topic ''id'') (om_set ''last_read_post_number'' lastRead state)))))"

definition newStateFromListTopic :: "jobj \<Rightarrow> tracking \<Rightarrow> jobj option \<times> tracking" where
  "newStateFromListTopic topic s =
     (let state = (case findState s (pget topic ''id'') of None \<Rightarrow> [] | Some st \<Rightarrow> st)
      in if truthy (pget topic ''unseen'') then (Some (list_state JNull topic state), s)
         else if truthy (pget topic ''unread_posts'')
         then (Some (list_state (js_minus (pget topic ''highest_post_number'') (pget topic ''unread_posts''))
                 topic state), s)
         else (None, if \<not> truthy (pget topic ''prevent_sync'') \<and> maxStateSizeReached s
                     then removeTopic (pget topic ''id'') s else s))"

fun new_states :: "jobj list \<Rightarrow> tracking \<Rightarrow> jobj list \<times> tracking" where
  "new_states [] s = ([], s)"
| "new_states (t # ts) s =
     (let (n, s1) = newStateFromListTopic t s;
          (ns, s2) = new_states ts s1
      in (case n of None \<Rightarrow> ns | Some st \<Rightarrow> st # ns, s2))"

text \<open>\<open>queryParams\<close> is the list of its keys, \<open>None\<close> when there are no parameters.\<close>

definition shouldCompensateState :: "topic_list \<Rightarrow> string \<Rightarrow> string list option \<Rightarrow> bool" where
  "shouldCompensateState tlist flt queryParams \<longleftrightarrow>
     (flt = ''new'' \<or> flt = ''unread'') \<and> \<not> truthy (more_topics_url tlist) \<and>
     (case queryParams of None \<Rightarrow> True
        | Some ks \<Rightarrow> list_all (\<lambda>k. k = ''ascending'' \<or> k = ''order'') ks)"

definition corrected :: "string \<Rightarrow> jobj \<Rightarrow> jobj" where
  "corrected flt state =
     (let s1 = (if flt = ''unread'' \<and> isUnread state
                then om_set ''last_read_post_number'' (pget state ''highest_post_number'') state else state)
      in if flt = ''new'' \<and> isNew s1 then om_set ''last_read_post_number'' (JNum 1) s1 else s1)"

fun correct_loop :: "string list \<Rightarrow> string \<Rightarrow> string list \<Rightarrow> tracking \<Rightarrow> tracking" where
  "correct_loop ids flt [] s = s"
| "correct_loop ids flt (key # ks) s =
     correct_loop ids flt ks
       (if key \<in> set ids then s
        else modifyState (JStr key) (corrected flt
               (case findState s (JStr key) of None \<Rightarrow> [] | Some st \<Rightarrow> st)) s)"

definition correctMissingState :: "jobj list \<Rightarrow> string \<Rightarrow> tracking \<Rightarrow> tracking" where
  "correctMissingState topics flt s =
     correct_loop (map (\<lambda>t. stateKey (pget t ''id'')) topics) flt (om_keys (states s)) s"

text \<open>\<open>sync\<close> also returns the list, whose topics it has fixed.\<close>

definition sync :: "topic_list option \<Rightarrow> string \<Rightarrow> string list option \<Rightarrow> tracking \<Rightarrow> topic_list option \<times> tracking" where
  "sync tlist flt queryParams s =
     (case tlist of
        None \<Rightarrow> (None, s)
      | Some l \<Rightarrow>
          (let topics = fixDelayedServerState s flt (l_topics l);
               l1 = l\<lparr>l_topics := topics\<rparr>;
               (ns, s1) = new_states topics s;
               s2 = loadStates ns s1;
               s3 = (if shouldCompensateState l1 flt queryParams
                     then correctMissingState topics flt s2 else s2)
           in (Some l1, countMessage s3)))"

section \<open>Counts\<close>

definition subCategoryIds :: "nat \<Rightarrow> tracking \<Rightarrow> int \<Rightarrow> int list result" where
  "subCategoryIds fuel s categoryId =
     (if categoryId = 0 then Inr []
      else case findById (categories s) categoryId of
        None \<Rightarrow> Inl (TypeError ''Cannot read properties of undefined (reading 'descendants')'')
      | Some c \<Rightarrow> (case descendants (categories s) fuel c of
          None \<Rightarrow> Inl (Error ''the parents of the categories have a cycle'')
        | Some cs \<Rightarrow> Inr (categoryId # map c_id cs)))"

definition muted_categories :: "tracking \<Rightarrow> jsval list option" where
  "muted_categories s =
     (case currentUser s of None \<Rightarrow> None
      | Some u \<Rightarrow> map_option (\<lambda>xs. xs @ indirectly_muted_category_ids u) (muted_category_ids u))"

text \<open>The category and tag of a query; a category of 0 or a missing tag does not restrict it.\<close>

record count_opts =
  q_categoryId :: int
  q_tagId :: jsval
  q_noSubcategories :: bool
  q_filterFn :: "(jobj \<Rightarrow> bool) option"

definition counted :: "tracking \<Rightarrow> string \<Rightarrow> (jobj \<Rightarrow> bool) \<Rightarrow> int list \<Rightarrow> count_opts \<Rightarrow> jobj \<Rightarrow> bool" where
  "counted s type filterFn subs q topic \<longleftrightarrow>
     filterFn topic \<and>
     \<not> (q_categoryId q \<noteq> 0 \<and> pget topic ''category_id'' \<notin> JNum ` set subs) \<and>
     \<not> (q_categoryId q \<noteq> 0 \<and> truthy (pget topic ''is_category_topic'') \<and>
        JNum (q_categoryId q) \<noteq> pget topic ''category_id'') \<and>
     \<not> (truthy (q_tagId q) \<and> q_tagId q \<notin> set (elements (pget topic ''tags''))) \<and>
     \<not> (type = ''new'' \<and> (case muted_categories s of None \<Rightarrow> False
           | Some ms \<Rightarrow> pget topic ''category_id'' \<in> set ms)) \<and>
     (case q_filterFn q of None \<Rightarrow> True | Some f \<Rightarrow> f topic)"

definition filter_fn :: "string \<Rightarrow> (jobj \<Rightarrow> bool) option" where
  "filter_fn type =
     (if type = ''new'' then Some isNew
      else if type = ''unread'' then Some isUnread
      else if type = ''new_and_unread'' \<or> type = ''unread_and_new'' then Some isNewOrUnread
      else None)"

definition countCategoryByState :: "nat \<Rightarrow> string \<Rightarrow> count_opts \<Rightarrow> tracking \<Rightarrow> nat result" where
  "countCategoryByState fuel type q s =
     bind_result (if q_noSubcategories q then Inr [q_categoryId q] else subCategoryIds fuel s (q_categoryId q))
       (\<lambda>subs. case filter_fn type of
          None \<Rightarrow> Inl (Error (''Unknown filter type '' @ type))
        | Some f \<Rightarrow> Inr (length (filter (counted s type f subs q) (om_values (states s)))))"

definition countNew :: "nat \<Rightarrow> count_opts \<Rightarrow> tracking \<Rightarrow> nat result" where
  "countNew fuel = countCategoryByState fuel ''new''"

definition countUnread :: "nat \<Rightarrow> count_opts \<Rightarrow> tracking \<Rightarrow> nat result" where
  "countUnread fuel = countCategoryByState fuel ''unread''"

definition countNewAndUnread :: "nat \<Rightarrow> count_opts \<Rightarrow> tracking \<Rightarrow> nat result" where
  "countNewAndUnread fuel = countCategoryByState fuel ''new_and_unread''"

definition trackedTopics :: "bool \<Rightarrow> tracking \<Rightarrow> (jobj \<times> bool \<times> bool) list" where
  "trackedTopics includeAll s =
     List.map_filter (\<lambda>t. if isNew t \<or> isUnread t \<or> includeAll then Some (t, isNew t, isUnread t) else None)
       (om_values (states s))"

record tag_counts =
  unreadCount :: nat
  newCount :: nat
  totalCount :: "nat option"

definition tally_tag :: "jobj \<times> bool \<times> bool \<Rightarrow> string \<Rightarrow> (string, tag_counts) omap \<Rightarrow> (string, tag_counts) omap" where
  "tally_tag entry tag counts =
     (let (topic, new, unread) = entry
      in if JStr tag \<in> set (elements (pget topic ''tags''))
         then case om_get counts tag of
           None \<Rightarrow> counts
         | Some c \<Rightarrow> om_set tag (c\<lparr>unreadCount := unreadCount c + (if unread then 1 else 0),
                newCount := newCount c + (if new then 1 else 0),
                totalCount := map_option Suc (totalCount c)\<rparr>) counts
         else counts)"

definition countTags :: "string list \<Rightarrow> bool \<Rightarrow> tracking \<Rightarrow> (string, tag_counts) omap" where
  "countTags tags includeTotal s =
     (let start = fold (\<lambda>tag. om_set tag \<lparr>unreadCount = 0, newCount = 0,
                     totalCount = (if includeTotal then Some 0 else None)\<rparr>) tags []
      in fold (\<lambda>entry counts. fold (tally_tag entry) tags counts) (trackedTopics includeTotal s) start)"

definition countCategory :: "jsval \<Rightarrow> jsval \<Rightarrow> tracking \<Rightarrow> nat" where
  "countCategory category_id tagId s =
     length (filter (\<lambda>t. pget t ''category_id'' = category_id \<and> \<not> truthy (pget t ''deleted'') \<and>
          (\<not> truthy tagId \<or> tagId \<in> set (elements (pget t ''tags''))) \<and>
          (pget t ''last_read_post_number'' = JNull \<or>
           js_less (pget t ''last_read_post_number'') (pget t ''highest_post_number'')))
        (om_values (states s)))"

definition new_new :: "tracking \<Rightarrow> bool" where
  "new_new s \<longleftrightarrow> (case currentUser s of None \<Rightarrow> False | Some u \<Rightarrow> new_new_view_enabled u)"

definition add_counts :: "nat result \<Rightarrow> nat result \<Rightarrow> nat result" where
  "add_counts a b = bind_result a (\<lambda>m. bind_result b (\<lambda>n. Inr (m + n)))"

definition lookup_simple :: "nat \<Rightarrow> string \<Rightarrow> count_opts \<Rightarrow> tracking \<Rightarrow> nat option result" where
  "lookup_simple fuel type q s =
     (if type = ''new''
      then bind_result (if new_new s then add_counts (countNew fuel q s) (countUnread fuel q s)
                        else countNew fuel q s) (\<lambda>n. Inr (Some n))
      else if type = ''unread'' then bind_result (countUnread fuel q s) (\<lambda>n. Inr (Some n))
      else case nth_opt (split_on (CHR ''/'') type) 1 of
        None \<Rightarrow> Inr None
      | Some name \<Rightarrow> if name = [] then Inr None
          else Inr (Some (countCategory (if q_categoryId q = 0 then JNull else JNum (q_categoryId q)) (q_tagId q) s)))"

definition lookupCount :: "nat \<Rightarrow> string \<Rightarrow> count_opts \<Rightarrow> tracking \<Rightarrow> nat option result" where
  "lookupCount fuel type q s =
     (if type = ''latest''
      then bind_result (lookup_simple fuel ''new'' q s) (\<lambda>n.
             if new_new s then Inr n
             else bind_result (lookup_simple fuel ''unread'' q s) (\<lambda>u.
                    Inr (case (n, u) of (Some a, Some b) \<Rightarrow> Some (a + b) | _ \<Rightarrow> None)))
      else lookup_simple fuel type q s)"

section \<open>Messages\<close>

definition onDeleteMessage :: "jobj \<Rightarrow> tracking \<Rightarrow> tracking" where
  "onDeleteMessage msg s = countMessage (modifyStateProp (JObj msg) ''deleted'' (JBool True) s)"

definition onRecoverMessage :: "jobj \<Rightarrow> tracking \<Rightarrow> tracking" where
  "onRecoverMessage msg s = countMessage (modifyStateProp (JObj msg) ''deleted'' (JBool False) s)"

text \<open>The guards of \<open>_processChannelPayload\<close> on muted topics, categories and tags.\<close>

definition is_listed :: "jobj \<Rightarrow> bool" where
  "is_listed data \<longleftrightarrow> pget data ''message_type'' = JStr ''new_topic'' \<or> pget data ''message_type'' = JStr ''latest''"

definition suppressed :: "tracking \<Rightarrow> jobj \<Rightarrow> bool" where
  "suppressed s data \<longleftrightarrow>
     isMutedTopic s (pget data ''topic_id'') \<or>
     (mute_all_categories_by_default (siteSettings s) \<and> \<not> isUnmutedTopic s (pget data ''topic_id'')) \<or>
     (is_listed data \<and>
       (case muted_categories s of None \<Rightarrow> False
        | Some ms \<Rightarrow> pget (payload_of data) ''category_id'' \<in> set ms \<and>
            \<not> isUnmutedTopic s (pget data ''topic_id''))) \<or>
     (is_listed data \<and>
       hasMutedTags (pget (payload_of data) ''tags'')
         (case currentUser s of None \<Rightarrow> None | Some u \<Rightarrow> muted_tags u) (siteSettings s))"

text \<open>
  The guesses for an \<open>unread\<close> message of a topic the client has no complete state of.
\<close>

definition guess_unread :: "jobj \<Rightarrow> jobj" where
  "guess_unread payload =
     (let p1 = (if pget payload ''last_read_post_number'' = JUndef
                then om_set ''last_read_post_number'' (js_minus (pget payload ''highest_post_number'') (JNum 1)) payload
                else payload)
      in if pget p1 ''notification_level'' = JUndef then om_set ''notification_level'' TRACKING p1 else p1)"

definition rebuild :: "jobj \<Rightarrow> jobj \<Rightarrow> tracking \<Rightarrow> tracking" where
  "rebuild old data s =
     (if deepEqual (JObj old) (pget data ''payload'') then s
      else let payload = merge_props old (payload_of data);
               p = (if pget data ''message_type'' = JStr ''unread'' then guess_unread payload else payload)
           in countMessage (modifyState (JObj data) p s))"

text \<open>\<open>!==\<close> between an old value and one of a fresh payload: arrays and objects are never the same.\<close>

definition not_identical :: "jsval \<Rightarrow> jsval \<Rightarrow> bool" where
  "not_identical old fresh \<longleftrightarrow> isObject fresh \<or> old \<noteq> fresh"

definition topic_ids_of :: "jobj \<Rightarrow> jsval list" where
  "topic_ids_of data = elements (pget (payload_of data) ''topic_ids'')"

definition processChannelPayload :: "int \<Rightarrow> jobj \<Rightarrow> tracking \<Rightarrow> tracking" where
  "processChannelPayload now data s =
     (let mt = pget data ''message_type''
      in if mt = JStr ''muted'' \<or> mt = JStr ''unmuted'' then trackMutedOrUnmutedTopic now data s
         else let s1 = pruneOldMutedAndUnmutedTopics now s
         in if suppressed s1 data then s1
         else let old = (case findState s1 (JObj data) of None \<Rightarrow> [] | Some st \<Rightarrow> st);
                  s2 = (if mt = JStr ''latest''
                        then let t = notifyIncoming data s1
                             in if not_identical (pget old ''tags'') (pget (payload_of data) ''tags'')
                                then countMessage (modifyStateProp (JObj data) ''tags'' (pget (payload_of data) ''tags'') t)
                                else t
                        else s1);
                  s3 = (if mt = JStr ''dismiss_new'' then dismissNewTopics (topic_ids_of data) s2 else s2);
                  s4 = (if mt = JStr ''dismiss_new_posts'' then dismissNewPosts (topic_ids_of data) s3 else s3)
              in if mt \<in> {JStr ''new_topic'', JStr ''unread'', JStr ''read''}
                 then rebuild old data (notifyIncoming data s4) else s4)"

end
