(* ===== verification/TopicTrackingInv.thy ===== *)
theory TopicTrackingInv
  imports TopicTracking
begin

text \<open>
  What holds of the topic tracking state: the list of incoming topics and its count agree after any
  sequence of operations, loading states keeps only the states up to the first unchanged one,
  merging a message adds its tags to the ones already there, the new and the unread count are
  disjoint, and a complete list leaves no stale state behind.
\<close>

section \<open>Frames\<close>

text \<open>The part of the state that the operations on topic states leave alone.\<close>

definition incoming_part where
  "incoming_part s = (newIncoming s, incomingCount s, filterCategory s, filterTag s, track_filter s)"

lemma incoming_after [simp]: "incoming_part (afterStateChange s) = incoming_part s"
  "incoming_part (countMessage s) = incoming_part s" "incoming_part (on_user f s) = incoming_part s"
  "states (afterStateChange s) = states s" "states (countMessage s) = states s" "states (on_user f s) = states s"
  by (simp_all add: incoming_part_def afterStateChange_def countMessage_def on_user_def)

lemma incoming_states [simp]: "incoming_part (s\<lparr>states := m\<rparr>) = incoming_part s"
  by (simp add: incoming_part_def)

text \<open>An operation on states only: it keeps the keys distinct and the incoming part.\<close>

definition state_op :: "(tracking \<Rightarrow> tracking) \<Rightarrow> bool" where
  "state_op f \<longleftrightarrow> (\<forall>s. incoming_part (f s) = incoming_part s \<and> (om_wf (states s) \<longrightarrow> om_wf (states (f s))))"

lemma state_opI:
  "(\<And>s. incoming_part (f s) = incoming_part s) \<Longrightarrow> (\<And>s. om_wf (states s) \<Longrightarrow> om_wf (states (f s))) \<Longrightarrow> state_op f"
  by (simp add: state_op_def)

lemma state_op_comp: "state_op f \<Longrightarrow> state_op g \<Longrightarrow> state_op (\<lambda>s. f (g s))"
  by (simp add: state_op_def)

lemma state_op_id [simp]: "state_op (\<lambda>s. s)"
  by (simp add: state_op_def)

lemma state_op_count [simp]: "state_op countMessage"
  by (simp add: state_op_def)

lemma state_op_fold: "(\<And>x. state_op (g x)) \<Longrightarrow> state_op (fold g xs)"
  by (induction xs) (simp_all add: state_op_def)

lemma state_op_modifyStateProp [simp]: "state_op (modifyStateProp t k v)"
  by (rule state_opI) (simp_all add: modifyStateProp_def om_wf_set split: option.split)

lemma state_op_setState [simp]: "state_op (\<lambda>s. snd (setState t d b s))"
  by (rule state_opI) (simp_all add: setState_def Let_def om_wf_set split: option.split)

lemma state_op_modifyState [simp]: "state_op (modifyState t d)"
  unfolding modifyState_def by (rule state_op_setState)

lemma load_loop_op: "incoming_part (snd (load_loop ts s)) = incoming_part s \<and>
    (om_wf (states s) \<longrightarrow> om_wf (states (snd (load_loop ts s))))"
proof (induction ts arbitrary: s)
  case (Cons t ts)
  obtain b s1 where st: "setState (JObj t) t True s = (b, s1)" by force
  then have s1: "s1 = snd (setState (JObj t) t True s)" by simp
  have "incoming_part s1 = incoming_part s" "om_wf (states s) \<longrightarrow> om_wf (states s1)"
    using state_op_setState [of "JObj t" t True] unfolding s1 state_op_def by blast+
  then show ?case using Cons [of s1] by (simp add: st)
qed simp

lemma state_op_loadStates [simp]: "state_op (loadStates data)"
  by (rule state_opI) (use load_loop_op in \<open>simp_all add: loadStates_def case_prod_beta\<close>)

lemma state_op_removeTopic [simp]: "state_op (removeTopic t)"
  by (rule state_opI) (simp_all add: removeTopic_def om_wf_delete)

lemma state_op_correct: "state_op (correct_loop ids flt ks)"
proof (induction ks)
  case (Cons k ks)
  have "state_op (\<lambda>s. if k \<in> set ids then s else modifyState (JStr k) (corrected flt
               (case findState s (JStr k) of None \<Rightarrow> [] | Some st \<Rightarrow> st)) s)"
    using state_op_modifyState by (simp add: state_op_def)
  then show ?case using state_op_comp [OF Cons] by simp
qed simp

lemma newState_op: "state_op (\<lambda>s. snd (newStateFromListTopic t s))"
  using state_op_removeTopic by (simp add: newStateFromListTopic_def state_op_def Let_def)

lemma new_states_op: "state_op (\<lambda>s. snd (new_states ts s))"
proof (induction ts)
  case (Cons t ts)
  have "snd (new_states (t # ts) s) = snd (new_states ts (snd (newStateFromListTopic t s)))" for s
    by (simp add: case_prod_beta)
  then show ?case using state_op_comp [OF Cons newState_op] by simp
qed simp

lemma state_op_sync: "state_op (\<lambda>s. snd (sync l flt q s))"
proof (cases l)
  case (Some tl)
  have "incoming_part (snd (sync l flt q s)) = incoming_part s \<and>
    (om_wf (states s) \<longrightarrow> om_wf (states (snd (sync l flt q s))))" for s
  proof -
    let ?ts = "fixDelayedServerState s flt (l_topics tl)"
    obtain ns s1 where n: "new_states ?ts s = (ns, s1)" by force
    have 1: "incoming_part s1 = incoming_part s \<and> (om_wf (states s) \<longrightarrow> om_wf (states s1))"
      using new_states_op [of ?ts, unfolded state_op_def, rule_format, of s] n by simp
    then show ?thesis
      using state_op_loadStates [of ns] state_op_correct
      by (simp add: Some sync_def n Let_def correctMissingState_def state_op_def)
  qed
  then show ?thesis by (simp add: state_op_def)
qed (simp add: sync_def)

lemma state_op_dismiss_new [simp]: "state_op (dismissNewTopics ids)"
proof -
  have "state_op (fold (\<lambda>i. modifyStateProp i ''is_seen'' (JBool True)) ids)"
    by (rule state_op_fold) simp
  from state_op_comp [OF state_op_count this] show ?thesis by (simp add: dismissNewTopics_def [abs_def])
qed

lemma state_op_dismiss_posts [simp]: "state_op (dismissNewPosts ids)"
proof -
  have "state_op (dismiss_post i)" for i
    using state_op_modifyStateProp by (simp add: dismiss_post_def state_op_def split: option.split)
  then have "state_op (fold dismiss_post ids)" by (rule state_op_fold)
  from state_op_comp [OF state_op_count this] show ?thesis by (simp add: dismissNewPosts_def [abs_def])
qed

lemma state_op_updateSeen [simp]: "state_op (updateSeen i h)"
  using state_op_modifyStateProp by (simp add: updateSeen_def state_op_def Let_def split: option.split)

lemma state_op_rebuild [simp]: "state_op (rebuild old data)"
  using state_op_modifyState by (simp add: rebuild_def state_op_def Let_def)

section \<open>The incoming topics\<close>

definition tracking_ok :: "tracking \<Rightarrow> bool" where
  "tracking_ok s \<longleftrightarrow> om_wf (states s) \<and>
     (case newIncoming s of None \<Rightarrow> incomingCount s = 0 | Some xs \<Rightarrow> distinct xs \<and> incomingCount s = length xs)"

lemma tracking_ok_op: "state_op f \<Longrightarrow> tracking_ok s \<Longrightarrow> tracking_ok (f s)"
  by (simp add: state_op_def tracking_ok_def incoming_part_def cong: option.case_cong)

definition incoming_distinct :: "tracking \<Rightarrow> bool" where
  "incoming_distinct s \<longleftrightarrow> om_wf (states s) \<and> (\<exists>xs. newIncoming s = Some xs \<and> distinct xs)"

lemma addIncoming_distinct: "incoming_distinct s \<Longrightarrow> incoming_distinct (addIncoming t s)"
  by (auto simp: incoming_distinct_def addIncoming_def)

lemma addIncoming_if: "incoming_distinct s \<Longrightarrow> incoming_distinct (if c then addIncoming t s else s)"
  by (simp add: addIncoming_distinct)

lemma counted_ok:
  "incoming_distinct s \<Longrightarrow> tracking_ok (s\<lparr>incomingCount := (case newIncoming s of None \<Rightarrow> 0 | Some xs \<Rightarrow> length xs)\<rparr>)"
  by (auto simp: incoming_distinct_def tracking_ok_def)

lemma notify_ok:
  assumes "tracking_ok s"
  shows "tracking_ok (notifyIncoming data s)"
proof (cases "newIncoming s = None \<or> other_category s data \<or>
    (case filterTag s of None \<Rightarrow> False | Some tag \<Rightarrow> tag \<notin> set (elements (pget (payload_of data) ''tags'')))")
  case True
  then have "notifyIncoming data s = s" by (auto simp: notifyIncoming_def)
  then show ?thesis using assms by simp
next
  case False
  then have "incoming_distinct s" using assms by (auto simp: tracking_ok_def incoming_distinct_def)
  then show ?thesis
    using False unfolding notifyIncoming_def Let_def
    by (simp only: if_False de_Morgan_disj simp_thms) (intro counted_ok addIncoming_if)
qed

lemma on_user_ok [simp]: "tracking_ok (on_user f s) = tracking_ok s"
  by (simp add: tracking_ok_def on_user_def cong: option.case_cong)

lemma countMessage_ok [simp]: "tracking_ok (countMessage s) = tracking_ok s"
  by (simp add: tracking_ok_def countMessage_def cong: option.case_cong)

lemma process_ok:
  assumes "tracking_ok s"
  shows "tracking_ok (processChannelPayload now data s)"
proof -
  let ?s1 = "pruneOldMutedAndUnmutedTopics now s"
  have 1: "tracking_ok ?s1" using assms by (simp add: pruneOldMutedAndUnmutedTopics_def Let_def)
  have 2: "tracking_ok (trackMutedOrUnmutedTopic now data s)"
    using assms by (simp add: trackMutedOrUnmutedTopic_def Let_def)
  have n: "tracking_ok (notifyIncoming data t)" if "tracking_ok t" for t by (rule notify_ok [OF that])
  have m: "tracking_ok (modifyStateProp i k v t)" if "tracking_ok t" for i k v t
    by (rule tracking_ok_op [OF state_op_modifyStateProp that])
  have d: "tracking_ok (if c then dismissNewTopics xs t else t)" if "tracking_ok t" for c xs t
    using tracking_ok_op [OF state_op_dismiss_new that] that by simp
  have p: "tracking_ok (if c then dismissNewPosts xs t else t)" if "tracking_ok t" for c xs t
    using tracking_ok_op [OF state_op_dismiss_posts that] that by simp
  have r: "tracking_ok (if c then rebuild old data (notifyIncoming data t) else t)" if "tracking_ok t" for c old t
    using tracking_ok_op [OF state_op_rebuild n [OF that]] that by simp
  have l: "tracking_ok (if c then (if c2 then countMessage (modifyStateProp i k v (notifyIncoming data ?s1))
      else notifyIncoming data ?s1) else ?s1)" for c c2 i k v
    using 1 n m by simp
  show ?thesis
    unfolding processChannelPayload_def Let_def
    using 1 2 r [OF p [OF d [OF l]]] by simp
qed

section \<open>Sequences of operations\<close>

inductive track_step :: "tracking \<Rightarrow> tracking \<Rightarrow> bool" where
  message: "track_step s (processChannelPayload now data s)"
| deleted: "track_step s (onDeleteMessage msg s)"
| recovered: "track_step s (onRecoverMessage msg s)"
| seen: "track_step s (updateSeen i n s)"
| reset: "track_step s (resetTracking s)"
| track: "trackIncoming flt s = (None, s') \<Longrightarrow> track_step s s'"
| clear: "clearIncoming ids s = Inr s' \<Longrightarrow> track_step s s'"
| load: "track_step s (loadStates data s)"
| synced: "sync l flt q s = (l', s') \<Longrightarrow> track_step s s'"
| remove: "track_step s (removeTopics ids s)"
| dismiss_new: "track_step s (dismissNewTopics ids s)"
| dismiss_posts: "track_step s (dismissNewPosts ids s)"

lemma track_step_ok: "track_step s s' \<Longrightarrow> tracking_ok s \<Longrightarrow> tracking_ok s'"
proof (induction rule: track_step.induct)
  case (message s now data)
  then show ?case by (rule process_ok)
next
  case (deleted s msg)
  then show ?case using tracking_ok_op [OF state_op_modifyStateProp] by (simp add: onDeleteMessage_def)
next
  case (recovered s msg)
  then show ?case using tracking_ok_op [OF state_op_modifyStateProp] by (simp add: onRecoverMessage_def)
next
  case (seen s i n)
  then show ?case by (rule tracking_ok_op [OF state_op_updateSeen])
next
  case (track flt s s')
  then show ?case
    by (auto simp: trackIncoming_def Let_def set_filters_def tracking_ok_def split: if_splits option.splits)
next
  case (synced l flt q s l' s')
  then show ?case using tracking_ok_op [OF state_op_sync [of l flt q]] by (metis snd_conv)
next
  case (remove s ids)
  have "state_op (fold removeTopic ids)" by (rule state_op_fold) simp
  from tracking_ok_op [OF this remove] show ?case
    by (simp add: removeTopics_def) (simp add: tracking_ok_def afterStateChange_def countMessage_def cong: option.case_cong)
next
  case (load s data)
  then show ?case by (rule tracking_ok_op [OF state_op_loadStates])
next
  case (dismiss_new s ids)
  then show ?case by (rule tracking_ok_op [OF state_op_dismiss_new])
next
  case (dismiss_posts s ids)
  then show ?case by (rule tracking_ok_op [OF state_op_dismiss_posts])
qed (auto simp: resetTracking_def tracking_ok_def clearIncoming_def Let_def split: option.splits)

text \<open>
  C10. After any sequence of messages, list loads, seen posts and resets, with a list change being a
  call of \<open>trackIncoming\<close> that returns (for a path without a category it throws), the incoming topics are
  pairwise different and \<open>incomingCount\<close> is their number, so the notice of the topic list is shown
  exactly when there is an incoming topic; and no topic has two states.
\<close>

theorem incoming_count_invariant:
  assumes "track_step\<^sup>*\<^sup>* s s'" and "tracking_ok s"
  shows "distinct (om_keys (states s')) \<and>
    (case newIncoming s' of None \<Rightarrow> \<not> hasIncoming s'
     | Some xs \<Rightarrow> distinct xs \<and> incomingCount s' = length xs \<and> (hasIncoming s' \<longleftrightarrow> xs \<noteq> []))"
proof -
  have "tracking_ok s'" using assms
    by (induction rule: rtranclp_induct) (auto intro: track_step_ok)
  then show ?thesis by (auto simp: tracking_ok_def hasIncoming_def split: option.splits)
qed

definition no_settings :: settings where
  "no_settings = \<lparr>remove_muted_tags_from_latest = ''never'', mute_all_categories_by_default = False,
     desktop_category_page_style = ''categories_only'', desktopView = True\<rparr>"

definition start_tracking :: "(string, jobj) omap \<Rightarrow> tracking" where
  "start_tracking m = \<lparr>states = m, messageCount = 0, incomingCount = 0, newIncoming = None,
     filterCategory = None, filterTag = None, track_filter = ''latest'', trackedTopicLimit = 4000,
     state_changes = 0, currentUser = None, siteSettings = no_settings, categories = []\<rparr>"

theorem incoming_count_invariant_witness:
  "distinct (om_keys (states (resetTracking (start_tracking []))))"
proof -
  have "track_step\<^sup>*\<^sup>* (start_tracking []) (resetTracking (start_tracking []))"
    using track_step.reset by blast
  moreover have "tracking_ok (start_tracking [])" by (simp add: tracking_ok_def start_tracking_def)
  ultimately show ?thesis using incoming_count_invariant by blast
qed

section \<open>Loading states\<close>

definition is_change :: "tracking \<Rightarrow> jobj \<Rightarrow> bool" where
  "is_change s t \<longleftrightarrow> (case findState s (JObj t) of None \<Rightarrow> True | Some old \<Rightarrow> \<not> same_json old t)"

lemma setState_change:
  "setState (JObj t) t True s =
     (if is_change s t then (True, s\<lparr>states := om_set (stateKey (JObj t)) t (states s)\<rparr>) else (False, s))"
  by (simp add: setState_def is_change_def Let_def)

lemma takeWhile_cong_set: "(\<And>x. x \<in> set xs \<Longrightarrow> P x = Q x) \<Longrightarrow> takeWhile P xs = takeWhile Q xs"
  by (induction xs) auto

lemma distinct_map_neq: "distinct (map f (t # ts)) \<Longrightarrow> x \<in> set ts \<Longrightarrow> f x \<noteq> f t"
  by (auto simp: image_iff)

lemma load_loop_states:
  assumes "distinct (map (\<lambda>t. stateKey (JObj t)) ts)"
  shows "states (snd (load_loop ts s)) =
    fold (\<lambda>t. om_set (stateKey (JObj t)) t) (takeWhile (is_change s) ts) (states s)"
  using assms
proof (induction ts arbitrary: s)
  case (Cons t ts)
  let ?s1 = "s\<lparr>states := om_set (stateKey (JObj t)) t (states s)\<rparr>"
  have "is_change ?s1 x = is_change s x" if "x \<in> set ts" for x
  proof -
    have "stateKey (JObj x) \<noteq> stateKey (JObj t)" by (rule distinct_map_neq [OF Cons.prems that])
    then show ?thesis by (simp add: is_change_def findState_def del: stateKey.simps)
  qed
  then have "takeWhile (is_change ?s1) ts = takeWhile (is_change s) ts"
    by (rule takeWhile_cong_set)
  then show ?case
    using Cons.IH [of ?s1] Cons.prems by (simp add: setState_change del: stateKey.simps)
qed simp

text \<open>
  \<open>loadStates\<close> takes over the given states only up to the first one that is the same as the
  state already known: \<open>every\<close> stops there, and the states after it are not loaded.
\<close>

theorem loadStates_stops:
  assumes "distinct (map (\<lambda>t. stateKey (JObj t)) data)"
  shows "states (loadStates data s) =
    fold (\<lambda>t. om_set (stateKey (JObj t)) t) (takeWhile (is_change s) data) (states s)"
  using load_loop_states [OF assms, of s] by (simp add: loadStates_def case_prod_beta)

definition known_topic :: jobj where
  "known_topic = [(''topic_id'', JNum 1), (''tags'', JArr [JStr ''a'']), (''last_read_post_number'', JNull)]"

theorem loadStates_stops_witness:
  "findState (loadStates [known_topic, [(''topic_id'', JNum 2)]] (start_tracking [(''t1'', known_topic)]))
     (JNum 2) = None"
proof -
  have k: "stateKey (JObj known_topic) = ''t1''" "stateKey (JNum 2) = ''t2''" "stateKey (JObj [(''topic_id'', JNum 2)]) = ''t2''"
    by (simp_all add: known_topic_def pget_def show_int_def show_nat.simps digit_def)
  have "takeWhile (is_change (start_tracking [(''t1'', known_topic)])) [known_topic, [(''topic_id'', JNum 2)]] = []"
    using k by (simp add: is_change_def findState_def start_tracking_def same_json_def del: stateKey.simps)
  then show ?thesis
    using loadStates_stops [of "[known_topic, [(''topic_id'', JNum 2)]]" "start_tracking [(''t1'', known_topic)]"] k
    by (simp add: findState_def start_tracking_def del: stateKey.simps)
qed

section \<open>Messages\<close>

lemma notify_states [simp]: "states (notifyIncoming data s) = states s"
proof -
  have "states (if c then addIncoming t u else u) = states u" for c t u by (simp add: addIncoming_def)
  then show ?thesis by (simp add: notifyIncoming_def Let_def)
qed

lemma prune_states [simp]: "states (pruneOldMutedAndUnmutedTopics now s) = states s"
  by (simp add: pruneOldMutedAndUnmutedTopics_def Let_def)

lemma findState_cong: "states s' = states s \<Longrightarrow> findState s' t = findState s t"
  by (simp add: findState_def)

lemma json_props_get: "om_wf ps \<Longrightarrow> om_get (json_props ps) k =
    (case om_get ps k of None \<Rightarrow> None | Some v \<Rightarrow> if v = JUndef then None else Some (json_value v))"
proof (induction ps)
  case (Cons p ps)
  obtain a b where p: "p = (a, b)" by force
  with Cons.prems have "om_get ps a = None" "om_wf ps" by (auto simp: map_of_eq_None_iff)
  then show ?case using Cons.IH p by auto
qed simp

lemma json_elems_length [simp]: "length (json_elems xs) = length xs"
  by (induction xs) auto

lemma same_json_arrays:
  assumes "same_json a b" and "om_wf a" and "om_wf b" and "pget a k = JArr xs" and "pget b k = JArr ys"
  shows "length xs = length ys"
proof -
  have "om_get a k = Some (JArr xs)" "om_get b k = Some (JArr ys)"
    using assms(4,5) by (auto simp: pget_def split: option.splits)
  moreover have "om_get (json_props a) k = om_get (json_props b) k"
    using assms(1) by (simp add: same_json_def)
  ultimately have "json_elems xs = json_elems ys"
    using assms(2,3) by (simp add: json_props_get)
  then show ?thesis by (metis json_elems_length)
qed

lemma modifyState_find: "findState (modifyState t d s) t =
    (case findState s t of Some old \<Rightarrow> if same_json old d then Some old else Some d | None \<Rightarrow> Some d)"
  by (simp add: modifyState_def setState_def Let_def findState_def split: option.split)

lemma guess_keeps: "k \<noteq> ''last_read_post_number'' \<Longrightarrow> k \<noteq> ''notification_level'' \<Longrightarrow>
    pget (guess_unread p) k = pget p k"
  by (simp add: guess_unread_def Let_def)

lemma guess_wf: "om_wf p \<Longrightarrow> om_wf (guess_unread p)"
  by (simp add: guess_unread_def Let_def om_wf_set)

text \<open>
  Merging a message into a known state adds the message's tags to the tags already there: with
  tags \<open>xs\<close> known and tags \<open>ys\<close> in the payload, the new state has the tags \<open>xs @ ys\<close>. So every
  further message repeats the tags of a topic, and a tag that was removed stays.
\<close>

theorem unread_tags_pile_up:
  assumes "pget data ''message_type'' = JStr ''unread''" and "pget data ''payload'' = JObj p" and "om_wf p"
    and "pget p ''tags'' = JArr ys" and "ys \<noteq> []"
    and "findState s (JObj data) = Some old" and "om_wf old" and "pget old ''tags'' = JArr xs"
    and "\<not> suppressed (pruneOldMutedAndUnmutedTopics now s) data" and "\<not> deepEqual (JObj old) (JObj p)"
  shows "\<exists>new. findState (processChannelPayload now data s) (JObj data) = Some new \<and>
    pget new ''tags'' = JArr (xs @ ys)"
proof -
  let ?s1 = "pruneOldMutedAndUnmutedTopics now s"
  let ?m = "guess_unread (merge_props old p)"
  have f1: "findState ?s1 (JObj data) = Some old" using assms(6) by (simp add: findState_def)
  have "processChannelPayload now data s = rebuild old data (notifyIncoming data ?s1)"
    using assms(1,9) f1 by (simp add: processChannelPayload_def Let_def)
  also have "\<dots> = countMessage (modifyState (JObj data) ?m (notifyIncoming data ?s1))"
    using assms(1,2,10) by (simp add: rebuild_def payload_of_def Let_def del: deepEqual.simps)
  finally have res: "processChannelPayload now data s =
      countMessage (modifyState (JObj data) ?m (notifyIncoming data ?s1))" .
  have get: "om_get p ''tags'' = Some (JArr ys)" using assms(4) by (auto simp: pget_def split: option.splits)
  have "om_get (merge_props old p) ''tags'' = Some (JArr (xs @ ys))"
    using get assms(8) by (simp add: om_get_merge_props [OF assms(3)])
  then have "pget (merge_props old p) ''tags'' = JArr (xs @ ys)" by (simp add: pget_def)
  then have tags: "pget ?m ''tags'' = JArr (xs @ ys)" by (simp add: guess_keeps)
  have "\<not> same_json old ?m"
    using same_json_arrays [OF _ assms(7) _ assms(8) tags] guess_wf [OF merge_props_wf [OF assms(7)]] assms(5)
    by auto
  moreover have "findState (notifyIncoming data ?s1) (JObj data) = Some old"
    using f1 by (simp add: findState_def)
  ultimately have "findState (processChannelPayload now data s) (JObj data) = Some ?m"
    unfolding res using modifyState_find [of "JObj data" ?m "notifyIncoming data ?s1"]
    by (simp add: findState_def)
  then show ?thesis using tags by blast
qed

definition demo_unread :: jobj where
  "demo_unread = [(''message_type'', JStr ''unread''), (''topic_id'', JNum 1),
     (''payload'', JObj [(''tags'', JArr [JStr ''a''])])]"

theorem unread_tags_pile_up_witness:
  "\<exists>new. findState (processChannelPayload 0 demo_unread (start_tracking [(''t1'', known_topic)])) (JObj demo_unread) = Some new \<and>
    pget new ''tags'' = JArr [JStr ''a'', JStr ''a'']"
proof -
  let ?s = "start_tracking [(''t1'', known_topic)]" and ?p = "[(''tags'', JArr [JStr ''a''])]"
  have k: "stateKey (JObj demo_unread) = ''t1''"
    by (simp add: demo_unread_def pget_def show_int_def show_nat.simps digit_def)
  have f: "findState ?s (JObj demo_unread) = Some known_topic"
    using k by (simp add: findState_def start_tracking_def del: stateKey.simps)
  have sup: "\<not> suppressed (pruneOldMutedAndUnmutedTopics 0 ?s) demo_unread"
    by (simp add: suppressed_def is_listed_def isMutedTopic_def mutedTopics_def demo_unread_def
        start_tracking_def no_settings_def pruneOldMutedAndUnmutedTopics_def on_user_def Let_def pget_def)
  have "pget demo_unread ''message_type'' = JStr ''unread''" "pget demo_unread ''payload'' = JObj ?p"
    "pget known_topic ''tags'' = JArr [JStr ''a'']" "pget ?p ''tags'' = JArr [JStr ''a'']" "om_wf known_topic"
    "\<not> deepEqual (JObj known_topic) (JObj ?p)"
    by (simp_all add: demo_unread_def known_topic_def pget_def)
  from unread_tags_pile_up [OF this(1,2) _ this(4) _ f this(5,3) sup this(6)]
  show ?thesis by simp
qed

section \<open>Counting\<close>

lemma new_not_unread: "isNew t \<Longrightarrow> \<not> isUnread t"
  by (simp add: isNew_def isUnread_def)

lemma length_filter_disj:
  "(\<And>x. x \<in> set xs \<Longrightarrow> \<not> (P x \<and> Q x)) \<Longrightarrow>
   length (filter (\<lambda>x. P x \<or> Q x) xs) = length (filter P xs) + length (filter Q xs)"
  by (induction xs) auto

text \<open>
  No topic is both new and unread, so for a user without muted categories the count of new and
  unread topics is the sum of the two counts, for every category, tag and filter function; and the
  three counts fail together.
\<close>

theorem count_new_and_unread:
  assumes "muted_categories s = None"
  shows "countNewAndUnread fuel q s = add_counts (countNew fuel q s) (countUnread fuel q s)"
proof -
  have parts: "length (filter (counted s ''new_and_unread'' isNewOrUnread subs q) ts) =
      length (filter (counted s ''new'' isNew subs q) ts) + length (filter (counted s ''unread'' isUnread subs q) ts)"
    for subs ts
  proof -
    have "counted s ''new_and_unread'' isNewOrUnread subs q =
        (\<lambda>t. counted s ''new'' isNew subs q t \<or> counted s ''unread'' isUnread subs q t)"
      using assms by (auto simp: counted_def isNewOrUnread_def fun_eq_iff)
    moreover have "\<not> (counted s ''new'' isNew subs q t \<and> counted s ''unread'' isUnread subs q t)" for t
      using new_not_unread [of t] by (auto simp: counted_def)
    then have "length (filter (\<lambda>t. counted s ''new'' isNew subs q t \<or> counted s ''unread'' isUnread subs q t) ts) =
        length (filter (counted s ''new'' isNew subs q) ts) + length (filter (counted s ''unread'' isUnread subs q) ts)"
      by (intro length_filter_disj)
    ultimately show ?thesis by simp
  qed
  show ?thesis
    by (cases "if q_noSubcategories q then Inr [q_categoryId q] else subCategoryIds fuel s (q_categoryId q)")
      (simp_all add: countNewAndUnread_def countNew_def countUnread_def countCategoryByState_def
        filter_fn_def add_counts_def parts del: length_filter_map)
qed

theorem count_new_and_unread_witness:
  "countNewAndUnread 0 \<lparr>q_categoryId = 0, q_tagId = JUndef, q_noSubcategories = False, q_filterFn = None\<rparr>
     (start_tracking [(''t1'', known_topic)]) = Inr 0"
proof -
  let ?q = "\<lparr>q_categoryId = 0, q_tagId = JUndef, q_noSubcategories = False, q_filterFn = None\<rparr>"
  let ?s = "start_tracking [(''t1'', known_topic)]"
  have "muted_categories ?s = None" by (simp add: muted_categories_def start_tracking_def)
  moreover have "countNew 0 ?q ?s = Inr 0" "countUnread 0 ?q ?s = Inr 0"
    by (simp_all add: countNew_def countUnread_def countCategoryByState_def filter_fn_def counted_def
        subCategoryIds_def start_tracking_def isNew_def isUnread_def known_topic_def pget_def)
  ultimately show ?thesis using count_new_and_unread [of ?s 0 ?q] by (simp add: add_counts_def)
qed

section \<open>Seen posts\<close>

lemma updateSeen_reads:
  assumes "findState s i = Some st" and "truthy i" and "n > 0"
    and "pget st ''last_read_post_number'' \<in> {JUndef, JNull} \<union> JNum ` {0..}"
    and s'_def: "s' = updateSeen i (JNum n) s"
  shows "(\<exists>st'. findState s' i = Some st' \<and>
      pget st' ''last_read_post_number'' = JNum (max (num_of (pget st ''last_read_post_number'')) n)) \<and>
    (\<forall>k. k \<noteq> stateKey i \<longrightarrow> om_get (states s') k = om_get (states s) k)"
proof -
  let ?lr = "pget st ''last_read_post_number''"
  have get: "om_get (states s) (stateKey i) = Some st" using assms(1) by (simp add: findState_def)
  have up: "s' = (if \<not> truthy ?lr \<or> js_less ?lr (JNum n)
      then countMessage (modifyStateProp i ''last_read_post_number'' (JNum n) s) else s)"
    using assms(1-3) by (simp add: s'_def updateSeen_def Let_def)
  have lr: "?lr = JUndef \<or> ?lr = JNull \<or> (\<exists>m. ?lr = JNum m \<and> m \<ge> 0)" using assms(4) by auto
  show ?thesis
  proof (cases "\<not> truthy ?lr \<or> js_less ?lr (JNum n)")
    case True
    then have "max (num_of ?lr) n = n" using lr assms(3) by auto
    then show ?thesis using True get by (simp add: up modifyStateProp_def findState_def)
  next
    case False
    then have "max (num_of ?lr) n = num_of ?lr \<and> ?lr = JNum (num_of ?lr)" using lr by auto
    then show ?thesis using False get by (auto simp: up findState_def)
  qed
qed

text \<open>
  \<open>updateSeen\<close> never takes the reading position back: for a tracked topic the last read post
  number becomes the maximum of the old one and the highest seen one, and no other topic changes.
\<close>

theorem updateSeen_max:
  assumes "findState s i = Some st" and "truthy i" and "n > 0"
    and "pget st ''last_read_post_number'' \<in> {JUndef, JNull} \<union> JNum ` {0..}"
    and s'_def: "s' = updateSeen i (JNum n) s"
  shows "(\<exists>st'. findState s' i = Some st' \<and>
      pget st' ''last_read_post_number'' = JNum (max (num_of (pget st ''last_read_post_number'')) n)) \<and>
    (\<forall>k. k \<noteq> stateKey i \<longrightarrow> om_get (states s') k = om_get (states s) k)"
  by (rule updateSeen_reads [OF assms])

theorem updateSeen_max_witness:
  "\<exists>st'. findState (updateSeen (JNum 1) (JNum 5) (start_tracking [(''t1'', known_topic)])) (JNum 1) = Some st' \<and>
     pget st' ''last_read_post_number'' = JNum 5"
proof -
  have k: "stateKey (JNum 1) = ''t1''"
    by (simp add: show_int_def show_nat.simps digit_def)
  have f: "findState (start_tracking [(''t1'', known_topic)]) (JNum 1) = Some known_topic"
    using k by (simp add: findState_def start_tracking_def del: stateKey.simps)
  have lr: "pget known_topic ''last_read_post_number'' = JNull" by (simp add: known_topic_def pget_def)
  from updateSeen_max [OF f, of 5] lr show ?thesis by simp
qed

end
