(* ===== verification/ScreenTrack.thy ===== *)
theory ScreenTrack
  imports NumObject BrowserStore PostStream TopicTrackingInv
begin

text \<open>
  Reading times: the service \<open>frontend/discourse/app/services/screen-track.js\<close>, which adds up how
  long posts are on the screen and sends the times to the server, with the read cache and the topic
  navigation of \<open>app/lib/topic-list-tracker.js\<close>.

  The clock is the argument \<open>now\<close> (milliseconds). A call to the server is split in two: the part up
  to the \<open>await\<close> puts the timing into \<open>flight\<close>, and \<open>timing_sent\<close> or \<open>timing_failed\<close> runs with the
  server's answer. What \<open>flush\<close> reads of the page is the argument \<open>view\<close>: the post stream of the topic
  controller and the topic's last read post number. An entry of \<open>consolidated\<close> that the queue holds
  twice is one object, so both places are updated together. The object with the times of an entry has
  a number (\<open>tm_obj\<close>): \<open>consolidateTimings\<close> adds to the times of the found entry in place, which
  shows in a request in flight that holds the same object. The state of other services is part of the record: \<open>tts\<close> is the topic tracking
  state, \<open>storage\<close> the local storage, \<open>highestSeen\<close> the session's \<open>highestSeenByTopic\<close>. \<open>me\<close> is the
  current user's list of ignored users, \<open>None\<close> for an anonymous visitor. \<open>readCalls\<close> and \<open>sent\<close>
  record the calls of \<open>readPosts\<close> and the events \<open>topic:timings-sent\<close>.
\<close>

section \<open>The read cache\<close>

text \<open>\<open>lastHighestRead\<close> is \<open>None\<close> for \<open>undefined\<close> and for \<open>NaN\<close>, which the code treats alike.\<close>

record read_cache =
  lastTopicId :: "nat option"
  lastHighestRead :: "nat option"

definition setHighestReadCache :: "nat \<Rightarrow> nat option \<Rightarrow> read_cache \<Rightarrow> read_cache" where
  "setHighestReadCache topicId postNumber c = \<lparr>lastTopicId = Some topicId, lastHighestRead = postNumber\<rparr>"

definition getHighestReadCache :: "nat \<Rightarrow> read_cache \<Rightarrow> nat option" where
  "getHighestReadCache topicId c = (if lastTopicId c = Some topicId then lastHighestRead c else None)"

definition resetHighestReadCache :: "read_cache \<Rightarrow> read_cache" where
  "resetHighestReadCache c = \<lparr>lastTopicId = None, lastHighestRead = None\<rparr>"

text \<open>
  \<open>setTopicList\<close> corrects the unread counts of the tracked topics whose read position the cache knows
  to be newer than the list.
\<close>

definition fix_unread :: "jobj \<Rightarrow> read_cache \<Rightarrow> jobj \<times> read_cache" where
  "fix_unread tp c =
     (if \<not> js_ge (pget tp ''notification_level'') TRACKING then (tp, c)
      else case getHighestReadCache (nat (num_of (pget tp ''id''))) c of
        None \<Rightarrow> (tp, c)
      | Some h \<Rightarrow>
          (if h \<noteq> 0 \<and> js_ge (JNum (int h)) (pget tp ''last_read_post_number'')
           then let count = JNum (max (num_of (pget tp ''highest_post_number'') - int h) 0)
                in (assign tp [(''unread_posts'', count), (''new_posts'', count)], resetHighestReadCache c)
           else (tp, c)))"

fun setTopicList_loop :: "jobj list \<Rightarrow> read_cache \<Rightarrow> jobj list \<times> read_cache" where
  "setTopicList_loop [] c = ([], c)"
| "setTopicList_loop (t # ts) c =
     (let (t', c1) = fix_unread t c; (ts', c2) = setTopicList_loop ts c1 in (t' # ts', c2))"

text \<open>The result is the list, the current topic, which \<open>setTopicList\<close> clears, and the cache.\<close>

definition setTopicList :: "topic_list option \<Rightarrow> read_cache \<Rightarrow> topic_list option \<times> jsval \<times> read_cache" where
  "setTopicList incoming c =
     (case incoming of
        None \<Rightarrow> (None, JNull, c)
      | Some l \<Rightarrow> (let (ts, c1) = setTopicList_loop (l_topics l) c in (Some (l\<lparr>l_topics := ts\<rparr>), JNull, c1)))"

section \<open>Neighbouring topics\<close>

text \<open>
  \<open>urlAt\<close> asks the list for more topics while the wanted index is past its end; \<open>loadMore\<close> is the
  list after that request. The result is the topic whose url is returned, with the list and the
  current topic it leaves behind; \<open>None\<close> at the end of the fuel.
\<close>

definition currentIndex :: "jsval \<Rightarrow> topic_list \<Rightarrow> int" where
  "currentIndex cur model =
     (if truthy cur
      then (case find (\<lambda>i. pget (l_topics model ! i) ''id'' = cur) [0..<length (l_topics model)] of
              Some i \<Rightarrow> int i | None \<Rightarrow> -1)
      else -1)"

fun urlAt :: "nat \<Rightarrow> (topic_list \<Rightarrow> topic_list) \<Rightarrow> int \<Rightarrow> jsval \<Rightarrow> topic_list \<Rightarrow>
    (jobj option \<times> topic_list \<times> jsval) option" where
  "urlAt fuel loadMore delta cur model =
     (let i = currentIndex cur model;
          index = (if i = -1 then 0 else i + delta)
      in case nth_opt (l_topics model) index of
        Some tp \<Rightarrow> Some (Some tp, model, pget tp ''id'')
      | None \<Rightarrow>
          (if index > 0 \<and> truthy (more_topics_url model)
           then (case fuel of 0 \<Rightarrow> None | Suc f \<Rightarrow> urlAt f loadMore delta cur (loadMore model))
           else Some (None, model, cur)))"

declare urlAt.simps [simp del]

definition nextTopicUrl :: "nat \<Rightarrow> (topic_list \<Rightarrow> topic_list) \<Rightarrow> jsval \<Rightarrow> topic_list \<Rightarrow>
    (jobj option \<times> topic_list \<times> jsval) option" where
  "nextTopicUrl fuel loadMore cur model = urlAt fuel loadMore 1 cur model"

definition previousTopicUrl :: "nat \<Rightarrow> (topic_list \<Rightarrow> topic_list) \<Rightarrow> jsval \<Rightarrow> topic_list \<Rightarrow>
    (jobj option \<times> topic_list \<times> jsval) option" where
  "previousTopicUrl fuel loadMore cur model = urlAt fuel loadMore (-1) cur model"

section \<open>State\<close>

record timing =
  tm_timings :: "int num_object"
  tm_time :: int
  tm_topic :: nat
  tm_obj :: nat

record screen =
  ajaxFailures :: nat
  consolidated :: "timing list"
  lastTick :: int
  lastScrolled :: int
  lastFlush :: int
  timings :: "(nat, int) omap"
  totalTimings :: "(nat, int) omap"
  topicTime :: int
  onscreen :: "nat list option"
  readOnscreen :: "nat list option"
  seenPosts :: "nat list"
  inProgress :: bool
  topicId :: "nat option"
  intervalOn :: bool
  controller :: bool
  blockTill :: "int option"
  cache :: read_cache
  highestSeen :: "(nat, nat) omap"
  tts :: tracking
  storage :: storage
  anonCallback :: bool
  anonCalls :: nat
  hasFocus :: bool
  me :: "string list option"
  flight :: "timing list"
  next_obj :: nat
  readCalls :: "(nat \<times> nat list) list"
  sent :: "timing list"

definition PAUSE_UNLESS_SCROLLED :: int where "PAUSE_UNLESS_SCROLLED = 1000 * 60 * 3"

definition MAX_TRACKING_TIME :: int where "MAX_TRACKING_TIME = 1000 * 60 * 6"

definition ANON_MAX_TOPIC_IDS :: nat where "ANON_MAX_TOPIC_IDS = 5"

definition AJAX_FAILURE_DELAYS :: "int list" where
  "AJAX_FAILURE_DELAYS = [5000, 10000, 20000, 40000]"

definition ALLOWED_AJAX_FAILURES :: "int list" where
  "ALLOWED_AJAX_FAILURES = [405, 429, 500, 501, 502, 503, 504]"

definition setOnscreen :: "nat list option \<Rightarrow> nat list option \<Rightarrow> screen \<Rightarrow> screen" where
  "setOnscreen on readOn s = s\<lparr>onscreen := on, readOnscreen := readOn\<rparr>"

definition reset :: "int \<Rightarrow> screen \<Rightarrow> screen" where
  "reset now s = s\<lparr>lastTick := now, lastScrolled := now, lastFlush := 0, timings := [],
     totalTimings := [], topicTime := 0, onscreen := None, readOnscreen := None, seenPosts := [],
     inProgress := False\<rparr>"

definition scrolled :: "int \<Rightarrow> screen \<Rightarrow> screen" where
  "scrolled now s = s\<lparr>lastScrolled := now\<rparr>"

section \<open>Consolidating\<close>

text \<open>
  A timing of a topic that is queued already is moved towards the end of the queue and merged. The
  move writes the found entry into the last place and the last entry into the place before it.
\<close>

definition move_up :: "nat \<Rightarrow> 'a list \<Rightarrow> 'a list" where
  "move_up i q =
     (let lastIndex = length q - 1
      in if i \<noteq> lastIndex then q[lastIndex := q ! i, lastIndex - 1 := q ! lastIndex] else q)"

definition add_times :: "int num_object \<Rightarrow> int num_object \<Rightarrow> int num_object" where
  "add_times new found = map (\<lambda>(k, v). (k, case om_get new k of None \<Rightarrow> v | Some t \<Rightarrow> v + t)) found"

text \<open>The merged times are a new object, numbered \<open>fresh\<close>.\<close>

definition merge_timing :: "nat \<Rightarrow> int num_object \<Rightarrow> int \<Rightarrow> timing \<Rightarrow> timing" where
  "merge_timing fresh new time found =
     found\<lparr>tm_time := tm_time found + time, tm_timings := nm_spread new (add_times new (tm_timings found)),
       tm_obj := fresh\<rparr>"

definition index_topic :: "nat \<Rightarrow> timing list \<Rightarrow> nat option" where
  "index_topic tp q = find (\<lambda>i. tm_topic (q ! i) = tp) [0..<length q]"

definition queue_timing :: "nat \<Rightarrow> nat \<Rightarrow> int num_object \<Rightarrow> int \<Rightarrow> nat \<Rightarrow> timing list \<Rightarrow> timing list" where
  "queue_timing obj fresh new time tp q =
     (case index_topic tp q of
        None \<Rightarrow> q @ [\<lparr>tm_timings = new, tm_time = time, tm_topic = tp, tm_obj = obj\<rparr>]
      | Some i \<Rightarrow> map (\<lambda>e. if tm_topic e = tp then merge_timing fresh new time (q ! i) else e) (move_up i q))"

text \<open>What the additions in place to the times of the found entry do to the requests in flight.\<close>

definition add_shared :: "int num_object \<Rightarrow> nat \<Rightarrow> timing list \<Rightarrow> timing list \<Rightarrow> timing list" where
  "add_shared new tp q sending =
     (case index_topic tp q of
        None \<Rightarrow> sending
      | Some i \<Rightarrow> map (\<lambda>e. if tm_obj e = tm_obj (q ! i)
                         then e\<lparr>tm_timings := add_times new (tm_timings e)\<rparr> else e) sending)"

definition last_key :: "'v num_object \<Rightarrow> nat option" where
  "last_key m = last_opt (om_keys m)"

definition consolidateTimings :: "nat \<Rightarrow> int num_object \<Rightarrow> int \<Rightarrow> nat \<Rightarrow> screen \<Rightarrow> screen" where
  "consolidateTimings obj new time tp s =
     (let s1 = s\<lparr>consolidated := queue_timing obj (next_obj s) new time tp (consolidated s),
                  flight := add_shared new tp (consolidated s) (flight s), next_obj := next_obj s + 1\<rparr>;
          highestRead = last_key new
      in case getHighestReadCache tp (cache s1) of
           None \<Rightarrow> s1\<lparr>cache := setHighestReadCache tp highestRead (cache s1)\<rparr>
         | Some h \<Rightarrow>
             (if h = 0 \<or> (case highestRead of None \<Rightarrow> False | Some r \<Rightarrow> h < r)
              then s1\<lparr>cache := setHighestReadCache tp highestRead (cache s1)\<rparr> else s1))"

section \<open>Sending\<close>

definition sendNext :: "int \<Rightarrow> screen \<Rightarrow> screen" where
  "sendNext now s =
     (if consolidated s = [] then s
      else if inProgress s then s
      else if (case blockTill s of None \<Rightarrow> False | Some b \<Rightarrow> b \<noteq> 0 \<and> b > now) then s
      else s\<lparr>consolidated := butlast (consolidated s), flight := flight s @ [last (consolidated s)],
             inProgress := True\<rparr>)"

text \<open>The answers. Both end with the \<open>finally\<close> block.\<close>

definition after_send :: "screen \<Rightarrow> screen" where
  "after_send s = s\<lparr>inProgress := False, lastFlush := 0\<rparr>"

definition timing_sent :: "timing \<Rightarrow> screen \<Rightarrow> screen" where
  "timing_sent e s =
     (let s1 = s\<lparr>flight := remove1 e (flight s), ajaxFailures := 0\<rparr>;
          postNumbers = om_keys (tm_timings e);
          s2 = (if controller s1
                then let s3 = s1\<lparr>readCalls := readCalls s1 @ [(tm_topic e, postNumbers)]\<rparr>
                     in case (getHighestReadCache (tm_topic e) (cache s3), last_opt postNumbers) of
                          (Some h, Some l) \<Rightarrow>
                            (if h \<noteq> 0 \<and> h \<le> l then s3\<lparr>cache := resetHighestReadCache (cache s3)\<rparr> else s3)
                        | _ \<Rightarrow> s3
                else s1)
      in after_send (s2\<lparr>sent := sent s2 @ [e]\<rparr>))"

text \<open>A failure without a response (\<open>e.jqXHR\<close> absent) has no status.\<close>

definition timing_failed :: "int \<Rightarrow> int option \<Rightarrow> timing \<Rightarrow> screen \<Rightarrow> screen" where
  "timing_failed now status e s =
     (let s1 = s\<lparr>flight := remove1 e (flight s)\<rparr>
      in after_send
        (case status of
           None \<Rightarrow> s1
         | Some code \<Rightarrow>
             (if code \<in> set ALLOWED_AJAX_FAILURES
              then let delay = nth_opt AJAX_FAILURE_DELAYS (int (ajaxFailures s1));
                       s2 = s1\<lparr>ajaxFailures := ajaxFailures s1 + 1\<rparr>
                   in case delay of
                        None \<Rightarrow> s2
                      | Some d \<Rightarrow> consolidateTimings (tm_obj e) (tm_timings e) (tm_time e) (tm_topic e)
                                  (s2\<lparr>blockTill := Some (now + d)\<rparr>)
              else s1)))"

section \<open>Flushing\<close>

text \<open>One step of the loop over \<open>_timings\<close>: the new totals and the times to report.\<close>

definition flush_step ::
    "nat \<times> int \<Rightarrow> (nat, int) omap \<times> int num_object \<Rightarrow> (nat, int) omap \<times> int num_object" where
  "flush_step e acc =
     (let (postNumber, time) = e; (totals, new) = acc;
          totals1 = (if om_get totals postNumber = None then om_set postNumber 0 totals else totals);
          totalTiming = (case om_get totals1 postNumber of None \<Rightarrow> 0 | Some t \<Rightarrow> t)
      in if time > 0 \<and> totalTiming < MAX_TRACKING_TIME
         then (om_set postNumber (totalTiming + time) totals1, nm_set postNumber time new)
         else (totals1, new))"

text \<open>
  The posts of ignored users that end the stream as a gap: the number of the last of them, when it is
  not marked as read yet.
\<close>

type_synonym view = "(pstream \<times> int) option"

definition stuck_unread :: "screen \<Rightarrow> view \<Rightarrow> nat option" where
  "stuck_unread s v =
     (case (me s, v) of
        (Some ignored, Some (ps, lastRead)) \<Rightarrow>
          (case last_opt (posts ps) of
             None \<Rightarrow> None
           | Some r \<Rightarrow>
               (case gapsOf ps of
                  None \<Rightarrow> None
                | Some g \<Rightarrow>
                    (case om_get (g_after g) (post_id ps r) of
                       None \<Rightarrow> None
                     | Some gap \<Rightarrow>
                         (let n = post_number ps r + int (length gap)
                          in if ignored \<noteq> [] \<and> hasNoFilters ps \<and> \<not> canAppendMore ps \<and>
                                truthy (rprop (st ps) r ''read'') \<and> lastRead \<noteq> n
                             then Some (nat n) else None))))
      | _ \<Rightarrow> None)"

definition new_timings :: "view \<Rightarrow> screen \<Rightarrow> int num_object" where
  "new_timings v s =
     (let new = snd (fold flush_step (timings s) (totalTimings s, []))
      in case stuck_unread s v of None \<Rightarrow> new | Some n \<Rightarrow> nm_set n 1 new)"

text \<open>\<open>join(",")\<close>.\<close>

fun join_with :: "char \<Rightarrow> string list \<Rightarrow> string" where
  "join_with sep [] = []"
| "join_with sep [w] = w"
| "join_with sep (w # ws) = w @ [sep] @ join_with sep ws"

definition anon_topic_ids :: "screen \<Rightarrow> int option list" where
  "anon_topic_ids s =
     (case kv_get ''discourse_'' ''anon-topic-ids'' (storage s) of
        None \<Rightarrow> [] | Some [] \<Rightarrow> []
      | Some text \<Rightarrow> map read_int (split_on (CHR '','') text))"

definition show_id :: "int option \<Rightarrow> string" where
  "show_id i = (case i of None \<Rightarrow> ''NaN'' | Some n \<Rightarrow> show_int n)"

definition record_anonymous :: "nat \<Rightarrow> screen \<Rightarrow> screen" where
  "record_anonymous tp s =
     (let existing = kv_getInt ''discourse_'' ''anon-topic-time'' 0 (storage s);
          ids = anon_topic_ids s;
          st1 = kv_set ''discourse_'' ''anon-topic-time'' (show_int (existing + topicTime s)) (storage s);
          st2 = (if Some (int tp) \<notin> set ids \<and> length ids < ANON_MAX_TOPIC_IDS
                 then kv_set ''discourse_'' ''anon-topic-ids''
                        (join_with (CHR '','') (map show_id (ids @ [Some (int tp)]))) st1
                 else st1)
      in s\<lparr>storage := st2, anonCalls := anonCalls s + 1\<rparr>)"

definition note_highest :: "nat \<Rightarrow> nat \<Rightarrow> screen \<Rightarrow> screen" where
  "note_highest tp h s =
     (let s1 = (if (case om_get (highestSeen s) tp of None \<Rightarrow> 0 | Some n \<Rightarrow> n) < h
                then s\<lparr>highestSeen := om_set tp h (highestSeen s)\<rparr> else s)
      in s1\<lparr>tts := updateSeen (JNum (int tp)) (JNum (int h)) (tts s1)\<rparr>)"

text \<open>
  \<open>flush\<close> runs only while a topic is tracked: the interval that ticks is cleared with the topic. On a
  state without a topic the definition leaves everything as it is.
\<close>

definition flush :: "int \<Rightarrow> view \<Rightarrow> screen \<Rightarrow> screen" where
  "flush now v s =
     (case topicId s of
        None \<Rightarrow> s
      | Some tp \<Rightarrow>
          (let new = new_timings v s;
               s1 = s\<lparr>totalTimings := fst (fold flush_step (timings s) (totalTimings s, [])),
                      timings := map (\<lambda>(p, t). (p, 0)) (timings s)\<rparr>;
               highest = fold max (om_keys new) 0;
               s2 = note_highest tp highest s1;
               s3 = (if highest > 0
                     then let s4 = (if me s2 \<noteq> None
                                    then sendNext now (consolidateTimings (next_obj s2) new (topicTime s2) tp
                                           (s2\<lparr>next_obj := next_obj s2 + 1\<rparr>))
                                    else if anonCallback s2 then record_anonymous tp s2 else s2)
                          in s4\<lparr>topicTime := 0\<rparr>
                     else s2)
           in s3\<lparr>lastFlush := 0\<rparr>))"

section \<open>Ticking\<close>

definition rush :: "screen \<Rightarrow> bool" where
  "rush s \<longleftrightarrow> list_ex (\<lambda>(p, t). t > 0 \<and>
      (case om_get (totalTimings s) p of None \<Rightarrow> True | Some u \<Rightarrow> u = 0) \<and> p \<notin> set (seenPosts s)) (timings s)"

definition add_time :: "int \<Rightarrow> nat \<Rightarrow> (nat, int) omap \<Rightarrow> (nat, int) omap" where
  "add_time diff p m = om_set p ((case om_get m p of None \<Rightarrow> 0 | Some t \<Rightarrow> t) + diff) m"

definition count_time :: "int \<Rightarrow> screen \<Rightarrow> screen" where
  "count_time diff s =
     (if hasFocus s
      then s\<lparr>topicTime := topicTime s + diff,
             timings := (case onscreen s of None \<Rightarrow> timings s | Some ps \<Rightarrow> fold (add_time diff) ps (timings s)),
             seenPosts := (case readOnscreen s of None \<Rightarrow> seenPosts s | Some ps \<Rightarrow> fold push_new ps (seenPosts s))\<rparr>
      else s)"

definition tick :: "int \<Rightarrow> view \<Rightarrow> screen \<Rightarrow> screen" where
  "tick now v s =
     (if now - lastScrolled s > PAUSE_UNLESS_SCROLLED then s
      else
        let diff = now - lastTick s;
            s1 = s\<lparr>lastFlush := lastFlush s + diff, lastTick := now\<rparr>;
            s2 = (if \<not> inProgress s1 \<and> (lastFlush s1 > 60 * 1000 \<or> rush s1) then flush now v s1 else s1);
            s3 = (if \<not> inProgress s2 then sendNext now s2 else s2)
        in count_time diff s3)"

definition start :: "int \<Rightarrow> view \<Rightarrow> nat \<Rightarrow> bool \<Rightarrow> screen \<Rightarrow> screen" where
  "start now v tp ctl s =
     (let s1 = (if topicId s \<noteq> None \<and> topicId s \<noteq> Some tp then flush now v (tick now v s) else s)
      in (reset now s1)\<lparr>intervalOn := True, topicId := Some tp, controller := ctl\<rparr>)"

definition stop :: "int \<Rightarrow> view \<Rightarrow> screen \<Rightarrow> screen" where
  "stop now v s =
     (if topicId s = None then s
      else (reset now (flush now v (tick now v s)))\<lparr>topicId := None, controller := False, intervalOn := False\<rparr>)"

end
