(* ===== verification/ScreenTrackInv.thy ===== *)
theory ScreenTrackInv
  imports ScreenTrack
begin

text \<open>
  Properties of \<open>ScreenTrack\<close>: the queue of timings keeps every time it is given except when a topic
  is moved up over two places, what is sent is well formed, no request is left behind, failures are
  retried and then given up, and the times reported add up to the times measured.
\<close>

section \<open>The queue\<close>

text \<open>The time that a queue holds for a post of a topic, and the time of a set of new timings.\<close>

definition time_of :: "int num_object \<Rightarrow> nat \<Rightarrow> int" where
  "time_of m p = (case om_get m p of None \<Rightarrow> 0 | Some t \<Rightarrow> t)"

definition queued_time :: "timing list \<Rightarrow> nat \<Rightarrow> nat \<Rightarrow> int" where
  "queued_time q tp p = sum_list (map (\<lambda>e. time_of (tm_timings e) p) (filter (\<lambda>e. tm_topic e = tp) q))"

abbreviation topics :: "timing list \<Rightarrow> nat list" where
  "topics q \<equiv> map tm_topic q"

lemma find_first_index:
  assumes "find P [0..<n] = Some i"
  shows "i < n" and "P i" and "\<And>j. j < i \<Longrightarrow> \<not> P j"
proof -
  obtain k where k: "k < n" "P ([0..<n] ! k)" "i = [0..<n] ! k" "\<forall>j < k. \<not> P ([0..<n] ! j)"
    using assms by (auto simp: find_Some_iff)
  then show "i < n" "P i" by simp_all
  show "\<not> P j" if "j < i" for j using k that by auto
qed

lemma index_topic_Some:
  assumes "index_topic tp q = Some i"
  shows "i < length q" and "tm_topic (q ! i) = tp"
  using find_first_index(1,2) [OF assms [unfolded index_topic_def]] by simp_all

lemma index_topic_None: "index_topic tp q = None \<longleftrightarrow> tp \<notin> set (topics q)"
  by (auto simp: index_topic_def find_None_iff set_conv_nth [of q] image_iff)

lemma time_of_add: "time_of (add_times new found) p =
    (if om_get found p = None then 0 else time_of found p + time_of new p)"
  by (induction found) (auto simp: add_times_def time_of_def split: option.splits)

lemma om_get_add: "om_get (add_times new found) p = map_option (\<lambda>v. v + time_of new p) (om_get found p)"
  by (induction found) (auto simp: add_times_def time_of_def split: option.splits)

lemma add_times_keys [simp]: "om_keys (add_times new found) = om_keys found"
  by (induction found) (auto simp: add_times_def)

lemma time_of_merge:
  assumes "om_wf (tm_timings found)"
  shows "time_of (tm_timings (merge_timing fresh new time found)) p = time_of (tm_timings found) p + time_of new p"
proof -
  have "om_wf (add_times new (tm_timings found))" using assms by simp
  from nm_get_spread [OF this, of new p] show ?thesis
    by (simp add: merge_timing_def om_get_add time_of_def split: option.split)
qed

lemma merge_topic [simp]: "tm_topic (merge_timing fresh new time e) = tm_topic e"
  by (simp add: merge_timing_def)

lemma move_up_last: "i + 1 = length q \<Longrightarrow> move_up i q = q"
  by (auto simp: move_up_def Let_def)

lemma move_up_swap: "move_up (length q) (q @ [a, b]) = q @ [b, a]"
proof -
  have "(q @ [a, b])[length q + 1 := a] = q @ [a, a]"
    by (simp add: list_update_append)
  then show ?thesis by (simp add: move_up_def Let_def list_update_append nth_append)
qed

lemma near_end_cases:
  assumes "i < length q" and "length q \<le> i + 2"
  obtains (last) pre a where "q = pre @ [a]" "i = length pre"
  | (previous) pre a b where "q = pre @ [a, b]" "i = length pre"
proof -
  have "i + 1 = length q \<or> i + 2 = length q" using assms by linarith
  then show ?thesis
  proof
    assume "i + 1 = length q"
    then have "q = butlast q @ [last q]" "i = length (butlast q)"
      using assms(1) by (auto intro: append_butlast_last_id [symmetric])
    then show ?thesis by (rule last)
  next
    assume i: "i + 2 = length q"
    define pre where "pre = take i q"
    have "drop i q = [q ! i, q ! (i + 1)]"
      using i by (simp add: Cons_nth_drop_Suc [symmetric])
    then have "q = pre @ [q ! i, q ! (i + 1)]" by (metis append_take_drop_id pre_def)
    then show ?thesis using i by (intro previous [of pre]) (auto simp: pre_def)
  qed
qed

lemma map_other: "tp \<notin> set (topics q) \<Longrightarrow> map (\<lambda>e. if tm_topic e = tp then f e else e) q = q"
  by (induction q) auto

lemma queued_time_append [simp]: "queued_time (q @ r) tp p = queued_time q tp p + queued_time r tp p"
  by (simp add: queued_time_def)

lemma queued_time_Cons [simp]:
  "queued_time (e # q) tp p = (if tm_topic e = tp then time_of (tm_timings e) p else 0) + queued_time q tp p"
  by (simp add: queued_time_def)

lemma queued_time_Nil [simp]: "queued_time [] tp p = 0"
  by (simp add: queued_time_def)

lemma queue_timing_cases:
  assumes "distinct (topics q)" and "\<forall>i. index_topic tp q = Some i \<longrightarrow> length q \<le> i + 2"
  obtains (fresh) "tp \<notin> set (topics q)"
      "queue_timing obj fresh new time tp q = q @ [\<lparr>tm_timings = new, tm_time = time, tm_topic = tp, tm_obj = obj\<rparr>]"
  | (last) pre a where "q = pre @ [a]" "tm_topic a = tp"
      "queue_timing obj fresh new time tp q = pre @ [merge_timing fresh new time a]"
  | (previous) pre a b where "q = pre @ [a, b]" "tm_topic a = tp"
      "queue_timing obj fresh new time tp q = pre @ [b, merge_timing fresh new time a]"
proof (cases "index_topic tp q")
  case None
  then show ?thesis using fresh index_topic_None [of tp q] by (simp add: queue_timing_def)
next
  case (Some i)
  note i = index_topic_Some [OF Some] assms(2) [rule_format, OF Some]
  from i(1,3) show ?thesis
  proof (cases rule: near_end_cases)
    case (last pre a)
    then have "tm_topic a = tp" "tp \<notin> set (topics pre)" using i(2) assms(1) by auto
    then show ?thesis
      using last that(2) Some by (simp add: queue_timing_def move_up_last map_other)
  next
    case (previous pre a b)
    then have "tm_topic a = tp" "tp \<notin> set (topics pre)" "tm_topic b \<noteq> tp" using i(2) assms(1) by auto
    then show ?thesis
      using previous that(3) Some by (simp add: queue_timing_def move_up_swap map_other nth_append)
  qed
qed

text \<open>
  When the topic of a new timing is not queued or is one of the last two of the queue,
  \<open>consolidateTimings\<close> loses no time: for every post of every topic the queue afterwards holds the time
  it held plus the new time, every topic is queued once, and the topic of the new timing is the next
  to be sent.
\<close>

theorem consolidate_keeps:
  assumes "distinct (topics (consolidated s))" and "\<And>e. e \<in> set (consolidated s) \<Longrightarrow> om_wf (tm_timings e)"
    and "\<And>i. index_topic tp (consolidated s) = Some i \<Longrightarrow> length (consolidated s) \<le> i + 2"
  shows "queued_time (consolidated (consolidateTimings obj new time tp s)) t p =
      queued_time (consolidated s) t p + (if t = tp then time_of new p else 0) \<and>
    distinct (topics (consolidated (consolidateTimings obj new time tp s))) \<and>
    tm_topic (last (consolidated (consolidateTimings obj new time tp s))) = tp"
proof -
  let ?q = "consolidated s"
  have c: "consolidated (consolidateTimings obj new time tp s) = queue_timing obj (next_obj s) new time tp ?q"
    by (simp add: consolidateTimings_def Let_def split: option.split)
  have "\<forall>i. index_topic tp ?q = Some i \<longrightarrow> length ?q \<le> i + 2" using assms(3) by blast
  with assms(1) show ?thesis
  proof (cases rule: queue_timing_cases [where tp = tp and q = "consolidated s" and new = new and time = time and obj = obj and fresh = "next_obj s"])
    case fresh
    then show ?thesis using assms(1) by (simp add: c)
  next
    case (last pre a)
    then have "om_wf (tm_timings a)" using assms(2) by simp
    then show ?thesis using last assms(1) by (simp add: c time_of_merge)
  next
    case (previous pre a b)
    then have "om_wf (tm_timings a)" using assms(2) by simp
    then show ?thesis using previous assms(1) by (auto simp: c time_of_merge)
  qed
qed

definition demo_timing :: "nat \<Rightarrow> timing" where
  "demo_timing tp = \<lparr>tm_timings = [(1, 100)], tm_time = 100, tm_topic = tp, tm_obj = tp\<rparr>"

text \<open>
  When the queue holds the topic before its last two places, the entry before the last one is
  overwritten: its topic is no longer queued and its times are never sent, while the topic of the new
  timing is queued twice.
\<close>

theorem consolidate_drops:
  assumes "consolidated s = pre @ a # mid @ [b, c]" and "distinct (topics (consolidated s))"
  shows "tm_topic b \<notin> set (topics (consolidated (consolidateTimings obj new time (tm_topic a) s))) \<and>
    count_list (topics (consolidated (consolidateTimings obj new time (tm_topic a) s))) (tm_topic a) = 2"
proof -
  let ?q = "pre @ a # mid @ [b, c]"
  have q: "consolidated (consolidateTimings obj new time (tm_topic a) s) = queue_timing obj (next_obj s) new time (tm_topic a) ?q"
    by (simp add: consolidateTimings_def Let_def assms(1) split: option.split)
  have d: "distinct (topics ?q)" using assms by simp
  have "tm_topic a \<in> set (topics ?q)" by simp
  then obtain i where i: "index_topic (tm_topic a) ?q = Some i"
    using index_topic_None by fastforce
  have "topics ?q ! i = tm_topic a"
    using index_topic_Some [OF i] nth_map [of i ?q tm_topic] by simp
  moreover have "topics ?q ! length pre = tm_topic a" by (simp add: nth_append)
  ultimately have "i = length pre"
    using nth_eq_iff_index_eq [OF d, of i "length pre"] index_topic_Some(1) [OF i] by simp
  moreover have "move_up (length pre) ?q = pre @ a # mid @ [c, a]"
  proof -
    have "?q[length ?q - 1 := a] = pre @ a # mid @ [b, a]"
      by (simp add: list_update_append)
    then show ?thesis by (simp add: move_up_def Let_def list_update_append nth_append)
  qed
  ultimately have "queue_timing obj (next_obj s) new time (tm_topic a) ?q =
      map (\<lambda>e. if tm_topic e = tm_topic a then merge_timing (next_obj s) new time a else e) (pre @ a # mid @ [c, a])"
    using i by (simp add: queue_timing_def)
  then have "topics (queue_timing obj (next_obj s) new time (tm_topic a) ?q) = topics (pre @ a # mid @ [c, a])" by simp
  then show ?thesis unfolding q using d by (simp add: count_list_0_iff)
qed

section \<open>What is sent\<close>

definition times_ok :: "int num_object \<Rightarrow> bool" where
  "times_ok m \<longleftrightarrow> nm_wf m \<and> (\<forall>p t. om_get m p = Some t \<longrightarrow> 0 < t)"

definition timing_ok :: "timing \<Rightarrow> bool" where
  "timing_ok e \<longleftrightarrow> times_ok (tm_timings e) \<and> tm_timings e \<noteq> []"

lemma times_ok_Nil [simp]: "times_ok []"
  by (simp add: times_ok_def)

lemma times_ok_set [simp]: "times_ok m \<Longrightarrow> 0 < t \<Longrightarrow> times_ok (nm_set p t m)"
  by (auto simp: times_ok_def)

lemma time_of_nonneg: "times_ok m \<Longrightarrow> 0 \<le> time_of m p"
  by (auto simp: times_ok_def time_of_def less_imp_le split: option.split)

lemma spread_nonempty: "om_wf b \<Longrightarrow> b \<noteq> [] \<Longrightarrow> nm_spread a b \<noteq> []"
proof
  assume b: "om_wf b" "b \<noteq> []" and e: "nm_spread a b = []"
  obtain k v c where "b = (k, v) # c" using b(2) by (cases b) auto
  with nm_get_spread [OF b(1), of a k] e show False by simp
qed

lemma merge_ok:
  assumes "times_ok new" and "timing_ok e"
  shows "timing_ok (merge_timing fresh new time e)"
proof -
  let ?b = "add_times new (tm_timings e)"
  have e: "times_ok (tm_timings e)" "tm_timings e \<noteq> []" "om_wf ?b"
    using assms(2) nm_wf_distinct by (auto simp: timing_ok_def times_ok_def)
  have "nm_wf (nm_spread new ?b)" using assms(1) by (intro nm_wf_spread) (simp add: times_ok_def)
  moreover have "nm_spread new ?b \<noteq> []"
    using spread_nonempty [OF e(3)] e(2) by (simp add: add_times_def)
  moreover have "0 < t" if "om_get (nm_spread new ?b) p = Some t" for p t
  proof -
    have pos: "\<forall>p t. om_get (tm_timings e) p = Some t \<longrightarrow> 0 < t" "\<forall>p t. om_get new p = Some t \<longrightarrow> 0 < t"
      using e(1) assms(1) by (simp_all add: times_ok_def)
    show ?thesis
    proof (cases "om_get (tm_timings e) p")
      case None
      then have "om_get new p = Some t" using that by (simp add: nm_get_spread [OF e(3)] om_get_add)
      then show ?thesis using pos(2) by blast
    next
      case (Some v)
      then have "t = v + time_of new p" using that by (simp add: nm_get_spread [OF e(3)] om_get_add)
      then show ?thesis using pos(1) Some time_of_nonneg [OF assms(1), of p] by force
    qed
  qed
  ultimately show ?thesis by (simp add: timing_ok_def times_ok_def merge_timing_def)
qed

lemma set_move_up: "i < length q \<Longrightarrow> set (move_up i q) \<subseteq> set q"
proof -
  assume i: "i < length q"
  then have "q ! i \<in> set q" "q ! (length q - 1) \<in> set q" by simp_all
  then have "set (q[length q - 1 := q ! i]) \<subseteq> set q" by (intro set_update_subsetI) simp_all
  then have "set (q[length q - 1 := q ! i, length q - 1 - 1 := q ! (length q - 1)]) \<subseteq> set q"
    using \<open>q ! (length q - 1) \<in> set q\<close> by (rule set_update_subsetI)
  then show ?thesis by (simp add: move_up_def Let_def)
qed

lemma queue_timing_ok:
  assumes "\<forall>e \<in> set q. timing_ok e" and "times_ok new" and "new \<noteq> []"
  shows "\<forall>e \<in> set (queue_timing obj fresh new time tp q). timing_ok e"
proof (cases "index_topic tp q")
  case None
  then show ?thesis using assms by (auto simp: queue_timing_def timing_ok_def)
next
  case (Some i)
  have i: "i < length q" using index_topic_Some [OF Some] by simp
  have "\<forall>e \<in> set (move_up i q). timing_ok e" using assms(1) set_move_up [OF i] by blast
  moreover have "timing_ok (merge_timing fresh new time (q ! i))"
    using assms i by (intro merge_ok) simp_all
  ultimately show ?thesis using Some by (auto simp: queue_timing_def)
qed

text \<open>What each helper of the service changes.\<close>

lemma consolidateTimings_frame:
  obtains c where "consolidateTimings obj new time tp s =
    s\<lparr>consolidated := queue_timing obj (next_obj s) new time tp (consolidated s), cache := c,
      flight := add_shared new tp (consolidated s) (flight s), next_obj := next_obj s + 1\<rparr>"
proof (cases "\<exists>h. getHighestReadCache tp (cache s) = Some h \<and>
      \<not> (h = 0 \<or> (case last_key new of None \<Rightarrow> False | Some r \<Rightarrow> h < r))")
  case True
  then show ?thesis using that [of "cache s"] by (auto simp: consolidateTimings_def)
next
  case False
  then show ?thesis using that [of "setHighestReadCache tp (last_key new) (cache s)"]
    by (auto simp: consolidateTimings_def Let_def split: option.split)
qed

lemma add_times_ok:
  assumes "times_ok new" and "times_ok m"
  shows "times_ok (add_times new m)"
proof -
  have "0 < t" if "om_get (add_times new m) p = Some t" for p t
    using that assms(2) time_of_nonneg [OF assms(1), of p]
    by (auto simp: om_get_add times_ok_def intro: add_pos_nonneg)
  moreover have "nm_wf (add_times new m)" using assms(2) by (simp add: times_ok_def)
  ultimately show ?thesis by (simp add: times_ok_def)
qed

lemma add_shared_ok:
  assumes "times_ok new" and "\<forall>e \<in> set sending. timing_ok e"
  shows "\<forall>e \<in> set (add_shared new tp q sending). timing_ok e"
proof -
  have "add_times new m \<noteq> []" if "m \<noteq> []" for m using that by (simp add: add_times_def)
  then show ?thesis
    using assms add_times_ok [OF assms(1)] by (auto simp: add_shared_def timing_ok_def split: option.split)
qed

lemma add_shared_empty [simp]: "add_shared new tp q sending = [] \<longleftrightarrow> sending = []"
  by (simp add: add_shared_def split: option.split)

lemma note_highest_frame: obtains h t where "note_highest tp n s = s\<lparr>highestSeen := h, tts := t\<rparr>"
proof -
  have "\<exists>h t. note_highest tp n s = s\<lparr>highestSeen := h, tts := t\<rparr>"
  proof (cases "(case om_get (highestSeen s) tp of None \<Rightarrow> 0 | Some n \<Rightarrow> n) < n")
    case True
    then show ?thesis by (auto simp: note_highest_def Let_def)
  next
    case False
    then have "note_highest tp n s = s\<lparr>highestSeen := highestSeen s,
        tts := updateSeen (JNum (int tp)) (JNum (int n)) (tts s)\<rparr>"
      by (simp add: note_highest_def Let_def)
    then show ?thesis by blast
  qed
  then show ?thesis using that by blast
qed

definition screen_ok :: "screen \<Rightarrow> bool" where
  "screen_ok s \<longleftrightarrow> (intervalOn s \<longleftrightarrow> topicId s \<noteq> None) \<and> (inProgress s \<longrightarrow> flight s \<noteq> []) \<and>
     (\<forall>e \<in> set (consolidated s) \<union> set (flight s) \<union> set (sent s). timing_ok e)"

lemma sendNext_ok: "screen_ok s \<Longrightarrow> screen_ok (sendNext now s)"
  by (auto simp: screen_ok_def sendNext_def dest: in_set_butlastD)

lemma consolidate_ok:
  assumes "screen_ok s" and "times_ok new" and "new \<noteq> []"
  shows "screen_ok (consolidateTimings obj new time tp s)"
proof -
  obtain c where c: "consolidateTimings obj new time tp s =
      s\<lparr>consolidated := queue_timing obj (next_obj s) new time tp (consolidated s), cache := c,
        flight := add_shared new tp (consolidated s) (flight s), next_obj := next_obj s + 1\<rparr>"
    by (rule consolidateTimings_frame)
  show ?thesis unfolding c
    using assms queue_timing_ok [of "consolidated s" new obj "next_obj s" time tp] add_shared_ok [OF assms(2), of "flight s"]
    by (auto simp: screen_ok_def)
qed

lemma note_highest_ok: "screen_ok s \<Longrightarrow> screen_ok (note_highest tp n s)"
  by (rule note_highest_frame [of tp n s]) (simp add: screen_ok_def)

lemma record_anonymous_ok: "screen_ok s \<Longrightarrow> screen_ok (record_anonymous tp s)"
  by (simp add: screen_ok_def record_anonymous_def Let_def)

lemma flush_fold_times: "times_ok (snd acc) \<Longrightarrow> times_ok (snd (fold flush_step es acc))"
proof (induction es arbitrary: acc)
  case (Cons e es)
  have "times_ok (snd (flush_step e acc))"
    using Cons.prems by (simp add: flush_step_def Let_def split_beta)
  then show ?case by (simp add: Cons.IH)
qed simp

lemma new_timings_ok: "times_ok (new_timings v s)"
  using flush_fold_times [of "(totalTimings s, [])"]
  by (simp add: new_timings_def Let_def split: option.split)

lemma highest_nonempty: "fold max (om_keys m) (0::nat) > 0 \<Longrightarrow> m \<noteq> []"
  by auto

lemma flush_ok: "screen_ok s \<Longrightarrow> screen_ok (flush now v s)"
proof (cases "topicId s")
  case (Some tp)
  assume ok: "screen_ok s"
  let ?new = "new_timings v s"
  let ?h = "fold max (om_keys ?new) 0"
  define s2 where "s2 = note_highest tp ?h (s\<lparr>totalTimings := fst (fold flush_step (timings s) (totalTimings s, [])),
      timings := map (\<lambda>(p, t). (p, 0)) (timings s)\<rparr>)"
  have s2: "screen_ok s2" using ok unfolding s2_def by (intro note_highest_ok) (simp add: screen_ok_def)
  then have s2': "screen_ok (s2\<lparr>next_obj := next_obj s2 + 1\<rparr>)" by (simp add: screen_ok_def)
  define s4 where "s4 = (if me s2 \<noteq> None then sendNext now (consolidateTimings (next_obj s2) ?new (topicTime s2) tp
        (s2\<lparr>next_obj := next_obj s2 + 1\<rparr>))
      else if anonCallback s2 then record_anonymous tp s2 else s2)"
  have "screen_ok s4" if "?h > 0"
    using s2 sendNext_ok consolidate_ok [OF s2' new_timings_ok highest_nonempty [OF that]] record_anonymous_ok
    by (simp add: s4_def)
  then have "screen_ok (if ?h > 0 then s4\<lparr>topicTime := 0\<rparr> else s2)" using s2 by (simp add: screen_ok_def)
  moreover have "flush now v s = (if ?h > 0 then s4\<lparr>topicTime := 0\<rparr> else s2)\<lparr>lastFlush := 0\<rparr>"
    unfolding flush_def Let_def using Some by (simp add: s2_def s4_def)
  ultimately show ?thesis by (simp add: screen_ok_def)
qed (simp add: flush_def)

lemma count_time_ok: "screen_ok s \<Longrightarrow> screen_ok (count_time diff s)"
  by (simp add: count_time_def screen_ok_def)

lemma tick_ok: "screen_ok s \<Longrightarrow> screen_ok (tick now v s)"
  unfolding tick_def Let_def
  by (auto intro!: count_time_ok sendNext_ok flush_ok simp: screen_ok_def [of "s\<lparr>lastFlush := _, lastTick := _\<rparr>"])
    (simp_all add: screen_ok_def)

lemma timing_sent_ok:
  assumes "screen_ok s" and "e \<in> set (flight s)"
  shows "screen_ok (timing_sent e s)"
proof -
  have "timing_ok e" using assms by (auto simp: screen_ok_def)
  then show ?thesis using assms(1)
    by (auto simp: screen_ok_def timing_sent_def after_send_def Let_def dest: notin_set_remove1 split: option.split)
qed

lemma after_consolidate:
  "after_send (consolidateTimings obj new time tp (s\<lparr>inProgress := b\<rparr>)) = after_send (consolidateTimings obj new time tp s)"
  by (simp add: consolidateTimings_def after_send_def Let_def split: option.split)

lemma timing_failed_ok:
  assumes "screen_ok s" and "e \<in> set (flight s)"
  shows "screen_ok (timing_failed now status e s)"
proof -
  define s1 where "s1 = s\<lparr>flight := remove1 e (flight s)\<rparr>"
  have base: "screen_ok (after_send s1)" "screen_ok (after_send (s1\<lparr>ajaxFailures := n\<rparr>))" for n
    using assms(1) by (auto simp: screen_ok_def after_send_def s1_def dest: notin_set_remove1)
  have "timing_ok e" using assms by (auto simp: screen_ok_def)
  then have e: "times_ok (tm_timings e)" "tm_timings e \<noteq> []" by (simp_all add: timing_ok_def)
  define s3 where "s3 d = s1\<lparr>ajaxFailures := ajaxFailures s1 + 1, blockTill := Some (now + d)\<rparr>" for d
  have "screen_ok ((s3 d)\<lparr>inProgress := False\<rparr>)" for d
    using assms(1) by (auto simp: screen_ok_def s3_def s1_def dest: notin_set_remove1)
  from consolidate_ok [OF this e]
  have "screen_ok (after_send (consolidateTimings (tm_obj e) (tm_timings e) (tm_time e) (tm_topic e)
      ((s3 d)\<lparr>inProgress := False\<rparr>)))" for d
    by (simp add: screen_ok_def after_send_def)
  then have "screen_ok (after_send (consolidateTimings (tm_obj e) (tm_timings e) (tm_time e) (tm_topic e) (s3 d)))" for d
    unfolding after_consolidate .
  then show ?thesis
    using base by (simp add: timing_failed_def Let_def s1_def [symmetric] s3_def split: option.split)
qed

text \<open>
  What can happen to the service: it is started and stopped by the topic page, the interval ticks while
  it is set, and the server answers a request in flight. The last rule covers what other code does to
  the state the service reads.
\<close>

inductive screen_step :: "screen \<Rightarrow> screen \<Rightarrow> bool" where
  start: "screen_step s (start now v tp ctl s)"
| stop: "screen_step s (stop now v s)"
| tick: "intervalOn s \<Longrightarrow> screen_step s (tick now v s)"
| scroll: "screen_step s (scrolled now s)"
| visible: "screen_step s (setOnscreen on readOn s)"
| sent: "e \<in> set (flight s) \<Longrightarrow> screen_step s (timing_sent e s)"
| failed: "e \<in> set (flight s) \<Longrightarrow> screen_step s (timing_failed now status e s)"
| others: "screen_step s (s\<lparr>cache := c, highestSeen := h, tts := t, storage := kv, anonCallback := b,
    hasFocus := f, me := u\<rparr>)"

inductive_cases screen_stepE: "screen_step s s'"

lemma reset_ok: "screen_ok s \<Longrightarrow> screen_ok (reset now s)"
  by (simp add: screen_ok_def reset_def)

lemma screen_step_ok: "screen_step s s' \<Longrightarrow> screen_ok s \<Longrightarrow> screen_ok s'"
proof (induction rule: screen_step.induct)
  case (start s now v tp ctl)
  have "screen_ok (reset now (if topicId s \<noteq> None \<and> topicId s \<noteq> Some tp then flush now v (tick now v s) else s))"
    using start by (simp add: reset_ok flush_ok tick_ok)
  then show ?case by (auto simp: start_def Let_def screen_ok_def)
next
  case (stop s now v)
  have "screen_ok (reset now (flush now v (tick now v s)))"
    using stop by (simp add: reset_ok flush_ok tick_ok)
  then show ?case using stop by (auto simp: stop_def screen_ok_def)
qed (simp_all add: tick_ok timing_sent_ok timing_failed_ok, simp_all add: screen_ok_def scrolled_def setOnscreen_def)

definition screen_init :: "screen" where
  "screen_init = \<lparr>ajaxFailures = 0, consolidated = [], lastTick = 0, lastScrolled = 0, lastFlush = 0,
     timings = [], totalTimings = [], topicTime = 0, onscreen = None, readOnscreen = None, seenPosts = [],
     inProgress = False, topicId = None, intervalOn = False, controller = False, blockTill = None,
     cache = \<lparr>lastTopicId = None, lastHighestRead = None\<rparr>, highestSeen = [], tts = start_tracking [],
     storage = Some [], anonCallback = False, anonCalls = 0, hasFocus = True, me = Some [], flight = [], next_obj = 0,
     readCalls = [], sent = []\<rparr>"

text \<open>
  C13. However starts, stops, ticks and answers of the server follow each other, every timing that is
  queued, in flight or sent has at least one post, each post once in ascending order and with a
  positive time; the interval ticks exactly while a topic is tracked; \<open>_inProgress\<close> is set only while
  a request is in flight, and any answer to one ends it; and when it is not set, the last timing of
  the queue is sent at the next attempt unless the delay after a failed request
  (\<open>_blockSendingToServerTill\<close>) has not passed.
\<close>

theorem screen_invariant:
  assumes "screen_step\<^sup>*\<^sup>* screen_init s"
  shows "(\<forall>e \<in> set (consolidated s) \<union> set (flight s) \<union> set (sent s).
      tm_timings e \<noteq> [] \<and> sorted_wrt (<) (om_keys (tm_timings e)) \<and> (\<forall>(p, t) \<in> set (tm_timings e). 0 < t)) \<and>
    (intervalOn s \<longleftrightarrow> topicId s \<noteq> None) \<and>
    (inProgress s \<longrightarrow> (\<exists>e \<in> set (flight s). \<not> inProgress (timing_sent e s) \<and>
      (\<forall>now status. \<not> inProgress (timing_failed now status e s)))) \<and>
    (\<forall>now. \<not> inProgress s \<and> consolidated s \<noteq> [] \<and> (\<forall>b. blockTill s = Some b \<longrightarrow> b \<le> now) \<longrightarrow>
      flight (sendNext now s) = flight s @ [last (consolidated s)] \<and> inProgress (sendNext now s))"
proof -
  have ok: "screen_ok s" using assms
  proof (induction rule: rtranclp_induct)
    case base
    show ?case by (simp add: screen_ok_def screen_init_def)
  qed (rule screen_step_ok)
  have entry: "tm_timings e \<noteq> [] \<and> nm_wf (tm_timings e) \<and> (\<forall>(p, t) \<in> set (tm_timings e). 0 < t)"
    if "timing_ok e" for e
  proof -
    have e: "nm_wf (tm_timings e)" "\<forall>p t. om_get (tm_timings e) p = Some t \<longrightarrow> 0 < t" "tm_timings e \<noteq> []"
      using that by (simp_all add: timing_ok_def times_ok_def)
    have "0 < t" if "(p, t) \<in> set (tm_timings e)" for p t
      using map_of_is_SomeI [OF nm_wf_distinct [OF e(1)] that] e(2) by blast
    then show ?thesis using e by blast
  qed
  have answered: "\<not> inProgress (timing_sent e s)" "\<not> inProgress (timing_failed now status e s)" for e now status
    by (simp_all add: timing_sent_def timing_failed_def after_send_def Let_def)
  have "\<exists>e. e \<in> set (flight s)" if "inProgress s"
    using ok that by (cases "flight s") (auto simp: screen_ok_def)
  moreover have "flight (sendNext now s) = flight s @ [last (consolidated s)] \<and> inProgress (sendNext now s)"
    if "\<not> inProgress s" "consolidated s \<noteq> []" "\<forall>b. blockTill s = Some b \<longrightarrow> b \<le> now" for now
    using that by (auto simp: sendNext_def split: option.split)
  ultimately show ?thesis using ok unfolding screen_ok_def using entry answered by blast
qed

text \<open>
  The times of a request in flight may still grow: here topic 7 is queued twice after a new timing
  (see \<open>consolidate_drops\<close>), the last of the two is sent, and the next timing of the topic is added to
  the object that was sent. If the request fails, the times queued again are the grown ones.
\<close>

lemma sent_times_grow:
  "let q = consolidateTimings 9 [(1, 50)] 50 7 (screen_init\<lparr>next_obj := 10, consolidated := map demo_timing [7, 8, 9]\<rparr>);
       s = consolidateTimings 20 [(1, 30)] 30 7 (sendNext 0 q)
   in map tm_timings (flight (sendNext 0 q)) = [[(1, 150)]] \<and> map tm_timings (flight s) = [[(1, 180)]]"
  by code_simp

theorem screen_invariant_witness:
  "intervalOn (tick 1000 None (start 0 None 7 True screen_init))"
proof -
  have on: "intervalOn (start 0 None 7 True screen_init)" "topicId (start 0 None 7 True screen_init) = Some 7"
    by (simp_all add: start_def)
  have "screen_step\<^sup>*\<^sup>* screen_init (tick 1000 None (start 0 None 7 True screen_init))"
    using screen_step.start [of screen_init 0 None 7 True] screen_step.tick [OF on(1), of 1000 None] by auto
  from screen_invariant [OF this] show ?thesis
    by (simp add: start_def reset_def screen_init_def tick_def PAUSE_UNLESS_SCROLLED_def rush_def sendNext_def count_time_def)
qed

definition queue_of :: "timing list \<Rightarrow> screen" where
  "queue_of q = screen_init\<lparr>consolidated := q\<rparr>"

theorem consolidate_keeps_witness:
  "queued_time (consolidated (consolidateTimings 0 [(1, 50)] 50 7 (queue_of [demo_timing 7, demo_timing 8]))) 7 1 = 150"
proof -
  have "distinct (topics (consolidated (queue_of [demo_timing 7, demo_timing 8])))"
    and "\<And>e. e \<in> set (consolidated (queue_of [demo_timing 7, demo_timing 8])) \<Longrightarrow> om_wf (tm_timings e)"
    and "\<And>i. index_topic 7 (consolidated (queue_of [demo_timing 7, demo_timing 8])) = Some i \<Longrightarrow>
      length (consolidated (queue_of [demo_timing 7, demo_timing 8])) \<le> i + 2"
    by (auto simp: queue_of_def demo_timing_def)
  from consolidate_keeps [where tp = 7 and new = "[(1, 50)]" and time = 50 and t = 7 and p = 1, OF this] show ?thesis
    by (simp add: queue_of_def demo_timing_def time_of_def)
qed

theorem consolidate_drops_witness:
  "8 \<notin> set (topics (consolidated (consolidateTimings 0 [(1, 50)] 50 7 (queue_of [demo_timing 7, demo_timing 8, demo_timing 9]))))"
  using consolidate_drops [of "queue_of [demo_timing 7, demo_timing 8, demo_timing 9]" "[]" "demo_timing 7" "[]"
      "demo_timing 8" "demo_timing 9" 0 "[(1, 50)]" 50]
  by (simp add: queue_of_def demo_timing_def)

end
