(* ===== verification/ScreenTrackTimes.thy ===== *)
theory ScreenTrackTimes
  imports ScreenTrackInv
begin

text \<open>
  The times of \<open>ScreenTrack\<close>: what a tick measures and a flush reports, what a failed request leads
  to, how a flush reaches the topic tracking state, and that the search of a neighbouring topic ends.
\<close>

section \<open>What the helpers leave alone\<close>

definition times_part where
  "times_part s = (timings s, totalTimings s, tts s, onscreen s, readOnscreen s, hasFocus s, topicId s)"

lemma times_partD:
  "times_part s' = times_part s \<Longrightarrow> timings s' = timings s \<and> totalTimings s' = totalTimings s \<and>
    tts s' = tts s \<and> onscreen s' = onscreen s \<and> hasFocus s' = hasFocus s \<and> topicId s' = topicId s"
  by (simp add: times_part_def)

lemma times_consolidate [simp]: "times_part (consolidateTimings obj new time tp s) = times_part s"
  by (rule consolidateTimings_frame [of obj new time tp s]) (simp add: times_part_def)

lemma times_numbered [simp]: "times_part (s\<lparr>next_obj := n\<rparr>) = times_part s"
  by (simp add: times_part_def)

lemma times_sendNext [simp]: "times_part (sendNext now s) = times_part s"
  by (simp add: sendNext_def times_part_def split: option.split)

lemma times_anonymous [simp]: "times_part (record_anonymous tp s) = times_part s"
  by (simp add: record_anonymous_def times_part_def Let_def)

abbreviation flushed_totals :: "screen \<Rightarrow> (nat, int) omap" where
  "flushed_totals s \<equiv> fst (fold flush_step (timings s) (totalTimings s, []))"

abbreviation highest_new :: "view \<Rightarrow> screen \<Rightarrow> nat" where
  "highest_new v s \<equiv> fold max (om_keys (new_timings v s)) 0"

lemma flush_part:
  assumes "topicId s = Some tp"
  shows "times_part (flush now v s) =
    (map (\<lambda>(p, t). (p, 0)) (timings s), flushed_totals s,
     updateSeen (JNum (int tp)) (JNum (int (highest_new v s))) (tts s), onscreen s, readOnscreen s, hasFocus s, Some tp)"
proof -
  let ?s1 = "s\<lparr>totalTimings := flushed_totals s, timings := map (\<lambda>(p, t). (p, 0)) (timings s)\<rparr>"
  define s2 where "s2 = note_highest tp (highest_new v s) ?s1"
  have s2: "times_part s2 =
      (map (\<lambda>(p, t). (p, 0)) (timings s), flushed_totals s,
       updateSeen (JNum (int tp)) (JNum (int (highest_new v s))) (tts s), onscreen s, readOnscreen s, hasFocus s, Some tp)"
    using assms by (simp add: s2_def note_highest_def Let_def times_part_def)
  define s4 where "s4 = (if me s2 \<noteq> None
      then sendNext now (consolidateTimings (next_obj s2) (new_timings v s) (topicTime s2) tp (s2\<lparr>next_obj := next_obj s2 + 1\<rparr>))
      else if anonCallback s2 then record_anonymous tp s2 else s2)"
  have "times_part s4 = times_part s2" by (simp add: s4_def)
  then have "times_part (if highest_new v s > 0 then s4\<lparr>topicTime := 0\<rparr> else s2) = times_part s2"
    by (simp add: times_part_def)
  moreover have "flush now v s = (if highest_new v s > 0 then s4\<lparr>topicTime := 0\<rparr> else s2)\<lparr>lastFlush := 0\<rparr>"
    unfolding flush_def Let_def using assms by (simp add: s2_def s4_def)
  ultimately show ?thesis using s2 by (simp add: times_part_def)
qed

section \<open>Flushing\<close>

text \<open>The time measured for a post since the last flush, and the time reported for it so far.\<close>

definition measured :: "screen \<Rightarrow> nat \<Rightarrow> int" where
  "measured s p = (case om_get (timings s) p of None \<Rightarrow> 0 | Some t \<Rightarrow> t)"

definition reported :: "screen \<Rightarrow> nat \<Rightarrow> int" where
  "reported s p = (case om_get (totalTimings s) p of None \<Rightarrow> 0 | Some t \<Rightarrow> t)"

definition to_report :: "(nat, int) omap \<Rightarrow> nat \<Rightarrow> int \<Rightarrow> int" where
  "to_report totals p t =
     (if 0 < t \<and> (case om_get totals p of None \<Rightarrow> 0 | Some u \<Rightarrow> u) < MAX_TRACKING_TIME then t else 0)"

lemma flush_step_other: "p \<noteq> fst e \<Longrightarrow>
    om_get (fst (flush_step e acc)) p = om_get (fst acc) p \<and> om_get (snd (flush_step e acc)) p = om_get (snd acc) p"
  by (simp add: flush_step_def Let_def split_beta)

lemma flush_step_same:
  "(case om_get (fst (flush_step (p, t) acc)) p of None \<Rightarrow> 0 | Some u \<Rightarrow> u) =
     (case om_get (fst acc) p of None \<Rightarrow> 0 | Some u \<Rightarrow> u) + to_report (fst acc) p t"
  "om_get (snd (flush_step (p, t) acc)) p =
     (if to_report (fst acc) p t > 0 then Some t else om_get (snd acc) p)"
  by (auto simp: flush_step_def to_report_def Let_def split_beta split: option.splits)

lemma flush_fold_other: "p \<notin> set (om_keys es) \<Longrightarrow>
    om_get (fst (fold flush_step es acc)) p = om_get (fst acc) p \<and>
    om_get (snd (fold flush_step es acc)) p = om_get (snd acc) p"
  using flush_step_other by (induction es arbitrary: acc) auto

lemma flush_fold_same:
  assumes "om_wf es" and "om_get es p = Some t"
  shows "(case om_get (fst (fold flush_step es acc)) p of None \<Rightarrow> 0 | Some u \<Rightarrow> u) =
      (case om_get (fst acc) p of None \<Rightarrow> 0 | Some u \<Rightarrow> u) + to_report (fst acc) p t \<and>
    om_get (snd (fold flush_step es acc)) p =
      (if to_report (fst acc) p t > 0 then Some t else om_get (snd acc) p)"
  using assms
proof (induction es arbitrary: acc)
  case (Cons e es)
  show ?case
  proof (cases "fst e = p")
    case True
    then have e: "e = (p, t)" and "p \<notin> set (om_keys es)" using Cons.prems by (cases e; force)+
    then show ?thesis using flush_fold_other [of p es] flush_step_same [of p t acc] by simp
  next
    case False
    then have "om_get es p = Some t" "om_wf es" using Cons.prems by (cases e; force)+
    from Cons.IH [OF this(2,1), of "flush_step e acc"] flush_step_other [of p e acc] False
    show ?thesis by (simp add: to_report_def)
  qed
qed simp

lemma flush_counts:
  assumes "topicId s = Some tp" and "om_wf (timings s)"
  shows "measured (flush now v s) p = 0 \<and>
    reported (flush now v s) p = reported s p +
      (if 0 < measured s p \<and> reported s p < MAX_TRACKING_TIME then measured s p else 0) \<and>
    reported (flush now v s) p \<le> max (reported s p) (MAX_TRACKING_TIME - 1 + measured s p) \<and>
    (stuck_unread s v \<noteq> Some p \<longrightarrow>
      time_of (new_timings v s) p = reported (flush now v s) p - reported s p)"
proof -
  have fields: "timings (flush now v s) = map (\<lambda>(p, t). (p, 0)) (timings s)"
    "totalTimings (flush now v s) = flushed_totals s"
    using flush_part [OF assms(1), of now v] by (simp_all add: times_part_def)
  have zero: "om_get (map (\<lambda>(p, t). (p, 0::int)) m) p = None \<or> om_get (map (\<lambda>(p, t). (p, 0::int)) m) p = Some 0" for m :: "(nat, int) omap"
    by (induction m) auto
  have m: "measured (flush now v s) p = 0" using zero [of "timings s"] by (auto simp: measured_def fields)
  have new: "time_of (new_timings v s) p = time_of (snd (fold flush_step (timings s) (totalTimings s, []))) p"
    if "stuck_unread s v \<noteq> Some p"
    using that by (auto simp: new_timings_def time_of_def Let_def split: option.split)
  show ?thesis
  proof (cases "om_get (timings s) p")
    case None
    then have "p \<notin> set (om_keys (timings s))" by (simp add: map_of_eq_None_iff)
    from flush_fold_other [OF this, of "(totalTimings s, [])"] None m new
    show ?thesis by (simp add: measured_def reported_def fields time_of_def)
  next
    case (Some t)
    from flush_fold_same [OF assms(2) Some, of "(totalTimings s, [])"]
    have f: "reported (flush now v s) p = reported s p + to_report (totalTimings s) p t"
      "om_get (snd (fold flush_step (timings s) (totalTimings s, []))) p =
        (if to_report (totalTimings s) p t > 0 then Some t else None)"
      by (simp_all add: reported_def fields)
    have r: "to_report (totalTimings s) p t =
        (if 0 < measured s p \<and> reported s p < MAX_TRACKING_TIME then measured s p else 0)"
      using Some by (simp add: to_report_def measured_def reported_def)
    have "measured s p = t" using Some by (simp add: measured_def)
    with f r m new show ?thesis by (auto simp: time_of_def)
  qed
qed

text \<open>
  A flush reports the time measured for a post since the last flush, all of it and once, as long
  as less than \<open>MAX_TRACKING_TIME\<close> has been reported for the post, and sets the measured time to zero;
  so the time reported for a post never passes the larger of what it was and the maximum plus one
  measurement.
\<close>

theorem flush_accounts:
  assumes "topicId s = Some tp" and "om_wf (timings s)"
  shows "measured (flush now v s) p = 0 \<and>
    reported (flush now v s) p = reported s p +
      (if 0 < measured s p \<and> reported s p < MAX_TRACKING_TIME then measured s p else 0) \<and>
    reported (flush now v s) p \<le> max (reported s p) (MAX_TRACKING_TIME - 1 + measured s p) \<and>
    (stuck_unread s v \<noteq> Some p \<longrightarrow>
      time_of (new_timings v s) p = reported (flush now v s) p - reported s p)"
  by (rule flush_counts [OF assms])

definition demo_screen :: screen where
  "demo_screen = screen_init\<lparr>topicId := Some 7, intervalOn := True, timings := [(3, 500), (4, 0)],
     totalTimings := [(3, 1000)], onscreen := Some [4]\<rparr>"

theorem flush_accounts_witness: "reported (flush 0 None demo_screen) 3 = 1500"
proof -
  have "topicId demo_screen = Some 7" "om_wf (timings demo_screen)" "measured demo_screen 3 = 500" "reported demo_screen 3 = 1000"
    by (simp_all add: demo_screen_def measured_def reported_def)
  with flush_accounts [OF this(1,2), of 0 None 3] show ?thesis by (simp add: MAX_TRACKING_TIME_def)
qed

section \<open>Ticking\<close>

lemma add_time_other: "p \<noteq> q \<Longrightarrow> om_get (add_time d q m) p = om_get m p"
  by (simp add: add_time_def)

lemma add_time_fold:
  "distinct ps \<Longrightarrow> (case om_get (fold (add_time d) ps m) p of None \<Rightarrow> 0 | Some t \<Rightarrow> t) =
     (case om_get m p of None \<Rightarrow> 0 | Some t \<Rightarrow> t) + (if p \<in> set ps then d else 0)"
proof (induction ps arbitrary: m)
  case (Cons q ps)
  then show ?case by (cases "p = q") (auto simp: add_time_def)
qed simp

lemma measured_count_time:
  assumes "case onscreen s of None \<Rightarrow> True | Some ps \<Rightarrow> distinct ps"
  shows "measured (count_time d s) p = measured s p +
      (if hasFocus s \<and> (case onscreen s of None \<Rightarrow> False | Some ps \<Rightarrow> p \<in> set ps) then d else 0)"
    and "reported (count_time d s) p = reported s p"
  using assms add_time_fold [of _ d "timings s" p]
  by (cases "onscreen s"; simp add: count_time_def measured_def reported_def)+

text \<open>
  A tick loses no time: unless tracking is paused, the measured plus the reported time of a post
  grows by the time since the last tick when the post is on the screen of a focused page, and stays
  as it is otherwise, whether or not the tick also flushes.
\<close>

theorem tick_accounts:
  assumes "topicId s \<noteq> None" and "om_wf (timings s)" and "0 \<le> measured s p"
    and "reported s p < MAX_TRACKING_TIME" and "now - lastScrolled s \<le> PAUSE_UNLESS_SCROLLED"
    and "case onscreen s of None \<Rightarrow> True | Some ps \<Rightarrow> distinct ps"
  shows "measured (tick now v s) p + reported (tick now v s) p = measured s p + reported s p +
    (if hasFocus s \<and> (case onscreen s of None \<Rightarrow> False | Some ps \<Rightarrow> p \<in> set ps) then now - lastTick s else 0)"
proof -
  let ?s1 = "s\<lparr>lastFlush := lastFlush s + (now - lastTick s), lastTick := now\<rparr>"
  obtain tp where tp: "topicId ?s1 = Some tp" using assms(1) by auto
  define s2 where "s2 = (if \<not> inProgress ?s1 \<and> (lastFlush ?s1 > 60 * 1000 \<or> rush ?s1) then flush now v ?s1 else ?s1)"
  define s3 where "s3 = (if \<not> inProgress s2 then sendNext now s2 else s2)"
  have same: "measured ?s1 p = measured s p" "reported ?s1 p = reported s p"
    by (simp_all add: measured_def reported_def)
  have "measured s2 p + reported s2 p = measured s p + reported s p \<and> onscreen s2 = onscreen s \<and> hasFocus s2 = hasFocus s"
  proof (cases "\<not> inProgress ?s1 \<and> (lastFlush ?s1 > 60 * 1000 \<or> rush ?s1)")
    case True
    then have s2: "s2 = flush now v ?s1" by (simp add: s2_def)
    have "measured s2 p = 0 \<and> reported s2 p = reported s p + measured s p"
      using flush_counts [OF tp, of now v p] assms(2-4) same by (auto simp: s2)
    moreover have "onscreen s2 = onscreen s \<and> hasFocus s2 = hasFocus s"
      using flush_part [OF tp, of now v] by (simp add: s2 times_part_def)
    ultimately show ?thesis by simp
  next
    case False
    then have "s2 = ?s1" unfolding s2_def by (rule if_not_P)
    then show ?thesis using same by simp
  qed
  moreover have "times_part s3 = times_part s2" by (simp add: s3_def)
  ultimately have s3: "measured s3 p + reported s3 p = measured s p + reported s p"
      "onscreen s3 = onscreen s" "hasFocus s3 = hasFocus s"
    by (simp_all add: times_part_def measured_def reported_def)
  have "tick now v s = count_time (now - lastTick s) s3"
    using assms(5) by (simp add: tick_def Let_def s2_def s3_def)
  then show ?thesis using measured_count_time [of s3 "now - lastTick s" p] assms(6) s3 by simp
qed

theorem tick_accounts_witness: "measured (tick 200 None demo_screen) 4 + reported (tick 200 None demo_screen) 4 = 200"
proof -
  have "measured demo_screen 4 = 0" "reported demo_screen 4 = 0" "lastTick demo_screen = 0" "hasFocus demo_screen"
    "lastScrolled demo_screen = 0" "topicId demo_screen \<noteq> None" "om_wf (timings demo_screen)" "onscreen demo_screen = Some [4]"
    by (simp_all add: demo_screen_def screen_init_def measured_def reported_def)
  with tick_accounts [OF this(6,7), of 4 200 None] show ?thesis
    by (simp add: MAX_TRACKING_TIME_def PAUSE_UNLESS_SCROLLED_def)
qed

section \<open>Reading and tracking\<close>

lemma fold_max_upper: "x \<in> set xs \<or> x = m \<Longrightarrow> x \<le> fold max xs (m :: nat)"
proof (induction xs arbitrary: m x)
  case (Cons y ys)
  have "max y m \<le> fold max ys (max y m)" using Cons.IH by blast
  then show ?case using Cons by (auto intro: order.trans [of _ "max y m"])
qed simp

text \<open>
  A flush tells the topic tracking state what was read: for a tracked topic the last read post
  number afterwards is at least every post number whose time was reported, it is never lowered, and no
  other topic's state changes.
\<close>

theorem flush_tracks:
  assumes "topicId s = Some tp" and "tp \<noteq> 0" and "findState (tts s) (JNum (int tp)) = Some state"
    and "pget state ''last_read_post_number'' \<in> {JUndef, JNull} \<union> JNum ` {0..}"
    and "p \<in> set (om_keys (new_timings v s))" and "0 < p"
  shows "\<exists>state'. findState (tts (flush now v s)) (JNum (int tp)) = Some state' \<and>
    int p \<le> num_of (pget state' ''last_read_post_number'') \<and>
    num_of (pget state ''last_read_post_number'') \<le> num_of (pget state' ''last_read_post_number'') \<and>
    (\<forall>k. k \<noteq> stateKey (JNum (int tp)) \<longrightarrow> om_get (states (tts (flush now v s))) k = om_get (states (tts s)) k)"
proof -
  let ?h = "highest_new v s"
  have p: "p \<le> ?h" using assms(5) by (intro fold_max_upper) simp
  then have h: "0 < int ?h" using assms(6) by simp
  have t: "tts (flush now v s) = updateSeen (JNum (int tp)) (JNum (int ?h)) (tts s)"
    using flush_part [OF assms(1), of now v] by (simp add: times_part_def)
  have "truthy (JNum (int tp))" using assms(2) by simp
  from updateSeen_reads [OF assms(3) this h assms(4) t] show ?thesis using p by fastforce
qed

definition reading_screen :: screen where
  "reading_screen = demo_screen\<lparr>tts := start_tracking [(''t7'', [(''topic_id'', JNum 7), (''last_read_post_number'', JNull)])]\<rparr>"

theorem flush_tracks_witness:
  "\<exists>state'. findState (tts (flush 0 None reading_screen)) (JNum 7) = Some state' \<and>
    3 \<le> num_of (pget state' ''last_read_post_number'')"
proof -
  have k: "stateKey (JNum 7) = ''t7''" by (simp add: show_int_def show_nat.simps digit_def)
  have f: "findState (tts reading_screen) (JNum (int 7)) = Some [(''topic_id'', JNum 7), (''last_read_post_number'', JNull)]"
    using k by (simp add: findState_def reading_screen_def start_tracking_def del: stateKey.simps)
  have n: "3 \<in> set (om_keys (new_timings None reading_screen))"
    by (simp add: new_timings_def stuck_unread_def reading_screen_def demo_screen_def screen_init_def
        flush_step_def MAX_TRACKING_TIME_def)
  have tp: "topicId reading_screen = Some 7" by (simp add: reading_screen_def demo_screen_def)
  have lr: "pget [(''topic_id'', JNum 7), (''last_read_post_number'', JNull)] ''last_read_post_number''
      \<in> {JUndef, JNull} \<union> JNum ` {0..}" by (simp add: pget_def)
  from flush_tracks [OF tp _ f lr n, of 0] show ?thesis by auto
qed

section \<open>Failures\<close>

lemma consolidated_failed:
  "consolidated (timing_failed now status e s) =
     (if status \<in> Some ` set ALLOWED_AJAX_FAILURES \<and> ajaxFailures s < 4
      then queue_timing (tm_obj e) (next_obj s) (tm_timings e) (tm_time e) (tm_topic e) (consolidated s) else consolidated s)"
  "blockTill (timing_failed now status e s) =
     (if status \<in> Some ` set ALLOWED_AJAX_FAILURES \<and> ajaxFailures s < 4
      then Some (now + AJAX_FAILURE_DELAYS ! ajaxFailures s) else blockTill s)"
  "ajaxFailures (timing_failed now status e s) =
     ajaxFailures s + (if status \<in> Some ` set ALLOWED_AJAX_FAILURES then 1 else 0)"
  by (auto simp: timing_failed_def after_send_def Let_def nth_opt_def AJAX_FAILURE_DELAYS_def consolidateTimings_def
      split: option.split)

lemma delays_pos: "n < 4 \<Longrightarrow> 0 < AJAX_FAILURE_DELAYS ! n"
proof -
  assume "n < 4"
  then have "AJAX_FAILURE_DELAYS ! n \<in> set AJAX_FAILURE_DELAYS"
    by (intro nth_mem) (simp add: AJAX_FAILURE_DELAYS_def)
  then show ?thesis by (auto simp: AJAX_FAILURE_DELAYS_def)
qed

text \<open>
  After a failure with one of the retried statuses the timing is put back into the queue and
  nothing is sent until the delay is over, the delay growing with the failures in a row; from the fifth
  failure in a row on, and for every other failure, the timing is dropped and sending goes on at once.
\<close>

theorem failure_retries:
  assumes "0 \<le> now"
  shows "consolidated (timing_failed now status e s) =
      (if status \<in> Some ` set ALLOWED_AJAX_FAILURES \<and> ajaxFailures s < 4
       then queue_timing (tm_obj e) (next_obj s) (tm_timings e) (tm_time e) (tm_topic e) (consolidated s) else consolidated s) \<and>
    (status \<in> Some ` set ALLOWED_AJAX_FAILURES \<and> ajaxFailures s < 4 \<and> t < now + AJAX_FAILURE_DELAYS ! ajaxFailures s \<longrightarrow>
       sendNext t (timing_failed now status e s) = timing_failed now status e s) \<and>
    (\<not> (status \<in> Some ` set ALLOWED_AJAX_FAILURES \<and> ajaxFailures s < 4) \<and> blockTill s = None \<and> consolidated s \<noteq> [] \<longrightarrow>
       flight (sendNext t (timing_failed now status e s)) = remove1 e (flight s) @ [last (consolidated s)])"
proof -
  have fl: "\<not> (status \<in> Some ` set ALLOWED_AJAX_FAILURES \<and> ajaxFailures s < 4) \<Longrightarrow>
      flight (timing_failed now status e s) = remove1 e (flight s)"
    "\<not> inProgress (timing_failed now status e s)"
    by (auto simp: timing_failed_def after_send_def consolidateTimings_def Let_def nth_opt_def AJAX_FAILURE_DELAYS_def
        split: option.split)
  show ?thesis
    using delays_pos [of "ajaxFailures s"] assms
    by (cases "blockTill s") (auto simp: sendNext_def consolidated_failed fl)
qed

theorem failure_retries_witness:
  "consolidated (timing_failed 0 (Some 429) (demo_timing 7) screen_init) = [demo_timing 7] \<and>
   sendNext 4999 (timing_failed 0 (Some 429) (demo_timing 7) screen_init) =
     timing_failed 0 (Some 429) (demo_timing 7) screen_init"
  using failure_retries [of 0 "Some 429" "demo_timing 7" screen_init 4999]
  by (simp add: ALLOWED_AJAX_FAILURES_def AJAX_FAILURE_DELAYS_def screen_init_def queue_timing_def
      index_topic_def demo_timing_def)

section \<open>Neighbouring topics\<close>

lemma currentIndex_bounds: "-1 \<le> currentIndex cur model \<and> currentIndex cur model < int (length (l_topics model))"
proof -
  have "i < length (l_topics model)" if "find P [0..<length (l_topics model)] = Some i" for P i
    using find_first_index(1) [OF that] .
  then show ?thesis by (auto simp: currentIndex_def split: option.split)
qed

lemma currentIndex_append:
  assumes "currentIndex cur m \<noteq> -1" and "l_topics m' = l_topics m @ ts"
  shows "currentIndex cur m' = currentIndex cur m"
proof -
  obtain i where i: "find (\<lambda>i. pget (l_topics m ! i) ''id'' = cur) [0..<length (l_topics m)] = Some i" and t: "truthy cur"
    using assms(1) by (auto simp: currentIndex_def split: if_splits option.splits)
  note f = find_first_index [OF i]
  have "find (\<lambda>i. pget (l_topics m' ! i) ''id'' = cur) [0..<length (l_topics m')] = Some i"
    unfolding find_Some_iff using f
    by (intro exI [of _ i]) (auto simp: assms(2) nth_append)
  then show ?thesis using i t by (simp add: currentIndex_def)
qed

text \<open>
  \<open>nextTopicUrl\<close> and \<open>previousTopicUrl\<close> return when every request for more topics appends at least
  one topic or clears the list's url for more: one request is then enough. The topic found stands
  next to the current one in the list that is left, or first when the current topic is not listed.
\<close>

theorem urlAt_returns:
  assumes "\<And>m. \<exists>ts. l_topics (loadMore m) = l_topics m @ ts \<and> (ts \<noteq> [] \<or> \<not> truthy (more_topics_url (loadMore m)))"
    and "delta = 1 \<or> delta = -1" and "1 \<le> fuel"
  shows "\<exists>found model' cur'. urlAt fuel loadMore delta cur model = Some (found, model', cur') \<and>
    found = nth_opt (l_topics model') (if currentIndex cur model = -1 then 0 else currentIndex cur model + delta) \<and>
    prefix (l_topics model) (l_topics model')"
proof -
  let ?i = "\<lambda>m. if currentIndex cur m = -1 then 0 else currentIndex cur m + delta"
  obtain f where fuel: "fuel = Suc f" using assms(3) by (cases fuel) auto
  show ?thesis
  proof (cases "nth_opt (l_topics model) (?i model) = None \<and> ?i model > 0 \<and> truthy (more_topics_url model)")
    case False
    then show ?thesis
      by (subst urlAt.simps) (auto simp: Let_def split: option.split)
  next
    case True
    obtain ts where ts: "l_topics (loadMore model) = l_topics model @ ts"
        "ts \<noteq> [] \<or> \<not> truthy (more_topics_url (loadMore model))"
      using assms(1) by blast
    have c: "currentIndex cur model \<noteq> -1" using True by auto
    then have same: "currentIndex cur (loadMore model) = currentIndex cur model"
      using currentIndex_append ts(1) by blast
    have end_: "?i model = int (length (l_topics model))"
      using True assms(2) currentIndex_bounds [of cur model] c by (auto simp: nth_opt_def split: if_splits)
    have "urlAt fuel loadMore delta cur model = urlAt f loadMore delta cur (loadMore model)"
      using True by (subst urlAt.simps) (simp add: fuel Let_def)
    moreover have "nth_opt (l_topics (loadMore model)) (?i (loadMore model)) \<noteq> None \<or>
        \<not> truthy (more_topics_url (loadMore model))"
      using ts end_ by (auto simp: same nth_opt_def)
    ultimately show ?thesis
      using c ts(1) same by (subst (asm) (2) urlAt.simps) (auto simp: Let_def split: option.splits)
  qed
qed

definition more_once :: "topic_list \<Rightarrow> topic_list" where
  "more_once m = m\<lparr>l_topics := l_topics m @ [[(''id'', JNum 9)]], more_topics_url := JNull\<rparr>"

theorem urlAt_returns_witness:
  "\<exists>model' cur'. urlAt 1 more_once 1 (JNum 5) \<lparr>l_topics = [[(''id'', JNum 5)]], more_topics_url = JStr ''u''\<rparr> =
     Some (nth_opt (l_topics model') 1, model', cur')"
proof -
  let ?m = "\<lparr>l_topics = [[(''id'', JNum 5)]], more_topics_url = JStr ''u''\<rparr>"
  have c: "currentIndex (JNum 5) ?m = 0" by (simp add: currentIndex_def pget_def)
  have "\<And>m. \<exists>ts. l_topics (more_once m) = l_topics m @ ts \<and> (ts \<noteq> [] \<or> \<not> truthy (more_topics_url (more_once m)))"
    by (simp add: more_once_def)
  from urlAt_returns [OF this, of 1 1 "JNum 5" ?m] c show ?thesis by auto
qed

end
