(* ===== verification/Dag.thy ===== *)
theory Dag
  imports JsPrelude
begin

text \<open>
  The ordered registry \<open>frontend/discourse/app/lib/dag.js\<close>: values filed under keys with the keys they
  must stand before or after. \<open>rawData\<close> is the \<open>Map\<close> of the items in insertion order, \<open>graph\<close> the
  instance of the package \<open>dag-map\<close> that resolves the order.

  The package is the argument \<open>dm\<close>: the empty map, \<open>add\<close>, which changes the map and may throw an error
  with a message (when the new edges close a cycle), and \<open>each\<close>, which visits the vertices in order.
  The callbacks given to the constructor are recorded in \<open>calls\<close>. A position of \<open>None\<close> is \<open>undefined\<close>;
  \<open>makeArray\<close> turns a single key into a list of one, so \<open>before\<close> and \<open>after\<close> are lists of keys.
\<close>

section \<open>State\<close>

record pos =
  p_before :: "string list option"
  p_after :: "string list option"

record 'v item =
  i_value :: 'v
  i_before :: "string list option"
  i_after :: "string list option"

record ('v, 'g) dagmap =
  dm_empty :: 'g
  dm_add :: "string \<Rightarrow> 'v \<Rightarrow> string list option \<Rightarrow> string list option \<Rightarrow> 'g \<Rightarrow> string option \<times> 'g"
  dm_each :: "'g \<Rightarrow> (string \<times> 'v) list"

datatype 'v call =
    OnAdd string 'v pos
  | OnDelete string
  | OnReplace string 'v 'v "pos option" pos
  | OnReposition string "pos option" pos

record ('v, 'g) dag =
  rawData :: "(string, 'v item) omap"
  graph :: 'g
  defaultPosition :: pos
  throwErrorOnCycle :: bool
  calls :: "'v call list"

text \<open>An outcome: the error thrown or the value returned, with the object as it is then.\<close>

type_synonym ('a, 'v, 'g) outcome = "(string + 'a) \<times> ('v, 'g) dag"

section \<open>Operations\<close>

definition construct :: "('v, 'g) dagmap \<Rightarrow> pos option \<Rightarrow> bool option \<Rightarrow> ('v, 'g) dag" where
  "construct dm defPos throwing =
     \<lparr>rawData = [], graph = dm_empty dm,
      defaultPosition = (case defPos of None \<Rightarrow> \<lparr>p_before = None, p_after = None\<rparr> | Some p \<Rightarrow> p),
      throwErrorOnCycle = (case throwing of None \<Rightarrow> True | Some b \<Rightarrow> b), calls = []\<rparr>"

definition makeArray :: "string list option \<Rightarrow> string list" where
  "makeArray ob = (case ob of None \<Rightarrow> [] | Some ks \<Rightarrow> ks)"

definition defaultPositionForKey :: "string \<Rightarrow> ('v, 'g) dag \<Rightarrow> pos" where
  "defaultPositionForKey key d =
     (let p = defaultPosition d;
          p1 = (if key \<in> set (makeArray (p_before p)) then p\<lparr>p_before := None\<rparr> else p)
      in if key \<in> set (makeArray (p_after p1)) then p1\<lparr>p_after := None\<rparr> else p1)"

definition has :: "string \<Rightarrow> ('v, 'g) dag \<Rightarrow> bool" where
  "has key d \<longleftrightarrow> om_get (rawData d) key \<noteq> None"

text \<open>\<open>/cycle/i\<close> on the message of the error.\<close>

definition lower :: "char \<Rightarrow> char" where
  "lower c = (if c = CHR ''C'' then CHR ''c'' else if c = CHR ''Y'' then CHR ''y''
     else if c = CHR ''L'' then CHR ''l'' else if c = CHR ''E'' then CHR ''e'' else c)"

definition says_cycle :: "string \<Rightarrow> bool" where
  "says_cycle msg \<longleftrightarrow> list_ex (\<lambda>i. take 5 (drop i (map lower msg)) = ''cycle'') [0..<length msg]"

text \<open>
  Without \<open>throwErrorOnCycle\<close> an error about a cycle is answered by the default position, and any other
  error is swallowed. The result is the error that is thrown, if any, and the graph.
\<close>

definition addHandlingCycles ::
    "('v, 'g) dagmap \<Rightarrow> ('v, 'g) dag \<Rightarrow> string \<Rightarrow> 'v \<Rightarrow> string list option \<Rightarrow> string list option \<Rightarrow> 'g \<Rightarrow>
     string option \<times> 'g" where
  "addHandlingCycles dm d key v before after g =
     (let (err, g1) = dm_add dm key v before after g
      in if throwErrorOnCycle d then (err, g1)
         else case err of
           None \<Rightarrow> (None, g1)
         | Some msg \<Rightarrow>
             (if says_cycle msg
              then let p = defaultPositionForKey key d in dm_add dm key v (p_before p) (p_after p) g1
              else (None, g1)))"

definition add :: "('v, 'g) dagmap \<Rightarrow> string \<Rightarrow> 'v \<Rightarrow> pos option \<Rightarrow> ('v, 'g) dag \<Rightarrow> (bool, 'v, 'g) outcome" where
  "add dm key v position d =
     (if has key d then (Inr False, d)
      else let p = (case position of None \<Rightarrow> defaultPositionForKey key d | Some p \<Rightarrow> p);
               d1 = d\<lparr>rawData := om_set key \<lparr>i_value = v, i_before = p_before p, i_after = p_after p\<rparr> (rawData d)\<rparr>;
               (err, g) = addHandlingCycles dm d1 key v (p_before p) (p_after p) (graph d1);
               d2 = d1\<lparr>graph := g\<rparr>
           in case err of
                Some e \<Rightarrow> (Inl e, d2)
              | None \<Rightarrow> (Inr True, d2\<lparr>calls := calls d2 @ [OnAdd key v p]\<rparr>))"

text \<open>\<open>#refreshDAG\<close> builds a new graph; an error leaves the old one in place.\<close>

fun add_items :: "('v, 'g) dagmap \<Rightarrow> ('v, 'g) dag \<Rightarrow> (string \<times> 'v item) list \<Rightarrow> 'g \<Rightarrow> string + 'g" where
  "add_items dm d [] g = Inr g"
| "add_items dm d ((key, it) # rest) g =
     (case addHandlingCycles dm d key (i_value it) (i_before it) (i_after it) g of
        (Some e, g') \<Rightarrow> Inl e
      | (None, g') \<Rightarrow> add_items dm d rest g')"

definition refreshDAG :: "('v, 'g) dagmap \<Rightarrow> ('v, 'g) dag \<Rightarrow> string + ('v, 'g) dag" where
  "refreshDAG dm d =
     (case add_items dm d (rawData d) (dm_empty dm) of
        Inl e \<Rightarrow> Inl e
      | Inr g \<Rightarrow> Inr (d\<lparr>graph := g\<rparr>))"

definition delete_key :: "('v, 'g) dagmap \<Rightarrow> string \<Rightarrow> ('v, 'g) dag \<Rightarrow> (bool, 'v, 'g) outcome" where
  "delete_key dm key d =
     (let deleted = has key d;
          d1 = d\<lparr>rawData := om_delete key (rawData d)\<rparr>
      in case refreshDAG dm d1 of
           Inl e \<Rightarrow> (Inl e, d1)
         | Inr d2 \<Rightarrow> (Inr deleted, if deleted then d2\<lparr>calls := calls d2 @ [OnDelete key]\<rparr> else d2))"

definition replace_item ::
    "('v, 'g) dagmap \<Rightarrow> string \<Rightarrow> 'v \<Rightarrow> pos option \<Rightarrow> bool \<Rightarrow> ('v, 'g) dag \<Rightarrow> (bool, 'v, 'g) outcome" where
  "replace_item dm key v position repositionOnly d =
     (case om_get (rawData d) key of
        None \<Rightarrow> (Inr False, d)
      | Some old \<Rightarrow>
          (let oldPosition = \<lparr>p_before = i_before old, p_after = i_after old\<rparr>;
               it = (case position of
                  None \<Rightarrow> old\<lparr>i_value := v\<rparr>
                | Some p \<Rightarrow> old\<lparr>i_value := v, i_before := p_before p, i_after := p_after p\<rparr>);
               d1 = d\<lparr>rawData := om_set key it (rawData d)\<rparr>
           in case refreshDAG dm d1 of
                Inl e \<Rightarrow> (Inl e, d1)
              | Inr d2 \<Rightarrow> (Inr True, d2\<lparr>calls := calls d2 @
                  [if repositionOnly then OnReposition key position oldPosition
                   else OnReplace key v (i_value old) position oldPosition]\<rparr>)))"

definition replace_key :: "('v, 'g) dagmap \<Rightarrow> string \<Rightarrow> 'v \<Rightarrow> pos option \<Rightarrow> ('v, 'g) dag \<Rightarrow> (bool, 'v, 'g) outcome" where
  "replace_key dm key v position d = replace_item dm key v position False d"

definition reposition :: "('v, 'g) dagmap \<Rightarrow> string \<Rightarrow> pos option \<Rightarrow> ('v, 'g) dag \<Rightarrow> (bool, 'v, 'g) outcome" where
  "reposition dm key position d =
     (case om_get (rawData d) key of
        None \<Rightarrow> (Inr False, d)
      | Some it \<Rightarrow> (if position = None then (Inr False, d)
                    else replace_item dm key (i_value it) position True d))"

definition entries :: "('v, 'g) dag \<Rightarrow> (string \<times> 'v \<times> pos) list" where
  "entries d = map (\<lambda>(key, it). (key, i_value it, \<lparr>p_before = i_before it, p_after = i_after it\<rparr>)) (rawData d)"

definition resolve :: "('v, 'g) dagmap \<Rightarrow> ('v, 'g) dag \<Rightarrow> (string \<times> 'v \<times> pos) list" where
  "resolve dm d =
     List.map_filter (\<lambda>(key, v). case om_get (rawData d) key of
         None \<Rightarrow> None
       | Some it \<Rightarrow> Some (key, v, \<lparr>p_before = i_before it, p_after = i_after it\<rparr>)) (dm_each dm (graph d))"

fun from_entries :: "('v, 'g) dagmap \<Rightarrow> (string \<times> 'v \<times> pos option) list \<Rightarrow> ('v, 'g) dag \<Rightarrow> (unit, 'v, 'g) outcome" where
  "from_entries dm [] d = (Inr (), d)"
| "from_entries dm ((key, v, position) # rest) d =
     (case add dm key v position d of
        (Inl e, d1) \<Rightarrow> (Inl e, d1)
      | (Inr _, d1) \<Rightarrow> from_entries dm rest d1)"

section \<open>The graph is the rebuilt one\<close>

lemma addHandlingCycles_cong:
  assumes "throwErrorOnCycle d' = throwErrorOnCycle d" and "defaultPosition d' = defaultPosition d"
  shows "addHandlingCycles dm d' = addHandlingCycles dm d"
proof -
  have "defaultPositionForKey key d' = defaultPositionForKey key d" for key
    by (simp add: defaultPositionForKey_def assms(2))
  then show ?thesis by (intro ext) (simp only: addHandlingCycles_def assms(1))
qed

lemma add_items_cong:
  assumes "throwErrorOnCycle d' = throwErrorOnCycle d" and "defaultPosition d' = defaultPosition d"
  shows "add_items dm d' its g = add_items dm d its g"
  using addHandlingCycles_cong [OF assms, of dm]
  by (induction its arbitrary: g) (auto split: prod.split option.split)

lemma add_items_append: "add_items dm d (xs @ ys) g =
    (case add_items dm d xs g of Inl e \<Rightarrow> Inl e | Inr g' \<Rightarrow> add_items dm d ys g')"
  by (induction dm d xs g rule: add_items.induct) (auto split: prod.split option.split)

text \<open>The invariant of the object: the items have different keys, and the graph is built from them in order.\<close>

definition dag_ok :: "('v, 'g) dagmap \<Rightarrow> ('v, 'g) dag \<Rightarrow> bool" where
  "dag_ok dm d \<longleftrightarrow> om_wf (rawData d) \<and> add_items dm d (rawData d) (dm_empty dm) = Inr (graph d)"

text \<open>A call that does not throw.\<close>

inductive dag_step :: "('v, 'g) dagmap \<Rightarrow> ('v, 'g) dag \<Rightarrow> ('v, 'g) dag \<Rightarrow> bool" for dm where
  add: "add dm key v position d = (Inr b, d') \<Longrightarrow> dag_step dm d d'"
| delete: "delete_key dm key d = (Inr b, d') \<Longrightarrow> dag_step dm d d'"
| replace: "replace_key dm key v position d = (Inr b, d') \<Longrightarrow> dag_step dm d d'"
| reposition: "reposition dm key position d = (Inr b, d') \<Longrightarrow> dag_step dm d d'"

lemma dag_ok_refresh:
  assumes "refreshDAG dm d = Inr d'" and "om_wf (rawData d)"
  shows "dag_ok dm d' \<and> dag_ok dm (d'\<lparr>calls := cs\<rparr>)"
proof -
  obtain g where g: "add_items dm d (rawData d) (dm_empty dm) = Inr g" "d' = d\<lparr>graph := g\<rparr>"
    using assms(1) by (auto simp: refreshDAG_def split: sum.splits)
  have "add_items dm d' its h = add_items dm d its h" "add_items dm (d'\<lparr>calls := cs\<rparr>) its h = add_items dm d its h" for its h
    by (rule add_items_cong; simp add: g(2))+
  then show ?thesis using g assms(2) by (simp add: dag_ok_def)
qed

lemma dag_ok_add:
  assumes "add dm key v position d = (Inr b, d')" and "dag_ok dm d"
  shows "dag_ok dm d'"
proof (cases "has key d")
  case True
  then show ?thesis using assms by (simp add: add_def)
next
  case False
  define p where "p = (case position of None \<Rightarrow> defaultPositionForKey key d | Some p \<Rightarrow> p)"
  define it where "it = \<lparr>i_value = v, i_before = p_before p, i_after = p_after p\<rparr>"
  define d1 where "d1 = d\<lparr>rawData := om_set key it (rawData d)\<rparr>"
  have fresh: "om_get (rawData d) key = None" using False by (simp add: has_def)
  obtain err g where r: "addHandlingCycles dm d1 key v (p_before p) (p_after p) (graph d1) = (err, g)" by force
  have "add dm key v position d = (let d2 = d1\<lparr>graph := g\<rparr> in case err of Some e \<Rightarrow> (Inl e, d2)
      | None \<Rightarrow> (Inr True, d2\<lparr>calls := calls d2 @ [OnAdd key v p]\<rparr>))"
    using False r by (cases err) (simp_all add: add_def p_def it_def d1_def Let_def)
  then have g: "addHandlingCycles dm d1 key v (p_before p) (p_after p) (graph d) = (None, g)"
      "d' = d1\<lparr>graph := g, calls := calls d1 @ [OnAdd key v p]\<rparr>"
    using assms(1) r by (cases err; simp add: Let_def d1_def)+
  have eq: "add_items dm d' its h = add_items dm d its h" "addHandlingCycles dm d1 = addHandlingCycles dm d" for its h
    by (rule add_items_cong; simp add: g(2) d1_def) (rule addHandlingCycles_cong; simp add: d1_def)
  have raw: "rawData d' = rawData d @ [(key, it)]" using om_set_fresh [OF fresh] by (simp add: g(2) d1_def)
  have "add_items dm d (rawData d) (dm_empty dm) = Inr (graph d)" using assms(2) by (simp add: dag_ok_def)
  then have "add_items dm d (rawData d @ [(key, it)]) (dm_empty dm) = Inr g"
    using g(1) by (simp add: add_items_append eq(2) it_def)
  moreover have "key \<notin> set (om_keys (rawData d))" using fresh by (simp add: map_of_eq_None_iff)
  then have "om_wf (rawData d')" using assms(2) by (simp add: raw dag_ok_def)
  moreover have "graph d' = g" by (simp add: g(2))
  ultimately show ?thesis by (simp add: dag_ok_def raw eq(1))
qed

lemma dag_ok_replace:
  assumes "replace_item dm key v position r d = (Inr b, d')" and "dag_ok dm d"
  shows "dag_ok dm d'"
proof (cases "om_get (rawData d) key")
  case None
  then show ?thesis using assms by (simp add: replace_item_def)
next
  case (Some old)
  define it where "it = (case position of None \<Rightarrow> old\<lparr>i_value := v\<rparr>
      | Some p \<Rightarrow> old\<lparr>i_value := v, i_before := p_before p, i_after := p_after p\<rparr>)"
  define d1 where "d1 = d\<lparr>rawData := om_set key it (rawData d)\<rparr>"
  obtain d2 cs where d2: "refreshDAG dm d1 = Inr d2" "d' = d2\<lparr>calls := cs\<rparr>"
    using assms(1) Some by (auto simp: replace_item_def Let_def it_def d1_def split: sum.splits)
  have "om_wf (rawData d1)" using assms(2) om_wf_set by (simp add: dag_ok_def d1_def)
  from dag_ok_refresh [OF d2(1) this] show ?thesis by (simp add: d2(2))
qed

lemma dag_ok_delete:
  assumes "delete_key dm key d = (Inr b, d')" and "dag_ok dm d"
  shows "dag_ok dm d'"
proof -
  let ?d1 = "d\<lparr>rawData := om_delete key (rawData d)\<rparr>"
  obtain d2 where d2: "refreshDAG dm ?d1 = Inr d2"
      "d' = (if has key d then d2\<lparr>calls := calls d2 @ [OnDelete key]\<rparr> else d2)"
    using assms(1) by (auto simp: delete_key_def Let_def split: sum.splits)
  have "om_wf (rawData ?d1)" using assms(2) om_wf_delete by (simp add: dag_ok_def)
  from dag_ok_refresh [OF d2(1) this] show ?thesis by (simp add: d2(2))
qed

lemma dag_step_ok: "dag_step dm d d' \<Longrightarrow> dag_ok dm d \<Longrightarrow> dag_ok dm d'"
proof (induction rule: dag_step.induct)
  case (reposition key position d b d')
  then show ?case
    using dag_ok_replace by (fastforce simp: reposition_def split: option.splits if_splits)
qed (auto simp: replace_key_def intro: dag_ok_add dag_ok_delete dag_ok_replace)

lemma resolve_keys: "set (map fst (resolve dm d)) = set (om_keys (rawData d)) \<inter> set (map fst (dm_each dm (graph d)))"
proof -
  have "set (map fst (List.map_filter (\<lambda>(key, v). case om_get m key of None \<Rightarrow> None
      | Some it \<Rightarrow> Some (key, v, \<lparr>p_before = i_before it, p_after = i_after it\<rparr>)) es)) =
      set (om_keys m) \<inter> set (map fst es)" for m :: "(string, 'a item) omap" and es :: "(string \<times> 'a) list"
  proof (induction es)
    case (Cons e es)
    show ?case
    proof (cases "om_get m (fst e)")
      case None
      then have "fst e \<notin> set (om_keys m)" by (simp only: map_of_eq_None_iff list.set_map not_False_eq_True)
      then show ?thesis using None Cons by (simp add: map_filter_simps split_beta)
    next
      case (Some it)
      then have "fst e \<in> set (om_keys m)" using om_has_iff [of "fst e" m] by blast
      then show ?thesis using Some Cons by (auto simp: map_filter_simps split_beta)
    qed
  qed (simp add: map_filter_simps)
  then show ?thesis by (simp add: resolve_def)
qed

text \<open>
  After any sequence of calls none of which throws, the incrementally extended graph is the one
  that rebuilding from the items in their order of insertion gives, the keys are pairwise different,
  and \<open>resolve\<close> lists only keys of items: the vertices that \<open>dag-map\<close> makes for keys that are only
  named in positions do not appear.
\<close>

theorem dag_rebuilt:
  assumes "(dag_step dm)\<^sup>*\<^sup>* (construct dm defPos throwing) d"
  shows "refreshDAG dm d = Inr d \<and> distinct (map fst (entries d)) \<and>
    set (map fst (resolve dm d)) = set (map fst (entries d)) \<inter> set (map fst (dm_each dm (graph d)))"
proof -
  have ok: "dag_ok dm d" using assms
  proof (induction rule: rtranclp_induct)
    case base
    show ?case by (simp add: dag_ok_def construct_def)
  qed (rule dag_step_ok)
  have ks: "map fst (entries d) = om_keys (rawData d)"
    by (simp add: entries_def comp_def split_beta)
  have "set (map fst (resolve dm d)) = set (om_keys (rawData d)) \<inter> set (map fst (dm_each dm (graph d)))"
    by (rule resolve_keys)
  then show ?thesis using ok by (simp add: ks dag_ok_def refreshDAG_def)
qed

text \<open>
  \<open>add\<close> files the item before it asks the graph: when the graph throws, the item stays in the
  registry, so a second \<open>add\<close> of the key is refused, and every later call that rebuilds the graph (also
  the deletion of another key) throws again as soon as it gets to the item.
\<close>

theorem add_error_keeps:
  assumes "throwErrorOnCycle d" and "\<not> has key d"
    and "dm_add dm key v before after (graph d) = (Some msg, g)"
    and "other \<noteq> key" and "add_items dm d (om_delete other (rawData d)) (dm_empty dm) = Inr g0"
    and "dm_add dm key v before after g0 = (Some msg0, g1)"
  shows "\<exists>d'. add dm key v (Some \<lparr>p_before = before, p_after = after\<rparr>) d = (Inl msg, d') \<and> has key d' \<and>
    add dm key v2 position d' = (Inr False, d') \<and> (\<exists>d''. delete_key dm other d' = (Inl msg0, d''))"
proof -
  define d' where "d' = d\<lparr>rawData := om_set key \<lparr>i_value = v, i_before = before, i_after = after\<rparr> (rawData d), graph := g\<rparr>"
  have a: "add dm key v (Some \<lparr>p_before = before, p_after = after\<rparr>) d = (Inl msg, d')"
    using assms(1-3) by (simp add: add_def Let_def addHandlingCycles_def d'_def)
  have h: "has key d'" by (simp add: has_def d'_def)
  let ?d1 = "d'\<lparr>rawData := om_delete other (rawData d')\<rparr>"
  have fresh: "om_get (rawData d) key = None" using assms(2) by (simp add: has_def)
  have raw: "rawData ?d1 = om_delete other (rawData d) @ [(key, \<lparr>i_value = v, i_before = before, i_after = after\<rparr>)]"
    using assms(4) om_set_fresh [OF fresh] by (simp add: d'_def om_delete_def)
  have same: "add_items dm ?d1 its h = add_items dm d its h" for its h
    by (rule add_items_cong) (simp_all add: d'_def)
  have "add_items dm ?d1 (rawData ?d1) (dm_empty dm) = Inl msg0"
    unfolding raw same using assms(1,5,6) by (simp add: add_items_append addHandlingCycles_def)
  then have "refreshDAG dm ?d1 = Inl msg0" by (simp add: refreshDAG_def)
  then have "delete_key dm other d' = (Inl msg0, ?d1)" by (simp add: delete_key_def Let_def)
  then show ?thesis using a h by (auto simp: add_def)
qed

text \<open>A small graph package for the witnesses: vertices in the order of insertion, and no edge to oneself.\<close>

definition list_map :: "(nat, (string \<times> nat) list) dagmap" where
  "list_map = \<lparr>dm_empty = [],
     dm_add = (\<lambda>k v b a g. if Some [k] = b \<or> Some [k] = a then (Some ''cycle detected'', g) else (None, g @ [(k, v)])),
     dm_each = (\<lambda>g. g)\<rparr>"

theorem dag_rebuilt_witness:
  "\<exists>d. add list_map ''a'' 1 None (construct list_map None None) = (Inr True, d) \<and> refreshDAG list_map d = Inr d"
proof -
  obtain d where d: "add list_map ''a'' 1 None (construct list_map None None) = (Inr True, d)"
    by (auto simp: add_def has_def construct_def addHandlingCycles_def defaultPositionForKey_def makeArray_def
        list_map_def Let_def)
  have "(dag_step list_map)\<^sup>*\<^sup>* (construct list_map None None) d"
    using dag_step.add [OF d] by blast
  from dag_rebuilt [OF this] d show ?thesis by blast
qed

theorem add_error_keeps_witness:
  "\<exists>d' d''. add list_map ''a'' 1 (Some \<lparr>p_before = Some [''a''], p_after = None\<rparr>) (construct list_map None None) =
     (Inl ''cycle detected'', d') \<and> delete_key list_map ''b'' d' = (Inl ''cycle detected'', d'')"
proof -
  have "throwErrorOnCycle (construct list_map None None)" "\<not> has ''a'' (construct list_map None None)"
    "dm_add list_map ''a'' 1 (Some [''a'']) None (graph (construct list_map None None)) = (Some ''cycle detected'', [])"
    "''b'' \<noteq> ''a''"
    "add_items list_map (construct list_map None None) (om_delete ''b'' (rawData (construct list_map None None)))
       (dm_empty list_map) = Inr []"
    "dm_add list_map ''a'' 1 (Some [''a'']) None [] = (Some ''cycle detected'', [])"
    by (simp_all add: construct_def has_def list_map_def om_delete_def)
  from add_error_keeps [OF this] show ?thesis by blast
qed

end
