(* ===== verification/UserPresence.thy ===== *)
theory UserPresence
  imports JsPrelude
begin

text \<open>
  Whether the user is at the page: \<open>frontend/discourse/app/lib/user-presence.js\<close>. The module keeps when
  the page was hidden and when the user was last active, and tells registered callbacks when the
  answer for their thresholds changes. The clock \<open>now\<close> and \<open>document.hidden\<close> are arguments; a callback
  is its number, and \<open>told\<close> records the calls.
\<close>

definition DEFAULT_USER_UNSEEN_MS :: int where "DEFAULT_USER_UNSEEN_MS = 60000"

definition DEFAULT_BROWSER_HIDDEN_MS :: int where "DEFAULT_BROWSER_HIDDEN_MS = 0"

record watcher =
  w_userUnseenTime :: int
  w_browserHiddenTime :: int
  w_lastState :: bool
  w_callback :: nat

record presence_clock =
  callbacks :: "watcher list"
  browserHiddenAt :: "int option"
  lastUserActivity :: int
  callbackWaitingForPresence :: bool
  debouncing :: bool
  told :: "(nat \<times> bool) list"

text \<open>A hidden time of 0 is falsy and reads as a visible page.\<close>

definition hidden_since :: "presence_clock \<Rightarrow> int option" where
  "hidden_since c = (case browserHiddenAt c of None \<Rightarrow> None | Some t \<Rightarrow> if t = 0 then None else Some t)"

definition userPresent :: "int \<Rightarrow> int \<Rightarrow> int \<Rightarrow> presence_clock \<Rightarrow> bool" where
  "userPresent now browserHiddenTime userUnseenTime c =
     (if (case hidden_since c of None \<Rightarrow> False | Some t \<Rightarrow> now - t \<ge> browserHiddenTime) then False
      else if now - lastUserActivity c \<ge> userUnseenTime then False
      else True)"

definition onPresenceChange :: "int \<Rightarrow> int \<Rightarrow> int \<Rightarrow> nat \<Rightarrow> presence_clock \<Rightarrow> presence_clock result" where
  "onPresenceChange now userUnseenTime browserHiddenTime cb c =
     (if userUnseenTime < DEFAULT_USER_UNSEEN_MS then Inl (Error ''userUnseenTime must be at least 60000'')
      else if browserHiddenTime < 0 then Inl (Error ''browserHiddenTime must be non-negative'')
      else Inr (c\<lparr>callbacks := callbacks c @
        [\<lparr>w_userUnseenTime = userUnseenTime, w_browserHiddenTime = browserHiddenTime,
          w_lastState = userPresent now browserHiddenTime userUnseenTime c, w_callback = cb\<rparr>]\<rparr>))"

fun remove_watcher :: "nat \<Rightarrow> watcher list \<Rightarrow> watcher list" where
  "remove_watcher cb [] = []"
| "remove_watcher cb (w # ws) = (if w_callback w = cb then ws else w # remove_watcher cb ws)"

definition removeOnPresenceChange :: "nat \<Rightarrow> presence_clock \<Rightarrow> presence_clock" where
  "removeOnPresenceChange cb c = c\<lparr>callbacks := remove_watcher cb (callbacks c)\<rparr>"

text \<open>One turn of the loop of \<open>processChanges\<close>; what the callback throws is caught.\<close>

definition check_watcher :: "int \<Rightarrow> presence_clock \<Rightarrow> watcher \<Rightarrow> watcher \<times> (nat \<times> bool) list" where
  "check_watcher now c w =
     (let currentState = userPresent now (w_browserHiddenTime w) (w_userUnseenTime w) c
      in if w_lastState w \<noteq> currentState
         then (w\<lparr>w_lastState := currentState\<rparr>, [(w_callback w, currentState)])
         else (w, []))"

definition processChanges :: "int \<Rightarrow> bool \<Rightarrow> presence_clock \<Rightarrow> presence_clock" where
  "processChanges now browserHidden c =
     (let c1 = (if (hidden_since c \<noteq> None) \<noteq> browserHidden
                then c\<lparr>browserHiddenAt := if browserHidden then Some now else None\<rparr> else c);
          checked = map (check_watcher now c1) (callbacks c1)
      in c1\<lparr>callbacks := map fst checked, told := told c1 @ concat (map snd checked),
            callbackWaitingForPresence := list_ex (\<lambda>w. \<not> w_lastState (fst w)) checked\<rparr>)"

definition seenUser :: "int \<Rightarrow> bool \<Rightarrow> presence_clock \<Rightarrow> presence_clock" where
  "seenUser now browserHidden c =
     (if callbackWaitingForPresence c
      then processChanges now browserHidden (c\<lparr>debouncing := False, lastUserActivity := now\<rparr>)
      else if \<not> debouncing c then c\<lparr>debouncing := True\<rparr> else c)"

text \<open>The timer that \<open>seenUser\<close> sets for a second later.\<close>

definition debounce_fires :: "int \<Rightarrow> presence_clock \<Rightarrow> presence_clock" where
  "debounce_fires now c = c\<lparr>debouncing := False, lastUserActivity := now\<rparr>"

definition visibilityChanged :: "int \<Rightarrow> bool \<Rightarrow> presence_clock \<Rightarrow> presence_clock" where
  "visibilityChanged now browserHidden c =
     (if browserHidden then processChanges now browserHidden c else seenUser now browserHidden c)"

definition clearPresenceCallbacks :: "presence_clock \<Rightarrow> presence_clock" where
  "clearPresenceCallbacks c = c\<lparr>callbacks := []\<rparr>"

section \<open>Telling the callbacks\<close>

lemma check_watcher_fst: "fst (check_watcher now c w) =
    w\<lparr>w_lastState := userPresent now (w_browserHiddenTime w) (w_userUnseenTime w) c\<rparr>"
  by (simp add: check_watcher_def Let_def)

lemma check_watcher_snd: "snd (check_watcher now c w) =
    (if w_lastState w = userPresent now (w_browserHiddenTime w) (w_userUnseenTime w) c then []
     else [(w_callback w, \<not> w_lastState w)])"
  by (auto simp: check_watcher_def Let_def)

lemma userPresent_cong: "hidden_since c' = hidden_since c \<Longrightarrow> lastUserActivity c' = lastUserActivity c \<Longrightarrow>
    userPresent now h u c' = userPresent now h u c"
  by (simp add: userPresent_def)

text \<open>
  \<open>processChanges\<close> brings every callback's state up to date with \<open>userPresent\<close> for its thresholds,
  tells exactly the callbacks whose state changed, in order and once, and remembers whether a
  callback waits for the user to come back.
\<close>

theorem processChanges_tells:
  shows "let c' = processChanges now hidden c in
    list_all (\<lambda>w. w_lastState w = userPresent now (w_browserHiddenTime w) (w_userUnseenTime w) c') (callbacks c') \<and>
    map w_callback (callbacks c') = map w_callback (callbacks c) \<and>
    told c' = told c @ map (\<lambda>w. (w_callback w, \<not> w_lastState w))
      (filter (\<lambda>w. w_lastState w \<noteq> userPresent now (w_browserHiddenTime w) (w_userUnseenTime w) c') (callbacks c)) \<and>
    (callbackWaitingForPresence c' = list_ex (\<lambda>w. \<not> w_lastState w) (callbacks c'))"
proof -
  define c1 where "c1 = (if (hidden_since c \<noteq> None) \<noteq> hidden
      then c\<lparr>browserHiddenAt := if hidden then Some now else None\<rparr> else c)"
  define c' where "c' = processChanges now hidden c"
  have c': "c' = c1\<lparr>callbacks := map (\<lambda>w. fst (check_watcher now c1 w)) (callbacks c1),
      told := told c1 @ concat (map (\<lambda>w. snd (check_watcher now c1 w)) (callbacks c1)),
      callbackWaitingForPresence := list_ex (\<lambda>w. \<not> w_lastState w) (map (\<lambda>w. fst (check_watcher now c1 w)) (callbacks c1))\<rparr>"
    by (simp add: c'_def processChanges_def Let_def c1_def comp_def list_ex_iff)
  have up: "userPresent now h u c' = userPresent now h u c1" for h u
    by (rule userPresent_cong) (simp_all add: c' hidden_since_def)
  have same: "callbacks c1 = callbacks c" "told c1 = told c" by (simp_all add: c1_def)
  have "concat (map (\<lambda>w. snd (check_watcher now c1 w)) ws) = map (\<lambda>w. (w_callback w, \<not> w_lastState w))
      (filter (\<lambda>w. w_lastState w \<noteq> userPresent now (w_browserHiddenTime w) (w_userUnseenTime w) c1) ws)" for ws
    by (induction ws) (simp_all add: check_watcher_snd)
  then show ?thesis
    unfolding Let_def c'_def [symmetric] up
    by (simp add: c' same check_watcher_fst list_all_iff comp_def)
qed

end
