(* ===== verification/Presence.thy ===== *)
theory Presence
  imports UserPresence ObjectTools
begin

text \<open>
  Presence channels: \<open>frontend/discourse/app/services/presence.js\<close>. The service queues the user's enter
  and leave events and reports them to the server, asks the server for the first state of channels in
  batches, and keeps per channel a state that message bus messages update.

  A \<open>PresenceChannel\<close> handed to a consumer is a number, its fields are \<open>proxies\<close>; a
  \<open>PresenceChannelState\<close> is a position in \<open>cstates\<close>, since a state that the service has dropped can still
  be subscribed. A promise is a position in \<open>promises\<close>. An async method is split at its \<open>await\<close>: the
  request is put into \<open>flight\<close>, and the finishing operations take the server's answer. Timers are flags:
  \<open>nextUpdateTimer\<close>, \<open>debounceTimer\<close> with its delay, \<open>throttled\<close>, \<open>initialScheduled\<close>. \<open>bus\<close> lists the
  channel states subscribed to the message bus, \<open>clock\<close> is the state of \<open>UserPresence\<close>.
\<close>

definition PRESENCE_INTERVAL_S :: nat where "PRESENCE_INTERVAL_S = 30"
definition DEFAULT_PRESENCE_DEBOUNCE_MS :: nat where "DEFAULT_PRESENCE_DEBOUNCE_MS = 500"
definition PRESENCE_THROTTLE_MS :: int where "PRESENCE_THROTTLE_MS = 1000"

section \<open>State\<close>

text \<open>\<open>Follows q\<close> is a promise resolved with another promise.\<close>

datatype promise =
    Pending
  | Resolved
  | Rejected
  | Follows nat

datatype event_type = Enter | Leave

record event =
  ev_channel :: string
  ev_type :: event_type
  ev_promise :: nat

record options =
  userUnseenTime :: int
  browserHiddenTime :: int

definition DEFAULT_ACTIVE_OPTIONS :: options where
  "DEFAULT_ACTIVE_OPTIONS = \<lparr>userUnseenTime = 60000, browserHiddenTime = 10000\<rparr>"

record proxy =
  px_name :: string
  px_present :: bool
  px_options :: "options option"
  px_subscribed :: bool
  px_state :: "nat option"

text \<open>A user of a channel is its id. \<open>users\<close>, \<open>count\<close> and \<open>countOnly\<close> are \<open>None\<close> when they are null.\<close>

record cstate =
  cs_name :: string
  cs_users :: "int list option"
  cs_count :: "int option"
  cs_countOnly :: bool
  cs_lastSeenId :: int
  cs_subscribed :: bool
  cs_changes :: nat

record update =
  u_queue :: "event list"
  u_present :: "string list"
  u_leave :: "string list"

record presence =
  queuedEvents :: "event list"
  promises :: "promise list"
  presentProxies :: "(string, nat list) omap"
  subscribedProxies :: "(string, nat list) omap"
  channelStates :: "(string, nat) omap"
  cstates :: "cstate list"
  proxies :: "nat \<Rightarrow> proxy"
  previousInactive :: "string list"
  debounceMs :: nat
  updateRunning :: bool
  lastUpdate :: "int option"
  nextUpdateTimer :: bool
  debounceTimer :: "nat option"
  throttled :: bool
  flight :: "update list"
  initialDataRequests :: "(string, nat) omap"
  initialDataAjax :: "string list option"
  initialScheduled :: bool
  bus :: "nat list"
  loggedIn :: bool
  loginRequired :: bool
  clock :: presence_clock

section \<open>Promises\<close>

definition createPromiseProxy :: "presence \<Rightarrow> nat \<times> presence" where
  "createPromiseProxy s = (length (promises s), s\<lparr>promises := promises s @ [Pending]\<rparr>)"

text \<open>Settling a promise that is no longer pending has no effect.\<close>

definition settle :: "nat \<Rightarrow> promise \<Rightarrow> promise list \<Rightarrow> promise list" where
  "settle i p ps = (if i < length ps \<and> ps ! i = Pending then ps[i := p] else ps)"

section \<open>Sets of proxies\<close>

definition add_proxy :: "string \<Rightarrow> nat \<Rightarrow> (string, nat list) omap \<Rightarrow> nat \<times> (string, nat list) omap" where
  "add_proxy name p m =
     (let ps = push_new p (case om_get m name of None \<Rightarrow> [] | Some ps \<Rightarrow> ps)
      in (length ps, om_set name ps m))"

definition remove_proxy :: "string \<Rightarrow> nat \<Rightarrow> (string, nat list) omap \<Rightarrow> nat \<times> (string, nat list) omap" where
  "remove_proxy name p m =
     (case om_get m name of
        None \<Rightarrow> (0, m)
      | Some ps \<Rightarrow>
          (let qs = removeAll p ps
           in (length qs, if qs = [] then om_delete name m else om_set name qs m)))"

definition addPresent :: "nat \<Rightarrow> presence \<Rightarrow> nat \<times> presence" where
  "addPresent p s = (let (n, m) = add_proxy (px_name (proxies s p)) p (presentProxies s) in (n, s\<lparr>presentProxies := m\<rparr>))"

definition removePresent :: "nat \<Rightarrow> presence \<Rightarrow> nat \<times> presence" where
  "removePresent p s = (let (n, m) = remove_proxy (px_name (proxies s p)) p (presentProxies s) in (n, s\<lparr>presentProxies := m\<rparr>))"

definition addSubscribed :: "nat \<Rightarrow> presence \<Rightarrow> nat \<times> presence" where
  "addSubscribed p s = (let (n, m) = add_proxy (px_name (proxies s p)) p (subscribedProxies s) in (n, s\<lparr>subscribedProxies := m\<rparr>))"

definition removeSubscribed :: "nat \<Rightarrow> presence \<Rightarrow> nat \<times> presence" where
  "removeSubscribed p s = (let (n, m) = remove_proxy (px_name (proxies s p)) p (subscribedProxies s) in (n, s\<lparr>subscribedProxies := m\<rparr>))"

definition presentChannels :: "presence \<Rightarrow> string list" where
  "presentChannels s = om_keys (presentProxies s)"

section \<open>Timers\<close>

definition cancelTimer :: "presence \<Rightarrow> presence" where
  "cancelTimer s = s\<lparr>nextUpdateTimer := False\<rparr>"

definition scheduleNextUpdate :: "presence \<Rightarrow> presence" where
  "scheduleNextUpdate s =
     (if updateRunning s then s
      else if queuedEvents s \<noteq> []
      then (cancelTimer s)\<lparr>debounceTimer := Some (debounceMs s)\<rparr>
      else if \<not> nextUpdateTimer s \<and> presentChannels s \<noteq> []
      then s\<lparr>nextUpdateTimer := True\<rparr> else s)"

section \<open>Entering and leaving\<close>

definition queue_event :: "string \<Rightarrow> event_type \<Rightarrow> presence \<Rightarrow> nat \<times> presence" where
  "queue_event name ty s =
     (let (i, s1) = createPromiseProxy s
      in (i, scheduleNextUpdate (s1\<lparr>queuedEvents := queuedEvents s1 @
            [\<lparr>ev_channel = name, ev_type = ty, ev_promise = i\<rparr>]\<rparr>)))"

text \<open>The result is the promise the caller awaits, if any, or what is thrown.\<close>

definition enter_service :: "nat \<Rightarrow> presence \<Rightarrow> nat option result \<times> presence" where
  "enter_service p s =
     (if \<not> loggedIn s then (Inl (Error ''Must be logged in to enter presence channel''), s)
      else let (newCount, s1) = addPresent p s
           in if newCount > 1 then (Inr None, s1)
              else let (i, s2) = queue_event (px_name (proxies s p)) Enter s1 in (Inr (Some i), s2))"

definition leave_service :: "nat \<Rightarrow> presence \<Rightarrow> nat option result \<times> presence" where
  "leave_service p s =
     (if \<not> loggedIn s then (Inl (Error ''Must be logged in to leave presence channel''), s)
      else let (presentCount, s1) = removePresent p s
           in if presentCount > 0 then (Inr None, s1)
              else let (i, s2) = queue_event (px_name (proxies s p)) Leave s1 in (Inr (Some i), s2))"

definition set_proxy :: "nat \<Rightarrow> proxy \<Rightarrow> presence \<Rightarrow> presence" where
  "set_proxy p px s = s\<lparr>proxies := (proxies s)(p := px)\<rparr>"

definition active_options :: "bool \<Rightarrow> options option \<Rightarrow> options option result" where
  "active_options onlyWhileActive opts =
     (case opts of
        None \<Rightarrow> Inr (if onlyWhileActive then Some DEFAULT_ACTIVE_OPTIONS else None)
      | Some o' \<Rightarrow>
          (if onlyWhileActive \<and> userUnseenTime o' < userUnseenTime DEFAULT_ACTIVE_OPTIONS
           then Inl (Error (''userUnseenTime cannot be less than 60000 (given '' @ show_int (userUnseenTime o') @ '')''))
           else if onlyWhileActive \<and> browserHiddenTime o' < browserHiddenTime DEFAULT_ACTIVE_OPTIONS
           then Inl (Error (''browserHiddenTime cannot be less than 10000 (given '' @ show_int (browserHiddenTime o') @ '')''))
           else Inr (Some o')))"

definition enter :: "nat \<Rightarrow> bool \<Rightarrow> options option \<Rightarrow> presence \<Rightarrow> nat option result \<times> presence" where
  "enter p onlyWhileActive opts s =
     (case active_options onlyWhileActive opts of
        Inl e \<Rightarrow> (Inl e, s)
      | Inr ao \<Rightarrow>
          (let px = (proxies s p)\<lparr>px_options := ao\<rparr>; s1 = set_proxy p px s
           in if px_present px then (Inr None, s1)
              else enter_service p (set_proxy p (px\<lparr>px_present := True\<rparr>) s1)))"

definition leave :: "nat \<Rightarrow> presence \<Rightarrow> nat option result \<times> presence" where
  "leave p s =
     (let px = proxies s p
      in if px_present px then leave_service p (set_proxy p (px\<lparr>px_present := False\<rparr>) s) else (Inr None, s))"

section \<open>Reporting to the server\<close>

text \<open>
  \<open>_dedupQueue\<close> collects the events by channel in a plain object: a later event takes the place of an
  earlier one of its channel, whose promise then follows the later event's.
\<close>

definition dedup_step :: "event \<Rightarrow> (string, event) omap \<times> promise list \<Rightarrow> (string, event) omap \<times> promise list" where
  "dedup_step e acc =
     (let (m, ps) = acc
      in (om_set (ev_channel e) e m,
          case om_get m (ev_channel e) of
            None \<Rightarrow> ps
          | Some old \<Rightarrow> settle (ev_promise old) (Follows (ev_promise e)) ps))"

definition dedupQueue :: "presence \<Rightarrow> presence" where
  "dedupQueue s =
     (let (m, ps) = fold dedup_step (queuedEvents s) ([], promises s)
      in s\<lparr>queuedEvents := om_values m, promises := ps\<rparr>)"

definition proxy_active :: "int \<Rightarrow> presence \<Rightarrow> nat \<Rightarrow> bool" where
  "proxy_active now s p =
     (case px_options (proxies s p) of
        None \<Rightarrow> True
      | Some o' \<Rightarrow> userPresent now (browserHiddenTime o') (userUnseenTime o') (clock s))"

definition end_update :: "presence \<Rightarrow> presence" where
  "end_update s = scheduleNextUpdate (s\<lparr>updateRunning := False\<rparr>)"

definition leave_channels :: "event list \<Rightarrow> string list" where
  "leave_channels q = map ev_channel (filter (\<lambda>e. ev_type e = Leave) q)"

definition active_channels :: "int \<Rightarrow> presence \<Rightarrow> string list" where
  "active_channels now s =
     filter (\<lambda>c. case om_get (presentProxies s) c of
         None \<Rightarrow> False | Some ps \<Rightarrow> list_ex (proxy_active now s) ps) (presentChannels s)"

definition newly_inactive :: "int \<Rightarrow> presence \<Rightarrow> string list" where
  "newly_inactive now s =
     filter (\<lambda>c. c \<notin> set (active_channels now s) \<and> c \<notin> set (previousInactive s)) (presentChannels s)"

definition updateServer :: "int \<Rightarrow> presence \<Rightarrow> presence" where
  "updateServer now s =
     (let s1 = dedupQueue (cancelTimer (s\<lparr>lastUpdate := Some now, updateRunning := True\<rparr>));
          q = queuedEvents s1;
          s2 = s1\<lparr>queuedEvents := []\<rparr>;
          present = active_channels now s2;
          leave = leave_channels q @ newly_inactive now s2;
          s3 = s2\<lparr>previousInactive := filter (\<lambda>c. c \<notin> set present) (presentChannels s2)\<rparr>
      in if q = [] \<and> present = [] \<and> leave = [] then end_update s3
         else s3\<lparr>flight := flight s3 @ [\<lparr>u_queue = q, u_present = present, u_leave = leave\<rparr>]\<rparr>)"

text \<open>\<open>refused c\<close> says that the response has \<open>false\<close> for the channel.\<close>

definition answer_event :: "(string \<Rightarrow> bool) \<Rightarrow> event \<Rightarrow> promise list \<Rightarrow> promise list" where
  "answer_event refused e ps = settle (ev_promise e) (if refused (ev_channel e) then Rejected else Resolved) ps"

definition update_done :: "(string \<Rightarrow> bool) \<Rightarrow> update \<Rightarrow> presence \<Rightarrow> presence" where
  "update_done refused u s =
     end_update (s\<lparr>flight := remove1 u (flight s), promises := fold (answer_event refused) (u_queue u) (promises s),
       debounceMs := DEFAULT_PRESENCE_DEBOUNCE_MS\<rparr>)"

text \<open>A failure with status 429 tells how many seconds to wait; any other one doubles the delay.\<close>

definition update_failed :: "nat option \<Rightarrow> update \<Rightarrow> presence \<Rightarrow> presence" where
  "update_failed wait u s =
     (let s1 = s\<lparr>flight := remove1 u (flight s), queuedEvents := u_queue u @ queuedEvents s\<rparr>
      in end_update (s1\<lparr>debounceMs :=
           (case wait of
              Some secs \<Rightarrow> (if secs = 0 then 10 else secs) * 1000
            | None \<Rightarrow> min (debounceMs s1 * 2) (PRESENCE_INTERVAL_S * 1000))\<rparr>))"

definition throttledUpdateServer :: "int \<Rightarrow> presence \<Rightarrow> presence" where
  "throttledUpdateServer now s =
     (case lastUpdate s of
        None \<Rightarrow> updateServer now s
      | Some t \<Rightarrow> if now - t > PRESENCE_THROTTLE_MS then updateServer now s else s\<lparr>throttled := True\<rparr>)"

text \<open>\<open>_beaconLeaveAll\<close> returns the channels it tells the server to leave.\<close>

definition beaconLeaveAll :: "presence \<Rightarrow> string list \<times> presence" where
  "beaconLeaveAll s = (let s1 = dedupQueue s in (leave_channels (queuedEvents s1) @ presentChannels s1, s1))"

section \<open>The first state of a channel\<close>

definition getInitialData :: "string \<Rightarrow> presence \<Rightarrow> nat \<times> presence" where
  "getInitialData name s =
     (let (i, s1) = (case om_get (initialDataRequests s) name of
            Some i \<Rightarrow> (i, s)
          | None \<Rightarrow> (let (i, s1) = createPromiseProxy s
                     in (i, s1\<lparr>initialDataRequests := om_set name i (initialDataRequests s1)\<rparr>)))
      in (i, s1\<lparr>initialScheduled := True\<rparr>))"

definition makeInitialDataRequest :: "presence \<Rightarrow> presence" where
  "makeInitialDataRequest s =
     (let s1 = s\<lparr>initialScheduled := False\<rparr>
      in if initialDataAjax s1 \<noteq> None then s1\<lparr>initialScheduled := True\<rparr>
         else if initialDataRequests s1 = [] then s1
         else s1\<lparr>initialDataAjax := Some (take 50 (om_keys (initialDataRequests s1)))\<rparr>)"

text \<open>The answer: for each channel, whether the server knows it.\<close>

definition answer_initial :: "string \<times> bool \<Rightarrow> presence \<Rightarrow> presence" where
  "answer_initial a s =
     (case om_get (initialDataRequests s) (fst a) of
        None \<Rightarrow> s
      | Some i \<Rightarrow> s\<lparr>promises := settle i (if snd a then Resolved else Rejected) (promises s),
                    initialDataRequests := om_delete (fst a) (initialDataRequests s)\<rparr>)"

definition initial_done :: "(string \<times> bool) list \<Rightarrow> presence \<Rightarrow> presence" where
  "initial_done result s = fold answer_initial result (s\<lparr>initialDataAjax := None\<rparr>)"

definition initial_failed :: "presence \<Rightarrow> presence" where
  "initial_failed s = s\<lparr>initialDataAjax := None, initialScheduled := True\<rparr>"

section \<open>Channel states\<close>

record initial_data =
  d_count :: int
  d_users :: "int list option"
  d_last_message_id :: int

definition change_state :: "nat \<Rightarrow> (cstate \<Rightarrow> cstate) \<Rightarrow> presence \<Rightarrow> presence" where
  "change_state r f s = s\<lparr>cstates := (cstates s)[r := f (cstates s ! r)]\<rparr>"

text \<open>The part of \<open>subscribe\<close> after the initial data is there.\<close>

definition subscribe_with :: "initial_data \<Rightarrow> cstate \<Rightarrow> cstate" where
  "subscribe_with d c =
     c\<lparr>cs_count := Some (d_count d), cs_users := d_users d, cs_countOnly := (d_users d = None),
       cs_lastSeenId := d_last_message_id d, cs_subscribed := True, cs_changes := cs_changes c + 1\<rparr>"

definition state_subscribed :: "nat \<Rightarrow> initial_data \<Rightarrow> presence \<Rightarrow> presence" where
  "state_subscribed r d s = (change_state r (subscribe_with d) s)\<lparr>bus := bus s @ [r]\<rparr>"

definition state_unsubscribe :: "nat \<Rightarrow> presence \<Rightarrow> presence" where
  "state_unsubscribe r s =
     (if cs_subscribed (cstates s ! r)
      then (change_state r (\<lambda>c. c\<lparr>cs_subscribed := False, cs_users := None, cs_count := None,
              cs_changes := cs_changes c + 1\<rparr>) s)\<lparr>bus := removeAll r (bus s)\<rparr>
      else s)"

text \<open>\<open>subscribe\<close> and \<open>_resubscribe\<close> up to the request; the promise is the one they await.\<close>

definition state_subscribe :: "nat \<Rightarrow> initial_data option \<Rightarrow> presence \<Rightarrow> nat option \<times> presence" where
  "state_subscribe r d s =
     (if cs_subscribed (cstates s ! r) then (None, s)
      else case d of
        Some d' \<Rightarrow> (None, state_subscribed r d' s)
      | None \<Rightarrow> (let (i, s1) = getInitialData (cs_name (cstates s ! r)) s in (Some i, s1)))"

definition resubscribe :: "nat \<Rightarrow> presence \<Rightarrow> nat option \<times> presence" where
  "resubscribe r s = state_subscribe r None (state_unsubscribe r s)"

text \<open>Messages. \<open>m_delta\<close>, \<open>m_entering\<close> and \<open>m_leaving\<close> are absent properties when \<open>None\<close>.\<close>

record message =
  m_delta :: "int option"
  m_entering :: "int list option"
  m_leaving :: "int list option"

definition apply_users :: "int list option \<Rightarrow> int list option \<Rightarrow> int list \<Rightarrow> int list" where
  "apply_users entering leaving us =
     (let us1 = us @ (case entering of None \<Rightarrow> [] | Some es \<Rightarrow> filter (\<lambda>i. i \<notin> set us) es)
      in case leaving of None \<Rightarrow> us1 | Some ls \<Rightarrow> filter (\<lambda>i. i \<notin> set ls) us1)"

definition processMessage :: "nat \<Rightarrow> message \<Rightarrow> int \<Rightarrow> presence \<Rightarrow> nat option \<times> presence" where
  "processMessage r msg message_id s =
     (let c = cstates s ! r
      in if message_id \<noteq> cs_lastSeenId c + 1 then resubscribe r s
         else let s1 = change_state r (\<lambda>c. c\<lparr>cs_lastSeenId := message_id\<rparr>) s
         in if cs_countOnly c \<and> m_delta msg \<noteq> None
            then (None, change_state r (\<lambda>c. c\<lparr>cs_count := Some ((case cs_count c of None \<Rightarrow> 0 | Some n \<Rightarrow> n) +
                   (case m_delta msg of None \<Rightarrow> 0 | Some n \<Rightarrow> n)), cs_changes := cs_changes c + 1\<rparr>) s1)
            else if \<not> cs_countOnly c \<and> (m_entering msg \<noteq> None \<or> m_leaving msg \<noteq> None)
            then (None, change_state r (\<lambda>c.
                   let us = apply_users (m_entering msg) (m_leaving msg) (case cs_users c of None \<Rightarrow> [] | Some us \<Rightarrow> us)
                   in c\<lparr>cs_users := Some us, cs_count := Some (int (length us)), cs_changes := cs_changes c + 1\<rparr>) s1)
            else resubscribe r s1)"

section \<open>Subscribing\<close>

definition new_cstate :: "string \<Rightarrow> cstate" where
  "new_cstate name = \<lparr>cs_name = name, cs_users = None, cs_count = None, cs_countOnly = False,
     cs_lastSeenId = 0, cs_subscribed = False, cs_changes = 0\<rparr>"

text \<open>
  \<open>_subscribe\<close> up to its \<open>await\<close>: the state it is about to return and the promise it awaits.
\<close>

definition subscribe_service :: "nat \<Rightarrow> initial_data option \<Rightarrow> presence \<Rightarrow> (nat \<times> nat option) result \<times> presence" where
  "subscribe_service p d s =
     (if loginRequired s \<and> \<not> loggedIn s
      then (Inl (Error ''Presence is only available to authenticated users on login-required sites''), s)
      else let s1 = snd (addSubscribed p s);
               name = px_name (proxies s p)
           in case om_get (channelStates s1) name of
                Some r \<Rightarrow> (Inr (r, None), s1)
              | None \<Rightarrow>
                  (let r = length (cstates s1);
                       s2 = s1\<lparr>cstates := cstates s1 @ [new_cstate name], channelStates := om_set name r (channelStates s1)\<rparr>;
                       (i, s3) = state_subscribe r d s2
                   in (Inr (r, i), s3)))"

definition unsubscribe_service :: "nat \<Rightarrow> presence \<Rightarrow> presence" where
  "unsubscribe_service p s =
     (let (n, s1) = removeSubscribed p s; name = px_name (proxies s p)
      in if n = 0
         then (case om_get (channelStates s1) name of
                 None \<Rightarrow> s1
               | Some r \<Rightarrow> (state_unsubscribe r s1)\<lparr>channelStates := om_delete name (channelStates s1)\<rparr>)
         else s1)"

text \<open>The end of the consumer's \<open>subscribe\<close> and the whole of its \<open>unsubscribe\<close>.\<close>

definition subscribe_finish :: "nat \<Rightarrow> nat \<Rightarrow> presence \<Rightarrow> presence" where
  "subscribe_finish p r s = set_proxy p ((proxies s p)\<lparr>px_subscribed := True, px_state := Some r\<rparr>) s"

definition unsubscribe :: "nat \<Rightarrow> presence \<Rightarrow> presence" where
  "unsubscribe p s =
     (if px_subscribed (proxies s p)
      then let s1 = unsubscribe_service p s
           in set_proxy p ((proxies s1 p)\<lparr>px_subscribed := False, px_state := None\<rparr>) s1
      else s)"

definition proxy_users :: "nat \<Rightarrow> presence \<Rightarrow> int list option" where
  "proxy_users p s =
     (case (px_subscribed (proxies s p), px_state (proxies s p)) of
        (True, Some r) \<Rightarrow> cs_users (cstates s ! r)
      | _ \<Rightarrow> None)"

definition proxy_count :: "nat \<Rightarrow> presence \<Rightarrow> int option" where
  "proxy_count p s =
     (case (px_subscribed (proxies s p), px_state (proxies s p)) of
        (True, Some r) \<Rightarrow> cs_count (cstates s ! r)
      | _ \<Rightarrow> None)"

end
