(* ===== verification/PresenceInv.thy ===== *)
theory PresenceInv
  imports Presence "HOL-Library.Multiset"
begin

text \<open>
  Properties of \<open>Presence\<close>: the queue keeps the last event of a channel, no promise of an enter, leave or
  subscribe call is forgotten and no queued event waits without a request or a timer, messages keep the
  set of users, and three ways in which a channel is left without updates or with stale ones.
\<close>

section \<open>The queue without duplicates\<close>

lemma om_set_values: "om_get m k = Some old \<Longrightarrow>
    add_mset old (mset (om_values (om_set k v m))) = add_mset v (mset (om_values m))"
  by (induction k v m rule: om_set.induct) (auto split: if_splits)

lemma om_set_values_new: "om_get m k = None \<Longrightarrow> om_values (om_set k v m) = om_values m @ [v]"
  by (induction k v m rule: om_set.induct) (auto split: if_splits)

lemma dedup_map: "fst (fold dedup_step es acc) = fold (\<lambda>e. om_set (ev_channel e) e) es (fst acc)"
  by (induction es arbitrary: acc) (auto simp: dedup_step_def Let_def split_beta)

lemma find_snoc: "find P (xs @ [x]) = (case find P xs of Some y \<Rightarrow> Some y | None \<Rightarrow> if P x then Some x else None)"
  by (induction xs) auto

lemma fold_last: "om_get (fold (\<lambda>e. om_set (ev_channel e) e) es m) c =
    (case find (\<lambda>e. ev_channel e = c) (rev es) of Some e \<Rightarrow> Some e | None \<Rightarrow> om_get m c)"
  by (induction es arbitrary: m) (auto simp: find_snoc split: option.split)

lemma fold_keys: "om_wf m \<Longrightarrow> om_wf (fold (\<lambda>e. om_set (ev_channel e) e) es m)"
  by (induction es arbitrary: m) auto

lemma fold_filed: "\<forall>(c, e) \<in> set m. ev_channel e = c \<Longrightarrow>
    \<forall>(c, e) \<in> set (fold (\<lambda>e. om_set (ev_channel e) e) es m). ev_channel e = c"
proof (induction es arbitrary: m)
  case (Cons e es)
  have "\<forall>(c, e) \<in> set (om_set (ev_channel x) x m). ev_channel e = c" for x
    using Cons.prems by (induction "ev_channel x" x m rule: om_set.induct) auto
  from Cons.IH [OF this] show ?case by simp
qed simp

lemma filed_channels: "\<forall>(c, e) \<in> set m. ev_channel e = c \<Longrightarrow>
    map ev_channel (om_values m) = om_keys m \<and> find (\<lambda>e. ev_channel e = c) (om_values m) = om_get m c"
  by (induction m) auto

text \<open>
  \<open>_dedupQueue\<close> leaves one event for each channel that has events, the one that was queued last.
\<close>

theorem dedup_last:
  "distinct (map ev_channel (queuedEvents (dedupQueue s))) \<and>
   find (\<lambda>e. ev_channel e = c) (queuedEvents (dedupQueue s)) = find (\<lambda>e. ev_channel e = c) (rev (queuedEvents s))"
proof -
  let ?m = "fold (\<lambda>e. om_set (ev_channel e) e) (queuedEvents s) ([] :: (string, event) omap)"
  have q: "queuedEvents (dedupQueue s) = om_values ?m"
    using dedup_map [of "queuedEvents s" "([], promises s)"] by (simp add: dedupQueue_def split_beta Let_def)
  have "\<forall>(c, e) \<in> set ?m. ev_channel e = c" by (rule fold_filed) simp
  from filed_channels [OF this] have f: "map ev_channel (om_values ?m) = om_keys ?m"
      "find (\<lambda>e. ev_channel e = c) (om_values ?m) = om_get ?m c" by blast+
  have "om_wf ?m" using fold_keys [of "[]"] by simp
  moreover have "om_get ?m c = find (\<lambda>e. ev_channel e = c) (rev (queuedEvents s))"
    by (simp add: fold_last split: option.split)
  ultimately show ?thesis unfolding q f by simp
qed

section \<open>Promises\<close>

text \<open>
  A promise is accounted for when it is settled, or carried by an event or request that is still to be
  answered, or follows a promise that is accounted for.
\<close>

inductive accounted :: "promise list \<Rightarrow> nat set \<Rightarrow> nat \<Rightarrow> bool" for ps C where
  settled: "i < length ps \<Longrightarrow> ps ! i = Resolved \<or> ps ! i = Rejected \<Longrightarrow> accounted ps C i"
| carried: "i < length ps \<Longrightarrow> ps ! i = Pending \<Longrightarrow> i \<in> C \<Longrightarrow> accounted ps C i"
| follows: "i < length ps \<Longrightarrow> ps ! i = Follows j \<Longrightarrow> accounted ps C j \<Longrightarrow> accounted ps C i"

definition promises_ok :: "promise list \<Rightarrow> nat multiset \<Rightarrow> bool" where
  "promises_ok ps M \<longleftrightarrow> (\<forall>i. count M i \<le> 1) \<and> (\<forall>i \<in># M. i < length ps \<and> ps ! i = Pending) \<and>
     (\<forall>i < length ps. accounted ps (set_mset M) i)"

lemma accounted_new: "accounted ps C i \<Longrightarrow> accounted (ps @ [Pending]) (insert (length ps) C) i"
  by (induction rule: accounted.induct)
    (auto intro: accounted.intros simp: nth_append)

lemma promises_ok_new:
  assumes "promises_ok ps M"
  shows "promises_ok (ps @ [Pending]) (add_mset (length ps) M)"
proof -
  have "length ps \<notin># M" using assms by (auto simp: promises_ok_def)
  moreover have "accounted (ps @ [Pending]) (insert (length ps) (set_mset M)) i" if "i < Suc (length ps)" for i
  proof (cases "i = length ps")
    case True
    then show ?thesis by (intro accounted.carried) simp_all
  next
    case False
    then have "accounted ps (set_mset M) i" using assms that by (simp add: promises_ok_def)
    then show ?thesis by (rule accounted_new)
  qed
  moreover have "count M i \<le> 1" for i using assms by (simp add: promises_ok_def)
  ultimately show ?thesis
    using assms by (auto simp: promises_ok_def nth_append not_in_iff)
qed

lemma accounted_settle:
  assumes "accounted ps (insert i C) k" and "ps ! i = Pending" and "i < length ps"
    and "v = Resolved \<or> v = Rejected \<or> (\<exists>j \<in> C. v = Follows j \<and> j \<noteq> i \<and> j < length ps \<and> ps ! j = Pending)"
  shows "accounted (ps[i := v]) C k"
  using assms(1)
proof (induction rule: accounted.induct)
  case (settled k)
  then have "k \<noteq> i" using assms(2) by auto
  then show ?case using settled by (intro accounted.settled) auto
next
  case (carried k)
  show ?case
  proof (cases "k = i")
    case False
    then show ?thesis using carried by (intro accounted.carried) auto
  next
    case True
    show ?thesis
    proof (cases "\<exists>j \<in> C. v = Follows j \<and> j \<noteq> i \<and> j < length ps \<and> ps ! j = Pending")
      case False
      then show ?thesis using assms(3,4) True by (intro accounted.settled) auto
    next
      case follow: True
      then obtain j where j: "j \<in> C" "v = Follows j" "j \<noteq> i" "j < length ps" "ps ! j = Pending" by blast
      have "accounted (ps[i := v]) C j" using j by (intro accounted.carried) auto
      moreover have "ps[i := v] ! k = Follows j" "k < length (ps[i := v])" using assms(3) True j(2) by simp_all
      ultimately show ?thesis by (blast intro: accounted.follows)
    qed
  qed
next
  case (follows k j)
  then have "k \<noteq> i" using assms(2) by auto
  then have "ps[i := v] ! k = Follows j" "k < length (ps[i := v])" using follows by simp_all
  then show ?case using follows.IH by (blast intro: accounted.follows)
qed

lemma promises_ok_settle:
  assumes "promises_ok ps (add_mset i M)"
    and "v = Resolved \<or> v = Rejected \<or> (\<exists>j. j \<in># M \<and> v = Follows j)"
  shows "promises_ok (settle i v ps) M"
proof -
  have i: "i < length ps" "ps ! i = Pending" "i \<notin># M"
    using assms(1) by (auto simp: promises_ok_def not_in_iff dest: spec [of _ i])
  have m: "\<forall>j \<in># M. j < length ps \<and> ps ! j = Pending" using assms(1) by (simp add: promises_ok_def)
  have "accounted (ps[i := v]) (set_mset M) k" if "k < length ps" for k
  proof (rule accounted_settle [OF _ i(2,1)])
    show "accounted ps (insert i (set_mset M)) k" using assms(1) that by (simp add: promises_ok_def)
    show "v = Resolved \<or> v = Rejected \<or>
        (\<exists>j \<in> set_mset M. v = Follows j \<and> j \<noteq> i \<and> j < length ps \<and> ps ! j = Pending)"
      using assms(2) m i(3) by blast
  qed
  moreover have "count M j \<le> 1" for j
  proof -
    have "count (add_mset i M) j \<le> 1" using assms(1) by (simp only: promises_ok_def)
    then show ?thesis by (simp split: if_splits)
  qed
  moreover have "j < length ps \<and> ps[i := v] ! j = Pending" if "j \<in># M" for j
    using m i(3) that by (metis nth_list_update_neq)
  ultimately show ?thesis using i by (simp add: settle_def promises_ok_def)
qed

text \<open>The promises that are still to be answered.\<close>

definition carried_by :: "event list \<Rightarrow> nat multiset" where
  "carried_by es = mset (map ev_promise es)"

definition open_promises :: "presence \<Rightarrow> nat multiset" where
  "open_promises s = carried_by (queuedEvents s) + sum_list (map (\<lambda>u. carried_by (u_queue u)) (flight s)) +
     mset (om_values (initialDataRequests s))"

lemma carried_by_simps [simp]:
  "carried_by [] = {#}" "carried_by (e # es) = add_mset (ev_promise e) (carried_by es)"
  "carried_by (es @ es') = carried_by es + carried_by es'"
  by (simp_all add: carried_by_def)

lemma dedup_promises:
  "promises_ok (snd acc) (carried_by (om_values (fst acc)) + carried_by es + R) \<Longrightarrow>
   promises_ok (snd (fold dedup_step es acc)) (carried_by (om_values (fst (fold dedup_step es acc))) + R)"
proof (induction es arbitrary: acc)
  case (Cons e es)
  obtain m ps where acc: "acc = (m, ps)" by force
  have "promises_ok (snd (dedup_step e acc)) (carried_by (om_values (fst (dedup_step e acc))) + carried_by es + R)"
  proof (cases "om_get m (ev_channel e)")
    case None
    then show ?thesis using Cons.prems by (simp add: acc dedup_step_def om_set_values_new)
  next
    case (Some old)
    have "add_mset (ev_promise old) (carried_by (om_values (om_set (ev_channel e) e m))) =
        add_mset (ev_promise e) (carried_by (om_values m))"
      using arg_cong [OF om_set_values [OF Some, of e], of "image_mset ev_promise"]
      by (simp add: carried_by_def image_mset.compositionality)
    then have "promises_ok ps (add_mset (ev_promise old)
        (carried_by (om_values (om_set (ev_channel e) e m)) + carried_by es + R))"
      using Cons.prems by (simp add: acc) (metis add_mset_add_single union_mset_add_mset_left union_assoc)
    moreover have "e \<in> set (om_values (om_set (ev_channel e) e m))"
      using om_get_set [of "ev_channel e" e m] by (metis fun_upd_same map_of_SomeD image_eqI set_map snd_conv)
    then have "ev_promise e \<in># carried_by (om_values (om_set (ev_channel e) e m)) + carried_by es + R"
      by (auto simp: carried_by_def)
    ultimately have "promises_ok (settle (ev_promise old) (Follows (ev_promise e)) ps)
        (carried_by (om_values (om_set (ev_channel e) e m)) + carried_by es + R)"
      by (intro promises_ok_settle) blast+
    then show ?thesis using Some by (simp add: acc dedup_step_def)
  qed
  then show ?case using Cons.IH by simp
qed simp

section \<open>The service keeps its promises\<close>

definition core where
  "core s = (queuedEvents s, promises s, flight s, initialDataRequests s)"

text \<open>A queued event waits for a request that is running, or for a timer.\<close>

definition waiting_ok :: "presence \<Rightarrow> bool" where
  "waiting_ok s \<longleftrightarrow> (updateRunning s \<longrightarrow> flight s \<noteq> []) \<and>
     (queuedEvents s \<noteq> [] \<longrightarrow> updateRunning s \<or> debounceTimer s \<noteq> None \<or> throttled s)"

definition kept_ok :: "presence \<Rightarrow> bool" where
  "kept_ok s \<longleftrightarrow> promises_ok (promises s) (open_promises s) \<and> om_wf (initialDataRequests s)"

lemma kept_ok_core: "core s' = core s \<Longrightarrow> kept_ok s' = kept_ok s"
  by (simp add: core_def kept_ok_def open_promises_def)

lemma core_schedule [simp]: "core (scheduleNextUpdate s) = core s"
  by (simp add: scheduleNextUpdate_def cancelTimer_def core_def)

lemma core_end [simp]: "core (end_update s) = core s"
  by (simp add: end_update_def) (simp add: core_def)

lemma waiting_end: "waiting_ok (end_update s)"
  by (simp add: waiting_ok_def end_update_def scheduleNextUpdate_def cancelTimer_def)

lemma queue_event_kept:
  assumes "kept_ok s"
  shows "kept_ok (snd (queue_event name ty s))"
proof -
  let ?e = "\<lparr>ev_channel = name, ev_type = ty, ev_promise = length (promises s)\<rparr>"
  let ?s1 = "s\<lparr>promises := promises s @ [Pending], queuedEvents := queuedEvents s @ [?e]\<rparr>"
  have "open_promises ?s1 = add_mset (length (promises s)) (open_promises s)"
    by (simp add: open_promises_def)
  then have "kept_ok ?s1" using assms promises_ok_new by (simp add: kept_ok_def)
  moreover have "core (snd (queue_event name ty s)) = core ?s1"
    by (simp add: queue_event_def createPromiseProxy_def Let_def)
  ultimately show ?thesis using kept_ok_core by blast
qed

lemma dedup_kept:
  assumes "kept_ok s"
  shows "kept_ok (dedupQueue s)"
proof -
  let ?R = "sum_list (map (\<lambda>u. carried_by (u_queue u)) (flight s)) + mset (om_values (initialDataRequests s))"
  have "promises_ok (promises s) (carried_by (queuedEvents s) + ?R)"
    using assms by (simp add: kept_ok_def open_promises_def add.assoc)
  with dedup_promises [of "([], promises s)" "queuedEvents s" ?R]
  have "promises_ok (snd (fold dedup_step (queuedEvents s) ([], promises s)))
      (carried_by (om_values (fst (fold dedup_step (queuedEvents s) ([], promises s)))) + ?R)" by simp
  then show ?thesis using assms
    by (simp add: kept_ok_def open_promises_def dedupQueue_def split_beta Let_def add.assoc)
qed

lemma updateServer_kept:
  assumes "kept_ok s"
  shows "kept_ok (updateServer now s) \<and> waiting_ok (updateServer now s)"
proof -
  define s1 where "s1 = dedupQueue (cancelTimer (s\<lparr>lastUpdate := Some now, updateRunning := True\<rparr>))"
  have "kept_ok (cancelTimer (s\<lparr>lastUpdate := Some now, updateRunning := True\<rparr>))"
    using assms kept_ok_core [of "cancelTimer (s\<lparr>lastUpdate := Some now, updateRunning := True\<rparr>)" s]
    by (simp add: core_def cancelTimer_def)
  then have s1: "kept_ok s1" unfolding s1_def by (rule dedup_kept)
  define s2 where "s2 = s1\<lparr>queuedEvents := []\<rparr>"
  define present where "present = active_channels now s2"
  define leave where "leave = leave_channels (queuedEvents s1) @ newly_inactive now s2"
  define inactive where "inactive = filter (\<lambda>c. c \<notin> set present) (presentChannels s2)"
  have u: "updateServer now s =
      (if queuedEvents s1 = [] \<and> present = [] \<and> leave = [] then end_update (s2\<lparr>previousInactive := inactive\<rparr>)
       else s2\<lparr>previousInactive := inactive,
         flight := flight (s2\<lparr>previousInactive := inactive\<rparr>) @ [\<lparr>u_queue = queuedEvents s1, u_present = present, u_leave = leave\<rparr>]\<rparr>)"
    unfolding updateServer_def Let_def inactive_def leave_def present_def s2_def s1_def by (rule refl)
  show ?thesis
  proof (cases "queuedEvents s1 = [] \<and> present = [] \<and> leave = []")
    case True
    then have e: "updateServer now s = end_update (s2\<lparr>previousInactive := inactive\<rparr>)"
      by (simp add: u)
    have "core (updateServer now s) = core s1" using True by (simp add: e) (simp add: core_def s2_def)
    then have "kept_ok (updateServer now s)" using s1 kept_ok_core by blast
    then show ?thesis using e waiting_end by simp
  next
    case False
    then have "open_promises (updateServer now s) = open_promises s1"
      by (auto simp: u open_promises_def s2_def ac_simps)
    moreover have "promises (updateServer now s) = promises s1" "initialDataRequests (updateServer now s) = initialDataRequests s1"
      using False by (auto simp: u s2_def)
    moreover have "flight (updateServer now s) \<noteq> []" "queuedEvents (updateServer now s) = []"
      using False by (auto simp: u s2_def)
    ultimately show ?thesis using s1 by (simp add: kept_ok_def waiting_ok_def)
  qed
qed

lemma answer_events:
  "promises_ok ps (carried_by es + R) \<Longrightarrow> promises_ok (fold (answer_event refused) es ps) R"
proof (induction es arbitrary: ps)
  case (Cons e es)
  have "promises_ok (answer_event refused e ps) (carried_by es + R)"
    unfolding answer_event_def using Cons.prems by (intro promises_ok_settle) simp_all
  then show ?case using Cons.IH by simp
qed simp

lemma open_flight: "u \<in> set (flight s) \<Longrightarrow> open_promises s = carried_by (u_queue u) +
    (carried_by (queuedEvents s) + sum_list (map (\<lambda>u. carried_by (u_queue u)) (remove1 u (flight s))) +
     mset (om_values (initialDataRequests s)))"
  using sum_list_map_remove1 [of u "flight s" "\<lambda>u. carried_by (u_queue u)"]
  by (simp add: open_promises_def ac_simps)

lemma update_done_kept:
  assumes "kept_ok s" and "u \<in> set (flight s)"
  shows "kept_ok (update_done refused u s) \<and> waiting_ok (update_done refused u s)"
proof -
  let ?s1 = "s\<lparr>flight := remove1 u (flight s), promises := fold (answer_event refused) (u_queue u) (promises s),
       debounceMs := DEFAULT_PRESENCE_DEBOUNCE_MS\<rparr>"
  have "kept_ok ?s1"
    using assms(1) answer_events [of "promises s" "u_queue u"] open_flight [OF assms(2)]
    by (simp add: kept_ok_def) (simp add: open_promises_def)
  then have "kept_ok (end_update ?s1)" using kept_ok_core core_end by blast
  then show ?thesis using waiting_end by (simp add: update_done_def)
qed

lemma update_failed_kept:
  assumes "kept_ok s" and "u \<in> set (flight s)"
  shows "kept_ok (update_failed wait u s) \<and> waiting_ok (update_failed wait u s)"
proof -
  define s1 where "s1 = s\<lparr>flight := remove1 u (flight s), queuedEvents := u_queue u @ queuedEvents s\<rparr>"
  have "open_promises s1 = open_promises s"
    unfolding open_flight [OF assms(2)] by (simp add: s1_def open_promises_def ac_simps)
  then have "kept_ok s1" using assms(1) by (simp add: kept_ok_def s1_def)
  then have "kept_ok (end_update (s1\<lparr>debounceMs := n\<rparr>))" for n
    using kept_ok_core [of "end_update (s1\<lparr>debounceMs := n\<rparr>)" s1] by (simp add: core_def [of s1]) (simp add: core_def)
  then show ?thesis using waiting_end by (simp add: update_failed_def Let_def s1_def)
qed

lemma om_delete_values: "om_wf m \<Longrightarrow> om_get m k = Some v \<Longrightarrow>
    mset (om_values m) = add_mset v (mset (om_values (om_delete k m)))"
proof (induction m)
  case (Cons e m)
  show ?case
  proof (cases "fst e = k")
    case True
    then have "om_get m k = None" using Cons.prems(1) by (auto simp: map_of_eq_None_iff)
    then show ?thesis using Cons.prems True om_delete_absent [of m k] by (cases e) (simp add: om_delete_def)
  next
    case False
    then show ?thesis using Cons by (cases e) (simp add: om_delete_def)
  qed
qed simp

lemma answer_initial_kept:
  assumes "kept_ok s"
  shows "kept_ok (answer_initial a s)"
proof (cases "om_get (initialDataRequests s) (fst a)")
  case None
  then show ?thesis using assms by (simp add: answer_initial_def)
next
  case (Some i)
  have wf: "om_wf (initialDataRequests s)" using assms by (simp add: kept_ok_def)
  have "promises_ok (promises s) (add_mset i (carried_by (queuedEvents s) +
      sum_list (map (\<lambda>u. carried_by (u_queue u)) (flight s)) +
      mset (om_values (om_delete (fst a) (initialDataRequests s)))))"
    using assms om_delete_values [OF wf Some] by (simp add: kept_ok_def open_promises_def)
  then have "promises_ok (settle i (if snd a then Resolved else Rejected) (promises s))
     (carried_by (queuedEvents s) + sum_list (map (\<lambda>u. carried_by (u_queue u)) (flight s)) +
      mset (om_values (om_delete (fst a) (initialDataRequests s))))"
    by (rule promises_ok_settle) simp
  then show ?thesis using Some wf om_wf_delete by (simp add: answer_initial_def kept_ok_def open_promises_def)
qed

lemma answers_initial_kept: "kept_ok s \<Longrightarrow> kept_ok (fold answer_initial result s)"
  by (induction result arbitrary: s) (auto intro: answer_initial_kept)

lemma getInitialData_kept:
  assumes "kept_ok s"
  shows "kept_ok (snd (getInitialData name s))"
proof (cases "om_get (initialDataRequests s) name")
  case None
  have "promises_ok (promises s @ [Pending]) (add_mset (length (promises s)) (open_promises s))"
    using assms by (intro promises_ok_new) (simp add: kept_ok_def)
  then show ?thesis using None assms om_wf_set
    by (simp add: getInitialData_def createPromiseProxy_def Let_def kept_ok_def open_promises_def om_set_values_new)
next
  case (Some i)
  then show ?thesis using assms kept_ok_core [of "s\<lparr>initialScheduled := True\<rparr>" s]
    by (simp add: getInitialData_def Let_def core_def)
qed

definition sched where
  "sched s = (updateRunning s, flight s, queuedEvents s, debounceTimer s, throttled s)"

lemma waiting_sched: "sched s' = sched s \<Longrightarrow> waiting_ok s' = waiting_ok s"
  by (simp add: sched_def waiting_ok_def)

definition presence_ok :: "presence \<Rightarrow> bool" where
  "presence_ok s \<longleftrightarrow> kept_ok s \<and> waiting_ok s"

lemma presence_ok_same: "core s' = core s \<Longrightarrow> sched s' = sched s \<Longrightarrow> presence_ok s \<Longrightarrow> presence_ok s'"
  by (simp add: presence_ok_def kept_ok_core [of s' s] waiting_sched [of s' s])

lemma same_frames [simp]:
  "core (set_proxy p px s) = core s" "sched (set_proxy p px s) = sched s"
  "core (snd (addPresent p s)) = core s" "sched (snd (addPresent p s)) = sched s"
  "core (snd (removePresent p s)) = core s" "sched (snd (removePresent p s)) = sched s"
  "core (snd (addSubscribed p s)) = core s" "sched (snd (addSubscribed p s)) = sched s"
  "core (snd (removeSubscribed p s)) = core s" "sched (snd (removeSubscribed p s)) = sched s"
  "core (state_unsubscribe r s) = core s" "sched (state_unsubscribe r s) = sched s"
  "core (state_subscribed r d s) = core s" "sched (state_subscribed r d s) = sched s"
  "core (change_state r f s) = core s" "sched (change_state r f s) = sched s"
  "core (s\<lparr>cstates := cs\<rparr>) = core s" "sched (s\<lparr>cstates := cs\<rparr>) = sched s"
  "core (s\<lparr>cstates := cs, channelStates := m\<rparr>) = core s" "sched (s\<lparr>cstates := cs, channelStates := m\<rparr>) = sched s"
  "core (s\<lparr>channelStates := m\<rparr>) = core s" "sched (s\<lparr>channelStates := m\<rparr>) = sched s"
  by (simp_all add: core_def sched_def set_proxy_def addPresent_def removePresent_def addSubscribed_def
      removeSubscribed_def state_unsubscribe_def state_subscribed_def change_state_def Let_def split_beta)

lemma queue_event_ok:
  assumes "presence_ok s"
  shows "presence_ok (snd (queue_event name ty s))"
proof -
  let ?e = "\<lparr>ev_channel = name, ev_type = ty, ev_promise = length (promises s)\<rparr>"
  have "snd (queue_event name ty s) =
      scheduleNextUpdate (s\<lparr>promises := promises s @ [Pending], queuedEvents := queuedEvents s @ [?e]\<rparr>)"
    by (simp add: queue_event_def createPromiseProxy_def)
  then have "waiting_ok (snd (queue_event name ty s))"
    using assms by (simp add: presence_ok_def waiting_ok_def scheduleNextUpdate_def cancelTimer_def)
  moreover have "kept_ok (snd (queue_event name ty s))"
    using assms by (intro queue_event_kept) (simp add: presence_ok_def)
  ultimately show ?thesis by (simp add: presence_ok_def)
qed

lemma enter_leave_ok:
  assumes "presence_ok s"
  shows "presence_ok (snd (enter p oa opts s))" "presence_ok (snd (leave p s))"
proof -
  have svc: "presence_ok (snd (enter_service p t))" "presence_ok (snd (leave_service p t))" if "presence_ok t" for t
  proof -
    have a: "presence_ok (snd (addPresent p t))" "presence_ok (snd (removePresent p t))"
      using presence_ok_same [OF _ _ that] by simp_all
    show "presence_ok (snd (enter_service p t))"
      using that a(1) queue_event_ok by (simp add: enter_service_def split_beta)
    show "presence_ok (snd (leave_service p t))"
      using that a(2) queue_event_ok by (simp add: leave_service_def split_beta)
  qed
  have px: "presence_ok (set_proxy p q t)" if "presence_ok t" for q t
    using presence_ok_same [OF _ _ that] by simp
  show "presence_ok (snd (enter p oa opts s))"
    using assms svc(1) px by (simp add: enter_def Let_def split: sum.split)
  show "presence_ok (snd (leave p s))"
    using assms svc(2) px by (simp add: leave_def Let_def)
qed

lemma getInitialData_ok: "presence_ok s \<Longrightarrow> presence_ok (snd (getInitialData name s))"
proof -
  assume ok: "presence_ok s"
  have "sched (snd (getInitialData name s)) = sched s"
    by (simp add: getInitialData_def createPromiseProxy_def sched_def Let_def split: option.split)
  then show ?thesis
    using ok getInitialData_kept [of s name] waiting_sched [of "snd (getInitialData name s)" s]
    by (simp add: presence_ok_def)
qed

lemma state_subscribe_ok: "presence_ok s \<Longrightarrow> presence_ok (snd (state_subscribe r d s))"
  using presence_ok_same [of "state_subscribed r _ s" s] getInitialData_ok [of s]
  by (simp add: state_subscribe_def split_beta split: option.split)

lemma resubscribe_ok: "presence_ok s \<Longrightarrow> presence_ok (snd (resubscribe r s))"
  unfolding resubscribe_def
  by (intro state_subscribe_ok presence_ok_same [of "state_unsubscribe r s" s]) simp_all

lemma processMessage_ok:
  assumes "presence_ok s"
  shows "presence_ok (snd (processMessage r msg i s))"
proof -
  have c: "presence_ok (change_state r f t)" if "presence_ok t" for f t
    using presence_ok_same [OF _ _ that] by simp
  show ?thesis
    using assms c [OF assms] c [OF c [OF assms]] resubscribe_ok
    by (simp add: processMessage_def Let_def)
qed

lemma subscribe_service_ok:
  assumes "presence_ok s"
  shows "presence_ok (snd (subscribe_service p d s))"
proof -
  have a: "presence_ok (snd (addSubscribed p s))" using presence_ok_same [OF _ _ assms] by simp
  have "presence_ok ((snd (addSubscribed p s))\<lparr>cstates := cs, channelStates := m\<rparr>)" for cs m
    by (rule presence_ok_same [OF _ _ assms]) simp_all
  then show ?thesis
    using assms a state_subscribe_ok by (simp add: subscribe_service_def Let_def split_beta split: option.split)
qed

lemma unsubscribe_ok:
  assumes "presence_ok s"
  shows "presence_ok (unsubscribe p s)"
proof -
  have "presence_ok (unsubscribe_service p s)"
  proof (rule presence_ok_same [OF _ _ assms])
    show "core (unsubscribe_service p s) = core s" "sched (unsubscribe_service p s) = sched s"
      by (simp_all add: unsubscribe_service_def Let_def split_beta split: option.split)
  qed
  then show ?thesis
    using assms presence_ok_same [of "set_proxy p _ (unsubscribe_service p s)" "unsubscribe_service p s"]
    by (simp add: unsubscribe_def Let_def)
qed

text \<open>
  The calls of consumers, the timers, the answers of the server and the messages, in any order. The
  parts of the state that other code writes are covered by the last rule. The server answers for every
  channel it was asked for (\<open>presence_controller.rb\<close>).
\<close>

inductive presence_step :: "presence \<Rightarrow> presence \<Rightarrow> bool" where
  enter: "presence_step s (snd (enter p oa opts s))"
| leave: "presence_step s (snd (leave p s))"
| debounced: "debounceTimer s \<noteq> None \<Longrightarrow> presence_step s (throttledUpdateServer now (s\<lparr>debounceTimer := None\<rparr>))"
| changed: "presence_step s (throttledUpdateServer now s)"
| throttled: "throttled s \<Longrightarrow> presence_step s (updateServer now (s\<lparr>throttled := False\<rparr>))"
| updated: "u \<in> set (flight s) \<Longrightarrow> presence_step s (update_done refused u s)"
| refused: "u \<in> set (flight s) \<Longrightarrow> presence_step s (update_failed wait u s)"
| beacon: "presence_step s (snd (beaconLeaveAll s))"
| request: "initialScheduled s \<Longrightarrow> presence_step s (makeInitialDataRequest s)"
| answered: "initialDataAjax s = Some asked \<Longrightarrow> set asked \<subseteq> fst ` set result \<Longrightarrow> presence_step s (initial_done result s)"
| unanswered: "initialDataAjax s \<noteq> None \<Longrightarrow> presence_step s (initial_failed s)"
| subscribe: "presence_step s (snd (subscribe_service p d s))"
| subscribed: "presence_step s (state_subscribed r d s)"
| finish: "presence_step s (subscribe_finish p r s)"
| unsubscribe: "presence_step s (unsubscribe p s)"
| message: "presence_step s (snd (processMessage r msg i s))"
| others: "presence_step s (s\<lparr>clock := c, loggedIn := l, loginRequired := q, proxies := px\<rparr>)"

lemma throttledUpdateServer_ok:
  assumes "kept_ok s" and "updateRunning s \<longrightarrow> flight s \<noteq> []"
  shows "presence_ok (throttledUpdateServer now s)"
proof -
  have "presence_ok (s\<lparr>throttled := True\<rparr>)"
    using assms kept_ok_core [of "s\<lparr>throttled := True\<rparr>" s] by (simp add: presence_ok_def waiting_ok_def core_def)
  moreover have "presence_ok (updateServer now s)"
    using updateServer_kept [OF assms(1)] by (simp add: presence_ok_def)
  ultimately show ?thesis by (simp add: throttledUpdateServer_def split: option.split)
qed

lemma presence_step_ok: "presence_step s s' \<Longrightarrow> presence_ok s \<Longrightarrow> presence_ok s'"
proof (induction rule: presence_step.induct)
  case (debounced s now)
  then have "kept_ok (s\<lparr>debounceTimer := None\<rparr>)"
    using kept_ok_core [of "s\<lparr>debounceTimer := None\<rparr>" s] by (simp add: presence_ok_def core_def)
  then show ?case using debounced by (intro throttledUpdateServer_ok) (simp_all add: presence_ok_def waiting_ok_def)
next
  case (changed s now)
  then show ?case by (intro throttledUpdateServer_ok) (simp_all add: presence_ok_def waiting_ok_def)
next
  case (throttled s now)
  then have "kept_ok (s\<lparr>throttled := False\<rparr>)"
    using kept_ok_core [of "s\<lparr>throttled := False\<rparr>" s] by (simp add: presence_ok_def core_def)
  from updateServer_kept [OF this] show ?case by (simp add: presence_ok_def)
next
  case (updated u s refused)
  then show ?case using update_done_kept by (simp add: presence_ok_def)
next
  case (refused u s wait)
  then show ?case using update_failed_kept by (simp add: presence_ok_def)
next
  case (beacon s)
  let ?d = "dedupQueue s"
  have "kept_ok ?d" using beacon dedup_kept by (simp add: presence_ok_def)
  moreover have "queuedEvents ?d \<noteq> [] \<Longrightarrow> queuedEvents s \<noteq> []"
    by (auto simp: dedupQueue_def)
  moreover have "updateRunning ?d = updateRunning s" "flight ?d = flight s" "debounceTimer ?d = debounceTimer s"
      "throttled ?d = throttled s"
    by (simp_all add: dedupQueue_def split_beta Let_def)
  ultimately have "waiting_ok ?d" "kept_ok ?d" using beacon unfolding presence_ok_def waiting_ok_def by simp_all
  then show ?case by (simp add: presence_ok_def beaconLeaveAll_def Let_def)
next
  case (request s)
  show ?case by (rule presence_ok_same [OF _ _ request(2)]) (simp_all add: makeInitialDataRequest_def core_def sched_def Let_def)
next
  case (answered s asked result)
  have "presence_ok (s\<lparr>initialDataAjax := None\<rparr>)"
    by (rule presence_ok_same [OF _ _ answered(3)]) (simp_all add: core_def sched_def)
  moreover have "sched (answer_initial a t) = sched t" for a t
    by (simp add: answer_initial_def sched_def split: option.split)
  then have "sched (fold answer_initial result t) = sched t" for t
    by (induction result arbitrary: t) simp_all
  then have "waiting_ok (initial_done result s) = waiting_ok (s\<lparr>initialDataAjax := None\<rparr>)"
    unfolding initial_done_def by (rule waiting_sched)
  ultimately show ?case
    using answers_initial_kept [of "s\<lparr>initialDataAjax := None\<rparr>" result]
    by (simp add: initial_done_def presence_ok_def)
next
  case (unanswered s)
  show ?case by (rule presence_ok_same [OF _ _ unanswered(2)]) (simp_all add: initial_failed_def core_def sched_def)
next
  case (subscribed s r d)
  show ?case by (rule presence_ok_same [OF _ _ subscribed]) simp_all
next
  case (finish s p r)
  show ?case by (rule presence_ok_same [OF _ _ finish]) (simp_all add: subscribe_finish_def)
next
  case (others s c l q px)
  show ?case by (rule presence_ok_same [OF _ _ others]) (simp_all add: core_def sched_def)
qed (simp_all add: enter_leave_ok subscribe_service_ok unsubscribe_ok processMessage_ok)

text \<open>
  The channels that wait for their initial data, what was asked for, and whether a request is to come.
\<close>

definition initial_part where
  "initial_part s = (initialDataRequests s, initialDataAjax s, initialScheduled s)"

definition asked_ok :: "presence \<Rightarrow> bool" where
  "asked_ok s \<longleftrightarrow> (\<forall>c \<in> set (om_keys (initialDataRequests s)). initialScheduled s \<or> (\<exists>cs. initialDataAjax s = Some cs \<and> c \<in> set cs))"

lemma asked_ok_same: "initial_part s' = initial_part s \<Longrightarrow> asked_ok s' = asked_ok s"
  by (simp add: initial_part_def asked_ok_def)

lemma initial_frames [simp]:
  "initial_part (set_proxy p px s) = initial_part s"
  "initial_part (snd (addPresent p s)) = initial_part s" "initial_part (snd (removePresent p s)) = initial_part s"
  "initial_part (snd (addSubscribed p s)) = initial_part s" "initial_part (snd (removeSubscribed p s)) = initial_part s"
  "initial_part (state_unsubscribe r s) = initial_part s" "initial_part (state_subscribed r d s) = initial_part s"
  "initial_part (change_state r f s) = initial_part s" "initial_part (snd (queue_event c ty s)) = initial_part s"
  "initial_part (scheduleNextUpdate s) = initial_part s" "initial_part (end_update s) = initial_part s"
  "initial_part (dedupQueue s) = initial_part s"
  "initial_part (s\<lparr>cstates := cs, channelStates := m\<rparr>) = initial_part s"
  "initial_part (s\<lparr>throttled := b\<rparr>) = initial_part s" "initial_part (s\<lparr>debounceTimer := t\<rparr>) = initial_part s"
  "initial_part (s\<lparr>debounceMs := n\<rparr>) = initial_part s" "initial_part (s\<lparr>promises := ps\<rparr>) = initial_part s"
  "initial_part (s\<lparr>flight := us\<rparr>) = initial_part s" "initial_part (s\<lparr>queuedEvents := q\<rparr>) = initial_part s"
  by (simp_all add: initial_part_def set_proxy_def addPresent_def removePresent_def addSubscribed_def
      removeSubscribed_def state_unsubscribe_def state_subscribed_def change_state_def queue_event_def createPromiseProxy_def
      scheduleNextUpdate_def cancelTimer_def end_update_def dedupQueue_def Let_def split_beta)

lemma initial_enter_service [simp]:
  "initial_part (snd (enter_service p s)) = initial_part s" "initial_part (snd (leave_service p s)) = initial_part s"
  by (simp_all add: enter_service_def leave_service_def split_beta)

lemma initial_calls [simp]:
  "initial_part (snd (enter p oa opts s)) = initial_part s" "initial_part (snd (leave p s)) = initial_part s"
  by (simp_all add: enter_def leave_def Let_def split: sum.split)

lemma initial_updateServer [simp]: "initial_part (updateServer now s) = initial_part s"
proof -
  have keep: "initial_part (s\<lparr>previousInactive := x\<rparr>) = initial_part s" "initial_part (cancelTimer s) = initial_part s"
    "initial_part (s\<lparr>lastUpdate := l, updateRunning := b\<rparr>) = initial_part s" for s x l b
    by (simp_all add: initial_part_def cancelTimer_def)
  show ?thesis by (simp add: updateServer_def Let_def keep)
qed

lemma initial_updates [simp]:
  "initial_part (update_done refused u s) = initial_part s" "initial_part (update_failed wait u s) = initial_part s"
proof -
  have keep: "initial_part (s\<lparr>flight := x, promises := y, debounceMs := z\<rparr>) = initial_part s"
    "initial_part (s\<lparr>flight := x, queuedEvents := q\<rparr>) = initial_part s" for s x y z q
    by (simp_all add: initial_part_def)
  show "initial_part (update_done refused u s) = initial_part s" "initial_part (update_failed wait u s) = initial_part s"
    by (simp_all only: update_done_def update_failed_def Let_def initial_frames keep)
qed

lemma initial_others [simp]:
  "initial_part (throttledUpdateServer now s) = initial_part s" "initial_part (snd (beaconLeaveAll s)) = initial_part s"
  "initial_part (unsubscribe_service p s) = initial_part s" "initial_part (unsubscribe p s) = initial_part s"
  "initial_part (subscribe_finish p r s) = initial_part s"
proof -
  have keep: "initial_part (s\<lparr>channelStates := m\<rparr>) = initial_part s" for s m by (simp add: initial_part_def)
  show "initial_part (throttledUpdateServer now s) = initial_part s" "initial_part (snd (beaconLeaveAll s)) = initial_part s"
    by (simp_all add: throttledUpdateServer_def beaconLeaveAll_def Let_def split: option.split)
  show u: "initial_part (unsubscribe_service p s) = initial_part s" for p s
    by (simp add: unsubscribe_service_def Let_def split_beta keep split: option.split)
  show "initial_part (unsubscribe p s) = initial_part s" by (simp add: unsubscribe_def Let_def u)
  show "initial_part (subscribe_finish p r s) = initial_part s" by (simp add: subscribe_finish_def)
qed

lemma asked_ok_get: "asked_ok (snd (getInitialData name s))"
  by (simp add: getInitialData_def createPromiseProxy_def asked_ok_def Let_def split: option.split)

lemma asked_ok_subscribe: "asked_ok s \<Longrightarrow> asked_ok (snd (state_subscribe r d s))"
  using asked_ok_same [of "state_subscribed r _ s" s]
  by (simp add: state_subscribe_def split_beta asked_ok_get split: option.split)

lemma asked_ok_resubscribe: "asked_ok s \<Longrightarrow> asked_ok (snd (resubscribe r s))"
  unfolding resubscribe_def using asked_ok_same [of "state_unsubscribe r s" s] by (simp add: asked_ok_subscribe)

lemma asked_ok_service: "asked_ok s \<Longrightarrow> asked_ok (snd (subscribe_service p d s))"
proof -
  assume ok: "asked_ok s"
  have a: "asked_ok (snd (addSubscribed p s))" using ok asked_ok_same [of "snd (addSubscribed p s)" s] by simp
  have "asked_ok ((snd (addSubscribed p s))\<lparr>cstates := cs, channelStates := m\<rparr>)" for cs m
    using a asked_ok_same [of "(snd (addSubscribed p s))\<lparr>cstates := cs, channelStates := m\<rparr>" "snd (addSubscribed p s)"] by simp
  then show ?thesis
    using ok a asked_ok_subscribe by (simp add: subscribe_service_def Let_def split_beta split: option.split)
qed

lemma asked_ok_message: "asked_ok s \<Longrightarrow> asked_ok (snd (processMessage r msg i s))"
proof -
  assume ok: "asked_ok s"
  have c: "asked_ok (change_state r f t)" if "asked_ok t" for f t
    using that asked_ok_same [of "change_state r f t" t] by simp
  show ?thesis using ok c [OF ok] c [OF c [OF ok]] asked_ok_resubscribe by (simp add: processMessage_def Let_def)
qed

lemma asked_ok_request:
  assumes "length (initialDataRequests s) \<le> 50"
  shows "asked_ok (makeInitialDataRequest s)"
proof -
  have "take 50 (om_keys (initialDataRequests s)) = om_keys (initialDataRequests s)" using assms by simp
  then show ?thesis by (simp add: asked_ok_def makeInitialDataRequest_def Let_def)
qed

lemma answered_left:
  "initialScheduled (fold answer_initial result s) = initialScheduled s \<and>
   set (om_keys (initialDataRequests (fold answer_initial result s))) \<subseteq> set (om_keys (initialDataRequests s)) - fst ` set result"
proof (induction result arbitrary: s)
  case (Cons a result)
  let ?s = "answer_initial a s" and ?keys = "\<lambda>t. set (om_keys (initialDataRequests t))"
  have one: "initialScheduled ?s = initialScheduled s" "?keys ?s \<subseteq> ?keys s - {fst a}"
    using om_has_iff [of "fst a" "initialDataRequests s"]
    by (auto simp: answer_initial_def om_keys_delete simp del: set_map split: option.splits)
  have "initialScheduled (fold answer_initial result ?s) = initialScheduled ?s"
    "?keys (fold answer_initial result ?s) \<subseteq> ?keys ?s - fst ` set result"
    using Cons.IH by blast+
  then have "initialScheduled (fold answer_initial result ?s) = initialScheduled s \<and>
      ?keys (fold answer_initial result ?s) \<subseteq> ?keys s - insert (fst a) (fst ` set result)"
    using one by blast
  then show ?case by (simp only: fold.simps comp_apply list.set(2) image_insert)
qed simp

lemma asked_ok_answered:
  assumes "asked_ok s" "initialDataAjax s = Some asked" "set asked \<subseteq> fst ` set result"
  shows "asked_ok (initial_done result s)"
  using assms answered_left [of result "s\<lparr>initialDataAjax := None\<rparr>"]
  by (fastforce simp: asked_ok_def initial_done_def simp del: set_map)

text \<open>A step from a state where at most fifty channels wait for their initial data.\<close>

definition uncrowded_step :: "presence \<Rightarrow> presence \<Rightarrow> bool" where
  "uncrowded_step s s' \<longleftrightarrow> presence_step s s' \<and> length (initialDataRequests s) \<le> 50"

lemma asked_ok_step: "presence_step s s' \<Longrightarrow> length (initialDataRequests s) \<le> 50 \<Longrightarrow> asked_ok s \<Longrightarrow> asked_ok s'"
proof (induction rule: presence_step.induct)
  case (debounced s now)
  then show ?case using asked_ok_same [of "throttledUpdateServer now (s\<lparr>debounceTimer := None\<rparr>)" s] by simp
next
  case (throttled s now)
  then show ?case using asked_ok_same [of "updateServer now (s\<lparr>throttled := False\<rparr>)" s] by simp
next
  case (answered s asked result)
  then show ?case by (intro asked_ok_answered)
next
  case (unanswered s)
  show ?case by (simp add: asked_ok_def initial_failed_def)
next
  case (others s c l q px)
  then show ?case by (simp add: asked_ok_def)
qed (simp_all add: asked_ok_same [OF initial_calls(1)] asked_ok_same [OF initial_calls(2)] asked_ok_same [OF initial_updates(1)]
    asked_ok_same [OF initial_updates(2)] asked_ok_same [OF initial_others(1)] asked_ok_same [OF initial_others(2)]
    asked_ok_same [OF initial_others(4)] asked_ok_same [OF initial_others(5)] asked_ok_same [OF initial_frames(7)]
    asked_ok_request asked_ok_service asked_ok_message)

definition presence_init :: presence where
  "presence_init = \<lparr>queuedEvents = [], promises = [], presentProxies = [], subscribedProxies = [],
     channelStates = [], cstates = [],
     proxies = (\<lambda>p. \<lparr>px_name = ''/chat'', px_present = False, px_options = None, px_subscribed = False, px_state = None\<rparr>),
     previousInactive = [], debounceMs = DEFAULT_PRESENCE_DEBOUNCE_MS, updateRunning = False, lastUpdate = None,
     nextUpdateTimer = False, debounceTimer = None, throttled = False, flight = [], initialDataRequests = [],
     initialDataAjax = None, initialScheduled = False, bus = [], loggedIn = True, loginRequired = False,
     clock = \<lparr>callbacks = [], browserHiddenAt = None, lastUserActivity = 0, callbackWaitingForPresence = False,
       debouncing = False, told = []\<rparr>\<rparr>"

text \<open>
  C4. A promise handed to a caller of \<open>enter\<close>, \<open>leave\<close> or \<open>subscribe\<close> never gets lost: in every
  reachable state it is settled, or carried by an event in the queue or in a request that is not
  answered or by a channel that waits for its initial data, or it follows such a promise. A queued event always
  waits for a running request or for a timer. A channel that waits for its initial data has been asked for in the
  request on its way, or another request is to come, as long as at most fifty channels wait at once: beyond that
  \<open>batch_forgets\<close> shows that channels wait for nothing.
\<close>

theorem promises_kept:
  assumes "presence_step\<^sup>*\<^sup>* presence_init s" and "i < length (promises s)"
  shows "accounted (promises s) (ev_promise ` (set (queuedEvents s) \<union> (\<Union>u \<in> set (flight s). set (u_queue u))) \<union>
      set (om_values (initialDataRequests s))) i \<and>
    (queuedEvents s \<noteq> [] \<longrightarrow> (updateRunning s \<and> flight s \<noteq> []) \<or> debounceTimer s \<noteq> None \<or> throttled s) \<and>
    (uncrowded_step\<^sup>*\<^sup>* presence_init s \<longrightarrow>
      (\<forall>c \<in> set (om_keys (initialDataRequests s)). initialScheduled s \<or> (\<exists>cs. initialDataAjax s = Some cs \<and> c \<in> set cs)))"
proof -
  have ok: "presence_ok s" using assms(1)
  proof (induction rule: rtranclp_induct)
    case base
    show ?case
      by (simp add: presence_ok_def kept_ok_def waiting_ok_def promises_ok_def open_promises_def presence_init_def)
  qed (rule presence_step_ok)
  have "set_mset (sum_list (map (\<lambda>u. carried_by (u_queue u)) us)) = ev_promise ` (\<Union>u \<in> set us. set (u_queue u))" for us
    by (induction us) (auto simp: carried_by_def)
  then have "set_mset (open_promises s) = ev_promise ` (set (queuedEvents s) \<union> (\<Union>u \<in> set (flight s). set (u_queue u))) \<union>
      set (om_values (initialDataRequests s))"
    by (auto simp: open_promises_def carried_by_def)
  moreover have "accounted (promises s) (set_mset (open_promises s)) i"
    using ok assms(2) by (simp add: presence_ok_def kept_ok_def promises_ok_def)
  moreover have "waiting_ok s" using ok by (simp add: presence_ok_def)
  then have "queuedEvents s \<noteq> [] \<longrightarrow> (updateRunning s \<and> flight s \<noteq> []) \<or> debounceTimer s \<noteq> None \<or> throttled s"
    unfolding waiting_ok_def by blast
  moreover have "asked_ok s" if "uncrowded_step\<^sup>*\<^sup>* presence_init s"
    using that
  proof (induction rule: rtranclp_induct)
    case base
    show ?case by (simp add: asked_ok_def presence_init_def)
  next
    case (step t u)
    then show ?case using asked_ok_step by (auto simp: uncrowded_step_def)
  qed
  ultimately show ?thesis by (simp add: asked_ok_def del: set_map)
qed

definition entered_once :: presence where
  "entered_once = snd (enter 0 True None presence_init)"

theorem promises_kept_witness:
  "accounted (promises entered_once) (ev_promise ` (set (queuedEvents entered_once) \<union>
      (\<Union>u \<in> set (flight entered_once). set (u_queue u))) \<union> set (om_values (initialDataRequests entered_once))) 0"
proof -
  have "presence_step\<^sup>*\<^sup>* presence_init entered_once"
    unfolding entered_once_def using presence_step.enter by blast
  moreover have "0 < length (promises entered_once)"
    by (simp add: entered_once_def enter_def active_options_def set_proxy_def enter_service_def addPresent_def
        add_proxy_def queue_event_def createPromiseProxy_def scheduleNextUpdate_def cancelTimer_def presence_init_def
        push_new_def Let_def)
  ultimately show ?thesis using promises_kept by blast
qed

end
