(* ===== verification/PresenceChannels.thy ===== *)
theory PresenceChannels
  imports PresenceInv
begin

text \<open>
  The states of presence channels: messages keep the users of a channel as a set, and three ways in
  which the service leaves a channel without data, without updates or subscribed for nobody.
\<close>

section \<open>Messages\<close>

lemma apply_users_set: "set (apply_users entering leaving us) =
    (set us \<union> (case entering of None \<Rightarrow> {} | Some es \<Rightarrow> set es)) - (case leaving of None \<Rightarrow> {} | Some ls \<Rightarrow> set ls)"
  by (auto simp: apply_users_def Let_def split: option.split)

lemma apply_users_distinct:
  "distinct us \<Longrightarrow> (case entering of None \<Rightarrow> True | Some es \<Rightarrow> distinct es) \<Longrightarrow> distinct (apply_users entering leaving us)"
  by (auto simp: apply_users_def Let_def split: option.split)

text \<open>
  A message in sequence refines the update of a set: the users of the channel become the old ones
  with the entering ones and without the leaving ones, each listed once, and the count is the size of
  that set; no other channel changes.
\<close>

theorem message_refines:
  assumes "r < length (cstates s)" and "cs_users (cstates s ! r) = Some us" and "distinct us"
    and "\<not> cs_countOnly (cstates s ! r)" and "message_id = cs_lastSeenId (cstates s ! r) + 1"
    and "m_entering msg \<noteq> None \<or> m_leaving msg \<noteq> None"
    and "case m_entering msg of None \<Rightarrow> True | Some es \<Rightarrow> distinct es"
    and s'_def: "s' = snd (processMessage r msg message_id s)"
  shows "\<exists>us'. cs_users (cstates s' ! r) = Some us' \<and> distinct us' \<and>
    set us' = (set us \<union> (case m_entering msg of None \<Rightarrow> {} | Some es \<Rightarrow> set es)) -
      (case m_leaving msg of None \<Rightarrow> {} | Some ls \<Rightarrow> set ls) \<and>
    cs_count (cstates s' ! r) = Some (int (card (set us'))) \<and>
    cs_lastSeenId (cstates s' ! r) = message_id \<and>
    (\<forall>q. q \<noteq> r \<longrightarrow> cstates s' ! q = cstates s ! q)"
proof -
  let ?us = "apply_users (m_entering msg) (m_leaving msg) us"
  have "s' = change_state r (\<lambda>c. let us = apply_users (m_entering msg) (m_leaving msg) (case cs_users c of None \<Rightarrow> [] | Some us \<Rightarrow> us)
      in c\<lparr>cs_users := Some us, cs_count := Some (int (length us)), cs_changes := cs_changes c + 1\<rparr>)
      (change_state r (\<lambda>c. c\<lparr>cs_lastSeenId := message_id\<rparr>) s)"
    using assms(4-6) unfolding s'_def processMessage_def Let_def by auto
  then have "cstates s' = (cstates s)[r := (cstates s ! r)\<lparr>cs_lastSeenId := message_id, cs_users := Some ?us,
      cs_count := Some (int (length ?us)), cs_changes := cs_changes (cstates s ! r) + 1\<rparr>]"
    using assms(1,2) by (simp add: change_state_def Let_def)
  moreover have "distinct ?us" using apply_users_distinct assms(3,7) by blast
  ultimately show ?thesis
    using assms(1) apply_users_set [of "m_entering msg" "m_leaving msg" us] distinct_card [of ?us] by simp
qed

definition one_channel :: presence where
  "one_channel = presence_init\<lparr>cstates := [(new_cstate ''/chat'')\<lparr>cs_users := Some [1, 2], cs_count := Some 2,
     cs_lastSeenId := 4, cs_subscribed := True\<rparr>]\<rparr>"

theorem message_refines_witness:
  "\<exists>us. cs_users (cstates (snd (processMessage 0 \<lparr>m_delta = None, m_entering = Some [2, 3], m_leaving = Some [1]\<rparr> 5 one_channel)) ! 0) = Some us \<and>
    set us = {2, 3}"
proof -
  let ?m = "\<lparr>m_delta = None, m_entering = Some [2, 3], m_leaving = Some [1]\<rparr>"
  have "0 < length (cstates one_channel)" "cs_users (cstates one_channel ! 0) = Some [1, 2]" "distinct [1, 2::int]"
    "\<not> cs_countOnly (cstates one_channel ! 0)" "5 = cs_lastSeenId (cstates one_channel ! 0) + 1"
    "m_entering ?m \<noteq> None \<or> m_leaving ?m \<noteq> None" "case m_entering ?m of None \<Rightarrow> True | Some es \<Rightarrow> distinct es"
    by (simp_all add: one_channel_def new_cstate_def)
  from message_refines [OF this refl] show ?thesis by auto
qed

section \<open>Initial data in batches\<close>

lemma delete_front: "om_wf ((k, v) # m) \<Longrightarrow> om_delete k ((k, v) # m) = m"
  using om_delete_absent [of m k] by (simp add: om_delete_def map_of_eq_None_iff)

lemma answer_asked: "om_wf m \<Longrightarrow> initialDataRequests s = xs @ m \<Longrightarrow> om_wf (xs @ m) \<Longrightarrow>
    initialDataRequests (fold answer_initial (map (\<lambda>k. (k, f k)) (om_keys xs)) s) = m"
proof (induction xs arbitrary: s)
  case (Cons x xs)
  obtain k i where x: "x = (k, i)" by force
  have "om_get (initialDataRequests s) k = Some i" using Cons.prems(2) by (simp add: x)
  moreover have "om_delete k (initialDataRequests s) = xs @ m"
    using delete_front [of k i "xs @ m"] Cons.prems(2,3) by (simp add: x)
  ultimately have "initialDataRequests (answer_initial (k, f k) s) = xs @ m" by (simp add: answer_initial_def)
  moreover have "om_wf (xs @ m)" using Cons.prems(3) by simp
  ultimately show ?case using Cons.IH [OF Cons.prems(1)] by (simp add: x)
qed simp

text \<open>
  When more than 50 channels ask for their initial data, the first request asks for 50 of them, and
  after the server has answered all of these the others are still waiting while nothing is scheduled
  that would ask for them.
\<close>

theorem batch_forgets:
  assumes "om_wf (initialDataRequests s)" and "50 < length (initialDataRequests s)" and "initialDataAjax s = None"
    and s1_def: "s1 = makeInitialDataRequest s"
    and s2_def: "s2 = initial_done (map (\<lambda>k. (k, known k)) (take 50 (om_keys (initialDataRequests s)))) s1"
  shows "initialDataAjax s1 = Some (take 50 (om_keys (initialDataRequests s))) \<and>
    initialDataRequests s2 = drop 50 (initialDataRequests s) \<and> initialDataRequests s2 \<noteq> [] \<and>
    initialDataAjax s2 = None \<and> \<not> initialScheduled s2"
proof -
  let ?m = "initialDataRequests s"
  have ne: "?m \<noteq> []" using assms(2) by auto
  have s1: "s1 = s\<lparr>initialScheduled := False, initialDataAjax := Some (take 50 (om_keys ?m))\<rparr>"
    using assms(3) ne by (simp add: s1_def makeInitialDataRequest_def Let_def)
  have split: "?m = take 50 ?m @ drop 50 ?m" by simp
  have wf: "om_wf (take 50 ?m @ drop 50 ?m)" using assms(1) by (simp only: append_take_drop_id)
  have "om_wf (drop 50 ?m)" using assms(1) by (simp add: drop_map [symmetric])
  then have "initialDataRequests s2 = drop 50 ?m"
    unfolding s2_def initial_done_def s1
    using answer_asked [of "drop 50 ?m" _ "take 50 ?m" known] wf by (simp add: take_map)
  moreover have "initialScheduled (fold answer_initial xs t) = initialScheduled t"
    "initialDataAjax (fold answer_initial xs t) = initialDataAjax t" for xs t
    by (induction xs arbitrary: t; simp add: answer_initial_def split: option.split)+
  ultimately show ?thesis using assms(2) by (simp add: s1 s2_def initial_done_def)
qed

definition crowded :: presence where
  "crowded = presence_init\<lparr>initialDataRequests := map (\<lambda>i. (replicate i CHR ''c'', i)) [0..<51]\<rparr>"

theorem batch_forgets_witness:
  "initialDataRequests (initial_done (map (\<lambda>k. (k, True)) (take 50 (om_keys (initialDataRequests crowded))))
     (makeInitialDataRequest crowded)) = [(replicate 50 CHR ''c'', 50)]"
proof -
  have keys: "om_keys (initialDataRequests crowded) = map (\<lambda>i. replicate i CHR ''c'') [0..<51]"
    by (simp add: crowded_def comp_def)
  have wf: "om_wf (initialDataRequests crowded)"
    unfolding keys distinct_map by (auto intro!: inj_onI simp: replicate_eq_replicate)
  have open51: "50 < length (initialDataRequests crowded)" "initialDataAjax crowded = None"
    by (simp_all add: crowded_def presence_init_def)
  have last: "drop 50 (initialDataRequests crowded) = [(replicate 50 CHR ''c'', 50)]"
  proof -
    have "drop 50 [0..<51] = [50::nat]" by (simp only: drop_upt) simp
    moreover have "initialDataRequests crowded = map (\<lambda>i. (replicate i CHR ''c'', i)) [0..<51]"
      by (simp only: crowded_def presence.select_convs presence.update_convs presence_init_def)
    ultimately show ?thesis by (simp only: drop_map list.map)
  qed
  have "initialDataRequests (initial_done (map (\<lambda>k. (k, True)) (take 50 (om_keys (initialDataRequests crowded))))
     (makeInitialDataRequest crowded)) = drop 50 (initialDataRequests crowded)"
    using batch_forgets [OF wf open51 refl refl, of "\<lambda>_. True"] by blast
  then show ?thesis by (simp only: last)
qed

section \<open>Failed and overtaken subscriptions\<close>

text \<open>
  When the first subscription to a channel asks for initial data, its state is filed before the
  answer is there. If the request is refused, the state stays: every later subscription to the channel
  gets it at once, without a request and without a subscription to the message bus.
\<close>

theorem subscribe_after_refusal:
  assumes "\<not> loginRequired s \<or> loggedIn s" and "om_get (channelStates s) (px_name (proxies s p)) = None"
    and "px_name (proxies s q) = px_name (proxies s p)"
    and s1_def: "s1 = snd (subscribe_service p None s)"
    and s2_def: "s2 = initial_done [(px_name (proxies s p), False)] s1"
  shows "\<exists>r i. fst (subscribe_service p None s) = Inr (r, Some i) \<and>
    fst (subscribe_service q d s2) = Inr (r, None) \<and>
    bus (snd (subscribe_service q d s2)) = bus s \<and>
    \<not> cs_subscribed (cstates (snd (subscribe_service q d s2)) ! r)"
proof -
  let ?name = "px_name (proxies s p)" and ?r = "length (cstates s)"
  have unc: "cstates (snd (addSubscribed p t)) = cstates t" "channelStates (snd (addSubscribed p t)) = channelStates t"
    "proxies (snd (addSubscribed p t)) = proxies t" "bus (snd (addSubscribed p t)) = bus t"
    "loginRequired (snd (addSubscribed p t)) = loginRequired t" "loggedIn (snd (addSubscribed p t)) = loggedIn t" for p t
    by (simp_all add: addSubscribed_def split_beta Let_def)
  have gid: "cstates (snd (getInitialData n t)) = cstates t" "channelStates (snd (getInitialData n t)) = channelStates t"
    "proxies (snd (getInitialData n t)) = proxies t" "bus (snd (getInitialData n t)) = bus t"
    "loginRequired (snd (getInitialData n t)) = loginRequired t" "loggedIn (snd (getInitialData n t)) = loggedIn t" for n t
    by (simp_all add: getInitialData_def createPromiseProxy_def Let_def split: option.split)
  have ans: "cstates (answer_initial a t) = cstates t" "channelStates (answer_initial a t) = channelStates t"
    "proxies (answer_initial a t) = proxies t" "bus (answer_initial a t) = bus t"
    "loginRequired (answer_initial a t) = loginRequired t" "loggedIn (answer_initial a t) = loggedIn t" for a t
    by (simp_all add: answer_initial_def split: option.split)
  let ?s0 = "(snd (addSubscribed p s))\<lparr>cstates := cstates s @ [new_cstate ?name],
      channelStates := om_set ?name ?r (channelStates s)\<rparr>"
  have sub: "subscribe_service p None s = (Inr (?r, Some (fst (getInitialData ?name ?s0))), snd (getInitialData ?name ?s0))"
    using assms(1,2) unc by (auto simp: subscribe_service_def Let_def state_subscribe_def split_beta new_cstate_def)
  have s1: "cstates s1 = cstates s @ [new_cstate ?name]" "channelStates s1 = om_set ?name ?r (channelStates s)"
    "proxies s1 = proxies s" "bus s1 = bus s" "loginRequired s1 = loginRequired s" "loggedIn s1 = loggedIn s"
    by (simp_all add: s1_def sub gid unc)
  have s2: "cstates s2 = cstates s1" "channelStates s2 = channelStates s1" "proxies s2 = proxies s1" "bus s2 = bus s1"
    "loginRequired s2 = loginRequired s1" "loggedIn s2 = loggedIn s1"
    by (simp_all add: s2_def initial_done_def ans)
  have "subscribe_service q d s2 = (Inr (?r, None), snd (addSubscribed q s2))"
    using assms(1,3) s1 s2 unc by (auto simp: subscribe_service_def Let_def)
  then show ?thesis using s1 s2 unc sub by (simp add: new_cstate_def nth_append)
qed

theorem subscribe_after_refusal_witness:
  "\<exists>r. fst (subscribe_service 1 None (initial_done [(''/chat'', False)] (snd (subscribe_service 0 None presence_init)))) =
     Inr (r, None)"
proof -
  have "\<not> loginRequired presence_init \<or> loggedIn presence_init"
    "om_get (channelStates presence_init) (px_name (proxies presence_init 0)) = None"
    "px_name (proxies presence_init 1) = px_name (proxies presence_init 0)"
    by (simp_all add: presence_init_def)
  from subscribe_after_refusal [OF this refl refl] show ?thesis by (auto simp: presence_init_def)
qed

text \<open>
  When the last consumer of a channel unsubscribes while the state of the channel is being
  resynchronised, the state is no longer filed, but the answer to its request still subscribes it to the
  message bus, where no later call of \<open>unsubscribe\<close> can find it.
\<close>

theorem resync_leaks:
  assumes "r < length (cstates s)" and "channelStates s = [(px_name (proxies s p), r)]"
    and "subscribedProxies s = [(px_name (proxies s p), [p])]" and "cs_subscribed (cstates s ! r)"
    and s1_def: "s1 = snd (resubscribe r s)" and s2_def: "s2 = unsubscribe_service p s1"
    and s3_def: "s3 = state_subscribed r d s2"
  shows "channelStates s3 = [] \<and> subscribedProxies s3 = [] \<and> r \<in> set (bus s3) \<and> cs_subscribed (cstates s3 ! r)"
proof -
  let ?u = "state_unsubscribe r s"
  have u: "cstates ?u = (cstates s)[r := (cstates s ! r)\<lparr>cs_subscribed := False, cs_users := None, cs_count := None,
      cs_changes := cs_changes (cstates s ! r) + 1\<rparr>]" "channelStates ?u = channelStates s"
    "proxies ?u = proxies s" "subscribedProxies ?u = subscribedProxies s"
    using assms(4) by (simp_all add: state_unsubscribe_def change_state_def)
  have s1: "cstates s1 = cstates ?u" "channelStates s1 = channelStates s" "proxies s1 = proxies s"
    "subscribedProxies s1 = subscribedProxies s"
    using assms(1) u by (simp_all add: s1_def resubscribe_def state_subscribe_def getInitialData_def
        createPromiseProxy_def split_beta Let_def split: option.split)
  have "s2 = s1\<lparr>subscribedProxies := [], channelStates := []\<rparr>"
    using assms(1-3) s1 u
    by (simp add: s2_def unsubscribe_service_def removeSubscribed_def remove_proxy_def state_unsubscribe_def
        om_delete_def Let_def)
  then show ?thesis
    using assms(1) s1 u by (simp add: s3_def state_subscribed_def change_state_def subscribe_with_def)
qed

theorem resync_leaks_witness:
  "\<exists>s. 0 \<in> set (bus s) \<and> channelStates s = [] \<and>
     s = state_subscribed 0 \<lparr>d_count = 0, d_users = None, d_last_message_id = 9\<rparr> (unsubscribe_service 0 (snd (resubscribe 0
       (one_channel\<lparr>channelStates := [(''/chat'', 0)], subscribedProxies := [(''/chat'', [0])]\<rparr>))))"
proof -
  let ?s = "one_channel\<lparr>channelStates := [(''/chat'', 0)], subscribedProxies := [(''/chat'', [0])]\<rparr>"
  have "0 < length (cstates ?s)" "channelStates ?s = [(px_name (proxies ?s 0), 0)]"
    "subscribedProxies ?s = [(px_name (proxies ?s 0), [0])]" "cs_subscribed (cstates ?s ! 0)"
    by (simp_all add: one_channel_def presence_init_def)
  from resync_leaks [OF this refl refl refl] show ?thesis by blast
qed

end
