(* ===== verification/JsString.thy ===== *)
theory JsString
  imports JsPrelude
begin

text \<open>
  The string operations of the JavaScript standard library that the components use: splitting and
  joining, searching, trimming and replacing. A string is a list of characters; an index into it
  is a number of characters.
\<close>

section \<open>Splitting and joining\<close>

text \<open>
  \<open>s.split(sep)\<close>: the parts between the occurrences of \<open>sep\<close> from left to right; an empty
  separator gives the characters.
\<close>

function split_loop :: "string \<Rightarrow> string \<Rightarrow> string \<Rightarrow> string list" where
  "split_loop sep acc s =
     (if sep \<noteq> [] \<and> prefix sep s then acc # split_loop sep [] (drop (length sep) s)
      else case s of [] \<Rightarrow> [acc] | c # cs \<Rightarrow> split_loop sep (acc @ [c]) cs)"
  by pat_completeness auto
termination
proof (relation "measure (\<lambda>(sep, acc, s). length s)", goal_cases)
  case (2 sep acc s)
  then have "0 < length sep" "length sep \<le> length s" by (auto dest: prefix_length_le)
  then have "length s - length sep < length s" by linarith
  then show ?case by simp
qed simp_all

declare split_loop.simps [simp del]

definition js_split :: "string \<Rightarrow> string \<Rightarrow> string list" where
  "js_split sep s = (if sep = [] then map (\<lambda>c. [c]) s else split_loop sep [] s)"

lemma split_loop_nonempty [simp]: "split_loop sep acc s \<noteq> []"
  by (induction sep acc s rule: split_loop.induct) (subst split_loop.simps, auto split: list.split)

lemma join_Cons: "xs \<noteq> [] \<Longrightarrow> join sep (x # xs) = x @ sep @ join sep xs"
  by (cases xs) simp_all

lemma join_split_loop: "join sep (split_loop sep acc s) = acc @ s"
proof (induction sep acc s rule: split_loop.induct)
  case (1 sep acc s)
  show ?case
  proof (cases "sep \<noteq> [] \<and> prefix sep s")
    case True
    then obtain r where r: "s = sep @ r" by (auto simp: prefix_def)
    have "split_loop sep acc s = acc # split_loop sep [] r"
      using True r by (subst split_loop.simps) simp
    then show ?thesis using 1(1) [OF True] r by (simp add: join_Cons)
  next
    case False
    then have "split_loop sep acc s = (case s of [] \<Rightarrow> [acc] | c # cs \<Rightarrow> split_loop sep (acc @ [c]) cs)"
      by (subst split_loop.simps) auto
    then show ?thesis using 1(2) [OF False] by (cases s) auto
  qed
qed

lemma join_chars: "join [] (map (\<lambda>c. [c]) s) = s"
proof (induction s)
  case (Cons c s)
  then show ?case by (cases s) simp_all
qed simp

lemma join_split [simp]: "join sep (js_split sep s) = s"
  by (simp add: js_split_def join_split_loop join_chars)

lemma js_split_inject [simp]: "js_split sep s = js_split sep t \<longleftrightarrow> s = t"
  by (metis join_split)

lemma suffix_chars:
  fixes s t :: string
  shows "suffix (map (\<lambda>c. [c]) s) (map (\<lambda>c. [c]) t) \<longleftrightarrow> suffix s t"
proof
  assume "suffix (map (\<lambda>c. [c]) s) (map (\<lambda>c. [c]) t)"
  then obtain us where "map (\<lambda>c. [c]) t = us @ map (\<lambda>c. [c]) s"
    unfolding suffix_def by blast
  then obtain a b where t: "t = a @ b" and b: "map (\<lambda>c. [c]) b = map (\<lambda>c. [c]) s"
    unfolding map_eq_append_conv by metis
  have "b = s" using arg_cong [OF b, of "join []"] unfolding join_chars .
  then show "suffix s t" using t unfolding suffix_def by blast
next
  assume "suffix s t"
  then obtain a where "t = a @ s" unfolding suffix_def by blast
  then have "map (\<lambda>c. [c]) t = map (\<lambda>c. [c]) a @ map (\<lambda>c. [c]) s" by (simp only: map_append)
  then show "suffix (map (\<lambda>c. [c]) s) (map (\<lambda>c. [c]) t)" unfolding suffix_def by blast
qed

section \<open>Characters\<close>

text \<open>The classes \<open>\\s\<close>, \<open>\\w\<close> and \<open>.\<close> of regular expressions, for characters up to \<open>U+00FF\<close>.\<close>

definition js_space :: "char \<Rightarrow> bool" where
  "js_space c \<longleftrightarrow> c \<in> set [CHR 0x09, CHR 0x0A, CHR 0x0B, CHR 0x0C, CHR 0x0D, CHR 0x20, CHR 0xA0]"

definition is_lower :: "char \<Rightarrow> bool" where
  "is_lower c \<longleftrightarrow> 97 \<le> (of_char c :: nat) \<and> (of_char c :: nat) \<le> 122"

definition is_upper :: "char \<Rightarrow> bool" where
  "is_upper c \<longleftrightarrow> 65 \<le> (of_char c :: nat) \<and> (of_char c :: nat) \<le> 90"

definition is_alpha :: "char \<Rightarrow> bool" where
  "is_alpha c \<longleftrightarrow> is_lower c \<or> is_upper c"

definition is_num :: "char \<Rightarrow> bool" where
  "is_num c \<longleftrightarrow> 48 \<le> (of_char c :: nat) \<and> (of_char c :: nat) \<le> 57"

definition is_word :: "char \<Rightarrow> bool" where
  "is_word c \<longleftrightarrow> is_alpha c \<or> is_num c \<or> c = CHR ''_''"

definition is_dot :: "char \<Rightarrow> bool" where
  "is_dot c \<longleftrightarrow> c \<noteq> CHR 0x0A \<and> c \<noteq> CHR 0x0D"

definition lower_char :: "char \<Rightarrow> char" where
  "lower_char c = (if is_upper c then char_of ((of_char c :: nat) + 32) else c)"

definition lower :: "string \<Rightarrow> string" where
  "lower s = map lower_char s"

section \<open>Searching and trimming\<close>

fun contains :: "string \<Rightarrow> string \<Rightarrow> bool" where
  "contains sub [] = (sub = [])"
| "contains sub (c # cs) = (prefix sub (c # cs) \<or> contains sub cs)"

lemma contains_sublist: "contains sub s = sublist sub s"
  by (induction s) (auto simp: sublist_Cons_right)

text \<open>\<open>indexOf\<close>: the first position of a substring.\<close>

fun find_at :: "string \<Rightarrow> string \<Rightarrow> nat option" where
  "find_at sub [] = (if sub = [] then Some 0 else None)"
| "find_at sub (c # cs) =
     (if prefix sub (c # cs) then Some 0 else map_option Suc (find_at sub cs))"

definition trim_start :: "string \<Rightarrow> string" where
  "trim_start s = dropWhile js_space s"

definition trim_end :: "string \<Rightarrow> string" where
  "trim_end s = rev (dropWhile js_space (rev s))"

definition trim :: "string \<Rightarrow> string" where
  "trim s = trim_end (trim_start s)"

text \<open>\<open>s.replace(sub, by)\<close> for a string \<open>sub\<close>, when \<open>by\<close> has no dollar sign.\<close>

definition replace_first :: "string \<Rightarrow> string \<Rightarrow> string \<Rightarrow> string" where
  "replace_first sub by s =
     (case find_at sub s of None \<Rightarrow> s | Some k \<Rightarrow> take k s @ by @ drop (k + length sub) s)"

text \<open>\<open>s.replaceAll(sub, by)\<close> for a literal pattern, as a global regular expression does it.\<close>

function replace_all :: "string \<Rightarrow> string \<Rightarrow> string \<Rightarrow> string" where
  "replace_all sub by [] = []"
| "replace_all sub by (c # cs) =
     (if sub \<noteq> [] \<and> prefix sub (c # cs) then by @ replace_all sub by (drop (length sub) (c # cs))
      else c # replace_all sub by cs)"
  by pat_completeness auto
termination
  by (relation "measure (\<lambda>(sub, by, s). length s)") (auto simp: neq_Nil_conv)

lemma find_at_Some: "find_at sub s = Some i \<Longrightarrow> s = take i s @ sub @ drop (i + length sub) s"
  by (induction sub s arbitrary: i rule: find_at.induct)
    (auto simp: prefix_def split: if_splits)

lemma find_at_le: "find_at sub s = Some i \<Longrightarrow> i + length sub \<le> length s"
  by (induction sub s arbitrary: i rule: find_at.induct)
    (auto dest: prefix_length_le split: if_splits)

lemma find_at_None: "find_at sub s = None \<longleftrightarrow> \<not> contains sub s"
  by (induction sub s rule: find_at.induct) auto

lemma find_at_first: "find_at sub s = Some i \<Longrightarrow> j < i \<Longrightarrow> \<not> prefix sub (drop j s)"
proof (induction sub s arbitrary: i j rule: find_at.induct)
  case (2 sub c cs)
  then show ?case by (cases j) (auto split: if_splits)
qed (auto split: if_splits)

lemma lower_char_upper: "is_upper c \<Longrightarrow> is_lower (lower_char c)"
  by (simp add: lower_char_def is_lower_def is_upper_def)

lemma lower_char_nonalpha: "\<not> is_alpha d \<Longrightarrow> lower_char c = d \<longleftrightarrow> c = d"
  using lower_char_upper [of c] by (auto simp: is_alpha_def lower_char_def)

lemma lower_char_lower [simp]: "lower_char (lower_char c) = lower_char c"
  using lower_char_upper [of c]
  by (cases "is_upper c") (auto simp: lower_char_def is_lower_def is_upper_def)

lemma lower_lower [simp]: "lower (lower s) = lower s"
  by (simp add: lower_def comp_def)

lemma length_lower [simp]: "length (lower s) = length s"
  by (simp add: lower_def)

lemma lower_append [simp]: "lower (s @ t) = lower s @ lower t"
  by (simp add: lower_def)

lemma lower_Nil [simp]: "lower [] = []"
  by (simp add: lower_def)

lemma lower_Cons: "lower (c # s) = lower_char c # lower s"
  by (simp add: lower_def)

lemma prefix_lower: "prefix p (lower s) \<Longrightarrow> \<exists>a b. s = a @ b \<and> lower a = p"
  unfolding prefix_def lower_def by (metis map_eq_append_conv)

section \<open>Lines\<close>

lemma split_free: "c \<notin> set a \<Longrightarrow> split_loop [c] acc a = [acc @ a]"
proof (induction a arbitrary: acc)
  case (Cons x a)
  then show ?case by (subst split_loop.simps) auto
qed (subst split_loop.simps, simp)

lemma split_at: "c \<notin> set a \<Longrightarrow> split_loop [c] acc (a @ c # b) = (acc @ a) # split_loop [c] [] b"
proof (induction a arbitrary: acc)
  case (Cons x a)
  then show ?case by (subst split_loop.simps) auto
qed (subst split_loop.simps, simp)

lemma split_join:
  "xs \<noteq> [] \<Longrightarrow> \<forall>x \<in> set xs. c \<notin> set x \<Longrightarrow> js_split [c] (join [c] xs) = xs"
proof (induction xs)
  case (Cons x xs)
  show ?case
  proof (cases xs)
    case Nil
    then show ?thesis using Cons.prems(2) by (simp add: js_split_def split_free)
  next
    case (Cons y ys)
    then have "split_loop [c] [] (join [c] xs) = xs"
      using Cons.IH Cons.prems(2) by (simp add: js_split_def)
    then show ?thesis
      using Cons.prems(2) Cons split_at [of c x "[]" "join [c] xs"] by (simp add: js_split_def)
  qed
qed simp

lemma split_loop_chars: "\<forall>x \<in> set (split_loop [c] acc s). c \<in> set x \<longrightarrow> c \<in> set acc"
proof (induction "[c]" acc s rule: split_loop.induct)
  case (1 acc s)
  show ?case
  proof (cases "prefix [c] s")
    case True
    then have "split_loop [c] acc s = acc # split_loop [c] [] (drop 1 s)"
      by (subst split_loop.simps) simp
    then show ?thesis using 1(1) True by auto
  next
    case False
    show ?thesis
    proof (cases s)
      case Nil
      then show ?thesis by (subst split_loop.simps) simp
    next
      case (Cons d ds)
      then have "c \<noteq> d" using False by simp
      moreover have "split_loop [c] acc s = split_loop [c] (acc @ [d]) ds"
        using False Cons by (subst split_loop.simps) simp
      ultimately show ?thesis using 1(2) [OF _ Cons] False by auto
    qed
  qed
qed

lemma js_split_free: "x \<in> set (js_split [c] s) \<Longrightarrow> c \<notin> set x"
  using split_loop_chars [of c "[]" s] by (auto simp: js_split_def)

lemma js_split_nonempty [simp]: "sep \<noteq> [] \<Longrightarrow> js_split sep s \<noteq> []"
  by (simp add: js_split_def)

section \<open>Trimming\<close>

lemma trim_end_prefix: "\<exists>b. s = trim_end s @ b"
proof -
  have "rev s = takeWhile js_space (rev s) @ dropWhile js_space (rev s)" by simp
  then have "s = rev (dropWhile js_space (rev s)) @ rev (takeWhile js_space (rev s))"
    by (metis rev_append rev_rev_ident)
  then show ?thesis unfolding trim_end_def by blast
qed

lemma trim_end_last: "trim_end s \<noteq> [] \<Longrightarrow> \<not> js_space (last (trim_end s))"
  unfolding trim_end_def by (simp add: last_rev hd_dropWhile)

lemma trim_end_id: "s = [] \<or> \<not> js_space (last s) \<Longrightarrow> trim_end s = s"
  by (cases s rule: rev_cases) (auto simp: trim_end_def)

lemma trim_start_suffix: "\<exists>a. s = a @ trim_start s"
  by (metis takeWhile_dropWhile_id trim_start_def)

end
