(* ===== verification/SuffixTrie.thy ===== *)
theory SuffixTrie
  imports JsString
begin

text \<open>
  \<open>frontend/discourse/app/lib/suffix-trie.js\<close>: the set of strings that is searched by suffix.

  A node is its leaf index and its children in insertion order. The code's nodes also hold their
  name and parent, from which \<open>withSuffix\<close> rebuilds the string of a leaf; here the search carries
  the path of names from the root instead. Names are the parts of the split string, the last
  part next to the root.
\<close>

datatype trie = Node "nat option" "(string \<times> trie) list"

record suffix_trie =
  root :: trie
  separator :: string
  nextIndex :: nat

definition new_suffix_trie :: "string \<Rightarrow> suffix_trie" where
  "new_suffix_trie sep = \<lparr>root = Node None [], separator = sep, nextIndex = 0\<rparr>"

text \<open>The path from the root is followed, with nodes made where they are missing.\<close>

fun add_path :: "string list \<Rightarrow> nat \<Rightarrow> trie \<Rightarrow> trie" where
  "add_path [] i (Node li cs) = Node (Some i) cs"
| "add_path (n # ns) i (Node li cs) =
     Node li (om_set n (add_path ns i (case om_get cs n of None \<Rightarrow> Node None [] | Some t \<Rightarrow> t)) cs)"

definition add_suffix :: "string \<Rightarrow> suffix_trie \<Rightarrow> suffix_trie" where
  "add_suffix v t =
     t\<lparr>root := add_path (rev (js_split (separator t) v)) (nextIndex t) (root t),
       nextIndex := nextIndex t + 1\<rparr>"

fun descend :: "string list \<Rightarrow> trie \<Rightarrow> trie option" where
  "descend [] t = Some t"
| "descend (n # ns) (Node li cs) =
     (case om_get cs n of None \<Rightarrow> None | Some t \<Rightarrow> descend ns t)"

lemma size_children: "sum_list (map (\<lambda>(n, t). size t) cs) < size (Node li cs)"
  by (induction cs) auto

text \<open>
  The loop over the descendants: the top of the stack is the head of the list, and pushing the
  children in order leaves the last of them on top.
\<close>

function collect :: "(string list \<times> trie) list \<Rightarrow> (nat \<times> string list) list" where
  "collect [] = []"
| "collect ((path, Node li cs) # stack) =
     (case li of None \<Rightarrow> [] | Some i \<Rightarrow> [(i, path)]) @
     collect (rev (map (\<lambda>(n, t). (path @ [n], t)) cs) @ stack)"
  by pat_completeness auto

termination
proof (relation "measure (\<lambda>stack. sum_list (map (\<lambda>(p, t). size t) stack))", goal_cases)
  case (2 path li cs stack)
  have "map (\<lambda>(p, t). size t) (map (\<lambda>(n, t). (path @ [n], t)) cs) = map (\<lambda>(n, t). size t) cs"
    by (simp add: split_beta comp_def)
  then have "sum_list (map (\<lambda>(p, t). size t) (rev (map (\<lambda>(n, t). (path @ [n], t)) cs)))
      = sum_list (map (\<lambda>(n, t). size t) cs)"
    by (metis rev_map sum_list_rev)
  then show ?case using size_children [of cs li] by simp
qed simp

text \<open>The root has no name, which \<open>join\<close> reads as the empty string.\<close>

definition full_name :: "string \<Rightarrow> string list \<Rightarrow> string" where
  "full_name sep path = join sep (if path = [] then [[]] else rev path)"

definition withSuffix :: "string \<Rightarrow> int option \<Rightarrow> suffix_trie \<Rightarrow> string list" where
  "withSuffix suf resultCount t =
     (let path = rev (js_split (separator t) suf)
      in case descend path (root t) of
           None \<Rightarrow> []
         | Some node \<Rightarrow>
             (let leaves = sort_key fst (collect [(path, node)]);
                  kept = (case resultCount of
                            None \<Rightarrow> leaves
                          | Some n \<Rightarrow> take (clip_bound (length leaves) n) leaves)
              in map (\<lambda>(i, p). full_name (separator t) p) kept))"

section \<open>The leaves of a trie\<close>

definition leaf_at :: "trie \<Rightarrow> string list \<Rightarrow> nat option" where
  "leaf_at t p = (case descend p t of None \<Rightarrow> None | Some (Node li cs) \<Rightarrow> li)"

fun trie_wf :: "trie \<Rightarrow> bool" where
  "trie_wf (Node li cs) \<longleftrightarrow> om_wf cs \<and> (\<forall>(n, t) \<in> set cs. trie_wf t)"

lemma leaf_at_simps [simp]:
  "leaf_at (Node li cs) [] = li"
  "leaf_at (Node li cs) (n # ns) = (case om_get cs n of None \<Rightarrow> None | Some t \<Rightarrow> leaf_at t ns)"
  by (auto simp: leaf_at_def split: option.split)

lemma leaf_at_empty [simp]: "leaf_at (Node None []) p = None"
  by (cases p) simp_all

lemma leaf_at_add: "leaf_at (add_path p i t) q = (if q = p then Some i else leaf_at t q)"
proof (induction p i t arbitrary: q rule: add_path.induct)
  case (1 i li cs)
  then show ?case by (cases q) auto
next
  case (2 n ns i li cs)
  then show ?case by (cases q) (auto split: option.split)
qed

lemma set_om_set: "om_wf m \<Longrightarrow> set (om_set k v m) = insert (k, v) (set (om_delete k m))"
  by (induction k v m rule: om_set.induct) (force simp: om_delete_def)+

lemma trie_wf_add: "trie_wf t \<Longrightarrow> trie_wf (add_path p i t)"
proof (induction p i t rule: add_path.induct)
  case (2 n ns i li cs)
  let ?t = "case om_get cs n of None \<Rightarrow> Node None [] | Some t \<Rightarrow> t"
  have "trie_wf ?t" using 2(2) by (auto dest: map_of_SomeD split: option.split)
  then have "trie_wf (add_path ns i ?t)" by (rule 2(1))
  then show ?case using 2(2) by (auto simp: set_om_set om_delete_def)
qed auto

definition stack_leaves :: "(string list \<times> trie) list \<Rightarrow> (nat \<times> string list) set" where
  "stack_leaves stack = {(i, p @ q) | i p q t. (p, t) \<in> set stack \<and> leaf_at t q = Some i}"

lemma stack_leaves_simps [simp]:
  "stack_leaves [] = {}" "stack_leaves (xs @ ys) = stack_leaves xs \<union> stack_leaves ys"
  by (auto simp: stack_leaves_def)

lemma stack_leaves_single: "stack_leaves [(p, t)] = {(i, p @ q) | i q. leaf_at t q = Some i}"
  by (auto simp: stack_leaves_def)

lemma node_leaves:
  assumes "om_wf cs"
  shows "stack_leaves [(p, Node li cs)] =
    (case li of None \<Rightarrow> {} | Some i \<Rightarrow> {(i, p)}) \<union> stack_leaves (map (\<lambda>(n, t). (p @ [n], t)) cs)"
    (is "?L = ?R")
proof -
  have "(i, r) \<in> ?L \<longleftrightarrow> (i, r) \<in> ?R" for i r
  proof
    assume "(i, r) \<in> ?L"
    then obtain q where q: "r = p @ q" "leaf_at (Node li cs) q = Some i"
      by (auto simp: stack_leaves_def)
    then show "(i, r) \<in> ?R"
    proof (cases q)
      case (Cons n ns)
      then obtain t where t: "om_get cs n = Some t" "leaf_at t ns = Some i"
        using q(2) by (auto split: option.splits)
      then have "(p @ [n], t) \<in> set (map (\<lambda>(n, t). (p @ [n], t)) cs)"
        by (force dest: map_of_SomeD)
      then show ?thesis using t(2) q(1) Cons by (fastforce simp: stack_leaves_def)
    qed auto
  next
    assume r: "(i, r) \<in> ?R"
    show "(i, r) \<in> ?L"
    proof (cases "li = Some i \<and> r = p")
      case False
      then obtain n t q where "(n, t) \<in> set cs" "r = (p @ [n]) @ q" "leaf_at t q = Some i"
        using r by (auto simp: stack_leaves_def split: option.splits)
      moreover from this(1) have "om_get cs n = Some t" using assms by simp
      ultimately have "r = p @ (n # q) \<and> leaf_at (Node li cs) (n # q) = Some i" by simp
      then show ?thesis by (auto simp: stack_leaves_single)
    qed (auto simp: stack_leaves_single)
  qed
  then show ?thesis by auto
qed

lemma collect_set:
  "\<forall>(p, t) \<in> set stack. trie_wf t \<Longrightarrow> set (collect stack) = stack_leaves stack"
proof (induction stack rule: collect.induct)
  case (2 path li cs stack)
  let ?st = "rev (map (\<lambda>(n, t). (path @ [n], t)) cs)"
  have "set (collect (?st @ stack)) = stack_leaves (?st @ stack)"
    using 2(2) by (intro 2(1)) auto
  moreover have "stack_leaves ?st = stack_leaves (map (\<lambda>(n, t). (path @ [n], t)) cs)"
    by (simp add: stack_leaves_def)
  moreover have "stack_leaves ((path, Node li cs) # stack) =
      stack_leaves [(path, Node li cs)] \<union> stack_leaves stack"
    using stack_leaves_simps(2) [of "[(path, Node li cs)]" stack] by simp
  ultimately show ?case
    using node_leaves [of cs path li] 2(2) by (auto split: option.split)
qed simp

text \<open>Stack entries none of which lies below another; their leaves are then found once.\<close>

definition apart :: "(string list \<times> trie) list \<Rightarrow> bool" where
  "apart stack \<longleftrightarrow>
     sorted_wrt (\<lambda>a b. \<not> prefix (fst a) (fst b) \<and> \<not> prefix (fst b) (fst a)) stack"

lemma apart_children: "om_wf cs \<Longrightarrow> apart (rev (map (\<lambda>(n, t). (p @ [n], t)) cs))"
  by (induction cs) (auto simp: apart_def sorted_wrt_append image_iff split_beta)

lemma apart_step:
  assumes "apart ((p, t) # stack)" and "om_wf cs"
  shows "apart (rev (map (\<lambda>(n, t). (p @ [n], t)) cs) @ stack)"
proof -
  have "\<not> prefix (p @ [n]) q \<and> \<not> prefix q (p @ [n])" if "(q, u) \<in> set stack" for n q u
  proof -
    have "\<not> prefix p q \<and> \<not> prefix q p" using assms(1) that by (auto simp: apart_def)
    then show ?thesis by (auto simp: prefix_snoc dest: append_prefixD)
  qed
  then show ?thesis
    using apart_children [OF assms(2), of p] assms(1)
    by (auto simp: apart_def sorted_wrt_append)
qed

lemma collect_distinct:
  "\<forall>(p, t) \<in> set stack. trie_wf t \<Longrightarrow> apart stack \<Longrightarrow> distinct (collect stack)"
proof (induction stack rule: collect.induct)
  case (2 p li cs stack)
  let ?st = "rev (map (\<lambda>(n, t). (p @ [n], t)) cs) @ stack"
  have wf: "\<forall>(p, t) \<in> set ?st. trie_wf t" and cs: "om_wf cs" using 2(2) by auto
  have ap: "apart ?st" by (rule apart_step [OF 2(3) cs])
  have "(i, p) \<notin> set (collect ?st)" for i
  proof
    assume "(i, p) \<in> set (collect ?st)"
    then obtain q r t where q: "p = q @ r" "(q, t) \<in> set ?st"
      unfolding collect_set [OF wf] by (auto simp only: stack_leaves_def)
    show False
    proof (cases "(q, t) \<in> set stack")
      case True
      then show False using 2(3) q(1) by (force simp: apart_def)
    qed (use q in auto)
  qed
  then show ?case using 2(1) [OF wf ap] by (auto split: option.split)
qed simp

section \<open>Correctness\<close>

definition added :: "string list \<Rightarrow> string \<Rightarrow> suffix_trie" where
  "added vs sep = fold add_suffix vs (new_suffix_trie sep)"

text \<open>The index a value has: that of its last addition.\<close>

fun newest :: "string list \<Rightarrow> string \<Rightarrow> nat option" where
  "newest [] v = None"
| "newest (w # ws) v = (if w = v then Some (length ws) else newest ws v)"

definition last_added :: "string list \<Rightarrow> string \<Rightarrow> nat option" where
  "last_added vs v = newest (rev vs) v"

lemma last_added_snoc:
  "last_added (vs @ [v]) w = (if w = v then Some (length vs) else last_added vs w)"
  by (simp add: last_added_def)

lemma last_added_Nil [simp]: "last_added [] v = None"
  by (simp add: last_added_def)

lemma last_added_less: "last_added vs v = Some i \<Longrightarrow> i < length vs"
  by (induction vs rule: rev_induct) (auto simp: last_added_snoc less_SucI split: if_splits)

lemma last_added_in: "last_added vs v \<noteq> None \<longleftrightarrow> v \<in> set vs"
  by (induction vs rule: rev_induct) (auto simp: last_added_snoc)

lemma remdups_snoc: "remdups (vs @ [v]) = filter (\<lambda>w. w \<noteq> v) (remdups vs) @ [v]"
  by (induction vs) auto

lemma last_added_sorted:
  "sorted_wrt (<) (map (\<lambda>v. the (last_added vs v)) (remdups vs))"
proof (induction vs rule: rev_induct)
  case (snoc v vs)
  let ?ws = "filter (\<lambda>w. w \<noteq> v) (remdups vs)"
  have same: "map (\<lambda>w. the (last_added (vs @ [v]) w)) ?ws = map (\<lambda>w. the (last_added vs w)) ?ws"
    by (simp add: last_added_snoc)
  have "sorted_wrt (<) (map (\<lambda>w. the (last_added (vs @ [v]) w)) ?ws)"
    unfolding same using snoc by (simp add: sorted_wrt_map sorted_wrt_filter)
  moreover have "the (last_added vs w) < length vs" if "w \<in> set vs" for w
    using last_added_in [of vs w] last_added_less that by auto
  ultimately show ?case
    by (simp add: remdups_snoc sorted_wrt_append) (auto simp: last_added_snoc)
qed simp

lemma added_state:
  "separator (added vs sep) = sep \<and> nextIndex (added vs sep) = length vs \<and>
   trie_wf (root (added vs sep)) \<and>
   (\<forall>p. leaf_at (root (added vs sep)) p =
      (if \<exists>v. p = rev (js_split sep v) then last_added vs (join sep (rev p)) else None))"
proof (induction vs rule: rev_induct)
  case Nil
  then show ?case by (simp add: added_def new_suffix_trie_def last_added_def)
next
  case (snoc v vs)
  have step: "added (vs @ [v]) sep = add_suffix v (added vs sep)"
    by (simp add: added_def)
  have "leaf_at (root (added (vs @ [v]) sep)) p =
      (if \<exists>v. p = rev (js_split sep v) then last_added (vs @ [v]) (join sep (rev p)) else None)" for p
    using snoc by (auto simp: step add_suffix_def leaf_at_add last_added_snoc)
  then show ?case using snoc by (simp add: step add_suffix_def trie_wf_add)
qed

lemma sorted_pairs_unique:
  fixes xs ys :: "(nat \<times> 'a) list"
  assumes "sorted_wrt (\<lambda>a b. fst a < fst b) xs" and "sorted_wrt (\<lambda>a b. fst a < fst b) ys"
    and "set xs = set ys"
  shows "xs = ys"
  using assms
proof (induction xs arbitrary: ys)
  case (Cons x xs)
  then obtain y ys' where ys: "ys = y # ys'" by (cases ys) auto
  have "x = y"
  proof (rule ccontr)
    assume "x \<noteq> y"
    then have "x \<in> set ys'" "y \<in> set xs" using Cons.prems(3) ys by auto
    then have "fst y < fst x" "fst x < fst y" using Cons.prems(1,2) ys by auto
    then show False by simp
  qed
  moreover have "x \<notin> set xs" "y \<notin> set ys'" using Cons.prems(1,2) ys by auto
  ultimately have "set xs = set ys'" using Cons.prems(3) ys by (metis insert_ident list.simps(15))
  then have "xs = ys'" using Cons.prems(1,2) ys by (intro Cons.IH) auto
  with \<open>x = y\<close> show ?case using ys by simp
qed simp

lemma sort_strict:
  fixes xs :: "(nat \<times> 'a) list"
  assumes "distinct xs" and "inj_on fst (set xs)"
  shows "sorted_wrt (\<lambda>a b. fst a < fst b) (sort_key fst xs)"
proof -
  have "distinct (map fst (sort_key fst xs))"
    using assms by (simp add: distinct_map)
  then have "sorted_wrt (<) (map fst (sort_key fst xs))"
    by (simp add: strict_sorted_iff)
  then show ?thesis by (simp add: sorted_wrt_map)
qed

lemma descend_append: "descend (p @ q) t = (case descend p t of None \<Rightarrow> None | Some u \<Rightarrow> descend q u)"
  by (induction p t rule: descend.induct) (auto split: option.split)

lemma descend_wf: "trie_wf t \<Longrightarrow> descend p t = Some u \<Longrightarrow> trie_wf u"
  by (induction p t rule: descend.induct) (auto dest: map_of_SomeD split: option.splits)

lemma leaf_at_descend: "descend p t = Some u \<Longrightarrow> leaf_at u q = leaf_at t (p @ q)"
  by (simp add: leaf_at_def descend_append)

lemma leaf_at_none: "descend p t = None \<Longrightarrow> leaf_at t (p @ q) = None"
  by (simp add: leaf_at_def descend_append)

lemma full_name_split: "full_name sep (rev (js_split sep v)) = v"
proof (cases "js_split sep v = []")
  case True
  then have "v = []" using join_split [of sep v] by simp
  then show ?thesis using True by (simp add: full_name_def)
qed (simp add: full_name_def)

text \<open>The reference: the values with the suffix, those added again later at their last place.\<close>

definition having_suffix :: "string \<Rightarrow> string \<Rightarrow> string list \<Rightarrow> string list" where
  "having_suffix sep suf vs =
     filter (\<lambda>v. suffix (js_split sep suf) (js_split sep v)) (remdups vs)"

definition indexed :: "string \<Rightarrow> string \<Rightarrow> string list \<Rightarrow> (nat \<times> string list) list" where
  "indexed sep suf vs =
     map (\<lambda>v. (the (last_added vs v), rev (js_split sep v))) (having_suffix sep suf vs)"

lemma indexed_set:
  "set (indexed sep suf vs) = {(i, rev (js_split sep suf) @ q) | i q.
     leaf_at (root (added vs sep)) (rev (js_split sep suf) @ q) = Some i}" (is "?L = ?R")
proof -
  have leaf: "leaf_at (root (added vs sep)) (rev (js_split sep v)) = last_added vs v" for v
    using added_state [of vs sep] by auto
  have "(i, p) \<in> ?L \<longleftrightarrow> (i, p) \<in> ?R" for i p
  proof
    assume "(i, p) \<in> ?L"
    then obtain v where v: "v \<in> set vs" "i = the (last_added vs v)" "p = rev (js_split sep v)"
      "suffix (js_split sep suf) (js_split sep v)"
      by (auto simp: indexed_def having_suffix_def)
    from v(4) obtain us where us: "js_split sep v = us @ js_split sep suf" unfolding suffix_def by blast
    have "last_added vs v = Some i" using v(1,2) last_added_in [of vs v] by auto
    then have "leaf_at (root (added vs sep)) (rev (js_split sep suf) @ rev us) = Some i"
      using leaf [of v] us by simp
    then show "(i, p) \<in> ?R" using v(3) us by auto
  next
    assume "(i, p) \<in> ?R"
    then obtain q where q: "p = rev (js_split sep suf) @ q"
      "leaf_at (root (added vs sep)) p = Some i" by auto
    then obtain v where v: "p = rev (js_split sep v)"
      using added_state [of vs sep] by (metis option.distinct(1))
    then have i: "last_added vs v = Some i" using q(2) leaf by simp
    have "js_split sep v = rev q @ js_split sep suf" using q(1) v
      by (metis rev_append rev_rev_ident)
    then have "suffix (js_split sep suf) (js_split sep v)" unfolding suffix_def by blast
    then show "(i, p) \<in> ?L"
      using v i last_added_in [of vs v] by (force simp: indexed_def having_suffix_def)
  qed
  then show ?thesis by auto
qed

lemma indexed_sorted: "sorted_wrt (\<lambda>a b. fst a < fst b) (indexed sep suf vs)"
  using last_added_sorted [of vs]
  by (simp add: indexed_def having_suffix_def sorted_wrt_map sorted_wrt_filter)

lemma collect_indexed:
  assumes "descend (rev (js_split sep suf)) (root (added vs sep)) = Some node"
  shows "sort_key fst (collect [(rev (js_split sep suf), node)]) = indexed sep suf vs"
proof (rule sorted_pairs_unique)
  let ?xs = "collect [(rev (js_split sep suf), node)]"
  have wf: "trie_wf node" using descend_wf [OF _ assms] added_state [of vs sep] by blast
  have set_xs: "set ?xs = set (indexed sep suf vs)"
    unfolding indexed_set using collect_set [of "[(rev (js_split sep suf), node)]"] wf
    by (simp add: stack_leaves_single leaf_at_descend [OF assms])
  then show "set (sort_key fst ?xs) = set (indexed sep suf vs)" by simp
  have "inj_on fst (set (indexed sep suf vs))"
  proof -
    have "distinct (map fst (indexed sep suf vs))"
      using indexed_sorted [of sep suf vs]
      by (metis sorted_wrt_map strict_sorted_iff)
    then show ?thesis by (simp add: distinct_map)
  qed
  moreover have "distinct ?xs" using wf by (intro collect_distinct) (auto simp: apart_def)
  ultimately show "sorted_wrt (\<lambda>a b. fst a < fst b) (sort_key fst ?xs)"
    using set_xs by (intro sort_strict) simp_all
qed (rule indexed_sorted)

text \<open>
  C35. The suffix search equals its reference: whatever values were added, in whatever order and however
  often, \<open>withSuffix\<close> returns each value whose parts end with the parts of the suffix once, in the
  order in which the values were last added, cut to the number of results asked for.
\<close>

theorem withSuffix_spec:
  "withSuffix suf cnt (added vs sep) =
     (let found = having_suffix sep suf vs
      in case cnt of None \<Rightarrow> found | Some n \<Rightarrow> take (clip_bound (length found) n) found)"
proof (cases "descend (rev (js_split sep suf)) (root (added vs sep))")
  case None
  have "set (indexed sep suf vs) = {}"
    unfolding indexed_set using leaf_at_none [OF None] by simp
  then have "having_suffix sep suf vs = []" by (simp add: indexed_def)
  then show ?thesis
    using None added_state [of vs sep] by (simp add: withSuffix_def split: option.split)
next
  case (Some node)
  have "map (\<lambda>(i, p). full_name sep p) (indexed sep suf vs) = having_suffix sep suf vs"
    by (simp add: indexed_def comp_def full_name_split)
  moreover have "length (indexed sep suf vs) = length (having_suffix sep suf vs)"
    by (simp add: indexed_def)
  ultimately show ?thesis
    using Some added_state [of vs sep] collect_indexed [OF Some]
    by (simp add: withSuffix_def Let_def take_map [symmetric] split: option.split)
qed

end
