(* ===== verification/AllowList.thy ===== *)
theory AllowList
  imports JsString
begin

text \<open>
  \<open>frontend/pretty-text/addon/allow-lister.js\<close>: the tags and attributes that survive in cooked
  posts. Each feature contributes entries such as \<open>a[rel=nofollow]\<close>, or a predicate of its own;
  the list of tags and attributes is built from the enabled features when it is first needed.

  The objects of the code are dictionaries in insertion order. The names of listed tags,
  attributes and features are taken not to be names of \<open>Object.prototype\<close>.
\<close>

type_synonym custom_rule = "string \<Rightarrow> string \<Rightarrow> string \<Rightarrow> bool"
type_synonym attr_values = "(string, string list) omap"
type_synonym attr_list = "(string, attr_values) omap"

datatype feature_info =
    CustomRule custom_rule
  | OneEntry string
  | Entries "string list"

record allow_list =
  tagList :: "(string, string list) omap"
  attrList :: attr_list

record allow_lister =
  enabled :: "(string, bool) omap"
  allowedHrefSchemes :: "string list"
  allowedIframes :: "string list"
  rawFeatures :: "(string \<times> feature_info) list"
  cache :: "(custom_rule list \<times> allow_list) option"

record lister_options =
  opt_schemes :: "string list option"
  opt_iframes :: "string list option"
  opt_features :: "(string \<times> bool) list option"

text \<open>The list of the feature \<open>default\<close>: entries that are always wanted.\<close>

definition DEFAULT_LIST :: "string list" where
  "DEFAULT_LIST =
    [''a.anchor'', ''a.attachment'', ''a.hashtag'', ''a.mention'', ''a.mention-group'',
     ''a.onebox'', ''a.inline-onebox'', ''a.inline-onebox-loading'', ''a[data-bbcode]'',
     ''a[data-word]'', ''a[name]'', ''a[rel=nofollow]'', ''a[rel=ugc]'', ''a[target=_blank]'',
     ''a[title]'', ''abbr[title]'', ''aside.quote'', ''aside[data-*]'', ''audio'',
     ''audio[controls]'', ''audio[preload]'', ''b'', ''big'', ''blockquote'', ''br'', ''code'',
     ''dd'', ''del'', ''div'', ''div.quote-controls'', ''div.title'', ''div[align]'',
     ''div[lang]'', ''div[data-*]'', ''div[dir]'', ''dl'', ''dt'', ''em'', ''h1'', ''h2'',
     ''h3'', ''h4'', ''h5'', ''h6'', ''hr'', ''i'', ''iframe'', ''iframe[frameborder]'',
     ''iframe[height]'', ''iframe[marginheight]'', ''iframe[marginwidth]'', ''iframe[width]'',
     ''iframe[allowfullscreen]'', ''iframe[allow]'', ''img[alt]'', ''img[role]'',
     ''img[height]'', ''img[title]'', ''img[width]'', ''img[data-thumbnail]'', ''ins'', ''kbd'',
     ''li'', ''mark'', ''ol'', ''ol[reversed]'', ''ol[start]'', ''ol[type]'', ''p'',
     ''p[lang]'', ''picture'', ''pre'', ''s'', ''small'', ''span[lang]'', ''span.excerpt'',
     ''div.excerpt'', ''div.video-container'', ''div.video-placeholder-container'',
     ''div.onebox-placeholder-container'', ''span.placeholder-icon video'', ''span.hashtag'',
     ''span.mention'', ''strike'', ''strong'', ''sub'', ''sup'', ''source[data-orig-src]'',
     ''source[type]'', ''track'', ''track[default]'', ''track[label]'', ''track[kind]'',
     ''track[srclang]'', ''ul'', ''video'', ''video[controls]'', ''video[controlslist]'',
     ''video[crossorigin]'', ''video[height]'', ''video[loop]'', ''video[muted]'',
     ''video[playsinline]'', ''video[poster]'', ''video[preload]'', ''video[width]'', ''ruby'',
     ''ruby[lang]'', ''rb'', ''rb[lang]'', ''rp'', ''rt'', ''rt[lang]'']"

definition list_or_empty :: "'a list option \<Rightarrow> 'a list" where
  "list_or_empty xs = (case xs of None \<Rightarrow> [] | Some ys \<Rightarrow> ys)"

definition new_allow_lister :: "lister_options option \<Rightarrow> allow_lister" where
  "new_allow_lister options =
     (let feature = (\<lambda>(f, on) e. if on then om_set f True e else e);
          on = fold feature (list_or_empty (Option.bind options opt_features)) [(''default'', True)]
      in \<lparr>enabled = on,
          allowedHrefSchemes = list_or_empty (Option.bind options opt_schemes),
          allowedIframes = list_or_empty (Option.bind options opt_iframes),
          rawFeatures = [(''default'', Entries DEFAULT_LIST)], cache = None\<rparr>)"

definition allowListFeature :: "string \<Rightarrow> feature_info \<Rightarrow> allow_lister \<Rightarrow> allow_lister" where
  "allowListFeature feature info a = a\<lparr>rawFeatures := rawFeatures a @ [(feature, info)]\<rparr>"

definition disable :: "string \<Rightarrow> allow_lister \<Rightarrow> allow_lister" where
  "disable feature a = a\<lparr>enabled := om_set feature False (enabled a), cache := None\<rparr>"

definition enable :: "string \<Rightarrow> allow_lister \<Rightarrow> allow_lister" where
  "enable feature a = a\<lparr>enabled := om_set feature True (enabled a), cache := None\<rparr>"

section \<open>Entries\<close>

text \<open>
  \<open>ALLOWLIST_REGEX\<close>, \<open>([^\[]+)(\[([^=]+)(=(.*))?\])?\<close>: the tag, the attribute and the value of an
  entry. The match starts at the first character that is no bracket; the bracket group is
  greedy, so that the value, or else the name, ends at the last closing bracket it can reach.
\<close>

definition before_last :: "char \<Rightarrow> string \<Rightarrow> string" where
  "before_last c s = rev (drop 1 (dropWhile (\<lambda>d. d \<noteq> c) (rev s)))"

definition parse_bracket :: "string \<Rightarrow> (string \<times> string option) option" where
  "parse_bracket body =
     (let run = takeWhile (\<lambda>c. c \<noteq> CHR ''='') body;
          val = takeWhile is_dot (drop (Suc (length run)) body)
      in if run \<noteq> [] \<and> length run < length body \<and> CHR '']'' \<in> set val
         then Some (run, Some (before_last (CHR '']'') val))
         else if before_last (CHR '']'') run \<noteq> [] then Some (before_last (CHR '']'') run, None)
         else None)"

definition parse_entry :: "string \<Rightarrow> (string \<times> string option \<times> string option) option" where
  "parse_entry s =
     (let t = dropWhile (\<lambda>c. c = CHR ''['') s;
          tagname = takeWhile (\<lambda>c. c \<noteq> CHR ''['') t
      in if t = [] then None
         else case drop (length tagname) t of
                [] \<Rightarrow> Some (tagname, None, None)
              | _ # body \<Rightarrow> (case parse_bracket body of
                    None \<Rightarrow> Some (tagname, None, None)
                  | Some (a, v) \<Rightarrow> Some (tagname, Some a, v)))"

definition values_of :: "attr_values \<Rightarrow> string \<Rightarrow> string list" where
  "values_of attrs a = (case om_get attrs a of None \<Rightarrow> [] | Some vs \<Rightarrow> vs)"

definition attrs_of :: "attr_list \<Rightarrow> string \<Rightarrow> attr_values" where
  "attrs_of al tagname = (case om_get al tagname of None \<Rightarrow> [] | Some attrs \<Rightarrow> attrs)"

text \<open>An attribute without a value loses the values listed before: any value is fine.\<close>

definition entry_attrs :: "string list \<Rightarrow> string option \<Rightarrow> string option \<Rightarrow> attr_values \<Rightarrow> attr_values" where
  "entry_attrs classes a val attrs =
     (let attrs1 = (if classes = [] then attrs
                    else om_set ''class'' (values_of attrs ''class'' @ classes) attrs)
      in case a of
           None \<Rightarrow> attrs1
         | Some name \<Rightarrow>
             (case val of
                Some v \<Rightarrow> (if v \<noteq> [] then om_set name (values_of attrs1 name @ [v]) attrs1
                          else om_set name [''*''] attrs1)
              | None \<Rightarrow> om_set name [''*''] attrs1))"

definition list_entry :: "string \<Rightarrow> allow_list \<Rightarrow> allow_list" where
  "list_entry entry l =
     (let parts = js_split ''.'' entry
      in case parse_entry (hd parts) of
           None \<Rightarrow> l
         | Some (tagname, a, val) \<Rightarrow>
             \<lparr>tagList = om_set tagname [] (tagList l),
              attrList = om_set tagname (entry_attrs (tl parts) a val (attrs_of (attrList l) tagname))
                (attrList l)\<rparr>)"

section \<open>The cache\<close>

definition entries_of :: "feature_info \<Rightarrow> string list" where
  "entries_of info = (case info of CustomRule f \<Rightarrow> [] | OneEntry e \<Rightarrow> [e] | Entries es \<Rightarrow> es)"

definition is_enabled :: "allow_lister \<Rightarrow> string \<Rightarrow> bool" where
  "is_enabled a name \<longleftrightarrow> om_get (enabled a) name = Some True"

definition buildCache :: "allow_lister \<Rightarrow> custom_rule list \<times> allow_list" where
  "buildCache a =
     fold (\<lambda>(name, info) (customs, l).
        if \<not> is_enabled a name then (customs, l)
        else case info of
               CustomRule f \<Rightarrow> (customs @ [f], l)
             | _ \<Rightarrow> (customs, fold list_entry (entries_of info) l))
       (rawFeatures a) ([], \<lparr>tagList = [], attrList = []\<rparr>)"

definition ensureCache :: "allow_lister \<Rightarrow> allow_lister" where
  "ensureCache a = (if cache a = None then a\<lparr>cache := Some (buildCache a)\<rparr> else a)"

definition getAllowList :: "allow_lister \<Rightarrow> allow_list \<times> allow_lister" where
  "getAllowList a = (let a1 = ensureCache a in (snd (the (cache a1)), a1))"

definition getCustom :: "allow_lister \<Rightarrow> custom_rule list \<times> allow_lister" where
  "getCustom a = (let a1 = ensureCache a in (fst (the (cache a1)), a1))"

end
