(* ===== verification/Sanitizer.thy ===== *)
theory Sanitizer
  imports AllowList
begin

text \<open>
  \<open>frontend/pretty-text/addon/sanitizer.js\<close>: which attributes of which tags stay in a cooked
  post, and the cleaning of the text around the \<open>xss\<close> package.

  The \<open>xss\<close> package is not in the repository: it is the argument \<open>xss\<close> of \<open>sanitize\<close>, a function
  of the tags to keep, the callback for attributes and the text, and \<open>esc\<close> is its escaping of
  attribute values. The callback is the code's \<open>onIgnoreTagAttr\<close>; \<open>None\<close> is \<open>undefined\<close>. Patterns
  match characters up to \<open>U+00FF\<close>, letters without case where the code says so.

  The allowed schemes of the site settings are joined into a RegExp without escaping. The model
  reads them as such for the characters a scheme may have: letters, digits and \<open>-\<close> stand for
  themselves, \<open>.\<close> for any character of a line and \<open>+\<close> repeats what stands before it. Settings that
  are no RegExp (a scheme that begins with \<open>+\<close>) or use other operators are not modelled.
\<close>

definition attr :: "(string \<Rightarrow> string) \<Rightarrow> string \<Rightarrow> string option \<Rightarrow> string" where
  "attr esc name value = (case value of
      None \<Rightarrow> name
    | Some v \<Rightarrow> if v = [] then name else name @ ''=\"'' @ esc v @ ''\"'')"

section \<open>Links\<close>

definition starts_then :: "string \<Rightarrow> (char \<Rightarrow> bool) \<Rightarrow> string \<Rightarrow> bool" where
  "starts_then p cls s \<longleftrightarrow> prefix p (lower s) \<and>
     (case drop (length p) s of [] \<Rightarrow> False | c # _ \<Rightarrow> cls c)"

definition host_char :: "char \<Rightarrow> bool" where
  "host_char c \<longleftrightarrow> is_word c \<or> c = CHR ''.'' \<or> c = CHR ''-''"

definition scheme_hit :: "char \<Rightarrow> char \<Rightarrow> bool" where
  "scheme_hit c x \<longleftrightarrow>
     (if c = CHR ''.'' then x \<noteq> CHR 0x0A \<and> x \<noteq> CHR 0x0D else lower_char c = lower_char x)"

text \<open>What may be left of the text after one or more matches of a character, and after a scheme.\<close>

fun scheme_runs :: "char \<Rightarrow> string \<Rightarrow> string list" where
  "scheme_runs c [] = []"
| "scheme_runs c (x # xs) = (if scheme_hit c x then xs # scheme_runs c xs else [])"

fun scheme_rests :: "string \<Rightarrow> string \<Rightarrow> string list" where
  "scheme_rests [] t = [t]"
| "scheme_rests [c] t = (case t of [] \<Rightarrow> [] | x # xs \<Rightarrow> if scheme_hit c x then [xs] else [])"
| "scheme_rests (c # d # p) t =
     (if d = CHR ''+'' then concat (map (scheme_rests p) (scheme_runs c t))
      else case t of [] \<Rightarrow> [] | x # xs \<Rightarrow> if scheme_hit c x then scheme_rests (d # p) xs else [])"

definition extra_matchers :: "string list \<Rightarrow> (string \<Rightarrow> bool) list" where
  "extra_matchers schemes =
     (if schemes = [] then []
      else [\<lambda>h. \<exists>s \<in> set schemes. \<exists>t \<in> set (scheme_rests s h). starts_then ''://'' host_char t] @
        (if ''tel'' \<in> set schemes
         then [\<lambda>h. starts_then ''tel://'' host_char h \<or> starts_then ''tel://+'' host_char h] else []))"

definition hrefAllowed :: "(string \<Rightarrow> bool) list \<Rightarrow> string \<Rightarrow> string option" where
  "hrefAllowed matchers href0 =
     (let href = replace_all [CHR 0x27] ''%27'' href0
      in if starts_then ''//'' host_char href \<or> starts_then ''http://'' host_char href \<or>
            starts_then ''https://'' host_char href then Some href
         else if starts_then ''/'' host_char href then Some href
         else if starts_then ''#'' host_char href then Some href
         else if starts_then ''mailto:'' (\<lambda>c. host_char c \<or> c = CHR ''@'') href then Some href
         else if \<exists>m \<in> set matchers. m href then Some href
         else None)"

text \<open>
  \<open>sanitizeMediaSrc\<close>: the sources of images, sources and tracks. The result of \<open>hrefAllowed\<close> is
  not tested, so that a refused link leaves the bare attribute name.
\<close>

definition src_attrs :: "(string \<times> string list) list" where
  "src_attrs = [(''img'', [''src'']), (''source'', [''src'', ''srcset'']), (''track'', [''src''])]"

definition srcset_entry :: "(string \<Rightarrow> bool) list \<Rightarrow> string \<Rightarrow> string" where
  "srcset_entry matchers v =
     (let src = take 2 (js_split '' '' v)
      in case hrefAllowed matchers (hd src) of
           None \<Rightarrow> []
         | Some allowed \<Rightarrow> (case tl src of
               d # _ \<Rightarrow> if d \<noteq> [] then allowed @ '' '' @ d else allowed
             | [] \<Rightarrow> allowed))"

definition sanitizeMediaSrc ::
    "(string \<Rightarrow> string) \<Rightarrow> (string \<Rightarrow> bool) list \<Rightarrow> string \<Rightarrow> string \<Rightarrow> string \<Rightarrow> string option" where
  "sanitizeMediaSrc esc matchers tag attrName value =
     (if attrName \<notin> set (case om_get src_attrs tag of None \<Rightarrow> [] | Some as \<Rightarrow> as) then None
      else if prefix ''data:image'' value then Some (attr esc attrName (Some value))
      else if attrName = ''srcset''
      then Some (attr esc attrName
             (Some (join '','' (map (srcset_entry matchers) (js_split '','' value)))))
      else Some (attr esc attrName (hrefAllowed matchers value)))"

section \<open>Attributes\<close>

definition data_key_matches :: "string \<Rightarrow> string \<Rightarrow> bool" where
  "data_key_matches k name =
     (if k \<noteq> [] \<and> last k = CHR ''*''
      then prefix (butlast k) name \<and>
        (case drop (length k - 1) name of [] \<Rightarrow> False | c # _ \<Rightarrow> is_word c)
      else prefix k name)"

definition testDataAttribute :: "attr_values \<Rightarrow> string \<Rightarrow> string \<Rightarrow> bool" where
  "testDataAttribute forTag name value =
     list_ex (\<lambda>(k, validValues). data_key_matches k name \<and>
        (''*'' \<in> set validValues \<or> value \<in> set validValues)) forTag"

text \<open>
  The address of a frame: the allowed patterns are prefixes in which \<open>*\<close> stands for one or more
  characters other than a slash; the rest of the address is on the same line.
\<close>

fun glob :: "string \<Rightarrow> string \<Rightarrow> bool" and glob_star :: "string \<Rightarrow> string \<Rightarrow> bool" where
  "glob [] v = list_all is_dot v"
| "glob (p # ps) v =
     (if p = CHR ''*'' then glob_star ps v
      else case v of [] \<Rightarrow> False | c # cs \<Rightarrow> lower_char c = lower_char p \<and> glob ps cs)"
| "glob_star ps [] = False"
| "glob_star ps (c # cs) = (c \<noteq> CHR ''/'' \<and> (glob ps cs \<or> glob_star ps cs))"

fun has_dot_segment :: "string \<Rightarrow> bool" where
  "has_dot_segment [] = False"
| "has_dot_segment (c # cs) =
     (c = CHR ''/'' \<and> prefix ''.'' cs \<and> prefix ''/'' (dropWhile (\<lambda>d. d = CHR ''.'') cs) \<or>
      has_dot_segment cs)"

text \<open>
  A name of \<open>Object.prototype\<close> that the list of a tag does not have itself reads as something
  truthy without \<open>includes\<close>.
\<close>

definition object_prototype :: "string list" where
  "object_prototype =
     [''constructor'', ''__defineGetter__'', ''__defineSetter__'', ''hasOwnProperty'',
      ''__lookupGetter__'', ''__lookupSetter__'', ''isPrototypeOf'', ''propertyIsEnumerable'',
      ''toString'', ''valueOf'', ''__proto__'', ''toLocaleString'']"

definition listed_attr ::
    "(string \<Rightarrow> bool) list \<Rightarrow> string list \<Rightarrow> attr_values \<Rightarrow> string \<Rightarrow> string \<Rightarrow> string \<Rightarrow> bool" where
  "listed_attr matchers iframes forTag tag name value \<longleftrightarrow>
     (case om_get forTag name of
        None \<Rightarrow> False | Some vs \<Rightarrow> ''*'' \<in> set vs \<or> value \<in> set vs) \<or>
     (\<not> contains ''data-html-'' name \<and> prefix ''data-'' name \<and>
       (om_get forTag ''data-*'' \<noteq> None \<or> testDataAttribute forTag name value)) \<or>
     (tag = ''a'' \<and> name = ''href'' \<and> hrefAllowed matchers value \<noteq> None) \<or>
     (tag = ''iframe'' \<and> name = ''src'' \<and> \<not> has_dot_segment value \<and>
       list_ex (\<lambda>p. glob p value) iframes)"

definition heading_value :: "string \<Rightarrow> bool" where
  "heading_value v \<longleftrightarrow> prefix ''heading--'' v \<and> length v > 9 \<and>
     list_all (\<lambda>c. is_word c \<or> c = CHR ''-'') (drop 9 v)"

definition heading_tags :: "string list" where
  "heading_tags = [''h1'', ''h2'', ''h3'', ''h4'', ''h5'', ''h6'']"

definition keep_attr ::
    "(string \<Rightarrow> string) \<Rightarrow> custom_rule list \<Rightarrow> (string \<Rightarrow> bool) list \<Rightarrow> string list \<Rightarrow> attr_values \<Rightarrow>
     string \<Rightarrow> string \<Rightarrow> string \<Rightarrow> string option" where
  "keep_attr esc customs matchers iframes forTag tag name value =
     (if listed_attr matchers iframes forTag tag name value then Some (attr esc name (Some value))
      else case sanitizeMediaSrc esc matchers tag name value of
          Some out \<Rightarrow> Some out
        | None \<Rightarrow>
            if tag = ''iframe'' \<and> name = ''src'' then Some []
            else if tag = ''video'' \<and> name = ''autoplay'' then Some ''autoplay muted''
            else if tag \<in> set heading_tags \<and> heading_value value
            then Some (attr esc name (Some value))
            else if list_ex (\<lambda>f. f tag name value) customs then Some (attr esc name (Some value))
            else None)"

definition onIgnoreTagAttr ::
    "(string \<Rightarrow> string) \<Rightarrow> allow_list \<Rightarrow> custom_rule list \<Rightarrow> (string \<Rightarrow> bool) list \<Rightarrow> string list \<Rightarrow>
     string \<Rightarrow> string \<Rightarrow> string \<Rightarrow> string option result" where
  "onIgnoreTagAttr esc l customs matchers iframes tag name value =
     (case om_get (attrList l) tag of
        None \<Rightarrow> Inr None
      | Some forTag \<Rightarrow>
          if om_get forTag name = None \<and> name \<in> set object_prototype
          then Inl (TypeError ''forAttr.includes is not a function'')
          else Inr (keep_attr esc customs matchers iframes forTag tag name value))"

section \<open>The text around the tags\<close>

text \<open>\<open><([^A-Za-z/!]|$)\<close>: the match takes the following character with it.\<close>

fun escape_lt :: "string \<Rightarrow> string" where
  "escape_lt [] = []"
| "escape_lt [c] = (if c = CHR ''<'' then ''&lt;'' else [c])"
| "escape_lt (c # d # ds) =
     (if c = CHR ''<'' \<and> \<not> is_alpha d \<and> d \<noteq> CHR ''/'' \<and> d \<noteq> CHR ''!''
      then ''&lt;'' @ d # escape_lt ds
      else c # escape_lt (d # ds))"

text \<open>
  \<open>IFRAME_REGEXP\<close>: a frame whose tag has no \<open>src\<close> goes, with everything up to its end tag or
  to the end of the text.
\<close>

definition src_here :: "string \<Rightarrow> bool" where
  "src_here s \<longleftrightarrow> (case s of
      [] \<Rightarrow> False
    | c # _ \<Rightarrow> js_space c \<and>
        (let t = dropWhile js_space s
         in prefix ''src'' (lower t) \<and> prefix ''='' (dropWhile js_space (drop 3 t))))"

fun has_src :: "string \<Rightarrow> bool" where
  "has_src [] = False"
| "has_src (c # cs) = (src_here (c # cs) \<or> has_src cs)"

text \<open>What follows the first end tag of a frame; nothing when there is none.\<close>

fun after_iframe_end :: "string \<Rightarrow> string" where
  "after_iframe_end [] = []"
| "after_iframe_end (c # cs) =
     (let rest = dropWhile js_space (drop 8 (c # cs))
      in if prefix ''</iframe'' (lower (c # cs)) \<and> prefix ''>'' rest then tl rest
         else after_iframe_end cs)"

lemma after_iframe_end_length: "length (after_iframe_end s) \<le> length s"
proof (induction s)
  case (Cons c cs)
  have "length (tl (dropWhile js_space (drop 8 (c # cs)))) \<le> length (drop 8 (c # cs))"
    using length_dropWhile_le [of js_space "drop 8 (c # cs)"] by (simp only: length_tl)
  then show ?case using Cons by (auto simp: Let_def)
qed simp

function remove_iframes :: "string \<Rightarrow> string" where
  "remove_iframes [] = []"
| "remove_iframes (c # cs) =
     (let tagtext = takeWhile (\<lambda>d. d \<noteq> CHR ''>'') (drop 7 (c # cs));
          rest = drop (7 + length tagtext) (c # cs)
      in if prefix ''<iframe'' (lower (c # cs)) \<and> \<not> has_src tagtext \<and> rest \<noteq> []
         then remove_iframes (after_iframe_end (tl rest))
         else c # remove_iframes cs)"
  by pat_completeness auto
termination
proof (relation "measure length", goal_cases)
  case (2 c cs tagtext rest)
  have "length (after_iframe_end (tl rest)) \<le> length (tl rest)"
    by (rule after_iframe_end_length)
  also have "length (tl rest) < length (c # cs)"
    using 2 by simp
  finally show ?case by simp
qed simp_all

fun escape_amp :: "string \<Rightarrow> string" where
  "escape_amp [] = []"
| "escape_amp (c # cs) =
     (let run = takeWhile (\<lambda>d. d = CHR ''#'' \<or> is_word d) cs
      in if c = CHR ''&'' \<and> (run = [] \<or> \<not> prefix '';'' (drop (length run) cs))
         then ''&amp;'' @ escape_amp cs else c # escape_amp cs)"

definition clean_result :: "string \<Rightarrow> string" where
  "clean_result r =
     replace_all '' />'' ''>''
       (replace_all ''&#39;'' [CHR 0x27]
         (escape_amp (remove_iframes (replace_all ''[removed]'' [] r))))"

type_synonym xss_function =
  "(string, string list) omap \<Rightarrow> (string \<Rightarrow> string \<Rightarrow> string \<Rightarrow> string option result) \<Rightarrow> string \<Rightarrow> string result"

definition sanitize ::
    "(string \<Rightarrow> string) \<Rightarrow> xss_function \<Rightarrow> string \<Rightarrow> allow_lister \<Rightarrow> string result \<times> allow_lister" where
  "sanitize esc xss text a =
     (if text = [] then (Inr [], a)
      else
        let (l, a1) = getAllowList a;
            matchers = extra_matchers (allowedHrefSchemes a1);
            call = onIgnoreTagAttr esc l (fst (getCustom a1)) matchers (allowedIframes a1)
        in (bind_result (xss (tagList l) call (escape_lt text)) (\<lambda>r. Inr (clean_result r)), a1))"

end
