(* ===== verification/SanitizerProofs.thy ===== *)
theory SanitizerProofs
  imports Sanitizer
begin

text \<open>
  What the allow list admits and what the sanitizer lets through.
\<close>

section \<open>The allow list\<close>

text \<open>The tag and the attributes that one entry lists.\<close>

definition lists_attr :: "string \<Rightarrow> string \<Rightarrow> string \<Rightarrow> bool" where
  "lists_attr entry tag name \<longleftrightarrow>
     (case parse_entry (hd (js_split ''.'' entry)) of
        None \<Rightarrow> False
      | Some (t, a, v) \<Rightarrow> t = tag \<and>
          (a = Some name \<or> name = ''class'' \<and> tl (js_split ''.'' entry) \<noteq> []))"

definition listed_tag :: "string \<Rightarrow> string option" where
  "listed_tag entry = map_option fst (parse_entry (hd (js_split ''.'' entry)))"

definition has_attr :: "allow_list \<Rightarrow> string \<Rightarrow> string \<Rightarrow> bool" where
  "has_attr l tag name \<longleftrightarrow> om_get (attrs_of (attrList l) tag) name \<noteq> None"

definition has_tag :: "allow_list \<Rightarrow> string \<Rightarrow> bool" where
  "has_tag l tag \<longleftrightarrow> om_get (attrList l) tag \<noteq> None"

lemma entry_attrs_get:
  "om_get (entry_attrs classes a v attrs) name \<noteq> None \<longleftrightarrow>
     om_get attrs name \<noteq> None \<or> a = Some name \<or> classes \<noteq> [] \<and> name = ''class''"
  by (auto simp: entry_attrs_def Let_def split: option.splits if_splits)

lemma attrs_of_set [simp]: "attrs_of (om_set t as al) tag = (if tag = t then as else attrs_of al tag)"
  by (simp add: attrs_of_def)

lemma has_attr_entry: "has_attr (list_entry e l) tag name \<longleftrightarrow> has_attr l tag name \<or> lists_attr e tag name"
  using entry_attrs_get
  by (auto simp: has_attr_def lists_attr_def list_entry_def Let_def split: option.splits)

lemma has_tag_entry: "has_tag (list_entry e l) tag \<longleftrightarrow> has_tag l tag \<or> listed_tag e = Some tag"
  by (cases "parse_entry (hd (js_split ''.'' e))")
    (auto simp: has_tag_def listed_tag_def list_entry_def Let_def)

lemma has_attr_entries:
  "has_attr (fold list_entry es l) tag name \<longleftrightarrow> has_attr l tag name \<or> (\<exists>e \<in> set es. lists_attr e tag name)"
  by (induction es arbitrary: l) (auto simp: has_attr_entry)

lemma has_tag_entries:
  "has_tag (fold list_entry es l) tag \<longleftrightarrow> has_tag l tag \<or> (\<exists>e \<in> set es. listed_tag e = Some tag)"
  by (induction es arbitrary: l) (auto simp: has_tag_entry)

text \<open>The entries of the enabled features.\<close>

definition all_entries :: "allow_lister \<Rightarrow> string list" where
  "all_entries a = concat (map (\<lambda>(name, info). if is_enabled a name then entries_of info else []) (rawFeatures a))"

lemma build_fold:
  "snd (fold (\<lambda>(name, info) (customs, l).
        if \<not> is_enabled a name then (customs, l)
        else case info of
               CustomRule f \<Rightarrow> (customs @ [f], l)
             | _ \<Rightarrow> (customs, fold list_entry (entries_of info) l)) fs (cs, l))
   = fold list_entry (concat (map (\<lambda>(name, info). if is_enabled a name then entries_of info else []) fs)) l"
  by (induction fs arbitrary: cs l) (auto simp: entries_of_def split: feature_info.splits)

lemma buildCache_entries:
  "snd (buildCache a) = fold list_entry (all_entries a) \<lparr>tagList = [], attrList = []\<rparr>"
  unfolding buildCache_def all_entries_def by (rule build_fold)

lemma no_list [simp]:
  "\<not> has_tag \<lparr>tagList = [], attrList = []\<rparr> tag" "\<not> has_attr \<lparr>tagList = [], attrList = []\<rparr> tag name"
  by (simp_all add: has_tag_def has_attr_def attrs_of_def)

lemma allow_list_has:
  assumes "cache a = None"
  shows "(has_tag (fst (getAllowList a)) tag \<longleftrightarrow> (\<exists>e \<in> set (all_entries a). listed_tag e = Some tag)) \<and>
    (has_attr (fst (getAllowList a)) tag name \<longleftrightarrow> (\<exists>e \<in> set (all_entries a). lists_attr e tag name))"
  using assms
  by (simp add: getAllowList_def ensureCache_def Let_def buildCache_entries has_tag_entries has_attr_entries)

text \<open>
  The list is what the enabled features ask for: a tag is kept exactly when one of their entries
  names it, and an attribute of a tag is listed exactly when one of their entries lists it.
\<close>

theorem allow_list_spec:
  assumes "cache a = None"
  shows "(has_tag (fst (getAllowList a)) tag \<longleftrightarrow> (\<exists>e \<in> set (all_entries a). listed_tag e = Some tag)) \<and>
    (has_attr (fst (getAllowList a)) tag name \<longleftrightarrow> (\<exists>e \<in> set (all_entries a). lists_attr e tag name))"
  by (rule allow_list_has [OF assms])

section \<open>Links\<close>

text \<open>
  The scheme of an address: what stands before a colon that comes before any slash, question mark
  or hash sign.
\<close>

definition scheme_end :: "char \<Rightarrow> bool" where
  "scheme_end c \<longleftrightarrow> c = CHR '':'' \<or> c = CHR ''/'' \<or> c = CHR ''?'' \<or> c = CHR ''#''"

definition scheme_of :: "string \<Rightarrow> string option" where
  "scheme_of s =
     (let p = takeWhile (\<lambda>c. \<not> scheme_end c) s
      in if prefix '':'' (drop (length p) s) then Some (lower p) else None)"

text \<open>
  The schemes that the RegExp of the code reads literally: letters, digits and hyphens. In a scheme
  with \<open>.\<close> or \<open>+\<close>, which are allowed in a scheme too, these are operators, see \<open>plus_scheme_missed\<close>
  and \<open>dot_scheme_widened\<close>.
\<close>

definition scheme_char :: "char \<Rightarrow> bool" where
  "scheme_char c \<longleftrightarrow> is_alpha c \<or> is_num c \<or> c = CHR ''-''"

definition plain_scheme :: "string \<Rightarrow> bool" where
  "plain_scheme s \<longleftrightarrow> list_all scheme_char s"

lemma scheme_char_plain:
  assumes "scheme_char c"
  shows "\<not> scheme_end c" "c \<noteq> CHR ''%''" "c \<noteq> CHR ''+''" "c \<noteq> CHR ''.''"
proof -
  have "\<not> scheme_char CHR '':''" "\<not> scheme_char CHR ''/''" "\<not> scheme_char CHR ''?''" "\<not> scheme_char CHR ''#''"
    "\<not> scheme_char CHR ''%''" "\<not> scheme_char CHR ''+''" "\<not> scheme_char CHR ''.''"
    by code_simp+
  then show "\<not> scheme_end c" "c \<noteq> CHR ''%''" "c \<noteq> CHR ''+''" "c \<noteq> CHR ''.''"
    using assms by (auto simp: scheme_end_def)
qed

lemma plain_schemeD:
  "plain_scheme s \<Longrightarrow> c \<in> set s \<Longrightarrow> \<not> scheme_end c"
  "plain_scheme s \<Longrightarrow> CHR ''%'' \<notin> set s"
  using scheme_char_plain by (auto simp: plain_scheme_def list_all_iff)

lemma plain_scheme_rests:
  "plain_scheme s \<Longrightarrow> scheme_rests s h = (if prefix (lower s) (lower h) then [drop (length s) h] else [])"
proof (induction s h rule: scheme_rests.induct)
  case (2 c t)
  then show ?case
    using scheme_char_plain(4) [of c]
    by (cases t) (auto simp: plain_scheme_def scheme_hit_def lower_Cons)
next
  case (3 c d p t)
  then have c: "c \<noteq> CHR ''.''" "d \<noteq> CHR ''+''" and p: "plain_scheme (d # p)"
    using scheme_char_plain [of c] scheme_char_plain [of d] by (auto simp: plain_scheme_def)
  show ?case
  proof (cases t)
    case (Cons x xs)
    then show ?thesis using 3(2) [OF c(2) Cons _ p] c by (simp add: scheme_hit_def lower_Cons)
  qed (use c in \<open>simp add: lower_def\<close>)
qed (simp add: lower_def)

lemma plain_rest_starts:
  assumes "plain_scheme s" and "t \<in> set (scheme_rests s h)" and "starts_then r cls t"
  shows "starts_then (lower s @ r) cls h"
proof -
  have pre: "prefix (lower s) (lower h)" and t: "t = drop (length s) h"
    using assms(2) plain_scheme_rests [OF assms(1), of h] by (auto split: if_splits)
  have len: "length (lower s) = length s" by (simp add: lower_def)
  obtain u where u: "lower h = lower s @ u" using pre by (auto simp: prefix_def)
  then have "u = lower t" using t len by (metis append_eq_conv_conj drop_map lower_def)
  then show ?thesis
    using assms(3) u len t by (simp add: starts_then_def add.commute)
qed

lemma lower_char_end [simp]: "scheme_end (lower_char c) = scheme_end c"
proof -
  have "\<not> is_alpha CHR '':''" "\<not> is_alpha CHR ''/''" "\<not> is_alpha CHR ''?''" "\<not> is_alpha CHR ''#''"
    by code_simp+
  then show ?thesis by (simp add: scheme_end_def lower_char_nonalpha)
qed

lemma plain_lower: "plain_scheme s \<Longrightarrow> plain_scheme (lower s)"
proof -
  have "scheme_char (lower_char c)" if "scheme_char c" for c
    using that lower_char_upper [of c] by (auto simp: scheme_char_def is_alpha_def lower_char_def)
  then show "plain_scheme s \<Longrightarrow> plain_scheme (lower s)" by (auto simp: plain_scheme_def lower_def list_all_iff)
qed

text \<open>Replacing apostrophes does not change a beginning that has no percent sign.\<close>

lemma replace_quote_prefix:
  "prefix p (lower (replace_all [CHR 0x27] ''%27'' s)) \<Longrightarrow> CHR ''%'' \<notin> set p \<Longrightarrow> prefix p (lower s)"
proof (induction p arbitrary: s)
  case (Cons d p)
  then obtain c cs where s: "s = c # cs" by (cases s) auto
  have "lower_char CHR ''%'' = CHR ''%''" by code_simp
  then have "c \<noteq> CHR 0x27" using Cons.prems s by (auto simp: lower_Cons)
  then show ?case using Cons s by (auto simp: lower_Cons)
qed simp

lemma starts_then_quote:
  assumes "starts_then p cls (replace_all [CHR 0x27] ''%27'' s)" and "CHR ''%'' \<notin> set p"
  shows "prefix p (lower s)"
  using assms replace_quote_prefix by (simp add: starts_then_def)

lemma scheme_of_colon:
  assumes "prefix (p @ '':'') (lower s)" and "plain_scheme p"
  shows "scheme_of s = Some p"
proof -
  obtain a b where s: "s = a @ b" "lower a = p @ '':''" using prefix_lower [OF assms(1)] by blast
  then obtain a1 c where a: "a = a1 @ [c]" "lower a1 = p" "lower_char c = CHR '':''"
    by (cases a rule: rev_cases) (auto simp: lower_def)
  have "\<not> is_alpha CHR '':''" by code_simp
  then have c: "c = CHR '':''" using a(3) lower_char_nonalpha by blast
  have "\<not> scheme_end d" if "d \<in> set a1" for d
    using that plain_schemeD(1) [OF assms(2), of "lower_char d"] a(2) by (force simp: lower_def)
  then have "takeWhile (\<lambda>c. \<not> scheme_end c) s = a1"
    using s(1) a(1) c by (simp add: takeWhile_append2 scheme_end_def [of "CHR '':''"])
  then show ?thesis using s(1) a c by (simp add: scheme_of_def Let_def)
qed

lemma scheme_of_slash:
  assumes "prefix [d] (lower s)" and "d = CHR ''/'' \<or> d = CHR ''#''"
  shows "scheme_of s = None"
proof -
  have "\<not> is_alpha CHR ''/''" "\<not> is_alpha CHR ''#''" by code_simp+
  moreover obtain c cs where s: "s = c # cs" "lower_char c = d"
    using assms(1) by (cases s) (auto simp: lower_Cons)
  ultimately have "\<not> is_alpha d" using assms(2) by auto
  then have "c = d" using lower_char_nonalpha [of d c] s(2) by simp
  then have "s = d # cs" using s(1) by simp
  then show ?thesis using assms(2) by (auto simp: scheme_of_def scheme_end_def)
qed

definition safe_schemes :: "string list \<Rightarrow> string set" where
  "safe_schemes schemes = {''http'', ''https'', ''mailto''} \<union> set (map lower schemes)"

lemma hrefAllowed_scheme:
  assumes "hrefAllowed (extra_matchers schemes) href \<noteq> None"
    and "\<forall>s \<in> set schemes. plain_scheme s"
    and "scheme_of href = Some sc"
  shows "sc \<in> safe_schemes schemes"
proof -
  let ?h = "replace_all [CHR 0x27] ''%27'' href"
  have sc: "sc = p" if "prefix (p @ '':'') (lower href)" "plain_scheme p" for p
    using scheme_of_colon [OF that] assms(3) by simp
  have none: "\<not> prefix ''/'' (lower href)" "\<not> prefix ''#'' (lower href)"
    using scheme_of_slash assms(3) by (metis option.distinct(1))+
  have plain: "plain_scheme ''http''" "plain_scheme ''https''" "plain_scheme ''mailto''" "plain_scheme ''tel''"
    by code_simp+
  have known: "sc = p" if "starts_then (p @ '':'' @ r) cls ?h" "plain_scheme p" "CHR ''%'' \<notin> set r" for p r cls
  proof -
    have "CHR ''%'' \<notin> set p" using plain_schemeD(2) [OF that(2)] .
    then have "prefix (p @ '':'' @ r) (lower href)"
      using starts_then_quote [OF that(1)] that(3) by auto
    then have "prefix (p @ '':'') (lower href)" by (metis append.assoc append_prefixD)
    then show ?thesis using sc that(2) by blast
  qed
  have slash: "\<not> starts_then ''//'' cls ?h" "\<not> starts_then ''/'' cls ?h" "\<not> starts_then ''#'' cls ?h" for cls
    using none starts_then_quote [of "''//''" cls href] starts_then_quote [of "''/''" cls href]
      starts_then_quote [of "''#''" cls href] by (auto simp: prefix_def)
  consider (http) cls where "starts_then (''http'' @ '':'' @ ''//'') cls ?h"
    | (https) cls where "starts_then (''https'' @ '':'' @ ''//'') cls ?h"
    | (mailto) cls where "starts_then (''mailto'' @ '':'' @ []) cls ?h"
    | (extra) m where "m \<in> set (extra_matchers schemes)" "m ?h"
    using assms(1) slash by (auto simp: hrefAllowed_def Let_def split: if_splits)
  then show ?thesis
  proof cases
    case extra
    then consider s cls where "s \<in> set schemes" "starts_then (lower s @ '':'' @ ''//'') cls ?h"
      | cls where "''tel'' \<in> set schemes" "starts_then (''tel'' @ '':'' @ ''//'') cls ?h"
      | cls where "''tel'' \<in> set schemes" "starts_then (''tel'' @ '':'' @ ''//+'') cls ?h"
      using plain_rest_starts assms(2) by (fastforce simp: extra_matchers_def split: if_splits)
    then show ?thesis
    proof cases
      case 1
      then have "sc = lower s" using known [OF 1(2)] assms(2) plain_lower by auto
      then show ?thesis using 1(1) by (simp add: safe_schemes_def)
    next
      case 2
      then have "sc = lower ''tel''" using known [OF 2(2) plain(4)] by (simp add: lower_def lower_char_def is_upper_def)
      then show ?thesis using 2(1) by (simp add: safe_schemes_def)
    next
      case 3
      then have "sc = lower ''tel''" using known [OF 3(2) plain(4)] by (simp add: lower_def lower_char_def is_upper_def)
      then show ?thesis using 3(1) by (simp add: safe_schemes_def)
    qed
  qed (use known plain in \<open>auto simp: safe_schemes_def\<close>)
qed

text \<open>
  The RegExp operators in schemes: an allowed scheme with a plus sign is refused, and one with a dot
  admits other schemes.
\<close>

lemma plus_scheme_missed:
  "hrefAllowed (extra_matchers [''git+ssh'']) ''git+ssh://host'' = None"
  "hrefAllowed (extra_matchers [''git+ssh'']) ''gitssh://host'' = Some ''gitssh://host''"
  by code_simp+

lemma dot_scheme_widened:
  "hrefAllowed (extra_matchers [''ms.app'']) ''ms:app://host'' = Some ''ms:app://host''"
  "scheme_of ''ms:app://host'' = Some ''ms''"
  by code_simp+

section \<open>What the callback lets through\<close>

lemma kept_attrD:
  assumes "onIgnoreTagAttr esc l customs matchers iframes tag name value = Inr (Some out)"
  shows "\<exists>forTag. keep_attr esc customs matchers iframes forTag tag name value = Some out \<and>
    om_get forTag name = om_get (attrs_of (attrList l) tag) name \<and>
    (om_get forTag name \<noteq> None \<longleftrightarrow> has_attr l tag name)"
  using assms by (auto simp: onIgnoreTagAttr_def has_attr_def attrs_of_def split: option.splits if_splits)

lemma attrs_of_Some: "om_get al tag = Some as \<Longrightarrow> attrs_of al tag = as"
  by (simp add: attrs_of_def)

lemma media_none:
  "sanitizeMediaSrc esc matchers tag name value = None \<longleftrightarrow>
     name \<notin> set (case om_get src_attrs tag of None \<Rightarrow> [] | Some as \<Rightarrow> as)"
  by (auto simp: sanitizeMediaSrc_def)

lemma media_names: "sanitizeMediaSrc esc matchers tag name value \<noteq> None \<Longrightarrow> name = ''src'' \<or> name = ''srcset''"
  by (auto simp: media_none src_attrs_def split: if_splits)

text \<open>
  C8. A link stays in a post only with a safe address: unless the list of the site or a rule of a
  plugin admits it, the scheme of the address, if it has one, is \<open>http\<close>, \<open>https\<close>, \<open>mailto\<close> or one
  of the allowed schemes, and the address is the one the author wrote. This is for settings whose
  schemes consist of letters, digits and hyphens (\<open>plain_scheme\<close>): the code reads the others as
  regular expressions.
\<close>

theorem kept_href_safe:
  assumes "onIgnoreTagAttr esc l customs (extra_matchers schemes) iframes ''a'' ''href'' value = Inr (Some out)"
    and "\<not> has_attr l ''a'' ''href''" and "\<forall>f \<in> set customs. \<not> f ''a'' ''href'' value"
    and "\<forall>s \<in> set schemes. plain_scheme s"
  shows "out = attr esc ''href'' (Some value) \<and>
    (\<forall>sc. scheme_of value = Some sc \<longrightarrow> sc \<in> safe_schemes schemes)"
proof -
  obtain forTag where kept: "keep_attr esc customs (extra_matchers schemes) iframes forTag ''a'' ''href'' value = Some out"
    and none: "om_get forTag ''href'' = None"
    using kept_attrD [OF assms(1)] assms(2) by blast
  have custom: "\<not> list_ex (\<lambda>f. f ''a'' ''href'' value) customs"
    using assms(3) by (simp add: list_ex_iff)
  have media: "sanitizeMediaSrc esc (extra_matchers schemes) ''a'' ''href'' value = None"
    using media_names by fastforce
  have "hrefAllowed (extra_matchers schemes) value \<noteq> None \<and> out = attr esc ''href'' (Some value)"
    using kept none custom media
    by (auto simp: keep_attr_def listed_attr_def heading_tags_def split: if_splits)
  then show ?thesis using hrefAllowed_scheme [OF _ assms(4)] by blast
qed

text \<open>An attribute that nothing lists stays only on a heading, with a heading value.\<close>

lemma unlisted_dropped:
  assumes "onIgnoreTagAttr esc l [] matchers iframes tag name value = Inr (Some out)"
    and "\<not> has_attr l tag name" and "\<not> prefix ''data-'' name"
    and "name \<noteq> ''href'' \<and> name \<noteq> ''src'' \<and> name \<noteq> ''srcset'' \<and> name \<noteq> ''autoplay''"
  shows "tag \<in> set heading_tags \<and> heading_value value \<and> out = attr esc name (Some value)"
proof -
  obtain forTag where kept: "keep_attr esc [] matchers iframes forTag tag name value = Some out"
    and "om_get forTag name = None"
    using kept_attrD [OF assms(1)] assms(2) by blast
  then have listed: "\<not> listed_attr matchers iframes forTag tag name value"
    using assms(3,4) by (simp only: listed_attr_def option.simps simp_thms)
  have media: "sanitizeMediaSrc esc matchers tag name value = None"
    using media_names assms(4) by blast
  have "(if tag \<in> set heading_tags \<and> heading_value value then Some (attr esc name (Some value)) else None)
      = Some out"
    using kept assms(4) listed media
    by (simp only: keep_attr_def option.simps simp_thms if_False list_ex_iff list.set ball_simps bex_simps)
  then show ?thesis by (simp only: split: if_splits) simp_all
qed

lemma default_entries: "all_entries (new_allow_lister options) = DEFAULT_LIST"
proof -
  have "om_get (fold (\<lambda>(f, on) e. if on then om_set f True e else e) fs e) k = Some True"
    if "om_get e k = Some True" for fs :: "(string \<times> bool) list" and e k
    using that by (induction fs arbitrary: e) auto
  then show ?thesis
    by (simp add: all_entries_def new_allow_lister_def is_enabled_def entries_of_def)
qed

text \<open>Event handlers, styles and the link attributes that the sanitizer checks itself are not listed.\<close>

definition checked_name :: "string \<Rightarrow> bool" where
  "checked_name name \<longleftrightarrow> prefix ''on'' name \<or> name = ''style'' \<or> name = ''href'' \<or> name = ''srcset''"

lemma default_names:
  assumes "checked_name name"
  shows "\<not> (\<exists>e \<in> set DEFAULT_LIST. lists_attr e tag name)"
proof -
  have "list_all (\<lambda>e. case parse_entry (hd (js_split ''.'' e)) of
      Some (t, Some n, v) \<Rightarrow> \<not> checked_name n | _ \<Rightarrow> True) DEFAULT_LIST"
    by code_simp
  moreover have "\<not> checked_name ''class''" by code_simp
  ultimately show ?thesis
    using assms by (force simp: lists_attr_def list_all_iff split: option.splits)
qed

text \<open>
  C27. With the default list no event handler and no style survives, on any tag and with any value:
  the one exception are heading tags, whose attributes of every name survive when the value has
  the form of a heading id.
\<close>

theorem default_no_handlers:
  assumes "onIgnoreTagAttr esc (fst (getAllowList (new_allow_lister options))) [] matchers iframes tag name value
      = Inr (Some out)"
    and "prefix ''on'' name \<or> name = ''style''"
  shows "tag \<in> set heading_tags \<and> heading_value value \<and>
    out = attr esc name (Some value)"
proof -
  have "cache (new_allow_lister options) = None"
    by (simp add: new_allow_lister_def)
  moreover have "checked_name name" using assms(2) by (auto simp only: checked_name_def)
  ultimately have "\<not> has_attr (fst (getAllowList (new_allow_lister options))) tag name"
    using allow_list_has [of "new_allow_lister options" tag name] default_names [of name tag]
    unfolding default_entries by blast
  moreover have "\<not> prefix ''data-'' name"
    "name \<noteq> ''href'' \<and> name \<noteq> ''src'' \<and> name \<noteq> ''srcset'' \<and> name \<noteq> ''autoplay''"
    using assms(2) by (auto simp: prefix_def)
  ultimately show ?thesis by (rule unlisted_dropped [OF assms(1)])
qed

text \<open>
  The callback throws exactly for an attribute of a listed tag that has the name of a property of
  \<open>Object.prototype\<close> and is not listed itself, such as \<open>constructor\<close>.
\<close>

theorem callback_throws:
  "onIgnoreTagAttr esc l customs matchers iframes tag name value = Inl e \<longleftrightarrow>
     has_tag l tag \<and> \<not> has_attr l tag name \<and> name \<in> set object_prototype \<and>
     e = TypeError ''forAttr.includes is not a function''"
  by (auto simp: onIgnoreTagAttr_def has_tag_def has_attr_def attrs_of_def split: option.splits)

text \<open>
  A feature that is added after the list was read is not in the list until some feature is
  switched on or off: \<open>allowListFeature\<close> leaves the cache as it is.
\<close>

theorem late_feature_waits:
  assumes "e \<in> set (entries_of info)" and "listed_tag e = Some tag"
  shows "fst (getAllowList (allowListFeature feature info (snd (getAllowList a)))) = fst (getAllowList a) \<and>
    has_tag (fst (getAllowList (enable feature (allowListFeature feature info (snd (getAllowList a)))))) tag"
proof -
  let ?b = "enable feature (allowListFeature feature info (snd (getAllowList a)))"
  have "cache ?b = None" by (simp add: enable_def)
  moreover have "e \<in> set (all_entries ?b)"
    using assms(1) by (simp add: all_entries_def is_enabled_def enable_def allowListFeature_def)
  ultimately have "has_tag (fst (getAllowList ?b)) tag"
    using assms(2) allow_list_has [of ?b tag] by blast
  then show ?thesis
    by (simp add: getAllowList_def ensureCache_def allowListFeature_def Let_def)
qed

lemma rests_empty: "t \<in> set (scheme_rests s []) \<Longrightarrow> t = []"
  by (cases "(s, [] :: string)" rule: scheme_rests.cases) (auto split: if_splits)

lemma href_empty: "extra_matchers schemes = ms \<Longrightarrow> hrefAllowed ms [] = None"
  by (auto dest!: rests_empty simp: hrefAllowed_def extra_matchers_def starts_then_def split: if_splits)

text \<open>
  In a \<open>srcset\<close> whose candidates are separated by a comma and a space, only the first candidate
  stays: the second one begins with the space, so that its address reads as the empty string.
\<close>

theorem srcset_drops:
  assumes "CHR '','' \<notin> set a" and "CHR '','' \<notin> set b"
  shows "sanitizeMediaSrc esc (extra_matchers schemes) ''source'' ''srcset'' (''/'' @ a @ '', '' @ b) =
    Some (attr esc ''srcset'' (Some (srcset_entry (extra_matchers schemes) (''/'' @ a) @ '','')))"
proof -
  have "split_loop '','' [] ((''/'' @ a) @ CHR '','' # '' '' @ b) = ([] @ ''/'' @ a) # split_loop '','' [] ('' '' @ b)"
    by (rule split_at) (use assms(1) in simp)
  moreover have "split_loop '','' [] ('' '' @ b) = [[] @ '' '' @ b]"
    by (rule split_free) (use assms(2) in simp)
  ultimately have "js_split '','' ((''/'' @ a) @ CHR '','' # '' '' @ b) = [''/'' @ a, '' '' @ b]"
    by (simp add: js_split_def)
  moreover have "srcset_entry (extra_matchers schemes) ('' '' @ b) = []"
  proof -
    have "js_split '' '' ('' '' @ b) = [] # split_loop '' '' [] b"
      by (simp add: js_split_def) (subst split_loop.simps, simp)
    then show ?thesis by (simp add: srcset_entry_def Let_def href_empty [OF refl])
  qed
  ultimately show ?thesis
    by (simp add: sanitizeMediaSrc_def src_attrs_def)
qed

section \<open>Witnesses\<close>

definition demo_list :: allow_list where
  "demo_list = \<lparr>tagList = [(''a'', [])], attrList = [(''a'', [(''title'', [''*''])])]\<rparr>"

lemma demo_href:
  "onIgnoreTagAttr (\<lambda>v. v) demo_list [] (extra_matchers [''steam'']) [] ''a'' ''href'' ''STEAM://run'' =
     Inr (Some ''href=\"STEAM://run\"'')"
  by code_simp

theorem kept_href_safe_witness:
  "''steam'' \<in> safe_schemes [''steam''] \<and> scheme_of ''STEAM://run'' = Some ''steam''"
proof -
  have "\<not> has_attr demo_list ''a'' ''href''" "plain_scheme ''steam''"
    and s: "scheme_of ''STEAM://run'' = Some ''steam''" by code_simp+
  then show ?thesis
    using kept_href_safe [of "\<lambda>v. v" demo_list "[]" "[''steam'']" "[]" "''STEAM://run''" "''href=\"STEAM://run\"''"]
      demo_href by simp
qed

lemma unlisted_kept:
  assumes "has_tag l tag" and "\<not> has_attr l tag name" and "name \<notin> set object_prototype"
    and "tag \<in> set heading_tags" and "heading_value value" and "\<not> prefix ''data-'' name"
  shows "onIgnoreTagAttr esc l [] matchers [] tag name value = Inr (Some (attr esc name (Some value)))"
proof -
  obtain forTag where tag: "om_get (attrList l) tag = Some forTag" "om_get forTag name = None"
    using assms(1,2) by (auto simp: has_tag_def has_attr_def attrs_of_def)
  have t: "tag \<noteq> ''iframe'' \<and> tag \<noteq> ''a'' \<and> tag \<noteq> ''video'' \<and> om_get src_attrs tag = None"
    using assms(4) by (auto simp: heading_tags_def src_attrs_def)
  then have "sanitizeMediaSrc esc matchers tag name value = None" by (simp add: media_none)
  moreover have "\<not> listed_attr matchers [] forTag tag name value"
    using t tag(2) assms(6) by (simp add: listed_attr_def)
  ultimately show ?thesis
    using tag t assms(3-5) by (simp add: onIgnoreTagAttr_def keep_attr_def)
qed

theorem default_no_handlers_witness:
  "''h1'' \<in> set heading_tags \<and>
   onIgnoreTagAttr (\<lambda>v. v) (fst (getAllowList (new_allow_lister None))) [] [] [] ''h1'' ''onclick'' ''heading--x'' =
     Inr (Some ''onclick=\"heading--x\"'')"
proof -
  let ?l = "fst (getAllowList (new_allow_lister None))"
  have empty: "cache (new_allow_lister None) = None" by (simp add: new_allow_lister_def)
  have "listed_tag ''h1'' = Some ''h1''" "''h1'' \<in> set DEFAULT_LIST" by code_simp+
  then have "has_tag ?l ''h1''" using allow_list_has [OF empty] unfolding default_entries by blast
  moreover have "checked_name ''onclick''" by code_simp
  then have "\<not> has_attr ?l ''h1'' ''onclick''"
    using allow_list_has [OF empty] default_names unfolding default_entries by blast
  moreover have "''onclick'' \<notin> set object_prototype" "''h1'' \<in> set heading_tags"
    "heading_value ''heading--x''" "\<not> prefix ''data-'' ''onclick''"
    and out: "attr (\<lambda>v. v) ''onclick'' (Some ''heading--x'') = ''onclick=\"heading--x\"''" by code_simp+
  ultimately have kept: "onIgnoreTagAttr (\<lambda>v. v) ?l [] [] [] ''h1'' ''onclick'' ''heading--x'' =
      Inr (Some ''onclick=\"heading--x\"'')"
    using unlisted_kept unfolding out [symmetric] by blast
  have "prefix ''on'' ''onclick''" by simp
  then show ?thesis
    using default_no_handlers [OF kept] kept by blast
qed

lemma demo_feature: "''mark.x'' \<in> set (entries_of (OneEntry ''mark.x''))" "listed_tag ''mark.x'' = Some ''mark''"
  by code_simp+

theorem late_feature_waits_witness:
  "has_tag (fst (getAllowList (enable ''f'' (allowListFeature ''f'' (OneEntry ''mark.x'')
     (snd (getAllowList (new_allow_lister None))))))) ''mark''"
  using late_feature_waits [OF demo_feature] by blast

theorem allow_list_spec_witness:
  "has_tag (fst (getAllowList (new_allow_lister None))) ''h1''"
proof -
  have empty: "cache (new_allow_lister None) = None" by (simp add: new_allow_lister_def)
  have "listed_tag ''h1'' = Some ''h1''" "''h1'' \<in> set DEFAULT_LIST" by code_simp+
  then show ?thesis using allow_list_spec [OF empty] unfolding default_entries by blast
qed

theorem srcset_drops_witness:
  "sanitizeMediaSrc (\<lambda>v. v) (extra_matchers []) ''source'' ''srcset'' ''/a 1x, /b 2x'' =
     Some ''srcset=\"/a 1x,\"''"
proof -
  have "CHR '','' \<notin> set ''a 1x''" "CHR '','' \<notin> set ''/b 2x''" by simp_all
  from srcset_drops [OF this, of "\<lambda>v. v" "[]"] show ?thesis
  proof -
    have "srcset_entry (extra_matchers []) (''/'' @ ''a 1x'') = ''/a 1x''" by code_simp
    then show ?thesis
      using srcset_drops [of "''a 1x''" "''/b 2x''" "\<lambda>v. v" "[]"] by (simp add: attr_def)
  qed
qed

end
