(* ===== verification/TextEdit.thy ===== *)
theory TextEdit
  imports JsString
begin

text \<open>
  \<open>frontend/discourse/app/lib/textarea-text-manipulation.js\<close>: the editing commands of the composer
  on a text area, and \<open>determinePostReplaceSelection\<close> of \<open>lib/utilities.js\<close>.

  The state is the text, the selection and whether the text area has the focus. The DOM calls are
  modelled as the HTML standard has them: a selection is clipped to the text, a negative index
  wraps to a large one, \<open>insertText\<close> replaces the selection and leaves the caret behind the new
  text. Positions are integers because the code computes with differences of them. Scrolling is
  left out; translations are the argument \<open>tr\<close>.
\<close>

record textarea =
  tvalue :: string
  sstart :: nat
  send :: nat
  focused :: bool

definition nl :: string where
  "nl = [CHR 0x0A]"

definition to_index :: "nat \<Rightarrow> int \<Rightarrow> nat" where
  "to_index n i = min n (nat (i mod 2 ^ 32))"

definition setSelectionRange :: "int \<Rightarrow> int \<Rightarrow> textarea \<Rightarrow> textarea" where
  "setSelectionRange i j t =
     (let n = length (tvalue t); e = to_index n j
      in t\<lparr>sstart := min (to_index n i) e, send := e\<rparr>)"

definition insertAt :: "int \<Rightarrow> int \<Rightarrow> string \<Rightarrow> textarea \<Rightarrow> textarea" where
  "insertAt i j text t0 =
     (let t = setSelectionRange i j t0; v = tvalue t;
          s = (if i \<noteq> j \<and> text = [] \<and> sstart t = send t then sstart t - 1 else sstart t)
      in t\<lparr>tvalue := take s v @ text @ drop (send t) v,
           sstart := s + length text, send := s + length text, focused := True\<rparr>)"

definition selectText :: "int \<Rightarrow> int \<Rightarrow> textarea \<Rightarrow> textarea" where
  "selectText from len t =
     (let t1 = setSelectionRange from (max from (int (send t))) t;
          t2 = setSelectionRange (int (sstart t1)) (from + len) t1
      in t2\<lparr>focused := True\<rparr>)"

section \<open>The selection\<close>

record selected =
  s_start :: int
  s_end :: int
  s_value :: string
  s_pre :: string
  s_post :: string
  s_lineVal :: string

text \<open>
  \<open>getSelected\<close>: blanks at the end of the selection are left out, with \<open>trimLeading\<close> also those
  at its beginning. The line is that of the beginning of the selection in the text area.
\<close>

definition getSelected :: "bool \<Rightarrow> textarea \<Rightarrow> selected" where
  "getSelected trimLeading t =
     (let v = tvalue t;
          sel = trim_end (take (send t - sstart t) (drop (sstart t) v));
          e = sstart t + length sel;
          val = (if trimLeading then trim_start sel else sel);
          s = e - length val
      in \<lparr>s_start = int s, s_end = int e, s_value = val, s_pre = take s v, s_post = drop e v,
          s_lineVal = js_split nl v ! (length (js_split nl (take (sstart t) v)) - 1)\<rparr>)"

section \<open>Replacing text\<close>

text \<open>
  \<open>determinePostReplaceSelection\<close> of \<open>lib/utilities.js\<close>: where the selection is after the needle was
  replaced.
\<close>

definition determinePostReplaceSelection ::
    "int \<times> int \<Rightarrow> int \<times> int \<Rightarrow> int \<times> int \<Rightarrow> int \<times> int" where
  "determinePostReplaceSelection selection needle replacement =
     (let (s, e) = selection; (n0, n1) = needle; (r0, r1) = replacement;
          diff = r1 - r0 - (n1 - n0)
      in if e \<le> n0 then (s, e)
         else if s \<le> n0 then (if e < n1 then (s, n0) else (s, e + diff))
         else if s < n1 then (if e \<le> n1 then (r1, r1) else (r1, e + diff))
         else (s + diff, e + diff))"

text \<open>
  The options of \<open>replaceText\<close>. A regular expression of the caller is the list of its matches in
  the text, each with its position and length, and whether it is global; repeated \<open>exec\<close> goes
  through the matches, fails once, and starts again.
\<close>

record replace_options =
  r_index :: int
  r_regex :: "((string \<Rightarrow> (nat \<times> nat) list) \<times> bool) option"
  r_forceFocus :: bool
  r_skipNewSelection :: bool

definition no_options :: replace_options where
  "no_options = \<lparr>r_index = 0, r_regex = None, r_forceFocus = False, r_skipNewSelection = False\<rparr>"

definition nth_exec :: "(nat \<times> nat) list \<Rightarrow> int \<Rightarrow> (nat \<times> nat) option" where
  "nth_exec ms i = (if i < 0 then None
     else let k = nat i mod (length ms + 1) in if k < length ms then Some (ms ! k) else None)"

definition replaceText :: "string \<Rightarrow> string \<Rightarrow> replace_options \<Rightarrow> textarea \<Rightarrow> textarea result" where
  "replaceText oldVal newVal opts t =
     (case find_at oldVal (tvalue t) of
        None \<Rightarrow> Inr t
      | Some k \<Rightarrow>
          (let (ns, ne) = determinePostReplaceSelection (int (sstart t), int (send t))
                 (int k, int k + int (length oldVal)) (int k, int k + int (length newVal));
               restore = (\<lambda>u. if (r_forceFocus opts \<or> focused u) \<and> \<not> r_skipNewSelection opts
                              then selectText ns (ne - ns) u else u)
           in if r_index opts \<noteq> 0 \<and> r_regex opts \<noteq> None
              then (let (matches, global) = the (r_regex opts)
                    in if \<not> global then Inl (Error ''Regex must be global'')
                       else Inr (restore (case nth_exec (matches (tvalue t)) (r_index opts) of
                              None \<Rightarrow> t
                            | Some (p, n) \<Rightarrow> insertAt (int p) (int p + int n) newVal t)))
              else Inr (restore (insertAt (int k) (int k + int (length oldVal)) newVal t))))"

section \<open>Surrounding the selection\<close>

text \<open>A head is fixed, or computed from the head before it, as in numbered lists.\<close>

datatype head = Fixed string | Next "string option \<Rightarrow> string"

definition getHead :: "head \<Rightarrow> string option \<Rightarrow> string" where
  "getHead h prev = (case h of Fixed s \<Rightarrow> s | Next f \<Rightarrow> f prev)"

record surround_options =
  o_multiline :: bool
  o_useBlockMode :: bool
  o_applyEmptyLines :: bool
  o_excludeHeadInSelection :: bool

datatype operation = NONE | REMOVED | ADDED

text \<open>\<open>s.slice(-n)\<close>, which is all of \<open>s\<close> when \<open>n\<close> is 0.\<close>

definition slice_end :: "nat \<Rightarrow> string \<Rightarrow> string" where
  "slice_end n s = js_slice_from (- int n) s"

definition wraps :: "string \<Rightarrow> string \<Rightarrow> string \<Rightarrow> bool" where
  "wraps hval tail l \<longleftrightarrow> take (length hval) l = hval \<and> (tail = [] \<or> slice_end (length tail) l = tail)"

text \<open>The loop of \<open>_getMultilineContents\<close> over the lines, with the operation it settles on.\<close>

fun multiline_loop ::
    "head \<Rightarrow> string \<Rightarrow> bool \<Rightarrow> operation \<Rightarrow> string \<Rightarrow> string list \<Rightarrow> string list" where
  "multiline_loop h tail applyEmpty op hval [] = []"
| "multiline_loop h tail applyEmpty op hval (l # ls) =
     (let next_head = getHead h (Some hval)
      in if \<not> applyEmpty \<and> l = [] then l # multiline_loop h tail applyEmpty op hval ls
         else if op \<noteq> ADDED \<and> wraps hval tail l
         then (if tail = [] then drop (length hval) l
               else js_slice (int (length hval)) (- int (length tail)) l)
              # multiline_loop h tail applyEmpty REMOVED next_head ls
         else if op = REMOVED then l # multiline_loop h tail applyEmpty op hval ls
         else (hval @ l @ tail) # multiline_loop h tail applyEmpty ADDED next_head ls)"

definition getMultilineContents ::
    "string list \<Rightarrow> head \<Rightarrow> string \<Rightarrow> string \<Rightarrow> surround_options option \<Rightarrow> string" where
  "getMultilineContents lines h hval tail opts =
     join nl (multiline_loop h tail (case opts of None \<Rightarrow> False | Some ops \<Rightarrow> o_applyEmptyLines ops)
       NONE hval lines)"

text \<open>
  The branch for whole lines. Its test for a selection that is wrapped already compares the text
  before it with the tail and the text behind it with the head.
\<close>

definition surround_lines ::
    "selected \<Rightarrow> head \<Rightarrow> string \<Rightarrow> surround_options option \<Rightarrow> textarea \<Rightarrow> textarea" where
  "surround_lines sel h tail opts t =
     (let lines = js_split nl (s_value sel); hval = getHead h None; hlen = int (length hval)
      in if length lines = 1 \<and> slice_end (length tail) (s_pre sel) = tail \<and>
            take (length hval) (s_post sel) = hval
         then selectText (s_start sel - hlen) (int (length (s_value sel)))
                (insertAt (s_start sel - hlen) (s_end sel + int (length tail)) (s_value sel) t)
         else let contents = getMultilineContents lines h hval tail opts;
                  t1 = insertAt (s_start sel) (s_end sel) contents t
              in if length lines = 1 \<and> tail \<noteq> []
                 then selectText (s_start sel + hlen) (int (length (s_value sel))) t1
                 else selectText (s_start sel) (int (length contents)) t1)"

definition applySurround ::
    "(string \<Rightarrow> string) \<Rightarrow> selected \<Rightarrow> head \<Rightarrow> string \<Rightarrow> string \<Rightarrow> surround_options option \<Rightarrow> textarea \<Rightarrow> textarea" where
  "applySurround tr sel h tail0 exampleKey opts t =
     (let pre = s_pre sel; post = s_post sel; len = (\<lambda>x::string. int (length x))
      in if s_start sel = s_end sel
         then (if tail0 = [] then t
               else let hval = getHead h None; example = tr (''composer.'' @ exampleKey)
                    in selectText (len pre + len hval) (len example)
                         (insertAt (s_start sel) (s_end sel) (hval @ example @ tail0) t))
         else case opts of
           Some ops \<Rightarrow>
             if \<not> o_multiline ops
             then (let block = o_useBlockMode ops \<and> 1 < length (js_split nl (s_value sel));
                       hval = (if block then getHead h None @ nl else getHead h None);
                       tail = (if block then nl @ tail0 else tail0)
                   in if slice_end (length hval) pre = hval \<and> take (length tail) post = tail
                      then selectText (s_start sel - len hval) (len (s_value sel))
                             (insertAt (s_start sel - len hval) (s_end sel + len tail) (s_value sel) t)
                      else selectText (s_start sel + len hval) (len (s_value sel))
                             (insertAt (s_start sel) (s_end sel) (hval @ s_value sel @ tail) t))
             else surround_lines sel h tail0 opts t
         | None \<Rightarrow> surround_lines sel h tail0 opts t)"

definition applySurroundSelection ::
    "(string \<Rightarrow> string) \<Rightarrow> head \<Rightarrow> string \<Rightarrow> string \<Rightarrow> surround_options option \<Rightarrow> textarea \<Rightarrow> textarea" where
  "applySurroundSelection tr h tail exampleKey opts t =
     applySurround tr (getSelected False t) h tail exampleKey opts t"

section \<open>Inserting\<close>

definition addBlock :: "selected \<Rightarrow> string \<Rightarrow> textarea \<Rightarrow> textarea" where
  "addBlock sel text0 t =
     (let text1 = trim text0
      in if text1 = [] then t
         else let before = int (length (takeWhile (\<lambda>c. c = CHR 0x0A) (rev (s_pre sel))));
                  after = int (length (takeWhile (\<lambda>c. c = CHR 0x0A) (s_post sel)));
                  text2 = (if s_pre sel \<noteq> [] then nl @ nl @ text1 else text1);
                  text3 = (if s_post sel \<noteq> [] then text2 @ nl @ nl else text2 @ nl);
                  s = s_start sel - before; p = s + int (length text3)
              in setSelectionRange p p (insertAt s (s_end sel + after) text3 t))"

definition addText :: "selected \<Rightarrow> string \<Rightarrow> bool \<Rightarrow> textarea \<Rightarrow> textarea" where
  "addText sel text ensureSpace t =
     (let text1 = (if ensureSpace \<and> s_pre sel \<noteq> [] \<and> \<not> js_space (last (s_pre sel)) then '' '' @ text else text);
          text2 = (if ensureSpace \<and> s_post sel \<noteq> [] \<and> \<not> js_space (hd (s_post sel)) then text1 @ '' '' else text1)
      in insertAt (s_start sel) (s_end sel) text2 t)"

definition insertBlock :: "string \<Rightarrow> textarea \<Rightarrow> textarea" where
  "insertBlock text t = addBlock (getSelected False t) text t"

definition insertText :: "string \<Rightarrow> bool \<Rightarrow> textarea \<Rightarrow> textarea" where
  "insertText text ensureSpace t = addText (getSelected False t) text ensureSpace t"

text \<open>
  \<open>extractTable\<close>: tab separated rows become a table. The character \<open>U+2022\<close> of the code's test for
  lists is beyond the characters of the model.
\<close>

definition tab :: string where
  "tab = [CHR 0x09]"

fun unquote :: "bool \<Rightarrow> string \<Rightarrow> string" where
  "unquote cell [] = []"
| "unquote cell (c # cs) =
     (if c = CHR 0x0A \<and> cell then CHR 0x0D # unquote cell cs
      else if c = CHR 0x22 then unquote (\<not> cell) cs
      else c # unquote cell cs)"

definition is_list_mark :: "string \<Rightarrow> bool" where
  "is_list_mark s \<longleftrightarrow> 2 \<le> length s \<and> list_all is_num (butlast s) \<and> is_dot (last s)"

definition extractTable :: "string \<Rightarrow> string option" where
  "extractTable text0 =
     (let text = (if text0 \<noteq> [] \<and> last text0 = CHR 0x0A then butlast text0 else text0);
          rows = js_split nl (replace_all [CHR 0x0D] ''<br>'' (unquote False text));
          cells = js_split tab;
          columns = map (\<lambda>r. length (cells r)) rows
      in if 1 < length rows \<and> list_all (\<lambda>b. hd columns = b \<and> 1 < b) (tl columns) \<and>
            \<not> (hd columns = 2 \<and> is_list_mark (hd (cells (hd rows))))
         then Some (let table = hd rows # join tab (replicate (hd columns) ''---'') # tl rows
                    in ''|'' @ join (''|'' @ nl @ ''|'') (map (\<lambda>r. join ''|'' (cells r)) table) @ ''|'' @ nl)
         else None)"

end
