(* ===== verification/TextCommands.thy ===== *)
theory TextCommands
  imports TextEdit ObjectTools
begin

text \<open>
  The commands of \<open>lib/textarea-text-manipulation.js\<close> that work on lines: continuing a list,
  indenting, list items, headings and code, and the terms that autocompletion, emoji and upload
  placeholders put into the text.
\<close>

section \<open>Continuing a list\<close>

text \<open>
  \<open>LIST_REGEXP\<close>: indentation, a bullet or a number with a point, a blank, and a checkbox with its
  blank if there is one. The parts are the whole prefix, the indentation, the bullet, the digits
  of a number and whether there is a checkbox.
\<close>

definition checkbox :: "string \<Rightarrow> string option" where
  "checkbox s = (case s of
      a # b # c # d # _ \<Rightarrow>
        if a = CHR ''['' \<and> (js_space b \<or> b = CHR ''x'') \<and> c = CHR '']'' \<and> js_space d
        then Some [a, b, c, d] else None
    | _ \<Rightarrow> None)"

definition list_bullet :: "string \<Rightarrow> (string \<times> string option) option" where
  "list_bullet s = (case s of
      [] \<Rightarrow> None
    | c # cs \<Rightarrow>
        if c = CHR ''*'' \<or> c = CHR ''-'' then Some ([c], None)
        else let ds = takeWhile is_num s
             in if ds \<noteq> [] \<and> prefix ''.'' (drop (length ds) s) then Some (ds @ ''.'', Some ds) else None)"

definition list_prefix :: "string \<Rightarrow> (string \<times> string \<times> string \<times> string option \<times> bool) option" where
  "list_prefix line =
     (let indent = takeWhile js_space line; rest = drop (length indent) line
      in case list_bullet rest of
           None \<Rightarrow> None
         | Some (bullet, digits) \<Rightarrow>
             (case drop (length bullet) rest of
                [] \<Rightarrow> None
              | c # cs \<Rightarrow>
                  if \<not> js_space c then None
                  else (case checkbox cs of
                          Some box \<Rightarrow> Some (indent @ bullet @ [c] @ box, indent, bullet, digits, True)
                        | None \<Rightarrow> Some (indent @ bullet @ [c], indent, bullet, digits, False))))"

text \<open>\<open>isAfterStartedCodeFence\<close>: an odd number of fences at the beginnings of lines.\<close>

fun count_fences :: "string \<Rightarrow> nat" where
  "count_fences [] = 0"
| "count_fences (c # cs) =
     (if c = CHR 0x0A \<and> prefix ''```'' cs then 1 else 0) + count_fences cs"

definition isAfterStartedCodeFence :: "string \<Rightarrow> bool" where
  "isAfterStartedCodeFence s =
     odd ((if prefix ''```'' s then 1 else 0) + count_fences s)"

definition blank :: "string \<Rightarrow> bool" where
  "blank s \<longleftrightarrow> list_all js_space s"

fun number_lines :: "nat \<Rightarrow> string list \<Rightarrow> string list" where
  "number_lines n [] = []"
| "number_lines n (l # ls) =
     (let body = trim_start l; k = length l - length body
      in if prefix (show_nat n @ ''.'') body
         then (take k l @ show_nat (n + 1) @ drop (length (show_nat n)) body) # number_lines (n + 1) ls
         else l # number_lines n ls)"

definition updateListNumbers :: "string \<Rightarrow> nat \<Rightarrow> string" where
  "updateListNumbers text currentNumber = join nl (number_lines currentNumber (js_split nl text))"

definition skip_selection :: replace_options where
  "skip_selection = no_options\<lparr>r_skipNewSelection := True\<rparr>"

definition keep_text :: "textarea \<Rightarrow> textarea result \<Rightarrow> textarea" where
  "keep_text t r = (case r of Inl e \<Rightarrow> t | Inr t' \<Rightarrow> t')"

text \<open>The item to start on the new line, unless the line begins with it already.\<close>

definition next_item :: "string \<Rightarrow> string option \<Rightarrow> bool \<Rightarrow> string \<Rightarrow> string" where
  "next_item bullet digits hasCheckbox currentLine =
     (let newBullet = (case digits of None \<Rightarrow> bullet | Some ds \<Rightarrow> show_nat (read_nat ds + 1) @ ''.'');
          newPrefix = newBullet @ '' '' @ (if hasCheckbox then ''[ ] '' else [])
      in if prefix newPrefix currentLine then [] else newPrefix)"

definition continue_item :: "string \<Rightarrow> string option \<Rightarrow> textarea \<Rightarrow> textarea" where
  "continue_item item digits t =
     (let offset = int (sstart t); rest = drop (sstart t) (tvalue t)
      in selectText (offset + int (length item)) 0
           (case digits of
              Some ds \<Rightarrow>
                if blank rest then insertAt offset offset item t
                else let postfix = updateListNumbers rest (read_nat ds + 1)
                     in keep_text t
                          (replaceText (take (length item + length postfix) rest) (item @ postfix)
                             skip_selection t)
            | None \<Rightarrow> insertAt offset offset item t))"

definition maybeContinueList :: "textarea \<Rightarrow> textarea" where
  "maybeContinueList t =
     (let offset = sstart t; text = tvalue t; lines = js_split nl (take offset text);
          previousLine = lines ! (length lines - 2)
      in if length lines < 2 then t
         else case list_prefix previousLine of
           None \<Rightarrow> t
         | Some (listPrefix, indent, bullet, digits, hasCheckbox) \<Rightarrow>
             if isAfterStartedCodeFence (take (offset - 1) text) then t
             else
               (let currentLine = takeWhile (\<lambda>c. c \<noteq> CHR 0x0A) (drop offset text)
                in if \<not> (blank (drop (length listPrefix) previousLine) \<and> blank currentLine)
                   then continue_item (indent @ next_item bullet digits hasCheckbox currentLine) digits t
                   else let p = int offset - int (length listPrefix + 1)
                        in selectText p 0 (insertAt p (int offset) [] t)))"

section \<open>Indenting\<close>

text \<open>
  \<open>_deindentLine\<close>: up to \<open>limit\<close> of the characters at the beginning are taken away, but a line
  that would be empty then stays as it is.
\<close>

definition deindentLine :: "string \<Rightarrow> char \<Rightarrow> nat \<Rightarrow> string" where
  "deindentLine s ch limit =
     (let eaten = length (takeWhile (\<lambda>d. d = ch) (take limit s))
      in if eaten < length s then drop eaten s else s)"

datatype direction = LeftIndent | RightIndent

definition starting_with :: "char \<Rightarrow> string list \<Rightarrow> nat" where
  "starting_with ch ls = length (filter (\<lambda>l. prefix [ch] l) ls)"

definition indent_line :: "direction \<Rightarrow> char \<Rightarrow> nat \<Rightarrow> string \<Rightarrow> string" where
  "indent_line direction ch steps l =
     (case direction of LeftIndent \<Rightarrow> deindentLine l ch steps | RightIndent \<Rightarrow> replicate steps ch @ l)"

text \<open>
  The text that \<open>indentSelection\<close> works on: the selection, with the indentation of its first line
  before it as far as the selection does not have it already.
\<close>

definition indent_char :: "string \<Rightarrow> char \<times> nat" where
  "indent_char value =
     (let ls = js_split nl value
      in if starting_with (CHR '' '') ls < starting_with (CHR 0x09) ls then (CHR 0x09, 1) else (CHR '' '', 2))"

definition with_line_indent :: "char \<Rightarrow> string \<Rightarrow> string \<Rightarrow> string" where
  "with_line_indent ch lineVal value =
     (let line_run = takeWhile (\<lambda>c. c = ch) lineVal; run = takeWhile (\<lambda>c. c = ch) value
      in (if length run \<le> length line_run then drop (length run) line_run else line_run) @ value)"

definition indentSelection :: "direction \<Rightarrow> textarea \<Rightarrow> textarea" where
  "indentSelection direction t =
     (let sel = getSelected False t; (ch, steps) = indent_char (s_value sel);
          value = with_line_indent ch (s_lineVal sel) (s_value sel);
          newValue = join nl (map (indent_line direction ch steps) (js_split nl value))
      in if blank newValue then t
         else let t1 = keep_text t (replaceText value newValue skip_selection t)
              in selectText (case find_at newValue (tvalue t1) of None \<Rightarrow> -1 | Some k \<Rightarrow> int k)
                   (int (length newValue)) t1)"

section \<open>Emoji, autocompletion and placeholders\<close>

text \<open>\<open>/\B:(\w*)$/\<close> on the text before the caret: the letters of an emoji code that was begun.\<close>

definition emoji_typed :: "string \<Rightarrow> string option" where
  "emoji_typed pre =
     (let word = rev (takeWhile is_word (rev pre)); before = take (length pre - length word) pre
      in if before \<noteq> [] \<and> last before = CHR '':'' \<and>
            (length before = 1 \<or> \<not> is_word (before ! (length before - 2)))
         then Some word else None)"

definition emojiSelected :: "string \<Rightarrow> textarea \<Rightarrow> textarea" where
  "emojiSelected code t =
     (let sel = getSelected False t
      in case emoji_typed (s_pre sel) of
           None \<Rightarrow>
             if s_pre sel \<noteq> [] \<and> \<not> js_space (last (s_pre sel))
             then addText sel ('' :'' @ code @ '':'') False t
             else addText sel ('':'' @ code @ '':'') False t
         | Some word \<Rightarrow>
             insertAt (s_start sel - int (length word)) (s_end sel) (code @ '':'') t)"

definition replaceTerm :: "int \<Rightarrow> int \<Rightarrow> string \<Rightarrow> textarea \<Rightarrow> textarea" where
  "replaceTerm s e term t =
     (let space = (if js_slice (e + 1) (e + 2) (tvalue t) = '' '' then [] else '' '');
          p = s + 1 + int (length (trim term))
      in (setSelectionRange p p (insertAt s (e + 1) (term @ space) t))\<lparr>focused := True\<rparr>)"

definition cursorIsOnEmptyLine :: "textarea \<Rightarrow> bool" where
  "cursorIsOnEmptyLine t \<longleftrightarrow> sstart t = 0 \<or> tvalue t ! (sstart t - 1) = CHR 0x0A"

text \<open>
  The placeholders of uploads, by file: the text that stands for the upload and, once it is
  processed, the text that says so. \<open>filename\<close> is the name that \<open>uploadFilenamePlaceholder\<close>
  chooses, \<open>msg\<close> the translation with a file name.
\<close>

record placeholder =
  uploadPlaceholder :: string
  processingPlaceholder :: "string option"

type_synonym placeholders = "(string, placeholder) omap"

definition uploadPlaceholder_text :: "(string \<Rightarrow> string) \<Rightarrow> string \<Rightarrow> textarea \<Rightarrow> string" where
  "uploadPlaceholder_text msg filename t =
     (let p = ''['' @ msg filename @ '']()'' @ nl
      in if cursorIsOnEmptyLine t then p else nl @ p)"

definition placeholder_insert ::
    "(string \<Rightarrow> string) \<Rightarrow> string \<Rightarrow> string \<Rightarrow> placeholders \<times> textarea \<Rightarrow> placeholders \<times> textarea" where
  "placeholder_insert msg file filename st =
     (let (ps, t) = st; p = uploadPlaceholder_text msg filename t
      in (om_set file \<lparr>uploadPlaceholder = p, processingPlaceholder = None\<rparr> ps, insertText p False t))"

definition placeholder_replace :: "string \<Rightarrow> string \<Rightarrow> textarea \<Rightarrow> textarea" where
  "placeholder_replace old new t = keep_text t (replaceText old new no_options t)"

text \<open>
  \<open>progress\<close> replaces the placeholder also where the browser wrote an ellipsis character for three
  points; \<open>ellipsis\<close> is that character.
\<close>

definition no_placeholder :: "'a result" where
  "no_placeholder = Inl (TypeError ''Cannot set properties of undefined (setting 'processingPlaceholder')'')"

definition placeholder_progress ::
    "string \<Rightarrow> string \<Rightarrow> string \<Rightarrow> placeholders \<times> textarea \<Rightarrow> (placeholders \<times> textarea) result" where
  "placeholder_progress ellipsis processing file st =
     (let (ps, t) = st; new = ''['' @ processing @ '']()'' @ nl
      in case om_get ps file of
           None \<Rightarrow> no_placeholder
         | Some p \<Rightarrow>
             (let old = uploadPlaceholder p
              in Inr (om_set file (p\<lparr>processingPlaceholder := Some new\<rparr>) ps,
                   placeholder_replace (replace_first ''...'' ellipsis old) new (placeholder_replace old new t))))"

definition placeholder_cancel :: "string \<Rightarrow> placeholders \<times> textarea \<Rightarrow> placeholders \<times> textarea" where
  "placeholder_cancel file st =
     (let (ps, t) = st
      in case om_get ps file of
           None \<Rightarrow> (ps, t)
         | Some p \<Rightarrow> (ps, placeholder_replace (uploadPlaceholder p) [] t))"

definition placeholder_cancelAll :: "placeholders \<times> textarea \<Rightarrow> placeholders \<times> textarea" where
  "placeholder_cancelAll st =
     (let (ps, t) = st in (ps, fold (\<lambda>(f, p). placeholder_replace (uploadPlaceholder p) []) ps t))"

definition placeholder_success ::
    "string \<Rightarrow> string \<Rightarrow> placeholders \<times> textarea \<Rightarrow> (placeholders \<times> textarea) result" where
  "placeholder_success file markdown st =
     (let (ps, t) = st
      in case om_get ps file of
           None \<Rightarrow> Inl (TypeError ''Cannot read properties of undefined (reading 'uploadPlaceholder')'')
         | Some p \<Rightarrow> Inr (ps, placeholder_replace (trim (uploadPlaceholder p)) markdown t))"

section \<open>Lists, headings and code\<close>

definition first_not_hash :: "string \<Rightarrow> int" where
  "first_not_hash s =
     (let k = length (takeWhile (\<lambda>c. c = CHR 0x23) s) in if k < length s then int k else -1)"

text \<open>The new text of the list item or heading.\<close>

definition list_item :: "string \<Rightarrow> string \<Rightarrow> string" where
  "list_item hval value =
     (if CHR 0x23 \<in> set hval
      then let level = first_not_hash value
           in if prefix hval value \<and> level + 1 = int (length hval) then drop (length hval) value
              else if level > 0 then hval @ drop (nat level + 1) value
              else hval @ value
      else if prefix hval value then drop (length hval) value
      else hval @ value)"

definition applyList ::
    "(string \<Rightarrow> string) \<Rightarrow> selected \<Rightarrow> head \<Rightarrow> string \<Rightarrow> surround_options option \<Rightarrow> textarea \<Rightarrow> textarea" where
  "applyList tr sel h exampleKey opts t =
     (if CHR 0x0A \<in> set (s_value sel) then applySurround tr sel h [] exampleKey opts t
      else let hval = getHead h None;
               value = (if s_start sel = s_end sel then tr (''composer.'' @ exampleKey) else s_value sel);
               item = list_item hval value;
               preNewlines = (if blank (s_pre sel) then [] else nl @ nl);
               postNewlines = (if blank (s_post sel) then [] else nl @ nl);
               preChars = int (length (s_pre sel)) - int (length (trim_end (s_pre sel)));
               postChars = int (length (s_post sel)) - int (length (trim_start (s_post sel)));
               t1 = insertAt (s_start sel - preChars) (s_end sel + postChars)
                      (preNewlines @ item @ postNewlines) t;
               from = s_start sel + (int (length preNewlines) - preChars);
               hlen = int (length hval)
           in if (case opts of None \<Rightarrow> False | Some ops \<Rightarrow> o_excludeHeadInSelection ops)
              then selectText (from + hlen) (int (length item) - hlen) t1
              else selectText from (int (length item)) t1)"

definition exclude_head :: surround_options where
  "exclude_head = \<lparr>o_multiline = False, o_useBlockMode = False, o_applyEmptyLines = False,
     o_excludeHeadInSelection = True\<rparr>"

definition applyHeading :: "(string \<Rightarrow> string) \<Rightarrow> selected \<Rightarrow> nat \<Rightarrow> textarea \<Rightarrow> textarea" where
  "applyHeading tr sel level t =
     (if level > 0
      then applyList tr sel (Fixed (replicate level (CHR 0x23) @ '' '')) ''heading_text'' (Some exclude_head) t
      else let current = first_not_hash (s_lineVal sel)
           in if current \<ge> 0
              then applyList tr sel (Fixed (replicate (nat current) (CHR 0x23) @ '' '')) ''heading_text'' None t
              else t)"

text \<open>
  \<open>formatCode\<close>. The character \<open>sel.pre[-1]\<close> that is compared with a line break is always
  \<open>undefined\<close>.
\<close>

definition formatCode :: "(string \<Rightarrow> string) \<Rightarrow> bool \<Rightarrow> textarea \<Rightarrow> textarea" where
  "formatCode tr isFourSpacesIndent t =
     (let sel = getSelected False t; fence = ''```''
      in if CHR 0x0A \<notin> set (s_value sel)
         then if s_value sel = [] \<and> blank (s_lineVal sel)
              then if isFourSpacesIndent
                   then let example = tr ''composer.code_text''
                        in selectText (int (length (s_pre sel)) + 4) (int (length example))
                             (insertAt (s_start sel) (s_end sel) (''    '' @ example) t)
                   else applySurround tr sel (Fixed (fence @ nl)) (nl @ fence) ''paste_code_text'' None t
              else applySurround tr sel (Fixed ''`'') ''`'' ''code_title'' None t
         else if isFourSpacesIndent then applySurround tr sel (Fixed ''    '') [] ''code_text'' None t
         else let preNewline = (if s_pre sel \<noteq> [] then nl else []);
                  postNewline = (if prefix nl (s_post sel) then [] else nl)
              in addText sel (preNewline @ fence @ nl @ s_value sel @ nl @ fence @ postNewline) False t)"

end
