(* ===== verification/TextProofs.thy ===== *)
theory TextProofs
  imports TextCommands
begin

text \<open>
  The editing commands: what they do to the text and the selection, and which of them undo each
  other.
\<close>

section \<open>The text area\<close>

definition text_ok :: "textarea \<Rightarrow> bool" where
  "text_ok t \<longleftrightarrow> sstart t \<le> send t \<and> send t \<le> length (tvalue t) \<and> length (tvalue t) < 2 ^ 31"

lemma to_index_nat: "i \<le> n \<Longrightarrow> n < 2 ^ 31 \<Longrightarrow> to_index n (int i) = i"
proof -
  assume a: "i \<le> n" "n < 2 ^ 31"
  then have "int i < 2 ^ 32" by simp
  then have "int i mod 2 ^ 32 = int i" by simp
  then show ?thesis using a by (simp add: to_index_def)
qed

lemma setSelectionRange_nat:
  assumes "i \<le> j" and "j \<le> length (tvalue t)" and "length (tvalue t) < 2 ^ 31"
  shows "setSelectionRange (int i) (int j) t = t\<lparr>sstart := i, send := j\<rparr>"
  using assms by (simp add: setSelectionRange_def Let_def to_index_nat)

lemma insertAt_nat:
  assumes "i \<le> j" and "j \<le> length (tvalue t)" and "length (tvalue t) < 2 ^ 31"
  shows "insertAt (int i) (int j) text t =
    t\<lparr>tvalue := take i (tvalue t) @ text @ drop j (tvalue t),
      sstart := i + length text, send := i + length text, focused := True\<rparr>"
  using assms by (auto simp: insertAt_def Let_def setSelectionRange_nat)

lemma selectText_nat:
  assumes "i + n \<le> length (tvalue t)" and "length (tvalue t) < 2 ^ 31" and "send t \<le> length (tvalue t)"
  shows "selectText (int i) (int n) t = t\<lparr>sstart := i, send := i + n, focused := True\<rparr>"
proof -
  have "setSelectionRange (int i) (max (int i) (int (send t))) t = t\<lparr>sstart := i, send := max i (send t)\<rparr>"
    unfolding of_nat_max [symmetric] using assms by (intro setSelectionRange_nat) simp_all
  moreover have "setSelectionRange (int i) (int i + int n) (t\<lparr>sstart := i, send := max i (send t)\<rparr>) =
      t\<lparr>sstart := i, send := i + n\<rparr>"
    using setSelectionRange_nat [of i "i + n" "t\<lparr>sstart := i, send := max i (send t)\<rparr>"] assms by simp
  ultimately show ?thesis by (simp add: selectText_def Let_def)
qed

text \<open>A text area by its text before, in and behind the selection.\<close>

definition area :: "string \<Rightarrow> string \<Rightarrow> string \<Rightarrow> bool \<Rightarrow> textarea" where
  "area a v b f = \<lparr>tvalue = a @ v @ b, sstart = length a, send = length a + length v, focused = f\<rparr>"

definition small :: "string \<Rightarrow> bool" where
  "small s \<longleftrightarrow> length s < 2 ^ 31"

lemma area_insert:
  assumes "small (a @ x @ v @ y @ b)" and "tvalue t = a @ x @ v @ y @ b"
  shows "insertAt (int (length a)) (int (length a) + int (length x) + int (length v) + int (length y)) text t =
    area (a @ text) [] b True"
proof -
  have "insertAt (int (length a)) (int (length a + length x + length v + length y)) text t =
    t\<lparr>tvalue := a @ text @ b, sstart := length a + length text, send := length a + length text, focused := True\<rparr>"
    using assms by (subst insertAt_nat) (auto simp: small_def)
  then show ?thesis by (simp add: area_def)
qed

lemma area_select:
  assumes "small (a @ v @ b)" and "tvalue t = a @ v @ b" and "send t \<le> length (tvalue t)"
  shows "selectText (int (length a)) (int (length v)) t = area a v b True"
  using assms by (subst selectText_nat) (auto simp: area_def small_def)

text \<open>The selection of an area whose selected text does not end in a blank.\<close>

definition sel_of :: "string \<Rightarrow> string \<Rightarrow> string \<Rightarrow> selected" where
  "sel_of a v b = \<lparr>s_start = int (length a), s_end = int (length a) + int (length v), s_value = v,
     s_pre = a, s_post = b,
     s_lineVal = js_split nl (a @ v @ b) ! (length (js_split nl a) - 1)\<rparr>"

lemma getSelected_area:
  assumes "v = [] \<or> \<not> js_space (last v)"
  shows "getSelected False (area a v b f) = sel_of a v b"
  using trim_end_id [OF assms] by (simp add: getSelected_def area_def sel_of_def Let_def)

text \<open>What \<open>getSelected\<close> returns: the parts of the text around the selection without its blanks at the end.\<close>

lemma getSelected_parts:
  assumes "text_ok t"
  obtains a v b where "s_start (getSelected False t) = int (length a)"
    and "s_end (getSelected False t) = int (length a) + int (length v)"
    and "s_value (getSelected False t) = v" and "s_pre (getSelected False t) = a"
    and "s_post (getSelected False t) = b" and "tvalue t = a @ v @ b" and "v = [] \<or> \<not> js_space (last v)" and "sstart t = length a"
    and "length a + length v \<le> send t"
proof -
  let ?a = "take (sstart t) (tvalue t)" and ?w = "take (send t - sstart t) (drop (sstart t) (tvalue t))"
  let ?v = "trim_end ?w"
  obtain u where u: "?w = ?v @ u" using trim_end_prefix by blast
  have len: "length ?a = sstart t" using assms by (simp add: text_ok_def)
  have lw: "length ?w = send t - sstart t" using assms by (auto simp: text_ok_def min_def)
  have lv: "length ?v \<le> send t - sstart t" using arg_cong [OF u, of length] lw by simp
  have "take (length ?v) ?w = ?v" using arg_cong [OF u, of "take (length ?v)"] by simp
  then have v: "?v = take (length ?v) (drop (sstart t) (tvalue t))"
    using lv by (simp add: min.absorb1)
  have whole: "tvalue t = ?a @ ?v @ drop (sstart t + length ?v) (tvalue t)"
    using v by (metis append_take_drop_id drop_drop add.commute)
  show thesis
  proof (rule that [OF _ _ _ _ _ whole])
    show "s_start (getSelected False t) = int (length ?a)"
      "s_end (getSelected False t) = int (length ?a) + int (length ?v)"
      "s_value (getSelected False t) = ?v" "s_pre (getSelected False t) = ?a"
      "s_post (getSelected False t) = drop (sstart t + length ?v) (tvalue t)"
      using len by (simp_all add: getSelected_def Let_def)
    show "?v = [] \<or> \<not> js_space (last ?v)" using trim_end_last by blast
    show "sstart t = length ?a" by (rule len [symmetric])
    show "length ?a + length ?v \<le> send t" using len lv assms unfolding text_ok_def by linarith
  qed
qed

lemma slice_end_append [simp]: "y \<noteq> [] \<Longrightarrow> slice_end (length y) (x @ y) = y"
  by (simp add: slice_end_def js_slice_from_def clip_bound_def)

section \<open>Surrounding and taking away again\<close>

definition single_options :: "bool \<Rightarrow> surround_options" where
  "single_options block = \<lparr>o_multiline = False, o_useBlockMode = block, o_applyEmptyLines = False,
     o_excludeHeadInSelection = False\<rparr>"

text \<open>The marks that are put around the selection, in block mode with their line breaks.\<close>

definition marks :: "string \<Rightarrow> string \<Rightarrow> bool \<Rightarrow> string \<Rightarrow> string \<times> string" where
  "marks h tail block v =
     (if block \<and> 1 < length (js_split nl v) then (h @ nl, nl @ tail) else (h, tail))"

lemma surround_area:
  assumes "v \<noteq> []" and "s_start sel = int (length a)" "s_end sel = int (length a) + int (length v)"
    "s_value sel = v" "s_pre sel = a" "s_post sel = b"
    and "marks h tail block v = (x, y)" and "x \<noteq> []" and "tvalue t = a @ v @ b"
    and "small (a @ x @ v @ y @ b)"
  shows "applySurround tr sel (Fixed h) tail key (Some (single_options block)) t =
    (if slice_end (length x) a = x \<and> take (length y) b = y
     then area (take (length a - length x) a) v (drop (length y) b) True
     else area (a @ x) v (y @ b) True)"
proof (cases "slice_end (length x) a = x \<and> take (length y) b = y")
  case True
  have "clip_bound (length a) (- int (length x)) = length a - length x"
    using \<open>x \<noteq> []\<close> by (simp add: clip_bound_def)
  then have a: "a = take (length a - length x) a @ x"
    using True by (metis append_take_drop_id js_slice_from_def slice_end_def)
  let ?a = "take (length a - length x) a" and ?b = "drop (length y) b"
  have b: "b = y @ ?b" using True by (metis append_take_drop_id)
  have whole: "tvalue t = ?a @ x @ v @ y @ ?b" using assms(9) a b by (metis append.assoc)
  have sm: "small (?a @ x @ v @ y @ ?b)" using assms(10) whole assms(9) by (simp add: small_def)
  have la: "length a = length ?a + length x" using a by (metis length_append)
  have "insertAt (int (length ?a)) (int (length ?a) + int (length x) + int (length v) + int (length y)) v t =
      area (?a @ v) [] ?b True"
    by (rule area_insert [OF sm whole])
  moreover have "selectText (int (length ?a)) (int (length v)) (area (?a @ v) [] ?b True) = area ?a v ?b True"
    using sm by (intro area_select) (auto simp: area_def small_def)
  ultimately show ?thesis
    using assms True la
    by (auto simp: applySurround_def single_options_def marks_def getHead_def Let_def split: if_splits)
next
  case False
  have "insertAt (int (length a)) (int (length a) + int (length v)) (x @ v @ y) t = area (a @ x @ v @ y) [] b True"
    using area_insert [of a "[]" v "[]" b t "x @ v @ y"] assms(9,10) by (auto simp: small_def)
  moreover have "selectText (int (length (a @ x))) (int (length v)) (area (a @ x @ v @ y) [] b True) =
      area (a @ x) v (y @ b) True"
    using assms(10) by (intro area_select) (auto simp: area_def small_def)
  ultimately show ?thesis
    using assms False
    by (auto simp: applySurround_def single_options_def marks_def getHead_def Let_def split: if_splits)
qed

text \<open>
  Surrounding is undone by doing it again: after a selection that is not surrounded yet was put
  between marks, the same command takes the marks away and leaves the text and the selection as
  they were, also in block mode.
\<close>

theorem surround_roundtrip:
  assumes "text_ok t" and "small (tvalue t @ x @ y @ x @ y)"
    and "s_value (getSelected False t) \<noteq> []"
    and "marks h tail block (s_value (getSelected False t)) = (x, y)" and "x \<noteq> []"
    and "\<not> (slice_end (length x) (s_pre (getSelected False t)) = x \<and>
           take (length y) (s_post (getSelected False t)) = y)"
  shows "let once = applySurroundSelection tr (Fixed h) tail key (Some (single_options block)) t;
             twice = applySurroundSelection tr (Fixed h) tail key (Some (single_options block)) once
         in tvalue once = s_pre (getSelected False t) @ x @ s_value (getSelected False t) @ y @ s_post (getSelected False t) \<and>
            tvalue twice = tvalue t \<and> sstart twice = sstart t \<and>
            int (send twice) = s_end (getSelected False t)"
proof -
  obtain a v b where fields: "s_start (getSelected False t) = int (length a)"
    "s_end (getSelected False t) = int (length a) + int (length v)"
    "s_value (getSelected False t) = v" "s_pre (getSelected False t) = a"
    "s_post (getSelected False t) = b"
    and whole: "tvalue t = a @ v @ b" and last: "v = [] \<or> \<not> js_space (last v)" and start: "sstart t = length a"
    using getSelected_parts [OF assms(1)] by metis
  have m: "marks h tail block v = (x, y)" "v \<noteq> []" using assms(3,4) fields by simp_all
  have sm: "small (a @ x @ v @ y @ b)" "small ((a @ x) @ x @ v @ y @ (y @ b))"
    using assms(2) whole by (simp_all add: small_def)
  define once where "once = applySurroundSelection tr (Fixed h) tail key (Some (single_options block)) t"
  have once: "once = area (a @ x) v (y @ b) True"
    unfolding once_def applySurroundSelection_def
    using surround_area [OF m(2) _ _ _ _ _ m(1) assms(5) whole sm(1), of "getSelected False t"] fields assms(6)
    by (auto split: if_splits)
  have "getSelected False once = sel_of (a @ x) v (y @ b)"
    unfolding once using last by (rule getSelected_area)
  moreover have "applySurround tr (sel_of (a @ x) v (y @ b)) (Fixed h) tail key (Some (single_options block)) once =
      area a v b True"
    using surround_area [OF m(2) _ _ _ _ _ m(1) assms(5) _ sm(2), of "sel_of (a @ x) v (y @ b)" once] assms(5)
    by (simp add: sel_of_def once area_def)
  ultimately have twice: "applySurroundSelection tr (Fixed h) tail key (Some (single_options block)) once = area a v b True"
    by (simp add: applySurroundSelection_def)
  show ?thesis
    unfolding Let_def once_def [symmetric] twice fields
    using once whole start by (simp add: area_def)
qed

section \<open>Lists over several lines\<close>

lemma wraps_marked: "wraps h tail (h @ l @ tail)"
  using slice_end_append [of tail "h @ l"] by (auto simp: wraps_def)

lemma slice_marked: "tail \<noteq> [] \<Longrightarrow> js_slice (int (length h)) (- int (length tail)) (h @ l @ tail) = l"
  by (simp add: js_slice_def clip_bound_def Let_def)

lemma loop_back:
  "op \<noteq> ADDED \<Longrightarrow> multiline_loop H tail ae op h (multiline_loop H tail ae ADDED h ls) = ls"
proof (induction ls arbitrary: op h)
  case (Cons l ls)
  show ?case
  proof (cases "\<not> ae \<and> l = []")
    case True
    then show ?thesis using Cons by (simp add: Let_def)
  next
    case False
    then have "\<not> (\<not> ae \<and> h @ l @ tail = [])" by auto
    then show ?thesis
      using False Cons wraps_marked [of h tail l] slice_marked [of tail h l]
      by (auto simp: Let_def)
  qed
qed simp

definition first_marked :: "bool \<Rightarrow> string \<Rightarrow> string \<Rightarrow> string list \<Rightarrow> bool" where
  "first_marked ae h tail ls =
     (case find (\<lambda>l. ae \<or> l \<noteq> []) ls of None \<Rightarrow> False | Some l \<Rightarrow> wraps h tail l)"

lemma loop_starts:
  "\<not> first_marked ae h tail ls \<Longrightarrow> multiline_loop H tail ae NONE h ls = multiline_loop H tail ae ADDED h ls"
  by (induction ls) (auto simp: first_marked_def Let_def)

lemma added_skip: "\<not> ae \<and> l = [] \<Longrightarrow>
    multiline_loop H tail ae ADDED h (l # ls) = [] # multiline_loop H tail ae ADDED h ls"
  by (simp add: Let_def)

lemma added_line: "\<not> (\<not> ae \<and> l = []) \<Longrightarrow>
    multiline_loop H tail ae ADDED h (l # ls) =
      (h @ l @ tail) # multiline_loop H tail ae ADDED (getHead H (Some h)) ls"
  by (auto simp: Let_def)

lemma loop_free:
  assumes "\<forall>p. c \<notin> set (getHead H p)" and "c \<notin> set tail" and "c \<notin> set h"
    and "\<forall>l \<in> set ls. c \<notin> set l"
  shows "\<forall>l \<in> set (multiline_loop H tail ae ADDED h ls). c \<notin> set l"
  using assms(3,4)
proof (induction ls arbitrary: h)
  case (Cons l ls)
  show ?case
  proof (cases "\<not> ae \<and> l = []")
    case True
    then show ?thesis using Cons.IH [of h] Cons.prems unfolding added_skip [OF True] by simp
  next
    case False
    then show ?thesis
      using Cons.IH [of "getHead H (Some h)"] Cons.prems assms(1,2) unfolding added_line [OF False] by simp
  qed
qed simp

lemma loop_nonempty: "multiline_loop H tail ae ADDED h ls = [] \<longleftrightarrow> ls = []"
  by (cases ls) (auto simp: Let_def)

lemma loop_length: "length (multiline_loop H tail ae ADDED h ls) = length ls"
proof (induction ls arbitrary: h)
  case (Cons l ls)
  show ?case
  proof (cases "\<not> ae \<and> l = []")
    case True
    then show ?thesis using Cons unfolding added_skip [OF True] by simp
  next
    case False
    then show ?thesis using Cons unfolding added_line [OF False] by simp
  qed
qed simp

lemma loop_last:
  "ls \<noteq> [] \<Longrightarrow> last ls \<noteq> [] \<Longrightarrow>
   last (multiline_loop H [] ae ADDED h ls) \<noteq> [] \<and>
   last (last (multiline_loop H [] ae ADDED h ls)) = last (last ls)"
proof (induction ls arbitrary: h)
  case (Cons l ls)
  show ?case
  proof (cases "\<not> ae \<and> l = []")
    case True
    then have "ls \<noteq> []" using Cons.prems by auto
    then show ?thesis using Cons.IH [of h] Cons.prems unfolding added_skip [OF True]
      by (simp only: last_ConsR loop_nonempty simp_thms)
  next
    case False
    show ?thesis
      using Cons.IH [of "getHead H (Some h)"] Cons.prems unfolding added_line [OF False]
      by (cases "ls = []") (simp_all add: loop_nonempty)
  qed
qed simp

lemma last_join: "xs \<noteq> [] \<Longrightarrow> last xs \<noteq> [] \<Longrightarrow> join sep xs \<noteq> [] \<and> last (join sep xs) = last (last xs)"
  by (induction sep xs rule: join.induct) auto

lemma last_line:
  assumes "v \<noteq> []" and "\<not> js_space (last v)"
  shows "last (js_split nl v) \<noteq> [] \<and> last (last (js_split nl v)) = last v"
proof -
  have ne: "js_split nl v \<noteq> []" by (simp add: nl_def)
  have j: "join nl (butlast (js_split nl v) @ [last (js_split nl v)]) = v" using ne by simp
  have last: "last (js_split nl v) \<noteq> []"
  proof
    assume e: "last (js_split nl v) = []"
    show False
    proof (cases "butlast (js_split nl v) = []")
      case True
      then show False using j e assms(1) by simp
    next
      case False
      have "join nl (xs @ [[]]) = join nl xs @ nl" if "xs \<noteq> []" for xs
        using that by (induction xs rule: join.induct [of _ nl]) (auto simp: join_Cons)
      then have "v = join nl (butlast (js_split nl v)) @ nl" using j e False by simp
      then have "last v = CHR 0x0A" by (simp add: nl_def) (metis last_snoc)
      then show False using assms(2) by (simp add: js_space_def)
    qed
  qed
  then show ?thesis using last_join [OF ne last, of nl] by simp
qed

definition listed :: "head \<Rightarrow> string \<Rightarrow> string" where
  "listed H v = getMultilineContents (js_split nl v) H (getHead H None) [] None"

lemma surround_lines_area:
  assumes "1 < length (js_split nl v)" and "s_start sel = int (length a)"
    and "s_end sel = int (length a) + int (length v)" and "s_value sel = v"
    and "tvalue t = a @ v @ b" and "small (a @ v @ b)" and "small (a @ listed H v @ b)" and "v \<noteq> []"
  shows "applySurround tr sel H [] key None t = area a (listed H v) b True"
proof -
  have "insertAt (int (length a)) (int (length a) + int (length v)) (listed H v) t = area (a @ listed H v) [] b True"
    using area_insert [of a "[]" v "[]" b t "listed H v"] assms(5,6) by simp
  moreover have "selectText (int (length a)) (int (length (listed H v))) (area (a @ listed H v) [] b True) =
      area a (listed H v) b True"
    using assms(7) by (intro area_select) (auto simp: area_def small_def)
  ultimately show ?thesis
    using assms(1-4,8) by (auto simp: applySurround_def surround_lines_def listed_def Let_def)
qed

lemma listed_back:
  assumes "v \<noteq> []" and "\<not> js_space (last v)"
    and "\<forall>p. CHR 0x0A \<notin> set (getHead H p)"
    and "\<not> first_marked False (getHead H None) [] (js_split nl v)"
  shows "listed H (listed H v) = v \<and> listed H v \<noteq> [] \<and> last (listed H v) = last v \<and>
    length (js_split nl (listed H v)) = length (js_split nl v)"
proof -
  let ?ls = "js_split nl v"
  let ?ms = "multiline_loop H [] False ADDED (getHead H None) ?ls"
  have ne: "?ls \<noteq> []" by (simp add: nl_def)
  have free: "\<forall>l \<in> set ?ls. CHR 0x0A \<notin> set l" using js_split_free by (auto simp: nl_def)
  have eq: "listed H v = join nl ?ms"
    using loop_starts [OF assms(4)] by (simp add: listed_def getMultilineContents_def)
  have "\<forall>l \<in> set ?ms. CHR 0x0A \<notin> set l"
    using assms(3) free by (intro loop_free) simp_all
  then have split: "js_split nl (join nl ?ms) = ?ms"
    using ne loop_nonempty [of H "[]" False "getHead H None" ?ls] by (simp add: nl_def split_join)
  have "listed H (join nl ?ms) = v"
    unfolding listed_def split getMultilineContents_def by (simp add: loop_back)
  then have "listed H (listed H v) = v" unfolding eq .
  moreover have "last ?ms \<noteq> [] \<and> last (last ?ms) = last v"
    using loop_last [OF ne, of H False "getHead H None"] last_line [OF assms(1,2)] by simp
  then have "listed H v \<noteq> [] \<and> last (listed H v) = last v"
    unfolding eq using last_join [of ?ms nl] ne by (simp add: loop_nonempty)
  ultimately show ?thesis unfolding eq split loop_length by simp
qed

text \<open>
  Turning the selected lines into a list and back: when the first line with text has no list
  item yet, the second application of the command takes away what the first one put before the
  lines, also the running numbers of a numbered list.
\<close>

theorem list_roundtrip:
  assumes "text_ok t" and "1 < length (js_split nl v)" and "v = s_value (getSelected False t)"
    and "\<forall>p. CHR 0x0A \<notin> set (getHead H p)"
    and "\<not> first_marked False (getHead H None) [] (js_split nl v)"
    and "small (s_pre (getSelected False t) @ listed H v @ s_post (getSelected False t))"
  shows "let once = applySurroundSelection tr H [] key None t;
             twice = applySurroundSelection tr H [] key None once
         in tvalue once = s_pre (getSelected False t) @ listed H v @ s_post (getSelected False t) \<and>
            tvalue twice = tvalue t \<and> sstart twice = sstart t \<and>
            int (send twice) = s_end (getSelected False t)"
proof -
  obtain a b where fields: "s_start (getSelected False t) = int (length a)"
    "s_end (getSelected False t) = int (length a) + int (length v)"
    "s_pre (getSelected False t) = a" "s_post (getSelected False t) = b"
    and whole: "tvalue t = a @ v @ b" and last: "v = [] \<or> \<not> js_space (last v)" and start: "sstart t = length a"
    using getSelected_parts [OF assms(1)] assms(3) by metis
  have ne: "v \<noteq> []" using assms(2) by (auto simp: js_split_def nl_def split_free)
  with last have nsp: "\<not> js_space (last v)" by simp
  have sm: "small (a @ v @ b)" "small (a @ listed H v @ b)"
    using assms(1,6) whole fields by (simp_all add: text_ok_def small_def)
  note backs = listed_back [OF ne nsp assms(4,5)]
  define once where "once = applySurroundSelection tr H [] key None t"
  have once: "once = area a (listed H v) b True"
    unfolding once_def applySurroundSelection_def
    using surround_lines_area [OF assms(2) _ _ _ whole sm ne, of "getSelected False t"] fields assms(3) [symmetric] by simp
  have "getSelected False once = sel_of a (listed H v) b"
    unfolding once using backs nsp by (intro getSelected_area) simp
  then have twice: "applySurroundSelection tr H [] key None once = area a v b True"
    using surround_lines_area [of "listed H v" "sel_of a (listed H v) b" a once b H tr key] backs assms(2) sm
    by (simp add: applySurroundSelection_def once area_def sel_of_def)
  show ?thesis
    unfolding Let_def once_def [symmetric] twice fields
    using once whole start by (simp add: area_def)
qed

section \<open>Indenting\<close>

lemma deindent_indented: "l \<noteq> [] \<Longrightarrow> deindentLine (replicate n ch @ l) ch n = l"
  by (simp add: deindentLine_def)

lemma deindent_blank: "deindentLine (replicate n ch) ch n = replicate n ch"
  by (simp add: deindentLine_def)

text \<open>
  \<open>replaceText\<close> without options looks for the first occurrence of the old text, wherever the
  selection is.
\<close>

lemma replaceText_first:
  assumes "find_at old (tvalue t) = Some k" and "length (tvalue t) < 2 ^ 31"
  shows "replaceText old new skip_selection t =
    Inr (t\<lparr>tvalue := take k (tvalue t) @ new @ drop (k + length old) (tvalue t),
           sstart := k + length new, send := k + length new, focused := True\<rparr>)"
proof -
  have le: "k + length old \<le> length (tvalue t)" by (rule find_at_le [OF assms(1)])
  show ?thesis
    using assms le insertAt_nat [of k "k + length old" t new]
    by (simp add: replaceText_def skip_selection_def no_options_def Let_def determinePostReplaceSelection_def)
qed

text \<open>
  Indenting changes the first place in the text where the lines to indent occur. When the same
  lines stand earlier in the text, those are indented and the selected ones stay as they are.
\<close>

theorem indent_first_occurrence:
  assumes "text_ok t" and "sel = getSelected False t"
    and "indent_char (s_value sel) = (ch, steps)"
    and "old = with_line_indent ch (s_lineVal sel) (s_value sel)"
    and "new = join nl (map (indent_line direction ch steps) (js_split nl old))"
    and "\<not> blank new" and "find_at old (tvalue t) = Some k"
  shows "tvalue (indentSelection direction t) = take k (tvalue t) @ new @ drop (k + length old) (tvalue t)"
proof -
  have "length (tvalue t) < 2 ^ 31" using assms(1) by (simp add: text_ok_def)
  note first = replaceText_first [OF assms(7) this, of new]
  have "tvalue (selectText i n u) = tvalue u" for i n u
    by (simp add: selectText_def setSelectionRange_def Let_def)
  then show ?thesis
    using assms(2-6) first by (simp add: indentSelection_def keep_text_def Let_def)
qed

section \<open>Numbered lists\<close>

lemma length_show_mono: "m \<le> n \<Longrightarrow> length (show_nat m) \<le> length (show_nat n)"
proof (induction n arbitrary: m rule: show_nat.induct)
  case (1 n)
  show ?case
  proof (cases "m < 10")
    case True
    then show ?thesis by (subst (1 2) show_nat.simps) simp
  next
    case False
    then have "length (show_nat (m div 10)) \<le> length (show_nat (n div 10))"
      using 1 by (intro 1(1)) (auto simp: div_le_mono)
    then show ?thesis using False 1(2) by (subst (1 2) show_nat.simps) simp
  qed
qed

lemma trim_start_length: "length (trim_start s) \<le> length s"
  by (simp add: trim_start_def length_dropWhile_le)

lemma number_lines_length: "sum_list (map length ls) \<le> sum_list (map length (number_lines n ls)) \<and>
    length (number_lines n ls) = length ls"
proof (induction n ls rule: number_lines.induct)
  case (2 n l ls)
  have "length l \<le> length (take (length l - length (trim_start l)) l @ show_nat (n + 1) @
      drop (length (show_nat n)) (trim_start l))"
    using length_show_mono [of n "n + 1"] trim_start_length [of l] by simp
  then show ?case
    using 2 by (cases "prefix (show_nat n @ ''.'') (trim_start l)") (auto simp: Let_def intro: add_mono)
qed simp

lemma length_join: "length (join sep xs) = sum_list (map length xs) + (length xs - 1) * length sep"
  by (induction sep xs rule: join.induct) auto

lemma updateListNumbers_length: "length s \<le> length (updateListNumbers s n)"
proof -
  have "length s = length (join nl (js_split nl s))" by simp
  also have "\<dots> \<le> length (updateListNumbers s n)"
    unfolding length_join updateListNumbers_def using number_lines_length [of "js_split nl s" n] by simp
  finally show ?thesis .
qed

lemma tvalue_select [simp]: "tvalue (selectText i n u) = tvalue u"
  by (simp add: selectText_def setSelectionRange_def Let_def)

text \<open>
  Continuing a numbered list when there is text behind the caret: the text behind the caret is
  looked up from the beginning, and the new number with the renumbered rest replaces its first
  occurrence. Only when that is the place of the caret the list is continued there.
\<close>

theorem continue_numbered:
  assumes "text_ok t" and "rest = drop (sstart t) (tvalue t)"
    and "lines = js_split nl (take (sstart t) (tvalue t))" and "2 \<le> length lines"
    and "list_prefix (lines ! (length lines - 2)) = Some (lp, indent, bullet, Some ds, box)"
    and "\<not> isAfterStartedCodeFence (take (sstart t - 1) (tvalue t))"
    and "\<not> blank rest" and "current = takeWhile (\<lambda>c. c \<noteq> CHR 0x0A) rest"
    and "\<not> (blank (drop (length lp) (lines ! (length lines - 2))) \<and> blank current)"
    and "find_at rest (tvalue t) = Some k"
  shows "tvalue (maybeContinueList t) = take k (tvalue t) @
    (indent @ next_item bullet (Some ds) box current) @ updateListNumbers rest (read_nat ds + 1) @
    drop (k + length rest) (tvalue t)"
proof -
  have "length (tvalue t) < 2 ^ 31" using assms(1) by (simp add: text_ok_def)
  note first = replaceText_first [OF assms(10) this]
  have all: "take (n + length (updateListNumbers rest m)) rest = rest" for n m
    using updateListNumbers_length [of rest m] by simp
  have "tvalue (continue_item item (Some ds) t) =
    take k (tvalue t) @ item @ updateListNumbers rest (read_nat ds + 1) @ drop (k + length rest) (tvalue t)" for item
    unfolding continue_item_def Let_def assms(2) [symmetric] option.simps all first keep_text_def sum.simps
    using assms(7) by simp
  moreover have "maybeContinueList t = continue_item (indent @ next_item bullet (Some ds) box current) (Some ds) t"
    unfolding maybeContinueList_def Let_def assms(2) [symmetric] assms(3) [symmetric] assms(5) option.simps prod.case
      assms(8) [symmetric] if_not_P [OF assms(6)] if_P [OF assms(9)]
    using assms(4) by simp
  ultimately show ?thesis by simp
qed

section \<open>Selections after a replacement\<close>

lemma post_selection_bounds:
  assumes "0 \<le> s" "s \<le> e" "e \<le> n" "0 \<le> n0" "n0 \<le> n1" "n1 \<le> n" "n0 \<le> r1"
    and "determinePostReplaceSelection (s, e) (n0, n1) (n0, r1) = (s', e')"
  shows "0 \<le> s' \<and> s' \<le> e' \<and> e' \<le> n + (r1 - n1)"
  using assms by (auto simp: determinePostReplaceSelection_def Let_def split: if_splits)

text \<open>
  Replacing text outside the selection leaves the selected text selected: the selection moves with
  its text when it stands behind the replaced part, and stays where it is when it stands before.
\<close>

theorem replace_keeps_selection:
  assumes "text_ok t" and "focused t" and "find_at old (tvalue t) = Some k \<and> old \<noteq> []"
    and "send t \<le> k \<or> k + length old \<le> sstart t"
    and "small (tvalue t @ new)"
    and "replaceText old new no_options t = Inr u"
  shows "tvalue u = take k (tvalue t) @ new @ drop (k + length old) (tvalue t) \<and>
    drop (sstart u) (take (send u) (tvalue u)) = drop (sstart t) (take (send t) (tvalue t))"
proof -
  let ?v = "tvalue t" and ?w = "take k (tvalue t) @ new @ drop (k + length old) (tvalue t)"
  have le: "k + length old \<le> length ?v" using find_at_le assms(3) by blast
  have small: "length ?v < 2 ^ 31" "length ?w < 2 ^ 31" using assms(1,5) le by (auto simp: text_ok_def small_def)
  define t1 where "t1 = insertAt (int k) (int k + int (length old)) new t"
  have t1: "t1 = t\<lparr>tvalue := ?w, sstart := k + length new, send := k + length new, focused := True\<rparr>"
    unfolding t1_def using insertAt_nat [OF _ le small(1), of k new] by simp
  have lt: "send t1 \<le> length (tvalue t1)" "length (tvalue t1) < 2 ^ 31" using t1 le small by auto
  have ok: "sstart t \<le> send t" "send t \<le> length ?v" using assms(1) by (auto simp: text_ok_def)
  define d where "d = (if send t \<le> k then (0::int) else int (length new) - int (length old))"
  define i where "i = nat (int (sstart t) + d)"
  have i: "int i = int (sstart t) + d" "i + (send t - sstart t) \<le> length ?w"
    using assms(4) ok le unfolding i_def d_def by (auto split: if_splits)
  have "0 < length old" using assms(3) by simp
  then have old: "send t \<le> k \<or> k < sstart t" using assms(4) by linarith
  have sel: "determinePostReplaceSelection (int (sstart t), int (send t)) (int k, int k + int (length old))
      (int k, int k + int (length new)) = (int i, int i + int (send t - sstart t))"
    using assms(4) ok i(1) old by (auto simp: determinePostReplaceSelection_def d_def Let_def split: if_splits)
  have "u = selectText (int i) (int (send t - sstart t)) t1"
    using assms(6,3) sel t1 by (simp add: replaceText_def no_options_def Let_def t1_def [symmetric])
  then have u: "u = t1\<lparr>sstart := i, send := i + (send t - sstart t), focused := True\<rparr>"
    using selectText_nat [of i "send t - sstart t" t1] i(2) lt t1 by simp
  have "drop i (take (i + (send t - sstart t)) ?w) = drop (sstart t) (take (send t) ?v)"
  proof (cases "send t \<le> k")
    case True
    then have "i = sstart t" using i(1) by (simp add: d_def)
    then show ?thesis using True ok le by (simp add: min_def)
  next
    case False
    then have start: "k + length old \<le> sstart t" using assms(4) by simp
    then obtain m where m: "sstart t = k + length old + m" by (metis le_iff_add)
    have "i = k + length new + m" using i(1) False m by (simp add: d_def)
    then have "drop i (take (i + (send t - sstart t)) ?w) =
        take (send t - sstart t) (drop m (drop (k + length old) ?v))"
      using le by (simp add: drop_take)
    also have "\<dots> = drop (sstart t) (take (send t) ?v)"
      using m by (simp add: drop_take add.commute add.left_commute)
    finally show ?thesis .
  qed
  then show ?thesis using u t1 by simp
qed

section \<open>Witnesses\<close>

definition demo_say :: textarea where
  "demo_say = \<lparr>tvalue = ''say hi now'', sstart = 4, send = 7, focused = True\<rparr>"

lemma demo_say_ok: "text_ok demo_say" "small (tvalue demo_say @ ''**'' @ ''**'' @ ''**'' @ ''**'')"
  by (simp_all add: demo_say_def text_ok_def small_def)

lemma demo_say_sel: "getSelected False demo_say = \<lparr>s_start = 4, s_end = 6, s_value = ''hi'',
    s_pre = ''say '', s_post = '' now'', s_lineVal = ''say hi now''\<rparr>"
  by code_simp

theorem surround_roundtrip_witness:
  "let once = applySurroundSelection id (Fixed ''**'') ''**'' ''bold_text'' (Some (single_options False)) demo_say
   in tvalue once = ''say **hi** now'' \<and>
      tvalue (applySurroundSelection id (Fixed ''**'') ''**'' ''bold_text'' (Some (single_options False)) once) = ''say hi now''"
proof -
  have "\<not> (slice_end 2 ''say '' = ''**'')" by code_simp
  then show ?thesis
    using surround_roundtrip [OF demo_say_ok, where h = "''**''" and tail = "''**''" and block = False and tr = id and key = "''bold_text''"]
    unfolding demo_say_sel by (simp add: marks_def demo_say_def Let_def)
qed

definition demo_lines :: textarea where
  "demo_lines = \<lparr>tvalue = ''x'' @ nl @ ''y'' @ nl @ ''x'', sstart = 2, send = 5, focused = True\<rparr>"

lemma demo_lines_sel: "getSelected False demo_lines = \<lparr>s_start = 2, s_end = 5, s_value = ''y'' @ nl @ ''x'',
    s_pre = ''x'' @ nl, s_post = [], s_lineVal = ''y''\<rparr>"
  by code_simp

theorem list_roundtrip_witness:
  "let once = applySurroundSelection id (Fixed ''* '') [] ''list_item'' None demo_lines
   in tvalue once = ''x'' @ nl @ ''* y'' @ nl @ ''* x'' \<and>
      tvalue (applySurroundSelection id (Fixed ''* '') [] ''list_item'' None once) = tvalue demo_lines"
proof -
  have ok: "text_ok demo_lines" by (simp add: demo_lines_def text_ok_def nl_def)
  have lines: "1 < length (js_split nl (''y'' @ nl @ ''x''))" by code_simp
  have sel: "''y'' @ nl @ ''x'' = s_value (getSelected False demo_lines)" unfolding demo_lines_sel by simp
  have free: "\<forall>p. CHR 0x0A \<notin> set (getHead (Fixed ''* '') p)" by (simp add: getHead_def)
  have fresh: "\<not> first_marked False (getHead (Fixed ''* '') None) [] (js_split nl (''y'' @ nl @ ''x''))" by code_simp
  have out: "listed (Fixed ''* '') (''y'' @ nl @ ''x'') = ''* y'' @ nl @ ''* x''" by code_simp
  have "small (s_pre (getSelected False demo_lines) @ listed (Fixed ''* '') (''y'' @ nl @ ''x'') @ s_post (getSelected False demo_lines))"
    unfolding demo_lines_sel out by (simp add: small_def nl_def)
  from list_roundtrip [OF ok lines sel free fresh this, of id "''list_item''"] show ?thesis
    unfolding demo_lines_sel out by (simp add: Let_def nl_def)
qed

definition demo_twice :: textarea where
  "demo_twice = \<lparr>tvalue = ''x'' @ nl @ ''y'' @ nl @ ''x'', sstart = 4, send = 5, focused = True\<rparr>"

theorem indent_first_occurrence_witness:
  "tvalue (indentSelection RightIndent demo_twice) = ''  x'' @ nl @ ''y'' @ nl @ ''x''"
proof -
  have ok: "text_ok demo_twice" by (simp add: demo_twice_def text_ok_def nl_def)
  have "indent_char (s_value (getSelected False demo_twice)) = (CHR '' '', 2)"
    "''x'' = with_line_indent (CHR '' '') (s_lineVal (getSelected False demo_twice)) (s_value (getSelected False demo_twice))"
    "''  x'' = join nl (map (indent_line RightIndent (CHR '' '') 2) (js_split nl ''x''))"
    "\<not> blank ''  x''" "find_at ''x'' (tvalue demo_twice) = Some 0" by code_simp+
  from indent_first_occurrence [OF ok refl this] show ?thesis
    by (simp add: demo_twice_def nl_def)
qed

definition demo_item :: textarea where
  "demo_item = \<lparr>tvalue = ''1. go '' @ nl @ ''go'', sstart = 7, send = 7, focused = True\<rparr>"

theorem continue_numbered_witness:
  "tvalue (maybeContinueList demo_item) = ''1. 2. go '' @ nl @ ''go''"
proof -
  have ok: "text_ok demo_item" by (simp add: demo_item_def text_ok_def nl_def)
  have "''go'' = drop (sstart demo_item) (tvalue demo_item)"
    "[''1. go '', []] = js_split nl (take (sstart demo_item) (tvalue demo_item))"
    "2 \<le> length [''1. go '', []]"
    "list_prefix ([''1. go '', []] ! (length [''1. go '', []] - 2)) = Some (''1. '', [], ''1.'', Some ''1'', False)"
    "\<not> isAfterStartedCodeFence (take (sstart demo_item - 1) (tvalue demo_item))"
    "\<not> blank ''go''" "''go'' = takeWhile (\<lambda>c. c \<noteq> CHR 0x0A) ''go''"
    "\<not> (blank (drop (length ''1. '') ([''1. go '', []] ! (length [''1. go '', []] - 2))) \<and> blank ''go'')"
    "find_at ''go'' (tvalue demo_item) = Some 3" by code_simp+
  note result = continue_numbered [OF ok this]
  have "next_item ''1.'' (Some ''1'') False ''go'' = ''2. ''" "updateListNumbers ''go'' (read_nat ''1'' + 1) = ''go''"
    by code_simp+
  then show ?thesis unfolding result by (simp add: demo_item_def nl_def)
qed

definition demo_upload :: textarea where
  "demo_upload = \<lparr>tvalue = ''[up]() ab'', sstart = 7, send = 9, focused = True\<rparr>"

theorem replace_keeps_selection_witness:
  "\<exists>u. replaceText ''[up]()'' ''![cat](c.png)'' no_options demo_upload = Inr u \<and>
     tvalue u = ''![cat](c.png) ab'' \<and> drop (sstart u) (take (send u) (tvalue u)) = ''ab''"
proof -
  have ok: "text_ok demo_upload" "focused demo_upload" "small (tvalue demo_upload @ ''![cat](c.png)'')"
    by (simp_all add: demo_upload_def text_ok_def small_def)
  have at: "find_at ''[up]()'' (tvalue demo_upload) = Some 0 \<and> ''[up]()'' \<noteq> []" by code_simp
  have out: "send demo_upload \<le> 0 \<or> 0 + length ''[up]()'' \<le> sstart demo_upload" by code_simp
  have "\<exists>u. replaceText ''[up]()'' ''![cat](c.png)'' no_options demo_upload = Inr u"
    by (simp add: replaceText_def no_options_def split: option.split prod.split)
  then obtain u where u: "replaceText ''[up]()'' ''![cat](c.png)'' no_options demo_upload = Inr u" by blast
  have "take 0 (tvalue demo_upload) @ ''![cat](c.png)'' @ drop (0 + length ''[up]()'') (tvalue demo_upload) = ''![cat](c.png) ab''"
    "drop (sstart demo_upload) (take (send demo_upload) (tvalue demo_upload)) = ''ab''"
    by (simp_all add: demo_upload_def)
  then show ?thesis
    using replace_keeps_selection [OF ok(1,2) at out ok(3) u] u by metis
qed

end
