(* ===== verification/EmojiStore.thy ===== *)
theory EmojiStore
  imports BrowserStore JsString "HOL-Library.Multiset"
begin

text \<open>
  \<open>frontend/discourse/app/services/emoji-store.js\<close>: the recently used emojis of each context and
  the skin tone, kept in local storage.

  Tracked properties are fields. \<open>JSON\<close> is the arguments \<open>parse\<close> and \<open>stringify\<close>, as in BrowserStore,
  and \<open>tonable\<close> is \<open>isSkinTonableEmoji\<close> of the emoji tables. A list of emojis is an array of strings.
\<close>

definition STORE_NAMESPACE :: string where "STORE_NAMESPACE = ''discourse_emoji_reaction_''"
definition SKIN_TONE_STORE_KEY :: string where "SKIN_TONE_STORE_KEY = ''emojiSelectedDiversity''"
definition USER_EMOJIS_STORE_KEY :: string where "USER_EMOJIS_STORE_KEY = ''emojiUsage''"
definition MAX_DISPLAYED_EMOJIS :: nat where "MAX_DISPLAYED_EMOJIS = 20"
definition MAX_TRACKED_EMOJIS :: nat where "MAX_TRACKED_EMOJIS = MAX_DISPLAYED_EMOJIS * 2"
definition DEFAULT_DIVERSITY :: int where "DEFAULT_DIVERSITY = 1"

record emoji_store =
  contexts :: "(string, string list) omap"
  diversity_of :: jsval
  storage_of :: storage

type_synonym json_parse = "string \<Rightarrow> jsval option"

text \<open>The nullish coalescing operator.\<close>

definition nullish :: "jsval \<Rightarrow> jsval \<Rightarrow> jsval" where
  "nullish a b = (if a = JUndef \<or> a = JNull then b else a)"

definition diversity :: "json_parse \<Rightarrow> emoji_store \<Rightarrow> jsval" where
  "diversity parse s =
     nullish (diversity_of s)
       (nullish (kv_getObject parse STORE_NAMESPACE SKIN_TONE_STORE_KEY (storage_of s)) (JNum 1))"

definition set_diversity :: "(jsval \<Rightarrow> string) \<Rightarrow> jsval \<Rightarrow> emoji_store \<Rightarrow> emoji_store" where
  "set_diversity stringify v s =
     s\<lparr>diversity_of := v,
       storage_of := kv_setObject stringify STORE_NAMESPACE SKIN_TONE_STORE_KEY v (storage_of s)\<rparr>"

definition emojisStorekeyForContext :: "string \<Rightarrow> string" where
  "emojisStorekeyForContext context = context @ ''_'' @ USER_EMOJIS_STORE_KEY"

text \<open>A stored array of strings, and the array that is stored.\<close>

definition strings_of :: "jsval \<Rightarrow> string list" where
  "strings_of v = (case v of
      JArr xs \<Rightarrow> map (\<lambda>x. case x of JStr e \<Rightarrow> e | _ \<Rightarrow> []) xs
    | _ \<Rightarrow> [])"

definition strings_val :: "string list \<Rightarrow> jsval" where
  "strings_val es = JArr (map JStr es)"

definition recentEmojisForContext :: "json_parse \<Rightarrow> string \<Rightarrow> emoji_store \<Rightarrow> string list" where
  "recentEmojisForContext parse context s =
     (case om_get (contexts s) context of
        Some es \<Rightarrow> es
      | None \<Rightarrow> strings_of
          (kv_getObject parse STORE_NAMESPACE (emojisStorekeyForContext context) (storage_of s)))"

text \<open>\<open>code.replace(/(^:)|(:$)/g, "")\<close>\<close>

definition normalizeEmojiCode :: "string \<Rightarrow> string" where
  "normalizeEmojiCode code =
     (let body = (if prefix '':'' code then tl code else code)
      in if body \<noteq> [] \<and> last body = CHR '':'' then butlast body else body)"

definition addEmojiToContext :: "json_parse \<Rightarrow> string \<Rightarrow> string \<Rightarrow> emoji_store \<Rightarrow> string list" where
  "addEmojiToContext parse emoji context s =
     take MAX_TRACKED_EMOJIS (normalizeEmojiCode emoji # recentEmojisForContext parse context s)"

definition persistRecentEmojisForContext ::
    "(jsval \<Rightarrow> string) \<Rightarrow> string list \<Rightarrow> string \<Rightarrow> emoji_store \<Rightarrow> emoji_store" where
  "persistRecentEmojisForContext stringify es context s =
     s\<lparr>storage_of := kv_setObject stringify STORE_NAMESPACE (emojisStorekeyForContext context)
         (strings_val es) (storage_of s)\<rparr>"

definition trackEmojiForContext ::
    "json_parse \<Rightarrow> (jsval \<Rightarrow> string) \<Rightarrow> string \<Rightarrow> string \<Rightarrow> emoji_store \<Rightarrow> string list \<times> emoji_store" where
  "trackEmojiForContext parse stringify emoji context s =
     (let es = addEmojiToContext parse emoji context s
      in (es, persistRecentEmojisForContext stringify es context
                (s\<lparr>contexts := om_set context es (contexts s)\<rparr>)))"

definition resetContext :: "(jsval \<Rightarrow> string) \<Rightarrow> string \<Rightarrow> emoji_store \<Rightarrow> emoji_store" where
  "resetContext stringify context s =
     persistRecentEmojisForContext stringify [] context (s\<lparr>contexts := om_set context [] (contexts s)\<rparr>)"

definition reset_emojis :: "(jsval \<Rightarrow> string) \<Rightarrow> emoji_store \<Rightarrow> emoji_store" where
  "reset_emojis stringify s =
     set_diversity stringify (JNum DEFAULT_DIVERSITY)
       (fold (resetContext stringify) (om_keys (contexts s)) s)"

section \<open>Favorites\<close>

text \<open>
  The properties of an object in the order of \<open>Object.keys\<close>: the names that are array indices come
  first, in ascending order; the emoji \<open>100\<close> is one.
\<close>

definition is_index :: "string \<Rightarrow> bool" where
  "is_index k \<longleftrightarrow> k = show_nat (read_nat k) \<and> int (read_nat k) < 4294967295"

definition object_keys :: "string list \<Rightarrow> string list" where
  "object_keys ks = sort_key read_nat (filter is_index ks) @ filter (\<lambda>k. \<not> is_index k) ks"

definition count_emojis :: "string list \<Rightarrow> (string, nat) omap" where
  "count_emojis es =
     fold (\<lambda>e c. om_set e ((case om_get c e of None \<Rightarrow> 0 | Some n \<Rightarrow> n) + 1) c) es []"

definition count_of :: "(string, nat) omap \<Rightarrow> string \<Rightarrow> nat" where
  "count_of c e = (case om_get c e of None \<Rightarrow> 0 | Some n \<Rightarrow> n)"

text \<open>The sort is stable, with the higher counts first.\<close>

definition sortEmojisByFrequency :: "string list \<Rightarrow> string list" where
  "sortEmojisByFrequency es =
     (let c = count_emojis es
      in sort_key (\<lambda>e. - int (count_of c e)) (object_keys (om_keys c)))"

definition tone_text :: "jsval \<Rightarrow> string" where
  "tone_text v = (case v of JNum n \<Rightarrow> show_int n | JStr t \<Rightarrow> t | _ \<Rightarrow> ''undefined'')"

definition favoritesForContext ::
    "json_parse \<Rightarrow> (string \<Rightarrow> bool) \<Rightarrow> string \<Rightarrow> emoji_store \<Rightarrow> string list" where
  "favoritesForContext parse tonable context s =
     map (\<lambda>e. if diversity parse s = JNum DEFAULT_DIVERSITY \<or> \<not> tonable e then e
              else e @ '':t'' @ tone_text (diversity parse s))
       (take MAX_DISPLAYED_EMOJIS (sortEmojisByFrequency (recentEmojisForContext parse context s)))"

section \<open>Correctness\<close>

lemma count_of_set: "count_of (om_set e n c) x = (if x = e then n else count_of c x)"
  by (simp add: count_of_def)

lemma count_emojis_fold:
  "count_of (fold (\<lambda>e c. om_set e (count_of c e + 1) c) es c) x = count_of c x + count (mset es) x \<and>
   set (om_keys (fold (\<lambda>e c. om_set e (count_of c e + 1) c) es c)) = set (om_keys c) \<union> set es \<and>
   (om_wf c \<longrightarrow> om_wf (fold (\<lambda>e c. om_set e (count_of c e + 1) c) es c))"
proof (induction es arbitrary: c)
  case (Cons e es)
  let ?c = "om_set e (count_of c e + 1) c"
  have "set (om_keys ?c) = insert e (set (om_keys c))" by (auto simp: om_keys_set)
  then show ?case using Cons [of ?c] by (auto simp: count_of_set)
qed simp

lemma count_emojis_count: "count_of (count_emojis es) = count (mset es)"
  and count_emojis_keys: "set (om_keys (count_emojis es)) = set es"
  and count_emojis_wf: "om_wf (count_emojis es)"
proof -
  have eq: "count_emojis es = fold (\<lambda>e c. om_set e (count_of c e + 1) c) es []"
    by (simp add: count_emojis_def count_of_def)
  show "count_of (count_emojis es) = count (mset es)" "set (om_keys (count_emojis es)) = set es"
    "om_wf (count_emojis es)"
    unfolding eq using count_emojis_fold [of es "[]"] by (auto simp: count_of_def)
qed

lemma object_keys_mset: "mset (object_keys ks) = mset ks"
proof -
  have "mset (filter is_index ks) + mset (filter (\<lambda>k. \<not> is_index k) ks) = mset ks"
    by (metis mset_filter multiset_partition)
  then show ?thesis by (simp add: object_keys_def)
qed

lemma sorted_favorites:
  "set (sortEmojisByFrequency es) = set es \<and> distinct (sortEmojisByFrequency es) \<and>
   sorted_wrt (\<lambda>a b. count (mset es) b \<le> count (mset es) a) (sortEmojisByFrequency es)"
proof -
  let ?ks = "object_keys (om_keys (count_emojis es))"
  have ks: "mset ?ks = mset (om_keys (count_emojis es))" by (rule object_keys_mset)
  have "set ?ks = set es" "distinct ?ks"
    using mset_eq_setD [OF ks] mset_eq_imp_distinct_iff [OF ks] count_emojis_keys count_emojis_wf by auto
  moreover have "sorted (map (\<lambda>e. - int (count (mset es) e)) (sortEmojisByFrequency es))"
    by (simp add: sortEmojisByFrequency_def Let_def count_emojis_count)
  then have "sorted_wrt (\<lambda>a b. count (mset es) b \<le> count (mset es) a) (sortEmojisByFrequency es)"
    by (simp add: sorted_map)
  ultimately show ?thesis by (simp add: sortEmojisByFrequency_def Let_def)
qed

lemma sortEmojis_prefix:
  "distinct (take n (sortEmojisByFrequency es)) \<and> set (take n (sortEmojisByFrequency es)) \<subseteq> set es"
  using sorted_favorites [of es] set_take_subset by fastforce

text \<open>
  The favorites of a context, without a skin tone: at most twenty of its recent emojis, each once,
  the more frequent ones first, and no emoji that is left out was used more often than one that is
  shown.
\<close>

theorem favorites_spec:
  assumes "diversity parse s = JNum DEFAULT_DIVERSITY"
    and "es = recentEmojisForContext parse ctx s" and "fs = favoritesForContext parse tonable ctx s"
  shows "length fs = min 20 (card (set es)) \<and> distinct fs \<and> set fs \<subseteq> set es \<and>
    sorted_wrt (\<lambda>a b. count (mset es) b \<le> count (mset es) a) fs \<and>
    (\<forall>a \<in> set fs. \<forall>b \<in> set es - set fs. count (mset es) b \<le> count (mset es) a)"
proof -
  let ?all = "sortEmojisByFrequency es"
  have fs: "fs = take 20 ?all"
    using assms by (simp add: favoritesForContext_def MAX_DISPLAYED_EMOJIS_def)
  have all: "set ?all = set es" "distinct ?all"
    "sorted_wrt (\<lambda>a b. count (mset es) b \<le> count (mset es) a) ?all"
    using sorted_favorites [of es] by auto
  then have split: "sorted_wrt (\<lambda>a b. count (mset es) b \<le> count (mset es) a) (take 20 ?all @ drop 20 ?all)"
    by (simp only: append_take_drop_id)
  have "length ?all = card (set es)" using all(1,2) distinct_card by fastforce
  moreover have "count (mset es) b \<le> count (mset es) a" if "a \<in> set fs" "b \<in> set es - set fs" for a b
  proof -
    have "b \<in> set (drop 20 ?all)"
      using that all(1) fs by (metis Diff_iff Un_iff append_take_drop_id set_append)
    then show ?thesis using split that(1) fs unfolding sorted_wrt_append by blast
  qed
  ultimately show ?thesis
    using split sortEmojis_prefix [of 20 es] fs unfolding sorted_wrt_append by (simp add: min.commute)
qed

text \<open>
  A use is recorded in front, at most forty uses are kept, and what was recorded is what a new
  instance of the service reads from the storage, when the storage can be written and \<open>JSON\<close> reads
  back what it wrote.
\<close>

theorem track_persists:
  assumes "storage_of s \<noteq> None"
    and "trackEmojiForContext parse stringify emoji ctx s = (es, s')"
    and "parse (stringify (strings_val es)) = Some (strings_val es)"
  shows "es = take 40 (normalizeEmojiCode emoji # recentEmojisForContext parse ctx s) \<and>
    recentEmojisForContext parse ctx s' = es \<and>
    recentEmojisForContext parse ctx (s'\<lparr>contexts := []\<rparr>) = es"
proof -
  have "map (\<lambda>x. case x of JStr e \<Rightarrow> e | _ \<Rightarrow> []) (map JStr xs) = xs" for xs
    by (induction xs) simp_all
  then have "strings_of (strings_val xs) = xs" for xs
    by (simp add: strings_of_def strings_val_def)
  then show ?thesis
    using assms by (auto simp: trackEmojiForContext_def addEmojiToContext_def Let_def
        persistRecentEmojisForContext_def recentEmojisForContext_def kv_setObject_def kv_set_def
        kv_getObject_def MAX_TRACKED_EMOJIS_def MAX_DISPLAYED_EMOJIS_def)
qed

section \<open>Witnesses\<close>

definition demo_emojis :: emoji_store where
  "demo_emojis = \<lparr>contexts = [(''topic'', [''+1'', ''100'', ''heart'', ''heart''])],
     diversity_of = JNum 1, storage_of = None\<rparr>"

lemma demo_favorites:
  "diversity (\<lambda>_. None) demo_emojis = JNum DEFAULT_DIVERSITY"
  "favoritesForContext (\<lambda>_. None) (\<lambda>_. True) ''topic'' demo_emojis = [''heart'', ''100'', ''+1'']"
  by code_simp+

theorem favorites_spec_witness:
  "distinct (favoritesForContext (\<lambda>_. None) (\<lambda>_. True) ''topic'' demo_emojis) \<and>
   favoritesForContext (\<lambda>_. None) (\<lambda>_. True) ''topic'' demo_emojis = [''heart'', ''100'', ''+1'']"
  using favorites_spec [OF demo_favorites(1) refl refl, where ctx = "''topic''" and tonable = "\<lambda>_. True"]
    demo_favorites(2) by blast

definition demo_json :: "string \<Rightarrow> jsval option" where
  "demo_json t = (if t = ''[]'' then Some (strings_val []) else Some (strings_val [''heart'']))"

lemma demo_track:
  "trackEmojiForContext demo_json (\<lambda>v. if v = strings_val [] then ''[]'' else ''h'') '':heart:'' ''topic''
     (demo_emojis\<lparr>contexts := [], storage_of := Some []\<rparr>) =
   ([''heart''], demo_emojis\<lparr>contexts := [(''topic'', [''heart''])],
      storage_of := Some [(''discourse_emoji_reaction_topic_emojiUsage'', ''h'')]\<rparr>)"
  by code_simp

theorem track_persists_witness:
  "recentEmojisForContext demo_json ''topic'' (demo_emojis\<lparr>contexts := [(''topic'', [''heart''])],
     storage_of := Some [(''discourse_emoji_reaction_topic_emojiUsage'', ''h'')]\<rparr>\<lparr>contexts := []\<rparr>) = [''heart'']"
proof -
  have a: "storage_of (demo_emojis\<lparr>contexts := [], storage_of := Some []\<rparr>) \<noteq> None" by simp
  have j: "demo_json ((\<lambda>v. if v = strings_val [] then ''[]'' else ''h'') (strings_val [''heart''])) =
      Some (strings_val [''heart''])"
    by (simp add: demo_json_def strings_val_def)
  show ?thesis by (rule track_persists [OF a demo_track j, THEN conjunct2, THEN conjunct2])
qed

end
