(* ===== verification/HistoryStore.thy ===== *)
theory HistoryStore
  imports JsPrelude
begin

text \<open>
  \<open>frontend/discourse/app/services/history-store.js\<close>: values that pages keep across navigation, by
  the id of the browser history entry.

  The \<open>Map\<close> objects that hold the values of one entry are shared between the table of entries and
  the pending store of a transition, so they live in a heap (\<open>mheap\<close>). The id of the entry that the
  browser shows, \<open>window.history.state?.uuid\<close>, is the argument \<open>win\<close>; keys are strings, and the
  symbol \<open>HISTORIC_KEY\<close> is a constructor of its own. A transition is a number; its promise settles
  once, with \<open>transition_done\<close> or \<open>transition_failed\<close>. The running application is modelled, not the
  test mode with its permanent pending store.
\<close>

datatype hkey = Historic | Key string

type_synonym 'v hmap = "(hkey, 'v) omap"

record 'v history =
  mheap :: "nat \<Rightarrow> 'v hmap"
  mnext :: nat
  routeData :: "(string option, nat option) omap"
  uuid :: "string option"
  pendingStore :: "nat option"
  handled :: "nat set"
  started :: "(nat \<times> nat) list"

definition HISTORY_SIZE :: nat where "HISTORY_SIZE = 100"

definition new_history :: "'v history" where
  "new_history = \<lparr>mheap = \<lambda>_. [], mnext = 0, routeData = [], uuid = None, pendingStore = None,
     handled = {}, started = []\<rparr>"

definition alloc :: "'v hmap \<Rightarrow> 'v history \<Rightarrow> nat \<times> 'v history" where
  "alloc m s = (mnext s, s\<lparr>mheap := (mheap s)(mnext s := m), mnext := Suc (mnext s)\<rparr>)"

text \<open>The oldest entries go: those that were inserted first.\<close>

definition pruneOldData :: "'v history \<Rightarrow> 'v history" where
  "pruneOldData s = s\<lparr>routeData := drop (length (routeData s) - HISTORY_SIZE) (routeData s)\<rparr>"

definition dataFor :: "string option \<Rightarrow> 'v history \<Rightarrow> nat \<times> 'v history" where
  "dataFor u s =
     (case om_get (routeData s) u of
        Some (Some r) \<Rightarrow> (r, s)
      | _ \<Rightarrow> (let (r, s1) = alloc [] s
             in (r, pruneOldData (s1\<lparr>routeData := om_set u (Some r) (routeData s1)\<rparr>))))"

definition currentStore :: "'v history \<Rightarrow> nat \<times> 'v history" where
  "currentStore s = (case pendingStore s of Some r \<Rightarrow> (r, s) | None \<Rightarrow> dataFor (uuid s) s)"

definition history_get :: "hkey \<Rightarrow> 'v history \<Rightarrow> 'v option \<times> 'v history" where
  "history_get k s = (let (r, s1) = currentStore s in (om_get (mheap s1 r) k, s1))"

definition history_set :: "hkey \<Rightarrow> 'v \<Rightarrow> 'v history \<Rightarrow> 'v history" where
  "history_set k v s =
     (let (r, s1) = currentStore s in s1\<lparr>mheap := (mheap s1)(r := om_set k v (mheap s1 r))\<rparr>)"

definition history_delete :: "hkey \<Rightarrow> 'v history \<Rightarrow> 'v history" where
  "history_delete k s =
     (let (r, s1) = currentStore s in s1\<lparr>mheap := (mheap s1)(r := om_delete k (mheap s1 r))\<rparr>)"

definition isPoppedState :: "('v \<Rightarrow> bool) \<Rightarrow> 'v history \<Rightarrow> bool" where
  "isPoppedState true_val s = (case fst (history_get Historic s) of None \<Rightarrow> False | Some v \<Rightarrow> true_val v)"

text \<open>Whether an entry follows, or precedes, the current one in the order of insertion.\<close>

fun entry_after :: "string option \<Rightarrow> bool \<Rightarrow> string option list \<Rightarrow> bool" where
  "entry_after u found [] = False"
| "entry_after u found (k # ks) = (found \<or> entry_after u (k = u) ks)"

definition hasFutureEntries :: "'v history \<Rightarrow> bool" where
  "hasFutureEntries s = entry_after (uuid s) False (om_keys (routeData s))"

definition hasPastEntries :: "'v history \<Rightarrow> bool" where
  "hasPastEntries s = (case find (\<lambda>k. k \<noteq> None) (om_keys (routeData s)) of
      None \<Rightarrow> False | Some k \<Rightarrow> k \<noteq> uuid s)"

section \<open>Transitions\<close>

text \<open>
  \<open>willResolveModel\<close>: the current entry is marked as left, and the values that the new page sets
  go into a pending store: an empty one for an ordinary transition, a copy of the entry's values
  for one of the browser's back and forward buttons.
\<close>

definition willResolveModel :: "'v \<Rightarrow> nat \<Rightarrow> string option \<Rightarrow> 'v history \<Rightarrow> 'v history" where
  "willResolveModel yes t win s =
     (if t \<in> handled s then s
      else let s1 = history_set Historic yes (s\<lparr>handled := insert t (handled s)\<rparr>);
               (r, s3) = (if uuid s1 = win then alloc [] s1
                          else let (d, s2) = dataFor win s1 in alloc (mheap s2 d) s2)
           in s3\<lparr>pendingStore := Some r, started := (t, r) # started s3\<rparr>)"

definition end_transition :: "nat \<Rightarrow> 'v history \<Rightarrow> 'v history" where
  "end_transition t s =
     (if pendingStore s \<noteq> None \<and> map_of (started s) t = pendingStore s
      then s\<lparr>pendingStore := None\<rparr> else s)"

definition transition_done :: "nat \<Rightarrow> string option \<Rightarrow> 'v history \<Rightarrow> 'v history" where
  "transition_done t win s =
     end_transition t
       (pruneOldData (s\<lparr>uuid := win, routeData := om_set win (pendingStore s) (routeData s)\<rparr>))"

definition transition_failed :: "nat \<Rightarrow> 'v history \<Rightarrow> 'v history" where
  "transition_failed t s = end_transition t s"

section \<open>The bound on the entries\<close>

datatype 'v history_event =
    Get hkey
  | Set hkey 'v
  | Delete hkey
  | WillResolve 'v nat "string option"
  | Done nat "string option"
  | Failed nat

fun history_step :: "'v history_event \<Rightarrow> 'v history \<Rightarrow> 'v history" where
  "history_step (Get k) s = snd (history_get k s)"
| "history_step (Set k v) s = history_set k v s"
| "history_step (Delete k) s = history_delete k s"
| "history_step (WillResolve yes t win) s = willResolveModel yes t win s"
| "history_step (Done t win) s = transition_done t win s"
| "history_step (Failed t) s = transition_failed t s"

definition history_ok :: "'v history \<Rightarrow> bool" where
  "history_ok s \<longleftrightarrow> om_wf (routeData s) \<and> length (routeData s) \<le> HISTORY_SIZE \<and>
     (\<forall>u r. om_get (routeData s) u = Some (Some r) \<longrightarrow> r < mnext s) \<and>
     (\<forall>r. pendingStore s = Some r \<longrightarrow> r < mnext s)"

lemma om_wf_drop: "om_wf m \<Longrightarrow> om_wf (drop n m)"
  by (simp flip: drop_map)

lemma map_of_drop: "om_wf m \<Longrightarrow> map_of (drop n m) k = Some v \<Longrightarrow> map_of m k = Some v"
  by (metis in_set_dropD map_of_SomeD map_of_eq_Some_iff)

definition routes_ok :: "'v history \<Rightarrow> bool" where
  "routes_ok s \<longleftrightarrow> om_wf (routeData s) \<and>
     (\<forall>u r. om_get (routeData s) u = Some (Some r) \<longrightarrow> r < mnext s) \<and>
     (\<forall>r. pendingStore s = Some r \<longrightarrow> r < mnext s)"

lemma prune_ok: "routes_ok s \<Longrightarrow> history_ok (pruneOldData s)"
  by (auto simp: history_ok_def routes_ok_def pruneOldData_def om_wf_drop dest: in_set_dropD)

lemma dataFor_ok:
  assumes "history_ok s" and "dataFor u s = (r, s')"
  shows "history_ok s' \<and> r < mnext s' \<and> mnext s \<le> mnext s' \<and> pendingStore s' = pendingStore s"
proof (cases "\<exists>q. om_get (routeData s) u = Some (Some q)")
  case True
  then show ?thesis using assms by (auto simp: dataFor_def history_ok_def)
next
  case False
  let ?s = "s\<lparr>mheap := (mheap s)(mnext s := []), mnext := Suc (mnext s),
      routeData := om_set u (Some (mnext s)) (routeData s)\<rparr>"
  have s': "(r, s') = (mnext s, pruneOldData ?s)"
    using False assms(2) by (auto simp: dataFor_def alloc_def Let_def split: option.splits)
  have "routes_ok ?s"
    using assms(1) by (auto simp: history_ok_def routes_ok_def less_SucI)
  then have "history_ok s'" using s' prune_ok by blast
  then show ?thesis using s' by (simp add: pruneOldData_def)
qed

lemma currentStore_ok:
  assumes "history_ok s" and "currentStore s = (r, s')"
  shows "history_ok s' \<and> r < mnext s'"
  using assms dataFor_ok [OF assms(1), of "uuid s"]
  by (auto simp: currentStore_def history_ok_def split: option.splits)

lemma heap_ok [simp]: "history_ok (s\<lparr>mheap := h\<rparr>) = history_ok s"
  "history_ok (s\<lparr>handled := x\<rparr>) = history_ok s" "history_ok (s\<lparr>started := y\<rparr>) = history_ok s"
  by (simp_all add: history_ok_def)

lemma history_set_ok: "history_ok s \<Longrightarrow> history_ok (history_set k v s)"
  using currentStore_ok by (auto simp: history_set_def split: prod.split)

lemma alloc_ok: "history_ok s \<Longrightarrow> alloc m s = (r, s') \<Longrightarrow> history_ok (s'\<lparr>pendingStore := Some r\<rparr>)"
  by (auto simp: history_ok_def alloc_def less_SucI)

lemma willResolve_ok:
  assumes "history_ok s"
  shows "history_ok (willResolveModel yes t win s)"
proof (cases "t \<in> handled s")
  case False
  let ?s1 = "history_set Historic yes (s\<lparr>handled := insert t (handled s)\<rparr>)"
  have s1: "history_ok ?s1" using assms by (intro history_set_ok) simp
  obtain d s2 where d: "dataFor win ?s1 = (d, s2)" by fastforce
  have s2: "history_ok s2" using dataFor_ok [OF s1 d] by blast
  obtain r s3 where r: "(if uuid ?s1 = win then alloc [] ?s1 else alloc (mheap s2 d) s2) = (r, s3)" by fastforce
  have "history_ok (s3\<lparr>pendingStore := Some r\<rparr>)"
    using r s1 s2 alloc_ok by (metis (no_types, lifting))
  then show ?thesis
    using False d r by (auto simp: willResolveModel_def Let_def split: prod.splits if_splits)
qed (use assms in \<open>simp add: willResolveModel_def\<close>)

lemma end_ok: "history_ok s \<Longrightarrow> history_ok (end_transition t s)"
  by (auto simp: end_transition_def history_ok_def)

lemma done_ok:
  assumes "history_ok s"
  shows "history_ok (transition_done t win s)"
proof -
  have "routes_ok (s\<lparr>uuid := win, routeData := om_set win (pendingStore s) (routeData s)\<rparr>)"
    using assms by (auto simp: history_ok_def routes_ok_def split: if_splits)
  then show ?thesis unfolding transition_done_def by (intro end_ok prune_ok)
qed

lemma history_step_ok:
  assumes "history_ok s"
  shows "history_ok (history_step e s)"
proof (cases e)
  case (Get k)
  then show ?thesis using currentStore_ok [OF assms] by (auto simp: history_get_def split: prod.split)
next
  case (Delete k)
  then show ?thesis using currentStore_ok [OF assms] by (auto simp: history_delete_def split: prod.split)
qed (use assms history_set_ok willResolve_ok done_ok end_ok in \<open>auto simp: transition_failed_def\<close>)

text \<open>
  Every entry has a map of its own: no entry is without one, no two entries share one, and the pending
  store is none of them.
\<close>

definition own_refs :: "(string option \<Rightarrow> nat option option) \<Rightarrow> nat option \<Rightarrow> bool" where
  "own_refs f p \<longleftrightarrow> (\<forall>u. f u \<noteq> Some None) \<and>
     (\<forall>u v r. f u = Some (Some r) \<and> f v = Some (Some r) \<longrightarrow> u = v) \<and>
     (\<forall>u r. f u = Some (Some r) \<longrightarrow> p \<noteq> Some r)"

definition own_maps :: "'v history \<Rightarrow> bool" where
  "own_maps s \<longleftrightarrow> own_refs (om_get (routeData s)) (pendingStore s)"

lemma own_refs_file: "own_refs f q \<Longrightarrow> (\<And>u. f u \<noteq> Some (Some r)) \<Longrightarrow> p \<noteq> Some r \<Longrightarrow> p = q \<or> p = None \<Longrightarrow>
    own_refs (f(u \<mapsto> Some r)) p"
  unfolding own_refs_def by (auto split: if_splits)

lemma own_refs_new: "own_refs f q \<Longrightarrow> (\<And>u. f u \<noteq> Some (Some r)) \<Longrightarrow> own_refs f (Some r)"
  unfolding own_refs_def by auto

lemma own_refs_none: "own_refs f q \<Longrightarrow> own_refs f None"
  unfolding own_refs_def by auto

lemma own_refs_sub: "own_refs f q \<Longrightarrow> (\<And>u x. g u = Some x \<Longrightarrow> f u = Some x) \<Longrightarrow> own_refs g q"
  unfolding own_refs_def by (metis not_None_eq)

lemma new_unused: "history_ok s \<Longrightarrow> om_get (routeData s) u \<noteq> Some (Some (mnext s))"
  by (metis history_ok_def less_irrefl)

text \<open>
  The transitions that complete are the last ones begun: the router aborts the one under way when
  another begins.
\<close>

fun orderly :: "'v history_event list \<Rightarrow> 'v history \<Rightarrow> bool" where
  "orderly [] s = True"
| "orderly (e # es) s =
     ((case e of Done t win \<Rightarrow> pendingStore s \<noteq> None \<and> map_of (started s) t = pendingStore s | _ \<Rightarrow> True) \<and>
      orderly es (history_step e s))"

lemma own_heap [simp]: "own_maps (s\<lparr>mheap := h\<rparr>) = own_maps s" "own_maps (s\<lparr>handled := x\<rparr>) = own_maps s"
  by (simp_all add: own_maps_def)

lemma own_prune: "om_wf (routeData s) \<Longrightarrow> own_maps s \<Longrightarrow> own_maps (pruneOldData s)"
  using own_refs_sub [of "om_get (routeData s)" "pendingStore s" "om_get (routeData (pruneOldData s))"]
    map_of_drop [of "routeData s"]
  by (simp add: own_maps_def pruneOldData_def)

lemma own_filed:
  assumes "om_wf (routeData s)" and "own_maps s" and "\<And>u. om_get (routeData s) u \<noteq> Some (Some r)" and "p \<noteq> Some r"
    and "p = pendingStore s \<or> p = None"
  shows "own_maps (pruneOldData (s\<lparr>mheap := h, mnext := n, uuid := w, routeData := om_set u (Some r) (routeData s), pendingStore := p\<rparr>))"
  using own_refs_file [OF _ assms(3-5)] assms(1,2) by (intro own_prune) (simp_all add: own_maps_def)

lemma own_dataFor:
  assumes "history_ok s" and "own_maps s" and "dataFor u s = (r, s')"
  shows "own_maps s'"
proof (cases "\<exists>q. om_get (routeData s) u = Some (Some q)")
  case False
  let ?s = "s\<lparr>mheap := (mheap s)(mnext s := []), mnext := Suc (mnext s), uuid := uuid s,
      routeData := om_set u (Some (mnext s)) (routeData s), pendingStore := pendingStore s\<rparr>"
  have "s' = pruneOldData ?s"
    using False assms(3) by (auto simp: dataFor_def alloc_def Let_def split: option.splits)
  moreover have "pendingStore s \<noteq> Some (mnext s)" using assms(1) by (metis history_ok_def less_irrefl)
  then have "own_maps (pruneOldData ?s)"
    using assms(1) by (intro own_filed [OF _ assms(2) new_unused [OF assms(1)]]) (simp_all add: history_ok_def)
  ultimately show ?thesis by simp
qed (use assms in \<open>auto simp: dataFor_def\<close>)

lemma own_current: "history_ok s \<Longrightarrow> own_maps s \<Longrightarrow> currentStore s = (r, s') \<Longrightarrow> own_maps s'"
  using own_dataFor by (auto simp: currentStore_def split: option.splits)

lemma own_set: "history_ok s \<Longrightarrow> own_maps s \<Longrightarrow> own_maps (history_set k v s)"
  using own_current [of s] by (auto simp: history_set_def split: prod.split)

lemma own_alloc:
  assumes "history_ok s" and "own_maps s" and "alloc m s = (r, s')"
  shows "own_maps (s'\<lparr>pendingStore := Some r, started := y\<rparr>)"
  using own_refs_new [OF _ new_unused [OF assms(1)]] assms(2,3) by (auto simp: own_maps_def alloc_def)

lemma own_willResolve:
  assumes "history_ok s" and "own_maps s"
  shows "own_maps (willResolveModel yes t win s)"
proof (cases "t \<in> handled s")
  case False
  let ?h = "s\<lparr>handled := insert t (handled s)\<rparr>"
  let ?s1 = "history_set Historic yes ?h"
  have s1: "history_ok ?s1" "own_maps ?s1"
    using assms by (simp_all add: history_set_ok own_set)
  obtain d s2 where d: "dataFor win ?s1 = (d, s2)" by fastforce
  have s2: "history_ok s2" "own_maps s2" using dataFor_ok [OF s1(1) d] own_dataFor [OF s1 d] by simp_all
  obtain r s3 where r: "(if uuid ?s1 = win then alloc [] ?s1 else alloc (mheap s2 d) s2) = (r, s3)" by fastforce
  have "own_maps (s3\<lparr>pendingStore := Some r, started := y\<rparr>)" for y
    using r own_alloc [OF s1] own_alloc [OF s2] by (metis (no_types, lifting))
  then show ?thesis
    using False d r by (auto simp: willResolveModel_def Let_def split: prod.splits if_splits)
qed (use assms in \<open>simp add: willResolveModel_def\<close>)

lemma own_done:
  assumes "history_ok s" and "own_maps s" and "pendingStore s = Some p" and "map_of (started s) t = Some p"
  shows "own_maps (transition_done t win s)"
proof -
  let ?s = "s\<lparr>mheap := mheap s, mnext := mnext s, uuid := win, routeData := om_set win (Some p) (routeData s), pendingStore := None\<rparr>"
  have "om_get (routeData s) u \<noteq> Some (Some p)" for u
    using assms(2,3) by (auto simp: own_maps_def own_refs_def)
  then have "own_maps (pruneOldData ?s)"
    using assms(1) by (intro own_filed [OF _ assms(2)]) (simp_all add: history_ok_def)
  moreover have "transition_done t win s = pruneOldData ?s"
    using assms(3,4) by (simp add: transition_done_def end_transition_def pruneOldData_def)
  ultimately show ?thesis by simp
qed

lemma own_step:
  assumes "history_ok s" and "own_maps s" and "orderly [e] s"
  shows "own_maps (history_step e s)"
proof (cases e)
  case (Get k)
  then show ?thesis using own_current [OF assms(1,2)] by (auto simp: history_get_def split: prod.split)
next
  case (Delete k)
  then show ?thesis
    using own_current [OF assms(1,2)] by (auto simp: history_delete_def split: prod.split)
next
  case (Done t win)
  then show ?thesis using own_done [OF assms(1,2)] assms(3) by auto
next
  case (Failed t)
  then show ?thesis using assms(2) by (auto simp: transition_failed_def end_transition_def own_maps_def intro: own_refs_none)
qed (use assms own_set own_willResolve in simp_all)

text \<open>
  C36. Whatever happens, at most one hundred entries are kept, each under a different id. When the
  transitions that complete are the last ones begun, every entry has a map of its own, which is not
  the pending store. (If an earlier transition completed as well, both would file the same map:
  \<open>overlapping_share\<close>.)
\<close>

theorem history_bounded:
  fixes es :: "'v history_event list"
  shows "length (routeData (fold history_step es new_history)) \<le> 100 \<and>
   om_wf (routeData (fold history_step es new_history)) \<and>
   (orderly es new_history \<longrightarrow> own_maps (fold history_step es new_history))"
proof -
  have "history_ok s \<Longrightarrow> history_ok (fold history_step es s) \<and>
      (own_maps s \<and> orderly es s \<longrightarrow> own_maps (fold history_step es s))" for s :: "'v history"
  proof (induction es arbitrary: s)
    case (Cons e es)
    then show ?case
      using Cons.IH [of "history_step e s"] history_step_ok [OF Cons.prems, of e] own_step [OF Cons.prems, of e] by auto
  qed simp
  moreover have "history_ok (new_history :: 'v history)" "own_maps (new_history :: 'v history)"
    by (simp_all add: history_ok_def own_maps_def own_refs_def new_history_def)
  ultimately show ?thesis by (auto simp: history_ok_def HISTORY_SIZE_def)
qed

theorem history_bounded_witness:
  "own_maps (fold history_step [Set (Key ''x'') (1::nat), WillResolve 0 1 None, Done 1 (Some ''a'')] new_history)"
proof -
  let ?es = "[Set (Key ''x'') (1::nat), WillResolve 0 1 None, Done 1 (Some ''a'')]"
  have "orderly ?es new_history"
    by (simp add: new_history_def history_set_def currentStore_def dataFor_def alloc_def pruneOldData_def
        willResolveModel_def HISTORY_SIZE_def Let_def)
  then show ?thesis using history_bounded [of ?es] by blast
qed

lemma overlapping_share:
  "routeData (fold history_step [WillResolve (0::nat) 1 None, WillResolve 0 2 None, Done 1 (Some ''a''), Done 2 (Some ''b'')] new_history) =
     [(None, Some 0), (Some ''a'', Some 2), (Some ''b'', Some 2)]"
  by (simp add: new_history_def history_set_def currentStore_def dataFor_def alloc_def pruneOldData_def
      willResolveModel_def transition_done_def end_transition_def HISTORY_SIZE_def Let_def)

section \<open>Coming back\<close>

text \<open>The values of an entry, empty when there is none.\<close>

definition entry :: "string option \<Rightarrow> 'v history \<Rightarrow> 'v hmap" where
  "entry u s = (case om_get (routeData s) u of Some (Some r) \<Rightarrow> mheap s r | _ \<Rightarrow> [])"

definition settled :: "'v history \<Rightarrow> bool" where
  "settled s \<longleftrightarrow> history_ok s \<and> pendingStore s = None \<and> om_get (routeData s) (uuid s) \<noteq> None \<and>
     (\<forall>u. om_get (routeData s) u \<noteq> Some None) \<and>
     (\<forall>u v r. om_get (routeData s) u = Some (Some r) \<and> om_get (routeData s) v = Some (Some r) \<longrightarrow> u = v)"

lemma set_current:
  assumes "settled s"
  shows "\<exists>r. om_get (routeData s) (uuid s) = Some (Some r) \<and>
    history_set k v s = s\<lparr>mheap := (mheap s)(r := om_set k v (mheap s r))\<rparr>"
proof -
  obtain r where "om_get (routeData s) (uuid s) = Some (Some r)"
    using assms unfolding settled_def by (metis option.exhaust)
  then show ?thesis
    using assms by (auto simp: history_set_def currentStore_def dataFor_def settled_def)
qed

lemma prune_id: "length (routeData s) \<le> HISTORY_SIZE \<Longrightarrow> pruneOldData s = s"
  by (simp add: pruneOldData_def)

lemma length_om_set: "k \<in> set (om_keys m) \<Longrightarrow> length (om_set k v m) = length m"
  by (induction k v m rule: om_set.induct) auto

text \<open>
  Going back or forward to an entry that is still kept brings its values back: after the
  transition every key of the store reads as it did when the entry was left, and the state is
  recognised as popped. The values of all other entries are kept too, with the entry that was
  left now marked.
\<close>

theorem back_restores:
  assumes "settled s" and "t \<notin> handled s" and "win \<noteq> uuid s"
    and "om_get (routeData s) win = Some (Some r)" and "map_of (started s) t = None"
    and "s' = transition_done t win (willResolveModel yes t win s)"
  shows "fst (history_get k s') = om_get (entry win s) k \<and> uuid s' = win \<and> pendingStore s' = None \<and>
    (\<forall>u. u \<noteq> uuid s \<longrightarrow> entry u s' = entry u s) \<and>
    entry (uuid s) s' = om_set Historic yes (entry (uuid s) s)"
proof -
  let ?h = "s\<lparr>handled := insert t (handled s)\<rparr>"
  have "settled ?h" using assms(1) by (simp add: settled_def)
  then obtain q where q: "om_get (routeData s) (uuid s) = Some (Some q)"
    and s1: "history_set Historic yes ?h = ?h\<lparr>mheap := (mheap s)(q := om_set Historic yes (mheap s q))\<rparr>"
    using set_current [of ?h Historic yes] by auto
  have ok: "history_ok s" and nr: "r < mnext s" "q < mnext s" and qr: "q \<noteq> r"
    using assms(1,3,4) q by (auto simp: settled_def history_ok_def)
  let ?m = "(mheap s)(q := om_set Historic yes (mheap s q))"
  let ?w = "?h\<lparr>mheap := ?m(mnext s := mheap s r), mnext := Suc (mnext s), pendingStore := Some (mnext s),
     started := (t, mnext s) # started s\<rparr>"
  have w: "willResolveModel yes t win s = ?w"
    using assms(2-4) qr by (auto simp: willResolveModel_def s1 dataFor_def alloc_def Let_def)
  have "win \<in> set (om_keys (routeData s))" using assms(4) by (metis om_has_iff option.distinct(1))
  then have len: "length (om_set win (Some (mnext s)) (routeData s)) \<le> HISTORY_SIZE"
    using ok length_om_set by (metis history_ok_def)
  have s': "s' = ?w\<lparr>uuid := win, routeData := om_set win (Some (mnext s)) (routeData s), pendingStore := None\<rparr>"
    unfolding assms(6) w transition_done_def using len by (simp add: prune_id end_transition_def)
  have old: "\<And>u p. om_get (routeData s) u = Some (Some p) \<Longrightarrow> p \<noteq> mnext s"
    using ok by (metis history_ok_def less_irrefl)
  have distinct: "\<And>u p. u \<noteq> uuid s \<Longrightarrow> om_get (routeData s) u = Some (Some p) \<Longrightarrow> p \<noteq> q"
    using assms(1) q unfolding settled_def by metis
  have "entry u s' = entry u s" if "u \<noteq> uuid s" for u
    using that old [of u] distinct [OF that] assms(4) by (auto simp: s' entry_def split: option.splits)
  moreover have "entry (uuid s) s' = om_set Historic yes (entry (uuid s) s)"
    using q nr assms(3) by (simp add: s' entry_def)
  moreover have "fst (history_get k s') = om_get (entry win s) k"
    using assms(4) by (simp add: s' entry_def history_get_def currentStore_def dataFor_def)
  ultimately show ?thesis using s' by simp
qed

text \<open>
  A transition that fails leaves the values as they were, whatever the new page had set in the
  meantime; only the mark on the current entry stays.
\<close>

theorem failed_rolls_back:
  assumes "settled s" and "t \<notin> handled s" and "map_of (started s) t = None"
    and "win = uuid s \<or> (\<exists>r. om_get (routeData s) win = Some (Some r))"
    and "s' = transition_failed t (fold (\<lambda>(k, v). history_set k v) kvs (willResolveModel yes t win s))"
  shows "pendingStore s' = None \<and> uuid s' = uuid s \<and>
    (\<forall>u. entry u s' = (if u = uuid s then om_set Historic yes (entry u s) else entry u s))"
proof -
  let ?h = "s\<lparr>handled := insert t (handled s)\<rparr>"
  have "settled ?h" using assms(1) by (simp add: settled_def)
  then obtain q where q: "om_get (routeData s) (uuid s) = Some (Some q)"
    and s1: "history_set Historic yes ?h = ?h\<lparr>mheap := (mheap s)(q := om_set Historic yes (mheap s q))\<rparr>"
    using set_current [of ?h Historic yes] by auto
  have ok: "history_ok s" and nq: "q < mnext s"
    using assms(1) q by (auto simp: settled_def history_ok_def)
  let ?m = "(mheap s)(q := om_set Historic yes (mheap s q))"
  let ?w = "\<lambda>p. ?h\<lparr>mheap := ?m(mnext s := p), mnext := Suc (mnext s), pendingStore := Some (mnext s),
     started := (t, mnext s) # started s\<rparr>"
  have "\<exists>p. willResolveModel yes t win s = ?w p"
  proof (cases "win = uuid s")
    case True
    then have "willResolveModel yes t win s = ?w []"
      using assms(2) by (simp add: willResolveModel_def s1 alloc_def Let_def)
    then show ?thesis by blast
  next
    case False
    then obtain r where "om_get (routeData s) win = Some (Some r)" using assms(4) by blast
    then have "willResolveModel yes t win s = ?w (?m r)"
      using assms(2) False by (simp add: willResolveModel_def s1 dataFor_def alloc_def Let_def)
    then show ?thesis by blast
  qed
  then obtain p where w: "willResolveModel yes t win s = ?w p" by blast
  have sets: "\<exists>p'. fold (\<lambda>(k, v). history_set k v) kvs (?w p) = ?w p'" for kvs p
  proof (induction kvs arbitrary: p)
    case (Cons kv kvs)
    obtain k v where kv: "kv = (k, v)" by force
    have "history_set k v (?w p) = ?w (om_set k v p)"
      by (simp add: history_set_def currentStore_def)
    then have "fold (\<lambda>(k, v). history_set k v) (kv # kvs) (?w p) = fold (\<lambda>(k, v). history_set k v) kvs (?w (om_set k v p))"
      by (simp only: kv fold_simps prod.case)
    then show ?case using Cons.IH by metis
  qed auto
  obtain p' where "fold (\<lambda>(k, v). history_set k v) kvs (?w p) = ?w p'" using sets by blast
  then have s': "s' = (?w p')\<lparr>pendingStore := None\<rparr>"
    unfolding assms(5) w by (simp add: transition_failed_def end_transition_def)
  have old: "\<And>u p. om_get (routeData s) u = Some (Some p) \<Longrightarrow> p \<noteq> mnext s"
    using ok by (metis history_ok_def less_irrefl)
  have distinct: "\<And>u p. u \<noteq> uuid s \<Longrightarrow> om_get (routeData s) u = Some (Some p) \<Longrightarrow> p \<noteq> q"
    using assms(1) q unfolding settled_def by metis
  have "entry u s' = (if u = uuid s then om_set Historic yes (entry u s) else entry u s)" for u
    using q nq old [of u] distinct [of u] by (auto simp: s' entry_def split: option.splits)
  then show ?thesis using s' by simp
qed

text \<open>
  The entries go in the order in which they were first filed, not in the order of their use: with
  one hundred entries, a new page pushes out the oldest entry also when it is the one just left.
\<close>

theorem oldest_entry_lost:
  assumes "history_ok s" and "length (routeData s) = 100" and "pendingStore s \<noteq> None"
    and "routeData s = (uuid s, d) # others" and "win \<notin> set (om_keys (routeData s))"
  shows "entry (uuid s) (transition_done t win s) = []"
proof -
  have set: "om_set win (pendingStore s) (routeData s) = routeData s @ [(win, pendingStore s)]"
    using assms(5) by (intro om_set_fresh) (simp add: map_of_eq_None_iff)
  have "uuid s \<notin> set (om_keys (others @ [(win, pendingStore s)]))"
    using assms(1,4,5) by (auto simp: history_ok_def)
  then have "om_get (others @ [(win, pendingStore s)]) (uuid s) = None"
    unfolding om_has_iff by simp
  moreover have "routeData (transition_done t win s) = others @ [(win, pendingStore s)]"
    using assms(2,4) set by (simp add: transition_done_def end_transition_def pruneOldData_def HISTORY_SIZE_def)
  ultimately show ?thesis unfolding entry_def by (simp only: option.case)
qed

section \<open>Witnesses\<close>

text \<open>Page \<open>a\<close> keeps a value; page \<open>b\<close> is shown.\<close>

definition demo_pages :: "nat history" where
  "demo_pages = \<lparr>mheap = (\<lambda>_. [])(0 := [(Key ''x'', 7)], 1 := [(Key ''y'', 8)]), mnext = 2,
     routeData = [(Some ''a'', Some 0), (Some ''b'', Some 1)], uuid = Some ''b'', pendingStore = None,
     handled = {}, started = []\<rparr>"

lemma demo_settled: "settled demo_pages"
  by (auto simp: settled_def history_ok_def demo_pages_def HISTORY_SIZE_def split: if_splits)

theorem back_restores_witness:
  "fst (history_get (Key ''x'') (transition_done 5 (Some ''a'') (willResolveModel 1 5 (Some ''a'') demo_pages))) = Some 7"
proof -
  have "5 \<notin> handled demo_pages" "Some ''a'' \<noteq> uuid demo_pages"
    "om_get (routeData demo_pages) (Some ''a'') = Some (Some 0)" "map_of (started demo_pages) 5 = None"
    "om_get (entry (Some ''a'') demo_pages) (Key ''x'') = Some 7"
    by (simp_all add: demo_pages_def entry_def)
  then show ?thesis using back_restores [OF demo_settled _ _ _ _ refl] by metis
qed

theorem failed_rolls_back_witness:
  "entry (Some ''a'') (transition_failed 5 (fold (\<lambda>(k, v). history_set k v) [(Key ''x'', 9)]
     (willResolveModel 1 5 (Some ''a'') demo_pages))) = [(Key ''x'', 7)]"
proof -
  have "5 \<notin> handled demo_pages" "map_of (started demo_pages) 5 = None"
    "Some ''a'' = uuid demo_pages \<or> (\<exists>r. om_get (routeData demo_pages) (Some ''a'') = Some (Some r))"
    and "Some ''a'' \<noteq> uuid demo_pages" "entry (Some ''a'') demo_pages = [(Key ''x'', 7)]"
    by (simp_all add: demo_pages_def entry_def)
  then show ?thesis using failed_rolls_back [OF demo_settled _ _ _ refl] by metis
qed

definition demo_full :: "nat history" where
  "demo_full = demo_pages\<lparr>routeData := map (\<lambda>i. (Some (replicate i CHR ''p''), Some i)) [0..<100],
     mnext := 101, uuid := Some [], pendingStore := Some 100\<rparr>"

theorem oldest_entry_lost_witness:
  "entry (Some []) (transition_done 5 (Some ''q'') demo_full) = []"
proof -
  have keys: "om_keys (routeData demo_full) = map (\<lambda>i. Some (replicate i CHR ''p'')) [0..<100]"
    by (simp add: demo_full_def comp_def)
  have "inj_on (\<lambda>i. Some (replicate i CHR ''p'')) (set [0..<100])"
    by (auto simp: inj_on_def replicate_eq_replicate)
  then have "om_wf (routeData demo_full)" unfolding keys by (simp add: distinct_map del: upt_rec_numeral)
  moreover have "length (routeData demo_full) = 100" by (simp add: demo_full_def del: upt_rec_numeral)
  moreover have "r < 101" if "om_get (routeData demo_full) u = Some (Some r)" for u r
    using map_of_SomeD [OF that] by (auto simp: demo_full_def simp del: upt_rec_numeral)
  ultimately have "history_ok demo_full"
    by (auto simp: history_ok_def HISTORY_SIZE_def demo_full_def simp del: upt_rec_numeral)
  moreover have "routeData demo_full = (uuid demo_full, Some 0) # map (\<lambda>i. (Some (replicate i CHR ''p''), Some i)) [1..<100]"
    by (simp add: demo_full_def upt_conv_Cons del: upt_rec_numeral)
  moreover have "Some ''q'' \<notin> set (om_keys (routeData demo_full))"
    unfolding keys by (auto simp: Cons_replicate_eq simp del: upt_rec_numeral)
  moreover have "pendingStore demo_full \<noteq> None" "uuid demo_full = Some []" by (simp_all add: demo_full_def)
  ultimately show ?thesis
    using oldest_entry_lost [of demo_full] \<open>length (routeData demo_full) = 100\<close> by metis
qed

end
