(* ===== verification/EmailAddress.thy ===== *)
theory EmailAddress
  imports JsString
begin

text \<open>
  \<open>emailValid\<close> of \<open>lib/utilities.js\<close>. Its pattern, read off the characters: one \<open>@\<close>, before it
  atoms separated by dots, behind it at least two labels separated by dots.
\<close>

definition atom_char :: "char \<Rightarrow> bool" where
  "atom_char c \<longleftrightarrow> is_alpha c \<or> is_num c \<or> c \<in> set ''!#$%&*+/=?^_`{|}~-'' \<or> c = CHR 0x27"

definition host_label :: "string \<Rightarrow> bool" where
  "host_label l \<longleftrightarrow> l \<noteq> [] \<and> (\<forall>c \<in> set l. is_alpha c \<or> is_num c \<or> c = CHR ''-'') \<and>
     hd l \<noteq> CHR ''-'' \<and> last l \<noteq> CHR ''-''"

definition emailValid :: "string \<Rightarrow> bool" where
  "emailValid s =
     (case js_split ''@'' s of
        [user, host] \<Rightarrow>
          list_all (\<lambda>a. a \<noteq> [] \<and> list_all atom_char a) (js_split ''.'' user) \<and>
          length (js_split ''.'' host) \<ge> 2 \<and> list_all host_label (js_split ''.'' host)
      | _ \<Rightarrow> False)"

end
