(* ===== verification/ComposerModel.thy ===== *)
theory ComposerModel
  imports EmailAddress PostStaging
begin

text \<open>
  The composer, \<open>frontend/discourse/app/models/composer.js\<close>: its fields, what it derives from them
  (which kind of post is written, whether it can be submitted, how long title and text are), the
  change of the category with its topic template, and inserting text.

  The topic and the settings are records; the post that is replied to or edited is a reference
  into the heap of the record store (\<open>h\<close>). Fields that the code copies into requests are
  JavaScript values, because \<open>undefined\<close> is left out of a request and \<open>null\<close> is not. The fields that
  plugins add are \<open>extra\<close>. A site setting that is read with \<open>parseInt\<close> is its number, \<open>None\<close> for
  \<open>NaN\<close>. The class of a text is up to \<open>U+00FF\<close>; titles are not marked as safe HTML.
\<close>

section \<open>Actions and states\<close>

definition CREATE_TOPIC :: string where "CREATE_TOPIC = ''createTopic''"
definition CREATE_SHARED_DRAFT :: string where "CREATE_SHARED_DRAFT = ''createSharedDraft''"
definition EDIT_SHARED_DRAFT :: string where "EDIT_SHARED_DRAFT = ''editSharedDraft''"
definition PRIVATE_MESSAGE :: string where "PRIVATE_MESSAGE = ''privateMessage''"
definition REPLY :: string where "REPLY = ''reply''"
definition EDIT :: string where "EDIT = ''edit''"
definition ADD_TRANSLATION :: string where "ADD_TRANSLATION = ''add_translation''"

datatype compose_state = CLOSED | SAVING | OPEN | DRAFT | FULLSCREEN

definition isEdit :: "string \<Rightarrow> bool" where
  "isEdit a \<longleftrightarrow> a = EDIT \<or> a = EDIT_SHARED_DRAFT"

lemmas action_defs = CREATE_TOPIC_def CREATE_SHARED_DRAFT_def EDIT_SHARED_DRAFT_def
  PRIVATE_MESSAGE_def REPLY_def EDIT_def ADD_TRANSLATION_def isEdit_def

record ctopic =
  ct_id :: int
  ct_title :: jsval
  ct_archetype :: string
  ct_category_id :: jsval
  ct_tags :: jsval
  ct_featured_link :: jsval
  ct_pm_with_non_human_user :: bool
  ct_can_edit :: bool
  ct_can_edit_tags :: bool
  ct_draft_sequence :: jsval

record ccategory =
  cc_id :: int
  cc_topic_template :: jsval
  cc_minimumRequiredTags :: nat

record cuser =
  cu_name :: jsval
  cu_username :: jsval
  cu_id :: jsval
  cu_title :: jsval
  cu_avatar_template :: jsval
  cu_custom_fields :: jsval
  cu_moderator :: jsval
  cu_admin :: bool
  cu_staff :: bool
  cu_trust_level :: int
  cu_useRichEditor :: bool

record cenv =
  min_personal_message_title_length :: nat
  min_topic_title_length :: nat
  max_topic_title_length :: nat
  min_personal_message_post_length :: nat
  min_first_post_length :: nat
  min_post_length :: nat
  default_composer_category :: "int option"
  allow_uncategorized_topics :: bool
  topic_featured_link_enabled :: bool
  topic_featured_link_allowed_category_ids :: "jsval list option"
  uncategorized_category_id :: jsval
  can_tag_topics :: bool
  lazy_load_categories :: bool
  site_categories :: "ccategory list"
  site_group_names :: "string list"
  small_action_type :: jsval
  whisper_type :: jsval
  regular_type :: jsval
  default_archetype :: jsval
  content_localization_enabled :: bool
  rich_editor :: bool
  cuser_of :: cuser

record composer =
  action :: string
  composeState :: "compose_state option"
  c_topic :: "ctopic option"
  c_post :: "ref option"
  reply :: jsval
  title :: jsval
  originalText :: jsval
  originalTitle :: jsval
  originalTags :: jsval
  tags :: jsval
  category_id :: jsval
  archetypeId :: jsval
  metaData :: jsval
  targetRecipients :: jsval
  whisper :: jsval
  isWarning :: jsval
  unlistTopic :: jsval
  featuredLink :: jsval
  noBump :: jsval
  clocale :: jsval
  draftKey :: jsval
  draftSequence :: int
  draftStatus :: jsval
  draftConflictUser :: jsval
  draftSaving :: bool
  draftForceSave :: bool
  disableDrafts :: bool
  c_loading :: bool
  typingTime :: jsval
  composerOpened :: "int option"
  composerTotalOpened :: jsval
  editReason :: jsval
  stagedPost :: "ref option"
  createdPost :: "ref option"
  editConflict :: bool
  hasTopicTemplates :: bool
  extra :: jobj

text \<open>\<open>x || ""\<close> for a text, and \<open>isEmpty\<close>.\<close>

definition text_of :: "jsval \<Rightarrow> string" where
  "text_of v = (case v of JStr s \<Rightarrow> s | _ \<Rightarrow> [])"

definition is_empty :: "jsval \<Rightarrow> bool" where
  "is_empty v \<longleftrightarrow> v = JUndef \<or> v = JNull \<or> v = JStr [] \<or> v = JArr []"

section \<open>What is being written\<close>

definition creatingTopic :: "composer \<Rightarrow> bool" where
  "creatingTopic c \<longleftrightarrow> action c = CREATE_TOPIC"

definition creatingSharedDraft :: "composer \<Rightarrow> bool" where
  "creatingSharedDraft c \<longleftrightarrow> action c = CREATE_SHARED_DRAFT"

definition creatingPrivateMessage :: "composer \<Rightarrow> bool" where
  "creatingPrivateMessage c \<longleftrightarrow> action c = PRIVATE_MESSAGE"

definition replyingToTopic :: "composer \<Rightarrow> bool" where
  "replyingToTopic c \<longleftrightarrow> action c = REPLY"

definition editingPost :: "composer \<Rightarrow> bool" where
  "editingPost c \<longleftrightarrow> isEdit (action c)"

definition post_prop :: "store \<Rightarrow> composer \<Rightarrow> string \<Rightarrow> jsval" where
  "post_prop h c k = (case c_post c of None \<Rightarrow> JUndef | Some r \<Rightarrow> rprop h r k)"

definition editingFirstPost :: "store \<Rightarrow> composer \<Rightarrow> bool" where
  "editingFirstPost h c \<longleftrightarrow> editingPost c \<and> post_prop h c ''post_number'' = JNum 1"

definition topicFirstPost :: "store \<Rightarrow> composer \<Rightarrow> bool" where
  "topicFirstPost h c \<longleftrightarrow> creatingTopic c \<or> editingFirstPost h c"

definition canEditTitle :: "store \<Rightarrow> composer \<Rightarrow> bool" where
  "canEditTitle h c \<longleftrightarrow>
     creatingTopic c \<or> creatingPrivateMessage c \<or> editingFirstPost h c \<or> creatingSharedDraft c"

definition privateMessage :: "composer \<Rightarrow> bool" where
  "privateMessage c \<longleftrightarrow> creatingPrivateMessage c \<or>
     (case c_topic c of None \<Rightarrow> False | Some t \<Rightarrow> ct_archetype t = ''private_message'')"

definition canCategorize :: "store \<Rightarrow> composer \<Rightarrow> bool" where
  "canCategorize h c \<longleftrightarrow> canEditTitle h c \<and> \<not> creatingPrivateMessage c \<and> \<not> privateMessage c"

definition replyDirty :: "composer \<Rightarrow> bool" where
  "replyDirty c \<longleftrightarrow> trim (text_of (reply c)) \<noteq> trim (text_of (originalText c))"

definition titleDirty :: "composer \<Rightarrow> bool" where
  "titleDirty c \<longleftrightarrow> trim (text_of (title c)) \<noteq> trim (text_of (originalTitle c))"

definition hasMetaData :: "composer \<Rightarrow> bool" where
  "hasMetaData c \<longleftrightarrow> (case metaData c of JObj ps \<Rightarrow> ps = [] | _ \<Rightarrow> False)"

definition anyDirty :: "composer \<Rightarrow> bool" where
  "anyDirty c \<longleftrightarrow> replyDirty c \<or> titleDirty c \<or> hasMetaData c"

section \<open>The category and its template\<close>

definition find_category :: "cenv \<Rightarrow> jsval \<Rightarrow> ccategory option" where
  "find_category e v = (case v of JNum n \<Rightarrow> find (\<lambda>k. cc_id k = n) (site_categories e) | _ \<Rightarrow> None)"

definition category_of :: "cenv \<Rightarrow> composer \<Rightarrow> ccategory option" where
  "category_of e c = (if truthy (category_id c) then find_category e (category_id c) else None)"

definition minimumRequiredTags :: "cenv \<Rightarrow> composer \<Rightarrow> nat" where
  "minimumRequiredTags e c =
     (case category_of e c of None \<Rightarrow> 0 | Some k \<Rightarrow> cc_minimumRequiredTags k)"

definition or_empty :: "jsval \<Rightarrow> jsval" where
  "or_empty v = (if truthy v then v else JStr [])"

definition applyTopicTemplate :: "cenv \<Rightarrow> jsval \<Rightarrow> jsval \<Rightarrow> composer \<Rightarrow> composer" where
  "applyTopicTemplate e old new c =
     (if action c \<noteq> CREATE_TOPIC then c
      else let r = (if truthy old then
                      (case find_category e old of
                         None \<Rightarrow> reply c
                       | Some k \<Rightarrow> if cc_topic_template k = reply c then JStr [] else reply c)
                    else reply c)
           in if \<not> is_empty r then c
              else case find_category e new of
                     None \<Rightarrow> c
                   | Some k \<Rightarrow> c\<lparr>reply := or_empty (cc_topic_template k),
                                originalText := or_empty (cc_topic_template k)\<rparr>)"

text \<open>
  The setter of \<open>categoryId\<close>. When categories are loaded lazily the template is applied once the
  category has arrived: the two ids to call \<open>applyTopicTemplate\<close> with are returned.
\<close>

definition new_category_id :: "cenv \<Rightarrow> jsval \<Rightarrow> composer \<Rightarrow> jsval" where
  "new_category_id e v c =
     (if privateMessage c then JNull
      else if is_empty v then
        (case default_composer_category e of
           None \<Rightarrow> JNull | Some n \<Rightarrow> if n > 0 then JNum n else JNull)
      else v)"

definition set_categoryId ::
    "cenv \<Rightarrow> jsval \<Rightarrow> composer \<Rightarrow> composer \<times> (jsval \<times> jsval) option" where
  "set_categoryId e v c =
     (let old = category_id c;
          new = new_category_id e v c;
          c1 = c\<lparr>category_id := new\<rparr>
      in if old = new then (c1, None)
         else if lazy_load_categories e then (c1, Some (old, new))
         else (applyTopicTemplate e old new c1, None))"

section \<open>Lengths\<close>

text \<open>
  The lengths of a reply and of a title are computed on UTF-16 code units, so that every character of
  JavaScript is covered; the text fields of the composer are read as their units.
  \<open>replace(re, "")\<close> for a global pattern: \<open>m\<close> gives the length of its match at the head.
\<close>

definition units :: "string \<Rightarrow> int list" where
  "units s = map of_char s"

lemma length_units [simp]: "length (units s) = length s"
  by (simp add: units_def)

function remove_matches :: "(int list \<Rightarrow> nat option) \<Rightarrow> int list \<Rightarrow> int list" where
  "remove_matches m [] = []"
| "remove_matches m (c # cs) =
     (case m (c # cs) of
        Some n \<Rightarrow> remove_matches m (drop (n - 1) cs)
      | None \<Rightarrow> c # remove_matches m cs)"
  by pat_completeness auto
termination by (relation "measure (\<lambda>(m, s). length s)") auto

fun any_match :: "(int list \<Rightarrow> nat option) \<Rightarrow> int list \<Rightarrow> bool" where
  "any_match m [] = False"
| "any_match m (c # cs) = (m (c # cs) \<noteq> None \<or> any_match m cs)"

lemma length_remove: "length (remove_matches m s) \<le> length s"
proof (induction m s rule: remove_matches.induct)
  case (2 m c cs)
  show ?case
  proof (cases "m (c # cs)")
    case None
    then show ?thesis using 2(1) [OF None] by simp
  next
    case (Some n)
    then have "length (remove_matches m (drop (n - 1) cs)) \<le> length (drop (n - 1) cs)"
      using 2(2) by blast
    also have "\<dots> \<le> length cs" by simp
    finally show ?thesis using Some by simp
  qed
qed simp

lemma length_remove_less: "any_match m s \<Longrightarrow> length (remove_matches m s) < length s"
proof (induction m s rule: remove_matches.induct)
  case (2 m c cs)
  show ?case
  proof (cases "m (c # cs)")
    case None
    then show ?thesis using 2 by simp
  next
    case (Some n)
    then show ?thesis using length_remove [of m "drop (n - 1) cs"] by simp
  qed
qed simp

function remove_all :: "(int list \<Rightarrow> nat option) \<Rightarrow> int list \<Rightarrow> int list" where
  "remove_all m s = (if any_match m s then remove_all m (remove_matches m s) else s)"
  by pat_completeness auto
termination
  by (relation "measure (\<lambda>(m, s). length s)") (auto dest: length_remove_less)

declare remove_all.simps [simp del]

text \<open>
  \<open>/<!--(.*?)-->/\<close>: the shortest text without a line terminator (\<open>\\n\<close>, \<open>\\r\<close>, \<open>U+2028\<close>, \<open>U+2029\<close>)
  up to the end of the comment.
\<close>

definition dot_unit :: "int \<Rightarrow> bool" where
  "dot_unit u \<longleftrightarrow> u \<notin> set [0x0A, 0x0D, 0x2028, 0x2029]"

fun until :: "(int list \<Rightarrow> bool) \<Rightarrow> (int list \<Rightarrow> bool) \<Rightarrow> int list \<Rightarrow> nat option" where
  "until stop pass [] = (if stop [] then Some 0 else None)"
| "until stop pass (c # cs) =
     (if stop (c # cs) then Some 0
      else if pass (c # cs) then map_option Suc (until stop pass cs) else None)"

definition comment_match :: "int list \<Rightarrow> nat option" where
  "comment_match s =
     (if prefix (units ''<!--'') s
      then map_option (\<lambda>n. 4 + n + 3) (until (prefix (units ''-->'')) (\<lambda>t. dot_unit (hd t)) (drop 4 s))
      else None)"

text \<open>
  \<open>QUOTE_REGEXP\<close> of \<open>lib/quote.js\<close>: an opening tag, then the shortest text up to a closing tag in
  which no character is followed by another opening tag. Without the flag \<open>u\<close>, the flag \<open>i\<close> lets no
  unit beyond ASCII stand for one of its letters.
\<close>

definition lower_unit :: "int \<Rightarrow> int" where
  "lower_unit u = (if 65 \<le> u \<and> u \<le> 90 then u + 32 else u)"

definition prefix_i :: "string \<Rightarrow> int list \<Rightarrow> bool" where
  "prefix_i p s \<longleftrightarrow> prefix (units p) (map lower_unit (take (length p) s))"

definition quote_open :: "int list \<Rightarrow> nat option" where
  "quote_open s =
     (let n = length (takeWhile (\<lambda>u. u \<noteq> 0x5D) (drop 7 s))
      in if prefix_i ''[quote='' s \<and> 7 + n < length s then Some (7 + n + 1) else None)"

definition quote_match :: "int list \<Rightarrow> nat option" where
  "quote_match s =
     (case quote_open s of
        None \<Rightarrow> None
      | Some n \<Rightarrow> map_option (\<lambda>k. n + k + 8)
          (until (prefix_i ''[/quote]'') (\<lambda>t. quote_open (tl t) = None) (drop n s)))"

text \<open>The spaces of the counting loop: those of its test and of its \<open>switch\<close>.\<close>

definition count_space :: "int \<Rightarrow> bool" where
  "count_space u \<longleftrightarrow> 0x2000 \<le> u \<and> u \<le> 0x200A \<or>
     u \<in> set [0x09, 0x0A, 0x0B, 0x0C, 0x0D, 0x20, 0xA0, 0x1680, 0x202F, 0x205F, 0x3000]"

fun count_loop :: "nat \<Rightarrow> bool \<Rightarrow> int list \<Rightarrow> nat \<times> bool" where
  "count_loop n skipSpace [] = (n, skipSpace)"
| "count_loop n skipSpace (c # cs) =
     (if count_space c
      then if \<not> skipSpace then count_loop (n + 1) True cs else count_loop n skipSpace cs
      else count_loop (n + 1) False cs)"

definition count_chars :: "int list \<Rightarrow> nat" where
  "count_chars s = (case count_loop 0 True s of (n, skipSpace) \<Rightarrow> if n > 0 \<and> skipSpace then n - 1 else n)"

definition FAST_REPLY_LENGTH_THRESHOLD :: nat where "FAST_REPLY_LENGTH_THRESHOLD = 10000"

definition reply_units :: "int list \<Rightarrow> nat" where
  "reply_units r =
     (if length r > FAST_REPLY_LENGTH_THRESHOLD then length r
      else count_chars (remove_all quote_match (remove_all comment_match r)))"

definition replyLength :: "composer \<Rightarrow> nat" where
  "replyLength c = reply_units (units (text_of (reply c)))"

text \<open>
  \<open>title.replace(/\\s+/g, " ").trim()\<close>. The class \<open>\\s\<close> and \<open>trim\<close> have three characters that the
  counting loop lacks: the line and the paragraph separator and the byte order mark.
\<close>

definition unit_space :: "int \<Rightarrow> bool" where
  "unit_space u \<longleftrightarrow> 0x2000 \<le> u \<and> u \<le> 0x200A \<or>
     u \<in> set [0x09, 0x0A, 0x0B, 0x0C, 0x0D, 0x20, 0xA0, 0x1680, 0x2028, 0x2029, 0x202F, 0x205F, 0x3000, 0xFEFF]"

function squeeze :: "(int \<Rightarrow> bool) \<Rightarrow> int list \<Rightarrow> int list" where
  "squeeze P [] = []"
| "squeeze P (c # cs) = (if P c then 0x20 # squeeze P (dropWhile P cs) else c # squeeze P cs)"
  by pat_completeness auto
termination
  by (relation "measure (length \<circ> snd)") (auto simp: length_dropWhile_le le_imp_less_Suc)

definition drop_end :: "(int \<Rightarrow> bool) \<Rightarrow> int list \<Rightarrow> int list" where
  "drop_end P s = rev (dropWhile P (rev s))"

definition trim_units :: "(int \<Rightarrow> bool) \<Rightarrow> int list \<Rightarrow> int list" where
  "trim_units P s = drop_end P (dropWhile P s)"

definition title_units :: "int list \<Rightarrow> nat" where
  "title_units t = length (trim_units unit_space (squeeze unit_space t))"

definition titleLength :: "composer \<Rightarrow> nat" where
  "titleLength c = title_units (units (text_of (title c)))"

section \<open>Can it be submitted?\<close>

definition minimumTitleLength :: "cenv \<Rightarrow> composer \<Rightarrow> nat" where
  "minimumTitleLength e c =
     (if privateMessage c then min_personal_message_title_length e else min_topic_title_length e)"

definition missingTitleCharacters :: "cenv \<Rightarrow> composer \<Rightarrow> int" where
  "missingTitleCharacters e c = int (minimumTitleLength e c) - int (titleLength c)"

definition titleLengthValid :: "cenv \<Rightarrow> store \<Rightarrow> composer \<Rightarrow> bool" where
  "titleLengthValid e h c \<longleftrightarrow>
     (if cu_admin (cuser_of e) \<and> truthy (post_prop h c ''static_doc'') \<and> titleLength c > 0 then True
      else if titleLength c < minimumTitleLength e c then False
      else titleLength c \<le> max_topic_title_length e)"

definition canEditTopicFeaturedLink :: "cenv \<Rightarrow> store \<Rightarrow> composer \<Rightarrow> bool" where
  "canEditTopicFeaturedLink e h c \<longleftrightarrow>
     (if cu_trust_level (cuser_of e) = 0 then False
      else if \<not> topic_featured_link_enabled e \<or> \<not> canEditTitle h c \<or> creatingPrivateMessage c then False
      else case topic_featured_link_allowed_category_ids e of
             None \<Rightarrow> True
           | Some ids \<Rightarrow>
               if \<not> truthy (category_id c) \<and>
                  (uncategorized_category_id e \<in> set ids \<or> \<not> allow_uncategorized_topics e) then True
               else ids = [] \<or> category_id c \<in> set ids)"

definition titlePlaceholder :: "cenv \<Rightarrow> store \<Rightarrow> composer \<Rightarrow> string" where
  "titlePlaceholder e h c =
     (if canEditTopicFeaturedLink e h c then ''composer.title_or_link_placeholder''
      else ''composer.title_placeholder'')"

definition minimumPostLength :: "cenv \<Rightarrow> store \<Rightarrow> composer \<Rightarrow> nat" where
  "minimumPostLength e h c =
     (if (case c_topic c of None \<Rightarrow> False | Some t \<Rightarrow> ct_pm_with_non_human_user t) then 1
      else if privateMessage c then min_personal_message_post_length e
      else if topicFirstPost h c then min_first_post_length e
      else min_post_length e)"

definition missingReplyCharacters :: "cenv \<Rightarrow> store \<Rightarrow> composer \<Rightarrow> int" where
  "missingReplyCharacters e h c =
     (if post_prop h c ''post_type'' = small_action_type e \<or>
         canEditTopicFeaturedLink e h c \<and> truthy (featuredLink c) then 0
      else int (minimumPostLength e h c) - int (replyLength c))"

datatype recipient = Group string | Email string | User string

definition targetRecipientsArray :: "cenv \<Rightarrow> composer \<Rightarrow> recipient list" where
  "targetRecipientsArray e c =
     map (\<lambda>item. if item \<in> set (site_group_names e) then Group item
                 else if emailValid item then Email item else User item)
       (if truthy (targetRecipients c) then js_split '','' (text_of (targetRecipients c)) else [])"

definition requiredCategoryMissing :: "cenv \<Rightarrow> store \<Rightarrow> composer \<Rightarrow> bool" where
  "requiredCategoryMissing e h c \<longleftrightarrow> canCategorize h c \<and> \<not> truthy (category_id c) \<and>
     \<not> allow_uncategorized_topics e \<and> hasTopicTemplates c"

definition tag_count :: "composer \<Rightarrow> nat" where
  "tag_count c = (case tags c of JArr ts \<Rightarrow> length ts | _ \<Rightarrow> 0)"

definition template_unchanged :: "cenv \<Rightarrow> composer \<Rightarrow> bool" where
  "template_unchanged e c =
     (case category_of e c of
        None \<Rightarrow> False
      | Some k \<Rightarrow> truthy (cc_topic_template k) \<and>
          trim (text_of (reply c)) = trim (text_of (cc_topic_template k)))"

definition cantSubmitPost :: "cenv \<Rightarrow> store \<Rightarrow> composer \<Rightarrow> bool" where
  "cantSubmitPost e h c =
     (if c_loading c then True
      else if canEditTitle h c \<and> \<not> titleLengthValid e h c then True
      else if missingReplyCharacters e h c > 0 then True
      else if can_tag_topics e \<and> \<not> cu_staff (cuser_of e) \<and> topicFirstPost h c \<and>
              minimumRequiredTags e c \<noteq> 0 \<and> tag_count c < minimumRequiredTags e c then True
      else if topicFirstPost h c \<and> template_unchanged e c then True
      else if privateMessage c
      then truthy (targetRecipients c) \<and> length (targetRecipientsArray e c) = 0
      else requiredCategoryMissing e h c)"

section \<open>Inserting text\<close>

record insert_opts =
  o_block :: bool
  o_space :: bool
  o_new_line :: bool

definition no_return :: "string \<Rightarrow> string" where
  "no_return s = filter (\<lambda>c. c \<noteq> CHR 0x0D) s"

text \<open>
  How many of the last, or first, two characters are not line breaks; a character that is missing
  counts too.
\<close>

definition breaks_before :: "string \<Rightarrow> nat" where
  "breaks_before s =
     length (filter (\<lambda>i. nth_opt s (int (length s) - 1 - i) \<noteq> Some CHR 0x0A) [0, 1])"

definition breaks_after :: "string \<Rightarrow> nat" where
  "breaks_after s = length (filter (\<lambda>i. nth_opt s i \<noteq> Some CHR 0x0A) [0, 1])"

definition newlines :: "nat \<Rightarrow> string" where
  "newlines n = replicate n CHR 0x0A"

definition pad_before :: "insert_opts \<Rightarrow> string \<Rightarrow> string" where
  "pad_before opts before =
     (let b = (if o_block opts \<and> trim before \<noteq> [] then before @ newlines (breaks_before (no_return before))
               else before)
      in if o_space opts \<and> b \<noteq> [] \<and> \<not> js_space (last b) then b @ '' '' else b)"

definition pad_after :: "insert_opts \<Rightarrow> string \<Rightarrow> string" where
  "pad_after opts after =
     (let a = (if o_block opts \<and> trim after \<noteq> [] then newlines (breaks_after (no_return after)) @ after
               else after)
      in if o_space opts \<and> a \<noteq> [] \<and> \<not> js_space (hd a) then '' '' @ a else a)"

definition appendText :: "string \<Rightarrow> int option \<Rightarrow> insert_opts \<Rightarrow> composer \<Rightarrow> nat \<times> composer" where
  "appendText txt position opts c =
     (let r = text_of (reply c);
          p = (case position of Some n \<Rightarrow> n | None \<Rightarrow> int (length r));
          before = pad_before opts (js_slice 0 p r);
          after = pad_after opts (js_slice_from p r);
          t = (if o_new_line opts
               then if before \<noteq> [] then newlines 2 @ trim txt else trim txt
               else txt)
      in (length before + length t, c\<lparr>reply := JStr (before @ t @ after)\<rparr>))"

definition prependText :: "string \<Rightarrow> bool \<Rightarrow> composer \<Rightarrow> composer" where
  "prependText txt new_line c =
     (let r = text_of (reply c);
          t = (if new_line \<and> r \<noteq> [] then trim txt @ newlines 2 else txt)
      in c\<lparr>reply := JStr (t @ r)\<rparr>)"

section \<open>Time\<close>

definition typing :: "composer \<Rightarrow> composer" where
  "typing c = c\<lparr>typingTime := JNum (num_of (typingTime c) + 100)\<rparr>"

text \<open>The observer of \<open>composeState\<close> runs when the state changes.\<close>

definition composeStateChanged :: "int \<Rightarrow> composer \<Rightarrow> composer" where
  "composeStateChanged now c =
     (if composeState c = Some OPEN
      then c\<lparr>composerOpened := Some (case composerOpened c of Some t \<Rightarrow> t | None \<Rightarrow> now)\<rparr>
      else (case composerOpened c of
              None \<Rightarrow> c
            | Some t \<Rightarrow> c\<lparr>composerTotalOpened := JNum (num_of (composerTotalOpened c) + (now - t))\<rparr>)
           \<lparr>composerOpened := None\<rparr>)"

definition set_composeState :: "int \<Rightarrow> compose_state \<Rightarrow> composer \<Rightarrow> composer" where
  "set_composeState now v c =
     (if composeState c = Some v then c else composeStateChanged now (c\<lparr>composeState := Some v\<rparr>))"

definition composerTime :: "int \<Rightarrow> composer \<Rightarrow> int" where
  "composerTime now c = num_of (composerTotalOpened c) +
     (case composerOpened c of None \<Rightarrow> 0 | Some t \<Rightarrow> now - t)"

definition composerVersion :: "cenv \<Rightarrow> int" where
  "composerVersion e = (if rich_editor e \<and> cu_useRichEditor (cuser_of e) then 2 else 1)"

end
