(* ===== verification/ComposerSave.thy ===== *)
theory ComposerSave
  imports ComposerModel
begin

text \<open>
  The composer, \<open>frontend/discourse/app/models/composer.js\<close>: opening it, what it sends, creating
  and editing a post, and saving a draft.

  The post stream \<open>s\<close> is that of the composer's topic; without a topic it only holds the record
  store in which the new post is made. A method that awaits a request is two functions, up to the
  request and from its answer. Ember's \<open>setProperties\<close> tells observers after all properties are set,
  and does nothing when it is given anything but an object. The events for other parts of the
  page and the count of topics of a category are values of \<open>effect\<close>.
\<close>

section \<open>What is sent\<close>

type_synonym serializer = "(string \<times> string) list"

definition create_serializer :: serializer where
  "create_serializer =
     [(''raw'', ''reply''), (''title'', ''title''), (''unlist_topic'', ''unlistTopic''),
      (''category'', ''categoryId''), (''topic_id'', ''topic.id''), (''is_warning'', ''isWarning''),
      (''whisper'', ''whisper''), (''archetype'', ''archetypeId''),
      (''target_recipients'', ''targetRecipients''), (''typing_duration_msecs'', ''typingTime''),
      (''composer_open_duration_msecs'', ''composerTime''), (''composer_version'', ''composerVersion''),
      (''tags'', ''tags''), (''featured_link'', ''featuredLink''), (''shared_draft'', ''sharedDraft''),
      (''no_bump'', ''noBump''), (''draft_key'', ''draftKey''), (''locale'', ''locale'')]"

definition update_serializer :: serializer where
  "update_serializer =
     [(''raw'', ''reply''), (''topic_id'', ''topic.id''), (''original_text'', ''originalText''),
      (''locale'', ''locale'')]"

definition edit_topic_serializer :: serializer where
  "edit_topic_serializer =
     [(''title'', ''topic.title''), (''categoryId'', ''topic.category.id''), (''tags'', ''topic.tags''),
      (''featuredLink'', ''topic.featured_link''), (''original_title'', ''originalTitle''),
      (''original_tags'', ''originalTags''), (''locale'', ''locale'')]"

definition draft_serializer :: serializer where
  "draft_serializer =
     [(''reply'', ''reply''), (''action'', ''action''), (''title'', ''title''),
      (''categoryId'', ''categoryId''), (''tags'', ''tags''), (''archetypeId'', ''archetypeId''),
      (''whisper'', ''whisper''), (''metaData'', ''metaData''), (''composerTime'', ''composerTime''),
      (''typingTime'', ''typingTime''), (''postId'', ''post.id''), (''recipients'', ''targetRecipients''),
      (''original_text'', ''originalText''), (''original_title'', ''originalTitle''),
      (''original_tags'', ''originalTags''), (''locale'', ''locale'')]"

definition topic_field :: "(ctopic \<Rightarrow> jsval) \<Rightarrow> composer \<Rightarrow> jsval" where
  "topic_field f c = (case c_topic c of None \<Rightarrow> JUndef | Some t \<Rightarrow> f t)"

text \<open>\<open>this.get(path)\<close> for the paths of the serializers.\<close>

definition field_values :: "cenv \<Rightarrow> store \<Rightarrow> int \<Rightarrow> composer \<Rightarrow> jobj" where
  "field_values e h now c =
     [(''reply'', reply c), (''title'', title c), (''action'', JStr (action c)),
      (''unlistTopic'', unlistTopic c), (''categoryId'', category_id c), (''isWarning'', isWarning c),
      (''whisper'', whisper c), (''archetypeId'', archetypeId c), (''targetRecipients'', targetRecipients c),
      (''typingTime'', typingTime c), (''composerTime'', JNum (composerTime now c)),
      (''composerVersion'', JNum (composerVersion e)), (''tags'', tags c), (''featuredLink'', featuredLink c),
      (''sharedDraft'', JBool (creatingSharedDraft c)), (''noBump'', noBump c), (''draftKey'', draftKey c),
      (''locale'', clocale c), (''originalText'', originalText c), (''originalTitle'', originalTitle c),
      (''originalTags'', originalTags c), (''metaData'', metaData c), (''post.id'', post_prop h c ''id''),
      (''topic.id'', topic_field (\<lambda>t. JNum (ct_id t)) c), (''topic.title'', topic_field ct_title c),
      (''topic.category.id'', topic_field ct_category_id c), (''topic.tags'', topic_field ct_tags c),
      (''topic.featured_link'', topic_field ct_featured_link c)] @ extra c"

definition serialize :: "(string \<Rightarrow> jsval) \<Rightarrow> serializer \<Rightarrow> jobj \<Rightarrow> jobj" where
  "serialize get ser dest =
     fold (\<lambda>(f, path) d. if get path = JUndef then d else om_set f (get path) d) ser dest"

definition set_field :: "cenv \<Rightarrow> string \<Rightarrow> jsval \<Rightarrow> composer \<Rightarrow> composer" where
  "set_field e k v c =
     (if k = ''title'' then c\<lparr>title := v\<rparr>
      else if k = ''categoryId'' then fst (set_categoryId e v c)
      else if k = ''tags'' then c\<lparr>tags := v\<rparr>
      else if k = ''featuredLink'' then c\<lparr>featuredLink := v\<rparr>
      else if k = ''locale'' then c\<lparr>clocale := v\<rparr>
      else if k = ''loading'' then c\<lparr>c_loading := truthy v\<rparr>
      else c\<lparr>extra := om_set k v (extra c)\<rparr>)"

section \<open>Opening\<close>

record open_opts =
  oo_action :: string
  oo_draftKey :: jsval
  oo_draftSequence :: "int option"
  oo_composerState :: "compose_state option"
  oo_topic :: "ctopic option"
  oo_post :: "ref option"
  oo_post_topic :: "ctopic option"
  oo_postId :: jsval
  oo_usernames :: jsval
  oo_recipients :: jsval
  oo_composerTime :: jsval
  oo_typingTime :: jsval
  oo_whisper :: jsval
  oo_tags :: jsval
  oo_noBump :: jsval
  oo_originalText :: jsval
  oo_originalTitle :: jsval
  oo_originalTags :: jsval
  oo_archetypeId :: jsval
  oo_metaData :: jsval
  oo_reply :: jsval
  oo_quote :: jsval
  oo_title :: jsval
  oo_readOnlyCategoryId :: bool
  oo_topicCategoryId :: jsval
  oo_categoryId :: jsval
  oo_destinationCategoryId :: jsval
  oo_extra :: jobj

text \<open>What is fetched before the composer has finished opening, and a template that comes later.\<close>

datatype open_load = LoadTopic jsval | LoadPost jsval | LoadEdit ref | ApplyTemplate jsval jsval

definition js_or :: "jsval \<Rightarrow> jsval \<Rightarrow> jsval" where
  "js_or a b = (if truthy a then a else b)"

definition open_fields :: "int \<Rightarrow> open_opts \<Rightarrow> int \<Rightarrow> composer \<Rightarrow> composer" where
  "open_fields now p draft_seq c =
     (let st = (case oo_composerState p of Some v \<Rightarrow> v | None \<Rightarrow> OPEN);
          c1 = c\<lparr>draftKey := oo_draftKey p, draftSequence := draft_seq, composeState := Some st,
                 action := oo_action p, c_topic := oo_topic p,
                 targetRecipients := js_or (oo_usernames p) (oo_recipients p),
                 composerTotalOpened := oo_composerTime p, typingTime := oo_typingTime p,
                 whisper := oo_whisper p, tags := js_or (oo_tags p) (JArr []), noBump := oo_noBump p,
                 originalText := oo_originalText p, originalTitle := oo_originalTitle p,
                 originalTags := oo_originalTags p\<rparr>
      in if composeState c = Some st then c1 else composeStateChanged now c1)"

definition open_post :: "cenv \<Rightarrow> store \<Rightarrow> open_opts \<Rightarrow> composer \<Rightarrow> composer \<times> open_load list" where
  "open_post e h p c =
     (case oo_post p of
        Some r \<Rightarrow>
          (let c1 = c\<lparr>c_post := Some r, whisper := JBool (rprop h r ''post_type'' = whisper_type e)\<rparr>
           in if c_topic c1 \<noteq> None then (c1, [])
              else if oo_post_topic p \<noteq> None then (c1\<lparr>c_topic := oo_post_topic p\<rparr>, [])
              else (c1, [LoadTopic (rprop h r ''topic_id'')]))
      | None \<Rightarrow>
          if truthy (oo_postId p) then (c, [LoadPost (oo_postId p)])
          else (c\<lparr>c_post := None\<rparr>, []))"

definition open_text :: "cenv \<Rightarrow> open_opts \<Rightarrow> composer \<Rightarrow> composer" where
  "open_text e p c =
     (let a = js_or (oo_archetypeId p) (default_archetype e);
          c1 = c\<lparr>archetypeId := a,
                 metaData := (if truthy (oo_metaData p) then oo_metaData p else JNull),
                 reply := js_or (oo_reply p) (js_or (reply c) (JStr []))\<rparr>
      in if archetypeId c = a then c1 else c1\<lparr>metaData := JObj []\<rparr>)"

definition pending_template :: "(jsval \<times> jsval) option \<Rightarrow> open_load list" where
  "pending_template t = (case t of None \<Rightarrow> [] | Some (a, b) \<Rightarrow> [ApplyTemplate a b])"

definition open_category :: "cenv \<Rightarrow> open_opts \<Rightarrow> composer \<Rightarrow> composer \<times> open_load list" where
  "open_category e p c =
     (let (c1, t1) =
            (if oo_readOnlyCategoryId p then (c, None)
             else set_categoryId e (js_or (oo_topicCategoryId p)
                    (js_or (oo_categoryId p) (topic_field ct_category_id c))) c);
          (c2, t2) =
            (case site_categories e of
               [k] \<Rightarrow> if \<not> truthy (category_id c1) \<and> creatingTopic c1
                      then set_categoryId e (JNum (cc_id k)) c1 else (c1, None)
             | _ \<Rightarrow> (c1, None))
      in (c2\<lparr>hasTopicTemplates := list_ex (\<lambda>k. truthy (cc_topic_template k)) (site_categories e)\<rparr>,
          pending_template t1 @ pending_template t2))"

definition open_edit ::
    "cenv \<Rightarrow> store \<Rightarrow> int \<Rightarrow> open_opts \<Rightarrow> composer \<Rightarrow> composer \<times> open_load list" where
  "open_edit e h now p c =
     (case c_post c of
        Some r \<Rightarrow>
          if isEdit (oo_action p) then
            (let props1 = om_set ''loading'' (JBool True)
                   (serialize (pget (field_values e h now c)) edit_topic_serializer []);
                 props2 = (if oo_action p = EDIT_SHARED_DRAFT \<and> truthy (oo_destinationCategoryId p)
                           then om_set ''categoryId'' (oo_destinationCategoryId p) props1 else props1)
             in (fold (\<lambda>(k, v). set_field e k v) props2 c, [LoadEdit r]))
          else if oo_action p = REPLY \<and> truthy (oo_quote p)
          then (c\<lparr>reply := oo_quote p, originalText := oo_quote p\<rparr>, []) else (c, [])
      | None \<Rightarrow>
          if oo_action p = REPLY \<and> truthy (oo_quote p)
          then (c\<lparr>reply := oo_quote p, originalText := oo_quote p\<rparr>, []) else (c, []))"

definition open_title :: "store \<Rightarrow> open_opts \<Rightarrow> composer \<Rightarrow> composer" where
  "open_title h p c =
     (let c1 = (if truthy (oo_title p) then c\<lparr>title := oo_title p\<rparr> else c)
      in if canEditTitle h c1 \<and> is_empty (title c1) \<and> title c1 \<noteq> JStr []
         then c1\<lparr>title := JStr []\<rparr> else c1)"

text \<open>
  \<open>open\<close>: with text of the user's own the call returns at once, and its promise does not end the
  loading (\<open>None\<close>); otherwise the loads are awaited and \<open>open_done\<close> follows. The draft fields that
  plugins added are \<open>added\<close>.
\<close>

definition open_composer ::
    "cenv \<Rightarrow> store \<Rightarrow> int \<Rightarrow> serializer \<Rightarrow> open_opts \<Rightarrow> composer \<Rightarrow> open_load list option result \<times> composer"
where
  "open_composer e h now added p c0 =
     (let c = c0\<lparr>c_loading := True\<rparr>
      in if \<not> is_empty (reply c) \<and> (truthy (oo_reply p) \<or> isEdit (oo_action p)) \<and> replyDirty c
         then (Inr None, c)
         else
           let c1 = (if oo_action p = REPLY \<and> isEdit (action c) then c\<lparr>reply := JStr []\<rparr> else c)
           in if \<not> truthy (oo_draftKey p) then (Inl (Error ''draft key is required''), c1)
              else case oo_draftSequence p of
                     None \<Rightarrow> (Inl (Error ''draft sequence is required''), c1)
                   | Some n \<Rightarrow>
                       (let (c2, l1) = open_post e h p (open_fields now p n c1);
                            (c3, l2) = open_category e p (open_text e p c2);
                            (c4, l3) = open_edit e h now p c3;
                            c5 = open_title h p c4;
                            c6 = fold (\<lambda>(f, path). set_field e path (pget (oo_extra p) f)) added c5
                        in (Inr (Some (l1 @ l2 @ l3)), c6)))"

definition topic_loaded :: "ctopic \<Rightarrow> composer \<Rightarrow> composer" where
  "topic_loaded t c = c\<lparr>c_topic := Some t\<rparr>"

definition post_loaded :: "ref option \<Rightarrow> ctopic option \<Rightarrow> composer \<Rightarrow> composer" where
  "post_loaded r t c = (let c1 = c\<lparr>c_post := r\<rparr> in if r \<noteq> None then c1\<lparr>c_topic := t\<rparr> else c1)"

definition edit_loaded :: "store \<Rightarrow> ref \<Rightarrow> composer \<Rightarrow> composer" where
  "edit_loaded h r c =
     (let c1 = c\<lparr>c_post := Some r, reply := rprop h r ''raw'', originalText := rprop h r ''raw''\<rparr>
      in if rprop h r ''post_number'' = JNum 1 \<and> canEditTitle h c1
         then c1\<lparr>originalTitle := topic_field ct_title c1, originalTags := topic_field ct_tags c1\<rparr>
         else c1)"

definition open_done :: "composer \<Rightarrow> composer" where
  "open_done c = c\<lparr>c_loading := False\<rparr>"

definition clearState :: "composer \<Rightarrow> composer" where
  "clearState c = c\<lparr>originalText := JNull, originalTitle := JNull, originalTags := JNull, reply := JNull,
     c_post := None, title := JNull, unlistTopic := JBool False, editReason := JNull, stagedPost := None,
     typingTime := JNum 0, composerOpened := None, composerTotalOpened := JNum 0, featuredLink := JNull,
     noBump := JBool False, editConflict := False\<rparr>"

section \<open>Creating a post\<close>

datatype save_kind = SaveEdit | SaveCreate

text \<open>\<open>save\<close>: nothing happens when the post cannot be submitted.\<close>

definition save_composer :: "cenv \<Rightarrow> store \<Rightarrow> composer \<Rightarrow> save_kind option \<times> composer" where
  "save_composer e h c =
     (if cantSubmitPost e h c then (None, c)
      else let c1 = (if canEditTopicFeaturedLink e h c then c else c\<lparr>featuredLink := JNull\<rparr>)
           in (Some (if editingPost c1 then SaveEdit else SaveCreate), c1))"

definition getCookedHtml :: "string option \<Rightarrow> string" where
  "getCookedHtml preview =
     (case preview of None \<Rightarrow> []
      | Some html \<Rightarrow> replace_all ''<span class=\"marker\"></span>'' [] html)"

datatype effect = PostCreated ref | TopicCreated ref | TopicCountUp int

definition new_post_props :: "cenv \<Rightarrow> int \<Rightarrow> jsval \<Rightarrow> string \<Rightarrow> composer \<Rightarrow> jobj" where
  "new_post_props e now imageSizes cooked c =
     (let u = cuser_of e in
      [(''imageSizes'', imageSizes), (''cooked'', JStr cooked), (''reply_count'', JNum 0),
       (''name'', cu_name u), (''display_username'', cu_name u), (''username'', cu_username u),
       (''user_id'', cu_id u), (''user_title'', cu_title u), (''avatar_template'', cu_avatar_template u),
       (''user_custom_fields'', cu_custom_fields u),
       (''post_type'', if truthy (whisper c) then whisper_type e else regular_type e),
       (''actions_summary'', JArr []), (''moderator'', cu_moderator u), (''admin'', JBool (cu_admin u)),
       (''yours'', JBool True), (''read'', JBool True), (''wiki'', JBool False),
       (''typingTime'', typingTime c), (''composerTime'', JNum (composerTime now c)),
       (''metaData'', metaData c),
       (''locale'', if content_localization_enabled e then clocale c else JNull)])"

text \<open>The record of the new post, before it is shown anywhere.\<close>

definition make_post ::
    "cenv \<Rightarrow> int \<Rightarrow> jsval \<Rightarrow> string \<Rightarrow> composer \<Rightarrow> pstream \<Rightarrow> ref \<times> pstream" where
  "make_post e now imageSizes cooked c s =
     (let (r, s1) = create_post (new_post_props e now imageSizes cooked c) s;
          s2 = on_store (set_props r (serialize (pget (field_values e (st s1) now c)) create_serializer [])) s1;
          s3 = (case c_post c of
                  None \<Rightarrow> s2
                | Some p \<Rightarrow> on_store (set_props r
                    [(''reply_to_post_number'', rprop (st s2) p ''post_number''),
                     (''reply_to_user'', JObj [(''username'', rprop (st s2) p ''username''),
                        (''avatar_template'', rprop (st s2) p ''avatar_template'')])]) s2)
      in (r, s3))"

definition count_reply :: "int \<Rightarrow> jobj \<Rightarrow> composer \<Rightarrow> pstream \<Rightarrow> pstream" where
  "count_reply n props c s =
     (case c_post c of
        None \<Rightarrow> s
      | Some p \<Rightarrow> on_store (set_props p
          ((''reply_count'', JNum (num_of (rprop (st s) p ''reply_count'') + n)) # props)) s)"

definition create_start ::
    "cenv \<Rightarrow> int \<Rightarrow> jsval \<Rightarrow> string option \<Rightarrow> jsval \<Rightarrow> composer \<Rightarrow> pstream \<Rightarrow>
     ref option \<times> composer \<times> pstream" where
  "create_start e now imageSizes preview user c0 s =
     (let c = (if action c0 = CREATE_TOPIC \<or> action c0 = PRIVATE_MESSAGE then c0\<lparr>c_topic := None\<rparr> else c0);
          cooked = getCookedHtml preview;
          (r, s1) = make_post e now imageSizes cooked c s
      in if c_topic c = None
         then (Some r, (set_composeState now SAVING c)\<lparr>stagedPost := None\<rparr>, s1)
         else
           let s2 = count_reply 1 [(''replies'', JArr [])] c s1;
               (state, s3) = (if rprop (st s2) r ''cooked'' = JStr [] then ([], s2)
                              else stagePost r user (JNum now) s2)
           in if state = ''alreadyStaging'' then (None, c, s3)
              else (Some r, (set_composeState now SAVING c)
                      \<lparr>stagedPost := (if state = ''staged'' then Some r else None)\<rparr>, s3))"

text \<open>
  The answer to the request: the action, the payload that \<open>RestModel\<close> writes into the record, and
  the user that the post of the response is a reply to (\<open>None\<close>: a response without a post).
\<close>

record save_answer =
  sa_action :: string
  sa_payload :: "jobj option"
  sa_reply_to_user :: "jsval option"

definition answer_saved :: "ref \<Rightarrow> save_answer \<Rightarrow> pstream \<Rightarrow> pstream" where
  "answer_saved r a s = (case sa_payload a of None \<Rightarrow> s | Some p \<Rightarrow> saveNew_finish r p s)"

definition create_done ::
    "int \<Rightarrow> ref \<Rightarrow> save_answer \<Rightarrow> composer \<Rightarrow> pstream \<Rightarrow> effect list \<times> composer \<times> pstream" where
  "create_done now r a c s =
     (let s1 = answer_saved r a s
      in if sa_action a = ''enqueued''
         then ([], c, if c_topic c = None then s1 else undoPost r s1)
         else
           let s2 = (case sa_reply_to_user a of
                       Some u \<Rightarrow> if truthy u then s1 else on_store (set_prop r ''reply_to_user'' JNull) s1
                     | None \<Rightarrow> s1);
               event = (if replyingToTopic c then PostCreated r else TopicCreated r)
           in case c_topic c of
                Some t \<Rightarrow>
                  (let c1 = (clearState (c\<lparr>c_topic := Some
                           (t\<lparr>ct_draft_sequence := rprop (st s2) r ''draft_sequence''\<rparr>)\<rparr>))\<lparr>createdPost := Some r\<rparr>
                   in ([event], set_composeState now CLOSED c1, commitPost r s2))
              | None \<Rightarrow>
                  (let k = num_of (rprop (st s2) r ''category'')
                   in ([TopicCountUp (if k = 0 then 1 else k), event],
                       (clearState (set_composeState now CLOSED c))\<lparr>createdPost := Some r\<rparr>, s2)))"

text \<open>A failure; the composer is opened again in the next turn of the run loop (\<open>reopen\<close>).\<close>

definition create_failed :: "ref \<Rightarrow> composer \<Rightarrow> pstream \<Rightarrow> pstream" where
  "create_failed r c s = (if c_topic c = None then s else count_reply (-1) [] c (undoPost r s))"

definition reopen :: "int \<Rightarrow> composer \<Rightarrow> composer" where
  "reopen now c = set_composeState now OPEN c"

section \<open>Editing a post\<close>

datatype edit_request =
    UpdateDestinationCategory jsval
  | UpdateTopic jobj
  | UpdateTags jsval
  | SavePost jobj

text \<open>
  The topic's part of an edit of the first post: the requests that are made before the post is
  saved. A shared draft keeps its category, the new one is its destination.
\<close>

definition topic_props :: "cenv \<Rightarrow> store \<Rightarrow> int \<Rightarrow> composer \<Rightarrow> jobj" where
  "topic_props e h now c =
     (let ps = map (\<lambda>(k, _). (k, pget (field_values e h now c) k)) edit_topic_serializer
      in if truthy (featuredLink c)
         then om_set ''featured_link'' (featuredLink c) (om_delete ''featuredLink'' ps) else ps)"

definition topic_requests :: "cenv \<Rightarrow> store \<Rightarrow> int \<Rightarrow> composer \<Rightarrow> ctopic \<Rightarrow> edit_request list" where
  "topic_requests e h now c t =
     (if ct_can_edit t then
        (let ps = topic_props e h now c
         in if action c = EDIT_SHARED_DRAFT
            then [UpdateDestinationCategory (pget ps ''categoryId''),
                  UpdateTopic (om_set ''categoryId'' (ct_category_id t) ps)]
            else [UpdateTopic ps])
      else if ct_can_edit_tags t then [UpdateTags (tags c)]
      else [])"

definition edit_props ::
    "cenv \<Rightarrow> store \<Rightarrow> int \<Rightarrow> jsval \<Rightarrow> jsval \<Rightarrow> composer \<Rightarrow> jobj" where
  "edit_props e h now reason sizes c =
     (let ps = serialize (pget (field_values e h now c)) update_serializer
                 [(''edit_reason'', reason), (''image_sizes'', sizes)]
      in if editConflict c
         then om_delete ''original_tags'' (om_delete ''original_title'' (om_delete ''original_text'' ps))
         else ps)"

text \<open>The call of \<open>editPost\<close> for a post \<open>r\<close>; a first post without a topic makes it throw.\<close>

definition edit_start ::
    "cenv \<Rightarrow> int \<Rightarrow> jsval \<Rightarrow> jsval \<Rightarrow> string option \<Rightarrow> ref \<Rightarrow> composer \<Rightarrow> store \<Rightarrow>
     (edit_request list \<times> composer \<times> store) result" where
  "edit_start e now reason sizes preview r c h =
     (let c1 = set_composeState now SAVING c;
          first = (truthy (title c1) \<and> rprop h r ''post_number'' = JNum 1);
          go = (\<lambda>reqs. Inr (reqs @ [SavePost (edit_props e h now reason sizes c1)], c1,
                 set_props r [(''cooked'', JStr (getCookedHtml preview)), (''staged'', JBool True)] h))
      in if \<not> first then go []
         else case c_topic c1 of
                None \<Rightarrow> Inl (TypeError ''Cannot read properties of undefined (reading 'details')'')
              | Some t \<Rightarrow> go (topic_requests e h now c1 t))"

definition edit_done :: "ref \<Rightarrow> jobj \<Rightarrow> composer \<Rightarrow> store \<Rightarrow> composer \<times> store" where
  "edit_done r payload c h =
     (clearState c, set_prop r ''staged'' (JBool False) (set_props r (munge h ''post'' payload) h))"

text \<open>
  A failed edit: \<open>post.setProperties("cooked", oldCooked)\<close> gives the method a string, so the
  record stays as it is. \<open>status\<close> is that of the failed request, if there was one.
\<close>

definition edit_failed :: "int \<Rightarrow> int option \<Rightarrow> ref \<Rightarrow> composer \<Rightarrow> store \<Rightarrow> composer \<times> store" where
  "edit_failed now status r c h =
     (let c1 = set_composeState now OPEN c
      in (if status = Some 409 then c1\<lparr>editConflict := True\<rparr> else c1,
          set_prop r ''staged'' (JBool False) h))"

section \<open>Drafts\<close>

definition canSaveDraft :: "store \<Rightarrow> composer \<Rightarrow> bool" where
  "canSaveDraft h c =
     (if action c = ADD_TRANSLATION then False
      else if draftSaving c then False
      else if disableDrafts c then False
      else if canEditTitle h c then \<not> (is_empty (title c) \<and> is_empty (reply c))
      else \<not> is_empty (reply c))"

record draft_request =
  dq_key :: jsval
  dq_sequence :: int
  dq_data :: jobj
  dq_force :: bool

definition saveDraft :: "cenv \<Rightarrow> store \<Rightarrow> int \<Rightarrow> composer \<Rightarrow> draft_request option \<times> composer" where
  "saveDraft e h now c =
     (if \<not> canSaveDraft h c then (None, c)
      else (Some \<lparr>dq_key = draftKey c, dq_sequence = draftSequence c,
                  dq_data = serialize (pget (field_values e h now c)) draft_serializer [],
                  dq_force = draftForceSave c\<rparr>,
            c\<lparr>draftSaving := True, draftSequence := draftSequence c + 1\<rparr>))"

text \<open>The answer of the server: a new sequence number, if it names one, and a user in conflict.\<close>

definition draft_saved :: "int option \<Rightarrow> jsval \<Rightarrow> composer \<Rightarrow> composer" where
  "draft_saved seq conflict_user c =
     (let c1 = (case seq of None \<Rightarrow> c | Some n \<Rightarrow> c\<lparr>draftSequence := n\<rparr>);
          c2 = (if truthy conflict_user
                then c1\<lparr>draftStatus := JStr ''composer.edit_conflict'', draftConflictUser := conflict_user\<rparr>
                else c1\<lparr>draftStatus := JNull, draftConflictUser := JNull, draftForceSave := False\<rparr>)
      in c2\<lparr>draftSaving := False\<rparr>)"

text \<open>The errors of an answer with the status 409; the flag says that a dialog is shown.\<close>

definition draft_failed :: "(string list \<times> bool) option \<Rightarrow> composer \<Rightarrow> composer" where
  "draft_failed conflict c =
     (let status = (case conflict of Some (err # _, _) \<Rightarrow> err | _ \<Rightarrow> []);
          shown = (if status = [] then ''composer.drafts_offline'' else status)
      in c\<lparr>draftStatus := JStr shown, draftConflictUser := JNull, draftSaving := False\<rparr>)"

text \<open>The button of the dialog that ignores the conflict.\<close>

definition ignore_conflict :: "composer \<Rightarrow> composer" where
  "ignore_conflict c = c\<lparr>draftForceSave := True\<rparr>"

end
