(* ===== verification/ComposerProofs.thy ===== *)
theory ComposerProofs
  imports ComposerSave
begin

text \<open>
  Properties of the composer: the length of a text is that of the text with its spaces squeezed,
  the time it was open is accounted for, text is inserted with blank lines around it, topic
  templates do not overwrite what the user wrote, and what a draft consists of.
\<close>

section \<open>Lengths\<close>

lemma trim_end_Nil [simp]: "trim_end [] = []"
  by (simp add: trim_end_def)

lemma last_dropWhile: "dropWhile P xs \<noteq> [] \<Longrightarrow> last (dropWhile P xs) = last xs"
  by (metis last_appendR takeWhile_dropWhile_id)

text \<open>A class of spaces \<open>P\<close> that has the blank; the text with its runs of spaces squeezed.\<close>

lemma squeeze_Nil_iff [simp]: "squeeze P s = [] \<longleftrightarrow> s = []"
  by (cases s) auto

lemma drop_end_Nil [simp]: "drop_end P [] = []"
  by (simp add: drop_end_def)

lemma drop_end_Cons: "drop_end P (c # s) = (if drop_end P s = [] \<and> P c then [] else c # drop_end P s)"
  by (auto simp: drop_end_def dropWhile_append dropWhile_eq_Nil_conv)

lemma count_loop_spec:
  "count_loop n False s = (n + length (squeeze count_space s), s \<noteq> [] \<and> count_space (last s))"
  "count_loop n True s = (let t = dropWhile count_space s
     in (n + length (squeeze count_space t), t = [] \<or> count_space (last t)))"
proof (induction s arbitrary: n)
  case (Cons c s)
  have tail: "dropWhile count_space s = [] \<or> count_space (last (dropWhile count_space s)) \<longleftrightarrow>
      count_space (last (c # s))" if "count_space c"
  proof (cases "dropWhile count_space s = []")
    case True
    then have "\<forall>x \<in> set (c # s). count_space x" using that by (simp add: dropWhile_eq_Nil_conv)
    then show ?thesis using True last_in_set [of "c # s"] by blast
  next
    case False
    then show ?thesis using last_dropWhile [OF False] by (cases s) auto
  qed
  {
    case 1
    show ?case using Cons tail by (cases "count_space c") (auto simp: Let_def)
  next
    case 2
    show ?case using Cons by (cases "count_space c") (auto simp: Let_def)
  }
qed (simp_all add: Let_def)

lemma dropWhile_squeeze:
  assumes "P 0x20" shows "dropWhile P (squeeze P s) = squeeze P (dropWhile P s)"
proof -
  have nonspace: "dropWhile P (squeeze P t) = squeeze P t" if "t = [] \<or> \<not> P (hd t)" for t
    using that by (cases t) auto
  show ?thesis
  proof (cases "s \<noteq> [] \<and> P (hd s)")
    case True
    then obtain c cs where s: "s = c # cs" "P c" by (cases s) auto
    have "dropWhile P cs = [] \<or> \<not> P (hd (dropWhile P cs))" using hd_dropWhile by blast
    from nonspace [OF this] show ?thesis using s assms by simp
  next
    case False
    then have "dropWhile P s = s" by (cases s) auto
    then show ?thesis using False nonspace [of s] by auto
  qed
qed

lemma length_drop_end_squeeze:
  "P 0x20 \<Longrightarrow>
   length (drop_end P (squeeze P s)) = length (squeeze P s) - (if s \<noteq> [] \<and> P (last s) then 1 else 0) \<and>
   ((\<exists>x \<in> set s. \<not> P x) \<longrightarrow> drop_end P (squeeze P s) \<noteq> [])"
proof (induction P s rule: squeeze.induct)
  case (2 P c cs)
  note sp = 2(3)
  show ?case
  proof (cases "P c")
    case True
    let ?u = "dropWhile P cs"
    show ?thesis
    proof (cases "?u = []")
      case True
      have "squeeze P (c # cs) = [0x20]" using \<open>P c\<close> unfolding squeeze.simps True by simp
      moreover have "\<forall>x \<in> set (c # cs). P x"
        using \<open>P c\<close> True by (simp add: dropWhile_eq_Nil_conv)
      ultimately show ?thesis using sp last_in_set [of "c # cs"] by (auto simp: drop_end_Cons True)
    next
      case False
      then have "\<not> P (hd ?u)" "cs \<noteq> []" by (auto simp: hd_dropWhile)
      then have "\<exists>x \<in> set ?u. \<not> P x" using False hd_in_set by blast
      then show ?thesis
        using 2(1) [OF True sp] True False \<open>cs \<noteq> []\<close> last_dropWhile [OF False] sp
        by (auto simp: drop_end_Cons Suc_diff_Suc Suc_le_eq)
    qed
  next
    case False
    then show ?thesis using 2(2) [OF False sp] by (auto simp: drop_end_Cons Suc_diff_le Suc_le_eq)
  qed
qed simp

lemma count_chars_trim: "count_chars s = length (trim_units count_space (squeeze count_space s))"
proof -
  let ?t = "dropWhile count_space s"
  have sp: "count_space 0x20" by (simp add: count_space_def)
  have loop: "count_loop 0 True s = (length (squeeze count_space ?t), ?t = [] \<or> count_space (last ?t))"
    by (simp only: count_loop_spec Let_def add_0)
  have "count_chars s =
      length (squeeze count_space ?t) - (if ?t \<noteq> [] \<and> count_space (last ?t) then 1 else 0)"
    unfolding count_chars_def loop by (cases "?t = []") (simp_all only: split, auto)
  then show ?thesis
    using length_drop_end_squeeze [of count_space, OF sp, of ?t] by (simp only: trim_units_def dropWhile_squeeze [of count_space, OF sp])
qed

text \<open>The characters of \<open>\\s\<close> that the loop does not take for spaces.\<close>

definition extra_spaces :: "int list" where
  "extra_spaces = [0x2028, 0x2029, 0xFEFF]"

lemma unit_space_iff: "unit_space u \<longleftrightarrow> count_space u \<or> u \<in> set extra_spaces"
  by (auto simp: unit_space_def count_space_def extra_spaces_def)

lemma squeeze_agrees: "\<forall>u \<in> set s. P u = Q u \<Longrightarrow> squeeze P s = squeeze Q s"
proof (induction P s rule: squeeze.induct)
  case (2 P c cs)
  have "dropWhile P cs = dropWhile Q cs" using 2(3) by (intro dropWhile_cong) auto
  moreover have "set (dropWhile P cs) \<subseteq> set cs" by (auto dest: set_dropWhileD)
  ultimately show ?case using 2 by (cases "P c") auto
qed simp

lemma set_squeeze: "set (squeeze P s) \<subseteq> insert 0x20 (set s)"
  by (induction P s rule: squeeze.induct) (auto dest: set_dropWhileD)

lemma trim_agrees: "\<forall>u \<in> set s. P u = Q u \<Longrightarrow> trim_units P s = trim_units Q s"
proof -
  assume h: "\<forall>u \<in> set s. P u = Q u"
  then have d: "dropWhile P s = dropWhile Q s" by (intro dropWhile_cong) auto
  have "dropWhile P (rev (dropWhile Q s)) = dropWhile Q (rev (dropWhile Q s))"
    using h by (intro dropWhile_cong) (auto dest: set_dropWhileD)
  then show ?thesis by (simp add: trim_units_def drop_end_def d)
qed

lemma count_as_title:
  assumes "set s \<inter> set extra_spaces = {}" shows "count_chars s = title_units s"
proof -
  have e: "\<forall>u \<in> insert 0x20 (set s). count_space u = unit_space u"
    using assms by (auto simp: unit_space_iff extra_spaces_def)
  then have q: "squeeze count_space s = squeeze unit_space s" by (intro squeeze_agrees) simp
  have "\<forall>u \<in> set (squeeze unit_space s). count_space u = unit_space u" using e set_squeeze by blast
  then show ?thesis unfolding count_chars_trim title_units_def q by (simp only: trim_agrees)
qed

text \<open>With one of the three the lengths differ: two byte order marks are two characters of a reply
  and one of a title.\<close>

lemma extra_spaces_counted:
  "count_chars [0x61, 0xFEFF, 0xFEFF, 0x62] = 4" "title_units [0x61, 0xFEFF, 0xFEFF, 0x62] = 3"
  by code_simp+

lemma any_match_remove_all: "\<not> any_match m (remove_all m s)"
proof (induction m s rule: remove_all.induct)
  case (1 m s)
  show ?case
  proof (cases "any_match m s")
    case True
    then show ?thesis using 1 by (subst remove_all.simps) simp
  next
    case False
    then show ?thesis by (subst remove_all.simps) simp
  qed
qed

lemma subseq_remove_matches: "subseq (remove_matches m s) s"
proof (induction m s rule: remove_matches.induct)
  case (2 m c cs)
  show ?case
  proof (cases "m (c # cs)")
    case None
    then show ?thesis using 2(1) [OF None] by simp
  next
    case (Some n)
    have "subseq (drop (n - 1) cs) (c # cs)"
      by (metis list_emb_Cons suffix_drop suffix_imp_subseq)
    then show ?thesis using 2(2) [OF Some] Some subseq_order.order_trans by fastforce
  qed
qed simp

lemma subseq_remove_all: "subseq (remove_all m s) s"
proof (induction m s rule: remove_all.induct)
  case (1 m s)
  show ?case
  proof (cases "any_match m s")
    case True
    then show ?thesis
      using 1 [OF True] subseq_remove_matches [of m s] subseq_order.order_trans
      by (subst remove_all.simps) fastforce
  next
    case False
    then show ?thesis by (subst remove_all.simps) simp
  qed
qed

text \<open>
  C38. The length of a reply, a list of code units. Above ten thousand units it is their plain number.
  Otherwise the loop that counts without making any intermediate text computes the length of the
  text with comments and quotes taken out, the spaces of the loop squeezed to one and none of them
  at the ends, and that is the length the text has as a title, unless it has a line separator, a
  paragraph separator or a byte order mark, which are spaces in a title only. Nothing that is
  still a quote is counted, and nothing but characters of the reply.
\<close>

theorem reply_length_equivalence:
  assumes own: "own = remove_all quote_match (remove_all comment_match r)"
  shows "reply_units r =
      (if 10000 < length r then length r else length (trim_units count_space (squeeze count_space own))) \<and>
    (length r \<le> 10000 \<and> set own \<inter> set extra_spaces = {} \<longrightarrow>
      reply_units r = title_units own \<and>
      (\<forall>c t. units (text_of (reply c)) = r \<and> units t = own \<longrightarrow>
        replyLength c = titleLength (c\<lparr>title := JStr t\<rparr>))) \<and>
    \<not> any_match quote_match own \<and> subseq own r"
proof -
  have "reply_units r = (if 10000 < length r then length r else count_chars own)"
    by (simp add: reply_units_def FAST_REPLY_LENGTH_THRESHOLD_def own)
  moreover have "subseq own r"
    unfolding own using subseq_remove_all subseq_order.order_trans by blast
  ultimately show ?thesis
    using any_match_remove_all own count_as_title [of own]
    by (simp add: count_chars_trim replyLength_def titleLength_def text_of_def)
qed

section \<open>The time the composer was open\<close>

fun open_time :: "compose_state option \<Rightarrow> int \<Rightarrow> (int \<times> compose_state) list \<Rightarrow> int \<Rightarrow> int" where
  "open_time cs t [] now = (if cs = Some OPEN then now - t else 0)"
| "open_time cs t ((t', v) # es) now =
     (if cs = Some OPEN then t' - t else 0) + open_time (Some v) t' es now"

definition clock_ok :: "composer \<Rightarrow> bool" where
  "clock_ok c \<longleftrightarrow> (composerOpened c \<noteq> None) = (composeState c = Some OPEN)"

lemma clock_step:
  assumes "clock_ok c"
  shows "clock_ok (set_composeState t v c)" "composeState (set_composeState t v c) = Some v"
    "composerTime t (set_composeState t v c) = composerTime t c"
  using assms
  by (auto simp: clock_ok_def set_composeState_def composeStateChanged_def composerTime_def split: option.splits)

lemma clock_runs: "clock_ok c \<Longrightarrow>
    composerTime now c = composerTime t c + (if composeState c = Some OPEN then now - t else 0)"
  by (auto simp: clock_ok_def composerTime_def split: option.split)

text \<open>
  Whatever states the composer goes through, the time it reports is the time it reported before
  plus the lengths of all stretches in which it was open; in full screen, while saving and when
  minimised the clock stands still.
\<close>

theorem composer_time_accounts:
  assumes "clock_ok c"
  shows "composerTime now (fold (\<lambda>(t, v). set_composeState t v) es c) =
    composerTime t c + open_time (composeState c) t es now"
  using assms
proof (induction es arbitrary: c t)
  case Nil
  then show ?case using clock_runs [OF Nil, of now t] by simp
next
  case (Cons p es)
  obtain t' v where p: "p = (t', v)" by force
  note step = clock_step [OF Cons.prems, of t' v]
  have "composerTime now (fold (\<lambda>(t, v). set_composeState t v) (p # es) c) =
      composerTime t' c + open_time (Some v) t' es now"
    using Cons.IH [OF step(1), of t'] step(2,3) p by simp
  then show ?case using clock_runs [OF Cons.prems, of t' t] p by simp
qed

section \<open>Inserting text\<close>

abbreviation as_block :: insert_opts where
  "as_block \<equiv> \<lparr>o_block = True, o_space = False, o_new_line = False\<rparr>"

abbreviation nl :: char where "nl \<equiv> CHR 0x0A"

lemma nth_opt_mid: "nth_opt (x @ y # z) (int (length x)) = Some y"
  by (simp add: nth_opt_def)

lemma breaks_before_simps [simp]:
  "breaks_before [b] = (if b = nl then 1 else 2)"
  "breaks_before (x @ [a, b]) = (if b = nl then 0 else 1) + (if a = nl then 0 else 1)"
proof -
  show "breaks_before [b] = (if b = nl then 1 else 2)"
    by (simp add: breaks_before_def nth_opt_def)
  have "nth_opt (x @ [a, b]) (int (length (x @ [a, b])) - 1 - 0) = Some b"
    using nth_opt_mid [of "x @ [a]" b "[]"] by simp
  moreover have "nth_opt (x @ [a, b]) (int (length (x @ [a, b])) - 1 - 1) = Some a"
    using nth_opt_mid [of x a "[b]"] by simp
  ultimately show "breaks_before (x @ [a, b]) = (if b = nl then 0 else 1) + (if a = nl then 0 else 1)"
    by (simp only: breaks_before_def filter.simps) simp
qed

lemma breaks_after_simps [simp]:
  "breaks_after [b] = (if b = nl then 1 else 2)"
  "breaks_after (a # b # x) = (if a = nl then 0 else 1) + (if b = nl then 0 else 1)"
  by (simp_all add: breaks_after_def nth_opt_def)

lemma newlines_simps: "newlines 0 = []" "newlines 1 = [nl]" "newlines (Suc 0) = [nl]" "newlines 2 = [nl, nl]"
  "newlines (Suc (Suc 0)) = [nl, nl]"
  by (simp_all add: newlines_def numeral_2_eq_2)

lemma last_two: obtains "s = []" | b where "s = [b]" | x a b where "s = x @ [a, b]"
proof (cases s rule: rev_cases)
  case (snoc t b)
  then show ?thesis using that by (cases t rule: rev_cases) auto
qed (use that in simp)

lemma blank_before:
  assumes "s \<noteq> []" and "\<nexists>x y. s = x @ [nl, y] \<and> y \<noteq> nl"
  shows "suffix (newlines 2) (s @ newlines (breaks_before s)) \<and> breaks_before s \<le> 2"
proof (cases rule: last_two [of s])
  case (3 x a b)
  then have "a = nl \<Longrightarrow> b = nl" using assms(2) by blast
  then show ?thesis using 3 by (auto simp: newlines_simps suffix_def)
qed (use assms in \<open>auto simp: newlines_simps suffix_def\<close>)

lemma blank_after:
  assumes "s \<noteq> []" and "\<nexists>x y. s = y # nl # x \<and> y \<noteq> nl"
  shows "prefix (newlines 2) (newlines (breaks_after s) @ s) \<and> breaks_after s \<le> 2"
proof (cases s)
  case (Cons a t)
  then show ?thesis using assms by (cases t) (auto simp: newlines_simps)
qed (use assms in simp)

lemma trim_Nil [simp]: "trim [] = []"
  by (simp add: trim_def trim_start_def)

lemma no_return_id: "CHR 0x0D \<notin> set s \<Longrightarrow> no_return s = s"
  by (auto simp: no_return_def filter_id_conv)

lemma append_as_block:
  assumes "text_of (reply c) = before @ after" and "CHR 0x0D \<notin> set (before @ after)"
  shows "appendText body (Some (int (length before))) as_block c =
    (let n = (if trim before = [] then 0 else breaks_before before);
         m = (if trim after = [] then 0 else breaks_after after)
     in (length before + n + length body,
         c\<lparr>reply := JStr (before @ newlines n @ body @ newlines m @ after)\<rparr>))"
proof -
  have "js_slice 0 (int (length before)) (before @ after) = before"
    using js_slice_nat [of 0 "length before" "before @ after"] by simp
  moreover have "js_slice_from (int (length before)) (before @ after) = after"
    by (simp add: js_slice_from_def clip_bound_def)
  ultimately show ?thesis
    using assms by (simp add: appendText_def pad_before_def pad_after_def no_return_id Let_def newlines_def)
qed

text \<open>
  Text that is inserted as a block stands between blank lines, nothing of the reply is lost, and
  the position that is returned is the end of the inserted text; this needs that the text before
  does not end in a line of one character, nor the text behind begin with one.
\<close>

theorem append_block:
  assumes "text_of (reply c) = before @ after" and "CHR 0x0D \<notin> set (before @ after)"
    and "\<nexists>x y. before = x @ [nl, y] \<and> y \<noteq> nl" and "\<nexists>x y. after = y # nl # x \<and> y \<noteq> nl"
    and "(pos, c') = appendText body (Some (int (length before))) as_block c"
  shows "\<exists>n m. n \<le> 2 \<and> m \<le> 2 \<and> reply c' = JStr (before @ newlines n @ body @ newlines m @ after) \<and>
    pos = length before + n + length body \<and>
    (trim before \<noteq> [] \<longrightarrow> suffix (newlines 2) (before @ newlines n)) \<and>
    (trim after \<noteq> [] \<longrightarrow> prefix (newlines 2) (newlines m @ after))"
proof (intro exI conjI impI)
  let ?n = "if trim before = [] then 0 else breaks_before before"
  let ?m = "if trim after = [] then 0 else breaks_after after"
  show "?n \<le> 2" "?m \<le> 2"
    using blank_before [OF _ assms(3)] blank_after [OF _ assms(4)] by (cases "before = []"; cases "after = []"; simp)+
  show "reply c' = JStr (before @ newlines ?n @ body @ newlines ?m @ after)"
    "pos = length before + ?n + length body"
    using assms(5) append_as_block [OF assms(1,2), of body] by (simp_all add: Let_def split: if_splits)
  show "suffix (newlines 2) (before @ newlines ?n)" if "trim before \<noteq> []"
    using that blank_before [OF _ assms(3)] by (cases "before = []") auto
  show "prefix (newlines 2) (newlines ?m @ after)" if "trim after \<noteq> []"
    using that blank_after [OF _ assms(4)] by (cases "after = []") auto
qed

text \<open>
  When the text before ends in a line of one character, a single line break is added and the
  block is not set off by a blank line: the test of the second character sees the line break
  before that line.
\<close>

theorem append_after_short_line:
  assumes "text_of (reply c) = x @ [nl, y] @ after" and "CHR 0x0D \<notin> set (x @ [nl, y] @ after)"
    and "\<not> js_space y"
  shows "\<exists>m. reply (snd (appendText body (Some (int (length x + 2))) as_block c)) =
    JStr (x @ [nl, y, nl] @ body @ newlines m @ after)"
proof -
  have "y \<noteq> nl" using assms(3) by (auto simp: js_space_def)
  moreover have "trim (x @ [nl, y]) \<noteq> []"
  proof
    assume "trim (x @ [nl, y]) = []"
    then have "\<forall>z \<in> set (trim_start (x @ [nl, y])). js_space z"
      by (simp add: trim_def trim_end_def dropWhile_eq_Nil_conv)
    moreover have "y \<in> set (trim_start (x @ [nl, y]))"
      using assms(3) by (simp add: trim_start_def dropWhile_append)
    ultimately show False using assms(3) by blast
  qed
  ultimately show ?thesis
    using append_as_block [of c "x @ [nl, y]" after body] assms(1,2)
    by (intro exI [of _ "if trim after = [] then 0 else breaks_after after"]) (simp add: Let_def newlines_simps)
qed

section \<open>Topic templates\<close>

text \<open>
  Choosing a category for a new topic puts its template into the reply when the reply is empty or
  still the template of the category before, and leaves any other text alone.
\<close>

theorem template_switch:
  assumes "action c = CREATE_TOPIC" and "\<not> privateMessage c" and "\<not> lazy_load_categories e"
    and "find_category e (JNum n) = Some k" and "category_id c \<noteq> JNum n"
    and "c' = fst (set_categoryId e (JNum n) c)"
  shows "reply c' =
    (if is_empty (reply c) \<or> truthy (category_id c) \<and>
        map_option cc_topic_template (find_category e (category_id c)) = Some (reply c)
     then or_empty (cc_topic_template k) else reply c) \<and> category_id c' = JNum n"
proof -
  have "new_category_id e (JNum n) c = JNum n"
    using assms(2) by (simp add: new_category_id_def is_empty_def)
  then have "c' = applyTopicTemplate e (category_id c) (JNum n) (c\<lparr>category_id := JNum n\<rparr>)"
    using assms(3,5,6) by (simp add: set_categoryId_def Let_def)
  then show ?thesis
    using assms(1,4) by (auto simp: applyTopicTemplate_def Let_def is_empty_def split: option.splits)
qed

section \<open>Recipients\<close>

text \<open>The recipients of a message never keep it from being sent, not even when there are none.\<close>

theorem recipients_unchecked:
  assumes "privateMessage c"
  shows "cantSubmitPost e h (c\<lparr>targetRecipients := v\<rparr>) = cantSubmitPost e h c"
proof -
  let ?c = "c\<lparr>targetRecipients := v\<rparr>"
  note kinds = creatingTopic_def creatingPrivateMessage_def creatingSharedDraft_def editingPost_def
    editingFirstPost_def post_prop_def
  have some: "length (targetRecipientsArray e x) \<noteq> 0" if "truthy (targetRecipients x)" for x
    using that by (simp add: targetRecipientsArray_def)
  have same: "privateMessage ?c = privateMessage c" "canEditTitle h ?c = canEditTitle h c"
    "topicFirstPost h ?c = topicFirstPost h c" "creatingPrivateMessage ?c = creatingPrivateMessage c"
    by (simp_all add: privateMessage_def canEditTitle_def topicFirstPost_def kinds)
  have link: "canEditTopicFeaturedLink e h ?c = canEditTopicFeaturedLink e h c"
    by (simp add: canEditTopicFeaturedLink_def same split: option.split)
  have parts: "titleLengthValid e h ?c = titleLengthValid e h c" "tag_count ?c = tag_count c"
    "requiredCategoryMissing e h ?c = requiredCategoryMissing e h c"
    "missingReplyCharacters e h ?c = missingReplyCharacters e h c"
    "minimumRequiredTags e ?c = minimumRequiredTags e c" "template_unchanged e ?c = template_unchanged e c"
    by (simp_all add: titleLengthValid_def missingReplyCharacters_def minimumPostLength_def same link
        minimumTitleLength_def post_prop_def titleLength_def replyLength_def minimumRequiredTags_def
        category_of_def template_unchanged_def tag_count_def requiredCategoryMissing_def
        canCategorize_def split: option.split)
  have "privateMessage ?c" using assms same by simp
  then show ?thesis
    unfolding cantSubmitPost_def parts same using assms some [of c] some [of ?c] by auto
qed

section \<open>What is sent\<close>

lemma serialize_Cons: "serialize get ((f, path) # ser) d =
    serialize get ser (if get path = JUndef then d else om_set f (get path) d)"
  by (simp add: serialize_def)

lemma om_get_serialize: "distinct (map fst ser) \<Longrightarrow> om_get (serialize get ser d) k =
    (case map_of ser k of
       Some path \<Rightarrow> if get path = JUndef then om_get d k else Some (get path)
     | None \<Rightarrow> om_get d k)"
proof (induction ser arbitrary: d)
  case (Cons p ser)
  obtain f path where p: "p = (f, path)" by force
  then have none: "map_of ser f = None" and d: "distinct (map fst ser)"
    using Cons.prems by (simp_all add: map_of_eq_None_iff)
  show ?case
    unfolding p serialize_Cons Cons.IH [OF d] by (cases "k = f") (auto simp: none split: option.split)
qed (simp add: serialize_def)

lemma om_wf_serialize: "om_wf d \<Longrightarrow> om_wf (serialize get ser d)"
proof (induction ser arbitrary: d)
  case (Cons p ser)
  obtain f path where p: "p = (f, path)" by force
  show ?case unfolding p serialize_Cons using Cons by simp
qed (simp add: serialize_def)

lemma draft_serializer_distinct: "distinct (map fst draft_serializer)"
  by (simp add: draft_serializer_def)

text \<open>
  The data of a draft are an object with the fields of the draft serializer: a field is there
  exactly when the composer's field of that path is not undefined, and has its value.
\<close>

theorem draft_data_typed:
  assumes "saveDraft e h now c = (Some q, c')"
  shows "om_wf (dq_data q) \<and> dq_sequence q = draftSequence c \<and> dq_key q = draftKey c \<and>
    (\<forall>k v. om_get (dq_data q) k = Some v \<longleftrightarrow>
       (\<exists>path. (k, path) \<in> set draft_serializer \<and> v = pget (field_values e h now c) path \<and> v \<noteq> JUndef))"
proof -
  let ?get = "pget (field_values e h now c)"
  have q: "dq_data q = serialize ?get draft_serializer []" "dq_sequence q = draftSequence c" "dq_key q = draftKey c"
    using assms by (auto simp: saveDraft_def split: if_splits)
  have "om_get (dq_data q) k = Some v \<longleftrightarrow>
      (\<exists>path. (k, path) \<in> set draft_serializer \<and> v = ?get path \<and> v \<noteq> JUndef)" for k v
  proof -
    have "om_get (dq_data q) k = (case map_of draft_serializer k of
        Some path \<Rightarrow> if ?get path = JUndef then None else Some (?get path) | None \<Rightarrow> None)"
      unfolding q(1) om_get_serialize [OF draft_serializer_distinct] by (simp split: option.split)
    moreover have "(k, path) \<in> set draft_serializer \<longleftrightarrow> map_of draft_serializer k = Some path" for path
      by (simp only: map_of_eq_Some_iff [OF draft_serializer_distinct])
    ultimately show ?thesis by (cases "map_of draft_serializer k") auto
  qed
  moreover have "om_wf (dq_data q)" unfolding q(1) by (rule om_wf_serialize) simp
  ultimately show ?thesis using q(2,3) by blast
qed

section \<open>Witnesses\<close>

definition demo_env :: cenv where
  "demo_env = \<lparr>min_personal_message_title_length = 2, min_topic_title_length = 3,
     max_topic_title_length = 255, min_personal_message_post_length = 2, min_first_post_length = 4,
     min_post_length = 3, default_composer_category = None, allow_uncategorized_topics = True,
     topic_featured_link_enabled = False, topic_featured_link_allowed_category_ids = None,
     uncategorized_category_id = JNum 1, can_tag_topics = True, lazy_load_categories = False,
     site_categories = [\<lparr>cc_id = 7, cc_topic_template = JStr ''old'', cc_minimumRequiredTags = 0\<rparr>,
       \<lparr>cc_id = 8, cc_topic_template = JStr ''new'', cc_minimumRequiredTags = 1\<rparr>],
     site_group_names = [''staff''], small_action_type = JNum 3, whisper_type = JNum 4,
     regular_type = JNum 1, default_archetype = JStr ''regular'', content_localization_enabled = False,
     rich_editor = False, cuser_of = \<lparr>cu_name = JStr ''Sam'', cu_username = JStr ''sam'', cu_id = JNum 1,
       cu_title = JUndef, cu_avatar_template = JUndef, cu_custom_fields = JUndef, cu_moderator = JUndef,
       cu_admin = False, cu_staff = False, cu_trust_level = 2, cu_useRichEditor = False\<rparr>\<rparr>"

definition demo_composer :: composer where
  "demo_composer = \<lparr>action = CREATE_TOPIC, composeState = Some OPEN, c_topic = None, c_post = None,
     reply = JStr ''old'', title = JStr ''Hello'', originalText = JUndef, originalTitle = JUndef,
     originalTags = JUndef, tags = JArr [], category_id = JNum 7, archetypeId = JStr ''regular'',
     metaData = JNull, targetRecipients = JUndef, whisper = JUndef, isWarning = JUndef,
     unlistTopic = JBool False, featuredLink = JUndef, noBump = JBool False, clocale = JNull,
     draftKey = JStr ''new_topic'', draftSequence = 4, draftStatus = JNull, draftConflictUser = JNull,
     draftSaving = False, draftForceSave = False, disableDrafts = False, c_loading = False,
     typingTime = JNum 0, composerOpened = Some 10, composerTotalOpened = JNum 5, editReason = JNull,
     stagedPost = None, createdPost = None, editConflict = False, hasTopicTemplates = True, extra = []\<rparr>"

theorem reply_length_equivalence_witness:
  "reply_units (units ''a <!-- b --> [quote=c]d[/quote]  e '' @ [0x3000]) = 3 \<and>
   replyLength (demo_composer\<lparr>reply := JStr ''a <!-- b --> [quote=c]d[/quote]  e ''\<rparr>) =
   titleLength (demo_composer\<lparr>title := JStr ''a    e ''\<rparr>)"
proof -
  let ?r = "units ''a <!-- b --> [quote=c]d[/quote]  e ''"
  let ?own = "units ''a    e ''"
  have own: "?own = remove_all quote_match (remove_all comment_match ?r)"
    and own': "?own @ [0x3000] = remove_all quote_match (remove_all comment_match (?r @ [0x3000]))"
    by code_simp+
  have l: "length (trim_units count_space (squeeze count_space (?own @ [0x3000]))) = 3" by code_simp
  have x: "set ?own \<inter> set extra_spaces = {}" by code_simp
  have "reply_units (?r @ [0x3000]) = 3"
    using reply_length_equivalence [OF own', THEN conjunct1] l by simp
  moreover have "replyLength (demo_composer\<lparr>reply := JStr ''a <!-- b --> [quote=c]d[/quote]  e ''\<rparr>) =
      titleLength (demo_composer\<lparr>reply := JStr ''a <!-- b --> [quote=c]d[/quote]  e '', title := JStr ''a    e ''\<rparr>)"
    using reply_length_equivalence [OF own, THEN conjunct2, THEN conjunct1] x
    by (simp add: text_of_def)
  ultimately show ?thesis by (simp add: titleLength_def)
qed

theorem composer_time_accounts_witness:
  "composerTime 100 (fold (\<lambda>(t, v). set_composeState t v) [(20, DRAFT), (50, OPEN)] demo_composer) = 65"
proof -
  have "clock_ok demo_composer" "composerTime 10 demo_composer = 5"
    by (simp_all add: clock_ok_def demo_composer_def composerTime_def)
  then show ?thesis
    using composer_time_accounts [of demo_composer 100 "[(20, DRAFT), (50, OPEN)]" 10]
    by (simp add: demo_composer_def)
qed

theorem append_block_witness:
  "\<exists>n m. n \<le> 2 \<and> m \<le> 2 \<and>
     reply (snd (appendText ''X'' (Some 2) as_block (demo_composer\<lparr>reply := JStr ''abcd''\<rparr>))) =
       JStr (''ab'' @ newlines n @ ''X'' @ newlines m @ ''cd'')"
proof -
  let ?c = "demo_composer\<lparr>reply := JStr ''abcd''\<rparr>"
  have "''ab'' \<noteq> x @ [nl, y]" for x y
  proof
    assume "''ab'' = x @ [nl, y]"
    then have "rev ''ab'' = rev (x @ [nl, y])" by (rule arg_cong)
    then show False by simp
  qed
  moreover have "text_of (reply ?c) = ''ab'' @ ''cd''" "CHR 0x0D \<notin> set (''ab'' @ ''cd'')"
    "\<nexists>x y. ''cd'' = y # nl # x \<and> y \<noteq> nl"
    by (simp_all add: text_of_def)
  ultimately have prems: "text_of (reply ?c) = ''ab'' @ ''cd''" "CHR 0x0D \<notin> set (''ab'' @ ''cd'')"
    "\<nexists>x y. ''ab'' = x @ [nl, y] \<and> y \<noteq> nl" "\<nexists>x y. ''cd'' = y # nl # x \<and> y \<noteq> nl"
    by blast+
  have "int (length ''ab'') = 2" by simp
  then show ?thesis
    using append_block [OF prems prod.collapse [symmetric, THEN sym], of "''X''"] by metis
qed

theorem append_after_short_line_witness:
  "\<exists>m. reply (snd (appendText ''X'' (Some 3) as_block (demo_composer\<lparr>reply := JStr [CHR ''a'', nl, CHR ''b'']\<rparr>))) =
     JStr ([CHR ''a'', nl, CHR ''b'', nl] @ ''X'' @ newlines m @ [])"
  using append_after_short_line [of "demo_composer\<lparr>reply := JStr [CHR ''a'', nl, CHR ''b'']\<rparr>" "''a''" "CHR ''b''" "[]"
      "''X''"] by (simp add: text_of_def js_space_def)

theorem template_switch_witness:
  "reply (fst (set_categoryId demo_env (JNum 8) demo_composer)) = JStr ''new'' \<and>
   reply (fst (set_categoryId demo_env (JNum 8) (demo_composer\<lparr>reply := JStr ''mine''\<rparr>))) = JStr ''mine''"
proof -
  let ?k = "\<lparr>cc_id = 8, cc_topic_template = JStr ''new'', cc_minimumRequiredTags = 1\<rparr> :: ccategory"
  have env: "\<not> lazy_load_categories demo_env" "find_category demo_env (JNum 8) = Some ?k"
    "find_category demo_env (JNum 7) = Some \<lparr>cc_id = 7, cc_topic_template = JStr ''old'', cc_minimumRequiredTags = 0\<rparr>"
    by (simp_all add: demo_env_def find_category_def)
  have c: "action demo_composer = CREATE_TOPIC" "\<not> privateMessage demo_composer" "category_id demo_composer = JNum 7"
      "reply demo_composer = JStr ''old''" and
    d: "\<not> privateMessage (demo_composer\<lparr>reply := JStr ''mine''\<rparr>)"
    by (simp_all add: demo_composer_def privateMessage_def creatingPrivateMessage_def action_defs)
  show ?thesis
    using template_switch [OF c(1,2) env(1,2) _ refl]
      template_switch [of "demo_composer\<lparr>reply := JStr ''mine''\<rparr>", OF _ d env(1,2) _ refl] c env(3)
    by (simp add: is_empty_def or_empty_def)
qed

theorem recipients_unchecked_witness:
  "cantSubmitPost demo_env demo_store (demo_composer\<lparr>action := PRIVATE_MESSAGE, targetRecipients := JStr []\<rparr>) =
   cantSubmitPost demo_env demo_store (demo_composer\<lparr>action := PRIVATE_MESSAGE\<rparr>)"
  using recipients_unchecked [of "demo_composer\<lparr>action := PRIVATE_MESSAGE\<rparr>" demo_env demo_store "JStr []"]
  by (simp add: privateMessage_def creatingPrivateMessage_def)

theorem draft_data_typed_witness:
  "\<exists>q c'. saveDraft demo_env demo_store 20 demo_composer = (Some q, c') \<and> om_wf (dq_data q) \<and>
     om_get (dq_data q) ''title'' = Some (JStr ''Hello'') \<and> om_get (dq_data q) ''recipients'' = None"
proof -
  have can: "canSaveDraft demo_store demo_composer"
    by (simp add: canSaveDraft_def demo_composer_def action_defs is_empty_def canEditTitle_def creatingTopic_def)
  then obtain q c' where q: "saveDraft demo_env demo_store 20 demo_composer = (Some q, c')"
    by (simp add: saveDraft_def)
  note t = draft_data_typed [OF q]
  have f: "pget (field_values demo_env demo_store 20 demo_composer) ''title'' = JStr ''Hello''"
    "pget (field_values demo_env demo_store 20 demo_composer) ''targetRecipients'' = JUndef"
    by (simp_all add: field_values_def pget_def demo_composer_def)
  have s: "(''title'', ''title'') \<in> set draft_serializer"
    "\<forall>path. (''recipients'', path) \<in> set draft_serializer \<longrightarrow> path = ''targetRecipients''"
    by (simp_all add: draft_serializer_def)
  have "om_get (dq_data q) ''title'' = Some (JStr ''Hello'')" using t f(1) s(1) by force
  moreover have "om_get (dq_data q) ''recipients'' = None"
  proof (cases "om_get (dq_data q) ''recipients''")
    case (Some v)
    then obtain path where "(''recipients'', path) \<in> set draft_serializer" "v \<noteq> JUndef"
        "v = pget (field_values demo_env demo_store 20 demo_composer) path" using t by blast
    then show ?thesis using f(2) s(2) by blast
  qed
  ultimately show ?thesis using q t by blast
qed

end
