(* ===== verification/ComposerCreate.thy ===== *)
theory ComposerCreate
  imports ComposerProofs
begin

text \<open>
  Creating a post with the composer, on top of the post stream: the new record is staged, and
  either committed when the save answers or taken back when it fails. The lemmas follow the
  writes to the record store; only the new post and the post it replies to are changed.
\<close>

section \<open>Writes to the record store\<close>

lemma rprop_set_props_key: "k \<notin> set (om_keys ps) \<Longrightarrow> rprop (set_props r ps h) r k = rprop h r k"
proof (induction ps arbitrary: h)
  case (Cons p ps)
  obtain a v where p: "p = (a, v)" by force
  have "set_props r (p # ps) h = set_props r ps (set_prop r a v h)"
    by (simp add: p set_props_def set_prop_def)
  then show ?case using Cons p by simp
qed (simp add: set_props_def)

lemma heap_frame_props:
  assumes "post_ok h r" and "{''id'', ''__type''} \<inter> set (om_keys ps) = {}"
  shows "heap_frame h (set_props r ps h)"
proof -
  have "rprop (set_props r ps h) r ''id'' = rprop h r ''id''"
    "rprop (set_props r ps h) r ''__type'' = rprop h r ''__type''"
    using assms(2) by (auto intro: rprop_set_props_key)
  then have "keeps_record h (set_props r ps h) q" for q
    using assms(1) by (cases "q = r") (simp_all add: keeps_record_def post_ok_def, simp add: set_props_def)
  then show ?thesis by (simp add: heap_frame_def)
qed

lemma write_quiet:
  assumes "post_ok (st s) r" and "{''id'', ''__type''} \<inter> set (om_keys ps) = {}"
  shows "quiet s (on_store (set_props r ps) s)"
  using heap_frame_props [OF assms] by (simp add: quiet_def on_store_def)

lemma quiet_refl [simp]: "quiet s s"
  by (simp add: quiet_def)

lemma quiet_trans: "quiet s s' \<Longrightarrow> quiet s' s'' \<Longrightarrow> quiet s s''"
  using heap_frame_trans by (auto simp: quiet_def)

lemma draft_quiet: "quiet s s' \<Longrightarrow> draft s r \<Longrightarrow> draft s' r"
  using heap_frame_keeps(1,4) [of "st s" "st s'"] by (simp add: quiet_def draft_def)

definition same_view :: "pstream \<Rightarrow> pstream \<Rightarrow> bool" where
  "same_view s s' \<longleftrightarrow> (\<exists>h. s' = s\<lparr>st := h\<rparr>)"

lemma same_viewD:
  assumes "same_view s s'"
  shows "posts s' = posts s" "imap s' = imap s" "stream s' = stream s" "topic s' = topic s"
    "stagingPost s' = stagingPost s" "isMegaTopic s' = isMegaTopic s"
  using assms by (auto simp: same_view_def)

lemma same_view_refl [simp]: "same_view s s"
  unfolding same_view_def by (rule exI [of _ "st s"]) simp

lemma same_view_on_store [simp, intro]: "same_view s (on_store f s)"
  by (auto simp: same_view_def on_store_def)

lemma same_view_trans: "same_view s s' \<Longrightarrow> same_view s' s'' \<Longrightarrow> same_view s s''"
  by (auto simp: same_view_def)

section \<open>The new record\<close>

lemma build_draft:
  assumes inv: "stream_inv s" and wf: "om_wf ob" and marks: "om_get ob ''__type'' = None" "om_get ob ''__state'' = None"
    and no_id: "pget ob ''id'' = JUndef" and c: "create_post ob s = (r, s1)"
  shows "r = next_ref (st s)" "same_view s s1" "stream_inv s1" "draft s1 r"
    "\<And>q. q \<noteq> r \<Longrightarrow> heap (st s1) q = heap (st s) q" "munge (st s1) = munge (st s)"
proof -
  have pk: "primaryKey (st s) ''post'' = ''id''"
    using stream_invD(1) [OF inv] by (simp add: base_ok_def)
  then have plain: "plain_payload (st s) ''post'' ob" using wf marks by (simp add: plain_payload_def)
  obtain h where bu: "build ''post'' ob (st s) = (r, h)" and s1: "s1 = s\<lparr>st := h\<rparr>"
    using c no_id pk by (auto simp: create_post_def createRecord_def split: prod.splits)
  show "r = next_ref (st s)" "same_view s s1" using build_frame(1) [OF bu] s1 by (auto simp: same_view_def)
  show "heap (st s1) q = heap (st s) q" if "q \<noteq> r" for q using build_frame(5) [OF bu that] s1 by simp
  show "munge (st s1) = munge (st s)" using build_frame(4) [OF bu] s1 by simp
  show "stream_inv s1" "draft s1 r" using create_draft(1,2) [OF inv plain _ c] no_id by simp_all
qed

lemma keys_serialize: "set (om_keys (serialize get ser d)) \<subseteq> set (om_keys d) \<union> fst ` set ser"
proof (induction ser arbitrary: d)
  case (Cons p ser)
  obtain f path where p: "p = (f, path)" by force
  let ?d = "if get path = JUndef then d else om_set f (get path) d"
  have "set (om_keys (om_set f v d)) = insert f (set (om_keys d))" for v by (auto simp: om_keys_set)
  then have d: "set (om_keys ?d) \<subseteq> insert f (set (om_keys d))"
    by (cases "get path = JUndef") auto
  have sets: "A \<subseteq> insert f D \<Longrightarrow> A \<union> S \<subseteq> D \<union> insert f S" for A D S by blast
  have ser: "fst ` set ((f, path) # ser) = insert f (fst ` set ser)" by simp
  have step: "set (om_keys (serialize get ser ?d)) \<subseteq> set (om_keys ?d) \<union> fst ` set ser" by (rule Cons)
  have "set (om_keys ?d) \<union> fst ` set ser \<subseteq> set (om_keys d) \<union> fst ` set ((f, path) # ser)"
    unfolding ser by (rule sets [OF d])
  then show ?case unfolding p serialize_Cons by (rule subset_trans [OF step])
qed (simp add: serialize_def)

lemma new_post_props_ok:
  "om_wf (new_post_props e now sizes cooked c)"
  "om_get (new_post_props e now sizes cooked c) ''__type'' = None"
  "om_get (new_post_props e now sizes cooked c) ''__state'' = None"
  "pget (new_post_props e now sizes cooked c) ''id'' = JUndef"
  by (simp_all add: new_post_props_def Let_def pget_def)

lemma make_post_spec:
  assumes inv: "stream_inv s" and m: "make_post e now sizes cooked c s = (r, s')"
  shows "r = next_ref (st s)" "same_view s s'" "stream_inv s'" "draft s' r"
    "\<And>q. q \<noteq> r \<Longrightarrow> heap (st s') q = heap (st s) q" "munge (st s') = munge (st s)"
proof -
  obtain s1 where c: "create_post (new_post_props e now sizes cooked c) s = (r, s1)"
    using m by (auto simp: make_post_def Let_def split: prod.splits)
  note d = build_draft [OF inv new_post_props_ok c]
  let ?ps = "serialize (pget (field_values e (st s1) now c)) create_serializer []"
  let ?s2 = "on_store (set_props r ?ps) s1"
  have "set (om_keys ?ps) \<subseteq> fst ` set create_serializer" using keys_serialize [of _ create_serializer "[]"] by simp
  moreover have "{''id'', ''__type''} \<inter> fst ` set create_serializer = {}" by (simp add: create_serializer_def)
  ultimately have keys: "{''id'', ''__type''} \<inter> set (om_keys ?ps) = {}" by blast
  have q2: "quiet s1 ?s2" using write_quiet [OF _ keys] d(4) by (simp add: draft_def)
  have "\<exists>ps. s' = on_store (set_props r ps) ?s2 \<and> {''id'', ''__type''} \<inter> set (om_keys ps) = {} \<or> s' = ?s2"
    using m c by (auto simp: make_post_def Let_def split: option.splits)
  then have q3: "quiet ?s2 s' \<and> same_view ?s2 s' \<and> (\<forall>q. q \<noteq> r \<longrightarrow> heap (st s') q = heap (st ?s2) q)"
    using write_quiet [of ?s2 r] draft_quiet [OF q2 d(4)]
    by (auto simp: draft_def same_view_def on_store_def set_props_def)
  show "r = next_ref (st s)" by (rule d(1))
  show "munge (st s') = munge (st s)"
    using d(6) q2 q3 by (simp add: quiet_def heap_frame_def)
  show "same_view s s'" using d(2) q3 same_view_trans same_view_on_store by blast
  show "stream_inv s'" using quiet_inv [OF quiet_trans [OF q2] d(3)] q3 by blast
  show "draft s' r" using draft_quiet [OF quiet_trans [OF q2] d(4)] q3 by blast
  show "heap (st s') q = heap (st s) q" if "q \<noteq> r" for q
    using that q3 d(5) by (simp add: on_store_def set_props_def)
qed

lemma make_post_keeps:
  assumes "create_post (new_post_props e now sizes cooked c) s = (r, s1)"
    and "k \<notin> fst ` set create_serializer" and "k \<noteq> ''reply_to_post_number''" and "k \<noteq> ''reply_to_user''"
  shows "rprop (st (snd (make_post e now sizes cooked c s))) r k = rprop (st s1) r k"
proof -
  have "set (om_keys (serialize get create_serializer [])) \<subseteq> fst ` set create_serializer" for get
    using keys_serialize [of get create_serializer "[]"] by simp
  then have "k \<notin> set (om_keys (serialize get create_serializer []))" for get using assms(2) by blast
  then show ?thesis
    using assms by (simp add: make_post_def Let_def on_store_def rprop_set_props_key split: option.split)
qed

section \<open>Replying\<close>

text \<open>The post that is replied to: its count of replies, and nothing else of the page, changes.\<close>

definition target_ok :: "composer \<Rightarrow> pstream \<Rightarrow> bool" where
  "target_ok c s \<longleftrightarrow> (\<forall>p. c_post c = Some p \<longrightarrow> post_ok (st s) p)"

lemma count_reply_quiet:
  assumes "target_ok c s" and "{''id'', ''__type''} \<inter> set (om_keys ps) = {}"
  shows "quiet s (count_reply n ps c s)" "same_view s (count_reply n ps c s)"
    "c_post c \<noteq> Some q \<Longrightarrow> heap (st (count_reply n ps c s)) q = heap (st s) q"
proof -
  have "{''id'', ''__type''} \<inter> set (om_keys ((''reply_count'', v) # ps)) = {}" for v
    using assms(2) by auto
  then show "quiet s (count_reply n ps c s)"
    using assms(1) write_quiet by (auto simp: count_reply_def target_ok_def split: option.split)
  show "same_view s (count_reply n ps c s)"
    by (simp add: count_reply_def split: option.split)
  show "heap (st (count_reply n ps c s)) q = heap (st s) q" if "c_post c \<noteq> Some q"
    using that by (auto simp: count_reply_def on_store_def set_props_def split: option.split)
qed

lemma count_reply_count:
  assumes "c_post c = Some p" and "''reply_count'' \<notin> set (om_keys ps)"
  shows "rprop (st (count_reply n ps c s)) p ''reply_count'' = JNum (num_of (rprop (st s) p ''reply_count'') + n)"
proof -
  have "set_props p ((''reply_count'', v) # ps) h = set_props p ps (set_prop p ''reply_count'' v h)" for v h
    by (simp add: set_props_def set_prop_def)
  then show ?thesis
    using assms by (simp add: count_reply_def on_store_def rprop_set_props_key)
qed

text \<open>Staging a new record writes into that record only.\<close>

lemma stage_heap:
  assumes "om_get (imap s) (-1) = None" and "q \<noteq> r"
  shows "heap (st (snd (stagePost r user n s))) q = heap (st s) q"
proof -
  let ?b = "before_append r user n s"
  have init: "heap (st (initUserModels r ?b)) q = heap (st s) q" "imap (initUserModels r ?b) = imap s"
    using assms(2) by (auto simp: initUserModels_def on_store_def set_prop_def set_props_def split: jsval.split)
  have "post_id (initUserModels r ?b) r = -1"
    by (auto simp: initUserModels_def on_store_def pid_def staged_props split: jsval.split)
  then have "heap (st (appendPost r ?b)) q = heap (st s) q"
    using init assms by (simp add: appendPost_def storePost_def Let_def on_store_def set_prop_def)
  then show ?thesis
    using assms(2) by (simp add: stagePost_unfold append_at_end_def push_id_def Let_def set_props_def)
qed

section \<open>The call\<close>

definition in_topic :: "composer \<Rightarrow> bool" where
  "in_topic c \<longleftrightarrow> action c \<noteq> CREATE_TOPIC \<and> action c \<noteq> PRIVATE_MESSAGE \<and> c_topic c \<noteq> None"

definition quiet_page :: "pstream \<Rightarrow> bool" where
  "quiet_page s \<longleftrightarrow> stream_inv s \<and> \<not> stagingPost s \<and> om_get (imap s) (-1) = None \<and> -1 \<notin> set (stream s)"

text \<open>The state in which the new record exists and the reply is counted, just before staging.\<close>

definition before_stage ::
    "cenv \<Rightarrow> int \<Rightarrow> jsval \<Rightarrow> string option \<Rightarrow> composer \<Rightarrow> pstream \<Rightarrow> pstream" where
  "before_stage e now sizes preview c s =
     count_reply 1 [(''replies'', JArr [])] c (snd (make_post e now sizes (getCookedHtml preview) c s))"

lemma before_stage_spec:
  assumes page: "quiet_page s" and target: "target_ok c s" and m: "m = before_stage e now sizes preview c s"
    and r: "r = next_ref (st s)"
  shows "quiet_page m" "same_view s m" "draft m r" "q < r \<Longrightarrow> post_id m q = post_id s q"
    "c_post c = Some p \<Longrightarrow> p \<noteq> r \<and>
       rprop (st m) p ''reply_count'' = JNum (num_of (rprop (st s) p ''reply_count'') + 1)"
    "fst (make_post e now sizes (getCookedHtml preview) c s) = r"
    "rprop (st m) r ''cooked'' =
       rprop (st (snd (make_post e now sizes (getCookedHtml preview) c s))) r ''cooked''"
    "munge (st m) = munge (st s)"
proof -
  obtain r1 s1 where mp: "make_post e now sizes (getCookedHtml preview) c s = (r1, s1)" by force
  have inv: "stream_inv s" using page by (simp add: quiet_page_def)
  note mk = make_post_spec [OF inv mp]
  have r1: "r1 = r" using mk(1) r by simp
  have m1: "m = count_reply 1 [(''replies'', JArr [])] c s1" using m mp by (simp add: before_stage_def)
  have tgt: "p \<noteq> r \<and> post_ok (st s1) p" if "c_post c = Some p" for p
  proof -
    have p: "post_ok (st s) p" using target that by (simp add: target_ok_def)
    then have "p < r" using r by (simp add: post_ok_def)
    moreover have "r < next_ref (st s1)" using mk(4) r1 by (simp add: draft_def post_ok_def)
    ultimately show ?thesis using p mk(5) [of p] r1 by (simp add: post_ok_def rprop_def)
  qed
  then have "target_ok c s1" by (simp add: target_ok_def)
  from count_reply_quiet [OF this, where ps = "[(''replies'', JArr [])]" and n = 1]
  have q: "quiet s1 m" "same_view s1 m" and other: "\<And>q. c_post c \<noteq> Some q \<Longrightarrow> heap (st m) q = heap (st s1) q"
    by (simp_all add: m1)
  show sv: "same_view s m" using same_view_trans [OF mk(2) q(2)] .
  show "quiet_page m"
    using page same_viewD [OF sv] quiet_inv [OF q(1) mk(3)] by (simp add: quiet_page_def)
  show "draft m r" using draft_quiet [OF q(1) mk(4)] r1 by simp
  show "post_id m q = post_id s q" if "q < r"
    using that quiet_ids(1) [OF q(1)] mk(5) [of q] r1 by (simp add: pid_def rprop_def)
  show "p \<noteq> r \<and> rprop (st m) p ''reply_count'' = JNum (num_of (rprop (st s) p ''reply_count'') + 1)"
    if "c_post c = Some p"
    using tgt [OF that] count_reply_count [OF that, of "[(''replies'', JArr [])]" 1 s1] mk(5) [of p] r1
    by (simp add: rprop_def m1)
  show "fst (make_post e now sizes (getCookedHtml preview) c s) = r" using mp r1 by simp
  show "munge (st m) = munge (st s)" using mk(6) q(1) by (simp add: quiet_def heap_frame_def)
  show "rprop (st m) r ''cooked'' = rprop (st (snd (make_post e now sizes (getCookedHtml preview) c s))) r ''cooked''"
    using mp other [of r] tgt by (cases "c_post c = Some r") (auto simp: rprop_def)
qed

lemma stage_staging:
  assumes "quiet_page m" and "draft m r"
  shows "stagingPost (snd (stagePost r user n m))" "stream_inv (snd (stagePost r user n m))"
    "t_id (PostStream.topic (snd (stagePost r user n m))) = t_id (PostStream.topic m)"
    "munge (st (snd (stagePost r user n m))) = munge (st m)"
proof -
  have mp: "stream_inv m" "om_get (imap m) (-1) = None" "-1 \<notin> set (stream m)" "\<not> stagingPost m"
    using assms(1) by (simp_all add: quiet_page_def)
  note s1 = stagePost_state [OF mp(1) assms(2) mp(2-4) refl, where u = user and n = n]
  show "stagingPost (snd (stagePost r user n m))" "stream_inv (snd (stagePost r user n m))"
    by (rule s1(2), rule s1(1))
  show "t_id (PostStream.topic (snd (stagePost r user n m))) = t_id (PostStream.topic m)" by (simp add: s1(3))
  show "munge (st (snd (stagePost r user n m))) = munge (st m)" using s1(9) by (simp add: heap_frame_def)
qed

lemma create_start_eq:
  assumes page: "quiet_page s" and topic: "in_topic c" and target: "target_ok c s"
    and m: "m = before_stage e now sizes preview c s" and r: "r = next_ref (st s)"
  shows "create_start e now sizes preview user c s =
    (Some r, (set_composeState now SAVING c)\<lparr>stagedPost :=
       (if rprop (st m) r ''cooked'' \<noteq> JStr [] \<and> staged_end m r user (JNum now) then Some r else None)\<rparr>,
     if rprop (st m) r ''cooked'' = JStr [] then m else snd (stagePost r user (JNum now) m))"
proof -
  note b = before_stage_spec [OF page target m r]
  have c0: "(if action c = CREATE_TOPIC \<or> action c = PRIVATE_MESSAGE then c\<lparr>c_topic := None\<rparr> else c) = c"
    "c_topic c \<noteq> None" using topic by (auto simp: in_topic_def)
  obtain s1 where mp: "make_post e now sizes (getCookedHtml preview) c s = (r, s1)"
    using b(6) by (metis prod.collapse)
  have m1: "count_reply 1 [(''replies'', JArr [])] c s1 = m" using m mp by (simp add: before_stage_def)
  have "\<not> stagingPost m" using b(1) by (simp add: quiet_page_def)
  then have "fst (stagePost r user (JNum now) m) = (if staged_end m r user (JNum now) then ''staged'' else ''offScreen'')"
    by (simp add: stagePost_unfold staged_end_def)
  moreover obtain v s3 where st: "stagePost r user (JNum now) m = (v, s3)" by force
  ultimately have v: "v = (if staged_end m r user (JNum now) then ''staged'' else ''offScreen'')" by simp
  show ?thesis
    unfolding create_start_def c0(1) Let_def mp prod.case m1 st
    by (simp only: c0(2) if_False) (cases "rprop (st m) r ''cooked'' = JStr []"; simp add: v)
qed

lemma saving_fields [simp]:
  "c_topic (set_composeState now v c) = c_topic c" "c_post (set_composeState now v c) = c_post c"
  "reply (set_composeState now v c) = reply c" "title (set_composeState now v c) = title c"
  "action (set_composeState now v c) = action c" "composeState (set_composeState now v c) = Some v"
  by (simp_all add: set_composeState_def composeStateChanged_def split: option.split)

text \<open>What the theorems on the three outcomes start from.\<close>

lemma started:
  assumes page: "quiet_page s" and topic: "in_topic c" and target: "target_ok c s"
    and start: "create_start e now sizes preview user c s = (Some r, c', s')"
  obtains m where "quiet_page m" "same_view s m" "draft m r"
    "\<And>p. c_post c = Some p \<Longrightarrow> p \<noteq> r \<and>
       rprop (st m) p ''reply_count'' = JNum (num_of (rprop (st s) p ''reply_count'') + 1)"
    "stagingPost s' \<Longrightarrow> s' = snd (stagePost r user (JNum now) m)" "\<not> stagingPost s' \<Longrightarrow> s' = m"
    "stagedPost c' = Some r \<Longrightarrow> stagePost r user (JNum now) m = (''staged'', s')"
    "c_topic c' \<noteq> None" "c_post c' = c_post c" "reply c' = reply c" "title c' = title c" "action c' = action c"
proof -
  define m where m: "m = before_stage e now sizes preview c s"
  have r: "r = next_ref (st s)" and res: "c' = (set_composeState now SAVING c)\<lparr>stagedPost :=
       (if rprop (st m) r ''cooked'' \<noteq> JStr [] \<and> staged_end m r user (JNum now) then Some r else None)\<rparr>"
     "s' = (if rprop (st m) r ''cooked'' = JStr [] then m else snd (stagePost r user (JNum now) m))"
    using create_start_eq [OF page topic target m refl, of user] start by simp_all
  note b = before_stage_spec [OF page target m r]
  have mp: "stream_inv m" "om_get (imap m) (-1) = None" "-1 \<notin> set (stream m)" "\<not> stagingPost m"
    using b(1) by (simp_all add: quiet_page_def)
  note staging = stage_staging(1) [OF b(1,3), of user "JNum now"]
  show ?thesis
  proof (rule that [OF b(1-3,5)])
    show "s' = snd (stagePost r user (JNum now) m)" if "stagingPost s'"
      using that res(2) mp(4) by (auto split: if_splits)
    show "s' = m" if "\<not> stagingPost s'" using that res(2) staging by (auto split: if_splits)
    show "stagePost r user (JNum now) m = (''staged'', s')" if "stagedPost c' = Some r"
      using that res mp(4) by (auto simp: stagePost_unfold staged_end_def split: if_splits)
    show "c_topic c' \<noteq> None" using topic res(1) by (simp add: in_topic_def)
  qed (simp_all add: res(1))
qed

section \<open>Failure\<close>

lemma create_failed_fields [simp]:
  "c_topic c \<noteq> None \<Longrightarrow> stream (create_failed r c s) = filter (\<lambda>i. i \<noteq> -1) (stream s)"
  "c_topic c \<noteq> None \<Longrightarrow> posts (create_failed r c s) = filter (\<lambda>q. q \<noteq> r) (posts s)"
  "c_topic c \<noteq> None \<Longrightarrow> imap (create_failed r c s) = om_delete (-1) (imap s)"
  "c_topic c \<noteq> None \<Longrightarrow> stagingPost (create_failed r c s) = False"
  "c_topic c \<noteq> None \<Longrightarrow> topic (create_failed r c s) = topic (undoPost r s)"
  by (auto simp: create_failed_def count_reply_def on_store_def split: option.split)

text \<open>
  C6. When the save of a staged post fails, everything is as it was before: the stream and the loaded
  posts, the counters of the topic, the number of replies of the post that was replied to; the
  composer opens again with the text the user wrote.
\<close>

theorem failed_post_restores:
  assumes page: "quiet_page s" and topic: "in_topic c" and target: "target_ok c s"
    and start: "create_start e now sizes preview user c s = (Some r, c', s')"
    and shown: "stagingPost s'"
    and s'': "s'' = create_failed r c' s'"
  shows "stream s'' = stream s \<and> posts s'' = posts s \<and> om_get (imap s'') = om_get (imap s) \<and>
    \<not> stagingPost s'' \<and> t_posts_count (PostStream.topic s'') = t_posts_count (PostStream.topic s) \<and>
    t_highest_post_number (PostStream.topic s'') = t_highest_post_number (PostStream.topic s) \<and>
    (\<forall>p. c_post c = Some p \<longrightarrow>
       rprop (st s'') p ''reply_count'' = JNum (num_of (rprop (st s) p ''reply_count''))) \<and>
    composeState (reopen later c') = Some OPEN \<and> reply (reopen later c') = reply c \<and>
    title (reopen later c') = title c"
proof -
  obtain m where m: "quiet_page m" "same_view s m" "draft m r"
      "\<And>p. c_post c = Some p \<Longrightarrow> p \<noteq> r \<and>
         rprop (st m) p ''reply_count'' = JNum (num_of (rprop (st s) p ''reply_count'') + 1)"
    and s': "s' = snd (stagePost r user (JNum now) m)" and c'': "c_topic c' \<noteq> None"
    and c': "c_post c' = c_post c" "reply c' = reply c" "title c' = title c"
    by (rule started [OF page topic target start]) (use shown in blast)
  have mp: "stream_inv m" "om_get (imap m) (-1) = None" "-1 \<notin> set (stream m)" "\<not> stagingPost m"
    using m(1) by (simp_all add: quiet_page_def)
  note undone = undone_state [OF mp(1) m(3) mp(2-4) refl, of user "JNum now", folded s']
  have "rprop (st s'') p ''reply_count'' = JNum (num_of (rprop (st s) p ''reply_count''))"
    if "c_post c = Some p" for p
  proof -
    have "heap (st s') p = heap (st m) p" unfolding s' using m(4) [OF that] mp(2) by (intro stage_heap) simp_all
    then have "rprop (st (undoPost r s')) p ''reply_count'' = JNum (num_of (rprop (st s) p ''reply_count'') + 1)"
      using m(4) [OF that] by (simp add: rprop_def)
    then show ?thesis
      using count_reply_count [of c' p "[]" "-1" "undoPost r s'"] that c'(1) c''
      by (simp add: s'' create_failed_def)
  qed
  then show ?thesis
    using undone same_viewD [OF m(2)] c' c'' unfolding s'' by (simp add: reopen_def)
qed

text \<open>
  Without a preview nothing is staged, yet a failed save takes back what staging would have
  counted: the topic loses a post and its highest number goes down by one.
\<close>

theorem failed_unstaged_miscounts:
  assumes page: "quiet_page s" and topic: "in_topic c" and target: "target_ok c s"
    and start: "create_start e now sizes preview user c s = (Some r, c', s')"
    and hidden: "\<not> stagingPost s'" and s'': "s'' = create_failed r c' s'"
  shows "stream s'' = stream s \<and> t_posts_count (PostStream.topic s'') = t_posts_count (PostStream.topic s) - 1 \<and>
    t_highest_post_number (PostStream.topic s'') = t_highest_post_number (PostStream.topic s) - 1"
proof -
  obtain m where m: "quiet_page m" "same_view s m" and s': "s' = m" and c': "c_topic c' \<noteq> None"
    by (rule started [OF page topic target start]) (use hidden in blast)
  then show ?thesis
    using same_viewD [OF m(2)] by (simp add: s'' filter_neq_id quiet_page_def)
qed

section \<open>Success\<close>

text \<open>
  C3. When a post that was staged at the end of the stream is saved under the id \<open>k\<close>, the page ends up
  with it as its last post, loaded once and filed under its id; the composer is empty and closed,
  and the event of the new post is triggered once.
\<close>

theorem saved_post_shown:
  assumes page: "quiet_page s" and topic: "in_topic c" and target: "target_ok c s"
    and start: "create_start e now sizes preview user c s = (Some r, c', s')"
    and staged: "stagedPost c' = Some r" and mega: "\<not> isMegaTopic s"
    and answer: "sa_action a \<noteq> ''enqueued''" "sa_payload a = Some pl" "saved_payload s' k pl"
    and fresh: "k > 0" "om_get (imap s) k = None" "k \<notin> set (stream s)"
    and result: "create_done later r a c' s' = (events, c'', s'')"
  shows "stream s'' = stream s @ [k] \<and> posts s'' = posts s @ [r] \<and> post_id s'' r = k \<and>
    om_get (imap s'') = (om_get (imap s))(k \<mapsto> r) \<and> quiet_page s'' \<and>
    composeState c'' = Some CLOSED \<and> reply c'' = JNull \<and> createdPost c'' = Some r \<and>
    events = [if replyingToTopic c then PostCreated r else TopicCreated r]"
proof -
  obtain m where m: "quiet_page m" "same_view s m" "draft m r"
    and msg: "stagePost r user (JNum now) m = (''staged'', s')"
    and c': "c_topic c' \<noteq> None" and act: "action c' = action c"
    by (rule started [OF page topic target start]) (use staged in blast)
  have mp: "stream_inv m" "om_get (imap m) (-1) = None" "-1 \<notin> set (stream m)" "\<not> stagingPost m"
    using m(1) by (simp_all add: quiet_page_def)
  note view = same_viewD [OF m(2)]
  have inv': "stream_inv s'"
    using stage_staging(2) [OF m(1,3), of user "JNum now"] msg by simp
  obtain t where t: "c_topic c' = Some t" using c' by blast
  let ?s1 = "saveNew_finish r pl s'"
  let ?s2 = "if (case sa_reply_to_user a of Some u \<Rightarrow> truthy u | None \<Rightarrow> True) then ?s1
     else on_store (set_prop r ''reply_to_user'' JNull) ?s1"
  have s2: "saved_as s' r k ?s2"
    using saveNew_saved [OF stream_invD(1) [OF inv'] answer(3), of r] saved_as_write by auto
  have fin: "s'' = commitPost r ?s2" "events = [if replyingToTopic c then PostCreated r else TopicCreated r]"
    "composeState c'' = Some CLOSED \<and> reply c'' = JNull \<and> createdPost c'' = Some r"
    using result answer(1,2) t act
    by (auto simp: create_done_def answer_saved_def Let_def replyingToTopic_def set_composeState_def
        composeStateChanged_def clearState_def split: option.splits if_splits)
  note k = fresh(1) fresh(2) [folded view(2)] fresh(3) [folded view(3)]
  note cs = commit_state [OF mp(1) m(3) _ mp(2,3) msg s2 k fin(1)]
  note ci = commit_inv [OF mp(1) m(3) _ mp(2,3) msg s2 k fin(1)]
  show ?thesis
    using cs ci fin(2,3) mega view mp(2,3) fresh(1) by (simp add: quiet_page_def)
qed

section \<open>Witnesses\<close>

definition demo_reply :: composer where
  "demo_reply = demo_composer\<lparr>action := REPLY, composeState := Some OPEN, c_post := Some 0,
     c_topic := Some \<lparr>ct_id = 5, ct_title = JStr ''T'', ct_archetype = ''regular'', ct_category_id = JNum 7,
       ct_tags = JArr [], ct_featured_link = JUndef, ct_pm_with_non_human_user = False, ct_can_edit = True,
       ct_can_edit_tags = True, ct_draft_sequence = JNum 0\<rparr>\<rparr>"

lemma demo_loaded_eval:
  "\<not> stagingPost demo_loaded" "om_get (imap demo_loaded) (-1) = None" "stream demo_loaded = [10]"
  "posts demo_loaded = [0]" "om_get (imap demo_loaded) 11 = None" "\<not> isMegaTopic demo_loaded"
  "t_posts_count (PostStream.topic demo_loaded) = 1" "post_id demo_loaded 0 = 10"
  "rprop (st demo_loaded) 0 ''__type'' = JStr ''post''"
  by (simp_all add: demo_defs)

lemma demo_loaded_heap: "st demo_loaded = \<lparr>heap = (\<lambda>_. [])(0 :=
     [(''id'', JNum 10), (''post_number'', JNum 1), (''topic_id'', JNum 5), (''__type'', JStr ''post''),
      (''__state'', JStr ''created''), (''topic'', JRef 1000)]),
   next_ref = 1, id_map = [(''post'', [(''10'', 0)])], plurals = initial_plurals,
   primaryKey = (\<lambda>_. ''id''), munge = (\<lambda>_ ob. ob)\<rparr>"
proof -
  have "show_int 10 = ''10''" by code_simp
  then show ?thesis by (simp add: demo_defs assign_def)
qed

lemma demo_page: "quiet_page demo_loaded" "in_topic demo_reply" "target_ok demo_reply demo_loaded"
  "next_ref (st demo_loaded) = 1"
  using demo_loaded_inv demo_loaded_eval
  by (simp_all add: quiet_page_def in_topic_def target_ok_def demo_reply_def action_defs post_ok_def
      demo_loaded_heap)

lemma demo_made: "rprop (st (snd (make_post demo_env 77 JNull cooked demo_reply demo_loaded))) 1 ''cooked'' = JStr cooked"
proof -
  obtain s1 where c: "create_post (new_post_props demo_env 77 JNull cooked demo_reply) demo_loaded = (1, s1)"
    and v: "rprop (st s1) 1 ''cooked'' = JStr cooked"
    by (simp add: create_post_def createRecord_def build_def demo_loaded_heap Let_def new_post_props_def
        assign_def pget_def rprop_def storeMap_def)
  show ?thesis unfolding v [symmetric] by (rule make_post_keeps [OF c]) (simp_all add: create_serializer_def)
qed

lemma before_append_isMega [simp]: "isMegaTopic (before_append r u n s) = isMegaTopic s"
  by (simp add: before_append_def staged_topic_def on_store_def on_topic_def)

definition demo_before :: "string option \<Rightarrow> pstream" where
  "demo_before preview = before_stage demo_env 77 JNull preview demo_reply demo_loaded"

lemmas demo_before_spec = before_stage_spec [OF demo_page(1,3) demo_before_def refl, unfolded demo_page(4)]
  and demo_start_eq = create_start_eq [OF demo_page(1-3) demo_before_def refl, unfolded demo_page(4)]

lemma demo_cooked: "rprop (st (demo_before preview)) 1 ''cooked'' = JStr (getCookedHtml preview)"
  unfolding demo_before_spec(7) by (rule demo_made)

lemma demo_end: "staged_end (demo_before preview) 1 JNull (JNum 77)"
proof -
  have "post_id (before_append 1 JNull (JNum 77) (demo_before preview)) 0 = 10"
    using demo_before_spec(4) [of 0 preview] demo_loaded_eval(8) by simp
  then show ?thesis
    using same_viewD [OF demo_before_spec(2), of preview] demo_loaded_eval(3,4,6)
    by (simp add: staged_end_def loadedAllPosts_def hasLoadedData_def hasPosts_def filteredPostsCount_def
        lastPostId_def last_opt_def)
qed

definition demo_shown :: "string option \<Rightarrow> composer \<times> pstream" where
  "demo_shown preview = snd (create_start demo_env 77 JNull preview JNull demo_reply demo_loaded)"

lemma demo_hi: "getCookedHtml (Some ''hi'') = ''hi''" "getCookedHtml None = []"
  by (simp_all add: getCookedHtml_def replace_all.simps)

lemma demo_started:
  "create_start demo_env 77 JNull preview JNull demo_reply demo_loaded =
     (Some 1, fst (demo_shown preview), snd (demo_shown preview))"
  by (simp add: demo_shown_def demo_start_eq)

lemma demo_shown_eval:
  "stagingPost (snd (demo_shown (Some ''hi'')))" "\<not> stagingPost (snd (demo_shown None))"
  "stagedPost (fst (demo_shown (Some ''hi''))) = Some 1"
proof -
  have idle: "\<not> stagingPost (demo_before p)" for p using demo_before_spec(1) [of p] by (simp add: quiet_page_def)
  show "\<not> stagingPost (snd (demo_shown None))"
    by (simp add: demo_shown_def demo_start_eq demo_cooked demo_hi idle del: One_nat_def)
  show "stagingPost (snd (demo_shown (Some ''hi'')))" "stagedPost (fst (demo_shown (Some ''hi''))) = Some 1"
    using demo_end stage_staging(1) [OF demo_before_spec(1,3)]
    by (simp_all add: demo_shown_def demo_start_eq demo_cooked demo_hi del: One_nat_def)
qed

theorem failed_post_restores_witness:
  "stream (create_failed 1 (fst (demo_shown (Some ''hi''))) (snd (demo_shown (Some ''hi'')))) = [10] \<and>
   t_posts_count (PostStream.topic (create_failed 1 (fst (demo_shown (Some ''hi''))) (snd (demo_shown (Some ''hi''))))) = 1"
  using failed_post_restores [OF demo_page(1-3) demo_started demo_shown_eval(1) refl] demo_loaded_eval(3,7)
  by simp

theorem failed_unstaged_miscounts_witness:
  "t_posts_count (PostStream.topic (create_failed 1 (fst (demo_shown None)) (snd (demo_shown None)))) = 0"
  using failed_unstaged_miscounts [OF demo_page(1-3) demo_started demo_shown_eval(2) refl] demo_loaded_eval(7)
  by simp

lemma demo_saved_payload: "saved_payload (snd (demo_shown (Some ''hi''))) 11 (demo_payload 11 2)"
proof -
  have s': "snd (demo_shown (Some ''hi'')) = snd (stagePost 1 JNull (JNum 77) (demo_before (Some ''hi'')))"
    by (simp add: demo_shown_def demo_start_eq demo_cooked demo_hi del: One_nat_def)
  have "t_id (PostStream.topic (snd (demo_shown (Some ''hi'')))) = 5"
    unfolding s' stage_staging(3) [OF demo_before_spec(1,3)] same_viewD(4) [OF demo_before_spec(2)]
    by (simp add: demo_defs)
  moreover have "munge (st (snd (demo_shown (Some ''hi'')))) = (\<lambda>_ ob. ob)"
    unfolding s' stage_staging(4) [OF demo_before_spec(1,3)] demo_before_spec(8) by (simp add: demo_loaded_heap)
  ultimately show ?thesis by (simp add: saved_payload_def demo_payload_def)
qed

definition demo_answer :: save_answer where
  "demo_answer = \<lparr>sa_action = ''create_post'', sa_payload = Some (demo_payload 11 2), sa_reply_to_user = Some JNull\<rparr>"

theorem saved_post_shown_witness:
  "\<exists>c'' s''. create_done 99 1 demo_answer (fst (demo_shown (Some ''hi''))) (snd (demo_shown (Some ''hi''))) =
     ([PostCreated 1], c'', s'') \<and> stream s'' = [10, 11] \<and> posts s'' = [0, 1] \<and> composeState c'' = Some CLOSED"
proof -
  obtain ev c'' s'' where r: "create_done 99 1 demo_answer (fst (demo_shown (Some ''hi''))) (snd (demo_shown (Some ''hi''))) =
     (ev, c'', s'')" by (metis prod.collapse)
  have "sa_action demo_answer \<noteq> ''enqueued''" "sa_payload demo_answer = Some (demo_payload 11 2)"
    "11 > (0::int)" "11 \<notin> set (stream demo_loaded)" "replyingToTopic demo_reply"
    using demo_loaded_eval(3) by (simp_all add: demo_answer_def replyingToTopic_def demo_reply_def)
  then show ?thesis
    using saved_post_shown [OF demo_page(1-3) demo_started demo_shown_eval(3) demo_loaded_eval(6) _ _
        demo_saved_payload _ demo_loaded_eval(5) _ r] r demo_loaded_eval(3,4) by simp
qed

end
