(* ===== verification/ComposerEdit.thy ===== *)
theory ComposerEdit
  imports ComposerCreate
begin

text \<open>
  Editing with the composer and its drafts: what a failed edit leaves behind, how a conflict is
  overwritten, and that drafts are saved one at a time. The server's check of the sequence number
  is that of \<open>app/models/draft.rb\<close> for a draft that exists already.
\<close>

section \<open>Edits\<close>

lemma edit_started:
  assumes "edit_start e now reason sizes preview r c h = Inr (reqs, c', h')"
  shows "h' = set_props r [(''cooked'', JStr (getCookedHtml preview)), (''staged'', JBool True)] h"
    "c' = set_composeState now SAVING c"
    "\<exists>rs. reqs = rs @ [SavePost (edit_props e h now reason sizes c')]"
  using assms by (auto simp: edit_start_def Let_def split: if_splits option.splits)

text \<open>
  A failed edit keeps what the user wrote in the composer, which opens again, but the post on the
  page goes on showing the edited text: the old one is not put back.
\<close>

theorem failed_edit_stays_cooked:
  assumes "edit_start e now reason sizes preview r c h = Inr (reqs, c', h')"
    and "edit_failed later status r c' h' = (c'', h'')"
  shows "rprop h'' r ''cooked'' = JStr (getCookedHtml preview) \<and> rprop h'' r ''staged'' = JBool False \<and>
    composeState c'' = Some OPEN \<and> reply c'' = reply c \<and> title c'' = title c \<and>
    (\<forall>q. q \<noteq> r \<longrightarrow> heap h'' q = heap h q)"
proof -
  note st = edit_started [OF assms(1)]
  have "h'' = set_prop r ''staged'' (JBool False) h'"
    and c'': "c'' = (if status = Some 409 then (set_composeState later OPEN c')\<lparr>editConflict := True\<rparr>
      else set_composeState later OPEN c')"
    using assms(2) by (auto simp: edit_failed_def Let_def)
  then show ?thesis
    unfolding st(1) c'' st(2) by (auto simp: rprop_def set_prop_def set_props_def)
qed

text \<open>
  A conflict (status 409) makes the next attempt an overwrite: its request carries the new text
  but none of the originals the server compares with.
\<close>

theorem conflict_overwrites:
  assumes "edit_failed later (Some 409) r c h = (c', h')"
    and "edit_start e now reason sizes preview r c' h' = Inr (reqs, c'', h'')"
    and "reply c \<noteq> JUndef"
  shows "\<exists>rs ps. reqs = rs @ [SavePost ps] \<and> om_get ps ''raw'' = Some (reply c) \<and>
    om_get ps ''original_text'' = None \<and> om_get ps ''original_title'' = None \<and> om_get ps ''original_tags'' = None"
proof -
  have c': "editConflict c'" "reply c' = reply c"
    using assms(1) by (auto simp: edit_failed_def Let_def)
  note st = edit_started [OF assms(2)]
  have c'': "editConflict c'' = editConflict c'" "reply c'' = reply c'"
    unfolding st(2) by (simp_all add: set_composeState_def composeStateChanged_def split: option.split)
  have d: "distinct (map fst update_serializer)" by (simp add: update_serializer_def)
  let ?ps = "edit_props e h' now reason sizes c''"
  have "pget (field_values e h' now c'') ''reply'' = reply c"
    using c'(2) c''(2) by (simp add: field_values_def pget_def)
  then have "om_get ?ps ''raw'' = Some (reply c)"
    using c'(1) c''(1) assms(3)
    by (simp add: edit_props_def om_get_serialize [OF d]) (simp add: update_serializer_def)
  moreover have "om_get ?ps ''original_text'' = None" "om_get ?ps ''original_title'' = None"
      "om_get ?ps ''original_tags'' = None"
    using c'(1) c''(1) by (simp_all add: edit_props_def)
  ultimately show ?thesis using st(3) by blast
qed

section \<open>Drafts\<close>

text \<open>
  The saves of drafts among everything else the composer does; \<open>waiting\<close> holds the requests that
  have not been answered.
\<close>

inductive draft_step :: "composer \<times> draft_request list \<Rightarrow> composer \<times> draft_request list \<Rightarrow> bool" where
  Save: "saveDraft e h now c = (Some q, c') \<Longrightarrow> draft_step (c, waiting) (c', waiting @ [q])"
| Saved: "draft_step (c, q # waiting) (draft_saved seq user c, waiting)"
| Failed: "draft_step (c, q # waiting) (draft_failed conflict c, waiting)"
| Ignore: "draft_step (c, waiting) (ignore_conflict c, waiting)"
| Other: "draftSaving c' = draftSaving c \<Longrightarrow> draft_step (c, waiting) (c', waiting)"

inductive_cases draft_stepE: "draft_step (c, waiting) s"

definition drafts_ok :: "composer \<times> draft_request list \<Rightarrow> bool" where
  "drafts_ok s \<longleftrightarrow> length (snd s) = (if draftSaving (fst s) then 1 else 0)"

lemma draft_step_ok: "draft_step s s' \<Longrightarrow> drafts_ok s \<Longrightarrow> drafts_ok s'"
proof (induction rule: draft_step.induct)
  case (Save e h now c q c' waiting)
  then have "\<not> draftSaving c" "draftSaving c'"
    by (auto simp: saveDraft_def canSaveDraft_def split: if_splits)
  then show ?case using Save by (simp add: drafts_ok_def)
next
  case (Saved c q waiting seq user)
  have "\<not> draftSaving (draft_saved seq user c)" by (simp add: draft_saved_def Let_def)
  then show ?case using Saved by (simp add: drafts_ok_def split: if_splits)
qed (simp_all add: drafts_ok_def draft_failed_def ignore_conflict_def Let_def split: if_splits)

text \<open>
  Whatever else happens, at most one save of a draft is waiting for its answer, and the composer
  is marked as saving exactly while one is.
\<close>

theorem one_draft_at_a_time:
  assumes "draft_step\<^sup>*\<^sup>* (c, []) (c', waiting)" and "\<not> draftSaving c"
  shows "length waiting \<le> 1 \<and> draftSaving c' = (waiting \<noteq> [])"
proof -
  have "draft_step\<^sup>*\<^sup>* s s' \<Longrightarrow> drafts_ok s \<Longrightarrow> drafts_ok s'" for s s'
    by (induction rule: rtranclp_induct) (auto intro: draft_step_ok)
  moreover have "drafts_ok (c, [])" using assms(2) by (simp add: drafts_ok_def)
  ultimately have "drafts_ok (c', waiting)" using assms(1) by blast
  then show ?thesis by (auto simp: drafts_ok_def split: if_splits)
qed

text \<open>The server: the next sequence number, or a refusal (\<open>OutOfSequence\<close>).\<close>

definition draft_set :: "int \<Rightarrow> draft_request \<Rightarrow> int option" where
  "draft_set current q =
     (if \<not> dq_force q \<and> current \<noteq> dq_sequence q then None
      else Some ((if dq_force q then current else dq_sequence q) + 1))"

text \<open>
  A composer whose number is that of the server stays in step through saves that are answered;
  a save that never reaches the server moves it one ahead, and the next save is refused.
\<close>

theorem offline_save_conflicts:
  assumes "saveDraft e h now c = (Some q, c1)" and "draftSequence c = current" and "\<not> draftForceSave c"
    and "saveDraft e h2 later (draft_failed None c1) = (Some q2, c2)"
  shows "draft_set current q = Some (current + 1) \<and>
    draftSequence (draft_saved (draft_set current q) user c1) = current + 1 \<and>
    draft_set current q2 = None"
proof -
  have q: "dq_sequence q = current" "\<not> dq_force q" and c1: "draftSequence c1 = current + 1" "\<not> draftForceSave c1"
    using assms(1-3) by (auto simp: saveDraft_def split: if_splits)
  have "dq_sequence q2 = current + 1" "\<not> dq_force q2"
    using assms(4) c1 by (auto simp: saveDraft_def draft_failed_def Let_def split: if_splits)
  then show ?thesis using q by (simp add: draft_set_def draft_saved_def Let_def)
qed

section \<open>Witnesses\<close>

definition demo_edit :: composer where
  "demo_edit = demo_reply\<lparr>action := EDIT, title := JStr [], reply := JStr ''new text''\<rparr>"

definition demo_edit_start :: "composer \<Rightarrow> store \<Rightarrow> (edit_request list \<times> composer \<times> store) result" where
  "demo_edit_start c h = edit_start demo_env 50 JNull JNull (Some ''<p>new text</p>'') 0 c h"

lemma demo_edit_ok: "title c = JStr [] \<Longrightarrow> demo_edit_start c h = Inr (projr (demo_edit_start c h))"
  by (simp add: demo_edit_start_def edit_start_def Let_def)

lemma demo_edit_eval:
  assumes "title c = JStr []"
  shows "\<exists>reqs c' h'. demo_edit_start c h = Inr (reqs, c', h')"
proof -
  obtain reqs c' h' where "projr (demo_edit_start c h) = (reqs, c', h')" by (rule prod_cases3)
  then show ?thesis using demo_edit_ok [OF assms] by metis
qed

lemma demo_edit_title: "title demo_edit = JStr []"
  by (simp add: demo_edit_def)

theorem failed_edit_stays_cooked_witness:
  "\<exists>reqs c' h'. demo_edit_start demo_edit (st demo_loaded) = Inr (reqs, c', h') \<and>
     rprop (snd (edit_failed 60 (Some 500) 0 c' h')) 0 ''cooked'' = JStr (getCookedHtml (Some ''<p>new text</p>''))"
proof -
  obtain reqs c' h' where s: "demo_edit_start demo_edit (st demo_loaded) = Inr (reqs, c', h')"
    using demo_edit_eval [of demo_edit "st demo_loaded"] demo_edit_title by blast
  then show ?thesis
    using failed_edit_stays_cooked [OF s [unfolded demo_edit_start_def] prod.collapse [symmetric]] by blast
qed

theorem conflict_overwrites_witness:
  "\<exists>rs ps c2 h2. demo_edit_start (fst (edit_failed 60 (Some 409) 0 demo_edit (st demo_loaded)))
       (snd (edit_failed 60 (Some 409) 0 demo_edit (st demo_loaded))) = Inr (rs @ [SavePost ps], c2, h2) \<and>
     om_get ps ''raw'' = Some (JStr ''new text'') \<and> om_get ps ''original_text'' = None"
proof -
  let ?e = "edit_failed 60 (Some 409) 0 demo_edit (st demo_loaded)"
  have "title (fst ?e) = JStr []" using demo_edit_title by (simp add: edit_failed_def Let_def)
  then obtain reqs c' h' where s: "demo_edit_start (fst ?e) (snd ?e) = Inr (reqs, c', h')"
    using demo_edit_eval by blast
  have r: "reply demo_edit = JStr ''new text''" by (simp add: demo_edit_def)
  show ?thesis
    using conflict_overwrites [OF prod.collapse [symmetric] s [unfolded demo_edit_start_def]] r s by auto
qed

theorem one_draft_at_a_time_witness:
  "\<exists>q c'. draft_step\<^sup>*\<^sup>* (demo_composer, []) (c', [q]) \<and> draftSaving c'"
proof -
  obtain q c' where s: "saveDraft demo_env demo_store 20 demo_composer = (Some q, c')"
    by (simp add: saveDraft_def canSaveDraft_def demo_composer_def action_defs is_empty_def canEditTitle_def
        creatingTopic_def)
  have "draft_step\<^sup>*\<^sup>* (demo_composer, []) (c', [q])"
    using Save [OF s, of "[]"] by simp
  moreover have "\<not> draftSaving demo_composer" by (simp add: demo_composer_def)
  ultimately show ?thesis using one_draft_at_a_time [of demo_composer c' "[q]"] by auto
qed

theorem offline_save_conflicts_witness:
  "\<exists>q q2 c1 c2. saveDraft demo_env demo_store 20 demo_composer = (Some q, c1) \<and>
     saveDraft demo_env demo_store 30 (draft_failed None c1) = (Some q2, c2) \<and>
     draft_set 4 q = Some 5 \<and> draft_set 4 q2 = None"
proof -
  have c: "draftSequence demo_composer = 4" "\<not> draftForceSave demo_composer"
    by (simp_all add: demo_composer_def)
  obtain q c1 where s: "saveDraft demo_env demo_store 20 demo_composer = (Some q, c1)"
    and c1: "c1 = demo_composer\<lparr>draftSaving := True, draftSequence := 5\<rparr>"
    by (simp add: saveDraft_def canSaveDraft_def demo_composer_def action_defs is_empty_def canEditTitle_def
        creatingTopic_def)
  obtain q2 c2 where s2: "saveDraft demo_env demo_store 30 (draft_failed None c1) = (Some q2, c2)"
    by (simp add: c1 saveDraft_def canSaveDraft_def demo_composer_def action_defs is_empty_def canEditTitle_def
        creatingTopic_def draft_failed_def)
  show ?thesis using offline_save_conflicts [OF s c(1,2) s2] s s2 by auto
qed

end
