(* ===== verification/Translations.thy ===== *)
theory Translations
  imports JsString ObjectTools Complex_Main
begin

text \<open>
  \<open>frontend/discourse-i18n/src/index.js\<close>: looking up translations with their fallbacks, plural
  forms, putting values into placeholders, and numbers.

  Translations are objects, nested by the parts of a scope. Numbers among the options are
  integers; the numbers that are formatted are rational (every finite one is). The plural rules
  of the package \<open>make-plural\<close> are the argument \<open>rules\<close>: for a locale, the keys of a count. A
  placeholder is searched for literally: its name has no characters that are special in a
  pattern. \<open>JSON.stringify\<close> is the argument \<open>stringify\<close>, and no translation is an array. The message formats of \<open>_mfMessages\<close> are compiled by another package and not modelled.
\<close>

section \<open>State and options\<close>

record i18n =
  defaultLocale :: string
  locale_set :: "string option"
  fallbackLocale :: "string option"
  translation_tree :: jobj
  extras :: jobj
  noFallbacks :: bool
  testing :: bool
  verbose_mode :: bool
  verboseIndices :: "(string, nat) omap"

type_synonym plural_rules = "string \<Rightarrow> (nat \<Rightarrow> string list) option"

definition currentLocale :: "i18n \<Rightarrow> string" where
  "currentLocale s = (case locale_set s of Some l \<Rightarrow> if l \<noteq> [] then l else defaultLocale s | None \<Rightarrow> defaultLocale s)"

definition currentBcp47Locale :: "i18n \<Rightarrow> string" where
  "currentBcp47Locale s = replace_first ''_'' ''-'' (currentLocale s)"

definition pluralizationNormalizedLocale :: "i18n \<Rightarrow> string" where
  "pluralizationNormalizedLocale s =
     (if currentLocale s = ''pt'' then ''pt_PT''
      else takeWhile (\<lambda>c. c \<noteq> CHR ''_'' \<and> c \<noteq> CHR ''-'') (currentLocale s))"

definition isValidNode :: "jobj \<Rightarrow> string \<Rightarrow> bool" where
  "isValidNode ob k \<longleftrightarrow> pget ob k \<noteq> JNull \<and> pget ob k \<noteq> JUndef"

text \<open>\<open>prepareOptions\<close>: the objects merged into a new one, a value that is set is kept.\<close>

definition prepareOptions :: "jobj list \<Rightarrow> jobj" where
  "prepareOptions args =
     fold (\<lambda>opts acc. fold (\<lambda>(k, v) acc. if isValidNode acc k then acc else om_set k v acc) opts acc) args []"

section \<open>Looking up\<close>

text \<open>\<open>messages[key]\<close> for a value that is not \<open>undefined\<close> or \<open>null\<close>; only objects have the keys in question.\<close>

definition sub_message :: "jsval \<Rightarrow> string \<Rightarrow> jsval" where
  "sub_message v k = (case v of JObj ps \<Rightarrow> pget ps k | _ \<Rightarrow> JUndef)"

fun walk :: "jsval \<Rightarrow> string list \<Rightarrow> jsval" where
  "walk v [] = v"
| "walk v (k # ks) = (if truthy v then walk (sub_message v k) ks else v)"

text \<open>\<open>String(v)\<close> and \<open>JSON.stringify(v)\<close> for the values that options hold.\<close>

definition value_text :: "jsval \<Rightarrow> string" where
  "value_text v = (case v of
      JStr t \<Rightarrow> t | JNum n \<Rightarrow> show_int n | JBool b \<Rightarrow> if b then ''true'' else ''false''
    | JNull \<Rightarrow> ''null'' | JUndef \<Rightarrow> ''undefined'' | _ \<Rightarrow> ''[object Object]'')"

definition or_object :: "jsval \<Rightarrow> jsval" where
  "or_object v = (if truthy v then v else JObj [])"

definition full_scope :: "string \<Rightarrow> jobj \<Rightarrow> string" where
  "full_scope scope options =
     (if truthy (pget options ''scope'') then value_text (pget options ''scope'') @ ''.'' @ scope else scope)"

definition lookup_locale :: "i18n \<Rightarrow> jobj \<Rightarrow> string" where
  "lookup_locale s options =
     (if truthy (pget options ''locale'') then value_text (pget options ''locale'') else currentLocale s)"

definition lookup :: "i18n \<Rightarrow> string \<Rightarrow> jobj \<Rightarrow> jsval" where
  "lookup s scope options =
     (let parts = js_split ''.'' (full_scope scope options);
          l = lookup_locale s options;
          found = walk (or_object (pget (translation_tree s) l))
                    (if hd parts \<noteq> ''js'' then ''js'' # parts else parts);
          found' = (if found = JUndef \<and> truthy (pget (extras s) l)
                    then walk (pget (extras s) l) parts else found)
      in if found' = JUndef then pget options ''defaultValue'' else found')"

definition missingTranslation :: "(jsval \<Rightarrow> string) \<Rightarrow> i18n \<Rightarrow> string \<Rightarrow> string \<Rightarrow> jobj \<Rightarrow> string" where
  "missingTranslation stringify s scope key options =
     ''['' @ currentLocale s @ ''.'' @ scope @ (if key \<noteq> [] then ''.'' @ key else []) @
     (case om_get options ''count'' of Some v \<Rightarrow> '' count='' @ stringify v | None \<Rightarrow> []) @ '']''"

section \<open>Plural forms\<close>

definition pluralizer :: "plural_rules \<Rightarrow> string \<Rightarrow> nat \<Rightarrow> string list" where
  "pluralizer rules l =
     (case rules l of Some f \<Rightarrow> f
      | None \<Rightarrow> (case rules ''en'' of Some f \<Rightarrow> f | None \<Rightarrow> (\<lambda>n. [])))"

definition findAndTranslateValidNode :: "string list \<Rightarrow> jobj \<Rightarrow> jsval" where
  "findAndTranslateValidNode ks t =
     (case find (isValidNode t) ks of Some k \<Rightarrow> pget t k | None \<Rightarrow> JNull)"

text \<open>The count is a number, as the caller has checked.\<close>

definition plural_form :: "plural_rules \<Rightarrow> i18n \<Rightarrow> jsval \<Rightarrow> string \<Rightarrow> jobj \<Rightarrow> jsval" where
  "plural_form rules s translation scope options =
     (case translation of
        JObj t \<Rightarrow>
          (let l = (if truthy (pget options ''locale'') then value_text (pget options ''locale'')
                    else pluralizationNormalizedLocale s);
               ks = pluralizer rules l (nat \<bar>num_of (pget options ''count'')\<bar>);
               message = findAndTranslateValidNode ks t
           in if message \<noteq> JNull \<or> truthy (pget options ''ignoreMissing'') then message
              else JStr (missingTranslation (\<lambda>v. []) s scope (case ks of [] \<Rightarrow> [] | k # _ \<Rightarrow> k) []))
      | _ \<Rightarrow> translation)"

definition findTranslation :: "plural_rules \<Rightarrow> i18n \<Rightarrow> string \<Rightarrow> jobj \<Rightarrow> jsval" where
  "findTranslation rules s scope options =
     (let t = lookup s scope options
      in if truthy t \<and> truthy (pget options ''needsPluralization'')
         then plural_form rules s t scope options else t)"

text \<open>
  \<open>findTranslationWithFallback\<close>: while nothing was found, the next locale is put into the options
  and tried. The options that result are used for the find_placeholders.
\<close>

definition try_locale ::
    "plural_rules \<Rightarrow> i18n \<Rightarrow> string \<Rightarrow> bool \<Rightarrow> string \<Rightarrow> jsval \<times> jobj \<Rightarrow> jsval \<times> jobj" where
  "try_locale rules s scope test l = (\<lambda>(t, options).
     if \<not> truthy t \<and> test
     then (let options' = om_set ''locale'' (JStr l) options
           in (findTranslation rules s scope options', options'))
     else (t, options))"

definition option_text :: "string option \<Rightarrow> string" where
  "option_text l = (case l of Some t \<Rightarrow> t | None \<Rightarrow> [])"

definition stop_ignoring :: "jsval \<times> jobj \<Rightarrow> jsval \<times> jobj" where
  "stop_ignoring = (\<lambda>(t, options). (t, om_set ''ignoreMissing'' (JBool False) options))"

definition findTranslationWithFallback ::
    "plural_rules \<Rightarrow> i18n \<Rightarrow> string \<Rightarrow> jobj \<Rightarrow> jsval \<times> jobj" where
  "findTranslationWithFallback rules s scope options =
     (let first = (findTranslation rules s scope options, options);
          fallback = option_text (fallbackLocale s)
      in if noFallbacks s then first
         else try_locale rules s scope (currentLocale s \<noteq> ''en'') ''en''
               (try_locale rules s scope (currentLocale s \<noteq> defaultLocale s) (defaultLocale s)
                 (stop_ignoring (try_locale rules s scope (fallback \<noteq> []) fallback first))))"

section \<open>Placeholders\<close>

text \<open>
  \<open>PLACEHOLDER\<close>, \<open>/(?:\{\{|%\{)(.*?)(?:\}\}?)/\<close>: the length of a match at the head and the name in it.
\<close>

definition until_brace :: "string \<Rightarrow> string option" where
  "until_brace s =
     (let name = takeWhile (\<lambda>c. c \<noteq> CHR ''}'') s
      in if length name < length s \<and> list_all is_dot name then Some name else None)"

definition match_placeholder :: "string \<Rightarrow> (nat \<times> string) option" where
  "match_placeholder s =
     (if prefix ''{{'' s \<or> prefix ''%{'' s
      then map_option (\<lambda>name. (2 + length name + (if prefix ''}}'' (drop (2 + length name) s) then 2 else 1), name))
             (until_brace (drop 2 s))
      else None)"

function find_placeholders :: "string \<Rightarrow> (string \<times> string) list" where
  "find_placeholders [] = []"
| "find_placeholders (c # cs) =
     (case match_placeholder (c # cs) of
        Some (n, name) \<Rightarrow> (name, take n (c # cs)) # find_placeholders (drop (n - 1) cs)
      | None \<Rightarrow> find_placeholders cs)"
  by pat_completeness auto
termination by (relation "measure length") auto

definition findPlaceholders :: "string \<Rightarrow> (string, string list) omap" where
  "findPlaceholders message =
     fold (\<lambda>(name, p) m. om_set name ((case om_get m name of None \<Rightarrow> [] | Some ps \<Rightarrow> ps) @ [p]) m)
       (find_placeholders message) []"

datatype i18n_error = Missing_argument string | Other_error

definition missing_value :: "string \<Rightarrow> string" where
  "missing_value p = ''[missing '' @ p @ '' value]''"

definition placeholder_value :: "jobj \<Rightarrow> string \<times> string \<Rightarrow> string" where
  "placeholder_value options = (\<lambda>(name, p).
     if isValidNode options name then value_text (pget options name) else missing_value p)"

definition placeholder_list :: "string \<Rightarrow> (string \<times> string) list" where
  "placeholder_list text = concat (map (\<lambda>(name, ps). map (Pair name) ps) (findPlaceholders text))"

text \<open>
  A placeholder is replaced by way of a RegExp made of it, of which only the braces are escaped. The
  model replaces the placeholder itself, which is the same for names without \<open>regexp_special\<close>
  characters; others are outside the model.
\<close>

definition regexp_special :: "char \<Rightarrow> bool" where
  "regexp_special c \<longleftrightarrow> c \<in> set ''.*+?^$()|[]'' \<or> c = CHR 0x5C"

definition interpolate :: "i18n \<Rightarrow> jsval \<Rightarrow> jobj \<Rightarrow> string \<Rightarrow> i18n_error + jsval" where
  "interpolate s message options scope =
     (if message = JUndef then Inl Other_error
      else if \<not> truthy message then Inr message
      else case message of
             JStr text \<Rightarrow>
               (let ps = placeholder_list text
                in case find (\<lambda>(name, p). \<not> isValidNode options name) ps of
                     Some (name, p) \<Rightarrow>
                       if testing s then Inl (Missing_argument (scope @ '': '' @ missing_value p))
                       else Inr (JStr (fold (\<lambda>q. replace_first (snd q) (placeholder_value options q)) ps text))
                   | None \<Rightarrow> Inr (JStr (fold (\<lambda>q. replace_first (snd q) (placeholder_value options q)) ps text)))
           | _ \<Rightarrow> Inl Other_error)"

section \<open>Translating\<close>

definition translate ::
    "plural_rules \<Rightarrow> (jsval \<Rightarrow> string) \<Rightarrow> i18n \<Rightarrow> string \<Rightarrow> jobj \<Rightarrow> i18n_error + jsval" where
  "translate rules stringify s scope opts =
     (let given = prepareOptions [opts];
          is_count = (case pget given ''count'' of JNum n \<Rightarrow> True | _ \<Rightarrow> False);
          prepared = om_set ''ignoreMissing'' (JBool (\<not> noFallbacks s))
                       (om_set ''needsPluralization'' (JBool is_count) given);
          (message, options) = findTranslationWithFallback rules s scope prepared
      in case interpolate s message options scope of
           Inl Other_error \<Rightarrow>
             Inr (if truthy (pget options ''translatedFallback'') then pget options ''translatedFallback''
                  else JStr (missingTranslation stringify s scope [] options))
         | r \<Rightarrow> r)"

text \<open>The verbose mode numbers the scopes in the order of their first use.\<close>

definition verbose_index :: "string \<Rightarrow> i18n \<Rightarrow> nat \<times> i18n" where
  "verbose_index scope s =
     (case om_get (verboseIndices s) scope of
        Some i \<Rightarrow> (i, s)
      | None \<Rightarrow> (let i = length (verboseIndices s) + 1
                 in (i, s\<lparr>verboseIndices := om_set scope i (verboseIndices s)\<rparr>)))"

definition verboseTranslate ::
    "plural_rules \<Rightarrow> (jsval \<Rightarrow> string) \<Rightarrow> i18n \<Rightarrow> string \<Rightarrow> jobj \<Rightarrow> (i18n_error + string) \<times> i18n" where
  "verboseTranslate rules stringify s scope opts =
     (case translate rules stringify s scope opts of
        Inl e \<Rightarrow> (Inl e, s)
      | Inr t \<Rightarrow> (let (i, s') = verbose_index scope s
                  in (Inr (value_text t @ '' (#'' @ show_nat i @ '')''), s')))"

definition t_func ::
    "plural_rules \<Rightarrow> (jsval \<Rightarrow> string) \<Rightarrow> i18n \<Rightarrow> string \<Rightarrow> jobj \<Rightarrow> (i18n_error + jsval) \<times> i18n" where
  "t_func rules stringify s scope opts =
     (if verbose_mode s then (let (r, s') = verboseTranslate rules stringify s scope opts in (map_sum id JStr r, s'))
      else (translate rules stringify s scope opts, s))"

definition enableVerboseLocalization :: "i18n \<Rightarrow> i18n" where
  "enableVerboseLocalization s = s\<lparr>noFallbacks := True, verbose_mode := True\<rparr>"

section \<open>Lists\<close>

definition listJoiner :: "string list \<Rightarrow> string \<Rightarrow> string" where
  "listJoiner xs delimiter =
     (case xs of
        [x] \<Rightarrow> x
      | [x, y] \<Rightarrow> x @ '' '' @ delimiter @ '' '' @ y
      | [] \<Rightarrow> delimiter @ '' undefined''
      | _ \<Rightarrow> join '', '' (butlast xs @ [delimiter]) @ '' '' @ last xs)"

section \<open>Numbers\<close>

text \<open>The options given come before the format of the locale, and that before the defaults.\<close>

definition number_options :: "i18n \<Rightarrow> jobj \<Rightarrow> jobj" where
  "number_options s given =
     prepareOptions [given, (case lookup s ''number.format'' [] of JObj f \<Rightarrow> f | _ \<Rightarrow> []),
       [(''precision'', JNum 3), (''separator'', JStr ''.''), (''delimiter'', JStr '',''),
        (''strip_insignificant_zeros'', JBool False)]]"

text \<open>\<open>toFixed\<close> for a number below \<open>10\<^sup>2\<^sup>1\<close>: rounded to the nearest, up at the middle.\<close>

definition to_fixed :: "rat \<Rightarrow> nat \<Rightarrow> string \<times> string" where
  "to_fixed x p =
     (let n = nat \<lfloor>x * 10 ^ p + 1 / 2\<rfloor>;
          m = show_nat n;
          padded = replicate (p + 1 - length m) CHR ''0'' @ m
      in (take (length padded - p) padded, drop (length padded - p) padded))"

text \<open>The loop takes three digits from the end at a time.\<close>

function groups_of_three :: "string \<Rightarrow> string list \<Rightarrow> string list" where
  "groups_of_three ds buffer =
     (if ds = [] then buffer
      else groups_of_three (take (length ds - 3) ds) (drop (length ds - 3) ds # buffer))"
  by pat_completeness auto
termination by (relation "measure (\<lambda>(ds, b). length ds)") auto

declare groups_of_three.simps [simp del]

definition strip_zeros :: "string \<Rightarrow> string \<Rightarrow> string" where
  "strip_zeros sep s =
     (let t = rev (dropWhile (\<lambda>c. c = CHR ''0'') (rev s))
      in if suffix sep t then take (length t - length sep) t else t)"

definition format_number :: "rat \<Rightarrow> nat \<Rightarrow> string \<Rightarrow> string \<Rightarrow> bool \<Rightarrow> string" where
  "format_number x precision sep delim strip =
     (let (whole, fraction) = to_fixed \<bar>x\<bar> precision;
          formatted = join delim (groups_of_three whole []) @ (if precision > 0 then sep @ fraction else []);
          signed = (if x < 0 then ''-'' @ formatted else formatted)
      in if strip then strip_zeros sep signed else signed)"

definition toNumber :: "i18n \<Rightarrow> rat \<Rightarrow> jobj \<Rightarrow> string" where
  "toNumber s x given =
     (let opts = number_options s given
      in format_number x (nat (num_of (pget opts ''precision''))) (value_text (pget opts ''separator''))
           (value_text (pget opts ''delimiter'')) (truthy (pget opts ''strip_insignificant_zeros'')))"

text \<open>The loop of \<open>toHumanSize\<close>: \<open>k\<close> divisions are left, \<open>i\<close> are done.\<close>

fun scale :: "rat \<Rightarrow> nat \<Rightarrow> nat \<Rightarrow> rat \<times> nat" where
  "scale sz 0 i = (sz, i)"
| "scale sz (Suc k) i = (if sz \<ge> 1024 then scale (sz / 1024) k (i + 1) else (sz, i))"

definition human_unit :: "nat \<Rightarrow> string" where
  "human_unit i = ''number.human.storage_units.units.'' @ [''byte'', ''kb'', ''mb'', ''gb'', ''tb''] ! i"

definition human_precision :: "rat \<Rightarrow> nat \<Rightarrow> int" where
  "human_precision sz i = (if i = 0 then 0 else if sz - of_int \<lfloor>sz\<rfloor> = 0 then 0 else 1)"

text \<open>\<open>toHumanSize\<close> of a number of bytes; the unit and the format are texts without \<open>$\<close>.\<close>

definition toHumanSize ::
    "plural_rules \<Rightarrow> (jsval \<Rightarrow> string) \<Rightarrow> i18n \<Rightarrow> int \<Rightarrow> jobj \<Rightarrow> (i18n_error + string) \<times> i18n" where
  "toHumanSize rules stringify s n given =
     (let (sz, i) = scale (of_int n) 4 0;
          (unit_r, s1) = t_func rules stringify s (human_unit i) (if i = 0 then [(''count'', JNum n)] else [])
      in case unit_r of
           Inl e \<Rightarrow> (Inl e, s1)
         | Inr u \<Rightarrow>
             (let (format_r, s2) = t_func rules stringify s1 ''number.human.storage_units.format'' []
              in case format_r of
                   Inl e \<Rightarrow> (Inl e, s2)
                 | Inr f \<Rightarrow>
                     (let opts = prepareOptions [given, [(''precision'', JNum (human_precision sz i)),
                                   (''format'', f), (''delimiter'', JStr [])]]
                      in (Inr (replace_first ''%n'' (toNumber s2 sz opts)
                            (replace_first ''%u'' (value_text u) (value_text (pget opts ''format'')))), s2))))"

end
