(* ===== verification/Formatter.thy ===== *)
theory Formatter
  imports Translations
begin

text \<open>
  \<open>lib/formatter.js\<close>: how ages, durations and large numbers are written.

  The translations are the argument \<open>tr\<close> (a key and a count), the formats of the package
  \<open>moment\<close> the argument \<open>moment\<close> (the key of the format and a date), the calendar year of a date
  the argument \<open>year_of\<close>. A date is its number of milliseconds. Numbers are rational.
\<close>

section \<open>Numbers and texts of the library\<close>

definition js_round :: "rat \<Rightarrow> int" where
  "js_round x = \<lfloor>x + 1 / 2\<rfloor>"

type_synonym translator = "string \<Rightarrow> int option \<Rightarrow> string"

record date_env =
  tr :: translator
  wrap :: "string \<Rightarrow> string \<Rightarrow> string"
  moment :: "string \<Rightarrow> int \<Rightarrow> string"
  year_of :: "int \<Rightarrow> int"
  now :: int
  relative_date_duration :: int

section \<open>Dates\<close>

definition shortDate :: "date_env \<Rightarrow> int \<Rightarrow> string" where
  "shortDate e d = moment e ''dates.medium.date_year'' d"

definition shortDateNoYear :: "date_env \<Rightarrow> int \<Rightarrow> string" where
  "shortDateNoYear e d = moment e ''dates.tiny.date_month'' d"

definition tinyDateYear :: "date_env \<Rightarrow> int \<Rightarrow> string" where
  "tinyDateYear e d = moment e ''dates.tiny.date_year'' d"

definition smartShortDate :: "date_env \<Rightarrow> (int \<Rightarrow> string) \<Rightarrow> int \<Rightarrow> string" where
  "smartShortDate e withYear d = (if year_of e d = year_of e (now e) then shortDateNoYear e d else withYear d)"

definition longDate :: "date_env \<Rightarrow> int option \<Rightarrow> string option" where
  "longDate e d = map_option (moment e ''dates.long_with_year'') d"

definition longDateNoYear :: "date_env \<Rightarrow> int option \<Rightarrow> string option" where
  "longDateNoYear e d =
     map_option (\<lambda>d. if year_of e (now e) \<noteq> year_of e d then moment e ''dates.long_date_with_year'' d
                     else moment e ''dates.long_date_without_year'' d) d"

section \<open>Title case\<close>

definition upper_char :: "char \<Rightarrow> char" where
  "upper_char c = (if is_lower c then char_of ((of_char c :: nat) - 32) else c)"

text \<open>\<open>/\\w\\S*/g\<close>: from a word character to the next space; \<open>inside\<close> tells that a match goes on.\<close>

fun title_loop :: "bool \<Rightarrow> string \<Rightarrow> string" where
  "title_loop inside [] = []"
| "title_loop inside (c # cs) =
     (if inside then (if js_space c then c # title_loop False cs else lower_char c # title_loop True cs)
      else if is_word c then upper_char c # title_loop True cs
      else c # title_loop False cs)"

definition toTitleCase :: "string \<Rightarrow> string" where
  "toTitleCase s = title_loop False s"

section \<open>Durations\<close>

definition minutes_of :: "rat \<Rightarrow> int" where
  "minutes_of distance = (let d = js_round (distance / 60) in if d < 1 then 1 else d)"

text \<open>The key and the count of \<open>duration\<close>, first those of years.\<close>

definition year_span :: "int \<Rightarrow> string \<times> int" where
  "year_span m =
     (let years = (of_int m :: rat) / 525600; n = \<lfloor>years\<rfloor>; rest = years - of_int n
      in if rest < 1 / 4 then (''about_x_years'', n)
         else if rest < 3 / 4 then (''over_x_years'', n)
         else (''almost_x_years'', n + 1))"

definition duration_span :: "rat \<Rightarrow> string \<times> int" where
  "duration_span distance =
     (let m = minutes_of distance
      in if distance \<le> 59 then (''less_than_x_minutes'', 1)
         else if 0 \<le> m \<and> m \<le> 44 then (''x_minutes'', m)
         else if 45 \<le> m \<and> m \<le> 89 then (''about_x_hours'', 1)
         else if 90 \<le> m \<and> m \<le> 1409 then (''about_x_hours'', js_round (of_int m / 60))
         else if 1410 \<le> m \<and> m \<le> 2519 then (''x_days'', 1)
         else if 2520 \<le> m \<and> m \<le> 129599 then (''x_days'', js_round (of_int m / 1440))
         else if 129600 \<le> m \<and> m \<le> 525599 then (''x_months'', js_round (of_int m / 43200))
         else year_span m)"

record age_opts =
  a_format :: "string option"
  a_addAgo :: bool
  a_leaveAgo :: bool
  a_wrapOn :: bool
  a_wrapInSpan :: bool
  a_title :: bool
  a_customTitle :: "string option"
  a_prefix :: "string option"
  a_defaultFormat :: "(int \<Rightarrow> string) option"

definition wrapAgo :: "date_env \<Rightarrow> string \<Rightarrow> string" where
  "wrapAgo e s = wrap e ''dates.wrap_ago'' s"

definition wrapOn :: "date_env \<Rightarrow> string \<Rightarrow> string" where
  "wrapOn e s = wrap e ''dates.wrap_on'' s"

definition age_format :: "age_opts \<Rightarrow> string" where
  "age_format opts = (case a_format opts of Some f \<Rightarrow> if f \<noteq> [] then f else ''tiny'' | None \<Rightarrow> ''tiny'')"

definition age_text :: "date_env \<Rightarrow> bool \<Rightarrow> string \<Rightarrow> string \<times> int \<Rightarrow> string" where
  "age_text e addAgo format = (\<lambda>(key, count).
     let r = tr e (''dates.'' @ format @ ''.'' @ key) (Some count) in if addAgo then wrapAgo e r else r)"

text \<open>A distance that is not a number is \<open>None\<close>.\<close>

definition duration :: "date_env \<Rightarrow> rat option \<Rightarrow> age_opts \<Rightarrow> string" where
  "duration e distance opts =
     (case distance of
        None \<Rightarrow> ''&mdash;''
      | Some d \<Rightarrow> age_text e (a_addAgo opts) (age_format opts) (duration_span d))"

definition durationTiny :: "date_env \<Rightarrow> rat option \<Rightarrow> age_opts \<Rightarrow> string" where
  "durationTiny e distance opts =
     duration e distance (case a_format opts of None \<Rightarrow> opts\<lparr>a_format := Some ''tiny''\<rparr> | Some f \<Rightarrow> opts)"

section \<open>Ages\<close>

definition seconds_since :: "date_env \<Rightarrow> int \<Rightarrow> int" where
  "seconds_since e d = js_round (of_int (now e - d) / 1000)"

text \<open>What \<open>relativeAgeTiny\<close> shows: a key and a count, a date without its year, or a date.\<close>

datatype tiny_age = Tiny_span string int | Tiny_no_year | Tiny_date

definition tiny_span :: "int \<Rightarrow> int \<Rightarrow> tiny_age" where
  "tiny_span relative_duration m =
     (if 0 \<le> m \<and> m \<le> 44 then Tiny_span ''x_minutes'' m
      else if 45 \<le> m \<and> m \<le> 89 then Tiny_span ''about_x_hours'' 1
      else if 90 \<le> m \<and> m \<le> 1409 then Tiny_span ''about_x_hours'' (js_round (of_int m / 60))
      else if relative_duration = 0 \<and> m \<le> 525599 then Tiny_no_year
      else if 1410 \<le> m \<and> m \<le> 2519 then Tiny_span ''x_days'' 1
      else if 2520 \<le> m \<and> m \<le> (if relative_duration \<noteq> 0 then relative_duration else 14) * 1440
      then Tiny_span ''x_days'' (js_round (of_int m / 1440))
      else Tiny_date)"

definition relativeAgeTiny :: "date_env \<Rightarrow> int \<Rightarrow> age_opts \<Rightarrow> string" where
  "relativeAgeTiny e d opts =
     (let s = seconds_since e d;
          distance = (if s < 0 then js_round (of_int (d - now e) / 1000) else s)
      in case tiny_span (relative_date_duration e) (minutes_of (of_int distance)) of
           Tiny_span key count \<Rightarrow> age_text e (a_addAgo opts) ''tiny'' (key, count)
         | Tiny_no_year \<Rightarrow> shortDateNoYear e d
         | Tiny_date \<Rightarrow>
             (case a_defaultFormat opts of Some f \<Rightarrow> f d | None \<Rightarrow> smartShortDate e (tinyDateYear e) d))"

text \<open>\<open>/'[\\d]{2}$/\<close>.\<close>

definition relativeAgeTinyShowsYear :: "string \<Rightarrow> bool" where
  "relativeAgeTinyShowsYear s \<longleftrightarrow> length s \<ge> 3 \<and>
     (case drop (length s - 3) s of [q, a, b] \<Rightarrow> q = CHR 0x27 \<and> is_num a \<and> is_num b | _ \<Rightarrow> False)"

definition medium_span :: "int \<Rightarrow> string \<times> int" where
  "medium_span distance =
     (let m = js_round (of_int distance / 60)
      in if 1 \<le> m \<and> m \<le> 55 then (''x_minutes'', m)
         else if 56 \<le> m \<and> m \<le> 89 then (''x_hours'', 1)
         else if 90 \<le> m \<and> m \<le> 1409 then (''x_hours'', js_round (of_int m / 60))
         else if 1410 \<le> m \<and> m \<le> 2519 then (''x_days'', 1)
         else if 2520 \<le> m \<and> m \<le> 129599 then (''x_days'', js_round (of_int m / 1440))
         else if 129600 \<le> m \<and> m \<le> 525599 then (''x_months'', js_round (of_int m / 43200))
         else (''x_years'', js_round (of_int m / 525600)))"

definition relativeAgeMediumSpan :: "date_env \<Rightarrow> int \<Rightarrow> bool \<Rightarrow> string" where
  "relativeAgeMediumSpan e distance leaveAgo =
     (let (key, count) = medium_span distance;
          r = tr e (''dates.medium'' @ (if leaveAgo then ''_with_ago'' else []) @ ''.'' @ key) (Some count)
      in if r \<noteq> [] then r else ''&mdash;'')"

definition medium_text :: "date_env \<Rightarrow> int \<Rightarrow> age_opts \<Rightarrow> string" where
  "medium_text e d opts =
     (let distance = seconds_since e d
      in if distance < 60 then tr e ''now'' None
         else if distance > 432000 then
           (let t = smartShortDate e (shortDate e) d in if a_wrapOn opts then wrapOn e t else t)
         else relativeAgeMediumSpan e distance (a_leaveAgo opts))"

definition relativeAgeMedium :: "date_env \<Rightarrow> int option \<Rightarrow> age_opts \<Rightarrow> string" where
  "relativeAgeMedium e date opts =
     (case date of
        None \<Rightarrow> ''&mdash;''
      | Some d \<Rightarrow>
          if a_wrapInSpan opts
          then ''<span class='' @ [CHR 0x27] @ ''date'' @ [CHR 0x27] @ '' title='' @ [CHR 0x27] @
                 moment e ''dates.long_with_year'' d @ [CHR 0x27] @ ''>'' @ medium_text e d opts @ ''</span>''
          else medium_text e d opts)"

definition relativeAge :: "date_env \<Rightarrow> int \<Rightarrow> age_opts \<Rightarrow> string" where
  "relativeAge e d opts =
     (let f = age_format opts
      in if f = ''tiny'' then relativeAgeTiny e d opts
         else if f = ''medium'' then relativeAgeMedium e (Some d) opts
         else if f = ''medium-with-ago'' then relativeAgeMedium e (Some d) (opts\<lparr>a_leaveAgo := True\<rparr>)
         else if f = ''medium-with-ago-and-on''
         then relativeAgeMedium e (Some d) (opts\<lparr>a_leaveAgo := True, a_wrapOn := True\<rparr>)
         else ''UNKNOWN FORMAT'')"

text \<open>An attribute that ends and another that begins, with single quotes.\<close>

definition title_attribute :: "string \<Rightarrow> string" where
  "title_attribute t = [CHR 0x27] @ '' title='' @ [CHR 0x27] @ t"

definition autoUpdatingRelativeAge :: "date_env \<Rightarrow> int option \<Rightarrow> age_opts \<Rightarrow> string" where
  "autoUpdatingRelativeAge e date given =
     (case date of
        None \<Rightarrow> []
      | Some d \<Rightarrow>
          if d = 0 then []
          else (let f = age_format given; q = [CHR 0x27];
                    format = (if f = ''medium'' \<and> a_leaveAgo given then ''medium-with-ago'' else f);
                    opts = (if f = ''medium'' then given\<lparr>a_wrapInSpan := False\<rparr> else given);
                    relAge = relativeAge e d opts;
                    append = (if f = ''medium'' then '' date'' else []) @
                             (if format = ''tiny'' \<and> relativeAgeTinyShowsYear relAge then '' with-year'' else []) @
                             (case a_customTitle opts of
                                Some (c # t) \<Rightarrow> title_attribute (c # t)
                              | _ \<Rightarrow> if a_title opts then title_attribute (moment e ''dates.long_with_year'' d) else [])
                in ''<span class='' @ q @ ''relative-date'' @ append @ q @ '' data-time='' @ q @ show_int d @ q @
                   '' data-format='' @ q @ format @ q @ ''>'' @
                   (case a_prefix opts of Some (c # p) \<Rightarrow> (c # p) @ '' '' | _ \<Rightarrow> []) @ relAge @ ''</span>''))"

section \<open>Large numbers\<close>

text \<open>The number behind the unit, the precision, and the unit: nothing, thousands or millions.\<close>

datatype short_unit = Plain | Thousands | Millions

definition short_number :: "int \<Rightarrow> rat \<times> nat \<times> short_unit" where
  "short_number v =
     (if v > 999999 then (of_int v / 1000000, 1, Millions)
      else if v > 99999 then (of_int \<lfloor>(of_int v :: rat) / 1000\<rfloor>, 0, Thousands)
      else if v > 999 then (of_int v / 1000, 1, Thousands)
      else (of_int v, 0, Plain))"

text \<open>
  \<open>number\<close> of a value that was parsed (\<open>None\<close> for \<open>NaN\<close>); \<open>short u t\<close> is the translation for the unit
  with the number \<open>t\<close>.
\<close>

definition number_text :: "i18n \<Rightarrow> (string \<Rightarrow> string \<Rightarrow> string) \<Rightarrow> rat option \<Rightarrow> int option \<Rightarrow> string" where
  "number_text s short val maxDisplay =
     (let v = (case val of Some x \<Rightarrow> js_round x | None \<Rightarrow> 0);
          plus = (case maxDisplay of Some m \<Rightarrow> m > 0 \<and> v > 0 \<and> v > m | None \<Rightarrow> False);
          v' = (if plus then the maxDisplay else v);
          (x, p, u) = short_number v';
          shown = toNumber s x [(''precision'', JNum (int p))];
          out = (case u of
                   Millions \<Rightarrow> short ''number.short.millions'' shown
                 | Thousands \<Rightarrow> short ''number.short.thousands'' shown
                 | Plain \<Rightarrow> show_int v')
      in if plus then out @ ''+'' else out)"

section \<open>JSON\<close>

definition ensureJSON :: "(string \<Rightarrow> jsval option) \<Rightarrow> jsval \<Rightarrow> jsval result" where
  "ensureJSON parse json =
     (case json of
        JStr s \<Rightarrow> (case parse s of Some v \<Rightarrow> Inr v | None \<Rightarrow> Inl (Error ''SyntaxError''))
      | _ \<Rightarrow> Inr json)"

definition plainJSON :: "(string \<Rightarrow> jsval option) \<Rightarrow> jsval \<Rightarrow> string result" where
  "plainJSON parse val =
     bind_result (ensureJSON parse val) (\<lambda>json.
       Inr (concat (map (\<lambda>(k, v). k @ '': '' @ value_text v @ [CHR 0x0A]) (as_props json))))"

end
