(* ===== verification/TranslationProofs.thy ===== *)
theory TranslationProofs
  imports Translations "HOL-Library.Multiset"
begin

text \<open>
  What translating promises: filling placeholders is a simultaneous substitution, the order in
  which locales are tried, the accuracy of formatted numbers, and stable numbers of scopes.
\<close>

section \<open>Messages in pieces\<close>

text \<open>A message as its author sees it: words and named holes.\<close>

datatype piece = Words string | Hole string

definition hole_text :: "string \<Rightarrow> string" where
  "hole_text name = ''%{'' @ name @ ''}''"

primrec piece_text :: "piece \<Rightarrow> string" where
  "piece_text (Words w) = w"
| "piece_text (Hole name) = hole_text name"

definition render_pieces :: "piece list \<Rightarrow> string" where
  "render_pieces ps = concat (map piece_text ps)"

primrec fill_piece :: "(string \<Rightarrow> string) \<Rightarrow> piece \<Rightarrow> string" where
  "fill_piece val (Words w) = w"
| "fill_piece val (Hole name) = val name"

definition fill_pieces :: "(string \<Rightarrow> string) \<Rightarrow> piece list \<Rightarrow> string" where
  "fill_pieces val ps = concat (map (fill_piece val) ps)"





lemma render_simps [simp]:
  "render_pieces [] = []" "render_pieces (p # ps) = piece_text p @ render_pieces ps"
  by (simp_all add: render_pieces_def)

lemma fill_simps [simp]:
  "fill_pieces val [] = []" "fill_pieces val (p # ps) = fill_piece val p @ fill_pieces val ps"
  by (simp_all add: fill_pieces_def)












section \<open>Finding the placeholders\<close>












text \<open>
  A value that contains a placeholder is itself filled: the replacements are made one after the
  other in the text, each at the first occurrence.
\<close>

lemma value_refilled:
  "interpolate s (JStr ''%{a}%{b}'') [(''a'', JStr ''%{b}''), (''b'', JStr v)] scope = Inr (JStr (v @ ''%{b}''))"
  by (simp add: interpolate_def Let_def placeholder_list_def findPlaceholders_def match_placeholder_def
      until_brace_def is_dot_def isValidNode_def pget_Cons placeholder_value_def value_text_def replace_first_def)

section \<open>Locales in turn\<close>

text \<open>The options of each attempt, in order.\<close>

definition next_locale :: "bool \<Rightarrow> string \<Rightarrow> jobj list \<Rightarrow> jobj list" where
  "next_locale test l os = (if test then os @ [om_set ''locale'' (JStr l) (last os)] else os)"

definition fallback_options :: "i18n \<Rightarrow> jobj \<Rightarrow> jobj list" where
  "fallback_options s options =
     (let fallback = option_text (fallbackLocale s);
          first = next_locale (fallback \<noteq> []) fallback [options];
          loud = om_set ''ignoreMissing'' (JBool False) (last first)
      in if noFallbacks s then [options]
         else first @ tl (next_locale (currentLocale s \<noteq> ''en'') ''en''
                           (next_locale (currentLocale s \<noteq> defaultLocale s) (defaultLocale s) [loud])))"

definition first_found :: "jsval list \<Rightarrow> jsval" where
  "first_found ts = (case find truthy ts of Some t \<Rightarrow> t | None \<Rightarrow> last ts)"

lemma first_found_simps [simp]:
  "first_found [t] = t" "first_found (t # t' # ts) = (if truthy t then t else first_found (t' # ts))"
  by (auto simp: first_found_def split: option.split)

lemma fallback_chain:
  "fst (findTranslationWithFallback rules s scope options) =
     first_found (map (findTranslation rules s scope) (fallback_options s options))"
  by (simp add: findTranslationWithFallback_def fallback_options_def try_locale_def next_locale_def
      stop_ignoring_def Let_def)

text \<open>
  A text in the last locale tried, English, is found whatever the user's locale is missing: the
  missing-translation text never appears for it.
\<close>

definition english_text :: "i18n \<Rightarrow> string \<Rightarrow> jsval" where
  "english_text s scope = walk (or_object (pget (translation_tree s) ''en''))
     (let parts = js_split ''.'' scope in if hd parts \<noteq> ''js'' then ''js'' # parts else parts)"

lemma english_found:
  assumes "lookup_locale s options = ''en''" "\<not> truthy (pget options ''scope'')"
    and "english_text s scope = JStr t"
  shows "findTranslation rules s scope options = JStr t"
  using assms by (simp add: findTranslation_def lookup_def english_text_def full_scope_def plural_form_def Let_def)

lemma truthy_first_found: "ts \<noteq> [] \<Longrightarrow> truthy (first_found ts) \<longleftrightarrow> (\<exists>t \<in> set ts. truthy t)"
  by (auto simp: first_found_def find_Some_iff find_None_iff split: option.split)

lemma last_option_english:
  assumes "\<not> noFallbacks s" "\<not> truthy (pget options ''locale'')"
  shows "lookup_locale s options = ''en'' \<or> lookup_locale s (last (fallback_options s options)) = ''en''"
  using assms by (simp add: fallback_options_def next_locale_def lookup_locale_def value_text_def Let_def)

text \<open>
  With fallbacks on, a scope that has a text in English is always found, whatever the other
  locales are missing.
\<close>

theorem english_last_resort:
  assumes "\<not> noFallbacks s" "\<not> truthy (pget options ''locale'')" "\<not> truthy (pget options ''scope'')"
    and "english_text s scope = JStr t" "t \<noteq> []"
  shows "truthy (fst (findTranslationWithFallback rules s scope options))"
proof -
  let ?os = "fallback_options s options"
  have os: "options \<in> set ?os" "?os \<noteq> []"
    by (simp_all add: fallback_options_def next_locale_def Let_def)
  have scope: "\<not> truthy (pget os ''scope'')" if "os \<in> set ?os" for os
    using that assms(3) by (auto simp: fallback_options_def next_locale_def Let_def split: if_splits)
  obtain os' where "os' \<in> set ?os" "lookup_locale s os' = ''en''"
    using last_option_english [OF assms(1,2)] os last_in_set by blast
  then have "findTranslation rules s scope os' = JStr t" by (intro english_found scope assms(4))
  then have "\<exists>t \<in> set (map (findTranslation rules s scope) ?os). truthy t"
    using \<open>os' \<in> set ?os\<close> assms(5) by force
  then show ?thesis using fallback_chain [of rules s scope options] os(2) truthy_first_found by simp
qed

lemma english_last_resort_witness:
  "truthy (fst (findTranslationWithFallback (\<lambda>l. None)
     \<lparr>defaultLocale = ''de'', locale_set = Some ''fr'', fallbackLocale = None,
       translation_tree = [(''en'', JObj [(''js'', JObj [(''ok'', JStr ''fine'')])])],
       extras = [], noFallbacks = False, testing = False, verbose_mode = False, verboseIndices = []\<rparr>
     ''ok'' []))"
proof -
  have "js_split ''.'' ''ok'' = [''ok'']" by (simp add: js_split_def split_free)
  then show ?thesis
    by (intro english_last_resort [where t = "''fine''"])
      (simp_all add: english_text_def or_object_def sub_message_def pget_Cons)
qed

section \<open>Numbers\<close>

lemma groups_join: "concat (groups_of_three ds buffer) = ds @ concat buffer"
proof (induction ds buffer rule: groups_of_three.induct)
  case (1 ds buffer)
  then show ?case
    by (cases "ds = []") (simp_all add: groups_of_three.simps [of ds] groups_of_three.simps [of "[]"])
qed

lemma groups_lengths:
  "list_all (\<lambda>g. length g = 3) (tl (groups_of_three ds buffer)) \<and>
    (ds \<noteq> [] \<longrightarrow> groups_of_three ds buffer \<noteq> [] \<and> length (hd (groups_of_three ds buffer)) \<in> {1..3})"
  if "list_all (\<lambda>g. length g = 3) buffer"
  using that
proof (induction ds buffer rule: groups_of_three.induct)
  case (1 ds buffer)
  show ?case
  proof (cases "length ds \<le> 3")
    case True
    then show ?thesis using "1.prems"
      by (cases buffer) (auto simp: groups_of_three.simps [of ds] groups_of_three.simps [of "[]"] Suc_le_eq)
  next
    case False
    then have "ds \<noteq> []" "length (drop (length ds - 3) ds) = 3" "take (length ds - 3) ds \<noteq> []" by auto
    then show ?thesis using 1 by (simp add: groups_of_three.simps [of ds])
  qed
qed

lemma read_nat_zeros: "read_nat (replicate k CHR ''0'' @ s) = read_nat s"
  by (induction k) (simp_all add: read_nat_def digit_value_def)

lemma to_fixed_digits:
  assumes "0 \<le> x" "to_fixed x p = (w, f)"
  shows "length f = p" "w \<noteq> []" "\<bar>of_nat (read_nat (w @ f)) - x * 10 ^ p\<bar> \<le> 1 / 2"
proof -
  let ?n = "nat \<lfloor>x * 10 ^ p + 1 / 2\<rfloor>"
  let ?d = "replicate (p + 1 - length (show_nat ?n)) CHR ''0'' @ show_nat ?n"
  obtain d where d: "d = ?d" by simp
  then have wf: "w = take (length d - p) d" "f = drop (length d - p) d"
    using assms(2) by (simp_all add: to_fixed_def Let_def)
  have "length d \<ge> p + 1" using d by simp
  then show "length f = p" "w \<noteq> []" using wf by auto
  have "w @ f = d" using wf by simp
  then have "read_nat (w @ f) = ?n" using d by (simp only: read_nat_zeros read_show)
  moreover have "of_nat ?n = (of_int \<lfloor>x * 10 ^ p + 1 / 2\<rfloor> :: rat)"
    using assms(1) by simp
  moreover have "\<bar>of_int \<lfloor>y + 1 / 2\<rfloor> - y\<bar> \<le> 1 / 2" for y :: rat
    by linarith
  ultimately show "\<bar>of_nat (read_nat (w @ f)) - x * 10 ^ p\<bar> \<le> 1 / 2" by simp
qed

text \<open>
  A formatted number is its sign, groups of three digits (the first one to three) and exactly
  the decimals asked for, and reading the digits gives the number to half a unit of the last place.
\<close>

theorem number_rounded:
  assumes "format_number x p sep delim False = r"
  obtains groups f where
    "r = (if x < 0 then ''-'' else []) @ join delim groups @ (if p > 0 then sep @ f else [])"
    "groups \<noteq> []" "length (hd groups) \<in> {1..3}" "list_all (\<lambda>g. length g = 3) (tl groups)" "length f = p"
    "\<bar>of_nat (read_nat (concat groups @ f)) / 10 ^ p - \<bar>x\<bar>\<bar> \<le> 1 / (2 * 10 ^ p)"
proof -
  obtain w f where wf: "to_fixed \<bar>x\<bar> p = (w, f)" by force
  note d = to_fixed_digits [OF _ wf, simplified]
  have "\<bar>of_nat (read_nat (w @ f)) / 10 ^ p - \<bar>x\<bar>\<bar> = \<bar>of_nat (read_nat (w @ f)) - \<bar>x\<bar> * 10 ^ p\<bar> / 10 ^ p"
    by (simp add: field_simps abs_if)
  also have "\<dots> \<le> 1 / (2 * 10 ^ p)" using d(3) by (simp add: divide_simps)
  finally show ?thesis
    using that [of "groups_of_three w []" f] wf assms d(1,2) groups_join [of w "[]"]
      groups_lengths [of "[]" w] by (simp add: format_number_def Let_def split: if_splits)
qed

text \<open>The loop divides while a larger unit is left.\<close>

lemma scale_ok:
  "scale sz k i = (sz', i') \<Longrightarrow> 0 \<le> sz \<Longrightarrow>
     sz' * 1024 ^ (i' - i) = sz \<and> i \<le> i' \<and> i' \<le> i + k \<and> (i' < i + k \<longrightarrow> sz' < 1024) \<and> (i < i' \<longrightarrow> 1 \<le> sz')"
proof (induction sz k i rule: scale.induct)
  case (2 sz k i)
  show ?case
  proof (cases "sz \<ge> 1024")
    case True
    then have ih: "sz' * 1024 ^ (i' - (i + 1)) = sz / 1024 \<and> i + 1 \<le> i' \<and> i' \<le> i + 1 + k \<and>
      (i' < i + 1 + k \<longrightarrow> sz' < 1024) \<and> (i + 1 < i' \<longrightarrow> 1 \<le> sz')"
      using 2 by simp
    then have "i' - i = Suc (i' - (i + 1))" by linarith
    then have "sz' * 1024 ^ (i' - i) = sz" using ih by (simp add: field_simps)
    moreover have "1 \<le> sz'"
      using ih True by (cases "i' = i + 1") auto
    ultimately show ?thesis using ih by linarith
  next
    case False
    then show ?thesis using 2 by auto
  qed
qed auto

lemma show_nat_1234057 [simp]: "show_nat 1234057 = ''1234057''"
  by (simp add: show_nat.simps digit_def)

lemma number_rounded_witness:
  "format_number (- 24681133 / 2000) 2 ''.'' '','' False = ''-12,340.57''" (is "?r = _")
proof -
  have "\<lfloor>24681133 / 2000 * 10 ^ 2 + 1 / 2 :: rat\<rfloor> = 1234057" by (simp add: floor_unique)
  then have "to_fixed (24681133 / 2000) 2 = (''12340'', ''57'')"
    by (simp add: to_fixed_def Let_def)
  then have r: "?r = ''-12,340.57''"
    by (simp add: format_number_def groups_of_three.simps)
  show ?thesis by (rule number_rounded [OF r]) (rule r)
qed

text \<open>Without decimals, the zeros that are stripped are those of the whole number.\<close>

lemma strip_whole_zeros: "format_number 1200 0 ''.'' '','' True = ''1,2''"
proof -
  have "\<lfloor>1200 * 10 ^ 0 + 1 / 2 :: rat\<rfloor> = 1200" by (simp add: floor_unique)
  then have "to_fixed 1200 0 = (''1200'', [])" by (simp add: to_fixed_def show_nat.simps digit_def Let_def)
  then show ?thesis by (simp add: format_number_def groups_of_three.simps strip_zeros_def suffix_to_prefix Let_def)
qed

text \<open>
  A number of bytes is scaled by a power of 1024 up to terabytes, to a size below 1024 when a
  larger unit is left, and never below one.
\<close>

theorem human_scale_bounds:
  assumes "0 \<le> n" "scale (of_int n) 4 0 = (sz, i)"
  shows "sz * 1024 ^ i = of_int n \<and> i \<le> 4 \<and> (i < 4 \<longrightarrow> sz < 1024) \<and> (0 < i \<longrightarrow> 1 \<le> sz)"
  using scale_ok [OF assms(2)] assms(1) by simp

lemma human_scale_bounds_witness: "scale (of_int 1536) 4 0 = (3 / 2, 1) \<and> (3 / 2 :: rat) * 1024 ^ 1 = of_int 1536"
proof -
  have "scale (of_int 1536) 4 0 = (3 / 2, 1)" by (simp add: eval_nat_numeral)
  then show ?thesis using human_scale_bounds [of 1536 "3 / 2" 1] by simp
qed

section \<open>Numbers of scopes\<close>

definition numbered :: "i18n \<Rightarrow> bool" where
  "numbered s \<longleftrightarrow> om_wf (verboseIndices s) \<and> map snd (verboseIndices s) = [1..<length (verboseIndices s) + 1]"

definition scope_numbers :: "string list \<Rightarrow> i18n \<Rightarrow> i18n" where
  "scope_numbers scopes s = fold (\<lambda>scope s. snd (verbose_index scope s)) scopes s"

lemma numbered_step: "numbered s \<Longrightarrow> numbered (snd (verbose_index scope s))"
  by (auto simp: verbose_index_def numbered_def om_set_fresh Let_def split: option.split)

lemma numbered_run: "numbered s \<Longrightarrow> numbered (scope_numbers scopes s)"
  by (induction scopes arbitrary: s) (simp_all add: scope_numbers_def numbered_step)

lemma index_kept: "om_get (verboseIndices s) a = Some i \<Longrightarrow>
    om_get (verboseIndices (snd (verbose_index b s))) a = Some i"
  by (auto simp: verbose_index_def Let_def split: option.split)

lemma index_kept_run: "om_get (verboseIndices s) a = Some i \<Longrightarrow>
    om_get (verboseIndices (scope_numbers scopes s)) a = Some i"
  by (induction scopes arbitrary: s) (simp_all add: scope_numbers_def index_kept)

lemma index_set: "om_get (verboseIndices (snd (verbose_index a s))) a = Some (fst (verbose_index a s))"
  by (auto simp: verbose_index_def Let_def split: option.split)

lemma numbered_inj:
  assumes "numbered s" "om_get (verboseIndices s) a = Some i" "om_get (verboseIndices s) b = Some i"
  shows "a = b"
proof -
  have "distinct (map snd (verboseIndices s))" using assms(1) by (simp add: numbered_def)
  then show ?thesis using map_of_SomeD [OF assms(2)] map_of_SomeD [OF assms(3)]
    by (metis distinct_map inj_onD prod.inject snd_conv)
qed

text \<open>
  In verbose mode a scope keeps its number, and no other scope gets it.
\<close>

theorem scope_number_stable:
  assumes "numbered s"
  shows "fst (verbose_index b (scope_numbers scopes (snd (verbose_index a s)))) = fst (verbose_index a s) \<longleftrightarrow> a = b"
proof -
  let ?s = "scope_numbers scopes (snd (verbose_index a s))"
  have s: "numbered ?s" using assms by (simp add: numbered_step numbered_run)
  have a: "om_get (verboseIndices ?s) a = Some (fst (verbose_index a s))"
    by (simp add: index_set index_kept_run)
  have b: "om_get (verboseIndices (snd (verbose_index b ?s))) b = Some (fst (verbose_index b ?s))"
    by (rule index_set)
  have "om_get (verboseIndices (snd (verbose_index b ?s))) a = Some (fst (verbose_index a s))"
    by (rule index_kept [OF a])
  then show ?thesis using b numbered_inj [OF numbered_step [OF s]] by (metis option.inject)
qed

lemma scope_number_stable_witness:
  "fst (verbose_index ''a'' (scope_numbers [''b'', ''c'']
      (snd (verbose_index ''a'' (enableVerboseLocalization \<lparr>defaultLocale = ''en'', locale_set = None,
        fallbackLocale = None, translation_tree = [], extras = [], noFallbacks = False, testing = False,
        verbose_mode = False, verboseIndices = []\<rparr>))))) = 1"
  using scope_number_stable [of "enableVerboseLocalization \<lparr>defaultLocale = ''en'', locale_set = None,
      fallbackLocale = None, translation_tree = [], extras = [], noFallbacks = False, testing = False,
      verbose_mode = False, verboseIndices = []\<rparr>" "''a''" "[''b'', ''c'']" "''a''"]
  by (simp add: numbered_def enableVerboseLocalization_def verbose_index_def)

end
