(* ===== verification/FormatterProofs.thy ===== *)
theory FormatterProofs
  imports Formatter TranslationProofs
begin

text \<open>
  What the formats promise: a longer time is never shown as a shorter one, a duration is right to
  three quarters of its unit, a large number to five percent.
\<close>

section \<open>Rounding by division\<close>

lemma js_round_div: "0 < k \<Longrightarrow> js_round (of_int m / of_int k) = (2 * m + k) div (2 * k)"
proof -
  assume k: "0 < k"
  have "(of_int m / of_int k + 1 / 2 :: rat) = of_int (2 * m + k) / of_int (2 * k)"
    using k by (simp add: field_simps)
  then show ?thesis by (simp only: js_round_def floor_divide_of_int_eq)
qed

lemma js_round_mono: "x \<le> y \<Longrightarrow> js_round x \<le> js_round y"
  by (simp add: js_round_def floor_mono)

lemma js_round_int [simp]: "js_round (of_int n) = n"
  by (simp add: js_round_def floor_unique)

lemma minutes_mono: "d \<le> e \<Longrightarrow> minutes_of d \<le> minutes_of e"
  using js_round_mono [of "d / 60" "e / 60"] by (simp add: minutes_of_def Let_def divide_right_mono)

lemma minutes_pos: "1 \<le> minutes_of d"
  by (simp add: minutes_of_def Let_def)

lemma minutes_short: "d \<le> 59 \<Longrightarrow> minutes_of d = 1"
proof -
  assume "d \<le> 59"
  then have "js_round (d / 60) \<le> js_round (of_int 1)" by (intro js_round_mono) simp
  then have "js_round (d / 60) \<le> 1" by (simp only: js_round_int)
  then show ?thesis by (simp add: minutes_of_def Let_def)
qed

section \<open>Durations\<close>

text \<open>The minutes a key and a count stand for.\<close>

definition key_minutes :: "string \<Rightarrow> int" where
  "key_minutes key =
     (if key \<in> {''less_than_x_minutes'', ''x_minutes''} then 1 else if key = ''about_x_hours'' then 60
      else if key = ''x_days'' then 1440 else if key = ''x_months'' then 43200 else 525600)"

definition shown_minutes :: "string \<times> int \<Rightarrow> int" where
  "shown_minutes = (\<lambda>(key, n). n * key_minutes key)"

text \<open>The same as a function of the minutes, with divisions of integers.\<close>

definition shown_of :: "int \<Rightarrow> int" where
  "shown_of m =
     (if m \<le> 44 then m else if m \<le> 89 then 60
      else if m \<le> 1409 then (2 * m + 60) div 120 * 60
      else if m \<le> 2519 then 1440
      else if m \<le> 129599 then (2 * m + 1440) div 2880 * 1440
      else if m \<le> 525599 then (2 * m + 43200) div 86400 * 43200
      else (m + 131400) div 525600 * 525600)"

lemma year_parts:
  fixes m :: int
  defines "n \<equiv> \<lfloor>(of_int m :: rat) / 525600\<rfloor>" and "rest \<equiv> (of_int m :: rat) / 525600 - of_int \<lfloor>(of_int m :: rat) / 525600\<rfloor>"
  shows "n = m div 525600" "rest < 1 / 4 \<longleftrightarrow> m mod 525600 < 131400" "rest < 3 / 4 \<longleftrightarrow> m mod 525600 < 394200"
proof -
  show n: "n = m div 525600"
    unfolding n_def using floor_divide_of_int_eq [of m 525600, where 'a = rat] by simp
  have "(of_int m :: rat) = of_int (525600 * (m div 525600) + m mod 525600)" by simp
  then have "(of_int m :: rat) = 525600 * of_int (m div 525600) + of_int (m mod 525600)"
    by (simp only: of_int_add of_int_mult of_int_numeral)
  then have r: "rest = of_int (m mod 525600) / 525600"
    using n unfolding rest_def n_def by (simp add: field_simps)
  show "rest < 1 / 4 \<longleftrightarrow> m mod 525600 < 131400" "rest < 3 / 4 \<longleftrightarrow> m mod 525600 < 394200"
    unfolding r by (simp_all add: divide_simps)
qed

lemma year_round: "(m + 131400) div 525600 = (if m mod 525600 < 394200 then m div 525600 else m div 525600 + (1::int))"
proof -
  obtain q r where q: "m div 525600 = q" and r: "m mod 525600 = r" by simp
  have m: "m + 131400 = (r + 131400) + q * 525600" and b: "0 \<le> r" "r < 525600"
    using q r mult_div_mod_eq [of 525600 m] by auto
  have "(m + 131400) div 525600 = q + (r + 131400) div 525600"
    unfolding m by (subst div_mult_self1) simp_all
  moreover have "(r + 131400) div 525600 = (if r < 394200 then 0 else 1)"
    using b by (auto intro: int_div_pos_eq [where r = "r + 131400"] int_div_pos_eq [where r = "r - 394200"])
  ultimately show ?thesis using q r by simp
qed

lemma shown_year: "shown_minutes (year_span m) = (m + 131400) div 525600 * 525600"
  unfolding year_round using year_parts [of m] by (auto simp: year_span_def shown_minutes_def key_minutes_def Let_def)

lemma shown_pair: "shown_minutes (key, n) = n * key_minutes key"
  by (simp add: shown_minutes_def)

lemma shown_duration: "shown_minutes (duration_span d) = shown_of (minutes_of d)"
proof -
  obtain m where m: "minutes_of d = m" by simp
  then have pos: "1 \<le> m" using minutes_pos by blast
  have r: "js_round (of_int m / 60) = (2 * m + 60) div 120" "js_round (of_int m / 1440) = (2 * m + 1440) div 2880"
    "js_round (of_int m / 43200) = (2 * m + 43200) div 86400"
    using js_round_div [of 60 m] js_round_div [of 1440 m] js_round_div [of 43200 m] by simp_all
  show ?thesis
  proof (cases "d \<le> 59")
    case True
    then show ?thesis by (simp add: duration_span_def shown_pair key_minutes_def shown_of_def minutes_short)
  next
    case False
    then show ?thesis
      using pos by (simp add: duration_span_def shown_pair key_minutes_def shown_of_def m r
          shown_year Let_def)
  qed
qed

lemma div_lower: "k * a \<le> x \<Longrightarrow> 0 < k \<Longrightarrow> a \<le> x div (k::int)"
  using zdiv_mono1 [of "k * a" x k] by simp

lemma div_upper: "x < k * (a + 1) \<Longrightarrow> 0 < k \<Longrightarrow> x div (k::int) \<le> a"
proof (rule ccontr)
  assume "x < k * (a + 1)" "0 < k" "\<not> x div k \<le> a"
  then have "k * (a + 1) \<le> k * (x div k)" by (intro mult_left_mono) auto
  moreover have "k * (x div k) \<le> x"
    using \<open>0 < k\<close> mult_div_mod_eq [of k x] pos_mod_sign [of k x] by linarith
  ultimately show False using \<open>x < k * (a + 1)\<close> by linarith
qed

text \<open>The branches for hours, days, months and years, with the divisions as variables.\<close>

lemma branches_mono:
  fixes m n :: int
  assumes "1 \<le> m" "m \<le> n" "h \<le> h'" "d \<le> d'" "k \<le> k'" "y \<le> y'"
    and "90 \<le> n \<longrightarrow> 2 \<le> h'" "2520 \<le> n \<longrightarrow> 2 \<le> d'" "129600 \<le> n \<longrightarrow> 3 \<le> k'" "525600 \<le> n \<longrightarrow> 1 \<le> y'"
    and "m \<le> 1409 \<longrightarrow> h \<le> 23" "m \<le> 129599 \<longrightarrow> d \<le> 90" "m \<le> 525599 \<longrightarrow> k \<le> 12"
  shows "(if m \<le> 44 then m else if m \<le> 89 then 60 else if m \<le> 1409 then h * 60 else if m \<le> 2519 then 1440
      else if m \<le> 129599 then d * 1440 else if m \<le> 525599 then k * 43200 else y * 525600) \<le>
    (if n \<le> 44 then n else if n \<le> 89 then 60 else if n \<le> 1409 then h' * 60 else if n \<le> 2519 then 1440
      else if n \<le> 129599 then d' * 1440 else if n \<le> 525599 then k' * 43200 else y' * (525600::int))"
  (is "?m \<le> ?n")
proof -
  consider "n \<le> 44" | "45 \<le> n" "n \<le> 89" | "90 \<le> n" "n \<le> 1409" | "1410 \<le> n" "n \<le> 2519"
    | "2520 \<le> n" "n \<le> 129599" | "129600 \<le> n" "n \<le> 525599" | "525600 \<le> n" by linarith
  then show ?thesis using assms by cases auto
qed

text \<open>
  A longer time is never shown as a shorter one.
\<close>

theorem duration_monotone:
  assumes "d \<le> e"
  shows "shown_minutes (duration_span d) \<le> shown_minutes (duration_span e)"
proof -
  have "shown_of m \<le> shown_of n" if "1 \<le> m" "m \<le> n" for m n
    unfolding shown_of_def using that
    by (intro branches_mono zdiv_mono1 impI div_lower div_upper) simp_all
  then show ?thesis using minutes_mono [OF assms] minutes_pos by (simp add: shown_duration)
qed

lemma duration_monotone_witness:
  "shown_minutes (duration_span 5399) \<le> shown_minutes (duration_span 5400)"
  by (rule duration_monotone) simp

lemma div_bounds: "0 < k \<Longrightarrow> k * (x div k) \<le> x \<and> x < k * (x div k) + (k::int)"
  using mult_div_mod_eq [of k x] pos_mod_bound [of k x] pos_mod_sign [of k x] by linarith

text \<open>
  A duration of at least a minute differs from its minutes by at most three quarters of the
  unit it is shown in: a day and three quarters is shown as one day.
\<close>

theorem duration_accurate:
  assumes "59 < d" "duration_span d = (key, n)"
  shows "4 * \<bar>n * key_minutes key - minutes_of d\<bar> \<le> 3 * key_minutes key"
proof -
  obtain m where m: "minutes_of d = m" "1 \<le> m" using minutes_pos by simp
  have shown: "n * key_minutes key = shown_of m"
    using shown_duration [of d] assms(2) m(1) by (simp add: shown_pair)
  have key: "key_minutes key = (if m \<le> 44 then 1 else if m \<le> 1409 then 60 else if m \<le> 129599 then 1440
      else if m \<le> 525599 then 43200 else 525600)"
    using assms m by (auto simp: duration_span_def year_span_def key_minutes_def Let_def split: if_splits)
  obtain h t k y where v: "(2 * m + 60) div 120 = h" "(2 * m + 1440) div 2880 = t"
    "(2 * m + 43200) div 86400 = k" "(m + 131400) div 525600 = y" by simp
  have b: "120 * h \<le> 2 * m + 60 \<and> 2 * m + 60 < 120 * h + 120" "2880 * t \<le> 2 * m + 1440 \<and> 2 * m + 1440 < 2880 * t + 2880"
    "86400 * k \<le> 2 * m + 43200 \<and> 2 * m + 43200 < 86400 * k + 86400"
    "525600 * y \<le> m + 131400 \<and> m + 131400 < 525600 * y + 525600"
    using v div_bounds by auto
  have "4 * \<bar>shown_of m - m\<bar> \<le> 3 * key_minutes key"
    using b m(2) unfolding shown_of_def v key by (auto simp: abs_if)
  then show ?thesis using shown m(1) by simp
qed

lemma duration_accurate_witness:
  "4 * \<bar>1 * key_minutes ''x_days'' - minutes_of (2519 * 60)\<bar> \<le> 3 * key_minutes ''x_days''"
proof -
  have "minutes_of (2519 * 60) = 2519" using js_round_int [of 2519] by (simp add: minutes_of_def)
  then have "duration_span (2519 * 60) = (''x_days'', 1)" by (simp add: duration_span_def)
  then show ?thesis by (intro duration_accurate) simp_all
qed

section \<open>Ages\<close>

text \<open>In the medium format every date in the future is shown as now.\<close>

lemma future_is_now:
  assumes "now e \<le> d"
  shows "medium_text e d opts = tr e ''now'' None"
proof -
  have "js_round (of_int (now e - d) / 1000) \<le> js_round (of_int 0)"
    using assms by (intro js_round_mono) simp
  then have "seconds_since e d \<le> 0" by (simp only: seconds_since_def js_round_int)
  then show ?thesis by (simp add: medium_text_def Let_def)
qed

section \<open>Large numbers\<close>

definition unit_factor :: "short_unit \<Rightarrow> int" where
  "unit_factor u = (case u of Plain \<Rightarrow> 1 | Thousands \<Rightarrow> 1000 | Millions \<Rightarrow> 1000000)"

text \<open>
  A number that is shortened to thousands or millions is shown to within five percent.
\<close>

theorem short_number_accurate:
  assumes "999 < v" "short_number v = (x, p, u)" "to_fixed x p = (w, f)"
  shows "20 * \<bar>of_nat (read_nat (w @ f)) / 10 ^ p * of_int (unit_factor u) - of_int v\<bar> \<le> (of_int v :: rat)"
proof -
  let ?r = "of_nat (read_nat (w @ f)) :: rat"
  have "0 \<le> x" using assms(1,2) by (auto simp: short_number_def split: if_splits)
  then have r: "\<bar>?r - x * 10 ^ p\<bar> \<le> 1 / 2" using to_fixed_digits(3) [OF _ assms(3)] by simp
  consider "999999 < v" | "99999 < v" "v \<le> 999999" | "v \<le> 99999" by linarith
  then show ?thesis
  proof cases
    case 1
    then have e: "x = of_int v / 1000000" "p = 1" "u = Millions" using assms(2) by (simp_all add: short_number_def)
    have "(of_int v :: rat) > 999999" using 1 by (metis of_int_less_iff of_int_numeral)
    then show ?thesis using r unfolding e by (simp add: unit_factor_def abs_if split: if_splits)
  next
    case 2
    then have e: "x = of_int \<lfloor>(of_int v :: rat) / 1000\<rfloor>" "p = 0" "u = Thousands" using assms(2) by (simp_all add: short_number_def)
    have v: "(of_int v :: rat) > 99999" using 2 by (metis of_int_less_iff of_int_numeral)
    have f: "\<bar>x - of_int v / 1000\<bar> \<le> 1" unfolding e(1) by linarith
    have "\<bar>?r - x\<bar> \<le> 1 / 2" using r e(2) by simp
    then have "\<bar>?r * 1000 - of_int v\<bar> \<le> 1500" using f by (simp add: abs_if split: if_splits)
    then show ?thesis using v e by (simp add: unit_factor_def)
  next
    case 3
    then have e: "x = of_int v / 1000" "p = 1" "u = Thousands" using assms(1,2) by (simp_all add: short_number_def)
    have "(of_int v :: rat) > 999" using assms(1) by (metis of_int_less_iff of_int_numeral)
    then show ?thesis using r unfolding e by (simp add: unit_factor_def abs_if split: if_splits)
  qed
qed

lemma short_number_accurate_witness:
  "20 * \<bar>of_nat (read_nat (''12'' @ ''3'')) / 10 ^ 1 * of_int (unit_factor Thousands) - of_int 12345\<bar> \<le> (of_int 12345 :: rat)"
proof -
  have "\<lfloor>12345 / 1000 * 10 ^ 1 + 1 / 2 :: rat\<rfloor> = 123" by (simp add: floor_unique)
  moreover have "show_nat 123 = ''123''" by (simp add: show_nat.simps digit_def)
  ultimately have "to_fixed (12345 / 1000) 1 = (''12'', ''3'')" by (simp add: to_fixed_def Let_def)
  then show ?thesis by (rule short_number_accurate [rotated 2]) (simp_all add: short_number_def)
qed

end
