(* ===== verification/PmTracking.thy ===== *)
theory PmTracking
  imports ObjectTools
begin

text \<open>
  \<open>services/pm-topic-tracking-state.js\<close>: which private messages are new or unread for the current
  user, and which have come in since the list on the screen was loaded.

  The current user is an argument. Callbacks are outside: \<open>called\<close> lists the keys of those that
  were called. The channels subscribed on the message bus are \<open>subscriptions\<close>; an unsubscribed
  channel that ends in a star stands for all channels with that beginning.
\<close>

section \<open>State\<close>

type_synonym pm_group = "int \<times> string"

record pm_user =
  pu_id :: int
  pu_username :: string
  pu_groups :: "pm_group list"
  pu_groups_with_messages :: "int list"

record pm_state =
  pm_tracking :: bool
  pm_tracking_incoming :: bool
  modification_counter :: nat
  pm_inbox :: "string option"
  pm_filter :: "string option"
  pm_active_group :: "pm_group option"
  pm_incoming :: "int list"
  pm_states :: "(int, jobj) omap"
  change_callbacks :: "(string, unit) omap"
  called :: "string list"
  subscriptions :: "string list"

definition pm_start :: pm_state where
  "pm_start = \<lparr>pm_tracking = False, pm_tracking_incoming = False, modification_counter = 0,
     pm_inbox = None, pm_filter = None, pm_active_group = None, pm_incoming = [], pm_states = [],
     change_callbacks = [], called = [], subscriptions = []\<rparr>"

definition PM_CHANNEL_PREFIX :: string where
  "PM_CHANNEL_PREFIX = ''/private-message-topic-tracking-state''"

definition userChannel :: "pm_user \<Rightarrow> string" where
  "userChannel u = PM_CHANNEL_PREFIX @ ''/user/'' @ show_int (pu_id u)"

definition groupChannel :: "string \<Rightarrow> string" where
  "groupChannel groupId = PM_CHANNEL_PREFIX @ ''/group/'' @ groupId"

definition onStateChange :: "string \<Rightarrow> pm_state \<Rightarrow> pm_state" where
  "onStateChange key s = s\<lparr>change_callbacks := om_set key () (change_callbacks s)\<rparr>"

definition offStateChange :: "string \<Rightarrow> pm_state \<Rightarrow> pm_state" where
  "offStateChange key s = s\<lparr>change_callbacks := om_delete key (change_callbacks s)\<rparr>"

definition pm_unsubscribe :: "string \<Rightarrow> string list \<Rightarrow> string list" where
  "pm_unsubscribe channel subs =
     filter (\<lambda>c. \<not> (if channel \<noteq> [] \<and> last channel = CHR ''*'' then prefix (butlast channel) c
                     else c = channel)) subs"

text \<open>\<open>willDestroy\<close>, with a current user or without.\<close>

definition willDestroy :: "pm_user option \<Rightarrow> pm_state \<Rightarrow> pm_state" where
  "willDestroy u s =
     (let subs = (case u of Some u \<Rightarrow> pm_unsubscribe (userChannel u) (subscriptions s) | None \<Rightarrow> subscriptions s)
      in s\<lparr>subscriptions := pm_unsubscribe (groupChannel ''*'') subs\<rparr>)"

section \<open>New and unread\<close>

definition is_unset :: "jsval \<Rightarrow> bool" where
  "is_unset v \<longleftrightarrow> v \<noteq> JNum 0 \<and> \<not> truthy v"

definition PM_TRACKING :: jsval where "PM_TRACKING = JNum 2"

definition pm_isNew :: "jobj \<Rightarrow> bool" where
  "pm_isNew topic \<longleftrightarrow>
     \<not> truthy (pget topic ''last_read_post_number'') \<and>
     (is_unset (pget topic ''notification_level'') \<or> js_ge (pget topic ''notification_level'') PM_TRACKING) \<and>
     \<not> truthy (pget topic ''is_seen'')"

definition pm_isUnread :: "jobj \<Rightarrow> bool" where
  "pm_isUnread topic \<longleftrightarrow>
     truthy (pget topic ''last_read_post_number'') \<and>
     js_less (pget topic ''last_read_post_number'') (pget topic ''highest_post_number'') \<and>
     js_ge (pget topic ''notification_level'') PM_TRACKING"

text \<open>\<open>group_ids?.includes(id)\<close>; a value that is set is an array.\<close>

definition in_groups :: "jobj \<Rightarrow> int \<Rightarrow> bool" where
  "in_groups topic g = (case pget topic ''group_ids'' of JArr xs \<Rightarrow> JNum g \<in> set xs | _ \<Rightarrow> False)"

definition isPersonal :: "pm_user \<Rightarrow> jobj \<Rightarrow> bool" where
  "isPersonal u topic \<longleftrightarrow> pu_groups u = [] \<or> \<not> list_ex (\<lambda>g. in_groups topic (fst g)) (pu_groups u)"

definition isGroup :: "pm_user \<Rightarrow> string \<Rightarrow> jobj \<Rightarrow> bool" where
  "isGroup u name topic \<longleftrightarrow> list_ex (\<lambda>g. snd g = name \<and> in_groups topic (fst g)) (pu_groups u)"

definition type_filter :: "string \<Rightarrow> jobj \<Rightarrow> bool" where
  "type_filter type = (if type = ''new'' then pm_isNew else pm_isUnread)"

text \<open>
  \<open>lookupCount\<close>: without a group name the active group's is read, when there is a group and a topic
  to compare it for.
\<close>

definition pm_lookupCount ::
    "pm_user \<Rightarrow> string \<Rightarrow> string option \<Rightarrow> string option \<Rightarrow> pm_state \<Rightarrow> nat result" where
  "pm_lookupCount u type inboxFilter groupName s =
     (let topics = filter (type_filter type) (om_values (pm_states s));
          box = (case inboxFilter of Some b \<Rightarrow> if b \<noteq> [] then Some b else pm_inbox s | None \<Rightarrow> pm_inbox s)
      in if box = Some ''user'' then Inr (length (filter (isPersonal u) topics))
         else if box = Some ''group'' then
           (let name = (case groupName of Some n \<Rightarrow> if n \<noteq> [] then Some n else map_option snd (pm_active_group s)
                        | None \<Rightarrow> map_option snd (pm_active_group s))
            in case name of
                 Some n \<Rightarrow> Inr (length (filter (isGroup u n) topics))
               | None \<Rightarrow> if topics = [] \<or> pu_groups u = [] then Inr 0
                         else Inl (TypeError ''Cannot read properties of null''))
         else Inr 0)"

section \<open>Incoming messages\<close>

definition pm_trackIncoming ::
    "string option \<Rightarrow> string option \<Rightarrow> pm_group option \<Rightarrow> pm_state \<Rightarrow> pm_state" where
  "pm_trackIncoming box f g s =
     s\<lparr>pm_inbox := box, pm_filter := f, pm_active_group := g, pm_tracking_incoming := True\<rparr>"

definition resetIncomingTracking :: "int list option \<Rightarrow> pm_state \<Rightarrow> pm_state" where
  "resetIncomingTracking topicIds s =
     (if \<not> pm_tracking_incoming s then s
      else case topicIds of
             Some ids \<Rightarrow> s\<lparr>pm_incoming := filter (\<lambda>i. i \<notin> set ids) (pm_incoming s)\<rparr>
           | None \<Rightarrow> s\<lparr>pm_incoming := []\<rparr>)"

definition stopIncomingTracking :: "pm_state \<Rightarrow> pm_state" where
  "stopIncomingTracking s =
     (if pm_tracking_incoming s then s\<lparr>pm_tracking_incoming := False, pm_incoming := []\<rparr> else s)"

definition pm_notify :: "int \<Rightarrow> pm_state \<Rightarrow> pm_state" where
  "pm_notify topicId s =
     (if pm_tracking_incoming s then s\<lparr>pm_incoming := push_new topicId (pm_incoming s)\<rparr> else s)"

section \<open>Changing states\<close>

definition pm_afterStateChange :: "pm_state \<Rightarrow> pm_state" where
  "pm_afterStateChange s =
     s\<lparr>modification_counter := modification_counter s + 1,
       called := called s @ om_keys (change_callbacks s)\<rparr>"

definition pm_removeTopics :: "int list \<Rightarrow> pm_state \<Rightarrow> pm_state" where
  "pm_removeTopics topicIds s =
     (if \<not> pm_tracking s then s
      else pm_afterStateChange (s\<lparr>pm_states := fold om_delete topicIds (pm_states s)\<rparr>))"

text \<open>The new state of a topic: the merge with the old one, unless they are deeply equal.\<close>

definition merged_topic :: "jobj option \<Rightarrow> jobj \<Rightarrow> jobj" where
  "merged_topic old data =
     (case old of
        Some ob \<Rightarrow>
          if deepEqual (JObj ob) (JObj data) then data
          else (case deepMerge [JObj ob, JObj data] of Inr (JObj m) \<Rightarrow> m | _ \<Rightarrow> data)
      | None \<Rightarrow> data)"

definition pm_modifyState :: "int \<Rightarrow> jobj \<Rightarrow> bool \<Rightarrow> pm_state \<Rightarrow> pm_state" where
  "pm_modifyState topicId data skipIncrement s =
     (let s1 = s\<lparr>pm_states := om_set topicId (merged_topic (om_get (pm_states s) topicId) data) (pm_states s)\<rparr>
      in if skipIncrement then s1 else pm_afterStateChange s1)"

text \<open>
  \<open>startTracking\<close> up to the request, and the answer: the topics, or \<open>None\<close> when it failed. The flag
  is set when the answer is there.
\<close>

definition startTracking :: "pm_user \<Rightarrow> pm_state \<Rightarrow> pm_state" where
  "startTracking u s =
     (if pm_tracking s then s
      else s\<lparr>subscriptions := subscriptions s @ userChannel u #
               map (\<lambda>g. groupChannel (show_int g)) (pu_groups_with_messages u)\<rparr>)"

definition tracking_started :: "(int \<times> jobj) list option \<Rightarrow> pm_state \<Rightarrow> pm_state" where
  "tracking_started answer s =
     (case answer of
        Some topics \<Rightarrow> fold (\<lambda>(i, data). pm_modifyState i data True) topics s
      | None \<Rightarrow> s)\<lparr>pm_tracking := True\<rparr>"

section \<open>Messages of the bus\<close>

record pm_message =
  pm_type :: string
  pm_topic :: int
  pm_payload :: jobj

definition payload_groups :: "jobj \<Rightarrow> jsval list result" where
  "payload_groups p = (case pget p ''group_ids'' of
     JArr xs \<Rightarrow> Inr xs | _ \<Rightarrow> Inl (TypeError ''Cannot read properties of undefined''))"

definition displayMessageForGroupInbox :: "pm_message \<Rightarrow> pm_state \<Rightarrow> bool result" where
  "displayMessageForGroupInbox m s =
     (if pm_inbox s \<noteq> Some ''group'' then Inr False
      else bind_result (payload_groups (pm_payload m)) (\<lambda>gs.
        case pm_active_group s of
          Some g \<Rightarrow> Inr (JNum (fst g) \<in> set gs)
        | None \<Rightarrow> Inl (TypeError ''Cannot read properties of null'')))"

definition shouldDisplayMessageForInbox :: "pm_user \<Rightarrow> pm_message \<Rightarrow> pm_state \<Rightarrow> bool result" where
  "shouldDisplayMessageForInbox u m s =
     bind_result (displayMessageForGroupInbox m s) (\<lambda>group.
       if group then Inr True
       else if pm_inbox s \<noteq> Some ''user'' then Inr False
       else bind_result (payload_groups (pm_payload m)) (\<lambda>gs.
         Inr (gs = [] \<or> filter (\<lambda>g. JNum (fst g) \<in> set gs) (pu_groups u) = [])))"

text \<open>The end of a branch: the topic is announced when the list is one of those and the test holds.\<close>

definition announce :: "string list \<Rightarrow> bool result \<Rightarrow> pm_message \<Rightarrow> pm_state \<Rightarrow> unit result \<times> pm_state" where
  "announce filters test m s =
     (if pm_filter s \<notin> Some ` set filters then (Inr (), s)
      else case test of
             Inl e \<Rightarrow> (Inl e, s)
           | Inr b \<Rightarrow> (Inr (), if b then pm_notify (pm_topic m) s else s))"

definition pm_processMessage :: "pm_user \<Rightarrow> pm_message \<Rightarrow> pm_state \<Rightarrow> unit result \<times> pm_state" where
  "pm_processMessage u m s =
     (if pm_type m = ''new_topic'' then
        (if pget (pm_payload m) ''created_by_user_id'' \<noteq> JNum (pu_id u)
         then (let s1 = pm_modifyState (pm_topic m) (pm_payload m) False s
               in announce [''new'', ''inbox''] (shouldDisplayMessageForInbox u m s1) m s1)
         else (Inr (), s))
      else if pm_type m = ''read'' then
        (Inr (), pm_modifyState (pm_topic m) (pm_payload m) False s)
      else if pm_type m = ''unread'' then
        (let s1 = pm_modifyState (pm_topic m) (pm_payload m) False s
         in announce [''unread'', ''inbox''] (shouldDisplayMessageForInbox u m s1) m s1)
      else if pm_type m = ''group_archive'' then
        (if truthy (pget (pm_payload m) ''acting_user_id'') \<and>
            pget (pm_payload m) ''acting_user_id'' = JNum (pu_id u)
         then (Inr (), s)
         else announce [''inbox'', ''archive''] (displayMessageForGroupInbox m s) m s)
      else (Inr (), s))"

end
