(* ===== verification/PmTrackingProofs.thy ===== *)
theory PmTrackingProofs
  imports PmTracking
begin

text \<open>
  What the tracking of private messages promises: the fields of a topic and the set of its groups
  are updated key by key, counts and announcements agree on what belongs to an inbox, a repeated
  message changes no count, and the invariant of the list of incoming topics.
\<close>

section \<open>The view of a topic\<close>

definition scalar :: "jsval \<Rightarrow> bool" where
  "scalar v \<longleftrightarrow> \<not> isObject v \<and> v \<noteq> JUndef"

text \<open>The topics and payloads the server sends: plain fields and an array of group ids.\<close>

definition flat :: "jobj \<Rightarrow> bool" where
  "flat ob \<longleftrightarrow> om_wf ob \<and>
     (\<forall>k v. om_get ob k = Some v \<longrightarrow>
        (if k = ''group_ids'' then \<exists>xs. v = JArr xs \<and> list_all scalar xs else scalar v))"

definition group_set :: "jobj \<Rightarrow> jsval set" where
  "group_set ob = (case pget ob ''group_ids'' of JArr xs \<Rightarrow> set xs | _ \<Rightarrow> {})"

type_synonym pm_view = "(string \<Rightarrow> jsval option) \<times> jsval set"

definition view :: "jobj \<Rightarrow> pm_view" where
  "view ob = ((om_get ob)(''group_ids'' := None), group_set ob)"

definition merge_view :: "pm_view option \<Rightarrow> pm_view \<Rightarrow> pm_view" where
  "merge_view old new = (case old of None \<Rightarrow> new | Some old \<Rightarrow> (fst old ++ fst new, snd old \<union> snd new))"

definition views :: "pm_state \<Rightarrow> (int, pm_view) omap" where
  "views s = map (\<lambda>(i, ob). (i, view ob)) (pm_states s)"

lemma flat_wf: "flat ob \<Longrightarrow> om_wf ob"
  by (simp add: flat_def)

lemma flat_scalar: "flat ob \<Longrightarrow> om_get ob k = Some v \<Longrightarrow> k \<noteq> ''group_ids'' \<Longrightarrow> scalar v"
  unfolding flat_def by metis

lemma flat_array: "flat ob \<Longrightarrow> om_get ob ''group_ids'' = Some v \<Longrightarrow> \<exists>xs. v = JArr xs \<and> list_all scalar xs"
  unfolding flat_def by metis

lemma flat_groups:
  assumes "flat ob"
  obtains (none) "om_get ob ''group_ids'' = None"
    | (some) xs where "om_get ob ''group_ids'' = Some (JArr xs)" "list_all scalar xs"
  using flat_array [OF assms] by (cases "om_get ob ''group_ids''") auto

lemma scalar_equal: "scalar u \<Longrightarrow> deepEqual u v \<longleftrightarrow> u = v"
  by (cases u) (auto simp: scalar_def)

lemma scalar_merge: "scalar v \<Longrightarrow> merge_value t v = v"
  by (cases v) (auto simp: scalar_def)

lemma index_props_get: "i < length ys \<Longrightarrow> pget (index_props n ys) (show_nat (n + i)) = ys ! i"
proof (induction ys arbitrary: n i)
  case (Cons y ys)
  then show ?case using Cons.IH [of "i - 1" "Suc n"] by (cases i) (simp_all add: pget_Cons)
qed simp

lemma scalar_elems:
  "list_all scalar us \<Longrightarrow> equal_elems i us v \<longleftrightarrow> (\<forall>j < length us. us ! j = pget (as_props v) (show_nat (i + j)))"
proof (induction us arbitrary: i)
  case (Cons u us)
  then show ?case by (auto simp: scalar_equal less_Suc_eq_0_disj)
qed simp

lemma length_index_props [simp]: "length (index_props n ys) = length ys"
  by (induction ys arbitrary: n) simp_all

lemma scalar_arrays: "list_all scalar xs \<Longrightarrow> deepEqual (JArr xs) (JArr ys) \<Longrightarrow> xs = ys"
  using index_props_get [of _ ys 0] by (auto simp: scalar_elems intro: nth_equalityI)

lemma scalar_json: "list_all scalar xs \<Longrightarrow> elems_ok xs"
proof (induction xs)
  case (Cons x xs)
  then show ?case by (cases x) (auto simp: scalar_def)
qed simp

lemma flat_json:
  assumes "flat ob"
  shows "json_ok (JObj ob)"
proof -
  have ok: "(\<forall>k v. om_get ps k = Some v \<longrightarrow> json_ok v) \<Longrightarrow> om_wf ps \<Longrightarrow> props_ok ps" for ps
  proof (induction ps)
    case (Cons p ps)
    obtain a b where p: "p = (a, b)" by force
    have "om_get ps a = None" using Cons.prems(2) p by (auto simp: map_of_eq_None_iff)
    then have "\<forall>k v. om_get ps k = Some v \<longrightarrow> json_ok v"
      using Cons.prems(1) p by (metis fun_upd_apply map_of_Cons_code(2) map_of.simps(2) fst_conv snd_conv option.distinct(1))
    moreover have "json_ok b" using Cons.prems(1) [rule_format, of a b] p by simp
    ultimately show ?case using Cons p by simp
  qed simp
  have "json_ok v" if "scalar v" for v
    using that by (cases v) (simp_all add: scalar_def)
  then have "\<forall>k v. om_get ob k = Some v \<longrightarrow> json_ok v"
    using flat_scalar [OF assms] flat_array [OF assms] scalar_json by (metis json_ok.simps(3))
  then show ?thesis using ok [of ob] flat_wf [OF assms] by simp
qed

lemma equal_views:
  assumes "flat a" "flat b" "deepEqual (JObj a) (JObj b)"
  shows "view a = view b"
proof -
  have rel: "rel_option deepEqual (om_get a k) (om_get b k)" for k
    using assms deepEqual_rel flat_json by blast
  have "om_get a k = om_get b k" for k
  proof (cases "om_get a k")
    case None
    then show ?thesis using rel [of k] by (cases "om_get b k") auto
  next
    case (Some u)
    then obtain v where v: "om_get b k = Some v" "deepEqual u v" using rel [of k] by (cases "om_get b k") auto
    have "u = v"
    proof (cases "k = ''group_ids''")
      case True
      then obtain xs ys where "u = JArr xs" "v = JArr ys" "list_all scalar xs"
        using Some v flat_array assms(1,2) by blast
      then show ?thesis using v(2) scalar_arrays by blast
    next
      case False
      then show ?thesis using Some v(2) flat_scalar [OF assms(1)] scalar_equal by blast
    qed
    then show ?thesis using Some v by simp
  qed
  then have "om_get a = om_get b" by blast
  then show ?thesis by (simp add: view_def group_set_def pget_def)
qed

lemma merged_objects:
  assumes "flat a" "flat b"
  shows "flat (merge_props a b)" "view (merge_props a b) = merge_view (Some (view a)) (view b)"
proof -
  have get: "om_get (merge_props a b) k =
      (case om_get b k of None \<Rightarrow> om_get a k | Some v \<Rightarrow> Some (merge_value (pget a k) v))" for k
    using om_get_merge_props [OF flat_wf [OF assms(2)]] by simp
  have other: "om_get (merge_props a b) k = (case om_get b k of None \<Rightarrow> om_get a k | Some v \<Rightarrow> Some v)"
    if "k \<noteq> ''group_ids''" for k
    using flat_scalar [OF assms(2) _ that] scalar_merge by (cases "om_get b k") (simp_all add: get)
  have groups: "(case om_get (merge_props a b) ''group_ids'' of None \<Rightarrow> True
        | Some v \<Rightarrow> \<exists>xs. v = JArr xs \<and> list_all scalar xs) \<and>
      group_set (merge_props a b) = group_set a \<union> group_set b"
    by (rule flat_groups [OF assms(1)]; rule flat_groups [OF assms(2)])
      (simp_all add: get group_set_def pget_def)
  show "flat (merge_props a b)"
    unfolding flat_def
  proof (intro conjI allI impI)
    show "om_wf (merge_props a b)" using flat_wf [OF assms(1)] by (rule merge_props_wf)
    fix k v assume v: "om_get (merge_props a b) k = Some v"
    show "if k = ''group_ids'' then \<exists>xs. v = JArr xs \<and> list_all scalar xs else scalar v"
    proof (cases "k = ''group_ids''")
      case True
      then show ?thesis using groups v by simp
    next
      case False
      then show ?thesis using v other [OF False] flat_scalar [OF assms(1)] flat_scalar [OF assms(2)]
        by (cases "om_get b k") auto
    qed
  qed
  have "(om_get (merge_props a b))(''group_ids'' := None) =
      ((om_get a)(''group_ids'' := None)) ++ ((om_get b)(''group_ids'' := None))"
    by (rule ext) (simp add: other map_add_def split: option.split)
  then show "view (merge_props a b) = merge_view (Some (view a)) (view b)"
    using groups by (simp add: view_def merge_view_def)
qed

lemma merge_view_same: "merge_view (Some v) v = v"
  by (cases v) (simp add: merge_view_def map_add_def fun_eq_iff split: option.split)

lemma merged_topic_view:
  assumes "pred_option flat old" "flat data"
  shows "flat (merged_topic old data) \<and> view (merged_topic old data) = merge_view (map_option view old) (view data)"
proof (cases old)
  case None
  then show ?thesis using assms by (simp add: merged_topic_def merge_view_def)
next
  case (Some ob)
  then have ob: "flat ob" using assms(1) by simp
  have m: "deepMerge [JObj ob, JObj data] = Inr (JObj (merge_props ob data))" by (simp add: deepMerge_def)
  show ?thesis
    using Some ob assms(2) m merged_objects [OF ob assms(2)] equal_views [OF ob assms(2)]
    by (auto simp: merged_topic_def merge_view_same)
qed

section \<open>Counts\<close>

lemma view_pget: "view a = view b \<Longrightarrow> k \<noteq> ''group_ids'' \<Longrightarrow> pget a k = pget b k"
  by (auto simp: view_def pget_def dest: fun_cong [of _ _ k])

lemma in_groups_set: "in_groups a g \<longleftrightarrow> JNum g \<in> group_set a"
  by (auto simp: in_groups_def group_set_def split: jsval.split)

lemma view_filters:
  assumes "view a = view b"
  shows "type_filter t a = type_filter t b" "isPersonal u a = isPersonal u b" "isGroup u n a = isGroup u n b"
proof -
  have g: "group_set a = group_set b" using assms by (simp add: view_def)
  show "type_filter t a = type_filter t b"
    by (simp add: type_filter_def pm_isNew_def pm_isUnread_def view_pget [OF assms])
  show "isPersonal u a = isPersonal u b" "isGroup u n a = isGroup u n b"
    by (simp_all add: isPersonal_def isGroup_def in_groups_set g)
qed

lemma views_values: "map view (om_values (pm_states s)) = map snd (views s)"
  by (simp add: views_def o_def split_def)

lemma filter_lengths:
  assumes "map view xs = map view ys" and "\<And>a b. view a = view b \<Longrightarrow> P a = P b"
  shows "length (filter P xs) = length (filter P ys)"
  using assms(1)
proof (induction xs arbitrary: ys)
  case (Cons x xs)
  then obtain y ys' where ys: "ys = y # ys'" "view x = view y" "map view xs = map view ys'"
    by (cases ys) simp_all
  show ?case using Cons.IH [OF ys(3)] assms(2) [OF ys(2)] ys(1) by simp
qed simp

lemma pm_lookupCount_views:
  assumes "views s = views s'" "pm_inbox s = pm_inbox s'" "pm_active_group s = pm_active_group s'"
  shows "pm_lookupCount u t box name s = pm_lookupCount u t box name s'"
proof -
  have m: "map view (om_values (pm_states s)) = map view (om_values (pm_states s'))"
    using assms(1) by (simp only: views_values)
  have count: "length (filter P (filter (type_filter t) (om_values (pm_states s)))) =
      length (filter P (filter (type_filter t) (om_values (pm_states s'))))"
    if "\<And>a b. view a = view b \<Longrightarrow> P a = P b" for P
    unfolding filter_filter by (rule filter_lengths [OF m]) (metis that view_filters(1))
  have "filter (type_filter t) (om_values (pm_states s)) = [] \<longleftrightarrow>
      filter (type_filter t) (om_values (pm_states s')) = []"
    using count [of "\<lambda>_. True"] by (simp flip: length_0_conv)
  moreover note count [OF view_filters(2) [where u = u]] count [OF view_filters(3) [where u = u]]
  ultimately show ?thesis
    by (simp only: pm_lookupCount_def Let_def assms(2,3))
qed

section \<open>Messages\<close>

definition states_flat :: "pm_state \<Rightarrow> bool" where
  "states_flat s \<longleftrightarrow> list_all flat (om_values (pm_states s))"

lemma states_flat_get: "states_flat s \<Longrightarrow> pred_option flat (om_get (pm_states s) i)"
  by (cases "om_get (pm_states s) i") (auto simp: states_flat_def list_all_iff dest!: map_of_SomeD)

lemma om_get_views: "om_get (views s) i = map_option view (om_get (pm_states s) i)"
  by (simp add: views_def map_of_map)

lemma map_om_set: "map (\<lambda>(i, ob). (i, f ob)) (om_set k v m) = om_set k (f v) (map (\<lambda>(i, ob). (i, f ob)) m)"
  by (induction m) auto

lemma modify_states: "pm_states (pm_modifyState i data skip s) =
    om_set i (merged_topic (om_get (pm_states s) i) data) (pm_states s)"
  by (simp add: pm_modifyState_def pm_afterStateChange_def Let_def)

lemma om_set_flat: "list_all P (map snd m) \<Longrightarrow> P v \<Longrightarrow> list_all P (map snd (om_set k v m))"
  by (induction m) auto

lemma modify_views:
  assumes "states_flat s" "flat data"
  shows "views (pm_modifyState i data skip s) = om_set i (merge_view (om_get (views s) i) (view data)) (views s)"
    and "states_flat (pm_modifyState i data skip s)"
  using merged_topic_view [OF states_flat_get [OF assms(1)] assms(2), of i] assms(1)
  by (simp_all add: views_def modify_states map_om_set om_get_views [unfolded views_def] states_flat_def om_set_flat)

lemma om_set_twice: "om_set k w (om_set k v m) = om_set k w m"
  by (induction m) auto

lemma merge_view_twice: "merge_view (Some (merge_view old new)) new = merge_view old new"
proof (cases old)
  case None
  then have "merge_view old new = new" by (simp add: merge_view_def)
  then show ?thesis by (simp add: merge_view_same)
next
  case (Some v)
  then show ?thesis by (auto simp: merge_view_def map_add_def fun_eq_iff split: option.split)
qed

lemma modify_twice:
  assumes "states_flat s" "flat data"
  shows "views (pm_modifyState i data skip (pm_modifyState i data skip' s)) = views (pm_modifyState i data skip' s)"
  using modify_views [OF assms] assms(2) by (simp add: modify_views merge_view_twice om_set_twice)

text \<open>What a message leaves alone, apart from the list of incoming topics.\<close>

lemma modify_other [simp]:
  "pm_inbox (pm_modifyState i d k s) = pm_inbox s" "pm_filter (pm_modifyState i d k s) = pm_filter s"
  "pm_active_group (pm_modifyState i d k s) = pm_active_group s"
  "pm_incoming (pm_modifyState i d k s) = pm_incoming s"
  "pm_tracking_incoming (pm_modifyState i d k s) = pm_tracking_incoming s"
  "pm_tracking (pm_modifyState i d k s) = pm_tracking s"
  by (simp_all add: pm_modifyState_def pm_afterStateChange_def Let_def)

lemma notify_other [simp]:
  "pm_inbox (pm_notify i s) = pm_inbox s" "pm_filter (pm_notify i s) = pm_filter s"
  "pm_active_group (pm_notify i s) = pm_active_group s" "pm_states (pm_notify i s) = pm_states s"
  "pm_tracking_incoming (pm_notify i s) = pm_tracking_incoming s"
  by (simp_all add: pm_notify_def)

lemma announce_cases: "snd (announce fs test m s) \<in> {s, pm_notify (pm_topic m) s}"
  by (auto simp: announce_def split: sum.split)

text \<open>A message changes the view of its topic or nothing, and then may announce the topic.\<close>

definition changes_state :: "pm_user \<Rightarrow> pm_message \<Rightarrow> bool" where
  "changes_state u m \<longleftrightarrow>
     pm_type m = ''new_topic'' \<and> pget (pm_payload m) ''created_by_user_id'' \<noteq> JNum (pu_id u) \<or>
     pm_type m \<in> {''read'', ''unread''}"

definition pm_run :: "pm_user \<Rightarrow> pm_message list \<Rightarrow> pm_state \<Rightarrow> pm_state" where
  "pm_run u ms s = fold (\<lambda>m s. snd (pm_processMessage u m s)) ms s"

lemma process_shape:
  "\<exists>s1. s1 = (if changes_state u m then pm_modifyState (pm_topic m) (pm_payload m) False s else s) \<and>
     snd (pm_processMessage u m s) \<in> {s1, pm_notify (pm_topic m) s1}"
proof -
  show ?thesis
    using announce_cases by (auto simp: pm_processMessage_def changes_state_def Let_def)
qed

lemma views_notify [simp]: "views (pm_notify i s) = views s"
  by (simp add: views_def)

lemma process_views:
  assumes "states_flat s" "flat (pm_payload m)"
  shows "views (snd (pm_processMessage u m s)) =
      (if changes_state u m
       then om_set (pm_topic m) (merge_view (om_get (views s) (pm_topic m)) (view (pm_payload m))) (views s)
       else views s)"
    and "states_flat (snd (pm_processMessage u m s))"
  using process_shape [of u m s] modify_views [OF assms, of "pm_topic m" False] assms(1)
  by (auto simp: states_flat_def)

text \<open>When a message announces its topic.\<close>

definition announces :: "pm_user \<Rightarrow> pm_message \<Rightarrow> pm_state \<Rightarrow> bool" where
  "announces u m s \<longleftrightarrow> pm_tracking_incoming s \<and>
     (pm_type m = ''new_topic'' \<and> changes_state u m \<and> pm_filter s \<in> {Some ''new'', Some ''inbox''} \<and>
        shouldDisplayMessageForInbox u m s = Inr True \<or>
      pm_type m = ''unread'' \<and> pm_filter s \<in> {Some ''unread'', Some ''inbox''} \<and>
        shouldDisplayMessageForInbox u m s = Inr True \<or>
      pm_type m = ''group_archive'' \<and>
        (truthy (pget (pm_payload m) ''acting_user_id'') \<longrightarrow> pget (pm_payload m) ''acting_user_id'' \<noteq> JNum (pu_id u)) \<and>
        pm_filter s \<in> {Some ''inbox'', Some ''archive''} \<and> displayMessageForGroupInbox m s = Inr True)"

definition inbox_of :: "pm_state \<Rightarrow> bool \<times> string option \<times> string option \<times> pm_group option" where
  "inbox_of s = (pm_tracking_incoming s, pm_inbox s, pm_filter s, pm_active_group s)"

lemma display_same:
  assumes "inbox_of s = inbox_of s'"
  shows "displayMessageForGroupInbox m s = displayMessageForGroupInbox m s'"
    and "shouldDisplayMessageForInbox u m s = shouldDisplayMessageForInbox u m s'"
    and "announces u m s = announces u m s'"
proof -
  show a: "displayMessageForGroupInbox m s = displayMessageForGroupInbox m s'"
    using assms by (simp add: displayMessageForGroupInbox_def inbox_of_def)
  show b: "shouldDisplayMessageForInbox u m s = shouldDisplayMessageForInbox u m s'"
    using assms a by (simp add: shouldDisplayMessageForInbox_def inbox_of_def)
  show "announces u m s = announces u m s'"
    using assms a b by (simp add: announces_def inbox_of_def)
qed

lemma inbox_modify [simp]: "inbox_of (pm_modifyState i d k s) = inbox_of s"
  by (simp add: inbox_of_def)

lemma inbox_process [simp]: "inbox_of (snd (pm_processMessage u m s)) = inbox_of s"
  using process_shape [of u m s] by (cases "changes_state u m") (auto simp: inbox_of_def)

lemma announce_incoming:
  "pm_incoming (snd (announce fs test m s)) =
     (if pm_tracking_incoming s \<and> pm_filter s \<in> Some ` set fs \<and> test = Inr True
      then push_new (pm_topic m) (pm_incoming s) else pm_incoming s)"
  by (auto simp: announce_def pm_notify_def split: sum.split)

lemma process_incoming:
  "pm_incoming (snd (pm_processMessage u m s)) =
     (if announces u m s then push_new (pm_topic m) (pm_incoming s) else pm_incoming s)"
proof -
  have d: "shouldDisplayMessageForInbox u m (pm_modifyState i d k s) = shouldDisplayMessageForInbox u m s" for i d k
    by (rule display_same) simp
  have self: "truthy (JNum i) \<longleftrightarrow> i \<noteq> 0" for i by simp
  show ?thesis
    by (cases "pm_type m = ''new_topic''"; cases "pm_type m = ''unread''"; cases "pm_type m = ''group_archive''")
      (auto simp: pm_processMessage_def announces_def changes_state_def announce_incoming d Let_def)
qed

text \<open>
  In every run of messages each topic has the fields of the payloads received for it, later
  ones over earlier ones, and the union of their groups; other topics keep theirs.
\<close>

theorem messages_refine:
  assumes "states_flat s" "\<forall>m \<in> set ms. flat (pm_payload m)"
  shows "om_get (views (pm_run u ms s)) i =
    fold (\<lambda>m v. if changes_state u m \<and> pm_topic m = i then Some (merge_view v (view (pm_payload m))) else v) ms
      (om_get (views s) i)"
  using assms
proof (induction ms arbitrary: s)
  case (Cons m ms)
  have m: "flat (pm_payload m)" using Cons.prems(2) by simp
  note step = process_views [OF Cons.prems(1) m, of u]
  show ?case using Cons.IH [OF step(2)] Cons.prems(2) by (simp add: pm_run_def step(1))
qed (simp add: pm_run_def)

text \<open>
  A message that is processed twice, as it is when tracking is started twice before the first
  answer, changes no count and announces its topic once.
\<close>

theorem repeated_message:
  assumes "states_flat s" "flat (pm_payload m)"
  shows "pm_lookupCount u t box name (pm_run u [m, m] s) = pm_lookupCount u t box name (pm_run u [m] s) \<and>
    pm_incoming (pm_run u [m, m] s) = pm_incoming (pm_run u [m] s)"
proof -
  let ?s = "pm_run u [m] s"
  have s: "?s = snd (pm_processMessage u m s)" "pm_run u [m, m] s = snd (pm_processMessage u m ?s)"
    by (simp_all add: pm_run_def)
  have flat: "states_flat ?s" using process_views(2) [OF assms] s(1) by simp
  have v: "views (pm_run u [m, m] s) = views ?s"
    using process_views(1) [OF assms, of u] process_views(1) [OF flat assms(2), of u] s
    by (simp add: merge_view_twice om_set_twice)
  have i: "inbox_of ?s = inbox_of s" by (simp add: pm_run_def)
  have "pm_incoming (pm_run u [m, m] s) = pm_incoming ?s"
    using display_same(3) [OF i] by (simp add: s process_incoming push_new_def)
  moreover have "pm_lookupCount u t box name (pm_run u [m, m] s) = pm_lookupCount u t box name ?s"
    by (rule pm_lookupCount_views [OF v]) (use inbox_process [of u m ?s] in \<open>simp_all add: s(2) inbox_of_def\<close>)
  ultimately show ?thesis by blast
qed

definition pm_me :: pm_user where
  "pm_me = \<lparr>pu_id = 1, pu_username = ''sam'', pu_groups = [(7, ''staff'')], pu_groups_with_messages = [7]\<rparr>"

definition pm_news :: pm_message where
  "pm_news = \<lparr>pm_type = ''new_topic'', pm_topic = 5,
     pm_payload = [(''created_by_user_id'', JNum 2), (''highest_post_number'', JNum 1),
       (''group_ids'', JArr [JNum 7])]\<rparr>"

definition pm_more :: pm_message where
  "pm_more = \<lparr>pm_type = ''unread'', pm_topic = 5,
     pm_payload = [(''highest_post_number'', JNum 2), (''group_ids'', JArr [JNum 7])]\<rparr>"

lemma sample_flat: "flat (pm_payload pm_news)" "flat (pm_payload pm_more)"
  by (auto simp: pm_news_def pm_more_def flat_def scalar_def split: if_splits)

lemma start_flat: "states_flat (pm_start\<lparr>pm_tracking_incoming := b\<rparr>)" "states_flat pm_start"
  by (simp_all add: states_flat_def pm_start_def)

lemma messages_refine_witness:
  "map_option snd (om_get (views (pm_run pm_me [pm_news, pm_more] pm_start)) 5) = Some {JNum 7}"
  using messages_refine [of pm_start "[pm_news, pm_more]" pm_me 5] sample_flat start_flat(2)
  by (simp add: changes_state_def pm_news_def pm_more_def pm_me_def pget_Cons views_def pm_start_def
      merge_view_def view_def group_set_def)

lemma repeated_message_witness:
  "pm_lookupCount pm_me ''new'' (Some ''group'') (Some ''staff'') (pm_run pm_me [pm_news, pm_news] pm_start) =
     pm_lookupCount pm_me ''new'' (Some ''group'') (Some ''staff'') (pm_run pm_me [pm_news] pm_start)"
  using repeated_message [OF start_flat(2) sample_flat(1)] by blast

section \<open>Growing arrays\<close>

text \<open>
  The group ids of a message are appended to those known: each message about a topic makes the
  array longer, with the same groups again.
\<close>

lemma group_ids_pile_up:
  assumes "om_get (pm_states s) i = Some ob" "flat ob" "flat data" "pget ob ''group_ids'' = JArr xs"
    and "pget data ''group_ids'' = JArr ys" "view ob \<noteq> view data"
  shows "\<exists>ob'. om_get (pm_states (pm_modifyState i data k s)) i = Some ob' \<and> pget ob' ''group_ids'' = JArr (xs @ ys)"
proof -
  have m: "merged_topic (Some ob) data = merge_props ob data"
    using equal_views [OF assms(2,3)] assms(6) by (auto simp: merged_topic_def deepMerge_def)
  have "om_get data ''group_ids'' = Some (JArr ys)"
    using assms(5) by (cases "om_get data ''group_ids''") (simp_all add: pget_def)
  then have "pget (merge_props ob data) ''group_ids'' = JArr (xs @ ys)"
    using om_get_merge_props [OF flat_wf [OF assms(3)], of ob "''group_ids''"] assms(4)
    by (simp add: pget_def)
  then show ?thesis using assms(1) m by (simp add: modify_states)
qed

section \<open>Reading\<close>

text \<open>
  After a message that the topic was read to its end, the topic is neither new nor unread.
\<close>

theorem read_clears:
  assumes "states_flat s" "flat (pm_payload m)" "pm_type m = ''read''"
    and "pget (pm_payload m) ''last_read_post_number'' = JNum n" "0 < n"
    and "pget (pm_payload m) ''highest_post_number'' = JNum n"
  shows "\<exists>ob. om_get (pm_states (pm_run u [m] s)) (pm_topic m) = Some ob \<and> \<not> pm_isNew ob \<and> \<not> pm_isUnread ob"
proof -
  let ?i = "pm_topic m" and ?d = "pm_payload m"
  let ?ob = "merged_topic (om_get (pm_states s) ?i) ?d"
  have ob: "om_get (pm_states (pm_run u [m] s)) ?i = Some ?ob"
    using assms(3) by (simp add: pm_run_def pm_processMessage_def modify_states)
  have v: "view ?ob = merge_view (map_option view (om_get (pm_states s) ?i)) (view ?d)"
    using merged_topic_view [OF states_flat_get [OF assms(1)] assms(2)] by blast
  have set: "pget ?d k = JNum n \<Longrightarrow> om_get ?d k = Some (JNum n)" for k
    by (cases "om_get ?d k") (simp_all add: pget_def)
  have "pget ?ob k = JNum n" if k: "pget ?d k = JNum n" "k \<noteq> ''group_ids''" for k
    using fun_cong [OF arg_cong [OF v, of fst], of k] set [OF k(1)] k(2)
    by (auto simp: view_def merge_view_def map_add_def pget_def split: option.splits)
  then have "pget ?ob ''last_read_post_number'' = JNum n" "pget ?ob ''highest_post_number'' = JNum n"
    using assms(4,6) by simp_all
  then show ?thesis using ob assms(5) by (simp add: pm_isNew_def pm_isUnread_def)
qed

lemma read_clears_witness:
  "\<exists>ob. om_get (pm_states (pm_run pm_me [\<lparr>pm_type = ''read'', pm_topic = 5, pm_payload =
       [(''last_read_post_number'', JNum 3), (''highest_post_number'', JNum 3)]\<rparr>] pm_start)) 5 = Some ob \<and>
     \<not> pm_isNew ob \<and> \<not> pm_isUnread ob"
  using read_clears [of pm_start "\<lparr>pm_type = ''read'', pm_topic = 5, pm_payload =
       [(''last_read_post_number'', JNum 3), (''highest_post_number'', JNum 3)]\<rparr>" 3 pm_me]
  by (simp add: start_flat pget_Cons flat_def scalar_def)

section \<open>Announcing and counting\<close>

lemma announced_iff:
  assumes "pget (pm_payload m) ''group_ids'' = JArr gs" "pm_tracking_incoming s" "changes_state u m"
    and "pm_type m = ''new_topic'' \<and> pm_filter s = Some ''new'' \<or> pm_type m = ''unread'' \<and> pm_filter s = Some ''unread''
         \<or> pm_type m \<in> {''new_topic'', ''unread''} \<and> pm_filter s = Some ''inbox''"
  shows "pm_inbox s = Some ''user'' \<Longrightarrow> announces u m s = isPersonal u (pm_payload m)"
    and "pm_inbox s = Some ''group'' \<Longrightarrow> pm_active_group s = Some g \<Longrightarrow> g \<in> set (pu_groups u) \<Longrightarrow>
      inj_on snd (set (pu_groups u)) \<Longrightarrow> announces u m s = isGroup u (snd g) (pm_payload m)"
proof -
  have m: "announces u m s \<longleftrightarrow> shouldDisplayMessageForInbox u m s = Inr True"
    using assms by (auto simp: announces_def)
  have p: "payload_groups (pm_payload m) = Inr gs" using assms(1) by (simp add: payload_groups_def)
  show "announces u m s = isPersonal u (pm_payload m)" if "pm_inbox s = Some ''user''"
    unfolding m using that assms(1)
    by (auto simp: shouldDisplayMessageForInbox_def displayMessageForGroupInbox_def p isPersonal_def
        in_groups_def list_ex_iff filter_empty_conv)
  show "announces u m s = isGroup u (snd g) (pm_payload m)"
    if "pm_inbox s = Some ''group''" "pm_active_group s = Some g" "g \<in> set (pu_groups u)"
      "inj_on snd (set (pu_groups u))"
  proof -
    have "x = g" if "x \<in> set (pu_groups u)" "snd x = snd g" for x
      using that \<open>g \<in> set (pu_groups u)\<close> \<open>inj_on snd (set (pu_groups u))\<close> by (auto dest: inj_onD)
    then show ?thesis
      unfolding m using that assms(1)
      by (auto simp: shouldDisplayMessageForInbox_def displayMessageForGroupInbox_def p isGroup_def
          in_groups_def list_ex_iff)
  qed
qed

text \<open>
  A new topic or post that arrives is announced in an inbox exactly when a topic with its
  groups is counted there: in the user's inbox when it is in none of the user's groups, in a
  group's inbox when it is in that group.
\<close>

theorem announced_as_counted:
  assumes "pget (pm_payload m) ''group_ids'' = JArr gs" "pm_tracking_incoming s" "changes_state u m"
    and "pm_type m = ''new_topic'' \<and> pm_filter s = Some ''new'' \<or> pm_type m = ''unread'' \<and> pm_filter s = Some ''unread''
         \<or> pm_type m \<in> {''new_topic'', ''unread''} \<and> pm_filter s = Some ''inbox''"
    and "pm_active_group s = Some g" "g \<in> set (pu_groups u)" "inj_on snd (set (pu_groups u))"
  shows "(pm_inbox s = Some ''user'' \<longrightarrow> announces u m s = isPersonal u (pm_payload m)) \<and>
    (pm_inbox s = Some ''group'' \<longrightarrow> announces u m s = isGroup u (snd g) (pm_payload m))"
  using announced_iff [OF assms(1-4)] assms(5-7) by blast

lemma announced_as_counted_witness:
  "announces pm_me pm_news (pm_trackIncoming (Some ''group'') (Some ''new'') (Some (7, ''staff'')) pm_start)"
  using announced_as_counted [of pm_news "[JNum 7]"
      "pm_trackIncoming (Some ''group'') (Some ''new'') (Some (7, ''staff'')) pm_start" pm_me "(7, ''staff'')"]
  by (simp add: pm_news_def pm_me_def pget_Cons pm_trackIncoming_def changes_state_def isGroup_def in_groups_def)

section \<open>All operations\<close>

inductive pm_step :: "pm_user \<Rightarrow> pm_state \<Rightarrow> pm_state \<Rightarrow> bool" for u :: pm_user where
  message: "pm_step u s (snd (pm_processMessage u m s))"
| track: "pm_step u s (pm_trackIncoming box f g s)"
| reset: "pm_step u s (resetIncomingTracking ids s)"
| stop: "pm_step u s (stopIncomingTracking s)"
| remove: "pm_step u s (pm_removeTopics ids s)"
| start: "pm_step u s (startTracking u s)"
| started: "pm_step u s (tracking_started answer s)"
| watch: "pm_step u s (onStateChange key s)"
| unwatch: "pm_step u s (offStateChange key s)"
| destroy: "pm_step u s (willDestroy who s)"

definition pm_inv :: "pm_state \<Rightarrow> bool" where
  "pm_inv s \<longleftrightarrow> distinct (pm_incoming s) \<and> (\<not> pm_tracking_incoming s \<longrightarrow> pm_incoming s = []) \<and>
     om_wf (pm_states s) \<and> om_wf (change_callbacks s)"

lemma modify_inv: "pm_inv s \<Longrightarrow> pm_inv (pm_modifyState i d k s)"
  by (auto simp: pm_inv_def modify_states pm_modifyState_def pm_afterStateChange_def Let_def)

lemma process_inv:
  assumes "pm_inv s"
  shows "pm_inv (snd (pm_processMessage u m s))"
proof -
  have n: "pm_inv s' \<Longrightarrow> pm_inv (pm_notify i s')" for s' i
    by (auto simp: pm_inv_def pm_notify_def)
  show ?thesis
    using process_shape [of u m s] modify_inv [OF assms] assms n
    by (cases "changes_state u m") auto
qed

lemma delete_all_wf: "om_wf m \<Longrightarrow> om_wf (fold om_delete ks m)"
  by (induction ks arbitrary: m) simp_all

lemma load_inv: "pm_inv s \<Longrightarrow> pm_inv (fold (\<lambda>(i, data). pm_modifyState i data True) topics s)"
  by (induction topics arbitrary: s) (auto simp: modify_inv)

text \<open>
  In every sequence of operations and messages an incoming topic is listed once, and none is
  listed while incoming topics are not tracked.
\<close>

theorem pm_invariant:
  assumes "(pm_step u)\<^sup>*\<^sup>* pm_start s"
  shows "pm_inv s"
  using assms
proof (induction rule: rtranclp_induct)
  case base
  show ?case by (simp add: pm_inv_def pm_start_def)
next
  case (step s s')
  from step.hyps(2) step.IH show ?case
  proof (cases rule: pm_step.cases)
    case (message m)
    then show ?thesis using step.IH process_inv by blast
  next
    case (started answer)
    then show ?thesis using load_inv [OF step.IH]
      by (cases answer) (auto simp: tracking_started_def pm_inv_def step.IH [unfolded pm_inv_def])
  qed (auto simp: pm_inv_def pm_trackIncoming_def resetIncomingTracking_def stopIncomingTracking_def
      pm_removeTopics_def pm_afterStateChange_def startTracking_def onStateChange_def offStateChange_def
      willDestroy_def delete_all_wf Let_def split: option.splits)
qed

lemma pm_invariant_witness: "pm_inv (snd (pm_processMessage pm_me pm_news (pm_trackIncoming None None None pm_start)))"
  by (rule pm_invariant [of pm_me])
    (metis pm_step.message pm_step.track r_into_rtranclp rtranclp.rtrancl_into_rtrancl)

end
