(* ===== verification/FilterSuggestions.thy ===== *)
theory FilterSuggestions
  imports JsString JsSort ObjectTools
begin

text \<open>
  \<open>lib/filter-suggestions.js\<close>: what is suggested while a filter such as
  \<open>-tag:a,b created-by:sam\<close> is typed.

  The answers of the three requests are arguments, \<open>None\<close> for one that failed, and so are the
  translations and the order \<open>localeCompare\<close>. The names of delimiters have no hyphen, so that the
  pattern built from them is the set of their characters.
\<close>

section \<open>Tips and suggestions\<close>

record named_entry =
  e_name :: string
  e_description :: "string option"

record filter_tip =
  tip_name :: string
  tip_alias :: "string option"
  tip_description :: "string option"
  tip_priority :: "int option"
  tip_type :: "string option"
  tip_prefixes :: "named_entry list option"
  tip_delimiters :: "named_entry list option"
  tip_extra_entries :: "named_entry list option"

text \<open>A suggestion: one built for a value has a term, one made from a tip has its other fields.\<close>

record suggestion =
  sg_name :: string
  sg_description :: "string option"
  sg_term :: "string option"
  sg_is :: bool
  sg_delimiters :: "named_entry list option"
  sg_tip :: "filter_tip option"

definition tip_suggestion :: "string \<Rightarrow> string option \<Rightarrow> bool \<Rightarrow> filter_tip \<Rightarrow> suggestion" where
  "tip_suggestion name description is tip =
     \<lparr>sg_name = name, sg_description = description, sg_term = None, sg_is = is,
      sg_delimiters = tip_delimiters tip, sg_tip = Some tip\<rparr>"

definition value_suggestion :: "string \<Rightarrow> string option \<Rightarrow> string \<Rightarrow> suggestion" where
  "value_suggestion name description trm =
     \<lparr>sg_name = name, sg_description = description, sg_term = Some trm, sg_is = True,
      sg_delimiters = None, sg_tip = None\<rparr>"

definition MAX_RESULTS :: nat where "MAX_RESULTS = 20"

section \<open>Parsing\<close>

text \<open>Splitting at every character of a class.\<close>

fun split_by :: "(char \<Rightarrow> bool) \<Rightarrow> string \<Rightarrow> string list" where
  "split_by P [] = [[]]"
| "split_by P (c # cs) =
     (if P c then [] # split_by P cs
      else case split_by P cs of [] \<Rightarrow> [[c]] | w # ws \<Rightarrow> (c # w) # ws)"

record segment =
  seg_word :: string
  seg_prefix :: string
  seg_filter :: "string option"
  seg_value :: "string option"
  seg_colon :: bool

definition extractPrefix :: "string \<Rightarrow> string" where
  "extractPrefix w =
     (if prefix ''-='' w then ''-='' else if prefix ''=-'' w then ''=-''
      else if prefix ''-'' w then ''-'' else if prefix ''='' w then ''='' else [])"

definition parseWord :: "string \<Rightarrow> segment" where
  "parseWord w =
     (let pre = extractPrefix w; rest = drop (length pre) w
      in case find_at '':'' rest of
           Some k \<Rightarrow>
             if k > 0
             then \<lparr>seg_word = w, seg_prefix = pre, seg_filter = Some (take k rest),
                   seg_value = Some (drop (k + 1) rest), seg_colon = True\<rparr>
             else \<lparr>seg_word = w, seg_prefix = pre, seg_filter = None, seg_value = None, seg_colon = False\<rparr>
         | None \<Rightarrow> \<lparr>seg_word = w, seg_prefix = pre, seg_filter = None, seg_value = None, seg_colon = False\<rparr>)"

definition words_of :: "string \<Rightarrow> string list" where
  "words_of text = filter (\<lambda>w. w \<noteq> []) (split_by js_space text)"

definition parse_segments :: "string \<Rightarrow> segment list" where
  "parse_segments text = map parseWord (words_of text)"

definition empty_segment :: segment where
  "empty_segment = \<lparr>seg_word = [], seg_prefix = [], seg_filter = None, seg_value = None, seg_colon = False\<rparr>"

definition getLastSegment :: "string \<Rightarrow> segment" where
  "getLastSegment text =
     (if suffix '' '' text then empty_segment
      else case last_opt (parse_segments text) of Some sg \<Rightarrow> sg | None \<Rightarrow> empty_segment)"

section \<open>Tips\<close>

definition getTopLevelTips :: "(string \<Rightarrow> string \<Rightarrow> int) \<Rightarrow> filter_tip list \<Rightarrow> filter_tip list" where
  "getTopLevelTips localeCompare tips =
     take MAX_RESULTS
       (js_sort (\<lambda>a b. let diff = (case tip_priority b of Some p \<Rightarrow> p | None \<Rightarrow> 0) -
                                 (case tip_priority a of Some p \<Rightarrow> p | None \<Rightarrow> 0)
                       in if diff \<noteq> 0 then diff else localeCompare (tip_name a) (tip_name b))
         (filter (\<lambda>t. tip_priority t = Some 1) tips))"

definition drop_colon :: "string \<Rightarrow> string" where
  "drop_colon s = (if suffix '':'' s then butlast s else s)"

definition findTipForFilter :: "string \<Rightarrow> filter_tip list \<Rightarrow> filter_tip option" where
  "findTipForFilter name tips =
     find (\<lambda>t. drop_colon (tip_name t) = name \<or> map_option drop_colon (tip_alias t) = Some name) tips"

definition tip_matches :: "string \<Rightarrow> filter_tip \<Rightarrow> bool" where
  "tip_matches search tip \<longleftrightarrow>
     tip_name tip \<noteq> search \<and>
     (contains search (tip_name tip) \<or>
      (case tip_alias tip of Some a \<Rightarrow> a \<noteq> [] \<and> contains search a | None \<Rightarrow> False))"

definition or_text :: "string option \<Rightarrow> string option \<Rightarrow> string option" where
  "or_text a b = (case a of Some t \<Rightarrow> if t \<noteq> [] then a else b | None \<Rightarrow> b)"

definition tip_entries :: "string \<Rightarrow> filter_tip \<Rightarrow> suggestion list" where
  "tip_entries pre tip =
     (case tip_prefixes tip of
        Some ps \<Rightarrow>
          if pre \<noteq> [] then
            (case find (\<lambda>p. e_name p = pre) ps of
               Some p \<Rightarrow> [tip_suggestion (pre @ tip_name tip) (or_text (e_description p) (tip_description tip)) True tip]
             | None \<Rightarrow> [])
          else tip_suggestion (tip_name tip) (tip_description tip) False tip #
               map (\<lambda>p. tip_suggestion (e_name p @ tip_name tip)
                          (or_text (e_description p) (tip_description tip)) True tip) ps
      | None \<Rightarrow> [tip_suggestion (pre @ tip_name tip) (tip_description tip) True tip])"

text \<open>The loop over the tips stops when there are enough, which is tested before each tip.\<close>

fun collect_tips :: "string \<Rightarrow> string \<Rightarrow> filter_tip list \<Rightarrow> suggestion list \<Rightarrow> suggestion list" where
  "collect_tips search pre [] filtered = filtered"
| "collect_tips search pre (t # ts) filtered =
     (if length filtered \<ge> MAX_RESULTS then filtered
      else collect_tips search pre ts
             (if tip_matches search t then filtered @ tip_entries pre t else filtered))"

definition starts_first :: "string \<Rightarrow> suggestion \<Rightarrow> suggestion \<Rightarrow> int" where
  "starts_first search a b =
     (let aStarts = prefix search (lower (sg_name a)); bStarts = prefix search (lower (sg_name b))
      in if aStarts \<and> \<not> bStarts then -1
         else if \<not> aStarts \<and> bStarts then 1
         else int (length (sg_name a)) - int (length (sg_name b)))"

definition filterTips :: "filter_tip list \<Rightarrow> string \<Rightarrow> string \<Rightarrow> suggestion list" where
  "filterTips tips searchTerm pre =
     (let search = (if pre \<noteq> [] then replace_first pre [] (lower searchTerm) else lower searchTerm)
      in js_sort (starts_first search) (collect_tips search pre tips []))"

section \<open>Values\<close>

record suggester =
  sug_tip :: filter_tip
  sug_prefix :: string
  sug_filter :: string
  sug_previous :: "string list"
  sug_search :: string
  sug_value_prefix :: string

definition parseMultiValue :: "filter_tip \<Rightarrow> segment \<Rightarrow> suggester" where
  "parseMultiValue tip sg =
     (let v = (case seg_value sg of Some v \<Rightarrow> v | None \<Rightarrow> []);
          name = (case seg_filter sg of Some f \<Rightarrow> f | None \<Rightarrow> ''null'')
      in case tip_delimiters tip of
           Some ds \<Rightarrow>
             (let parts = split_by (\<lambda>c. c \<in> set (concat (map e_name ds))) v;
                  search = trim (last parts)
              in \<lparr>sug_tip = tip, sug_prefix = seg_prefix sg, sug_filter = name,
                  sug_previous = filter (\<lambda>p. p \<noteq> []) (map trim (butlast parts)), sug_search = search,
                  sug_value_prefix = take (length v - length search) v\<rparr>)
         | None \<Rightarrow>
             \<lparr>sug_tip = tip, sug_prefix = seg_prefix sg, sug_filter = name, sug_previous = [],
              sug_search = v, sug_value_prefix = []\<rparr>)"

definition buildSuggestionName :: "suggester \<Rightarrow> string \<Rightarrow> string" where
  "buildSuggestionName g trm = sug_prefix g @ sug_filter g @ '':'' @ sug_value_prefix g @ trm"

definition term_or_empty :: "suggestion \<Rightarrow> string" where
  "term_or_empty r = (case sg_term r of Some t \<Rightarrow> t | None \<Rightarrow> [])"

definition used_terms :: "suggester \<Rightarrow> string list" where
  "used_terms g = map lower (sug_previous g)"

definition prepareDelimiterSuggestions :: "suggester \<Rightarrow> suggestion list \<Rightarrow> suggestion list" where
  "prepareDelimiterSuggestions g results =
     (case tip_delimiters (sug_tip g) of
        None \<Rightarrow> results
      | Some ds \<Rightarrow>
          if ds = [] then results
          else (let rs = filter (\<lambda>r. lower (term_or_empty r) \<notin> set (used_terms g))
                           (map (\<lambda>r. r\<lparr>sg_delimiters := Some ds\<rparr>) results);
                    search = lower (sug_search g)
                in if search \<noteq> [] \<and> list_ex (\<lambda>r. lower (term_or_empty r) = search) rs
                   then rs @ map (\<lambda>d. \<lparr>sg_name = buildSuggestionName g (sug_search g @ e_name d),
                                       sg_description = e_description d, sg_term = None, sg_is = True,
                                       sg_delimiters = Some ds, sg_tip = None\<rparr>) ds
                   else rs))"

definition getCategorySuggestions :: "suggester \<Rightarrow> (string \<times> string) list \<Rightarrow> suggestion list" where
  "getCategorySuggestions g categories =
     (let search = lower (sug_search g)
      in map (\<lambda>(name, slug). value_suggestion (buildSuggestionName g slug) (Some name) slug)
           (take 10 (filter (\<lambda>(name, slug). search = [] \<or> contains search (lower name) \<or> contains search (lower slug))
              categories)))"

text \<open>Tags with their counts, users and groups with their full names, or \<open>None\<close> for a failure.\<close>

record filter_answers =
  ans_tags :: "(string \<times> nat) list option"
  ans_users :: "(string \<times> string option) list option"
  ans_groups :: "(string \<times> string option) list option"

definition getTagSuggestions :: "suggester \<Rightarrow> (string \<times> nat) list option \<Rightarrow> suggestion list" where
  "getTagSuggestions g answer =
     (case answer of
        Some tags \<Rightarrow> prepareDelimiterSuggestions g
          (map (\<lambda>(name, count). value_suggestion (buildSuggestionName g name) (Some (show_nat count)) name) tags)
      | None \<Rightarrow> [])"

definition user_suggestion :: "suggester \<Rightarrow> string \<times> string option \<Rightarrow> suggestion" where
  "user_suggestion g = (\<lambda>(username, name).
     value_suggestion (buildSuggestionName g username) (or_text name (Some [])) username)"

definition group_suggestion :: "suggester \<Rightarrow> string \<times> string option \<Rightarrow> suggestion" where
  "group_suggestion g = (\<lambda>(name, full_name).
     value_suggestion (buildSuggestionName g name) (or_text full_name (Some name)) name)"

definition getUserSuggestions :: "suggester \<Rightarrow> (string \<times> string option) list option \<Rightarrow> suggestion list" where
  "getUserSuggestions g answer =
     (case answer of
        Some us \<Rightarrow> prepareDelimiterSuggestions g (map (user_suggestion g) us)
      | None \<Rightarrow> [])"

definition getGroupSuggestions :: "suggester \<Rightarrow> (string \<times> string option) list option \<Rightarrow> suggestion list" where
  "getGroupSuggestions g answer =
     (case answer of
        Some gs \<Rightarrow> prepareDelimiterSuggestions g (map (group_suggestion g) gs)
      | None \<Rightarrow> [])"

text \<open>What the requests ask for.\<close>

definition tag_request :: "suggester \<Rightarrow> jobj" where
  "tag_request g = [(''q'', JStr (sug_search g)), (''limit'', JNum 5)]"

definition user_request :: "suggester \<Rightarrow> jobj" where
  "user_request g =
     (''limit'', JNum 10) # (if sug_search g \<noteq> [] then [(''term'', JStr (sug_search g))]
                             else [(''last_seen_users'', JBool True)])"

definition group_request :: "nat \<Rightarrow> suggester \<Rightarrow> jobj" where
  "group_request limit g =
     (''limit'', JNum (int limit)) # (if sug_search g \<noteq> [] then [(''term'', JStr (sug_search g))] else [])"

text \<open>The description is asked for only when the name does not match; without one the test throws.\<close>

definition extra_suggestions :: "suggester \<Rightarrow> suggestion list result" where
  "extra_suggestions g =
     (case tip_extra_entries (sug_tip g) of
        Some es \<Rightarrow>
          if used_terms g = []
          then (let named = (\<lambda>e. sug_search g = [] \<or> contains (lower (sug_search g)) (lower (e_name e)))
                in if list_ex (\<lambda>e. \<not> named e \<and> e_description e = None) es
                   then Inl (TypeError ''Cannot read properties of undefined'')
                   else Inr (map (\<lambda>e. value_suggestion (buildSuggestionName g (e_name e)) (e_description e) (e_name e))
                          (filter (\<lambda>e. named e \<or>
                             contains (lower (sug_search g)) (lower (the (e_description e)))) es)))
          else Inr []
      | None \<Rightarrow> Inr [])"

definition unused :: "suggester \<Rightarrow> (string \<times> string option) list option \<Rightarrow> (string \<times> string option) list" where
  "unused g answer = (case answer of
     Some xs \<Rightarrow> filter (\<lambda>x. lower (fst x) \<notin> set (used_terms g)) xs | None \<Rightarrow> [])"

definition exact_first :: "string \<Rightarrow> suggestion \<Rightarrow> suggestion \<Rightarrow> int" where
  "exact_first search a b =
     (let aExact = lower (term_or_empty a) = search; bExact = lower (term_or_empty b) = search
      in if aExact \<and> \<not> bExact then -1 else if \<not> aExact \<and> bExact then 1 else 0)"

text \<open>
  The comparison reads \<open>a.term.toLowerCase()\<close>. With two or more suggestions every one of them is
  compared, so one without a term makes it throw.
\<close>

definition getUsernameGroupListSuggestions :: "suggester \<Rightarrow> filter_answers \<Rightarrow> suggestion list result" where
  "getUsernameGroupListSuggestions g ans =
     (case extra_suggestions g of
        Inl err \<Rightarrow> Inl err
      | Inr extra \<Rightarrow>
          let all = prepareDelimiterSuggestions g
                (extra @ map (user_suggestion g) (unused g (ans_users ans)) @
                 map (group_suggestion g) (unused g (ans_groups ans)))
          in if length all \<ge> 2 \<and> list_ex (\<lambda>r. sg_term r = None) all
             then Inl (TypeError ''Cannot read properties of undefined'')
             else Inr (take MAX_RESULTS (js_sort (exact_first (lower (sug_search g))) all)))"

definition date_options :: "(string \<times> string) list" where
  "date_options = [(''1'', ''yesterday''), (''7'', ''last_week''), (''30'', ''last_month''), (''365'', ''last_year'')]"

definition getDateSuggestions :: "(string \<Rightarrow> string) \<Rightarrow> suggester \<Rightarrow> suggestion list" where
  "getDateSuggestions tr g =
     map (\<lambda>(v, k). value_suggestion (buildSuggestionName g v) (Some (tr (''filter.description.'' @ k))) v)
       (filter (\<lambda>(v, k). sug_search g = [] \<or> contains (sug_search g) v \<or>
          contains (lower (sug_search g)) (lower (tr (''filter.description.days.'' @ k)))) date_options)"

definition getNumberSuggestions :: "suggester \<Rightarrow> suggestion list" where
  "getNumberSuggestions g =
     map (\<lambda>v. value_suggestion (buildSuggestionName g v) None v)
       (filter (\<lambda>v. sug_search g = [] \<or> contains (sug_search g) v) [''0'', ''1'', ''5'', ''10'', ''20''])"

section \<open>Suggestions\<close>

record filter_context =
  ctx_categories :: "(string \<times> string) list"
  ctx_answers :: filter_answers
  ctx_translate :: "string \<Rightarrow> string"
  ctx_compare :: "string \<Rightarrow> string \<Rightarrow> int"

definition getFilterSuggestionsByType ::
    "filter_tip \<Rightarrow> string \<Rightarrow> segment \<Rightarrow> filter_context \<Rightarrow> suggestion list result" where
  "getFilterSuggestionsByType tip type sg ctx =
     (let g = parseMultiValue tip sg; ans = ctx_answers ctx
      in if type = ''category'' then Inr (getCategorySuggestions g (ctx_categories ctx))
         else if type = ''tag'' then Inr (getTagSuggestions g (ans_tags ans))
         else if type = ''username'' then Inr (getUserSuggestions g (ans_users ans))
         else if type = ''group'' then Inr (getGroupSuggestions g (ans_groups ans))
         else if type = ''username_group_list'' then getUsernameGroupListSuggestions g ans
         else if type = ''date'' then Inr (getDateSuggestions (ctx_translate ctx) g)
         else if type = ''number'' then Inr (getNumberSuggestions g)
         else Inr [])"

definition plain_tip :: "filter_tip \<Rightarrow> suggestion" where
  "plain_tip t = tip_suggestion (tip_name t) (tip_description t) False t"

definition getSuggestions ::
    "string \<Rightarrow> filter_tip list \<Rightarrow> filter_context \<Rightarrow> (suggestion list \<times> string option) result" where
  "getSuggestions text tips ctx =
     (let sg = getLastSegment text;
          by_name = Inr (filterTips tips (seg_word sg) (seg_prefix sg), None)
      in if seg_word sg = [] then Inr (map plain_tip (getTopLevelTips (ctx_compare ctx) tips), None)
         else case seg_filter sg of
           Some f \<Rightarrow>
             if seg_colon sg then
               (case findTipForFilter f tips of
                  Some tip \<Rightarrow>
                    (case tip_type tip of
                       Some type \<Rightarrow>
                         if type \<noteq> []
                         then bind_result (getFilterSuggestionsByType tip type sg ctx) (\<lambda>rs. Inr (rs, Some f))
                         else by_name
                     | None \<Rightarrow> by_name)
                | None \<Rightarrow> by_name)
             else by_name
         | None \<Rightarrow> by_name)"

end
