(* ===== verification/FilterProofs.thy ===== *)
theory FilterProofs
  imports FilterSuggestions
begin

text \<open>
  What the suggestions promise: choosing one gives a word that parses to the same filter with the
  value completed, values chosen before are not suggested again, and where a suggestion for an
  exact name makes the list throw.
\<close>

section \<open>Parsing what was built\<close>

lemma find_at_char: "c \<notin> set a \<Longrightarrow> find_at [c] (a @ c # b) = Some (length a)"
  by (induction a) auto

lemma find_at_charD: "find_at [c] s = Some k \<Longrightarrow> c \<notin> set (take k s) \<and> s = take k s @ c # drop (k + 1) s"
proof (induction s arbitrary: k)
  case (Cons d s)
  then show ?case by (cases k) (auto split: if_splits)
qed simp

lemma prefix_two:
  fixes a b p :: string
  assumes "length p \<le> 2" "take 2 a = take 2 b"
  shows "prefix p a = prefix p b"
proof -
  have p: "prefix p x \<longleftrightarrow> take (length p) x = p" for x
    by (metis append_eq_conv_conj prefix_def)
  have "take (length p) a = take (length p) b"
    using arg_cong [OF assms(2), of "take (length p)"] assms(1) by (simp add: min_def)
  then show ?thesis by (simp add: p)
qed

lemma extractPrefix_two: "take 2 a = take 2 b \<Longrightarrow> extractPrefix a = extractPrefix b"
  by (simp add: extractPrefix_def prefix_two [of _ a b])

lemma extractPrefix_prefix: "prefix (extractPrefix w) w"
  by (simp add: extractPrefix_def)

lemma parseWord_colon:
  assumes "parseWord w = sg" "seg_filter sg = Some f"
  shows "\<exists>v. seg_value sg = Some v \<and> seg_colon sg \<and> f \<noteq> [] \<and> CHR '':'' \<notin> set f \<and>
    seg_prefix sg = extractPrefix w \<and> w = seg_prefix sg @ f @ CHR '':'' # v"
proof -
  let ?rest = "drop (length (extractPrefix w)) w"
  have w: "w = extractPrefix w @ ?rest"
    using extractPrefix_prefix [of w] by (metis append_eq_conv_conj prefix_def)
  obtain k where k: "find_at '':'' ?rest = Some k" "0 < k" "sg = \<lparr>seg_word = w, seg_prefix = extractPrefix w,
      seg_filter = Some (take k ?rest), seg_value = Some (drop (k + 1) ?rest), seg_colon = True\<rparr>"
    using assms by (auto simp: parseWord_def Let_def split: option.splits if_splits)
  note d = find_at_charD [OF k(1)]
  have "take k ?rest \<noteq> []" using k(2) d by (cases ?rest) auto
  then show ?thesis using k(3) assms(2) d w by (metis (no_types, lifting) option.inject segment.select_convs)
qed

lemma parseWord_value:
  assumes "parseWord w = sg" "seg_filter sg = Some f"
  shows "parseWord (seg_prefix sg @ f @ CHR '':'' # v) =
    sg\<lparr>seg_word := seg_prefix sg @ f @ CHR '':'' # v, seg_value := Some v\<rparr>"
proof -
  obtain pre v0 where pre: "seg_prefix sg = pre"
    and v0: "f \<noteq> []" "CHR '':'' \<notin> set f" "extractPrefix w = pre" "seg_colon sg" "w = pre @ f @ CHR '':'' # v0"
    using parseWord_colon [OF assms] by force
  have "take 2 (pre @ f @ CHR '':'' # v) = take 2 w"
  proof -
    obtain xs where xs: "xs = pre @ f @ [CHR '':'']" by simp
    then have "2 \<le> length xs" using v0(1) by (cases f) simp_all
    then have "take 2 (xs @ v) = take 2 (xs @ v0)" by (simp only: take_append diff_is_0_eq') simp
    then show ?thesis using xs v0(5) by simp
  qed
  then have "extractPrefix (pre @ f @ CHR '':'' # v) = pre"
    using v0(3) extractPrefix_two by metis
  then show ?thesis
    using pre v0(1,2,4) assms(2) find_at_char [OF v0(2), of v] by (simp add: parseWord_def Let_def)
qed

section \<open>Several values\<close>

lemma split_by_nonempty [simp]: "split_by P s \<noteq> []"
  by (induction s) (auto split: list.split)

lemma split_by_free: "list_all (\<lambda>c. \<not> P c) s \<Longrightarrow> split_by P s = [s]"
  by (induction s) auto

lemma split_by_chars: "w \<in> set (split_by P s) \<Longrightarrow> set w \<subseteq> set s"
proof (induction s arbitrary: w)
  case (Cons c s)
  then show ?case by (cases "P c"; cases "split_by P s") force+
qed simp

lemma split_by_single: "split_by P s = [w] \<Longrightarrow> w = s"
  by (induction s arbitrary: w) (auto split: if_splits list.splits)

text \<open>The value splits into what stands before the last part, and that part.\<close>

lemma split_by_last:
  "\<exists>a. s = a @ last (split_by P s) \<and> (\<forall>t. split_by P (a @ t) = butlast (split_by P s) @ split_by P t)"
proof (induction s)
  case Nil
  then show ?case by simp
next
  case (Cons c s)
  then obtain a where a: "s = a @ last (split_by P s)"
    "\<And>t. split_by P (a @ t) = butlast (split_by P s) @ split_by P t" by blast
  show ?case
  proof (cases "P c")
    case True
    then show ?thesis using a by (intro exI [of _ "c # a"]) simp
  next
    case False
    obtain w ws where ws: "split_by P s = w # ws" by (cases "split_by P s") auto
    show ?thesis
    proof (cases "ws = []")
      case True
      then have "w = s" using ws split_by_single by blast
      then show ?thesis using True False ws by (intro exI [of _ "[]"]) simp
    next
      case more: False
      have "split_by P (a @ t) = w # butlast ws @ split_by P t" for t using a(2) [of t] ws more by simp
      then show ?thesis using False ws a(1) more by (intro exI [of _ "c # a"]) auto
    qed
  qed
qed

lemma trim_free: "\<forall>c \<in> set s. \<not> js_space c \<Longrightarrow> trim s = s"
  by (metis dropWhile_eq_self_iff in_set_conv_decomp_first last_in_set list.set_sel(1) trim_def trim_end_id trim_start_def)

text \<open>Every value typed after the same filter has the same values before its last one.\<close>

lemma parseMultiValue_again:
  assumes "seg_value sg = Some v" "\<forall>c \<in> set v. \<not> js_space c" "\<forall>c \<in> set t. \<not> js_space c"
    and "tip_delimiters tip = Some ds" "\<forall>d \<in> set ds. \<forall>c \<in> set (e_name d). c \<notin> set t"
  shows "parseMultiValue tip (sg\<lparr>seg_word := w, seg_value := Some (sug_value_prefix (parseMultiValue tip sg) @ t)\<rparr>) =
    (parseMultiValue tip sg)\<lparr>sug_search := t\<rparr>"
proof -
  let ?P = "\<lambda>c. c \<in> set (concat (map e_name ds))"
  obtain a where a: "v = a @ last (split_by ?P v)"
    "\<And>t. split_by ?P (a @ t) = butlast (split_by ?P v) @ split_by ?P t"
    using split_by_last by blast
  have "set (last (split_by ?P v)) \<subseteq> set v" by (rule split_by_chars [OF last_in_set [OF split_by_nonempty]])
  then have last: "trim (last (split_by ?P v)) = last (split_by ?P v)"
    using assms(2) by (intro trim_free) blast
  have vp: "sug_value_prefix (parseMultiValue tip sg) = a"
  proof -
    obtain l where l: "last (split_by ?P v) = l" by simp
    then have "take (length v - length l) v = a" using a(1) by simp
    then show ?thesis using last by (simp only: parseMultiValue_def assms(1,4) option.case Let_def suggester.select_convs l)
  qed
  have t: "split_by ?P t = [t]" using assms(5) by (intro split_by_free) (auto simp: list_all_iff)
  have "split_by ?P (a @ t) = butlast (split_by ?P v) @ [t]" using a(2) t by simp
  then show ?thesis
    unfolding vp using assms(1,4) vp trim_free [OF assms(3)]
    by (simp add: parseMultiValue_def Let_def)
qed

section \<open>Suggestions for a value\<close>

lemma split_by_parts: "w \<in> set (split_by P s) \<Longrightarrow> c \<in> set w \<Longrightarrow> \<not> P c"
proof (induction s arbitrary: w)
  case (Cons d s)
  then show ?case by (cases "P d"; cases "split_by P s") force+
qed simp

lemma last_segment_word:
  assumes "getLastSegment text = sg" "seg_filter sg = Some f"
  shows "\<exists>w. parseWord w = sg \<and> (\<forall>c \<in> set w. \<not> js_space c)"
proof -
  have "\<not> suffix '' '' text" using assms by (auto simp: getLastSegment_def empty_segment_def)
  then obtain "words_of text \<noteq> []" and sg: "sg = last (parse_segments text)"
    using assms by (auto simp: getLastSegment_def empty_segment_def last_opt_def parse_segments_def split: if_splits)
  then have "sg = parseWord (last (words_of text))" "last (words_of text) \<in> set (words_of text)"
    by (simp_all add: parse_segments_def last_map)
  then show ?thesis using split_by_parts [of _ js_space "text"] by (auto simp: words_of_def)
qed

lemma last_segment_value:
  assumes "getLastSegment text = sg" "seg_filter sg = Some f"
  shows "\<exists>v. seg_value sg = Some v \<and> (\<forall>c \<in> set v. \<not> js_space c)"
proof -
  obtain w where w: "parseWord w = sg" "\<forall>c \<in> set w. \<not> js_space c" using last_segment_word [OF assms] by blast
  obtain v where v: "seg_value sg = Some v" "w = seg_prefix sg @ f @ CHR '':'' # v"
    using parseWord_colon [OF w(1) assms(2)] by blast
  have "set v \<subseteq> set w" by (subst v(2)) auto
  then show ?thesis using v(1) w(2) by blast
qed

text \<open>What is shown for a term is the word with the term as its last value.\<close>

definition named_by :: "suggester \<Rightarrow> suggestion \<Rightarrow> bool" where
  "named_by g r \<longleftrightarrow> (\<forall>t. sg_term r = Some t \<longrightarrow> sg_name r = buildSuggestionName g t)"

lemma named_value [simp]: "named_by g (value_suggestion (buildSuggestionName g t) d t)"
  by (simp add: named_by_def value_suggestion_def)

lemma named_prepared:
  assumes "\<forall>r \<in> set rs. named_by g r"
  shows "\<forall>r \<in> set (prepareDelimiterSuggestions g rs). named_by g r"
  using assms by (auto simp: prepareDelimiterSuggestions_def named_by_def Let_def split: option.split)

lemma named_answers [simp]: "named_by g (user_suggestion g x)" "named_by g (group_suggestion g x)"
  by (auto simp: user_suggestion_def group_suggestion_def split: prod.split)

lemma named_suggestions:
  assumes "getFilterSuggestionsByType tip type sg ctx = Inr rs" "r \<in> set rs"
  shows "named_by (parseMultiValue tip sg) r"
proof -
  let ?g = "parseMultiValue tip sg"
  have prep: "(\<forall>r \<in> set xs. named_by ?g r) \<Longrightarrow> r \<in> set (prepareDelimiterSuggestions ?g xs) \<Longrightarrow> named_by ?g r" for xs
    using named_prepared by blast
  have extra: "\<forall>r \<in> set ex. named_by ?g r" if "extra_suggestions ?g = Inr ex" for ex
    using that by (auto simp: extra_suggestions_def Let_def split: option.splits if_splits)
  have ugl: "named_by ?g r"
    if ok: "getUsernameGroupListSuggestions ?g a = Inr rs" for a
  proof -
    obtain ex where ex: "extra_suggestions ?g = Inr ex"
      using ok by (cases "extra_suggestions ?g") (auto simp: getUsernameGroupListSuggestions_def)
    have "r \<in> set (prepareDelimiterSuggestions ?g (ex @
        map (user_suggestion ?g) (unused ?g (ans_users a)) @ map (group_suggestion ?g) (unused ?g (ans_groups a))))"
      using ok assms(2) ex
      by (auto simp: getUsernameGroupListSuggestions_def Let_def split: if_splits dest!: in_set_takeD)
    then show ?thesis by (rule prep [rotated]) (use extra [OF ex] in auto)
  qed
  have cat: "r \<in> set (getCategorySuggestions ?g cs) \<Longrightarrow> named_by ?g r" for cs
    by (auto simp: getCategorySuggestions_def Let_def)
  have tag: "r \<in> set (getTagSuggestions ?g a) \<Longrightarrow> named_by ?g r" for a
  proof -
    assume r: "r \<in> set (getTagSuggestions ?g a)"
    then obtain tags where "a = Some tags" by (cases a) (simp_all add: getTagSuggestions_def)
    with r show "named_by ?g r"
      by (intro prep [of "map (\<lambda>(name, count). value_suggestion (buildSuggestionName ?g name)
          (Some (show_nat count)) name) tags"]) (auto simp: getTagSuggestions_def)
  qed
  have user: "r \<in> set (getUserSuggestions ?g a) \<Longrightarrow> named_by ?g r" for a
  proof -
    assume r: "r \<in> set (getUserSuggestions ?g a)"
    then obtain us where "a = Some us" by (cases a) (simp_all add: getUserSuggestions_def)
    with r show "named_by ?g r"
      by (intro prep [of "map (user_suggestion ?g) us"]) (auto simp: getUserSuggestions_def)
  qed
  have grp: "r \<in> set (getGroupSuggestions ?g a) \<Longrightarrow> named_by ?g r" for a
  proof -
    assume r: "r \<in> set (getGroupSuggestions ?g a)"
    then obtain us where "a = Some us" by (cases a) (simp_all add: getGroupSuggestions_def)
    with r show "named_by ?g r"
      by (intro prep [of "map (group_suggestion ?g) us"]) (auto simp: getGroupSuggestions_def)
  qed
  have date: "r \<in> set (getDateSuggestions tr ?g) \<Longrightarrow> named_by ?g r" for tr
    by (auto simp: getDateSuggestions_def)
  have num: "r \<in> set (getNumberSuggestions ?g) \<Longrightarrow> named_by ?g r"
    by (auto simp: getNumberSuggestions_def)
  show ?thesis
    using assms ugl cat tag user grp date num
    by (auto simp: getFilterSuggestionsByType_def Let_def split: if_splits)
qed

lemma active_filter:
  assumes "getSuggestions text tips ctx = Inr (rs, Some f)"
  obtains tip type where "seg_filter (getLastSegment text) = Some f" "findTipForFilter f tips = Some tip"
    "getFilterSuggestionsByType tip type (getLastSegment text) ctx = Inr rs"
  using assms
  by (auto simp: getSuggestions_def Let_def bind_result_Inr split: if_splits option.splits)

text \<open>
  C25. Choosing a suggestion while a filter is typed gives a word that parses to the same filter
  with the same prefix, in which the values chosen before are kept and the last one is the term,
  when the term has no white space and none of the delimiters of the tip.
\<close>

theorem chosen_suggestion_parses:
  assumes "getSuggestions text tips ctx = Inr (rs, Some f)" "r \<in> set rs" "sg_term r = Some t"
    and "findTipForFilter f tips = Some tip" "\<forall>c \<in> set t. \<not> js_space c"
    and "\<forall>ds. tip_delimiters tip = Some ds \<longrightarrow> (\<forall>d \<in> set ds. \<forall>c \<in> set (e_name d). c \<notin> set t)"
  shows "let sg = getLastSegment text; sg' = parseWord (sg_name r)
    in seg_filter sg' = Some f \<and> seg_prefix sg' = seg_prefix sg \<and>
       parseMultiValue tip sg' = (parseMultiValue tip sg)\<lparr>sug_search := t\<rparr>"
proof -
  let ?sg = "getLastSegment text"
  let ?g = "parseMultiValue tip ?sg"
  obtain type where f: "seg_filter ?sg = Some f" and rs: "getFilterSuggestionsByType tip type ?sg ctx = Inr rs"
    using active_filter [OF assms(1)] assms(4) by (metis option.inject)
  obtain v where v: "seg_value ?sg = Some v" "\<forall>c \<in> set v. \<not> js_space c"
    using last_segment_value [OF refl f] by blast
  obtain w where w: "parseWord w = ?sg" using last_segment_word [OF refl f] by blast
  have g: "sug_prefix ?g = seg_prefix ?sg" "sug_filter ?g = f"
    by (simp_all add: parseMultiValue_def f Let_def split: option.split)
  have name: "sg_name r = seg_prefix ?sg @ f @ CHR '':'' # (sug_value_prefix ?g @ t)"
    using named_suggestions [OF rs assms(2)] assms(3) g by (simp add: named_by_def buildSuggestionName_def)
  have parsed: "parseWord (sg_name r) = ?sg\<lparr>seg_word := sg_name r, seg_value := Some (sug_value_prefix ?g @ t)\<rparr>"
    using parseWord_value [OF w f] by (simp only: name)
  have "parseMultiValue tip (parseWord (sg_name r)) = ?g\<lparr>sug_search := t\<rparr>"
  proof (cases "tip_delimiters tip")
    case None
    then show ?thesis unfolding parsed by (simp add: parseMultiValue_def)
  next
    case (Some ds)
    then show ?thesis unfolding parsed
      using parseMultiValue_again [OF v assms(5) Some] assms(6) by simp
  qed
  then show ?thesis using parsed f by simp
qed


definition by_tip :: filter_tip where
  "by_tip = \<lparr>tip_name = ''created-by:'', tip_alias = None, tip_description = Some ''Author'',
     tip_priority = None, tip_type = Some ''username_group_list'', tip_prefixes = None,
     tip_delimiters = Some [\<lparr>e_name = '','', e_description = None\<rparr>], tip_extra_entries = None\<rparr>"

definition sample_ctx :: "(string \<times> string option) list \<Rightarrow> filter_context" where
  "sample_ctx us = \<lparr>ctx_categories = [], ctx_answers = \<lparr>ans_tags = None, ans_users = Some us, ans_groups = None\<rparr>,
     ctx_translate = id, ctx_compare = (\<lambda>a b. 0)\<rparr>"

lemma chosen_suggestion_parses_witness:
  "seg_filter (parseWord ''created-by:sam,kim'') = Some ''created-by'' \<and>
   getSuggestions ''created-by:sam,k'' [by_tip] (sample_ctx [(''kim'', None), (''Sam'', None)]) =
     Inr ([value_suggestion ''created-by:sam,kim'' (Some []) ''kim''\<lparr>sg_delimiters := tip_delimiters by_tip\<rparr>],
       Some ''created-by'')" (is "_ \<and> ?s = ?rs")
proof -
  have s: "?s = ?rs" by code_simp
  show ?thesis
    using chosen_suggestion_parses [OF s, of "value_suggestion ''created-by:sam,kim'' (Some []) ''kim''
        \<lparr>sg_delimiters := tip_delimiters by_tip\<rparr>" "''kim''" by_tip] s
    by (simp add: value_suggestion_def by_tip_def findTipForFilter_def drop_colon_def suffix_to_prefix
        js_space_def Let_def)
qed

section \<open>Values chosen before\<close>

lemma prepared_unused:
  assumes "tip_delimiters (sug_tip g) = Some ds" "r \<in> set (prepareDelimiterSuggestions g rs)" "sg_term r = Some t"
    "ds \<noteq> []"
  shows "lower t \<notin> set (used_terms g)"
  using assms by (auto simp: prepareDelimiterSuggestions_def term_or_empty_def Let_def split: if_splits)

text \<open>
  Among tags, users, groups and lists of both, a value that was chosen before is not
  suggested again, in whatever case it is written.
\<close>

theorem chosen_not_suggested:
  assumes "getFilterSuggestionsByType tip type sg ctx = Inr rs" "r \<in> set rs" "sg_term r = Some t"
    and "type \<in> {''tag'', ''username'', ''group'', ''username_group_list''}"
    and "tip_delimiters tip = Some ds" "ds \<noteq> []" "p \<in> set (sug_previous (parseMultiValue tip sg))"
  shows "lower t \<noteq> lower p"
proof -
  let ?g = "parseMultiValue tip sg"
  have ds: "tip_delimiters (sug_tip ?g) = Some ds"
    using assms(5) by (simp add: parseMultiValue_def Let_def)
  have "\<exists>xs. r \<in> set (prepareDelimiterSuggestions ?g xs)"
    using assms(1,2,4)
    by (auto simp: getFilterSuggestionsByType_def getTagSuggestions_def getUserSuggestions_def
        getGroupSuggestions_def getUsernameGroupListSuggestions_def Let_def
        split: option.splits if_splits sum.splits dest!: in_set_takeD)
  then show ?thesis using prepared_unused [OF ds _ assms(3,6)] assms(7) by (auto simp: used_terms_def)
qed

text \<open>
  In a list of users and groups with delimiters, a search for the exact name of a user makes
  the list throw: the suggestion of the delimiter has no term for the comparison.
\<close>

theorem exact_name_throws:
  assumes "tip_delimiters (sug_tip g) = Some ds" "ds \<noteq> []" "sug_search g \<noteq> []"
    and "ans_users ans = Some us" "(name, full) \<in> set us" "lower name = lower (sug_search g)"
    and "lower name \<notin> set (used_terms g)"
  shows "getUsernameGroupListSuggestions g ans = Inl (TypeError ''Cannot read properties of undefined'')"
proof (cases "extra_suggestions g")
  case (Inl err)
  then have "err = TypeError ''Cannot read properties of undefined''"
    by (auto simp: extra_suggestions_def Let_def split: option.splits if_splits)
  then show ?thesis using Inl by (simp add: getUsernameGroupListSuggestions_def)
next
  case (Inr extra)
  obtain rs where rs: "rs = extra @ map (user_suggestion g) (unused g (ans_users ans)) @
      map (group_suggestion g) (unused g (ans_groups ans))" by simp
  let ?rs = "filter (\<lambda>r. lower (term_or_empty r) \<notin> set (used_terms g)) (map (\<lambda>r. r\<lparr>sg_delimiters := Some ds\<rparr>) rs)"
  have "user_suggestion g (name, full) \<in> set rs"
    using assms(4,5,7) by (force simp: rs unused_def)
  then have "(user_suggestion g (name, full))\<lparr>sg_delimiters := Some ds\<rparr> \<in> set ?rs"
    using assms(7) imageI [of _ "set rs" "sg_delimiters_update (\<lambda>_. Some ds)"]
    by (force simp: term_or_empty_def user_suggestion_def value_suggestion_def)
  moreover have "lower (term_or_empty ((user_suggestion g (name, full))\<lparr>sg_delimiters := Some ds\<rparr>)) = lower (sug_search g)"
    using assms(6) by (simp add: term_or_empty_def user_suggestion_def value_suggestion_def)
  ultimately obtain x where x: "x \<in> set ?rs" "lower (term_or_empty x) = lower (sug_search g)" by blast
  then have hit: "list_ex (\<lambda>r. lower (term_or_empty r) = lower (sug_search g)) ?rs" "?rs \<noteq> []"
    unfolding list_ex_iff by (blast, metis empty_iff list.set(1))
  obtain d ds' where ds: "ds = d # ds'" using assms(2) by (cases ds) auto
  have low: "lower (sug_search g) \<noteq> []" using assms(3) by (simp add: lower_def)
  let ?all = "prepareDelimiterSuggestions g rs"
  have all: "?all = ?rs @ map (\<lambda>d. \<lparr>sg_name = buildSuggestionName g (sug_search g @ e_name d),
      sg_description = e_description d, sg_term = None, sg_is = True, sg_delimiters = Some ds, sg_tip = None\<rparr>) ds"
    using hit(1) assms(1,2) low by (simp add: prepareDelimiterSuggestions_def Let_def)
  have "2 \<le> length ?all" "list_ex (\<lambda>r. sg_term r = None) ?all"
    using hit(2) by (cases ?rs; simp add: all ds)+
  then show ?thesis by (simp add: getUsernameGroupListSuggestions_def Inr rs [symmetric] Let_def)
qed


lemma chosen_not_suggested_witness:
  "lower ''kim'' \<noteq> lower ''sam'' \<and>
   getFilterSuggestionsByType by_tip ''username_group_list'' (getLastSegment ''created-by:sam,k'')
     (sample_ctx [(''kim'', None), (''Sam'', None)]) =
     Inr [value_suggestion ''created-by:sam,kim'' (Some []) ''kim''\<lparr>sg_delimiters := tip_delimiters by_tip\<rparr>]"
  (is "_ \<and> ?s = ?rs")
proof -
  have s: "?s = ?rs" by code_simp
  have p: "''sam'' \<in> set (sug_previous (parseMultiValue by_tip (getLastSegment ''created-by:sam,k'')))"
    by code_simp
  show ?thesis
    using chosen_not_suggested [OF s, of "value_suggestion ''created-by:sam,kim'' (Some []) ''kim''
        \<lparr>sg_delimiters := tip_delimiters by_tip\<rparr>" "''kim''", OF _ _ _ _ _ p] s
    by (simp add: value_suggestion_def by_tip_def)
qed

lemma exact_name_throws_witness:
  "getSuggestions ''created-by:sam'' [by_tip] (sample_ctx [(''sam'', None)]) =
     Inl (TypeError ''Cannot read properties of undefined'')"
proof -
  let ?g = "parseMultiValue by_tip (getLastSegment ''created-by:sam'')"
  have g: "tip_delimiters (sug_tip ?g) = Some [\<lparr>e_name = '','', e_description = None\<rparr>] \<and>
      sug_search ?g = ''sam'' \<and> sug_previous ?g = []" by code_simp
  have "getUsernameGroupListSuggestions ?g (ctx_answers (sample_ctx [(''sam'', None)])) =
      Inl (TypeError ''Cannot read properties of undefined'')"
    by (rule exact_name_throws [where us = "[(''sam'', None)]" and name = "''sam''" and full = None])
      (auto simp: g sample_ctx_def used_terms_def)
  moreover have "seg_filter (getLastSegment ''created-by:sam'') = Some ''created-by'' \<and>
      seg_colon (getLastSegment ''created-by:sam'') \<and> seg_word (getLastSegment ''created-by:sam'') \<noteq> [] \<and>
      findTipForFilter ''created-by'' [by_tip] = Some by_tip" by code_simp
  ultimately show ?thesis
    by (simp add: getSuggestions_def getFilterSuggestionsByType_def by_tip_def Let_def)
qed

section \<open>Tips\<close>

lemma collect_length:
  assumes "\<forall>t \<in> set ts. \<forall>ps. tip_prefixes t = Some ps \<longrightarrow> length ps \<le> n"
    and "length filtered \<le> MAX_RESULTS + n"
  shows "length (collect_tips search pre ts filtered) \<le> MAX_RESULTS + n"
  using assms
proof (induction search pre ts filtered rule: collect_tips.induct)
  case (2 search pre t ts filtered)
  have "length (tip_entries pre t) \<le> n + 1"
    using 2(2) by (auto simp: tip_entries_def split: option.split)
  then show ?case using 2 by auto
qed simp

lemma starts_first_le:
  "starts_first search a b \<le> 0 \<longleftrightarrow>
     (prefix search (lower (sg_name a)) \<and> \<not> prefix search (lower (sg_name b)) \<or>
      prefix search (lower (sg_name a)) = prefix search (lower (sg_name b)) \<and> length (sg_name a) \<le> length (sg_name b))"
  by (auto simp: starts_first_def Let_def)

text \<open>
  The tips that match what is typed come first when they start with it, then by length; at
  most twenty are collected, with the prefixes of the last one.
\<close>

theorem tips_ordered_and_bounded:
  assumes "\<forall>t \<in> set tips. \<forall>ps. tip_prefixes t = Some ps \<longrightarrow> length ps \<le> n"
  shows "\<exists>search. sorted_wrt (\<lambda>a b. prefix search (lower (sg_name a)) \<and> \<not> prefix search (lower (sg_name b)) \<or>
        prefix search (lower (sg_name a)) = prefix search (lower (sg_name b)) \<and> length (sg_name a) \<le> length (sg_name b))
      (filterTips tips trm pre) \<and> length (filterTips tips trm pre) \<le> MAX_RESULTS + n"
proof -
  let ?search = "if pre \<noteq> [] then replace_first pre [] (lower trm) else lower trm"
  have "sorted_wrt (\<lambda>a b. starts_first ?search a b \<le> 0) (filterTips tips trm pre)"
    unfolding filterTips_def Let_def by (rule js_sort_sorted) (auto simp: starts_first_le)
  then show ?thesis
    using collect_length [OF assms, of "[]" ?search pre]
    by (intro exI [of _ ?search]) (simp add: starts_first_le filterTips_def Let_def)
qed

lemma tips_ordered_and_bounded_witness: "length (filterTips [by_tip] ''by'' []) \<le> MAX_RESULTS + 0"
  using tips_ordered_and_bounded [of "[by_tip]" 0 "''by''" "[]"] by (simp add: by_tip_def)

text \<open>
  Whatever is typed among the keys of the translations of the periods matches: the names of the
  keys have a part \<open>days\<close> that does not exist, so that the text is the missing-translation text.
\<close>

lemma missing_days_match:
  assumes "\<And>k. tr (''filter.description.days.'' @ k) = ''[en.filter.description.days.'' @ k @ '']''"
    and "sug_search g = ''days''"
  shows "length (getDateSuggestions tr g) = 4"
  using assms by (simp add: getDateSuggestions_def date_options_def lower_def lower_char_def is_upper_def)

end
