(* ===== verification/UserSearch.thy ===== *)
theory UserSearch
  imports EmailAddress ObjectTools
begin

text \<open>
  \<open>lib/user-search.js\<close>: searching users and groups while a name is typed.

  A search makes a promise, waits until nothing more was typed, asks the server unless the answer
  is cached, and resolves the promise with the results in order of their match. The state holds the
  module's variables, the search that waits, the requests on their way, the timers that cancel a
  search after five seconds, and what the promises were resolved with; a promise is its number.
\<close>

section \<open>Options and results\<close>

text \<open>
  \<open>so_flags\<close> are the options that are passed on to the request under their names there,
  \<open>so_custom\<close> the custom ones.
\<close>

record search_opts =
  so_term :: "string option"
  so_topicId :: "int option"
  so_categoryId :: "int option"
  so_allowEmails :: bool
  so_lastSeenUsers :: bool
  so_exclude :: "string list"
  so_limit :: "nat option"
  so_flags :: jobj
  so_custom :: jobj

record search_result =
  r_users :: "(string \<times> string option) list"
  r_groups :: "string list"
  r_emails :: "string list"

datatype found = Cancelled | Found search_result

datatype search_item = UserItem string "string option" bool | EmailItem string | GroupItem string

datatype outcome = Cancelled_status | Results "search_item list"

definition opt_term :: "search_opts \<Rightarrow> string" where
  "opt_term opts = (case so_term opts of Some t \<Rightarrow> t | None \<Rightarrow> [])"

definition opt_limit :: "search_opts \<Rightarrow> nat" where
  "opt_limit opts = (case so_limit opts of Some l \<Rightarrow> if l \<noteq> 0 then l else 6 | None \<Rightarrow> 6)"

section \<open>Ordering the results\<close>

definition lowerCaseIncludes :: "string option \<Rightarrow> string option \<Rightarrow> bool" where
  "lowerCaseIncludes s t =
     (case (s, t) of
        (Some s, Some t) \<Rightarrow> s \<noteq> [] \<and> t \<noteq> [] \<and> contains (lower t) (lower s)
      | _ \<Rightarrow> False)"

text \<open>The first word of the trimmed term.\<close>

definition first_word :: "string option \<Rightarrow> string option" where
  "first_word t = map_option (\<lambda>t. takeWhile (\<lambda>c. \<not> js_space c) (trim t)) t"

definition same_lower :: "string option \<Rightarrow> string option \<Rightarrow> bool" where
  "same_lower s t \<longleftrightarrow> map_option lower s = map_option lower t"

definition is_metadata :: "string option \<Rightarrow> string \<times> string option \<Rightarrow> bool" where
  "is_metadata t = (\<lambda>(username, name). \<not> lowerCaseIncludes (Some username) t \<and> \<not> lowerCaseIncludes name t)"

definition user_item :: "string option \<Rightarrow> string \<times> string option \<Rightarrow> search_item" where
  "user_item t u = UserItem (fst u) (snd u) (is_metadata t u)"

definition exact_users :: "string option \<Rightarrow> (string \<times> string option) list \<Rightarrow> (string \<times> string option) list" where
  "exact_users t us = filter (\<lambda>u. same_lower (Some (fst u)) t) us"

definition partial_users :: "string option \<Rightarrow> (string \<times> string option) list \<Rightarrow> (string \<times> string option) list" where
  "partial_users t us = filter (\<lambda>u. \<not> (fst u \<in> fst ` set (exact_users t us) \<or> is_metadata t u \<or>
     \<not> lowerCaseIncludes (Some (fst u)) t)) us"

definition exact_name_users :: "string option \<Rightarrow> (string \<times> string option) list \<Rightarrow> (string \<times> string option) list" where
  "exact_name_users t us = filter (\<lambda>u. \<not> (fst u \<in> fst ` set (exact_users t us) \<or>
     fst u \<in> fst ` set (partial_users t us) \<or> \<not> same_lower (snd u) t \<or> is_metadata t u)) us"

definition partial_name_users :: "string option \<Rightarrow> (string \<times> string option) list \<Rightarrow> (string \<times> string option) list" where
  "partial_name_users t us = filter (\<lambda>u. fst u \<notin> fst ` set (exact_users t us) \<and>
     fst u \<notin> fst ` set (partial_users t us) \<and> fst u \<notin> fst ` set (exact_name_users t us) \<and>
     lowerCaseIncludes (snd u) t \<and> \<not> is_metadata t u) us"

definition exact_groups :: "string option \<Rightarrow> string list \<Rightarrow> string list" where
  "exact_groups t gs = filter (\<lambda>g. same_lower (Some g) t) gs"

definition partial_groups :: "string option \<Rightarrow> string list \<Rightarrow> string list" where
  "partial_groups t gs = filter (\<lambda>g. t = None \<or> t = Some [] \<or>
     g \<notin> set (exact_groups t gs) \<and> lowerCaseIncludes (Some g) t) gs"

definition prioritized :: "search_opts \<Rightarrow> search_result \<Rightarrow> search_item list" where
  "prioritized opts r =
     (let t = first_word (so_term opts);
          us = filter (\<lambda>u. fst u \<notin> set (so_exclude opts)) (r_users r);
          gs = filter (\<lambda>g. g \<notin> set (so_exclude opts)) (r_groups r);
          emails = (if so_allowEmails opts \<and> emailValid (opt_term opts) then [EmailItem (opt_term opts)] else [])
      in map (user_item t) (exact_users t us) @ map GroupItem (exact_groups t gs) @ emails @
         map (user_item t) (partial_users t us) @ map GroupItem (partial_groups t gs) @
         map (user_item t) (exact_name_users t us) @ map (user_item t) (partial_name_users t us) @
         map (user_item t) (filter (is_metadata t) us))"

definition organizeResults :: "search_opts \<Rightarrow> found \<Rightarrow> outcome" where
  "organizeResults opts r =
     (case r of Cancelled \<Rightarrow> Cancelled_status
      | Found r \<Rightarrow> Results (take (opt_limit opts) (prioritized opts r)))"

section \<open>Terms that are not searched\<close>

definition ignored_char :: "char \<Rightarrow> bool" where
  "ignored_char c \<longleftrightarrow> c \<in> set ''!\"#$%&()*,/:;<=>?[]^`{|}~'' \<or> c = CHR 0x27 \<or> c = CHR 0x5C"

fun double_space :: "string \<Rightarrow> bool" where
  "double_space (a # b # s) = (js_space a \<and> js_space b \<or> double_space (b # s))"
| "double_space _ = False"

text \<open>\<open>/^[^+]*\+[^@]*$/\<close>: a plus sign without an at sign behind the first one.\<close>

definition plus_word :: "string \<Rightarrow> bool" where
  "plus_word t \<longleftrightarrow> CHR ''+'' \<in> set t \<and> CHR ''@'' \<notin> set (dropWhile (\<lambda>c. c \<noteq> CHR ''+'') t)"

definition ignoreRegex :: "string \<Rightarrow> bool" where
  "ignoreRegex t \<longleftrightarrow> list_ex ignored_char t \<or> double_space t \<or>
     (case t of [c] \<Rightarrow> js_space c | _ \<Rightarrow> False) \<or> plus_word t"

definition skipSearch :: "string \<Rightarrow> bool \<Rightarrow> bool \<Rightarrow> bool" where
  "skipSearch t allowEmails lastSeenUsers =
     (if lastSeenUsers then False
      else if CHR ''@'' \<in> set t \<and> \<not> allowEmails then True
      else ignoreRegex t)"

definition scoped :: "search_opts \<Rightarrow> bool" where
  "scoped opts \<longleftrightarrow> so_topicId opts \<notin> {None, Some 0} \<or> so_categoryId opts \<notin> {None, Some 0}"

definition eagerCompleteSearch :: "string \<Rightarrow> bool \<Rightarrow> bool" where
  "eagerCompleteSearch t scopedId \<longleftrightarrow> t = [] \<and> scopedId"

section \<open>State\<close>

record search_request =
  rq_opts :: search_opts
  rq_promise :: nat
  rq_eager :: bool

record search_state =
  cache :: "(string, found) omap"
  cacheKey :: "string option"
  cacheTime :: "int option"
  currentTerm :: "string option"
  oldSearch :: "nat option"
  waiting :: "(search_opts \<times> nat) option"
  requests :: "(nat, search_request) omap"
  aborted :: "nat list"
  clear_timers :: "nat list"
  resolved :: "(nat, outcome) omap"
  next_number :: nat

definition resetUserSearchCache :: "search_state \<Rightarrow> search_state" where
  "resetUserSearchCache s =
     s\<lparr>cache := [], cacheKey := None, cacheTime := None, currentTerm := None, oldSearch := None\<rparr>"

definition search_start :: search_state where
  "search_start = \<lparr>cache = [], cacheKey = None, cacheTime = None, currentTerm = None, oldSearch = None,
     waiting = None, requests = [], aborted = [], clear_timers = [], resolved = [], next_number = 0\<rparr>"

text \<open>A promise keeps the first value it is resolved with.\<close>

definition resolve_promise :: "nat \<Rightarrow> outcome \<Rightarrow> search_state \<Rightarrow> search_state" where
  "resolve_promise p v s =
     (case om_get (resolved s) p of Some _ \<Rightarrow> s | None \<Rightarrow> s\<lparr>resolved := om_set p v (resolved s)\<rparr>)"

text \<open>The function given to \<open>debouncedSearch\<close>.\<close>

definition resultsFn :: "search_opts \<Rightarrow> nat \<Rightarrow> found \<Rightarrow> search_state \<Rightarrow> search_state" where
  "resultsFn opts p r s =
     resolve_promise p (organizeResults opts r) (s\<lparr>clear_timers := filter (\<lambda>q. q \<noteq> p) (clear_timers s)\<rparr>)"

text \<open>\<open>camelCaseToSnakeCase\<close> of \<open>lib/case-converter.js\<close>.\<close>

fun mark_humps :: "string \<Rightarrow> string" where
  "mark_humps (a # b # s) = (if is_alpha a \<and> is_upper b then a # CHR ''_'' # mark_humps (b # s) else a # mark_humps (b # s))"
| "mark_humps s = s"

definition camelCaseToSnakeCase :: "string \<Rightarrow> string" where
  "camelCaseToSnakeCase s = lower (mark_humps s)"

definition int_or_undef :: "int option \<Rightarrow> jsval" where
  "int_or_undef i = (case i of Some i \<Rightarrow> JNum i | None \<Rightarrow> JUndef)"

definition request_data :: "search_opts \<Rightarrow> jobj" where
  "request_data opts =
     assign (assign [(''term'', JStr (opt_term opts)), (''topic_id'', int_or_undef (so_topicId opts)),
         (''category_id'', int_or_undef (so_categoryId opts)), (''limit'', JNum (int (opt_limit opts)))]
       (so_flags opts))
       (map (\<lambda>(k, v). (camelCaseToSnakeCase k, v)) (so_custom opts))"

text \<open>
  The cache is a plain object: a term that names a method of \<open>Object.prototype\<close> finds that method,
  and \<open>cloneJSON\<close> of a function throws; \<open>__proto__\<close> finds an object without results.
\<close>

definition inherited_methods :: "string list" where
  "inherited_methods = [''constructor'', ''hasOwnProperty'', ''isPrototypeOf'', ''propertyIsEnumerable'',
     ''toLocaleString'', ''toString'', ''valueOf'', ''__defineGetter__'', ''__defineSetter__'',
     ''__lookupGetter__'', ''__lookupSetter__'']"

datatype cache_entry = Absent | Entry found | Method

definition cached :: "string \<Rightarrow> search_state \<Rightarrow> cache_entry" where
  "cached t s =
     (case om_get (cache s) t of
        Some r \<Rightarrow> Entry r
      | None \<Rightarrow> if t \<in> set inherited_methods then Method
               else if t = ''__proto__'' then Entry (Found \<lparr>r_users = [], r_groups = [], r_emails = []\<rparr>)
               else Absent)"

definition performSearch :: "search_opts \<Rightarrow> nat \<Rightarrow> search_state \<Rightarrow> unit result \<times> search_state" where
  "performSearch opts p s =
     (case cached (opt_term opts) s of
        Entry r \<Rightarrow> (Inr (), resultsFn opts p r s)
      | Method \<Rightarrow> (Inl (Error ''SyntaxError''), s)
      | Absent \<Rightarrow>
          (let eager = eagerCompleteSearch (opt_term opts) (scoped opts)
           in if opt_term opts = [] \<and> \<not> eager \<and> \<not> so_lastSeenUsers opts
              then (Inr (), resultsFn opts p Cancelled s)
              else (Inr (), s\<lparr>requests := om_set (next_number s)
                                \<lparr>rq_opts = opts, rq_promise = p, rq_eager = eager\<rparr> (requests s),
                              oldSearch := Some (next_number s), next_number := next_number s + 1\<rparr>)))"

definition hasResults :: "search_result \<Rightarrow> bool" where
  "hasResults r \<longleftrightarrow> r_users r \<noteq> [] \<or> r_groups r \<noteq> [] \<or> r_emails r \<noteq> []"

text \<open>The answer to a request: \<open>Some r\<close>, or \<open>None\<close> when it failed or was aborted.\<close>

definition search_answered :: "int \<Rightarrow> nat \<Rightarrow> search_result option \<Rightarrow> search_state \<Rightarrow> search_state" where
  "search_answered now n answer s =
     (case om_get (requests s) n of
        None \<Rightarrow> s
      | Some rq \<Rightarrow>
          (let t = opt_term (rq_opts rq);
               s0 = s\<lparr>requests := om_delete n (requests s)\<rparr>
           in case (if n \<in> set (aborted s) then None else answer) of
                Some r \<Rightarrow>
                  (let r' = (if rq_eager rq \<and> \<not> hasResults r then Cancelled else Found r);
                       s1 = s0\<lparr>cache := om_set t r' (cache s0), cacheTime := Some now\<rparr>;
                       returnVal = (if currentTerm s1 = Some t then r' else Cancelled)
                   in resultsFn (rq_opts rq) (rq_promise rq) returnVal (s1\<lparr>oldSearch := None\<rparr>))
              | None \<Rightarrow> resultsFn (rq_opts rq) (rq_promise rq) Cancelled (s0\<lparr>oldSearch := None\<rparr>)))"

definition id_text :: "int option \<Rightarrow> string" where
  "id_text i = (case i of Some i \<Rightarrow> show_int i | None \<Rightarrow> ''undefined'')"

definition strip_at :: "search_opts \<Rightarrow> search_opts" where
  "strip_at opts = (case so_term opts of
     Some (c # t) \<Rightarrow> if c = CHR ''@'' then opts\<lparr>so_term := Some t\<rparr> else opts | _ \<Rightarrow> opts)"

text \<open>\<open>userSearch\<close>: the number of the promise is the next number of the state.\<close>

definition userSearch :: "int \<Rightarrow> search_opts \<Rightarrow> search_state \<Rightarrow> search_state" where
  "userSearch now given s =
     (let opts = strip_at given;
          t = opt_term opts;
          p = next_number s;
          key = id_text (so_topicId opts) @ ''-'' @ id_text (so_categoryId opts);
          s1 = (case oldSearch s of
                  Some n \<Rightarrow> s\<lparr>aborted := n # aborted s, oldSearch := None\<rparr> | None \<Rightarrow> s);
          stale = now - (case cacheTime s1 of Some c \<Rightarrow> c | None \<Rightarrow> 0) > 30000 \<or> cacheKey s1 \<noteq> Some key;
          s2 = s1\<lparr>currentTerm := Some t, next_number := p + 1,
                  cache := (if stale then [] else cache s1), cacheKey := Some key,
                  clear_timers := p # clear_timers s1\<rparr>
      in if skipSearch t (so_allowEmails opts) (so_lastSeenUsers opts)
         then resolve_promise p (Results []) s2
         else s2\<lparr>waiting := Some (opts, p)\<rparr>)"

text \<open>Nothing was typed for 300 ms; the timer of a search after 5 s.\<close>

definition search_fires :: "search_state \<Rightarrow> search_state" where
  "search_fires s =
     (case waiting s of
        Some (opts, p) \<Rightarrow> snd (performSearch opts p (s\<lparr>waiting := None\<rparr>))
      | None \<Rightarrow> s)"

definition clear_fires :: "nat \<Rightarrow> search_state \<Rightarrow> search_state" where
  "clear_fires p s =
     (if p \<in> set (clear_timers s)
      then resolve_promise p Cancelled_status (s\<lparr>clear_timers := filter (\<lambda>q. q \<noteq> p) (clear_timers s)\<rparr>)
      else s)"

text \<open>\<open>validateSearchResult\<close>: an item with an empty name throws.\<close>

definition validateSearchResult :: "(string \<Rightarrow> string) \<Rightarrow> search_item \<Rightarrow> bool result" where
  "validateSearchResult tr x =
     (case x of
        UserItem username name m \<Rightarrow> if username = [] then Inl (Error (tr ''composer.autocomplete.username_missing'')) else Inr True
      | EmailItem username \<Rightarrow> if username = [] then Inl (Error (tr ''composer.autocomplete.username_missing'')) else Inr True
      | GroupItem name \<Rightarrow> if name = [] then Inl (Error (tr ''composer.autocomplete.name_missing'')) else Inr True)"

end
