(* ===== verification/UserSearchProofs.thy ===== *)
theory UserSearchProofs
  imports UserSearch "HOL-Library.Multiset"
begin

text \<open>
  What a search promises: every match is listed once, a promise is only resolved with results for
  its own term, and each is resolved or will be by its timer.
\<close>

section \<open>Every match once\<close>

lemma filter_key: "distinct (map fst us) \<Longrightarrow> u \<in> set us \<Longrightarrow> fst u \<in> fst ` set (filter P us) \<longleftrightarrow> P u"
  by (force simp: distinct_map dest: inj_onD)

lemma contains_refl: "contains s s"
  by (simp add: contains_sublist)

lemma exact_includes: "u \<noteq> [] \<Longrightarrow> same_lower (Some u) t \<Longrightarrow> lowerCaseIncludes (Some u) t"
  using contains_refl by (cases t) (auto simp: same_lower_def lowerCaseIncludes_def lower_def)

lemma partition_five:
  assumes "\<forall>u \<in> set us. (if A u then 1 else 0) + (if B u then 1 else 0) + (if C u then 1 else 0) +
      (if D u then 1 else 0) + (if E u then 1 else (0::nat)) = 1"
  shows "mset (filter A us) + mset (filter B us) + mset (filter C us) + mset (filter D us) + mset (filter E us) = mset us"
  using assms by (induction us) (auto split: if_splits)

definition group_matches :: "string option \<Rightarrow> string \<Rightarrow> bool" where
  "group_matches t g \<longleftrightarrow> t = None \<or> t = Some [] \<or> lowerCaseIncludes (Some g) t"

lemma users_partition:
  assumes "distinct (map fst us)" "\<forall>u \<in> set us. fst u \<noteq> []"
  shows "mset (exact_users t us) + mset (partial_users t us) + mset (exact_name_users t us) +
    mset (partial_name_users t us) + mset (filter (is_metadata t) us) = mset us"
proof -
  define E where "E = (\<lambda>u :: string \<times> string option. same_lower (Some (fst u)) t)"
  define N where "N = (\<lambda>u :: string \<times> string option. lowerCaseIncludes (Some (fst u)) t)"
  define F where "F = (\<lambda>u :: string \<times> string option. lowerCaseIncludes (snd u) t)"
  define G where "G = (\<lambda>u :: string \<times> string option. same_lower (snd u) t)"
  have fold: "same_lower (Some (fst u)) t = E u" "lowerCaseIncludes (Some (fst u)) t = N u"
    "lowerCaseIncludes (snd u) t = F u" "same_lower (snd u) t = G u" for u :: "string \<times> string option"
    by (simp_all add: E_def N_def F_def G_def)
  have md: "is_metadata t u \<longleftrightarrow> \<not> N u \<and> \<not> F u" for u
    by (simp add: is_metadata_def N_def F_def split_def)
  note mem = filter_key [OF assms(1)]
  have e: "exact_users t us = filter E us" by (simp add: exact_users_def E_def)
  have p: "partial_users t us = filter (\<lambda>u. \<not> E u \<and> N u) us"
    unfolding partial_users_def e by (rule filter_cong [OF refl]) (simp only: mem md fold, blast)
  have n: "exact_name_users t us = filter (\<lambda>u. \<not> E u \<and> \<not> N u \<and> G u \<and> F u) us"
    unfolding exact_name_users_def e p by (rule filter_cong [OF refl]) (simp only: mem md fold, blast)
  have q: "partial_name_users t us = filter (\<lambda>u. \<not> E u \<and> \<not> N u \<and> \<not> (G u \<and> F u) \<and> F u) us"
    unfolding partial_name_users_def e p n by (rule filter_cong [OF refl]) (simp only: mem md fold, blast)
  have "E u \<Longrightarrow> N u" if "u \<in> set us" for u
    using assms(2) that exact_includes by (simp add: E_def N_def)
  then show ?thesis
    unfolding e p n q by (intro partition_five) (auto simp: md)
qed

lemma groups_partition:
  assumes "\<forall>g \<in> set gs. g \<noteq> []"
  shows "mset (exact_groups t gs) + mset (partial_groups t gs) = mset (filter (group_matches t) gs)"
proof -
  have "exact_groups t gs = filter (\<lambda>g. same_lower (Some g) t) gs" by (simp add: exact_groups_def)
  moreover have "partial_groups t gs = filter (\<lambda>g. group_matches t g \<and> \<not> same_lower (Some g) t) gs"
    unfolding partial_groups_def using assms
    by (intro filter_cong) (auto simp: group_matches_def exact_groups_def same_lower_def lower_def)
  moreover have "mset (filter P xs) + mset (filter (\<lambda>g. Q g \<and> \<not> P g) xs) = mset (filter Q xs)"
    if "\<forall>g \<in> set xs. P g \<longrightarrow> Q g" for P Q and xs :: "string list"
    using that by (induction xs) auto
  moreover have "\<forall>g \<in> set gs. same_lower (Some g) t \<longrightarrow> group_matches t g"
    using assms exact_includes by (simp add: group_matches_def)
  ultimately show ?thesis by simp
qed

text \<open>
  The results before the limit are every user that is not excluded, the groups whose name
  matches, and the address typed: each exactly once.
\<close>

theorem results_complete:
  assumes "distinct (map fst (r_users r))" "\<forall>u \<in> set (r_users r). fst u \<noteq> []" "\<forall>g \<in> set (r_groups r). g \<noteq> []"
  shows "mset (prioritized opts r) =
    mset (map (user_item (first_word (so_term opts))) (filter (\<lambda>u. fst u \<notin> set (so_exclude opts)) (r_users r))) +
    mset (map GroupItem (filter (group_matches (first_word (so_term opts)))
      (filter (\<lambda>g. g \<notin> set (so_exclude opts)) (r_groups r)))) +
    mset (if so_allowEmails opts \<and> emailValid (opt_term opts) then [EmailItem (opt_term opts)] else [])"
proof -
  let ?t = "first_word (so_term opts)"
  let ?us = "filter (\<lambda>u. fst u \<notin> set (so_exclude opts)) (r_users r)"
  let ?gs = "filter (\<lambda>g. g \<notin> set (so_exclude opts)) (r_groups r)"
  have us: "mset (exact_users ?t ?us) + mset (partial_users ?t ?us) + mset (exact_name_users ?t ?us) +
      mset (partial_name_users ?t ?us) + mset (filter (is_metadata ?t) ?us) = mset ?us"
    using assms(1,2) by (intro users_partition) (auto simp: distinct_map_filter)
  have gs: "mset (exact_groups ?t ?gs) + mset (partial_groups ?t ?gs) = mset (filter (group_matches ?t) ?gs)"
    using assms(3) by (intro groups_partition) simp
  have "mset (prioritized opts r) =
      image_mset (user_item ?t) (mset (exact_users ?t ?us) + mset (partial_users ?t ?us) + mset (exact_name_users ?t ?us) +
        mset (partial_name_users ?t ?us) + mset (filter (is_metadata ?t) ?us)) +
      image_mset GroupItem (mset (exact_groups ?t ?gs) + mset (partial_groups ?t ?gs)) +
      mset (if so_allowEmails opts \<and> emailValid (opt_term opts) then [EmailItem (opt_term opts)] else [])"
    by (simp add: prioritized_def Let_def)
  then show ?thesis unfolding us gs by simp
qed

section \<open>Searches, answers and timers interleaved\<close>

text \<open>
  What is watched beside the state: the options of each promise, and the answers that requests for
  a term received.
\<close>

record search_world =
  the_state :: search_state
  issued :: "nat \<Rightarrow> search_opts option"
  answers_seen :: "(string \<times> search_result) set"

inductive search_step :: "search_world \<Rightarrow> search_world \<Rightarrow> bool" where
  search: "search_step w \<lparr>the_state = userSearch now opts (the_state w),
     issued = (issued w)(next_number (the_state w) := Some (strip_at opts)), answers_seen = answers_seen w\<rparr>"
| fires: "search_step w (w\<lparr>the_state := search_fires (the_state w)\<rparr>)"
| clear: "search_step w (w\<lparr>the_state := clear_fires p (the_state w)\<rparr>)"
| failed: "search_step w (w\<lparr>the_state := search_answered now n None (the_state w)\<rparr>)"
| answered: "om_get (requests (the_state w)) n = Some rq \<Longrightarrow>
    search_step w (w\<lparr>the_state := search_answered now n (Some r) (the_state w),
      answers_seen := insert (opt_term (rq_opts rq), r) (answers_seen w)\<rparr>)"
| forget: "search_step w (w\<lparr>the_state := resetUserSearchCache (the_state w)\<rparr>)"

text \<open>
  A value a promise with these options may have: cancelled; the empty list for a term that is not
  searched; the organized results of an answer for its term; and for the term \<open>__proto__\<close>, which
  the cache object seems to have, those of an answer without users and groups.
\<close>

definition nothing_found :: search_result where
  "nothing_found = \<lparr>r_users = [], r_groups = [], r_emails = []\<rparr>"

definition fair_value :: "(string \<times> search_result) set \<Rightarrow> search_opts \<Rightarrow> outcome \<Rightarrow> bool" where
  "fair_value seen opts v \<longleftrightarrow> v = Cancelled_status \<or>
     v = Results [] \<and> skipSearch (opt_term opts) (so_allowEmails opts) (so_lastSeenUsers opts) \<or>
     (\<exists>r. v = organizeResults opts (Found r) \<and>
        ((opt_term opts, r) \<in> seen \<or> opt_term opts = ''__proto__'' \<and> r = nothing_found))"

type_synonym issued_opts = "nat \<Rightarrow> search_opts option"

definition cache_ok :: "(string \<times> search_result) set \<Rightarrow> search_state \<Rightarrow> bool" where
  "cache_ok seen s \<longleftrightarrow> (\<forall>t r. om_get (cache s) t = Some (Found r) \<longrightarrow> (t, r) \<in> seen)"

definition resolved_ok :: "issued_opts \<Rightarrow> (string \<times> search_result) set \<Rightarrow> search_state \<Rightarrow> bool" where
  "resolved_ok iss seen s \<longleftrightarrow> (\<forall>p v. om_get (resolved s) p = Some v \<longrightarrow>
     (\<exists>opts. iss p = Some opts \<and> fair_value seen opts v))"

definition calls_ok :: "issued_opts \<Rightarrow> search_state \<Rightarrow> bool" where
  "calls_ok iss s \<longleftrightarrow> (\<forall>opts p. waiting s = Some (opts, p) \<longrightarrow> iss p = Some opts) \<and>
     (\<forall>n rq. om_get (requests s) n = Some rq \<longrightarrow> iss (rq_promise rq) = Some (rq_opts rq))"

definition timers_ok :: "issued_opts \<Rightarrow> search_state \<Rightarrow> bool" where
  "timers_ok iss s \<longleftrightarrow> (\<forall>p. iss p \<noteq> None \<longrightarrow> p < next_number s \<and>
     (om_get (resolved s) p \<noteq> None \<or> p \<in> set (clear_timers s))) \<and>
     (\<forall>p \<in> set (clear_timers s). iss p \<noteq> None)"

definition search_inv :: "search_world \<Rightarrow> bool" where
  "search_inv w \<longleftrightarrow> cache_ok (answers_seen w) (the_state w) \<and>
     resolved_ok (issued w) (answers_seen w) (the_state w) \<and>
     calls_ok (issued w) (the_state w) \<and> timers_ok (issued w) (the_state w)"

lemmas parts = cache_ok_def resolved_ok_def calls_ok_def timers_ok_def

lemma fair_mono: "fair_value seen opts v \<Longrightarrow> fair_value (insert a seen) opts v"
  by (auto simp: fair_value_def)

lemma resolve_get: "om_get (resolved (resolve_promise p v s)) q =
    (case om_get (resolved s) q of Some u \<Rightarrow> Some u | None \<Rightarrow> if q = p then Some v else None)"
  by (auto simp: resolve_promise_def split: option.split)

lemma resolve_other [simp]:
  "cache (resolve_promise p v s) = cache s" "waiting (resolve_promise p v s) = waiting s" "requests (resolve_promise p v s) = requests s"
  "next_number (resolve_promise p v s) = next_number s" "clear_timers (resolve_promise p v s) = clear_timers s"
  by (simp_all add: resolve_promise_def split: option.split)

lemma resultsFn_get: "om_get (resolved (resultsFn opts p r s)) q =
    (case om_get (resolved s) q of Some u \<Rightarrow> Some u | None \<Rightarrow> if q = p then Some (organizeResults opts r) else None)"
  by (simp add: resultsFn_def resolve_get)

lemma resultsFn_other [simp]:
  "cache (resultsFn opts p r s) = cache s" "waiting (resultsFn opts p r s) = waiting s"
  "requests (resultsFn opts p r s) = requests s" "next_number (resultsFn opts p r s) = next_number s"
  "clear_timers (resultsFn opts p r s) = filter (\<lambda>q. q \<noteq> p) (clear_timers s)"
  by (simp_all add: resultsFn_def)

text \<open>Resolving a promise with a fair value keeps the invariant.\<close>

lemma resolve_ok:
  assumes "resolved_ok iss seen s" "iss p = Some opts" "fair_value seen opts v"
  shows "resolved_ok iss seen (resolve_promise p v s)"
  unfolding resolved_ok_def
proof (intro allI impI)
  fix q u assume "om_get (resolved (resolve_promise p v s)) q = Some u"
  then have "om_get (resolved s) q = Some u \<or> q = p \<and> u = v"
    by (auto simp: resolve_get split: option.splits if_splits)
  then show "\<exists>opts. iss q = Some opts \<and> fair_value seen opts u"
    using assms unfolding resolved_ok_def by blast
qed

lemma resolve_timers:
  assumes "timers_ok iss s"
  shows "timers_ok iss (resolve_promise p v (s\<lparr>clear_timers := filter (\<lambda>q. q \<noteq> p) (clear_timers s)\<rparr>))"
  using assms by (auto simp: timers_ok_def resolve_get split: option.split)

lemma resolve_timers': "timers_ok iss s \<Longrightarrow> timers_ok iss (resolve_promise p v s)"
  unfolding timers_ok_def by (auto simp: resolve_get split: option.splits)

lemma resultsFn_inv:
  assumes "search_inv w" "issued w p = Some opts"
    and "fair_value (answers_seen w) opts (organizeResults opts r)"
  shows "search_inv (w\<lparr>the_state := resultsFn opts p r (the_state w)\<rparr>)"
proof -
  let ?s = "the_state w\<lparr>clear_timers := filter (\<lambda>q. q \<noteq> p) (clear_timers (the_state w))\<rparr>"
  have "resolved_ok (issued w) (answers_seen w) ?s" using assms(1) by (simp add: search_inv_def resolved_ok_def)
  then show ?thesis
    using assms resolve_ok [where iss = "issued w", OF _ assms(2,3)] resolve_timers [of "issued w" "the_state w" p]
    by (simp add: search_inv_def resultsFn_def cache_ok_def calls_ok_def)
qed

lemma fair_cancelled [simp]: "fair_value seen opts (organizeResults opts Cancelled)"
  by (simp add: fair_value_def organizeResults_def)

lemma cached_fair:
  assumes "cache_ok seen s" "cached (opt_term opts) s = Entry r"
  shows "fair_value seen opts (organizeResults opts r)"
  using assms by (cases r) (auto simp: cached_def cache_ok_def fair_value_def organizeResults_def nothing_found_def
      split: option.splits if_splits)

lemma perform_inv:
  assumes "search_inv w" "issued w p = Some opts"
  shows "search_inv (w\<lparr>the_state := snd (performSearch opts p (the_state w))\<rparr>)"
proof (cases "cached (opt_term opts) (the_state w)")
  case (Entry r)
  have "fair_value (answers_seen w) opts (organizeResults opts r)"
    using assms(1) Entry by (intro cached_fair) (simp_all add: search_inv_def)
  then show ?thesis using resultsFn_inv [OF assms] Entry by (simp add: performSearch_def)
next
  case Method
  then show ?thesis using assms(1) by (simp add: performSearch_def)
next
  case Absent
  let ?s = "the_state w"
  have "calls_ok (issued w) (?s\<lparr>requests := om_set (next_number ?s) \<lparr>rq_opts = opts, rq_promise = p,
        rq_eager = e\<rparr> (requests ?s), oldSearch := x, next_number := m\<rparr>)" for e x m
    using assms by (simp add: search_inv_def calls_ok_def)
  then have "search_inv (w\<lparr>the_state := ?s\<lparr>requests := om_set (next_number ?s) \<lparr>rq_opts = opts, rq_promise = p,
        rq_eager = e\<rparr> (requests ?s), oldSearch := Some (next_number ?s), next_number := next_number ?s + 1\<rparr>\<rparr>)" for e
    using assms(1) by (auto simp: search_inv_def cache_ok_def resolved_ok_def timers_ok_def less_Suc_eq)
  then show ?thesis using Absent resultsFn_inv [OF assms fair_cancelled] by (simp add: performSearch_def Let_def)
qed

lemma fires_inv:
  assumes "search_inv w"
  shows "search_inv (w\<lparr>the_state := search_fires (the_state w)\<rparr>)"
proof (cases "waiting (the_state w)")
  case None
  then show ?thesis using assms by (simp add: search_fires_def)
next
  case (Some x)
  obtain opts p where x: "x = (opts, p)" by force
  have "search_inv (w\<lparr>the_state := the_state w\<lparr>waiting := None\<rparr>\<rparr>)"
    using assms by (simp add: search_inv_def parts)
  moreover have "issued w p = Some opts" using assms Some x by (simp add: search_inv_def calls_ok_def)
  ultimately show ?thesis
    using perform_inv [of "w\<lparr>the_state := the_state w\<lparr>waiting := None\<rparr>\<rparr>" p opts] Some x
    by (simp add: search_fires_def)
qed

lemma clear_inv:
  assumes "search_inv w"
  shows "search_inv (w\<lparr>the_state := clear_fires p (the_state w)\<rparr>)"
proof (cases "p \<in> set (clear_timers (the_state w)) \<and> issued w p \<noteq> None")
  case True
  then obtain opts where p: "issued w p = Some opts" by blast
  let ?s = "the_state w\<lparr>clear_timers := filter (\<lambda>q. q \<noteq> p) (clear_timers (the_state w))\<rparr>"
  have "resolved_ok (issued w) (answers_seen w) ?s" using assms by (simp add: search_inv_def resolved_ok_def)
  then have "resolved_ok (issued w) (answers_seen w) (resolve_promise p Cancelled_status ?s)"
    by (rule resolve_ok [where iss = "issued w", OF _ p]) (simp add: fair_value_def)
  then show ?thesis
    using True assms resolve_timers [of "issued w" "the_state w" p Cancelled_status]
    by (simp add: search_inv_def clear_fires_def cache_ok_def calls_ok_def)
next
  case False
  then show ?thesis
    using assms by (cases "p \<in> set (clear_timers (the_state w))")
      (auto simp: search_inv_def clear_fires_def timers_ok_def)
qed

lemma forget_inv: "search_inv w \<Longrightarrow> search_inv (w\<lparr>the_state := resetUserSearchCache (the_state w)\<rparr>)"
  by (simp add: search_inv_def parts resetUserSearchCache_def)

text \<open>The parts of the state that an answer changes before it resolves the promise.\<close>

lemma inv_requests:
  "search_inv w \<Longrightarrow>
     search_inv (w\<lparr>the_state := (the_state w)\<lparr>requests := om_delete n (requests (the_state w))\<rparr>\<rparr>)"
  by (simp add: search_inv_def parts)

lemma inv_old: "search_inv w \<Longrightarrow> search_inv (w\<lparr>the_state := (the_state w)\<lparr>oldSearch := x\<rparr>\<rparr>)"
  by (simp add: search_inv_def parts)

lemma inv_seen: "search_inv w \<Longrightarrow> search_inv (w\<lparr>answers_seen := insert a (answers_seen w)\<rparr>)"
  by (auto simp: search_inv_def cache_ok_def resolved_ok_def) (metis fair_mono)

lemma inv_cached:
  "search_inv w \<Longrightarrow> (t, r) \<in> answers_seen w \<Longrightarrow>
     search_inv (w\<lparr>the_state := (the_state w)\<lparr>cache := om_set t (if e then Cancelled else Found r) (cache (the_state w)),
       cacheTime := c\<rparr>\<rparr>)"
  by (auto simp: search_inv_def parts)

lemma failed_inv:
  assumes "search_inv w"
  shows "search_inv (w\<lparr>the_state := search_answered now n None (the_state w)\<rparr>)"
proof (cases "om_get (requests (the_state w)) n")
  case None
  then show ?thesis using assms by (simp add: search_answered_def)
next
  case (Some rq)
  let ?w = "w\<lparr>the_state := (the_state w)\<lparr>requests := om_delete n (requests (the_state w)), oldSearch := None\<rparr>\<rparr>"
  have "issued ?w (rq_promise rq) = Some (rq_opts rq)" using assms Some by (simp add: search_inv_def calls_ok_def)
  then have "search_inv (?w\<lparr>the_state := resultsFn (rq_opts rq) (rq_promise rq) Cancelled (the_state ?w)\<rparr>)"
    using inv_old [OF inv_requests [OF assms, of n], of None] resultsFn_inv [of ?w] by simp
  then show ?thesis using Some by (simp add: search_answered_def Let_def)
qed

lemma answered_inv:
  assumes "search_inv w" "om_get (requests (the_state w)) n = Some rq"
  shows "search_inv (w\<lparr>the_state := search_answered now n (Some r) (the_state w),
    answers_seen := insert (opt_term (rq_opts rq), r) (answers_seen w)\<rparr>)"
proof (cases "n \<in> set (aborted (the_state w))")
  case True
  then have "search_answered now n (Some r) (the_state w) = search_answered now n None (the_state w)"
    by (simp add: search_answered_def Let_def split: option.split)
  then show ?thesis using inv_seen [OF failed_inv [OF assms(1)]] by simp
next
  case False
  let ?t = "opt_term (rq_opts rq)" and ?s = "the_state w"
  let ?w = "w\<lparr>answers_seen := insert (?t, r) (answers_seen w)\<rparr>"
  let ?r = "if rq_eager rq \<and> \<not> hasResults r then Cancelled else Found r"
  let ?v = "if currentTerm ?s = Some ?t then ?r else Cancelled"
  let ?w' = "?w\<lparr>the_state := ?s\<lparr>requests := om_delete n (requests ?s),
    cache := om_set ?t ?r (cache ?s), cacheTime := Some now, oldSearch := None\<rparr>\<rparr>"
  have "search_inv (?w\<lparr>the_state := ?s\<lparr>requests := om_delete n (requests ?s)\<rparr>\<rparr>)"
    using inv_requests [OF inv_seen [OF assms(1), of "(?t, r)"], where n = n] by simp
  from inv_old [OF inv_cached [OF this, where t = ?t and r = r and e = "rq_eager rq \<and> \<not> hasResults r"
      and c = "Some now"], where x = None]
  have w': "search_inv ?w'" by simp
  have "issued ?w' (rq_promise rq) = Some (rq_opts rq)" using assms by (simp add: search_inv_def calls_ok_def)
  moreover have "fair_value (answers_seen ?w') (rq_opts rq) (organizeResults (rq_opts rq) ?v)"
    by (auto simp: fair_value_def organizeResults_def)
  ultimately have inv: "search_inv (?w'\<lparr>the_state := resultsFn (rq_opts rq) (rq_promise rq) ?v (the_state ?w')\<rparr>)"
    by (rule resultsFn_inv [OF w'])
  have ans: "search_answered now n (Some r) ?s = resultsFn (rq_opts rq) (rq_promise rq) ?v (the_state ?w')"
    using assms(2) False by (simp add: search_answered_def Let_def)
  have eq: "?w'\<lparr>the_state := x\<rparr> = w\<lparr>the_state := x, answers_seen := insert (?t, r) (answers_seen w)\<rparr>" for x
    by (cases w) simp
  show ?thesis using inv unfolding ans eq .
qed

text \<open>A new search: its promise is fresh.\<close>

lemma fresh_promise:
  assumes "search_inv w" "p = next_number (the_state w)"
  shows "issued w p = None" "om_get (resolved (the_state w)) p = None"
proof -
  show i: "issued w p = None" using assms by (force simp: search_inv_def timers_ok_def)
  then show "om_get (resolved (the_state w)) p = None"
    using assms unfolding search_inv_def resolved_ok_def by (metis not_None_eq)
qed

lemma issue_inv:
  assumes "search_inv w" "p = next_number (the_state w)"
    and "cache s \<in> {[], cache (the_state w)}" "resolved s = resolved (the_state w)"
    "waiting s = waiting (the_state w)" "requests s = requests (the_state w)"
    "next_number s = p + 1" "clear_timers s = p # clear_timers (the_state w)"
  shows "search_inv \<lparr>the_state = s, issued = (issued w)(p := Some opts), answers_seen = answers_seen w\<rparr>"
proof -
  note fresh = fresh_promise [OF assms(1,2)]
  have "resolved_ok ((issued w)(p := Some opts)) (answers_seen w) s"
    using assms(1) fresh unfolding resolved_ok_def search_inv_def assms(4) by (metis fun_upd_apply option.distinct(1))
  moreover have "calls_ok ((issued w)(p := Some opts)) s"
    using assms(1) fresh unfolding calls_ok_def search_inv_def assms(5,6) by (metis fun_upd_apply option.distinct(1))
  moreover have "timers_ok ((issued w)(p := Some opts)) s"
    using assms(1,2) unfolding timers_ok_def search_inv_def assms(4,7,8) by (auto simp: less_Suc_eq)
  moreover have "cache_ok (answers_seen w) s"
    using assms(1,3) by (auto simp: cache_ok_def search_inv_def)
  ultimately show ?thesis by (simp add: search_inv_def)
qed

lemma search_step_inv:
  assumes "search_inv w"
  shows "search_inv \<lparr>the_state = userSearch now opts (the_state w),
     issued = (issued w)(next_number (the_state w) := Some (strip_at opts)), answers_seen = answers_seen w\<rparr>"
proof -
  let ?s = "the_state w" and ?p = "next_number (the_state w)" and ?o = "strip_at opts"
  obtain s2 where us: "userSearch now opts ?s =
      (if skipSearch (opt_term ?o) (so_allowEmails ?o) (so_lastSeenUsers ?o)
       then resolve_promise ?p (Results []) s2 else s2\<lparr>waiting := Some (?o, ?p)\<rparr>)"
    and s2: "cache s2 \<in> {[], cache ?s}" "resolved s2 = resolved ?s" "waiting s2 = waiting ?s"
    "requests s2 = requests ?s" "next_number s2 = ?p + 1" "clear_timers s2 = ?p # clear_timers ?s"
    by (cases "oldSearch ?s") (auto simp: userSearch_def Let_def)
  let ?w = "\<lparr>the_state = s2, issued = (issued w)(?p := Some ?o), answers_seen = answers_seen w\<rparr>"
  have w: "search_inv ?w" by (rule issue_inv [OF assms refl s2])
  have "search_inv (?w\<lparr>the_state := s2\<lparr>waiting := Some (?o, ?p)\<rparr>\<rparr>)"
    using w by (simp add: search_inv_def parts)
  moreover have "search_inv (?w\<lparr>the_state := resolve_promise ?p (Results []) s2\<rparr>)"
    if "skipSearch (opt_term ?o) (so_allowEmails ?o) (so_lastSeenUsers ?o)"
  proof -
    have "resolved_ok (issued ?w) (answers_seen ?w) (resolve_promise ?p (Results []) s2)"
      using w that by (intro resolve_ok [where opts = ?o]) (simp_all add: search_inv_def fair_value_def)
    moreover have "timers_ok (issued ?w) (resolve_promise ?p (Results []) s2)"
      using w resolve_timers' by (simp add: search_inv_def)
    ultimately show ?thesis using w by (simp add: search_inv_def cache_ok_def calls_ok_def)
  qed
  ultimately show ?thesis unfolding us by simp
qed

lemma stale_answer_cancels:
  assumes "om_get (requests s) n = Some rq" and "currentTerm s \<noteq> Some (opt_term (rq_opts rq))"
  shows "om_get (resolved (search_answered now n (Some r) s)) (rq_promise rq) =
    (if om_get (resolved s) (rq_promise rq) = None then Some Cancelled_status
     else om_get (resolved s) (rq_promise rq))"
  using assms by (simp add: search_answered_def Let_def resultsFn_get organizeResults_def split: option.split)

text \<open>
  C11. However searches, answers, failures and timers interleave, a promise is resolved as
  cancelled, or with the organized results of an answer for its own term, never those of another
  (with the empty list when its term is not searched, and like an answer without results for the
  term \<open>__proto__\<close>); one that is not resolved has its timer running. An answer that comes when
  another term is the current one does not reach its promise, which is cancelled.
\<close>

theorem search_results_are_own:
  assumes "search_step\<^sup>*\<^sup>* \<lparr>the_state = search_start, issued = (\<lambda>p. None), answers_seen = {}\<rparr> w"
    and "issued w p = Some opts"
  shows "(case om_get (resolved (the_state w)) p of
      Some v \<Rightarrow> fair_value (answers_seen w) opts v
    | None \<Rightarrow> p \<in> set (clear_timers (the_state w))) \<and>
    (\<forall>n rq now r. om_get (requests (the_state w)) n = Some rq \<and> rq_promise rq = p \<and>
       currentTerm (the_state w) \<noteq> Some (opt_term opts) \<longrightarrow>
       om_get (resolved (search_answered now n (Some r) (the_state w))) p =
         (if om_get (resolved (the_state w)) p = None then Some Cancelled_status
          else om_get (resolved (the_state w)) p))"
proof -
  from assms(1) have inv: "search_inv w"
  proof (induction rule: rtranclp_induct)
    case base
    show ?case by (simp add: search_inv_def parts search_start_def)
  next
    case (step w w')
    from step.hyps(2) step.IH show ?case
      by (cases rule: search_step.cases)
        (simp_all only: search_step_inv fires_inv clear_inv failed_inv answered_inv forget_inv)
  qed
  then have "case om_get (resolved (the_state w)) p of
      Some v \<Rightarrow> fair_value (answers_seen w) opts v
    | None \<Rightarrow> p \<in> set (clear_timers (the_state w))"
    using assms(2) unfolding search_inv_def resolved_ok_def timers_ok_def
    by (cases "om_get (resolved (the_state w)) p") fastforce+
  moreover have "rq_opts rq = opts" if "om_get (requests (the_state w)) n = Some rq" "rq_promise rq = p" for n rq
    using inv that assms(2) by (auto simp: search_inv_def calls_ok_def)
  ultimately show ?thesis
    using stale_answer_cancels by blast
qed

definition sam_opts :: search_opts where
  "sam_opts = \<lparr>so_term = Some ''@sam'', so_topicId = None, so_categoryId = None, so_allowEmails = False,
     so_lastSeenUsers = False, so_exclude = [], so_limit = None, so_flags = [], so_custom = []\<rparr>"

definition sam_result :: search_result where
  "sam_result = \<lparr>r_users = [(''samson'', None), (''sam'', Some ''Sam'')], r_groups = [''sams''], r_emails = []\<rparr>"

lemma results_complete_witness:
  "mset (prioritized (strip_at sam_opts) sam_result) =
     {#UserItem ''samson'' None False, UserItem ''sam'' (Some ''Sam'') False, GroupItem ''sams''#}"
proof -
  have "first_word (so_term (strip_at sam_opts)) = Some ''sam''" by code_simp
  moreover have "user_item (Some ''sam'') (''samson'', None) = UserItem ''samson'' None False"
    "user_item (Some ''sam'') (''sam'', Some ''Sam'') = UserItem ''sam'' (Some ''Sam'') False"
    "group_matches (Some ''sam'') ''sams''" by code_simp+
  ultimately show ?thesis
    using results_complete [of sam_result "strip_at sam_opts"]
    by (simp add: sam_result_def sam_opts_def strip_at_def)
qed

definition sam_asked :: search_state where
  "sam_asked = search_fires (userSearch 1 sam_opts search_start)"

lemma sam_evaluates:
  "om_get (requests sam_asked) 1 = Some \<lparr>rq_opts = strip_at sam_opts, rq_promise = 0, rq_eager = False\<rparr>"
  "om_get (resolved (search_answered 2 1 (Some sam_result) sam_asked)) 0 =
     Some (Results [UserItem ''sam'' (Some ''Sam'') False, UserItem ''samson'' None False, GroupItem ''sams''])"
  by code_simp+

lemma search_results_are_own_witness:
  "fair_value {(opt_term (strip_at sam_opts), sam_result)} (strip_at sam_opts)
     (Results [UserItem ''sam'' (Some ''Sam'') False, UserItem ''samson'' None False, GroupItem ''sams''])"
proof -
  let ?o = "strip_at sam_opts"
  let ?w0 = "\<lparr>the_state = search_start, issued = (\<lambda>p. None), answers_seen = {}\<rparr>"
  let ?w1 = "\<lparr>the_state = userSearch 1 sam_opts search_start, issued = (\<lambda>p. None)(0 := Some ?o), answers_seen = {}\<rparr>"
  let ?w2 = "\<lparr>the_state = sam_asked, issued = (\<lambda>p. None)(0 := Some ?o), answers_seen = {}\<rparr>"
  let ?w3 = "\<lparr>the_state = search_answered 2 1 (Some sam_result) sam_asked,
    issued = (\<lambda>p. None)(0 := Some ?o), answers_seen = {(opt_term ?o, sam_result)}\<rparr>"
  have "search_step ?w0 ?w1" using search_step.search [of ?w0 1 sam_opts] by (simp add: search_start_def)
  moreover have "search_step ?w1 ?w2" using search_step.fires [of ?w1] by (simp add: sam_asked_def)
  moreover have "search_step ?w2 ?w3"
    using search_step.answered [of ?w2 1 "\<lparr>rq_opts = ?o, rq_promise = 0, rq_eager = False\<rparr>" sam_result 2]
    by (simp add: sam_evaluates(1) del: One_nat_def)
  ultimately have "search_step\<^sup>*\<^sup>* ?w0 ?w3" by (meson rtranclp.rtrancl_into_rtrancl rtranclp.rtrancl_refl)
  then show ?thesis using search_results_are_own [of ?w3 0 ?o] sam_evaluates(2) by (simp del: One_nat_def)
qed

section \<open>What the cache forgets\<close>

text \<open>
  The key of the cache is the topic and the category: a search for the same term with other
  options, such as without groups, gets the cached answer and no request is made.
\<close>

lemma other_options_share_cache:
  assumes "om_get (cache s) (opt_term opts) = Some r"
  shows "snd (performSearch opts p s) = resultsFn opts p r s"
  using assms by (simp add: performSearch_def cached_def)

text \<open>
  A term that names a method of \<open>Object.prototype\<close> throws when its turn comes: no request is made
  and its promise waits for the timer.
\<close>

lemma method_name_throws:
  assumes "opt_term opts \<in> set inherited_methods" "om_get (cache s) (opt_term opts) = None"
  shows "performSearch opts p s = (Inl (Error ''SyntaxError''), s)"
  using assms by (simp add: performSearch_def cached_def)

end
