(* ===== verification/Transformers.thy ===== *)
theory Transformers
  imports JsString
begin

text \<open>
  \<open>lib/transformer.js\<close>: extension points. Core code runs a behavior or computes a value, plugins
  register callbacks that wrap the behavior or change the value.

  A callback of a value is a function that may throw. A callback of a behavior is an interaction:
  it returns, throws, or calls \<open>next\<close> and goes on with what that gave, which may be an error it
  catches. The text that begins the messages is the argument \<open>pre\<close>; the context is an object or
  absent, which callbacks read and do not write; \<open>this\<close> is the argument \<open>self\<close>.
\<close>

section \<open>Callbacks and state\<close>

datatype interaction =
    Return jsval
  | Throw js_error
  | Call_next "jsval result \<Rightarrow> interaction"

datatype callback =
    Value_callback "jsval \<Rightarrow> jobj option \<Rightarrow> jsval result"
  | Behavior_callback "jobj \<Rightarrow> interaction"

datatype name_source = CORE_TRANSFORMER | PLUGIN_TRANSFORMER

definition transformerTypes :: "string list" where
  "transformerTypes = [''BEHAVIOR'', ''VALUE'']"

record transformer_state =
  validTransformerNames :: "(string, name_source) omap"
  transformersRegistry :: "(string, callback list) omap"
  registryOpened :: bool
  skipApplyException :: bool
  testRegistryOpened :: "bool option"

definition normalizeTransformerName :: "string \<Rightarrow> string \<Rightarrow> string" where
  "normalizeTransformerName name type = name @ ''/'' @ lower type"

definition findTransformerInfoByName :: "string \<Rightarrow> transformer_state \<Rightarrow> (string \<times> name_source) option" where
  "findTransformerInfoByName name s =
     (case find (\<lambda>t. om_get (validTransformerNames s) (normalizeTransformerName name t) \<noteq> None) transformerTypes of
        Some t \<Rightarrow> map_option (Pair (normalizeTransformerName name t))
                   (om_get (validTransformerNames s) (normalizeTransformerName name t))
      | None \<Rightarrow> None)"

definition transformerNameExists :: "string \<Rightarrow> transformer_state \<Rightarrow> bool" where
  "transformerNameExists normalized s \<longleftrightarrow> om_get (validTransformerNames s) normalized \<noteq> None"

definition transformerWasAdded :: "string \<Rightarrow> string \<Rightarrow> transformer_state \<Rightarrow> bool" where
  "transformerWasAdded name type s \<longleftrightarrow> transformerNameExists (normalizeTransformerName name type) s"

section \<open>Names\<close>

text \<open>The names of the core, checked when \<open>DEBUG\<close> is set.\<close>

definition add_core_name :: "bool \<Rightarrow> string \<Rightarrow> string \<Rightarrow> transformer_state \<Rightarrow> transformer_state result" where
  "add_core_name debug type name s =
     (if debug \<and> name \<noteq> lower name
      then Inl (Error (''Transformer name \"'' @ name @ ''\" must be lowercase. Found in '' @ type @ '' transformers.''))
      else case (if debug then findTransformerInfoByName name s else None) of
             Some (existing, src) \<Rightarrow> Inl (Error (''Transformer name \"'' @ normalizeTransformerName name type @
               ''\" can't be added. The transformer '' @ existing @ '' already exists.''))
           | None \<Rightarrow> Inr (s\<lparr>validTransformerNames :=
               om_set (normalizeTransformerName name type) CORE_TRANSFORMER (validTransformerNames s)\<rparr>))"

definition empty_registry :: transformer_state where
  "empty_registry = \<lparr>validTransformerNames = [], transformersRegistry = [], registryOpened = False,
     skipApplyException = False, testRegistryOpened = None\<rparr>"

definition core_names :: "bool \<Rightarrow> string list \<Rightarrow> string list \<Rightarrow> transformer_state result" where
  "core_names debug behaviors values =
     fold (\<lambda>(type, name) r. bind_result r (add_core_name debug type name))
       (map (Pair ''BEHAVIOR'') behaviors @ map (Pair ''VALUE'') values) (Inr empty_registry)"

definition freezeValidTransformerNames :: "transformer_state \<Rightarrow> transformer_state" where
  "freezeValidTransformerNames s = s\<lparr>registryOpened := True\<rparr>"

text \<open>The second component is what is written to the console as a warning.\<close>

definition addTransformerName ::
    "string \<Rightarrow> string \<Rightarrow> string \<Rightarrow> transformer_state \<Rightarrow> (transformer_state \<times> string option) result" where
  "addTransformerName pre name type s =
     (if name \<noteq> lower name
      then Inl (Error (pre @ '': transformer name \"'' @ name @ ''\" must be lowercase.''))
      else if registryOpened s
      then Inl (Error (pre @ '' was called when the system is no longer accepting new names to be added.''))
      else case findTransformerInfoByName name s of
             None \<Rightarrow> Inr (s\<lparr>validTransformerNames :=
               om_set (normalizeTransformerName name type) PLUGIN_TRANSFORMER (validTransformerNames s)\<rparr>, None)
           | Some (existing, CORE_TRANSFORMER) \<Rightarrow> Inr (s, Some (pre @ '': transformer \"'' @ name @
               ''\" matches existing core transformer \"'' @ existing @ ''\" and shouldn't be re-registered using the API.''))
           | Some (existing, PLUGIN_TRANSFORMER) \<Rightarrow> Inr (s, Some (pre @ '': transformer \"'' @ existing @
               ''\" is already registered'')))"

section \<open>Registering\<close>

text \<open>A callback that is not a function is \<open>None\<close>.\<close>

definition registerTransformer ::
    "string \<Rightarrow> string \<Rightarrow> string \<Rightarrow> callback option \<Rightarrow> transformer_state \<Rightarrow> (transformer_state \<times> bool) result" where
  "registerTransformer pre name type cb s =
     (let normalized = normalizeTransformerName name type
      in if type \<notin> set transformerTypes then Inl (Error (''Invalid transformer type: '' @ type))
         else if \<not> registryOpened s
         then Inl (Error (pre @ '' was called while the system was still accepting new transformer names to be added.''))
         else if \<not> transformerNameExists normalized s then Inr (s, False)
         else case cb of
                None \<Rightarrow> Inl (Error (pre @ '' requires the callback argument to be a function''))
              | Some f \<Rightarrow> Inr (s\<lparr>transformersRegistry := om_set normalized
                  ((case om_get (transformersRegistry s) normalized of Some cs \<Rightarrow> cs | None \<Rightarrow> []) @ [f])
                  (transformersRegistry s)\<rparr>, True))"

section \<open>Applying to a behavior\<close>

text \<open>
  The queue of callbacks that were not called yet, the default at its end, and how often the
  default was called.
\<close>

record call_queue =
  to_call :: "(jobj \<Rightarrow> interaction) list"
  default_left :: bool
  default_calls :: nat

text \<open>Running an interaction: \<open>nxt\<close> is what a call of \<open>next\<close> does.\<close>

primrec interact ::
    "(call_queue \<Rightarrow> jsval result \<times> call_queue) \<Rightarrow> interaction \<Rightarrow> call_queue \<Rightarrow> jsval result \<times> call_queue" where
  "interact nxt (Return v) q = (Inr v, q)"
| "interact nxt (Throw e) q = (Inl e, q)"
| "interact nxt (Call_next k) q = (let r = nxt q in interact nxt (k (fst r)) (snd r))"

text \<open>
  \<open>nextCallback\<close>: the first callback of the queue is taken and run; when it throws, the rest of the
  queue is processed, except in tests. The number bounds the depth; the queue's length is enough.
\<close>

primrec nextCallback ::
    "nat \<Rightarrow> bool \<Rightarrow> (jobj \<Rightarrow> jsval result) \<Rightarrow> jobj \<Rightarrow> call_queue \<Rightarrow> jsval result \<times> call_queue" where
  "nextCallback 0 rethrow dflt ctx q =
     (if default_left q
      then (dflt ctx, q\<lparr>default_left := False, default_calls := default_calls q + 1\<rparr>)
      else (Inr JUndef, q))"
| "nextCallback (Suc n) rethrow dflt ctx q =
     (case to_call q of
        [] \<Rightarrow> if default_left q
              then (dflt ctx, q\<lparr>default_left := False, default_calls := default_calls q + 1\<rparr>)
              else (Inr JUndef, q)
      | c # cs \<Rightarrow>
          (let r = interact (nextCallback n rethrow dflt ctx) (c ctx) (q\<lparr>to_call := cs\<rparr>)
           in case fst r of
                Inr v \<Rightarrow> r
              | Inl e \<Rightarrow> if rethrow then r else nextCallback n rethrow dflt ctx (snd r)))"

definition applied_context :: "jsval option \<Rightarrow> jobj option \<Rightarrow> jobj" where
  "applied_context self context =
     (let ctx = (case context of Some c \<Rightarrow> c | None \<Rightarrow> [])
      in case self of
           Some v \<Rightarrow> if \<not> truthy (pget ctx ''_unstable_self'') then om_set ''_unstable_self'' v ctx else ctx
         | None \<Rightarrow> ctx)"

definition behaviors_of :: "callback list \<Rightarrow> (jobj \<Rightarrow> interaction) list" where
  "behaviors_of cs = List.map_filter (\<lambda>c. case c of Behavior_callback f \<Rightarrow> Some f | Value_callback _ \<Rightarrow> None) cs"

text \<open>The result and how often the default callback ran.\<close>

definition applyBehaviorTransformer ::
    "string \<Rightarrow> bool \<Rightarrow> string \<Rightarrow> (jobj \<Rightarrow> jsval result) option \<Rightarrow> jsval option \<Rightarrow> jobj option \<Rightarrow>
     transformer_state \<Rightarrow> jsval result \<times> nat" where
  "applyBehaviorTransformer pre testing name dflt self context s =
     (let normalized = normalizeTransformerName name ''BEHAVIOR''
      in if \<not> transformerNameExists normalized s
         then (Inl (Error (pre @ '': transformer name \"'' @ name @ ''\" does not exist.'')), 0)
         else case dflt of
                None \<Rightarrow> (Inl (Error (pre @ '' requires the callback argument to be a function'')), 0)
              | Some d \<Rightarrow>
                  (let ctx = applied_context self context
                   in case om_get (transformersRegistry s) normalized of
                        None \<Rightarrow> (d ctx, 1)
                      | Some cs \<Rightarrow>
                          (let fs = behaviors_of cs;
                               r = nextCallback (length fs) (testing \<and> \<not> skipApplyException s) d ctx
                                     \<lparr>to_call = fs, default_left = True, default_calls = 0\<rparr>
                           in (fst r, default_calls (snd r)))))"

section \<open>Applying to a value\<close>

fun value_loop ::
    "bool \<Rightarrow> bool \<Rightarrow> jobj option \<Rightarrow> callback list \<Rightarrow> jsval \<Rightarrow> jsval result" where
  "value_loop rethrow mutable ctx [] v = Inr v"
| "value_loop rethrow mutable ctx (Value_callback f # cs) v =
     (case f v ctx of
        Inr w \<Rightarrow> value_loop rethrow mutable ctx cs (if mutable then v else w)
      | Inl e \<Rightarrow> if rethrow then Inl e else value_loop rethrow mutable ctx cs v)"
| "value_loop rethrow mutable ctx (Behavior_callback f # cs) v = value_loop rethrow mutable ctx cs v"

definition applyValueTransformer ::
    "string \<Rightarrow> bool \<Rightarrow> string \<Rightarrow> jsval \<Rightarrow> jobj option \<Rightarrow> bool \<Rightarrow> transformer_state \<Rightarrow> jsval result" where
  "applyValueTransformer pre testing name v context mutable s =
     (let normalized = normalizeTransformerName name ''VALUE''
      in if \<not> transformerNameExists normalized s
         then Inl (Error (pre @ '': transformer name \"'' @ name @ ''\" does not exist.''))
         else case om_get (transformersRegistry s) normalized of
                None \<Rightarrow> Inr v
              | Some cs \<Rightarrow> value_loop (testing \<and> \<not> skipApplyException s) mutable context cs v)"

definition applyMutableValueTransformer ::
    "string \<Rightarrow> bool \<Rightarrow> string \<Rightarrow> jsval \<Rightarrow> jobj option \<Rightarrow> transformer_state \<Rightarrow> jsval result" where
  "applyMutableValueTransformer pre testing name v context s =
     applyValueTransformer pre testing name v context True s"

section \<open>For tests\<close>

definition acceptNewTransformerNames :: "bool \<Rightarrow> transformer_state \<Rightarrow> transformer_state result" where
  "acceptNewTransformerNames testing s =
     (if \<not> testing then Inl (Error ''Use `acceptNewTransformerNames` only in tests.'')
      else Inr (s\<lparr>testRegistryOpened := (case testRegistryOpened s of None \<Rightarrow> Some (registryOpened s) | b \<Rightarrow> b),
                  registryOpened := False\<rparr>))"

definition acceptTransformerRegistrations :: "bool \<Rightarrow> transformer_state \<Rightarrow> transformer_state result" where
  "acceptTransformerRegistrations testing s =
     (if \<not> testing then Inl (Error ''Use `acceptTransformerRegistrations` only in tests.'')
      else Inr (s\<lparr>testRegistryOpened := (case testRegistryOpened s of None \<Rightarrow> Some (registryOpened s) | b \<Rightarrow> b),
                  registryOpened := True\<rparr>))"

definition clearPluginTransformers :: "transformer_state \<Rightarrow> transformer_state" where
  "clearPluginTransformers s =
     s\<lparr>validTransformerNames := filter (\<lambda>(n, t). t = CORE_TRANSFORMER) (validTransformerNames s)\<rparr>"

definition resetTransformers :: "bool \<Rightarrow> transformer_state \<Rightarrow> transformer_state result" where
  "resetTransformers testing s =
     (if \<not> testing then Inl (Error ''Use `resetTransformers` only in tests.'')
      else (let s1 = (case testRegistryOpened s of Some b \<Rightarrow> s\<lparr>registryOpened := b\<rparr> | None \<Rightarrow> s)
            in bind_result (acceptNewTransformerNames testing (clearPluginTransformers s1)) (\<lambda>s2.
                 Inr (s2\<lparr>transformersRegistry := [], skipApplyException := False\<rparr>))))"

definition disableThrowingApplyException :: "transformer_state \<Rightarrow> transformer_state" where
  "disableThrowingApplyException s = s\<lparr>skipApplyException := True\<rparr>"

end
