(* ===== verification/TransformerProofs.thy ===== *)
theory TransformerProofs
  imports Transformers
begin

text \<open>
  What extension points promise: whatever callbacks do, the default runs at most once, and exactly
  once when none of them swallows it; a value is folded through the callbacks that do not throw.
\<close>

section \<open>The queue\<close>

definition queue_inv :: "call_queue \<Rightarrow> bool" where
  "queue_inv q \<longleftrightarrow> default_calls q = (if default_left q then 0 else 1)"

text \<open>A call of \<open>next\<close> keeps the invariant and takes callbacks away, and a default that ran stays run.\<close>

definition step_from :: "call_queue \<Rightarrow> call_queue \<Rightarrow> bool" where
  "step_from q q' \<longleftrightarrow> (queue_inv q \<longrightarrow> queue_inv q') \<and> length (to_call q') \<le> length (to_call q) \<and>
     (default_left q' \<longrightarrow> default_left q)"

lemma step_refl [simp]: "step_from q q"
  by (simp add: step_from_def)

lemma step_trans: "step_from q q' \<Longrightarrow> step_from q' q'' \<Longrightarrow> step_from q q''"
  by (auto simp: step_from_def)

lemma interact_step:
  assumes "\<And>q. step_from q (snd (nxt q))"
  shows "step_from q (snd (interact nxt p q))"
proof (induction p arbitrary: q)
  case (Call_next k)
  show ?case using step_trans [OF assms Call_next] by (simp add: Let_def)
qed simp_all

lemma next_step: "step_from q (snd (nextCallback n rethrow dflt ctx q))"
proof (induction n arbitrary: q)
  case 0
  show ?case by (simp add: step_from_def queue_inv_def)
next
  case (Suc n)
  show ?case
  proof (cases "to_call q")
    case Nil
    then show ?thesis by (simp add: step_from_def queue_inv_def)
  next
    case (Cons c cs)
    let ?r = "interact (nextCallback n rethrow dflt ctx) (c ctx) (q\<lparr>to_call := cs\<rparr>)"
    have "step_from q (q\<lparr>to_call := cs\<rparr>)" using Cons by (simp add: step_from_def queue_inv_def)
    then have r: "step_from q (snd ?r)" using interact_step [OF Suc.IH] by (rule step_trans)
    moreover have "step_from q (snd (nextCallback n rethrow dflt ctx (snd ?r)))" using step_trans [OF r Suc.IH] .
    ultimately show ?thesis
      using Cons by (cases rethrow; cases "fst ?r") (simp_all add: Let_def)
  qed
qed

text \<open>The bound on the depth does not matter when it is at least the length of the queue.\<close>

lemma interact_cong:
  assumes "\<And>q'. length (to_call q') \<le> length (to_call q) \<Longrightarrow> nxt q' = nxt' q'"
    and "\<And>q. step_from q (snd (nxt q))"
  shows "interact nxt p q = interact nxt' p q"
  using assms(1)
proof (induction p arbitrary: q)
  case (Call_next k)
  have e: "nxt q = nxt' q" by (rule Call_next.prems) simp
  have "length (to_call (snd (nxt q))) \<le> length (to_call q)" using assms(2) [of q] by (simp add: step_from_def)
  then have "interact nxt (k (fst (nxt q))) (snd (nxt q)) = interact nxt' (k (fst (nxt q))) (snd (nxt q))"
    by (intro Call_next.IH) (auto intro: Call_next.prems)
  then show ?case by (simp add: e Let_def)
qed simp_all

lemma depth_enough:
  "length (to_call q) \<le> n \<Longrightarrow> length (to_call q) \<le> m \<Longrightarrow>
     nextCallback n rethrow dflt ctx q = nextCallback m rethrow dflt ctx q"
proof (induction n arbitrary: q m)
  case 0
  then show ?case by (cases m) simp_all
next
  case (Suc n)
  show ?case
  proof (cases "to_call q")
    case Nil
    then show ?thesis by (cases m) simp_all
  next
    case (Cons c cs)
    then obtain m' where m: "m = Suc m'" "length cs \<le> m'" using Suc.prems by (cases m) auto
    have n: "length cs \<le> n" using Suc.prems Cons by simp
    let ?q = "q\<lparr>to_call := cs\<rparr>"
    let ?r = "interact (nextCallback n rethrow dflt ctx) (c ctx) ?q"
    have r: "?r = interact (nextCallback m' rethrow dflt ctx) (c ctx) ?q"
      using n m(2) by (intro interact_cong Suc.IH next_step) auto
    have "step_from ?q (snd ?r)" by (rule interact_step [OF next_step])
    then have "length (to_call (snd ?r)) \<le> length cs" by (simp add: step_from_def)
    then have "nextCallback n rethrow dflt ctx (snd ?r) = nextCallback m' rethrow dflt ctx (snd ?r)"
      using n m(2) by (intro Suc.IH) auto
    then show ?thesis using Cons m(1) r
      by (cases rethrow; cases "fst ?r") (simp_all add: Let_def)
  qed
qed

text \<open>
  C21. Whatever the registered callbacks do, however often they call \<open>next\<close> and whatever they
  throw, the default behavior runs at most once.
\<close>

theorem default_at_most_once:
  "snd (applyBehaviorTransformer pre testing name dflt self context s) \<le> 1"
proof -
  have "default_calls (snd (nextCallback n rethrow d ctx \<lparr>to_call = fs, default_left = True, default_calls = 0\<rparr>)) \<le> 1"
    for n rethrow d ctx fs
    using next_step [of "\<lparr>to_call = fs, default_left = True, default_calls = 0\<rparr>" n rethrow d ctx]
    by (simp add: step_from_def queue_inv_def)
  then show ?thesis
    by (simp add: applyBehaviorTransformer_def Let_def split: option.split)
qed

section \<open>Exactly once\<close>

definition calls_next :: "jobj \<Rightarrow> (jobj \<Rightarrow> interaction) \<Rightarrow> bool" where
  "calls_next ctx c \<longleftrightarrow> (case c ctx of Return v \<Rightarrow> False | _ \<Rightarrow> True)"

lemma next_reaches:
  "length (to_call q) \<le> n \<Longrightarrow> list_all (calls_next ctx) (to_call q) \<Longrightarrow>
     \<not> default_left (snd (nextCallback n False dflt ctx q))"
proof (induction n arbitrary: q)
  case (Suc n)
  show ?case
  proof (cases "to_call q")
    case (Cons c cs)
    let ?nxt = "nextCallback n False dflt ctx" and ?q = "q\<lparr>to_call := cs\<rparr>"
    let ?r = "interact ?nxt (c ctx) ?q"
    have ih: "\<not> default_left (snd (?nxt ?q))" using Suc Cons by simp
    have cases: "(\<exists>e. ?r = (Inl e, ?q)) \<or> \<not> default_left (snd ?r)"
    proof (cases "c ctx")
      case (Call_next k)
      let ?n = "?nxt ?q"
      have "step_from (snd ?n) (snd (interact ?nxt (k (fst ?n)) (snd ?n)))" by (rule interact_step [OF next_step])
      then show ?thesis using Call_next ih by (auto simp: step_from_def Let_def)
    qed (use Suc.prems(2) Cons in \<open>simp_all add: calls_next_def\<close>)
    then show ?thesis
    proof
      assume "\<exists>e. ?r = (Inl e, ?q)"
      then show ?thesis using Cons ih by (auto simp: Let_def)
    next
      assume "\<not> default_left (snd ?r)"
      then show ?thesis
        using Cons next_step [of "snd ?r" n False dflt ctx]
        by (auto simp: step_from_def Let_def split: sum.split)
    qed
  qed simp
qed (simp split: list.split)

text \<open>
  Outside tests, when every callback of a behavior calls \<open>next\<close> or throws, the default runs
  exactly once.
\<close>

theorem default_exactly_once:
  assumes "transformerNameExists (normalizeTransformerName name ''BEHAVIOR'') s"
    and "om_get (transformersRegistry s) (normalizeTransformerName name ''BEHAVIOR'') = Some cs"
    and "list_all (calls_next (applied_context self context)) (behaviors_of cs)"
  shows "snd (applyBehaviorTransformer pre False name (Some d) self context s) = 1"
proof -
  let ?ctx = "applied_context self context" and ?fs = "behaviors_of cs"
  let ?q = "\<lparr>to_call = ?fs, default_left = True, default_calls = 0\<rparr>"
  have "\<not> default_left (snd (nextCallback (length ?fs) False d ?ctx ?q))"
    using assms(3) by (intro next_reaches) simp_all
  moreover have "queue_inv (snd (nextCallback (length ?fs) False d ?ctx ?q))"
    using next_step [of ?q "length ?fs" False d ?ctx] by (simp add: step_from_def queue_inv_def)
  ultimately show ?thesis
    using assms(1,2) by (simp add: applyBehaviorTransformer_def queue_inv_def Let_def)
qed

text \<open>A callback that passes everything on.\<close>

definition pass_on :: "jobj \<Rightarrow> interaction" where
  "pass_on ctx = Call_next (\<lambda>r. case r of Inr v \<Rightarrow> Return v | Inl e \<Rightarrow> Throw e)"

definition one_plugin :: "(jobj \<Rightarrow> interaction) list \<Rightarrow> transformer_state" where
  "one_plugin fs = \<lparr>validTransformerNames = [(''x/behavior'', CORE_TRANSFORMER)],
     transformersRegistry = [(''x/behavior'', map Behavior_callback fs)], registryOpened = True,
     skipApplyException = False, testRegistryOpened = None\<rparr>"

lemma normal_x: "normalizeTransformerName ''x'' ''BEHAVIOR'' = ''x/behavior''"
  by code_simp

lemma behaviors_map [simp]: "behaviors_of (map Behavior_callback fs) = fs"
  by (induction fs) (simp_all add: behaviors_of_def List.map_filter_def)

lemma default_exactly_once_witness:
  "snd (applyBehaviorTransformer [] False ''x'' (Some (\<lambda>ctx. Inr (JNum 1))) None None
     (one_plugin [\<lambda>ctx. Throw (Error ''broken''), pass_on])) = 1"
  by (rule default_exactly_once [where cs = "map Behavior_callback [\<lambda>ctx. Throw (Error ''broken''), pass_on]"])
    (simp_all only: normal_x behaviors_map, simp_all add: one_plugin_def transformerNameExists_def calls_next_def pass_on_def)

text \<open>
  An error of the default passes through the callback that called it, and is then taken for an
  error of that callback: it is swallowed and the result is \<open>undefined\<close>.
\<close>

lemma default_error_swallowed:
  "applyBehaviorTransformer [] False ''x'' (Some (\<lambda>ctx. Inl e)) None None (one_plugin [pass_on]) = (Inr JUndef, 1)"
  "applyBehaviorTransformer [] False ''x'' (Some (\<lambda>ctx. Inl e)) None None
     (one_plugin []\<lparr>transformersRegistry := []\<rparr>) = (Inl e, 1)"
  by (simp_all add: applyBehaviorTransformer_def normal_x one_plugin_def transformerNameExists_def
      behaviors_of_def List.map_filter_def pass_on_def Let_def)

section \<open>Values\<close>

definition through :: "jobj option \<Rightarrow> callback \<Rightarrow> jsval \<Rightarrow> jsval" where
  "through ctx c v = (case c of Value_callback f \<Rightarrow> (case f v ctx of Inr w \<Rightarrow> w | Inl e \<Rightarrow> v)
                      | Behavior_callback f \<Rightarrow> v)"

lemma value_fold: "value_loop False False ctx cs v = Inr (fold (through ctx) cs v)"
  by (induction "False" "False" ctx cs v rule: value_loop.induct) (auto simp: through_def split: sum.split)

lemma mutable_same: "value_loop False True ctx cs v = Inr v"
  by (induction "False" "True" ctx cs v rule: value_loop.induct) (auto split: sum.split)

text \<open>
  Outside tests a value goes through its callbacks in the order of their registration, each
  seeing the result of the one before and one that throws being left out; a mutable value comes
  back as it was given.
\<close>

theorem value_transformed:
  assumes "transformerNameExists (normalizeTransformerName name ''VALUE'') s"
  shows "applyValueTransformer pre False name v ctx False s =
      Inr (fold (through ctx) (case om_get (transformersRegistry s) (normalizeTransformerName name ''VALUE'') of
             Some cs \<Rightarrow> cs | None \<Rightarrow> []) v) \<and>
    applyMutableValueTransformer pre False name v ctx s = Inr v"
  using assms by (simp add: applyValueTransformer_def applyMutableValueTransformer_def value_fold mutable_same
      Let_def split: option.split)

lemma value_transformed_witness:
  "applyValueTransformer [] False ''x'' (JNum 1) None False
     (empty_registry\<lparr>validTransformerNames := [(''x/value'', CORE_TRANSFORMER)],
        transformersRegistry := [(''x/value'', [Value_callback (\<lambda>v c. Inr (JNum 2)), Value_callback (\<lambda>v c. Inl (Error []))])]\<rparr>)
   = Inr (JNum 2)"
proof -
  have "normalizeTransformerName ''x'' ''VALUE'' = ''x/value''" by code_simp
  then show ?thesis
    using value_transformed [of "''x''" "empty_registry\<lparr>validTransformerNames := [(''x/value'', CORE_TRANSFORMER)],
        transformersRegistry := [(''x/value'', [Value_callback (\<lambda>v c. Inr (JNum 2)), Value_callback (\<lambda>v c. Inl (Error []))])]\<rparr>"]
    by (simp add: transformerNameExists_def through_def)
qed

section \<open>Names and registrations\<close>

text \<open>
  Callbacks are registered only for known names, and no name is known both as a behavior and as a
  value.
\<close>

definition one_kind :: "transformer_state \<Rightarrow> bool" where
  "one_kind s \<longleftrightarrow> (\<forall>name. \<not> (transformerWasAdded name ''BEHAVIOR'' s \<and> transformerWasAdded name ''VALUE'' s))"

definition registered_known :: "transformer_state \<Rightarrow> bool" where
  "registered_known s \<longleftrightarrow> (\<forall>n. om_get (transformersRegistry s) n \<noteq> None \<longrightarrow> om_get (validTransformerNames s) n \<noteq> None)"

inductive transformer_step :: "transformer_state \<Rightarrow> transformer_state \<Rightarrow> bool" where
  freeze: "transformer_step s (freezeValidTransformerNames s)"
| add: "type \<in> set transformerTypes \<Longrightarrow> addTransformerName pre name type s = Inr (s', w) \<Longrightarrow> transformer_step s s'"
| register: "registerTransformer pre name type cb s = Inr (s', b) \<Longrightarrow> transformer_step s s'"
| accept_names: "acceptNewTransformerNames testing s = Inr s' \<Longrightarrow> transformer_step s s'"
| accept_callbacks: "acceptTransformerRegistrations testing s = Inr s' \<Longrightarrow> transformer_step s s'"
| reset: "resetTransformers testing s = Inr s' \<Longrightarrow> transformer_step s s'"
| skip: "transformer_step s (disableThrowingApplyException s)"

lemma not_found:
  "findTransformerInfoByName name s = None \<longleftrightarrow>
     \<not> transformerWasAdded name ''BEHAVIOR'' s \<and> \<not> transformerWasAdded name ''VALUE'' s"
  by (auto simp: findTransformerInfoByName_def transformerTypes_def transformerWasAdded_def transformerNameExists_def)

lemma lower_types: "lower ''BEHAVIOR'' = ''behavior''" "lower ''VALUE'' = ''value''"
  by code_simp+

text \<open>The type is the end of a normalized name, so the name can be read off.\<close>

lemma normalized_inj:
  assumes "type \<in> set transformerTypes" "type' \<in> set transformerTypes"
  shows "normalizeTransformerName name type = normalizeTransformerName name' type' \<longleftrightarrow> name = name' \<and> type = type'"
proof
  assume eq: "normalizeTransformerName name type = normalizeTransformerName name' type'"
  have "rev (normalizeTransformerName name type) = rev (normalizeTransformerName name' type')" using eq by simp
  then show "name = name' \<and> type = type'"
    using assms by (auto simp: normalizeTransformerName_def transformerTypes_def lower_types)
qed simp

lemma added_set:
  assumes "type \<in> set transformerTypes" "type' \<in> set transformerTypes"
  shows "transformerWasAdded name' type' (s\<lparr>validTransformerNames :=
      om_set (normalizeTransformerName name type) src (validTransformerNames s)\<rparr>) \<longleftrightarrow>
    name' = name \<and> type' = type \<or> transformerWasAdded name' type' s"
  using normalized_inj [OF assms(2,1), of name' name]
  by (auto simp: transformerWasAdded_def transformerNameExists_def)

lemma one_kind_add:
  assumes "one_kind s" "type \<in> set transformerTypes" "findTransformerInfoByName name s = None"
  shows "one_kind (s\<lparr>validTransformerNames := om_set (normalizeTransformerName name type) src (validTransformerNames s)\<rparr>)"
proof -
  have "''BEHAVIOR'' \<in> set transformerTypes" "''VALUE'' \<in> set transformerTypes" by (simp_all add: transformerTypes_def)
  then show ?thesis
    using assms unfolding one_kind_def not_found by (auto simp: added_set)
qed

lemma one_kind_sub:
  assumes "one_kind s" "\<And>n. om_get (validTransformerNames s') n \<noteq> None \<Longrightarrow> om_get (validTransformerNames s) n \<noteq> None"
  shows "one_kind s'"
  using assms unfolding one_kind_def transformerWasAdded_def transformerNameExists_def by blast

lemma filter_get: "om_get (filter (\<lambda>(n, t). P t) m) n \<noteq> None \<Longrightarrow> om_get m n \<noteq> None"
  by (induction m) (auto split: if_splits)

text \<open>
  From a state in which each name is of one kind, no sequence of additions, registrations and
  resets makes a name both a behavior and a value, or registers a callback for an unknown name.
\<close>

theorem registry_consistent:
  assumes "transformer_step\<^sup>*\<^sup>* s s'" "one_kind s" "registered_known s"
  shows "one_kind s' \<and> registered_known s'"
  using assms(1)
proof (induction rule: rtranclp_induct)
  case (step s1 s2)
  from step.hyps(2) step.IH show ?case
  proof (cases rule: transformer_step.cases)
    case (add type pre name w)
    then have "findTransformerInfoByName name s1 = None \<and> s2 = s1\<lparr>validTransformerNames :=
        om_set (normalizeTransformerName name type) PLUGIN_TRANSFORMER (validTransformerNames s1)\<rparr> \<or> s2 = s1"
      by (auto simp: addTransformerName_def split: if_splits option.splits name_source.splits)
    then show ?thesis
    proof
      assume new: "findTransformerInfoByName name s1 = None \<and> s2 = s1\<lparr>validTransformerNames :=
        om_set (normalizeTransformerName name type) PLUGIN_TRANSFORMER (validTransformerNames s1)\<rparr>"
      then have "one_kind s2" using step.IH add(1) one_kind_add by blast
      moreover have "registered_known s2" using new step.IH by (simp add: registered_known_def)
      ultimately show ?thesis by simp
    qed (use step.IH in simp)
  next
    case (register pre name type cb b)
    then have "s2 = s1 \<or> transformerNameExists (normalizeTransformerName name type) s1 \<and>
        (\<exists>cs. s2 = s1\<lparr>transformersRegistry := om_set (normalizeTransformerName name type) cs (transformersRegistry s1)\<rparr>)"
      by (auto simp: registerTransformer_def Let_def split: if_splits option.splits)
    then show ?thesis
      using step.IH one_kind_sub [of s1 s2] by (auto simp: registered_known_def transformerNameExists_def split: if_splits)
  next
    case (reset testing)
    then have "validTransformerNames s2 = filter (\<lambda>(n, t). t = CORE_TRANSFORMER) (validTransformerNames s1) \<and>
        transformersRegistry s2 = []"
      by (auto simp: resetTransformers_def acceptNewTransformerNames_def clearPluginTransformers_def Let_def
          split: if_splits option.splits)
    then show ?thesis
      using step.IH one_kind_sub [of s1 s2]
        filter_get [of "\<lambda>t. t = CORE_TRANSFORMER" "validTransformerNames s1"]
      by (simp add: registered_known_def)
  next
    case (accept_names testing)
    then have "validTransformerNames s2 = validTransformerNames s1" "transformersRegistry s2 = transformersRegistry s1"
      by (auto simp: acceptNewTransformerNames_def split: if_splits)
    then show ?thesis using step.IH one_kind_sub [of s1 s2] by (simp add: registered_known_def)
  next
    case (accept_callbacks testing)
    then have "validTransformerNames s2 = validTransformerNames s1" "transformersRegistry s2 = transformersRegistry s1"
      by (auto simp: acceptTransformerRegistrations_def split: if_splits)
    then show ?thesis using step.IH one_kind_sub [of s1 s2] by (simp add: registered_known_def)
  next
    case freeze
    then show ?thesis using step.IH one_kind_sub [of s1 s2]
      by (simp add: registered_known_def freezeValidTransformerNames_def)
  next
    case skip
    then show ?thesis using step.IH one_kind_sub [of s1 s2]
      by (simp add: registered_known_def disableThrowingApplyException_def)
  qed
qed (use assms in simp)

lemma registry_consistent_witness: "one_kind (freezeValidTransformerNames empty_registry)"
  using registry_consistent [of empty_registry "freezeValidTransformerNames empty_registry"]
  by (simp add: transformer_step.freeze r_into_rtranclp one_kind_def transformerWasAdded_def
      transformerNameExists_def registered_known_def empty_registry_def)

end
