(* ===== verification/ChunkedUpload.thy ===== *)
theory ChunkedUpload
  imports JsString ObjectTools
begin

text \<open>
  \<open>lib/uppy-chunked-upload.js\<close>: uploading a file in chunks, several at a time, with retries.

  The state is that of one \<open>UppyChunkedUpload\<close>, with the requests that are open, the delays after
  which a request is retried, and a log of the callbacks it made. What the network, the clock and the
  page do is a sequence of events; an event runs its handler and the promise callbacks that follow.
\<close>

section \<open>State\<close>

record chunk_state =
  bytesUploaded :: int
  busy :: bool
  finished :: bool

record upload_request =
  rq_index :: nat
  rq_body :: "nat \<times> nat"
  rq_attempt :: nat

datatype upload_error = Abort_error | Status_error int | Type_error

datatype callback_call =
    On_start
  | On_progress int nat
  | On_chunk_complete nat
  | On_success
  | On_error upload_error

text \<open>
  A chunk is the slice of the file between two positions, or \<open>None\<close> once it was released.
  \<open>fileSize\<close> is \<open>file.size\<close>, \<open>dataSize\<close> is \<open>file.data.size\<close>.
\<close>

record upload =
  limit :: nat
  retryDelays :: "nat list"
  chunkSize :: "nat option"
  fileSize :: nat
  dataSize :: nat
  dataName :: string
  chunks :: "(nat \<times> nat) option list"
  chunkState :: "chunk_state list"
  chunksInProgress :: int
  aborted :: bool
  inFlight :: "(nat, upload_request) omap"
  delays :: "(nat, nat \<times> nat) omap"
  next_number :: nat
  calls :: "callback_call list"

definition body_size :: "nat \<times> nat \<Rightarrow> nat" where
  "body_size b = snd b - fst b"

definition call :: "callback_call \<Rightarrow> upload \<Rightarrow> upload" where
  "call c s = s\<lparr>calls := calls s @ [c]\<rparr>"

section \<open>Cutting the file\<close>

definition MB :: nat where "MB = 1024 * 1024"

text \<open>The loop over the positions; a step of nothing would never end.\<close>

partial_function (option) slices :: "nat \<Rightarrow> nat \<Rightarrow> nat \<Rightarrow> (nat \<times> nat) list option" where
  "slices file_end step i =
     (if i < file_end
      then Option.bind (slices file_end step (i + step)) (\<lambda>cs. Some ((i, min file_end (i + step)) # cs))
      else Some [])"

text \<open>
  Without a chunk size the end of the first slice is \<open>NaN\<close>, which counts as 0, and so is the next
  position, which ends the loop.
\<close>

definition cut :: "nat \<Rightarrow> nat \<Rightarrow> nat option \<Rightarrow> (nat \<times> nat) list option" where
  "cut file_size data_size step =
     (if file_size = 0 then Some [(0, data_size)]
      else case step of
             Some n \<Rightarrow> slices data_size n 0
           | None \<Rightarrow> Some (if data_size > 0 then [(0, 0)] else []))"

definition fresh_state :: chunk_state where
  "fresh_state = \<lparr>bytesUploaded = 0, busy = False, finished = False\<rparr>"

definition initChunks :: "upload \<Rightarrow> upload option" where
  "initChunks s =
     map_option (\<lambda>cs. s\<lparr>chunksInProgress := 0, chunks := map Some cs, chunkState := map (\<lambda>_. fresh_state) cs\<rparr>)
       (cut (fileSize s) (dataSize s) (chunkSize s))"

text \<open>
  The constructor. Only when the option \<open>getChunkSize\<close> is given as nothing is the default taken,
  and only then is the chunk size set; \<open>given\<close> tells that the option is a function, or left out.
\<close>

definition new_upload :: "bool \<Rightarrow> nat \<Rightarrow> nat list \<Rightarrow> nat \<Rightarrow> nat \<Rightarrow> string \<Rightarrow> upload option" where
  "new_upload given lim retries file_size data_size name =
     initChunks \<lparr>limit = lim, retryDelays = retries, chunkSize = (if given then None else Some (5 * MB)),
       fileSize = file_size, dataSize = data_size, dataName = name, chunks = [], chunkState = [],
       chunksInProgress = 0, aborted = False, inFlight = [], delays = [], next_number = 0, calls = []\<rparr>"

section \<open>Requests\<close>

definition set_busy :: "nat \<Rightarrow> bool \<Rightarrow> upload \<Rightarrow> upload" where
  "set_busy i b s = s\<lparr>chunkState := (chunkState s)[i := (chunkState s ! i)\<lparr>busy := b\<rparr>]\<rparr>"

definition onChunkProgress :: "nat \<Rightarrow> int \<Rightarrow> upload \<Rightarrow> upload" where
  "onChunkProgress i sent s =
     (let cs = (chunkState s)[i := (chunkState s ! i)\<lparr>bytesUploaded := sent\<rparr>]
      in call (On_progress (sum_list (map bytesUploaded cs)) (dataSize s)) (s\<lparr>chunkState := cs\<rparr>))"

definition onChunkComplete :: "nat \<Rightarrow> upload \<Rightarrow> upload" where
  "onChunkComplete i s =
     call (On_chunk_complete i) (s\<lparr>chunkState := (chunkState s)[i := (chunkState s ! i)\<lparr>finished := True\<rparr>]\<rparr>)"

definition completeUpload :: "upload \<Rightarrow> upload" where
  "completeUpload s = call On_success s"

definition onError :: "upload_error \<Rightarrow> upload \<Rightarrow> upload" where
  "onError e s = (if e = Abort_error then s else call (On_error e) s)"

text \<open>Only an error that holds an answer of the server has a status.\<close>

definition shouldRetry :: "upload_error \<Rightarrow> bool" where
  "shouldRetry e = (case e of
     Status_error st \<Rightarrow> st = 0 \<or> st = 409 \<or> st = 423 \<or> (st \<ge> 500 \<and> st < 600) | _ \<Rightarrow> False)"

text \<open>The form that is sent with a chunk, without the chunk itself.\<close>

definition name_char :: "char \<Rightarrow> bool" where
  "name_char c \<longleftrightarrow> is_num c \<or> is_alpha c \<or> c = CHR ''_'' \<or> c = CHR ''-''"

definition buildFormData :: "upload \<Rightarrow> nat \<Rightarrow> nat \<times> nat \<Rightarrow> (string \<times> string) list" where
  "buildFormData s n body =
     [(''resumableChunkNumber'', show_nat n),
      (''resumableCurrentChunkSize'', show_nat (body_size body)),
      (''resumableChunkSize'', (case chunkSize s of Some c \<Rightarrow> show_nat c | None \<Rightarrow> ''undefined'')),
      (''resumableTotalSize'', show_nat (dataSize s)),
      (''resumableFilename'', dataName s),
      (''resumableIdentifier'', show_nat (dataSize s) @ ''-'' @ filter name_char (dataName s))]"

text \<open>A request carries its chunk; this is the form it is sent with.\<close>

definition request_form :: "upload \<Rightarrow> upload_request \<Rightarrow> (string \<times> string) list" where
  "request_form s rq = buildFormData s (rq_index rq + 1) (rq_body rq)"

text \<open>
  An attempt is sent, throws at once, or its promise is rejected at once: the chunk was released,
  and its size cannot be read for the form.
\<close>

datatype attempt = Sent | Thrown upload_error | Rejected upload_error

definition uploadChunkBytes :: "nat \<Rightarrow> nat \<Rightarrow> upload \<Rightarrow> attempt \<times> upload" where
  "uploadChunkBytes i n s =
     (case chunks s ! i of
        None \<Rightarrow> (Rejected Type_error, s)
      | Some b \<Rightarrow> (Sent, s\<lparr>inFlight := om_set (next_number s) \<lparr>rq_index = i, rq_body = b, rq_attempt = n\<rparr> (inFlight s),
                           next_number := next_number s + 1\<rparr>))"

definition uploadChunk :: "nat \<Rightarrow> nat \<Rightarrow> upload \<Rightarrow> attempt \<times> upload" where
  "uploadChunk i n s =
     (let s1 = set_busy i True s
      in if aborted s1 then (Thrown Abort_error, set_busy i False s1) else uploadChunkBytes i n s1)"

text \<open>The end of \<open>retryable\<close> with an error, and the error of an attempt.\<close>

definition settle_error :: "upload_error \<Rightarrow> upload \<Rightarrow> upload" where
  "settle_error e s = onError e (s\<lparr>chunksInProgress := chunksInProgress s - 1\<rparr>)"

definition attempt_failed :: "nat \<Rightarrow> nat \<Rightarrow> upload_error \<Rightarrow> upload \<Rightarrow> upload" where
  "attempt_failed i n e s =
     (if aborted s then settle_error Abort_error s
      else if shouldRetry e \<and> n < length (retryDelays s)
      then s\<lparr>delays := om_set (next_number s) (i, n + 1) (delays s), next_number := next_number s + 1\<rparr>
      else settle_error e s)"

text \<open>An attempt that throws at once leaves \<open>retryable\<close> before its end was registered.\<close>

definition uploadChunkRetryable :: "nat \<Rightarrow> upload \<Rightarrow> upload_error option \<times> upload" where
  "uploadChunkRetryable i s =
     (case uploadChunk i 0 (s\<lparr>chunksInProgress := chunksInProgress s + 1\<rparr>) of
        (Sent, s1) \<Rightarrow> (None, s1)
      | (Thrown e, s1) \<Rightarrow> (Some e, s1)
      | (Rejected e, s1) \<Rightarrow> (None, attempt_failed i 0 e s1))"

section \<open>Choosing chunks\<close>

fun candidates_loop :: "int \<Rightarrow> nat list \<Rightarrow> (nat \<times> chunk_state) list \<Rightarrow> nat list" where
  "candidates_loop need found [] = found"
| "candidates_loop need found ((i, c) # cs) =
     (if \<not> finished c \<and> \<not> busy c
      then if int (length found) + 1 \<ge> need then found @ [i] else candidates_loop need (found @ [i]) cs
      else candidates_loop need found cs)"

fun start_all :: "nat list \<Rightarrow> upload \<Rightarrow> upload_error option \<times> upload" where
  "start_all [] s = (None, s)"
| "start_all (i # is) s =
     (case uploadChunkRetryable i s of
        (Some e, s1) \<Rightarrow> (Some e, s1)
      | (None, s1) \<Rightarrow> start_all is s1)"

definition completed :: "upload \<Rightarrow> nat" where
  "completed s = length (filter finished (chunkState s))"

definition enough_free :: "upload \<Rightarrow> bool" where
  "enough_free s =
     (let remaining = length (chunks s) - completed s;
          half = (limit s + 1) div 2;
          minNeeded = (if half > remaining then remaining else half)
      in int (limit s) - chunksInProgress s \<ge> int minNeeded)"

definition uploadChunks :: "upload \<Rightarrow> upload_error option \<times> upload" where
  "uploadChunks s =
     (if list_all finished (chunkState s) then (None, completeUpload s)
      else if \<not> enough_free s then (None, s)
      else start_all (candidates_loop (int (limit s) - chunksInProgress s) []
                        (zip [0..<length (chunkState s)] (chunkState s))) s)"

definition createUpload :: "upload \<Rightarrow> upload_error option \<times> upload" where
  "createUpload s = (if aborted s then (Some Abort_error, s) else uploadChunks (call On_start s))"

definition start_upload :: "upload \<Rightarrow> upload_error option \<times> upload" where
  "start_upload s = createUpload s"

definition abortUpload :: "upload \<Rightarrow> upload" where
  "abortUpload s = s\<lparr>aborted := True\<rparr>"

definition abort :: "bool \<Rightarrow> upload \<Rightarrow> upload" where
  "abort really s = (if really then abortUpload s else s)"

section \<open>Events\<close>

text \<open>
  The handlers of a request are registered on it; \<open>xhr.abort()\<close> is called when they are registered
  and not when the upload is aborted, so that a request goes on until it loads or fails.
\<close>

definition settle_ok :: "upload \<Rightarrow> upload" where
  "settle_ok s = snd (uploadChunks (s\<lparr>chunksInProgress := chunksInProgress s - 1\<rparr>))"

definition xhr_progress :: "nat \<Rightarrow> bool \<Rightarrow> int \<Rightarrow> upload \<Rightarrow> upload" where
  "xhr_progress k computable sent s =
     (case om_get (inFlight s) k of
        None \<Rightarrow> s
      | Some rq \<Rightarrow> if computable then onChunkProgress (rq_index rq) sent s else s)"

definition close_request :: "nat \<Rightarrow> upload_request \<Rightarrow> upload \<Rightarrow> upload" where
  "close_request k rq s = set_busy (rq_index rq) False (s\<lparr>inFlight := om_delete k (inFlight s)\<rparr>)"

definition chunk_loaded :: "upload_request \<Rightarrow> upload \<Rightarrow> upload" where
  "chunk_loaded rq s =
     onChunkComplete (rq_index rq)
       (onChunkProgress (rq_index rq) (int (body_size (rq_body rq))) (s\<lparr>chunks := (chunks s)[rq_index rq := None]\<rparr>))"

definition xhr_load :: "nat \<Rightarrow> int \<Rightarrow> upload \<Rightarrow> upload" where
  "xhr_load k status s =
     (case om_get (inFlight s) k of
        None \<Rightarrow> s
      | Some rq \<Rightarrow>
          (let s1 = close_request k rq s
           in if status < 200 \<or> status \<ge> 300 then attempt_failed (rq_index rq) (rq_attempt rq) (Status_error status) s1
              else settle_ok (chunk_loaded rq s1)))"

definition xhr_error :: "nat \<Rightarrow> int \<Rightarrow> upload \<Rightarrow> upload" where
  "xhr_error k status s =
     (case om_get (inFlight s) k of
        None \<Rightarrow> s
      | Some rq \<Rightarrow> attempt_failed (rq_index rq) (rq_attempt rq) (Status_error status) (close_request k rq s))"

definition xhr_abort :: "nat \<Rightarrow> upload \<Rightarrow> upload" where
  "xhr_abort k s =
     (case om_get (inFlight s) k of
        None \<Rightarrow> s
      | Some rq \<Rightarrow> attempt_failed (rq_index rq) (rq_attempt rq) Abort_error (close_request k rq s))"

text \<open>A delay ends when its time is over, or with an abort error when the upload is aborted.\<close>

definition delay_over :: "nat \<Rightarrow> upload \<Rightarrow> upload" where
  "delay_over k s =
     (case om_get (delays s) k of
        None \<Rightarrow> s
      | Some (i, n) \<Rightarrow>
          (case uploadChunk i n (s\<lparr>delays := om_delete k (delays s)\<rparr>) of
             (Sent, s1) \<Rightarrow> s1
           | (Thrown e, s1) \<Rightarrow> settle_error e s1
           | (Rejected e, s1) \<Rightarrow> attempt_failed i n e s1))"

definition delay_aborted :: "nat \<Rightarrow> upload \<Rightarrow> upload" where
  "delay_aborted k s =
     (case om_get (delays s) k of
        None \<Rightarrow> s
      | Some _ \<Rightarrow> settle_error Abort_error (s\<lparr>delays := om_delete k (delays s)\<rparr>))"

datatype upload_event =
    Start
  | Abort bool
  | Progress nat bool int
  | Load nat int
  | Failure nat int
  | Cancelled nat
  | Delay_over nat
  | Delay_aborted nat

definition handle :: "upload_event \<Rightarrow> upload \<Rightarrow> upload" where
  "handle e s = (case e of
     Start \<Rightarrow> snd (start_upload s)
   | Abort b \<Rightarrow> abort b s
   | Progress k c n \<Rightarrow> xhr_progress k c n s
   | Load k st \<Rightarrow> xhr_load k st s
   | Failure k st \<Rightarrow> xhr_error k st s
   | Cancelled k \<Rightarrow> xhr_abort k s
   | Delay_over k \<Rightarrow> delay_over k s
   | Delay_aborted k \<Rightarrow> delay_aborted k s)"

definition run :: "upload_event list \<Rightarrow> upload \<Rightarrow> upload" where
  "run es s = fold handle es s"

end
