(* ===== verification/ChunkedUploadProofs.thy ===== *)
theory ChunkedUploadProofs
  imports ChunkedUpload
begin

text \<open>
  Uploading in chunks: the chunks are the file, at most \<open>limit\<close> of them are on their way, success is
  reported when all of them were loaded, and what aborting and retrying do.
\<close>

section \<open>The chunks of a file\<close>

definition slice_of :: "'a list \<Rightarrow> nat \<times> nat \<Rightarrow> 'a list" where
  "slice_of xs b = take (body_size b) (drop (fst b) xs)"

text \<open>Slices from a position to the end, each at most as large as a step and only the last one smaller.\<close>

fun tiles :: "nat \<Rightarrow> nat \<Rightarrow> nat \<Rightarrow> (nat \<times> nat) list \<Rightarrow> bool" where
  "tiles n step i [] \<longleftrightarrow> n \<le> i"
| "tiles n step i ((a, b) # cs) \<longleftrightarrow> a = i \<and> i < n \<and> b = min n (i + step) \<and> tiles n step (i + step) cs"

lemma slices_step: "i < n \<Longrightarrow> slices n step (i + step) = Some cs \<Longrightarrow>
    slices n step i = Some ((i, min n (i + step)) # cs)"
  by (subst slices.simps) simp

lemma slices_tiles: "0 < step \<Longrightarrow> \<exists>cs. slices n step i = Some cs \<and> tiles n step i cs"
proof (induction "n - i" arbitrary: i rule: less_induct)
  case less
  show ?case
  proof (cases "i < n")
    case False
    then show ?thesis by (simp add: slices.simps)
  next
    case True
    then have "n - (i + step) < n - i" using less.prems by simp
    from less.hyps [OF this less.prems] obtain cs
      where "slices n step (i + step) = Some cs" "tiles n step (i + step) cs" by blast
    then show ?thesis using True slices_step by fastforce
  qed
qed

lemma tiles_concat: "tiles n step i cs \<Longrightarrow> length xs = n \<Longrightarrow> i \<le> n \<Longrightarrow>
    concat (map (slice_of xs) cs) = drop i xs"
proof (induction cs arbitrary: i)
  case (Cons c cs)
  obtain a b where [simp]: "c = (a, b)" by (cases c)
  from Cons.prems have e: "a = i" "b = min n (i + step)" and t: "tiles n step (i + step) cs" and l: "i < n" by auto
  show ?case
  proof (cases "i + step \<le> n")
    case True
    with Cons.IH [OF t Cons.prems(2)] e show ?thesis
      by (simp add: slice_of_def body_size_def) (metis append_take_drop_id drop_drop add.commute)
  next
    case False
    then have "cs = []" using t by (cases cs) auto
    with False e Cons.prems(2) show ?thesis by (simp add: slice_of_def body_size_def)
  qed
qed simp

lemma tiles_sizes: "tiles n step i cs \<Longrightarrow> 0 < step \<Longrightarrow> c \<in> set cs \<Longrightarrow> 0 < body_size c \<and> body_size c \<le> step"
  by (induction n step i cs rule: tiles.induct) (auto simp: body_size_def)

lemma tiles_sum: "tiles n step i cs \<Longrightarrow> sum_list (map body_size cs) = n - i"
proof (induction cs arbitrary: i)
  case (Cons c cs)
  obtain a b where [simp]: "c = (a, b)" by (cases c)
  from Cons.prems have "a = i" "b = min n (i + step)" "tiles n step (i + step) cs" "i < n" by auto
  with Cons.IH [OF this(3)] show ?case by (simp add: body_size_def)
qed simp

lemma tiles_nonempty: "tiles n step i cs \<Longrightarrow> i < n \<Longrightarrow> cs \<noteq> []"
  by auto

lemma cut_default:
  obtains cs where "cut n n (Some (5 * MB)) = Some cs" "cs \<noteq> []" "sum_list (map body_size cs) = n"
    "\<And>xs. length xs = n \<Longrightarrow> concat (map (slice_of xs) cs) = xs" "\<And>c. c \<in> set cs \<Longrightarrow> body_size c \<le> 5 * MB"
proof (cases "n = 0")
  case True
  show ?thesis by (rule that [of "[(0, 0)]"]) (simp_all add: True cut_def body_size_def slice_of_def)
next
  case False
  have p: "0 < 5 * MB" by (simp add: MB_def)
  from slices_tiles [OF p] obtain cs where s: "slices n (5 * MB) 0 = Some cs" and t: "tiles n (5 * MB) 0 cs" by blast
  show ?thesis
  proof (rule that)
    show "cut n n (Some (5 * MB)) = Some cs" using False s by (simp add: cut_def)
    show "cs \<noteq> []" using tiles_nonempty [OF t] False by simp
    show "sum_list (map body_size cs) = n" using tiles_sum [OF t] by simp
    show "concat (map (slice_of xs) cs) = xs" if "length xs = n" for xs :: "'a list" using tiles_concat [OF t that] by simp
    show "body_size c \<le> 5 * MB" if "c \<in> set cs" for c using tiles_sizes [OF t p that] by simp
  qed
qed

text \<open>
  Cutting a file always ends; the chunks, each of at most five megabytes, put together are the
  file, and a file without content is one empty chunk.
\<close>

theorem chunks_are_the_file:
  "\<exists>s. new_upload False lim retries (length file) (length file) name = Some s \<and>
     concat (map (slice_of file) (map the (chunks s))) = file \<and>
     (\<forall>c \<in> set (chunks s). c \<noteq> None \<and> body_size (the c) \<le> 5 * MB) \<and>
     length (chunkState s) = length (chunks s) \<and> chunks s \<noteq> []"
proof -
  obtain cs where "cut (length file) (length file) (Some (5 * MB)) = Some cs" "cs \<noteq> []"
    "concat (map (slice_of file) cs) = file" "\<And>c. c \<in> set cs \<Longrightarrow> body_size c \<le> 5 * MB"
    by (rule cut_default [of "length file"]) auto
  then show ?thesis by (auto simp: new_upload_def initChunks_def o_def)
qed

theorem chunks_are_the_file_witness:
  "\<exists>s. new_upload False 5 [] (length ''abc'') (length ''abc'') ''f'' = Some s \<and>
     concat (map (slice_of ''abc'') (map the (chunks s))) = ''abc''"
  using chunks_are_the_file [of 5 "[]" "''abc''" "''f''"] by blast

text \<open>
  With the option \<open>getChunkSize\<close> given as a function the chunk size is never set, and a file becomes
  one chunk without content.
\<close>

lemma chunk_size_option_loses_file:
  "0 < n \<Longrightarrow> map_option chunks (new_upload True lim retries n n name) = Some [Some (0, 0)]"
  by (simp add: new_upload_def initChunks_def cut_def)

section \<open>How many requests there are\<close>

text \<open>
  The chunks that are free to be read are those not finished; what is counted as in progress are
  the open requests and the delays, and after an abort also the attempts that threw.
\<close>

definition shape :: "upload \<Rightarrow> bool" where
  "shape s \<longleftrightarrow> length (chunkState s) = length (chunks s) \<and>
     list_all (\<lambda>p. rq_index (snd p) < length (chunks s)) (inFlight s) \<and>
     list_all (\<lambda>p. fst (snd p) < length (chunks s)) (delays s) \<and>
     (\<forall>i < length (chunks s). chunks s ! i = None \<longleftrightarrow> finished (chunkState s ! i))"

definition below :: "nat \<Rightarrow> (nat, 'a) omap \<Rightarrow> bool" where
  "below n m \<longleftrightarrow> om_wf m \<and> list_all (\<lambda>p. fst p < n) m"

definition numbered :: "upload \<Rightarrow> bool" where
  "numbered s \<longleftrightarrow> below (next_number s) (inFlight s) \<and> below (next_number s) (delays s)"

definition on_their_way :: "upload \<Rightarrow> int" where
  "on_their_way s = int (length (inFlight s)) + int (length (delays s))"

text \<open>\<open>d\<close> attempts are being settled, which are still counted.\<close>

definition counted :: "int \<Rightarrow> upload \<Rightarrow> bool" where
  "counted d s \<longleftrightarrow> on_their_way s + d \<le> chunksInProgress s \<and>
     (\<not> aborted s \<longrightarrow> chunksInProgress s = on_their_way s + d)"

definition reported :: "upload \<Rightarrow> bool" where
  "reported s \<longleftrightarrow> (\<forall>i < length (chunks s). finished (chunkState s ! i) \<longrightarrow> On_chunk_complete i \<in> set (calls s)) \<and>
     (On_success \<in> set (calls s) \<longrightarrow> list_all finished (chunkState s))"

definition upload_ok :: "int \<Rightarrow> upload \<Rightarrow> bool" where
  "upload_ok d s \<longleftrightarrow> shape s \<and> numbered s \<and> counted d s \<and> reported s"

lemmas upload_parts = upload_ok_def shape_def numbered_def counted_def on_their_way_def reported_def

lemma om_delete_length: "om_wf m \<Longrightarrow> om_get m k = Some v \<Longrightarrow> length m = Suc (length (om_delete k m))"
proof (induction m)
  case (Cons p m)
  show ?case
  proof (cases "fst p = k")
    case True
    then have "om_get m k = None" using Cons.prems(1) by (auto simp: map_of_eq_None_iff)
    then show ?thesis using True om_delete_absent [of m k] by (simp add: om_delete_def)
  next
    case False
    then show ?thesis using Cons by (cases p) (simp add: om_delete_def)
  qed
qed simp

lemma below_set: "below n m \<Longrightarrow> om_set n v m = m @ [(n, v)]"
  by (rule om_set_fresh) (fastforce simp: map_of_eq_None_iff below_def list_all_iff)

lemma below_add: "below n m \<Longrightarrow> below (n + 1) (m @ [(n, v)])"
  by (fastforce simp: below_def list_all_iff)

lemma below_Suc: "below n m \<Longrightarrow> below (n + 1) m"
  by (fastforce simp: below_def list_all_iff)

lemma below_delete: "below n m \<Longrightarrow> below n (om_delete k m)"
  by (auto simp: below_def list_all_iff om_delete_def om_keys_delete [unfolded om_delete_def])

lemma list_all_delete: "list_all P m \<Longrightarrow> list_all P (om_delete k m)"
  by (auto simp: om_delete_def list_all_iff)

lemma list_all_get: "list_all P m \<Longrightarrow> om_get m k = Some v \<Longrightarrow> P (k, v)"
  by (auto simp: list_all_iff dest: map_of_SomeD)

subsection \<open>Steps on one chunk\<close>

definition on_chunk :: "nat \<Rightarrow> (chunk_state \<Rightarrow> chunk_state) \<Rightarrow> upload \<Rightarrow> upload" where
  "on_chunk i f s = s\<lparr>chunkState := (chunkState s)[i := f (chunkState s ! i)]\<rparr>"

lemma on_chunk_simps [simp]:
  "chunks (on_chunk i f s) = chunks s" "inFlight (on_chunk i f s) = inFlight s" "delays (on_chunk i f s) = delays s"
  "chunksInProgress (on_chunk i f s) = chunksInProgress s" "aborted (on_chunk i f s) = aborted s"
  "next_number (on_chunk i f s) = next_number s" "calls (on_chunk i f s) = calls s" "limit (on_chunk i f s) = limit s"
  "length (chunkState (on_chunk i f s)) = length (chunkState s)" "retryDelays (on_chunk i f s) = retryDelays s"
  "dataSize (on_chunk i f s) = dataSize s"
  by (simp_all add: on_chunk_def)

lemma on_chunk_nth: "j < length (chunkState s) \<Longrightarrow>
    chunkState (on_chunk i f s) ! j = (if j = i then f (chunkState s ! i) else chunkState s ! j)"
  by (simp add: on_chunk_def)

lemma set_busy_on_chunk: "set_busy i b s = on_chunk i (\<lambda>c. c\<lparr>busy := b\<rparr>) s"
  by (simp add: set_busy_def on_chunk_def)

lemma upload_ok_on_chunk:
  assumes "\<And>c. finished (f c) = finished c"
  shows "upload_ok d (on_chunk i f s) = upload_ok d s"
proof -
  have f: "finished (chunkState (on_chunk i f s) ! j) = finished (chunkState s ! j)" if "j < length (chunkState s)" for j
    using that assms by (simp add: on_chunk_nth)
  have "shape (on_chunk i f s) = shape s" unfolding shape_def by (simp add: f cong: conj_cong)
  moreover have "numbered (on_chunk i f s) = numbered s" "counted d (on_chunk i f s) = counted d s"
    by (simp_all add: numbered_def counted_def on_their_way_def)
  moreover have "reported (on_chunk i f s) = reported s" if "shape s"
    using that unfolding reported_def shape_def list_all_length by (simp add: f cong: conj_cong)
  ultimately show ?thesis by (auto simp: upload_ok_def)
qed

lemma set_busy_simps [simp]:
  "chunks (set_busy i b s) = chunks s" "inFlight (set_busy i b s) = inFlight s" "delays (set_busy i b s) = delays s"
  "chunksInProgress (set_busy i b s) = chunksInProgress s" "aborted (set_busy i b s) = aborted s"
  "next_number (set_busy i b s) = next_number s" "calls (set_busy i b s) = calls s" "limit (set_busy i b s) = limit s"
  "length (chunkState (set_busy i b s)) = length (chunkState s)" "retryDelays (set_busy i b s) = retryDelays s"
  "dataSize (set_busy i b s) = dataSize s"
  by (simp_all add: set_busy_on_chunk)

lemma upload_ok_set_busy [simp]: "upload_ok d (set_busy i b s) = upload_ok d s"
  by (simp add: set_busy_on_chunk upload_ok_on_chunk)

lemma call_simps [simp]:
  "chunks (call c s) = chunks s" "inFlight (call c s) = inFlight s" "delays (call c s) = delays s"
  "chunksInProgress (call c s) = chunksInProgress s" "aborted (call c s) = aborted s"
  "next_number (call c s) = next_number s" "calls (call c s) = calls s @ [c]" "limit (call c s) = limit s"
  "chunkState (call c s) = chunkState s" "retryDelays (call c s) = retryDelays s" "dataSize (call c s) = dataSize s"
  by (simp_all add: call_def)

lemma upload_ok_call:
  "upload_ok d s \<Longrightarrow> (c = On_success \<longrightarrow> list_all finished (chunkState s)) \<Longrightarrow> upload_ok d (call c s)"
  by (auto simp: upload_parts)

lemma onChunkProgress_on_chunk: "onChunkProgress i n s =
    call (On_progress (sum_list (map bytesUploaded (chunkState (on_chunk i (\<lambda>c. c\<lparr>bytesUploaded := n\<rparr>) s)))) (dataSize s))
      (on_chunk i (\<lambda>c. c\<lparr>bytesUploaded := n\<rparr>) s)"
  by (simp add: onChunkProgress_def on_chunk_def Let_def)

lemma upload_ok_progress [simp]: "upload_ok d s \<Longrightarrow> upload_ok d (onChunkProgress i n s)"
  unfolding onChunkProgress_on_chunk by (rule upload_ok_call) (simp_all add: upload_ok_on_chunk)

lemma chunk_loaded_eq: "chunk_loaded rq s = (let i = rq_index rq in
    call (On_chunk_complete i) (on_chunk i (\<lambda>c. c\<lparr>finished := True\<rparr>)
      (onChunkProgress i (int (body_size (rq_body rq))) (s\<lparr>chunks := (chunks s)[i := None]\<rparr>))))"
  by (simp add: chunk_loaded_def onChunkComplete_def on_chunk_def Let_def)

lemma chunk_loaded_simps [simp]:
  "chunks (chunk_loaded rq s) = (chunks s)[rq_index rq := None]" "inFlight (chunk_loaded rq s) = inFlight s"
  "delays (chunk_loaded rq s) = delays s" "chunksInProgress (chunk_loaded rq s) = chunksInProgress s"
  "aborted (chunk_loaded rq s) = aborted s" "next_number (chunk_loaded rq s) = next_number s"
  "limit (chunk_loaded rq s) = limit s" "length (chunkState (chunk_loaded rq s)) = length (chunkState s)"
  "retryDelays (chunk_loaded rq s) = retryDelays s" "dataSize (chunk_loaded rq s) = dataSize s"
  by (simp_all add: chunk_loaded_eq onChunkProgress_on_chunk Let_def)

lemma chunk_loaded_calls: "\<exists>n. calls (chunk_loaded rq s) = calls s @ [On_progress n (dataSize s), On_chunk_complete (rq_index rq)]"
  by (simp add: chunk_loaded_eq onChunkProgress_on_chunk Let_def)

lemma chunk_loaded_finished: "j < length (chunkState s) \<Longrightarrow>
    finished (chunkState (chunk_loaded rq s) ! j) = (j = rq_index rq \<or> finished (chunkState s ! j))"
  by (simp add: chunk_loaded_eq onChunkProgress_on_chunk Let_def on_chunk_nth)

lemma upload_ok_loaded:
  assumes "upload_ok d s" "rq_index rq < length (chunks s)"
  shows "upload_ok d (chunk_loaded rq s)"
proof -
  obtain n where c: "calls (chunk_loaded rq s) = calls s @ [On_progress n (dataSize s), On_chunk_complete (rq_index rq)]"
    using chunk_loaded_calls by blast
  have "shape (chunk_loaded rq s)"
    using assms by (simp add: upload_ok_def shape_def chunk_loaded_finished nth_list_update)
  moreover have "numbered (chunk_loaded rq s)" using assms by (simp add: upload_ok_def numbered_def)
  moreover have "counted d (chunk_loaded rq s)"
    using assms by (simp add: upload_ok_def counted_def on_their_way_def)
  moreover have "reported (chunk_loaded rq s)"
    using assms by (auto simp: upload_ok_def reported_def shape_def c chunk_loaded_finished list_all_length)
  ultimately show ?thesis by (simp add: upload_ok_def)
qed

subsection \<open>Requests and delays\<close>

lemma upload_ok_close:
  assumes "upload_ok 0 s" "om_get (inFlight s) k = Some rq"
  shows "upload_ok 1 (close_request k rq s)" "rq_index rq < length (chunks s)"
proof -
  have w: "om_wf (inFlight s)" using assms(1) by (simp add: upload_ok_def numbered_def below_def)
  have l: "length (inFlight s) = Suc (length (om_delete k (inFlight s)))" by (rule om_delete_length [OF w assms(2)])
  show "rq_index rq < length (chunks s)"
    using assms(1) list_all_get [OF _ assms(2)] by (fastforce simp: upload_ok_def shape_def)
  let ?s = "s\<lparr>inFlight := om_delete k (inFlight s)\<rparr>"
  have "shape ?s" using assms(1) by (simp add: upload_ok_def shape_def list_all_delete)
  moreover have "numbered ?s" using assms(1) by (simp add: upload_ok_def numbered_def below_delete)
  moreover have "counted 1 ?s" using assms(1) l by (simp add: upload_ok_def counted_def on_their_way_def)
  moreover have "reported ?s" using assms(1) by (simp add: upload_ok_def reported_def)
  ultimately show "upload_ok 1 (close_request k rq s)" by (simp add: close_request_def upload_ok_def [of _ ?s])
qed

lemma upload_ok_settle_error: "upload_ok 1 s \<Longrightarrow> upload_ok 0 (settle_error e s)"
  by (simp add: settle_error_def onError_def upload_ok_def shape_def numbered_def counted_def on_their_way_def reported_def)

lemma upload_ok_delayed:
  assumes "upload_ok 1 s" "i < length (chunks s)"
  shows "upload_ok 0 (s\<lparr>delays := om_set (next_number s) (i, n) (delays s), next_number := next_number s + 1\<rparr>)"
proof -
  have b: "below (next_number s) (delays s)" "below (next_number s) (inFlight s)" using assms(1) by (simp_all add: upload_ok_def numbered_def)
  show ?thesis
    using assms below_add [OF b(1), of "(i, n)"] below_Suc [OF b(2)]
    by (simp add: below_set [OF b(1)] upload_ok_def shape_def numbered_def counted_def on_their_way_def reported_def)
qed

lemma upload_ok_sent:
  assumes "upload_ok 1 s" "rq_index rq < length (chunks s)"
  shows "upload_ok 0 (s\<lparr>inFlight := om_set (next_number s) rq (inFlight s), next_number := next_number s + 1\<rparr>)"
proof -
  have b: "below (next_number s) (inFlight s)" "below (next_number s) (delays s)" using assms(1) by (simp_all add: upload_ok_def numbered_def)
  show ?thesis
    using assms below_add [OF b(1), of rq] below_Suc [OF b(2)]
    by (simp add: below_set [OF b(1)] upload_ok_def shape_def numbered_def counted_def on_their_way_def reported_def)
qed

lemma upload_ok_failed:
  "upload_ok 1 s \<Longrightarrow> i < length (chunks s) \<Longrightarrow> upload_ok 0 (attempt_failed i n e s)"
  by (simp add: attempt_failed_def upload_ok_settle_error upload_ok_delayed [of _ _ "Suc n", simplified])

lemma uploadChunkBytes_ok:
  assumes "upload_ok 1 s" "i < length (chunks s)" "uploadChunkBytes i n s = (r, s')"
  shows "case r of Sent \<Rightarrow> upload_ok 0 s' | Thrown e \<Rightarrow> False | Rejected e \<Rightarrow> s' = s"
proof (cases "chunks s ! i")
  case None
  then show ?thesis using assms by (auto simp: uploadChunkBytes_def)
next
  case (Some b)
  with upload_ok_sent [OF assms(1), of "\<lparr>rq_index = i, rq_body = b, rq_attempt = n\<rparr>"] assms(2,3) show ?thesis
    by (auto simp: uploadChunkBytes_def)
qed

lemma uploadChunk_ok:
  assumes "upload_ok 1 s" "i < length (chunks s)" "uploadChunk i n s = (r, s')"
  shows "case r of Sent \<Rightarrow> upload_ok 0 s' | Thrown e \<Rightarrow> upload_ok 1 s' \<and> aborted s' | Rejected e \<Rightarrow> upload_ok 1 s'"
proof (cases "aborted s")
  case True
  then have "r = Thrown Abort_error" "s' = set_busy i False (set_busy i True s)"
    using assms(3) by (simp_all add: uploadChunk_def)
  with True assms(1) show ?thesis by simp
next
  case False
  then have "uploadChunkBytes i n (set_busy i True s) = (r, s')" using assms(3) by (simp add: uploadChunk_def)
  moreover have "upload_ok 1 (set_busy i True s)" "i < length (chunks (set_busy i True s))" using assms by simp_all
  ultimately show ?thesis using uploadChunkBytes_ok [of "set_busy i True s" i n r s'] by (cases r) auto
qed

lemma upload_ok_retryable:
  assumes "upload_ok 0 s" "i < length (chunks s)"
  shows "upload_ok 0 (snd (uploadChunkRetryable i s))"
proof -
  let ?s = "s\<lparr>chunksInProgress := chunksInProgress s + 1\<rparr>"
  have k: "upload_ok 1 ?s" using assms(1) by (auto simp: upload_ok_def shape_def numbered_def counted_def on_their_way_def reported_def)
  obtain r s' where u: "uploadChunk i 0 ?s = (r, s')" by fastforce
  have weaken: "upload_ok 1 s' \<Longrightarrow> aborted s' \<Longrightarrow> upload_ok 0 s'"
    by (auto simp: upload_ok_def counted_def)
  have l: "length (chunks s') = length (chunks s)"
    using u by (auto simp: uploadChunk_def uploadChunkBytes_def Let_def set_busy_on_chunk split: if_splits option.splits)
  show ?thesis
    using uploadChunk_ok [OF k _ u] assms(2) u weaken l upload_ok_failed [of s' i 0]
    by (cases r) (auto simp: uploadChunkRetryable_def)
qed

lemma length_chunks_retryable [simp]: "length (chunks (snd (uploadChunkRetryable i s))) = length (chunks s)"
  by (auto simp: uploadChunkRetryable_def uploadChunk_def uploadChunkBytes_def attempt_failed_def settle_error_def
      onError_def set_busy_on_chunk Let_def split: option.splits attempt.splits if_splits)

lemma upload_ok_start_all:
  "upload_ok 0 s \<Longrightarrow> \<forall>i \<in> set ks. i < length (chunks s) \<Longrightarrow> upload_ok 0 (snd (start_all ks s))"
proof (induction ks arbitrary: s)
  case (Cons i ks)
  have k: "upload_ok 0 (snd (uploadChunkRetryable i s))" using Cons.prems by (intro upload_ok_retryable) auto
  show ?case
  proof (cases "uploadChunkRetryable i s")
    case (Pair r s')
    with k Cons.prems Cons.IH [of s'] length_chunks_retryable [of i s] show ?thesis by (auto split: option.splits)
  qed
qed simp

lemma candidates_set: "set (candidates_loop need found cs) \<subseteq> set found \<union> fst ` set cs"
  by (induction need found cs rule: candidates_loop.induct) (auto split: if_splits)

lemma candidates_index:
  assumes "i \<in> set (candidates_loop need [] (zip [0..<n] cs))"
  shows "i < n"
proof -
  have "fst ` set (zip [0..<n] cs) \<subseteq> {..<n}" by (force dest: set_zip_leftD)
  then show ?thesis using candidates_set [of need "[]" "zip [0..<n] cs"] assms by fastforce
qed

lemma upload_ok_uploadChunks:
  assumes "upload_ok 0 s"
  shows "upload_ok 0 (snd (uploadChunks s))"
proof -
  have "length (chunkState s) = length (chunks s)" using assms by (simp add: upload_ok_def shape_def)
  then have "upload_ok 0 (snd (start_all (candidates_loop (int (limit s) - chunksInProgress s) []
                        (zip [0..<length (chunkState s)] (chunkState s))) s))"
    by (intro upload_ok_start_all [OF assms]) (auto dest: candidates_index)
  then show ?thesis using assms by (auto simp: uploadChunks_def completeUpload_def upload_ok_call)
qed

lemma upload_ok_settle_ok: "upload_ok 1 s \<Longrightarrow> upload_ok 0 (settle_ok s)"
  unfolding settle_ok_def
  by (rule upload_ok_uploadChunks) (auto simp: upload_ok_def shape_def numbered_def counted_def on_their_way_def reported_def)

lemma upload_ok_undelay:
  assumes "upload_ok 0 s" "om_get (delays s) k = Some (i, n)"
  shows "upload_ok 1 (s\<lparr>delays := om_delete k (delays s)\<rparr>)" "i < length (chunks s)"
proof -
  have w: "om_wf (delays s)" using assms(1) by (simp add: upload_ok_def numbered_def below_def)
  have l: "length (delays s) = Suc (length (om_delete k (delays s)))" by (rule om_delete_length [OF w assms(2)])
  show "i < length (chunks s)" using assms(1) list_all_get [OF _ assms(2)] by (fastforce simp: upload_ok_def shape_def)
  show "upload_ok 1 (s\<lparr>delays := om_delete k (delays s)\<rparr>)"
    using assms(1) l
    by (simp add: upload_ok_def shape_def numbered_def counted_def on_their_way_def reported_def below_delete list_all_delete)
qed

lemma upload_ok_delay_over: "upload_ok 0 s \<Longrightarrow> upload_ok 0 (delay_over k s)"
proof (cases "om_get (delays s) k")
  case (Some p)
  obtain i n where p: "p = (i, n)" by (cases p)
  assume k: "upload_ok 0 s"
  let ?s = "s\<lparr>delays := om_delete k (delays s)\<rparr>"
  obtain r s' where u: "uploadChunk i n ?s = (r, s')" by fastforce
  have o1: "upload_ok 1 ?s" and l: "i < length (chunks ?s)"
    using upload_ok_undelay [OF k] Some p by simp_all
  have "length (chunks s') = length (chunks s)"
    using u by (auto simp: uploadChunk_def uploadChunkBytes_def Let_def split: if_splits option.splits)
  then show ?thesis
    using uploadChunk_ok [OF o1 l u] l u Some p upload_ok_failed [of s' i n] upload_ok_settle_error [of s']
    by (cases r) (auto simp: delay_over_def)
qed (simp add: delay_over_def)

lemma upload_ok_handle: "upload_ok 0 s \<Longrightarrow> upload_ok 0 (handle e s)"
proof (cases e)
  case Start
  assume "upload_ok 0 s"
  moreover have "upload_ok 0 (call On_start s)" if "upload_ok 0 s" using that by (rule upload_ok_call) simp
  ultimately show ?thesis by (simp add: Start handle_def start_upload_def createUpload_def upload_ok_uploadChunks)
next
  case (Abort b)
  assume "upload_ok 0 s"
  then have "upload_ok 0 (s\<lparr>aborted := True\<rparr>)"
    by (simp add: upload_ok_def shape_def numbered_def counted_def on_their_way_def reported_def)
  with \<open>upload_ok 0 s\<close> show ?thesis by (simp add: Abort handle_def abort_def abortUpload_def)
next
  case (Progress k c n)
  assume "upload_ok 0 s"
  then show ?thesis by (simp add: Progress handle_def xhr_progress_def split: option.splits)
next
  case (Load k st)
  assume k: "upload_ok 0 s"
  show ?thesis
  proof (cases "om_get (inFlight s) k")
    case None
    then show ?thesis using k by (simp add: Load handle_def xhr_load_def)
  next
    case (Some rq)
    note c = upload_ok_close [OF k Some]
    have "upload_ok 1 (chunk_loaded rq (close_request k rq s))"
      using c by (intro upload_ok_loaded) (simp_all add: close_request_def)
    then show ?thesis using c Some
      by (simp add: Load handle_def xhr_load_def Let_def upload_ok_settle_ok upload_ok_failed close_request_def)
  qed
next
  case (Failure k st)
  assume k: "upload_ok 0 s"
  then show ?thesis using upload_ok_close [OF k, of k]
    by (auto simp: Failure handle_def xhr_error_def close_request_def split: option.splits intro!: upload_ok_failed)
next
  case (Cancelled k)
  assume k: "upload_ok 0 s"
  then show ?thesis using upload_ok_close [OF k, of k]
    by (auto simp: Cancelled handle_def xhr_abort_def close_request_def split: option.splits intro!: upload_ok_failed)
next
  case (Delay_over k)
  assume "upload_ok 0 s"
  then show ?thesis by (simp add: Delay_over handle_def upload_ok_delay_over)
next
  case (Delay_aborted k)
  assume "upload_ok 0 s"
  then show ?thesis
    by (auto simp: Delay_aborted handle_def delay_aborted_def split: option.splits
        intro!: upload_ok_settle_error upload_ok_undelay)
qed

subsection \<open>The limit\<close>

definition within :: "nat \<Rightarrow> upload \<Rightarrow> bool" where
  "within n s \<longleftrightarrow> limit s = n \<and> chunksInProgress s \<le> int n"

lemma uploadChunk_progress:
  "chunksInProgress (snd (uploadChunk i n s)) = chunksInProgress s \<and> limit (snd (uploadChunk i n s)) = limit s"
  by (simp add: uploadChunk_def uploadChunkBytes_def Let_def split: option.splits)

lemma failed_progress:
  "chunksInProgress (attempt_failed i n e s) \<le> chunksInProgress s \<and> limit (attempt_failed i n e s) = limit s"
  by (simp add: attempt_failed_def settle_error_def onError_def)

lemma retryable_progress:
  "chunksInProgress (snd (uploadChunkRetryable i s)) \<le> chunksInProgress s + 1 \<and>
   limit (snd (uploadChunkRetryable i s)) = limit s"
proof -
  obtain r s' where u: "uploadChunk i 0 (s\<lparr>chunksInProgress := chunksInProgress s + 1\<rparr>) = (r, s')" by fastforce
  with uploadChunk_progress [of i 0 "s\<lparr>chunksInProgress := chunksInProgress s + 1\<rparr>"]
  have "chunksInProgress s' = chunksInProgress s + 1" "limit s' = limit s" by simp_all
  then show ?thesis using u failed_progress [of i 0 _ s'] by (cases r) (auto simp: uploadChunkRetryable_def)
qed

lemma start_all_progress:
  "chunksInProgress (snd (start_all ks s)) \<le> chunksInProgress s + int (length ks) \<and> limit (snd (start_all ks s)) = limit s"
proof (induction ks arbitrary: s)
  case (Cons i ks)
  obtain r s' where u: "uploadChunkRetryable i s = (r, s')" by fastforce
  with retryable_progress [of i s] Cons.IH [of s'] show ?case by (auto split: option.splits)
qed simp

lemma candidates_length: "int (length found) < need \<Longrightarrow> int (length (candidates_loop need found cs)) \<le> need"
  by (induction need found cs rule: candidates_loop.induct) auto

lemma uploadChunks_within:
  assumes "shape s" "within n s" "0 < n"
  shows "within n (snd (uploadChunks s))"
proof (cases "list_all finished (chunkState s) \<or> \<not> enough_free s")
  case True
  then show ?thesis using assms by (auto simp: uploadChunks_def within_def completeUpload_def)
next
  case False
  then obtain c where "c \<in> set (chunkState s)" "\<not> finished c" by (auto simp: list_all_iff)
  then have "completed s < length (chunks s)"
    using length_filter_less [of c "chunkState s" finished] assms(1) by (simp add: completed_def shape_def)
  then have "int (limit s) - chunksInProgress s \<ge> 1"
    using False assms(2,3) by (auto simp: enough_free_def Let_def within_def split: if_splits)
  then have "int (length (candidates_loop (int (limit s) - chunksInProgress s) []
      (zip [0..<length (chunkState s)] (chunkState s)))) \<le> int (limit s) - chunksInProgress s"
    by (intro candidates_length) simp
  then show ?thesis
    using start_all_progress [of "candidates_loop (int (limit s) - chunksInProgress s) []
      (zip [0..<length (chunkState s)] (chunkState s))" s] False assms(2)
    by (auto simp: uploadChunks_def within_def)
qed

lemma settle_ok_within: "shape s \<Longrightarrow> within n s \<Longrightarrow> 0 < n \<Longrightarrow> within n (settle_ok s)"
  unfolding settle_ok_def by (rule uploadChunks_within) (simp_all add: shape_def within_def)

lemma failed_within: "within n s \<Longrightarrow> within n (attempt_failed i a e s)"
  using failed_progress [of i a e s] by (simp add: within_def)

lemma within_close [simp]: "within n (close_request k rq s) = within n s"
  by (simp add: within_def close_request_def)

lemma handle_within:
  assumes "upload_ok 0 s" "within n s" "0 < n"
  shows "within n (handle e s)"
proof (cases e)
  case Start
  have "shape (call On_start s)" "within n (call On_start s)" using assms by (simp_all add: upload_ok_def shape_def within_def)
  from uploadChunks_within [OF this assms(3)] assms(2) show ?thesis by (simp add: Start handle_def start_upload_def createUpload_def)
next
  case (Abort b)
  with assms(2) show ?thesis by (simp add: handle_def abort_def abortUpload_def within_def)
next
  case (Progress k c m)
  with assms(2) show ?thesis
    by (auto simp: handle_def xhr_progress_def onChunkProgress_on_chunk within_def split: option.splits)
next
  case (Load k st)
  show ?thesis
  proof (cases "om_get (inFlight s) k")
    case (Some rq)
    note c = upload_ok_close [OF assms(1) Some]
    then have "shape (chunk_loaded rq (close_request k rq s))"
      using upload_ok_loaded [of 1 "close_request k rq s" rq] by (simp add: upload_ok_def close_request_def)
    moreover have "within n (chunk_loaded rq (close_request k rq s))" using assms(2) by (simp add: within_def close_request_def)
    ultimately show ?thesis using assms Some
      by (simp add: Load handle_def xhr_load_def Let_def settle_ok_within failed_within)
  qed (use assms(2) in \<open>simp add: Load handle_def xhr_load_def\<close>)
next
  case (Failure k st)
  with assms(2) show ?thesis by (simp add: handle_def xhr_error_def failed_within split: option.splits)
next
  case (Cancelled k)
  with assms(2) show ?thesis by (simp add: handle_def xhr_abort_def failed_within split: option.splits)
next
  case (Delay_over k)
  show ?thesis
  proof (cases "om_get (delays s) k")
    case (Some p)
    obtain i a where p: "p = (i, a)" by (cases p)
    obtain r s' where u: "uploadChunk i a (s\<lparr>delays := om_delete k (delays s)\<rparr>) = (r, s')" by fastforce
    then have "within n s'" using uploadChunk_progress [of i a "s\<lparr>delays := om_delete k (delays s)\<rparr>"] assms(2)
      by (simp add: within_def)
    moreover have "within n (settle_error x s')" if "within n s'" for x
      using that by (simp add: within_def settle_error_def onError_def)
    ultimately show ?thesis using u Some p
      by (cases r) (simp_all add: Delay_over handle_def delay_over_def failed_within)
  qed (use assms(2) in \<open>simp add: Delay_over handle_def delay_over_def\<close>)
next
  case (Delay_aborted k)
  with assms(2) show ?thesis
    by (simp add: handle_def delay_aborted_def settle_error_def onError_def within_def split: option.splits)
qed

lemma new_upload_ok:
  assumes "new_upload given n retries fs ds name = Some s"
  shows "upload_ok 0 s" "within n s"
  using assms
  by (auto simp: new_upload_def initChunks_def upload_ok_def shape_def numbered_def below_def counted_def
      on_their_way_def reported_def within_def fresh_state_def)

lemma run_keeps: "upload_ok 0 s \<Longrightarrow> within n s \<Longrightarrow> 0 < n \<Longrightarrow> upload_ok 0 (run es s) \<and> within n (run es s)"
  unfolding run_def
  by (induction es arbitrary: s) (simp_all add: upload_ok_handle handle_within)

text \<open>
  C18. Whatever is loaded, fails, is retried or aborted, in any order: at most \<open>limit\<close> requests and
  delays exist, and success is only reported when every chunk was loaded and reported as complete.
\<close>

theorem upload_safe:
  assumes "new_upload given n retries fs ds name = Some s" "0 < n"
  shows "length (inFlight (run es s)) + length (delays (run es s)) \<le> n \<and>
    (On_success \<in> set (calls (run es s)) \<longrightarrow>
       (\<forall>i < length (chunks (run es s)). chunks (run es s) ! i = None \<and> On_chunk_complete i \<in> set (calls (run es s))))"
proof -
  have k: "upload_ok 0 (run es s)" "within n (run es s)" using run_keeps [OF new_upload_ok [OF assms(1)] assms(2)] by simp_all
  from k have "int (length (inFlight (run es s)) + length (delays (run es s))) \<le> int n"
    by (simp add: upload_ok_def counted_def on_their_way_def within_def)
  with k(1) show ?thesis by (auto simp: upload_ok_def shape_def reported_def list_all_length)
qed

section \<open>A retry that comes too late\<close>

definition two_chunks :: "nat \<Rightarrow> nat list \<Rightarrow> nat \<Rightarrow> string \<Rightarrow> upload" where
  "two_chunks lim retries n name =
     \<lparr>limit = lim, retryDelays = retries, chunkSize = Some (5 * MB), fileSize = n, dataSize = n, dataName = name,
      chunks = [Some (0, 5 * MB), Some (5 * MB, n)], chunkState = [fresh_state, fresh_state],
      chunksInProgress = 0, aborted = False, inFlight = [], delays = [], next_number = 0, calls = []\<rparr>"

lemma new_two_chunks:
  assumes "5 * MB < n" "n \<le> 10 * MB"
  shows "new_upload False lim retries n n name = Some (two_chunks lim retries n name)"
proof -
  have "slices n (5 * MB) (5 * MB + 5 * MB) = Some []" using assms by (subst slices.simps) simp
  then have "slices n (5 * MB) (5 * MB) = Some [(5 * MB, n)]" using assms by (subst slices.simps) simp
  then have "slices n (5 * MB) 0 = Some [(0, 5 * MB), (5 * MB, n)]" using assms by (subst slices.simps) simp
  then show ?thesis using assms by (simp add: new_upload_def initChunks_def cut_def two_chunks_def)
qed


lemma enough_free_all:
  "completed s \<le> length (chunks s) \<Longrightarrow>
   int (length (chunks s)) - int (completed s) \<le> int (limit s) - chunksInProgress s \<Longrightarrow> enough_free s"
  by (cases "length (chunks s) - completed s < (limit s + 1) div 2") (auto simp: enough_free_def Let_def of_nat_diff)

lemmas upload_run = handle_def start_upload_def createUpload_def uploadChunks_def completed_def
  uploadChunkRetryable_def uploadChunk_def uploadChunkBytes_def set_busy_def call_def fresh_state_def
  xhr_load_def close_request_def attempt_failed_def shouldRetry_def settle_error_def settle_ok_def chunk_loaded_def
  onChunkComplete_def onChunkProgress_def completeUpload_def delay_over_def onError_def om_delete_def


definition two_state :: "upload \<Rightarrow> (nat \<times> nat) option list \<Rightarrow> chunk_state list \<Rightarrow> int \<Rightarrow>
    (nat, upload_request) omap \<Rightarrow> (nat, nat \<times> nat) omap \<Rightarrow> nat \<Rightarrow> callback_call list \<Rightarrow> upload" where
  "two_state s ch cs p fl del k log = s\<lparr>chunks := ch, chunkState := cs, chunksInProgress := p, inFlight := fl,
     delays := del, next_number := k, calls := log\<rparr>"

text \<open>
  C30. A chunk that waits for its retry counts as free. When another chunk completes in the
  meantime it is sent a second time; with the upload complete and success reported, the retry still
  runs, finds the chunk released, and an error is reported after the success.
\<close>

theorem late_retry_fails:
  assumes "5 * MB < n" "n \<le> 10 * MB" "2 \<le> lim"
  shows "\<exists>s pre. new_upload False lim (d # retries) n n name = Some s \<and>
     calls (run [Start, Load 0 500, Load 1 200, Load 3 200, Delay_over 2] s) = pre @ [On_success, On_error Type_error]"
proof -
  have "\<exists>pre. calls (run [Start, Load 0 500, Load 1 200, Load 3 200, Delay_over 2] (two_chunks lim (d # retries) n name)) =
     pre @ [On_success, On_error Type_error]"
  proof -
    let ?s0 = "two_chunks lim (d # retries) n name"
    let ?c = "\<lambda>n b f. \<lparr>bytesUploaded = n, busy = b, finished = f\<rparr>"
    let ?r0 = "\<lparr>rq_index = 0, rq_body = (0, 5 * MB), rq_attempt = 0\<rparr>"
    let ?r1 = "\<lparr>rq_index = 1, rq_body = (5 * MB, n), rq_attempt = 0\<rparr>"
    have 1: "handle Start ?s0 = two_state ?s0 [Some (0, 5 * MB), Some (5 * MB, n)] [?c 0 True False, ?c 0 True False] 2
        [(0, ?r0), (1, ?r1)] [] 2 [On_start]" (is "_ = ?s1")
      using assms by (simp add: upload_run two_state_def two_chunks_def upt_rec enough_free_all)
    have 2: "handle (Load 0 500) ?s1 = two_state ?s0 [Some (0, 5 * MB), Some (5 * MB, n)] [?c 0 False False, ?c 0 True False] 2
        [(1, ?r1)] [(2, 0, 1)] 3 [On_start]" (is "_ = ?s2")
      using assms by (simp add: upload_run two_state_def two_chunks_def)
    have 3: "handle (Load 1 200) ?s2 = two_state ?s0 [Some (0, 5 * MB), None] [?c 0 True False, ?c (int (body_size (5 * MB, n))) False True] 2
        [(3, ?r0)] [(2, 0, 1)] 4 [On_start, On_progress (int (body_size (5 * MB, n))) n, On_chunk_complete 1]" (is "_ = ?s3")
      using assms by (simp add: upload_run two_state_def two_chunks_def upt_rec enough_free_all)
    have 4: "\<exists>pre. handle (Load 3 200) ?s3 = two_state ?s0 [None, None] [?c (int (5 * MB)) False True, ?c (int (body_size (5 * MB, n))) False True] 1
        [] [(2, 0, 1)] 4 (pre @ [On_success])"
      using assms by (simp add: upload_run two_state_def two_chunks_def body_size_def)
    have 5: "calls (handle (Delay_over 2) (two_state ?s0 [None, None] [?c a False True, ?c b False True] 1
        [] [(2, 0, 1)] 4 cs)) = cs @ [On_error Type_error]" for a b cs
      using assms by (simp add: upload_run two_state_def two_chunks_def)
    show ?thesis unfolding run_def fold_simps 1 2 3 using 4 5 by fastforce
  qed
  with new_two_chunks [OF assms(1,2)] show ?thesis by blast
qed

theorem late_retry_fails_witness:
  "\<exists>s pre. new_upload False 5 [0] (6 * MB) (6 * MB) ''f'' = Some s \<and>
     calls (run [Start, Load 0 500, Load 1 200, Load 3 200, Delay_over 2] s) = pre @ [On_success, On_error Type_error]"
  by (rule late_retry_fails) (simp_all add: MB_def)

theorem upload_safe_witness:
  "length (inFlight (run [Start, Load 0 200] (two_chunks 5 [] (6 * MB) ''f''))) +
   length (delays (run [Start, Load 0 200] (two_chunks 5 [] (6 * MB) ''f''))) \<le> 5"
  using upload_safe [of False 5 "[]" "6 * MB" "6 * MB" "''f''" "two_chunks 5 [] (6 * MB) ''f''" "[Start, Load 0 200]"]
    new_two_chunks [of "6 * MB" 5 "[]" "''f''"] by (simp add: MB_def)

text \<open>Aborting does not stop the requests that are open, and success is still reported for them.\<close>

lemma aborted_upload_succeeds:
  assumes "2 \<le> lim"
  shows "\<exists>pre. calls (run [Start, Abort True, Load 0 200, Load 1 200] (two_chunks lim retries n name)) = pre @ [On_success]"
proof -
  let ?s0 = "two_chunks lim retries n name"
  let ?c = "\<lambda>n b f. \<lparr>bytesUploaded = n, busy = b, finished = f\<rparr>"
  let ?r0 = "\<lparr>rq_index = 0, rq_body = (0, 5 * MB), rq_attempt = 0\<rparr>"
  let ?r1 = "\<lparr>rq_index = 1, rq_body = (5 * MB, n), rq_attempt = 0\<rparr>"
  have 1: "handle Start ?s0 = two_state ?s0 [Some (0, 5 * MB), Some (5 * MB, n)] [?c 0 True False, ?c 0 True False] 2
      [(0, ?r0), (1, ?r1)] [] 2 [On_start]" (is "_ = ?s1")
    using assms by (simp add: upload_run two_state_def two_chunks_def upt_rec enough_free_all)
  have 2: "\<exists>cs. handle (Load 0 200) (handle (Abort True) ?s1) = (two_state ?s0 [None, Some (5 * MB, n)]
      [?c (int (5 * MB)) False True, ?c 0 True False] 1 [(1, ?r1)] [] 2 cs)\<lparr>aborted := True\<rparr>"
    using assms by (simp add: upload_run abort_def abortUpload_def two_state_def two_chunks_def upt_rec enough_free_all body_size_def)
  have 3: "\<exists>pre. calls (handle (Load 1 200) ((two_state ?s0 [None, Some (5 * MB, n)]
      [?c (int (5 * MB)) False True, ?c 0 True False] 1 [(1, ?r1)] [] 2 cs)\<lparr>aborted := True\<rparr>)) = pre @ [On_success]" for cs
    by (simp add: upload_run two_state_def two_chunks_def)
  show ?thesis unfolding run_def fold_simps 1 using 2 3 by metis
qed

end
