(* ===== verification/ChunkedUploadLive.thy ===== *)
theory ChunkedUploadLive
  imports ChunkedUploadProofs
begin

text \<open>
  An upload in chunks of which no request fails: how the next chunks are chosen, that there is always
  a request open, and that the upload ends with success.
\<close>

section \<open>Every chunk is uploaded\<close>

lemma candidates_take:
  "int (length found) < need \<Longrightarrow> candidates_loop need found cs =
     found @ take (nat need - length found) (map fst (filter (\<lambda>(i, c). \<not> finished c \<and> \<not> busy c) cs))"
  by (induction need found cs rule: candidates_loop.induct) (auto simp: take_Cons' Suc_diff_Suc)

definition indices :: "upload \<Rightarrow> nat list" where
  "indices s = map (\<lambda>p. rq_index (snd p)) (inFlight s)"

text \<open>Without failures each chunk that is busy has one request, for the chunk as it was cut.\<close>

definition one_each :: "upload \<Rightarrow> bool" where
  "one_each s \<longleftrightarrow> distinct (indices s) \<and>
     (\<forall>i < length (chunks s). busy (chunkState s ! i) \<longleftrightarrow> i \<in> set (indices s)) \<and>
     (\<forall>i \<in> set (indices s). \<not> finished (chunkState s ! i))"

definition as_cut :: "(nat \<times> nat) list \<Rightarrow> upload \<Rightarrow> bool" where
  "as_cut cs s \<longleftrightarrow> length (chunks s) = length cs \<and>
     (\<forall>i < length cs. chunks s ! i = (if finished (chunkState s ! i) then None else Some (cs ! i))) \<and>
     (\<forall>i < length cs. finished (chunkState s ! i) \<longrightarrow> bytesUploaded (chunkState s ! i) = int (body_size (cs ! i))) \<and>
     list_all (\<lambda>p. rq_body (snd p) = cs ! rq_index (snd p)) (inFlight s)"

definition going_on :: "(nat \<times> nat) list \<Rightarrow> upload \<Rightarrow> bool" where
  "going_on cs s \<longleftrightarrow> one_each s \<and> as_cut cs s \<and> \<not> aborted s \<and> delays s = []"

definition send :: "nat \<Rightarrow> (nat \<times> nat) \<Rightarrow> upload \<Rightarrow> upload" where
  "send i b s = (set_busy i True s)\<lparr>chunksInProgress := chunksInProgress s + 1,
     inFlight := inFlight s @ [(next_number s, \<lparr>rq_index = i, rq_body = b, rq_attempt = 0\<rparr>)],
     next_number := next_number s + 1\<rparr>"

lemma retryable_sends:
  assumes "\<not> aborted s" "chunks s ! i = Some b" "below (next_number s) (inFlight s)"
  shows "uploadChunkRetryable i s = (None, send i b s)"
  using assms below_set [OF assms(3)]
  by (simp add: uploadChunkRetryable_def uploadChunk_def uploadChunkBytes_def send_def set_busy_def)

lemma finished_set_busy [simp]: "finished (chunkState (set_busy i b s) ! j) = finished (chunkState s ! j)"
proof (cases "i = j \<and> i < length (chunkState s)")
  case False
  then show ?thesis by (cases "i = j") (simp_all add: set_busy_def list_update_beyond)
qed (simp add: set_busy_def)

lemma send_going_on:
  assumes "going_on cs s" "upload_ok d s" "i < length cs" "\<not> finished (chunkState s ! i)" "\<not> busy (chunkState s ! i)"
  shows "going_on cs (send i (cs ! i) s)"
proof -
  have l: "length (chunkState s) = length cs" "length (chunks s) = length cs"
    using assms(1,2) by (simp_all add: going_on_def as_cut_def upload_ok_def shape_def)
  have n: "i \<notin> set (indices s)" using assms(1,3,5) l by (auto simp: going_on_def one_each_def)
  have "one_each (send i (cs ! i) s)"
  proof -
    have "busy (chunkState (set_busy i True s) ! j) = (j = i \<or> busy (chunkState s ! j))" if "j < length cs" for j
      using that l by (simp add: set_busy_on_chunk on_chunk_nth)
    moreover have "indices (send i (cs ! i) s) = indices s @ [i]" by (simp add: indices_def send_def)
    ultimately show ?thesis using assms(1,4) l n by (auto simp: going_on_def one_each_def send_def)
  qed
  moreover have "as_cut cs (send i (cs ! i) s)"
    using assms l by (auto simp: going_on_def as_cut_def send_def set_busy_on_chunk on_chunk_nth)
  ultimately show ?thesis using assms(1) by (simp add: going_on_def send_def)
qed

lemma start_all_going_on:
  "going_on cs s \<Longrightarrow> upload_ok 0 s \<Longrightarrow> distinct ks \<Longrightarrow>
   \<forall>i \<in> set ks. i < length cs \<and> \<not> finished (chunkState s ! i) \<and> \<not> busy (chunkState s ! i) \<Longrightarrow>
   going_on cs (snd (start_all ks s)) \<and> calls (snd (start_all ks s)) = calls s \<and>
   length (inFlight (snd (start_all ks s))) = length (inFlight s) + length ks \<and>
   completed (snd (start_all ks s)) = completed s \<and> dataSize (snd (start_all ks s)) = dataSize s"
proof (induction ks arbitrary: s)
  case (Cons i ks)
  let ?s = "send i (cs ! i) s"
  have i: "i < length cs" "\<not> finished (chunkState s ! i)" "\<not> busy (chunkState s ! i)" using Cons.prems(4) by simp_all
  have l: "length (chunkState s) = length cs" "length (chunks s) = length cs"
    using Cons.prems(1,2) by (simp_all add: going_on_def as_cut_def upload_ok_def shape_def)
  have e: "uploadChunkRetryable i s = (None, ?s)"
    using Cons.prems(1,2) i by (intro retryable_sends) (auto simp: going_on_def as_cut_def upload_ok_def numbered_def)
  have k: "going_on cs ?s" "upload_ok 0 ?s"
    using send_going_on [OF Cons.prems(1,2) i] upload_ok_retryable [OF Cons.prems(2), of i] i l e by simp_all
  have "\<forall>j \<in> set ks. j < length cs \<and> \<not> finished (chunkState ?s ! j) \<and> \<not> busy (chunkState ?s ! j)"
    using Cons.prems(3,4) l by (auto simp: send_def set_busy_on_chunk on_chunk_nth)
  moreover have "completed ?s = completed s"
  proof -
    have "map finished (chunkState ?s) = map finished (chunkState s)"
      by (rule nth_equalityI) (simp_all add: send_def set_busy_on_chunk on_chunk_nth)
    then have "length (filter (\<lambda>b. b) (map finished (chunkState ?s))) = length (filter (\<lambda>b. b) (map finished (chunkState s)))" by simp
    then show ?thesis by (simp add: completed_def filter_map o_def)
  qed
  moreover have "calls ?s = calls s" "dataSize ?s = dataSize s" "length (inFlight ?s) = Suc (length (inFlight s))"
    by (simp_all add: send_def)
  ultimately show ?case using Cons.IH [OF k] Cons.prems(3) e by simp
qed simp

lemma free_chunks:
  assumes "i \<in> set (map fst (filter (\<lambda>(i, c). \<not> finished c \<and> \<not> busy c) (zip [0..<length xs] xs)))"
  shows "i < length xs" "\<not> finished (xs ! i)" "\<not> busy (xs ! i)"
  using assms by (auto simp: in_set_zip)

lemma free_chunks_distinct: "distinct (map fst (filter P (zip [0..<length xs] xs)))"
  by (rule distinct_map_filter) simp

lemma free_chunks_complete:
  assumes "i < length xs" "\<not> finished (xs ! i)" "\<not> busy (xs ! i)"
  shows "i \<in> set (map fst (filter (\<lambda>(i, c). \<not> finished c \<and> \<not> busy c) (zip [0..<length xs] xs)))"
proof -
  have "(i, xs ! i) \<in> set (zip [0..<length xs] xs)" using assms(1) by (auto simp: in_set_zip intro!: exI [of _ i])
  then show ?thesis using assms(2,3) by force
qed

definition uploaded :: "upload \<Rightarrow> int" where
  "uploaded s = sum_list (map bytesUploaded (chunkState s))"

lemma completed_all: "length (chunkState s) = n \<Longrightarrow> completed s = n \<longleftrightarrow> list_all finished (chunkState s)"
  using filter_id_conv [of finished "chunkState s"] length_filter_le [of finished "chunkState s"]
  by (fastforce simp: completed_def list_all_iff dest: length_filter_less)

lemma on_the_way_going_on: "going_on cs s \<Longrightarrow> upload_ok 0 s \<Longrightarrow> chunksInProgress s = int (length (inFlight s))"
  by (simp add: going_on_def upload_ok_def counted_def on_their_way_def)

lemma uploadChunks_going_on:
  assumes "going_on cs s" "upload_ok 0 s" "within n s" "0 < n"
  shows "going_on cs (snd (uploadChunks s)) \<and> completed (snd (uploadChunks s)) = completed s \<and>
    dataSize (snd (uploadChunks s)) = dataSize s \<and>
    (if completed s = length cs
     then calls (snd (uploadChunks s)) = calls s @ [On_success] \<and> inFlight (snd (uploadChunks s)) = inFlight s
     else calls (snd (uploadChunks s)) = calls s \<and> inFlight (snd (uploadChunks s)) \<noteq> [])"
proof -
  have l: "length (chunkState s) = length cs" "length (chunks s) = length cs"
    using assms(1,2) by (simp_all add: going_on_def as_cut_def upload_ok_def shape_def)
  have flying: "chunksInProgress s = int (length (inFlight s))" by (rule on_the_way_going_on [OF assms(1,2)])
  consider (all) "list_all finished (chunkState s)"
    | (few) "\<not> list_all finished (chunkState s)" "\<not> enough_free s"
    | (go) "\<not> list_all finished (chunkState s)" "enough_free s" by blast
  then show ?thesis
  proof cases
    case all
    then show ?thesis using assms(1) completed_all [OF l(1)]
      by (simp add: uploadChunks_def completeUpload_def going_on_def one_each_def as_cut_def indices_def completed_def)
  next
    case few
    have "inFlight s \<noteq> []"
      using few(2) flying assms(3,4) by (auto simp: enough_free_def Let_def within_def split: if_splits)
    then show ?thesis using few assms(1) completed_all [OF l(1)] by (simp add: uploadChunks_def)
  next
    case go
    let ?need = "int (limit s) - chunksInProgress s"
    let ?free = "map fst (filter (\<lambda>(i, c). \<not> finished c \<and> \<not> busy c) (zip [0..<length (chunkState s)] (chunkState s)))"
    have "completed s < length cs" using go(1) completed_all [OF l(1)] length_filter_le [of finished "chunkState s"] l
      by (fastforce simp: completed_def)
    then have need: "1 \<le> ?need" using go(2) assms(3,4) l by (auto simp: enough_free_def Let_def within_def split: if_splits)
    then have c: "candidates_loop ?need [] (zip [0..<length (chunkState s)] (chunkState s)) = take (nat ?need) ?free"
      by (simp add: candidates_take)
    have s': "snd (uploadChunks s) = snd (start_all (take (nat ?need) ?free) s)" using go c by (simp add: uploadChunks_def)
    have "distinct (take (nat ?need) ?free)" by (intro distinct_take free_chunks_distinct)
    moreover have "\<forall>i \<in> set (take (nat ?need) ?free). i < length cs \<and> \<not> finished (chunkState s ! i) \<and> \<not> busy (chunkState s ! i)"
    proof (rule ballI)
      fix i assume "i \<in> set (take (nat ?need) ?free)"
      then have "i \<in> set ?free" by (rule in_set_takeD)
      from free_chunks [OF this] l show "i < length cs \<and> \<not> finished (chunkState s ! i) \<and> \<not> busy (chunkState s ! i)" by simp
    qed
    ultimately have k: "going_on cs (snd (uploadChunks s))" "calls (snd (uploadChunks s)) = calls s"
      "length (inFlight (snd (uploadChunks s))) = length (inFlight s) + length (take (nat ?need) ?free)"
      "completed (snd (uploadChunks s)) = completed s" "dataSize (snd (uploadChunks s)) = dataSize s"
      using start_all_going_on [OF assms(1,2)] s' by simp_all
    have "inFlight (snd (uploadChunks s)) \<noteq> []"
    proof (cases "?free = []")
      case True
      obtain i where i: "i < length cs" "\<not> finished (chunkState s ! i)" using go(1) l by (auto simp: list_all_length)
      have "i \<notin> set ?free" unfolding True by simp
      then have "busy (chunkState s ! i)" using free_chunks_complete [of i "chunkState s"] i l by argo
      then have "i \<in> set (indices s)" using assms(1) i l by (simp add: going_on_def one_each_def)
      then have "0 < length (inFlight s)" by (auto simp: indices_def)
      then show ?thesis unfolding length_greater_0_conv [symmetric] k(3) by linarith
    next
      case False
      then have "0 < length (take (nat ?need) ?free)" using need by simp
      then show ?thesis unfolding length_greater_0_conv [symmetric] k(3) by linarith
    qed
    then show ?thesis using k go(1) completed_all [OF l(1)] by simp
  qed
qed

lemma om_delete_split:
  assumes "om_wf m" "om_get m k = Some v"
  obtains pre post where "m = pre @ (k, v) # post" "om_delete k m = pre @ post"
proof -
  obtain pre post where m: "m = pre @ (k, v) # post" using map_of_SomeD [OF assms(2)] by (auto dest: split_list)
  have "om_get pre k = None" "om_get post k = None" using assms(1) m by (auto simp: map_of_eq_None_iff)
  then have "om_delete k m = pre @ post" using om_delete_absent [of pre k] om_delete_absent [of post k] m
    by (simp add: om_delete_def)
  with m that show ?thesis by blast
qed

lemma loaded_bytes: "j < length (chunkState s) \<Longrightarrow> bytesUploaded (chunkState (chunk_loaded rq s) ! j) =
    (if j = rq_index rq then int (body_size (rq_body rq)) else bytesUploaded (chunkState s ! j))"
  by (simp add: chunk_loaded_eq onChunkProgress_on_chunk Let_def on_chunk_nth)

lemma loaded_busy: "j < length (chunkState s) \<Longrightarrow> busy (chunkState (chunk_loaded rq s) ! j) = busy (chunkState s ! j)"
  by (simp add: chunk_loaded_eq onChunkProgress_on_chunk Let_def on_chunk_nth)

lemma loaded_calls: "calls (chunk_loaded rq s) =
    calls s @ [On_progress (uploaded (chunk_loaded rq s)) (dataSize s), On_chunk_complete (rq_index rq)]"
proof -
  let ?t = "on_chunk (rq_index rq) (\<lambda>c. c\<lparr>bytesUploaded := int (body_size (rq_body rq))\<rparr>) (s\<lparr>chunks := (chunks s)[rq_index rq := None]\<rparr>)"
  have "map bytesUploaded (chunkState (on_chunk i (\<lambda>c. c\<lparr>finished := True\<rparr>) u)) = map bytesUploaded (chunkState u)" for i u
    by (rule nth_equalityI) (simp_all add: on_chunk_nth)
  then show ?thesis by (simp add: chunk_loaded_eq onChunkProgress_on_chunk Let_def uploaded_def)
qed

lemma filter_update: "i < length xs \<Longrightarrow> \<not> xs ! i \<Longrightarrow>
    length (filter (\<lambda>b. b) (xs[i := True])) = Suc (length (filter (\<lambda>b. b) xs))"
proof -
  assume i: "i < length xs" "\<not> xs ! i"
  then have "xs = take i xs @ False # drop (Suc i) xs" using id_take_nth_drop [of i xs] by simp
  moreover have "xs[i := True] = take i xs @ True # drop (Suc i) xs" using i by (simp add: upd_conv_take_nth_drop)
  ultimately obtain ys zs where "xs = ys @ False # zs" "xs[i := True] = ys @ True # zs" by blast
  then show ?thesis by simp
qed

lemma completed_flags: "completed s = length (filter (\<lambda>b. b) (map finished (chunkState s)))"
  by (simp add: completed_def filter_map o_def)

lemma going_on_index:
  assumes "going_on cs s" "upload_ok 0 s" "i \<in> set (indices s)"
  shows "i < length cs" "\<not> finished (chunkState s ! i)"
  using assms by (auto simp: going_on_def as_cut_def one_each_def upload_ok_def shape_def indices_def list_all_iff)

lemma loaded_going_on:
  assumes "going_on cs s" "upload_ok 0 s" "om_get (inFlight s) k = Some rq"
  defines "t \<equiv> chunk_loaded rq (close_request k rq s)"
  shows "going_on cs t" "completed t = Suc (completed s)" "dataSize t = dataSize s"
    "calls t = calls s @ [On_progress (uploaded t) (dataSize s), On_chunk_complete (rq_index rq)]"
proof -
  let ?i = "rq_index rq" and ?c = "close_request k rq s"
  have l: "length (chunkState s) = length cs" "length (chunks s) = length cs"
    using assms(1,2) by (simp_all add: going_on_def as_cut_def upload_ok_def shape_def)
  have "om_wf (inFlight s)" using assms(2) by (simp add: upload_ok_def numbered_def below_def)
  then obtain pre post where m: "inFlight s = pre @ (k, rq) # post" "om_delete k (inFlight s) = pre @ post"
    by (rule om_delete_split [OF _ assms(3)])
  have ind: "indices s = map (\<lambda>p. rq_index (snd p)) pre @ ?i # map (\<lambda>p. rq_index (snd p)) post"
    by (simp add: indices_def m)
  have i: "?i < length cs" "\<not> finished (chunkState s ! ?i)"
    using going_on_index [OF assms(1,2), of ?i] ind by simp_all
  have indt: "indices t = map (\<lambda>p. rq_index (snd p)) pre @ map (\<lambda>p. rq_index (snd p)) post"
    by (simp add: t_def indices_def close_request_def m(2))
  have lc: "length (chunkState ?c) = length cs" using l by (simp add: close_request_def)
  have fin: "finished (chunkState t ! j) = (j = ?i \<or> finished (chunkState s ! j))" if "j < length cs" for j
    using that lc by (simp add: t_def chunk_loaded_finished) (simp add: close_request_def)
  have bus: "busy (chunkState t ! j) = (j \<noteq> ?i \<and> busy (chunkState s ! j))" if "j < length cs" for j
    using that lc l by (simp add: t_def loaded_busy) (simp add: close_request_def set_busy_on_chunk on_chunk_nth)
  have byt: "bytesUploaded (chunkState t ! j) = (if j = ?i then int (body_size (rq_body rq)) else bytesUploaded (chunkState s ! j))"
    if "j < length cs" for j
    using that lc l by (simp add: t_def loaded_bytes) (simp add: close_request_def set_busy_on_chunk on_chunk_nth)
  have lt: "length (chunkState t) = length cs" "chunks t = (chunks s)[?i := None]" "inFlight t = pre @ post"
    "aborted t = aborted s" "delays t = delays s"
    using l by (simp_all add: t_def close_request_def m(2))
  have one: "distinct (indices s)" "\<And>j. j < length cs \<Longrightarrow> busy (chunkState s ! j) \<longleftrightarrow> j \<in> set (indices s)"
    using assms(1) l by (simp_all add: going_on_def one_each_def)
  obtain A B where ab: "indices s = A @ ?i # B" "indices t = A @ B" using ind indt by blast
  have d: "distinct (A @ ?i # B)" and mem: "\<And>j. j < length cs \<Longrightarrow> busy (chunkState s ! j) \<longleftrightarrow> j \<in> set (A @ ?i # B)"
    using one ab by simp_all
  have "one_each t"
    unfolding one_each_def
  proof (intro conjI allI impI ballI)
    show "distinct (indices t)" using d ab(2) by simp
    show "busy (chunkState t ! j) = (j \<in> set (indices t))" if "j < length (chunks t)" for j
    proof -
      have "j < length cs" using that l lt(2) by simp
      then show ?thesis using bus [of j] mem [of j] d ab(2) by auto
    qed
    show "\<not> finished (chunkState t ! j)" if "j \<in> set (indices t)" for j
    proof -
      have "j \<in> set (indices s)" "j \<noteq> ?i" using that d ab by auto
      then show ?thesis using going_on_index [OF assms(1,2), of j] fin [of j] by simp
    qed
  qed
  moreover have "as_cut cs t"
    unfolding as_cut_def
  proof (intro conjI allI impI)
    show "length (chunks t) = length cs" using l lt by simp
    show "chunks t ! j = (if finished (chunkState t ! j) then None else Some (cs ! j))" if "j < length cs" for j
      using that assms(1) l lt(2) fin [OF that] by (cases "j = ?i") (auto simp: going_on_def as_cut_def)
    show "bytesUploaded (chunkState t ! j) = int (body_size (cs ! j))" if "j < length cs" "finished (chunkState t ! j)" for j
      using that assms(1) fin byt m by (auto simp: going_on_def as_cut_def)
    show "list_all (\<lambda>p. rq_body (snd p) = cs ! rq_index (snd p)) (inFlight t)"
      using assms(1) lt(3) m by (simp add: going_on_def as_cut_def)
  qed
  ultimately show "going_on cs t" using assms(1) lt by (simp add: going_on_def)
  have "map finished (chunkState t) = (map finished (chunkState s))[?i := True]"
    by (rule nth_equalityI) (simp_all add: l(1) lt(1) fin i(1) nth_list_update)
  then show "completed t = Suc (completed s)" using filter_update [of ?i "map finished (chunkState s)"] i l
    by (simp add: completed_flags)
  show "dataSize t = dataSize s" "calls t = calls s @ [On_progress (uploaded t) (dataSize s), On_chunk_complete (rq_index rq)]"
    using loaded_calls [of rq ?c] by (simp_all add: t_def close_request_def)
qed

text \<open>Runs in which nothing but successful answers of open requests arrives.\<close>

inductive loading :: "upload \<Rightarrow> nat \<Rightarrow> upload \<Rightarrow> bool" for s :: upload where
  loading_0: "loading s 0 s"
| loading_Suc: "loading s m t \<Longrightarrow> om_get (inFlight t) k = Some rq \<Longrightarrow> 200 \<le> st \<Longrightarrow> st < 300 \<Longrightarrow>
    loading s (Suc m) (handle (Load k st) t)"

lemma going_on_progress: "going_on cs (s\<lparr>chunksInProgress := p\<rparr>) = going_on cs s"
  by (simp add: going_on_def one_each_def as_cut_def indices_def)

lemma loading_step:
  assumes "going_on cs s" "upload_ok 0 s" "within n s" "0 < n" "om_get (inFlight s) k = Some rq" "200 \<le> st" "st < 300"
  defines "t \<equiv> handle (Load k st) s"
  shows "going_on cs t \<and> upload_ok 0 t \<and> within n t \<and> dataSize t = dataSize s \<and> completed t = Suc (completed s)"
    "Suc (completed s) \<noteq> length cs \<Longrightarrow> inFlight t \<noteq> [] \<and>
       (\<exists>b. calls t = calls s @ [On_progress b (dataSize s), On_chunk_complete (rq_index rq)])"
    "Suc (completed s) = length cs \<Longrightarrow>
       calls t = calls s @ [On_progress (uploaded t) (dataSize s), On_chunk_complete (rq_index rq), On_success]"
proof -
  let ?c = "chunk_loaded rq (close_request k rq s)"
  let ?u = "?c\<lparr>chunksInProgress := chunksInProgress ?c - 1\<rparr>"
  have t: "t = snd (uploadChunks ?u)"
    using assms(5-7) by (simp add: t_def handle_def xhr_load_def settle_ok_def Let_def)
  note c = loaded_going_on [OF assms(1,2,5)]
  have l: "length (chunkState ?c) = length cs"
    using assms(1,2) by (simp add: close_request_def going_on_def as_cut_def upload_ok_def shape_def)
  have u: "going_on cs ?u" "completed ?u = Suc (completed s)" "dataSize ?u = dataSize s" "uploaded ?u = uploaded ?c"
    using c by (simp_all add: going_on_progress completed_def uploaded_def)
  have "upload_ok 1 ?c" using upload_ok_close [OF assms(2,5)] by (intro upload_ok_loaded) (simp_all add: close_request_def)
  then have o: "upload_ok 0 ?u" by (simp add: upload_ok_def shape_def numbered_def counted_def on_their_way_def reported_def)
  have w: "within n ?u" using assms(3) by (simp add: within_def close_request_def)
  note r = uploadChunks_going_on [OF u(1) o w assms(4), folded t, unfolded u(2,3)]
  have ok: "upload_ok 0 t" "within n t" using upload_ok_handle [OF assms(2)] handle_within [OF assms(2-4)] by (simp_all add: t_def)
  show "going_on cs t \<and> upload_ok 0 t \<and> within n t \<and> dataSize t = dataSize s \<and> completed t = Suc (completed s)"
    using r ok by simp
  show "inFlight t \<noteq> [] \<and> (\<exists>b. calls t = calls s @ [On_progress b (dataSize s), On_chunk_complete (rq_index rq)])"
    if "Suc (completed s) \<noteq> length cs" using r c(4) that by simp
  show "calls t = calls s @ [On_progress (uploaded t) (dataSize s), On_chunk_complete (rq_index rq), On_success]"
    if "Suc (completed s) = length cs"
  proof -
    have "list_all finished (chunkState ?u)" using completed_all [of ?u] u(2) that l by simp
    then have "t = completeUpload ?u" by (simp add: t uploadChunks_def)
    then show ?thesis using c(4) u(4) by (simp add: completeUpload_def uploaded_def)
  qed
qed

lemma uploaded_all:
  assumes "going_on cs s" "upload_ok 0 s" "completed s = length cs"
  shows "uploaded s = int (sum_list (map body_size cs))" "inFlight s = []"
proof -
  have l: "length (chunkState s) = length cs" using assms(1,2) by (simp add: going_on_def as_cut_def upload_ok_def shape_def)
  then have f: "\<forall>i < length cs. finished (chunkState s ! i)" using completed_all [OF l] assms(3) by (simp add: list_all_length)
  then have "map bytesUploaded (chunkState s) = map (\<lambda>c. int (body_size c)) cs"
    using assms(1) l by (intro nth_equalityI) (simp_all add: going_on_def as_cut_def)
  moreover have "sum_list (map (\<lambda>c. int (body_size c)) xs) = int (sum_list (map body_size xs))" for xs by (induction xs) simp_all
  ultimately show "uploaded s = int (sum_list (map body_size cs))" by (simp add: uploaded_def)
  have "indices s = []" using going_on_index [OF assms(1,2)] f by (metis list.set_intros(1) neq_Nil_conv)
  then show "inFlight s = []" by (simp add: indices_def)
qed

text \<open>
  C9. When every request is answered with success, in whatever order: as long as chunks are left
  some request is open and success was not reported, and with the answer for the last chunk the
  whole size of the file was reported as uploaded, then the chunk, then success, once and at the end.
\<close>

theorem upload_completes:
  assumes "new_upload False lim retries n n name = Some s" "0 < lim" "loading (handle Start s) m t"
  shows "m \<le> length (chunks s) \<and>
    (m < length (chunks s) \<longrightarrow> inFlight t \<noteq> [] \<and> On_success \<notin> set (calls t)) \<and>
    (m = length (chunks s) \<longrightarrow> inFlight t = [] \<and>
       (\<exists>pre i. calls t = pre @ [On_progress (int n) n, On_chunk_complete i, On_success] \<and> On_success \<notin> set pre))"
proof -
  obtain cs where cs: "cut n n (Some (5 * MB)) = Some cs" "cs \<noteq> []" "sum_list (map body_size cs) = n"
    by (rule cut_default [of n])
  have s: "chunks s = map Some cs" "chunkState s = map (\<lambda>_. fresh_state) cs" "inFlight s = []" "delays s = []"
    "aborted s = False" "calls s = []" "dataSize s = n"
    using assms(1) cs(1) by (auto simp: new_upload_def initChunks_def)
  note s0 = new_upload_ok [OF assms(1)]
  let ?s = "call On_start s"
  have g: "going_on cs ?s" by (simp add: going_on_def one_each_def as_cut_def indices_def s fresh_state_def)
  have k: "upload_ok 0 ?s" "within lim ?s" using s0 by (simp_all add: upload_ok_call, simp add: within_def)
  have z: "completed ?s = 0" by (simp add: completed_def s fresh_state_def)
  have st: "handle Start s = snd (uploadChunks ?s)" by (simp add: handle_def start_upload_def createUpload_def s)
  let ?done = "\<lambda>t. \<exists>pre i. calls t = pre @ [On_progress (int n) n, On_chunk_complete i, On_success] \<and> On_success \<notin> set pre"
  have "going_on cs t \<and> upload_ok 0 t \<and> within lim t \<and> dataSize t = n \<and> completed t = m \<and> m \<le> length cs \<and>
      (if m = length cs then ?done t else inFlight t \<noteq> [] \<and> On_success \<notin> set (calls t))"
    using assms(3)
  proof induction
    case loading_0
    show ?case
      using uploadChunks_going_on [OF g k assms(2)] upload_ok_uploadChunks [OF k(1)] uploadChunks_within [OF _ k(2) assms(2)] k(1) z cs(2) s
      by (auto simp: st upload_ok_def)
  next
    case (loading_Suc m t k rq st)
    then have i: "going_on cs t" "upload_ok 0 t" "within lim t" "dataSize t = n" "completed t = m" by simp_all
    note step = loading_step [OF i(1-3) assms(2) loading_Suc(2-4)]
    have "inFlight t \<noteq> []" using loading_Suc(2) by auto
    then have m: "m \<noteq> length cs" "On_success \<notin> set (calls t)"
      using uploaded_all(2) [OF i(1,2)] i(5) loading_Suc.IH by (auto split: if_splits)
    show ?case
    proof (cases "Suc m = length cs")
      case True
      have "uploaded (handle (Load k st) t) = int n" using uploaded_all(1) [of cs "handle (Load k st) t"] step(1) i(5) True cs(3) by simp
      then show ?thesis using step(1,3) i True m(2) by auto
    next
      case False
      then show ?thesis using step(1,2) i m loading_Suc.IH by (fastforce split: if_splits)
    qed
  qed
  then show ?thesis using uploaded_all(2) [of cs t] s(1) by auto
qed

theorem upload_completes_witness:
  "\<exists>t. loading (handle Start (two_chunks 5 [] (6 * MB) ''f'')) 2 t \<and> inFlight t = [] \<and>
     (\<exists>pre i. calls t = pre @ [On_progress (int (6 * MB)) (6 * MB), On_chunk_complete i, On_success])"
proof -
  have n: "new_upload False 5 [] (6 * MB) (6 * MB) ''f'' = Some (two_chunks 5 [] (6 * MB) ''f'')"
    by (rule new_two_chunks) (simp_all add: MB_def)
  have l: "length (chunks (two_chunks 5 [] (6 * MB) ''f'')) = 2" by (simp add: two_chunks_def)
  let ?s = "handle Start (two_chunks 5 [] (6 * MB) ''f'')"
  have 0: "loading ?s 0 ?s" by (rule loading_0)
  have "om_get (inFlight ?s) 0 \<noteq> None" "om_get (inFlight (handle (Load 0 200) ?s)) 1 \<noteq> None"
    by (simp_all add: upload_run two_chunks_def upt_rec enough_free_all)
  then obtain t where "loading ?s 2 t"
    using loading_Suc [OF loading_Suc [OF 0, where k = 0 and st = 200], where k = 1 and st = 200] by (auto simp: numeral_2_eq_2)
  then show ?thesis using upload_completes [OF n _, of 2 t] l by auto
qed

end
