(* ===== verification/ToMarkdown.thy ===== *)
theory ToMarkdown
  imports JsString ObjectTools
begin

text \<open>
  \<open>lib/to-markdown.js\<close>, with \<open>lib/markdown-image-builder.js\<close>: pasted HTML is turned into Markdown.

  The elements are what the browser's parser made of the HTML. What the code asks the page for is in
  \<open>md_env\<close>: the parser, the text of HTML in a \<open>div\<close>, the text a \<open>textarea\<close> shows, and the
  callbacks of plugins, which may change a tag and its text. An exception is \<open>None\<close>.
\<close>

section \<open>Strings\<close>

text \<open>Every run of at least \<open>n\<close> characters of a class becomes a text: \<open>/c{n,}/g\<close>.\<close>

function squeeze_runs :: "(char \<Rightarrow> bool) \<Rightarrow> nat \<Rightarrow> string \<Rightarrow> string \<Rightarrow> string" where
  "squeeze_runs P n by [] = []"
| "squeeze_runs P n by (c # cs) =
     (if P c
      then (let r = takeWhile P (c # cs) in if length r \<ge> n then by else r) @ squeeze_runs P n by (dropWhile P cs)
      else c # squeeze_runs P n by cs)"
  by pat_completeness auto
termination
  by (relation "measure (\<lambda>(P, n, by, s). length s)") (auto simp: le_imp_less_Suc length_dropWhile_le)

text \<open>The replacement text of \<open>String.replace\<close>: \<open>$$\<close>, \<open>$&\<close>, and the texts before and behind.\<close>

fun expand_dollars :: "string \<Rightarrow> string \<Rightarrow> string \<Rightarrow> string \<Rightarrow> string" where
  "expand_dollars before m behind (c # d # r) =
     (if c = CHR ''$'' \<and> d = CHR ''$'' then c # expand_dollars before m behind r
      else if c = CHR ''$'' \<and> d = CHR ''&'' then m @ expand_dollars before m behind r
      else if c = CHR ''$'' \<and> d = CHR 0x60 then before @ expand_dollars before m behind r
      else if c = CHR ''$'' \<and> d = CHR 0x27 then behind @ expand_dollars before m behind r
      else c # expand_dollars before m behind (d # r))"
| "expand_dollars before m behind r = r"

definition js_replace :: "string \<Rightarrow> string \<Rightarrow> string \<Rightarrow> string" where
  "js_replace sub by s =
     (case find_at sub s of
        None \<Rightarrow> s
      | Some k \<Rightarrow> take k s @ expand_dollars (take k s) sub (drop (k + length sub) s) by @ drop (k + length sub) s)"

text \<open>\<open>/\\bw\\b/.test(s)\<close> for a word that begins and ends with a word character.\<close>

fun word_from :: "bool \<Rightarrow> string \<Rightarrow> string \<Rightarrow> bool" where
  "word_from inside w [] = False"
| "word_from inside w (c # cs) =
     (\<not> inside \<and> prefix w (c # cs) \<and> (case drop (length w) (c # cs) of [] \<Rightarrow> True | d # _ \<Rightarrow> \<not> is_word d) \<or>
      word_from (is_word c) w cs)"

definition has_word :: "string \<Rightarrow> string option \<Rightarrow> bool" where
  "has_word w s = (case s of Some t \<Rightarrow> word_from False w t | None \<Rightarrow> False)"

section \<open>Images\<close>

definition or_attr :: "string option \<Rightarrow> string option \<Rightarrow> string option" where
  "or_attr a b = (case a of Some (c # cs) \<Rightarrow> a | _ \<Rightarrow> b)"

definition given :: "string option \<Rightarrow> bool" where
  "given a \<longleftrightarrow> (case a of Some (c # cs) \<Rightarrow> True | _ \<Rightarrow> False)"

definition shown :: "string option \<Rightarrow> string" where
  "shown a = (case a of Some t \<Rightarrow> t | None \<Rightarrow> ''undefined'')"

definition escape_alt :: "string \<Rightarrow> string" where
  "escape_alt s = concat (map (\<lambda>c. if c = CHR ''|'' then ''&#124;''
     else if c = CHR 0x5C \<or> c = CHR ''['' \<or> c = CHR '']'' then [CHR 0x5C, c] else [c]) s)"

definition sanitizeAlt :: "string option \<Rightarrow> string option \<Rightarrow> string" where
  "sanitizeAlt alt fallback =
     (let fb = (case fallback of Some f \<Rightarrow> f | None \<Rightarrow> [])
      in case alt of
           Some t \<Rightarrow> if trim t = [] then fb else escape_alt (trim t)
         | None \<Rightarrow> fb)"

text \<open>\<open>/\\.([a-zA-Z0-9]+)(?:\\?|$)/\<close>.\<close>

fun extension_in :: "string \<Rightarrow> string option" where
  "extension_in [] = None"
| "extension_in (c # cs) =
     (let e = takeWhile (\<lambda>d. is_alpha d \<or> is_num d) cs; rest = drop (length e) cs
      in if c = CHR ''.'' \<and> e \<noteq> [] \<and> (rest = [] \<or> prefix ''?'' rest) then Some e else extension_in cs)"

definition extensionFromUrl :: "string option \<Rightarrow> string option" where
  "extensionFromUrl url = (case url of Some u \<Rightarrow> extension_in u | None \<Rightarrow> None)"

record image_data =
  im_src :: "string option"
  im_alt :: "string option"
  im_width :: "string option"
  im_height :: "string option"
  im_title :: "string option"
  im_escape :: bool
  im_fallback :: "string option"

definition table_pipe :: "bool \<Rightarrow> string" where
  "table_pipe b = (if b then [CHR 0x5C, CHR ''|''] else ''|'')"

definition buildImageMarkdown :: "image_data \<Rightarrow> string" where
  "buildImageMarkdown d =
     (if \<not> given (im_src d) then []
      else ''!['' @ sanitizeAlt (im_alt d) (im_fallback d) @
        (if given (im_width d) \<and> given (im_height d)
         then table_pipe (im_escape d) @ shown (im_width d) @ ''x'' @ shown (im_height d) else []) @
        ''](''  @ shown (im_src d) @
        (if given (im_title d) then '' \"'' @ shown (im_title d) @ ''\"'' else []) @ '')'')"

section \<open>Elements and tags\<close>

datatype html_node =
  Html (node_name: string) (node_data: "string option") (node_attributes: "(string, string) omap")
    (node_children: "html_node list")

text \<open>
  A node of the page. Forms and selections have a \<open>length\<close> of their own, the number of their controls.
\<close>

datatype dom_node =
  Dom (nodeName: string) (dom_data: "string option") (dom_attributes: "(string \<times> string) list")
    (childNodes: "dom_node list") (has_length: bool)

datatype element =
  Element (el_name: string) (el_data: "string option") (el_attributes: "(string, string) omap")
    (el_children: "html_node list") (el_parent: "element option") (el_parentNames: "string list")
    (el_previous: "html_node option") (el_next: "html_node option")

definition element_attr :: "element \<Rightarrow> string \<Rightarrow> string option" where
  "element_attr e k = om_get (el_attributes e) k"

record tag =
  tg_prefix :: string
  tg_suffix :: string
  tg_inline :: bool
  tg_gap :: string

type_synonym tag_callback = "element \<Rightarrow> tag \<Rightarrow> string \<Rightarrow> tag \<times> string option"

record md_env =
  tagDecorateCallbacks :: "tag_callback list"
  blockDecorateCallbacks :: "tag_callback list"
  textDecorateCallbacks :: "(element \<Rightarrow> string \<Rightarrow> string option) list"
  textarea_text :: "string \<Rightarrow> string"
  div_text :: "string \<Rightarrow> string"
  parse_html :: "string \<Rightarrow> dom_node list"

definition addTagDecorateCallback :: "tag_callback \<Rightarrow> md_env \<Rightarrow> md_env" where
  "addTagDecorateCallback cb env = env\<lparr>tagDecorateCallbacks := tagDecorateCallbacks env @ [cb]\<rparr>"

definition clearTagDecorateCallbacks :: "md_env \<Rightarrow> md_env" where
  "clearTagDecorateCallbacks env = env\<lparr>tagDecorateCallbacks := []\<rparr>"

definition addBlockDecorateCallback :: "tag_callback \<Rightarrow> md_env \<Rightarrow> md_env" where
  "addBlockDecorateCallback cb env = env\<lparr>blockDecorateCallbacks := blockDecorateCallbacks env @ [cb]\<rparr>"

definition clearBlockDecorateCallbacks :: "md_env \<Rightarrow> md_env" where
  "clearBlockDecorateCallbacks env = env\<lparr>blockDecorateCallbacks := []\<rparr>"

definition addTextDecorateCallback :: "(element \<Rightarrow> string \<Rightarrow> string option) \<Rightarrow> md_env \<Rightarrow> md_env" where
  "addTextDecorateCallback cb env = env\<lparr>textDecorateCallbacks := textDecorateCallbacks env @ [cb]\<rparr>"

definition clearTextDecorateCallbacks :: "md_env \<Rightarrow> md_env" where
  "clearTextDecorateCallbacks env = env\<lparr>textDecorateCallbacks := []\<rparr>"

datatype tag_kind =
    Plain_tag | Block_tag string | Slice_tag string | Emphasis_tag string | Allowed_tag | Aside_tag
  | Cell_tag | Replace_tag string | Li_tag | Link_tag | Image_tag | Code_tag | Blockquote_tag | Table_tag
  | Tr_tag | Ol_tag | List_tag | Span_tag | Div_tag

definition blocks :: "string list" where
  "blocks = [''address'', ''article'', ''dd'', ''dl'', ''dt'', ''fieldset'', ''figcaption'', ''figure'', ''footer'',
     ''form'', ''header'', ''hgroup'', ''hr'', ''main'', ''nav'', ''p'', ''pre'', ''section'']"

definition headings :: "string list" where
  "headings = [''h1'', ''h2'', ''h3'', ''h4'', ''h5'', ''h6'']"

definition emphases :: "(string \<times> string) list" where
  "emphases = [(''b'', ''**''), (''strong'', ''**''), (''i'', ''*''), (''em'', ''*''), (''s'', ''~~''), (''strike'', ''~~'')]"

definition slice_tags :: "string list" where
  "slice_tags = [''dt'', ''dd'', ''thead'', ''tbody'', ''tfoot'']"

definition trimmable :: "string list" where
  "trimmable = blocks @ headings @ slice_tags @
     [''aside'', ''li'', ''td'', ''th'', ''br'', ''hr'', ''blockquote'', ''table'', ''ol'', ''tr'', ''ul'']"

definition allowedTags :: "string list" where
  "allowedTags = [''ins'', ''del'', ''small'', ''big'', ''kbd'', ''ruby'', ''rt'', ''rb'', ''rp'', ''mark'']"

definition heading_prefix :: "nat \<Rightarrow> string" where
  "heading_prefix i = replicate i CHR ''#'' @ '' ''"

text \<open>The map of tags; a later entry replaces an earlier one with its name.\<close>

definition allTags :: "(string \<times> tag_kind) list" where
  "allTags = map (\<lambda>b. (b, Block_tag [])) blocks @
     map (\<lambda>(h, i). (h, Block_tag (heading_prefix i))) (zip headings [1..<7]) @
     map (\<lambda>s. (s, Slice_tag [CHR 0x0A])) slice_tags @
     map (\<lambda>(n, d). (n, Emphasis_tag d)) emphases @
     map (\<lambda>t. (t, Allowed_tag)) allowedTags @
     [(''aside'', Aside_tag), (''td'', Cell_tag), (''th'', Cell_tag), (''br'', Replace_tag [CHR 0x0A]),
      (''hr'', Replace_tag ([CHR 0x0A] @ ''---'' @ [CHR 0x0A])), (''head'', Replace_tag []), (''li'', Li_tag),
      (''a'', Link_tag), (''img'', Image_tag), (''code'', Code_tag), (''blockquote'', Blockquote_tag),
      (''table'', Table_tag), (''tr'', Tr_tag), (''ol'', Ol_tag), (''ul'', List_tag), (''span'', Span_tag),
      (''div'', Div_tag)]"

definition tagByName :: "string \<Rightarrow> tag_kind" where
  "tagByName name = (case om_get (rev allTags) name of Some k \<Rightarrow> k | None \<Rightarrow> Plain_tag)"

definition new_tag :: "string \<Rightarrow> tag_kind \<Rightarrow> tag" where
  "new_tag name k =
     (let t = \<lparr>tg_prefix = [], tg_suffix = [], tg_inline = False, tg_gap = [CHR 0x0A, CHR 0x0A]\<rparr>
      in case k of
           Block_tag p \<Rightarrow> t\<lparr>tg_prefix := p\<rparr>
         | Slice_tag s \<Rightarrow> t\<lparr>tg_suffix := s\<rparr>
         | Emphasis_tag d \<Rightarrow> t\<lparr>tg_prefix := d, tg_suffix := d, tg_inline := True\<rparr>
         | Allowed_tag \<Rightarrow> t\<lparr>tg_prefix := ''<'' @ name @ ''>'', tg_suffix := ''</'' @ name @ ''>''\<rparr>
         | Cell_tag \<Rightarrow> t\<lparr>tg_prefix := ''|''\<rparr>
         | Li_tag \<Rightarrow> t\<lparr>tg_suffix := [CHR 0x0A]\<rparr>
         | Tr_tag \<Rightarrow> t\<lparr>tg_suffix := ''|'' @ [CHR 0x0A]\<rparr>
         | Code_tag \<Rightarrow> t\<lparr>tg_prefix := [CHR 0x60], tg_suffix := [CHR 0x60]\<rparr>
         | Blockquote_tag \<Rightarrow> t\<lparr>tg_prefix := [CHR 0x0A] @ ''> '', tg_suffix := [CHR 0x0A]\<rparr>
         | Link_tag \<Rightarrow> t\<lparr>tg_inline := True\<rparr>
         | Image_tag \<Rightarrow> t\<lparr>tg_inline := True\<rparr>
         | _ \<Rightarrow> t)"

definition MSO_LIST_CLASSES :: "string list" where
  "MSO_LIST_CLASSES = [''MsoListParagraphCxSpFirst'', ''MsoListParagraphCxSpMiddle'', ''MsoListParagraphCxSpLast'']"

definition is_mso :: "string option \<Rightarrow> bool" where
  "is_mso c = (case c of Some t \<Rightarrow> t \<in> set MSO_LIST_CLASSES | None \<Rightarrow> False)"

text \<open>The constructor of \<open>Element\<close>.\<close>

definition new_element :: "html_node \<Rightarrow> element option \<Rightarrow> html_node option \<Rightarrow> html_node option \<Rightarrow> element" where
  "new_element n p prev nxt =
     (let names = (case p of Some e \<Rightarrow> el_parentNames e @ [el_name e] | None \<Rightarrow> []);
          mso = node_name n = ''p'' \<and> is_mso (om_get (node_attributes n) ''class'')
      in Element (if mso then ''li'' else node_name n) (node_data n) (node_attributes n) (node_children n) p
           (if mso then names @ [''ul''] else names) prev nxt)"

definition filterParentNames :: "string list \<Rightarrow> element \<Rightarrow> string list" where
  "filterParentNames names e = filter (\<lambda>p. p \<in> set names) (el_parentNames e)"

definition parent_name :: "element \<Rightarrow> string option" where
  "parent_name e = map_option el_name (el_parent e)"

section \<open>Decorating\<close>

text \<open>Callbacks are called in turn with the tag, and with the text of the one before.\<close>

definition run_callbacks :: "tag_callback list \<Rightarrow> element \<Rightarrow> tag \<Rightarrow> string \<Rightarrow> tag \<times> string" where
  "run_callbacks cbs e t text =
     fold (\<lambda>cb (t, text). let (t', r) = cb e t text in (t', case r of Some x \<Rightarrow> x | None \<Rightarrow> text)) cbs (t, text)"

text \<open>
  \<open>Tag.decorate\<close>. It reads \<open>prev\<close> of the element, which is never set (the field is \<open>previous\<close>), so
  that only a next sibling makes a space.
\<close>

definition tag_decorate :: "md_env \<Rightarrow> element \<Rightarrow> tag \<Rightarrow> string \<Rightarrow> string" where
  "tag_decorate env e t0 text0 =
     (let (t, text) = run_callbacks (tagDecorateCallbacks env) e t0 text0;
          wrapped = (if tg_prefix t \<noteq> [] \<or> tg_suffix t \<noteq> [] then tg_prefix t @ text @ tg_suffix t else text)
      in if tg_inline t
         then (case el_next e of Some n \<Rightarrow> if node_name n \<noteq> ''#text'' then wrapped @ '' '' else wrapped | None \<Rightarrow> wrapped)
         else wrapped)"

definition block_decorate :: "md_env \<Rightarrow> string \<Rightarrow> element \<Rightarrow> tag \<Rightarrow> string \<Rightarrow> string" where
  "block_decorate env name e t0 text0 =
     (let (t1, text) = run_callbacks (blockDecorateCallbacks env) e t0 text0;
          t = (if name = ''p'' \<and> parent_name e = Some ''li'' then t1\<lparr>tg_gap := []\<rparr> else t1)
      in tg_gap t @ tg_prefix t @ text @ tg_suffix t @ tg_gap t)"

definition nl :: string where "nl = [CHR 0x0A]"

definition div_decorate :: "md_env \<Rightarrow> element \<Rightarrow> tag \<Rightarrow> string \<Rightarrow> string" where
  "div_decorate env e t text =
     (if has_word ''mathjax-math'' (element_attr e ''class'') then []
      else if has_word ''math'' (element_attr e ''class'') \<and> given (element_attr e ''data-applied-mathjax'')
      then nl @ ''$$'' @ nl @ text @ nl @ ''$$'' @ nl
      else block_decorate env ''div'' e t text)"

definition span_decorate :: "md_env \<Rightarrow> element \<Rightarrow> tag \<Rightarrow> string \<Rightarrow> string" where
  "span_decorate env e t text =
     (if element_attr e ''class'' = Some ''badge badge-notification clicks'' then []
      else if has_word ''mathjax-math'' (element_attr e ''class'') then []
      else if has_word ''math'' (element_attr e ''class'') \<and> given (element_attr e ''data-applied-mathjax'') then ''$'' @ text @ ''$''
      else tag_decorate env e t text)"

definition emphasis_decorate :: "md_env \<Rightarrow> element \<Rightarrow> tag \<Rightarrow> string \<Rightarrow> string" where
  "emphasis_decorate env e t text =
     (let t1 = (if CHR 0x0A \<in> set text
                then t\<lparr>tg_prefix := ''<'' @ el_name e @ ''>'', tg_suffix := ''</'' @ el_name e @ ''>''\<rparr> else t);
          t2 = (case text of c # _ \<Rightarrow> if js_space c then t1\<lparr>tg_prefix := c # tg_prefix t1\<rparr> else t1 | [] \<Rightarrow> t1);
          t3 = (case last_opt text of
                  Some c \<Rightarrow> if js_space c then t2\<lparr>tg_suffix := tg_suffix t2 @ [c]\<rparr> else t2 | None \<Rightarrow> t2)
      in tag_decorate env e t3 (trim text))"

definition starts :: "string \<Rightarrow> string option \<Rightarrow> bool" where
  "starts p s = (case s of Some t \<Rightarrow> prefix p t | None \<Rightarrow> False)"

definition has_text :: "string \<Rightarrow> string option \<Rightarrow> bool" where
  "has_text w s = (case s of Some t \<Rightarrow> contains w t | None \<Rightarrow> False)"

definition upload_url :: "string \<Rightarrow> string option \<Rightarrow> string" where
  "upload_url sha ext = ''upload://'' @ sha @ (case ext of Some x \<Rightarrow> ''.'' @ x | None \<Rightarrow> [])"

definition first_some :: "string option list \<Rightarrow> string option" where
  "first_some xs = (case find (\<lambda>x. x \<noteq> None) xs of Some x \<Rightarrow> x | None \<Rightarrow> None)"

text \<open>The image of a lightbox.\<close>

definition lightbox_markdown :: "element \<Rightarrow> html_node \<Rightarrow> string" where
  "lightbox_markdown e img =
     (let ia = om_get (node_attributes img); sha = ia ''data-base62-sha1'';
          href = (if given sha
                  then Some (upload_url (shown sha) (first_some [extensionFromUrl (ia ''src''),
                    extensionFromUrl (element_attr e ''href''), extensionFromUrl (element_attr e ''data-download-href'')]))
                  else element_attr e ''href'');
          title = (case element_attr e ''title'' of Some t \<Rightarrow> t | None \<Rightarrow> []);
          text = (if given (ia ''width'') \<and> given (ia ''height'')
                  then title @ table_pipe (''table'' \<in> set (el_parentNames e)) @ shown (ia ''width'') @ ''x'' @ shown (ia ''height'')
                  else title)
      in ''!['' @ text @ ''](''  @ shown href @ '')'')"

definition link_decorate :: "element \<Rightarrow> string \<Rightarrow> string" where
  "link_decorate e text =
     (let cls = element_attr e ''class'';
          img = (if cls = Some ''lightbox'' \<or> cls = Some ''d-lazyload''
                 then find (\<lambda>c. node_name c = ''img'') (el_children e) else None)
      in if starts ''mention'' cls \<and> prefix ''@'' text then text
         else if cls = Some ''hashtag'' \<and> prefix ''#'' text then text
         else if has_text ''hashtag-cooked'' cls then
           (if given (element_attr e ''data-ref'') then ''#'' @ shown (element_attr e ''data-ref'')
            else ''#'' @ shown (element_attr e ''data-slug'') @
              (if given (element_attr e ''data-type'') then ''::'' @ shown (element_attr e ''data-type'') else []))
         else case img of
           Some i \<Rightarrow> lightbox_markdown e i
         | None \<Rightarrow>
             if given (element_attr e ''href'') \<and> element_attr e ''href'' \<noteq> Some text
             then ''['' @ squeeze_runs (\<lambda>c. c = CHR 0x0A) 2 nl text @
                  (if has_text ''attachment'' cls then ''|attachment'' else []) @ ''](''  @ shown (element_attr e ''href'') @ '')''
             else text)"

text \<open>\<open>/^data:image\/([a-zA-Z]*);base64,([^\"]*)$/\<close>.\<close>

definition data_image :: "string \<Rightarrow> bool" where
  "data_image s \<longleftrightarrow> prefix ''data:image/'' s \<and>
     (let rest = dropWhile is_alpha (drop 11 s) in prefix '';base64,'' rest \<and> CHR 0x22 \<notin> set (drop 8 rest))"

definition image_markdown :: "element \<Rightarrow> string" where
  "image_markdown e =
     (let p = (\<lambda>k. case el_parent e of Some q \<Rightarrow> element_attr q k | None \<Rightarrow> None);
          both = (\<lambda>k. or_attr (element_attr e k) (p k));
          cls = both ''class''; src0 = both ''src''; sha = element_attr e ''data-base62-sha1'';
          src = (if given sha
                 then Some (upload_url (shown sha) (first_some [extensionFromUrl src0, extensionFromUrl (element_attr e ''data-orig-src'')]))
                 else src0)
      in if has_text ''emoji'' cls
         then (if has_text ''user-status'' cls then [] else case both ''title'' of Some t \<Rightarrow> t | None \<Rightarrow> [])
         else if given src
         then (if data_image (shown src) then ''[image]''
               else buildImageMarkdown \<lparr>im_src = src, im_alt = both ''alt'', im_width = both ''width'',
                 im_height = both ''height'', im_title = element_attr e ''title'',
                 im_escape = ''table'' \<in> set (el_parentNames e), im_fallback = None\<rparr>)
         else [])"

definition slice_decorate :: "element \<Rightarrow> tag \<Rightarrow> string \<Rightarrow> string" where
  "slice_decorate e t text = text @ (case el_next e of None \<Rightarrow> [] | Some _ \<Rightarrow> tg_suffix t)"

definition tr_decorate :: "element \<Rightarrow> tag \<Rightarrow> string \<Rightarrow> string" where
  "tr_decorate e t text = text @ (case el_next e of None \<Rightarrow> ''|'' | Some _ \<Rightarrow> tg_suffix t)"

text \<open>The level in \<open>/level./\<close> of the style; anything but a digit makes the code throw.\<close>

fun mso_level :: "string \<Rightarrow> nat option" where
  "mso_level [] = None"
| "mso_level (c # cs) =
     (if prefix ''level'' (c # cs) \<and> length cs > 4 \<and> is_dot ((c # cs) ! 5)
      then (if is_num ((c # cs) ! 5) then Some (digit_value ((c # cs) ! 5)) else None)
      else mso_level cs)"

definition li_decorate :: "element \<Rightarrow> tag \<Rightarrow> string \<Rightarrow> string option" where
  "li_decorate e t text =
     (let indent = replicate (length (filterParentNames [''ol'', ''ul''] e) - 1) (CHR 0x09); cls = element_attr e ''class''
      in if is_mso cls then
           (case (case element_attr e ''style'' of Some st \<Rightarrow> mso_level st | None \<Rightarrow> None) of
              None \<Rightarrow> None
            | Some level \<Rightarrow>
                (let indent1 = replicate (level - 1) (CHR 0x09) @ indent;
                     indent2 = (if cls = Some ''MsoListParagraphCxSpFirst'' then nl @ nl @ indent1 else indent1);
                     text1 = (if cls = Some ''MsoListParagraphCxSpLast'' then text @ nl else text)
                 in Some (slice_decorate e t (indent2 @ ''* '' @ trim_start text1))))
         else Some (slice_decorate e t (indent @ ''* '' @ trim_start text)))"

definition code_decorate :: "md_env \<Rightarrow> element \<Rightarrow> tag \<Rightarrow> string \<Rightarrow> string" where
  "code_decorate env e t text =
     (let fence = [CHR 0x60, CHR 0x60, CHR 0x60];
          t1 = (if ''pre'' \<in> set (el_parentNames e)
                then t\<lparr>tg_prefix := nl @ nl @ fence @ nl, tg_suffix := nl @ fence @ nl @ nl\<rparr> else t\<lparr>tg_inline := True\<rparr>)
      in tag_decorate env e t1 (textarea_text env text))"

text \<open>\<open>/\n{2,}>/g\<close> becomes one newline before the sign; every newline then begins a quoted line.\<close>

function unspace_quotes :: "string \<Rightarrow> string" where
  "unspace_quotes [] = []"
| "unspace_quotes (c # cs) =
     (if c = CHR 0x0A
      then (let r = takeWhile (\<lambda>d. d = CHR 0x0A) (c # cs); rest = dropWhile (\<lambda>d. d = CHR 0x0A) cs
            in (if length r \<ge> 2 \<and> prefix ''>'' rest then nl else r) @ unspace_quotes rest)
      else c # unspace_quotes cs)"
  by pat_completeness auto
termination
  by (relation "measure length") (auto simp: le_imp_less_Suc length_dropWhile_le)

definition blockquote_decorate :: "md_env \<Rightarrow> element \<Rightarrow> tag \<Rightarrow> string \<Rightarrow> string" where
  "blockquote_decorate env e t text =
     tag_decorate env e t (replace_all nl (nl @ ''> '') (unspace_quotes (trim text)))"

section \<open>Tables and lists\<close>

definition countPipes :: "string \<Rightarrow> nat" where
  "countPipes text = length (filter (\<lambda>c. c = CHR ''|'') (replace_first [CHR 0x5C, CHR ''|''] [] text))"

text \<open>\<open>/\|\n{2,}\|/g\<close> becomes \<open>|\n|\<close>; the second sign belongs to the match.\<close>

function close_rows :: "string \<Rightarrow> string" where
  "close_rows [] = []"
| "close_rows (c # cs) =
     (let r = takeWhile (\<lambda>d. d = CHR 0x0A) cs; rest = dropWhile (\<lambda>d. d = CHR 0x0A) cs
      in if c = CHR ''|'' \<and> length r \<ge> 2 \<and> prefix ''|'' rest
         then ''|'' @ nl @ ''|'' @ close_rows (tl rest) else c # close_rows cs)"
  by pat_completeness auto
termination
proof (relation "measure length", goal_cases)
  case (2 c cs r rest)
  then have "length rest \<le> length cs" by (simp add: length_dropWhile_le)
  then show ?case by simp
qed auto

definition splitter_row :: "nat \<Rightarrow> string" where
  "splitter_row pipeCount = concat (replicate (pipeCount - 1) ''| --- '') @ ''|'' @ nl"

definition valid_rows :: "string list \<Rightarrow> bool" where
  "valid_rows rows \<longleftrightarrow> length rows > 1 \<and> countPipes (hd rows) > 2 \<and>
     list_all (\<lambda>r. countPipes r \<le> countPipes (hd rows)) (tl rows)"

text \<open>
  A table is written with signs between the cells, or with spaces when its rows do not fit. A cell
  with a line break marks a tag of the table as invalid, but \<open>e.tag()\<close> makes a new one each time, so
  that nothing comes of it.
\<close>

definition table_decorate :: "md_env \<Rightarrow> element \<Rightarrow> tag \<Rightarrow> string \<Rightarrow> string" where
  "table_decorate env e t text0 =
     (let text = close_rows (block_decorate env ''table'' e t text0);
          rows = js_split nl (trim text)
      in if valid_rows rows
         then replace_first (''|'' @ nl) (''|'' @ nl @ splitter_row (countPipes (hd rows))) text
         else map (\<lambda>c. if c = CHR ''|'' then CHR '' '' else c) text)"

definition list_decorate :: "md_env \<Rightarrow> string \<Rightarrow> element \<Rightarrow> tag \<Rightarrow> string \<Rightarrow> string" where
  "list_decorate env name e t text =
     (let t1 = (if parent_name e = Some ''ul'' then t\<lparr>tg_gap := [], tg_suffix := nl\<rparr> else t);
          inside = filterParentNames [''li''] e \<noteq> [];
          t2 = (if inside then t1\<lparr>tg_gap := []\<rparr> else t1)
      in (if inside then nl else []) @ block_decorate env name e t2 (trim_end text))"

text \<open>\<open>parseInt\<close> of a text; \<open>None\<close> is \<open>NaN\<close>.\<close>

definition parse_int :: "string \<Rightarrow> int option" where
  "parse_int s =
     (let t = trim_start s; neg = prefix ''-'' t; u = (if neg \<or> prefix ''+'' t then tl t else t); ds = takeWhile is_num u
      in if ds = [] then None else Some (if neg then - int (read_nat ds) else int (read_nat ds)))"

definition number_label :: "int option \<Rightarrow> string" where
  "number_label i = (case i of Some n \<Rightarrow> show_int n | None \<Rightarrow> ''NaN'')"

text \<open>\<open>/\n\t*\*/\<close>: how many tabs are in front of the first bullet of a line.\<close>

fun first_bullet :: "string \<Rightarrow> nat option" where
  "first_bullet [] = None"
| "first_bullet (c # cs) =
     (let tabs = takeWhile (\<lambda>d. d = CHR 0x09) cs
      in if c = CHR 0x0A \<and> prefix ''*'' (drop (length tabs) cs) then Some (length tabs) else first_bullet cs)"

definition bullet :: "nat \<Rightarrow> string" where
  "bullet k = CHR 0x0A # replicate k (CHR 0x09) @ ''*''"

definition digits :: "char set" where "digits = set ''0123456789''"

lemma digit_set: "n < 10 \<Longrightarrow> digit n \<in> digits"
  unfolding digit_def digits_def by (rule nth_mem) simp

lemma show_nat_set: "set (show_nat n) \<subseteq> digits"
proof (induction n rule: show_nat.induct)
  case (1 n)
  have "digit (n mod 10) \<in> digits" by (rule digit_set) simp
  then show ?case using 1 digit_set [of n] by (subst show_nat.simps) auto
qed

lemma label_no_star: "CHR ''*'' \<notin> set (number_label i)"
proof -
  have "CHR ''*'' \<notin> set (show_nat n)" for n using show_nat_set [of n] by (auto simp: digits_def)
  then show ?thesis by (simp add: number_label_def show_int_def split: option.split)
qed

lemma replace_first_count:
  assumes "contains sub s" "count_list by c < count_list sub c"
  shows "count_list (replace_first sub by s) c < count_list s c"
proof -
  obtain k where k: "find_at sub s = Some k" using assms(1) find_at_None [of sub s] by auto
  have "count_list s c = count_list (take k s) c + count_list sub c + count_list (drop (k + length sub) s) c"
    by (subst find_at_Some [OF k]) simp
  then show ?thesis using assms(2) by (simp add: replace_first_def k)
qed

text \<open>The loop replaces the bullet by the next number while the text has one.\<close>

function number_items :: "nat \<Rightarrow> int option \<Rightarrow> string \<Rightarrow> string" where
  "number_items k i text =
     (if contains (bullet k) text
      then number_items k (map_option (\<lambda>n. n + 1) i)
             (replace_first (bullet k) (CHR 0x0A # replicate k (CHR 0x09) @ number_label i @ ''.'') text)
      else text)"
  by pat_completeness auto
termination
proof (relation "measure (\<lambda>(k, i, text). count_list text (CHR ''*''))", goal_cases)
  case (2 k i u)
  have "count_list (number_label i) (CHR ''*'') = 0" using label_no_star by (simp add: count_list_0_iff)
  moreover have "count_list (replicate k (CHR 0x09)) (CHR ''*'') = 0" by (induction k) simp_all
  ultimately show ?case using 2 by (simp add: bullet_def replace_first_count)
qed simp

declare number_items.simps [simp del]

definition ol_decorate :: "md_env \<Rightarrow> element \<Rightarrow> tag \<Rightarrow> string \<Rightarrow> string option" where
  "ol_decorate env e t text0 =
     (let text = nl @ text0
      in case first_bullet text of
           None \<Rightarrow> None
         | Some k \<Rightarrow>
             (let start = (case element_attr e ''start'' of Some (c # cs) \<Rightarrow> parse_int (c # cs) | _ \<Rightarrow> Some 1)
              in Some (list_decorate env ''ol'' e t (tl (number_items k start text)))))"

section \<open>Elements to Markdown\<close>

definition leftTrimmable :: "element \<Rightarrow> bool" where
  "leftTrimmable e \<longleftrightarrow> (case el_previous e of Some n \<Rightarrow> node_name n \<in> set trimmable | None \<Rightarrow> False)"

definition rightTrimmable :: "element \<Rightarrow> bool" where
  "rightTrimmable e \<longleftrightarrow> (case el_next e of Some n \<Rightarrow> node_name n \<in> set trimmable | None \<Rightarrow> False)"

definition element_text :: "md_env \<Rightarrow> element \<Rightarrow> string" where
  "element_text env e =
     (let t0 = (case el_data e of Some d \<Rightarrow> d | None \<Rightarrow> []);
          t1 = (if leftTrimmable e then trim_start t0 else t0);
          t2 = (if rightTrimmable e then trim_end t1 else t1)
      in fold (\<lambda>cb text. case cb e text of Some r \<Rightarrow> r | None \<Rightarrow> text) (textDecorateCallbacks env)
           (squeeze_runs js_space 1 '' '' t2))"

definition decorate :: "md_env \<Rightarrow> element \<Rightarrow> string \<Rightarrow> string option" where
  "decorate env e text =
     (let k = tagByName (el_name e); t = new_tag (el_name e) k
      in case k of
           Block_tag p \<Rightarrow> Some (block_decorate env (el_name e) e t text)
         | Aside_tag \<Rightarrow> Some (block_decorate env ''aside'' e t text)
         | Slice_tag s \<Rightarrow> Some (slice_decorate e t text)
         | Emphasis_tag d \<Rightarrow> Some (emphasis_decorate env e t text)
         | Li_tag \<Rightarrow> li_decorate e t text
         | Link_tag \<Rightarrow> Some (link_decorate e text)
         | Code_tag \<Rightarrow> Some (code_decorate env e t text)
         | Blockquote_tag \<Rightarrow> Some (blockquote_decorate env e t text)
         | Table_tag \<Rightarrow> Some (table_decorate env e t text)
         | Tr_tag \<Rightarrow> Some (tr_decorate e t text)
         | Ol_tag \<Rightarrow> ol_decorate env e t text
         | List_tag \<Rightarrow> Some (list_decorate env ''ul'' e t text)
         | Span_tag \<Rightarrow> Some (span_decorate env e t text)
         | Div_tag \<Rightarrow> Some (div_decorate env e t text)
         | _ \<Rightarrow> Some (tag_decorate env e t text))"

text \<open>\<open>/^> /gm\<close> is taken away; the flag tells that a line begins.\<close>

fun unquote_lines :: "bool \<Rightarrow> string \<Rightarrow> string" where
  "unquote_lines start (c # d # r) =
     (if start \<and> c = CHR ''>'' \<and> d = CHR '' '' then unquote_lines False r
      else c # unquote_lines (c = CHR 0x0A \<or> c = CHR 0x0D) (d # r))"
| "unquote_lines start r = r"

definition quote_markdown :: "element \<Rightarrow> string \<Rightarrow> string" where
  "quote_markdown e text0 =
     (let text = trim (unquote_lines True (trim text0));
          user = element_attr e ''data-username''; post = element_attr e ''data-post''; topic = element_attr e ''data-topic'';
          head = (if given user \<and> given post \<and> given topic
                  then ''[quote=\"'' @ shown user @ '', post:'' @ shown post @ '', topic:'' @ shown topic @ ''\"]'' else ''[quote]'')
      in if text = [] then [] else nl @ head @ nl @ text @ nl @ ''[/quote]'' @ nl)"

definition first_blockquote :: "html_node list \<Rightarrow> html_node list" where
  "first_blockquote cs = take 1 (filter (\<lambda>c. node_name c = ''blockquote'') cs)"

text \<open>What most tags do with the text of their children: only text that is not blank is decorated.\<close>

definition finish_tag :: "md_env \<Rightarrow> element \<Rightarrow> string \<Rightarrow> string option" where
  "finish_tag env e inner = (if trim inner \<noteq> [] then decorate env e inner else Some inner)"

lemma size_node_children: "size_list size (node_children n) < size n"
  by (cases n) simp

lemma size_first_blockquote: "size_list size (first_blockquote cs) \<le> size_list size cs"
proof -
  have "size_list size (filter P xs) \<le> size_list size xs" for P and xs :: "html_node list" by (induction xs) auto
  moreover have "size_list size (take k xs) \<le> size_list size xs" for k and xs :: "html_node list"
    by (induction xs arbitrary: k) (auto simp: take_Cons' intro: le_SucI)
  ultimately show ?thesis unfolding first_blockquote_def by (meson order_trans)
qed

lemma children_less:
  "Suc (2 * size_list size (node_children n)) < 2 * size n"
  "Suc (2 * size_list size (first_blockquote (node_children n))) < 2 * size n"
  using size_node_children [of n] size_first_blockquote [of "node_children n"] by linarith+

function parse :: "md_env \<Rightarrow> element option \<Rightarrow> html_node option \<Rightarrow> html_node list \<Rightarrow> string option"
  and to_md :: "md_env \<Rightarrow> element option \<Rightarrow> html_node option \<Rightarrow> html_node option \<Rightarrow> html_node \<Rightarrow> string option" where
  "parse env p prev [] = Some []"
| "parse env p prev (n # ns) =
     (case to_md env p prev (first_opt ns) n of
        None \<Rightarrow> None
      | Some a \<Rightarrow> map_option (\<lambda>b. a @ b) (parse env p (Some n) ns))"
| "to_md env p prev nxt n =
     (let e = new_element n p prev nxt
      in if el_name e = ''#text'' then Some (element_text env e)
         else case tagByName (el_name e) of
           Replace_tag t \<Rightarrow> Some t
         | Image_tag \<Rightarrow> Some (image_markdown e)
         | Cell_tag \<Rightarrow> Option.bind (parse env (Some e) None (node_children n)) (\<lambda>inner. decorate env e (trim inner))
         | Aside_tag \<Rightarrow>
             if has_word ''quote'' (element_attr e ''class'') \<and> first_blockquote (node_children n) \<noteq> []
             then map_option (quote_markdown e) (parse env (Some e) None (first_blockquote (node_children n)))
             else Option.bind (parse env (Some e) None (node_children n)) (finish_tag env e)
         | _ \<Rightarrow> Option.bind (parse env (Some e) None (node_children n)) (finish_tag env e))"
  by pat_completeness auto
termination
proof (relation "measure (\<lambda>x. case x of Inr (env, p, prev, nxt, n) \<Rightarrow> 2 * size n
    | Inl (env, p, prev, ns) \<Rightarrow> 2 * size_list size ns + 1)", goal_cases)
qed (simp_all add: children_less)

declare to_md.simps [simp del]

section \<open>Cleaning the HTML\<close>

text \<open>\<open>/<body[^>]*>([\s\S]*?)<\/body>/\<close>.\<close>

fun body_content :: "string \<Rightarrow> string option" where
  "body_content [] = None"
| "body_content (c # cs) =
     (let r = dropWhile (\<lambda>d. d \<noteq> CHR ''>'') (drop 4 cs)
      in if prefix ''<body'' (c # cs) \<and> r \<noteq> [] \<and> contains ''</body>'' (tl r)
         then (case find_at ''</body>'' (tl r) of Some k \<Rightarrow> Some (take k (tl r)) | None \<Rightarrow> None)
         else body_content cs)"

text \<open>\<open>/<[^\s>]+[^>]*>/\<close> at the head: the length of the match.\<close>

fun tag_length :: "string \<Rightarrow> nat option" where
  "tag_length (a # c # r) =
     (if a = CHR ''<'' \<and> \<not> js_space c \<and> c \<noteq> CHR ''>'' \<and> CHR ''>'' \<in> set r
      then Some (3 + length (takeWhile (\<lambda>d. d \<noteq> CHR ''>'') r)) else None)"
| "tag_length _ = None"

text \<open>Two tags with at least two white space characters between them, and the same with one space.\<close>

definition spaced_tags :: "string \<Rightarrow> (string \<times> string) option" where
  "spaced_tags s =
     (case tag_length s of
        None \<Rightarrow> None
      | Some n \<Rightarrow>
          (let sp = takeWhile js_space (drop n s)
           in if length sp < 2 then None
              else case tag_length (drop (n + length sp) s) of
                     None \<Rightarrow> None
                   | Some m \<Rightarrow> Some (take (n + length sp + m) s, take n s @ '' '' @ take m (drop (n + length sp) s))))"

fun find_spaced :: "string \<Rightarrow> (string \<times> string) option" where
  "find_spaced [] = None"
| "find_spaced (c # cs) = (case spaced_tags (c # cs) of Some r \<Rightarrow> Some r | None \<Rightarrow> find_spaced cs)"

text \<open>The loop ends when no such tags are left, if it ends.\<close>

partial_function (option) narrow_gaps :: "string \<Rightarrow> string option" where
  "narrow_gaps html =
     (case find_spaced html of
        None \<Rightarrow> Some html
      | Some mr \<Rightarrow> narrow_gaps (js_replace (fst mr) (snd mr) html))"

text \<open>
  \<open>/<!\[if !?\S*]>[^!]*<!\[endif]>/\<close> at the head: of the places where \<open>]>\<close> ends the condition, the last
  one is tried first.
\<close>

definition conditional_end :: "string \<Rightarrow> nat option" where
  "conditional_end u =
     (let v = takeWhile (\<lambda>d. d \<noteq> CHR ''!'') u
      in if v \<noteq> [] \<and> last v = CHR ''<'' \<and> prefix ''![endif]>'' (drop (length v) u) then Some (length v + 9) else None)"

definition conditional_length :: "string \<Rightarrow> nat option" where
  "conditional_length s =
     (if prefix ''<![if '' s
      then (let r = drop 6 s; w = takeWhile (\<lambda>d. \<not> js_space d) r;
                ends = filter (\<lambda>p. prefix '']>'' (drop p w) \<and> conditional_end (drop (p + 2) r) \<noteq> None) (rev [0..<length w])
            in case ends of
                 [] \<Rightarrow> None
               | p # _ \<Rightarrow> map_option (\<lambda>n. 6 + p + 2 + n) (conditional_end (drop (p + 2) r)))
      else None)"

function remove_conditionals :: "string \<Rightarrow> string" where
  "remove_conditionals [] = []"
| "remove_conditionals (c # cs) =
     (case conditional_length (c # cs) of
        Some n \<Rightarrow> remove_conditionals (drop (n - 1) cs)
      | None \<Rightarrow> c # remove_conditionals cs)"
  by pat_completeness auto
termination by (relation "measure length") auto

definition trimUnwanted :: "string \<Rightarrow> string option" where
  "trimUnwanted html =
     (let h1 = (case body_content html of Some b \<Rightarrow> b | None \<Rightarrow> html);
          h2 = replace_all ''&nbsp;'' '' '' (map (\<lambda>c. if c = CHR 0x0D \<or> c = CHR 0x0A then CHR '' '' else c) h1);
          h3 = map (\<lambda>c. if c = CHR 0xA0 then CHR '' '' else c) h2
      in map_option remove_conditionals (narrow_gaps h3))"

section \<open>Code and placeholders\<close>

text \<open>\<open>/<code[^>]*>([\s\S]*?)<\/code>/gi\<close> at the head: the match and the code.\<close>

definition code_match :: "string \<Rightarrow> (string \<times> string) option" where
  "code_match s =
     (let r = dropWhile (\<lambda>d. d \<noteq> CHR ''>'') (drop 5 s)
      in if prefix ''<code'' (lower s) \<and> r \<noteq> []
         then map_option (\<lambda>k. (take (length s - length r + 1 + k + 7) s, take k (tl r))) (find_at ''</code>'' (lower (tl r)))
         else None)"

function code_matches :: "string \<Rightarrow> (string \<times> string) list" where
  "code_matches [] = []"
| "code_matches (c # cs) =
     (case code_match (c # cs) of
        Some mc \<Rightarrow> mc # code_matches (drop (length (fst mc) - 1) cs)
      | None \<Rightarrow> code_matches cs)"
  by pat_completeness auto
termination by (relation "measure length") auto

definition code_placeholder :: "nat \<Rightarrow> string" where
  "code_placeholder i = ''DISCOURSE_PLACEHOLDER_'' @ show_nat i"

definition strip_newlines :: "string \<Rightarrow> string" where
  "strip_newlines s =
     (let t = (if prefix nl s then tl s else s) in if suffix nl t then butlast t else t)"

text \<open>
  \<open>transformNode\<close>. A node with a \<open>length\<close> is taken for a list of nodes and becomes an array, which has
  neither a name nor children nor attributes.
\<close>

fun transform_node :: "dom_node \<Rightarrow> html_node" where
  "transform_node (Dom name d as cs len) =
     (if name = ''#text'' then Html name d [] []
      else if len then Html [] None [] []
      else Html (lower name) d (fold (\<lambda>(k, v) m. om_set k v m) as [])
             (map transform_node (filter (\<lambda>c. nodeName c \<noteq> ''#comment'') cs)))"

definition transform_nodes :: "dom_node list \<Rightarrow> html_node list" where
  "transform_nodes ns = map transform_node (filter (\<lambda>n. nodeName n \<noteq> ''#comment'') ns)"

definition putPlaceholders :: "md_env \<Rightarrow> string \<Rightarrow> (html_node list \<times> (string \<times> string) list) option" where
  "putPlaceholders env html =
     (let ms = code_matches html;
          placeholders = map (\<lambda>(i, m, code). (code_placeholder (i + 1), strip_newlines (div_text env code))) (zip [0..<length ms] ms);
          html' = fold (\<lambda>(i, m, code). js_replace m (''<code>'' @ code_placeholder (i + 1) @ ''</code>'')) (zip [0..<length ms] ms) html
      in map_option (\<lambda>h. (transform_nodes (parse_html env h), placeholders)) (trimUnwanted html'))"

definition replacePlaceholders :: "string \<Rightarrow> (string \<times> string) list \<Rightarrow> string" where
  "replacePlaceholders markdown ps = fold (\<lambda>(p, code). js_replace p code) ps markdown"

section \<open>Tidying\<close>

text \<open>\<open>/\n +/g\<close> and \<open>/ +\n/g\<close>, each replaced by a newline.\<close>

function unindent :: "string \<Rightarrow> string" where
  "unindent [] = []"
| "unindent (c # cs) =
     (if c = CHR 0x0A then c # unindent (dropWhile (\<lambda>d. d = CHR '' '') cs) else c # unindent cs)"
  by pat_completeness auto
termination by (relation "measure length") (auto simp: le_imp_less_Suc length_dropWhile_le)

function cut_line_ends :: "string \<Rightarrow> string" where
  "cut_line_ends [] = []"
| "cut_line_ends (c # cs) =
     (if c = CHR '' ''
      then (let r = takeWhile (\<lambda>d. d = CHR '' '') (c # cs); rest = dropWhile (\<lambda>d. d = CHR '' '') cs
            in (if prefix nl rest then [] else r) @ cut_line_ends rest)
      else c # cut_line_ends cs)"
  by pat_completeness auto
termination by (relation "measure length") (auto simp: le_imp_less_Suc length_dropWhile_le)

definition cut_bold :: "string \<Rightarrow> string" where
  "cut_bold s =
     (let t = (if prefix ''<b>'' s then drop 3 s else s) in if suffix ''</b>'' t then take (length t - 4) t else t)"

definition tidy :: "string \<Rightarrow> string" where
  "tidy s = squeeze_runs (\<lambda>c. c = CHR 0x0A) 3 (nl @ nl) (squeeze_runs (\<lambda>c. c = CHR '' '') 2 '' '' (cut_line_ends (unindent s)))"

definition expand_tabs :: "string \<Rightarrow> string" where
  "expand_tabs s = concat (map (\<lambda>c. if c = CHR 0x09 then ''  '' else [c]) s)"

text \<open>\<open>None\<close> when the call does not return; an exception gives the empty text.\<close>

definition toMarkdown :: "md_env \<Rightarrow> string \<Rightarrow> string option" where
  "toMarkdown env html =
     (case putPlaceholders env html of
        None \<Rightarrow> None
      | Some (elements, placeholders) \<Rightarrow>
          (case parse env None None elements of
             None \<Rightarrow> Some []
           | Some markdown \<Rightarrow>
               Some (replacePlaceholders (expand_tabs (tidy (trim (cut_bold (trim markdown))))) placeholders)))"

end
