(* ===== verification/ToMarkdownProofs.thy ===== *)
theory ToMarkdownProofs
  imports ToMarkdown
begin

text \<open>
  Turning HTML into Markdown: when the loop over gaps between tags ends and when it does not, what
  tidying leaves, what becomes of tables and numbered lists, and how one element loses the text.
\<close>

section \<open>The replacement text of a replacement\<close>

lemma expand_no_dollar: "CHR ''$'' \<notin> set r \<Longrightarrow> expand_dollars a m b r = r"
  by (induction a m b r rule: expand_dollars.induct) auto

lemma expand_skip: "CHR ''$'' \<notin> set u \<Longrightarrow> r \<noteq> [] \<Longrightarrow> expand_dollars a m b (u @ r) = u @ expand_dollars a m b r"
proof (induction u)
  case (Cons c u)
  then obtain d w where "u @ r = d # w" by (cases "u @ r") auto
  moreover have "c \<noteq> CHR ''$''" using Cons.prems(1) by auto
  ultimately show ?case using Cons by simp
qed simp

lemma js_replace_plain: "CHR ''$'' \<notin> set by \<Longrightarrow> js_replace sub by s = replace_first sub by s"
  by (simp add: js_replace_def replace_first_def expand_no_dollar split: option.split)

lemma find_at_here: "find_at m (m @ s) = Some 0"
proof (cases "m @ s")
  case (Cons c cs)
  have "prefix m (c # cs)" by (simp add: Cons [symmetric])
  then show ?thesis by (simp add: Cons)
qed simp

section \<open>The loop over gaps\<close>

definition hang_tail :: string where "hang_tail = ''$&\">  <b>''"

definition hangs :: "string \<Rightarrow> bool" where
  "hangs s \<longleftrightarrow> (\<exists>P R. s = P @ hang_tail @ R \<and> prefix ''<a'' P \<and> CHR ''>'' \<notin> set P \<and> CHR ''$'' \<notin> set P)"

lemma takeWhile_stop: "P c \<Longrightarrow> \<not> P d \<Longrightarrow> c # takeWhile P xs = takeWhile P (c # xs)"
  by simp

lemma hangs_find:
  assumes "prefix ''<a'' P" "CHR ''>'' \<notin> set P"
  shows "find_spaced (P @ hang_tail @ R) = Some (P @ hang_tail, P @ ''$&\"> <b>'')"
proof -
  obtain Q where P: "P = CHR ''<'' # CHR ''a'' # Q" using assms(1) by (auto simp: prefix_def)
  have t: "takeWhile (\<lambda>d. d \<noteq> CHR ''>'') (Q @ hang_tail @ R) = Q @ ''$&\"''"
    using assms(2) P by (subst takeWhile_append2) (auto simp: hang_tail_def)
  have n: "tag_length (P @ hang_tail @ R) = Some (length P + 4)"
    using t by (simp add: P js_space_def) (simp add: hang_tail_def)
  have d: "drop (length P + 4) (P @ hang_tail @ R) = ''  <b>'' @ R" by (simp add: hang_tail_def)
  have d2: "drop (length P + 6) (P @ hang_tail @ R) = ''<b>'' @ R" by (simp add: hang_tail_def)
  have s: "takeWhile js_space (''  <b>'' @ R) = ''  ''" by (simp add: js_space_def)
  have m: "tag_length (''<b>'' @ R) = Some 3" by (simp add: js_space_def)
  have "length ''  '' = 2" "length P + 4 + 2 = length P + 6" by simp_all
  then have "spaced_tags (P @ hang_tail @ R) = Some (take (length P + 6 + 3) (P @ hang_tail @ R),
      take (length P + 4) (P @ hang_tail @ R) @ '' '' @ take 3 (''<b>'' @ R))"
    unfolding spaced_tags_def n option.case d s Let_def by (simp only: d2 m option.case if_False less_irrefl not_less_iff_gr_or_eq)
  also have "\<dots> = Some (P @ hang_tail, P @ ''$&\"> <b>'')" by (simp add: hang_tail_def)
  finally have "spaced_tags (P @ hang_tail @ R) = Some (P @ hang_tail, P @ ''$&\"> <b>'')" .
  then show ?thesis by (simp add: P)
qed

lemma hangs_step:
  assumes "hangs s"
  obtains m r where "find_spaced s = Some (m, r)" "hangs (js_replace m r s)"
proof -
  obtain P R where s: "s = P @ hang_tail @ R" and P: "prefix ''<a'' P" "CHR ''>'' \<notin> set P" "CHR ''$'' \<notin> set P"
    using assms by (auto simp: hangs_def)
  let ?m = "P @ hang_tail" and ?r = "P @ ''$&\"> <b>''"
  have "js_replace ?m ?r s = P @ ?m @ ''\"> <b>'' @ R"
    using find_at_here [of ?m R] P(3) by (simp add: js_replace_def s expand_skip)
  also have "\<dots> = (P @ P) @ hang_tail @ ''\"> <b>'' @ R" by simp
  finally have "hangs (js_replace ?m ?r s)"
    unfolding hangs_def using P by (intro exI [of _ "P @ P"] exI [of _ "''\"> <b>'' @ R"]) (auto simp: prefix_def)
  then show ?thesis using hangs_find [OF P(1,2), of R] s that by blast
qed

lemma narrow_gaps_never:
  assumes "hangs s"
  shows "narrow_gaps s = None"
proof -
  have "\<not> hangs x" if "narrow_gaps x = Some y" for x y
  proof (rule narrow_gaps.raw_induct [OF _ that])
    fix f :: "string \<Rightarrow> string option" and x y
    assume IH: "\<And>x y. f x = Some y \<Longrightarrow> \<not> hangs x"
      and e: "(case find_spaced x of None \<Rightarrow> Some x | Some mr \<Rightarrow> f (js_replace (fst mr) (snd mr) x)) = Some y"
    show "\<not> hangs x"
    proof
      assume "hangs x"
      then obtain m r where "find_spaced x = Some (m, r)" "hangs (js_replace m r x)" by (rule hangs_step)
      with e IH show False by auto
    qed
  qed
  then show ?thesis using assms by (cases "narrow_gaps s") auto
qed

subsection \<open>Without a dollar sign\<close>

lemma takeWhile_before: "c \<in> set r \<Longrightarrow> length (takeWhile (\<lambda>d. d \<noteq> c) r) < length r"
  by (induction r) auto

lemma tag_length_le: "tag_length s = Some n \<Longrightarrow> 3 \<le> n \<and> n \<le> length s"
proof (induction s rule: tag_length.induct)
  case (1 a c r)
  then have "CHR ''>'' \<in> set r" by (simp split: if_splits)
  then have "length (takeWhile (\<lambda>d. d \<noteq> CHR ''>'') r) < length r" by (rule takeWhile_before)
  with 1 show ?case by (auto split: if_splits)
qed simp_all

lemma spaced_tags_Some:
  assumes "spaced_tags s = Some (m, r)"
  shows "prefix m s" "length r < length m" "set r \<subseteq> insert CHR '' '' (set s)"
proof -
  from assms obtain n k where n: "tag_length s = Some n"
    and sp: "2 \<le> length (takeWhile js_space (drop n s))"
    and k: "tag_length (drop (n + length (takeWhile js_space (drop n s))) s) = Some k"
    and e: "m = take (n + length (takeWhile js_space (drop n s)) + k) s"
      "r = take n s @ '' '' @ take k (drop (n + length (takeWhile js_space (drop n s))) s)"
    by (auto simp: spaced_tags_def Let_def split: option.splits if_splits)
  let ?w = "length (takeWhile js_space (drop n s))"
  have "3 \<le> k" "k \<le> length s - (n + ?w)" using tag_length_le [OF k] by simp_all
  then have l: "n + ?w + k \<le> length s" by linarith
  show "prefix m s" by (simp add: e take_is_prefix)
  show "length r < length m" using l sp by (simp add: e)
  show "set r \<subseteq> insert CHR '' '' (set s)" by (auto simp: e dest: in_set_takeD in_set_dropD)
qed

lemma find_spaced_Some:
  "find_spaced s = Some (m, r) \<Longrightarrow> contains m s \<and> length r < length m \<and> set r \<subseteq> insert CHR '' '' (set s)"
proof (induction s)
  case (Cons c cs)
  show ?case
  proof (cases "spaced_tags (c # cs)")
    case (Some x)
    then show ?thesis using Cons.prems spaced_tags_Some [of "c # cs" m r] by simp
  next
    case None
    then show ?thesis using Cons by auto
  qed
qed simp

lemma replace_first_set: "set (replace_first sub by s) \<subseteq> set by \<union> set s"
  by (auto simp: replace_first_def split: option.splits dest: in_set_takeD in_set_dropD)

lemma replace_first_shorter:
  assumes "contains sub s" "length by < length sub"
  shows "length (replace_first sub by s) < length s"
proof -
  obtain k where k: "find_at sub s = Some k" using assms(1) find_at_None [of sub s] by auto
  with find_at_le [OF k] assms(2) show ?thesis by (simp add: replace_first_def)
qed

lemma narrow_gaps_returns:
  "CHR ''$'' \<notin> set s \<Longrightarrow> \<exists>h. narrow_gaps s = Some h \<and> find_spaced h = None"
proof (induction "length s" arbitrary: s rule: less_induct)
  case less
  show ?case
  proof (cases "find_spaced s")
    case None
    then show ?thesis by (simp add: narrow_gaps.simps)
  next
    case (Some mr)
    then obtain m r where f: "find_spaced s = Some (m, r)" by (cases mr) simp
    note h = find_spaced_Some [OF f]
    then have d: "CHR ''$'' \<notin> set r" using less.prems by auto
    have "length (replace_first m r s) < length s" using h by (intro replace_first_shorter) auto
    moreover have "CHR ''$'' \<notin> set (replace_first m r s)" using replace_first_set [of m r s] d less.prems by auto
    ultimately obtain h where "narrow_gaps (replace_first m r s) = Some h" "find_spaced h = None"
      using less.hyps by blast
    then show ?thesis using f by (subst narrow_gaps.simps) (simp add: js_replace_plain [OF d])
  qed
qed

lemma body_content_set: "body_content s = Some b \<Longrightarrow> set b \<subseteq> set s"
proof (induction s)
  case (Cons c cs)
  show ?case
  proof (cases "body_content cs = Some b")
    case True
    then show ?thesis using Cons.IH by auto
  next
    case False
    then obtain k where "b = take k (tl (dropWhile (\<lambda>d. d \<noteq> CHR ''>'') (drop 4 cs)))"
      using Cons.prems by (auto simp: Let_def split: if_splits option.splits)
    then have "set b \<subseteq> set (dropWhile (\<lambda>d. d \<noteq> CHR ''>'') (drop 4 cs))"
      by (auto dest!: in_set_takeD intro: list.set_sel(2))
    then show ?thesis by (auto dest!: set_dropWhileD in_set_dropD)
  qed
qed simp

lemma replace_all_set: "set (replace_all sub b s) \<subseteq> set b \<union> set s"
proof (induction sub b s rule: replace_all.induct)
  case (2 sub b c cs)
  have "set (drop (length sub) (c # cs)) \<subseteq> set (c # cs)" by (rule set_drop_subset)
  with 2 show ?case by auto
qed simp

lemma trimUnwanted_returns:
  assumes "CHR ''$'' \<notin> set html"
  shows "trimUnwanted html \<noteq> None"
proof -
  let ?h1 = "case body_content html of Some b \<Rightarrow> b | None \<Rightarrow> html"
  let ?h2 = "replace_all ''&nbsp;'' '' '' (map (\<lambda>c. if c = CHR 0x0D \<or> c = CHR 0x0A then CHR '' '' else c) ?h1)"
  have "set ?h1 \<subseteq> set html" using body_content_set [of html] by (auto split: option.splits)
  moreover have "set ?h2 \<subseteq> insert CHR '' '' (set ?h1)"
    using replace_all_set [of "''&nbsp;''" "'' ''" "map (\<lambda>c. if c = CHR 0x0D \<or> c = CHR 0x0A then CHR '' '' else c) ?h1"] by (auto split: if_splits)
  ultimately have "CHR ''$'' \<notin> set (map (\<lambda>c. if c = CHR 0xA0 then CHR '' '' else c) ?h2)" using assms by auto
  from narrow_gaps_returns [OF this] show ?thesis by (auto simp: trimUnwanted_def)
qed

lemma placeholder_no_dollar: "CHR ''$'' \<notin> set (''<code>'' @ code_placeholder n @ ''</code>'')"
  using show_nat_set [of n] by (auto simp: code_placeholder_def digits_def)

lemma putPlaceholders_returns:
  assumes "CHR ''$'' \<notin> set html"
  shows "putPlaceholders env html \<noteq> None"
proof -
  have "CHR ''$'' \<notin> set (fold (\<lambda>(i, m, code). js_replace m (''<code>'' @ code_placeholder (i + 1) @ ''</code>'')) ms h)"
    if "CHR ''$'' \<notin> set h" for ms :: "(nat \<times> string \<times> string) list" and h
    using that
  proof (induction ms arbitrary: h)
    case (Cons x ms)
    obtain i m c where x: "x = (i, m, c)" by (cases x)
    have "CHR ''$'' \<notin> set (js_replace m (''<code>'' @ code_placeholder (i + 1) @ ''</code>'') h)"
      using replace_first_set [of m "''<code>'' @ code_placeholder (i + 1) @ ''</code>''" h] placeholder_no_dollar [of "i + 1"] Cons.prems
      by (subst js_replace_plain) auto
    then show ?case using Cons.IH x by simp
  qed simp
  from trimUnwanted_returns [OF this [OF assms]] show ?thesis by (simp add: putPlaceholders_def Let_def)
qed

text \<open>
  C16. HTML without a dollar sign is always converted: every loop ends, whatever the page, the
  parser and the callbacks of plugins give.
\<close>

theorem conversion_returns: "CHR ''$'' \<notin> set html \<Longrightarrow> \<exists>markdown. toMarkdown env html = Some markdown"
  using putPlaceholders_returns [of html env] by (auto simp: toMarkdown_def split: option.splits)

theorem conversion_returns_witness: "\<forall>env. \<exists>markdown. toMarkdown env ''<p>a</p>'' = Some markdown"
  by (intro allI conversion_returns) simp

text \<open>With \<open>$&\<close> in an attribute and a gap between tags the loop never ends: each step puts the match back.\<close>

lemma conversion_hangs: "toMarkdown env ''<a title=\"$&\">  <b>'' = None"
proof -
  let ?h = "''<a title=\"$&\">  <b>''"
  have "code_matches ?h = []" by (simp add: code_match_def lower_def lower_char_def is_upper_def)
  moreover have "body_content ?h = None" by simp
  moreover have "replace_all ''&nbsp;'' '' '' ?h = ?h" by simp
  moreover have "hangs ?h"
    unfolding hangs_def by (intro exI [of _ "''<a title=\"''"] exI [of _ "[]"]) (simp add: hang_tail_def)
  ultimately show ?thesis using narrow_gaps_never [of ?h]
    by (simp add: toMarkdown_def putPlaceholders_def trimUnwanted_def)
qed

section \<open>Tidying\<close>

definition follows :: "char \<Rightarrow> char \<Rightarrow> string \<Rightarrow> bool" where
  "follows a b s \<longleftrightarrow> \<not> successively (\<lambda>c d. \<not> (c = a \<and> d = b)) s"

lemma contains_follows: "contains [a, b] s \<longleftrightarrow> follows a b s"
  unfolding follows_def by (induction s rule: induct_list012) (auto simp: prefix_Cons)

lemma hd_squeeze: "s \<noteq> [] \<Longrightarrow> 0 < m \<Longrightarrow> squeeze_runs (\<lambda>d. d = c) n (replicate m c) s \<noteq> [] \<and> hd (squeeze_runs (\<lambda>d. d = c) n (replicate m c) s) = hd s"
  by (cases s) (auto simp: hd_append)

lemma takeWhile_is: "takeWhile (\<lambda>d. d = c) s = replicate (length (takeWhile (\<lambda>d. d = c) s)) c"
  by (induction s) auto

lemma successively_replicate: "m \<le> 1 \<or> P c c \<Longrightarrow> successively P (replicate m c)"
  by (induction m) (auto simp: successively_Cons hd_replicate)

lemma successively_dropWhile: "successively P s \<Longrightarrow> successively P (dropWhile Q s)"
  by (induction s) (auto simp: successively_Cons)

lemma successively_run:
  assumes "successively P (c # cs)" "dropWhile (\<lambda>d. d = c) cs \<noteq> []"
  shows "P c (hd (dropWhile (\<lambda>d. d = c) cs))"
  using assms by (induction cs) (auto simp: successively_Cons split: if_splits)

lemma squeeze_successively:
  assumes "0 < m" "m < n" "m = 1 \<and> n = 2 \<or> P c c"
  shows "successively P s \<Longrightarrow> successively P (squeeze_runs (\<lambda>d. d = c) n (replicate m c) s)"
proof (induction s rule: length_induct)
  case (1 s)
  show ?case
  proof (cases s)
    case (Cons d ds)
    let ?f = "squeeze_runs (\<lambda>d. d = c) n (replicate m c)"
    show ?thesis
    proof (cases "d = c")
      case False
      then show ?thesis using 1 Cons hd_squeeze [of ds m c n] assms(1)
        by (cases "ds = []") (auto simp: successively_Cons)
    next
      case True
      let ?r = "takeWhile (\<lambda>d. d = c) s" and ?t = "dropWhile (\<lambda>d. d = c) ds"
      define k where "k = (if n \<le> length ?r then m else length ?r)"
      have k: "0 < k" "k \<le> 1 \<or> P c c" using assms True Cons by (auto simp: k_def Suc_le_eq)
      have e: "?f s = replicate k c @ ?f ?t"
        using True Cons takeWhile_is [of c s] by (auto simp: k_def Let_def)
      have t: "successively P (?f ?t)"
        using 1 Cons successively_dropWhile [of P ds] by (simp add: successively_Cons length_dropWhile_le le_imp_less_Suc) (metis length_dropWhile_le le_imp_less_Suc successively.simps(1) successively_dropWhile)
      have "P c (hd (?f ?t))" if "?t \<noteq> []"
        using successively_run [of P c ds] 1(2) Cons True that hd_squeeze [of ?t m c n] assms(1) by simp
      moreover have "?f ?t = []" if "?t = []" unfolding that by simp
      ultimately have "?f ?t \<noteq> [] \<Longrightarrow> P c (hd (?f ?t))" by blast
      moreover have "successively P (replicate k c @ u)" if "successively P u" "u \<noteq> [] \<Longrightarrow> P c (hd u)" for u
        using that k successively_replicate [of k P c] by (cases u) (auto simp: successively_append_iff)
      ultimately show ?thesis using t unfolding e by blast
    qed
  qed simp
qed

lemma hd_unindent: "s \<noteq> [] \<Longrightarrow> unindent s \<noteq> [] \<and> hd (unindent s) = hd s"
  by (cases s) auto

lemma hd_dropWhile_space: "dropWhile (\<lambda>d. d = c) s \<noteq> [] \<Longrightarrow> hd (dropWhile (\<lambda>d. d = c) s) \<noteq> c"
  using hd_dropWhile [of "\<lambda>d. d = c" s] by simp

lemma unindent_clean: "successively (\<lambda>c d. \<not> (c = CHR 0x0A \<and> d = CHR '' '')) (unindent s)"
proof (induction s rule: unindent.induct)
  case (2 c cs)
  let ?t = "dropWhile (\<lambda>d. d = CHR '' '') cs"
  show ?case
  proof (cases "c = CHR 0x0A")
    case True
    then have e: "unindent (c # cs) = c # unindent ?t" by simp
    show ?thesis
    proof (cases "?t = []")
      case True
      show ?thesis unfolding e True by simp
    next
      case False
      then show ?thesis
        unfolding e successively_Cons using hd_unindent [OF False] hd_dropWhile_space [OF False] 2(1) [OF \<open>c = _\<close>] by metis
    qed
  next
    case False
    then show ?thesis using 2 by (auto simp: successively_Cons)
  qed
qed simp

lemma hd_cut: "cut_line_ends s \<noteq> [] \<Longrightarrow> hd (cut_line_ends s) = hd s \<or> hd s = CHR '' '' \<and> hd (cut_line_ends s) = CHR 0x0A"
proof (cases s)
  case (Cons c cs)
  let ?t = "dropWhile (\<lambda>d. d = CHR '' '') cs"
  show ?thesis
  proof (cases "c = CHR '' '' \<and> prefix nl ?t")
    case True
    then obtain u where t: "?t = CHR 0x0A # u" by (auto simp: nl_def prefix_def)
    then have "cut_line_ends s = cut_line_ends (CHR 0x0A # u)" using True Cons by (simp add: nl_def Let_def)
    then show ?thesis using True Cons by simp
  next
    case False
    then show ?thesis using Cons by (auto simp: Let_def)
  qed
qed simp

lemma hd_cut_cons: "c \<noteq> CHR '' '' \<Longrightarrow> cut_line_ends (c # s) = c # cut_line_ends s"
  by simp

lemma cut_clean:
  "successively (\<lambda>c d. \<not> (c = CHR 0x0A \<and> d = CHR '' '')) s \<Longrightarrow>
   successively (\<lambda>c d. \<not> (c = CHR 0x0A \<and> d = CHR '' '') \<and> \<not> (c = CHR '' '' \<and> d = CHR 0x0A)) (cut_line_ends s)"
  (is "?I s \<Longrightarrow> ?O (cut_line_ends s)")
proof (induction s rule: cut_line_ends.induct)
  case (2 c cs)
  let ?r = "takeWhile (\<lambda>d. d = CHR '' '') (c # cs)" and ?t = "dropWhile (\<lambda>d. d = CHR '' '') cs"
  show ?case
  proof (cases "c = CHR '' ''")
    case False
    have o: "?O (cut_line_ends cs)" using 2 False by (cases "cs = []") (simp_all add: successively_Cons)
    have "\<not> (c = CHR 0x0A \<and> hd (cut_line_ends cs) = CHR '' '')" if "cut_line_ends cs \<noteq> []"
      using hd_cut [OF that] 2(3) that by (auto simp: successively_Cons)
    then show ?thesis using o False by (auto simp: successively_Cons)
  next
    case True
    have "?I ?t" using 2(3) successively_dropWhile by (cases "cs = []") (auto simp: successively_Cons)
    then have o: "?O (cut_line_ends ?t)" by (rule 2(1) [OF True refl refl])
    have h: "hd (cut_line_ends ?t) \<noteq> CHR 0x0A" if "\<not> prefix nl ?t" "cut_line_ends ?t \<noteq> []"
    proof -
      have t: "?t \<noteq> []" using that(2) by (cases ?t) auto
      then have "hd ?t \<noteq> CHR 0x0A" using that(1) by (cases ?t) (auto simp: nl_def)
      then show ?thesis using hd_cut [OF that(2)] hd_dropWhile_space [OF t] by argo
    qed
    have gen: "?O (replicate k (CHR '' '') @ u)" if "?O u" "u \<noteq> [] \<Longrightarrow> hd u \<noteq> CHR 0x0A" for u k
      using that successively_replicate [of k "\<lambda>c d. \<not> (c = CHR 0x0A \<and> d = CHR '' '') \<and> \<not> (c = CHR '' '' \<and> d = CHR 0x0A)" "CHR '' ''"]
      by (cases u) (auto simp: successively_append_iff)
    obtain k where r: "?r = replicate k (CHR '' '')" by (rule that) (rule takeWhile_is)
    have "?O (?r @ cut_line_ends ?t)" if "\<not> prefix nl ?t" unfolding r by (rule gen [OF o h [OF that]])
    moreover have "cut_line_ends (c # cs) = (if prefix nl ?t then [] else ?r) @ cut_line_ends ?t"
      unfolding cut_line_ends.simps(2) Let_def if_P [OF True] by (rule refl)
    ultimately show ?thesis using o by (cases "prefix nl ?t") (simp_all only: if_True if_False append_Nil simp_thms)
  qed
qed simp

lemma filter_takeWhile_none: "\<not> Q c \<Longrightarrow> filter Q (takeWhile (\<lambda>d. d = c) s) = []"
  by (induction s) auto

lemma filter_dropWhile_none: "\<not> Q c \<Longrightarrow> filter Q (dropWhile (\<lambda>d. d = c) s) = filter Q s"
  by (induction s) auto

lemma squeeze_words: "\<not> Q c \<Longrightarrow> filter Q (squeeze_runs (\<lambda>d. d = c) n (replicate m c) s) = filter Q s"
proof (induction s rule: length_induct)
  case (1 s)
  then show ?case
    by (cases s) (auto simp: Let_def filter_takeWhile_none filter_dropWhile_none length_dropWhile_le le_imp_less_Suc)
qed

lemma unindent_words: "\<not> Q (CHR '' '') \<Longrightarrow> filter Q (unindent s) = filter Q s"
  by (induction s rule: unindent.induct) (auto simp: filter_dropWhile_none)

lemma cut_words: "\<not> Q (CHR '' '') \<Longrightarrow> filter Q (cut_line_ends s) = filter Q s"
  by (induction s rule: cut_line_ends.induct) (auto simp: Let_def filter_takeWhile_none filter_dropWhile_none)

lemma no_three: "\<not> contains [CHR 0x0A, CHR 0x0A, CHR 0x0A] (squeeze_runs (\<lambda>c. c = CHR 0x0A) 3 (nl @ nl) s)"
proof (induction s rule: length_induct)
  case (1 s)
  let ?f = "squeeze_runs (\<lambda>c. c = CHR 0x0A) 3 (nl @ nl)"
  show ?case
  proof (cases s)
    case (Cons d ds)
    let ?t = "dropWhile (\<lambda>d. d = CHR 0x0A) ds"
    show ?thesis
    proof (cases "d = CHR 0x0A")
      case False
      then show ?thesis using 1 Cons by (auto simp: prefix_Cons)
    next
      case True
      let ?r = "takeWhile (\<lambda>d. d = CHR 0x0A) s"
      define k where "k = (if 3 \<le> length ?r then 2 else length ?r)"
      have e: "?f s = replicate k (CHR 0x0A) @ ?f ?t"
        using True Cons takeWhile_is [of "CHR 0x0A" s] by (auto simp: k_def Let_def nl_def numeral_2_eq_2)
      have "k \<le> 2" by (simp add: k_def)
      then have k: "k = 0 \<or> k = 1 \<or> k = 2" by arith
      have t: "\<not> contains [CHR 0x0A, CHR 0x0A, CHR 0x0A] (?f ?t)"
        using 1 Cons by (auto simp: length_dropWhile_le le_imp_less_Suc)
      have "hd (?f ?t) \<noteq> CHR 0x0A" if "?f ?t \<noteq> []"
        using that hd_dropWhile_space [of "CHR 0x0A" ds] by (cases ?t) auto
      then show ?thesis using k t unfolding e
        by (cases "?f ?t") (auto simp: prefix_Cons numeral_2_eq_2)
    qed
  qed simp
qed

lemma clean_pairs:
  assumes "successively (\<lambda>c d. \<not> (c = CHR 0x0A \<and> d = CHR '' '') \<and> \<not> (c = CHR '' '' \<and> d = CHR 0x0A)) u"
  defines "v \<equiv> squeeze_runs (\<lambda>d. d = CHR 0x0A) 3 (nl @ nl) (squeeze_runs (\<lambda>d. d = CHR '' '') 2 '' '' u)"
  shows "\<not> follows (CHR 0x0A) (CHR '' '') v \<and> \<not> follows (CHR '' '') (CHR 0x0A) v"
proof -
  let ?P = "\<lambda>c d. \<not> (c = CHR 0x0A \<and> d = CHR '' '') \<and> \<not> (c = CHR '' '' \<and> d = CHR 0x0A)"
  have "successively ?P (squeeze_runs (\<lambda>d. d = CHR '' '') 2 (replicate 1 (CHR '' '')) u)"
    by (rule squeeze_successively [OF _ _ _ assms(1)]) simp_all
  then have "successively ?P (squeeze_runs (\<lambda>d. d = CHR 0x0A) 3 (replicate 2 (CHR 0x0A)) (squeeze_runs (\<lambda>d. d = CHR '' '') 2 (replicate 1 (CHR '' '')) u))"
    by (rule squeeze_successively [rotated 3]) simp_all
  then have "successively ?P v" by (simp add: v_def nl_def numeral_2_eq_2)
  then show ?thesis unfolding follows_def by (auto elim!: successively_mono)
qed

lemma no_two_spaces: "\<not> follows (CHR '' '') (CHR '' '') (squeeze_runs (\<lambda>d. d = CHR '' '') 2 '' '' s)"
proof (induction s rule: length_induct)
  case (1 s)
  let ?f = "squeeze_runs (\<lambda>c. c = CHR '' '') 2 '' ''" and ?P = "\<lambda>c d. \<not> (c = CHR '' '' \<and> d = CHR '' '')"
  show ?case
  proof (cases s)
    case (Cons d ds)
    let ?t = "dropWhile (\<lambda>d. d = CHR '' '') ds"
    show ?thesis
    proof (cases "d = CHR '' ''")
      case False
      then show ?thesis using 1 Cons by (auto simp: follows_def successively_Cons)
    next
      case True
      have e: "?f s = CHR '' '' # ?f ?t"
        using True Cons by (cases "takeWhile (\<lambda>d. d = CHR '' '') ds") (auto simp: Let_def)
      have t: "successively ?P (?f ?t)"
        using 1 Cons by (auto simp: follows_def length_dropWhile_le le_imp_less_Suc)
      have "hd (?f ?t) \<noteq> CHR '' ''" if "?f ?t \<noteq> []"
        using that hd_dropWhile_space [of "CHR '' ''" ds] by (cases ?t) auto
      then show ?thesis using t unfolding e follows_def by (auto simp: successively_Cons)
    qed
  qed (simp add: follows_def)
qed

lemma newlines_keep_spaces:
  "\<not> follows (CHR '' '') (CHR '' '') s \<Longrightarrow>
   \<not> follows (CHR '' '') (CHR '' '') (squeeze_runs (\<lambda>d. d = CHR 0x0A) 3 (nl @ nl) s)"
  using squeeze_successively [of 2 3 "\<lambda>c d. \<not> (c = CHR '' '' \<and> d = CHR '' '')" "CHR 0x0A" s]
  by (simp add: follows_def nl_def numeral_2_eq_2)

text \<open>
  Tidied text has no space at the ends of its lines, no two spaces side by side and no two empty
  lines in a row, and only white space is lost.
\<close>

theorem tidy_clean:
  "\<not> contains [CHR 0x0A, CHR '' ''] (tidy s) \<and> \<not> contains [CHR '' '', CHR 0x0A] (tidy s) \<and>
   \<not> contains [CHR '' '', CHR '' ''] (tidy s) \<and> \<not> contains [CHR 0x0A, CHR 0x0A, CHR 0x0A] (tidy s) \<and>
   filter (\<lambda>c. c \<notin> {CHR '' '', CHR 0x0A}) (tidy s) = filter (\<lambda>c. c \<notin> {CHR '' '', CHR 0x0A}) s"
proof (intro conjI)
  note pairs = clean_pairs [OF cut_clean [OF unindent_clean]]
  show "\<not> contains [CHR 0x0A, CHR '' ''] (tidy s)" "\<not> contains [CHR '' '', CHR 0x0A] (tidy s)"
    unfolding contains_follows tidy_def using pairs by blast+
  show "\<not> contains [CHR '' '', CHR '' ''] (tidy s)"
    unfolding contains_follows tidy_def by (rule newlines_keep_spaces [OF no_two_spaces])
  show "\<not> contains [CHR 0x0A, CHR 0x0A, CHR 0x0A] (tidy s)" unfolding tidy_def by (rule no_three)
  let ?Q = "\<lambda>c. c \<notin> {CHR '' '', CHR 0x0A}"
  have "filter ?Q (squeeze_runs (\<lambda>d. d = CHR 0x0A) 3 (nl @ nl) u) = filter ?Q u" for u
    using squeeze_words [of ?Q "CHR 0x0A" 3 2 u] by (simp add: nl_def numeral_2_eq_2)
  moreover have "filter ?Q (squeeze_runs (\<lambda>d. d = CHR '' '') 2 '' '' u) = filter ?Q u" for u
    using squeeze_words [of ?Q "CHR '' ''" 2 1 u] by simp
  ultimately show "filter ?Q (tidy s) = filter ?Q s" by (simp add: tidy_def cut_words unindent_words)
qed

end
