(* ===== verification/ToMarkdownDocs.thy ===== *)
theory ToMarkdownDocs
  imports ToMarkdownProofs
begin

text \<open>
  Documents that \<open>lib/to-markdown.js\<close> is made for: tables of plain cells become Markdown tables, and
  the items of numbered lists get consecutive numbers. A numbered list without a bullet loses the text.
\<close>

section \<open>Documents\<close>

definition text_node :: "string \<Rightarrow> html_node" where
  "text_node s = Html ''#text'' (Some s) [] []"

definition element_node :: "string \<Rightarrow> html_node list \<Rightarrow> html_node" where
  "element_node name cs = Html name None [] cs"

definition cell_node :: "string \<Rightarrow> html_node" where
  "cell_node s = element_node ''td'' [text_node s]"

definition row_node :: "string list \<Rightarrow> html_node" where
  "row_node cs = element_node ''tr'' (map cell_node cs)"

definition table_node :: "string list list \<Rightarrow> html_node" where
  "table_node rows = element_node ''table'' [element_node ''tbody'' (map row_node rows)]"

definition plain_env :: "md_env \<Rightarrow> bool" where
  "plain_env env \<longleftrightarrow> tagDecorateCallbacks env = [] \<and> blockDecorateCallbacks env = [] \<and> textDecorateCallbacks env = []"

definition page_env :: "dom_node list \<Rightarrow> md_env" where
  "page_env ns = \<lparr>tagDecorateCallbacks = [], blockDecorateCallbacks = [], textDecorateCallbacks = [],
     textarea_text = id, div_text = id, parse_html = (\<lambda>h. ns)\<rparr>"

lemma plain_page [simp]: "plain_env (page_env ns)"
  by (simp add: plain_env_def page_env_def)

definition plain_text :: "string \<Rightarrow> bool" where
  "plain_text s \<longleftrightarrow> s \<noteq> [] \<and> trim s = s \<and> squeeze_runs js_space 1 '' '' s = s"

definition plain_cell :: "string \<Rightarrow> bool" where
  "plain_cell s \<longleftrightarrow> plain_text s \<and> CHR ''|'' \<notin> set s \<and> CHR 0x5C \<notin> set s"

definition row_cells :: "string list \<Rightarrow> string" where
  "row_cells cs = concat (map (\<lambda>c. ''|'' @ c) cs)"

definition table_text :: "string list list \<Rightarrow> string" where
  "table_text rows = join nl (map (\<lambda>r. row_cells r @ ''|'') rows)"

section \<open>The tags\<close>

lemma tag_kinds:
  "tagByName ''td'' = Cell_tag" "tagByName ''tr'' = Tr_tag" "tagByName ''tbody'' = Slice_tag nl"
  "tagByName ''table'' = Table_tag" "tagByName ''ol'' = Ol_tag" "tagByName ''li'' = Li_tag"
  by (simp_all add: tagByName_def allTags_def nl_def blocks_def headings_def slice_tags_def emphases_def allowedTags_def upt_rec)

lemma new_element_simps [simp]:
  "el_name (new_element (element_node name cs) p prev nxt) = name"
  "el_next (new_element n p prev nxt) = nxt"
  "el_previous (new_element n p prev nxt) = prev"
  "el_parent (new_element n p prev nxt) = p"
  "el_name (new_element (text_node s) p prev nxt) = ''#text''"
  "el_data (new_element (text_node s) p prev nxt) = Some s"
  "el_attributes (new_element (element_node name cs) p prev nxt) = []"
  by (auto simp: new_element_def element_node_def text_node_def is_mso_def Let_def split: option.split)

lemma node_children_element [simp]: "node_children (element_node name cs) = cs"
  by (simp add: element_node_def)

lemma text_md: "plain_env env \<Longrightarrow> plain_text s \<Longrightarrow> to_md env p None None (text_node s) = Some s"
  by (subst to_md.simps)
    (simp add: Let_def element_text_def leftTrimmable_def rightTrimmable_def plain_env_def plain_text_def)

lemma first_opt_simps [simp]: "first_opt [] = None" "first_opt (x # xs) = Some x"
  by (simp_all add: first_opt_def)

lemma trim_nonempty: "s \<noteq> [] \<Longrightarrow> \<not> js_space (hd s) \<Longrightarrow> trim s \<noteq> []"
  by (cases s) (auto simp: trim_def trim_start_def trim_end_def)

lemma trim_id: "s \<noteq> [] \<Longrightarrow> \<not> js_space (hd s) \<Longrightarrow> \<not> js_space (last s) \<Longrightarrow> trim s = s"
  by (cases s) (auto simp: trim_def trim_start_def intro: trim_end_id)

lemma pipe_no_space [simp]: "\<not> js_space (CHR ''|'')"
  by (simp add: js_space_def)

lemma row_cells_Cons: "row_cells (c # cs) = CHR ''|'' # c @ row_cells cs"
  by (simp add: row_cells_def)

lemma row_cells_hd: "cs \<noteq> [] \<Longrightarrow> row_cells cs \<noteq> [] \<and> hd (row_cells cs) = CHR ''|''"
  by (cases cs) (auto simp: row_cells_Cons)

lemma cell_md:
  assumes "plain_env env" "plain_cell s"
  shows "to_md env p prev nxt (cell_node s) = Some (''|'' @ s)"
proof -
  show ?thesis using assms text_md [of env s]
    by (subst to_md.simps)
      (simp add: cell_node_def Let_def tag_kinds decorate_def new_tag_def tag_decorate_def run_callbacks_def plain_env_def
        plain_cell_def plain_text_def)
qed

lemma cells_md:
  "plain_env env \<Longrightarrow> list_all plain_cell cs \<Longrightarrow> parse env p prev (map cell_node cs) = Some (row_cells cs)"
  by (induction cs arbitrary: prev) (simp_all add: cell_md row_cells_def)

lemma row_md:
  assumes "plain_env env" "list_all plain_cell cs" "cs \<noteq> []"
  shows "to_md env p prev nxt (row_node cs) = Some (row_cells cs @ ''|'' @ (case nxt of None \<Rightarrow> [] | Some _ \<Rightarrow> nl))"
proof -
  have "node_children (row_node cs) = map cell_node cs" by (simp add: row_node_def)
  moreover have "el_name (new_element (row_node cs) p prev nxt) = ''tr''" by (simp add: row_node_def)
  moreover have "trim (row_cells cs) \<noteq> []" using row_cells_hd [OF assms(3)] by (intro trim_nonempty) auto
  ultimately show ?thesis using assms
    by (subst to_md.simps)
      (simp add: Let_def tag_kinds cells_md finish_tag_def decorate_def tr_decorate_def new_tag_def nl_def split: option.split)
qed

lemma table_text_simps:
  "table_text [r] = row_cells r @ ''|''"
  "table_text (r # r' # rs) = row_cells r @ ''|'' @ nl @ table_text (r' # rs)"
  by (simp_all add: table_text_def)

lemma rows_md:
  "plain_env env \<Longrightarrow> list_all (\<lambda>r. r \<noteq> [] \<and> list_all plain_cell r) rows \<Longrightarrow>
   parse env p prev (map row_node rows) = Some (table_text rows)"
proof (induction rows arbitrary: prev)
  case (Cons r rows)
  then show ?case by (cases rows) (simp_all add: row_md table_text_simps)
qed (simp add: table_text_def)

section \<open>Tables\<close>

lemma squeeze_chars: "set (squeeze_runs P n d s) \<subseteq> set d \<union> set s"
proof (induction P n d s rule: squeeze_runs.induct)
  case (2 P n d c cs)
  then show ?case by (auto simp: Let_def dest: set_dropWhileD set_takeWhileD)
qed simp

lemma squeeze_no_newline: "CHR 0x0A \<notin> set (squeeze_runs js_space 1 '' '' s)"
proof (induction s rule: length_induct)
  case (1 s)
  then show ?case
    by (cases s) (auto simp: Let_def length_dropWhile_le le_imp_less_Suc js_space_def)
qed

lemma cell_no_newline: "plain_cell s \<Longrightarrow> CHR 0x0A \<notin> set s"
  unfolding plain_cell_def plain_text_def by (metis squeeze_no_newline)

lemma row_no_newline: "list_all plain_cell r \<Longrightarrow> CHR 0x0A \<notin> set (row_cells r @ ''|'')"
  by (induction r) (auto simp: row_cells_def cell_no_newline)

lemma row_pipes: "list_all plain_cell r \<Longrightarrow> countPipes (row_cells r @ ''|'') = length r + 1"
proof -
  assume r: "list_all plain_cell r"
  then have "CHR 0x5C \<notin> set (row_cells r @ ''|'')"
    by (induction r) (auto simp: row_cells_def plain_cell_def)
  then have "\<not> contains [CHR 0x5C, CHR ''|''] (row_cells r @ ''|'')"
    by (auto simp: contains_sublist dest: set_mono_sublist)
  then have "replace_first [CHR 0x5C, CHR ''|''] [] (row_cells r @ ''|'') = row_cells r @ ''|''"
    by (simp add: replace_first_def find_at_None [symmetric])
  moreover have "filter (\<lambda>d. d = CHR ''|'') c = []" if "plain_cell c" for c
    using that by (auto simp: plain_cell_def filter_empty_conv)
  then have "length (filter (\<lambda>d. d = CHR ''|'') (row_cells r @ ''|'')) = length r + 1"
    using r by (induction r) (auto simp: row_cells_def)
  ultimately show ?thesis by (simp add: countPipes_def)
qed

lemma close_rows_skip: "CHR ''|'' \<notin> set u \<Longrightarrow> close_rows (u @ v) = u @ close_rows v"
  by (induction u) (auto simp: Let_def)

lemma close_rows_cells:
  "list_all plain_cell r \<Longrightarrow> close_rows (row_cells r @ v) = row_cells r @ close_rows v"
proof (induction r)
  case (Cons c r)
  then have c: "c \<noteq> []" "CHR ''|'' \<notin> set c" "CHR 0x0A \<notin> set c"
    using cell_no_newline [of c] by (auto simp: plain_cell_def plain_text_def)
  then obtain d ds where d: "c = d # ds" "d \<noteq> CHR 0x0A" by (cases c) auto
  have "close_rows (CHR ''|'' # c @ row_cells r @ v) = CHR ''|'' # close_rows (c @ row_cells r @ v)"
    using d by (simp add: Let_def)
  then show ?case using Cons c by (simp add: row_cells_Cons close_rows_skip)
qed (simp add: row_cells_def)

lemma close_rows_table:
  "rows \<noteq> [] \<Longrightarrow> list_all (\<lambda>r. r \<noteq> [] \<and> list_all plain_cell r) rows \<Longrightarrow>
   close_rows (table_text rows @ nl @ nl) = table_text rows @ nl @ nl"
proof (induction rows rule: induct_list012)
  case (2 r)
  then show ?case using close_rows_cells [of r] by (simp add: table_text_simps nl_def Let_def)
next
  case (3 r r' rs)
  obtain c cs where "r' = c # cs" using "3.prems" by (cases r') auto
  then obtain w where w: "table_text (r' # rs) = CHR ''|'' # w" by (cases rs) (auto simp: table_text_simps row_cells_Cons)
  have "close_rows (CHR ''|'' # CHR 0x0A # CHR ''|'' # u) = CHR ''|'' # CHR 0x0A # close_rows (CHR ''|'' # u)" for u
    by (subst close_rows.simps(2), subst close_rows.simps(2)) (simp add: Let_def)
  then show ?case using 3 close_rows_cells [of r] w by (simp add: table_text_simps nl_def)
qed simp

lemma find_at_pair:
  "successively (\<lambda>c d. \<not> (c = a \<and> d = b)) (u @ [a]) \<Longrightarrow> find_at [a, b] (u @ a # b # v) = Some (length u)"
proof (induction u)
  case (Cons c u)
  then show ?case by (cases u) (auto simp: successively_Cons)
qed simp

lemma successively_absent: "b \<notin> set w \<Longrightarrow> successively (\<lambda>c d. \<not> (c = a \<and> d = b)) w"
  by (induction w) (auto simp: successively_Cons)

lemma table_text_trim:
  assumes "rows \<noteq> []" "list_all (\<lambda>r. r \<noteq> [] \<and> list_all plain_cell r) rows"
  shows "trim (nl @ nl @ table_text rows @ nl @ nl) = table_text rows"
proof -
  have h: "table_text rows \<noteq> [] \<and> hd (table_text rows) = CHR ''|'' \<and> last (table_text rows) = CHR ''|''"
    using assms row_cells_hd
  proof (induction rows rule: induct_list012)
    case (2 r)
    then show ?case using row_cells_hd [of r] by (simp add: table_text_simps)
  next
    case (3 r r' rs)
    then show ?case using row_cells_hd [of r] by (simp add: table_text_simps)
  qed simp
  then obtain w where "table_text rows = CHR ''|'' # w" by (cases "table_text rows") auto
  then have "trim (nl @ nl @ table_text rows @ nl @ nl) = trim_end (table_text rows @ nl @ nl)"
    by (simp add: trim_def trim_start_def nl_def js_space_def)
  also have "\<dots> = trim_end (table_text rows)" by (simp add: trim_end_def nl_def js_space_def)
  also have "\<dots> = table_text rows" using h by (intro trim_end_id) auto
  finally show ?thesis .
qed

lemma table_valid:
  assumes "list_all (\<lambda>r. r \<noteq> [] \<and> list_all plain_cell r) rows" "length rows > 1" "length (hd rows) > 1"
    "list_all (\<lambda>r. length r \<le> length (hd rows)) rows"
  shows "js_split nl (table_text rows) = map (\<lambda>r. row_cells r @ ''|'') rows"
    "valid_rows (map (\<lambda>r. row_cells r @ ''|'') rows)"
proof -
  have "\<forall>x \<in> set (map (\<lambda>r. row_cells r @ ''|'') rows). CHR 0x0A \<notin> set x"
    using assms(1) row_no_newline by (auto simp: list_all_iff)
  then show "js_split nl (table_text rows) = map (\<lambda>r. row_cells r @ ''|'') rows"
    unfolding table_text_def nl_def using assms(2) by (intro split_join) auto
  obtain r rs where rows: "rows = r # rs" using assms(2) by (cases rows) auto
  then show "valid_rows (map (\<lambda>r. row_cells r @ ''|'') rows)"
    using assms row_pipes by (auto simp: valid_rows_def list_all_iff)
qed

lemma first_row_end:
  assumes "list_all plain_cell r"
  shows "find_at (''|'' @ nl) (nl @ nl @ row_cells r @ ''|'' @ nl @ v) = Some (2 + length (row_cells r))"
proof -
  let ?P = "\<lambda>c d. \<not> (c = CHR ''|'' \<and> d = CHR 0x0A)"
  have "successively ?P (row_cells r @ ''|'')" using row_no_newline [OF assms] by (rule successively_absent)
  moreover have "hd (row_cells r @ ''|'') \<noteq> CHR 0x0A"
    using row_no_newline [OF assms] by (cases "row_cells r") auto
  ultimately have "successively ?P ((nl @ nl @ row_cells r) @ ''|'')"
    by (auto simp: nl_def successively_Cons)
  from find_at_pair [OF this, of v] show ?thesis by (simp add: nl_def)
qed

definition markdown_table :: "string list list \<Rightarrow> string" where
  "markdown_table rows =
     join nl ([row_cells (hd rows) @ ''|'', concat (replicate (length (hd rows)) ''| --- '') @ ''|''] @
       map (\<lambda>r. row_cells r @ ''|'') (tl rows))"

lemma first_row_split:
  "length rows > 1 \<Longrightarrow> \<exists>v. table_text rows = row_cells (hd rows) @ ''|'' @ nl @ v \<and>
     markdown_table rows = row_cells (hd rows) @ ''|'' @ nl @ splitter_row (length (hd rows) + 1) @ v"
  by (cases rows rule: remdups_adj.cases)
    (auto simp: table_text_simps markdown_table_def splitter_row_def table_text_def)

text \<open>
  C22. A table at the top level of the document, with two rows or more of plain cells (not empty,
  without bars, backslashes and surplus white space), whose first row is the longest one and has two
  cells or more, becomes a Markdown table when no plugin decorates the text: the first row, the line
  of dashes with as many cells, and the other rows.
\<close>

theorem table_markdown:
  assumes "plain_env env" "list_all (\<lambda>r. r \<noteq> [] \<and> list_all plain_cell r) rows"
    "length rows > 1" "length (hd rows) > 1" "list_all (\<lambda>r. length r \<le> length (hd rows)) rows"
  shows "to_md env None prev nxt (table_node rows) = Some (nl @ nl @ markdown_table rows @ nl @ nl)"
proof -
  have rows: "rows \<noteq> []" using assms(3) by auto
  obtain v where v: "table_text rows = row_cells (hd rows) @ ''|'' @ nl @ v"
    "markdown_table rows = row_cells (hd rows) @ ''|'' @ nl @ splitter_row (length (hd rows) + 1) @ v"
    using first_row_split [OF assms(3)] by auto
  have n: "trim (table_text rows) \<noteq> []"
  proof -
    have "row_cells (hd rows) \<noteq> [] \<and> hd (row_cells (hd rows)) = CHR ''|''"
      using assms(4) by (intro row_cells_hd) auto
    then show ?thesis unfolding v(1) by (intro trim_nonempty) auto
  qed
  have body: "to_md env p None None (element_node ''tbody'' (map row_node rows)) = Some (table_text rows)" for p
    using n rows_md [OF assms(1,2)]
    by (subst to_md.simps) (simp add: Let_def tag_kinds finish_tag_def decorate_def slice_decorate_def)
  let ?e = "new_element (table_node rows) None prev nxt"
  have "table_decorate env ?e (new_tag ''table'' Table_tag) (table_text rows) = nl @ nl @ markdown_table rows @ nl @ nl"
  proof -
    have b: "block_decorate env ''table'' ?e (new_tag ''table'' Table_tag) (table_text rows) = nl @ nl @ table_text rows @ nl @ nl"
      using assms(1) by (simp add: block_decorate_def run_callbacks_def plain_env_def new_tag_def nl_def)
    have c: "close_rows (nl @ nl @ table_text rows @ nl @ nl) = nl @ nl @ table_text rows @ nl @ nl"
      using close_rows_skip [of "nl @ nl" "table_text rows @ nl @ nl"] close_rows_table [OF rows assms(2)]
      by (simp add: nl_def)
    have p: "countPipes (row_cells (hd rows) @ ''|'') = length (hd rows) + 1"
      using assms(2) rows by (intro row_pipes) (cases rows; simp)
    have r: "replace_first (''|'' @ nl) (''|'' @ nl @ w) (nl @ nl @ table_text rows @ nl @ nl) =
        nl @ nl @ row_cells (hd rows) @ ''|'' @ nl @ w @ v @ nl @ nl" for w
    proof -
      have "list_all plain_cell (hd rows)" using assms(2) rows by (cases rows) simp_all
      note f = first_row_end [OF this, of "v @ nl @ nl"]
      show ?thesis unfolding v(1) append_assoc replace_first_def f by (simp add: nl_def)
    qed
    show ?thesis
      unfolding table_decorate_def b c Let_def table_text_trim [OF rows assms(2)] table_valid(1) [OF assms(2-5)]
      using table_valid(2) [OF assms(2-5)] rows p r by (simp add: hd_map v(2))
  qed
  then show ?thesis
    using n body by (subst to_md.simps) (simp add: table_node_def Let_def tag_kinds finish_tag_def decorate_def)
qed

theorem table_markdown_witness:
  "to_md (page_env []) None None None (table_node [[''a'', ''b''], [''1'']]) =
     Some (nl @ nl @ ''|a|b|'' @ nl @ ''| --- | --- |'' @ nl @ ''|1|'' @ nl @ nl)"
  using table_markdown [of "page_env []" "[[''a'', ''b''], [''1'']]" None None]
  by (simp add: plain_cell_def plain_text_def trim_def trim_start_def trim_end_def js_space_def markdown_table_def
    row_cells_def numeral_2_eq_2)

section \<open>Numbered lists\<close>

definition item_node :: "string \<Rightarrow> html_node" where
  "item_node s = element_node ''li'' [text_node s]"

definition list_node :: "nat \<Rightarrow> string list \<Rightarrow> html_node" where
  "list_node n items = Html ''ol'' None [(''start'', show_nat n)] (map item_node items)"

definition plain_item :: "string \<Rightarrow> bool" where
  "plain_item s \<longleftrightarrow> plain_text s \<and> CHR ''*'' \<notin> set s"

definition bulleted :: "string list \<Rightarrow> string" where
  "bulleted items = join nl (map (\<lambda>s. ''* '' @ s) items)"

fun numbered :: "nat \<Rightarrow> string list \<Rightarrow> string list" where
  "numbered n [] = []"
| "numbered n (s # ss) = (show_nat n @ ''. '' @ s) # numbered (Suc n) ss"

lemma in_ol [simp]:
  "el_parentNames (new_element (element_node name cs) (Some (new_element (list_node n items) None prev nxt)) p q) = [''ol'']"
  by (simp add: new_element_def element_node_def list_node_def is_mso_def)

lemma trim_start_plain: "plain_text s \<Longrightarrow> trim_start s = s"
proof -
  assume s: "plain_text s"
  obtain b where "trim_start s = trim_end (trim_start s) @ b" using trim_end_prefix by blast
  then have b: "trim_start s = s @ b" using s by (simp add: plain_text_def trim_def)
  have "length (trim_start s) \<le> length s" by (simp add: trim_start_def length_dropWhile_le)
  then show ?thesis using b by simp
qed

lemma item_md:
  assumes "plain_env env" "plain_item s"
  shows "to_md env (Some (new_element (list_node n items) None prev nxt)) p q (item_node s) =
     Some (''* '' @ s @ (case q of None \<Rightarrow> [] | Some _ \<Rightarrow> nl))"
proof -
  have "trim s \<noteq> []" "trim_start s = s" using assms(2) trim_start_plain by (auto simp: plain_item_def plain_text_def)
  then show ?thesis using assms text_md [of env s]
    by (subst to_md.simps)
      (simp add: item_node_def Let_def tag_kinds finish_tag_def decorate_def new_tag_def li_decorate_def slice_decorate_def
        filterParentNames_def is_mso_def element_attr_def plain_item_def nl_def split: option.split)
qed

lemma items_md:
  "plain_env env \<Longrightarrow> list_all plain_item items' \<Longrightarrow>
   parse env (Some (new_element (list_node n items) None prev nxt)) p (map item_node items') = Some (bulleted items')"
proof (induction items' arbitrary: p)
  case (Cons s ss)
  then show ?case by (cases ss) (simp_all add: item_md bulleted_def)
qed (simp add: bulleted_def)

lemma number_items_end: "CHR ''*'' \<notin> set u \<Longrightarrow> number_items k i u = u"
proof -
  assume u: "CHR ''*'' \<notin> set u"
  have "\<not> contains (bullet k) u" using u by (auto simp: contains_sublist bullet_def dest!: set_mono_sublist)
  then show ?thesis by (subst number_items.simps) simp
qed

lemma number_all:
  "CHR ''*'' \<notin> set u \<Longrightarrow> list_all plain_item items \<Longrightarrow>
   number_items 0 (Some (int n)) (u @ concat (map (\<lambda>s. nl @ ''* '' @ s) items)) =
     u @ concat (map (\<lambda>l. nl @ l) (numbered n items))"
proof (induction items arbitrary: u n)
  case (Cons s ss)
  let ?v = "'' '' @ s @ concat (map (\<lambda>s. nl @ ''* '' @ s) ss)"
  let ?l = "show_nat n @ ''.''"
  have f: "find_at (bullet 0) (u @ bullet 0 @ ?v) = Some (length u)"
    using find_at_pair [of "CHR 0x0A" "CHR ''*''" u ?v] successively_absent [of "CHR ''*''" "u @ [CHR 0x0A]"] Cons.prems(1)
    by (simp add: bullet_def)
  have c: "contains (bullet 0) (u @ bullet 0 @ ?v)" using f find_at_None [of "bullet 0" "u @ bullet 0 @ ?v"] by simp
  have r: "replace_first (bullet 0) w (u @ bullet 0 @ ?v) = u @ w @ ?v" for w
    by (simp only: replace_first_def f option.case) simp
  have l: "CHR ''*'' \<notin> set ?l" using show_nat_set [of n] by (auto simp: digits_def)
  have "number_items 0 (Some (int n)) (u @ bullet 0 @ ?v) =
      number_items 0 (Some (int (Suc n))) ((u @ nl @ ?l @ '' '' @ s) @ concat (map (\<lambda>s. nl @ ''* '' @ s) ss))"
    by (subst number_items.simps, subst r) (use c in \<open>simp add: number_label_def show_int_def nl_def add.commute\<close>)
  also have "\<dots> = (u @ nl @ ?l @ '' '' @ s) @ concat (map (\<lambda>l. nl @ l) (numbered (Suc n) ss))"
    using Cons.prems l by (intro Cons.IH) (auto simp: plain_item_def nl_def)
  finally show ?case by (simp add: bullet_def nl_def)
qed (simp add: number_items_end)

lemma parse_int_show: "parse_int (show_nat n) = Some (int n)"
proof -
  have d: "is_num c \<and> \<not> js_space c \<and> c \<noteq> CHR ''-'' \<and> c \<noteq> CHR ''+''" if "c \<in> digits" for c
    using that by (auto simp: digits_def is_num_def js_space_def)
  obtain c cs where s: "show_nat n = c # cs" by (cases "show_nat n") (simp_all add: show_nat.simps [of n] split: if_splits)
  have "takeWhile is_num (show_nat n) = show_nat n" using show_nat_set [of n] d by (intro takeWhile_eq_all_conv [THEN iffD2]) auto
  moreover have "c \<in> digits" using show_nat_set [of n] s by simp
  moreover have "takeWhile is_num cs = cs" using calculation(1) s by (simp split: if_splits)
  ultimately show ?thesis using d [of c] read_show [of n] by (auto simp: parse_int_def s trim_start_def Let_def simp del: takeWhile_eq_all_conv)
qed

lemma bulleted_concat: "items \<noteq> [] \<Longrightarrow> nl @ bulleted items = concat (map (\<lambda>s. nl @ ''* '' @ s) items)"
  unfolding bulleted_def by (induction items rule: induct_list012) simp_all

lemma join_concat: "xs \<noteq> [] \<Longrightarrow> nl @ join nl xs = concat (map (\<lambda>l. nl @ l) xs)"
  by (induction xs rule: induct_list012) simp_all

lemma numbered_nonempty: "items \<noteq> [] \<Longrightarrow> numbered n items \<noteq> []"
  by (cases items) auto

lemma numbered_end: "items \<noteq> [] \<Longrightarrow> list_all plain_item items \<Longrightarrow> trim_end (join nl (numbered n items)) = join nl (numbered n items)"
proof (rule trim_end_id, rule disjI2)
  assume i: "items \<noteq> []" "list_all plain_item items"
  have l: "s \<noteq> [] \<and> \<not> js_space (last s)" if "plain_item s" for s
    using that trim_end_last [of "trim_start s"] by (simp add: plain_item_def plain_text_def trim_def)
  show "\<not> js_space (last (join nl (numbered n items)))"
    using i l
  proof (induction items arbitrary: n)
    case (Cons s ss)
    then show ?case
    proof (cases ss)
      case (Cons s' ss')
      then have "numbered (Suc n) ss \<noteq> []" "join nl (numbered (Suc n) ss) \<noteq> []"
        by (auto simp: join_Cons) (cases ss'; simp)
      then show ?thesis using Cons.prems Cons.IH [of "Suc n"] Cons by (simp add: join_Cons)
    qed simp
  qed simp
qed

text \<open>
  The items of a numbered list are numbered one after the other from the number at which the list
  starts, each on its own line.
\<close>

theorem ordered_list:
  assumes "plain_env env" "items \<noteq> []" "list_all plain_item items"
  shows "to_md env None prev nxt (list_node n items) = Some (nl @ nl @ join nl (numbered n items) @ nl @ nl)"
proof -
  let ?e = "new_element (list_node n items) None prev nxt"
  have e: "el_name ?e = ''ol''" "element_attr ?e ''start'' = Some (show_nat n)" "el_parentNames ?e = []" "parent_name ?e = None"
    by (simp_all add: list_node_def new_element_def element_attr_def parent_name_def)
  obtain c cs where n: "show_nat n = c # cs" by (cases "show_nat n") (simp_all add: show_nat.simps [of n] split: if_splits)
  have b: "trim (bulleted items) \<noteq> []"
    using assms(2) by (intro trim_nonempty) (cases items rule: remdups_adj.cases; simp add: bulleted_def js_space_def)+
  have "first_bullet (nl @ bulleted items) = Some 0"
    using assms(2) by (cases items rule: remdups_adj.cases) (simp_all add: bulleted_def nl_def)
  moreover have "tl (number_items 0 (Some (int n)) (nl @ bulleted items)) = join nl (numbered n items)"
  proof -
    have "number_items 0 (Some (int n)) (nl @ bulleted items) = nl @ join nl (numbered n items)"
      unfolding bulleted_concat [OF assms(2)] join_concat [OF numbered_nonempty [OF assms(2)]]
      using number_all [of "[]" items n] assms(3) by simp
    then show ?thesis by (simp add: nl_def)
  qed
  ultimately have "ol_decorate env ?e (new_tag ''ol'' Ol_tag) (bulleted items) =
      Some (nl @ nl @ join nl (numbered n items) @ nl @ nl)"
    using e parse_int_show [of n] numbered_end [OF assms(2,3), of n] assms(1)
    by (simp add: ol_decorate_def Let_def n list_decorate_def filterParentNames_def block_decorate_def run_callbacks_def
      plain_env_def new_tag_def nl_def)
  then show ?thesis
    using b e items_md [OF assms(1,3)]
    by (subst to_md.simps) (simp add: list_node_def Let_def tag_kinds finish_tag_def decorate_def)
qed

theorem ordered_list_witness:
  "to_md (page_env []) None None None (list_node 9 [''a'', ''b'']) =
     Some (nl @ nl @ ''9. a'' @ nl @ ''10. b'' @ nl @ nl)"
  using ordered_list [of "page_env []" "[''a'', ''b'']" None None 9]
  by (simp add: plain_item_def plain_text_def trim_def trim_start_def trim_end_def js_space_def show_nat.simps digit_def nl_def)

section \<open>A list without a bullet\<close>

lemma list_without_bullet:
  assumes "plain_env env" "plain_text s" "\<not> prefix ''*'' s"
  shows "to_md env None prev nxt (element_node ''ol'' [text_node s]) = None"
proof -
  have n: "CHR 0x0A \<notin> set s" using assms(2) squeeze_no_newline [of s] by (simp add: plain_text_def)
  have "first_bullet u = None" if "CHR 0x0A \<notin> set u" for u using that by (induction u) (auto simp: Let_def)
  moreover have "js_space (CHR 0x09)" by (simp add: js_space_def)
  then have "takeWhile (\<lambda>d. d = CHR 0x09) s = []"
    using trim_start_plain [OF assms(2)] hd_dropWhile [of js_space s] assms(2)
    by (cases s) (auto simp: trim_start_def plain_text_def split: if_splits)
  ultimately have "first_bullet (nl @ s) = None" using n assms(3) by (simp add: nl_def)
  moreover have "trim s \<noteq> []" using assms(2) by (simp add: plain_text_def)
  ultimately show ?thesis using text_md [OF assms(1,2)]
    by (subst to_md.simps) (simp add: Let_def tag_kinds finish_tag_def decorate_def ol_decorate_def)
qed

lemma parse_fails: "n \<in> set ns \<Longrightarrow> (\<And>prev nxt. to_md env p prev nxt n = None) \<Longrightarrow> parse env p prev ns = None"
  by (induction ns arbitrary: prev) (auto split: option.split)

text \<open>
  C29. A numbered list at the top level of the document that has no attributes and holds only a text
  (not empty, without surplus white space, not beginning with a star) makes the match of its bullet
  fail when no plugin decorates the text, and the exception loses the whole document: the Markdown is
  empty, whatever else the document has.
\<close>

theorem list_loses_document:
  assumes "plain_env env" "putPlaceholders env html = Some (ns, placeholders)"
    "element_node ''ol'' [text_node s] \<in> set ns" "plain_text s" "\<not> prefix ''*'' s"
  shows "toMarkdown env html = Some []"
  using parse_fails [OF assms(3) list_without_bullet [OF assms(1,4,5)]] by (simp add: toMarkdown_def assms(2))

definition list_page :: "dom_node list" where
  "list_page = [Dom ''#text'' (Some ''a'') [] [] True, Dom ''OL'' None [] [Dom ''#text'' (Some ''b'') [] [] True] False]"

theorem list_loses_document_witness: "toMarkdown (page_env list_page) ''a<ol>b</ol>'' = Some []"
proof (rule list_loses_document [where s = "''b''" and placeholders = "[]"])
  let ?ns = "[text_node ''a'', element_node ''ol'' [text_node ''b'']]"
  have "code_matches ''a<ol>b</ol>'' = []" by (simp add: code_match_def lower_def lower_char_def is_upper_def)
  moreover obtain h where "trimUnwanted ''a<ol>b</ol>'' = Some h" using trimUnwanted_returns [of "''a<ol>b</ol>''"] by auto
  moreover have "lower ''OL'' = ''ol''" by code_simp
  then have "transform_nodes list_page = ?ns"
    by (simp add: transform_nodes_def list_page_def text_node_def element_node_def)
  ultimately show "putPlaceholders (page_env list_page) ''a<ol>b</ol>'' = Some (?ns, [])"
    by (simp add: putPlaceholders_def page_env_def)
qed (simp_all add: plain_text_def trim_def trim_start_def trim_end_def js_space_def)

text \<open>A form or a selection is taken for a list of nodes, and everything in it is lost.\<close>

lemma form_lost: "name \<noteq> ''#text'' \<Longrightarrow> to_md env p prev nxt (transform_node (Dom name d as cs True)) = Some []"
proof -
  have "tagByName [] = Plain_tag"
    by (simp add: tagByName_def allTags_def blocks_def headings_def slice_tags_def emphases_def allowedTags_def upt_rec)
  moreover assume "name \<noteq> ''#text''"
  ultimately show ?thesis
    by (subst to_md.simps) (simp add: new_element_def Let_def finish_tag_def trim_def trim_start_def trim_end_def)
qed

text \<open>The second dollar sign of two in code is lost when the code is put back.\<close>

lemma code_dollar_lost:
  "replacePlaceholders ''`DISCOURSE_PLACEHOLDER_1`'' [(''DISCOURSE_PLACEHOLDER_1'', ''echo $$'')] = ''`echo $`''"
  by (simp add: replacePlaceholders_def js_replace_def)

end
