(* ===== verification/BBCode.thy ===== *)
theory BBCode
  imports JsString JsSort ObjectTools "HOL-Library.List_Lexorder" "HOL-Library.Char_ord"
begin

text \<open>
  BBCode of the Markdown engine: \<open>features/bbcode-block.js\<close> and \<open>features/bbcode-inline.js\<close> of
  \<open>frontend/discourse-markdown-it/src\<close>. A tag is \<open>[name=value key=value]\<close> or \<open>[/name]\<close>.

  The engine itself, markdown-it, is not in the repository: its test for white space and the marks
  of its lines are arguments.
\<close>

section \<open>The expressions\<close>

definition tag_char :: "char \<Rightarrow> bool" where
  "tag_char c \<longleftrightarrow> is_word c \<or> c = CHR ''-''"

text \<open>The pairs of quotation marks among the characters up to \<open>U+00FF\<close>.\<close>

definition QUOTATION_MARKS :: "(char \<times> char) list" where
  "QUOTATION_MARKS = [(CHR 0x22, CHR 0x22), (CHR 0x27, CHR 0x27), (CHR 0xAB, CHR 0xBB)]"

definition quotation_mark :: "char \<Rightarrow> bool" where
  "quotation_mark c \<longleftrightarrow> c \<in> set (map fst QUOTATION_MARKS) \<union> set (map snd QUOTATION_MARKS)"

definition stripQuotationMarks :: "string option \<Rightarrow> string" where
  "stripQuotationMarks value = filter (\<lambda>c. \<not> quotation_mark c) (case value of Some v \<Rightarrow> v | None \<Rightarrow> [])"

text \<open>\<open>a[^b]+b\<close> at the head of a text: the characters between the marks.\<close>

definition quoted_by :: "char \<times> char \<Rightarrow> string \<Rightarrow> string option" where
  "quoted_by m s =
     (case s of
        [] \<Rightarrow> None
      | c # cs \<Rightarrow>
          (let v = takeWhile (\<lambda>d. d \<noteq> snd m) cs
           in if c = fst m \<and> v \<noteq> [] \<and> length v < length cs then Some v else None))"

definition quoted :: "string \<Rightarrow> string option" where
  "quoted s = (case find (\<lambda>m. quoted_by m s \<noteq> None) QUOTATION_MARKS of Some m \<Rightarrow> quoted_by m s | None \<Rightarrow> None)"

text \<open>\<open>[^\s\]]+\<close> at the head of a text.\<close>

definition bare :: "string \<Rightarrow> string" where
  "bare s = takeWhile (\<lambda>c. \<not> js_space c \<and> c \<noteq> CHR '']'') s"

text \<open>
  One item, \<open>[-\w]+\<close> with perhaps \<open>=\<close> and a value: the key, the value, and the length of the match.
  Nothing that follows can fail, so that the greedy choice stands.
\<close>

definition bb_item :: "string \<Rightarrow> (string \<times> string option \<times> nat) option" where
  "bb_item s =
     (let key = takeWhile tag_char s; rest = drop (length key) s
      in if key = [] then None
         else if prefix ''='' rest
         then (case quoted (tl rest) of
                 Some v \<Rightarrow> Some (key, Some v, length key + length v + 3)
               | None \<Rightarrow>
                   if bare (tl rest) \<noteq> [] then Some (key, Some (bare (tl rest)), length key + 1 + length (bare (tl rest)))
                   else Some (key, None, length key))
         else Some (key, None, length key))"

lemma bb_item_pos: "bb_item s = Some (k, v, n) \<Longrightarrow> 0 < n \<and> 0 < length s"
  by (cases s) (auto simp: bb_item_def Let_def split: if_splits option.splits)

text \<open>Items with white space between them, as many as there are: the length of the match.\<close>

function bb_items :: "string \<Rightarrow> nat" where
  "bb_items s =
     (case bb_item s of
        None \<Rightarrow> 0
      | Some (k, v, n) \<Rightarrow>
          (let sp = length (takeWhile js_space (drop n s)) in n + sp + bb_items (drop (n + sp) s)))"
  by pat_completeness auto
termination by (relation "measure length") (auto dest: bb_item_pos)

declare bb_items.simps [simp del]

text \<open>\<open>BBCODE_TAG_REGEXP\<close> has no anchor: the match may begin anywhere.\<close>

fun tag_match :: "string \<Rightarrow> string option" where
  "tag_match [] = None"
| "tag_match (c # cs) = (if c = CHR ''['' \<and> 0 < bb_items cs then Some (take (1 + bb_items cs) (c # cs)) else tag_match cs)"

text \<open>The matches of \<open>BBCODE_ATTR_REGEXP\<close>, with the places where they begin.\<close>

function attr_matches :: "nat \<Rightarrow> string \<Rightarrow> (nat \<times> string \<times> string option) list" where
  "attr_matches i [] = []"
| "attr_matches i (c # cs) =
     (case bb_item (c # cs) of
        None \<Rightarrow> attr_matches (Suc i) cs
      | Some (k, v, n) \<Rightarrow> (i, k, v) # attr_matches (i + n) (drop n (c # cs)))"
  by pat_completeness auto
termination by (relation "measure (\<lambda>(i, s). length s)") (auto dest: bb_item_pos)

declare attr_matches.simps(2) [simp del]

section \<open>Tags\<close>

record bb_tag =
  bb_tag :: string
  bb_closing :: bool
  bb_length :: nat
  bb_attrs :: "(string, string) omap option"

text \<open>
  A plain object lists the properties whose names are array indices first, in ascending order, and
  the others behind them in the order in which they were added. Assigning to \<open>__proto__\<close> of an
  object with a text does nothing.
\<close>

definition array_key :: "string \<Rightarrow> bool" where
  "array_key k \<longleftrightarrow> list_all is_num k \<and> show_nat (read_nat k) = k \<and> read_nat k < 4294967295"

definition add_attr :: "string \<Rightarrow> string \<Rightarrow> (string, string) omap \<Rightarrow> (string, string) omap" where
  "add_attr k v m =
     (if array_key k
      then let before = (\<lambda>e. array_key (fst e) \<and> read_nat (fst e) < read_nat k)
           in takeWhile before m @ (k, v) # dropWhile before m
      else m @ [(k, v)])"

definition set_attr :: "string \<Rightarrow> string \<Rightarrow> (string, string) omap \<Rightarrow> (string, string) omap" where
  "set_attr k v m =
     (if k = ''__proto__'' then m else if om_get m k \<noteq> None then om_set k v m else add_attr k v m)"

fun trailingSpaceOnly :: "(char \<Rightarrow> bool) \<Rightarrow> nat \<Rightarrow> string \<Rightarrow> bool" where
  "trailingSpaceOnly ws 0 s = True"
| "trailingSpaceOnly ws (Suc n) [] = False"
| "trailingSpaceOnly ws (Suc n) (c # cs) =
     (if c = CHR 0x0A then True else if \<not> ws c then False else trailingSpaceOnly ws n cs)"

definition closing_match :: "string \<Rightarrow> string option" where
  "closing_match s =
     (let key = takeWhile tag_char (drop 2 s)
      in if prefix ''[/'' s \<and> key \<noteq> [] \<and> prefix '']'' (drop (2 + length key) s) then Some key else None)"

text \<open>\<open>.+?\]\<close> at the head: how many characters come before the bracket.\<close>

definition lazy_close :: "string \<Rightarrow> nat option" where
  "lazy_close s =
     (case s of
        [] \<Rightarrow> None
      | c # cs \<Rightarrow>
          (let u = takeWhile (\<lambda>d. is_dot d \<and> d \<noteq> CHR '']'') cs
           in if is_dot c \<and> prefix '']'' (drop (length u) cs) then Some (Suc (length u)) else None))"

text \<open>\<open>\s*[^quotes].+?\]\<close> at the head: the text before the bracket. Spaces are given back one by one.\<close>

definition unquoted_value :: "string \<Rightarrow> string option" where
  "unquoted_value s =
     (let at = (\<lambda>j. case drop j s of
                      [] \<Rightarrow> None
                    | c # cs \<Rightarrow> if quotation_mark c then None else map_option (\<lambda>p. take (Suc j + p) s) (lazy_close cs));
          js = rev [0..<Suc (length (takeWhile js_space s))]
      in case filter (\<lambda>j. at j \<noteq> None) js of [] \<Rightarrow> None | j # _ \<Rightarrow> at j)"

text \<open>\<open>[quote=...]\<close> and \<open>[details=...]\<close> without quotation marks: the name as written, and the value.\<close>

definition old_match :: "string \<Rightarrow> (string \<times> string) option" where
  "old_match s =
     (let name = (if prefix ''[quote='' (lower s) then Some (take 5 (tl s))
                  else if prefix ''[details='' (lower s) then Some (take 7 (tl s)) else None)
      in case name of
           None \<Rightarrow> None
         | Some n \<Rightarrow> map_option (\<lambda>v. (n, v)) (unquoted_value (drop (length n + 2) s)))"

fun read_attrs :: "nat \<Rightarrow> (nat \<times> string \<times> string option) list \<Rightarrow> bb_tag option" where
  "read_attrs len [] = None"
| "read_attrs len ((i, k, v) # ms) =
     (if i \<noteq> 1 then None
      else Some \<lparr>bb_tag = lower k, bb_closing = False, bb_length = len + 1,
        bb_attrs = Some (fold (\<lambda>(i, k, v) m. set_attr k (case v of Some t \<Rightarrow> trim t | None \<Rightarrow> []) m) ms
          (case v of Some t \<Rightarrow> [(''_default'', trim t)] | None \<Rightarrow> []))\<rparr>)"

definition parseBBCodeTag :: "(char \<Rightarrow> bool) \<Rightarrow> string \<Rightarrow> nat \<Rightarrow> nat \<Rightarrow> bool \<Rightarrow> bb_tag option" where
  "parseBBCodeTag ws src start stop multiline =
     (let text = take (stop - start) (drop start src);
          trailing = (\<lambda>n. trailingSpaceOnly ws (stop - (start + n)) (drop (start + n) src))
      in case closing_match text of
           Some key \<Rightarrow>
             (let n = length key + 3
              in if multiline \<and> \<not> trailing n then None
                 else Some \<lparr>bb_tag = lower key, bb_closing = True, bb_length = n, bb_attrs = None\<rparr>)
         | None \<Rightarrow>
             (case old_match text of
                Some (name, value) \<Rightarrow>
                  (let n = length name + length value + 3
                   in if multiline \<and> \<not> trailing n then None
                      else Some \<lparr>bb_tag = name, bb_closing = False, bb_length = n, bb_attrs = Some [(''_default'', value)]\<rparr>)
              | None \<Rightarrow>
                  (case tag_match text of
                     None \<Rightarrow> None
                   | Some bbcode \<Rightarrow>
                       if \<not> prefix '']'' (drop (length bbcode) text) then None
                       else (case read_attrs (length bbcode) (attr_matches 0 bbcode) of
                               None \<Rightarrow> None
                             | Some r \<Rightarrow> if multiline \<and> \<not> trailing (length bbcode + 1) then None else Some r))))"

section \<open>Attributes of tokens\<close>

fun dash_humps :: "string \<Rightarrow> string" where
  "dash_humps (c # d # cs) = (if is_alpha c \<and> is_upper d then [c, CHR ''-''] else [c]) @ dash_humps (d # cs)"
| "dash_humps cs = cs"

definition camelCaseToDash :: "string \<Rightarrow> string" where
  "camelCaseToDash s = lower (dash_humps s)"

definition data_key :: "string \<Rightarrow> string" where
  "data_key k = camelCaseToDash (filter (\<lambda>c. is_alpha c \<or> is_num c \<or> c = CHR ''-'') k)"

text \<open>The attributes that \<open>applyDataAttributes\<close> sets, in order.\<close>

definition applyDataAttributes ::
    "(string \<Rightarrow> string) \<Rightarrow> (string, string) omap \<Rightarrow> string option \<Rightarrow> (string \<times> string) list" where
  "applyDataAttributes escapeHtml attributes defaultName =
     (let attrs1 = filter (\<lambda>(k, v). k \<noteq> ''_default'') attributes;
          attrs = (case (om_get attributes ''_default'', defaultName) of
                     (Some d, Some n) \<Rightarrow> if d \<noteq> [] \<and> n \<noteq> [] then set_attr n d attrs1 else attrs1 | _ \<Rightarrow> attrs1)
      in concat (map (\<lambda>k. let value = escapeHtml (case om_get attrs k of Some v \<Rightarrow> v | None \<Rightarrow> []); key = data_key k
           in if value \<noteq> [] \<and> length key > 1 then [(''data-'' @ key, value)] else [])
         (sort (map fst attrs))))"

section \<open>Closing tags\<close>

record block_state =
  bs_src :: string
  bMarks :: "nat \<Rightarrow> nat"
  tShift :: "nat \<Rightarrow> nat"
  eMarks :: "nat \<Rightarrow> nat"
  sCount :: "nat \<Rightarrow> int"
  blkIndent :: int

definition line_start :: "block_state \<Rightarrow> nat \<Rightarrow> nat" where
  "line_start s line = bMarks s line + tShift s line"

definition char_at :: "string \<Rightarrow> nat \<Rightarrow> char option" where
  "char_at s i = (if i < length s then Some (s ! i) else None)"

function findBlockCloseTag ::
    "(char \<Rightarrow> bool) \<Rightarrow> block_state \<Rightarrow> bb_tag \<Rightarrow> nat \<Rightarrow> nat \<Rightarrow> nat \<Rightarrow> (bb_tag \<times> nat) option" where
  "findBlockCloseTag ws s openTag nesting line endLine =
     (if line \<ge> endLine then None
      else let start = line_start s line; stop = eMarks s line
      in if start < stop \<and> sCount s line < blkIndent s then None
         else if char_at (bs_src s) start \<noteq> Some (CHR ''['') \<or> sCount s line - blkIndent s \<ge> 4
         then findBlockCloseTag ws s openTag nesting (Suc line) endLine
         else case parseBBCodeTag ws (bs_src s) start stop True of
                None \<Rightarrow> findBlockCloseTag ws s openTag nesting (Suc line) endLine
              | Some t \<Rightarrow>
                  if bb_tag t \<noteq> bb_tag openTag then findBlockCloseTag ws s openTag nesting (Suc line) endLine
                  else if \<not> bb_closing t then findBlockCloseTag ws s openTag (Suc nesting) (Suc line) endLine
                  else if nesting = 0 then Some (t, line)
                  else findBlockCloseTag ws s openTag (nesting - 1) (Suc line) endLine)"
  by pat_completeness auto
termination by (relation "measure (\<lambda>(ws, s, t, n, line, e). e - line)") auto

declare findBlockCloseTag.simps [simp del]

text \<open>From the end of the line backwards; the number is how many places are left above \<open>start\<close>.\<close>

fun inline_close :: "(char \<Rightarrow> bool) \<Rightarrow> string \<Rightarrow> bb_tag \<Rightarrow> nat \<Rightarrow> nat \<Rightarrow> bool \<Rightarrow> nat \<Rightarrow> (bb_tag \<times> nat) option" where
  "inline_close ws src openTag start stop possible 0 = None"
| "inline_close ws src openTag start stop possible (Suc n) =
     (let j = start + Suc n; c = char_at src j
      in if \<not> possible
         then (if c = Some (CHR '']'') then inline_close ws src openTag start stop True n
               else if (case c of Some d \<Rightarrow> ws d | None \<Rightarrow> False) then inline_close ws src openTag start stop False n
               else None)
         else if c = Some (CHR ''['')
         then (case parseBBCodeTag ws src j stop False of
                 Some t \<Rightarrow> if bb_tag t = bb_tag openTag \<and> bb_closing t then Some (t, j)
                           else inline_close ws src openTag start stop True n
               | None \<Rightarrow> inline_close ws src openTag start stop True n)
         else inline_close ws src openTag start stop True n)"

definition findInlineCloseTag :: "(char \<Rightarrow> bool) \<Rightarrow> string \<Rightarrow> bb_tag \<Rightarrow> nat \<Rightarrow> nat \<Rightarrow> (bb_tag \<times> nat) option" where
  "findInlineCloseTag ws src openTag start stop = inline_close ws src openTag start stop False (stop - 1 - start)"

section \<open>Blocks\<close>

datatype block_close = Inline_close nat | Block_close nat

text \<open>
  The first part of \<open>applyBBCode\<close>: the opening tag, its rule, and where the block ends. \<open>None\<close> is
  \<open>false\<close>; a silent call only asks whether a tag with a rule begins here.
\<close>

definition open_block :: "(char \<Rightarrow> bool) \<Rightarrow> (string \<Rightarrow> 'r option) \<Rightarrow> block_state \<Rightarrow> nat \<Rightarrow> (bb_tag \<times> 'r) option" where
  "open_block ws rules s startLine =
     (let start = line_start s startLine
      in if char_at (bs_src s) start \<noteq> Some (CHR ''['') then None
         else case parseBBCodeTag ws (bs_src s) start (eMarks s startLine) False of
                None \<Rightarrow> None
              | Some info \<Rightarrow> if bb_closing info then None else map_option (\<lambda>r. (info, r)) (rules (bb_tag info)))"

definition close_block :: "(char \<Rightarrow> bool) \<Rightarrow> block_state \<Rightarrow> bb_tag \<Rightarrow> nat \<Rightarrow> nat \<Rightarrow> block_close option" where
  "close_block ws s info startLine endLine =
     (let start = line_start s startLine; stop = eMarks s startLine; from = start + bb_length info
      in case findInlineCloseTag ws (bs_src s) info from stop of
           Some (t, j) \<Rightarrow> if j + bb_length t < stop then None else Some (Inline_close j)
         | None \<Rightarrow>
             if \<not> trailingSpaceOnly ws (stop - from) (drop from (bs_src s)) then None
             else map_option (\<lambda>(t, line). Block_close line) (findBlockCloseTag ws s info 0 (Suc startLine) endLine))"

definition next_line :: "block_close \<Rightarrow> nat \<Rightarrow> nat" where
  "next_line c startLine = (case c of Inline_close j \<Rightarrow> startLine | Block_close line \<Rightarrow> line)"

text \<open>What is inside: a part of the first line, or the lines up to the closing one.\<close>

definition block_content :: "(nat \<Rightarrow> nat \<Rightarrow> string) \<Rightarrow> block_state \<Rightarrow> bb_tag \<Rightarrow> nat \<Rightarrow> block_close \<Rightarrow> string" where
  "block_content getLines s info startLine c =
     (case c of
        Inline_close j \<Rightarrow> (let from = line_start s startLine + bb_length info in take (j - from) (drop from (bs_src s)))
      | Block_close line \<Rightarrow> getLines (Suc startLine) line)"

end
