(* ===== verification/BBCodeProofs.thy ===== *)
theory BBCodeProofs
  imports BBCode
begin

text \<open>
  BBCode: a written tag is read back, the closing line of a block is the one that brackets ask for,
  and attributes of tokens have harmless names.
\<close>

section \<open>Reading a written tag\<close>

definition written_value :: "string \<Rightarrow> bool" where
  "written_value v \<longleftrightarrow> v \<noteq> [] \<and> trim v = v \<and> CHR 0x22 \<notin> set v"

definition written_key :: "string \<Rightarrow> bool" where
  "written_key k \<longleftrightarrow> k \<noteq> [] \<and> list_all tag_char k"

definition item_text :: "string \<times> string option \<Rightarrow> string" where
  "item_text kv = fst kv @ (case snd kv of None \<Rightarrow> [] | Some v \<Rightarrow> ''=\"'' @ v @ ''\"'')"

definition written_item :: "string \<times> string option \<Rightarrow> bool" where
  "written_item kv \<longleftrightarrow> written_key (fst kv) \<and> (case snd kv of None \<Rightarrow> True | Some v \<Rightarrow> written_value v)"

definition tag_body :: "(string \<times> string option) list \<Rightarrow> string" where
  "tag_body ts = join '' '' (map item_text ts)"

text \<open>The tag \<open>[name=\"value\" key=\"value\" ...]\<close>, the value of the name being left out perhaps.\<close>

definition write_tag :: "string \<Rightarrow> string option \<Rightarrow> (string \<times> string) list \<Rightarrow> string" where
  "write_tag name d as = ''['' @ tag_body ((name, d) # map (\<lambda>(k, v). (k, Some v)) as) @ '']''"

lemma tag_char_simps [simp]:
  "\<not> tag_char (CHR ''='')" "\<not> tag_char (CHR '' '')" "\<not> tag_char (CHR '']'')" "\<not> tag_char (CHR ''['')" "\<not> tag_char (CHR ''/'')"
  by (simp_all add: tag_char_def is_word_def is_alpha_def is_lower_def is_upper_def is_num_def)

definition item_end :: "string \<Rightarrow> bool" where
  "item_end r \<longleftrightarrow> r = [] \<or> hd r = CHR '' '' \<or> hd r = CHR '']''"

lemma takeWhile_key: "written_key k \<Longrightarrow> r = [] \<or> \<not> tag_char (hd r) \<Longrightarrow> takeWhile tag_char (k @ r) = k"
  by (cases r) (auto simp: written_key_def list_all_iff takeWhile_append2)

lemma quoted_written: "written_value v \<Longrightarrow> quoted (CHR 0x22 # v @ CHR 0x22 # r) = Some v"
proof -
  assume v: "written_value v"
  have "takeWhile (\<lambda>d. d \<noteq> CHR 0x22) (v @ CHR 0x22 # r) = v"
    using v by (subst takeWhile_append2) (auto simp: written_value_def)
  then show ?thesis using v by (simp add: quoted_def QUOTATION_MARKS_def quoted_by_def written_value_def)
qed

lemma bb_item_written:
  assumes "written_item kv" "item_end r"
  shows "bb_item (item_text kv @ r) = Some (fst kv, snd kv, length (item_text kv))"
proof (cases kv)
  case (Pair k d)
  show ?thesis
  proof (cases d)
    case None
    have "r = [] \<or> \<not> tag_char (hd r)" using assms(2) by (auto simp: item_end_def)
    then have t: "takeWhile tag_char (k @ r) = k" using assms(1) Pair by (intro takeWhile_key) (simp_all add: written_item_def)
    have "\<not> prefix ''='' r" using assms(2) by (cases r) (auto simp: item_end_def)
    then show ?thesis using assms(1) Pair None
      by (simp add: item_text_def bb_item_def t written_item_def written_key_def)
  next
    case (Some v)
    have t: "takeWhile tag_char (k @ ''=\"'' @ v @ ''\"'' @ r) = k"
      using assms(1) Pair by (intro takeWhile_key) (simp_all add: written_item_def)
    then show ?thesis using assms(1) Pair Some quoted_written [of v r]
      by (simp add: item_text_def bb_item_def written_item_def written_key_def)
  qed
qed

lemma tag_body_Cons: "tag_body (kv # ts) = item_text kv @ (if ts = [] then [] else '' '' @ tag_body ts)"
  by (cases ts) (simp_all add: tag_body_def)

lemma item_text_hd: "written_item kv \<Longrightarrow> item_text kv \<noteq> [] \<and> tag_char (hd (item_text kv))"
  by (cases "fst kv") (auto simp: written_item_def written_key_def item_text_def)

lemma tag_char_no_space: "tag_char c \<Longrightarrow> \<not> js_space c"
  by (auto simp: tag_char_def is_word_def is_alpha_def is_lower_def is_upper_def is_num_def js_space_def)

lemma tag_body_hd: "ts \<noteq> [] \<Longrightarrow> list_all written_item ts \<Longrightarrow> tag_body ts \<noteq> [] \<and> \<not> js_space (hd (tag_body ts))"
  using item_text_hd [of "hd ts"] tag_char_no_space by (cases ts) (auto simp: tag_body_Cons)

lemma bb_items_written:
  "ts \<noteq> [] \<Longrightarrow> list_all written_item ts \<Longrightarrow> bb_items (tag_body ts @ '']'' @ r) = length (tag_body ts)"
proof (induction ts)
  case (Cons kv ts)
  have none: "bb_items (CHR '']'' # r) = 0" by (simp add: bb_items.simps [of "CHR '']'' # r"] bb_item_def)
  have sp: "\<not> js_space (CHR '']'')" "js_space (CHR '' '')" by (simp_all add: js_space_def)
  let ?r = "(if ts = [] then [] else '' '' @ tag_body ts) @ '']'' @ r"
  have i: "bb_item (item_text kv @ ?r) = Some (fst kv, snd kv, length (item_text kv))"
    using Cons.prems by (intro bb_item_written) (auto simp: item_end_def)
  show ?case
  proof (cases "ts = []")
    case True
    then show ?thesis using i none sp by (simp add: tag_body_Cons bb_items.simps [of "item_text kv @ CHR '']'' # r"])
  next
    case False
    then have t: "takeWhile js_space (tag_body ts @ CHR '']'' # r) = []"
      using tag_body_hd [of ts] Cons.prems by (cases "tag_body ts") auto
    have "bb_items (item_text kv @ '' '' @ tag_body ts @ '']'' @ r) = length (item_text kv) + 1 + bb_items (tag_body ts @ '']'' @ r)"
      using i False t sp by (subst bb_items.simps) (simp add: Let_def)
    then show ?thesis using Cons False by (simp add: tag_body_Cons)
  qed
qed simp

lemma attr_matches_written:
  "ts \<noteq> [] \<Longrightarrow> list_all written_item ts \<Longrightarrow>
   \<exists>ms. attr_matches i (tag_body ts) = (i, fst (hd ts), snd (hd ts)) # ms \<and> map snd ms = tl ts"
proof (induction ts arbitrary: i)
  case (Cons kv ts)
  let ?r = "if ts = [] then [] else '' '' @ tag_body ts"
  have i: "bb_item (item_text kv @ ?r) = Some (fst kv, snd kv, length (item_text kv))"
    using Cons.prems by (intro bb_item_written) (auto simp: item_end_def)
  obtain c cs where c: "item_text kv = c # cs" using item_text_hd [of kv] Cons.prems by (cases "item_text kv") auto
  have m: "attr_matches i (tag_body (kv # ts)) = (i, fst kv, snd kv) # attr_matches (i + length (item_text kv)) ?r"
    unfolding tag_body_Cons using i c by (simp add: attr_matches.simps(2))
  show ?case
  proof (cases "ts = []")
    case True
    then show ?thesis using m by simp
  next
    case False
    then obtain j ms where "attr_matches (Suc (i + length (item_text kv))) (tag_body ts) = (j, fst (hd ts), snd (hd ts)) # ms"
      "map snd ms = tl ts" using Cons by fastforce
    moreover have "attr_matches (i + length (item_text kv)) ('' '' @ tag_body ts) = attr_matches (Suc (i + length (item_text kv))) (tag_body ts)"
      by (simp add: attr_matches.simps(2) bb_item_def)
    ultimately show ?thesis using m False by (cases ts) auto
  qed
qed simp

lemma closing_match_open: "tag_char c \<Longrightarrow> closing_match (CHR ''['' # c # s) = None"
  by (auto simp: closing_match_def Let_def)

definition written_attrs :: "(string \<times> string) list \<Rightarrow> bool" where
  "written_attrs as \<longleftrightarrow> distinct (map fst as) \<and>
     list_all (\<lambda>(k, v). written_key k \<and> written_value v \<and> k \<noteq> ''_default'' \<and> k \<noteq> ''__proto__'') as"

text \<open>The order in which a plain object lists properties that were added in the order of \<open>as\<close>.\<close>

definition property_order :: "(string \<times> string) list \<Rightarrow> (string \<times> string) list" where
  "property_order as =
     sort_key (\<lambda>e. read_nat (fst e)) (filter (\<lambda>e. array_key (fst e)) as) @ filter (\<lambda>e. \<not> array_key (fst e)) as"

lemma array_key_inj: "array_key k \<Longrightarrow> array_key l \<Longrightarrow> read_nat k = read_nat l \<longleftrightarrow> k = l"
  by (metis array_key_def)

lemma split_sorted:
  fixes f :: "'a \<Rightarrow> nat"
  assumes "sorted (map f S)" and "x \<notin> f ` set S"
  shows "\<exists>A B. S = A @ B \<and> (\<forall>e \<in> set A. f e < x) \<and> (\<forall>e \<in> set B. x < f e)"
  using assms
proof (induction S)
  case (Cons a S)
  show ?case
  proof (cases "f a < x")
    case True
    obtain A B where "S = A @ B" "\<forall>e \<in> set A. f e < x" "\<forall>e \<in> set B. x < f e" using Cons by auto
    then show ?thesis using True by (intro exI [of _ "a # A"] exI [of _ B]) simp
  next
    case False
    then have "x < f a" using Cons.prems(2) by auto
    then show ?thesis using Cons.prems(1) by (intro exI [of _ "[]"] exI [of _ "a # S"]) auto
  qed
qed simp

lemma while_split:
  "\<forall>e \<in> set A. P e \<Longrightarrow> \<forall>e \<in> set B. \<not> P e \<Longrightarrow> takeWhile P (A @ B) = A \<and> dropWhile P (A @ B) = B"
  by (induction A) (cases B, auto)

lemma add_attr_order:
  assumes "k \<notin> fst ` set m"
  shows "add_attr k v (property_order m) = property_order (m @ [(k, v)])"
proof (cases "array_key k")
  case True
  let ?f = "\<lambda>e :: string \<times> string. read_nat (fst e)" and ?I = "\<lambda>e :: string \<times> string. array_key (fst e)"
  let ?S = "sort_key ?f (filter ?I m)" and ?N = "filter (\<lambda>e. \<not> ?I e) m"
  let ?before = "\<lambda>e. ?I e \<and> ?f e < read_nat k"
  have new: "read_nat k \<notin> ?f ` set ?S" using assms True array_key_inj by force
  obtain A B where S: "?S = A @ B" "\<forall>e \<in> set A. ?f e < read_nat k" "\<forall>e \<in> set B. read_nat k < ?f e"
    using split_sorted [OF sorted_sort_key new] by blast
  have AB: "\<forall>e \<in> set A \<union> set B. ?I e" using arg_cong [OF S(1), of set] by auto
  have stop: "\<forall>e \<in> set (B @ ?N). \<not> ?before e" using S(3) by auto
  have "takeWhile ?before (A @ B @ ?N) = A" "dropWhile ?before (A @ B @ ?N) = B @ ?N"
    using while_split [of A ?before "B @ ?N"] S(2) AB stop by simp_all
  then have l: "add_attr k v (property_order m) = (A @ (k, v) # B) @ ?N"
    using True S(1) by (simp add: add_attr_def property_order_def)
  have srt: "sorted (map ?f (A @ (k, v) # B))"
    using S sorted_sort_key [of ?f "filter ?I m"] by (auto simp: sorted_append less_imp_le)
  have "sort_key ?f (filter ?I m @ [(k, v)]) = A @ (k, v) # B"
  proof (rule properties_for_sort_key [OF _ _ srt])
    show "mset (A @ (k, v) # B) = mset (filter ?I m @ [(k, v)])"
      using arg_cong [OF S(1), of mset] by simp
    show "filter (\<lambda>x. ?f e = ?f x) (A @ (k, v) # B) = filter (\<lambda>x. ?f e = ?f x) (filter ?I m @ [(k, v)])"
      if "e \<in> set (A @ (k, v) # B)" for e
    proof -
      have "filter (\<lambda>x. ?f x = ?f e) (A @ B) = filter (\<lambda>x. ?f x = ?f e) (filter ?I m)"
        unfolding S(1) [symmetric] by (rule sort_key_stable)
      then have stable: "filter (\<lambda>x. ?f e = ?f x) (A @ B) = filter (\<lambda>x. ?f e = ?f x) (filter ?I m)"
        by (simp only: eq_commute [of "?f e"])
      show ?thesis
      proof (cases "?f e = read_nat k")
        case True
        then have "filter (\<lambda>x. ?f e = ?f x) A = []" "filter (\<lambda>x. ?f e = ?f x) B = []"
          using S(2,3) by (force simp: filter_empty_conv)+
        then show ?thesis using stable True by simp
      qed (use stable in simp)
    qed
  qed
  then show ?thesis using l True by (simp add: property_order_def)
next
  case False
  then show ?thesis by (simp add: add_attr_def property_order_def)
qed

lemma default_order: "property_order [(''_default'', v)] = [(''_default'', v)]"
proof -
  have "\<not> array_key ''_default''" by code_simp
  then show ?thesis by (simp add: property_order_def)
qed

lemma property_order_keys: "fst ` set (property_order m) = fst ` set m"
  by (auto simp: property_order_def)

lemma set_attrs_written:
  "written_attrs as \<Longrightarrow> fst ` set m \<inter> fst ` set as = {} \<Longrightarrow>
   fold (\<lambda>(k, v) m. set_attr k (case v of Some t \<Rightarrow> trim t | None \<Rightarrow> []) m) (map (\<lambda>(k, v). (k, Some v)) as) (property_order m) =
     property_order (m @ as)"
proof (induction as arbitrary: m)
  case (Cons a as)
  obtain k v where a: "a = (k, v)" by (cases a)
  have k: "k \<notin> fst ` set m" using Cons.prems a by auto
  then have "om_get (property_order m) k = None"
    using property_order_keys [of m] by (simp add: map_of_eq_None_iff)
  then have "set_attr k (trim v) (property_order m) = property_order (m @ [(k, v)])"
    using Cons.prems(1) a add_attr_order [OF k] by (simp add: set_attr_def written_attrs_def written_value_def)
  moreover have "written_attrs as" using Cons.prems(1) by (simp add: written_attrs_def)
  moreover have "fst ` set (m @ [(k, v)]) \<inter> fst ` set as = {}" using Cons.prems a by (auto simp: written_attrs_def)
  ultimately show ?case using Cons.IH [of "m @ [(k, v)]"] a by simp
qed simp

lemma fold_drop_first: "fold (\<lambda>(i, k, v). f k v) ms m = fold (\<lambda>(k, v). f k v) (map snd ms) m"
  by (induction ms arbitrary: m) auto

lemma tag_char_lower [simp]: "tag_char (lower_char c) = tag_char c"
proof (cases "is_upper c")
  case True
  then have "is_lower (lower_char c)" by (rule lower_char_upper)
  then show ?thesis using True by (simp add: tag_char_def is_word_def is_alpha_def)
qed (simp add: lower_char_def)

lemma takeWhile_lower: "takeWhile tag_char (lower s) = lower (takeWhile tag_char s)"
  by (induction s) (simp_all add: lower_Cons lower_def)

lemma old_match_written:
  assumes "written_key name" "lower name = name" "r = [] \<or> \<not> tag_char (hd r)" "\<not> prefix ''='' r \<or> prefix ''=\"'' r"
  shows "old_match (''['' @ name @ r) = None"
proof -
  have eq: "name = w \<and> prefix ''='' r" if "prefix (''['' @ w @ ''='') (lower (''['' @ name @ r))" "list_all tag_char w" for w
  proof -
    from that obtain u where u: "lower name @ lower r = w @ CHR ''='' # u" by (auto simp: prefix_def lower_Cons)
    have "takeWhile tag_char (lower (name @ r)) = name"
      using takeWhile_key [OF assms(1,3)] assms(2) by (simp add: takeWhile_lower del: lower_append)
    moreover have "takeWhile tag_char (w @ CHR ''='' # u) = w"
      using that(2) by (subst takeWhile_append2) (auto simp: list_all_iff)
    ultimately have w: "w = name" using u by simp
    then have "lower r = CHR ''='' # u" using u assms(2) by simp
    then show ?thesis using w lower_char_nonalpha [of "CHR ''=''"]
      by (cases r) (auto simp: lower_Cons is_alpha_def is_lower_def is_upper_def)
  qed
  have q: "unquoted_value (''\"'' @ u) = None" for u
    by (simp add: unquoted_value_def js_space_def quotation_mark_def QUOTATION_MARKS_def)
  have tc: "list_all tag_char ''quote''" "list_all tag_char ''details''"
    by (simp_all add: tag_char_def is_word_def is_alpha_def is_lower_def)
  show ?thesis
  proof (cases "prefix ''='' r")
    case True
    then obtain u where r: "r = ''=\"'' @ u" using assms(4) by (auto simp: prefix_def)
    show ?thesis using eq [of "''quote''"] eq [of "''details''"] tc q [of u]
      by (auto simp: old_match_def r Let_def)
  next
    case False
    then show ?thesis using eq [of "''quote''"] eq [of "''details''"] tc by (auto simp: old_match_def)
  qed
qed

text \<open>
  C20. A tag written with quotation marks is read as it was written, wherever it stands: its name, the
  value of its name, its attributes in the order in which an object lists them (names that are array
  indices first, ascending, the others as they were written), and its length. The name is written in
  lower case, the keys differ, are not \<open>_default\<close> or \<open>__proto__\<close>, and the values are not empty, have
  no quotation mark and no white space at their ends.
\<close>

theorem written_tag_read:
  assumes "written_key name" "lower name = name" "(case d of None \<Rightarrow> True | Some v \<Rightarrow> written_value v)" "written_attrs as"
  shows "parseBBCodeTag ws (before @ write_tag name d as @ behind) (length before)
      (length before + length (write_tag name d as) + extra) False =
    Some \<lparr>bb_tag = name, bb_closing = False, bb_length = length (write_tag name d as),
      bb_attrs = Some (property_order ((case d of None \<Rightarrow> [] | Some v \<Rightarrow> [(''_default'', v)]) @ as))\<rparr>"
proof -
  let ?ts = "(name, d) # map (\<lambda>(k, v). (k, Some v)) as" and ?r = "take extra behind"
  let ?b = "tag_body ?ts" and ?t = "write_tag name d as @ ?r"
  have ts: "?ts \<noteq> []" "list_all written_item ?ts"
    using assms by (auto simp: written_item_def written_attrs_def list_all_iff split: option.splits)
  have whole: "take (length before + length (write_tag name d as) + extra - length before)
      (drop (length before) (before @ write_tag name d as @ behind)) = ?t" by simp
  have t: "?t = ''['' @ ?b @ '']'' @ ?r" by (simp add: write_tag_def)
  let ?rest = "(case d of None \<Rightarrow> [] | Some v \<Rightarrow> ''=\"'' @ v @ ''\"'') @
    (if as = [] then [] else '' '' @ tag_body (map (\<lambda>(k, v). (k, Some v)) as)) @ '']'' @ ?r"
  have t': "?t = ''['' @ name @ ?rest" by (simp add: t tag_body_Cons item_text_def)
  have n: "name \<noteq> []" "tag_char (hd name)" using assms(1) by (auto simp: written_key_def list_all_iff)
  have c: "closing_match ?t = None" unfolding t' using n closing_match_open by (cases name) auto
  have o: "old_match ?t = None" unfolding t'
    by (rule old_match_written [OF assms(1,2)]) (auto split: option.split)
  have i: "bb_items (?b @ '']'' @ ?r) = length ?b" by (rule bb_items_written [OF ts])
  have "?b \<noteq> []" using tag_body_hd [OF ts] by simp
  then have m: "tag_match ?t = Some (''['' @ ?b)" using i by (simp add: t)
  obtain ms where "attr_matches (Suc 0) ?b = (Suc 0, name, d) # ms" "map snd ms = map (\<lambda>(k, v). (k, Some v)) as"
    using attr_matches_written [OF ts, of "Suc 0"] by auto
  then have ms: "attr_matches 0 (''['' @ ?b) = (1, name, d) # ms" "map snd ms = map (\<lambda>(k, v). (k, Some v)) as"
    by (simp_all add: attr_matches.simps(2) bb_item_def)
  have f: "fold (\<lambda>(i, k, v). set_attr k (case v of Some t \<Rightarrow> trim t | None \<Rightarrow> [])) ms (property_order m) = property_order (m @ as)"
    if "fst ` set m \<inter> fst ` set as = {}" for m
    unfolding fold_drop_first [of "\<lambda>k v. set_attr k (case v of Some t \<Rightarrow> trim t | None \<Rightarrow> [])"] ms(2)
    using set_attrs_written [OF assms(4) that] by simp
  have "read_attrs (length (''['' @ ?b)) ((1, name, d) # ms) = Some \<lparr>bb_tag = name, bb_closing = False,
      bb_length = length (''['' @ ?b) + 1, bb_attrs = Some (property_order ((case d of None \<Rightarrow> [] | Some v \<Rightarrow> [(''_default'', v)]) @ as))\<rparr>"
  proof (cases d)
    case None
    then show ?thesis using f [of "[]"] assms(2) by (simp add: property_order_def [of "[]"])
  next
    case (Some v)
    have "''_default'' \<notin> fst ` set as" using assms(4) by (auto simp: written_attrs_def list_all_iff)
    then show ?thesis
      using f [of "[(''_default'', v)]"] assms(2,3) Some default_order [of v] by (simp add: written_value_def)
  qed
  then show ?thesis
    unfolding parseBBCodeTag_def Let_def whole using c o m ms(1) by (simp add: t write_tag_def)
qed

theorem written_tag_read_witness:
  "parseBBCodeTag js_space ''a [quote=\"bob, post:1\" color=\"red ]\" 2=\"x\"] b'' 2 44 False =
     Some \<lparr>bb_tag = ''quote'', bb_closing = False, bb_length = 41,
       bb_attrs = Some [(''2'', ''x''), (''_default'', ''bob, post:1''), (''color'', ''red ]'')]\<rparr>"
proof -
  let ?as = "[(''color'', ''red ]''), (''2'', ''x'')]" and ?d = "Some ''bob, post:1''"
  have h: "written_key ''quote''" "lower ''quote'' = ''quote''"
      "case ?d of None \<Rightarrow> True | Some v \<Rightarrow> written_value v" "written_attrs ?as" by code_simp+
  have "\<not> array_key ''_default''" "\<not> array_key ''color''" by code_simp+
  moreover have "array_key ''2''"
    using show_nat.simps [of 2] by (simp add: array_key_def read_nat_def digit_value_def digit_def is_num_def)
  ultimately have e: "length (write_tag ''quote'' ?d ?as) = 41"
    "''a '' @ write_tag ''quote'' ?d ?as @ '' b'' = ''a [quote=\"bob, post:1\" color=\"red ]\" 2=\"x\"] b''"
    "property_order ((case ?d of None \<Rightarrow> [] | Some v \<Rightarrow> [(''_default'', v)]) @ ?as) =
      [(''2'', ''x''), (''_default'', ''bob, post:1''), (''color'', ''red ]'')]"
    by (simp_all add: write_tag_def tag_body_def item_text_def property_order_def)
  have n: "length ''a '' = 2" "(2::nat) + 41 + 1 = 44" by simp_all
  show ?thesis using written_tag_read [OF h, of js_space "''a ''" "'' b''" 1] by (simp only: e n)
qed

section \<open>The closing line\<close>

definition stops :: "block_state \<Rightarrow> nat \<Rightarrow> bool" where
  "stops s line \<longleftrightarrow> line_start s line < eMarks s line \<and> sCount s line < blkIndent s"

definition line_tag :: "(char \<Rightarrow> bool) \<Rightarrow> block_state \<Rightarrow> nat \<Rightarrow> bb_tag option" where
  "line_tag ws s line =
     (if char_at (bs_src s) (line_start s line) = Some (CHR ''['') \<and> sCount s line - blkIndent s < 4
      then parseBBCodeTag ws (bs_src s) (line_start s line) (eMarks s line) True else None)"

definition bracket :: "(char \<Rightarrow> bool) \<Rightarrow> block_state \<Rightarrow> string \<Rightarrow> nat \<Rightarrow> int" where
  "bracket ws s name line =
     (case line_tag ws s line of
        Some t \<Rightarrow> if bb_tag t = name then (if bb_closing t then -1 else 1) else 0
      | None \<Rightarrow> 0)"

definition depth :: "(char \<Rightarrow> bool) \<Rightarrow> block_state \<Rightarrow> string \<Rightarrow> nat \<Rightarrow> nat \<Rightarrow> int" where
  "depth ws s name a b = (\<Sum>line\<leftarrow>[a..<b]. bracket ws s name line)"

text \<open>The line that closes a block opened above line \<open>a\<close>: as many tags were opened as closed in between.\<close>

definition closing_line :: "(char \<Rightarrow> bool) \<Rightarrow> block_state \<Rightarrow> string \<Rightarrow> int \<Rightarrow> nat \<Rightarrow> nat \<Rightarrow> bb_tag \<Rightarrow> nat \<Rightarrow> bool" where
  "closing_line ws s name n a e c l \<longleftrightarrow>
     a \<le> l \<and> l < e \<and> (\<forall>m \<in> {a..l}. \<not> stops s m \<and> 0 \<le> n + depth ws s name a m) \<and>
     n + depth ws s name a l = 0 \<and> line_tag ws s l = Some c \<and> bb_tag c = name \<and> bb_closing c"

lemma depth_step: "a < b \<Longrightarrow> depth ws s name a b = bracket ws s name a + depth ws s name (Suc a) b"
  by (simp add: depth_def upt_conv_Cons)

lemma depth_none [simp]: "depth ws s name a a = 0"
  by (simp add: depth_def)

lemma all_from: "a < l \<Longrightarrow> (\<forall>m \<in> {a..l}. P m) \<longleftrightarrow> P a \<and> (\<forall>m \<in> {Suc a..l}. P m)"
proof -
  assume "a < l"
  then have "{a..l} = insert a {Suc a..l}" by auto
  then show ?thesis by auto
qed

lemma closing_line_step:
  "closing_line ws s name n a e c l \<longleftrightarrow>
     a < e \<and> \<not> stops s a \<and> 0 \<le> n \<and>
     (if l = a then n = 0 \<and> line_tag ws s a = Some c \<and> bb_tag c = name \<and> bb_closing c
      else closing_line ws s name (n + bracket ws s name a) (Suc a) e c l)"
proof (cases "a < l")
  case True
  have "(\<forall>m \<in> {Suc a..l}. \<not> stops s m \<and> 0 \<le> n + depth ws s name a m) \<longleftrightarrow>
      (\<forall>m \<in> {Suc a..l}. \<not> stops s m \<and> 0 \<le> n + bracket ws s name a + depth ws s name (Suc a) m)"
    by (intro ball_cong refl) (simp add: depth_step add.assoc)
  then show ?thesis
    unfolding closing_line_def all_from [OF True] depth_step [OF True] depth_none add.assoc [symmetric]
    using True by auto
next
  case False
  then show ?thesis by (cases "l = a") (auto simp: closing_line_def)
qed

lemma closing_line_neg: "n < 0 \<Longrightarrow> \<not> closing_line ws s name n a e c l"
  using closing_line_step [of ws s name n a e c l] by linarith

lemma findBlockCloseTag_step:
  "findBlockCloseTag ws s t n a e =
     (if a \<ge> e \<or> stops s a then None
      else case line_tag ws s a of
             None \<Rightarrow> findBlockCloseTag ws s t n (Suc a) e
           | Some u \<Rightarrow>
               if bb_tag u \<noteq> bb_tag t then findBlockCloseTag ws s t n (Suc a) e
               else if \<not> bb_closing u then findBlockCloseTag ws s t (Suc n) (Suc a) e
               else if n = 0 then Some (u, a) else findBlockCloseTag ws s t (n - 1) (Suc a) e)"
  by (subst findBlockCloseTag.simps) (auto simp: Let_def stops_def line_tag_def split: option.split)

text \<open>
  C17. The closing line of a block is the first line below it at which every tag of the same name
  that was opened in between has been closed and that closes one more, if no line stops the block
  before; without such a line there is none.
\<close>

theorem closing_line_found:
  "findBlockCloseTag ws s t n a e = Some (c, l) \<longleftrightarrow> closing_line ws s (bb_tag t) (int n) a e c l"
proof (induction "e - a" arbitrary: n a)
  case 0
  then show ?case by (subst findBlockCloseTag_step, subst closing_line_step) simp
next
  case (Suc d)
  then have IH: "findBlockCloseTag ws s t k (Suc a) e = Some (c, l) \<longleftrightarrow> closing_line ws s (bb_tag t) (int k) (Suc a) e c l" for k
    by (intro Suc.hyps(1)) simp
  have here: "\<not> closing_line ws s (bb_tag t) k (Suc a) e c a" for k by (simp add: closing_line_def)
  have "a < e" using Suc.hyps(2) by simp
  then show ?case
    using IH here closing_line_neg [of "-1" ws s "bb_tag t" "Suc a" e c l]
    by (subst findBlockCloseTag_step, subst closing_line_step) (auto simp: bracket_def of_nat_diff add.commute split: option.split)
qed

section \<open>Names in capitals\<close>

lemma closing_lower: "parseBBCodeTag ws src a b m = Some t \<Longrightarrow> bb_closing t \<Longrightarrow> lower (bb_tag t) = bb_tag t"
proof -
  have r: "\<not> bb_closing u" if "read_attrs n ms = Some u" for n ms u
    using that by (cases ms) (auto split: if_splits)
  assume "parseBBCodeTag ws src a b m = Some t" "bb_closing t"
  then show ?thesis using r by (auto simp: parseBBCodeTag_def Let_def split: option.splits if_splits)
qed

text \<open>The old form keeps the capitals of its name, and no closing tag has any: such a block is never closed.\<close>

lemma capitals_never_closed:
  assumes "lower (bb_tag t) \<noteq> bb_tag t"
  shows "findBlockCloseTag ws s t n a e = None"
proof (rule ccontr)
  assume "findBlockCloseTag ws s t n a e \<noteq> None"
  then obtain c l where "findBlockCloseTag ws s t n a e = Some (c, l)" by auto
  then show False
  proof (induction "e - a" arbitrary: n a)
    case 0
    then show ?case by (subst (asm) findBlockCloseTag_step) simp
  next
    case (Suc d)
    have "\<not> (bb_tag u = bb_tag t \<and> bb_closing u)" if "line_tag ws s a = Some u" for u
      using that assms closing_lower by (fastforce simp: line_tag_def split: if_splits)
    then obtain k where "findBlockCloseTag ws s t k (Suc a) e = Some (c, l)"
      using Suc.prems by (subst (asm) findBlockCloseTag_step) (auto split: if_splits option.splits)
    then show False using Suc.hyps by (intro Suc.hyps(1) [of "Suc a" k]) simp_all
  qed
qed

lemma old_form_keeps_capitals:
  "map_option bb_tag (parseBBCodeTag js_space ''[QUOTE=bob]'' 0 11 False) = Some ''QUOTE''"
  "map_option bb_tag (parseBBCodeTag js_space ''[QUOTE=\"bob\"]'' 0 13 False) = Some ''quote''"
  by code_simp+

text \<open>The first match may lie behind the bracket at hand: here a star in brackets is taken for the tag that follows.\<close>

lemma star_opens_bold: "map_option (\<lambda>t. (bb_tag t, bb_length t)) (parseBBCodeTag js_space ''[*] x [b]'' 0 9 False) = Some (''b'', 3)"
  by code_simp

section \<open>Attributes of tokens\<close>

definition data_name :: "string \<Rightarrow> bool" where
  "data_name name \<longleftrightarrow> (\<exists>key. name = ''data-'' @ key \<and> length key > 1 \<and> list_all (\<lambda>c. is_lower c \<or> is_num c \<or> c = CHR ''-'') key)"

lemma dash_humps_set: "set (dash_humps s) \<subseteq> insert (CHR ''-'') (set s)"
  by (induction s rule: dash_humps.induct) auto

lemma data_key_chars: "list_all (\<lambda>c. is_lower c \<or> is_num c \<or> c = CHR ''-'') (data_key k)"
proof -
  have "is_lower (lower_char c) \<or> is_num (lower_char c) \<or> lower_char c = CHR ''-''"
    if "is_alpha c \<or> is_num c \<or> c = CHR ''-''" for c
    using that lower_char_upper [of c] by (cases "is_upper c") (auto simp: lower_char_def is_alpha_def is_num_def is_upper_def)
  then show ?thesis
    unfolding data_key_def camelCaseToDash_def lower_def list_all_iff
    using dash_humps_set [of "filter (\<lambda>c. is_alpha c \<or> is_num c \<or> c = CHR ''-'') k"] by auto
qed

text \<open>
  C37. Whatever a post writes into a tag, the attributes that its token gets have names that begin
  with \<open>data-\<close> and go on with lower case letters, digits and dashes, and values that were escaped.
\<close>

theorem data_attributes_safe:
  "list_all (\<lambda>(name, v). data_name name \<and> v \<noteq> [] \<and> (\<exists>w. v = escapeHtml w))
     (applyDataAttributes escapeHtml attributes defaultName)"
  by (auto simp: list_all_iff applyDataAttributes_def Let_def data_name_def data_key_chars [unfolded list_all_iff])

end
