(* ===== verification/BBCodeInline.thy ===== *)
theory BBCodeInline
  imports BBCodeProofs
begin

text \<open>
  Inline BBCode: \<open>features/bbcode-inline.js\<close>, with the list of rules of \<open>engine.js\<close>. A tag in a line
  becomes a token and a delimiter; the engine pairs the delimiters, and the pairs become elements.

  The method \<open>push\<close> of the state belongs to markdown-it and is an argument. A wrapping function gets the
  tokens and the places of its two.
\<close>

section \<open>Rules\<close>

record 'r ruler =
  rl_rules :: "(string \<times> string \<times> 'r) list"
  rl_cache :: "(string, string \<times> string \<times> 'r) omap option"

definition new_ruler :: "'r ruler" where
  "new_ruler = \<lparr>rl_rules = [], rl_cache = None\<rparr>"

definition rule_cache :: "(string \<times> string \<times> 'r) list \<Rightarrow> (string, string \<times> string \<times> 'r) omap" where
  "rule_cache rs = foldr (\<lambda>info m. om_set (fst (snd info)) info m) rs []"

definition ensureRuleCache :: "'r ruler \<Rightarrow> 'r ruler" where
  "ensureRuleCache r = (case rl_cache r of Some c \<Rightarrow> r | None \<Rightarrow> r\<lparr>rl_cache := Some (rule_cache (rl_rules r))\<rparr>)"

definition getRuleForTag :: "string \<Rightarrow> 'r ruler \<Rightarrow> (string \<times> string \<times> 'r) option \<times> 'r ruler" where
  "getRuleForTag tag r =
     (let r1 = ensureRuleCache r
      in (case rl_cache r1 of Some c \<Rightarrow> om_get c tag | None \<Rightarrow> None, r1))"

definition push_rule :: "string \<Rightarrow> string \<Rightarrow> 'r \<Rightarrow> 'r ruler \<Rightarrow> 'r ruler" where
  "push_rule name tag rule r = r\<lparr>rl_rules := rl_rules r @ [(name, tag, rule)], rl_cache := None\<rparr>"

section \<open>Tokens\<close>

record btoken =
  tk_type :: string
  tk_tag :: string
  tk_attrs :: "(string \<times> string) list"
  tk_nesting :: int
  tk_markup :: string
  tk_content :: string
  tk_meta :: "string option"

datatype bb_wrap =
    Wrap_text string
  | Wrap_function "btoken list \<Rightarrow> nat \<Rightarrow> nat \<Rightarrow> bb_tag \<Rightarrow> string \<Rightarrow> btoken list"

record delimiter =
  dl_info :: "(bb_tag \<times> bb_wrap) option"
  dl_marker :: string
  dl_open :: bool
  dl_close :: bool
  dl_token :: nat
  dl_level :: int
  dl_end :: int

record inline_state =
  is_src :: string
  is_pos :: nat
  is_posMax :: nat
  is_tokens :: "btoken list"
  is_delimiters :: "delimiter list"
  is_level :: int

datatype bb_rule =
    Replace_rule "inline_state \<Rightarrow> bb_tag \<Rightarrow> string \<Rightarrow> inline_state \<times> bool"
  | Wrap_rule bb_wrap

section \<open>From text to delimiters\<close>

text \<open>The first place at which the closing tag of a replaced text begins.\<close>

definition find_close :: "string \<Rightarrow> string \<Rightarrow> nat \<Rightarrow> nat \<Rightarrow> nat option" where
  "find_close src closeTag from stop =
     (case filter (\<lambda>i. lower (take (length closeTag) (drop i src)) = closeTag) [from..<Suc stop - length closeTag] of
        [] \<Rightarrow> None | i # _ \<Rightarrow> Some i)"

definition set_last :: "string \<Rightarrow> inline_state \<Rightarrow> inline_state" where
  "set_last content s =
     s\<lparr>is_tokens := butlast (is_tokens s) @ [(last (is_tokens s))\<lparr>tk_content := content, tk_meta := Some ''bbcode''\<rparr>]\<rparr>"

definition tokenizeBBCode ::
    "(char \<Rightarrow> bool) \<Rightarrow> (string \<Rightarrow> string \<Rightarrow> int \<Rightarrow> inline_state \<Rightarrow> inline_state) \<Rightarrow> (string \<Rightarrow> bb_rule option) \<Rightarrow>
     bool \<Rightarrow> inline_state \<Rightarrow> inline_state \<times> bool" where
  "tokenizeBBCode ws push rules silent s =
     (let pos = is_pos s; src = is_src s
      in if silent \<or> char_at src pos \<noteq> Some (CHR ''['') then (s, False)
         else case parseBBCodeTag ws src pos (is_posMax s) False of
                None \<Rightarrow> (s, False)
              | Some tagInfo \<Rightarrow>
                  (case rules (bb_tag tagInfo) of
                     None \<Rightarrow> (s, False)
                   | Some (Replace_rule replace) \<Rightarrow>
                       if bb_closing tagInfo then (s, False)
                       else (let closeTag = ''[/'' @ bb_tag tagInfo @ '']''; from = pos + bb_length tagInfo
                             in case find_close src closeTag from (is_posMax s) of
                                  None \<Rightarrow> (s, False)
                                | Some i \<Rightarrow>
                                    (let (s1, ok) = replace s tagInfo (take (i - from) (drop from src))
                                     in if ok then (s1\<lparr>is_pos := i + length closeTag\<rparr>, True) else (s1, False)))
                   | Some (Wrap_rule w) \<Rightarrow>
                       (let s1 = (if bb_closing tagInfo \<and>
                                     (case last_opt (is_tokens s) of Some t \<Rightarrow> tk_meta t = Some ''bbcode'' | None \<Rightarrow> False)
                                  then push ''text'' [] 0 s else s);
                            s2 = set_last (take (bb_length tagInfo) (drop pos src)) (push ''text'' [] 0 s1)
                        in (s2\<lparr>is_delimiters := is_delimiters s2 @ [\<lparr>dl_info = Some (tagInfo, w), dl_marker = ''bb'' @ bb_tag tagInfo,
                                 dl_open = \<not> bb_closing tagInfo, dl_close = bb_closing tagInfo,
                                 dl_token = length (is_tokens s2) - 1, dl_level = is_level s2, dl_end = -1\<rparr>],
                              is_pos := pos + bb_length tagInfo\<rparr>, True))))"

section \<open>From delimiters to elements\<close>

definition wrap_tag :: "string \<Rightarrow> string" where
  "wrap_tag w = hd (js_split ''.'' w)"

definition wrap_class :: "string \<Rightarrow> string" where
  "wrap_class w = join '' '' (tl (js_split ''.'' w))"

definition open_token :: "bb_tag \<Rightarrow> string \<Rightarrow> btoken \<Rightarrow> btoken" where
  "open_token info w t =
     (let t1 = t\<lparr>tk_type := ''bbcode_'' @ bb_tag info @ ''_open'', tk_tag := wrap_tag w\<rparr>;
          t2 = (if wrap_class w \<noteq> [] then t1\<lparr>tk_attrs := [(''class'', wrap_class w)]\<rparr> else t1)
      in t2\<lparr>tk_nesting := 1, tk_markup := tk_content t, tk_content := []\<rparr>)"

text \<open>The markup of the end comes from the start, whose content has just been emptied.\<close>

definition close_token :: "bb_tag \<Rightarrow> string \<Rightarrow> btoken \<Rightarrow> btoken \<Rightarrow> btoken" where
  "close_token info w startToken t =
     t\<lparr>tk_type := ''bbcode_'' @ bb_tag info @ ''_close'', tk_tag := wrap_tag w, tk_nesting := -1,
       tk_markup := tk_content startToken, tk_content := []\<rparr>"

definition inner_text :: "btoken list \<Rightarrow> nat \<Rightarrow> nat \<Rightarrow> string" where
  "inner_text ts a b =
     concat (map (\<lambda>j. if tk_type (ts ! j) = ''text'' \<and> tk_meta (ts ! j) \<noteq> Some ''bbcode'' then tk_content (ts ! j) else [])
       [Suc a..<b])"

definition process_delimiter :: "delimiter list \<Rightarrow> nat \<Rightarrow> btoken list \<Rightarrow> btoken list" where
  "process_delimiter ds i ts =
     (let d = ds ! i
      in case dl_info d of
           None \<Rightarrow> ts
         | Some (info, w) \<Rightarrow>
             if dl_end d = -1 then ts
             else (let a = dl_token d; b = dl_token (ds ! nat (dl_end d))
                   in case w of
                        Wrap_function f \<Rightarrow> f ts a b info (inner_text ts a b)
                      | Wrap_text c \<Rightarrow>
                          (let ts1 = ts[a := open_token info c (ts ! a)]
                           in ts1[b := close_token info c (ts1 ! a) (ts1 ! b)])))"

definition processBBCode :: "bool \<Rightarrow> inline_state \<Rightarrow> inline_state" where
  "processBBCode silent s =
     (if silent then s
      else s\<lparr>is_tokens := fold (process_delimiter (is_delimiters s)) [0..<length (is_delimiters s) - 1] (is_tokens s)\<rparr>)"

section \<open>The first rule for a tag\<close>

datatype 'r ruler_call = Push_rule string string 'r | Get_rule string

fun run_rules :: "'r ruler_call list \<Rightarrow> 'r ruler \<Rightarrow> 'r ruler" where
  "run_rules [] r = r"
| "run_rules (Push_rule n t x # cs) r = run_rules cs (push_rule n t x r)"
| "run_rules (Get_rule t # cs) r = run_rules cs (snd (getRuleForTag t r))"

fun pushed_rules :: "'r ruler_call list \<Rightarrow> (string \<times> string \<times> 'r) list" where
  "pushed_rules [] = []"
| "pushed_rules (Push_rule n t x # cs) = (n, t, x) # pushed_rules cs"
| "pushed_rules (Get_rule t # cs) = pushed_rules cs"

definition ruler_ok :: "(string \<times> string \<times> 'r) list \<Rightarrow> 'r ruler \<Rightarrow> bool" where
  "ruler_ok rs r \<longleftrightarrow> rl_rules r = rs \<and> (case rl_cache r of Some c \<Rightarrow> c = rule_cache rs | None \<Rightarrow> True)"

lemma rule_cache_first: "om_get (rule_cache rs) tag = find (\<lambda>info. fst (snd info) = tag) rs"
  by (induction rs) (auto simp: rule_cache_def)

lemma ruler_ok_get: "ruler_ok rs r \<Longrightarrow> ruler_ok rs (snd (getRuleForTag t r))"
  by (auto simp: ruler_ok_def getRuleForTag_def ensureRuleCache_def Let_def split: option.splits)

lemma ruler_ok_run: "ruler_ok rs r \<Longrightarrow> ruler_ok (rs @ pushed_rules cs) (run_rules cs r)"
proof (induction cs arbitrary: rs r)
  case (Cons c cs)
  show ?case
  proof (cases c)
    case (Push_rule n t x)
    have "ruler_ok (rs @ [(n, t, x)]) (push_rule n t x r)" using Cons.prems by (simp add: ruler_ok_def push_rule_def)
    from Cons.IH [OF this] show ?thesis by (simp add: Push_rule)
  next
    case (Get_rule t)
    then show ?thesis using Cons.IH [OF ruler_ok_get [OF Cons.prems]] by simp
  qed
qed simp

text \<open>
  Whatever rules were pushed and asked for before, the rule for a tag is the first one pushed for
  it: the cache never gets old.
\<close>

theorem first_rule_wins:
  "fst (getRuleForTag tag (run_rules cs new_ruler)) = find (\<lambda>info. fst (snd info) = tag) (pushed_rules cs)"
proof -
  have "ruler_ok [] new_ruler" by (simp add: ruler_ok_def new_ruler_def)
  from ruler_ok_run [OF this, of cs] have "ruler_ok (pushed_rules cs) (run_rules cs new_ruler)" by simp
  then show ?thesis
    by (auto simp: ruler_ok_def getRuleForTag_def ensureRuleCache_def Let_def rule_cache_first split: option.splits)
qed

section \<open>Pairs become elements\<close>

type_synonym bb_pair = "nat \<times> nat \<times> bb_tag \<times> string"

definition delimiter_pairs :: "delimiter list \<Rightarrow> nat \<Rightarrow> bb_pair list" where
  "delimiter_pairs ds i =
     (case dl_info (ds ! i) of
        Some (info, Wrap_text c) \<Rightarrow>
          if dl_end (ds ! i) = -1 then [] else [(dl_token (ds ! i), dl_token (ds ! nat (dl_end (ds ! i))), info, c)]
      | _ \<Rightarrow> [])"

definition wrap_pair :: "bb_pair \<Rightarrow> btoken list \<Rightarrow> btoken list" where
  "wrap_pair p ts = (case p of (a, b, info, c) \<Rightarrow>
     (let ts1 = ts[a := open_token info c (ts ! a)] in ts1[b := close_token info c (ts1 ! a) (ts1 ! b)]))"

definition only_text_wraps :: "delimiter list \<Rightarrow> bool" where
  "only_text_wraps ds \<longleftrightarrow> list_all (\<lambda>d. case dl_info d of Some (info, Wrap_function f) \<Rightarrow> False | _ \<Rightarrow> True) ds"

definition pair_places :: "bb_pair list \<Rightarrow> nat list" where
  "pair_places ps = concat (map (\<lambda>(a, b, info, c). [a, b]) ps)"

lemma process_delimiter_pairs:
  "only_text_wraps ds \<Longrightarrow> i < length ds \<Longrightarrow> process_delimiter ds i ts = fold wrap_pair (delimiter_pairs ds i) ts"
  by (auto simp: only_text_wraps_def list_all_length process_delimiter_def delimiter_pairs_def wrap_pair_def Let_def
      split: option.splits bb_wrap.splits)

lemma process_pairs:
  assumes "only_text_wraps ds"
  shows "fold (process_delimiter ds) [0..<length ds - 1] ts = fold wrap_pair (concat (map (delimiter_pairs ds) [0..<length ds - 1])) ts"
proof -
  have "fold (process_delimiter ds) is ts = fold wrap_pair (concat (map (delimiter_pairs ds) is)) ts"
    if "\<forall>i \<in> set is. i < length ds" for "is"
    using that by (induction "is" arbitrary: ts) (simp_all add: process_delimiter_pairs [OF assms])
  moreover have "\<forall>i \<in> set [0..<length ds - 1]. i < length ds" by auto
  ultimately show ?thesis by blast
qed

lemma length_wrap_pairs [simp]: "length (fold wrap_pair ps ts) = length ts"
  by (induction ps arbitrary: ts) (auto simp: wrap_pair_def Let_def)

lemma wrap_pairs_other: "j \<notin> set (pair_places ps) \<Longrightarrow> fold wrap_pair ps ts ! j = ts ! j"
  by (induction ps arbitrary: ts) (auto simp: wrap_pair_def Let_def pair_places_def)

lemma wrap_pairs_done:
  assumes "distinct (pair_places ps)" "\<forall>j \<in> set (pair_places ps). j < length ts" "(a, b, info, c) \<in> set ps"
  shows "fold wrap_pair ps ts ! a = open_token info c (ts ! a) \<and>
    fold wrap_pair ps ts ! b = close_token info c (open_token info c (ts ! a)) (ts ! b)"
  using assms
proof (induction ps arbitrary: ts)
  case (Cons p ps)
  obtain a' b' info' c' where p: "p = (a', b', info', c')" by (cases p)
  have d: "a' \<noteq> b'" "a' \<notin> set (pair_places ps)" "b' \<notin> set (pair_places ps)" "a' < length ts" "b' < length ts"
    using Cons.prems p by (auto simp: pair_places_def)
  show ?case
  proof (cases "(a, b, info, c) \<in> set ps")
    case True
    then have "a \<in> set (pair_places ps)" "b \<in> set (pair_places ps)" by (force simp: pair_places_def)+
    then have "a \<noteq> a'" "a \<noteq> b'" "b \<noteq> a'" "b \<noteq> b'" using d by auto
    moreover have "distinct (pair_places ps)" "\<forall>j \<in> set (pair_places ps). j < length (wrap_pair p ts)"
      using Cons.prems p by (auto simp: pair_places_def wrap_pair_def Let_def)
    ultimately show ?thesis using Cons.IH [of "wrap_pair p ts"] True p by (simp add: wrap_pair_def Let_def)
  next
    case False
    then have "a = a'" "b = b'" "info = info'" "c = c'" using Cons.prems(3) p by auto
    moreover have "wrap_pair p ts = ts[a' := open_token info' c' (ts ! a'), b' := close_token info' c' (open_token info' c' (ts ! a')) (ts ! b')]"
      using d p by (simp add: wrap_pair_def)
    ultimately show ?thesis using d by (simp add: wrap_pairs_other)
  qed
qed simp

text \<open>
  When the engine has paired the delimiters of the tags in a line, and no two share a token, each
  pair becomes the start and the end of an element, and all other tokens stay as they are.
\<close>

theorem pairs_become_elements:
  assumes "only_text_wraps (is_delimiters s)"
    and "ps = concat (map (delimiter_pairs (is_delimiters s)) [0..<length (is_delimiters s) - 1])"
    and "distinct (pair_places ps)" "\<forall>j \<in> set (pair_places ps). j < length (is_tokens s)"
  shows "length (is_tokens (processBBCode False s)) = length (is_tokens s) \<and>
    (\<forall>j. j \<notin> set (pair_places ps) \<longrightarrow> is_tokens (processBBCode False s) ! j = is_tokens s ! j) \<and>
    (\<forall>(a, b, info, c) \<in> set ps.
       is_tokens (processBBCode False s) ! a = open_token info c (is_tokens s ! a) \<and>
       is_tokens (processBBCode False s) ! b = close_token info c (open_token info c (is_tokens s ! a)) (is_tokens s ! b))"
proof -
  have "is_tokens (processBBCode False s) = fold wrap_pair ps (is_tokens s)"
    by (simp only: processBBCode_def if_False process_pairs [OF assms(1)] assms(2) inline_state.simps) simp
  then show ?thesis using wrap_pairs_other wrap_pairs_done [OF assms(3,4)] by auto
qed

definition demo_token :: "string \<Rightarrow> btoken" where
  "demo_token c = \<lparr>tk_type = ''text'', tk_tag = [], tk_attrs = [], tk_nesting = 0, tk_markup = [], tk_content = c, tk_meta = None\<rparr>"

definition demo_delimiter :: "bool \<Rightarrow> nat \<Rightarrow> int \<Rightarrow> delimiter" where
  "demo_delimiter opening n e = \<lparr>dl_info = Some (\<lparr>bb_tag = ''b'', bb_closing = \<not> opening, bb_length = 3, bb_attrs = None\<rparr>,
     Wrap_text ''span.bbcode-b''), dl_marker = ''bbb'', dl_open = opening, dl_close = \<not> opening, dl_token = n, dl_level = 0, dl_end = e\<rparr>"

definition demo_line :: inline_state where
  "demo_line = \<lparr>is_src = ''[b]x[/b]'', is_pos = 8, is_posMax = 8,
     is_tokens = map demo_token [''[b]'', ''x'', ''[/b]''],
     is_delimiters = [demo_delimiter True 0 1, demo_delimiter False 2 (-1)], is_level = 0\<rparr>"

theorem pairs_become_elements_witness:
  "map tk_type (is_tokens (processBBCode False demo_line)) = [''bbcode_b_open'', ''text'', ''bbcode_b_close''] \<and>
   map tk_tag (is_tokens (processBBCode False demo_line)) = [''span'', [], ''span'']"
proof -
  let ?ts = "is_tokens (processBBCode False demo_line)"
  have p: "concat (map (delimiter_pairs (is_delimiters demo_line)) [0..<length (is_delimiters demo_line) - 1]) =
      [(0, 2, \<lparr>bb_tag = ''b'', bb_closing = False, bb_length = 3, bb_attrs = None\<rparr>, ''span.bbcode-b'')]"
    by (simp add: demo_line_def demo_delimiter_def delimiter_pairs_def)
  note h = pairs_become_elements [of demo_line, OF _ refl, unfolded p]
  have w: "wrap_tag ''span.bbcode-b'' = ''span''" "wrap_class ''span.bbcode-b'' = ''bbcode-b''" by code_simp+
  have t: "length ?ts = 3" "?ts ! 0 = open_token \<lparr>bb_tag = ''b'', bb_closing = False, bb_length = 3, bb_attrs = None\<rparr> ''span.bbcode-b'' (demo_token ''[b]'')"
    "?ts ! 1 = demo_token ''x''"
    "?ts ! 2 = close_token \<lparr>bb_tag = ''b'', bb_closing = False, bb_length = 3, bb_attrs = None\<rparr> ''span.bbcode-b''
      (open_token \<lparr>bb_tag = ''b'', bb_closing = False, bb_length = 3, bb_attrs = None\<rparr> ''span.bbcode-b'' (demo_token ''[b]'')) (demo_token ''[/b]'')"
    using h by (simp_all add: demo_line_def demo_delimiter_def only_text_wraps_def pair_places_def)
  have "xs = [xs ! 0, xs ! 1, xs ! 2]" if "length xs = 3" for xs :: "btoken list"
    using that by (auto simp: numeral_3_eq_3 numeral_2_eq_2 length_Suc_conv)
  note three = this [OF t(1)]
  have m: "map f ?ts = [f (?ts ! 0), f (?ts ! 1), f (?ts ! 2)]" for f :: "btoken \<Rightarrow> string"
    by (rule trans [OF arg_cong [OF three, of "map f"]]) simp
  show ?thesis unfolding m t(2-4) by (simp add: open_token_def close_token_def w demo_token_def Let_def)
qed

text \<open>The end of an element has lost the markup of its tag.\<close>

lemma markup_lost: "tk_markup (close_token info c (open_token info c t) u) = []"
  by (simp add: close_token_def open_token_def Let_def)

end
