(* ===== verification/FormData.thy ===== *)
theory FormData
  imports JsString ObjectTools
begin

text \<open>
  \<open>form-kit/lib/fk-form-data.js\<close>: the data of a form. What is typed goes into a draft and is recorded
  as patches; saving applies the patches to the data, rolling back applies their inverses to the draft.

  The package immer, which makes and applies patches, is not in the repository: it is the argument
  \<open>immer\<close>, and \<open>immer_ok\<close> states what its documentation promises.
\<close>

section \<open>Patches\<close>

record 'p immer =
  patches_of :: "jsval \<Rightarrow> jsval \<Rightarrow> 'p list"
  inverse_of :: "jsval \<Rightarrow> jsval \<Rightarrow> 'p list"
  applyPatches :: "jsval \<Rightarrow> 'p list \<Rightarrow> jsval"

record form_error =
  fe_title :: string
  fe_messages :: "string list"

record 'p form_data =
  fd_data :: jsval
  fd_draft :: jsval
  fd_errors :: "(string, form_error) omap"
  fd_patches :: "'p list"
  fd_inverse :: "'p list"

definition new_form :: "jsval \<Rightarrow> 'p form_data" where
  "new_form v = \<lparr>fd_data = v, fd_draft = v, fd_errors = [], fd_patches = [], fd_inverse = []\<rparr>"

definition isValid :: "'p form_data \<Rightarrow> bool" where
  "isValid s \<longleftrightarrow> length (fd_errors s) = 0"

definition isInvalid :: "'p form_data \<Rightarrow> bool" where
  "isInvalid s \<longleftrightarrow> \<not> isValid s"

definition isPristine :: "'p form_data \<Rightarrow> bool" where
  "isPristine s \<longleftrightarrow> length (fd_patches s) + length (fd_inverse s) = 0"

definition form_isDirty :: "'p form_data \<Rightarrow> bool" where
  "form_isDirty s \<longleftrightarrow> \<not> isPristine s"

definition execute :: "'p immer \<Rightarrow> 'p form_data \<Rightarrow> 'p form_data" where
  "execute im s = s\<lparr>fd_data := applyPatches im (fd_data s) (fd_patches s)\<rparr>"

definition unexecute :: "'p immer \<Rightarrow> 'p form_data \<Rightarrow> 'p form_data" where
  "unexecute im s = s\<lparr>fd_data := applyPatches im (fd_data s) (fd_inverse s)\<rparr>"

definition resetPatches :: "'p form_data \<Rightarrow> 'p form_data" where
  "resetPatches s = s\<lparr>fd_patches := [], fd_inverse := []\<rparr>"

definition save_form :: "'p immer \<Rightarrow> 'p form_data \<Rightarrow> 'p form_data" where
  "save_form im s = resetPatches (execute im s)"

function undo_patches :: "'p immer \<Rightarrow> 'p form_data \<Rightarrow> 'p form_data" where
  "undo_patches im s =
     (if fd_inverse s = [] then s
      else undo_patches im (s\<lparr>fd_draft := applyPatches im (fd_draft s) [last (fd_inverse s)], fd_inverse := butlast (fd_inverse s)\<rparr>))"
  by pat_completeness auto
termination by (relation "measure (\<lambda>(im, s). length (fd_inverse s))") auto

declare undo_patches.simps [simp del]

definition rollback :: "'p immer \<Rightarrow> 'p form_data \<Rightarrow> 'p form_data" where
  "rollback im s = resetPatches (undo_patches im s)"

section \<open>Errors\<close>

definition addError :: "string \<Rightarrow> string \<Rightarrow> string \<Rightarrow> 'p form_data \<Rightarrow> 'p form_data" where
  "addError name title message s =
     (case om_get (fd_errors s) name of
        Some e \<Rightarrow> s\<lparr>fd_errors := om_set name (e\<lparr>fe_messages := fe_messages e @ [message]\<rparr>) (fd_errors s)\<rparr>
      | None \<Rightarrow> s\<lparr>fd_errors := om_set name \<lparr>fe_title = title, fe_messages = [message]\<rparr> (fd_errors s)\<rparr>)"

definition removeError :: "string \<Rightarrow> 'p form_data \<Rightarrow> 'p form_data" where
  "removeError name s = s\<lparr>fd_errors := om_delete name (fd_errors s)\<rparr>"

definition removeErrors :: "'p form_data \<Rightarrow> 'p form_data" where
  "removeErrors s = s\<lparr>fd_errors := []\<rparr>"

section \<open>Getting and setting\<close>

text \<open>The place that a property name stands for in an array.\<close>

definition array_index :: "string \<Rightarrow> nat option" where
  "array_index k = (if show_nat (read_nat k) = k then Some (read_nat k) else None)"

text \<open>Reading a property: \<open>undefined\<close> and \<open>null\<close> have none, and the code throws.\<close>

fun member :: "jsval \<Rightarrow> string \<Rightarrow> jsval result" where
  "member (JObj ob) k = Inr (pget ob k)"
| "member (JArr xs) k =
     Inr (if k = ''length'' then JNum (int (length xs))
          else case array_index k of Some i \<Rightarrow> if i < length xs then xs ! i else JUndef | None \<Rightarrow> JUndef)"
| "member (JStr t) k =
     Inr (if k = ''length'' then JNum (int (length t))
          else case array_index k of Some i \<Rightarrow> if i < length t then JStr [t ! i] else JUndef | None \<Rightarrow> JUndef)"
| "member JUndef k = Inl (TypeError k)"
| "member JNull k = Inl (TypeError k)"
| "member v k = Inr JUndef"

fun get_path :: "string list \<Rightarrow> jsval \<Rightarrow> jsval result" where
  "get_path [] v = Inr v"
| "get_path (k # ks) v = bind_result (member v k) (get_path ks)"

definition form_get :: "string \<Rightarrow> 'p form_data \<Rightarrow> jsval result" where
  "form_get name s = get_path (js_split ''.'' name) (fd_draft s)"

text \<open>Setting a property of a draft; of an array only elements can be set, and one far behind the end leaves holes.\<close>

fun set_member :: "string \<Rightarrow> jsval \<Rightarrow> jsval \<Rightarrow> jsval result" where
  "set_member k v (JObj ob) = Inr (JObj (om_set k v ob))"
| "set_member k v (JArr xs) =
     (case array_index k of
        Some i \<Rightarrow> Inr (JArr (if i < length xs then xs[i := v] else xs @ replicate (i - length xs) JUndef @ [v]))
      | None \<Rightarrow> Inl (Error k))"
| "set_member k v w = Inl (TypeError k)"

text \<open>The recipe of \<open>set\<close>: down to the last but one name, and there the value is set.\<close>

fun set_path :: "string list \<Rightarrow> jsval \<Rightarrow> jsval \<Rightarrow> jsval result" where
  "set_path [] v w = Inr v"
| "set_path [k] v w = set_member k v w"
| "set_path (k # ks) v w = bind_result (member w k) (\<lambda>c. bind_result (set_path ks v c) (\<lambda>r. set_member k r w))"

definition form_set :: "'p immer \<Rightarrow> string \<Rightarrow> jsval \<Rightarrow> 'p form_data \<Rightarrow> 'p form_data result" where
  "form_set im name v s =
     bind_result (set_path (js_split ''.'' name) v (fd_draft s))
       (\<lambda>d. Inr (s\<lparr>fd_draft := d, fd_patches := fd_patches s @ patches_of im (fd_draft s) d,
                   fd_inverse := fd_inverse s @ inverse_of im (fd_draft s) d\<rparr>))"

section \<open>What the package promises\<close>

text \<open>
  Patches lead from the old value to the new one, inverse patches back; a list of patches is applied
  one after the other. How many patches an assignment needs is not promised.
\<close>

definition immer_ok :: "'p immer \<Rightarrow> bool" where
  "immer_ok im \<longleftrightarrow>
     (\<forall>a b. applyPatches im a (patches_of im a b) = b) \<and>
     (\<forall>a b. applyPatches im b (inverse_of im a b) = a) \<and>
     (\<forall>a p q. applyPatches im a (p @ q) = applyPatches im (applyPatches im a p) q) \<and>
     (\<forall>a. applyPatches im a [] = a)"

text \<open>A package of this kind: a patch is the whole new value.\<close>

definition whole_immer :: "jsval immer" where
  "whole_immer = \<lparr>patches_of = (\<lambda>a b. if a = b then [] else [b]), inverse_of = (\<lambda>a b. if a = b then [] else [a]),
     applyPatches = (\<lambda>a ps. last (a # ps))\<rparr>"

lemma whole_immer_ok: "immer_ok whole_immer"
  by (auto simp: immer_ok_def whole_immer_def)

section \<open>A form as two values\<close>

text \<open>What the form promises: a saved value and a value being edited.\<close>

datatype form_call =
    Set_field string jsval | Save_form | Rollback_form
  | Add_error string string string | Remove_error string | Remove_errors

fun apply_call :: "'p immer \<Rightarrow> form_call \<Rightarrow> 'p form_data \<Rightarrow> 'p form_data" where
  "apply_call im (Set_field name v) s = (case form_set im name v s of Inr t \<Rightarrow> t | Inl e \<Rightarrow> s)"
| "apply_call im Save_form s = save_form im s"
| "apply_call im Rollback_form s = rollback im s"
| "apply_call im (Add_error n t m) s = addError n t m s"
| "apply_call im (Remove_error n) s = removeError n s"
| "apply_call im Remove_errors s = removeErrors s"

fun two_values :: "form_call \<Rightarrow> jsval \<times> jsval \<Rightarrow> jsval \<times> jsval" where
  "two_values (Set_field name v) (saved, edited) =
     (saved, case set_path (js_split ''.'' name) v edited of Inr e \<Rightarrow> e | Inl x \<Rightarrow> edited)"
| "two_values Save_form (saved, edited) = (edited, edited)"
| "two_values Rollback_form (saved, edited) = (saved, saved)"
| "two_values _ se = se"

text \<open>
  \<open>rollback\<close> takes the inverse patches one by one from the end, so it undoes an assignment that has
  several of them in the wrong order. \<open>single_calls\<close>: no assignment of the calls has more than one.
\<close>

fun single_calls :: "'p immer \<Rightarrow> form_call list \<Rightarrow> 'p form_data \<Rightarrow> bool" where
  "single_calls im [] s = True"
| "single_calls im (c # cs) s =
     ((case c of
         Set_field name v \<Rightarrow> (case set_path (js_split ''.'' name) v (fd_draft s) of
             Inr d \<Rightarrow> length (inverse_of im (fd_draft s) d) \<le> 1 | Inl e \<Rightarrow> True)
       | _ \<Rightarrow> True) \<and> single_calls im cs (apply_call im c s))"

definition saves_draft :: "'p immer \<Rightarrow> 'p form_data \<Rightarrow> bool" where
  "saves_draft im s \<longleftrightarrow> applyPatches im (fd_data s) (fd_patches s) = fd_draft s"

definition form_inv :: "'p immer \<Rightarrow> 'p form_data \<Rightarrow> bool" where
  "form_inv im s \<longleftrightarrow> saves_draft im s \<and>
     foldr (\<lambda>q d. applyPatches im d [q]) (fd_inverse s) (fd_draft s) = fd_data s"

lemma undo_patches_draft:
  "fd_draft (undo_patches im s) = foldr (\<lambda>q d. applyPatches im d [q]) (fd_inverse s) (fd_draft s) \<and>
   fd_data (undo_patches im s) = fd_data s"
proof (induction im s rule: undo_patches.induct)
  case (1 im s)
  show ?case
  proof (cases "fd_inverse s = []")
    case False
    then have e: "fd_inverse s = butlast (fd_inverse s) @ [last (fd_inverse s)]" by simp
    have "foldr (\<lambda>q d. applyPatches im d [q]) (fd_inverse s) (fd_draft s) =
        foldr (\<lambda>q d. applyPatches im d [q]) (butlast (fd_inverse s)) (applyPatches im (fd_draft s) [last (fd_inverse s)])"
      by (subst e) simp
    then show ?thesis using 1 False by (subst (1 2) undo_patches.simps) simp
  qed (simp add: undo_patches.simps)
qed

lemma immer_single:
  assumes "immer_ok im" "length (inverse_of im a b) \<le> 1"
  shows "foldr (\<lambda>q d. applyPatches im d [q]) (inverse_of im a b) b = a"
proof -
  have "applyPatches im b (inverse_of im a b) = a" "applyPatches im b [] = b"
    using assms(1) by (auto simp: immer_ok_def)
  then show ?thesis using assms(2) by (cases "inverse_of im a b" rule: remdups_adj.cases) auto
qed

lemma saves_step:
  assumes "immer_ok im" "saves_draft im s" "c \<noteq> Rollback_form"
  shows "saves_draft im (apply_call im c s) \<and>
    (fd_data (apply_call im c s), fd_draft (apply_call im c s)) = two_values c (fd_data s, fd_draft s)"
proof (cases c)
  case (Set_field name v)
  then show ?thesis using assms
    by (cases "set_path (js_split ''.'' name) v (fd_draft s)") (simp_all add: form_set_def saves_draft_def immer_ok_def)
next
  case Save_form
  then show ?thesis using assms by (auto simp: save_form_def execute_def resetPatches_def saves_draft_def immer_ok_def)
next
  case (Add_error n t m)
  then show ?thesis using assms by (auto simp: addError_def saves_draft_def split: option.split)
qed (use assms in \<open>auto simp: removeError_def removeErrors_def saves_draft_def\<close>)

lemma inverse_step:
  assumes "immer_ok im" "form_inv im s" "single_calls im [c] s"
  shows "form_inv im (apply_call im c s) \<and>
    (fd_data (apply_call im c s), fd_draft (apply_call im c s)) = two_values c (fd_data s, fd_draft s)"
proof (cases "c = Rollback_form")
  case True
  then show ?thesis using assms undo_patches_draft [of im s]
    by (auto simp: rollback_def resetPatches_def form_inv_def saves_draft_def immer_ok_def)
next
  case False
  note st = saves_step [OF assms(1) _ False, of s]
  have "foldr (\<lambda>q d. applyPatches im d [q]) (fd_inverse (apply_call im c s)) (fd_draft (apply_call im c s)) =
      fd_data (apply_call im c s)"
  proof (cases c)
    case (Set_field name v)
    then show ?thesis using assms immer_single [OF assms(1)]
      by (cases "set_path (js_split ''.'' name) v (fd_draft s)") (simp_all add: form_set_def form_inv_def)
  next
    case Save_form
    then show ?thesis using assms
      by (auto simp: save_form_def execute_def resetPatches_def form_inv_def saves_draft_def)
  next
    case (Add_error n t m)
    then show ?thesis using assms by (auto simp: addError_def form_inv_def split: option.split)
  qed (use assms False in \<open>auto simp: removeError_def removeErrors_def form_inv_def\<close>)
  then show ?thesis using st assms(2) by (simp add: form_inv_def)
qed

text \<open>
  C14. Whatever is set, saved or reported as an error, in any order, the data is the last saved value
  and the draft the value being edited; and so it is with rollbacks, which make the draft the saved
  value again, when the patch package records at most one inverse patch for each assignment. (With
  more, a rollback can leave another draft: \<open>rollback_in_wrong_order\<close>.)
\<close>

theorem form_refines:
  assumes "immer_ok im" and "Rollback_form \<in> set cs \<Longrightarrow> single_calls im cs (new_form v)"
  shows "(fd_data (fold (apply_call im) cs (new_form v)), fd_draft (fold (apply_call im) cs (new_form v))) =
    fold two_values cs (v, v)"
proof -
  have all: "form_inv im s \<Longrightarrow> single_calls im cs s \<Longrightarrow>
      (fd_data (fold (apply_call im) cs s), fd_draft (fold (apply_call im) cs s)) =
      fold two_values cs (fd_data s, fd_draft s)" for s cs
  proof (induction cs arbitrary: s)
    case (Cons c cs)
    then show ?case using inverse_step [OF assms(1) Cons.prems(1), of c] by auto
  qed simp
  have forth: "saves_draft im s \<Longrightarrow> Rollback_form \<notin> set cs \<Longrightarrow>
      (fd_data (fold (apply_call im) cs s), fd_draft (fold (apply_call im) cs s)) =
      fold two_values cs (fd_data s, fd_draft s)" for s cs
  proof (induction cs arbitrary: s)
    case (Cons c cs)
    then show ?case using saves_step [OF assms(1) Cons.prems(1), of c] by auto
  qed simp
  have "form_inv im (new_form v)" using assms(1) by (simp add: form_inv_def saves_draft_def new_form_def immer_ok_def)
  then show ?thesis
    using all [of "new_form v" cs] forth [of "new_form v" cs] assms(2)
    by (cases "Rollback_form \<in> set cs") (auto simp: form_inv_def new_form_def)
qed

text \<open>
  A package that takes the elements behind the old end of an array away one by one, the last one
  first. Taken from the end of the list, they leave an element behind.
\<close>

datatype patch = Whole jsval | Drop nat

fun apply_patch :: "patch \<Rightarrow> jsval \<Rightarrow> jsval" where
  "apply_patch (Whole v) a = v"
| "apply_patch (Drop i) (JArr xs) = JArr (take i xs @ drop (Suc i) xs)"
| "apply_patch (Drop i) a = a"

definition removals :: "jsval \<Rightarrow> jsval \<Rightarrow> patch list" where
  "removals a b =
     (case (a, b) of
        (JArr xs, JArr ys) \<Rightarrow>
          if take (length xs) ys = xs then map Drop (rev [length xs..<length ys]) else [Whole a]
      | _ \<Rightarrow> [Whole a])"

definition removing_immer :: "patch immer" where
  "removing_immer = \<lparr>patches_of = (\<lambda>a b. [Whole b]), inverse_of = removals, applyPatches = (\<lambda>a ps. fold apply_patch ps a)\<rparr>"

lemma drop_removals: "n \<le> length ys \<Longrightarrow> fold apply_patch (map Drop (rev [n..<length ys])) (JArr ys) = JArr (take n ys)"
proof (induction ys rule: rev_induct)
  case (snoc y ys)
  then show ?case by (cases "n = Suc (length ys)") simp_all
qed simp

lemma removing_immer_ok: "immer_ok removing_immer"
  using drop_removals
  by (auto simp: immer_ok_def removing_immer_def removals_def split: jsval.split) (metis nat_le_linear take_all)

lemma rollback_in_wrong_order:
  "immer_ok removing_immer"
  "fd_draft (fold (apply_call removing_immer) [Set_field ''2'' (JNum 7), Rollback_form] (new_form (JArr [JNum 1]))) =
     JArr [JNum 1, JNum 7]"
  by (rule removing_immer_ok) code_simp

theorem form_refines_witness:
  "(fd_data (fold (apply_call whole_immer) [Set_field ''a'' (JNum 2), Set_field ''a'' (JNum 3), Rollback_form] (new_form (JObj [(''a'', JNum 1)]))),
    fd_draft (fold (apply_call whole_immer) [Set_field ''a'' (JNum 2), Set_field ''a'' (JNum 3), Rollback_form] (new_form (JObj [(''a'', JNum 1)])))) =
   (JObj [(''a'', JNum 1)], JObj [(''a'', JNum 1)])"
proof -
  let ?cs = "[Set_field ''a'' (JNum 2), Set_field ''a'' (JNum 3), Rollback_form]"
  have "single_calls whole_immer ?cs (new_form (JObj [(''a'', JNum 1)]))"
    "fold two_values ?cs (JObj [(''a'', JNum 1)], JObj [(''a'', JNum 1)]) = (JObj [(''a'', JNum 1)], JObj [(''a'', JNum 1)])"
    by code_simp+
  then show ?thesis using form_refines [OF whole_immer_ok, of ?cs "JObj [(''a'', JNum 1)]"] by simp
qed

section \<open>Setting and getting\<close>

lemma length_no_index: "array_index ''length'' = None"
  by code_simp

lemma member_set: "set_member k v w = Inr u \<Longrightarrow> member u k = Inr v"
proof (cases w)
  case (JArr xs)
  assume s: "set_member k v w = Inr u"
  then obtain i where i: "array_index k = Some i" using JArr by (cases "array_index k") auto
  then have "k \<noteq> ''length''" using length_no_index by auto
  then show ?thesis using s i JArr by (auto simp: nth_append)
qed auto

lemma get_set_path: "set_path ks v w = Inr u \<Longrightarrow> ks \<noteq> [] \<Longrightarrow> get_path ks u = Inr v"
proof (induction ks v w arbitrary: u rule: set_path.induct)
  case (3 k k' ks v w)
  from 3(2) obtain c r where c: "member w k = Inr c" "set_path (k' # ks) v c = Inr r" "set_member k r w = Inr u"
    by (cases "member w k"; cases "set_path (k' # ks) v (case member w k of Inr c \<Rightarrow> c | Inl e \<Rightarrow> w)") auto
  show ?case using 3(1) [OF c(2)] member_set [OF c(3)] by simp
qed (simp_all add: member_set)

text \<open>A field that was set, at whatever depth, is read back with the value it was set to.\<close>

theorem set_field_read: "form_set im name v s = Inr t \<Longrightarrow> form_get name t = Inr v"
  using get_set_path [of "js_split ''.'' name" v "fd_draft s"]
  by (cases "set_path (js_split ''.'' name) v (fd_draft s)") (auto simp: form_set_def form_get_def)

theorem set_field_read_witness:
  "form_get ''a.1'' (fold (apply_call whole_immer) [Set_field ''a.1'' (JNum 7)] (new_form (JObj [(''a'', JArr [JNull])]))) = Inr (JNum 7)"
proof -
  let ?s = "new_form (JObj [(''a'', JArr [JNull])]) :: jsval form_data"
  have "set_path (js_split ''.'' ''a.1'') (JNum 7) (fd_draft ?s) = Inr (JObj [(''a'', JArr [JNull, JNum 7])])" by code_simp
  then obtain t where t: "form_set whole_immer ''a.1'' (JNum 7) ?s = Inr t" by (auto simp: form_set_def)
  show ?thesis using set_field_read [OF t] t by simp
qed

section \<open>Errors\<close>

definition messages_of :: "string \<Rightarrow> 'p form_data \<Rightarrow> string list" where
  "messages_of name s = (case om_get (fd_errors s) name of Some e \<Rightarrow> fe_messages e | None \<Rightarrow> [])"

lemma addError_messages:
  "messages_of n (addError name title message s) = messages_of n s @ (if n = name then [message] else [])"
  by (auto simp: messages_of_def addError_def split: option.split)

lemma addError_invalid: "isInvalid (addError name title message s)"
  by (cases "fd_errors (addError name title message s)")
    (auto simp: isInvalid_def isValid_def addError_def split: option.splits dest: arg_cong [where f = "\<lambda>m. om_get m name"])

lemma removeError_messages: "om_wf (fd_errors s) \<Longrightarrow> messages_of n (removeError name s) = (if n = name then [] else messages_of n s)"
  by (simp add: messages_of_def removeError_def om_get_delete)

text \<open>
  The inverse patches of two changes are applied in the order in which they were made: what
  \<open>unexecute\<close> leaves is the value in between.
\<close>

lemma unexecute_in_wrong_order:
  "fd_data (unexecute whole_immer (execute whole_immer
     (fold (apply_call whole_immer) [Set_field ''a'' (JNum 2), Set_field ''a'' (JNum 3)] (new_form (JObj [(''a'', JNum 1)]))))) =
   JObj [(''a'', JNum 2)]"
  by code_simp

end
