(* ===== verification/FormValidator.thy ===== *)
theory FormValidator
  imports FormData
begin

text \<open>
  \<open>form-kit/lib/validator.js\<close>: the rules of a field and the errors of its value. An error is the key
  of its message and what the message is about. \<open>isBlank\<close> of Ember and the rules on dates,
  addresses and whole numbers are arguments.
\<close>

section \<open>Numbers in texts\<close>

definition numeral_digits :: "(char \<Rightarrow> bool) \<Rightarrow> string \<Rightarrow> bool" where
  "numeral_digits P s \<longleftrightarrow> s \<noteq> [] \<and> list_all P s"

definition is_hex :: "char \<Rightarrow> bool" where
  "is_hex c \<longleftrightarrow> is_num c \<or> lower_char c \<in> set ''abcdef''"

text \<open>The exponent: nothing, or \<open>e\<close>, perhaps a sign, and digits.\<close>

definition is_exponent :: "string \<Rightarrow> bool" where
  "is_exponent s \<longleftrightarrow>
     s = [] \<or> (hd s = CHR ''e'' \<or> hd s = CHR ''E'') \<and>
       numeral_digits is_num (if prefix ''+'' (tl s) \<or> prefix ''-'' (tl s) then tl (tl s) else tl s)"

definition is_decimal :: "string \<Rightarrow> bool" where
  "is_decimal s \<longleftrightarrow>
     s = ''Infinity'' \<or>
     (let ds = takeWhile is_num s; r = dropWhile is_num s
      in if prefix ''.'' r
         then (ds \<noteq> [] \<or> takeWhile is_num (tl r) \<noteq> []) \<and> is_exponent (dropWhile is_num (tl r))
         else ds \<noteq> [] \<and> is_exponent r)"

text \<open>Whether \<open>Number\<close> of a text is a number.\<close>

definition is_numeric :: "string \<Rightarrow> bool" where
  "is_numeric text =
     (let s = trim text; p = lower (take 2 s)
      in s = [] \<or>
         p = ''0x'' \<and> numeral_digits is_hex (drop 2 s) \<or>
         p = ''0o'' \<and> numeral_digits (\<lambda>c. c \<in> set ''01234567'') (drop 2 s) \<or>
         p = ''0b'' \<and> numeral_digits (\<lambda>c. c \<in> set ''01'') (drop 2 s) \<or>
         is_decimal (if prefix ''+'' s \<or> prefix ''-'' s then tl s else s))"

text \<open>Inside an array a value counts by its text; several have a comma between them.\<close>

fun numeric_element :: "jsval \<Rightarrow> bool" where
  "numeric_element (JArr []) = True"
| "numeric_element (JArr [x]) = numeric_element x"
| "numeric_element (JStr s) = is_numeric s"
| "numeric_element (JNum n) = True"
| "numeric_element JUndef = True"
| "numeric_element JNull = True"
| "numeric_element _ = False"

fun number_given :: "jsval \<Rightarrow> bool" where
  "number_given JUndef = False"
| "number_given JNull = True"
| "number_given (JBool b) = True"
| "number_given (JNum n) = True"
| "number_given (JStr s) = is_numeric s"
| "number_given (JObj ob) = False"
| "number_given v = numeric_element v"

section \<open>Rules\<close>

record rule_opts =
  ru_max :: jsval
  ru_min :: jsval
  ru_prefix :: string
  ru_suffix :: string
  ru_trim :: bool

type_synonym field_error = "string \<times> jsval"

definition value_length :: "jsval \<Rightarrow> jsval" where
  "value_length v = (case member v ''length'' of Inr n \<Rightarrow> n | Inl e \<Rightarrow> JUndef)"

definition lengthValidator :: "(jsval \<Rightarrow> bool) \<Rightarrow> jsval \<Rightarrow> rule_opts \<Rightarrow> field_error option" where
  "lengthValidator blank v r =
     (if blank v then None
      else if truthy (ru_max r) \<and> js_less (ru_max r) (value_length v) then Some (''too_long'', ru_max r)
      else if truthy (ru_min r) \<and> js_less (value_length v) (ru_min r) then Some (''too_short'', ru_min r)
      else None)"

definition betweenValidator :: "jsval \<Rightarrow> rule_opts \<Rightarrow> field_error option" where
  "betweenValidator v r =
     (if truthy (ru_max r) \<and> js_less (ru_max r) v then Some (''too_high'', ru_max r)
      else if truthy (ru_min r) \<and> js_less v (ru_min r) then Some (''too_low'', ru_min r)
      else None)"

definition numberValidator :: "jsval \<Rightarrow> field_error option" where
  "numberValidator v = (if number_given v then None else Some (''not_a_number'', JUndef))"

definition acceptedValidator :: "jsval \<Rightarrow> field_error option" where
  "acceptedValidator v =
     (if v \<in> set [JStr ''yes'', JStr ''on'', JBool True, JNum 1, JStr ''true''] then None else Some (''not_accepted'', JUndef))"

text \<open>\<open>value?.trim()\<close> throws when the value is neither a text nor missing.\<close>

definition trimmed :: "jsval \<Rightarrow> jsval result" where
  "trimmed v =
     (case v of
        JStr s \<Rightarrow> Inr (JStr (trim s))
      | JUndef \<Rightarrow> Inr JUndef
      | JNull \<Rightarrow> Inr JUndef
      | _ \<Rightarrow> Inl (TypeError ''trim''))"

definition requiredValidator :: "(jsval \<Rightarrow> bool) \<Rightarrow> jsval \<Rightarrow> rule_opts \<Rightarrow> string \<Rightarrow> field_error option result" where
  "requiredValidator blank v r type =
     (let answer = (\<lambda>b. if b then Some (''required'', JUndef) else None)
      in if type = ''input-text''
         then map_sum id (\<lambda>w. answer (\<not> truthy w)) (if ru_trim r then trimmed v else Inr v)
         else if type = ''input-number''
         then Inr (answer (\<not> truthy v \<and> v \<noteq> JNum 0 \<or> \<not> number_given v))
         else if type = ''question'' then Inr (answer (v \<noteq> JBool False \<and> \<not> truthy v))
         else if type = ''checkbox'' then Inr (answer (v \<noteq> JBool True))
         else Inr (answer (blank v)))"

text \<open>\<open>value.startsWith\<close> and \<open>value.endsWith\<close> throw when the value is not a text.\<close>

definition affixValidator :: "(jsval \<Rightarrow> bool) \<Rightarrow> (string \<Rightarrow> bool) \<Rightarrow> field_error \<Rightarrow> jsval \<Rightarrow> string \<Rightarrow> field_error option result" where
  "affixValidator blank test err v type =
     (if blank v then Inr None
      else if type \<in> set [''input'', ''input-text'', ''text'']
      then (case v of JStr s \<Rightarrow> Inr (if test s then None else Some err) | _ \<Rightarrow> Inl (TypeError ''value''))
      else Inr None)"

definition startsWithValidator :: "(jsval \<Rightarrow> bool) \<Rightarrow> jsval \<Rightarrow> rule_opts \<Rightarrow> string \<Rightarrow> field_error option result" where
  "startsWithValidator blank v r = affixValidator blank (prefix (ru_prefix r)) (''starts_with'', JStr (ru_prefix r)) v"

definition endsWithValidator :: "(jsval \<Rightarrow> bool) \<Rightarrow> jsval \<Rightarrow> rule_opts \<Rightarrow> string \<Rightarrow> field_error option result" where
  "endsWithValidator blank v r = affixValidator blank (suffix (ru_suffix r)) (''ends_with'', JStr (ru_suffix r)) v"

type_synonym validator = "jsval \<Rightarrow> rule_opts \<Rightarrow> string \<Rightarrow> field_error option result"

text \<open>The methods by name; \<open>other\<close> has those that are not modelled.\<close>

definition validators :: "(jsval \<Rightarrow> bool) \<Rightarrow> (string \<Rightarrow> validator option) \<Rightarrow> string \<Rightarrow> validator option" where
  "validators blank other rule =
     (if rule = ''length'' then Some (\<lambda>v r type. Inr (lengthValidator blank v r))
      else if rule = ''between'' then Some (\<lambda>v r type. Inr (betweenValidator v r))
      else if rule = ''number'' then Some (\<lambda>v r type. Inr (numberValidator v))
      else if rule = ''accepted'' then Some (\<lambda>v r type. Inr (acceptedValidator v))
      else if rule = ''required'' then Some (requiredValidator blank)
      else if rule = ''startsWith'' then Some (startsWithValidator blank)
      else if rule = ''endsWith'' then Some (endsWithValidator blank)
      else other rule)"

fun validate :: "(string \<Rightarrow> validator option) \<Rightarrow> jsval \<Rightarrow> string \<Rightarrow> (string \<times> rule_opts) list \<Rightarrow> field_error list result" where
  "validate vs v type [] = Inr []"
| "validate vs v type ((rule, r) # rules) =
     (case vs rule of
        None \<Rightarrow> Inl (Error (''Unknown validator: '' @ rule))
      | Some f \<Rightarrow> bind_result (f v r type)
          (\<lambda>e. map_sum id (\<lambda>es. (case e of Some x \<Rightarrow> [x] | None \<Rightarrow> []) @ es) (validate vs v type rules)))"

section \<open>What the rules accept\<close>

lemma validate_errors:
  "validate vs v type rules = Inr es \<longleftrightarrow>
     list_all (\<lambda>(rule, r). \<exists>f e. vs rule = Some f \<and> f v r type = Inr e) rules \<and>
     es = concat (map (\<lambda>(rule, r). case vs rule of
       Some f \<Rightarrow> (case f v r type of Inr (Some e) \<Rightarrow> [e] | _ \<Rightarrow> []) | None \<Rightarrow> []) rules)"
proof (induction rules arbitrary: es)
  case (Cons a rules)
  obtain rule r where a: "a = (rule, r)" by (cases a)
  show ?case
  proof (cases "vs rule")
    case (Some f)
    show ?thesis
    proof (cases "f v r type")
      case (Inr e)
      then show ?thesis using Cons Some a
        by (cases "validate vs v type rules") (auto split: option.splits)
    qed (use Some a in simp)
  qed (use a in simp)
qed auto

text \<open>
  With bounds that are positive numbers, the length and the value of a field are accepted exactly
  when they lie between the bounds.
\<close>

theorem bounds_enforced:
  assumes "ru_max r = JNum hi" "ru_min r = JNum lo" "0 < hi" "0 < lo"
  shows "lengthValidator blank (JStr s) r = None \<longleftrightarrow> blank (JStr s) \<or> (lo \<le> int (length s) \<and> int (length s) \<le> hi)"
    and "betweenValidator (JNum n) r = None \<longleftrightarrow> lo \<le> n \<and> n \<le> hi"
  using assms by (auto simp: lengthValidator_def betweenValidator_def value_length_def)

text \<open>A greatest value of zero is no bound at all.\<close>

lemma zero_is_no_bound: "betweenValidator (JNum 5) \<lparr>ru_max = JNum 0, ru_min = JNum (-5), ru_prefix = [], ru_suffix = [], ru_trim = False\<rparr> = None"
  by (simp add: betweenValidator_def)

end
