(* ===== verification/UserStream.thy ===== *)
theory UserStream
  imports JsString ObjectTools ArrayTools
begin

text \<open>
  The activity of a user: \<open>models/user-action.js\<close>, \<open>models/user-action-group.js\<close> and
  \<open>models/user-stream.js\<close>. Actions on the same post become one row of the stream, with likes, edits and
  bookmarks as its children. An action is an object; \<open>ua_ref\<close> stands for its identity.
\<close>

section \<open>Actions\<close>

record user_action =
  ua_ref :: nat
  ua_topic :: "int option"
  ua_post :: "int option"
  ua_type :: "int option"
  ua_description :: jsval
  ua_username :: jsval
  ua_name :: jsval
  ua_acting_username :: jsval
  ua_acting_name :: jsval
  ua_target_username :: jsval
  ua_reply_to :: "int option"

definition UserActionTypes :: "(string \<times> int) list" where
  "UserActionTypes = [(''likes_given'', 1), (''likes_received'', 2), (''bookmarks'', 3), (''topics'', 4), (''posts'', 5),
     (''replies'', 6), (''mentions'', 7), (''quotes'', 9), (''edits'', 11), (''messages_sent'', 12),
     (''messages_received'', 13), (''links'', 17)]"

definition InvertedActionTypes :: "(string \<times> int) list" where
  "InvertedActionTypes = fold (\<lambda>k m. om_set k (case om_get UserActionTypes k of Some v \<Rightarrow> v | None \<Rightarrow> 0) m) (map fst UserActionTypes) []"

definition TO_COLLAPSE :: "int list" where
  "TO_COLLAPSE = [1, 2, 11, 3]"

definition TO_SHOW :: "int list" where
  "TO_SHOW = [1, 2, 11, 3, 12, 13]"

definition collapses :: "user_action \<Rightarrow> bool" where
  "collapses a = (case ua_type a of Some t \<Rightarrow> t \<in> set TO_COLLAPSE | None \<Rightarrow> False)"

definition or_value :: "jsval \<Rightarrow> jsval \<Rightarrow> jsval" where
  "or_value a b = (if truthy a then a else b)"

definition switchToActing :: "user_action \<Rightarrow> user_action" where
  "switchToActing a = a\<lparr>ua_username := ua_acting_username a, ua_name := or_value (ua_acting_name a) (ua_acting_username a)\<rparr>"

definition descriptionKey :: "jsval \<Rightarrow> user_action \<Rightarrow> string option" where
  "descriptionKey me a =
     (let same = (ua_username a = me); target = (ua_target_username a = me); t = ua_type a
      in if t = None \<or> (case t of Some n \<Rightarrow> n \<in> set TO_SHOW | None \<Rightarrow> False)
         then (if t = Some 12 \<or> t = Some 13
               then Some (if same then ''sent_by_you'' else ''sent_by_user'')
               else Some (if same then ''posted_by_you'' else ''posted_by_user''))
         else if t = Some 4 then Some (if same then ''you_posted_topic'' else ''user_posted_topic'')
         else if t = Some 5 \<or> t = Some 6
         then (if ua_reply_to a \<noteq> None \<and> ua_reply_to a \<noteq> Some 0
               then Some (if same then ''you_replied_to_post'' else ''user_replied_to_post'')
               else Some (if same then ''you_replied_to_topic'' else ''user_replied_to_topic''))
         else if t = Some 7
         then Some (if same then ''you_mentioned_user'' else if target then ''user_mentioned_you'' else ''user_mentioned_user'')
         else None)"

section \<open>Rows\<close>

datatype bucket = Likes | Stars | Edits | Bookmarks

definition all_buckets :: "bucket list" where
  "all_buckets = [Likes, Stars, Edits, Bookmarks]"

definition bucket_of :: "user_action \<Rightarrow> bucket option" where
  "bucket_of a =
     (if ua_type a = Some 1 \<or> ua_type a = Some 2 then Some Likes
      else if ua_type a = Some 11 then Some Edits
      else if ua_type a = Some 3 then Some Bookmarks else None)"

text \<open>A row: an action, and its groups, once it has any. A group has no items before the first one.\<close>

record stream_row =
  row_action :: user_action
  row_groups :: "(bucket \<Rightarrow> user_action list option) option"

definition push_item :: "user_action \<Rightarrow> user_action list option \<Rightarrow> user_action list option" where
  "push_item a items = Some ((case items of Some xs \<Rightarrow> xs | None \<Rightarrow> []) @ [a])"

definition addChild :: "user_action \<Rightarrow> stream_row \<Rightarrow> stream_row" where
  "addChild a r =
     (let groups = (case row_groups r of Some g \<Rightarrow> g | None \<Rightarrow> (\<lambda>b. None))
      in r\<lparr>row_groups := Some (case bucket_of a of Some b \<Rightarrow> groups(b := push_item a (groups b)) | None \<Rightarrow> groups)\<rparr>)"

definition row_items :: "stream_row \<Rightarrow> bucket \<Rightarrow> user_action list" where
  "row_items r b = (case row_groups r of Some g \<Rightarrow> (case g b of Some xs \<Rightarrow> xs | None \<Rightarrow> []) | None \<Rightarrow> [])"

definition row_children :: "stream_row \<Rightarrow> user_action list list" where
  "row_children r = filter (\<lambda>xs. xs \<noteq> []) (map (row_items r) all_buckets)"

definition key_part :: "int option \<Rightarrow> string" where
  "key_part n = (case n of Some i \<Rightarrow> show_int i | None \<Rightarrow> ''null'')"

definition action_key :: "user_action \<Rightarrow> string" where
  "action_key a = key_part (ua_topic a) @ ''-'' @ key_part (ua_post a)"

definition collapse_step ::
    "user_action \<Rightarrow> (string, nat) omap \<times> stream_row list \<Rightarrow> (string, nat) omap \<times> stream_row list" where
  "collapse_step a s =
     (let (uniq, rows) = s
      in case om_get uniq (action_key a) of
           None \<Rightarrow>
             (om_set (action_key a) (length rows) uniq,
              rows @ [if collapses a then addChild (switchToActing a) \<lparr>row_action = a, row_groups = None\<rparr>
                      else \<lparr>row_action = a, row_groups = None\<rparr>])
         | Some i \<Rightarrow>
             (uniq,
              rows[i := if collapses a then addChild (switchToActing a) (rows ! i)
                        else (rows ! i)\<lparr>row_action := (row_action (rows ! i))
                               \<lparr>ua_type := ua_type a, ua_description := ua_description a\<rparr>\<rparr>]))"

definition collapseStream :: "user_action list \<Rightarrow> stream_row list" where
  "collapseStream stream = snd (fold collapse_step stream ([], []))"

section \<open>The stream\<close>

record user_stream =
  us_acting :: "string option"
  us_last_url :: "string option"
  us_loaded :: bool
  us_loading :: bool
  us_items :: nat
  us_content :: "stream_row list"
  us_filter :: "int option"

definition new_stream :: user_stream where
  "new_stream = \<lparr>us_acting = None, us_last_url = None, us_loaded = False, us_loading = False, us_items = 0,
     us_content = [], us_filter = None\<rparr>"

definition filterParam :: "int option \<Rightarrow> string" where
  "filterParam f = (if f = Some 6 then ''6,9'' else case f of Some n \<Rightarrow> if n = 0 then ''4,5'' else show_int n | None \<Rightarrow> ''4,5'')"

text \<open>The address of the next page; \<open>base\<close> is the computed \<open>baseUrl\<close> for the number of items loaded.\<close>

definition nextFindUrl :: "(nat \<Rightarrow> string) \<Rightarrow> user_stream \<Rightarrow> string" where
  "nextFindUrl base s =
     base (us_items s) @ ''&filter='' @ filterParam (us_filter s) @
     (case us_acting s of Some (c # cs) \<Rightarrow> ''&acting_username='' @ (c # cs) | _ \<Rightarrow> [])"

definition noContent :: "user_stream \<Rightarrow> bool" where
  "noContent s \<longleftrightarrow> us_loaded s \<and> us_content s = []"

definition canLoadMore :: "(nat \<Rightarrow> string) \<Rightarrow> user_stream \<Rightarrow> bool" where
  "canLoadMore base s \<longleftrightarrow> Some (nextFindUrl base s) \<noteq> us_last_url s"

text \<open>\<open>findItems\<close> up to its request: the address asked for, if any.\<close>

definition find_items :: "(nat \<Rightarrow> string) \<Rightarrow> user_stream \<Rightarrow> string option \<times> user_stream" where
  "find_items base s =
     (if us_loading s \<or> \<not> canLoadMore base s then (None, s)
      else (Some (nextFindUrl base s), s\<lparr>us_loading := True\<rparr>))"

text \<open>And from its answer: the actions of the page, or nothing when it failed.\<close>

definition items_found :: "string \<Rightarrow> user_action list option \<Rightarrow> user_stream \<Rightarrow> user_stream" where
  "items_found url page s =
     (let s1 = (case page of
                  Some actions \<Rightarrow> s\<lparr>us_content := us_content s @ collapseStream actions, us_items := us_items s + length actions\<rparr>
                | None \<Rightarrow> s)
      in s1\<lparr>us_loaded := True, us_loading := False, us_last_url := Some url\<rparr>)"

text \<open>The options give a filter, an acting user, both or none.\<close>

definition filterBy ::
    "(nat \<Rightarrow> string) \<Rightarrow> int option option \<Rightarrow> string option option \<Rightarrow> user_stream \<Rightarrow> string option \<times> user_stream" where
  "filterBy base f acting s =
     find_items base (s\<lparr>us_items := 0, us_content := [], us_last_url := None,
       us_filter := (case f of Some x \<Rightarrow> x | None \<Rightarrow> us_filter s),
       us_acting := (case acting of Some x \<Rightarrow> x | None \<Rightarrow> us_acting s)\<rparr>)"

definition remove_child :: "user_action \<Rightarrow> stream_row \<Rightarrow> stream_row" where
  "remove_child a r =
     r\<lparr>row_groups := map_option (\<lambda>g b. map_option (filter (\<lambda>x. ua_ref x \<noteq> ua_ref a)) (g b)) (row_groups r)\<rparr>"

definition remove_action :: "user_action \<Rightarrow> user_stream \<Rightarrow> user_stream" where
  "remove_action a s =
     (let rows = filter (\<lambda>r. list_ex (\<lambda>b. row_items r b \<noteq> []) all_buckets) (map (remove_child a) (us_content s))
      in s\<lparr>us_content := rows, us_items := length rows\<rparr>)"

section \<open>What collapsing keeps\<close>

definition row_key :: "stream_row \<Rightarrow> string" where
  "row_key r = action_key (row_action r)"

text \<open>The keys in the order in which they first appear.\<close>

definition first_keys :: "string list \<Rightarrow> string list" where
  "first_keys ks = fold (\<lambda>k acc. if k \<in> set acc then acc else acc @ [k]) ks []"

lemma first_keys_snoc: "first_keys (ks @ [k]) = (if k \<in> set (first_keys ks) then first_keys ks else first_keys ks @ [k])"
  by (simp add: first_keys_def)

lemma set_first_keys [simp]: "set (first_keys ks) = set ks"
  by (induction ks rule: rev_induct) (auto simp: first_keys_snoc, simp add: first_keys_def)

definition bucket_items :: "string \<Rightarrow> bucket \<Rightarrow> user_action list \<Rightarrow> user_action list" where
  "bucket_items k b as = map switchToActing (filter (\<lambda>a. action_key a = k \<and> bucket_of a = Some b) as)"

definition collapse_inv :: "user_action list \<Rightarrow> (string, nat) omap \<times> stream_row list \<Rightarrow> bool" where
  "collapse_inv as s \<longleftrightarrow>
     map row_key (snd s) = first_keys (map action_key as) \<and>
     (\<forall>k i. om_get (fst s) k = Some i \<longleftrightarrow> i < length (snd s) \<and> row_key (snd s ! i) = k) \<and>
     (\<forall>i < length (snd s). \<forall>b. row_items (snd s ! i) b = bucket_items (row_key (snd s ! i)) b as)"

lemma bucket_switch [simp]: "bucket_of (switchToActing a) = bucket_of a"
  by (simp add: bucket_of_def switchToActing_def)

lemma collapses_bucket: "collapses a \<longleftrightarrow> bucket_of a \<noteq> None"
  by (auto simp: collapses_def bucket_of_def TO_COLLAPSE_def split: option.splits)

lemma row_items_addChild: "row_items (addChild a r) b = row_items r b @ (if bucket_of a = Some b then [a] else [])"
  by (auto simp: row_items_def addChild_def push_item_def Let_def split: option.splits)

lemma row_simps [simp]:
  "row_key (addChild a r) = row_key r"
  "row_items (r\<lparr>row_action := x\<rparr>) b = row_items r b"
  "row_items \<lparr>row_action = x, row_groups = None\<rparr> b = []"
  "row_key (r\<lparr>row_action := (row_action r)\<lparr>ua_type := t, ua_description := d\<rparr>\<rparr>) = row_key r"
  "row_key \<lparr>row_action = x, row_groups = g\<rparr> = action_key x"
  by (simp_all add: row_key_def addChild_def row_items_def action_key_def Let_def)

lemma bucket_items_snoc:
  "bucket_items k b (as @ [a]) = bucket_items k b as @ (if action_key a = k \<and> bucket_of a = Some b then [switchToActing a] else [])"
  by (simp add: bucket_items_def)

lemma bucket_items_new: "k \<notin> set (map action_key as) \<Longrightarrow> bucket_items k b as = []"
  by (auto simp: bucket_items_def filter_empty_conv)

lemma collapse_inv_step:
  assumes "collapse_inv as (uniq, rows)"
  shows "collapse_inv (as @ [a]) (collapse_step a (uniq, rows))"
proof -
  have keys: "map row_key rows = first_keys (map action_key as)"
    and ix: "\<And>k i. om_get uniq k = Some i \<longleftrightarrow> i < length rows \<and> row_key (rows ! i) = k"
    and items: "\<And>i b. i < length rows \<Longrightarrow> row_items (rows ! i) b = bucket_items (row_key (rows ! i)) b as"
    using assms by (auto simp: collapse_inv_def)
  have seen: "action_key a \<in> set (map action_key as) \<longleftrightarrow> om_get uniq (action_key a) \<noteq> None"
  proof -
    have "action_key a \<in> set (map action_key as) \<longleftrightarrow> action_key a \<in> row_key ` set rows"
      using arg_cong [OF keys, of set] by auto
    also have "\<dots> \<longleftrightarrow> (\<exists>i < length rows. row_key (rows ! i) = action_key a)" by (auto simp: in_set_conv_nth) (metis image_eqI nth_mem)+
    finally show ?thesis using ix by auto
  qed
  show ?thesis
  proof (cases "om_get uniq (action_key a)")
    case None
    let ?r = "if collapses a then addChild (switchToActing a) \<lparr>row_action = a, row_groups = None\<rparr> else \<lparr>row_action = a, row_groups = None\<rparr>"
    have new: "action_key a \<notin> set (map action_key as)" using seen None by simp
    have step: "collapse_step a (uniq, rows) = (om_set (action_key a) (length rows) uniq, rows @ [?r])"
      using None by (simp add: collapse_step_def)
    have k: "row_key ?r = action_key a" by simp
    have r: "row_items ?r b = bucket_items (action_key a) b (as @ [a])" for b
      using bucket_items_new [OF new, of b] by (auto simp: bucket_items_snoc row_items_addChild collapses_bucket)
    have old: "row_key (rows ! i) \<noteq> action_key a" if "i < length rows" for i
      using ix [of "action_key a" i] None that by auto
    define row where "row = ?r"
    note k = k [folded row_def] and r = r [folded row_def] and step = step [folded row_def]
    have it: "row_items ((rows @ [row]) ! i) b = bucket_items (row_key ((rows @ [row]) ! i)) b (as @ [a])" if "i < Suc (length rows)" for i b
      using that r k items [of i b] old [of i] by (cases "i = length rows") (auto simp: nth_append bucket_items_snoc)
    have "om_get (om_set (action_key a) (length rows) uniq) j = Some i \<longleftrightarrow> i < Suc (length rows) \<and> row_key ((rows @ [row]) ! i) = j" for i j
      using ix [of j i] k old [of i] by (cases "i = length rows") (auto simp: nth_append)
    then show ?thesis unfolding step collapse_inv_def
      using keys new k it by (simp add: first_keys_snoc)
  next
    case (Some i)
    let ?r = "if collapses a then addChild (switchToActing a) (rows ! i)
      else (rows ! i)\<lparr>row_action := (row_action (rows ! i))\<lparr>ua_type := ua_type a, ua_description := ua_description a\<rparr>\<rparr>"
    have i: "i < length rows" "row_key (rows ! i) = action_key a" using ix Some by blast+
    have step: "collapse_step a (uniq, rows) = (uniq, rows[i := ?r])" using Some by (simp add: collapse_step_def)
    have k: "row_key ?r = action_key a" using i(2) by simp
    have ks: "row_key (rows[i := ?r] ! j) = row_key (rows ! j)" for j using k i by (cases "j = i") simp_all
    then have mk: "map row_key (rows[i := ?r]) = map row_key rows" by (intro nth_equalityI) simp_all
    have old: "row_key (rows ! j) \<noteq> action_key a" if "j < length rows" "j \<noteq> i" for j
      using ix [of "action_key a" j] Some that by auto
    have r: "row_items ?r b = bucket_items (action_key a) b (as @ [a])" for b
      using items [OF i(1), of b] i(2) by (auto simp: bucket_items_snoc row_items_addChild collapses_bucket)
    have it: "row_items (rows[i := ?r] ! j) b = bucket_items (row_key (rows ! j)) b (as @ [a])" if "j < length rows" for j b
      using r items [OF that, of b] old [OF that] i that by (cases "j = i") (simp_all add: bucket_items_snoc)
    show ?thesis unfolding step collapse_inv_def
      using keys ix seen Some it by (simp add: mk ks first_keys_snoc)
  qed
qed

text \<open>
  C26. Collapsing a page of actions gives one row for each post, in the order in which the posts first
  appear, and below it the likes, edits and bookmarks of that post, each once and in order.
\<close>

theorem collapse_keeps:
  "map row_key (collapseStream as) = first_keys (map action_key as) \<and>
   map (\<lambda>r. row_items r b) (collapseStream as) = map (\<lambda>k. bucket_items k b as) (first_keys (map action_key as))"
proof -
  have "collapse_inv as (fold collapse_step as ([], []))"
  proof (induction as rule: rev_induct)
    case Nil
    then show ?case by (simp add: collapse_inv_def first_keys_def)
  next
    case (snoc a as)
    then show ?case using collapse_inv_step [of as "fst (fold collapse_step as ([], []))" "snd (fold collapse_step as ([], []))" a] by simp
  qed
  then have k: "map row_key (collapseStream as) = first_keys (map action_key as)"
    and i: "i < length (collapseStream as) \<Longrightarrow> row_items (collapseStream as ! i) b = bucket_items (row_key (collapseStream as ! i)) b as" for i
    by (auto simp: collapse_inv_def collapseStream_def)
  have "map (\<lambda>r. row_items r b) (collapseStream as) = map (\<lambda>k. bucket_items k b as) (map row_key (collapseStream as))"
    using i by (intro nth_equalityI) simp_all
  then show ?thesis using k by simp
qed

section \<open>Loading pages\<close>

text \<open>A page that brings nothing is the end of the stream.\<close>

lemma empty_page_ends: "find_items base s = (Some url, t) \<Longrightarrow> \<not> canLoadMore base (items_found url (Some []) t)"
  by (auto simp: find_items_def items_found_def canLoadMore_def nextFindUrl_def collapseStream_def split: if_splits)

text \<open>So is a request that fails: the page cannot be asked for again.\<close>

lemma failed_page_ends:
  assumes "find_items base s = (Some url, t)"
  shows "find_items base (items_found url None t) = (None, items_found url None t)"
  using assms by (auto simp: find_items_def items_found_def canLoadMore_def nextFindUrl_def split: if_splits)

text \<open>While a page is loading another filter asks for nothing, and the page then goes to the new filter.\<close>

lemma filter_while_loading:
  assumes "us_loading s"
  shows "fst (filterBy base f acting s) = None \<and>
    us_content (items_found url (Some page) (snd (filterBy base f acting s))) = collapseStream page"
  using assms by (simp add: filterBy_def find_items_def items_found_def)

text \<open>A row without children is lost when any action is removed, and loading goes on from the number of rows.\<close>

lemma childless_row_lost:
  "row_groups r = None \<Longrightarrow> us_content s = [r] \<Longrightarrow> us_content (remove_action a s) = []"
  by (simp add: remove_action_def remove_child_def row_items_def all_buckets_def Let_def)

lemma items_after_removal: "us_items (remove_action a s) = length (us_content (remove_action a s))"
  by (simp add: remove_action_def Let_def)

lemma types_not_inverted: "InvertedActionTypes = UserActionTypes"
  by (simp add: InvertedActionTypes_def UserActionTypes_def)

end
