(* ===== verification/PostSelection.thy ===== *)
theory PostSelection
  imports JsPrelude
begin

text \<open>
  \<open>lib/post-bulk-select-helper.js\<close>: choosing several posts, one by one, by a range or all of them. What
  it promises is a set of ids.
\<close>

record bulk_post =
  bp_id :: jsval
  bp_post_id :: jsval
  bp_draft_key :: jsval

definition getPostId :: "bulk_post \<Rightarrow> jsval" where
  "getPostId p = (if truthy (bp_id p) then bp_id p else if truthy (bp_post_id p) then bp_post_id p else bp_draft_key p)"

record selection =
  bk_loading :: bool
  bk_last :: "bulk_post option"
  bk_enabled :: bool
  bk_posts :: "bulk_post list option"
  bk_selected :: "bulk_post list"

definition new_selection :: "bulk_post list option \<Rightarrow> selection" where
  "new_selection ps = \<lparr>bk_loading = False, bk_last = None, bk_enabled = False, bk_posts = ps, bk_selected = []\<rparr>"

definition selected_ids :: "selection \<Rightarrow> jsval list" where
  "selected_ids s = map getPostId (bk_selected s)"

definition isSelected :: "bulk_post \<Rightarrow> selection \<Rightarrow> bool" where
  "isSelected p s = list_ex (\<lambda>q. getPostId q = getPostId p) (bk_selected s)"

definition selectedCount :: "selection \<Rightarrow> nat" where
  "selectedCount s = length (bk_selected s)"

definition hasSelection :: "selection \<Rightarrow> bool" where
  "hasSelection s \<longleftrightarrow> length (bk_selected s) > 0"

definition allSelected :: "selection \<Rightarrow> bool" where
  "allSelected s = (case bk_posts s of Some ps \<Rightarrow> length (bk_selected s) = length ps | None \<Rightarrow> False)"

definition cleanupStaleSelections :: "selection \<Rightarrow> selection" where
  "cleanupStaleSelections s =
     (case bk_posts s of
        None \<Rightarrow> s\<lparr>bk_selected := []\<rparr>
      | Some ps \<Rightarrow>
          (let ids = set (map getPostId ps); valid = filter (\<lambda>p. getPostId p \<in> ids) (bk_selected s)
           in if length valid \<noteq> length (bk_selected s)
              then s\<lparr>bk_selected := valid,
                     bk_last := (case bk_last s of Some p \<Rightarrow> if getPostId p \<in> ids then Some p else None | None \<Rightarrow> None)\<rparr>
              else s))"

definition updatePosts :: "bulk_post list option \<Rightarrow> selection \<Rightarrow> selection" where
  "updatePosts ps s = cleanupStaleSelections (s\<lparr>bk_posts := ps\<rparr>)"

definition selectPost :: "bulk_post \<Rightarrow> selection \<Rightarrow> selection" where
  "selectPost p s = (if isSelected p s then s else s\<lparr>bk_selected := bk_selected s @ [p]\<rparr>)"

fun remove_first :: "jsval \<Rightarrow> bulk_post list \<Rightarrow> bulk_post list" where
  "remove_first i [] = []"
| "remove_first i (p # ps) = (if getPostId p = i then ps else p # remove_first i ps)"

definition deselectPost :: "bulk_post \<Rightarrow> selection \<Rightarrow> selection" where
  "deselectPost p s = s\<lparr>bk_selected := remove_first (getPostId p) (bk_selected s)\<rparr>"

fun post_index :: "jsval \<Rightarrow> bulk_post list \<Rightarrow> nat option" where
  "post_index i [] = None"
| "post_index i (p # ps) = (if getPostId p = i then Some 0 else map_option Suc (post_index i ps))"

definition between_posts :: "nat \<Rightarrow> nat \<Rightarrow> bulk_post list \<Rightarrow> bulk_post list" where
  "between_posts a b ps = map (\<lambda>i. ps ! i) [min a b..<Suc (max a b)]"

definition selectRange :: "bulk_post \<Rightarrow> bulk_post \<Rightarrow> selection \<Rightarrow> selection" where
  "selectRange p q s =
     (case bk_posts s of
        None \<Rightarrow> s
      | Some ps \<Rightarrow>
          (case (post_index (getPostId p) ps, post_index (getPostId q) ps) of
             (Some a, Some b) \<Rightarrow> (fold selectPost (between_posts a b ps) s)\<lparr>bk_last := Some q\<rparr>
           | _ \<Rightarrow> s))"

definition togglePost :: "bool \<Rightarrow> bulk_post \<Rightarrow> selection \<Rightarrow> selection" where
  "togglePost shiftKey p s =
     (case (shiftKey, bk_last s, bk_posts s) of
        (True, Some l, Some ps) \<Rightarrow> selectRange l p s
      | _ \<Rightarrow> (if isSelected p s then deselectPost p s else selectPost p s)\<lparr>bk_last := Some p\<rparr>)"

definition selectAll :: "selection \<Rightarrow> selection" where
  "selectAll s = (case bk_posts s of Some ps \<Rightarrow> s\<lparr>bk_selected := ps\<rparr> | None \<Rightarrow> s)"

definition clearAll :: "selection \<Rightarrow> selection" where
  "clearAll s = s\<lparr>bk_selected := [], bk_last := None\<rparr>"

definition toggleBulkSelect :: "selection \<Rightarrow> selection" where
  "toggleBulkSelect s = clearAll (s\<lparr>bk_enabled := \<not> bk_enabled s\<rparr>)"

text \<open>\<open>performBulkAction\<close> up to its action, and from its end.\<close>

definition bulk_start :: "selection \<Rightarrow> bulk_post list option \<times> selection" where
  "bulk_start s = (if \<not> hasSelection s then (None, s) else (Some (bk_selected s), s\<lparr>bk_loading := True\<rparr>))"

definition bulk_done :: "bool \<Rightarrow> selection \<Rightarrow> selection" where
  "bulk_done ok s = (if ok then clearAll s else s)\<lparr>bk_loading := False\<rparr>"

section \<open>A set of ids\<close>

datatype bulk_call =
    Update_posts "bulk_post list option" | Toggle_post bool bulk_post | Select_all | Clear_all | Toggle_bulk
  | Bulk_start | Bulk_done bool

fun bulk_step :: "bulk_call \<Rightarrow> selection \<Rightarrow> selection" where
  "bulk_step (Update_posts ps) s = updatePosts ps s"
| "bulk_step (Toggle_post shift p) s = togglePost shift p s"
| "bulk_step Select_all s = selectAll s"
| "bulk_step Clear_all s = clearAll s"
| "bulk_step Toggle_bulk s = toggleBulkSelect s"
| "bulk_step Bulk_start s = snd (bulk_start s)"
| "bulk_step (Bulk_done ok) s = bulk_done ok s"

text \<open>What each call does to the set of chosen ids.\<close>

fun chosen_after :: "bulk_call \<Rightarrow> selection \<Rightarrow> jsval set \<Rightarrow> jsval set" where
  "chosen_after (Update_posts None) s ids = {}"
| "chosen_after (Update_posts (Some ps)) s ids = ids \<inter> getPostId ` set ps"
| "chosen_after (Toggle_post shift p) s ids =
     (case (shift, bk_last s, bk_posts s) of
        (True, Some l, Some ps) \<Rightarrow>
          (case (post_index (getPostId l) ps, post_index (getPostId p) ps) of
             (Some a, Some b) \<Rightarrow> ids \<union> getPostId ` set (take (Suc (max a b) - min a b) (drop (min a b) ps))
           | _ \<Rightarrow> ids)
      | _ \<Rightarrow> if getPostId p \<in> ids then ids - {getPostId p} else insert (getPostId p) ids)"
| "chosen_after Select_all s ids = (case bk_posts s of Some ps \<Rightarrow> getPostId ` set ps | None \<Rightarrow> ids)"
| "chosen_after Clear_all s ids = {}"
| "chosen_after Toggle_bulk s ids = {}"
| "chosen_after Bulk_start s ids = ids"
| "chosen_after (Bulk_done ok) s ids = (if ok then {} else ids)"

definition distinct_posts :: "bulk_post list option \<Rightarrow> bool" where
  "distinct_posts ps = (case ps of Some xs \<Rightarrow> distinct (map getPostId xs) | None \<Rightarrow> True)"

fun call_ok :: "bulk_call \<Rightarrow> bool" where
  "call_ok (Update_posts ps) = distinct_posts ps"
| "call_ok _ = True"

definition selection_ok :: "selection \<Rightarrow> bool" where
  "selection_ok s \<longleftrightarrow> distinct (selected_ids s) \<and> distinct_posts (bk_posts s)"

lemma isSelected_ids: "isSelected p s \<longleftrightarrow> getPostId p \<in> set (selected_ids s)"
  unfolding isSelected_def selected_ids_def list_ex_iff set_map image_iff by metis

lemma selectPost_ids:
  "set (selected_ids (selectPost p s)) = insert (getPostId p) (set (selected_ids s))"
  "distinct (selected_ids s) \<Longrightarrow> distinct (selected_ids (selectPost p s))"
  "bk_posts (selectPost p s) = bk_posts s"
  using isSelected_ids [of p s] by (auto simp: selectPost_def selected_ids_def)

lemma selectPosts_ids:
  "set (selected_ids (fold selectPost ps s)) = set (selected_ids s) \<union> getPostId ` set ps \<and>
   (distinct (selected_ids s) \<longrightarrow> distinct (selected_ids (fold selectPost ps s))) \<and> bk_posts (fold selectPost ps s) = bk_posts s"
  by (induction ps arbitrary: s) (auto simp: selectPost_ids)

lemma remove_first_ids: "distinct (map getPostId ps) \<Longrightarrow>
   set (map getPostId (remove_first i ps)) = set (map getPostId ps) - {i} \<and> distinct (map getPostId (remove_first i ps))"
proof (induction ps)
  case (Cons p ps)
  then have "getPostId p \<notin> set (map getPostId ps)" by simp
  with Cons show ?case by (cases "getPostId p = i") auto
qed simp

lemma deselectPost_ids:
  "distinct (selected_ids s) \<Longrightarrow>
   set (selected_ids (deselectPost p s)) = set (selected_ids s) - {getPostId p} \<and> distinct (selected_ids (deselectPost p s))"
  using remove_first_ids by (simp add: deselectPost_def selected_ids_def)

lemma post_index_less: "post_index i ps = Some n \<Longrightarrow> n < length ps"
  by (induction ps arbitrary: n) (auto split: if_splits)

lemma between_posts_slice:
  assumes "a < length ps" "b < length ps"
  shows "set (between_posts a b ps) = set (take (Suc (max a b) - min a b) (drop (min a b) ps))"
proof -
  have "between_posts a b ps = take (Suc (max a b) - min a b) (drop (min a b) ps)"
    unfolding between_posts_def using assms by (intro nth_equalityI) (auto simp del: upt_Suc)
  then show ?thesis by simp
qed

lemma ids_simps [simp]:
  "selected_ids (s\<lparr>bk_last := l\<rparr>) = selected_ids s" "selected_ids (s\<lparr>bk_loading := b\<rparr>) = selected_ids s"
  "selected_ids (s\<lparr>bk_posts := ps\<rparr>) = selected_ids s" "selected_ids (s\<lparr>bk_selected := xs\<rparr>) = map getPostId xs"
  by (simp_all add: selected_ids_def)

lemma filter_all: "length (filter P xs) = length xs \<Longrightarrow> x \<in> set xs \<Longrightarrow> P x"
  using length_filter_less [of x xs P] by fastforce

lemma update_ids:
  assumes "selection_ok s" "distinct_posts ps"
  shows "set (selected_ids (updatePosts ps s)) = chosen_after (Update_posts ps) s (set (selected_ids s)) \<and> selection_ok (updatePosts ps s)"
proof (cases ps)
  case None
  then show ?thesis using assms by (simp add: updatePosts_def cleanupStaleSelections_def selection_ok_def distinct_posts_def)
next
  case (Some xs)
  let ?P = "\<lambda>p. getPostId p \<in> set (map getPostId xs)"
  have d: "distinct (map getPostId (filter ?P (bk_selected s)))"
    using assms by (auto simp: selection_ok_def selected_ids_def distinct_map inj_on_def)
  have "set (map getPostId (filter ?P (bk_selected s))) = set (selected_ids s) \<inter> getPostId ` set xs"
    by (auto simp: selected_ids_def)
  moreover have "set (selected_ids s) \<subseteq> getPostId ` set xs" if "length (filter ?P (bk_selected s)) = length (bk_selected s)"
    using filter_all [OF that] by (auto simp: selected_ids_def)
  ultimately show ?thesis using assms d Some
    by (cases "length (filter ?P (bk_selected s)) = length (bk_selected s)")
      (simp_all add: updatePosts_def cleanupStaleSelections_def selection_ok_def Let_def inf.absorb1)
qed

lemma bulk_step_refines:
  assumes "selection_ok s" "call_ok c"
  shows "set (selected_ids (bulk_step c s)) = chosen_after c s (set (selected_ids s)) \<and> selection_ok (bulk_step c s)"
proof (cases c)
  case (Update_posts ps)
  then show ?thesis using update_ids [of s ps] assms by simp
next
  case (Toggle_post shift p)
  have range: "set (selected_ids (selectRange l p s)) = chosen_after (Toggle_post True p) s (set (selected_ids s)) \<and>
      selection_ok (selectRange l p s)" if "bk_last s = Some l" "bk_posts s = Some ps" for l ps
    using that assms selectPosts_ids [of "between_posts a b ps" s for a b] between_posts_slice
    by (auto simp: selectRange_def selection_ok_def split: option.splits dest!: post_index_less)
  have one: "set (selected_ids (if isSelected p s then deselectPost p s else selectPost p s)) =
      (if getPostId p \<in> set (selected_ids s) then set (selected_ids s) - {getPostId p} else insert (getPostId p) (set (selected_ids s))) \<and>
      selection_ok (if isSelected p s then deselectPost p s else selectPost p s)"
    using assms deselectPost_ids [of s p] selectPost_ids(1,3) [of p s] selectPost_ids(2) [of s p] isSelected_ids [of p s]
    by (auto simp: selection_ok_def deselectPost_def)
  show ?thesis
  proof (cases "shift \<and> bk_last s \<noteq> None \<and> bk_posts s \<noteq> None")
    case True
    then show ?thesis using range Toggle_post by (auto simp: togglePost_def)
  next
    case False
    then show ?thesis using one Toggle_post
      by (auto simp: togglePost_def selection_ok_def split: bool.splits option.splits)
  qed
next
  case Select_all
  then show ?thesis using assms by (auto simp: selectAll_def selection_ok_def distinct_posts_def split: option.split)
next
  case Bulk_start
  then show ?thesis using assms by (simp add: bulk_start_def selection_ok_def)
qed (use assms in \<open>auto simp: clearAll_def toggleBulkSelect_def bulk_done_def selection_ok_def\<close>)

fun chosen_ids :: "bulk_call list \<Rightarrow> selection \<Rightarrow> jsval set \<Rightarrow> jsval set" where
  "chosen_ids [] s ids = ids"
| "chosen_ids (c # cs) s ids = chosen_ids cs (bulk_step c s) (chosen_after c s ids)"

text \<open>
  C33. However posts are clicked, with and without the shift key, chosen all, cleared, or replaced by
  others, the selected posts are, each once, the ones whose ids the set of chosen ids has; no given
  list of posts has an id twice.
\<close>

theorem selection_refines:
  assumes "distinct_posts ps" "list_all call_ok cs"
  shows "distinct (selected_ids (fold bulk_step cs (new_selection ps))) \<and>
    set (selected_ids (fold bulk_step cs (new_selection ps))) = chosen_ids cs (new_selection ps) {}"
proof -
  have "selection_ok s \<Longrightarrow> list_all call_ok cs \<Longrightarrow>
      selection_ok (fold bulk_step cs s) \<and> set (selected_ids (fold bulk_step cs s)) = chosen_ids cs s (set (selected_ids s))" for s
    by (induction cs arbitrary: s) (use bulk_step_refines in auto)
  moreover have "selection_ok (new_selection ps)" "selected_ids (new_selection ps) = []"
    using assms(1) by (simp_all add: selection_ok_def new_selection_def selected_ids_def)
  ultimately show ?thesis using assms(2) unfolding selection_ok_def by (metis list.set(1))
qed

definition demo_post :: "int \<Rightarrow> bulk_post" where
  "demo_post n = \<lparr>bp_id = JNum n, bp_post_id = JUndef, bp_draft_key = JUndef\<rparr>"

theorem selection_refines_witness:
  "set (selected_ids (fold bulk_step [Toggle_post False (demo_post 1), Toggle_post True (demo_post 3)]
     (new_selection (Some (map demo_post [1, 2, 3, 4]))))) = {JNum 1, JNum 2, JNum 3}"
  using selection_refines [of "Some (map demo_post [1, 2, 3, 4])" "[Toggle_post False (demo_post 1), Toggle_post True (demo_post 3)]"]
  by (simp add: distinct_posts_def demo_post_def getPostId_def new_selection_def togglePost_def isSelected_def selectPost_def
    deselectPost_def) auto

text \<open>When the post clicked last is gone, a click with the shift key does nothing.\<close>

lemma shift_click_lost:
  "bk_last s = Some l \<Longrightarrow> bk_posts s = Some ps \<Longrightarrow> post_index (getPostId l) ps = None \<Longrightarrow> togglePost True p s = s"
  by (simp add: togglePost_def selectRange_def)

text \<open>And it may be gone without being forgotten: it is forgotten only when a selected post is gone too.\<close>

lemma gone_but_not_forgotten:
  "bk_last (updatePosts (Some []) ((togglePost False p (togglePost False p (new_selection (Some [p])))))) = Some p"
  by (simp add: togglePost_def new_selection_def isSelected_def selectPost_def deselectPost_def updatePosts_def cleanupStaleSelections_def)

end
