(* ===== verification/PostActions.thy ===== *)
theory PostActions
  imports JsPrelude
begin

text \<open>
  What users do to a post: likes and flags (\<open>models/action-summary.js\<close> and the summaries of
  \<open>models/post.js\<close>), and deleting and recovering it (\<open>models/post.js\<close>).

  A summary is an object that a post reaches in three ways: in its list of summaries, by the name of
  the action, and as its like. A heap keeps the objects, and a post the references.
\<close>

section \<open>Summaries\<close>

record action_object =
  sm_id :: int
  sm_name :: string
  sm_count :: int
  sm_acted :: bool
  sm_can_act :: bool
  sm_can_undo :: bool
  sm_flag_topic :: bool

definition canToggle :: "action_object \<Rightarrow> bool" where
  "canToggle a \<longleftrightarrow> sm_can_undo a \<or> sm_can_act a"

record post_actions =
  pa_heap :: "nat \<Rightarrow> action_object"
  pa_next :: nat
  pa_id :: int
  pa_summaries :: "nat list option"
  pa_byName :: "(string, nat) omap"
  pa_like :: "nat option"

definition on_summary :: "nat \<Rightarrow> (action_object \<Rightarrow> action_object) \<Rightarrow> post_actions \<Rightarrow> post_actions" where
  "on_summary r f p = p\<lparr>pa_heap := (pa_heap p)(r := f (pa_heap p r))\<rparr>"

definition removeAction :: "nat \<Rightarrow> post_actions \<Rightarrow> post_actions" where
  "removeAction r = on_summary r (\<lambda>a. a\<lparr>sm_acted := False, sm_count := sm_count a - 1, sm_can_act := True, sm_can_undo := False\<rparr>)"

text \<open>A summary as the server sends it; a count that is missing is zero.\<close>

record raw_summary =
  rw_id :: int
  rw_count :: "int option"
  rw_acted :: bool
  rw_can_act :: bool
  rw_can_undo :: bool

record munged =
  mu_refs :: "nat list"
  mu_byName :: "(string, nat) omap"
  mu_like :: "nat option"

definition summary_of :: "(int \<Rightarrow> string) \<Rightarrow> raw_summary \<Rightarrow> action_object" where
  "summary_of name_key a =
     \<lparr>sm_id = rw_id a, sm_name = name_key (rw_id a), sm_count = (case rw_count a of Some n \<Rightarrow> n | None \<Rightarrow> 0),
      sm_acted = rw_acted a, sm_can_act = rw_can_act a, sm_can_undo = rw_can_undo a, sm_flag_topic = False\<rparr>"

text \<open>\<open>Post.munge\<close>: new objects for the summaries of an answer.\<close>

fun munge :: "(int \<Rightarrow> string) \<Rightarrow> raw_summary list \<Rightarrow> munged \<Rightarrow> post_actions \<Rightarrow> munged \<times> post_actions" where
  "munge name_key [] m p = (m, p)"
| "munge name_key (a # as) m p =
     (let r = pa_next p; s = summary_of name_key a
      in munge name_key as
           \<lparr>mu_refs = mu_refs m @ [r], mu_byName = om_set (sm_name s) r (mu_byName m),
            mu_like = (if sm_name s = ''like'' then Some r else mu_like m)\<rparr>
           (p\<lparr>pa_heap := (pa_heap p)(r := s), pa_next := Suc r\<rparr>))"

definition no_summaries :: munged where
  "no_summaries = \<lparr>mu_refs = [], mu_byName = [], mu_like = None\<rparr>"

text \<open>A post made from an answer reaches the same objects in all three ways.\<close>

definition post_with_actions :: "(int \<Rightarrow> string) \<Rightarrow> int \<Rightarrow> raw_summary list \<Rightarrow> post_actions" where
  "post_with_actions name_key i as =
     (let (m, p) = munge name_key as no_summaries
            \<lparr>pa_heap = (\<lambda>r. summary_of name_key \<lparr>rw_id = 0, rw_count = None, rw_acted = False, rw_can_act = False, rw_can_undo = False\<rparr>),
             pa_next = 0, pa_id = i, pa_summaries = None, pa_byName = [], pa_like = None\<rparr>
      in p\<lparr>pa_summaries := Some (mu_refs m), pa_byName := mu_byName m, pa_like := mu_like m\<rparr>)"

definition updateActionsSummary :: "(int \<Rightarrow> string) \<Rightarrow> (int \<times> raw_summary list option) option \<Rightarrow> post_actions \<Rightarrow> post_actions" where
  "updateActionsSummary name_key json p =
     (case json of
        Some (i, as) \<Rightarrow>
          if i \<noteq> pa_id p then p
          else (case as of
                  Some as \<Rightarrow> (let (m, p1) = munge name_key as no_summaries p in p1\<lparr>pa_summaries := Some (mu_refs m)\<rparr>)
                | None \<Rightarrow> p\<lparr>pa_summaries := None\<rparr>)
      | None \<Rightarrow> p)"

section \<open>Acting\<close>

text \<open>\<open>act\<close> up to its request, and from its answer, which is nothing when the request failed.\<close>

definition act :: "nat \<Rightarrow> post_actions \<Rightarrow> post_actions" where
  "act r = on_summary r (\<lambda>a. a\<lparr>sm_acted := True, sm_count := sm_count a + 1, sm_can_act := False, sm_can_undo := True\<rparr>)"

definition act_answered ::
    "(int \<Rightarrow> string) \<Rightarrow> nat \<Rightarrow> (int \<times> raw_summary list option) option option \<Rightarrow> post_actions \<Rightarrow> post_actions" where
  "act_answered name_key r answer p =
     (case answer of
        Some json \<Rightarrow> if sm_flag_topic (pa_heap p r) then p else updateActionsSummary name_key json p
      | None \<Rightarrow> removeAction r p)"

text \<open>\<open>undo\<close> has no branch for a failed request.\<close>

definition undo :: "nat \<Rightarrow> post_actions \<Rightarrow> post_actions" where
  "undo r = removeAction r"

definition undo_answered ::
    "(int \<Rightarrow> string) \<Rightarrow> (int \<times> raw_summary list option) option option \<Rightarrow> post_actions \<Rightarrow> post_actions" where
  "undo_answered name_key answer p =
     (case answer of Some json \<Rightarrow> updateActionsSummary name_key json p | None \<Rightarrow> p)"

definition toggle :: "nat \<Rightarrow> post_actions \<Rightarrow> bool \<times> post_actions" where
  "toggle r p = (if \<not> sm_acted (pa_heap p r) then (True, act r p) else (False, undo r p))"

section \<open>Likes of others\<close>

text \<open>
  \<open>updateLikeCount\<close>, a message about a like. Assigning the new array to the old one replaces its
  first elements.
\<close>

definition like_object :: "int \<Rightarrow> int \<Rightarrow> bool \<Rightarrow> action_object \<Rightarrow> action_object" where
  "like_object like_id count acted a = a\<lparr>sm_id := like_id, sm_count := count, sm_acted := acted\<rparr>"

definition updateLikeCount ::
    "(int \<Rightarrow> string) \<Rightarrow> int \<Rightarrow> int option \<Rightarrow> int \<Rightarrow> int \<Rightarrow> string \<Rightarrow> post_actions \<Rightarrow> post_actions result" where
  "updateLikeCount name_key like_id me count userId eventType p =
     (let ownAction = (me = Some userId); ownLike = (ownAction \<and> eventType = ''liked'')
      in case pa_summaries p of
           None \<Rightarrow> Inl (TypeError ''find'')
         | Some rs \<Rightarrow>
             (case find (\<lambda>r. sm_id (pa_heap p r) = like_id) rs of
                None \<Rightarrow>
                  (let (m, p1) = munge name_key
                         [\<lparr>rw_id = like_id, rw_count = Some count, rw_acted = ownLike, rw_can_act = False, rw_can_undo = False\<rparr>]
                         no_summaries p
                   in Inr (p1\<lparr>pa_summaries := Some (mu_refs m @ drop (length (mu_refs m)) rs),
                             pa_byName := mu_byName m, pa_like := mu_like m\<rparr>))
              | Some r \<Rightarrow>
                  (case (pa_like p, om_get (pa_byName p) ''like'') of
                     (Some l, Some n) \<Rightarrow>
                       (let acted = ((ownLike \<or> sm_acted (pa_heap p l)) \<and> \<not> (eventType = ''unliked'' \<and> ownAction));
                            upd = like_object like_id count acted
                        in Inr (on_summary l upd (on_summary n upd (on_summary r upd p))))
                   | (Some l, None) \<Rightarrow> Inl (TypeError ''assign'')
                   | (None, _) \<Rightarrow> Inl (TypeError ''acted''))))"

definition liked :: "post_actions \<Rightarrow> bool" where
  "liked p = (case pa_like p of Some r \<Rightarrow> sm_acted (pa_heap p r) | None \<Rightarrow> False)"

definition likeCount :: "post_actions \<Rightarrow> int option" where
  "likeCount p = map_option (\<lambda>r. sm_count (pa_heap p r)) (pa_like p)"

definition canToggleLike :: "post_actions \<Rightarrow> bool" where
  "canToggleLike p = (case pa_like p of Some r \<Rightarrow> canToggle (pa_heap p r) | None \<Rightarrow> False)"

definition showLike :: "bool \<Rightarrow> bool \<Rightarrow> bool \<Rightarrow> post_actions \<Rightarrow> bool" where
  "showLike user archived own p \<longleftrightarrow> \<not> user \<or> archived \<and> \<not> own \<or> pa_like p \<noteq> None \<and> (liked p \<or> canToggleLike p)"

section \<open>Deleting and recovering\<close>

record deletable =
  dp_cooked :: string
  dp_raw :: string
  dp_oldCooked :: "string option"
  dp_deleted_at :: "int option"
  dp_deleted_by :: "string option"
  dp_user_deleted :: bool
  dp_version :: int
  dp_can_delete :: bool
  dp_can_permanently_delete :: bool
  dp_can_recover :: bool
  dp_can_edit :: bool

record delete_env =
  de_by :: string
  de_staff :: bool
  de_admin :: bool
  de_after :: int
  de_permanently :: bool

definition by_staff :: "delete_env \<Rightarrow> bool" where
  "by_staff e \<longleftrightarrow> de_staff e \<or> de_after e = 0"

text \<open>\<open>setDeletedState\<close>; the text that replaces a post deleted by its author comes from \<open>cook\<close>, which is waited for.\<close>

definition setDeletedState :: "delete_env \<Rightarrow> int \<Rightarrow> deletable \<Rightarrow> deletable" where
  "setDeletedState e now p =
     (let p1 = p\<lparr>dp_oldCooked := Some (dp_cooked p)\<rparr>
      in if by_staff e
         then p1\<lparr>dp_deleted_at := Some now, dp_deleted_by := Some (de_by e), dp_can_delete := False,
                 dp_can_permanently_delete := de_permanently e \<and> de_admin e, dp_can_recover := True\<rparr>
         else p1)"

definition author_text_cooked :: "string \<Rightarrow> deletable \<Rightarrow> deletable" where
  "author_text_cooked cooked p =
     p\<lparr>dp_cooked := cooked, dp_can_delete := False, dp_can_permanently_delete := False, dp_version := dp_version p + 1,
       dp_can_recover := True, dp_can_edit := False, dp_user_deleted := True\<rparr>"

definition delete_post :: "delete_env \<Rightarrow> int \<Rightarrow> string \<Rightarrow> deletable \<Rightarrow> deletable" where
  "delete_post e now cooked p =
     (if by_staff e then setDeletedState e now p else author_text_cooked cooked (setDeletedState e now p))"

definition undoDeleteState :: "deletable \<Rightarrow> deletable" where
  "undoDeleteState p =
     (case dp_oldCooked p of
        Some (c # cs) \<Rightarrow>
          p\<lparr>dp_deleted_at := None, dp_deleted_by := None, dp_cooked := c # cs, dp_version := dp_version p - 1,
            dp_can_recover := False, dp_can_delete := True, dp_user_deleted := False\<rparr>
      | _ \<Rightarrow> p)"

definition recover_start :: "deletable \<Rightarrow> deletable" where
  "recover_start p = p\<lparr>dp_deleted_at := None, dp_deleted_by := None, dp_user_deleted := False, dp_can_delete := False\<rparr>"

text \<open>The answer has the cooked and the raw text and the version; a failure restores what was saved before.\<close>

definition recover_answered :: "deletable \<Rightarrow> (string \<times> string \<times> int) option \<Rightarrow> deletable \<Rightarrow> deletable" where
  "recover_answered before answer p =
     (case answer of
        Some (cooked, raw, version) \<Rightarrow>
          p\<lparr>dp_cooked := cooked, dp_raw := raw, dp_user_deleted := False, dp_can_delete := True, dp_version := version\<rparr>
      | None \<Rightarrow>
          p\<lparr>dp_deleted_at := dp_deleted_at before, dp_deleted_by := dp_deleted_by before,
            dp_user_deleted := dp_user_deleted before, dp_can_delete := dp_can_delete before\<rparr>)"

definition canDelete :: "bool \<Rightarrow> bool \<Rightarrow> deletable \<Rightarrow> bool" where
  "canDelete user staff p \<longleftrightarrow> dp_can_delete p \<and> dp_deleted_at p = None \<and> user \<and> (staff \<or> \<not> dp_user_deleted p)"

section \<open>Acting and its answers\<close>

lemmas acting_defs = act_def undo_def removeAction_def on_summary_def

text \<open>A summary that says of an action either that it can be done or that it can be undone.\<close>

definition either_way :: "action_object \<Rightarrow> bool" where
  "either_way a \<longleftrightarrow> sm_can_act a = (\<not> sm_acted a) \<and> sm_can_undo a = sm_acted a"

lemma on_summary_same: "f (pa_heap p r) = pa_heap p r \<Longrightarrow> on_summary r f p = p"
  by (simp add: on_summary_def)

lemma on_summary_twice: "on_summary r f (on_summary r g p) = on_summary r (f \<circ> g) p"
  by (simp add: on_summary_def)

lemma undo_of_act:
  assumes "\<not> sm_acted (pa_heap p r)" "either_way (pa_heap p r)"
  shows "removeAction r (act r p) = p"
  unfolding removeAction_def act_def on_summary_twice
  using assms by (intro on_summary_same) (simp add: either_way_def)

lemma act_of_undo:
  assumes "sm_acted (pa_heap p r)" "either_way (pa_heap p r)"
  shows "act r (removeAction r p) = p"
  unfolding removeAction_def act_def on_summary_twice
  using assms by (intro on_summary_same) (simp add: either_way_def)

lemma toggle_keeps_either_way: "either_way (pa_heap (snd (toggle r p)) r)"
  by (simp add: toggle_def acting_defs either_way_def)

lemma either_way_can_toggle: "either_way a \<Longrightarrow> canToggle a"
  by (auto simp: either_way_def canToggle_def)

lemma toggle_twice:
  assumes "either_way (pa_heap p r)"
  shows "snd (toggle r (snd (toggle r p))) = p"
proof (cases "sm_acted (pa_heap p r)")
  case True
  then have "toggle r p = (False, removeAction r p)" "toggle r (removeAction r p) = (True, act r (removeAction r p))"
    by (simp_all add: toggle_def acting_defs)
  then show ?thesis using act_of_undo [OF True assms] by simp
next
  case False
  then have "toggle r p = (True, act r p)" "toggle r (act r p) = (False, removeAction r (act r p))"
    by (simp_all add: toggle_def acting_defs)
  then show ?thesis using undo_of_act [OF False assms] by simp
qed

text \<open>A like whose request fails leaves the post as it was before, through every way to the summary.\<close>

theorem like_rolls_back:
  assumes "\<not> sm_acted (pa_heap p r)" "either_way (pa_heap p r)"
  shows "act_answered name_key r None (snd (toggle r p)) = p"
  using undo_of_act [OF assms] assms(1) by (simp add: act_answered_def toggle_def)

text \<open>An undone like whose request fails stays undone.\<close>

lemma undo_not_rolled_back:
  assumes "sm_acted (pa_heap p r)"
  shows "\<not> sm_acted (pa_heap (undo_answered name_key None (snd (toggle r p))) r)"
  using assms by (simp add: undo_answered_def toggle_def acting_defs)

section \<open>The ways to a summary\<close>

lemma munge_next: "pa_next (snd (munge name_key as m p)) = pa_next p + length as"
  by (induction as arbitrary: m p) (simp_all add: Let_def)

lemma munge_refs: "mu_refs (fst (munge name_key as m p)) = mu_refs m @ [pa_next p ..< pa_next p + length as]"
proof (induction as arbitrary: m p)
  case (Cons a as)
  have "[pa_next p ..< pa_next p + length (a # as)] = pa_next p # [Suc (pa_next p) ..< pa_next p + length (a # as)]"
    by (subst upt_conv_Cons) simp_all
  then show ?case by (simp add: Let_def Cons.IH)
qed simp

lemma munge_heap_old: "r < pa_next p \<Longrightarrow> pa_heap (snd (munge name_key as m p)) r = pa_heap p r"
  by (induction as arbitrary: m p) (simp_all add: Let_def)

lemma munge_heap_new:
  "i < length as \<Longrightarrow> pa_heap (snd (munge name_key as m p)) (pa_next p + i) = summary_of name_key (as ! i)"
proof (induction as arbitrary: m p i)
  case Nil
  then show ?case by simp
next
  case (Cons a as)
  show ?case
  proof (cases i)
    case 0
    then show ?thesis by (simp add: Let_def munge_heap_old)
  next
    case (Suc j)
    let ?p1 = "p\<lparr>pa_heap := (pa_heap p)(pa_next p := summary_of name_key a), pa_next := Suc (pa_next p)\<rparr>"
    have "pa_heap (snd (munge name_key as m' ?p1)) (pa_next ?p1 + j) = summary_of name_key (as ! j)" for m'
      using Cons.prems Suc by (intro Cons.IH) simp
    then show ?thesis using Suc by (simp add: Let_def)
  qed
qed

lemma munge_keeps [simp]:
  "pa_id (snd (munge name_key as m p)) = pa_id p"
  "pa_summaries (snd (munge name_key as m p)) = pa_summaries p"
  "pa_byName (snd (munge name_key as m p)) = pa_byName p"
  "pa_like (snd (munge name_key as m p)) = pa_like p"
  by (induction as arbitrary: m p) (simp_all add: Let_def)

lemma munge_like:
  "mu_like m = om_get (mu_byName m) ''like'' \<Longrightarrow>
   mu_like (fst (munge name_key as m p)) = om_get (mu_byName (fst (munge name_key as m p))) ''like''"
  by (induction as arbitrary: m p) (simp_all add: Let_def om_get_set summary_of_def)

lemma munge_like_kept: "mu_like m \<noteq> None \<Longrightarrow> mu_like (fst (munge name_key as m p)) \<noteq> None"
  by (induction as arbitrary: m p) (simp_all add: Let_def)

lemma munge_like_found:
  "a \<in> set as \<Longrightarrow> name_key (rw_id a) = ''like'' \<Longrightarrow> mu_like (fst (munge name_key as m p)) \<noteq> None"
proof (induction as arbitrary: m p)
  case (Cons b as)
  show ?case
  proof (cases "a = b")
    case True
    then have "mu_like (fst (munge name_key (b # as) m p)) = mu_like (fst (munge name_key as
         \<lparr>mu_refs = mu_refs m @ [pa_next p], mu_byName = om_set ''like'' (pa_next p) (mu_byName m), mu_like = Some (pa_next p)\<rparr>
         (p\<lparr>pa_heap := (pa_heap p)(pa_next p := summary_of name_key b), pa_next := Suc (pa_next p)\<rparr>)))"
      using Cons.prems(2) by (simp add: Let_def summary_of_def)
    then show ?thesis using munge_like_kept by simp
  next
    case False
    then show ?thesis using Cons by (simp add: Let_def)
  qed
qed simp

definition one_like :: "post_actions \<Rightarrow> bool" where
  "one_like p \<longleftrightarrow> pa_like p = om_get (pa_byName p) ''like''"

definition like_reached :: "int \<Rightarrow> post_actions \<Rightarrow> bool" where
  "like_reached like_id p \<longleftrightarrow>
     (\<forall>rs. pa_summaries p = Some rs \<longrightarrow> (\<exists>r\<in>set rs. sm_id (pa_heap p r) = like_id) \<longrightarrow> pa_like p \<noteq> None)"

lemma create_one_like: "one_like (post_with_actions name_key i as)"
proof -
  have "mu_like no_summaries = om_get (mu_byName no_summaries) ''like''" by (simp add: no_summaries_def)
  from munge_like [OF this] show ?thesis by (simp add: one_like_def post_with_actions_def case_prod_beta Let_def)
qed

lemma create_like_reached:
  assumes "name_key like_id = ''like''"
  shows "like_reached like_id (post_with_actions name_key i as)"
proof -
  have "mu_like (fst (munge name_key as no_summaries p)) \<noteq> None"
    if h: "pa_next p \<le> r" "r < pa_next p + length as" "sm_id (pa_heap (snd (munge name_key as no_summaries p)) r) = like_id" for p r
  proof -
    obtain j where j: "r = pa_next p + j" "j < length as" using h(1,2) by (auto simp: le_iff_add)
    then have "rw_id (as ! j) = like_id" using h(3) munge_heap_new [of j as name_key no_summaries p] by (simp add: summary_of_def)
    then show ?thesis using j assms munge_like_found [of "as ! j" as] by simp
  qed
  then show ?thesis
    by (auto simp: like_reached_def post_with_actions_def case_prod_beta Let_def munge_refs no_summaries_def)
qed

text \<open>The like of a post and its entry by name stay the same object, through every operation.\<close>

lemma on_summary_keeps [simp]:
  "pa_id (on_summary r f p) = pa_id p"
  "pa_summaries (on_summary r f p) = pa_summaries p"
  "pa_byName (on_summary r f p) = pa_byName p"
  "pa_like (on_summary r f p) = pa_like p"
  by (simp_all add: on_summary_def)

lemma one_like_on_summary [simp]: "one_like (on_summary r f p) \<longleftrightarrow> one_like p"
  by (simp add: one_like_def)

lemma one_like_toggle: "one_like (snd (toggle r p)) \<longleftrightarrow> one_like p"
  by (simp add: toggle_def act_def undo_def removeAction_def)

lemma updateActionsSummary_keeps:
  "pa_byName (updateActionsSummary name_key json p) = pa_byName p"
  "pa_like (updateActionsSummary name_key json p) = pa_like p"
  by (simp_all add: updateActionsSummary_def case_prod_beta Let_def split: option.split)

lemma one_like_answer: "one_like (updateActionsSummary name_key json p) \<longleftrightarrow> one_like p"
  by (simp add: one_like_def updateActionsSummary_keeps)

text \<open>The first entry of a message about the first like of a post.\<close>

lemma munge_one:
  assumes "name_key (rw_id a) = ''like''"
  shows "munge name_key [a] no_summaries p =
           (\<lparr>mu_refs = [pa_next p], mu_byName = om_set ''like'' (pa_next p) [], mu_like = Some (pa_next p)\<rparr>,
            p\<lparr>pa_heap := (pa_heap p)(pa_next p := summary_of name_key a), pa_next := Suc (pa_next p)\<rparr>)"
  using assms by (simp add: Let_def no_summaries_def summary_of_def)

definition like_agrees :: "int \<Rightarrow> int \<Rightarrow> bool \<Rightarrow> post_actions \<Rightarrow> bool" where
  "like_agrees like_id count acted p \<longleftrightarrow>
     one_like p \<and> likeCount p = Some count \<and> liked p = acted \<and>
     (\<exists>rs. pa_summaries p = Some rs \<and>
        (\<exists>r\<in>set rs. sm_id (pa_heap p r) = like_id \<and> sm_count (pa_heap p r) = count \<and> sm_acted (pa_heap p r) = acted))"

lemma like_message_first:
  assumes "pa_summaries p = Some rs" "find (\<lambda>r. sm_id (pa_heap p r) = like_id) rs = None" "name_key like_id = ''like''"
  shows "\<exists>p'. updateLikeCount name_key like_id me count userId eventType p = Inr p' \<and>
              like_agrees like_id count (me = Some userId \<and> eventType = ''liked'') p'"
  using assms
  by (auto simp: updateLikeCount_def Let_def munge_one like_agrees_def one_like_def likeCount_def liked_def om_get_set summary_of_def)

lemma like_message_next:
  assumes "pa_summaries p = Some rs" "find (\<lambda>r. sm_id (pa_heap p r) = like_id) rs = Some r" "one_like p" "pa_like p = Some l"
  shows "\<exists>p'. updateLikeCount name_key like_id me count userId eventType p = Inr p' \<and>
              like_agrees like_id count (if me = Some userId then eventType = ''liked'' \<or> liked p \<and> eventType \<noteq> ''unliked'' else liked p) p'"
proof -
  have "om_get (pa_byName p) ''like'' = Some l" using assms(3,4) by (simp add: one_like_def)
  moreover have "r \<in> set rs" using assms(2) by (auto simp: find_Some_iff)
  ultimately show ?thesis
    using assms
    by (auto simp: updateLikeCount_def Let_def like_agrees_def one_like_def likeCount_def liked_def on_summary_def like_object_def)
qed

text \<open>
  A message about a like never fails on a post whose like is one object, and leaves the like, its
  entry by name and its entry in the list with the count of the message. A message about someone else
  says nothing of the own like, unless it is the first like of the post.
\<close>

theorem like_message_agrees:
  assumes "name_key like_id = ''like''" "one_like p" "like_reached like_id p" "pa_summaries p = Some rs"
  shows "\<exists>p' acted. updateLikeCount name_key like_id me count userId eventType p = Inr p' \<and>
           like_agrees like_id count acted p' \<and>
           (me = Some userId \<longrightarrow> eventType = ''liked'' \<longrightarrow> acted) \<and> (me = Some userId \<longrightarrow> eventType = ''unliked'' \<longrightarrow> \<not> acted)"
proof (cases "find (\<lambda>r. sm_id (pa_heap p r) = like_id) rs")
  case None
  then show ?thesis using like_message_first [of p rs like_id name_key me count userId eventType] assms by auto
next
  case (Some r)
  then have "r \<in> set rs" "sm_id (pa_heap p r) = like_id" by (auto simp: find_Some_iff)
  then obtain l where "pa_like p = Some l" using assms(3,4) by (auto simp: like_reached_def)
  from like_message_next [OF assms(4) Some assms(2) this, of name_key me count userId eventType]
  obtain p' where p': "updateLikeCount name_key like_id me count userId eventType p = Inr p'"
      "like_agrees like_id count (if me = Some userId then eventType = ''liked'' \<or> liked p \<and> eventType \<noteq> ''unliked'' else liked p) p'"
    by blast
  show ?thesis by (rule exI [of _ p'], rule exI, intro conjI, rule p'(1), rule p'(2)) simp_all
qed

definition demo_key :: "int \<Rightarrow> string" where
  "demo_key i = (if i = 2 then ''like'' else if i = 3 then ''off_topic'' else ''spam'')"

definition demo_raw :: "int \<Rightarrow> raw_summary" where
  "demo_raw i = \<lparr>rw_id = i, rw_count = Some 1, rw_acted = False, rw_can_act = True, rw_can_undo = False\<rparr>"

lemma demo_post_summaries: "pa_summaries (post_with_actions demo_key 7 [demo_raw 3, demo_raw 2]) = Some [0, 1]"
  by code_simp

theorem like_message_agrees_witness:
  "\<exists>p' acted. updateLikeCount demo_key 2 (Some 5) 2 5 ''liked'' (post_with_actions demo_key 7 [demo_raw 3, demo_raw 2]) = Inr p' \<and> like_agrees 2 2 acted p'"
proof -
  have k: "demo_key 2 = ''like''" by (simp add: demo_key_def)
  have "like_reached 2 (post_with_actions demo_key 7 [demo_raw 3, demo_raw 2])" by (rule create_like_reached) (rule k)
  from like_message_agrees [of demo_key 2 "post_with_actions demo_key 7 [demo_raw 3, demo_raw 2]" _ "Some 5" 2 5 "''liked''",
      OF k create_one_like this demo_post_summaries]
  show ?thesis by blast
qed

theorem like_rolls_back_witness:
  "act_answered demo_key 0 None (snd (toggle 0 (post_with_actions demo_key 7 [demo_raw 2]))) = post_with_actions demo_key 7 [demo_raw 2]"
  by (rule like_rolls_back) (simp_all add: post_with_actions_def munge_one demo_key_def demo_raw_def summary_of_def either_way_def Let_def)

text \<open>
  The summaries of an answer replace the list alone, and a message about the first like takes the place
  of another action in the list; after the former, the like that the list has got is not the like of
  the post, and a message about it fails.
\<close>

lemma first_like_replaces_first:
  "map_option (map (\<lambda>r. sm_id (pa_heap p r))) (pa_summaries p) = Some [2, 4]"
  if "updateLikeCount demo_key 2 None 1 5 ''liked'' (post_with_actions demo_key 7 [demo_raw 3, demo_raw 4]) = Inr p" for p
proof -
  have "(case updateLikeCount demo_key 2 None 1 5 ''liked'' (post_with_actions demo_key 7 [demo_raw 3, demo_raw 4]) of
           Inr p \<Rightarrow> map_option (map (\<lambda>r. sm_id (pa_heap p r))) (pa_summaries p) = Some [2, 4] | Inl _ \<Rightarrow> False)"
    by code_simp
  then show ?thesis using that by simp
qed

lemma like_of_answer_unreached:
  "updateLikeCount demo_key 2 None 2 5 ''liked''
     (updateActionsSummary demo_key (Some (7, Some [demo_raw 3, demo_raw 2])) (post_with_actions demo_key 7 [demo_raw 3])) = Inl (TypeError ''acted'')"
proof -
  have "(case updateLikeCount demo_key 2 None 2 5 ''liked''
           (updateActionsSummary demo_key (Some (7, Some [demo_raw 3, demo_raw 2])) (post_with_actions demo_key 7 [demo_raw 3])) of
           Inr _ \<Rightarrow> False | Inl e \<Rightarrow> e = TypeError ''acted'')"
    by code_simp
  then show ?thesis by (simp split: sum.splits)
qed

lemma answer_leaves_count:
  "likeCount (updateActionsSummary name_key json p) = likeCount p" if "one_like p" "\<And>l. pa_like p = Some l \<Longrightarrow> l < pa_next p"
  using that(2)
  by (cases "pa_like p") (simp_all add: likeCount_def updateActionsSummary_def case_prod_beta Let_def munge_heap_old split: option.split)

section \<open>Deleting, its failure and recovering\<close>

text \<open>A recovery that fails leaves the post as it was before.\<close>

theorem recover_failure_restores: "recover_answered p None (recover_start p) = p"
  by (simp add: recover_answered_def recover_start_def)

lemma recover_makes_deletable:
  "canDelete True staff (recover_answered before (Some (cooked, raw, version)) (recover_start p))"
  by (simp add: recover_answered_def recover_start_def canDelete_def)

lemma deleted_not_deletable: "\<not> canDelete user staff (delete_post e now cooked p)"
  by (simp add: canDelete_def delete_post_def setDeletedState_def author_text_cooked_def Let_def)

text \<open>
  A deletion that failed gives the text and the right to delete back, when the text was not empty; the
  version is right for the author, and one too low for the staff.
\<close>

lemma failed_delete_undone:
  assumes "dp_cooked p \<noteq> []"
  shows "dp_cooked (undoDeleteState (delete_post e now cooked p)) = dp_cooked p"
    "dp_deleted_at (undoDeleteState (delete_post e now cooked p)) = None"
    "dp_can_delete (undoDeleteState (delete_post e now cooked p))"
    "dp_version (undoDeleteState (delete_post e now cooked p)) = (if by_staff e then dp_version p - 1 else dp_version p)"
  using assms
  by (cases "dp_cooked p"; simp add: undoDeleteState_def delete_post_def setDeletedState_def author_text_cooked_def Let_def)+

lemma failed_delete_loses_edit:
  "\<not> by_staff e \<Longrightarrow> \<not> dp_can_edit (undoDeleteState (delete_post e now cooked p))"
  by (auto simp: undoDeleteState_def delete_post_def setDeletedState_def author_text_cooked_def Let_def split: option.split list.split)

lemma empty_text_stays_deleted:
  "dp_cooked p = [] \<Longrightarrow> by_staff e \<Longrightarrow> dp_deleted_at (undoDeleteState (delete_post e now cooked p)) = Some now"
  by (simp add: undoDeleteState_def delete_post_def setDeletedState_def Let_def)

end
