(* ===== verification/ChatMessages.thy ===== *)
theory ChatMessages
  imports ArrayTools
begin

text \<open>
  The messages of a chat channel or thread: a message and its reactions (\<open>models/chat-message.js\<close>,
  \<open>models/chat-message-reaction.js\<close>) and the list of loaded messages
  (\<open>lib/chat-messages-manager.js\<close>) of the chat plugin.

  The list, the last message of the channel and the panes share the message objects: a heap keeps
  them, and a list holds references.
\<close>

section \<open>Reactions\<close>

record reaction =
  re_emoji :: string
  re_count :: int
  re_reacted :: bool
  re_users :: "int list"

datatype react_action = AddReaction | RemoveReaction

definition add_to_reaction :: "int \<Rightarrow> int \<Rightarrow> reaction \<Rightarrow> reaction" where
  "add_to_reaction actor me x =
     (let self = (actor = me)
      in if self \<and> re_reacted x \<or> actor \<in> set (re_users x) then x
         else x\<lparr>re_count := re_count x + 1, re_reacted := re_reacted x \<or> self, re_users := re_users x @ [actor]\<rparr>)"

text \<open>Nothing stands for a reaction that has nobody left.\<close>

definition remove_from_reaction :: "int \<Rightarrow> int \<Rightarrow> reaction \<Rightarrow> reaction option" where
  "remove_from_reaction actor me x =
     (if actor \<notin> set (re_users x) then Some x
      else let x1 = (if actor = me then x\<lparr>re_reacted := False\<rparr> else x)
           in if re_count x1 = 1 then None
              else Some (x1\<lparr>re_count := re_count x1 - 1, re_users := remove1 actor (re_users x1)\<rparr>))"

definition react_list :: "string \<Rightarrow> react_action \<Rightarrow> int \<Rightarrow> int \<Rightarrow> reaction list \<Rightarrow> reaction list" where
  "react_list emoji action actor me rs =
     (case List.extract (\<lambda>x. re_emoji x = emoji) rs of
        Some (pre, x, post) \<Rightarrow>
          (case action of
             AddReaction \<Rightarrow> pre @ add_to_reaction actor me x # post
           | RemoveReaction \<Rightarrow>
               (case remove_from_reaction actor me x of Some y \<Rightarrow> pre @ y # post | None \<Rightarrow> pre @ post))
      | None \<Rightarrow>
          (case action of
             AddReaction \<Rightarrow> rs @ [\<lparr>re_emoji = emoji, re_count = 1, re_reacted = (actor = me), re_users = [actor]\<rparr>]
           | RemoveReaction \<Rightarrow> rs))"

section \<open>Messages\<close>

text \<open>A message has a number, or the identifier that was made up for it before the server has saved it.\<close>

datatype chat_id = ServerId int | Guid string

record chat_message =
  cm_id :: chat_id
  cm_user :: int
  cm_created :: int
  cm_message :: string
  cm_cooked :: string
  cm_excerpt :: string
  cm_uploads :: "string list"
  cm_staged :: bool
  cm_processed :: bool
  cm_draft :: bool
  cm_edited :: bool
  cm_streaming :: bool
  cm_hidden :: bool
  cm_expanded :: bool
  cm_selected :: bool
  cm_error :: "string option"
  cm_deletedAt :: "int option"
  cm_deletedById :: "int option"
  cm_inReplyTo :: "int option"
  cm_userFlagStatus :: "int option"
  cm_reviewableId :: "int option"
  cm_reactions :: "reaction list"
  cm_version :: nat

text \<open>What the server sends of a message; it always sends its text.\<close>

record message_data =
  md_id :: int
  md_user :: int
  md_created_at :: int
  md_message :: string
  md_cooked :: string
  md_excerpt :: string
  md_uploads :: "string list option"
  md_edited :: "bool option"
  md_streaming :: bool
  md_hidden :: "bool option"
  md_expanded :: "bool option"
  md_deleted_at :: "int option"
  md_deleted_by_id :: "int option"
  md_in_reply_to :: "int option"
  md_user_flag_status :: "int option"
  md_reviewable_id :: "int option"
  md_reactions :: "reaction list option"

definition chat_default :: "'a \<Rightarrow> 'a option \<Rightarrow> 'a" where
  "chat_default d v = (case v of Some x \<Rightarrow> x | None \<Rightarrow> d)"

definition create_message :: "message_data \<Rightarrow> chat_message" where
  "create_message d =
     (let hidden = chat_default False (md_hidden d)
      in \<lparr>cm_id = ServerId (md_id d), cm_user = md_user d, cm_created = md_created_at d,
          cm_message = md_message d, cm_cooked = md_cooked d, cm_excerpt = md_excerpt d,
          cm_uploads = chat_default [] (md_uploads d), cm_staged = False, cm_processed = True, cm_draft = False,
          cm_edited = chat_default False (md_edited d), cm_streaming = md_streaming d, cm_hidden = hidden,
          cm_expanded = (if hidden \<or> md_deleted_at d \<noteq> None then False else chat_default True (md_expanded d)),
          cm_selected = False, cm_error = None, cm_deletedAt = md_deleted_at d, cm_deletedById = md_deleted_by_id d,
          cm_inReplyTo = md_in_reply_to d, cm_userFlagStatus = md_user_flag_status d,
          cm_reviewableId = md_reviewable_id d, cm_reactions = chat_default [] (md_reactions d), cm_version = 0\<rparr>)"

definition persisted :: "chat_message \<Rightarrow> bool" where
  "persisted m \<longleftrightarrow> cm_id m \<noteq> ServerId 0 \<and> cm_id m \<noteq> Guid [] \<and> \<not> cm_staged m"

definition replyable :: "chat_message \<Rightarrow> bool" where
  "replyable m \<longleftrightarrow> \<not> cm_staged m \<and> cm_error m = None"

definition incrementVersion :: "chat_message \<Rightarrow> chat_message" where
  "incrementVersion m = m\<lparr>cm_version := cm_version m + 1\<rparr>"

definition set_deletedAt :: "int option \<Rightarrow> chat_message \<Rightarrow> chat_message" where
  "set_deletedAt v m = incrementVersion (m\<lparr>cm_deletedAt := v\<rparr>)"

definition set_cooked :: "string \<Rightarrow> chat_message \<Rightarrow> chat_message" where
  "set_cooked c m = (if c \<noteq> cm_cooked m then incrementVersion (m\<lparr>cm_cooked := c\<rparr>) else m)"

definition react :: "string \<Rightarrow> react_action \<Rightarrow> int \<Rightarrow> int \<Rightarrow> chat_message \<Rightarrow> chat_message" where
  "react emoji action actor me m = m\<lparr>cm_reactions := react_list emoji action actor me (cm_reactions m)\<rparr>"

section \<open>The list of loaded messages\<close>

record messages_state =
  ms_heap :: "nat \<Rightarrow> chat_message"
  ms_next :: nat
  ms_list :: "nat list"

definition on_message :: "nat \<Rightarrow> (chat_message \<Rightarrow> chat_message) \<Rightarrow> 'a messages_state_scheme \<Rightarrow> 'a messages_state_scheme" where
  "on_message r f s = s\<lparr>ms_heap := (ms_heap s)(r := f (ms_heap s r))\<rparr>"

definition new_message :: "chat_message \<Rightarrow> 'a messages_state_scheme \<Rightarrow> nat \<times> 'a messages_state_scheme" where
  "new_message m s = (ms_next s, s\<lparr>ms_heap := (ms_heap s)(ms_next s := m), ms_next := Suc (ms_next s)\<rparr>)"

definition stagedMessages :: "'a messages_state_scheme \<Rightarrow> nat list" where
  "stagedMessages s = filter (\<lambda>r. cm_staged (ms_heap s r)) (ms_list s)"

definition selectedMessages :: "'a messages_state_scheme \<Rightarrow> nat list" where
  "selectedMessages s = filter (\<lambda>r. cm_selected (ms_heap s r)) (ms_list s)"

definition clearSelectedMessages :: "'a messages_state_scheme \<Rightarrow> 'a messages_state_scheme" where
  "clearSelectedMessages s = fold (\<lambda>r. on_message r (\<lambda>m. m\<lparr>cm_selected := False\<rparr>)) (selectedMessages s) s"

definition clear_messages :: "'a messages_state_scheme \<Rightarrow> 'a messages_state_scheme" where
  "clear_messages s = s\<lparr>ms_list := []\<rparr>"

definition addMessages :: "nat list \<Rightarrow> 'a messages_state_scheme \<Rightarrow> 'a messages_state_scheme" where
  "addMessages rs s =
     s\<lparr>ms_list := sort_key (\<lambda>r. cm_created (ms_heap s r)) (dedupeBy (ms_list s @ rs) (\<lambda>r. cm_id (ms_heap s r)))\<rparr>"

definition findMessage :: "int \<Rightarrow> 'a messages_state_scheme \<Rightarrow> nat option" where
  "findMessage i s = find (\<lambda>r. cm_id (ms_heap s r) = ServerId i) (ms_list s)"

definition findStagedMessage :: "string \<Rightarrow> 'a messages_state_scheme \<Rightarrow> nat option" where
  "findStagedMessage g s = find (\<lambda>r. cm_id (ms_heap s r) = Guid g) (stagedMessages s)"

definition removeMessage :: "nat \<Rightarrow> 'a messages_state_scheme \<Rightarrow> 'a messages_state_scheme" where
  "removeMessage r s = s\<lparr>ms_list := remove_value (ms_list s) r\<rparr>"

definition findIndexOfMessage :: "chat_id \<Rightarrow> 'a messages_state_scheme \<Rightarrow> int" where
  "findIndexOfMessage i s = index_of (map (\<lambda>r. cm_id (ms_heap s r)) (ms_list s)) i"

definition findLastMessage :: "'a messages_state_scheme \<Rightarrow> nat option" where
  "findLastMessage s = find (\<lambda>r. cm_deletedAt (ms_heap s r) = None) (rev (ms_list s))"

definition findLastUserMessage :: "int \<Rightarrow> 'a messages_state_scheme \<Rightarrow> nat option" where
  "findLastUserMessage u s = find (\<lambda>r. cm_user (ms_heap s r) = u \<and> cm_deletedAt (ms_heap s r) = None) (rev (ms_list s))"

definition findFirstMessageOfDay :: "(int \<Rightarrow> int) \<Rightarrow> int \<Rightarrow> 'a messages_state_scheme \<Rightarrow> nat option" where
  "findFirstMessageOfDay day a s = find (\<lambda>r. day (cm_created (ms_heap s r)) = day a) (ms_list s)"

text \<open>\<open>stageMessage\<close> of a channel, and of a thread, which has no condition.\<close>

definition staged_message :: "string \<Rightarrow> int \<Rightarrow> chat_message \<Rightarrow> chat_message" where
  "staged_message guid now m =
     m\<lparr>cm_id := Guid guid, cm_staged := True, cm_processed := False, cm_draft := False, cm_created := now\<rparr>"

definition stageMessage :: "bool \<Rightarrow> string \<Rightarrow> int \<Rightarrow> nat \<Rightarrow> 'a messages_state_scheme \<Rightarrow> 'a messages_state_scheme" where
  "stageMessage threadingEnabled guid now r s =
     (let s1 = on_message r (staged_message guid now) s
      in if cm_inReplyTo (ms_heap s1 r) = None \<or> \<not> threadingEnabled then addMessages [r] s1 else s1)"

definition stageThreadMessage :: "string \<Rightarrow> int \<Rightarrow> nat \<Rightarrow> 'a messages_state_scheme \<Rightarrow> 'a messages_state_scheme" where
  "stageThreadMessage guid now r s = addMessages [r] (on_message r (staged_message guid now) s)"

section \<open>Who reacted with what\<close>

definition reaction_ok :: "int \<Rightarrow> reaction \<Rightarrow> bool" where
  "reaction_ok me x \<longleftrightarrow> distinct (re_users x) \<and> re_users x \<noteq> [] \<and> re_count x = int (length (re_users x)) \<and>
     re_reacted x = (me \<in> set (re_users x))"

definition reactions_ok :: "int \<Rightarrow> reaction list \<Rightarrow> bool" where
  "reactions_ok me rs \<longleftrightarrow> distinct (map re_emoji rs) \<and> (\<forall>x\<in>set rs. reaction_ok me x)"

definition who_reacted :: "reaction list \<Rightarrow> (string \<times> int) set" where
  "who_reacted rs = {(re_emoji x, u) | x u. x \<in> set rs \<and> u \<in> set (re_users x)}"

lemma who_reacted_append [simp]: "who_reacted (rs @ rs') = who_reacted rs \<union> who_reacted rs'"
  by (auto simp: who_reacted_def)

lemma who_reacted_Cons [simp]: "who_reacted (x # rs) = Pair (re_emoji x) ` set (re_users x) \<union> who_reacted rs"
  by (auto simp: who_reacted_def)

lemma who_reacted_Nil [simp]: "who_reacted [] = {}"
  by (simp add: who_reacted_def)

lemma other_emoji: "e \<notin> re_emoji ` set rs \<Longrightarrow> (e, u) \<notin> who_reacted rs"
  by (auto simp: who_reacted_def)

lemma add_to_reaction_ok:
  assumes "reaction_ok me x"
  shows "reaction_ok me (add_to_reaction actor me x)" "re_emoji (add_to_reaction actor me x) = re_emoji x"
    "set (re_users (add_to_reaction actor me x)) = insert actor (set (re_users x))"
  using assms by (auto simp: reaction_ok_def add_to_reaction_def Let_def)

lemma remove_from_reaction_ok:
  assumes "reaction_ok me x"
  shows "case remove_from_reaction actor me x of
           Some y \<Rightarrow> reaction_ok me y \<and> re_emoji y = re_emoji x \<and> set (re_users y) = set (re_users x) - {actor}
         | None \<Rightarrow> set (re_users x) = {actor}"
proof (cases "actor \<in> set (re_users x)")
  case False
  then show ?thesis using assms by (simp add: remove_from_reaction_def)
next
  case True
  have d: "distinct (re_users x)" and n: "re_count x = int (length (re_users x))" and r: "re_reacted x = (me \<in> set (re_users x))"
    using assms by (simp_all add: reaction_ok_def)
  show ?thesis
  proof (cases "re_count x = 1")
    case one: True
    then obtain u where "re_users x = [u]" using n by (auto simp: length_Suc_conv)
    then show ?thesis using True one by (simp add: remove_from_reaction_def Let_def)
  next
    case False
    then have l: "length (re_users x) \<ge> 2" using n True by (cases "re_users x"; cases "tl (re_users x)") auto
    then have "remove1 actor (re_users x) \<noteq> []" using length_remove1 [of actor "re_users x"] True by auto
    then show ?thesis using True False d n r l
      by (auto simp: remove_from_reaction_def Let_def reaction_ok_def length_remove1 of_nat_diff)
  qed
qed

lemma react_step:
  assumes "reactions_ok me rs"
  shows "reactions_ok me (react_list emoji action actor me rs) \<and>
    who_reacted (react_list emoji action actor me rs) =
      (case action of AddReaction \<Rightarrow> insert (emoji, actor) (who_reacted rs) | RemoveReaction \<Rightarrow> who_reacted rs - {(emoji, actor)})"
proof (cases "List.extract (\<lambda>x. re_emoji x = emoji) rs")
  case None
  then have "emoji \<notin> re_emoji ` set rs" by (auto simp: extract_None_iff)
  then show ?thesis
    using assms None other_emoji [of emoji rs]
    by (cases action) (auto simp: react_list_def reactions_ok_def reaction_ok_def)
next
  case (Some t)
  obtain pre x post where t: "t = (pre, x, post)" by (cases t)
  with Some have rs: "rs = pre @ x # post" and e: "re_emoji x = emoji" by (auto simp: extract_Some_iff)
  have ok: "reaction_ok me x" "distinct (map re_emoji (pre @ x # post))" "\<forall>y\<in>set pre \<union> set post. reaction_ok me y"
    using assms by (auto simp: reactions_ok_def rs)
  have o: "(emoji, u) \<notin> who_reacted pre" "(emoji, u) \<notin> who_reacted post" for u
    using ok(2) e by (auto intro!: other_emoji)
  show ?thesis
  proof (cases action)
    case AddReaction
    then show ?thesis
      using Some t rs ok e add_to_reaction_ok [OF ok(1), of actor]
      by (auto simp: react_list_def reactions_ok_def)
  next
    case RemoveReaction
    show ?thesis
    proof (cases "remove_from_reaction actor me x")
      case None
      then show ?thesis
        using RemoveReaction Some t rs ok e o remove_from_reaction_ok [OF ok(1), of actor]
        by (auto simp: react_list_def reactions_ok_def)
    next
      case (Some y)
      then have y: "reaction_ok me y" "re_emoji y = re_emoji x" "set (re_users y) = set (re_users x) - {actor}"
        using remove_from_reaction_ok [OF ok(1), of actor] by simp_all
      have "react_list emoji action actor me rs = pre @ y # post"
        using RemoveReaction \<open>List.extract _ rs = Some t\<close> t Some by (simp add: react_list_def)
      moreover have "reactions_ok me (pre @ y # post)" using ok y by (simp add: reactions_ok_def)
      moreover have "who_reacted (pre @ y # post) = who_reacted rs - {(emoji, actor)}"
        using y e o by (auto simp: rs)
      ultimately show ?thesis using RemoveReaction by simp
    qed
  qed
qed

fun react_all :: "(string \<times> react_action \<times> int) list \<Rightarrow> int \<Rightarrow> reaction list \<Rightarrow> reaction list" where
  "react_all [] me rs = rs"
| "react_all ((emoji, action, actor) # acts) me rs = react_all acts me (react_list emoji action actor me rs)"

fun react_pairs :: "(string \<times> react_action \<times> int) list \<Rightarrow> (string \<times> int) set \<Rightarrow> (string \<times> int) set" where
  "react_pairs [] W = W"
| "react_pairs ((emoji, action, actor) # acts) W = react_pairs acts
     (case action of AddReaction \<Rightarrow> insert (emoji, actor) W | RemoveReaction \<Rightarrow> W - {(emoji, actor)})"

text \<open>
  C23. Of a message whose reactions list all their users (as many as they count, each once, and the
  current user among them exactly when the reaction is marked as theirs): whatever reactions arrive,
  in whatever order and however often, it goes on listing them all, and for each emoji the users are
  those whose last action was to add it. The server sends only the first users of a reaction with
  many of them; what happens then is shown by \<open>removal_of_unlisted_ignored\<close> and
  \<open>unlisted_counted_twice\<close>.
\<close>

theorem react_refines:
  assumes "reactions_ok me rs"
  shows "reactions_ok me (react_all acts me rs) \<and>
    who_reacted (react_all acts me rs) = react_pairs acts (who_reacted rs)"
  using assms
proof (induction acts arbitrary: rs)
  case (Cons a acts)
  obtain emoji action actor where a: "a = (emoji, action, actor)" by (cases a)
  show ?case
    using Cons.IH [of "react_list emoji action actor me rs"] react_step [OF Cons.prems, of emoji action actor]
    by (simp add: a)
qed simp

theorem react_refines_witness:
  "who_reacted (react_all [(''heart'', AddReaction, 2), (''heart'', RemoveReaction, 1)] 1
     [\<lparr>re_emoji = ''heart'', re_count = 1, re_reacted = True, re_users = [1]\<rparr>]) = {(''heart'', 2)}"
proof -
  let ?rs = "[\<lparr>re_emoji = ''heart'', re_count = 1, re_reacted = True, re_users = [1]\<rparr>]"
  have ok: "reactions_ok 1 ?rs" by (simp add: reactions_ok_def reaction_ok_def)
  have "who_reacted (react_all [(''heart'', AddReaction, 2), (''heart'', RemoveReaction, 1)] 1 ?rs) =
      react_pairs [(''heart'', AddReaction, 2), (''heart'', RemoveReaction, 1)] (who_reacted ?rs)"
    by (rule conjunct2 [OF react_refines [OF ok]])
  also have "who_reacted ?rs = {(''heart'', 1)}" by (auto simp: who_reacted_def)
  also have "react_pairs [(''heart'', AddReaction, 2), (''heart'', RemoveReaction, 1)] {(''heart'', 1)} = {(''heart'', 2)}" by auto
  finally show ?thesis .
qed

text \<open>
  The server sends at most five users of a reaction. Someone else's removal does not count then, and
  neither does the current user's own.
\<close>

lemma removal_of_unlisted_ignored:
  "react_list ''heart'' RemoveReaction 6 6 [\<lparr>re_emoji = ''heart'', re_count = 6, re_reacted = True, re_users = [1, 2, 3, 4, 5]\<rparr>] =
     [\<lparr>re_emoji = ''heart'', re_count = 6, re_reacted = True, re_users = [1, 2, 3, 4, 5]\<rparr>]"
  by code_simp

lemma unlisted_counted_twice:
  "react_list ''heart'' AddReaction 6 7 [\<lparr>re_emoji = ''heart'', re_count = 6, re_reacted = False, re_users = [1, 2, 3, 4, 5]\<rparr>] =
     [\<lparr>re_emoji = ''heart'', re_count = 7, re_reacted = False, re_users = [1, 2, 3, 4, 5, 6]\<rparr>]"
  by code_simp

section \<open>The list and its operations\<close>

definition ids :: "'a messages_state_scheme \<Rightarrow> chat_id list" where
  "ids s = map (\<lambda>r. cm_id (ms_heap s r)) (ms_list s)"

definition in_order :: "'a messages_state_scheme \<Rightarrow> bool" where
  "in_order s \<longleftrightarrow> sorted (map (\<lambda>r. cm_created (ms_heap s r)) (ms_list s))"

definition message_at :: "chat_id \<Rightarrow> 'a messages_state_scheme \<Rightarrow> nat option" where
  "message_at i s = find (\<lambda>r. cm_id (ms_heap s r) = i) (ms_list s)"

lemma findMessage_at: "findMessage i s = message_at (ServerId i) s"
  by (simp add: findMessage_def message_at_def)

lemma find_same:
  "distinct (map f xs) \<Longrightarrow> distinct (map f ys) \<Longrightarrow> set xs = set ys \<Longrightarrow> find (\<lambda>x. f x = k) xs = find (\<lambda>x. f x = k) ys"
proof -
  assume d: "distinct (map f xs)" "distinct (map f ys)" and s: "set xs = set ys"
  have unique: "find (\<lambda>x. f x = k) zs = Some z \<longleftrightarrow> z \<in> set zs \<and> f z = k" if "distinct (map f zs)" for zs z
    using that by (induction zs) auto
  show ?thesis
  proof (cases "find (\<lambda>x. f x = k) xs")
    case None
    then show ?thesis using s by (metis find_None_iff)
  next
    case (Some z)
    then have "find (\<lambda>x. f x = k) ys = Some z" unfolding unique [OF d(2)] using unique [OF d(1), of z] s by simp
    then show ?thesis using Some by simp
  qed
qed

lemma dedupe_subset: "set (dedupe_loop f seen xs) \<subseteq> set xs"
  by (induction f seen xs rule: dedupe_loop.induct) auto

lemma dedupe_found: "find (\<lambda>y. f y = k) (dedupe_loop f [] xs) = find (\<lambda>x. f x = k) xs"
proof (cases "k \<in> f ` set xs")
  case True
  then obtain x where "x \<in> set xs" "k = f x" by auto
  then show ?thesis using dedupe_loop_first [of f x "[]" xs] by simp
next
  case False
  then have "k \<notin> f ` set (dedupe_loop f [] xs)" using dedupe_loop_keys [of f "[]" xs] by simp
  then have "find (\<lambda>y. f y = k) (dedupe_loop f [] xs) = None" by (auto simp: find_None_iff)
  moreover have "find (\<lambda>x. f x = k) xs = None" using False by (auto simp: find_None_iff)
  ultimately show ?thesis by simp
qed

lemma addMessages_heap [simp]: "ms_heap (addMessages rs s) = ms_heap s" "ms_next (addMessages rs s) = ms_next s"
  by (simp_all add: addMessages_def)

text \<open>
  Adding messages leaves the loaded messages in the order of their dates, with each identifier
  once, and nothing else than what was loaded or added; a message that is loaded already stays the
  object that it is, and of the others the first with its identifier counts.
\<close>

theorem added_messages:
  "in_order (addMessages rs s) \<and> distinct (ids (addMessages rs s)) \<and>
   set (ms_list (addMessages rs s)) \<subseteq> set (ms_list s) \<union> set rs \<and>
   (\<forall>i. message_at i (addMessages rs s) = find (\<lambda>r. cm_id (ms_heap s r) = i) (ms_list s @ rs))"
proof -
  let ?id = "\<lambda>r. cm_id (ms_heap s r)" and ?d = "dedupeBy (ms_list s @ rs) (\<lambda>r. cm_id (ms_heap s r))"
  let ?l = "sort_key (\<lambda>r. cm_created (ms_heap s r)) ?d"
  have d: "distinct (map ?id ?d)" and sub: "set ?d \<subseteq> set (ms_list s @ rs)"
    and f: "find (\<lambda>r. ?id r = i) ?d = find (\<lambda>r. ?id r = i) (ms_list s @ rs)" for i
    using dedupe_loop_distinct dedupe_found dedupe_subset [of ?id "[]" "ms_list s @ rs"] by (auto simp: dedupeBy_def)
  have dl: "distinct (map ?id ?l)" using d by (simp add: distinct_map distinct_sort)
  have "find (\<lambda>r. ?id r = i) ?l = find (\<lambda>r. ?id r = i) ?d" for i
    using dl d by (intro find_same) simp_all
  then show ?thesis
    using dl sub f by (auto simp: in_order_def ids_def message_at_def addMessages_def sorted_sort_key)
qed

end
