(* ===== verification/ChatPane.thy ===== *)
theory ChatPane
  imports ChatMessages
begin

text \<open>
  What reaches an open chat channel or thread (\<open>lib/chat-channel-subscription-manager.js\<close>,
  \<open>lib/chat-channel-thread-subscription-manager.js\<close>), the requests for its messages
  (\<open>lib/chat-messages-loader.js\<close>), and the messages that arrived while the user was away
  (\<open>services/chat-pane-pending-manager.js\<close>, \<open>lib/chat-pane-state.js\<close>) of the chat plugin.
\<close>

section \<open>Messages of the message bus\<close>

record chat_pane = messages_state +
  cp_lastMessage :: "nat option"
  cp_member :: bool
  cp_lastRead :: "int option"
  cp_busId :: int

record chat_user =
  cu_id :: int
  cu_staff :: bool

datatype chat_event =
    Sent message_data "string option"
  | Reacted int string react_action int
  | Processed message_data
  | Edited message_data
  | Refreshed int
  | Deleted int int "int option" "int option"
  | BulkDeleted "int list" int
  | Restored message_data
  | SelfFlagged int int
  | Flagged int int
  | OtherEvent

definition confirm_message :: "message_data \<Rightarrow> chat_message \<Rightarrow> chat_message" where
  "confirm_message d m =
     m\<lparr>cm_error := None, cm_id := ServerId (md_id d), cm_staged := False, cm_excerpt := md_excerpt d, cm_created := md_created_at d\<rparr>"

definition handleStagedMessage :: "message_data \<Rightarrow> string \<Rightarrow> chat_pane \<Rightarrow> chat_pane option" where
  "handleStagedMessage d g p =
     (case findStagedMessage g p of
        None \<Rightarrow> None
      | Some r \<Rightarrow> Some (on_message r (\<lambda>m. set_cooked (md_cooked d) (confirm_message d m)) p))"

definition thread_handleStagedMessage :: "message_data \<Rightarrow> string \<Rightarrow> chat_pane \<Rightarrow> chat_pane option" where
  "thread_handleStagedMessage d g p =
     (case findStagedMessage g p of None \<Rightarrow> None | Some r \<Rightarrow> Some (on_message r (confirm_message d) p))"

definition own_staged ::
    "(message_data \<Rightarrow> string \<Rightarrow> chat_pane \<Rightarrow> chat_pane option) \<Rightarrow> chat_user \<Rightarrow> message_data \<Rightarrow> string option \<Rightarrow> chat_pane \<Rightarrow> chat_pane option" where
  "own_staged handle u d g p =
     (case g of Some g \<Rightarrow> if md_user d = cu_id u \<and> g \<noteq> [] then handle d g p else None | None \<Rightarrow> None)"

text \<open>The pane that shows the channel or thread is told of a new message.\<close>

type_synonym new_message_hook = "nat \<Rightarrow> chat_pane \<Rightarrow> chat_pane"

definition handleSentMessage :: "new_message_hook \<Rightarrow> chat_user \<Rightarrow> message_data \<Rightarrow> string option \<Rightarrow> chat_pane \<Rightarrow> chat_pane" where
  "handleSentMessage onNew u d g p =
     (case own_staged handleStagedMessage u d g p of
        Some p1 \<Rightarrow> p1
      | None \<Rightarrow> (let (r, p1) = new_message (create_message d) p in (onNew r p1)\<lparr>cp_lastMessage := Some r\<rparr>))"

definition thread_handleSentMessage :: "new_message_hook \<Rightarrow> chat_user \<Rightarrow> message_data \<Rightarrow> string option \<Rightarrow> chat_pane \<Rightarrow> chat_pane" where
  "thread_handleSentMessage onNew u d g p =
     (case own_staged thread_handleStagedMessage u d g p of
        Some p1 \<Rightarrow> p1
      | None \<Rightarrow> (let (r, p1) = new_message (create_message d) p in onNew r p1))"

definition on_found :: "int \<Rightarrow> (chat_message \<Rightarrow> chat_message) \<Rightarrow> chat_pane \<Rightarrow> chat_pane" where
  "on_found i f p = (case findMessage i p of Some r \<Rightarrow> on_message r f p | None \<Rightarrow> p)"

definition handleProcessedMessage :: "message_data \<Rightarrow> chat_pane \<Rightarrow> chat_pane" where
  "handleProcessedMessage d =
     on_found (md_id d) (\<lambda>m. incrementVersion ((set_cooked (md_cooked d) m)
        \<lparr>cm_uploads := chat_default [] (md_uploads d), cm_processed := True\<rparr>))"

definition handleReactionMessage :: "chat_user \<Rightarrow> int \<Rightarrow> string \<Rightarrow> react_action \<Rightarrow> int \<Rightarrow> chat_pane \<Rightarrow> chat_pane" where
  "handleReactionMessage u i emoji action actor = on_found i (react emoji action actor (cu_id u))"

definition thread_edited :: "message_data \<Rightarrow> chat_message \<Rightarrow> chat_message" where
  "thread_edited d m = m\<lparr>cm_excerpt := md_excerpt d, cm_uploads := chat_default [] (md_uploads d),
     cm_edited := chat_default False (md_edited d), cm_streaming := md_streaming d\<rparr>"

definition handleEditMessage :: "message_data \<Rightarrow> chat_pane \<Rightarrow> chat_pane" where
  "handleEditMessage d =
     on_found (md_id d) (\<lambda>m. thread_edited d (set_cooked (md_cooked d) (m\<lparr>cm_message := md_message d\<rparr>)))"

definition thread_handleEditMessage :: "message_data \<Rightarrow> chat_pane \<Rightarrow> chat_pane" where
  "thread_handleEditMessage d = on_found (md_id d) (thread_edited d)"

definition handleRefreshMessage :: "int \<Rightarrow> chat_pane \<Rightarrow> chat_pane" where
  "handleRefreshMessage i = on_found i incrementVersion"

definition deleted_message :: "int \<Rightarrow> int option \<Rightarrow> chat_message \<Rightarrow> chat_message" where
  "deleted_message at by m = (set_deletedAt (Some at) m)\<lparr>cm_deletedById := by, cm_expanded := False\<rparr>"

text \<open>The last message read may be the deleted one; a thread has no membership where the user takes no part.\<close>

definition handleDeleteMessage :: "chat_user \<Rightarrow> int \<Rightarrow> int \<Rightarrow> int option \<Rightarrow> int option \<Rightarrow> chat_pane \<Rightarrow> chat_pane" where
  "handleDeleteMessage u i at by latest p =
     (case findMessage i p of
        None \<Rightarrow> p
      | Some r \<Rightarrow>
          let p1 = (if cu_staff u \<or> cu_id u = cm_user (ms_heap p r) then on_message r (deleted_message at by) p
                    else removeMessage r p)
          in if cp_member p1 \<and> cp_lastRead p1 = Some i then p1\<lparr>cp_lastRead := latest\<rparr> else p1)"

definition handleBulkDeleteMessage :: "chat_user \<Rightarrow> int list \<Rightarrow> int \<Rightarrow> chat_pane \<Rightarrow> chat_pane" where
  "handleBulkDeleteMessage u is at p = fold (\<lambda>i. handleDeleteMessage u i at None None) is p"

definition handleRestoreMessage :: "message_data \<Rightarrow> chat_pane \<Rightarrow> chat_pane" where
  "handleRestoreMessage d p =
     (case findMessage (md_id d) p of
        Some r \<Rightarrow> on_message r (set_deletedAt None) p
      | None \<Rightarrow> (let (r, p1) = new_message (create_message d) p in addMessages [r] p1))"

definition handleSelfFlaggedMessage :: "int \<Rightarrow> int \<Rightarrow> chat_pane \<Rightarrow> chat_pane" where
  "handleSelfFlaggedMessage i status = on_found i (\<lambda>m. m\<lparr>cm_userFlagStatus := Some status\<rparr>)"

definition handleFlaggedMessage :: "int \<Rightarrow> int \<Rightarrow> chat_pane \<Rightarrow> chat_pane" where
  "handleFlaggedMessage i reviewable = on_found i (\<lambda>m. m\<lparr>cm_reviewableId := Some reviewable\<rparr>)"

text \<open>\<open>onMessage\<close> of a channel and of a thread, whose other events leave the messages alone.\<close>

fun handle_event :: "new_message_hook \<Rightarrow> chat_user \<Rightarrow> chat_event \<Rightarrow> chat_pane \<Rightarrow> chat_pane" where
  "handle_event onNew u (Sent d g) p = handleSentMessage onNew u d g p"
| "handle_event onNew u (Reacted i e a actor) p = handleReactionMessage u i e a actor p"
| "handle_event onNew u (Processed d) p = handleProcessedMessage d p"
| "handle_event onNew u (Edited d) p = handleEditMessage d p"
| "handle_event onNew u (Refreshed i) p = handleRefreshMessage i p"
| "handle_event onNew u (Deleted i at by latest) p = handleDeleteMessage u i at by latest p"
| "handle_event onNew u (BulkDeleted is at) p = handleBulkDeleteMessage u is at p"
| "handle_event onNew u (Restored d) p = handleRestoreMessage d p"
| "handle_event onNew u (SelfFlagged i st) p = handleSelfFlaggedMessage i st p"
| "handle_event onNew u (Flagged i rv) p = handleFlaggedMessage i rv p"
| "handle_event onNew u OtherEvent p = p"

fun thread_handle_event :: "new_message_hook \<Rightarrow> chat_user \<Rightarrow> chat_event \<Rightarrow> chat_pane \<Rightarrow> chat_pane" where
  "thread_handle_event onNew u (Sent d g) p = thread_handleSentMessage onNew u d g p"
| "thread_handle_event onNew u (Edited d) p = thread_handleEditMessage d p"
| "thread_handle_event onNew u e p = handle_event onNew u e p"

definition onMessage :: "new_message_hook \<Rightarrow> chat_user \<Rightarrow> chat_event \<Rightarrow> int \<Rightarrow> chat_pane \<Rightarrow> chat_pane" where
  "onMessage onNew u e busId p = (handle_event onNew u e p)\<lparr>cp_busId := busId\<rparr>"

definition thread_onMessage :: "new_message_hook \<Rightarrow> chat_user \<Rightarrow> chat_event \<Rightarrow> int \<Rightarrow> chat_pane \<Rightarrow> chat_pane" where
  "thread_onMessage onNew u e busId p = (thread_handle_event onNew u e p)\<lparr>cp_busId := busId\<rparr>"

definition add_new :: new_message_hook where
  "add_new r p = addMessages [r] p"

definition is_read :: "chat_message \<Rightarrow> chat_pane \<Rightarrow> bool" where
  "is_read m p = (case (cp_lastRead p, cm_id m) of (Some l, ServerId i) \<Rightarrow> i \<le> l | _ \<Rightarrow> False)"

section \<open>The loaded messages stay in order\<close>

definition pane_ok :: "chat_pane \<Rightarrow> bool" where
  "pane_ok p \<longleftrightarrow> distinct (ids p) \<and> (\<forall>r\<in>set (ms_list p). r < ms_next p)"

lemma on_message_simps [simp]:
  "ms_list (on_message r f s) = ms_list s" "ms_next (on_message r f s) = ms_next s"
  "ms_heap (on_message r f s) = (ms_heap s)(r := f (ms_heap s r))"
  by (simp_all add: on_message_def)

lemma ids_on_message: "cm_id (f (ms_heap s r)) = cm_id (ms_heap s r) \<Longrightarrow> ids (on_message r f s) = ids s"
  by (auto simp: ids_def)

lemma message_parts [simp]:
  "cm_id (incrementVersion m) = cm_id m" "cm_id (set_cooked c m) = cm_id m" "cm_id (set_deletedAt v m) = cm_id m"
  "cm_id (react e a actor me m) = cm_id m" "cm_id (thread_edited d m) = cm_id m" "cm_id (deleted_message at by m) = cm_id m"
  "cm_user (deleted_message at by m) = cm_user m" "cm_deletedAt (deleted_message at by m) = Some at"
  "cm_id (confirm_message d m) = ServerId (md_id d)" "cm_staged (confirm_message d m) = False"
  "cm_staged (set_cooked c m) = cm_staged m" "cm_error (set_cooked c m) = cm_error m" "cm_error (confirm_message d m) = None"
  by (simp_all add: incrementVersion_def set_cooked_def set_deletedAt_def react_def thread_edited_def deleted_message_def confirm_message_def)

lemma pane_ok_on_message: "cm_id (f (ms_heap p r)) = cm_id (ms_heap p r) \<Longrightarrow> pane_ok p \<Longrightarrow> pane_ok (on_message r f p)"
  by (simp add: pane_ok_def ids_on_message)

lemma pane_ok_on_found: "(\<And>m. cm_id (f m) = cm_id m) \<Longrightarrow> pane_ok p \<Longrightarrow> pane_ok (on_found i f p)"
  by (simp add: on_found_def pane_ok_on_message split: option.split)

lemma pane_ok_busId [simp]: "pane_ok (p\<lparr>cp_busId := b\<rparr>) = pane_ok p" "pane_ok (p\<lparr>cp_lastMessage := l\<rparr>) = pane_ok p"
  "pane_ok (p\<lparr>cp_lastRead := x\<rparr>) = pane_ok p"
  by (simp_all add: pane_ok_def ids_def)

lemma pane_ok_addMessages:
  assumes "pane_ok p" "\<forall>r\<in>set rs. r < ms_next p"
  shows "pane_ok (addMessages rs p)"
  using assms added_messages [of rs p] by (auto simp: pane_ok_def)

lemma new_message_simps [simp]:
  "fst (new_message m s) = ms_next s" "ms_list (snd (new_message m s)) = ms_list s"
  "ms_next (snd (new_message m s)) = Suc (ms_next s)"
  "ms_heap (snd (new_message m s)) = (ms_heap s)(ms_next s := m)"
  by (simp_all add: new_message_def)

lemma ids_new_message: "pane_ok p \<Longrightarrow> ids (snd (new_message m p)) = ids p"
  by (auto simp: pane_ok_def ids_def)

lemma pane_ok_new_message: "pane_ok p \<Longrightarrow> pane_ok (snd (new_message m p))"
  using ids_new_message [of p m] by (auto simp: pane_ok_def)

lemma pane_ok_removeMessage: "pane_ok p \<Longrightarrow> pane_ok (removeMessage r p)"
  by (auto simp: pane_ok_def ids_def removeMessage_def remove_value_filter distinct_map_filter)

lemma pane_ok_delete: "pane_ok p \<Longrightarrow> pane_ok (handleDeleteMessage u i at by latest p)"
  by (simp add: handleDeleteMessage_def Let_def pane_ok_on_message pane_ok_removeMessage split: option.split)

lemma pane_ok_bulk: "pane_ok p \<Longrightarrow> pane_ok (handleBulkDeleteMessage u is at p)"
  by (induction "is" arbitrary: p) (simp_all add: handleBulkDeleteMessage_def pane_ok_delete)

lemma pane_ok_restore: "pane_ok p \<Longrightarrow> pane_ok (handleRestoreMessage d p)"
  by (simp add: handleRestoreMessage_def case_prod_beta Let_def pane_ok_on_message pane_ok_addMessages pane_ok_new_message split: option.split)

text \<open>Confirming a staged message gives it a number that no other loaded message may have.\<close>

lemma ids_confirm:
  assumes "pane_ok p" "r \<in> set (ms_list p)" "findMessage i p = None" "cm_id (f (ms_heap p r)) = ServerId i"
  shows "pane_ok (on_message r f p)"
proof -
  have "\<forall>r'\<in>set (ms_list p). cm_id (ms_heap p r') \<noteq> ServerId i"
    using assms(3) by (auto simp: findMessage_def find_None_iff)
  moreover have "distinct (ms_list p)" "inj_on (\<lambda>r. cm_id (ms_heap p r)) (set (ms_list p))"
    using assms(1) by (simp_all add: pane_ok_def ids_def distinct_map)
  ultimately show ?thesis
    using assms(1,4) by (auto simp: pane_ok_def ids_def distinct_map inj_on_def)
qed

lemma staged_loaded: "findStagedMessage g p = Some r \<Longrightarrow> r \<in> set (ms_list p) \<and> cm_id (ms_heap p r) = Guid g \<and> cm_staged (ms_heap p r)"
  by (auto simp: findStagedMessage_def stagedMessages_def find_Some_iff in_set_conv_nth dest!: nth_mem)

lemma pane_ok_sent:
  assumes "pane_ok p" "md_user d = cu_id u \<longrightarrow> g \<noteq> None \<longrightarrow> findMessage (md_id d) p = None"
  shows "pane_ok (handleSentMessage add_new u d g p)" "pane_ok (thread_handleSentMessage add_new u d g p)"
proof -
  have other: "pane_ok (add_new (ms_next p) (snd (new_message (create_message d) p)))"
    unfolding add_new_def by (intro pane_ok_addMessages pane_ok_new_message assms(1)) simp
  have "pane_ok p1" if "own_staged h u d g p = Some p1" "h = handleStagedMessage \<or> h = thread_handleStagedMessage" for h p1
    using that assms(2) staged_loaded [of "the g" p]
    by (auto simp: own_staged_def handleStagedMessage_def thread_handleStagedMessage_def
             split: option.splits if_splits intro!: ids_confirm [OF assms(1)])
  then show "pane_ok (handleSentMessage add_new u d g p)" "pane_ok (thread_handleSentMessage add_new u d g p)"
    using other by (auto simp: handleSentMessage_def thread_handleSentMessage_def case_prod_beta Let_def split: option.split)
qed

text \<open>
  C34. Whatever arrives in a channel or thread, every loaded message has its own identifier, as long as
  a message of the user is not loaded before the message bus confirms it.
\<close>

theorem pane_events_ok:
  assumes "pane_ok p" "\<And>d g. e = Sent d (Some g) \<Longrightarrow> md_user d = cu_id u \<Longrightarrow> findMessage (md_id d) p = None"
  shows "pane_ok (onMessage add_new u e busId p) \<and> pane_ok (thread_onMessage add_new u e busId p)"
proof (cases e)
  case (Sent d g)
  then have "pane_ok (handleSentMessage add_new u d g p)" "pane_ok (thread_handleSentMessage add_new u d g p)"
    using assms by (auto intro!: pane_ok_sent)
  then show ?thesis using Sent by (simp add: onMessage_def thread_onMessage_def)
qed (use assms(1) in \<open>simp_all add: onMessage_def thread_onMessage_def pane_ok_on_found handleProcessedMessage_def handleReactionMessage_def
        handleEditMessage_def thread_handleEditMessage_def handleRefreshMessage_def handleSelfFlaggedMessage_def
        handleFlaggedMessage_def pane_ok_delete pane_ok_bulk pane_ok_restore\<close>)

section \<open>Deleted messages\<close>

text \<open>A message that the user may still see after its deletion.\<close>

definition may_see :: "chat_user \<Rightarrow> chat_message \<Rightarrow> bool" where
  "may_see u m \<longleftrightarrow> cm_deletedAt m \<noteq> None \<and> (cu_staff u \<or> cu_id u = cm_user m)"

definition hidden_when_deleted :: "chat_user \<Rightarrow> int \<Rightarrow> chat_pane \<Rightarrow> bool" where
  "hidden_when_deleted u i p \<longleftrightarrow> (\<forall>r\<in>set (ms_list p). cm_id (ms_heap p r) = ServerId i \<longrightarrow> may_see u (ms_heap p r))"

lemma same_id_same: "pane_ok p \<Longrightarrow> r \<in> set (ms_list p) \<Longrightarrow> r' \<in> set (ms_list p) \<Longrightarrow>
    cm_id (ms_heap p r) = cm_id (ms_heap p r') \<Longrightarrow> r = r'"
  by (simp add: pane_ok_def ids_def distinct_map inj_on_def)

lemma found_loaded: "findMessage i p = Some r \<Longrightarrow> r \<in> set (ms_list p) \<and> cm_id (ms_heap p r) = ServerId i"
  by (auto simp: findMessage_def find_Some_iff in_set_conv_nth)

lemma delete_list:
  assumes "findMessage i p = Some r"
  shows "ms_list (handleDeleteMessage u i at by latest p) =
           (if cu_staff u \<or> cu_id u = cm_user (ms_heap p r) then ms_list p else filter (\<lambda>r'. r' \<noteq> r) (ms_list p))"
    "ms_heap (handleDeleteMessage u i at by latest p) =
           (if cu_staff u \<or> cu_id u = cm_user (ms_heap p r) then (ms_heap p)(r := deleted_message at by (ms_heap p r)) else ms_heap p)"
  using assms by (simp_all add: handleDeleteMessage_def Let_def removeMessage_def)

lemma delete_hides:
  assumes "pane_ok p"
  shows "hidden_when_deleted u i (handleDeleteMessage u i at by latest p)"
proof (cases "findMessage i p")
  case None
  then have "\<forall>r\<in>set (ms_list p). cm_id (ms_heap p r) \<noteq> ServerId i" by (auto simp: findMessage_def find_None_iff)
  then show ?thesis using None by (simp add: handleDeleteMessage_def hidden_when_deleted_def)
next
  case (Some r)
  note r = found_loaded [OF this]
  have other: "r' \<noteq> r \<Longrightarrow> cm_id (ms_heap p r') \<noteq> ServerId i" if "r' \<in> set (ms_list p)" for r'
    using same_id_same [OF assms that, of r] r by auto
  show ?thesis
  proof (cases "cu_staff u \<or> cu_id u = cm_user (ms_heap p r)")
    case True
    have "may_see u (ms_heap (handleDeleteMessage u i at by latest p) r')"
      if "r' \<in> set (ms_list p)" "cm_id (ms_heap (handleDeleteMessage u i at by latest p) r') = ServerId i" for r'
      using other [OF that(1)] that(2) True by (cases "r' = r") (simp_all add: delete_list [OF Some] may_see_def)
    then show ?thesis using True by (simp add: hidden_when_deleted_def delete_list(1) [OF Some])
  next
    case False
    then show ?thesis using other by (simp add: hidden_when_deleted_def delete_list [OF Some])
  qed
qed

lemma may_see_deleted: "may_see u m \<Longrightarrow> may_see u (deleted_message at by m)"
  by (simp add: may_see_def)

lemma delete_keeps_hidden:
  assumes "hidden_when_deleted u j p"
  shows "hidden_when_deleted u j (handleDeleteMessage u i at by latest p)"
proof (cases "findMessage i p")
  case None
  then show ?thesis using assms by (simp add: handleDeleteMessage_def)
next
  case (Some r)
  then show ?thesis using assms may_see_deleted by (auto simp: hidden_when_deleted_def delete_list [OF Some])
qed

text \<open>
  C32. After a bulk deletion none of the deleted messages is loaded, unless it is marked as deleted and
  the user is its author or belongs to the staff.
\<close>

theorem bulk_delete_hides:
  assumes "pane_ok p" "i \<in> set is"
  shows "hidden_when_deleted u i (handle_event onNew u (BulkDeleted is at) p)"
  using assms
proof (induction "is" arbitrary: p)
  case (Cons j js)
  have keep: "hidden_when_deleted u i p' \<Longrightarrow> hidden_when_deleted u i (handleBulkDeleteMessage u js at p')" for p'
    by (induction js arbitrary: p') (simp_all add: handleBulkDeleteMessage_def delete_keeps_hidden)
  show ?case
  proof (cases "i = j")
    case True
    then show ?thesis using keep [OF delete_hides [OF Cons.prems(1)]] by (simp add: handleBulkDeleteMessage_def)
  next
    case False
    then show ?thesis using Cons.IH [OF pane_ok_delete [OF Cons.prems(1)]] Cons.prems(2) by (simp add: handleBulkDeleteMessage_def)
  qed
qed simp

section \<open>Messages of the user\<close>

lemma confirmed:
  assumes "findStagedMessage g p = Some r" "md_user d = cu_id u" "g \<noteq> []" "pane_ok p" "findMessage (md_id d) p = None"
  defines "p1 \<equiv> handle_event add_new u (Sent d (Some g)) p"
  shows "ms_list p1 = ms_list p" "ms_next p1 = ms_next p" "findMessage (md_id d) p1 = Some r"
    "\<not> cm_staged (ms_heap p1 r)" "pane_ok p1"
    "\<And>r'. r' \<noteq> r \<Longrightarrow> ms_heap p1 r' = ms_heap p r'"
proof -
  let ?f = "\<lambda>m. set_cooked (md_cooked d) (confirm_message d m)"
  have p1: "p1 = on_message r ?f p"
    using assms(1-3) by (simp add: p1_def handleSentMessage_def own_staged_def handleStagedMessage_def)
  show "ms_list p1 = ms_list p" "ms_next p1 = ms_next p" "\<not> cm_staged (ms_heap p1 r)" "\<And>r'. r' \<noteq> r \<Longrightarrow> ms_heap p1 r' = ms_heap p r'"
    by (simp_all add: p1)
  have r: "r \<in> set (ms_list p)" using staged_loaded [OF assms(1)] by simp
  show ok: "pane_ok p1" unfolding p1 using r assms(4,5) by (intro ids_confirm) simp_all
  have "findMessage (md_id d) p1 \<noteq> None" using r by (auto simp: findMessage_def find_None_iff p1)
  then obtain r' where r': "findMessage (md_id d) p1 = Some r'" by auto
  have "r' = r"
    using found_loaded [OF r'] r by (intro same_id_same [OF ok]) (simp_all add: p1)
  then show "findMessage (md_id d) p1 = Some r" using r' by simp
qed

lemma not_staged_any_more:
  assumes "pane_ok p" "findStagedMessage g p = Some r"
  shows "findStagedMessage g (on_message r (\<lambda>m. set_cooked c (confirm_message d m)) p) = None"
proof -
  have "r' = r" if "r' \<in> set (ms_list p)" "cm_id (ms_heap p r') = Guid g" for r'
    using same_id_same [OF assms(1) that(1)] staged_loaded [OF assms(2)] that(2) by simp
  then show ?thesis by (auto simp: findStagedMessage_def find_None_iff stagedMessages_def split: if_splits)
qed

lemma find_append: "find P (xs @ ys) = (case find P xs of Some x \<Rightarrow> Some x | None \<Rightarrow> find P ys)"
  by (induction xs) simp_all

lemma loaded_by_id: "distinct (ids q) \<Longrightarrow> set (ms_list q) = {r. \<exists>i. message_at i q = Some r}"
proof -
  assume d: "distinct (ids q)"
  have "find (\<lambda>x. f x = f r) xs = Some r" if "distinct (map f xs)" "r \<in> set xs" for f :: "nat \<Rightarrow> chat_id" and r xs
    using that by (induction xs) auto
  then have "message_at (cm_id (ms_heap q r)) q = Some r" if "r \<in> set (ms_list q)" for r
    using d that by (simp add: message_at_def ids_def)
  moreover have "r \<in> set (ms_list q)" if "message_at i q = Some r" for i r
    using that by (auto simp: message_at_def find_Some_iff)
  ultimately show ?thesis by blast
qed

text \<open>
  C15. The message bus confirms a message that the user has staged in the pane, and that was not loaded
  under its number before, in place: the message stays where it is and gets its number. If the bus
  repeats the confirmation, no second message is shown. (When the message was loaded before its
  confirmation came, it is shown twice: \<open>loaded_before_confirmed\<close>.)
\<close>

theorem own_message_shown_once:
  assumes "findStagedMessage g p = Some r" "md_user d = cu_id u" "g \<noteq> []" "pane_ok p" "findMessage (md_id d) p = None"
  defines "p1 \<equiv> handle_event add_new u (Sent d (Some g)) p"
  defines "p2 \<equiv> handle_event add_new u (Sent d (Some g)) p1"
  shows "ms_list p1 = ms_list p \<and> findMessage (md_id d) p1 = Some r \<and>
         set (ms_list p2) = set (ms_list p) \<and> findMessage (md_id d) p2 = Some r"
proof -
  note c = confirmed [OF assms(1-5), folded p1_def]
  have none: "findStagedMessage g p1 = None"
    using not_staged_any_more [OF assms(4,1), of "md_cooked d" d] assms(1-3)
    by (simp add: p1_def handleSentMessage_def own_staged_def handleStagedMessage_def)
  let ?q = "snd (new_message (create_message d) p1)" and ?n = "ms_next p1"
  have p2: "ms_list p2 = ms_list (addMessages [?n] ?q)" "ms_heap p2 = ms_heap ?q"
    using assms(2,3) none
    by (simp_all add: p2_def handleSentMessage_def own_staged_def handleStagedMessage_def case_prod_beta Let_def add_new_def)
  have old: "r' \<noteq> ?n" if "r' \<in> set (ms_list p1)" for r' using c(5) that by (auto simp: pane_ok_def)
  have found: "message_at i ?q = message_at i p1" for i
    unfolding message_at_def by (intro find_cong) (use old in auto)
  have at: "message_at i (addMessages [?n] ?q) = message_at i p1" for i
  proof (cases "message_at i p1")
    case None
    then have "i \<noteq> ServerId (md_id d)" using c(3) by (auto simp: findMessage_at)
    then show ?thesis using None found [of i] added_messages [of "[?n]" ?q]
      by (simp add: message_at_def find_append create_message_def Let_def)
  next
    case (Some r')
    then show ?thesis using found [of i] added_messages [of "[?n]" ?q] by (simp add: message_at_def find_append)
  qed
  have "set (ms_list (addMessages [?n] ?q)) = set (ms_list p1)"
    using loaded_by_id [of "addMessages [?n] ?q"] loaded_by_id [of p1] added_messages [of "[?n]" ?q] c(5) at
    by (simp add: pane_ok_def)
  moreover have "findMessage (md_id d) p2 = findMessage (md_id d) p1"
    using at [of "ServerId (md_id d)"] by (simp add: findMessage_at message_at_def p2)
  ultimately show ?thesis using c(1,3) by (simp add: p2)
qed

section \<open>Where the order of events matters\<close>

text \<open>
  A message of the user that is loaded before the message bus confirms it appears twice; and after a
  bulk deletion that takes the last message read, everything counts as unread.
\<close>

definition demo_data :: "int \<Rightarrow> int \<Rightarrow> int \<Rightarrow> message_data" where
  "demo_data i user at =
     \<lparr>md_id = i, md_user = user, md_created_at = at, md_message = [], md_cooked = [], md_excerpt = [], md_uploads = None,
      md_edited = None, md_streaming = False, md_hidden = None, md_expanded = None, md_deleted_at = None, md_deleted_by_id = None,
      md_in_reply_to = None, md_user_flag_status = None, md_reviewable_id = None, md_reactions = None\<rparr>"

definition demo_pane :: chat_pane where
  "demo_pane = \<lparr>ms_heap = (\<lambda>r. if r = 0 then create_message (demo_data 5 1 10)
                              else staged_message ''g'' 20 (create_message (demo_data 0 1 0))),
     ms_next = 2, ms_list = [0, 1], cp_lastMessage = None, cp_member = True, cp_lastRead = Some 5, cp_busId = 0\<rparr>"

definition demo_user :: chat_user where
  "demo_user = \<lparr>cu_id = 1, cu_staff = False\<rparr>"

lemmas pane_demo_defs = demo_pane_def demo_user_def demo_data_def create_message_def staged_message_def chat_default_def Let_def

lemma demo_pane_ok: "pane_ok demo_pane"
  by (simp add: pane_ok_def ids_def pane_demo_defs)

lemma loaded_before_confirmed:
  "ids (handle_event add_new demo_user (Sent (demo_data 7 1 21) (Some ''g''))
          (snd (let (r, p) = new_message (create_message (demo_data 7 1 21)) demo_pane in (r, addMessages [r] p)))) =
     [ServerId 5, ServerId 7, ServerId 7]"
  by code_simp

lemma bulk_forgets_last_read:
  "cp_lastRead (handle_event add_new demo_user (BulkDeleted [5] 30) demo_pane) = None"
  by code_simp

lemma delete_moves_last_read:
  "cp_lastRead (handle_event add_new demo_user (Deleted 5 30 (Some 1) (Some 4)) demo_pane) = Some 4"
  by code_simp

lemma thread_edit_keeps_text:
  "findMessage (md_id d) p = Some r \<Longrightarrow>
   cm_message (ms_heap (thread_handle_event onNew u (Edited d) p) r) = cm_message (ms_heap p r)"
  by (simp add: thread_handleEditMessage_def on_found_def thread_edited_def)

theorem own_message_shown_once_witness:
  "findMessage 7 (handle_event add_new demo_user (Sent (demo_data 7 1 21) (Some ''g'')) demo_pane) = Some 1"
proof -
  have "findStagedMessage ''g'' demo_pane = Some 1" by (simp add: findStagedMessage_def stagedMessages_def pane_demo_defs)
  moreover have "findMessage (md_id (demo_data 7 1 21)) demo_pane = None" by (simp add: findMessage_def pane_demo_defs)
  ultimately show ?thesis
    using own_message_shown_once [of "''g''" demo_pane 1 "demo_data 7 1 21" demo_user] demo_pane_ok by (simp add: demo_user_def demo_data_def)
qed

theorem pane_events_ok_witness:
  "pane_ok (onMessage add_new demo_user (BulkDeleted [5] 30) 1 demo_pane)"
  using pane_events_ok [OF demo_pane_ok, of "BulkDeleted [5] 30" demo_user 1] by simp

theorem bulk_delete_hides_witness:
  "hidden_when_deleted demo_user 5 (handle_event add_new demo_user (BulkDeleted [5] 30) demo_pane)"
  by (rule bulk_delete_hides [OF demo_pane_ok]) simp

end
