(* ===== verification/ChatPending.thy ===== *)
theory ChatPending
  imports JsPrelude
begin

text \<open>
  The messages that arrived while the user was away or had scrolled up, for every open channel or
  thread (\<open>services/chat-pane-pending-manager.js\<close>), the state of one of them
  (\<open>lib/chat-pane-state.js\<close>), and its requests for more messages
  (\<open>lib/chat-messages-loader.js\<close>) of the chat plugin.
\<close>

section \<open>Counts\<close>

record pending_counts =
  pd_total :: int
  pd_counts :: "(string, int) omap"

definition no_pending :: pending_counts where
  "no_pending = \<lparr>pd_total = 0, pd_counts = []\<rparr>"

definition getCount :: "string \<Rightarrow> pending_counts \<Rightarrow> int" where
  "getCount k s = (case om_get (pd_counts s) k of Some n \<Rightarrow> n | None \<Rightarrow> 0)"

definition hasPending :: "string \<Rightarrow> pending_counts \<Rightarrow> bool" where
  "hasPending k s \<longleftrightarrow> getCount k s > 0"

text \<open>Whether the count has changed, and the new state.\<close>

definition setCount :: "string \<Rightarrow> int \<Rightarrow> pending_counts \<Rightarrow> bool \<times> pending_counts" where
  "setCount k newCount s =
     (let oldCount = getCount k s
      in if newCount = oldCount then (False, s)
         else (True, \<lparr>pd_total = max 0 (pd_total s + (newCount - oldCount)),
                      pd_counts = (if newCount > 0 then om_set k newCount (pd_counts s) else om_delete k (pd_counts s))\<rparr>))"

definition add_pending :: "string \<Rightarrow> int \<Rightarrow> pending_counts \<Rightarrow> bool \<times> pending_counts" where
  "add_pending k count s = (if k = [] \<or> count \<le> 0 then (False, s) else setCount k (getCount k s + count) s)"

definition clear_pending :: "string \<Rightarrow> pending_counts \<Rightarrow> bool \<times> pending_counts" where
  "clear_pending k s = (if k = [] then (False, s) else setCount k 0 s)"

section \<open>One pane\<close>

record scroller =
  sc_height :: int
  sc_client :: int
  sc_top :: int

record pane_state =
  ps_key :: string
  ps_present :: bool
  ps_below :: bool
  ps_pending :: pending_counts

definition canScroll :: "scroller option \<Rightarrow> bool" where
  "canScroll sc = (case sc of Some x \<Rightarrow> sc_height x - sc_client x > 1 | None \<Rightarrow> False)"

definition computeIsScrolledAway :: "bool \<Rightarrow> bool \<Rightarrow> int \<Rightarrow> int option \<Rightarrow> bool" where
  "computeIsScrolledAway fetchedOnce future distance threshold \<longleftrightarrow>
     fetchedOnce \<and> future \<or> distance > (case threshold of Some t \<Rightarrow> t | None \<Rightarrow> 250)"

definition hasPendingMessages :: "pane_state \<Rightarrow> bool" where
  "hasPendingMessages p = hasPending (ps_key p) (ps_pending p)"

definition computeHasPendingContentBelow :: "scroller option \<Rightarrow> bool \<Rightarrow> pane_state \<Rightarrow> bool" where
  "computeHasPendingContentBelow sc away p \<longleftrightarrow> canScroll sc \<and> (hasPendingMessages p \<or> away)"

definition updatePendingContentFromScrollState ::
    "scroller option \<Rightarrow> bool \<Rightarrow> bool \<Rightarrow> int option \<Rightarrow> int option \<Rightarrow> pane_state \<Rightarrow> pane_state" where
  "updatePendingContentFromScrollState sc fetchedOnce future distance threshold p =
     p\<lparr>ps_below := computeHasPendingContentBelow sc
         (computeIsScrolledAway fetchedOnce future (case distance of Some d \<Rightarrow> d | None \<Rightarrow> 0) threshold) p\<rparr>"

definition updatePendingContentFromScrollerPosition ::
    "scroller option \<Rightarrow> bool \<Rightarrow> bool \<Rightarrow> int option \<Rightarrow> pane_state \<Rightarrow> pane_state" where
  "updatePendingContentFromScrollerPosition sc fetchedOnce future threshold p =
     (case sc of
        None \<Rightarrow> p\<lparr>ps_below := False\<rparr>
      | Some x \<Rightarrow> p\<lparr>ps_below := computeHasPendingContentBelow sc (computeIsScrolledAway fetchedOnce future (- sc_top x) threshold) p\<rparr>)"

definition addPendingMessages :: "int \<Rightarrow> pane_state \<Rightarrow> pane_state" where
  "addPendingMessages count p =
     (if ps_key p \<noteq> [] \<and> count > 0 then p\<lparr>ps_pending := snd (add_pending (ps_key p) count (ps_pending p))\<rparr> else p)"

definition clearPendingMessages :: "pane_state \<Rightarrow> pane_state" where
  "clearPendingMessages p =
     (let p1 = (if ps_key p \<noteq> [] then p\<lparr>ps_pending := snd (clear_pending (ps_key p) (ps_pending p))\<rparr> else p)
      in p1\<lparr>ps_below := False\<rparr>)"

definition onPresenceChangeCallback :: "bool \<Rightarrow> pane_state \<Rightarrow> pane_state" where
  "onPresenceChangeCallback present p = p\<lparr>ps_present := present\<rparr>"

definition teardown :: "pane_state \<Rightarrow> pane_state" where
  "teardown p = clearPendingMessages p"

text \<open>Whether the user is to be shown the bottom of the pane, after a render when not.\<close>

definition handleIncomingMessage :: "bool \<Rightarrow> int \<Rightarrow> pane_state \<Rightarrow> pane_state" where
  "handleIncomingMessage shouldAutoScroll count p =
     (if shouldAutoScroll then clearPendingMessages p else addPendingMessages count p)"

definition incoming_rendered :: "scroller option \<Rightarrow> pane_state \<Rightarrow> pane_state" where
  "incoming_rendered sc p = p\<lparr>ps_below := computeHasPendingContentBelow sc False p\<rparr>"

section \<open>Requests\<close>

datatype load_direction = PAST | FUTURE

record loader =
  ld_loading :: bool
  ld_past :: bool
  ld_future :: bool
  ld_fetched :: bool

definition new_loader :: loader where
  "new_loader = \<lparr>ld_loading = False, ld_past = False, ld_future = False, ld_fetched = False\<rparr>"

definition loadedPast :: "loader \<Rightarrow> bool" where
  "loadedPast l \<longleftrightarrow> \<not> ld_past l \<and> ld_fetched l"

definition load_start :: "loader \<Rightarrow> loader" where
  "load_start l = \<lparr>ld_loading = True, ld_past = True, ld_future = True, ld_fetched = False\<rparr>"

text \<open>The answer says whether there is more in the future and in the past; a failed request has none.\<close>

definition load_done :: "(bool \<times> bool) option \<Rightarrow> loader \<Rightarrow> loader" where
  "load_done meta l =
     (case meta of
        Some (future, past) \<Rightarrow> l\<lparr>ld_future := future, ld_past := past, ld_fetched := True, ld_loading := False\<rparr>
      | None \<Rightarrow> l\<lparr>ld_loading := False\<rparr>)"

definition computeNextTargetMessage :: "('m \<Rightarrow> bool) \<Rightarrow> load_direction \<Rightarrow> 'm list \<Rightarrow> 'm option" where
  "computeNextTargetMessage staged dir ms =
     (case dir of PAST \<Rightarrow> find (\<lambda>m. \<not> staged m) ms | FUTURE \<Rightarrow> find (\<lambda>m. \<not> staged m) (rev ms))"

text \<open>Nothing where there is no more; otherwise the message from which the request goes on, if there is one.\<close>

definition loadMore_start :: "('m \<Rightarrow> bool) \<Rightarrow> load_direction \<Rightarrow> 'm list \<Rightarrow> loader \<Rightarrow> ('m option \<times> loader) option" where
  "loadMore_start staged dir ms l =
     (if (case dir of FUTURE \<Rightarrow> \<not> ld_future l | PAST \<Rightarrow> \<not> ld_past l) then None
      else Some (computeNextTargetMessage staged dir ms, l\<lparr>ld_loading := True\<rparr>))"

definition loadMore_done :: "(bool \<times> bool) option \<Rightarrow> loader \<Rightarrow> loader" where
  "loadMore_done meta l =
     (case meta of
        Some (future, past) \<Rightarrow> l\<lparr>ld_future := future, ld_past := past, ld_loading := False\<rparr>
      | None \<Rightarrow> l\<lparr>ld_loading := False\<rparr>)"

section \<open>The total is the sum of the counts\<close>

definition counts_ok :: "pending_counts \<Rightarrow> bool" where
  "counts_ok s \<longleftrightarrow> om_wf (pd_counts s) \<and> (\<forall>n\<in>set (om_values (pd_counts s)). n > 0) \<and> pd_total s = sum_list (om_values (pd_counts s))"

lemma total_set:
  "sum_list (om_values (om_set k (v :: int) m)) = sum_list (om_values m) - (case om_get m k of Some n \<Rightarrow> n | None \<Rightarrow> 0) + v"
  by (induction k v m rule: om_set.induct) auto

lemma total_delete:
  "om_wf m \<Longrightarrow> sum_list (om_values (om_delete k m)) = sum_list (om_values m) - (case om_get m k of Some (n :: int) \<Rightarrow> n | None \<Rightarrow> 0)"
proof (induction m)
  case (Cons p m)
  have eq: "om_delete k (p # m) = (if fst p = k then om_delete k m else p # om_delete k m)" by (simp add: om_delete_def)
  show ?case
  proof (cases "fst p = k")
    case True
    then have "om_get m k = None" using Cons.prems by (auto simp: map_of_eq_None_iff)
    then show ?thesis using True eq by (simp add: om_delete_absent)
  next
    case False
    then show ?thesis using Cons eq by (cases p) simp
  qed
qed (simp add: om_delete_def)

lemma getCount_le_total:
  assumes "counts_ok s"
  shows "0 \<le> getCount k s \<and> getCount k s \<le> pd_total s"
proof -
  have nonneg: "sum_list (om_values m) \<ge> 0" if "\<forall>n\<in>set (om_values m). n > 0" for m :: "(string, int) omap"
    using that by (intro sum_list_nonneg) auto
  show ?thesis
  proof (cases "om_get (pd_counts s) k")
    case None
    then show ?thesis using assms nonneg [of "pd_counts s"] by (simp add: getCount_def counts_ok_def)
  next
    case (Some n)
    have "sum_list (om_values (om_delete k (pd_counts s))) \<ge> 0"
      using assms by (intro nonneg) (auto simp: counts_ok_def om_delete_def)
    moreover have "n \<in> set (om_values (pd_counts s))" using map_of_SomeD [OF Some] by force
    ultimately show ?thesis using Some assms total_delete [of "pd_counts s" k] by (auto simp: getCount_def counts_ok_def)
  qed
qed

lemma values_set: "set (om_values (om_set k v m)) \<subseteq> insert v (set (om_values m))"
  by (induction k v m rule: om_set.induct) auto

lemma setCount_ok:
  assumes "counts_ok s" "0 \<le> n"
  shows "counts_ok (snd (setCount k n s))" "getCount k' (snd (setCount k n s)) = (if k' = k then n else getCount k' s)"
    "fst (setCount k n s) = (n \<noteq> getCount k s)"
proof -
  have wf: "om_wf (pd_counts s)" and pos: "\<forall>x\<in>set (om_values (pd_counts s)). x > 0" and t: "pd_total s = sum_list (om_values (pd_counts s))"
    using assms(1) by (simp_all add: counts_ok_def)
  have le: "0 \<le> getCount k s" "getCount k s \<le> pd_total s" using getCount_le_total [OF assms(1)] by blast+
  show "counts_ok (snd (setCount k n s))"
  proof (cases "n = getCount k s")
    case True
    then show ?thesis using assms(1) by (simp add: setCount_def)
  next
    case False
    define m where "m = (if n > 0 then om_set k n (pd_counts s) else om_delete k (pd_counts s))"
    have new: "snd (setCount k n s) = \<lparr>pd_total = pd_total s + (n - getCount k s), pd_counts = m\<rparr>"
      using False le assms(2) by (simp add: setCount_def Let_def m_def)
    have "om_wf m" using wf by (simp add: m_def)
    moreover have "\<forall>x\<in>set (om_values m). x > 0"
    proof (cases "n > 0")
      case True
      then show ?thesis using pos subsetD [OF values_set [of k n "pd_counts s"]] by (auto simp: m_def simp del: set_map list.set_map)
    next
      case False
      then show ?thesis using pos by (auto simp: m_def om_delete_def)
    qed
    moreover have "sum_list (om_values m) = pd_total s + (n - getCount k s)"
      using assms(2) by (simp add: m_def t total_set total_delete [OF wf] getCount_def)
    ultimately show ?thesis by (simp add: counts_ok_def new)
  qed
  show "getCount k' (snd (setCount k n s)) = (if k' = k then n else getCount k' s)"
    using assms(2) by (auto simp: setCount_def Let_def getCount_def)
  show "fst (setCount k n s) = (n \<noteq> getCount k s)" by (simp add: setCount_def Let_def)
qed

text \<open>What a pane does to the counts, and how many messages it should show.\<close>

datatype pending_op = AddPending string int | ClearPending string

primrec pending_step :: "pending_op \<Rightarrow> pending_counts \<Rightarrow> pending_counts" where
  "pending_step (AddPending k n) s = snd (add_pending k n s)"
| "pending_step (ClearPending k) s = snd (clear_pending k s)"

fun arrived :: "string \<Rightarrow> pending_op list \<Rightarrow> int" where
  "arrived k [] = 0"
| "arrived k (AddPending k' n # ops) = arrived k ops + (if k' = k \<and> n > 0 then n else 0)"
| "arrived k (ClearPending k' # ops) = (if k' = k then 0 else arrived k ops)"

lemma pending_step_ok:
  assumes "counts_ok s"
  shows "counts_ok (pending_step x s)"
  using setCount_ok(1) [OF assms] getCount_le_total [OF assms] assms
  by (cases x) (simp_all add: add_pending_def clear_pending_def)

lemma pending_step_count:
  assumes "counts_ok s" "k \<noteq> []"
  shows "getCount k (pending_step x s) =
    (case x of AddPending k' n \<Rightarrow> getCount k s + (if k' = k \<and> n > 0 then n else 0)
             | ClearPending k' \<Rightarrow> if k' = k then 0 else getCount k s)"
  using setCount_ok(2) [OF assms(1)] getCount_le_total [OF assms(1)] assms(2)
  by (cases x) (auto simp: add_pending_def clear_pending_def)

text \<open>
  Whatever the panes add and clear, the number in the title of the page is the sum of the numbers of
  all panes, none of which is negative, and each pane shows what has arrived since it was cleared last.
\<close>

theorem pending_adds_up:
  assumes "k \<noteq> []"
  shows "pd_total (foldr pending_step ops no_pending) = sum_list (om_values (pd_counts (foldr pending_step ops no_pending))) \<and>
    0 \<le> getCount k (foldr pending_step ops no_pending) \<and>
    getCount k (foldr pending_step ops no_pending) \<le> pd_total (foldr pending_step ops no_pending) \<and>
    getCount k (foldr pending_step ops no_pending) = arrived k ops"
proof -
  have ok: "counts_ok (foldr pending_step ops no_pending)"
    by (induction ops) (simp_all add: pending_step_ok, simp add: counts_ok_def no_pending_def)
  have "getCount k (foldr pending_step ops no_pending) = arrived k ops"
  proof (induction ops)
    case Nil
    then show ?case by (simp add: no_pending_def getCount_def)
  next
    case (Cons x ops)
    have "counts_ok (foldr pending_step ops no_pending)"
      by (induction ops) (simp_all add: pending_step_ok, simp add: counts_ok_def no_pending_def)
    from pending_step_count [OF this assms, of x] Cons show ?case by (cases x) simp_all
  qed
  then show ?thesis using ok getCount_le_total [OF ok, of k] by (simp add: counts_ok_def)
qed

theorem pending_adds_up_witness:
  "getCount ''channel:1'' (foldr pending_step [AddPending ''channel:1'' 2, AddPending ''channel:2'' 1, ClearPending ''channel:1'', AddPending ''channel:1'' 5] no_pending) = 2"
  using pending_adds_up [of "''channel:1''" "[AddPending ''channel:1'' 2, AddPending ''channel:2'' 1, ClearPending ''channel:1'', AddPending ''channel:1'' 5]"]
  by simp

section \<open>Panes and requests\<close>

lemma auto_scroll_clears:
  assumes "counts_ok (ps_pending p)" "ps_key p \<noteq> []"
  shows "\<not> hasPendingMessages (handleIncomingMessage True n p)" "\<not> ps_below (handleIncomingMessage True n p)"
  using assms setCount_ok(2) [OF assms(1), of 0 "ps_key p" "ps_key p"]
  by (simp_all add: handleIncomingMessage_def clearPendingMessages_def clear_pending_def Let_def hasPendingMessages_def hasPending_def)

lemma incoming_is_pending:
  assumes "counts_ok (ps_pending p)" "ps_key p \<noteq> []" "n > 0" "canScroll sc"
  shows "ps_below (incoming_rendered sc (handleIncomingMessage False n p))"
proof -
  let ?s = "ps_pending p" and ?k = "ps_key p"
  have "0 \<le> getCount ?k ?s" using getCount_le_total [OF assms(1)] by blast
  then have "getCount ?k (snd (add_pending ?k n ?s)) > 0"
    using setCount_ok(2) [OF assms(1), of "getCount ?k ?s + n" ?k ?k] assms(2,3) by (simp add: add_pending_def)
  then show ?thesis
    using assms by (simp add: incoming_rendered_def handleIncomingMessage_def addPendingMessages_def
      computeHasPendingContentBelow_def hasPendingMessages_def hasPending_def)
qed

lemma load_stops: "\<not> ld_loading (load_done meta (load_start l))" "\<not> ld_loading (loadMore_done meta l)"
  by (simp_all add: load_done_def load_start_def loadMore_done_def split: option.split)

text \<open>A first request that fails leaves the pane able to ask for the past and the future, from no message.\<close>

lemma failed_load_goes_on:
  "loadMore_start staged dir [] (load_done None (load_start l)) = Some (None, \<lparr>ld_loading = True, ld_past = True, ld_future = True, ld_fetched = False\<rparr>)"
  by (cases dir) (simp_all add: load_done_def load_start_def loadMore_start_def computeNextTargetMessage_def)

lemma find_in: "find P xs = Some x \<Longrightarrow> x \<in> set xs \<and> P x"
  by (induction xs) (auto split: if_splits)

lemma target_saved: "computeNextTargetMessage staged dir ms = Some m \<Longrightarrow> m \<in> set ms \<and> \<not> staged m"
  by (cases dir) (auto simp: computeNextTargetMessage_def dest: find_in)

end
