(* ===== verification/ChatTracking.thy ===== *)
theory ChatTracking
  imports JsPrelude
begin

text \<open>
  Which chat channels the user has, what is unread in them, and how the message bus changes both:
  \<open>services/chat-channels-manager.js\<close>, \<open>services/chat-subscriptions-manager.js\<close>,
  \<open>services/chat-tracking-state-manager.js\<close>, \<open>models/chat-tracking-state.js\<close>,
  \<open>lib/chat-threads-manager.js\<close> and parts of \<open>models/chat-channel.js\<close> of the chat plugin.

  What a channel or thread that is not loaded would be is a parameter of the events: the answer of
  the server, which is nothing when the request fails.
\<close>

section \<open>Counts\<close>

text \<open>A number of calls of \<open>triggerNotificationsChanged\<close> is kept with the counts.\<close>

record chat_counts =
  tr_unread :: int
  tr_mention :: int
  tr_watched :: int
  tr_triggered :: nat

definition new_tracking :: chat_counts where
  "new_tracking = \<lparr>tr_unread = 0, tr_mention = 0, tr_watched = 0, tr_triggered = 0\<rparr>"

definition reset_tracking :: "chat_counts \<Rightarrow> chat_counts" where
  "reset_tracking t = t\<lparr>tr_unread := 0, tr_mention := 0, tr_watched := 0\<rparr>"

definition set_unreadCount :: "int \<Rightarrow> chat_counts \<Rightarrow> chat_counts" where
  "set_unreadCount v t = (if tr_unread t \<noteq> v then t\<lparr>tr_unread := v, tr_triggered := Suc (tr_triggered t)\<rparr> else t)"

definition set_mentionCount :: "int \<Rightarrow> chat_counts \<Rightarrow> chat_counts" where
  "set_mentionCount v t = (if tr_mention t \<noteq> v then t\<lparr>tr_mention := v, tr_triggered := Suc (tr_triggered t)\<rparr> else t)"

definition set_watchedThreadsUnreadCount :: "int \<Rightarrow> chat_counts \<Rightarrow> chat_counts" where
  "set_watchedThreadsUnreadCount v t = (if tr_watched t \<noteq> v then t\<lparr>tr_watched := v, tr_triggered := Suc (tr_triggered t)\<rparr> else t)"

record counts_data =
  cd_unread :: int
  cd_mention :: int
  cd_watched :: int

definition set_counts :: "counts_data \<Rightarrow> chat_counts \<Rightarrow> chat_counts" where
  "set_counts d t = set_watchedThreadsUnreadCount (cd_watched d) (set_mentionCount (cd_mention d) (set_unreadCount (cd_unread d) t))"

section \<open>Threads and channels\<close>

datatype notification_level = MUTED | REGULAR | TRACKING | WATCHING

record thread_membership =
  tm_lastRead :: "int option"
  tm_level :: notification_level

definition isQuiet :: "thread_membership \<Rightarrow> bool" where
  "isQuiet m \<longleftrightarrow> tm_level m = REGULAR \<or> tm_level m = MUTED"

record chat_thread =
  th_id :: int
  th_member :: "thread_membership option"
  th_tracking :: chat_counts
  th_lastMessageId :: "int option"

record chat_membership =
  mb_following :: bool
  mb_muted :: bool
  mb_starred :: bool
  mb_lastRead :: jsval
  mb_lastViewed :: int

datatype channel_status = OpenChannel | ReadOnlyChannel | ClosedChannel | ArchivedChannel

text \<open>A message as a channel keeps it: its number and date.\<close>

record chat_channel =
  cc_id :: int
  cc_direct :: bool
  cc_title :: string
  cc_slug :: string
  cc_description :: string
  cc_status :: channel_status
  cc_threading :: bool
  cc_members :: int
  cc_member :: chat_membership
  cc_tracking :: chat_counts
  cc_lastMessage :: "(int \<times> int) option"
  cc_threads :: "(int, chat_thread) omap"
  cc_overview :: "(int, int) omap"

definition markThreadUnread :: "int \<Rightarrow> int \<Rightarrow> chat_channel \<Rightarrow> chat_channel" where
  "markThreadUnread t at c = c\<lparr>cc_overview := om_set t at (cc_overview c)\<rparr>"

definition set_overview :: "(int \<times> int) list \<Rightarrow> chat_channel \<Rightarrow> chat_channel" where
  "set_overview ov c = fold (\<lambda>(t, at). markThreadUnread t at) ov (c\<lparr>cc_overview := []\<rparr>)"

definition unreadThreadCount :: "chat_channel \<Rightarrow> nat" where
  "unreadThreadCount c = length (cc_overview c)"

definition unreadThreadsCountSinceLastViewed :: "chat_channel \<Rightarrow> nat" where
  "unreadThreadsCountSinceLastViewed c = length (filter (\<lambda>at. mb_lastViewed (cc_member c) \<le> at) (om_values (cc_overview c)))"

definition unreadThreadsCount :: "chat_channel \<Rightarrow> nat" where
  "unreadThreadsCount c = (if cc_threading c then unreadThreadCount c else 0)"

definition hasUnread :: "chat_channel \<Rightarrow> bool" where
  "hasUnread c \<longleftrightarrow> tr_unread (cc_tracking c) + tr_mention (cc_tracking c) + tr_watched (cc_tracking c) + int (unreadThreadCount c) > 0"

definition updateLastViewedAt :: "int \<Rightarrow> chat_channel \<Rightarrow> chat_channel" where
  "updateLastViewedAt now c = c\<lparr>cc_member := (cc_member c)\<lparr>mb_lastViewed := now\<rparr>\<rparr>"

definition isJoinable :: "chat_channel \<Rightarrow> bool" where
  "isJoinable c \<longleftrightarrow> cc_status c = OpenChannel \<and> cc_status c \<noteq> ArchivedChannel"

definition canModifyMessages :: "bool \<Rightarrow> chat_channel \<Rightarrow> bool" where
  "canModifyMessages staff c \<longleftrightarrow>
     (if staff then cc_status c \<notin> {ReadOnlyChannel, ArchivedChannel}
      else cc_status c \<notin> {ClosedChannel, ReadOnlyChannel, ArchivedChannel})"

text \<open>The manager of the threads of a channel: what is loaded is not asked for.\<close>

definition add_thread :: "bool \<Rightarrow> chat_thread \<Rightarrow> chat_channel \<Rightarrow> chat_thread \<times> chat_channel" where
  "add_thread replace t c =
     (case (if replace then None else om_get (cc_threads c) (th_id t)) of
        Some t' \<Rightarrow> (t', c)
      | None \<Rightarrow> (t, c\<lparr>cc_threads := om_set (th_id t) t (cc_threads c)\<rparr>))"

definition remove_thread :: "int \<Rightarrow> chat_channel \<Rightarrow> chat_channel" where
  "remove_thread t c = c\<lparr>cc_threads := om_delete t (cc_threads c)\<rparr>"

definition find_thread :: "int \<Rightarrow> chat_thread option \<Rightarrow> chat_channel \<Rightarrow> (chat_thread \<times> chat_channel) option" where
  "find_thread i fetched c =
     (case om_get (cc_threads c) i of
        Some t \<Rightarrow> Some (t, c)
      | None \<Rightarrow> map_option (\<lambda>t. add_thread False t c) fetched)"

definition on_thread :: "chat_thread \<Rightarrow> (chat_thread \<Rightarrow> chat_thread) \<Rightarrow> chat_channel \<Rightarrow> chat_channel" where
  "on_thread t f c = c\<lparr>cc_threads := om_set (th_id t) (f t) (cc_threads c)\<rparr>"

section \<open>The channels and their subscriptions\<close>

datatype bus_topic = NewMessages | NewMentions | Kick

text \<open>A subscription is a pair of a channel and a topic; the list has a pair as often as it was made.\<close>

record chat_state =
  cs_cached :: "(int, chat_channel) omap"
  cs_subscribed :: "int list"
  cs_bus :: "(int \<times> bus_topic) list"
  cs_active :: "int option"
  cs_dialog :: "int option"

definition bus_unsubscribe :: "int \<Rightarrow> bus_topic \<Rightarrow> chat_state \<Rightarrow> chat_state" where
  "bus_unsubscribe i x s = s\<lparr>cs_bus := filter (\<lambda>y. y \<noteq> (i, x)) (cs_bus s)\<rparr>"

definition bus_subscribe :: "int \<Rightarrow> bus_topic \<Rightarrow> chat_state \<Rightarrow> chat_state" where
  "bus_subscribe i x s = s\<lparr>cs_bus := cs_bus s @ [(i, x)]\<rparr>"

definition startChannelSubscription :: "chat_channel \<Rightarrow> chat_state \<Rightarrow> chat_state" where
  "startChannelSubscription c s =
     (if mb_muted (cc_member c) \<or> cc_id c \<in> set (cs_subscribed s) then s
      else let s1 = bus_subscribe (cc_id c) NewMentions (s\<lparr>cs_subscribed := push_new (cc_id c) (cs_subscribed s)\<rparr>);
               s2 = (if cc_direct c then s1 else bus_subscribe (cc_id c) Kick s1)
           in bus_subscribe (cc_id c) NewMessages s2)"

definition stopChannelSubscription :: "chat_channel \<Rightarrow> chat_state \<Rightarrow> chat_state" where
  "stopChannelSubscription c s =
     (let s1 = bus_unsubscribe (cc_id c) NewMessages s;
          s2 = (if cc_direct c then s1 else bus_unsubscribe (cc_id c) Kick (bus_unsubscribe (cc_id c) NewMentions s1))
      in s2\<lparr>cs_subscribed := filter (\<lambda>i. i \<noteq> cc_id c) (cs_subscribed s2)\<rparr>)"

definition store_channel :: "bool \<Rightarrow> chat_channel \<Rightarrow> chat_state \<Rightarrow> chat_channel \<times> chat_state" where
  "store_channel replace c s =
     (case (if replace then None else om_get (cs_cached s) (cc_id c)) of
        Some c' \<Rightarrow> (c', s)
      | None \<Rightarrow> (c, s\<lparr>cs_cached := om_set (cc_id c) c (cs_cached s)\<rparr>))"

definition find_channel :: "bool \<Rightarrow> int \<Rightarrow> chat_channel option \<Rightarrow> chat_state \<Rightarrow> chat_channel option \<times> chat_state" where
  "find_channel fetchIfNotFound i fetched s =
     (case om_get (cs_cached s) i of
        Some c \<Rightarrow> (Some c, s)
      | None \<Rightarrow>
          (case fetched of
             Some c \<Rightarrow> if fetchIfNotFound then (let (c', s1) = store_channel False c s in (Some c', s1)) else (None, s)
           | None \<Rightarrow> (None, s)))"

text \<open>A channel object is known by its number: a change of it is one of the entry that holds it.\<close>

definition put_channel :: "chat_channel \<Rightarrow> chat_state \<Rightarrow> chat_state" where
  "put_channel c s = s\<lparr>cs_cached := om_set (cc_id c) c (cs_cached s)\<rparr>"

text \<open>An event about a channel; a channel that the server does not give is \<open>undefined\<close>, and using it fails.\<close>

definition with_channel ::
    "int \<Rightarrow> chat_channel option \<Rightarrow> (chat_channel \<Rightarrow> chat_channel) \<Rightarrow> chat_state \<Rightarrow> chat_state result" where
  "with_channel i fetched f s =
     (case find_channel True i fetched s of
        (Some c, s1) \<Rightarrow> Inr (put_channel (f c) s1)
      | (None, s1) \<Rightarrow> Inl (TypeError ''channel''))"

text \<open>Following and leaving a channel, up to their requests and from their answers.\<close>

definition on_channel :: "int \<Rightarrow> (chat_channel \<Rightarrow> chat_channel) \<Rightarrow> chat_state \<Rightarrow> chat_state" where
  "on_channel i f s = (case om_get (cs_cached s) i of Some c \<Rightarrow> put_channel (f c) s | None \<Rightarrow> s)"

definition follow_start :: "chat_channel \<Rightarrow> chat_state \<Rightarrow> bool \<times> chat_state" where
  "follow_start c s = (\<not> mb_following (cc_member c), startChannelSubscription c s)"

definition unfollow_start :: "chat_channel \<Rightarrow> chat_state \<Rightarrow> chat_state" where
  "unfollow_start c s = stopChannelSubscription c s"

definition membership_answered :: "int \<Rightarrow> chat_membership option \<Rightarrow> chat_state \<Rightarrow> chat_state" where
  "membership_answered i answer s =
     (case answer of Some m \<Rightarrow> on_channel i (\<lambda>c. c\<lparr>cc_member := m\<rparr>) s | None \<Rightarrow> s)"

definition remove_channel :: "chat_channel \<Rightarrow> chat_state \<Rightarrow> chat_state" where
  "remove_channel c s = (let s1 = stopChannelSubscription c s in s1\<lparr>cs_cached := om_delete (cc_id c) (cs_cached s1)\<rparr>)"

section \<open>The message bus\<close>

record chat_me =
  me_id :: int
  me_ignored :: "string list"

text \<open>A new message: its number, date, author and thread.\<close>

record new_message_data =
  nm_id :: int
  nm_created_at :: int
  nm_user :: int
  nm_username :: string
  nm_thread :: "int option"
  nm_force_thread :: bool

definition on_tracking :: "(chat_counts \<Rightarrow> chat_counts) \<Rightarrow> chat_channel \<Rightarrow> chat_channel" where
  "on_tracking f c = c\<lparr>cc_tracking := f (cc_tracking c)\<rparr>"

definition set_lastRead :: "jsval \<Rightarrow> chat_channel \<Rightarrow> chat_channel" where
  "set_lastRead v c = c\<lparr>cc_member := (cc_member c)\<lparr>mb_lastRead := v\<rparr>\<rparr>"

definition updateActiveLastViewedAt :: "int option \<Rightarrow> int \<Rightarrow> chat_channel \<Rightarrow> chat_channel" where
  "updateActiveLastViewedAt active now c = (if active = Some (cc_id c) then updateLastViewedAt now c else c)"

definition onNewMentions :: "int \<Rightarrow> int \<Rightarrow> chat_channel option \<Rightarrow> chat_state \<Rightarrow> chat_state result" where
  "onNewMentions channel_id message_id fetched s =
     with_channel channel_id fetched
       (\<lambda>c. if js_less (mb_lastRead (cc_member c)) (JNum message_id)
             then on_tracking (\<lambda>t. set_mentionCount (tr_mention t + 1) t) c else c) s"

text \<open>What a new message does to a channel; of the thread only the unread mark.\<close>

definition thread_of_message :: "int option \<Rightarrow> int \<Rightarrow> new_message_data \<Rightarrow> chat_thread option \<Rightarrow> chat_channel \<Rightarrow> chat_channel" where
  "thread_of_message active now d fetched c =
     (case nm_thread d of
        Some t \<Rightarrow>
          if t \<noteq> 0 \<and> cc_threading c
          then (case find_thread t fetched c of
                  Some (th, c1) \<Rightarrow>
                    if th_member th \<noteq> None then updateActiveLastViewedAt active now (markThreadUnread t (nm_created_at d) c1) else c1
                | None \<Rightarrow> c)
          else c
      | None \<Rightarrow> c)"

definition new_channel_message ::
    "chat_me \<Rightarrow> int option \<Rightarrow> int \<Rightarrow> new_message_data \<Rightarrow> chat_thread option \<Rightarrow> chat_channel \<Rightarrow> chat_channel" where
  "new_channel_message me active now d fetched c =
     (let c1 = c\<lparr>cc_lastMessage := Some (nm_id d, nm_created_at d)\<rparr>
      in if nm_user d = me_id me \<or> nm_username d \<in> set (me_ignored me) then set_lastRead (JNum (nm_id d)) c1
         else let last = mb_lastRead (cc_member c1);
                  c2 = (if js_less (if truthy last then last else JNum 0) (JNum (nm_id d))
                        then on_tracking (\<lambda>t. set_unreadCount (tr_unread t + 1) t) c1 else c1)
              in thread_of_message active now d fetched c2)"

definition onNewChannelMessage ::
    "chat_me \<Rightarrow> int \<Rightarrow> int \<Rightarrow> new_message_data \<Rightarrow> chat_channel option \<Rightarrow> chat_thread option \<Rightarrow> chat_state \<Rightarrow> chat_state result" where
  "onNewChannelMessage me now i d fetched fetched_thread s =
     with_channel i fetched (new_channel_message me (cs_active s) now d fetched_thread) s"

definition set_thread_lastRead :: "int \<Rightarrow> chat_thread \<Rightarrow> chat_thread" where
  "set_thread_lastRead v t = t\<lparr>th_member := map_option (\<lambda>m. m\<lparr>tm_lastRead := Some v\<rparr>) (th_member t)\<rparr>"

definition or_zero :: "int option \<Rightarrow> int" where
  "or_zero v = (case v of Some n \<Rightarrow> n | None \<Rightarrow> 0)"

text \<open>A message in a thread the user takes part in, from someone who is not ignored.\<close>

definition unread_thread_message :: "int option \<Rightarrow> int \<Rightarrow> new_message_data \<Rightarrow> thread_membership \<Rightarrow> chat_thread \<Rightarrow> chat_channel \<Rightarrow> chat_channel" where
  "unread_thread_message active now d m t c =
     (if or_zero (tm_lastRead m) < nm_id d \<and> \<not> isQuiet m
      then let c1 = markThreadUnread (th_id t) (nm_created_at d) c;
               c2 = (if tm_level m = WATCHING
                     then on_tracking (\<lambda>x. set_watchedThreadsUnreadCount (tr_watched x + 1) x)
                            (on_thread t (\<lambda>t. t\<lparr>th_tracking := set_watchedThreadsUnreadCount (tr_watched (th_tracking t) + 1) (th_tracking t)\<rparr>) c1)
                     else on_thread t (\<lambda>t. t\<lparr>th_tracking := set_unreadCount (tr_unread (th_tracking t) + 1) (th_tracking t)\<rparr>) c1)
           in updateActiveLastViewedAt active now c2
      else c)"

definition new_thread_message ::
    "chat_me \<Rightarrow> int option \<Rightarrow> int \<Rightarrow> int \<Rightarrow> new_message_data \<Rightarrow> chat_thread option \<Rightarrow> chat_channel \<Rightarrow> chat_channel" where
  "new_thread_message me active now thread_id d fetched c =
     (if \<not> cc_threading c \<and> \<not> nm_force_thread d then c
      else case find_thread thread_id fetched c of
             None \<Rightarrow> c
           | Some (t0, c0) \<Rightarrow>
               let t = t0\<lparr>th_lastMessageId := Some (nm_id d)\<rparr>; c1 = on_thread t0 (\<lambda>_. t) c0
               in if nm_user d = me_id me
                  then if th_member t \<noteq> None
                       then on_thread t (set_thread_lastRead (nm_id d)) (c1\<lparr>cc_overview := om_delete thread_id (cc_overview c1)\<rparr>)
                       else c1
                  else if nm_username d \<in> set (me_ignored me) then on_thread t (set_thread_lastRead (nm_id d)) c1
                  else (case th_member t of Some m \<Rightarrow> unread_thread_message active now d m t c1 | None \<Rightarrow> c1))"

definition onNewThreadMessage ::
    "chat_me \<Rightarrow> int \<Rightarrow> int \<Rightarrow> int \<Rightarrow> new_message_data \<Rightarrow> chat_channel option \<Rightarrow> chat_thread option \<Rightarrow> chat_state \<Rightarrow> chat_state result" where
  "onNewThreadMessage me now i thread_id d fetched fetched_thread s =
     with_channel i fetched (new_thread_message me (cs_active s) now thread_id d fetched_thread) s"

text \<open>The state that the server keeps for the user, in this or another browser.\<close>

record tracking_data =
  td_last_read :: jsval
  td_counts :: counts_data
  td_thread :: "int option"
  td_overview :: "(int \<times> int) list option"
  td_thread_counts :: "counts_data option"

definition thread_tracking :: "tracking_data \<Rightarrow> counts_data \<Rightarrow> chat_thread \<Rightarrow> chat_thread" where
  "thread_tracking d k t =
     (case th_member t of
        Some m \<Rightarrow>
          if isQuiet m then t
          else t\<lparr>th_member := Some (m\<lparr>tm_lastRead := to_number (td_last_read d)\<rparr>), th_tracking := set_counts k (th_tracking t)\<rparr>
      | None \<Rightarrow> t)"

definition thread_of_tracking :: "tracking_data \<Rightarrow> chat_thread option \<Rightarrow> chat_channel \<Rightarrow> chat_channel" where
  "thread_of_tracking d fetched c =
     (case (td_thread d, td_thread_counts d) of
        (Some i, Some k) \<Rightarrow>
          if cc_threading c
          then (case find_thread i fetched c of Some (t, c1) \<Rightarrow> on_thread t (thread_tracking d k) c1 | None \<Rightarrow> c)
          else c
      | _ \<Rightarrow> c)"

definition channel_tracking :: "tracking_data \<Rightarrow> chat_thread option \<Rightarrow> chat_channel \<Rightarrow> chat_channel" where
  "channel_tracking d fetched c =
     (let c1 = (if td_thread d = None then set_lastRead (td_last_read d) c else c);
          c2 = on_tracking (set_counts (td_counts d)) c1
      in thread_of_tracking d fetched
           (case td_overview d of Some ov \<Rightarrow> if cc_threading c2 then set_overview ov c2 else c2 | None \<Rightarrow> c2))"

definition updateChannelTrackingData ::
    "int \<Rightarrow> tracking_data \<Rightarrow> chat_channel option \<Rightarrow> chat_thread option \<Rightarrow> chat_state \<Rightarrow> chat_state result" where
  "updateChannelTrackingData i d fetched fetched_thread s = with_channel i fetched (channel_tracking d fetched_thread) s"

definition onNewChannelSubscription :: "int \<Rightarrow> chat_membership \<Rightarrow> chat_channel option \<Rightarrow> chat_state \<Rightarrow> (bool \<times> chat_state) result" where
  "onNewChannelSubscription i membership fetched s =
     (case find_channel True i fetched s of
        (Some c, s1) \<Rightarrow>
          (let c1 = c\<lparr>cc_member := membership\<rparr>;
               c2 = (if cc_direct c1 \<and> \<not> mb_following membership then on_tracking (set_unreadCount 1) c1 else c1)
           in Inr (follow_start c2 (put_channel c2 s1)))
      | (None, s1) \<Rightarrow> Inl (TypeError ''channel''))"

text \<open>A user who is kicked from the open channel is told first.\<close>

definition onKickFromChannel :: "int \<Rightarrow> chat_channel option \<Rightarrow> chat_state \<Rightarrow> chat_state result" where
  "onKickFromChannel i fetched s =
     (case find_channel True i fetched s of
        (Some c, s1) \<Rightarrow> Inr (if cs_active s1 = Some (cc_id c) then s1\<lparr>cs_dialog := Some (cc_id c)\<rparr> else remove_channel c s1)
      | (None, s1) \<Rightarrow> Inl (TypeError ''channel''))"

definition kick_confirmed :: "chat_channel \<Rightarrow> chat_state \<Rightarrow> chat_state" where
  "kick_confirmed c s = (remove_channel c s)\<lparr>cs_dialog := None\<rparr>"

definition onChannelMetadata :: "int \<Rightarrow> int \<Rightarrow> chat_state \<Rightarrow> chat_state" where
  "onChannelMetadata i members s = on_channel i (\<lambda>c. c\<lparr>cc_members := members\<rparr>) s"

definition onChannelEdits :: "int \<Rightarrow> string \<Rightarrow> string \<Rightarrow> string \<Rightarrow> chat_channel option \<Rightarrow> chat_state \<Rightarrow> chat_state" where
  "onChannelEdits i name description slug fetched s =
     (case find_channel True i fetched s of
        (Some c, s1) \<Rightarrow> put_channel (c\<lparr>cc_title := name, cc_description := description, cc_slug := slug\<rparr>) s1
      | (None, s1) \<Rightarrow> s1)"

definition onChannelStatus :: "int \<Rightarrow> channel_status \<Rightarrow> chat_channel option \<Rightarrow> chat_state \<Rightarrow> chat_state result" where
  "onChannelStatus i status fetched s =
     with_channel i fetched
       (\<lambda>c. let c1 = c\<lparr>cc_status := status\<rparr> in if status = ArchivedChannel then on_tracking reset_tracking c1 else c1) s"

section \<open>What is shown\<close>

text \<open>The keys of the object that holds the channels are numbers: its values come in their order.\<close>

definition channels :: "chat_state \<Rightarrow> chat_channel list" where
  "channels s = om_values (sort_key fst (cs_cached s))"

definition stopChannelsSubscriptions :: "chat_state \<Rightarrow> chat_state" where
  "stopChannelsSubscriptions s = fold stopChannelSubscription (channels s) s"

definition following_channels :: "bool \<Rightarrow> chat_state \<Rightarrow> chat_channel list" where
  "following_channels direct s = filter (\<lambda>c. cc_direct c = direct \<and> mb_following (cc_member c)) (channels s)"

definition setupWithPreloadedState :: "(int, counts_data) omap \<Rightarrow> chat_state \<Rightarrow> chat_state" where
  "setupWithPreloadedState ds s =
     fold (\<lambda>c. case om_get ds (cc_id c) of Some d \<Rightarrow> on_channel (cc_id c) (on_tracking (set_counts d)) | None \<Rightarrow> id) (channels s) s"

definition total :: "(chat_counts \<Rightarrow> int) \<Rightarrow> chat_channel list \<Rightarrow> int" where
  "total f cs = sum_list (map (\<lambda>c. f (cc_tracking c)) cs)"

definition publicChannelUnreadCount :: "chat_state \<Rightarrow> int" where
  "publicChannelUnreadCount s = total tr_unread (following_channels False s)"

definition directMessageUnreadCount :: "chat_state \<Rightarrow> int" where
  "directMessageUnreadCount s = total tr_unread (following_channels True s)"

definition allChannelMentionCount :: "chat_state \<Rightarrow> int" where
  "allChannelMentionCount s = total tr_mention (following_channels False s) + total tr_mention (following_channels True s)"

definition all_watched :: "chat_state \<Rightarrow> int" where
  "all_watched s = total tr_watched (following_channels False s @ following_channels True s)"

definition allChannelUrgentCount :: "chat_state \<Rightarrow> int" where
  "allChannelUrgentCount s = allChannelMentionCount s + directMessageUnreadCount s + all_watched s"

definition hasUnreadThreads :: "chat_state \<Rightarrow> bool" where
  "hasUnreadThreads s \<longleftrightarrow> list_ex (\<lambda>c. unreadThreadsCount c > 0) (following_channels False s @ following_channels True s)"

section \<open>Subscriptions\<close>

text \<open>A channel is either direct or public for ever.\<close>

definition subscribed_once :: "(int \<Rightarrow> bool) \<Rightarrow> chat_state \<Rightarrow> bool" where
  "subscribed_once direct s \<longleftrightarrow>
     (\<forall>i. count_list (cs_bus s) (i, NewMessages) = (if i \<in> set (cs_subscribed s) then 1 else 0) \<and>
          count_list (cs_bus s) (i, Kick) = (if i \<in> set (cs_subscribed s) \<and> \<not> direct i then 1 else 0) \<and>
          (\<not> direct i \<longrightarrow> count_list (cs_bus s) (i, NewMentions) = (if i \<in> set (cs_subscribed s) then 1 else 0)))"

lemma count_unsubscribe [simp]:
  "count_list (cs_bus (bus_unsubscribe i x s)) y = (if y = (i, x) then 0 else count_list (cs_bus s) y)"
proof -
  have "count_list (filter (\<lambda>z. z \<noteq> a) ys) b = (if b = a then 0 else count_list ys b)" for a b :: "int \<times> bus_topic" and ys
    by (induction ys) auto
  then show ?thesis by (simp add: bus_unsubscribe_def)
qed

lemma count_subscribe [simp]:
  "count_list (cs_bus (bus_subscribe i x s)) y = count_list (cs_bus s) y + (if y = (i, x) then 1 else 0)"
  by (simp add: bus_subscribe_def)

lemma subscribed_bus [simp]:
  "cs_subscribed (bus_unsubscribe i x s) = cs_subscribed s" "cs_subscribed (bus_subscribe i x s) = cs_subscribed s"
  by (simp_all add: bus_unsubscribe_def bus_subscribe_def)

lemma subscribed_once_start:
  assumes "subscribed_once direct s" "cc_direct c = direct (cc_id c)"
  shows "subscribed_once direct (startChannelSubscription c s)"
  using assms by (auto simp: subscribed_once_def startChannelSubscription_def Let_def)

lemma subscribed_once_stop:
  assumes "subscribed_once direct s" "cc_direct c = direct (cc_id c)"
  shows "subscribed_once direct (stopChannelSubscription c s)"
  using assms by (auto simp: subscribed_once_def stopChannelSubscription_def Let_def)

datatype subscription_op = Start chat_channel | Stop chat_channel

primrec op_channel :: "subscription_op \<Rightarrow> chat_channel" where
  "op_channel (Start c) = c"
| "op_channel (Stop c) = c"

primrec subscription_step :: "subscription_op \<Rightarrow> chat_state \<Rightarrow> chat_state" where
  "subscription_step (Start c) s = startChannelSubscription c s"
| "subscription_step (Stop c) s = stopChannelSubscription c s"

text \<open>
  C39. However channels are followed, left, removed and muted, the client listens exactly once to the new
  messages of each channel that it has subscribed to, exactly once to the mentions and kicks of the
  public ones, and to nothing of the others but the mentions of direct channels.
\<close>

theorem channels_heard_once:
  assumes "subscribed_once direct s" "\<forall>x\<in>set ops. cc_direct (op_channel x) = direct (cc_id (op_channel x))"
  shows "subscribed_once direct (fold subscription_step ops s)"
  using assms
proof (induction ops arbitrary: s)
  case (Cons x ops)
  have "subscribed_once direct (subscription_step x s)"
    using Cons.prems by (cases x) (simp_all add: subscribed_once_start subscribed_once_stop)
  then show ?case using Cons by simp
qed simp

text \<open>Leaving a direct channel keeps its mentions subscribed, and coming back subscribes to them again.\<close>

lemma direct_mentions_pile_up:
  assumes "cc_direct c" "\<not> mb_muted (cc_member c)" "cc_id c \<notin> set (cs_subscribed s)"
  shows "count_list (cs_bus (fold subscription_step [Start c, Stop c, Start c] s)) (cc_id c, NewMentions) =
         count_list (cs_bus s) (cc_id c, NewMentions) + 2"
  using assms by (simp add: startChannelSubscription_def stopChannelSubscription_def Let_def)

section \<open>What is unread\<close>

definition seen_by :: "chat_me \<Rightarrow> new_message_data \<Rightarrow> bool" where
  "seen_by me d \<longleftrightarrow> nm_user d = me_id me \<or> nm_username d \<in> set (me_ignored me)"

lemma markThreadUnread_keeps [simp]:
  "cc_tracking (markThreadUnread t at c) = cc_tracking c" "cc_member (markThreadUnread t at c) = cc_member c"
  "cc_lastMessage (markThreadUnread t at c) = cc_lastMessage c" "cc_id (markThreadUnread t at c) = cc_id c"
  "cc_threads (markThreadUnread t at c) = cc_threads c" "cc_threading (markThreadUnread t at c) = cc_threading c"
  by (simp_all add: markThreadUnread_def)

lemma viewed_keeps [simp]:
  "cc_tracking (updateActiveLastViewedAt a now c) = cc_tracking c"
  "mb_lastRead (cc_member (updateActiveLastViewedAt a now c)) = mb_lastRead (cc_member c)"
  "cc_lastMessage (updateActiveLastViewedAt a now c) = cc_lastMessage c" "cc_id (updateActiveLastViewedAt a now c) = cc_id c"
  "cc_overview (updateActiveLastViewedAt a now c) = cc_overview c" "cc_threads (updateActiveLastViewedAt a now c) = cc_threads c"
  by (simp_all add: updateActiveLastViewedAt_def updateLastViewedAt_def)

lemma add_thread_keeps:
  "add_thread r t c = (t', c') \<Longrightarrow> cc_tracking c' = cc_tracking c \<and> cc_member c' = cc_member c \<and>
     cc_lastMessage c' = cc_lastMessage c \<and> cc_id c' = cc_id c \<and> cc_overview c' = cc_overview c \<and> cc_threading c' = cc_threading c"
  by (auto simp: add_thread_def split: option.splits if_splits)

lemma find_thread_keeps:
  "find_thread i f c = Some (t', c') \<Longrightarrow> cc_tracking c' = cc_tracking c \<and> cc_member c' = cc_member c \<and>
     cc_lastMessage c' = cc_lastMessage c \<and> cc_id c' = cc_id c \<and> cc_overview c' = cc_overview c \<and> cc_threading c' = cc_threading c"
  using add_thread_keeps by (auto simp: find_thread_def split: option.splits)

lemma thread_of_message_keeps [simp]:
  "cc_tracking (thread_of_message a now d f c) = cc_tracking c"
  "mb_lastRead (cc_member (thread_of_message a now d f c)) = mb_lastRead (cc_member c)"
  "cc_lastMessage (thread_of_message a now d f c) = cc_lastMessage c"
  "cc_id (thread_of_message a now d f c) = cc_id c"
  by (auto simp: thread_of_message_def dest: find_thread_keeps split: option.splits)

lemma unread_set [simp]: "tr_unread (set_unreadCount v t) = v"
  by (simp add: set_unreadCount_def)

text \<open>
  The number up to which the member has read: a member who has read nothing has \<open>null\<close> or
  \<open>undefined\<close>, which the code takes for 0.
\<close>

definition reads_to :: "jsval \<Rightarrow> int \<Rightarrow> bool" where
  "reads_to v l \<longleftrightarrow> v = JNum l \<or> (v = JNull \<or> v = JUndef) \<and> l = 0"

lemma new_channel_message_unread:
  assumes "reads_to (mb_lastRead (cc_member c)) l" "0 \<le> l" "l < nm_id d"
  shows "tr_unread (cc_tracking (new_channel_message me a now d f c)) = tr_unread (cc_tracking c) + (if seen_by me d then 0 else 1)"
    "mb_lastRead (cc_member (new_channel_message me a now d f c)) = (if seen_by me d then JNum (nm_id d) else mb_lastRead (cc_member c))"
    "cc_lastMessage (new_channel_message me a now d f c) = Some (nm_id d, nm_created_at d)"
  using assms
  by (auto simp: new_channel_message_def seen_by_def Let_def set_lastRead_def on_tracking_def reads_to_def)


text \<open>A message that is repeated, or older than the last one read, changes no count.\<close>

lemma old_message_uncounted:
  assumes "mb_lastRead (cc_member c) = JNum l" "l \<noteq> 0" "nm_id d \<le> l"
  shows "cc_tracking (new_channel_message me a now d f c) = cc_tracking c"
  using assms by (simp add: new_channel_message_def Let_def set_lastRead_def)

lemma unread_message_repeated:
  assumes "reads_to (mb_lastRead (cc_member c)) l" "0 \<le> l" "l < nm_id d" "\<not> seen_by me d"
  shows "tr_unread (cc_tracking (new_channel_message me a now d f (new_channel_message me a now d f c))) = tr_unread (cc_tracking c) + 2"
  using new_channel_message_unread [OF assms(1-3)] new_channel_message_unread [of "new_channel_message me a now d f c" l d] assms by simp

text \<open>A message of the user does not clear what is unread, although it is meant to.\<close>

lemma own_message_keeps_unread:
  "seen_by me d \<Longrightarrow> cc_tracking (new_channel_message me a now d f c) = cc_tracking c"
  by (auto simp: new_channel_message_def Let_def set_lastRead_def seen_by_def)

section \<open>The state of the server\<close>

lemma set_counts_read [simp]:
  "tr_unread (set_counts d t) = cd_unread d" "tr_mention (set_counts d t) = cd_mention d" "tr_watched (set_counts d t) = cd_watched d"
  by (simp_all add: set_counts_def set_unreadCount_def set_mentionCount_def set_watchedThreadsUnreadCount_def)

lemma mark_all_keeps:
  "cc_tracking (fold (\<lambda>(t, at). markThreadUnread t at) ov c) = cc_tracking c"
  "cc_id (fold (\<lambda>(t, at). markThreadUnread t at) ov c) = cc_id c"
  by (induction ov arbitrary: c) (simp_all add: case_prod_beta)

lemma set_overview_keeps [simp]:
  "cc_tracking (set_overview ov c) = cc_tracking c" "cc_id (set_overview ov c) = cc_id c"
  by (simp_all add: set_overview_def mark_all_keeps)

lemma overview_of_server:
  assumes "distinct (map fst ov)"
  shows "om_get (cc_overview (set_overview ov c)) = map_of ov"
proof -
  have "om_get (cc_overview (fold (\<lambda>(t, at). markThreadUnread t at) ov c)) = om_get (cc_overview c) ++ map_of ov" for c
    using assms
  proof (induction ov arbitrary: c)
    case (Cons p ov)
    obtain a b where p: "p = (a, b)" by (cases p)
    have "om_get ov a = None" using p Cons.prems by (auto simp: map_of_eq_None_iff)
    have shift: "m(a \<mapsto> b) ++ om_get ov = m ++ om_get (p # ov)" for m :: "int \<Rightarrow> int option"
      using \<open>om_get ov a = None\<close> by (auto simp: p map_add_def fun_eq_iff split: option.split)
    have "om_get (cc_overview (fold (\<lambda>(t, at). markThreadUnread t at) ov (markThreadUnread a b c))) =
        om_get (cc_overview (markThreadUnread a b c)) ++ om_get ov"
      using Cons by simp
    also have "om_get (cc_overview (markThreadUnread a b c)) = (om_get (cc_overview c))(a \<mapsto> b)"
      by (simp add: markThreadUnread_def)
    finally show ?case unfolding shift by (simp only: p fold.simps comp_apply case_prod_conv)
  qed simp
  then show ?thesis by (simp add: set_overview_def)
qed

lemma om_get_put: "om_get (cs_cached (put_channel c s)) i = (if i = cc_id c then Some c else om_get (cs_cached s) i)"
  by (simp add: put_channel_def)

definition filed :: "chat_state \<Rightarrow> bool" where
  "filed s \<longleftrightarrow> om_wf (cs_cached s) \<and> (\<forall>i c. om_get (cs_cached s) i = Some c \<longrightarrow> cc_id c = i)"

lemma filed_put: "filed s \<Longrightarrow> filed (put_channel c s)"
  by (auto simp: filed_def put_channel_def)

lemma on_thread_keeps [simp]:
  "cc_tracking (on_thread t f c) = cc_tracking c" "cc_overview (on_thread t f c) = cc_overview c" "cc_id (on_thread t f c) = cc_id c"
  by (simp_all add: on_thread_def)

lemma on_tracking_keeps [simp]:
  "cc_tracking (on_tracking f c) = f (cc_tracking c)" "cc_overview (on_tracking f c) = cc_overview c" "cc_id (on_tracking f c) = cc_id c"
  "cc_threading (on_tracking f c) = cc_threading c"
  by (simp_all add: on_tracking_def)

lemma set_lastRead_keeps [simp]:
  "cc_tracking (set_lastRead v c) = cc_tracking c" "cc_overview (set_lastRead v c) = cc_overview c" "cc_id (set_lastRead v c) = cc_id c"
  "cc_threading (set_lastRead v c) = cc_threading c"
  by (simp_all add: set_lastRead_def)

lemma thread_of_tracking_keeps [simp]:
  "cc_tracking (thread_of_tracking d f c) = cc_tracking c" "cc_overview (thread_of_tracking d f c) = cc_overview c"
  "cc_id (thread_of_tracking d f c) = cc_id c"
  by (auto simp: thread_of_tracking_def dest: find_thread_keeps split: option.split)

lemma channel_tracking_id: "cc_id (channel_tracking d f c) = cc_id c"
  by (simp add: channel_tracking_def Let_def split: option.split)

lemma channel_tracking_counts:
  "tr_unread (cc_tracking (channel_tracking d f c)) = cd_unread (td_counts d)"
  "tr_mention (cc_tracking (channel_tracking d f c)) = cd_mention (td_counts d)"
  "tr_watched (cc_tracking (channel_tracking d f c)) = cd_watched (td_counts d)"
  by (simp_all add: channel_tracking_def Let_def split: option.split)

lemma channel_tracking_overview:
  assumes "cc_threading c" "td_overview d = Some ov" "distinct (map fst ov)"
  shows "om_get (cc_overview (channel_tracking d f c)) = map_of ov"
  using assms by (simp add: channel_tracking_def Let_def overview_of_server)

text \<open>
  The state that the server sends for a channel, loaded or not, replaces its counts and, where
  the channel has threads, its unread threads, whatever was counted in this browser; no other channel
  changes.
\<close>

theorem server_state_wins:
  assumes "filed s" "om_get (cs_cached s) i = Some c \<or> om_get (cs_cached s) i = None \<and> fetched = Some c \<and> cc_id c = i"
  shows "\<exists>s' c'. updateChannelTrackingData i d fetched ft s = Inr s' \<and> filed s' \<and> om_get (cs_cached s') i = Some c' \<and>
           tr_unread (cc_tracking c') = cd_unread (td_counts d) \<and> tr_mention (cc_tracking c') = cd_mention (td_counts d) \<and>
           tr_watched (cc_tracking c') = cd_watched (td_counts d) \<and>
           (\<forall>ov. cc_threading c \<longrightarrow> td_overview d = Some ov \<longrightarrow> distinct (map fst ov) \<longrightarrow> om_get (cc_overview c') = map_of ov) \<and>
           (\<forall>j. j \<noteq> i \<longrightarrow> om_get (cs_cached s') j = om_get (cs_cached s) j)"
proof -
  have id: "cc_id c = i" using assms by (auto simp: filed_def)
  obtain s1 where s1: "find_channel True i fetched s = (Some c, s1)" "filed s1" "\<And>j. j \<noteq> i \<Longrightarrow> om_get (cs_cached s1) j = om_get (cs_cached s) j"
  proof (cases "om_get (cs_cached s) i")
    case None
    then have "find_channel True i fetched s = (Some c, put_channel c s)"
      using assms(2) by (auto simp: find_channel_def store_channel_def put_channel_def)
    then show ?thesis using that filed_put [OF assms(1)] id by (simp add: om_get_put)
  next
    case (Some c0)
    then show ?thesis using that assms by (auto simp: find_channel_def)
  qed
  let ?c = "channel_tracking d ft c"
  have "updateChannelTrackingData i d fetched ft s = Inr (put_channel ?c s1)"
    using s1(1) by (simp add: updateChannelTrackingData_def with_channel_def)
  moreover have "\<forall>ov. cc_threading c \<longrightarrow> td_overview d = Some ov \<longrightarrow> distinct (map fst ov) \<longrightarrow> om_get (cc_overview ?c) = map_of ov"
    using channel_tracking_overview [of c d _ ft] by blast
  ultimately show ?thesis
    using s1 id filed_put by (intro exI [of _ "put_channel ?c s1"] exI [of _ ?c])
      (simp add: om_get_put channel_tracking_id channel_tracking_counts)
qed

text \<open>An archived channel has nothing unread, but the title of the page is not told.\<close>

lemma archived_untold:
  assumes "om_get (cs_cached s) i = Some c" "cc_id c = i"
  shows "\<exists>s' c'. onChannelStatus i ArchivedChannel f s = Inr s' \<and> om_get (cs_cached s') i = Some c' \<and>
    tr_unread (cc_tracking c') = 0 \<and> tr_mention (cc_tracking c') = 0 \<and> tr_watched (cc_tracking c') = 0 \<and>
    tr_triggered (cc_tracking c') = tr_triggered (cc_tracking c)"
  using assms by (simp add: onChannelStatus_def with_channel_def find_channel_def Let_def om_get_put reset_tracking_def)

section \<open>Examples\<close>

definition demo_channel :: "string \<Rightarrow> int \<Rightarrow> int \<Rightarrow> chat_channel" where
  "demo_channel slug n mentions =
     \<lparr>cc_id = 1, cc_direct = False, cc_title = slug, cc_slug = slug, cc_description = [], cc_status = OpenChannel, cc_threading = False,
      cc_members = 0, cc_member = \<lparr>mb_following = True, mb_muted = False, mb_starred = False, mb_lastRead = JNull, mb_lastViewed = 0\<rparr>,
      cc_tracking = \<lparr>tr_unread = n, tr_mention = mentions, tr_watched = 0, tr_triggered = 0\<rparr>,
      cc_lastMessage = Some (1, 5), cc_threads = [], cc_overview = []\<rparr>"

definition demo_chat :: chat_state where
  "demo_chat = \<lparr>cs_cached = [(1, demo_channel ''a'' 0 0)], cs_subscribed = [], cs_bus = [], cs_active = None, cs_dialog = None\<rparr>"


definition demo_state :: tracking_data where
  "demo_state = \<lparr>td_last_read = JNum 4, td_counts = \<lparr>cd_unread = 3, cd_mention = 1, cd_watched = 0\<rparr>, td_thread = None,
     td_overview = None, td_thread_counts = None\<rparr>"

theorem channels_heard_once_witness:
  "subscribed_once (\<lambda>i. False) (fold subscription_step [Start (demo_channel ''a'' 0 0), Stop (demo_channel ''a'' 0 0), Start (demo_channel ''a'' 0 0)] demo_chat)"
  by (rule channels_heard_once) (simp_all add: subscribed_once_def demo_chat_def demo_channel_def)


theorem server_state_wins_witness:
  "\<exists>s'. updateChannelTrackingData 1 demo_state None None demo_chat = Inr s' \<and> filed s'"
proof -
  have f: "filed demo_chat" by (simp add: filed_def demo_chat_def demo_channel_def)
  have g: "om_get (cs_cached demo_chat) 1 = Some (demo_channel ''a'' 0 0)" by (simp add: demo_chat_def)
  from server_state_wins [OF f disjI1 [OF g], of demo_state None None] show ?thesis by blast
qed

end
