(* ===== verification/ChatOrder.thy ===== *)
theory ChatOrder
  imports ChatTracking JsSort "HOL-Library.Product_Lexorder" "HOL-Library.List_Lexorder"
begin

text \<open>
  In which order the chat plugin lists channels (\<open>services/chat-channels-manager.js\<close>).
  \<open>localeCompare\<close> is a parameter. A channel without messages has a last message without a number.
\<close>

section \<open>Comparisons\<close>

type_synonym compare = "chat_channel \<Rightarrow> chat_channel \<Rightarrow> int"

definition starred :: "chat_channel \<Rightarrow> bool" where
  "starred c \<longleftrightarrow> mb_starred (cc_member c)"

definition compareStarredChannels :: "(string \<Rightarrow> string \<Rightarrow> int) \<Rightarrow> (chat_channel \<Rightarrow> string) \<Rightarrow> chat_channel \<Rightarrow> chat_channel \<Rightarrow> int option" where
  "compareStarredChannels lc prop a b =
     (if starred a \<and> starred b then Some (lc (prop a) (prop b))
      else if starred a \<or> starred b then Some (if starred a then -1 else 1)
      else None)"

definition withStarredPriority :: "(string \<Rightarrow> string \<Rightarrow> int) \<Rightarrow> (chat_channel \<Rightarrow> string) \<Rightarrow> compare \<Rightarrow> compare" where
  "withStarredPriority lc prop cmp a b = (case compareStarredChannels lc prop a b of Some v \<Rightarrow> v | None \<Rightarrow> cmp a b)"

definition urgent :: "chat_channel \<Rightarrow> int" where
  "urgent c = tr_mention (cc_tracking c) + tr_watched (cc_tracking c)"

definition unread :: "chat_channel \<Rightarrow> int" where
  "unread c = tr_unread (cc_tracking c) + int (unreadThreadsCountSinceLastViewed c)"

definition by_activity :: "(string \<Rightarrow> string \<Rightarrow> int) \<Rightarrow> compare" where
  "by_activity lc a b =
     (if urgent a > 0 \<and> urgent b > 0 then lc (cc_slug a) (cc_slug b)
      else if urgent a > 0 \<or> urgent b > 0 then (if urgent a > urgent b then -1 else 1)
      else if unread a > 0 \<and> unread b > 0 then lc (cc_slug a) (cc_slug b)
      else if unread a > 0 \<or> unread b > 0 then (if unread a > unread b then -1 else 1)
      else lc (cc_slug a) (cc_slug b))"

definition sortChannelsByActivity :: "(string \<Rightarrow> string \<Rightarrow> int) \<Rightarrow> chat_channel list \<Rightarrow> chat_channel list" where
  "sortChannelsByActivity lc cs = js_sort (withStarredPriority lc cc_slug (by_activity lc)) cs"

definition sortChannelsByProperty :: "(string \<Rightarrow> string \<Rightarrow> int) \<Rightarrow> (chat_channel \<Rightarrow> string) \<Rightarrow> chat_channel list \<Rightarrow> chat_channel list" where
  "sortChannelsByProperty lc prop cs = js_sort (withStarredPriority lc prop (\<lambda>a b. lc (prop a) (prop b))) cs"

text \<open>Sorting the dates downwards and taking the last one gives the first date.\<close>

definition lastUnreadThreadDate :: "chat_channel \<Rightarrow> int option" where
  "lastUnreadThreadDate c =
     (if unreadThreadsCount c = 0 then map_option snd (cc_lastMessage c)
      else last_opt (js_sort (\<lambda>a b. b - a) (om_values (cc_overview c))))"

definition direct_urgent :: "chat_channel \<Rightarrow> int" where
  "direct_urgent c = tr_unread (cc_tracking c) + tr_mention (cc_tracking c) + tr_watched (cc_tracking c)"

definition after :: "int option \<Rightarrow> int option \<Rightarrow> bool" where
  "after a b \<longleftrightarrow> (case (a, b) of (Some x, Some y) \<Rightarrow> x > y | _ \<Rightarrow> False)"

definition direct_order :: compare where
  "direct_order a b =
     (case (cc_lastMessage a, cc_lastMessage b) of
        (None, _) \<Rightarrow> 1
      | (_, None) \<Rightarrow> -1
      | (Some (_, at), Some (_, bt)) \<Rightarrow>
          if direct_urgent a > 0 \<and> direct_urgent b > 0 then (if at > bt then -1 else 1)
          else if direct_urgent a > 0 \<or> direct_urgent b > 0 then (if direct_urgent a > direct_urgent b then -1 else 1)
          else let x = unreadThreadsCountSinceLastViewed a; y = unreadThreadsCountSinceLastViewed b
               in if x > 0 \<and> y > 0 then (if after (lastUnreadThreadDate a) (lastUnreadThreadDate b) then -1 else 1)
                  else if x > 0 \<or> y > 0 then (if x > y then -1 else 1)
                  else (if at > bt then -1 else 1))"

definition sortDirectMessageChannels :: "(string \<Rightarrow> string \<Rightarrow> int) \<Rightarrow> chat_channel list \<Rightarrow> chat_channel list" where
  "sortDirectMessageChannels lc cs = js_sort (withStarredPriority lc cc_title direct_order) cs"

definition getChannelUrgentCount :: "chat_channel \<Rightarrow> int" where
  "getChannelUrgentCount c = (if cc_direct c then direct_urgent c else urgent c)"

definition compareByLastActivity :: compare where
  "compareByLastActivity a b =
     (let date = (\<lambda>c. case cc_lastMessage c of Some (_, at) \<Rightarrow> at | None \<Rightarrow> 0) in date b - date a)"

definition starred_by_activity :: compare where
  "starred_by_activity a b =
     (if cc_direct a \<noteq> cc_direct b then (if cc_direct a then 1 else -1)
      else let x = getChannelUrgentCount a; y = getChannelUrgentCount b
           in if x > 0 \<and> y > 0 then compareByLastActivity a b
              else if x > 0 \<or> y > 0 then (if x > y then -1 else 1)
              else if unread a > 0 \<and> unread b > 0 then compareByLastActivity a b
              else if unread a > 0 \<or> unread b > 0 then (if unread a > unread b then -1 else 1)
              else compareByLastActivity a b)"

section \<open>Lists of channels\<close>

definition publicMessageChannels :: "(string \<Rightarrow> string \<Rightarrow> int) \<Rightarrow> chat_state \<Rightarrow> chat_channel list" where
  "publicMessageChannels lc s = sortChannelsByProperty lc cc_slug (following_channels False s)"

definition directMessageChannels :: "(string \<Rightarrow> string \<Rightarrow> int) \<Rightarrow> chat_state \<Rightarrow> chat_channel list" where
  "directMessageChannels lc s = sortDirectMessageChannels lc (following_channels True s)"

definition publicMessageChannelsWithActivity :: "(string \<Rightarrow> string \<Rightarrow> int) \<Rightarrow> chat_state \<Rightarrow> chat_channel list" where
  "publicMessageChannelsWithActivity lc s = filter hasUnread (publicMessageChannels lc s)"

definition publicMessageChannelsByActivity :: "(string \<Rightarrow> string \<Rightarrow> int) \<Rightarrow> chat_state \<Rightarrow> chat_channel list" where
  "publicMessageChannelsByActivity lc s = sortChannelsByActivity lc (publicMessageChannels lc s)"

definition directMessageChannelsWithActivity :: "(string \<Rightarrow> string \<Rightarrow> int) \<Rightarrow> chat_state \<Rightarrow> chat_channel list" where
  "directMessageChannelsWithActivity lc s = filter hasUnread (directMessageChannels lc s)"

definition truncatedDirectMessageChannels :: "(string \<Rightarrow> string \<Rightarrow> int) \<Rightarrow> chat_state \<Rightarrow> chat_channel list" where
  "truncatedDirectMessageChannels lc s = take 50 (directMessageChannels lc s)"

definition unstarredPublicMessageChannels :: "(string \<Rightarrow> string \<Rightarrow> int) \<Rightarrow> chat_state \<Rightarrow> chat_channel list" where
  "unstarredPublicMessageChannels lc s = sortChannelsByProperty lc cc_slug (filter (\<lambda>c. \<not> starred c) (following_channels False s))"

definition unstarredPublicMessageChannelsByActivity :: "(string \<Rightarrow> string \<Rightarrow> int) \<Rightarrow> chat_state \<Rightarrow> chat_channel list" where
  "unstarredPublicMessageChannelsByActivity lc s = sortChannelsByActivity lc (filter (\<lambda>c. \<not> starred c) (following_channels False s))"

definition unstarredDirectMessageChannels :: "(string \<Rightarrow> string \<Rightarrow> int) \<Rightarrow> chat_state \<Rightarrow> chat_channel list" where
  "unstarredDirectMessageChannels lc s = sortDirectMessageChannels lc (filter (\<lambda>c. \<not> starred c) (following_channels True s))"

definition starredChannels :: "(string \<Rightarrow> string \<Rightarrow> int) \<Rightarrow> chat_state \<Rightarrow> chat_channel list" where
  "starredChannels lc s =
     js_sort (\<lambda>a b. lc (cc_slug a) (cc_slug b)) (filter starred (following_channels False s)) @
     js_sort (\<lambda>a b. lc (cc_title a) (cc_title b)) (filter starred (following_channels True s))"

definition hasStarredChannels :: "(string \<Rightarrow> string \<Rightarrow> int) \<Rightarrow> chat_state \<Rightarrow> bool" where
  "hasStarredChannels lc s \<longleftrightarrow> length (starredChannels lc s) > 0"

definition starredChannelsByActivity :: "chat_state \<Rightarrow> chat_channel list" where
  "starredChannelsByActivity s =
     js_sort starred_by_activity (filter (\<lambda>c. mb_following (cc_member c) \<and> starred c) (channels s))"

definition truncatedUnstarredDirectMessageChannels :: "(string \<Rightarrow> string \<Rightarrow> int) \<Rightarrow> chat_state \<Rightarrow> chat_channel list" where
  "truncatedUnstarredDirectMessageChannels lc s = take 50 (unstarredDirectMessageChannels lc s)"

definition displayPublicChannels :: "(string \<Rightarrow> string \<Rightarrow> int) \<Rightarrow> bool \<Rightarrow> bool \<Rightarrow> bool \<Rightarrow> bool \<Rightarrow> chat_state \<Rightarrow> bool" where
  "displayPublicChannels lc enabled preloaded staff joinable s \<longleftrightarrow>
     (if \<not> enabled then False else if \<not> preloaded then False
      else if publicMessageChannels lc s = [] \<and> preloaded then staff \<or> joinable else True)"

text \<open>A date has no \<open>localeCompare\<close>: the comparison is \<open>undefined\<close>, which counts as zero.\<close>

definition allChannels :: "(string \<Rightarrow> string \<Rightarrow> int) \<Rightarrow> chat_state \<Rightarrow> chat_channel list" where
  "allChannels lc s = js_sort (\<lambda>a b. 0) (publicMessageChannels lc s @ directMessageChannels lc s)"

definition hasThreadedChannels :: "(string \<Rightarrow> string \<Rightarrow> int) \<Rightarrow> chat_state \<Rightarrow> bool" where
  "hasThreadedChannels lc s \<longleftrightarrow> list_ex cc_threading (allChannels lc s)"

section \<open>What the orders mean\<close>

definition activity_rank :: "chat_channel \<Rightarrow> nat" where
  "activity_rank c = (if starred c then 0 else if urgent c > 0 then 1 else if unread c > 0 then 2 else 3)"

lemma by_activity_rank:
  assumes "\<And>x y. lc x y \<le> 0 \<longleftrightarrow> k x \<le> (k y :: 'k :: linorder)"
  shows "withStarredPriority lc cc_slug (by_activity lc) a b \<le> 0 \<longleftrightarrow>
    (activity_rank a, k (cc_slug a)) \<le> (activity_rank b, k (cc_slug b))"
  by (auto simp: withStarredPriority_def compareStarredChannels_def by_activity_def activity_rank_def assms)

text \<open>
  C24. Sorting by activity lists the starred channels first, then those with mentions or watched threads,
  then those with other unread messages or threads, then the rest, and each of the four groups by its
  names, where \<open>localeCompare\<close> orders names: the comparison, which has ten branches, is one of keys.
\<close>

theorem sorted_by_activity:
  assumes "\<And>x y. localeCompare x y \<le> 0 \<longleftrightarrow> k x \<le> (k y :: 'k :: linorder)"
  shows "sortChannelsByActivity localeCompare cs = sort_key (\<lambda>c. (activity_rank c, k (cc_slug c))) cs"
  unfolding sortChannelsByActivity_def by (rule js_sort_key) (rule by_activity_rank [OF assms])

lemma sorted_by_property:
  assumes "\<And>x y. localeCompare x y \<le> 0 \<longleftrightarrow> k x \<le> (k y :: 'k :: linorder)"
  shows "sortChannelsByProperty localeCompare prop cs = sort_key (\<lambda>c. (\<not> starred c, k (prop c))) cs"
  unfolding sortChannelsByProperty_def
  by (rule js_sort_key) (auto simp: withStarredPriority_def compareStarredChannels_def assms)

text \<open>Names by the numbers of their characters.\<close>

fun code_compare :: "string \<Rightarrow> string \<Rightarrow> int" where
  "code_compare [] [] = 0"
| "code_compare [] (y # ys) = -1"
| "code_compare (x # xs) [] = 1"
| "code_compare (x # xs) (y # ys) =
     (if x = y then code_compare xs ys else if (of_char x :: nat) < of_char y then -1 else 1)"

lemma code_compare_key: "code_compare x y \<le> 0 \<longleftrightarrow> map (of_char :: char \<Rightarrow> nat) x \<le> map of_char y"
  by (induction x y rule: code_compare.induct) auto

theorem sorted_by_activity_witness:
  "map cc_slug (sortChannelsByActivity code_compare [demo_channel ''a'' 0 0, demo_channel ''c'' 1 0, demo_channel ''b'' 2 0, demo_channel ''d'' 3 1]) =
     [''d'', ''b'', ''c'', ''a'']"
proof -
  note s = sorted_by_activity [of code_compare "map (of_char :: char \<Rightarrow> nat)", OF code_compare_key]
  show ?thesis
    unfolding s by (simp add: activity_rank_def starred_def urgent_def unread_def unreadThreadsCountSinceLastViewed_def demo_channel_def)
qed

lemma all_channels_unsorted: "allChannels lc s = publicMessageChannels lc s @ directMessageChannels lc s"
proof -
  have "js_sort (\<lambda>a b. 0) cs = cs" for cs :: "chat_channel list"
  proof -
    have i: "insert_by (\<lambda>a b. 0) x cs = x # cs" for x :: chat_channel and cs by (cases cs) simp_all
    show ?thesis by (induction cs) (simp_all add: js_sort_def i)
  qed
  then show ?thesis by (simp add: allChannels_def)
qed

lemma last_unread_is_oldest:
  assumes "cc_threading c" "cc_overview c \<noteq> []"
  shows "lastUnreadThreadDate c = Some (Min (set (om_values (cc_overview c))))"
proof -
  let ?vs = "om_values (cc_overview c)" and ?cmp = "\<lambda>a b :: int. b - a"
  let ?ys = "js_sort ?cmp ?vs"
  have s: "sorted_wrt (\<lambda>a b. b \<le> a) ?ys" 
  proof -
    have "sorted_wrt (\<lambda>a b. ?cmp a b \<le> 0) ?ys" by (rule js_sort_sorted) auto
    then show ?thesis by simp
  qed
  have ne: "?ys \<noteq> []" using assms(2) length_js_sort [of ?cmp ?vs] by (metis length_0_conv length_map)
  have least: "\<forall>v\<in>set ys. last ys \<le> v" if "sorted_wrt (\<lambda>a b. b \<le> a) ys" "ys \<noteq> []" for ys :: "int list"
    using that by (induction ys) auto
  have "\<forall>v\<in>set ?ys. last ?ys \<le> v" using least [OF s ne] .
  then have "\<forall>v\<in>set ?vs. last ?ys \<le> v" by (simp only: set_js_sort)
  moreover have "last ?ys \<in> set ?vs" using last_in_set [OF ne] by (simp only: set_js_sort)
  ultimately have "Min (set ?vs) = last ?ys" by (intro Min_eqI) (simp_all only: List.finite_set)
  then show ?thesis using assms ne by (simp add: lastUnreadThreadDate_def unreadThreadsCount_def unreadThreadCount_def last_opt_def)
qed

text \<open>Two direct channels with the same date are each after the other.\<close>

lemma direct_order_inconsistent:
  "direct_order (demo_channel ''a'' 0 0) (demo_channel ''b'' 0 0) = 1 \<and> direct_order (demo_channel ''b'' 0 0) (demo_channel ''a'' 0 0) = 1"
  by code_simp

lemma direct_urgent_first:
  "cc_lastMessage a \<noteq> None \<Longrightarrow> cc_lastMessage b \<noteq> None \<Longrightarrow> direct_urgent a > 0 \<Longrightarrow> direct_urgent b \<le> 0 \<Longrightarrow>
   direct_order a b < 0 \<and> direct_order b a > 0"
  by (auto simp: direct_order_def)

end
