(* ===== verification/Spec2Isabelle.thy ===== *)
theory Spec2Isabelle
  imports PostProtocol ScreenTrackTimes Dag PresenceChannels SuffixTrie SanitizerProofs TextProofs
    EmojiStore HistoryStore ComposerEdit FormatterProofs PmTrackingProofs
    FilterProofs UserSearchProofs TransformerProofs ChunkedUploadLive ToMarkdownDocs
    BBCodeInline FormValidator UserStream PostSelection PostActions
    ChatPane ChatPending ChatOrder
begin

text \<open>
  Discourse is a forum. Its server is a Rails application; its client, under
  \<open>frontend/discourse\<close>, is a single-page application in JavaScript. This development models the
  client's own logic: the state the services and models keep, the operations that change it and
  the order in which requests, message bus messages and timers reach them.

  \<^bold>\<open>How the parts interact.\<close>
  The record store keeps one object per type and id. The post stream of a topic is filled from
  it: it holds the ids of all posts of the topic, a contiguous window of loaded posts, and the
  placeholders of requests on their way. The composer writes replies: it makes a record, has it
  staged in the stream, and commits or undoes it when the save answers; drafts are saved on the
  way. The topic tracking state holds what is new or unread in every topic; messages change it, topic lists
  are brought in line with it. The screen tracker measures which posts are on the screen, tells
  the tracking state what was read and sends the times to the server. Presence channels tell who
  is replying in a topic; user presence decides when a tab counts as active. Local storage, the
  history store and the emoji store keep values between pages and visits. The text commands are
  what the buttons of the composer do, and the sanitizer is what a post passes before it is shown.
  Texts and numbers come from the translations; names typed in the composer or a filter are
  completed by the user search and the filter suggestions; plugins change values and behaviors
  through the transformers. Large files are uploaded in chunks, pasted HTML becomes Markdown, and
  BBCode is read by the Markdown engine. Forms edit a draft of their data; the activity of a user is a stream
  of rows; posts are chosen for bulk actions, liked and deleted. In chat, a channel keeps its loaded messages, and
  the message bus brings new ones and what is unread.

  \<^bold>\<open>Theories and the files they model\<close> (below \<open>frontend/discourse/app\<close> unless a path says more).
  \<^item> \<open>JsPrelude\<close>, \<open>JsString\<close>, \<open>NumObject\<close>: values, errors as sums, objects and maps as association
    lists in insertion order, array and string operations of the standard library, objects with
    numeric keys. The locale \<open>keyed_store\<close> states the laws of such containers; it is interpreted
    on both kinds.
  \<^item> \<open>ArrayTools\<close>: \<open>lib/array-tools.js\<close>. \<open>ObjectTools\<close>: \<open>lib/object.js\<close>. \<open>Dag\<close>: \<open>lib/dag.js\<close>.
    \<open>SuffixTrie\<close>: \<open>lib/suffix-trie.js\<close>. \<open>BrowserStore\<close>: \<open>lib/key-value-store.js\<close>,
    \<open>services/session-store.js\<close>, \<open>lib/preload-store.js\<close>.
  \<^item> \<open>Store\<close>: the identity map of \<open>services/store.js\<close>; \<open>Category\<close>: \<open>models/category.js\<close>.
  \<^item> \<open>PostStream\<close> (fields, getters, windows, storing a post), \<open>PostStreamInv\<close> (its invariant),
    \<open>PostStaging\<close> (staging, committing, undoing), \<open>PostQueries\<close> (searches), \<open>PostLoading\<close> and
    \<open>PostWindow\<close> (loading more posts), \<open>PostRefresh\<close> (single posts and gaps), \<open>PostProtocol\<close> (all
    calls and answers interleaved): \<open>models/post-stream.js\<close>.
  \<^item> \<open>TopicTracking\<close>, \<open>TopicTrackingInv\<close>: \<open>models/topic-tracking-state.js\<close>.
  \<^item> \<open>ScreenTrack\<close>, \<open>ScreenTrackInv\<close>, \<open>ScreenTrackTimes\<close>: \<open>services/screen-track.js\<close> and
    \<open>lib/topic-list-tracker.js\<close>.
  \<^item> \<open>UserPresence\<close>: \<open>lib/user-presence.js\<close>. \<open>Presence\<close>, \<open>PresenceInv\<close>, \<open>PresenceChannels\<close>:
    \<open>services/presence.js\<close>.
  \<^item> \<open>AllowList\<close>, \<open>Sanitizer\<close>, \<open>SanitizerProofs\<close>: \<open>allow-lister.js\<close> and \<open>sanitizer.js\<close> of
    \<open>frontend/pretty-text/addon\<close>.
  \<^item> \<open>TextEdit\<close>, \<open>TextCommands\<close>, \<open>TextProofs\<close>: \<open>lib/textarea-text-manipulation.js\<close>.
  \<^item> \<open>ComposerModel\<close> (fields, derived state, checks, lengths, inserting text), \<open>ComposerSave\<close>
    (opening, requests, creating, editing, drafts), \<open>ComposerProofs\<close>, \<open>ComposerCreate\<close> (creating a
    post on top of the post stream), \<open>ComposerEdit\<close> (edits and drafts): \<open>models/composer.js\<close>, with the
    patterns of \<open>lib/quote.js\<close> and \<open>lib/utilities.js\<close> it uses.
  \<^item> \<open>EmojiStore\<close>: \<open>services/emoji-store.js\<close>. \<open>HistoryStore\<close>: \<open>services/history-store.js\<close>.
  \<^item> \<open>Translations\<close>, \<open>TranslationProofs\<close>: \<open>frontend/discourse-i18n/src/index.js\<close>. \<open>Formatter\<close>,
    \<open>FormatterProofs\<close>: \<open>lib/formatter.js\<close>.
  \<^item> \<open>PmTracking\<close>, \<open>PmTrackingProofs\<close>: \<open>services/pm-topic-tracking-state.js\<close>.
  \<^item> \<open>JsSort\<close> (the stable sort of arrays), \<open>FilterSuggestions\<close>, \<open>FilterProofs\<close>:
    \<open>lib/filter-suggestions.js\<close>.
  \<^item> \<open>EmailAddress\<close>: the pattern of addresses in \<open>lib/utilities.js\<close>. \<open>UserSearch\<close>, \<open>UserSearchProofs\<close>:
    \<open>lib/user-search.js\<close>, with \<open>lib/case-converter.js\<close>.
  \<^item> \<open>Transformers\<close>, \<open>TransformerProofs\<close>: \<open>lib/transformer.js\<close>.
  \<^item> \<open>ChunkedUpload\<close> (cutting the file, choosing and sending chunks, retries, aborting),
    \<open>ChunkedUploadProofs\<close> (invariant, round trip, errors), \<open>ChunkedUploadLive\<close> (completion):
    \<open>lib/uppy-chunked-upload.js\<close>.
  \<^item> \<open>ToMarkdown\<close> (elements, tags, cleaning, tidying), \<open>ToMarkdownProofs\<close> (its loops, tidied text),
    \<open>ToMarkdownDocs\<close> (tables and lists): \<open>lib/to-markdown.js\<close>, \<open>lib/markdown-image-builder.js\<close>.
  \<^item> \<open>BBCode\<close> (tags and blocks), \<open>BBCodeProofs\<close>, \<open>BBCodeInline\<close> (tokens and delimiters, the list of rules):
    \<open>features/bbcode-block.js\<close>, \<open>features/bbcode-inline.js\<close> and \<open>engine.js\<close> of
    \<open>frontend/discourse-markdown-it/src\<close>.
  \<^item> \<open>FormData\<close>, \<open>FormValidator\<close>: \<open>form-kit/lib/fk-form-data.js\<close>, \<open>form-kit/lib/validator.js\<close>.
  \<^item> \<open>UserStream\<close>: \<open>models/user-action.js\<close>, \<open>models/user-action-group.js\<close>, \<open>models/user-stream.js\<close>.
    \<open>PostSelection\<close>: \<open>lib/post-bulk-select-helper.js\<close>. \<open>PostActions\<close>: \<open>models/action-summary.js\<close>,
    the likes and the deletion of \<open>models/post.js\<close>.
  \<^item> \<open>ChatMessages\<close> (messages, reactions and the list of loaded messages), \<open>ChatPane\<close> (the events of an open channel
    or thread), \<open>ChatPending\<close> (what arrived while the user was away, and the requests for more): \<open>models/chat-message.js\<close>,
    \<open>lib/chat-messages-manager.js\<close>, \<open>lib/chat-channel-subscription-manager.js\<close>,
    \<open>lib/chat-channel-thread-subscription-manager.js\<close>, \<open>lib/chat-messages-loader.js\<close>, \<open>lib/chat-pane-state.js\<close> and
    \<open>services/chat-pane-pending-manager.js\<close> of the chat plugin.
  \<^item> \<open>ChatTracking\<close> (chat channels, their subscriptions, what is unread in them), \<open>ChatOrder\<close> (the lists of channels):
    \<open>services/chat-channels-manager.js\<close>, \<open>services/chat-subscriptions-manager.js\<close>,
    \<open>services/chat-tracking-state-manager.js\<close>, \<open>models/chat-tracking-state.js\<close>, \<open>lib/chat-threads-manager.js\<close> and the
    counts of \<open>models/chat-channel.js\<close> of the chat plugin.

  \<^bold>\<open>How code becomes definitions.\<close>
  A class with its tracked fields is a record, a method a function of the record, an error a value
  of a sum type, a plain object an association list in which the order of insertion is the order
  of the list. Where objects are shared and changed in place there is a heap: records of the
  store, the maps of the history store, the promises of the presence service. A method that awaits
  a request is two functions, up to the request and from its answer, and the answer is an argument;
  the step relations (\<open>pstep\<close>, \<open>track_step\<close>, \<open>screen_step\<close>, \<open>presence_step\<close>, \<open>dag_step\<close>, \<open>draft_step\<close>,
  \<open>pm_step\<close>, \<open>search_step\<close>, \<open>transformer_step\<close>) interleave them in any order; the events of an upload are folded over its state. Numbers are integers where the code counts; times are milliseconds.

  \<^bold>\<open>What the lemmas show.\<close>
  Of each component: the invariant of its state and that each operation keeps it, what each
  operation does on its branches, and, where the code promises one, the abstract operation it
  implements: a contiguous window for the loaded posts, a set of users for a presence channel, the
  slots of the stream with its gaps expanded for the search of a post number, the longest list of
  parts for the suffix trie, a simultaneous substitution for the placeholders of a translation, a set of
  pairs of emoji and user for the reactions of a chat message, a key for the order of chat channels. Round trips are proved where the code undoes itself: staging and
  undoing a post, surrounding and unwrapping a selection, a category and its slug path, leaving a
  page and coming back. Some theorems say what the code does where that is not what it
  seems to mean; the manifest lists these as findings.

  \<^bold>\<open>Fuel and bounds.\<close>
  Recursion through parent categories takes the number of categories as fuel, and the theorems on
  the category tree show that it is enough for a tree without cycles. The search for the address
  of a topic recurs at most once more (\<open>urlAt\<close> is shown to return with fuel one). The text commands
  need no fuel; text that is replaced is shorter than \<open>2 ^ 31\<close> characters. \<open>nextCallback\<close> of the
  transformers takes the length of its queue, and \<open>depth_enough\<close> shows that more changes nothing. Two loops may not
  end and are partial functions into options: cutting a file (\<open>slices\<close>) and narrowing the gaps between
  tags (\<open>narrow_gaps\<close>); theorems say when they return. All other loops recur on
  a list or have a measure.

  \<^bold>\<open>Parameters.\<close>
  \<open>JSON.parse\<close> and \<open>JSON.stringify\<close>, \<open>encodeURI\<close>, the packages \<open>xss\<close>, \<open>dag-map\<close>, \<open>immer\<close>,
  \<open>moment\<close> and \<open>make-plural\<close>, \<open>localeCompare\<close>, the callbacks of plugins, the answers of the
  server, the browser's HTML parser, the methods of markdown-it, the clock, the tables of emojis and translations are arguments of the definitions.

  \<^bold>\<open>Not modelled.\<close>
  The Rails server (Ruby), rendering (components, templates, modifiers), the rich text editor and
  the Markdown engine apart from BBCode (built on packages that are not in the repository), start-up wiring, the
  admin interface, plugins other than chat (of which the components, the composer, archives and drafts are
  left out too), themes, and the build tools. Within the files above: requests that
  only fetch and store a value, DOM measurement, console warnings and plugin callbacks. Patterns
  on text are for characters up to \<open>U+00FF\<close>.
\<close>

end
